(* ===== verification/Mqtt_Prelude.thy ===== *)
theory Mqtt_Prelude
  imports Main "HOL-Library.Word" "HOL-Library.Signed_Division"
begin

text \<open>
  Shared vocabulary of the development: bytes, C strings, the outcomes a C function can have
  beyond returning (undefined behaviour, \<^verbatim>\<open>exit\<close>, a failed \<^verbatim>\<open>assert\<close>), the sequencing of
  such outcomes, and the libc string routines the sources call.

  A fallible C function is modelled by a value of type \<open>'a res\<close>: \<open>Inl f\<close> is the fault the C
  abstract machine runs into, \<open>Inr x\<close> the value it returns.
\<close>

unbundle bit_operations_syntax

named_theorems res_simps \<open>simplification of sequenced C results\<close>
named_theorems buf_simps \<open>facts about byte buffers and cursors\<close>

section \<open>Faults and results\<close>

datatype fault =
    OverRead        \<comment> \<open>a read past the end of an object\<close>
  | OverWrite       \<comment> \<open>a write past the end of an object\<close>
  | UninitRead      \<comment> \<open>an indeterminate value is used\<close>
  | BadUnion        \<comment> \<open>a union member other than the stored one is read\<close>
  | NullDeref       \<comment> \<open>a null pointer is dereferenced or called\<close>
  | UseAfterFree    \<comment> \<open>freed storage is used\<close>
  | SignedOverflow  \<comment> \<open>a signed result leaves the range of \<open>int\<close>\<close>
  | AssertFail      \<comment> \<open>\<open>assert\<close> aborts the process\<close>
  | Exit int        \<comment> \<open>\<open>exit\<close> with a status\<close>

type_synonym 'a res = "fault + 'a"

definition bindR :: "'a res \<Rightarrow> ('a \<Rightarrow> 'b res) \<Rightarrow> 'b res" where
  "bindR m f = (case m of Inl e \<Rightarrow> Inl e | Inr x \<Rightarrow> f x)"

definition guardR :: "fault \<Rightarrow> bool \<Rightarrow> 'a res \<Rightarrow> 'a res" where
  "guardR e b m = (if b then m else Inl e)"

definition faults :: "'a res \<Rightarrow> bool" where
  "faults m \<longleftrightarrow> (case m of Inl _ \<Rightarrow> True | Inr _ \<Rightarrow> False)"

lemma bindR_simps [simp, res_simps]:
  "bindR (Inl e) f = Inl e"
  "bindR (Inr x) f = f x"
  by (simp_all add: bindR_def)

lemma bindR_assoc [res_simps]: "bindR (bindR m f) g = bindR m (\<lambda>x. bindR (f x) g)"
  by (cases m) simp_all

lemma bindR_eq_Inr [res_simps]: "bindR m f = Inr y \<longleftrightarrow> (\<exists>x. m = Inr x \<and> f x = Inr y)"
  by (cases m) simp_all

lemma bindR_eq_Inl [res_simps]:
  "bindR m f = Inl e \<longleftrightarrow> m = Inl e \<or> (\<exists>x. m = Inr x \<and> f x = Inl e)"
  by (cases m) simp_all

lemma bindR_InrE [elim?]:
  assumes "bindR m f = Inr y"
  obtains x where "m = Inr x" and "f x = Inr y"
  using assms by (auto simp: bindR_eq_Inr)

lemma guardR_simps [simp, res_simps]:
  "guardR e True m = m"
  "guardR e False m = Inl e"
  by (simp_all add: guardR_def)

lemma guardR_eq_Inr [res_simps]: "guardR e b m = Inr y \<longleftrightarrow> b \<and> m = Inr y"
  by (simp add: guardR_def)

lemma guardR_eq_Inl [res_simps]: "guardR e b m = Inl e' \<longleftrightarrow> (\<not> b \<and> e = e') \<or> (b \<and> m = Inl e')"
  by (auto simp: guardR_def)

lemma bindR_cong [fundef_cong]:
  "m = m' \<Longrightarrow> (\<And>x. m' = Inr x \<Longrightarrow> f x = f' x) \<Longrightarrow> bindR m f = bindR m' f'"
  by (cases m') simp_all

lemma guardR_cong [fundef_cong]:
  "b = b' \<Longrightarrow> (b' \<Longrightarrow> m = m') \<Longrightarrow> guardR e b m = guardR e b' m'"
  by (simp add: guardR_def)

lemma faults_simps [simp]: "faults (Inl e)" "\<not> faults (Inr x)"
  by (simp_all add: faults_def)

lemma faults_iff: "faults m \<longleftrightarrow> (\<exists>e. m = Inl e)"
  by (cases m) simp_all

section \<open>Machine integers\<close>

type_synonym byte = "8 word"
type_synonym u16 = "16 word"
type_synonym u32 = "32 word"

definition INT_MAX :: int where "INT_MAX = 2147483647"
definition INT_MIN :: int where "INT_MIN = - 2147483648"

definition in_int :: "int \<Rightarrow> bool" where
  "in_int n \<longleftrightarrow> INT_MIN \<le> n \<and> n \<le> INT_MAX"

lemmas int_range_defs = in_int_def INT_MIN_def INT_MAX_def

lemma sdiv_nonneg [simp]: "0 \<le> a \<Longrightarrow> 0 < b \<Longrightarrow> (a :: int) sdiv b = a div b"
  by (cases "a = 0") (simp_all add: signed_divide_int_def sgn_if)

lemma smod_nonneg [simp]: "0 \<le> a \<Longrightarrow> 0 < b \<Longrightarrow> (a :: int) smod b = a mod b"
  by (cases "a = 0") (simp_all add: signed_modulo_int_def sgn_if)

lemma unat_byte_less [buf_simps]: "unat (b :: byte) < 256"
proof -
  have "unat b < 2 ^ LENGTH(8)" by (rule unsigned_less)
  then show ?thesis by simp
qed

lemma unat_byte_inject: "unat (a :: byte) = unat b \<longleftrightarrow> a = b"
  by (metis unsigned_word_eqI)

lemma uint_byte_less [buf_simps]: "uint (b :: byte) < 256"
proof -
  have "uint b < 2 ^ LENGTH(8)" by (rule unsigned_less)
  then show ?thesis by simp
qed

lemma byte_of_nat_unat [simp]: "n < 256 \<Longrightarrow> unat (word_of_nat n :: byte) = n"
  by (simp add: unat_of_nat)

lemma all_bytes: "(\<And>n. n < 256 \<Longrightarrow> P (word_of_nat n :: byte)) \<Longrightarrow> P b"
proof -
  assume "\<And>n. n < 256 \<Longrightarrow> P (word_of_nat n :: byte)"
  then have "P (word_of_nat (unat b))" using unat_byte_less by blast
  then show ?thesis by simp
qed

lemma byte_cases: "\<forall>n \<in> set [0..<256]. P (word_of_nat n :: byte) \<Longrightarrow> P b"
  by (rule all_bytes) simp

section \<open>Return codes of the transport\<close>

definition SOCKET_ERROR :: int where "SOCKET_ERROR = -1"
definition TCPSOCKET_COMPLETE :: int where "TCPSOCKET_COMPLETE = 0"
definition TCPSOCKET_INTERRUPTED :: int where "TCPSOCKET_INTERRUPTED = -22"
definition PAHO_MEMORY_ERROR :: int where "PAHO_MEMORY_ERROR = -99"

lemmas transport_codes = SOCKET_ERROR_def TCPSOCKET_COMPLETE_def TCPSOCKET_INTERRUPTED_def PAHO_MEMORY_ERROR_def

section \<open>C strings\<close>

text \<open>
  The bytes of a character array up to its terminating NUL, and the libc searches on them. A
  result of \<open>None\<close> is the null pointer, \<open>Some i\<close> a pointer \<open>i\<close> characters into the first argument.
\<close>

definition NUL :: char where "NUL = CHR 0x00"
definition NL :: char where "NL = CHR 0x0A"
definition TAB :: char where "TAB = CHR 0x09"
definition SP :: char where "SP = CHR 0x20"

definition c_str :: "string \<Rightarrow> string" where
  "c_str s = takeWhile (\<lambda>c. c \<noteq> NUL) s"

fun strchr :: "string \<Rightarrow> char \<Rightarrow> nat option" where
  "strchr [] c = None"
| "strchr (x # xs) c = (if x = c then Some 0 else map_option Suc (strchr xs c))"

fun strstr :: "string \<Rightarrow> string \<Rightarrow> nat option" where
  "strstr [] k = (if k = [] then Some 0 else None)"
| "strstr (x # xs) k = (if take (length k) (x # xs) = k then Some 0 else map_option Suc (strstr xs k))"

definition is_blank :: "char \<Rightarrow> bool" where
  "is_blank c \<longleftrightarrow> c = SP \<or> c = TAB"

lemma c_str_id: "NUL \<notin> set s \<Longrightarrow> c_str s = s"
  unfolding c_str_def by (rule takeWhile_eq_all_conv [THEN iffD2]) auto

lemma strchr_append: "c \<notin> set xs \<Longrightarrow> strchr (xs @ c # ys) c = Some (length xs)"
  by (induction xs) auto

lemma strchr_None: "strchr s c = None \<longleftrightarrow> c \<notin> set s"
  by (induction s) auto

lemma strstr_Some: "strstr s k = Some p \<Longrightarrow> p + length k \<le> length s \<and> take (length k) (drop p s) = k"
proof (induction s arbitrary: p)
  case Nil
  then show ?case by (simp split: if_splits)
next
  case (Cons x xs)
  show ?case
  proof (cases "take (length k) (x # xs) = k")
    case True
    then have "length k \<le> length (x # xs)"
      using length_take [of "length k" "x # xs"] by (metis min.cobounded1)
    with True Cons.prems show ?thesis by simp
  next
    case False
    with Cons.prems obtain q where "strstr xs k = Some q" and "p = Suc q"
      by auto
    with Cons.IH show ?thesis by simp
  qed
qed

lemma strstr_self: "strstr k k = Some 0"
  by (cases k) simp_all

section \<open>malloc\<close>

text \<open>
  The allocator is an argument of the functions that call it: \<open>alloc n\<close> tells whether it can
  serve a request of \<open>n\<close> bytes. Requests above \<^verbatim>\<open>PTRDIFF_MAX\<close> always fail. A size computed from a
  negative \<open>int\<close> is reduced modulo \<open>2 ^ 64\<close> by its conversion to \<^verbatim>\<open>size_t\<close>.
\<close>

definition PTRDIFF_MAX :: int where "PTRDIFF_MAX = 2 ^ 63 - 1"

definition malloc_ok :: "(int \<Rightarrow> bool) \<Rightarrow> int \<Rightarrow> bool" where
  "malloc_ok alloc n \<longleftrightarrow> n mod 2 ^ 64 \<le> PTRDIFF_MAX \<and> alloc (n mod 2 ^ 64)"

lemma malloc_ok_neg: "- (2 ^ 62) \<le> n \<Longrightarrow> n < 0 \<Longrightarrow> \<not> malloc_ok alloc n"
proof -
  assume "- (2 ^ 62) \<le> n" and "n < 0"
  then have "n mod 2 ^ 64 = n + 2 ^ 64"
    using mod_pos_pos_trivial [of "n + 2 ^ 64" "2 ^ 64"] by simp
  with \<open>- (2 ^ 62) \<le> n\<close> show ?thesis by (simp add: malloc_ok_def PTRDIFF_MAX_def)
qed

section \<open>Decimal numbers\<close>

definition dec_digit :: "nat \<Rightarrow> char" where
  "dec_digit d = char_of (48 + d)"

fun dec_str :: "nat \<Rightarrow> string" where
  "dec_str n = (if n < 10 then [dec_digit n] else dec_str (n div 10) @ [dec_digit (n mod 10)])"

declare dec_str.simps [simp del]

lemma dec_digit_simps:
  "dec_digit 0 = CHR ''0''" "dec_digit (Suc 0) = CHR ''1''" "dec_digit 1 = CHR ''1''"
  by code_simp+

section \<open>Linear search\<close>

fun first_index :: "('e \<Rightarrow> bool) \<Rightarrow> 'e list \<Rightarrow> nat option" where
  "first_index P [] = None"
| "first_index P (x # xs) = (if P x then Some 0 else map_option Suc (first_index P xs))"

lemma first_index_Some:
  "first_index P xs = Some i \<longleftrightarrow> i < length xs \<and> P (xs ! i) \<and> (\<forall>j < i. \<not> P (xs ! j))"
proof (induction xs arbitrary: i)
  case (Cons x xs)
  show ?case
    using Cons.IH by (cases i) (auto simp: less_Suc_eq_0_disj)
qed simp

lemma first_index_None: "first_index P xs = None \<longleftrightarrow> (\<forall>x \<in> set xs. \<not> P x)"
  by (induction xs) auto

lemma first_index_unique:
  assumes "i < length xs" and "P (xs ! i)" and "\<And>j. j < length xs \<Longrightarrow> P (xs ! j) \<Longrightarrow> j = i"
  shows "first_index P xs = Some i"
  unfolding first_index_Some
proof (intro conjI allI impI)
  fix j assume "j < i"
  with assms(1) have "j < length xs" by simp
  with assms(3) [of j] \<open>j < i\<close> show "\<not> P (xs ! j)" by auto
qed (use assms(1,2) in simp_all)

lemma distinct_map_nth:
  assumes "distinct (map g xs)" and "i < length xs" and "j < length xs" and "g (xs ! i) = g (xs ! j)"
  shows "i = j"
  using nth_eq_iff_index_eq [OF assms(1), of i j] assms(2-4) by simp

lemma first_index_cong: "(\<And>x. x \<in> set xs \<Longrightarrow> P x = Q x) \<Longrightarrow> first_index P xs = first_index Q xs"
  by (induction xs) auto

section \<open>Removing by index\<close>

definition remove_nth :: "nat \<Rightarrow> 'a list \<Rightarrow> 'a list" where
  "remove_nth i xs = take i xs @ drop (Suc i) xs"

lemma remove_nth_update [simp]: "remove_nth i (xs[i := x]) = remove_nth i xs"
  by (simp add: remove_nth_def)

section \<open>Search with a remembered position\<close>

text \<open>
  A search that tries a remembered position before it scans. Both the topic table
  (\<^verbatim>\<open>decode_msg_handle\<close> and its \<^verbatim>\<open>pHandle\<close>) and the linked list (\<^verbatim>\<open>ListFindItem\<close> and
  \<^verbatim>\<open>current\<close>) work this way. \<open>scope\<close> is the list of entries searched, \<open>cached\<close> the remembered
  position, \<open>found\<close> the position the search reports.
\<close>

locale cached_search =
  fixes inv :: "'s \<Rightarrow> bool"
    and scope :: "'s \<Rightarrow> 'e list"
    and cached :: "'s \<Rightarrow> nat option"
    and matches :: "'k \<Rightarrow> 'e \<Rightarrow> bool"
    and found :: "'k \<Rightarrow> 's \<Rightarrow> nat option"
  assumes found_cached:
    "inv s \<Longrightarrow> cached s = Some i \<Longrightarrow> i < length (scope s) \<Longrightarrow> matches k (scope s ! i) \<Longrightarrow>
     found k s = Some i"
    and found_scan:
    "inv s \<Longrightarrow> \<not> (\<exists>i. cached s = Some i \<and> i < length (scope s) \<and> matches k (scope s ! i)) \<Longrightarrow>
     found k s = first_index (matches k) (scope s)"
begin

text \<open>The remembered position never changes what is found when at most one entry matches.\<close>

lemma found_first:
  assumes "inv s"
    and uniq: "\<And>i j. i < length (scope s) \<Longrightarrow> j < length (scope s) \<Longrightarrow>
      matches k (scope s ! i) \<Longrightarrow> matches k (scope s ! j) \<Longrightarrow> i = j"
  shows "found k s = first_index (matches k) (scope s)"
proof (cases "\<exists>i. cached s = Some i \<and> i < length (scope s) \<and> matches k (scope s ! i)")
  case True
  then obtain i where i: "cached s = Some i" "i < length (scope s)" "matches k (scope s ! i)"
    by blast
  have "first_index (matches k) (scope s) = Some i"
    using i uniq by (intro first_index_unique) auto
  with found_cached [OF \<open>inv s\<close> i] show ?thesis by simp
next
  case False
  with \<open>inv s\<close> show ?thesis by (rule found_scan)
qed

text \<open>Whatever the remembered position, a hit is reported exactly when some entry matches.\<close>

lemma found_None:
  assumes "inv s"
  shows "found k s = None \<longleftrightarrow> (\<forall>e \<in> set (scope s). \<not> matches k e)"
proof (cases "\<exists>i. cached s = Some i \<and> i < length (scope s) \<and> matches k (scope s ! i)")
  case True
  with found_cached [OF \<open>inv s\<close>] show ?thesis by (metis nth_mem option.distinct(1))
next
  case False
  with found_scan [OF \<open>inv s\<close> False] show ?thesis by (simp add: first_index_None)
qed

lemma found_Some:
  assumes "inv s" and "found k s = Some i"
  shows "i < length (scope s)" and "matches k (scope s ! i)"
proof -
  have "i < length (scope s) \<and> matches k (scope s ! i)"
  proof (cases "\<exists>i. cached s = Some i \<and> i < length (scope s) \<and> matches k (scope s ! i)")
    case True
    with found_cached [OF \<open>inv s\<close>] assms(2) show ?thesis by auto
  next
    case False
    have "first_index (matches k) (scope s) = Some i"
      using found_scan [OF \<open>inv s\<close> False] assms(2) by simp
    then show ?thesis by (simp add: first_index_Some)
  qed
  then show "i < length (scope s)" and "matches k (scope s ! i)" by simp_all
qed

end

end
