(* ===== verification/Config_File.thy ===== *)
theory Config_File
  imports Mqtt_Prelude
begin

text \<open>
  The configuration file reader of \<^verbatim>\<open>lib/init.c\<close>, \<^verbatim>\<open>GetInitKey\<close>, and the libc \<^verbatim>\<open>atoi\<close> its
  callers apply to the values. The file system is an argument: a map from file names to
  contents. The reader is modelled character by character with its two 1024 byte buffers, so
  that an overlong line or section name is the buffer overflow it is in C.

  Main result: on every file of section headers, entries with blanks around their parts, comments, empty
  lines and other text, \<open>GetInitKey\<close> returns the value of the key's first entry in the first section of
  the given name.
\<close>

section \<open>GetInitKey\<close>

text \<open>
  What the function returns a pointer to: its static buffer \<^verbatim>\<open>tmpstr\<close>, 1024 bytes long, or a
  string literal, which is no longer than its text and the terminator.
\<close>

datatype init_val = Tmpstr string | Lit string

fun val_str :: "init_val \<Rightarrow> string" where
  "val_str (Tmpstr s) = s"
| "val_str (Lit s) = s"

definition LINE_MAX :: nat where "LINE_MAX = 1024"

text \<open>
  The header that is looked for is put together in \<^verbatim>\<open>tmpstr\<close>, which has 1024 bytes, and compared with
  the line.
\<close>

datatype line_result = Next bool | Break | Found string

definition compare_header :: "string \<Rightarrow> bool \<Rightarrow> string \<Rightarrow> line_result res" where
  "compare_header title flag line =
     guardR OverWrite (length title + 3 \<le> LINE_MAX) (Inr (Next (flag \<or> line = ''['' @ title @ '']'')))"

text \<open>
  One complete line (lines 244 to 299): skip it, stop at the next section, report the value, or
  go on with \<^verbatim>\<open>flag\<close> telling whether the section's header has been met. A value fits into \<^verbatim>\<open>tmpstr\<close>
  because its line fits into \<^verbatim>\<open>tmpLine\<close>.
\<close>

definition process_line :: "string \<Rightarrow> string \<Rightarrow> bool \<Rightarrow> string \<Rightarrow> line_result res" where
  "process_line title key flag line =
     (if line = [] \<or> hd line = CHR ''#'' \<or> hd line = CHR '';'' then Inr (Next flag)
      else if hd line = CHR ''['' \<and> flag then Inr Break
      else (case (if hd line = CHR ''['' then None else strchr line (CHR ''='')) of
          Some tmp \<Rightarrow>
            if flag
            then (let name = take tmp line; val = drop (Suc tmp) line in
                  case strstr name key of
                    None \<Rightarrow> Inr (Next flag)
                  | Some p \<Rightarrow>
                      if 0 < p \<and> \<not> is_blank (name ! (p - 1)) then Inr (Next flag)
                      else (let r = drop (p + length key) name in
                            if r = [] \<or> is_blank (hd r) then Inr (Found (dropWhile is_blank val))
                            else Inr (Next flag)))
            else compare_header title flag line
        | None \<Rightarrow> compare_header title flag line))"

text \<open>
  The loop over \<^verbatim>\<open>fgetc\<close>: \<open>acc\<close> is \<^verbatim>\<open>tmpLine[0..i)\<close>; storing the next character, or the
  terminator at end of file, needs \<open>i < 1024\<close>.
\<close>

fun GetInitKey_loop :: "string \<Rightarrow> string \<Rightarrow> bool \<Rightarrow> string \<Rightarrow> string \<Rightarrow> string option res" where
  "GetInitKey_loop title key flag acc [] =
     guardR OverWrite (length acc < LINE_MAX)
       (case process_line title key flag (c_str acc) of
          Inl f \<Rightarrow> Inl f
        | Inr (Found v) \<Rightarrow> Inr (Some v)
        | Inr _ \<Rightarrow> Inr None)"
| "GetInitKey_loop title key flag acc (c # cs) =
     guardR OverWrite (length acc < LINE_MAX)
       (if c = NL
        then (case process_line title key flag (c_str acc) of
                Inl f \<Rightarrow> Inl f
              | Inr (Found v) \<Rightarrow> Inr (Some v)
              | Inr Break \<Rightarrow> Inr None
              | Inr (Next flag') \<Rightarrow> GetInitKey_loop title key flag' [] cs)
        else GetInitKey_loop title key flag (acc @ [c]) cs)"

type_synonym files = "string \<rightharpoonup> string"

definition GetInitKey :: "files \<Rightarrow> string \<Rightarrow> string \<Rightarrow> string \<Rightarrow> init_val res" where
  "GetInitKey fs filename title key =
     (case fs filename of
        None \<Rightarrow> Inr (Lit ''have no such file'')
      | Some content \<Rightarrow>
          bindR (GetInitKey_loop title key False [] content)
            (\<lambda>r. Inr (case r of Some v \<Rightarrow> Tmpstr v | None \<Rightarrow> Lit '''')))"

section \<open>atoi\<close>

definition is_space :: "char \<Rightarrow> bool" where
  "is_space c \<longleftrightarrow> c \<in> {SP, TAB, NL, CHR 0x0B, CHR 0x0C, CHR 0x0D}"

definition is_digit :: "char \<Rightarrow> bool" where
  "is_digit c \<longleftrightarrow> 48 \<le> (of_char c :: int) \<and> (of_char c :: int) \<le> 57"

fun digits_val :: "int \<Rightarrow> string \<Rightarrow> int" where
  "digits_val n [] = n"
| "digits_val n (c # cs) = (if is_digit c then digits_val (10 * n + (of_char c - 48)) cs else n)"

definition atoi :: "string \<Rightarrow> int res" where
  "atoi s =
     (let t = dropWhile is_space s;
          n = (case t of
                 [] \<Rightarrow> 0
               | c # cs \<Rightarrow> if c = CHR ''-'' then - digits_val 0 cs
                         else if c = CHR ''+'' then digits_val 0 cs
                         else digits_val 0 t)
      in guardR SignedOverflow (in_int n) (Inr n))"

section \<open>Configuration files\<close>

text \<open>
  The lines of a configuration file. An entry has blanks before and after its key and before its value.
  Other text has neither an equals sign nor one of the special characters at its beginning.
\<close>

datatype conf_line =
    Header string
  | Entry string string string string string
  | Remark char string
  | Empty_Line
  | Other string

fun line_text :: "conf_line \<Rightarrow> string" where
  "line_text (Header n) = ''['' @ n @ '']''"
| "line_text (Entry a k b d v) = a @ k @ b @ ''='' @ d @ v"
| "line_text (Remark c s) = c # s"
| "line_text Empty_Line = []"
| "line_text (Other s) = s"

definition file_text :: "conf_line list \<Rightarrow> string" where
  "file_text ls = concat (map (\<lambda>l. line_text l @ [NL]) ls)"

definition blanks :: "string \<Rightarrow> bool" where
  "blanks s \<longleftrightarrow> (\<forall>c \<in> set s. is_blank c)"

definition no_blanks :: "string \<Rightarrow> bool" where
  "no_blanks s \<longleftrightarrow> (\<forall>c \<in> set s. \<not> is_blank c)"

definition special :: "char \<Rightarrow> bool" where
  "special c \<longleftrightarrow> c = CHR ''#'' \<or> c = CHR '';'' \<or> c = CHR ''[''"

fun line_ok :: "conf_line \<Rightarrow> bool" where
  "line_ok (Header n) \<longleftrightarrow> True"
| "line_ok (Entry a k b d v) \<longleftrightarrow>
     blanks a \<and> blanks b \<and> blanks d \<and> k \<noteq> [] \<and> no_blanks k \<and> CHR ''='' \<notin> set k \<and> \<not> special (hd (a @ k)) \<and>
     (v = [] \<or> \<not> is_blank (hd v))"
| "line_ok (Remark c s) \<longleftrightarrow> c = CHR ''#'' \<or> c = CHR '';''"
| "line_ok Empty_Line \<longleftrightarrow> True"
| "line_ok (Other s) \<longleftrightarrow> s \<noteq> [] \<and> \<not> special (hd s) \<and> CHR ''='' \<notin> set s"

definition file_ok :: "conf_line list \<Rightarrow> bool" where
  "file_ok ls \<longleftrightarrow>
     (\<forall>l \<in> set ls. line_ok l \<and> (\<forall>c \<in> set (line_text l). c \<noteq> NL \<and> c \<noteq> NUL) \<and> length (line_text l) < LINE_MAX)"

text \<open>
  What a file says: the lines between the first header of that name and the next header are the section; the value is that
  of its first entry with the key.
\<close>

fun is_header :: "conf_line \<Rightarrow> bool" where
  "is_header (Header n) \<longleftrightarrow> True"
| "is_header _ \<longleftrightarrow> False"

definition section_lines :: "string \<Rightarrow> conf_line list \<Rightarrow> conf_line list" where
  "section_lines title ls = takeWhile (\<lambda>l. \<not> is_header l) (tl (dropWhile (\<lambda>l. l \<noteq> Header title) ls))"

fun entry_of :: "conf_line \<Rightarrow> (string \<times> string) option" where
  "entry_of (Entry a k b d v) = Some (k, v)"
| "entry_of _ = None"

definition lookup_file :: "conf_line list \<Rightarrow> string \<Rightarrow> string \<Rightarrow> string option" where
  "lookup_file ls title key = map_of (List.map_filter entry_of (section_lines title ls)) key"

definition key_ok :: "string \<Rightarrow> bool" where
  "key_ok k \<longleftrightarrow> k \<noteq> [] \<and> no_blanks k"

definition title_fits :: "string \<Rightarrow> bool" where
  "title_fits t \<longleftrightarrow> length t + 3 \<le> LINE_MAX"

section \<open>Reading a file\<close>

fun run_lines :: "string \<Rightarrow> string \<Rightarrow> bool \<Rightarrow> string list \<Rightarrow> string option" where
  "run_lines title key flag [] = None"
| "run_lines title key flag (l # ls) =
     (case process_line title key flag l of
        Inr (Found v) \<Rightarrow> Some v
      | Inr (Next flag') \<Rightarrow> run_lines title key flag' ls
      | _ \<Rightarrow> None)"

definition wf_line :: "string \<Rightarrow> bool" where
  "wf_line l \<longleftrightarrow> (\<forall>c \<in> set l. c \<noteq> NL \<and> c \<noteq> NUL) \<and> length l < LINE_MAX"

lemma compare_header_fits: "title_fits t \<Longrightarrow> compare_header t flag l = Inr (Next (flag \<or> l = ''['' @ t @ '']''))"
  by (simp add: compare_header_def title_fits_def)

lemma process_line_fits: "title_fits t \<Longrightarrow> \<exists>r. process_line t k flag l = Inr r"
  by (auto simp: process_line_def compare_header_fits Let_def split: option.split)

lemma GetInitKey_loop_line:
  assumes "\<forall>c \<in> set l. c \<noteq> NL" and "length (acc @ l) < LINE_MAX"
  shows "GetInitKey_loop t k flag acc (l @ rest) = GetInitKey_loop t k flag (acc @ l) rest"
  using assms by (induction l arbitrary: acc) auto

lemma GetInitKey_loop_lines:
  assumes "title_fits t" and "\<forall>l \<in> set ls. wf_line l"
  shows "GetInitKey_loop t k flag [] (concat (map (\<lambda>l. l @ [NL]) ls)) = Inr (run_lines t k flag ls)"
  using assms(2)
proof (induction ls arbitrary: flag)
  case Nil
  show ?case by (simp add: process_line_def c_str_def LINE_MAX_def)
next
  case (Cons l ls)
  then have "\<forall>c \<in> set l. c \<noteq> NL" and "NUL \<notin> set l" and "length l < LINE_MAX"
    by (auto simp: wf_line_def)
  moreover from this(2) have "c_str l = l" by (rule c_str_id)
  moreover obtain r where "process_line t k flag l = Inr r" using process_line_fits [OF assms(1)] by blast
  ultimately show ?case
    using Cons.IH Cons.prems
    by (simp add: GetInitKey_loop_line split: line_result.split)
qed

text \<open>A key between blanks is found exactly when it is the one looked for.\<close>

lemma infix_no_blanks:
  assumes "no_blanks k" "k \<noteq> []" "blanks a" "blanks b" "no_blanks n"
    and split: "a @ n @ b = x @ k @ y" and before: "x = [] \<or> is_blank (last x)" and after: "y = [] \<or> is_blank (hd y)"
  shows "n = k"
proof -
  have hd: "\<not> is_blank (hd k)" and last: "\<not> is_blank (last k)" using assms(1,2) by (auto simp: no_blanks_def)
  have "\<exists>u. x = a @ u \<and> n @ b = u @ k @ y"
  proof -
    from split consider us where "a = x @ us" "us @ n @ b = k @ y" | us where "a @ us = x" "n @ b = us @ k @ y"
      using append_eq_append_conv2 [of a "n @ b" x "k @ y"] by blast
    then show ?thesis
    proof cases
      case (1 us)
      have "us = []"
      proof (rule ccontr)
        assume ne: "us \<noteq> []"
        then have "hd us = hd k" using 1(2) assms(2) by (metis hd_append2)
        moreover have "hd us \<in> set a" using 1(1) ne by simp
        ultimately show False using assms(3) hd by (simp add: blanks_def)
      qed
      with 1 show ?thesis by simp
    qed auto
  qed
  then obtain u where u: "x = a @ u" "n @ b = (u @ k) @ y" by auto
  have "\<exists>z. y = z @ b \<and> n = u @ k @ z"
  proof -
    from u(2) consider us where "n = (u @ k) @ us" "us @ b = y" | us where "n @ us = u @ k" "b = us @ y"
      using append_eq_append_conv2 [of n b "u @ k" y] by blast
    then show ?thesis
    proof cases
      case (2 us)
      have "us = []"
      proof (rule ccontr)
        assume ne: "us \<noteq> []"
        then have "last us = last k" using 2(1) assms(2) by (metis last_appendR)
        moreover have "last us \<in> set b" using 2(2) ne by simp
        ultimately show False using assms(4) last by (simp add: blanks_def)
      qed
      with 2 show ?thesis by auto
    qed auto
  qed
  then obtain z where z: "y = z @ b" "n = u @ k @ z" by blast
  have "u = []"
  proof (rule ccontr)
    assume ne: "u \<noteq> []"
    then have "is_blank (last u)" using before u(1) by auto
    moreover have "last u \<in> set n" using z(2) ne by simp
    ultimately show False using assms(5) by (simp add: no_blanks_def)
  qed
  moreover have "z = []"
  proof (rule ccontr)
    assume ne: "z \<noteq> []"
    then have "is_blank (hd z)" using after z(1) by auto
    moreover have "hd z \<in> set n" using z(2) ne by simp
    ultimately show False using assms(5) by (simp add: no_blanks_def)
  qed
  ultimately show ?thesis using z(2) by simp
qed

lemma strstr_after_blanks:
  assumes "blanks a" "key_ok k"
  shows "strstr (a @ k @ b) k = Some (length a)"
  using assms(1)
proof (induction a)
  case Nil
  show ?case using assms(2) by (cases k) (simp_all add: key_ok_def)
next
  case (Cons c a)
  have "take (length k) ((c # a) @ k @ b) \<noteq> k"
  proof
    assume "take (length k) ((c # a) @ k @ b) = k"
    then have "hd k = c" using assms(2) by (cases k) (auto simp: key_ok_def)
    then show False using assms(2) Cons.prems by (auto simp: key_ok_def no_blanks_def blanks_def)
  qed
  with Cons show ?case by (simp add: blanks_def)
qed

lemma last_take_nth: "0 < p \<Longrightarrow> p \<le> length s \<Longrightarrow> last (take p s) = s ! (p - 1)"
  by (cases s) (auto simp: last_conv_nth)

lemma key_between_blanks:
  assumes "blanks a" "blanks b" "no_blanks n" "key_ok k"
  shows "(\<exists>p. strstr (a @ n @ b) k = Some p \<and> \<not> (0 < p \<and> \<not> is_blank ((a @ n @ b) ! (p - 1))) \<and>
      (drop (p + length k) (a @ n @ b) = [] \<or> is_blank (hd (drop (p + length k) (a @ n @ b))))) \<longleftrightarrow> n = k"
proof
  assume "n = k"
  moreover have "0 < length a \<Longrightarrow> is_blank ((a @ k @ b) ! (length a - 1))" using assms(1) by (simp add: nth_append blanks_def)
  moreover have "drop (length a + length k) (a @ k @ b) = [] \<or> is_blank (hd (drop (length a + length k) (a @ k @ b)))"
    using assms(2) by (cases b) (simp_all add: blanks_def)
  ultimately show "\<exists>p. strstr (a @ n @ b) k = Some p \<and> \<not> (0 < p \<and> \<not> is_blank ((a @ n @ b) ! (p - 1))) \<and>
      (drop (p + length k) (a @ n @ b) = [] \<or> is_blank (hd (drop (p + length k) (a @ n @ b))))"
    using strstr_after_blanks [OF assms(1,4), of b] by blast
next
  let ?s = "a @ n @ b"
  assume "\<exists>p. strstr ?s k = Some p \<and> \<not> (0 < p \<and> \<not> is_blank (?s ! (p - 1))) \<and>
      (drop (p + length k) ?s = [] \<or> is_blank (hd (drop (p + length k) ?s)))"
  then obtain p where p: "strstr ?s k = Some p" "0 < p \<longrightarrow> is_blank (?s ! (p - 1))"
    "drop (p + length k) ?s = [] \<or> is_blank (hd (drop (p + length k) ?s))" by blast
  from strstr_Some [OF p(1)] have le: "p + length k \<le> length ?s" and k: "take (length k) (drop p ?s) = k" by auto
  have "?s = take p ?s @ take (length k) (drop p ?s) @ drop (length k) (drop p ?s)" by (simp only: append_take_drop_id)
  then have "?s = take p ?s @ k @ drop (p + length k) ?s" unfolding k by (simp only: drop_drop add.commute)
  moreover have "take p ?s = [] \<or> is_blank (last (take p ?s))"
  proof (cases "p = 0")
    case False
    then have "last (take p ?s) = ?s ! (p - 1)" using le by (intro last_take_nth) auto
    then have "is_blank (last (take p ?s))" using False p(2) by (simp only:)
    then show ?thesis ..
  qed simp
  ultimately show "n = k"
    using infix_no_blanks [of k a b n "take p ?s" "drop (p + length k) ?s"] assms p(3) unfolding key_ok_def by blast
qed

lemma equals_not_blank: "blanks s \<Longrightarrow> CHR ''='' \<notin> set s"
proof -
  have "\<not> is_blank (CHR ''='')" by (simp add: is_blank_def SP_def TAB_def)
  then show "blanks s \<Longrightarrow> CHR ''='' \<notin> set s" by (auto simp: blanks_def)
qed

lemma entry_parts:
  assumes "line_ok (Entry a n b d v)"
  shows "strchr (line_text (Entry a n b d v)) (CHR ''='') = Some (length (a @ n @ b))"
    and "take (length (a @ n @ b)) (line_text (Entry a n b d v)) = a @ n @ b"
    and "dropWhile is_blank (drop (Suc (length (a @ n @ b))) (line_text (Entry a n b d v))) = v"
    and "line_text (Entry a n b d v) \<noteq> []" and "\<not> special (hd (line_text (Entry a n b d v)))"
proof -
  have "CHR ''='' \<notin> set (a @ n @ b)" using assms equals_not_blank by auto
  from strchr_append [OF this, of "d @ v"]
  show "strchr (line_text (Entry a n b d v)) (CHR ''='') = Some (length (a @ n @ b))" by simp
  show "take (length (a @ n @ b)) (line_text (Entry a n b d v)) = a @ n @ b" by simp
  have "drop (Suc (length (a @ n @ b))) (line_text (Entry a n b d v)) = d @ v" by simp
  moreover have "dropWhile is_blank (d @ v) = v" using assms by (cases v) (auto simp: blanks_def)
  ultimately show "dropWhile is_blank (drop (Suc (length (a @ n @ b))) (line_text (Entry a n b d v))) = v" by simp
  show "line_text (Entry a n b d v) \<noteq> []" "\<not> special (hd (line_text (Entry a n b d v)))" using assms by (cases a; auto)+
qed

lemma process_entry:
  assumes "line_ok (Entry a n b d v)" "key_ok k"
  shows "process_line t k True (line_text (Entry a n b d v)) = Inr (if n = k then Found v else Next True)"
proof -
  note p = entry_parts [OF assms(1)]
  define l where "l = line_text (Entry a n b d v)"
  define s where "s = a @ n @ b"
  have l: "l \<noteq> []" "hd l \<noteq> CHR ''#''" "hd l \<noteq> CHR '';''" "hd l \<noteq> CHR ''[''" "strchr l (CHR ''='') = Some (length s)"
    "take (length s) l = s" "dropWhile is_blank (drop (Suc (length s)) l) = v"
    using p by (auto simp: l_def s_def special_def simp del: line_text.simps)
  have "process_line t k True l =
      (case strstr s k of
         None \<Rightarrow> Inr (Next True)
       | Some p \<Rightarrow> if \<not> (0 < p \<and> \<not> is_blank (s ! (p - 1))) \<and> (drop (p + length k) s = [] \<or> is_blank (hd (drop (p + length k) s)))
           then Inr (Found v) else Inr (Next True))"
    using l by (auto simp: process_line_def Let_def split: option.split)
  then show ?thesis
    using key_between_blanks [of a b n k, folded s_def] assms unfolding l_def [symmetric] by (auto split: option.split)
qed

lemma process_before:
  assumes "title_fits t" "line_ok l"
  shows "process_line t k False (line_text l) = Inr (Next (l = Header t))"
proof (cases l)
  case (Entry a n b d v)
  with entry_parts [of a n b d v] assms show ?thesis
    by (auto simp: process_line_def compare_header_fits special_def simp del: line_text.simps)
next
  case (Other s)
  with assms show ?thesis by (cases s) (auto simp: process_line_def compare_header_fits special_def split: option.split)
qed (use assms in \<open>auto simp: process_line_def compare_header_fits\<close>)

lemma process_inside:
  assumes "title_fits t" "line_ok l" "\<not> is_header l" "entry_of l = None"
  shows "process_line t k True (line_text l) = Inr (Next True)"
proof (cases l)
  case (Other s)
  with assms have "strchr s (CHR ''='') = None" by (simp add: strchr_None)
  with Other assms show ?thesis by (auto simp: process_line_def compare_header_fits special_def)
qed (use assms in \<open>auto simp: process_line_def\<close>)

lemma run_section:
  assumes "title_fits t" "key_ok k" "\<forall>l \<in> set ls. line_ok l"
  shows "run_lines t k True (map line_text ls) = map_of (List.map_filter entry_of (takeWhile (\<lambda>l. \<not> is_header l) ls)) k"
  using assms(3)
proof (induction ls)
  case (Cons l ls)
  show ?case
  proof (cases l)
    case (Header n)
    then show ?thesis by (simp add: process_line_def List.map_filter_def)
  next
    case (Entry a n b d v)
    with Cons process_entry [of a n b d v k t] assms(2) show ?thesis
      by (auto simp: List.map_filter_def simp del: line_text.simps)
  qed (use Cons process_inside [OF assms(1), of l k] in \<open>simp_all add: List.map_filter_def del: line_text.simps\<close>)
qed (simp add: List.map_filter_def)

lemma run_file:
  assumes "title_fits t" "key_ok k" "\<forall>l \<in> set ls. line_ok l"
  shows "run_lines t k False (map line_text ls) = lookup_file ls t k"
  using assms(3)
proof (induction ls)
  case Nil
  show ?case by (simp add: lookup_file_def section_lines_def List.map_filter_def)
next
  case (Cons l ls)
  then show ?case
    using run_section [OF assms(1,2), of ls] process_before [OF assms(1), of l k]
    by (cases "l = Header t") (auto simp: lookup_file_def section_lines_def simp del: line_text.simps)
qed

lemma GetInitKey_file:
  assumes "file_ok ls" "title_fits t" "key_ok k" "fs f = Some (file_text ls)"
  shows "GetInitKey fs f t k = Inr (case lookup_file ls t k of Some v \<Rightarrow> Tmpstr v | None \<Rightarrow> Lit '''')"
proof -
  have "\<forall>l \<in> set (map line_text ls). wf_line l" using assms(1) by (auto simp: file_ok_def wf_line_def)
  from GetInitKey_loop_lines [OF assms(2) this] have "GetInitKey_loop t k False [] (file_text ls) = Inr (run_lines t k False (map line_text ls))"
    by (simp add: file_text_def comp_def)
  moreover have "run_lines t k False (map line_text ls) = lookup_file ls t k"
    using assms(1) by (intro run_file [OF assms(2,3)]) (simp add: file_ok_def)
  ultimately show ?thesis using assms(4) by (simp add: GetInitKey_def)
qed

section \<open>The printed configuration\<close>

text \<open>
  A configuration as data, its print-out as a file without blanks and comments, and the value it assigns to a
  key. Names, keys and values are restricted to what the file syntax can express.
\<close>

type_synonym config = "(string \<times> (string \<times> string) list) list"

definition entry_line :: "string \<times> string \<Rightarrow> string" where
  "entry_line e = fst e @ ''='' @ snd e"

definition header_line :: "string \<Rightarrow> string" where
  "header_line n = ''['' @ n @ '']''"

definition config_lines :: "config \<Rightarrow> string list" where
  "config_lines cfg = concat (map (\<lambda>(n, es). header_line n # map entry_line es) cfg)"

definition print_config :: "config \<Rightarrow> string" where
  "print_config cfg = concat (map (\<lambda>l. l @ [NL]) (config_lines cfg))"

definition wf_entry :: "string \<times> string \<Rightarrow> bool" where
  "wf_entry e \<longleftrightarrow>
     fst e \<noteq> [] \<and> hd (fst e) \<notin> {CHR ''#'', CHR '';'', CHR ''[''}
     \<and> (\<forall>c \<in> set (fst e). c \<noteq> CHR ''='' \<and> \<not> is_blank c \<and> c \<noteq> NL \<and> c \<noteq> NUL)
     \<and> (\<forall>c \<in> set (snd e). c \<noteq> NL \<and> c \<noteq> NUL)
     \<and> (snd e = [] \<or> \<not> is_blank (hd (snd e)))
     \<and> length (entry_line e) < LINE_MAX"

definition wf_header :: "string \<Rightarrow> bool" where
  "wf_header n \<longleftrightarrow> (\<forall>c \<in> set n. c \<noteq> NL \<and> c \<noteq> NUL) \<and> length (header_line n) < LINE_MAX"

definition wf_config :: "config \<Rightarrow> bool" where
  "wf_config cfg \<longleftrightarrow> (\<forall>(n, es) \<in> set cfg. wf_header n \<and> (\<forall>e \<in> set es. wf_entry e))"

definition lookup_config :: "config \<Rightarrow> string \<Rightarrow> string \<Rightarrow> string option" where
  "lookup_config cfg title key =
     (case map_of cfg title of None \<Rightarrow> None | Some es \<Rightarrow> map_of es key)"

definition plain_entry :: "string \<times> string \<Rightarrow> conf_line" where
  "plain_entry e = Entry [] (fst e) [] [] (snd e)"

definition lines_of :: "config \<Rightarrow> conf_line list" where
  "lines_of cfg = concat (map (\<lambda>(n, es). Header n # map plain_entry es) cfg)"

lemma print_config_text: "print_config cfg = file_text (lines_of cfg)"
proof -
  have "map line_text (map plain_entry es) = map entry_line es" for es
    by (simp add: plain_entry_def entry_line_def)
  then have "config_lines cfg = map line_text (lines_of cfg)"
    by (induction cfg) (auto simp: config_lines_def lines_of_def header_line_def simp del: map_map)
  then show ?thesis by (simp add: print_config_def file_text_def comp_def)
qed

lemma plain_entry_ok: "wf_entry e \<Longrightarrow> line_ok (plain_entry e) \<and> (\<forall>c \<in> set (line_text (plain_entry e)). c \<noteq> NL \<and> c \<noteq> NUL) \<and> length (line_text (plain_entry e)) < LINE_MAX"
  by (auto simp: wf_entry_def plain_entry_def entry_line_def blanks_def no_blanks_def special_def NL_def NUL_def)

lemma lines_of_ok: "wf_config cfg \<Longrightarrow> file_ok (lines_of cfg)"
  using plain_entry_ok by (fastforce simp: wf_config_def lines_of_def file_ok_def wf_header_def header_line_def NL_def NUL_def)

lemma lookup_lines_of: "lookup_file (lines_of cfg) t k = lookup_config cfg t k"
proof (induction cfg)
  case Nil
  show ?case by (simp add: lookup_file_def lines_of_def section_lines_def lookup_config_def List.map_filter_def)
next
  case (Cons s cfg)
  obtain n es where s: "s = (n, es)" by (cases s)
  have entries: "takeWhile (\<lambda>l. \<not> is_header l) (map plain_entry es @ lines_of cfg) = map plain_entry es"
    by (induction es; cases cfg) (auto simp: plain_entry_def lines_of_def)
  have skip: "dropWhile (\<lambda>l. l \<noteq> Header t) (map plain_entry es @ lines_of cfg) = dropWhile (\<lambda>l. l \<noteq> Header t) (lines_of cfg)"
    by (induction es) (simp_all add: plain_entry_def)
  have vals: "List.map_filter entry_of (map plain_entry es) = es"
    by (induction es) (simp_all add: plain_entry_def List.map_filter_def)
  have "lines_of (s # cfg) = Header n # map plain_entry es @ lines_of cfg" by (simp add: lines_of_def s)
  then show ?case
    using Cons.IH entries skip vals by (simp add: s lookup_file_def section_lines_def lookup_config_def)
qed

lemma GetInitKey_config:
  assumes "wf_config cfg" "title_fits t" "key_ok k" "fs f = Some (print_config cfg)"
  shows "GetInitKey fs f t k = Inr (case lookup_config cfg t k of Some v \<Rightarrow> Tmpstr v | None \<Rightarrow> Lit '''')"
  using GetInitKey_file [OF lines_of_ok [OF assms(1)] assms(2,3)] assms(4) by (simp add: print_config_text lookup_lines_of)

lemmas text_chars = is_blank_def NL_def NUL_def SP_def TAB_def

lemma dec_digit_not_blank: "n < 10 \<Longrightarrow> \<not> is_blank (dec_digit n)"
proof -
  have "\<forall>n \<in> set [0 ..< 10]. \<not> is_blank (dec_digit n)" by code_simp
  then show "n < 10 \<Longrightarrow> \<not> is_blank (dec_digit n)" by simp
qed

lemma key_ok_digits: "key_ok (dec_str i)"
proof -
  have "no_blanks (dec_str i)"
  proof (induction i rule: dec_str.induct)
    case (1 n)
    then show ?case using dec_digit_not_blank by (subst dec_str.simps) (auto simp: no_blanks_def)
  qed
  moreover have "dec_str i \<noteq> []" by (subst dec_str.simps) simp
  ultimately show ?thesis by (simp add: key_ok_def)
qed

section \<open>Properties\<close>

text \<open>
  C9: reading a configuration. Let the file consist of section headers, entries, comment lines (which begin with
  a number sign or a semicolon), empty lines and other text, with blanks before and after the keys and before
  the values of entries. Then \<open>GetInitKey\<close> returns, for every section and key, the value of the key's first
  entry in the first section of that name, without the blanks before it, and the empty literal if there is
  none: comments, longer names that contain the key, and entries of other sections never match. The
  section's name fits into the buffer it is copied to, and the key has no blanks.
\<close>
theorem GetInitKey_lookup:
  assumes "file_ok ls" and "length t + 3 \<le> 1024" and "k \<noteq> []" and "\<forall>c \<in> set k. \<not> is_blank c"
    and "fs f = Some (file_text ls)"
  shows "GetInitKey fs f t k =
    Inr (case lookup_file ls t k of Some v \<Rightarrow> Tmpstr v | None \<Rightarrow> Lit '''')"
  using assms by (intro GetInitKey_file) (simp_all add: title_fits_def key_ok_def no_blanks_def LINE_MAX_def)

definition sample_lines :: "conf_line list" where
  "sample_lines = [Remark (CHR ''#'') '' MQTT_PWD=1'', Header ''MYSQL'', Entry '''' ''MQTT_PWD'' '''' '''' ''x'', Empty_Line, Other ''spare'',
     Header ''MQTT'', Remark (CHR '';'') ''MQTT_PWD=2'', Entry '''' ''OLD_MQTT_PWD'' '''' '''' ''3'',
     Entry [TAB] ''MQTT_PWD'' [SP] [SP, TAB] ''a=b'', Entry '''' ''MQTT_PWD'' '''' '''' ''y'']"

theorem GetInitKey_lookup_witness:
  "GetInitKey [''main.config'' \<mapsto> file_text sample_lines] ''main.config'' ''MQTT'' ''MQTT_PWD'' = Inr (Tmpstr ''a=b'')"
proof -
  have ok: "file_ok sample_lines"
    by (simp add: sample_lines_def file_ok_def blanks_def no_blanks_def special_def text_chars LINE_MAX_def)
  have "lookup_file sample_lines ''MQTT'' ''MQTT_PWD'' = Some ''a=b''"
    by (simp add: sample_lines_def lookup_file_def section_lines_def List.map_filter_def)
  moreover have "length ''MQTT'' + 3 \<le> 1024" "''MQTT_PWD'' \<noteq> []" "\<forall>c \<in> set ''MQTT_PWD''. \<not> is_blank c" by (simp_all add: text_chars)
  ultimately show ?thesis
    using GetInitKey_lookup [OF ok, where fs = "[''main.config'' \<mapsto> file_text sample_lines]" and f = "''main.config''"] by simp
qed

text \<open>A section name that does not fit overruns \<^verbatim>\<open>tmpstr\<close> at the first line that is not skipped.\<close>

lemma GetInitKey_long_title:
  assumes "LINE_MAX < length t + 3" and "wf_line l" and "l \<noteq> []" and "hd l \<noteq> CHR ''#''" and "hd l \<noteq> CHR '';''"
    and "fs f = Some (l @ NL # rest)"
  shows "GetInitKey fs f t k = Inl OverWrite"
proof -
  have l: "\<forall>c \<in> set l. c \<noteq> NL" "NUL \<notin> set l" "length l < LINE_MAX" using assms(2) by (auto simp: wf_line_def)
  have "process_line t k False (c_str l) = Inl OverWrite"
    using assms(1,3-5) l(2) by (auto simp: process_line_def compare_header_def c_str_id split: option.split)
  then show ?thesis
    using assms(6) l GetInitKey_loop_line [of l "[]" t k False "NL # rest"] by (simp add: GetInitKey_def)
qed

lemma GetInitKey_loop_full:
  assumes "length acc = LINE_MAX"
  shows "GetInitKey_loop t k flag acc cs = Inl OverWrite"
  using assms by (cases cs) simp_all

text \<open>
  an overlong line overruns the line buffer. If the first line of the file has 1024 or more
  characters, storing them writes past \<^verbatim>\<open>tmpLine\<close>, whatever section and key are asked for.
\<close>
theorem GetInitKey_long_line:
  assumes "\<forall>c \<in> set l. c \<noteq> NL" and "LINE_MAX \<le> length l" and "fs f = Some (l @ rest)"
  shows "GetInitKey fs f t k = Inl OverWrite"
proof -
  define a where "a = take (LINE_MAX - 1) l"
  define c where "c = l ! (LINE_MAX - 1)"
  define b where "b = drop LINE_MAX l"
  have "LINE_MAX - 1 < length l" using assms(2) by (simp add: LINE_MAX_def)
  then have l: "l = a @ c # b"
    using id_take_nth_drop [of "LINE_MAX - 1" l] by (simp add: a_def b_def c_def LINE_MAX_def)
  have len: "length a = LINE_MAX - 1" using assms(2) by (simp add: a_def LINE_MAX_def)
  have "GetInitKey_loop t k False [] (a @ c # b @ rest) = GetInitKey_loop t k False a (c # b @ rest)"
    using GetInitKey_loop_line [of a "[]"] assms(1) l len by (simp add: LINE_MAX_def)
  also have "\<dots> = GetInitKey_loop t k False (a @ [c]) (b @ rest)"
    using assms(1) l len by (simp add: LINE_MAX_def)
  also have "\<dots> = Inl OverWrite"
    using len by (intro GetInitKey_loop_full) (simp add: LINE_MAX_def)
  finally show ?thesis by (simp add: GetInitKey_def assms(3) l)
qed

end
