(* ===== verification/Topic_Dispatch.thy ===== *)
theory Topic_Dispatch
  imports Config_File
begin

text \<open>
  Topic registration and message dispatch: \<^verbatim>\<open>core/regfunc.c\<close> with its table of handlers
  \<^verbatim>\<open>core/handle.c\<close>. The module's static variables are one record, \<open>reg_state\<close>; the handlers only
  print, so a call of one is an entry of the ghost field \<open>calls\<close>.

  Shown: the table built from the configuration is the configured selection of the built-in
  handlers, in order, and satisfies the invariant the dispatcher needs; the dispatcher, which
  remembers its last table position, calls the same handler as a plain search; the counters
  count.
\<close>

section \<open>Data\<close>

datatype handler = Do_A1 | Do_test

record cmd_pro =
  topic_name :: string
  cnt :: u32
  bc :: "handler option"

definition zero_cmd :: cmd_pro where
  "zero_cmd = \<lparr>topic_name = '''', cnt = 0, bc = None\<rparr>"

definition ctr_handle_tab :: "cmd_pro list" where
  "ctr_handle_tab =
     [\<lparr>topic_name = ''RRS123'', cnt = 0, bc = Some Do_A1\<rparr>,
      \<lparr>topic_name = ''SFR123'', cnt = 0, bc = Some Do_A1\<rparr>,
      \<lparr>topic_name = ''RS4123'', cnt = 0, bc = Some Do_A1\<rparr>,
      \<lparr>topic_name = ''RDC123'', cnt = 0, bc = Some Do_A1\<rparr>,
      \<lparr>topic_name = ''RSC123'', cnt = 0, bc = Some Do_A1\<rparr>,
      \<lparr>topic_name = ''RCN123'', cnt = 0, bc = Some Do_A1\<rparr>,
      \<lparr>topic_name = ''TEST12'', cnt = 0, bc = Some Do_test\<rparr>]"

record reg_state =
  topicNumLocal :: int
  handleTableLocal :: "cmd_pro list option"
  msgcnt :: u32
  idx :: int
  mysqlcon :: bool
  pHandle :: "nat option"
  calls :: "(handler \<times> string) list"

definition ctr_table_size :: int where
  "ctr_table_size = int (length ctr_handle_tab)"

definition reg_init :: reg_state where
  "reg_init = \<lparr>topicNumLocal = ctr_table_size, handleTableLocal = None, msgcnt = 0, idx = 0,
               mysqlcon = False, pHandle = None, calls = []\<rparr>"

definition CONFIG_FILE :: string where "CONFIG_FILE = ''main.config''"

definition sizeof_cmd_pro :: int where "sizeof_cmd_pro = 272"

section \<open>Loading the topic table\<close>

text \<open>
  The loop of \<^verbatim>\<open>initTopicConf\<close> over the built-in entries: \<open>i\<close> counts them, \<open>k\<close> is the index of
  the next free entry of the new table. A value of 128 or more characters overruns \<^verbatim>\<open>resstr\<close>.
\<close>

fun topic_loop :: "files \<Rightarrow> int \<Rightarrow> nat \<Rightarrow> nat \<Rightarrow> cmd_pro list \<Rightarrow> cmd_pro list \<Rightarrow> (cmd_pro list \<times> nat) res"
where
  "topic_loop fs iDefault i k tab [] = Inr (tab, k)"
| "topic_loop fs iDefault i k tab (e # es) =
     bindR (GetInitKey fs CONFIG_FILE ''TOPIC'' (dec_str i)) (\<lambda>v.
       let resstr = val_str v in
       guardR OverWrite (length resstr < 128)
         (bindR (if resstr = [] then Inr iDefault else atoi resstr) (\<lambda>ret.
            if ret = 1
            then guardR OverWrite (k < length tab)
                   (topic_loop fs iDefault (Suc i) (Suc k)
                      (tab[k := \<lparr>topic_name = topic_name e, cnt = 0, bc = bc e\<rparr>]) es)
            else topic_loop fs iDefault (Suc i) k tab es)))"

definition topic_default :: "int \<Rightarrow> int" where
  "topic_default ret = (if ret = 1 \<or> ret = 0 then ret else 0)"

definition topic_count :: "int \<Rightarrow> int \<Rightarrow> int" where
  "topic_count ret old =
     (let n = (if ret \<noteq> 0 then ret else old) in if n > ctr_table_size then ctr_table_size else n)"

text \<open>Allocation, the loop and the final check (lines 54 to 98).\<close>

definition load_table :: "files \<Rightarrow> (int \<Rightarrow> bool) \<Rightarrow> int \<Rightarrow> int \<Rightarrow> reg_state \<Rightarrow> (int \<times> reg_state) res" where
  "load_table fs alloc iDefault n st =
     guardR (Exit 1) (malloc_ok alloc (sizeof_cmd_pro * n))
       (bindR (topic_loop fs iDefault 0 0 (replicate (nat n) zero_cmd) (take (nat n) ctr_handle_tab))
          (\<lambda>(tab, k).
            guardR AssertFail (\<forall>e \<in> set (take k tab). bc e \<noteq> None)
              (Inr (int k, st\<lparr>topicNumLocal := int k, handleTableLocal := Some tab\<rparr>))))"

definition initTopicConf :: "files \<Rightarrow> (int \<Rightarrow> bool) \<Rightarrow> reg_state \<Rightarrow> (int \<times> reg_state) res" where
  "initTopicConf fs alloc st =
     bindR (GetInitKey fs CONFIG_FILE ''TOPIC'' ''DEFAULT'') (\<lambda>v.
     bindR (atoi (val_str v)) (\<lambda>ret.
     bindR (GetInitKey fs CONFIG_FILE ''TOPIC'' ''NUM'') (\<lambda>v'.
     bindR (atoi (val_str v')) (\<lambda>num.
       load_table fs alloc (topic_default ret) (topic_count num (topicNumLocal st)) st))))"

text \<open>\<^verbatim>\<open>regTopicFromTable\<close>: the subscriptions requested, each with QoS 0, in table order.\<close>

definition regTopicFromTable :: "reg_state \<Rightarrow> (string \<times> int) list res" where
  "regTopicFromTable st =
     (if topicNumLocal st \<le> 0 then Inr []
      else case handleTableLocal st of
        None \<Rightarrow> Inl NullDeref
      | Some tab \<Rightarrow>
          guardR OverRead (nat (topicNumLocal st) \<le> length tab)
            (Inr (map (\<lambda>e. (topic_name e, 0)) (filter (\<lambda>e. bc e \<noteq> None) (take (nat (topicNumLocal st)) tab)))))"

section \<open>Dispatching a message\<close>

text \<open>Calling the handler of entry \<open>i\<close> and counting the message, as both exits of the search do.\<close>

definition call_entry :: "string \<Rightarrow> nat \<Rightarrow> cmd_pro list \<Rightarrow> reg_state \<Rightarrow> reg_state res" where
  "call_entry topic i tab st =
     (case bc (tab ! i) of
        None \<Rightarrow> Inl NullDeref
      | Some h \<Rightarrow> Inr (st\<lparr>handleTableLocal := Some (tab[i := (tab ! i)\<lparr>cnt := cnt (tab ! i) + 1\<rparr>]),
                        calls := calls st @ [(h, topic)]\<rparr>))"

text \<open>The loop over all entries; \<open>n\<close> is the number of entries left, \<open>i\<close> the current index.\<close>

fun decode_loop :: "string \<Rightarrow> cmd_pro list \<Rightarrow> nat \<Rightarrow> nat \<Rightarrow> reg_state \<Rightarrow> reg_state res" where
  "decode_loop topic tab 0 i st = Inr (st\<lparr>idx := int i\<rparr>)"
| "decode_loop topic tab (Suc n) i st =
     guardR OverRead (i < length tab)
       (let st' = st\<lparr>idx := int i, pHandle := Some i\<rparr> in
        if topic = topic_name (tab ! i) then call_entry topic i tab st'
        else decode_loop topic tab n (Suc i) st')"

text \<open>
  \<open>dbinit\<close> is what \<^verbatim>\<open>malloc\<close> and \<^verbatim>\<open>db_init\<close> do on the first message: \<open>Inr ()\<close>, or the process
  exits because there is no memory or no database.
\<close>

definition decode_msg_handle :: "unit res \<Rightarrow> string \<Rightarrow> reg_state \<Rightarrow> reg_state res" where
  "decode_msg_handle dbinit topic st0 =
     (let st1 = st0\<lparr>msgcnt := msgcnt st0 + 1\<rparr> in
      bindR (if mysqlcon st1 then Inr st1
             else bindR dbinit (\<lambda>_. Inr (st1\<lparr>mysqlcon := True,
                    pHandle := (case handleTableLocal st1 of None \<Rightarrow> None | Some _ \<Rightarrow> Some 0)\<rparr>)))
        (\<lambda>st. case (pHandle st, handleTableLocal st) of
            (Some i, Some tab) \<Rightarrow>
              guardR OverRead (i < length tab)
                (if topic = topic_name (tab ! i) then call_entry topic i tab st
                 else decode_loop topic tab (nat (topicNumLocal st)) 0 st)
          | _ \<Rightarrow> Inl NullDeref))"

section \<open>Statistics\<close>

text \<open>
  \<^verbatim>\<open>print_stats\<close>: the numbers printed, hours, minutes, seconds and total of the running time,
  the message count and one line per topic.
\<close>

record stats =
  st_h :: int
  st_m :: int
  st_s :: int
  st_total :: int
  st_msgs :: u32
  st_topics :: "(string \<times> u32) list"

definition print_stats :: "u32 \<Rightarrow> u32 \<Rightarrow> reg_state \<Rightarrow> stats res" where
  "print_stats timeGloble timeBegin st =
     (let sec = sint (timeGloble - timeBegin) in
      bindR (if topicNumLocal st \<le> 0 then Inr []
             else case handleTableLocal st of
               None \<Rightarrow> Inl NullDeref
             | Some tab \<Rightarrow> guardR OverRead (nat (topicNumLocal st) \<le> length tab)
                 (Inr (map (\<lambda>e. (topic_name e, cnt e)) (take (nat (topicNumLocal st)) tab))))
        (\<lambda>ts. Inr \<lparr>st_h = sec sdiv 3600, st_m = sec sdiv 60, st_s = sec smod 60, st_total = sec,
                   st_msgs = msgcnt st, st_topics = ts\<rparr>))"

section \<open>The invariant\<close>

text \<open>
  The active part of the table: registered, non-empty, pairwise different topic names with a
  handler each. The rest of the allocated table is zero, and the remembered position lies in
  the table.
\<close>

definition active :: "reg_state \<Rightarrow> cmd_pro list" where
  "active st = (case handleTableLocal st of None \<Rightarrow> [] | Some tab \<Rightarrow> take (nat (topicNumLocal st)) tab)"

definition reg_inv :: "reg_state \<Rightarrow> bool" where
  "reg_inv st \<longleftrightarrow>
     (case handleTableLocal st of
        None \<Rightarrow> False
      | Some tab \<Rightarrow>
          0 \<le> topicNumLocal st \<and> nat (topicNumLocal st) \<le> length tab \<and> tab \<noteq> []
          \<and> distinct (map topic_name (active st))
          \<and> (\<forall>e \<in> set (active st). bc e \<noteq> None \<and> topic_name e \<noteq> '''')
          \<and> (\<forall>i. nat (topicNumLocal st) \<le> i \<and> i < length tab \<longrightarrow> tab ! i = zero_cmd)
          \<and> (mysqlcon st \<longrightarrow> (\<exists>i < length tab. pHandle st = Some i)))"

section \<open>Dispatch against its specification\<close>

text \<open>
  The specification: a table of topics with handler and count, the number of messages and the
  log of handler calls. Delivering a message counts it, and counts and calls for the entries
  of its topic.
\<close>

type_synonym registry = "(string \<times> handler option \<times> u32) list \<times> u32 \<times> (handler \<times> string) list"

definition abs_reg :: "reg_state \<Rightarrow> registry" where
  "abs_reg st = (map (\<lambda>e. (topic_name e, bc e, cnt e)) (active st), msgcnt st, calls st)"

definition deliver :: "string \<Rightarrow> registry \<Rightarrow> registry" where
  "deliver topic r = (case r of (tbl, n, log) \<Rightarrow>
     (map (\<lambda>(t, h, c). if t = topic then (t, h, c + 1) else (t, h, c)) tbl,
      n + 1,
      log @ map (\<lambda>(t, h, c). (the h, topic)) (filter (\<lambda>(t, h, c). t = topic) tbl)))"

abbreviation bump :: "cmd_pro \<Rightarrow> cmd_pro" where
  "bump e \<equiv> e\<lparr>cnt := cnt e + 1\<rparr>"

lemma map_if_first_index:
  assumes "distinct (map g xs)" and "first_index (\<lambda>e. g e = t) xs = Some i"
  shows "map (\<lambda>e. if g e = t then f e else e) xs = xs[i := f (xs ! i)]"
    and "filter (\<lambda>e. g e = t) xs = [xs ! i]"
proof -
  have i: "i < length xs" "g (xs ! i) = t"
    using assms(2) by (simp_all add: first_index_Some)
  have other: "g (xs ! j) \<noteq> t" if "j < length xs" "j \<noteq> i" for j
    using distinct_map_nth [OF assms(1) that(1) i(1)] that i by auto
  show "map (\<lambda>e. if g e = t then f e else e) xs = xs[i := f (xs ! i)]"
    using i other by (intro nth_equalityI) (auto simp: nth_list_update)
  have "g x \<noteq> t" if "x \<in> set (take i xs) \<or> x \<in> set (drop (Suc i) xs)" for x
  proof -
    from that show ?thesis
    proof
      assume "x \<in> set (take i xs)"
      then obtain j where "j < i" "x = xs ! j" by (auto simp: in_set_conv_nth)
      then show ?thesis using other [of j] i(1) by simp
    next
      assume "x \<in> set (drop (Suc i) xs)"
      then obtain j where "j < length xs - Suc i" "x = xs ! (Suc i + j)"
        by (auto simp: in_set_conv_nth)
      then show ?thesis using other [of "Suc i + j"] by simp
    qed
  qed
  then have "filter (\<lambda>e. g e = t) (take i xs) = []" "filter (\<lambda>e. g e = t) (drop (Suc i) xs) = []"
    by (simp_all add: filter_empty_conv)
  then show "filter (\<lambda>e. g e = t) xs = [xs ! i]"
    using i by (subst id_take_nth_drop [OF i(1)]) simp
qed

lemma decode_loop_spec:
  assumes "i + n \<le> length tab"
  shows "decode_loop topic tab n i st =
    (case first_index (\<lambda>e. topic = topic_name e) (take n (drop i tab)) of
       Some j \<Rightarrow> call_entry topic (i + j) tab (st\<lparr>idx := int (i + j), pHandle := Some (i + j)\<rparr>)
     | None \<Rightarrow> Inr (st\<lparr>idx := int (i + n), pHandle := (if n = 0 then pHandle st else Some (i + n - 1))\<rparr>))"
  using assms
proof (induction n arbitrary: i st)
  case 0
  show ?case by simp
next
  case (Suc n)
  then have "drop i tab = tab ! i # drop (Suc i) tab"
    using Cons_nth_drop_Suc [of i tab] by simp
  then show ?case
    using Suc.IH [of "Suc i"] Suc.prems by (auto simp: Let_def ac_simps split: option.split)
qed

lemma active_update:
  assumes "handleTableLocal st = Some tab" and "i < nat (topicNumLocal st)"
    and "handleTableLocal st' = Some (tab[i := e])" and "topicNumLocal st' = topicNumLocal st"
  shows "active st' = (active st)[i := e]"
  using assms by (simp add: active_def take_update_swap)

text \<open>The position at which a message is served.\<close>

definition served :: "string \<Rightarrow> reg_state \<Rightarrow> nat option" where
  "served topic st =
     (case decode_msg_handle (Inr ()) topic st of
        Inl _ \<Rightarrow> None
      | Inr st' \<Rightarrow> if calls st' = calls st then None else pHandle st')"

definition remembered :: "reg_state \<Rightarrow> nat option" where
  "remembered st = (if mysqlcon st then pHandle st else Some 0)"

lemma reg_invD:
  assumes "reg_inv st" and "handleTableLocal st = Some tab"
  shows "nat (topicNumLocal st) \<le> length tab"
    and "active st = take (nat (topicNumLocal st)) tab"
    and "e \<in> set (active st) \<Longrightarrow> bc e \<noteq> None \<and> topic_name e \<noteq> ''''"
    and "nat (topicNumLocal st) \<le> j \<Longrightarrow> j < length tab \<Longrightarrow> tab ! j = zero_cmd"
    and "distinct (map topic_name (active st))"
    and "\<exists>i < length tab. remembered st = Some i"
  using assms by (auto simp: reg_inv_def remembered_def active_def)

lemma decode_eq:
  assumes "handleTableLocal st = Some tab" and "remembered st = Some i" and "i < length tab"
  shows "decode_msg_handle (Inr ()) topic st =
    (let st1 = st\<lparr>msgcnt := msgcnt st + 1, mysqlcon := True, pHandle := Some i\<rparr> in
     if topic = topic_name (tab ! i) then call_entry topic i tab st1
     else decode_loop topic tab (nat (topicNumLocal st)) 0 st1)"
  using assms by (cases st) (auto simp: decode_msg_handle_def remembered_def Let_def)

lemma call_entry_ok:
  assumes "bc (tab ! i) = Some h"
  shows "call_entry topic i tab st = Inr (st\<lparr>handleTableLocal := Some (tab[i := bump (tab ! i)]),
    calls := calls st @ [(h, topic)]\<rparr>)"
  using assms by (simp add: call_entry_def)

text \<open>One message, with the remembered position eliminated.\<close>

lemma cached_first:
  assumes inv: "reg_inv st" and tab: "handleTableLocal st = Some tab"
    and i: "i < length tab" and t: "topic_name (tab ! i) = topic" and "topic \<noteq> ''''"
  shows "first_index (\<lambda>e. topic_name e = topic) (active st) = Some i"
proof -
  note inv' = reg_invD [OF inv tab]
  have lt: "i < nat (topicNumLocal st)"
  proof (rule ccontr)
    assume "\<not> ?thesis"
    then have "tab ! i = zero_cmd" using inv'(4) i by simp
    with t \<open>topic \<noteq> ''''\<close> show False by (simp add: zero_cmd_def)
  qed
  then have "i < length (active st)" and nth: "active st ! i = tab ! i"
    using inv'(1,2) by simp_all
  then show ?thesis
    using distinct_map_nth [OF inv'(5)] t by (intro first_index_unique) auto
qed

lemma first_index_active:
  assumes inv: "reg_inv st" and tab: "handleTableLocal st = Some tab"
    and "first_index (\<lambda>e. topic_name e = topic) (active st) = Some i"
  shows "i < nat (topicNumLocal st)" and "active st ! i = tab ! i" and "topic_name (tab ! i) = topic"
    and "\<exists>h. bc (tab ! i) = Some h"
proof -
  note inv' = reg_invD [OF inv tab]
  have "i < length (active st)" and t: "topic_name (active st ! i) = topic"
    using assms(3) by (simp_all add: first_index_Some)
  then show "i < nat (topicNumLocal st)" and nth: "active st ! i = tab ! i"
    using inv'(1,2) by simp_all
  with t show "topic_name (tab ! i) = topic" by simp
  from \<open>i < length (active st)\<close> nth show "\<exists>h. bc (tab ! i) = Some h"
    using inv'(3) [of "tab ! i"] nth_mem [of i "active st"] by auto
qed

lemma decode_hit:
  assumes inv: "reg_inv st" and "topic \<noteq> ''''" and tab: "handleTableLocal st = Some tab"
    and hit: "first_index (\<lambda>e. topic_name e = topic) (active st) = Some i"
  shows "\<exists>x. decode_msg_handle (Inr ()) topic st =
    Inr (st\<lparr>msgcnt := msgcnt st + 1, idx := x, mysqlcon := True, pHandle := Some i,
      handleTableLocal := Some (tab[i := bump (tab ! i)]),
      calls := calls st @ [(the (bc (tab ! i)), topic)]\<rparr>)"
proof -
  note inv' = reg_invD [OF inv tab] and fi = first_index_active [OF inv tab hit]
  from inv'(6) obtain r where r: "r < length tab" "remembered st = Some r" by blast
  from fi(4) obtain h where h: "bc (tab ! i) = Some h" by blast
  note eq = decode_eq [OF tab r(2,1), of topic]
  show ?thesis
  proof (cases "topic = topic_name (tab ! r)")
    case True
    with cached_first [OF inv tab r(1)] hit \<open>topic \<noteq> ''''\<close> have "r = i" by simp
    with eq True h show ?thesis
      by (intro exI [of _ "idx st"]) (cases st, simp add: call_entry_ok)
  next
    case False
    have "first_index (\<lambda>e. topic = topic_name e) (take (nat (topicNumLocal st)) (drop 0 tab)) = Some i"
      using hit inv'(2) by (simp add: eq_commute)
    with eq False h inv'(1) show ?thesis
      by (intro exI [of _ "int i"]) (cases st, simp add: call_entry_ok decode_loop_spec)
  qed
qed

lemma decode_miss:
  assumes inv: "reg_inv st" and "topic \<noteq> ''''" and tab: "handleTableLocal st = Some tab"
    and miss: "first_index (\<lambda>e. topic_name e = topic) (active st) = None"
  shows "\<exists>x p. p < length tab \<and> decode_msg_handle (Inr ()) topic st =
    Inr (st\<lparr>msgcnt := msgcnt st + 1, idx := x, mysqlcon := True, pHandle := Some p\<rparr>)"
proof -
  note inv' = reg_invD [OF inv tab]
  from inv'(6) obtain r where r: "r < length tab" "remembered st = Some r" by blast
  note eq = decode_eq [OF tab r(2,1), of topic]
  have "topic \<noteq> topic_name (tab ! r)"
    using cached_first [OF inv tab r(1)] miss \<open>topic \<noteq> ''''\<close> by auto
  moreover have "first_index (\<lambda>e. topic = topic_name e) (take (nat (topicNumLocal st)) (drop 0 tab)) = None"
    using miss inv'(2) by (simp add: eq_commute)
  ultimately show ?thesis
    using eq inv'(1) r(1)
    by (intro exI [of _ "topicNumLocal st"] exI [of _ "int (nat (topicNumLocal st))"]
        exI [of _ "if nat (topicNumLocal st) = 0 then r else nat (topicNumLocal st) - 1"])
       (cases st, auto simp: decode_loop_spec)
qed

lemma abs_reg_hit:
  assumes inv: "reg_inv st" and tab: "handleTableLocal st = Some tab"
    and hit: "first_index (\<lambda>e. topic_name e = topic) (active st) = Some i"
    and st': "handleTableLocal st' = Some (tab[i := bump (tab ! i)])" "topicNumLocal st' = topicNumLocal st"
      "msgcnt st' = msgcnt st + 1" "calls st' = calls st @ [(the (bc (tab ! i)), topic)]"
  shows "abs_reg st' = deliver topic (abs_reg st)"
proof -
  note fi = first_index_active [OF inv tab hit] and inv' = reg_invD [OF inv tab]
  have "active st' = (active st)[i := bump (active st ! i)]"
    using active_update [OF tab fi(1) st'(1,2)] fi(2) by simp
  also have "\<dots> = map (\<lambda>e. if topic_name e = topic then bump e else e) (active st)"
    using map_if_first_index(1) [OF inv'(5) hit, of bump] by simp
  finally have act: "active st' = map (\<lambda>e. if topic_name e = topic then bump e else e) (active st)" .
  have "filter (\<lambda>e. topic_name e = topic) (active st) = [active st ! i]"
    using map_if_first_index(2) [OF inv'(5) hit] .
  then show ?thesis
    using st'(3,4) fi(2) by (simp add: abs_reg_def deliver_def act filter_map o_def)
qed

lemma abs_reg_miss:
  assumes "\<forall>e \<in> set (active st). topic_name e \<noteq> topic"
    and "active st' = active st" "msgcnt st' = msgcnt st + 1" "calls st' = calls st"
  shows "abs_reg st' = deliver topic (abs_reg st)"
  using assms by (auto simp: abs_reg_def deliver_def filter_map filter_empty_conv o_def)

lemma reg_inv_hit:
  assumes inv: "reg_inv st" and tab: "handleTableLocal st = Some tab"
    and hit: "first_index (\<lambda>e. topic_name e = topic) (active st) = Some i"
    and st': "handleTableLocal st' = Some (tab[i := bump (tab ! i)])" "topicNumLocal st' = topicNumLocal st"
      "pHandle st' = Some i"
  shows "reg_inv st'"
proof -
  note fi = first_index_active [OF inv tab hit] and inv' = reg_invD [OF inv tab]
  have act: "active st' = (active st)[i := bump (active st ! i)]"
    using active_update [OF tab fi(1) st'(1,2)] fi(2) by simp
  have i: "i < length (active st)" using hit by (simp add: first_index_Some)
  have names: "map topic_name (active st') = map topic_name (active st)"
    using i act by (intro nth_equalityI) (auto simp: nth_list_update)
  have "bc e \<noteq> None \<and> topic_name e \<noteq> ''''" if "e \<in> set (active st')" for e
  proof -
    from that act have "e \<in> set ((active st)[i := bump (active st ! i)])" by simp
    then have "e \<in> insert (bump (active st ! i)) (set (active st))"
      by (rule subsetD [OF set_update_subset_insert])
    then consider "e = bump (active st ! i)" | "e \<in> set (active st)" by blast
    then show ?thesis
    proof cases
      case 1
      then show ?thesis using inv'(3) [OF nth_mem [OF i]] by simp
    qed (rule inv'(3))
  qed
  then show ?thesis
    using inv tab st' fi(1) inv'(1) inv'(4) names
    by (auto simp: reg_inv_def nth_list_update)
qed

lemma decode_refines:
  assumes inv: "reg_inv st" and ne: "topic \<noteq> ''''"
  shows "\<exists>st'. decode_msg_handle (Inr ()) topic st = Inr st' \<and> reg_inv st' \<and>
    abs_reg st' = deliver topic (abs_reg st)"
proof -
  from inv obtain tab where tab: "handleTableLocal st = Some tab"
    by (auto simp: reg_inv_def split: option.splits)
  show ?thesis
  proof (cases "first_index (\<lambda>e. topic_name e = topic) (active st)")
    case None
    with decode_miss [OF inv ne tab] obtain x p where p: "p < length tab"
      and eq: "decode_msg_handle (Inr ()) topic st =
        Inr (st\<lparr>msgcnt := msgcnt st + 1, idx := x, mysqlcon := True, pHandle := Some p\<rparr>)"
      by blast
    let ?st = "st\<lparr>msgcnt := msgcnt st + 1, idx := x, mysqlcon := True, pHandle := Some p\<rparr>"
    have act: "active ?st = active st" by (simp add: active_def tab)
    moreover have "reg_inv ?st"
      using inv tab p act by (auto simp: reg_inv_def)
    moreover have "abs_reg ?st = deliver topic (abs_reg st)"
      using None act by (intro abs_reg_miss) (simp_all add: first_index_None)
    ultimately show ?thesis using eq by blast
  next
    case (Some i)
    with decode_hit [OF inv ne tab] obtain x where eq: "decode_msg_handle (Inr ()) topic st =
        Inr (st\<lparr>msgcnt := msgcnt st + 1, idx := x, mysqlcon := True, pHandle := Some i,
          handleTableLocal := Some (tab[i := bump (tab ! i)]),
          calls := calls st @ [(the (bc (tab ! i)), topic)]\<rparr>)" (is "_ = Inr ?st")
      by blast
    have "reg_inv ?st" by (rule reg_inv_hit [OF inv tab Some]) simp_all
    moreover have "abs_reg ?st = deliver topic (abs_reg st)"
      by (rule abs_reg_hit [OF inv tab Some]) simp_all
    ultimately show ?thesis using eq by blast
  qed
qed

text \<open>The remembered position is the cache of the shared search interface.\<close>

definition topic_matches :: "string \<Rightarrow> cmd_pro \<Rightarrow> bool" where
  "topic_matches topic e \<longleftrightarrow> topic \<noteq> '''' \<and> topic_name e = topic"

lemma served_eq:
  assumes inv: "reg_inv st" and ne: "topic \<noteq> ''''"
  shows "served topic st = first_index (\<lambda>e. topic_name e = topic) (active st)"
proof -
  from inv obtain tab where tab: "handleTableLocal st = Some tab"
    by (auto simp: reg_inv_def split: option.splits)
  show ?thesis
  proof (cases "first_index (\<lambda>e. topic_name e = topic) (active st)")
    case None
    with decode_miss [OF inv ne tab] show ?thesis by (auto simp: served_def)
  next
    case (Some i)
    with decode_hit [OF inv ne tab] show ?thesis by (auto simp: served_def)
  qed
qed

lemma decode_empty_topic:
  assumes inv: "reg_inv st"
  shows "served '''' st = None"
proof -
  from inv obtain tab where tab: "handleTableLocal st = Some tab"
    by (auto simp: reg_inv_def split: option.splits)
  note inv' = reg_invD [OF inv tab]
  from inv'(6) obtain r where r: "r < length tab" "remembered st = Some r" by blast
  note eq = decode_eq [OF tab r(2,1), of "''''"]
  have none: "first_index (\<lambda>e. '''' = topic_name e) (take (nat (topicNumLocal st)) (drop 0 tab)) = None"
    by (auto simp: first_index_None inv'(2) [symmetric] dest: inv'(3))
  show ?thesis
  proof (cases "'''' = topic_name (tab ! r)")
    case True
    have "nat (topicNumLocal st) \<le> r"
    proof (rule ccontr)
      assume "\<not> ?thesis"
      then have "tab ! r \<in> set (active st)"
        using inv'(2) r(1) by (auto simp: in_set_conv_nth)
      with inv'(3) [of "tab ! r"] True show False by simp
    qed
    then have "tab ! r = zero_cmd" using inv'(4) r(1) by simp
    then show ?thesis using eq True by (simp add: served_def call_entry_def zero_cmd_def)
  next
    case False
    then show ?thesis using eq none inv'(1) by (simp add: served_def decode_loop_spec)
  qed
qed

interpretation topics: cached_search reg_inv active remembered topic_matches served
proof (standard, goal_cases)
  case (1 s i k)
  then have ne: "k \<noteq> ''''" by (simp add: topic_matches_def)
  have "first_index (\<lambda>e. topic_name e = k) (active s) = Some i"
  proof -
    from \<open>reg_inv s\<close> obtain tab where tab: "handleTableLocal s = Some tab"
      by (auto simp: reg_inv_def split: option.splits)
    note inv' = reg_invD [OF \<open>reg_inv s\<close> tab]
    from 1 inv'(1,2) have "i < length tab" "topic_name (tab ! i) = k"
      by (simp_all add: topic_matches_def)
    then show ?thesis using cached_first [OF \<open>reg_inv s\<close> tab] ne by simp
  qed
  then show ?case using served_eq [OF \<open>reg_inv s\<close> ne] by simp
next
  case (2 s k)
  show ?case
  proof (cases "k = ''''")
    case True
    then show ?thesis
      using decode_empty_topic [OF \<open>reg_inv s\<close>]
      by (simp add: topic_matches_def first_index_None eq_commute [of None])
  next
    case False
    then have "topic_matches k = (\<lambda>e. topic_name e = k)"
      by (simp add: topic_matches_def fun_eq_iff)
    then show ?thesis
      using served_eq [OF \<open>reg_inv s\<close> False] by simp
  qed
qed

section \<open>The table built from the configuration\<close>

text \<open>Whether the configuration turns the \<open>i\<close>th built-in topic on.\<close>

definition topic_on :: "files \<Rightarrow> int \<Rightarrow> nat \<Rightarrow> bool" where
  "topic_on fs iDefault i \<longleftrightarrow>
     (case GetInitKey fs CONFIG_FILE ''TOPIC'' (dec_str i) of
        Inl _ \<Rightarrow> False
      | Inr v \<Rightarrow> (if val_str v = [] then Inr iDefault else atoi (val_str v)) = Inr 1)"

definition selection :: "files \<Rightarrow> int \<Rightarrow> nat \<Rightarrow> cmd_pro list" where
  "selection fs iDefault n = nths ctr_handle_tab {i. i < n \<and> topic_on fs iDefault i}"

abbreviation reset :: "cmd_pro \<Rightarrow> cmd_pro" where
  "reset e \<equiv> \<lparr>topic_name = topic_name e, cnt = 0, bc = bc e\<rparr>"

lemma nths_Cons_Suc: "nths (x # xs) {j. P j} = (if P 0 then [x] else []) @ nths xs {j. P (Suc j)}"
  by (simp add: nths_Cons)

lemma topic_loop_Inr:
  assumes "topic_loop fs d i k tab es = Inr (tab', k')" and "k + length es \<le> length tab"
  shows "k' = k + length (nths es {j. topic_on fs d (i + j)})
    \<and> tab' = take k tab @ map reset (nths es {j. topic_on fs d (i + j)}) @ drop k' tab"
  using assms
proof (induction es arbitrary: i k tab)
  case Nil
  then show ?case by simp
next
  case (Cons e es)
  then obtain v ret where v: "GetInitKey fs CONFIG_FILE ''TOPIC'' (dec_str i) = Inr v"
    and ret: "(if val_str v = [] then Inr d else atoi (val_str v)) = Inr ret"
    and rest: "(if ret = 1 then guardR OverWrite (k < length tab)
        (topic_loop fs d (Suc i) (Suc k) (tab[k := reset e]) es)
      else topic_loop fs d (Suc i) k tab es) = Inr (tab', k')"
    by (auto simp: Let_def bindR_eq_Inr guardR_eq_Inr)
  have on: "topic_on fs d i \<longleftrightarrow> ret = 1" using v ret by (simp add: topic_on_def)
  have sel: "nths (e # es) {j. topic_on fs d (i + j)} =
      (if ret = 1 then [e] else []) @ nths es {j. topic_on fs d (Suc i + j)}"
    using on by (simp add: nths_Cons_Suc)
  show ?case
  proof (cases "ret = 1")
    case False
    then show ?thesis using Cons.IH [of "Suc i" k tab] rest sel Cons.prems(2) by simp
  next
    case True
    with rest have k: "k < length tab"
      and loop: "topic_loop fs d (Suc i) (Suc k) (tab[k := reset e]) es = Inr (tab', k')"
      by (auto simp: guardR_eq_Inr)
    have "take (Suc k) (tab[k := reset e]) = take k tab @ [reset e]"
      using k by (simp add: take_Suc_conv_app_nth)
    with Cons.IH [OF loop] Cons.prems(2) True sel show ?thesis
      by simp
  qed
qed

lemma ctr_handle_tab_facts:
  "length ctr_handle_tab = 7"
  "distinct (map topic_name ctr_handle_tab)"
  "e \<in> set ctr_handle_tab \<Longrightarrow> bc e \<noteq> None \<and> topic_name e \<noteq> '''' \<and> cnt e = 0"
  by (auto simp: ctr_handle_tab_def)

lemma selection_facts:
  shows "distinct (map topic_name (selection fs d n))"
    and "e \<in> set (selection fs d n) \<Longrightarrow> bc e \<noteq> None \<and> topic_name e \<noteq> ''''"
    and "map reset (selection fs d n) = selection fs d n"
proof -
  have sub: "set (selection fs d n) \<subseteq> set ctr_handle_tab"
    by (simp add: selection_def set_nths_subset)
  show "distinct (map topic_name (selection fs d n))"
    using ctr_handle_tab_facts(2) by (simp add: selection_def nths_map [symmetric] distinct_nthsI)
  show "e \<in> set (selection fs d n) \<Longrightarrow> bc e \<noteq> None \<and> topic_name e \<noteq> ''''"
    using sub ctr_handle_tab_facts(3) by blast
  have "reset e = e" if "e \<in> set (selection fs d n)" for e
    using that sub ctr_handle_tab_facts(3) [of e] by (cases e) auto
  then show "map reset (selection fs d n) = selection fs d n"
    by (simp add: map_idI)
qed

lemma nths_take_less: "nths (take n xs) {j. P j} = nths xs {j. j < n \<and> P j}"
proof (induction xs arbitrary: n P)
  case (Cons x xs)
  show ?case by (cases n) (simp_all add: nths_Cons_Suc Cons.IH)
qed simp

lemma topic_count_facts:
  "topic_count ret ctr_table_size \<noteq> 0" "topic_count ret old \<le> 7"
  by (auto simp: topic_count_def ctr_table_size_def ctr_handle_tab_facts(1) Let_def)

text \<open>What a successful run of \<open>load_table\<close> has built.\<close>

lemma load_table_Inr:
  assumes run: "load_table fs alloc d n st = Inr (k, st')" and n7: "n \<le> 7" and in_int: "INT_MIN \<le> n"
  shows "0 \<le> n" and "k = int (length (selection fs d (nat n)))"
    and "st' = st\<lparr>topicNumLocal := k, handleTableLocal :=
      Some (selection fs d (nat n) @ replicate (nat n - length (selection fs d (nat n))) zero_cmd)\<rparr>"
proof -
  from run obtain tab kk where ok: "malloc_ok alloc (sizeof_cmd_pro * n)"
    and loop: "topic_loop fs d 0 0 (replicate (nat n) zero_cmd) (take (nat n) ctr_handle_tab) = Inr (tab, kk)"
    and k: "k = int kk" and st': "st' = st\<lparr>topicNumLocal := int kk, handleTableLocal := Some tab\<rparr>"
    by (auto simp: load_table_def bindR_eq_Inr guardR_eq_Inr)
  show "0 \<le> n"
    using ok malloc_ok_neg [of "sizeof_cmd_pro * n" alloc] in_int
    by (force simp: sizeof_cmd_pro_def INT_MIN_def)
  have sel: "nths (take (nat n) ctr_handle_tab) {j. topic_on fs d (0 + j)} = selection fs d (nat n)"
    by (simp add: nths_take_less selection_def)
  have "length (take (nat n) ctr_handle_tab) = nat n"
    using n7 by (simp add: ctr_handle_tab_facts(1) min_absorb2 nat_le_iff)
  with topic_loop_Inr [OF loop] sel
  have kk: "kk = length (selection fs d (nat n))"
    and "tab = map reset (selection fs d (nat n)) @ drop kk (replicate (nat n) zero_cmd)"
    by simp_all
  then show "k = int (length (selection fs d (nat n)))"
    and "st' = st\<lparr>topicNumLocal := k, handleTableLocal :=
      Some (selection fs d (nat n) @ replicate (nat n - length (selection fs d (nat n))) zero_cmd)\<rparr>"
    using k st' by (simp_all add: selection_facts(3))
qed

lemma selection_length: "length (selection fs d n) \<le> n"
proof -
  have "length (selection fs d n) = card {i. i < length ctr_handle_tab \<and> i < n \<and> topic_on fs d i}"
    by (simp add: selection_def length_nths)
  also have "\<dots> \<le> card {..<n}" by (intro card_mono) auto
  finally show ?thesis by simp
qed

lemma load_table_inv:
  assumes run: "load_table fs alloc d n st = Inr (k, st')" and "n \<le> 7" "INT_MIN \<le> n" "n \<noteq> 0"
    and "\<not> mysqlcon st"
  shows "reg_inv st'" and "active st' = selection fs d (nat n)"
proof -
  note l = load_table_Inr [OF run assms(2,3)]
  let ?sel = "selection fs d (nat n)"
  show act: "active st' = ?sel"
    using l by (simp add: active_def)
  have "length ?sel \<le> nat n" by (rule selection_length)
  moreover have "0 < nat n" using l(1) \<open>n \<noteq> 0\<close> by simp
  ultimately show "reg_inv st'"
    using l(2,3) act selection_facts(1,2) [where fs = fs and d = d and n = "nat n"] \<open>\<not> mysqlcon st\<close>
    by (auto simp: reg_inv_def nth_append)
qed

lemma atoi_in_int: "atoi s = Inr n \<Longrightarrow> in_int n"
  by (auto simp: atoi_def Let_def guardR_eq_Inr)

lemma topic_loop_total:
  assumes "\<And>i. \<exists>v n. GetInitKey fs CONFIG_FILE ''TOPIC'' (dec_str i) = Inr v \<and> length (val_str v) < 128
      \<and> (if val_str v = [] then Inr d else atoi (val_str v)) = Inr n"
    and "k + length es \<le> length tab"
  shows "\<exists>r. topic_loop fs d i k tab es = Inr r"
  using assms(2)
proof (induction es arbitrary: i k tab)
  case (Cons e es)
  from assms(1) [of i] obtain v n where "GetInitKey fs CONFIG_FILE ''TOPIC'' (dec_str i) = Inr v"
    "length (val_str v) < 128" "(if val_str v = [] then Inr d else atoi (val_str v)) = Inr n"
    by blast
  then show ?case using Cons.IH Cons.prems by (simp add: Let_def)
qed simp

text \<open>A whole stream of messages, processed one after the other.\<close>

fun decode_all :: "string list \<Rightarrow> reg_state \<Rightarrow> reg_state res" where
  "decode_all [] st = Inr st"
| "decode_all (t # ts) st = bindR (decode_msg_handle (Inr ()) t st) (decode_all ts)"

lemma decode_all_refines:
  assumes "reg_inv st" and "'''' \<notin> set ts"
  shows "\<exists>st'. decode_all ts st = Inr st' \<and> reg_inv st' \<and> abs_reg st' = fold deliver ts (abs_reg st)"
  using assms
proof (induction ts arbitrary: st)
  case (Cons t ts)
  then obtain st' where "decode_msg_handle (Inr ()) t st = Inr st'" "reg_inv st'"
    "abs_reg st' = deliver t (abs_reg st)"
    using decode_refines [of st t] by auto
  with Cons.IH [of st'] Cons.prems(2) show ?case by simp
qed simp

lemma fold_deliver:
  "fst (fold deliver ts (tbl, n, log)) = map (\<lambda>(t, h, c). (t, h, c + of_nat (count_list ts t))) tbl"
  "fst (snd (fold deliver ts (tbl, n, log))) = n + of_nat (length ts)"
  by (induction ts arbitrary: tbl n log) (auto simp: deliver_def ac_simps)

lemma fold_deliver_log:
  assumes "distinct (map fst tbl)"
  shows "map snd (snd (snd (fold deliver ts (tbl, n, log)))) =
    map snd log @ filter (\<lambda>t. t \<in> fst ` set tbl) ts"
  using assms
proof (induction ts arbitrary: tbl n log)
  case (Cons t ts)
  let ?tbl = "map (\<lambda>(t', h, c). if t' = t then (t', h, c + 1) else (t', h, c)) tbl"
  have names: "map fst ?tbl = map fst tbl" by (auto simp: case_prod_beta)
  have len: "length (filter (\<lambda>(t', h, c). t' = t) tbl) = (if t \<in> fst ` set tbl then 1 else 0)"
    using Cons.prems by (induction tbl) (auto simp: image_iff split: if_splits)
  have "map snd (map (\<lambda>(t', h, c). (the h, t)) (filter (\<lambda>(t', h, c). t' = t) tbl)) =
      (if t \<in> fst ` set tbl then [t] else [])"
    using len by (auto simp: length_Suc_conv case_prod_beta split: if_splits)
  moreover have "fst ` set ?tbl = fst ` set tbl"
    using arg_cong [OF names, of set] by (simp add: image_image)
  moreover have "deliver t (tbl, n, log) = (?tbl, n + 1,
      log @ map (\<lambda>(t', h, c). (the h, t)) (filter (\<lambda>(t', h, c). t' = t) tbl))"
    by (simp add: deliver_def)
  moreover have "distinct (map fst ?tbl)" using names Cons.prems by argo
  ultimately show ?case
    using Cons.IH [of ?tbl] by simp
qed simp

lemma topic_names: "title_fits ''TOPIC''" "key_ok ''DEFAULT''" "key_ok ''NUM''"
  by (simp_all add: title_fits_def key_ok_def no_blanks_def text_chars LINE_MAX_def)

text \<open>The number the configuration file has for a key of the TOPIC section.\<close>

definition topic_number :: "files \<Rightarrow> string \<Rightarrow> int res" where
  "topic_number fs key = bindR (GetInitKey fs CONFIG_FILE ''TOPIC'' key) (\<lambda>v. atoi (val_str v))"

text \<open>What a successful load leaves behind.\<close>

lemma initTopicConf_loads:
  assumes "initTopicConf fs alloc reg_init = Inr (k, st')"
  obtains def num where "topic_number fs ''DEFAULT'' = Inr def" "topic_number fs ''NUM'' = Inr num" "0 \<le> num"
    "reg_inv st'" "k = int (length (active st'))" "topicNumLocal st' = k"
    "active st' = selection fs (if def = 1 then 1 else 0) (if num = 0 then 7 else min 7 (nat num))"
proof -
  obtain def num where nums: "topic_number fs ''DEFAULT'' = Inr def" "topic_number fs ''NUM'' = Inr num" "in_int num"
    and load: "load_table fs alloc (topic_default def) (topic_count num ctr_table_size) reg_init = Inr (k, st')"
    using assms atoi_in_int by (auto simp: initTopicConf_def bindR_eq_Inr reg_init_def topic_number_def)
  let ?n = "topic_count num ctr_table_size"
  have n: "?n \<le> 7" "INT_MIN \<le> ?n" "?n \<noteq> 0"
    using topic_count_facts nums(3)
    by (auto simp: topic_count_def Let_def ctr_table_size_def ctr_handle_tab_facts(1) int_range_defs)
  have "\<not> mysqlcon reg_init" by (simp add: reg_init_def)
  note inv = load_table_inv [OF load n this] and l = load_table_Inr [OF load n(1,2)]
  have "0 \<le> num" using l(1) by (auto simp: topic_count_def Let_def ctr_table_size_def split: if_splits)
  moreover have "nat ?n = (if num = 0 then 7 else min 7 (nat num))"
    using \<open>0 \<le> num\<close> by (auto simp: topic_count_def Let_def ctr_table_size_def ctr_handle_tab_facts(1))
  moreover have "topic_default def = (if def = 1 then 1 else 0)" by (simp add: topic_default_def)
  ultimately show thesis using that [OF nums(1,2)] inv l(2,3) by simp
qed

lemma initTopicConf_Inr:
  assumes "initTopicConf fs alloc reg_init = Inr (k, st')"
  shows "reg_inv st' \<and> k = int (length (active st')) \<and> topicNumLocal st' = k \<and>
    (\<exists>n d. 1 \<le> n \<and> n \<le> 7 \<and> active st' = selection fs d n)"
proof -
  obtain def num where l: "topic_number fs ''DEFAULT'' = Inr def" "topic_number fs ''NUM'' = Inr num" "0 \<le> num"
    "reg_inv st'" "k = int (length (active st'))" "topicNumLocal st' = k"
    "active st' = selection fs (if def = 1 then 1 else 0) (if num = 0 then 7 else min 7 (nat num))"
    by (rule initTopicConf_loads [OF assms])
  let ?n = "if num = 0 then 7 else min 7 (nat num) :: nat"
  have "1 \<le> ?n" "?n \<le> 7" using l(3) by auto
  with l(4-7) show ?thesis by blast
qed

section \<open>Properties\<close>

text \<open>
  C10: a successful \<open>initTopicConf\<close> leaves the dispatcher ready. With the numbers the file has for \<^verbatim>\<open>DEFAULT\<close> and
  \<^verbatim>\<open>NUM\<close> (which is then not negative), from the initial state of the module: the active table is the selection,
  among the first \<^verbatim>\<open>NUM\<close> built-in handlers, at most all seven, and all seven if the number is 0 or absent, of
  those whose configuration entry is 1, or absent when the default is 1, in the order of the built-in table; its
  length is returned and recorded; and the state satisfies the dispatcher's invariant.
\<close>
theorem initTopicConf_selects:
  assumes "initTopicConf fs alloc reg_init = Inr (k, st')"
  shows "reg_inv st' \<and> k = int (length (active st')) \<and> topicNumLocal st' = k \<and>
    (\<exists>def num. topic_number fs ''DEFAULT'' = Inr def \<and> topic_number fs ''NUM'' = Inr num \<and> 0 \<le> num \<and>
       active st' = selection fs (if def = 1 then 1 else 0) (if num = 0 then 7 else min 7 (nat num)))"
  using initTopicConf_loads [OF assms] by metis

definition sample_topics :: config where
  "sample_topics = [(''TOPIC'', [(''DEFAULT'', ''0''), (''NUM'', ''2''), (''1'', ''1'')])]"

lemma sample_topics_wf: "wf_config sample_topics"
  by (simp add: sample_topics_def wf_config_def wf_header_def wf_entry_def header_line_def
      entry_line_def is_blank_def NL_def NUL_def SP_def TAB_def LINE_MAX_def)

definition sample_files :: files where
  "sample_files = [CONFIG_FILE \<mapsto> print_config sample_topics]"

lemma sample_get: "key_ok k \<Longrightarrow> GetInitKey sample_files CONFIG_FILE ''TOPIC'' k =
    Inr (case lookup_config sample_topics ''TOPIC'' k of Some v \<Rightarrow> Tmpstr v | None \<Rightarrow> Lit '''')"
  using GetInitKey_config [OF sample_topics_wf topic_names(1), of k sample_files CONFIG_FILE] by (simp add: sample_files_def)

lemma sample_keys: "key_ok ''0''" "key_ok ''1''"
  by (simp_all add: key_ok_def no_blanks_def text_chars)

lemma sample_atoi: "atoi ''0'' = Inr 0" "atoi ''1'' = Inr 1" "atoi ''2'' = Inr 2"
  by (simp_all add: atoi_def is_space_def is_digit_def int_range_defs SP_def TAB_def NL_def)

lemma sample_init: "initTopicConf sample_files (\<lambda>_. True) reg_init =
  Inr (1, reg_init\<lparr>topicNumLocal := 1, handleTableLocal := Some [ctr_handle_tab ! 1, zero_cmd]\<rparr>)"
  by (simp add: initTopicConf_def sample_get topic_names sample_keys lookup_config_def sample_topics_def sample_atoi
      topic_default_def topic_count_def ctr_table_size_def ctr_handle_tab_def load_table_def
      malloc_ok_def sizeof_cmd_pro_def PTRDIFF_MAX_def dec_str.simps dec_digit_simps numeral_2_eq_2)

theorem initTopicConf_selects_witness:
  "\<exists>st'. initTopicConf sample_files (\<lambda>_. True) reg_init = Inr (1, st') \<and> reg_inv st' \<and>
     active st' = selection sample_files 0 2 \<and> map topic_name (active st') = [''SFR123'']"
proof -
  have "topic_number sample_files ''DEFAULT'' = Inr 0" "topic_number sample_files ''NUM'' = Inr 2"
    by (simp_all add: topic_number_def sample_get topic_names lookup_config_def sample_topics_def sample_atoi)
  with initTopicConf_selects [OF sample_init] sample_init show ?thesis
    by (auto simp: active_def ctr_handle_tab_def dest: sym)
qed

text \<open>
  loading the topics succeeds whenever the configuration file is well formed, the values of
  its TOPIC section are short numbers and NUM is not negative; memory permitting.
\<close>
theorem initTopicConf_total:
  assumes cfg: "wf_config cfg" "fs CONFIG_FILE = Some (print_config cfg)"
    and vals: "\<And>k v. lookup_config cfg ''TOPIC'' k = Some v \<Longrightarrow> length v < 128 \<and> (\<exists>n. atoi v = Inr n)"
    and num: "\<And>v. lookup_config cfg ''TOPIC'' ''NUM'' = Some v \<Longrightarrow> \<exists>n \<ge> 0. atoi v = Inr n"
    and mem: "\<And>n. alloc n"
  shows "\<exists>k st'. initTopicConf fs alloc reg_init = Inr (k, st')"
proof -
  have get: "key_ok k \<Longrightarrow> GetInitKey fs CONFIG_FILE ''TOPIC'' k =
      Inr (case lookup_config cfg ''TOPIC'' k of Some v \<Rightarrow> Tmpstr v | None \<Rightarrow> Lit '''')" for k
    using GetInitKey_config [OF cfg(1) topic_names(1), of k fs CONFIG_FILE] cfg(2) by simp
  have a0: "atoi '''' = Inr 0" by (simp add: atoi_def int_range_defs)
  obtain ret where ret: "atoi (val_str (case lookup_config cfg ''TOPIC'' ''DEFAULT'' of
      Some v \<Rightarrow> Tmpstr v | None \<Rightarrow> Lit '''')) = Inr ret"
    using vals a0 by (cases "lookup_config cfg ''TOPIC'' ''DEFAULT''") auto
  obtain n where n: "atoi (val_str (case lookup_config cfg ''TOPIC'' ''NUM'' of
      Some v \<Rightarrow> Tmpstr v | None \<Rightarrow> Lit '''')) = Inr n" "0 \<le> n"
    using num vals a0 by (cases "lookup_config cfg ''TOPIC'' ''NUM''") auto
  let ?n = "topic_count n ctr_table_size" and ?d = "topic_default ret"
  have "0 \<le> ?n" "?n \<le> 7"
    using n(2) topic_count_facts by (auto simp: topic_count_def Let_def ctr_table_size_def)
  then have ok: "malloc_ok alloc (sizeof_cmd_pro * ?n)"
    and len: "0 + length (take (nat ?n) ctr_handle_tab) \<le> length (replicate (nat ?n) zero_cmd)"
    using mem by (auto simp: malloc_ok_def sizeof_cmd_pro_def PTRDIFF_MAX_def)
  have "\<exists>v m. GetInitKey fs CONFIG_FILE ''TOPIC'' (dec_str i) = Inr v \<and> length (val_str v) < 128
      \<and> (if val_str v = [] then Inr ?d else atoi (val_str v)) = Inr m" for i
    using vals [of "dec_str i"] get [OF key_ok_digits] by (cases "lookup_config cfg ''TOPIC'' (dec_str i)") auto
  from topic_loop_total [OF this len, of 0]
  obtain tab kk where loop: "topic_loop fs ?d 0 0 (replicate (nat ?n) zero_cmd) (take (nat ?n) ctr_handle_tab) = Inr (tab, kk)"
    by auto
  have "\<forall>e \<in> set (take kk tab). bc e \<noteq> None"
  proof -
    have sel: "nths (take (nat ?n) ctr_handle_tab) {j. topic_on fs ?d (0 + j)} = selection fs ?d (nat ?n)"
      by (simp add: nths_take_less selection_def)
    from topic_loop_Inr [OF loop len] have "take kk tab = selection fs ?d (nat ?n)"
      unfolding sel by (simp add: selection_facts(3))
    then show ?thesis using selection_facts(2) by metis
  qed
  with loop ok have "load_table fs alloc ?d ?n reg_init
      = Inr (int kk, reg_init\<lparr>topicNumLocal := int kk, handleTableLocal := Some tab\<rparr>)"
    by (simp add: load_table_def)
  then show ?thesis
    using ret n(1) by (simp add: initTopicConf_def get topic_names reg_init_def)
qed

text \<open>
  a negative topic number ends the process. If NUM is negative, the size given to
  \<^verbatim>\<open>malloc\<close> wraps to more than the address space and \<open>initTopicConf\<close> exits with status 1.
\<close>
theorem initTopicConf_negative:
  assumes "GetInitKey fs CONFIG_FILE ''TOPIC'' ''DEFAULT'' = Inr v" and "atoi (val_str v) = Inr ret"
    and "GetInitKey fs CONFIG_FILE ''TOPIC'' ''NUM'' = Inr v'" and "atoi (val_str v') = Inr num" and "num < 0"
  shows "initTopicConf fs alloc st = Inl (Exit 1)"
proof -
  have n: "topic_count num (topicNumLocal st) = num"
    using \<open>num < 0\<close> by (simp add: topic_count_def Let_def ctr_table_size_def)
  have "\<not> malloc_ok alloc (sizeof_cmd_pro * num)"
    using atoi_in_int [OF assms(4)] \<open>num < 0\<close>
    by (intro malloc_ok_neg) (simp_all add: int_range_defs sizeof_cmd_pro_def)
  then show ?thesis using assms n by (simp add: initTopicConf_def load_table_def)
qed

text \<open>
  C5: dispatch refines delivery. In a state satisfying the invariant, \<open>decode_msg_handle\<close> on a
  non-empty topic does not fault, keeps the invariant, and changes the abstract registry exactly
  as \<open>deliver\<close>: the message is counted, the entry of that topic is counted and its handler called
  once with the topic, and an unregistered topic changes nothing else. The remembered table
  position has no effect.
\<close>
theorem decode_msg_handle_refines:
  assumes "reg_inv st" and "topic \<noteq> ''''"
  shows "\<exists>st'. decode_msg_handle (Inr ()) topic st = Inr st' \<and> reg_inv st' \<and>
    abs_reg st' = deliver topic (abs_reg st)"
  using assms by (rule decode_refines)

lemma sample_state_inv:
  "reg_inv (reg_init\<lparr>topicNumLocal := 1, handleTableLocal := Some [ctr_handle_tab ! 1, zero_cmd]\<rparr>)"
  by (auto simp: reg_inv_def active_def ctr_handle_tab_def reg_init_def nth_Cons split: nat.splits)

theorem decode_msg_handle_refines_witness:
  "\<exists>st'. decode_msg_handle (Inr ()) ''SFR123''
      (reg_init\<lparr>topicNumLocal := 1, handleTableLocal := Some [ctr_handle_tab ! 1, zero_cmd]\<rparr>) = Inr st'
    \<and> calls st' = [(Do_A1, ''SFR123'')]"
proof -
  have ne: "''SFR123'' \<noteq> ''''" by simp
  show ?thesis
    using decode_msg_handle_refines [OF sample_state_inv ne]
    by (auto simp: abs_reg_def deliver_def active_def ctr_handle_tab_def reg_init_def)
qed

text \<open>
  C17: the search cache is transparent. Whatever position is remembered, a message of topic \<open>t\<close> is
  served by the table position a scan from the start finds, and by none if there is none.
\<close>
theorem served_is_first:
  assumes "reg_inv st" and "t \<noteq> ''''"
  shows "served t st = first_index (topic_matches t) (active st)"
proof (rule topics.found_first [OF assms(1)])
  fix i j assume "i < length (active st)" "j < length (active st)"
    "topic_matches t (active st ! i)" "topic_matches t (active st ! j)"
  then show "i = j"
    using assms(1) distinct_map_nth [of topic_name "active st" i j]
    by (auto simp: topic_matches_def reg_inv_def split: option.splits)
qed

theorem served_is_first_witness:
  "served ''SFR123'' (reg_init\<lparr>topicNumLocal := 1, handleTableLocal := Some [ctr_handle_tab ! 1, zero_cmd]\<rparr>) = Some 0"
proof -
  have ne: "''SFR123'' \<noteq> ''''" by simp
  show ?thesis
    using served_is_first [OF sample_state_inv ne]
    by (simp add: active_def topic_matches_def ctr_handle_tab_def)
qed

text \<open>
  C18: the statistics are right. After any stream of messages with non-empty topics, the message
  counter has advanced by their number and each topic's counter by the number of messages of
  that topic (both modulo \<open>2 ^ 32\<close>), and the handlers were called for exactly the registered
  messages, in order.
\<close>
theorem decode_all_counts:
  assumes "reg_inv st" and "'''' \<notin> set ts"
  shows "\<exists>st'. decode_all ts st = Inr st' \<and> msgcnt st' = msgcnt st + of_nat (length ts) \<and>
    map (\<lambda>e. (topic_name e, cnt e)) (active st') =
      map (\<lambda>e. (topic_name e, cnt e + of_nat (count_list ts (topic_name e)))) (active st) \<and>
    map snd (calls st') = map snd (calls st) @ filter (\<lambda>t. t \<in> topic_name ` set (active st)) ts"
proof -
  from decode_all_refines [OF assms] obtain st' where run: "decode_all ts st = Inr st'"
    and abs: "abs_reg st' = fold deliver ts (abs_reg st)" by blast
  let ?tbl = "map (\<lambda>e. (topic_name e, bc e, cnt e)) (active st)"
  have st: "abs_reg st = (?tbl, msgcnt st, calls st)" by (simp add: abs_reg_def)
  have d: "distinct (map fst ?tbl)"
    using assms(1) by (auto simp: reg_inv_def o_def split: option.splits)
  have tbl: "map (\<lambda>e. (topic_name e, bc e, cnt e)) (active st') =
      map (\<lambda>e. (topic_name e, bc e, cnt e + of_nat (count_list ts (topic_name e)))) (active st)"
    using arg_cong [OF abs, of fst] fold_deliver(1) [of ts ?tbl "msgcnt st" "calls st"] st
    by (simp add: abs_reg_def o_def)
  have "map (\<lambda>e. (topic_name e, cnt e)) (active st') =
      map (\<lambda>(t, h, c). (t, c)) (map (\<lambda>e. (topic_name e, bc e, cnt e)) (active st'))"
    by simp
  also have "\<dots> = map (\<lambda>e. (topic_name e, cnt e + of_nat (count_list ts (topic_name e)))) (active st)"
    unfolding tbl by simp
  finally have "map (\<lambda>e. (topic_name e, cnt e)) (active st') =
      map (\<lambda>e. (topic_name e, cnt e + of_nat (count_list ts (topic_name e)))) (active st)" .
  moreover have "msgcnt st' = msgcnt st + of_nat (length ts)"
    using arg_cong [OF abs, of "fst \<circ> snd"] fold_deliver(2) [of ts ?tbl "msgcnt st" "calls st"] st
    by (simp add: abs_reg_def)
  moreover have "map snd (calls st') = map snd (calls st) @ filter (\<lambda>t. t \<in> topic_name ` set (active st)) ts"
    using arg_cong [OF abs, of "snd \<circ> snd"] fold_deliver_log [OF d, of ts "msgcnt st" "calls st"] st
    by (simp add: abs_reg_def image_image)
  ultimately show ?thesis using run by auto
qed

theorem decode_all_counts_witness:
  "\<exists>st'. decode_all [''SFR123'', ''X'', ''SFR123'']
      (reg_init\<lparr>topicNumLocal := 1, handleTableLocal := Some [ctr_handle_tab ! 1, zero_cmd]\<rparr>) = Inr st'
    \<and> msgcnt st' = 3 \<and> map cnt (active st') = [2]"
proof -
  have ne: "'''' \<notin> set [''SFR123'', ''X'', ''SFR123'']" by simp
  show ?thesis
    using decode_all_counts [OF sample_state_inv ne]
    by (auto simp: active_def ctr_handle_tab_def reg_init_def)
qed

text \<open>
  The minutes printed by \<open>print_stats\<close> are not the minutes of the hour. For a running time of
  \<open>s\<close> seconds, the printed hours, minutes and seconds add up to \<open>s\<close> only in the first hour: from
  the second hour on, the printed fields denote a longer time than the one that passed.
\<close>
lemma print_stats_minutes:
  assumes "print_stats now begin st = Inr r" and "0 \<le> st_total r"
  shows "3600 * st_h r + 60 * st_m r + st_s r = st_total r \<longleftrightarrow> st_total r < 3600"
proof -
  let ?s = "st_total r"
  have "st_h r = ?s div 3600" "st_m r = ?s div 60" "st_s r = ?s mod 60"
    using assms by (auto simp: print_stats_def Let_def bindR_eq_Inr)
  then show ?thesis using assms(2) by auto
qed

end
