(* ===== verification/Cmd_Table.thy ===== *)
theory Cmd_Table
  imports Mqtt_Prelude
begin

text \<open>
  The command table of \<^verbatim>\<open>lib/cmd.init.c\<close>: an array of 256 types, each a pointer to an array of
  256 handler pointers that is allocated when the type is added. Handlers are opaque values.

  The contract of such a two-level table is the locale \<open>registry\<close>: what is registered is looked
  up, the first registration wins, other keys keep their handlers. It is interpreted on the
  code's own functions.
\<close>

section \<open>The code\<close>

definition MAX_CMD_TYPE :: nat where "MAX_CMD_TYPE = 256"
definition MAX_CMD_VALUE :: nat where "MAX_CMD_VALUE = 256"

type_synonym 'p cmd_map = "'p option list option list"

definition sCmdMap_init :: "'p cmd_map" where
  "sCmdMap_init = replicate MAX_CMD_TYPE None"

definition cmdAddType :: "(int \<Rightarrow> bool) \<Rightarrow> u16 \<Rightarrow> 'p cmd_map \<Rightarrow> (int \<times> 'p cmd_map) res" where
  "cmdAddType alloc cmd m =
     guardR OverRead (unat cmd < length m)
       (case m ! unat cmd of
          Some _ \<Rightarrow> Inr (0, m)
        | None \<Rightarrow> if malloc_ok alloc (8 * int MAX_CMD_VALUE)
                  then Inr (1, m[unat cmd := Some (replicate MAX_CMD_VALUE None)])
                  else Inr (0, m))"

definition cmdRegister :: "u16 \<Rightarrow> byte \<Rightarrow> 'p option \<Rightarrow> 'p cmd_map \<Rightarrow> (int \<times> 'p cmd_map) res" where
  "cmdRegister cmd val proc m =
     guardR OverRead (unat cmd < length m)
       (case m ! unat cmd of
          None \<Rightarrow> Inl NullDeref
        | Some row \<Rightarrow>
            if row ! unat val \<noteq> None then Inr (0, m)
            else Inr (if proc = None then 0 else 1, m[unat cmd := Some (row[unat val := proc])]))"

definition cmdGetProc :: "byte \<Rightarrow> byte \<Rightarrow> 'p cmd_map \<Rightarrow> 'p option" where
  "cmdGetProc cmd val m = (case m ! unat cmd of None \<Rightarrow> None | Some row \<Rightarrow> row ! unat val)"

text \<open>The table always has 256 types and every allocated row 256 entries.\<close>

definition cmd_inv :: "'p cmd_map \<Rightarrow> bool" where
  "cmd_inv m \<longleftrightarrow> length m = MAX_CMD_TYPE \<and> (\<forall>row. Some row \<in> set m \<longrightarrow> length row = MAX_CMD_VALUE)"

definition has_type :: "u16 \<Rightarrow> 'p cmd_map \<Rightarrow> bool" where
  "has_type cmd m \<longleftrightarrow> unat cmd < MAX_CMD_TYPE \<and> m ! unat cmd \<noteq> None"

lemmas cmd_defs = cmd_inv_def has_type_def MAX_CMD_TYPE_def MAX_CMD_VALUE_def

lemma cmd_inv_init: "cmd_inv sCmdMap_init"
  by (simp add: cmd_inv_def sCmdMap_init_def)

lemma cmd_inv_row:
  assumes "cmd_inv m" and "unat cmd < MAX_CMD_TYPE" and "m ! unat cmd = Some row"
  shows "length row = MAX_CMD_VALUE"
  using assms by (metis cmd_inv_def nth_mem)

lemma cmd_inv_update:
  assumes "cmd_inv m" and "\<And>row. r = Some row \<Longrightarrow> length row = MAX_CMD_VALUE"
  shows "cmd_inv (m[i := r])"
  using assms set_update_subset_insert [of m i r] by (fastforce simp: cmd_inv_def)

section \<open>The contract\<close>

text \<open>Registering a list of handlers, ignoring the return values.\<close>

fun register_all :: "('t \<Rightarrow> 'k \<Rightarrow> 'p option \<Rightarrow> 's \<Rightarrow> (int \<times> 's) res) \<Rightarrow> ('t \<times> 'k \<times> 'p) list \<Rightarrow> 's \<Rightarrow> 's res" where
  "register_all reg [] s = Inr s"
| "register_all reg ((t, k, p) # es) s = bindR (reg t k (Some p) s) (\<lambda>r. register_all reg es (snd r))"

locale registry =
  fixes inv :: "'s \<Rightarrow> bool"
    and ready :: "'t \<Rightarrow> 's \<Rightarrow> bool"
    and lookup :: "'t \<Rightarrow> 'k \<Rightarrow> 's \<Rightarrow> 'p option"
    and register :: "'t \<Rightarrow> 'k \<Rightarrow> 'p option \<Rightarrow> 's \<Rightarrow> (int \<times> 's) res"
  assumes register_free:
    "inv s \<Longrightarrow> ready t s \<Longrightarrow> lookup t k s = None \<Longrightarrow>
     \<exists>s'. register t k (Some p) s = Inr (1, s') \<and> inv s' \<and> (\<forall>t'. ready t' s' = ready t' s)
       \<and> (\<forall>t' k'. lookup t' k' s' = (if t' = t \<and> k' = k then Some p else lookup t' k' s))"
    and register_taken:
    "inv s \<Longrightarrow> ready t s \<Longrightarrow> lookup t k s \<noteq> None \<Longrightarrow> register t k q s = Inr (0, s)"
begin

text \<open>The first registration of a key decides; keys that are not listed are unchanged.\<close>

lemma register_all_lookup:
  assumes "inv s" and "\<forall>e \<in> set es. ready (fst e) s"
  shows "\<exists>s'. register_all register es s = Inr s' \<and> inv s' \<and> (\<forall>t k. lookup t k s' =
    (case lookup t k s of Some p \<Rightarrow> Some p
     | None \<Rightarrow> map_of (map (\<lambda>(t, k, p). ((t, k), p)) es) (t, k)))"
  using assms
proof (induction es arbitrary: s)
  case Nil
  then show ?case by (auto split: option.split)
next
  case (Cons e es)
  obtain t k p where e: "e = (t, k, p)" by (cases e)
  have rdy: "ready t s" using Cons.prems(2) e by simp
  show ?case
  proof (cases "lookup t k s")
    case (Some q)
    then have "register t k (Some p) s = Inr (0, s)"
      using register_taken [OF Cons.prems(1) rdy] by simp
    with Cons.IH [OF Cons.prems(1)] Cons.prems(2) Some e show ?thesis
      by (auto split: option.split)
  next
    case None
    with register_free [OF Cons.prems(1) rdy, of k p]
    obtain s' where s': "register t k (Some p) s = Inr (1, s')" "inv s'"
      "\<forall>t'. ready t' s' = ready t' s"
      "\<forall>t' k'. lookup t' k' s' = (if t' = t \<and> k' = k then Some p else lookup t' k' s)"
      by blast
    from Cons.IH [OF s'(2)] s'(3) Cons.prems(2) obtain s'' where s'': "register_all register es s' = Inr s''" "inv s''"
      "\<forall>t k. lookup t k s'' = (case lookup t k s' of Some p \<Rightarrow> Some p
         | None \<Rightarrow> map_of (map (\<lambda>(t, k, p). ((t, k), p)) es) (t, k))"
      by auto
    have "register_all register (e # es) s = Inr s''" using s'(1) s''(1) e by simp
    moreover have "lookup t0 k0 s'' = (case lookup t0 k0 s of Some p \<Rightarrow> Some p
         | None \<Rightarrow> map_of (map (\<lambda>(t, k, p). ((t, k), p)) (e # es)) (t0, k0))" for t0 k0
      using s''(3) s'(4) None e by (auto split: option.split)
    ultimately show ?thesis using s''(2) by blast
  qed
qed

end

section \<open>The code keeps the contract\<close>

text \<open>Types as the table indexes them: one byte, widened to the 16 bits of \<open>cmdRegister\<close>.\<close>

definition widen :: "byte \<Rightarrow> u16" where
  "widen c = ucast c"

lemma unat_widen: "unat (widen c) = unat c"
  using unat_byte_less [of c] by (simp add: widen_def unsigned_ucast_eq take_bit_nat_eq_self)

lemma row_index: "unat (c :: byte) < MAX_CMD_VALUE" "unat (c :: byte) < MAX_CMD_TYPE"
  using unat_byte_less [of c] by (simp_all add: cmd_defs)

lemma register_free_ok:
  assumes inv: "cmd_inv m" and rdy: "has_type (widen t) m" and free: "cmdGetProc t k m = None"
  shows "\<exists>m'. cmdRegister (widen t) k (Some p) m = Inr (1, m') \<and> cmd_inv m'
    \<and> (\<forall>t'. has_type (widen t') m' = has_type (widen t') m)
    \<and> (\<forall>t' k'. cmdGetProc t' k' m' = (if t' = t \<and> k' = k then Some p else cmdGetProc t' k' m))"
proof -
  from rdy obtain row where row: "m ! unat t = Some row" by (auto simp: has_type_def unat_widen)
  have len: "unat t < length m" "length row = MAX_CMD_VALUE"
    using inv cmd_inv_row [OF inv _ row] row_index(2) [of t] by (auto simp: cmd_inv_def)
  let ?m = "m[unat t := Some (row[unat k := Some p])]"
  have "cmdRegister (widen t) k (Some p) m = Inr (1, ?m)"
    using row free len by (simp add: cmdRegister_def cmdGetProc_def unat_widen)
  moreover have "cmd_inv ?m" using inv len by (intro cmd_inv_update) auto
  moreover have "has_type (widen t') ?m = has_type (widen t') m" for t'
    using row len(1) by (auto simp: has_type_def unat_widen nth_list_update)
  moreover have "cmdGetProc t' k' ?m = (if t' = t \<and> k' = k then Some p else cmdGetProc t' k' m)" for t' k'
    using row len row_index(1) [of k] by (auto simp: cmdGetProc_def nth_list_update unat_byte_inject)
  ultimately show ?thesis by blast
qed

interpretation cmds: registry cmd_inv "\<lambda>t. has_type (widen t)" cmdGetProc "\<lambda>t. cmdRegister (widen t)"
proof (standard, goal_cases)
  case (1 s t k p)
  then show ?case by (rule register_free_ok)
next
  case (2 s t k p)
  then obtain row where row: "s ! unat t = Some row" by (auto simp: has_type_def unat_widen)
  with 2 row_index(2) [of t] show ?case
    by (auto simp: cmdRegister_def cmdGetProc_def unat_widen cmd_inv_def)
qed

section \<open>Properties\<close>

text \<open>
  what is registered is found. Registering a list of handlers for types that have been added
  leaves every lookup with the handler that was there before, else with the first one listed
  for its type and value, else with none.
\<close>
theorem cmd_registered_found:
  assumes "cmd_inv m" and "\<forall>e \<in> set es. has_type (widen (fst e)) m"
  shows "\<exists>m'. register_all (\<lambda>t. cmdRegister (widen t)) es m = Inr m' \<and> cmd_inv m' \<and> (\<forall>t k. cmdGetProc t k m' =
    (case cmdGetProc t k m of Some p \<Rightarrow> Some p
     | None \<Rightarrow> map_of (map (\<lambda>(t, k, p). ((t, k), p)) es) (t, k)))"
  using cmds.register_all_lookup [OF assms] .

text \<open>
  registering a handler for a type that was never added writes through a null pointer, and a
  type number of 256 or more indexes outside the table: the existence test of \<open>cmdRegister\<close>
  guards the duplicate check only, and the 16 bit type is not compared with the table size.
\<close>
theorem cmdRegister_faults:
  assumes "cmd_inv m"
  shows "(faults (cmdRegister cmd val proc m) \<longleftrightarrow> \<not> has_type cmd m) \<and>
    (cmdAddType alloc cmd m = Inl OverRead \<longleftrightarrow> 256 \<le> unat cmd)"
  using assms
  by (auto simp: cmdRegister_def cmdAddType_def guardR_def cmd_defs split: option.split)

end
