(* ===== verification/Settings.thy ===== *)
theory Settings
  imports Config_File
begin

text \<open>
  The server's settings: the global variables of \<^verbatim>\<open>lib/globle.c\<close>, the part of \<^verbatim>\<open>main\<close> that reads
  them from the configuration file, and \<^verbatim>\<open>initMysqlAccount\<close> of \<^verbatim>\<open>lib/mysql.sdk.c\<close>.

  A character array of 256 bytes is modelled by its contents up to the first NUL, a string of
  at most 256 characters; with 256 characters it is not terminated.

  Shown: the settings are read without a fault exactly when every string key is present, and
  then they are the configured values; a missing key makes \<^verbatim>\<open>memcpy\<close> read past a string literal.
\<close>

record globals =
  MQTT_CLIENTID_g :: string
  MQTT_USERNAME_g :: string
  MQTT_PWD_g :: string
  MQTT_SVR_IP_g :: string
  MQTT_KEEPALIVE_g :: int
  DB_SCAN_ENABLE_g :: int
  TIME_SYNC_INTERVAL_g :: int
  GAME_HEART_BEAT_g :: int
  MYSQL_SERVERIP :: string
  MYSQL_USERID :: string
  MYSQL_PASSWD :: string
  MYSQL_DATABASE :: string

definition globals_init :: globals where
  "globals_init =
     \<lparr>MQTT_CLIENTID_g = ''Default_ID_250'', MQTT_USERNAME_g = ''Default_XinYun'',
      MQTT_PWD_g = ''Default_PWD'', MQTT_SVR_IP_g = ''tcp://spare.yuanwe.net:8081'',
      MQTT_KEEPALIVE_g = 45, DB_SCAN_ENABLE_g = 0, TIME_SYNC_INTERVAL_g = 600,
      GAME_HEART_BEAT_g = 100000, MYSQL_SERVERIP = ''localhost'', MYSQL_USERID = ''jsb'',
      MYSQL_PASSWD = ''password'', MYSQL_DATABASE = ''jj''\<rparr>"

section \<open>Reading one setting\<close>

text \<open>
  \<^verbatim>\<open>ret = atoi(GetInitKey(...)); var = ret ? ret : var\<close>, and
  \<^verbatim>\<open>memcpy(tmp, GetInitKey(...), 256); if (strlen(tmp)) memcpy(var, tmp, 256)\<close>. The copy reads
  256 bytes of whatever \<open>GetInitKey\<close> points to: a string literal has no more than its text and
  the terminator.
\<close>

definition load_int :: "files \<Rightarrow> string \<Rightarrow> string \<Rightarrow> string \<Rightarrow> int \<Rightarrow> int res" where
  "load_int fs fname title key old =
     bindR (GetInitKey fs fname title key) (\<lambda>v.
     bindR (atoi (val_str v)) (\<lambda>ret. Inr (if ret \<noteq> 0 then ret else old)))"

fun memcpy_256 :: "init_val \<Rightarrow> string res" where
  "memcpy_256 (Tmpstr s) = Inr (take 256 s)"
| "memcpy_256 (Lit s) = guardR OverRead (256 \<le> length s + 1) (Inr (take 256 s))"

definition load_str :: "files \<Rightarrow> string \<Rightarrow> string \<Rightarrow> string \<Rightarrow> string \<Rightarrow> string res" where
  "load_str fs fname title key old =
     bindR (GetInitKey fs fname title key) (\<lambda>v.
     bindR (memcpy_256 v) (\<lambda>tmp. Inr (if tmp \<noteq> [] then tmp else old)))"

section \<open>Reading all settings\<close>

definition initMysqlAccount :: "files \<Rightarrow> string \<Rightarrow> globals \<Rightarrow> globals res" where
  "initMysqlAccount fs dataFile g =
     bindR (load_str fs dataFile ''MYSQL'' ''SERVERIP'' (MYSQL_SERVERIP g)) (\<lambda>a.
     bindR (load_str fs dataFile ''MYSQL'' ''USERID'' (MYSQL_USERID g)) (\<lambda>b.
     bindR (load_str fs dataFile ''MYSQL'' ''PASSWD'' (MYSQL_PASSWD g)) (\<lambda>c.
     bindR (load_str fs dataFile ''MYSQL'' ''DATABASE'' (MYSQL_DATABASE g)) (\<lambda>d.
       Inr (g\<lparr>MYSQL_SERVERIP := a, MYSQL_USERID := b, MYSQL_PASSWD := c, MYSQL_DATABASE := d\<rparr>)))))"

definition main_settings :: "files \<Rightarrow> string \<Rightarrow> globals \<Rightarrow> globals res" where
  "main_settings fs fname g =
     bindR (load_int fs fname ''MQTT'' ''GAME_HEART_BEAT'' (GAME_HEART_BEAT_g g)) (\<lambda>hb.
     bindR (load_int fs fname ''MQTT'' ''MQTT_KEEPALIVE'' (MQTT_KEEPALIVE_g g)) (\<lambda>ka.
     bindR (load_int fs fname ''MQTT'' ''DB_SCAN_ENABLE'' (DB_SCAN_ENABLE_g g)) (\<lambda>db.
     bindR (load_int fs fname ''MQTT'' ''TIME_SYNC_INTERVAL'' (TIME_SYNC_INTERVAL_g g)) (\<lambda>ts.
     bindR (load_str fs fname ''MQTT'' ''MQTT_SVR_IP'' (MQTT_SVR_IP_g g)) (\<lambda>ip.
     bindR (load_str fs fname ''MQTT'' ''MQTT_CLIENTID'' (MQTT_CLIENTID_g g)) (\<lambda>ci.
     bindR (load_str fs fname ''MQTT'' ''MQTT_USERNAME'' (MQTT_USERNAME_g g)) (\<lambda>un.
     bindR (load_str fs fname ''MQTT'' ''MQTT_PWD'' (MQTT_PWD_g g)) (\<lambda>pw.
       initMysqlAccount fs fname
         (g\<lparr>GAME_HEART_BEAT_g := hb, MQTT_KEEPALIVE_g := ka, DB_SCAN_ENABLE_g := db,
            TIME_SYNC_INTERVAL_g := ts, MQTT_SVR_IP_g := ip, MQTT_CLIENTID_g := ci,
            MQTT_USERNAME_g := un, MQTT_PWD_g := pw\<rparr>)))))))))"

section \<open>What the settings are\<close>

text \<open>The string keys \<open>main\<close> reads, and the value of a setting in a configuration.\<close>

definition string_keys :: "(string \<times> string) list" where
  "string_keys =
     [(''MQTT'', ''MQTT_SVR_IP''), (''MQTT'', ''MQTT_CLIENTID''), (''MQTT'', ''MQTT_USERNAME''),
      (''MQTT'', ''MQTT_PWD''), (''MYSQL'', ''SERVERIP''), (''MYSQL'', ''USERID''),
      (''MYSQL'', ''PASSWD''), (''MYSQL'', ''DATABASE'')]"

definition int_keys :: "string list" where
  "int_keys = [''GAME_HEART_BEAT'', ''MQTT_KEEPALIVE'', ''DB_SCAN_ENABLE'', ''TIME_SYNC_INTERVAL'']"

definition str_setting :: "config \<Rightarrow> string \<Rightarrow> string \<Rightarrow> string \<Rightarrow> string" where
  "str_setting cfg title key old =
     (case lookup_config cfg title key of
        None \<Rightarrow> old | Some v \<Rightarrow> if v = [] then old else take 256 v)"

definition int_setting :: "config \<Rightarrow> string \<Rightarrow> int \<Rightarrow> int" where
  "int_setting cfg key old =
     (case lookup_config cfg ''MQTT'' key of
        None \<Rightarrow> old
      | Some v \<Rightarrow> (case atoi v of Inr n \<Rightarrow> if n \<noteq> 0 then n else old | Inl _ \<Rightarrow> old))"

definition ints_ok :: "config \<Rightarrow> bool" where
  "ints_ok cfg \<longleftrightarrow> (\<forall>k \<in> set int_keys. \<forall>v. lookup_config cfg ''MQTT'' k = Some v \<longrightarrow> \<not> faults (atoi v))"

definition strings_present :: "config \<Rightarrow> bool" where
  "strings_present cfg \<longleftrightarrow> (\<forall>(t, k) \<in> set string_keys. lookup_config cfg t k \<noteq> None)"

lemma setting_names:
  "title_fits ''MQTT''" "title_fits ''MYSQL''" "(t, k) \<in> set string_keys \<Longrightarrow> title_fits t \<and> key_ok k" "k \<in> set int_keys \<Longrightarrow> key_ok k"
  by (auto simp: title_fits_def key_ok_def no_blanks_def text_chars LINE_MAX_def string_keys_def int_keys_def)

lemma load_str_config:
  assumes "wf_config cfg" and "fs fname = Some (print_config cfg)" and "(t, k) \<in> set string_keys"
  shows "load_str fs fname t k old =
    (if lookup_config cfg t k = None then Inl OverRead else Inr (str_setting cfg t k old))"
  using setting_names(3) [OF assms(3)] GetInitKey_config [where fs = fs and f = fname, OF assms(1) _ _ assms(2)]
  by (auto simp: load_str_def str_setting_def split: option.split)

lemma load_int_config:
  assumes "wf_config cfg" and "fs fname = Some (print_config cfg)" and "ints_ok cfg" and "k \<in> set int_keys"
  shows "load_int fs fname ''MQTT'' k old = Inr (int_setting cfg k old)"
proof (cases "lookup_config cfg ''MQTT'' k")
  case None
  then show ?thesis
    using GetInitKey_config [where fs = fs and f = fname, OF assms(1) setting_names(1) setting_names(4) [OF assms(4)] assms(2)]
    by (simp add: load_int_def int_setting_def atoi_def int_range_defs)
next
  case (Some v)
  with assms(3,4) obtain n where "atoi v = Inr n"
    by (cases "atoi v") (auto simp: ints_ok_def)
  with Some show ?thesis
    using GetInitKey_config [where fs = fs and f = fname, OF assms(1) setting_names(1) setting_names(4) [OF assms(4)] assms(2)]
    by (simp add: load_int_def int_setting_def)
qed

definition configured :: "config \<Rightarrow> globals \<Rightarrow> globals" where
  "configured cfg g = g\<lparr>
     GAME_HEART_BEAT_g := int_setting cfg ''GAME_HEART_BEAT'' (GAME_HEART_BEAT_g g),
     MQTT_KEEPALIVE_g := int_setting cfg ''MQTT_KEEPALIVE'' (MQTT_KEEPALIVE_g g),
     DB_SCAN_ENABLE_g := int_setting cfg ''DB_SCAN_ENABLE'' (DB_SCAN_ENABLE_g g),
     TIME_SYNC_INTERVAL_g := int_setting cfg ''TIME_SYNC_INTERVAL'' (TIME_SYNC_INTERVAL_g g),
     MQTT_SVR_IP_g := str_setting cfg ''MQTT'' ''MQTT_SVR_IP'' (MQTT_SVR_IP_g g),
     MQTT_CLIENTID_g := str_setting cfg ''MQTT'' ''MQTT_CLIENTID'' (MQTT_CLIENTID_g g),
     MQTT_USERNAME_g := str_setting cfg ''MQTT'' ''MQTT_USERNAME'' (MQTT_USERNAME_g g),
     MQTT_PWD_g := str_setting cfg ''MQTT'' ''MQTT_PWD'' (MQTT_PWD_g g),
     MYSQL_SERVERIP := str_setting cfg ''MYSQL'' ''SERVERIP'' (MYSQL_SERVERIP g),
     MYSQL_USERID := str_setting cfg ''MYSQL'' ''USERID'' (MYSQL_USERID g),
     MYSQL_PASSWD := str_setting cfg ''MYSQL'' ''PASSWD'' (MYSQL_PASSWD g),
     MYSQL_DATABASE := str_setting cfg ''MYSQL'' ''DATABASE'' (MYSQL_DATABASE g)\<rparr>"

lemma main_settings_eq:
  assumes "wf_config cfg" and "fs fname = Some (print_config cfg)" and "ints_ok cfg"
  shows "main_settings fs fname g =
    (if strings_present cfg then Inr (configured cfg g) else Inl OverRead)"
proof -
  note str = load_str_config [where fs = fs and fname = fname, OF assms(1,2)]
    and ints = load_int_config [where fs = fs and fname = fname, OF assms]
  show ?thesis
    by (simp add: main_settings_def initMysqlAccount_def str ints int_keys_def
        strings_present_def string_keys_def configured_def)
qed

definition full_config :: config where
  "full_config =
     [(''MQTT'', [(''MQTT_KEEPALIVE'', ''60''), (''MQTT_SVR_IP'', ''tcp://a:1''), (''MQTT_CLIENTID'', ''id''),
                  (''MQTT_USERNAME'', ''u''), (''MQTT_PWD'', ''p'')]),
      (''MYSQL'', [(''SERVERIP'', ''db''), (''USERID'', ''''), (''PASSWD'', ''x''), (''DATABASE'', ''jj'')])]"

lemma full_config_facts:
  "wf_config full_config" "ints_ok full_config" "strings_present full_config"
proof -
  show "wf_config full_config"
    by (simp add: full_config_def wf_config_def wf_header_def wf_entry_def header_line_def
        entry_line_def is_blank_def NL_def NUL_def SP_def TAB_def LINE_MAX_def)
  have "atoi ''60'' = Inr 60"
    by (simp add: atoi_def is_space_def is_digit_def int_range_defs SP_def TAB_def NL_def)
  then show "ints_ok full_config"
    by (simp add: ints_ok_def int_keys_def full_config_def lookup_config_def)
  show "strings_present full_config"
    by (simp add: strings_present_def string_keys_def full_config_def lookup_config_def)
qed

lemma full_config_settings:
  "main_settings [''main.config'' \<mapsto> print_config full_config] ''main.config'' g = Inr (configured full_config g)"
  using main_settings_eq [where fs = "[''main.config'' \<mapsto> print_config full_config]"
      and fname = "''main.config''", OF full_config_facts(1) _ full_config_facts(2)] full_config_facts(3)
  by simp

section \<open>Properties\<close>

text \<open>
  the settings \<open>main\<close> reads. On a well-formed file whose numeric settings are numbers, the
  settings are read exactly when all eight string keys are present, and are then the configured
  values: a non-zero number or a non-empty string (cut to 256 characters) replaces the default,
  and nothing else does. If a string key is missing, \<^verbatim>\<open>memcpy\<close> reads 256 bytes from the one byte
  literal that \<open>GetInitKey\<close> returned.
\<close>
theorem main_settings_config:
  assumes "wf_config cfg" and "fs fname = Some (print_config cfg)" and "ints_ok cfg"
  shows "main_settings fs fname g =
    (if strings_present cfg then Inr (configured cfg g) else Inl OverRead)"
  using main_settings_eq [where fs = fs and fname = fname, OF assms] .

text \<open>
  without a configuration file the server cannot start cleanly. If the file cannot be opened,
  \<open>GetInitKey\<close> returns the literal \<^verbatim>\<open>have no such file\<close> for every key, the numbers keep their
  defaults, and the first string setting is read past the end of that literal.
\<close>
theorem main_settings_no_file:
  assumes "fs fname = None"
  shows "main_settings fs fname g = Inl OverRead \<and> load_int fs fname t k old = Inr old"
proof -
  have "atoi ''have no such file'' = Inr 0"
    by (simp add: atoi_def is_space_def is_digit_def int_range_defs SP_def TAB_def NL_def)
  then have "load_int fs fname t k old = Inr old" for t k old
    using assms by (simp add: load_int_def GetInitKey_def)
  then show ?thesis
    using assms by (simp add: main_settings_def load_str_def GetInitKey_def)
qed

end
