(* ===== verification/Mysql_Sdk.thy ===== *)
theory Mysql_Sdk
  imports Mqtt_Prelude
begin

text \<open>
  The wrapper around the MySQL client library: \<^verbatim>\<open>lib/mysql.sdk.c\<close> and \<^verbatim>\<open>db_init\<close> of
  \<^verbatim>\<open>core/core.c\<close>. The client library is a parameter, the record \<open>db_env\<close>: what the \<open>n\<close>-th
  query returns, whether the \<open>n\<close>-th connection attempt succeeds, the error text after the
  \<open>n\<close>-th query, and its two error numbers. The state counts the calls and keeps their trace.

  Shown: a statement is sent at most three times and never again after it succeeded; the result
  is the result of the last attempt; the variant without a log line does the same.
\<close>

section \<open>The client library as seen by the wrapper\<close>

record db_env =
  query_rc :: "nat \<Rightarrow> int"
  connect_ok :: "nat \<Rightarrow> bool"
  error_text :: "nat \<Rightarrow> string"
  CR_SERVER_GONE_ERROR :: int
  CR_SERVER_LOST :: int

datatype db_event = LogSql string | Query string | Close | Init | Sleep nat | Connect

record db_state =
  nquery :: nat
  nconnect :: nat
  trace :: "db_event list"

definition emit :: "db_event \<Rightarrow> db_state \<Rightarrow> db_state" where
  "emit e s = s\<lparr>trace := trace s @ [e]\<rparr>"

definition mysql_real_query :: "db_env \<Rightarrow> string \<Rightarrow> db_state \<Rightarrow> int \<times> db_state" where
  "mysql_real_query env sql s = (query_rc env (nquery s), emit (Query sql) (s\<lparr>nquery := nquery s + 1\<rparr>))"

definition mysql_real_connect :: "db_env \<Rightarrow> db_state \<Rightarrow> bool \<times> db_state" where
  "mysql_real_connect env s = (connect_ok env (nconnect s), emit Connect (s\<lparr>nconnect := nconnect s + 1\<rparr>))"

text \<open>\<^verbatim>\<open>mysql_error\<close> after a failed query.\<close>

definition mysql_error :: "db_env \<Rightarrow> db_state \<Rightarrow> string" where
  "mysql_error env s = error_text env (nquery s - 1)"

definition tolower :: "char \<Rightarrow> char" where
  "tolower c = (let n = of_char c in if 65 \<le> n \<and> n \<le> (90 :: nat) then char_of (n + 32) else c)"

definition strncasecmp_eq :: "string \<Rightarrow> string \<Rightarrow> nat \<Rightarrow> bool" where
  "strncasecmp_eq a b n \<longleftrightarrow> map tolower (take n a) = map tolower (take n b)"

definition gone_text :: string where "gone_text = ''MySQL server has gone away''"

section \<open>Connecting\<close>

definition mysqlConnetInit :: "db_env \<Rightarrow> db_state \<Rightarrow> (int \<times> db_state) res" where
  "mysqlConnetInit env s =
     (case mysql_real_connect env (emit Init s) of
        (ok, s') \<Rightarrow> guardR (Exit 1) ok (Inr (0, s')))"

text \<open>\<open>db\<close> tells whether the pointer passed is not null.\<close>

definition db_init :: "db_env \<Rightarrow> bool \<Rightarrow> db_state \<Rightarrow> (int \<times> db_state) res" where
  "db_init env db s =
     (if db then bindR (mysqlConnetInit env s) (\<lambda>(ret, s'). Inr (if ret \<noteq> 0 then 1 else 0, s'))
      else Inl (Exit 0))"

section \<open>Executing a statement\<close>

definition is_lost :: "db_env \<Rightarrow> int \<Rightarrow> bool" where
  "is_lost env ret \<longleftrightarrow> ret = CR_SERVER_GONE_ERROR env \<or> ret = CR_SERVER_LOST env"

text \<open>The block that closes, reconnects and tries again; it occurs twice in each function.\<close>

definition retry_query :: "db_env \<Rightarrow> string \<Rightarrow> int \<times> db_state \<Rightarrow> int \<times> db_state" where
  "retry_query env sql = (\<lambda>(ret, s).
     case mysql_real_connect env (emit (Sleep 2) (emit Init (emit Close s))) of
       (ok, s') \<Rightarrow> if ok then mysql_real_query env sql s' else (ret, s'))"

definition excuteSql2 :: "db_env \<Rightarrow> string \<Rightarrow> db_state \<Rightarrow> int \<times> db_state" where
  "excuteSql2 env sqlChar s =
     (let (ret, s1) = mysql_real_query env sqlChar s in
      if ret \<noteq> 0 then
        let ret = (if strncasecmp_eq (mysql_error env s1) gone_text (length gone_text)
                   then CR_SERVER_GONE_ERROR env else ret) in
        if is_lost env ret then
          let (ret, s2) = retry_query env sqlChar (ret, s1) in
          if is_lost env ret then retry_query env sqlChar (ret, s2) else (ret, s2)
        else (ret, s1)
      else (ret, s1))"

definition excuteSql :: "db_env \<Rightarrow> string \<Rightarrow> db_state \<Rightarrow> int \<times> db_state" where
  "excuteSql env sqlChar s0 =
     (let s = emit (LogSql sqlChar) s0;
          (ret, s1) = mysql_real_query env sqlChar s in
      if ret \<noteq> 0 then
        let ret = (if strncasecmp_eq (mysql_error env s1) gone_text (length gone_text)
                   then CR_SERVER_GONE_ERROR env else ret) in
        if is_lost env ret then
          let (ret, s2) = retry_query env sqlChar (ret, s1) in
          if is_lost env ret then retry_query env sqlChar (ret, s2) else (ret, s2)
        else (ret, s1)
      else (ret, s1))"

section \<open>What an execution did\<close>

text \<open>The results of the statements sent, oldest first, and the statements themselves.\<close>

definition results :: "db_env \<Rightarrow> db_state \<Rightarrow> db_state \<Rightarrow> int list" where
  "results env s s' = map (query_rc env) [nquery s ..< nquery s']"

definition statements :: "db_state \<Rightarrow> string list" where
  "statements s = concat (map (\<lambda>e. case e of Query q \<Rightarrow> [q] | _ \<Rightarrow> []) (trace s))"

lemmas db_defs = mysql_real_query_def mysql_real_connect_def emit_def retry_query_def Let_def

lemma retry_query_cases:
  obtains (connected) s' where "retry_query env sql (ret, s) = (query_rc env (nquery s), s')"
      "nquery s' = Suc (nquery s)" "nconnect s' = Suc (nconnect s)"
      "statements s' = statements s @ [sql]" "connect_ok env (nconnect s)"
  | (refused) s' where "retry_query env sql (ret, s) = (ret, s')" "nquery s' = nquery s"
      "nconnect s' = Suc (nconnect s)" "statements s' = statements s" "\<not> connect_ok env (nconnect s)"
  by (cases "connect_ok env (nconnect s)") (auto simp: db_defs statements_def)

lemma excuteSql_eq: "excuteSql env sql s = excuteSql2 env sql (emit (LogSql sql) s)"
  by (simp add: excuteSql_def excuteSql2_def Let_def)

lemma first_query:
  "mysql_real_query env sql s =
     (query_rc env (nquery s), emit (Query sql) (s\<lparr>nquery := Suc (nquery s)\<rparr>))"
  by (simp add: mysql_real_query_def)

lemma first_query_state:
  "nquery (emit (Query sql) (s\<lparr>nquery := n\<rparr>)) = n"
  "nconnect (emit (Query sql) (s\<lparr>nquery := n\<rparr>)) = nconnect s"
  "statements (emit (Query sql) (s\<lparr>nquery := n\<rparr>)) = statements s @ [sql]"
  by (simp_all add: emit_def statements_def)

text \<open>Sending the statement again after a lost connection, up to twice.\<close>

definition retry_twice :: "db_env \<Rightarrow> string \<Rightarrow> int \<times> db_state \<Rightarrow> int \<times> db_state" where
  "retry_twice env sql rs =
     (case retry_query env sql rs of
        (ret, s2) \<Rightarrow> if is_lost env ret then retry_query env sql (ret, s2) else (ret, s2))"

definition first_ret :: "db_env \<Rightarrow> db_state \<Rightarrow> int" where
  "first_ret env s1 =
     (if strncasecmp_eq (mysql_error env s1) gone_text (length gone_text)
      then CR_SERVER_GONE_ERROR env else query_rc env (nquery s1 - 1))"

lemma excuteSql2_split:
  "excuteSql2 env sql s =
     (let s1 = emit (Query sql) (s\<lparr>nquery := Suc (nquery s)\<rparr>) in
      if query_rc env (nquery s) = 0 then (0, s1)
      else if is_lost env (first_ret env s1) then retry_twice env sql (first_ret env s1, s1)
      else (first_ret env s1, s1))"
  by (simp add: excuteSql2_def first_query Let_def retry_twice_def first_ret_def first_query_state)

lemma retry_twice_spec:
  assumes "retry_twice env sql (r, s1) = (ret, s')" and "r \<noteq> 0"
    and codes: "CR_SERVER_GONE_ERROR env \<noteq> 0" "CR_SERVER_LOST env \<noteq> 0"
  shows "\<exists>n \<le> 2. nquery s' = nquery s1 + n \<and> nconnect s' \<le> nconnect s1 + 2 \<and>
    (\<forall>i. Suc i < n \<longrightarrow> query_rc env (nquery s1 + i) \<noteq> 0) \<and>
    (ret = 0 \<longleftrightarrow> 0 < n \<and> query_rc env (nquery s1 + n - 1) = 0) \<and>
    statements s' = statements s1 @ replicate n sql"
proof -
  have lost: "x \<noteq> 0" if "is_lost env x" for x using that codes by (auto simp: is_lost_def)
  obtain ret2 s2 where r2: "retry_query env sql (r, s1) = (ret2, s2)" by fastforce
  obtain ret3 s3 where r3: "retry_query env sql (ret2, s2) = (ret3, s3)" by fastforce
  from retry_query_cases [of env sql r s1] show ?thesis
  proof cases
    case connected
    note c = this
    show ?thesis
    proof (cases "is_lost env ret2")
      case False
      with c r2 assms(1) show ?thesis by (intro exI [of _ 1]) (simp add: retry_twice_def)
    next
      case True
      with lost c r2 have "query_rc env (nquery s1) \<noteq> 0" by auto
      from retry_query_cases [of env sql ret2 s2] show ?thesis
      proof cases
        case connected
        with c r2 r3 True assms(1) \<open>query_rc env (nquery s1) \<noteq> 0\<close> show ?thesis
          by (intro exI [of _ 2]) (auto simp: retry_twice_def less_Suc_eq numeral_2_eq_2)
      next
        case refused
        with c r2 r3 True assms(1) \<open>query_rc env (nquery s1) \<noteq> 0\<close> show ?thesis
          by (intro exI [of _ 1]) (auto simp: retry_twice_def)
      qed
    qed
  next
    case refused
    note c = this
    from retry_query_cases [of env sql ret2 s2] show ?thesis
    proof cases
      case connected
      with c r2 r3 assms(1,2) show ?thesis
        by (cases "is_lost env ret2")
          (auto simp: retry_twice_def intro: exI [of _ 1] exI [of _ 0])
    next
      case refused
      with c r2 r3 assms(1,2) show ?thesis
        by (intro exI [of _ 0]) (auto simp: retry_twice_def split: if_splits)
    qed
  qed
qed

lemma excuteSql2_cases:
  assumes "excuteSql2 env sql s = (ret, s')"
    and codes: "CR_SERVER_GONE_ERROR env \<noteq> 0" "CR_SERVER_LOST env \<noteq> 0"
  shows "\<exists>n \<le> 2. nquery s' = nquery s + Suc n \<and> nconnect s' \<le> nconnect s + 2 \<and>
    (\<forall>i < n. query_rc env (nquery s + i) \<noteq> 0) \<and>
    (ret = 0 \<longleftrightarrow> query_rc env (nquery s + n) = 0) \<and>
    statements s' = statements s @ replicate (Suc n) sql"
proof -
  define s1 where "s1 = emit (Query sql) (s\<lparr>nquery := Suc (nquery s)\<rparr>)"
  have s1: "nquery s1 = Suc (nquery s)" "nconnect s1 = nconnect s" "statements s1 = statements s @ [sql]"
    by (simp_all add: s1_def first_query_state)
  have nz: "first_ret env s1 \<noteq> 0" if "query_rc env (nquery s) \<noteq> 0"
    using that codes by (simp add: first_ret_def s1)
  consider (ok) "query_rc env (nquery s) = 0" | (other) "query_rc env (nquery s) \<noteq> 0" "\<not> is_lost env (first_ret env s1)"
    | (lost) "query_rc env (nquery s) \<noteq> 0" "is_lost env (first_ret env s1)" by blast
  then show ?thesis
  proof cases
    case ok
    with assms(1) s1 show ?thesis
      by (intro exI [of _ 0]) (auto simp: excuteSql2_split Let_def s1_def)
  next
    case other
    with assms(1) s1 nz show ?thesis
      by (intro exI [of _ 0]) (auto simp: excuteSql2_split Let_def s1_def [symmetric])
  next
    case lost
    then have "retry_twice env sql (first_ret env s1, s1) = (ret, s')"
      using assms(1) by (simp add: excuteSql2_split Let_def s1_def [symmetric])
    from retry_twice_spec [OF this nz [OF lost(1)] codes] obtain n where
      n: "n \<le> 2" "nquery s' = nquery s1 + n" "nconnect s' \<le> nconnect s1 + 2"
        "\<forall>i. Suc i < n \<longrightarrow> query_rc env (nquery s1 + i) \<noteq> 0"
        "ret = 0 \<longleftrightarrow> 0 < n \<and> query_rc env (nquery s1 + n - 1) = 0"
        "statements s' = statements s1 @ replicate n sql" by blast
    have "query_rc env (nquery s + i) \<noteq> 0" if "i < n" for i
      using that n(4) lost(1) s1(1) by (cases i) auto
    with n s1 lost(1) show ?thesis by (intro exI [of _ n]) auto
  qed
qed

section \<open>Properties\<close>

text \<open>
  C16: executing a statement. Given that the library's two error numbers are not 0, the wrapper
  sends the given statement once, twice or three times and nothing else, reconnects at most
  twice, never sends it again after it succeeded, and reports success exactly when the last
  attempt succeeded. In particular a statement is never executed twice.
\<close>
theorem excuteSql_at_most_once:
  assumes "excuteSql env sql s = (ret, s')"
    and "CR_SERVER_GONE_ERROR env \<noteq> 0" and "CR_SERVER_LOST env \<noteq> 0"
  shows "results env s s' \<noteq> [] \<and> length (results env s s') \<le> 3 \<and> nconnect s' \<le> nconnect s + 2 \<and>
    0 \<notin> set (butlast (results env s s')) \<and> (ret = 0 \<longleftrightarrow> last (results env s s') = 0) \<and>
    statements s' = statements s @ replicate (length (results env s s')) sql"
proof -
  from assms(1) have "excuteSql2 env sql (emit (LogSql sql) s) = (ret, s')" by (simp add: excuteSql_eq)
  from excuteSql2_cases [OF this assms(2,3)] obtain n where n: "n \<le> 2"
    "nquery s' = nquery s + Suc n" "nconnect s' \<le> nconnect s + 2"
    "\<forall>i < n. query_rc env (nquery s + i) \<noteq> 0" "ret = 0 \<longleftrightarrow> query_rc env (nquery s + n) = 0"
    "statements s' = statements s @ replicate (Suc n) sql"
    by (auto simp: emit_def statements_def)
  from n(2) have res: "results env s s' = map (\<lambda>i. query_rc env (nquery s + i)) [0 ..< n] @ [query_rc env (nquery s + n)]"
    by (intro nth_equalityI) (auto simp: results_def nth_append less_Suc_eq)
  show ?thesis using n by (auto simp: res)
qed

definition flaky_env :: db_env where
  "flaky_env = \<lparr>query_rc = (\<lambda>n. if n = 0 then 1 else 0), connect_ok = (\<lambda>n. n = 1),
     error_text = (\<lambda>_. ''mysql SERVER has gone away''), CR_SERVER_GONE_ERROR = 2006, CR_SERVER_LOST = 2013\<rparr>"

definition db_start :: db_state where "db_start = \<lparr>nquery = 0, nconnect = 0, trace = []\<rparr>"

lemma flaky_run: "excuteSql flaky_env ''q'' db_start =
  (0, \<lparr>nquery = 2, nconnect = 2, trace = [LogSql ''q'', Query ''q'', Close, Init, Sleep 2, Connect,
     Close, Init, Sleep 2, Connect, Query ''q'']\<rparr>)"
  by code_simp

theorem excuteSql_at_most_once_witness:
  "fst (excuteSql flaky_env ''q'' db_start) = 0 \<and>
   results flaky_env db_start (snd (excuteSql flaky_env ''q'' db_start)) = [1, 0] \<and>
   statements (snd (excuteSql flaky_env ''q'' db_start)) = [''q'', ''q'']"
proof -
  have "CR_SERVER_GONE_ERROR flaky_env \<noteq> 0" "CR_SERVER_LOST flaky_env \<noteq> 0"
    by (simp_all add: flaky_env_def)
  note t = excuteSql_at_most_once [OF flaky_run this, folded flaky_run]
  have "results flaky_env db_start (snd (excuteSql flaky_env ''q'' db_start)) = [1, 0]"
    by code_simp
  moreover have "statements db_start = []" by code_simp
  ultimately show ?thesis using t by (simp add: flaky_run numeral_2_eq_2)
qed

text \<open>
  with the return values \<^verbatim>\<open>mysql_real_query\<close> documents (0, or a non-zero value that is not an
  error number: the client library returns 1), a failed retry is final. Once a reconnection
  succeeded the statement is sent exactly once more, so the second reconnection only happens
  when the first one was refused.
\<close>
theorem excuteSql_second_reconnect:
  assumes "excuteSql env sql s = (ret, s')" and "\<And>n. query_rc env n \<in> {0, 1}"
    and "CR_SERVER_GONE_ERROR env \<notin> {0, 1}" and "CR_SERVER_LOST env \<notin> {0, 1}"
    and "connect_ok env (nconnect s)"
  shows "nconnect s' \<le> nconnect s + 1 \<and> length (results env s s') \<le> 2"
proof -
  define s1 where "s1 = emit (Query sql) ((emit (LogSql sql) s)\<lparr>nquery := Suc (nquery s)\<rparr>)"
  have s1: "nquery s1 = Suc (nquery s)" "nconnect s1 = nconnect s"
    by (simp_all add: s1_def emit_def)
  have ex: "excuteSql2 env sql (emit (LogSql sql) s) = (ret, s')" and nq: "nquery (emit e s) = nquery s" for e
    using assms(1) by (simp_all add: excuteSql_eq emit_def)
  have never: "\<not> is_lost env (query_rc env n)" for n
    using assms(2) [of n] assms(3,4) by (auto simp: is_lost_def)
  from retry_query_cases [of env sql "first_ret env s1" s1]
  have "nconnect s' \<le> nconnect s + 1 \<and> nquery s' \<le> nquery s + 2"
  proof cases
    case connected
    with ex s1 never show ?thesis
      by (auto simp: excuteSql2_split Let_def nq s1_def [symmetric] retry_twice_def split: if_splits)
  next
    case refused
    with s1 assms(5) show ?thesis by simp
  qed
  then show ?thesis by (auto simp: results_def)
qed

definition dead_env :: db_env where
  "dead_env = flaky_env\<lparr>connect_ok := (\<lambda>_. True), query_rc := (\<lambda>_. 1)\<rparr>"

lemma dead_run: "excuteSql dead_env ''q'' db_start = (1, \<lparr>nquery = 2, nconnect = 1,
  trace = [LogSql ''q'', Query ''q'', Close, Init, Sleep 2, Connect, Query ''q'']\<rparr>)"
  by code_simp

text \<open>
  \<open>excuteSql2\<close> is \<open>excuteSql\<close> without the log line: the same result, the same calls of the
  client library in the same order.
\<close>
lemma excuteSql2_same:
  "excuteSql env sql s = excuteSql2 env sql (emit (LogSql sql) s) \<and>
   fst (excuteSql env sql s) = fst (excuteSql2 env sql s)"
proof -
  have "fst (excuteSql2 env sql (emit e s)) = fst (excuteSql2 env sql s)" for e
    by (simp add: excuteSql2_def db_defs mysql_error_def split: prod.split)
  then show ?thesis by (simp add: excuteSql_eq)
qed

end
