(* ===== verification/Server.thy ===== *)
theory Server
  imports Topic_Dispatch Settings Mysql_Sdk
begin

text \<open>
  The server around the topic table: \<^verbatim>\<open>core/mqtta.c\<close> (the MQTT session), \<^verbatim>\<open>core/core.c\<close> (start-up),
  \<^verbatim>\<open>lib/decode.c\<close> (the threads) and the start of \<^verbatim>\<open>main\<close> in \<^verbatim>\<open>src/main.c\<close>. The results of the
  operating system and of the asynchronous MQTT client are inputs of the model.

  Shown: reconnection stops at the first success and after at most 100 attempts; after a
  successful start every subscribed topic has a handler that is called for it; the one-second
  heart beat runs once per change of the clock; only one instance gets past the lock file.
\<close>

section \<open>The MQTT session (core/mqtta.c)\<close>

definition MQTTASYNC_SUCCESS :: int where "MQTTASYNC_SUCCESS = 0"
definition EXIT_FAILURE :: int where "EXIT_FAILURE = 1"

record connect_options =
  keepAliveInterval :: int
  cleansession :: int
  onFailure :: bool
  username :: string
  password :: string

record mqtt_env =
  create_rc :: int
  setCallbacks_rc :: int
  connect_rc :: "nat \<Rightarrow> int"
  isConnected :: bool
  sendMessage_rc :: "nat \<Rightarrow> int"
  subscribe_rc :: "string \<Rightarrow> int \<Rightarrow> int"
  unsubscribe_rc :: "string \<Rightarrow> int"

datatype sub_request = Subscribe string int | Unsubscribe string

record session =
  client_conn_opts :: connect_options
  nconn :: nat
  nsend :: nat
  requests :: "sub_request list"

text \<open>
  The loop of \<^verbatim>\<open>myReconnctMQTT\<close>; \<open>left\<close> is \<^verbatim>\<open>count\<close> after the decrement, \<open>n\<close> the number of
  connection attempts so far.
\<close>

fun reconnect_loop :: "mqtt_env \<Rightarrow> nat \<Rightarrow> nat \<Rightarrow> int \<times> nat" where
  "reconnect_loop env 0 n = (connect_rc env n, Suc n)"
| "reconnect_loop env (Suc left) n =
     (if connect_rc env n \<noteq> MQTTASYNC_SUCCESS then reconnect_loop env left (Suc n)
      else (connect_rc env n, Suc n))"

definition myReconnctMQTT :: "mqtt_env \<Rightarrow> globals \<Rightarrow> session \<Rightarrow> session" where
  "myReconnctMQTT env g s =
     s\<lparr>client_conn_opts := (client_conn_opts s)\<lparr>keepAliveInterval := MQTT_KEEPALIVE_g g, cleansession := 1\<rparr>,
       nconn := snd (reconnect_loop env 99 (nconn s))\<rparr>"

definition connlost :: "mqtt_env \<Rightarrow> globals \<Rightarrow> session \<Rightarrow> session" where
  "connlost env g s = myReconnctMQTT env g s"

definition onConFailure :: "mqtt_env \<Rightarrow> globals \<Rightarrow> session \<Rightarrow> session" where
  "onConFailure env g s = myReconnctMQTT env g s"

definition my_mqqta_sendmsg :: "mqtt_env \<Rightarrow> session \<Rightarrow> int \<times> session" where
  "my_mqqta_sendmsg env s =
     (let rc = sendMessage_rc env (nsend s); s' = s\<lparr>nsend := Suc (nsend s)\<rparr> in
      if rc \<noteq> MQTTASYNC_SUCCESS then (EXIT_FAILURE, s') else (rc, s'))"

definition my_subsribe_topic :: "mqtt_env \<Rightarrow> string \<Rightarrow> int \<Rightarrow> session \<Rightarrow> int \<times> session" where
  "my_subsribe_topic env topic qos s =
     (subscribe_rc env topic qos, s\<lparr>requests := requests s @ [Subscribe topic qos]\<rparr>)"

definition my_unsubsribe_topic :: "mqtt_env \<Rightarrow> string \<Rightarrow> session \<Rightarrow> int \<times> session" where
  "my_unsubsribe_topic env topic s =
     (unsubscribe_rc env topic, s\<lparr>requests := requests s @ [Unsubscribe topic]\<rparr>)"

definition init_mqtt_client :: "mqtt_env \<Rightarrow> globals \<Rightarrow> session \<Rightarrow> (int \<times> session) res" where
  "init_mqtt_client env g s =
     guardR (Exit EXIT_FAILURE) (create_rc env = MQTTASYNC_SUCCESS)
       (guardR (Exit EXIT_FAILURE) (setCallbacks_rc env = MQTTASYNC_SUCCESS)
         (let s' = s\<lparr>client_conn_opts := (client_conn_opts s)
                       \<lparr>keepAliveInterval := MQTT_KEEPALIVE_g g, cleansession := 1, onFailure := True,
                        username := MQTT_USERNAME_g g, password := MQTT_PWD_g g\<rparr>\<rparr>;
              rc = connect_rc env (nconn s); s'' = s'\<lparr>nconn := Suc (nconn s)\<rparr> in
          guardR (Exit EXIT_FAILURE) (rc = MQTTASYNC_SUCCESS)
            (guardR AssertFail (isConnected env) (Inr (rc, s'')))))"

section \<open>The server state, a received message, start-up\<close>

record server =
  reg :: reg_state
  sess :: session
  db :: db_state
  freed :: "string list"

text \<open>
  \<^verbatim>\<open>my_mqqta_recvmsg\<close>: decode the message, free message and topic, return 1. On the first message
  \<^verbatim>\<open>decode_msg_handle\<close> allocates a connection and calls \<^verbatim>\<open>db_init\<close> on it; \<open>mysql_mem\<close> tells whether
  that allocation succeeds.
\<close>

definition first_db :: "db_env \<Rightarrow> bool \<Rightarrow> server \<Rightarrow> db_state res" where
  "first_db env mysql_mem s =
     (if mysqlcon (reg s) then Inr (db s)
      else bindR (db_init env mysql_mem (db s)) (\<lambda>(_, d). Inr d))"

definition my_mqqta_recvmsg :: "db_env \<Rightarrow> bool \<Rightarrow> string \<Rightarrow> server \<Rightarrow> (int \<times> server) res" where
  "my_mqqta_recvmsg env mysql_mem topicName s =
     bindR (first_db env mysql_mem s) (\<lambda>d.
     bindR (decode_msg_handle (Inr ()) topicName (reg s)) (\<lambda>r.
       Inr (1, s\<lparr>reg := r, db := d, freed := freed s @ [topicName]\<rparr>)))"

text \<open>\<^verbatim>\<open>regTopicFromTable\<close> requests one subscription after the other and ignores the results.\<close>

definition subscribe_all :: "mqtt_env \<Rightarrow> (string \<times> int) list \<Rightarrow> session \<Rightarrow> session" where
  "subscribe_all env ts s = fold (\<lambda>(t, q) s. snd (my_subsribe_topic env t q s)) ts s"

definition core_init :: "mqtt_env \<Rightarrow> globals \<Rightarrow> files \<Rightarrow> (int \<Rightarrow> bool) \<Rightarrow> server \<Rightarrow> (int \<times> server) res" where
  "core_init env g fs alloc s =
     bindR (init_mqtt_client env g (sess s)) (\<lambda>(_, se).
     bindR (initTopicConf fs alloc (reg s)) (\<lambda>(_, r).
     bindR (regTopicFromTable r) (\<lambda>ts.
       Inr (0, s\<lparr>sess := subscribe_all env ts se, reg := r\<rparr>))))"

definition core_heart :: "u32 \<Rightarrow> int" where
  "core_heart nowTime = sint nowTime"

definition core_heart_1s :: "u32 \<Rightarrow> int" where
  "core_heart_1s nowTime = sint nowTime"

definition core_do_test :: "u32 \<Rightarrow> u32 \<Rightarrow> server \<Rightarrow> int res" where
  "core_do_test timeGloble timeBegin s = bindR (print_stats timeGloble timeBegin (reg s)) (\<lambda>_. Inr 0)"

definition core_stats :: "u32 \<Rightarrow> u32 \<Rightarrow> server \<Rightarrow> int res" where
  "core_stats timeGloble timeBegin s = bindR (print_stats timeGloble timeBegin (reg s)) (\<lambda>_. Inr 0)"

section \<open>The threads (lib/decode.c)\<close>

text \<open>
  One round of the loop of \<^verbatim>\<open>Hall\<close>. The shared clock is read twice, at the start of a round
  (\<open>now\<close>) and at its end (\<open>later\<close>). The loop never ends; a finite run is a list of readings.
\<close>

datatype hall_event = Heart u32 | Heart1s u32 | TooSlow u32

definition hall_round :: "u32 \<Rightarrow> u32 \<times> u32 \<Rightarrow> hall_event list \<times> u32" where
  "hall_round lastHeartTime = (\<lambda>(now, later).
     ([Heart now] @ (if lastHeartTime \<noteq> now then [Heart1s now] else [])
        @ (if later - now > 1 then [TooSlow (later - now)] else []),
      if lastHeartTime \<noteq> now then now else lastHeartTime))"

fun hall_loop :: "u32 \<Rightarrow> (u32 \<times> u32) list \<Rightarrow> hall_event list" where
  "hall_loop lastHeartTime [] = []"
| "hall_loop lastHeartTime (r # rs) =
     (case hall_round lastHeartTime r of (es, last') \<Rightarrow> es @ hall_loop last' rs)"

text \<open>
  \<^verbatim>\<open>Hall\<close> up to a finite number of rounds: with \<^verbatim>\<open>DB_SCAN_ENABLE_g\<close> 0 it only sleeps.
\<close>

definition Hall :: "mqtt_env \<Rightarrow> globals \<Rightarrow> files \<Rightarrow> (int \<Rightarrow> bool) \<Rightarrow> u32 \<Rightarrow> u32 \<Rightarrow> (u32 \<times> u32) list
    \<Rightarrow> server \<Rightarrow> (hall_event list \<times> server) res" where
  "Hall env g fs alloc timeGloble timeBegin rounds s =
     bindR (core_init env g fs alloc s) (\<lambda>(rc, s').
     guardR AssertFail (rc = 0)
       (bindR (core_do_test timeGloble timeBegin s') (\<lambda>_.
          Inr (if DB_SCAN_ENABLE_g g = 0 then [] else hall_loop 0 rounds, s'))))"

text \<open>
  \<^verbatim>\<open>pthTime\<close>: the values stored into \<^verbatim>\<open>timeGloble_g\<close>, from the first \<^verbatim>\<open>time\<close> and the
  \<^verbatim>\<open>gettimeofday\<close> readings that follow; \<^verbatim>\<open>timeBegin_g\<close> is the first of them.
\<close>

definition pthTime :: "int \<Rightarrow> int list \<Rightarrow> u32 \<times> u32 list" where
  "pthTime t0 tvs = (word_of_int t0, word_of_int t0 # map word_of_int tvs)"

section \<open>The start of main (src/main.c)\<close>

text \<open>
  The state of the system that processes share: the open descriptors of each process, the record locks and
  the contents of files. The environment of a process says where its executable is, which files it can open
  and whether \<^verbatim>\<open>fcntl\<close> fails for reasons other than a lock of another process.
\<close>

datatype lock_type = F_RDLCK | F_WRLCK

record flock =
  l_type :: lock_type
  l_start :: nat
  l_len :: nat      \<comment> \<open>0: up to the end, however long the file becomes\<close>
  l_pid :: nat

record kernel =
  fds :: "((nat \<times> nat) \<times> string) list"   \<comment> \<open>process and descriptor, with the file\<close>
  locks :: "(string \<times> flock) list"
  disk :: "string \<rightharpoonup> string"

record os_env =
  exe_link :: "string option"      \<comment> \<open>target of \<^verbatim>\<open>/proc/self/exe\<close>\<close>
  open_ok :: "string \<Rightarrow> bool"
  lock_fault :: "string \<Rightarrow> int option"
  getpid :: nat

definition EACCES :: int where "EACCES = 13"
definition EAGAIN :: int where "EAGAIN = 11"
definition EBADF :: int where "EBADF = 9"

text \<open>
  The calls of the system, as POSIX has them. \<^verbatim>\<open>open\<close> with \<^verbatim>\<open>O_CREAT\<close> gives a descriptor that is not in use and
  keeps the contents of a file that exists. \<^verbatim>\<open>F_SETLK\<close> fails when a lock of another process overlaps and one of
  the two is a write lock; locks are owned by the process. \<^verbatim>\<open>close\<close> takes away all locks the process has on
  the file, and the end of a process all it has.
\<close>

definition new_fd :: "nat \<Rightarrow> kernel \<Rightarrow> nat" where
  "new_fd pid k = Suc (foldr max (map (snd \<circ> fst) (filter (\<lambda>x. fst (fst x) = pid) (fds k))) 2)"

definition open_file :: "nat \<Rightarrow> string \<Rightarrow> kernel \<Rightarrow> nat \<times> kernel" where
  "open_file pid filename k =
     (let fd = new_fd pid k in
      (fd, k\<lparr>fds := ((pid, fd), filename) # fds k,
             disk := (disk k)(filename \<mapsto> (case disk k filename of None \<Rightarrow> '''' | Some c \<Rightarrow> c))\<rparr>))"

definition close_file :: "nat \<Rightarrow> nat \<Rightarrow> kernel \<Rightarrow> kernel" where
  "close_file pid fd k =
     (case map_of (fds k) (pid, fd) of
        None \<Rightarrow> k
      | Some file \<Rightarrow> k\<lparr>fds := filter (\<lambda>x. fst x \<noteq> (pid, fd)) (fds k),
                       locks := filter (\<lambda>x. \<not> (fst x = file \<and> l_pid (snd x) = pid)) (locks k)\<rparr>)"

definition exit_process :: "nat \<Rightarrow> kernel \<Rightarrow> kernel" where
  "exit_process pid k = k\<lparr>fds := filter (\<lambda>x. fst (fst x) \<noteq> pid) (fds k), locks := filter (\<lambda>x. l_pid (snd x) \<noteq> pid) (locks k)\<rparr>"

definition ends_behind :: "flock \<Rightarrow> nat \<Rightarrow> bool" where
  "ends_behind l n \<longleftrightarrow> l_len l = 0 \<or> n < l_start l + l_len l"

definition conflicts :: "string \<Rightarrow> flock \<Rightarrow> string \<times> flock \<Rightarrow> bool" where
  "conflicts file fl x \<longleftrightarrow>
     fst x = file \<and> l_pid (snd x) \<noteq> l_pid fl \<and> (l_type fl = F_WRLCK \<or> l_type (snd x) = F_WRLCK) \<and>
     ends_behind fl (l_start (snd x)) \<and> ends_behind (snd x) (l_start fl)"

text \<open>The owner of the new lock is the caller, whatever \<^verbatim>\<open>l_pid\<close> says. The result is that of \<^verbatim>\<open>fcntl\<close> and \<^verbatim>\<open>errno\<close>.\<close>

definition fcntl_setlk :: "os_env \<Rightarrow> nat \<Rightarrow> flock \<Rightarrow> kernel \<Rightarrow> int \<times> int \<times> kernel" where
  "fcntl_setlk os fd fl k =
     (let mine = fl\<lparr>l_pid := getpid os\<rparr> in
      case map_of (fds k) (getpid os, fd) of
        None \<Rightarrow> (- 1, EBADF, k)
      | Some file \<Rightarrow>
          (case lock_fault os file of
             Some e \<Rightarrow> (- 1, e, k)
           | None \<Rightarrow>
               if list_ex (conflicts file mine) (locks k) then (- 1, EAGAIN, k)
               else (0, 0, k\<lparr>locks := (file, mine) # locks k\<rparr>)))"

definition tryLockPidFile :: "os_env \<Rightarrow> nat \<Rightarrow> kernel \<Rightarrow> int \<times> int \<times> kernel" where
  "tryLockPidFile os fd k =
     fcntl_setlk os fd \<lparr>l_type = F_WRLCK, l_start = 0, l_len = 0, l_pid = getpid os\<rparr> k"

text \<open>
  \<^verbatim>\<open>isInRunning\<close> returns 1 if another process holds the lock, 0 after writing the process id. The descriptor stays
  open, because closing it would give up the lock.
\<close>

definition isInRunning :: "os_env \<Rightarrow> string \<Rightarrow> kernel \<Rightarrow> int res \<times> kernel" where
  "isInRunning os filename k =
     (if \<not> open_ok os filename then (Inl (Exit 1), k)
      else
        let (fd, k1) = open_file (getpid os) filename k;
            (rc, errno, k2) = tryLockPidFile os fd k1 in
        if rc = - 1 then
          if errno = EACCES \<or> errno = EAGAIN then (Inr 1, close_file (getpid os) fd k2) else (Inl (Exit 1), k2)
        else
          let buf = dec_str (getpid os) in
          (guardR OverWrite (length buf < 16) (Inr 0), k2\<lparr>disk := (disk k2)(filename \<mapsto> buf @ [NUL])\<rparr>))"

text \<open>
  \<^verbatim>\<open>get_executable_path\<close>: \<^verbatim>\<open>readlink\<close> stores at most \<open>len\<close> bytes and no terminator; the buffer
  was zero before. The result is the length of the directory, the directory and the name.
\<close>

definition get_executable_path :: "os_env \<Rightarrow> nat \<Rightarrow> nat \<Rightarrow> (int \<times> string \<times> string) res" where
  "get_executable_path os len namelen =
     (case exe_link os of
        None \<Rightarrow> Inr (-1, '''', '''')
      | Some target \<Rightarrow>
          if target = [] then Inr (-1, '''', '''') else
          guardR OverRead (length target < len)
            (if CHR ''/'' \<notin> set target then Inr (-1, target, '''')
             else let name = rev (takeWhile (\<lambda>c. c \<noteq> CHR ''/'') (rev target));
                      dir = take (length target - length name) target in
                  guardR OverWrite (length name < namelen) (Inr (int (length dir), dir, name))))"

definition lock_file :: "string \<Rightarrow> string" where
  "lock_file processname = take 2046 (''/tmp/'' @ processname @ ''.SVR.pid'')"

text \<open>The path of the configuration file: one trailing slash of the argument is dropped.\<close>

definition config_path :: "string option \<Rightarrow> string res" where
  "config_path arg =
     (case arg of
        None \<Rightarrow> Inr CONFIG_FILE
      | Some a \<Rightarrow>
          guardR OverRead (a \<noteq> [])
            (let d = (if last a = CHR ''/'' then butlast a else a);
                 path = d @ ''/'' @ CONFIG_FILE in
             guardR OverWrite (length path < 1024) (Inr path)))"

definition rlimit_request :: "nat \<Rightarrow> nat" where
  "rlimit_request rlim_max = (if 1000 \<ge> rlim_max then 1000 else rlim_max)"

text \<open>
  \<^verbatim>\<open>main\<close> up to the creation of the threads; \<open>arg\<close> is the argument if there is exactly one.
  The result is the name of the lock file and the settings, with the state of the system.
\<close>

definition main_start ::
  "os_env \<Rightarrow> files \<Rightarrow> string option \<Rightarrow> globals \<Rightarrow> kernel \<Rightarrow> (string \<times> globals) res \<times> kernel" where
  "main_start os fs arg g k =
     (case get_executable_path os 2048 1024 of
        Inl f \<Rightarrow> (Inl f, k)
      | Inr (_, _, processname) \<Rightarrow>
          (case isInRunning os (lock_file processname) k of
             (Inl f, k1) \<Rightarrow> (Inl f, k1)
           | (Inr running, k1) \<Rightarrow>
               if running \<noteq> 0 then (Inl (Exit 1), k1)
               else (bindR (config_path arg) (\<lambda>path.
                     bindR (main_settings fs path g) (\<lambda>g'. Inr (lock_file processname, g'))), k1)))"

section \<open>Lemmas\<close>

lemma reconnect_loop_spec:
  "\<exists>k \<le> left. snd (reconnect_loop env left n) = n + Suc k \<and>
     (\<forall>i < k. connect_rc env (n + i) \<noteq> 0) \<and> (k < left \<longrightarrow> connect_rc env (n + k) = 0)"
proof (induction left arbitrary: n)
  case 0
  show ?case by simp
next
  case (Suc left)
  show ?case
  proof (cases "connect_rc env n = 0")
    case True
    then show ?thesis by (intro exI [of _ 0]) (simp add: MQTTASYNC_SUCCESS_def)
  next
    case False
    from Suc.IH [of "Suc n"] obtain k where k: "k \<le> left"
      "snd (reconnect_loop env left (Suc n)) = Suc n + Suc k"
      "\<forall>i < k. connect_rc env (Suc n + i) \<noteq> 0" "k < left \<longrightarrow> connect_rc env (Suc n + k) = 0" by blast
    have "connect_rc env (n + i) \<noteq> 0" if "i < Suc k" for i
      using that k(3) False by (cases i) auto
    with k False show ?thesis by (intro exI [of _ "Suc k"]) (auto simp: MQTTASYNC_SUCCESS_def)
  qed
qed

lemma subscribe_all_requests:
  "requests (subscribe_all env ts s) = requests s @ map (\<lambda>(t, q). Subscribe t q) ts"
  by (induction ts arbitrary: s) (auto simp: subscribe_all_def my_subsribe_topic_def)

lemma deliver_registered:
  assumes "reg_inv st" and "e \<in> set (active st)"
  shows "\<exists>st'. decode_msg_handle (Inr ()) (topic_name e) st = Inr st' \<and>
    calls st' = calls st @ [(the (bc e), topic_name e)]"
proof -
  from assms have ne: "topic_name e \<noteq> ''''" and d: "distinct (map topic_name (active st))"
    by (auto simp: reg_inv_def split: option.splits)
  from assms(2) obtain i where i: "i < length (active st)" "active st ! i = e"
    by (auto simp: in_set_conv_nth)
  have "first_index (\<lambda>x. topic_name x = topic_name e) (active st) = Some i"
    using i distinct_map_nth [OF d] by (intro first_index_unique) auto
  from map_if_first_index(2) [OF d this] i
  have "filter (\<lambda>x. topic_name x = topic_name e) (active st) = [e]" by simp
  with decode_refines [OF assms(1) ne] show ?thesis
    by (auto simp: abs_reg_def deliver_def filter_map o_def)
qed

lemma regTopicFromTable_active:
  assumes "reg_inv st"
  shows "regTopicFromTable st = Inr (map (\<lambda>e. (topic_name e, 0)) (active st))"
proof -
  from assms have "filter (\<lambda>e. bc e \<noteq> None) (active st) = active st"
    by (auto simp: reg_inv_def filter_id_conv split: option.splits)
  with assms show ?thesis
    by (auto simp: regTopicFromTable_def reg_inv_def active_def split: option.splits)
qed

lemma GetInitKey_same_file: "fs f = fs' f \<Longrightarrow> GetInitKey fs f t k = GetInitKey fs' f t k"
  by (simp add: GetInitKey_def)

lemma topic_loop_same_file:
  "fs CONFIG_FILE = fs' CONFIG_FILE \<Longrightarrow> topic_loop fs d i k tab es = topic_loop fs' d i k tab es"
  by (induction es arbitrary: i k tab) (simp_all add: GetInitKey_same_file [of fs _ fs'] Let_def cong: if_cong)

section \<open>Several processes\<close>

text \<open>
  Processes that start the server and processes that end, in any order. A process whose start fails ends, too.
  \<open>servers\<close> are the processes that got past the start, with their lock file.
\<close>

datatype server_event = Start os_env files "string option" globals | End nat

record system =
  kern :: kernel
  servers :: "(nat \<times> string) list"

fun server_step :: "server_event \<Rightarrow> system \<Rightarrow> system" where
  "server_step (Start os fs arg g) s =
     (if getpid os \<in> fst ` set (servers s) then s
      else
        (case main_start os fs arg g (kern s) of
           (Inl f, k) \<Rightarrow> s\<lparr>kern := exit_process (getpid os) k\<rparr>
         | (Inr (f, g'), k) \<Rightarrow> s\<lparr>kern := k, servers := (getpid os, f) # servers s\<rparr>))"
| "server_step (End pid) s =
     s\<lparr>kern := exit_process pid (kern s), servers := filter (\<lambda>x. fst x \<noteq> pid) (servers s)\<rparr>"

definition system_init :: system where
  "system_init = \<lparr>kern = \<lparr>fds = [], locks = [], disk = Map.empty\<rparr>, servers = []\<rparr>"

text \<open>A process holds the lock on the whole file and its number is in the file.\<close>

definition whole_lock :: "nat \<Rightarrow> flock" where
  "whole_lock pid = \<lparr>l_type = F_WRLCK, l_start = 0, l_len = 0, l_pid = pid\<rparr>"

definition owns :: "kernel \<Rightarrow> nat \<Rightarrow> string \<Rightarrow> bool" where
  "owns k pid f \<longleftrightarrow> (f, whole_lock pid) \<in> set (locks k) \<and> disk k f = Some (dec_str pid @ [NUL])"

definition system_inv :: "system \<Rightarrow> bool" where
  "system_inv s \<longleftrightarrow> distinct (map fst (servers s)) \<and> distinct (map snd (servers s)) \<and>
     (\<forall>(pid, f) \<in> set (servers s). owns (kern s) pid f)"

lemma exit_keeps: "owns k p f \<Longrightarrow> p \<noteq> pid \<Longrightarrow> owns (exit_process pid k) p f"
  by (simp add: owns_def exit_process_def whole_lock_def)

lemma whole_lock_conflicts: "p \<noteq> pid \<Longrightarrow> conflicts f (whole_lock pid) (f, whole_lock p)"
  by (simp add: conflicts_def whole_lock_def ends_behind_def)

lemma isInRunning_cases:
  obtains (failed) c k' where "isInRunning os f k = (Inl c, k')" "c = Exit 1"
    "\<And>p f'. p \<noteq> getpid os \<Longrightarrow> owns k p f' \<Longrightarrow> owns k' p f'"
  | (busy) k' where "isInRunning os f k = (Inr 1, k')" "\<And>p f'. p \<noteq> getpid os \<Longrightarrow> owns k p f' \<Longrightarrow> owns k' p f'"
  | (mine) r k' where "isInRunning os f k = (r, k')" "r = Inr 0 \<or> r = Inl OverWrite" "owns k' (getpid os) f"
    "\<And>p. p \<noteq> getpid os \<Longrightarrow> \<not> owns k p f" "\<And>p f'. p \<noteq> getpid os \<Longrightarrow> owns k p f' \<Longrightarrow> owns k' p f'"
proof (cases "open_ok os f")
  case False
  with failed [of "Exit 1" k] show thesis by (simp add: isInRunning_def)
next
  case True
  let ?pid = "getpid os"
  obtain fd k1 where o: "open_file ?pid f k = (fd, k1)" by fastforce
  then have k1: "fds k1 = ((?pid, fd), f) # fds k" "locks k1 = locks k" "\<And>p f'. owns k p f' \<Longrightarrow> owns k1 p f'"
    by (auto simp: open_file_def Let_def owns_def)
  have found: "map_of (fds k1) (?pid, fd) = Some f" by (simp add: k1(1))
  have close: "owns (close_file ?pid fd k1) p f'" if "owns k p f'" "p \<noteq> ?pid" for p f'
    using k1(3) [OF that(1)] that(2) by (simp add: close_file_def found owns_def whole_lock_def)
  have w: "\<lparr>l_type = F_WRLCK, l_start = 0, l_len = 0, l_pid = ?pid\<rparr> = whole_lock ?pid" by (simp add: whole_lock_def)
  have wp: "(whole_lock ?pid)\<lparr>l_pid := ?pid\<rparr> = whole_lock ?pid" by (simp add: whole_lock_def)
  note run = isInRunning_def o tryLockPidFile_def fcntl_setlk_def found w wp
  show thesis
  proof (cases "lock_fault os f")
    case (Some e)
    then show thesis
      using failed [of "Exit 1" k1] busy [of "close_file ?pid fd k1"] k1(3) close True
      by (cases "e = EACCES \<or> e = EAGAIN") (auto simp: run)
  next
    case None
    show thesis
    proof (cases "list_ex (conflicts f (whole_lock ?pid)) (locks k)")
      case True
      with \<open>open_ok os f\<close> None busy [of "close_file ?pid fd k1"] close show thesis by (simp add: run k1(2))
    next
      case False
      let ?k = "k1\<lparr>locks := (f, whole_lock ?pid) # locks k1, disk := (disk k1)(f \<mapsto> dec_str ?pid @ [NUL])\<rparr>"
      have other: "\<not> owns k p f" if "p \<noteq> ?pid" for p
        using False whole_lock_conflicts [OF that, of f] by (auto simp: list_ex_iff owns_def)
      have "owns ?k p f'" if "p \<noteq> ?pid" "owns k p f'" for p f'
        using k1(3) [OF that(2)] other [OF that(1)] that by (cases "f' = f") (auto simp: owns_def)
      moreover have "owns ?k ?pid f" by (simp add: owns_def)
      moreover have "isInRunning os f k = (guardR OverWrite (length (dec_str ?pid) < 16) (Inr 0), ?k)"
        using \<open>open_ok os f\<close> None False by (simp add: run k1(2) Let_def)
      ultimately show thesis using mine other by (auto simp: guardR_def split: if_splits)
    qed
  qed
qed

lemma main_start_effect:
  assumes "main_start os fs arg g k = (r, k')"
  shows "\<forall>p f. p \<noteq> getpid os \<and> owns k p f \<longrightarrow> owns k' p f"
    and "r = Inr (f, g') \<Longrightarrow> owns k' (getpid os) f \<and> (\<forall>p. p \<noteq> getpid os \<longrightarrow> \<not> owns k p f)"
proof -
  have "(\<forall>p f. p \<noteq> getpid os \<and> owns k p f \<longrightarrow> owns k' p f) \<and>
      (r = Inr (f, g') \<longrightarrow> owns k' (getpid os) f \<and> (\<forall>p. p \<noteq> getpid os \<longrightarrow> \<not> owns k p f))"
  proof (cases "get_executable_path os 2048 1024")
    case (Inl e)
    with assms show ?thesis by (auto simp: main_start_def)
  next
    case (Inr x)
    obtain n dir name where x: "x = (n, dir, name)" by (cases x)
    show ?thesis
    proof (cases rule: isInRunning_cases [of os "lock_file name" k])
      case (failed c k1)
      with assms Inr x show ?thesis by (auto simp: main_start_def)
    next
      case (busy k1)
      with assms Inr x show ?thesis by (auto simp: main_start_def)
    next
      case (mine r1 k1)
      then have "k' = k1" "r = Inr (f, g') \<longrightarrow> f = lock_file name"
        using assms Inr x by (auto simp: main_start_def bindR_eq_Inr)
      with mine show ?thesis by blast
    qed
  qed
  then show "\<forall>p f. p \<noteq> getpid os \<and> owns k p f \<longrightarrow> owns k' p f"
    "r = Inr (f, g') \<Longrightarrow> owns k' (getpid os) f \<and> (\<forall>p. p \<noteq> getpid os \<longrightarrow> \<not> owns k p f)" by auto
qed

lemma server_step_inv: "system_inv s \<Longrightarrow> system_inv (server_step e s)"
proof (cases e)
  case (End pid)
  assume s: "system_inv s"
  have "distinct (map h (filter P xs))" if "distinct (map h xs)" for h :: "nat \<times> string \<Rightarrow> 'a" and P xs
    using that by (induction xs) auto
  with s End exit_keeps show ?thesis by (fastforce simp: system_inv_def distinct_map_filter)
next
  case (Start os fs arg g)
  assume s: "system_inv s"
  show ?thesis
  proof (cases "getpid os \<in> fst ` set (servers s)")
    case True
    with s Start show ?thesis by simp
  next
    case new: False
    obtain r k where m: "main_start os fs arg g (kern s) = (r, k)" by fastforce
    have keep: "owns k p f" if "(p, f) \<in> set (servers s)" for p f
    proof -
      have "p \<noteq> getpid os" using new that by force
      moreover have "owns (kern s) p f" using s that by (auto simp: system_inv_def)
      ultimately show ?thesis using main_start_effect(1) [OF m] by blast
    qed
    show ?thesis
    proof (cases r)
      case (Inl c)
      have "owns (exit_process (getpid os) k) p f" if "(p, f) \<in> set (servers s)" for p f
        using exit_keeps [OF keep [OF that]] new that by force
      with s m new Inl Start show ?thesis by (auto simp: system_inv_def)
    next
      case (Inr x)
      obtain f g' where x: "x = (f, g')" by (cases x)
      have own: "owns k (getpid os) f" "\<And>p. p \<noteq> getpid os \<Longrightarrow> \<not> owns (kern s) p f"
        using main_start_effect(2) [OF m, of f g'] Inr x by auto
      have "f \<notin> snd ` set (servers s)"
      proof
        assume "f \<in> snd ` set (servers s)"
        then obtain p where "(p, f) \<in> set (servers s)" by force
        then show False using s own(2) [of p] new by (force simp: system_inv_def)
      qed
      with s m new Inr x own(1) keep Start show ?thesis by (auto simp: system_inv_def)
    qed
  qed
qed

lemma system_run_inv: "system_inv (fold server_step evs system_init)"
proof -
  have "system_inv s \<Longrightarrow> system_inv (fold server_step evs s)" for s
    by (induction evs arbitrary: s) (simp_all add: server_step_inv)
  then show ?thesis by (simp add: system_inv_def system_init_def)
qed

lemma start_while_owned:
  assumes "owns k p (lock_file name)" "p \<noteq> getpid os" "get_executable_path os 2048 1024 = Inr (n, dir, name)"
  shows "fst (main_start os fs arg g k) = Inl (Exit 1)"
proof (cases rule: isInRunning_cases [of os "lock_file name" k])
  case (mine r k1)
  with assms show ?thesis by blast
qed (use assms(3) in \<open>auto simp: main_start_def\<close>)

section \<open>Properties\<close>

text \<open>
  reconnecting. \<open>connlost\<close> tries to connect at least once and at most 100 times, goes on only
  while attempts fail, and gives up before the 100th attempt only because one succeeded.
\<close>
theorem connlost_attempts:
  "\<exists>k < 100. nconn (connlost env g s) = nconn s + Suc k \<and>
     (\<forall>i. i < k \<longrightarrow> connect_rc env (nconn s + i) \<noteq> MQTTASYNC_SUCCESS) \<and>
     (k < 99 \<longrightarrow> connect_rc env (nconn s + k) = MQTTASYNC_SUCCESS)"
proof -
  obtain k where "k \<le> 99" "snd (reconnect_loop env 99 (nconn s)) = nconn s + Suc k"
    "\<forall>i < k. connect_rc env (nconn s + i) \<noteq> 0" "k < 99 \<longrightarrow> connect_rc env (nconn s + k) = 0"
    using reconnect_loop_spec [of 99 env "nconn s"] by blast
  then show ?thesis
    by (intro exI [of _ k]) (simp add: connlost_def myReconnctMQTT_def MQTTASYNC_SUCCESS_def)
qed

definition env_ok :: mqtt_env where
  "env_ok = \<lparr>create_rc = 0, setCallbacks_rc = 0, connect_rc = (\<lambda>n. if n = 1 then -1 else 0),
     isConnected = True, sendMessage_rc = (\<lambda>_. 0), subscribe_rc = (\<lambda>_ _. 0), unsubscribe_rc = (\<lambda>_. 0)\<rparr>"

definition session_start :: session where
  "session_start = \<lparr>client_conn_opts = \<lparr>keepAliveInterval = 60, cleansession = 1, onFailure = False,
     username = '''', password = ''''\<rparr>, nconn = 0, nsend = 0, requests = []\<rparr>"

definition server_start :: server where
  "server_start = \<lparr>reg = reg_init, sess = session_start, db = db_start, freed = []\<rparr>"

text \<open>
  C15: nothing is subscribed in vain. After a successful start, the server has requested one
  subscription with quality of service 0 for each active entry of the topic table; a message on
  any of these topics calls the handler of its built-in entry, exactly once; and a message on
  any other topic calls none.
\<close>
theorem core_init_subscriptions_served:
  assumes "core_init env g fs alloc server_start = Inr (rc, s)"
  shows "rc = 0 \<and> requests (sess s) = map (\<lambda>e. Subscribe (topic_name e) 0) (active (reg s)) \<and>
    (\<forall>t q. Subscribe t q \<in> set (requests (sess s)) \<longrightarrow>
      (\<exists>e \<in> set ctr_handle_tab. \<exists>st'. topic_name e = t \<and>
        decode_msg_handle (Inr ()) t (reg s) = Inr st' \<and> calls st' = [(the (bc e), t)])) \<and>
    (\<forall>t. t \<noteq> '''' \<longrightarrow> Subscribe t 0 \<notin> set (requests (sess s)) \<longrightarrow>
      (\<exists>st'. decode_msg_handle (Inr ()) t (reg s) = Inr st' \<and> calls st' = []))"
proof -
  from assms obtain n se r k ts where se: "init_mqtt_client env g session_start = Inr (n, se)"
    and r: "initTopicConf fs alloc reg_init = Inr (k, r)"
    and ts: "regTopicFromTable r = Inr ts" and s: "rc = 0" "reg s = r" "sess s = subscribe_all env ts se"
    by (auto simp: core_init_def bindR_eq_Inr server_start_def)
  from initTopicConf_Inr [OF r] obtain m d where inv: "reg_inv r" and sel: "active r = selection fs d m"
    by blast
  have sub: "set (active r) \<subseteq> set ctr_handle_tab"
    by (simp add: sel selection_def set_nths_subset)
  have calls: "calls r = []"
    using r by (auto simp: initTopicConf_def load_table_def bindR_eq_Inr guardR_eq_Inr reg_init_def)
  have "requests se = []"
    using se by (auto simp: init_mqtt_client_def guardR_eq_Inr Let_def session_start_def)
  then have req: "requests (sess s) = map (\<lambda>e. Subscribe (topic_name e) 0) (active r)"
    using ts s regTopicFromTable_active [OF inv] by (auto simp: subscribe_all_requests)
  have reg: "\<exists>e \<in> set ctr_handle_tab. \<exists>st'. topic_name e = t \<and>
      decode_msg_handle (Inr ()) t r = Inr st' \<and> calls st' = [(the (bc e), t)]"
    if "Subscribe t q \<in> set (requests (sess s))" for t q
    using that sub calls deliver_registered [OF inv] unfolding req by fastforce
  have other: "\<exists>st'. decode_msg_handle (Inr ()) t r = Inr st' \<and> calls st' = []"
    if "t \<noteq> ''''" "Subscribe t 0 \<notin> set (requests (sess s))" for t
  proof -
    from that(2) have "filter (\<lambda>x. topic_name x = t) (active r) = []"
      by (auto simp: req filter_empty_conv)
    with decode_refines [OF inv that(1)] calls show ?thesis
      by (auto simp: abs_reg_def deliver_def filter_map o_def)
  qed
  show ?thesis using s req reg other by auto
qed

lemma sample_core_init: "\<exists>s. core_init env_ok globals_init sample_files (\<lambda>_. True) server_start = Inr (0, s) \<and>
    reg s = reg_init\<lparr>topicNumLocal := 1, handleTableLocal := Some [ctr_handle_tab ! 1, zero_cmd]\<rparr>"
  by (simp add: core_init_def server_start_def init_mqtt_client_def env_ok_def session_start_def
      sample_init MQTTASYNC_SUCCESS_def regTopicFromTable_def)

theorem core_init_subscriptions_served_witness:
  "\<exists>s. core_init env_ok globals_init sample_files (\<lambda>_. True) server_start = Inr (0, s) \<and>
     requests (sess s) = [Subscribe ''SFR123'' 0]"
proof -
  obtain s where s: "core_init env_ok globals_init sample_files (\<lambda>_. True) server_start = Inr (0, s)"
    "reg s = reg_init\<lparr>topicNumLocal := 1, handleTableLocal := Some [ctr_handle_tab ! 1, zero_cmd]\<rparr>"
    using sample_core_init by blast
  from core_init_subscriptions_served [OF s(1)] s show ?thesis
    by (auto simp: active_def ctr_handle_tab_def)
qed

text \<open>
  the one-second heart beat. In any run of the main loop, \<open>core_heart\<close> is called in every
  round with the clock read at its start, and \<open>core_heart_1s\<close> exactly once for each change of
  that reading, starting from 0, and with the new value.
\<close>
theorem hall_loop_heart_1s:
  "[t. Heart t \<leftarrow> hall_loop lastHeartTime rounds] = map fst rounds \<and>
   lastHeartTime # [t. Heart1s t \<leftarrow> hall_loop lastHeartTime rounds] = remdups_adj (lastHeartTime # map fst rounds)"
proof (induction rounds arbitrary: lastHeartTime)
  case Nil
  show ?case by simp
next
  case (Cons r rs)
  obtain now later where "r = (now, later)" by fastforce
  then show ?case
    using Cons.IH [of now] Cons.IH [of lastHeartTime] by (auto simp: hall_round_def)
qed


definition os_sample :: os_env where
  "os_sample = \<lparr>exe_link = Some ''/opt/srv'', open_ok = (\<lambda>_. True), lock_fault = (\<lambda>_. None), getpid = 1\<rparr>"


text \<open>
  the configuration directory given to \<open>main\<close> does not reach the topic table. The start-up
  of the server core depends only on the file \<^verbatim>\<open>main.config\<close> of the current directory, while the
  settings of a server started with a directory come from that directory's file.
\<close>
theorem core_init_ignores_directory:
  assumes "fs CONFIG_FILE = fs' CONFIG_FILE"
  shows "core_init env g fs alloc s = core_init env g fs' alloc s \<and>
    (length dir < 1000 \<longrightarrow> config_path (Some (dir @ ''/'')) = Inr (dir @ ''/main.config'') \<and>
      dir @ ''/main.config'' \<noteq> CONFIG_FILE)"
proof -
  have "initTopicConf fs alloc r = initTopicConf fs' alloc r" for r
    using assms GetInitKey_same_file [of fs CONFIG_FILE fs'] topic_loop_same_file [of fs fs']
    by (simp add: initTopicConf_def load_table_def)
  moreover have "length (dir @ ''/main.config'') \<noteq> length CONFIG_FILE" by (simp add: CONFIG_FILE_def)
  ultimately show ?thesis
    by (auto simp: core_init_def config_path_def CONFIG_FILE_def)
qed

end
