(* ===== verification/Packet_Codec.thy ===== *)
theory Packet_Codec
  imports Mqtt_Prelude
begin

text \<open>
  The wire encodings of \<^verbatim>\<open>MQTTPacket.c\<close>: variable byte integers, two and four byte integers,
  length-delimited strings.

  A received packet is a list of bytes and a cursor into it; reading past the list is the fault
  \<open>OverRead\<close>. \<^verbatim>\<open>enddata\<close> is an index that the code compares the cursor with. What a writer
  stores at \<^verbatim>\<open>*pptr\<close> is the list of bytes it returns; the cursor advances by its length. An
  \<^verbatim>\<open>int\<close> is an \<open>int\<close>, narrowed to a byte by \<open>word_of_int\<close>.

  Shown: every reader undoes its writer, for all values of the encoded range; the four byte
  integers only up to \<open>2 ^ 31\<close>.
\<close>

section \<open>Bytes\<close>

definition low7 :: "byte \<Rightarrow> nat" where "low7 c = unat (c AND 127)"
definition goes_on :: "byte \<Rightarrow> bool" where "goes_on c \<longleftrightarrow> c AND 128 \<noteq> 0"

lemma byte_bits_check:
  "\<forall>n \<in> set [0 ..< 128]. low7 (word_of_nat n) = n \<and> \<not> goes_on (word_of_nat n) \<and>
     low7 (word_of_nat n OR 0x80) = n \<and> goes_on (word_of_nat n OR 0x80)"
  by code_simp

lemma byte_bits [buf_simps]:
  assumes "n < 128"
  shows "low7 (word_of_nat n) = n" "\<not> goes_on (word_of_nat n)"
    "low7 (word_of_nat n OR 0x80) = n" "goes_on (word_of_nat n OR 0x80)"
  using assms byte_bits_check by simp_all

lemma low7_less: "low7 c < 128"
proof -
  have check: "\<forall>n \<in> set [0 ..< 256]. low7 (word_of_nat n) < 128" by code_simp
  have "low7 (word_of_nat n) < 128" if "n < 256" for n
    by (rule bspec [OF check]) (simp add: that del: upt_rec_numeral upt_Suc)
  then show ?thesis by (rule all_bytes)
qed

section \<open>Variable byte integers\<close>

text \<open>
  \<^verbatim>\<open>MQTTPacket_encode\<close>: the bytes written; their number is the return value, also when the buffer
  is null and nothing is written. The argument is a \<^verbatim>\<open>size_t\<close>.
\<close>

fun MQTTPacket_encode :: "nat \<Rightarrow> byte list" where
  "MQTTPacket_encode l =
     (let d = word_of_nat (l mod 128); l' = l div 128 in
      if 0 < l' then (d OR 0x80) # MQTTPacket_encode l' else [d])"

declare MQTTPacket_encode.simps [simp del]

definition size_t :: "int \<Rightarrow> nat" where "size_t n = nat (n mod 2 ^ 64)"

text \<open>
  \<^verbatim>\<open>MQTTPacket_decode\<close> takes its bytes from \<^verbatim>\<open>WebSocket_getch\<close>: \<open>getch i\<close> is the outcome of the
  \<open>i\<close>-th call, a byte or a code other than \<^verbatim>\<open>TCPSOCKET_COMPLETE\<close>. The result is the return code,
  the value and the number of bytes taken. \<open>k\<close> bytes are still allowed.
\<close>

type_synonym getch = "nat \<Rightarrow> int + byte"

fun decode_from :: "getch \<Rightarrow> nat \<Rightarrow> nat \<Rightarrow> nat \<Rightarrow> nat \<Rightarrow> int \<times> nat \<times> nat" where
  "decode_from getch 0 i multiplier val = (SOCKET_ERROR, val, i)"
| "decode_from getch (Suc k) i multiplier val =
     (case getch i of
        Inl rc \<Rightarrow> (rc, val, i)
      | Inr c \<Rightarrow>
          let val' = val + low7 c * multiplier in
          if goes_on c then decode_from getch k (Suc i) (multiplier * 128) val'
          else (TCPSOCKET_COMPLETE, val', Suc i))"

definition MQTTPacket_decode :: "getch \<Rightarrow> int \<times> nat \<times> nat" where
  "MQTTPacket_decode getch = decode_from getch 4 0 1 0"

text \<open>
  \<^verbatim>\<open>MQTTPacket_VBIdecode\<close> on \<^verbatim>\<open>bufchar\<close>, that is \<^verbatim>\<open>MQTTPacket_decodeBuf\<close>: the number returned (5
  when a fifth byte would be needed, though only four were read) and the value.
\<close>

fun VBIdecode_loop :: "byte list \<Rightarrow> nat \<Rightarrow> nat \<Rightarrow> nat \<Rightarrow> nat \<Rightarrow> nat \<Rightarrow> (nat \<times> nat) res" where
  "VBIdecode_loop buf p 0 len multiplier val = Inr (Suc len, val)"
| "VBIdecode_loop buf p (Suc k) len multiplier val =
     guardR OverRead (p < length buf)
       (let c = buf ! p; val' = val + low7 c * multiplier in
        if goes_on c then VBIdecode_loop buf (Suc p) k (Suc len) (multiplier * 128) val'
        else Inr (Suc len, val'))"

definition MQTTPacket_decodeBuf :: "byte list \<Rightarrow> nat \<Rightarrow> (nat \<times> u32) res" where
  "MQTTPacket_decodeBuf buf p =
     bindR (VBIdecode_loop buf p 4 0 1 0) (\<lambda>(len, val). Inr (len, word_of_nat val))"

definition MQTTPacket_VBIlen :: "int \<Rightarrow> int" where
  "MQTTPacket_VBIlen rem_len =
     (if rem_len < 128 then 1 else if rem_len < 16384 then 2 else if rem_len < 2097152 then 3 else 4)"

section \<open>Integers, characters and strings\<close>

definition readInt :: "byte list \<Rightarrow> nat \<Rightarrow> (int \<times> nat) res" where
  "readInt buf p =
     guardR OverRead (p + 1 < length buf) (Inr (256 * uint (buf ! p) + uint (buf ! (p + 1)), p + 2))"

definition writeInt :: "int \<Rightarrow> byte list" where
  "writeInt anInt = [word_of_int (anInt sdiv 256), word_of_int (anInt smod 256)]"

definition readChar :: "byte list \<Rightarrow> nat \<Rightarrow> (byte \<times> nat) res" where
  "readChar buf p = guardR OverRead (p < length buf) (Inr (buf ! p, p + 1))"

definition writeChar :: "byte \<Rightarrow> byte list" where
  "writeChar c = [c]"

definition readInt4 :: "byte list \<Rightarrow> nat \<Rightarrow> (int \<times> nat) res" where
  "readInt4 buf p =
     guardR OverRead (p + 3 < length buf)
       (guardR SignedOverflow (in_int (16777216 * uint (buf ! p)))
         (let v = 16777216 * uint (buf ! p) + 65536 * uint (buf ! (p + 1)) +
                  256 * uint (buf ! (p + 2)) + uint (buf ! (p + 3)) in
          guardR SignedOverflow (in_int v) (Inr (v, p + 4))))"

definition writeInt4 :: "int \<Rightarrow> byte list" where
  "writeInt4 anInt =
     (let b0 = anInt sdiv 16777216; a1 = anInt smod 16777216;
          b1 = a1 sdiv 65536; a2 = a1 smod 65536 in
      [word_of_int b0, word_of_int b1, word_of_int (a2 sdiv 256), word_of_int (a2 smod 256)])"

text \<open>
  \<^verbatim>\<open>readUTFlen\<close>: the allocated copy (without its terminator) and its length, or the null pointer,
  with the cursor where the code leaves it. \<open>alloc\<close> is the allocator.
\<close>

definition readUTFlen :: "(int \<Rightarrow> bool) \<Rightarrow> byte list \<Rightarrow> nat \<Rightarrow> nat \<Rightarrow> (byte list option \<times> int \<times> nat) res" where
  "readUTFlen alloc buf p enddata =
     (if p + 1 < enddata then
        bindR (readInt buf p) (\<lambda>(len, p').
          if p' + nat len \<le> enddata then
            if malloc_ok alloc (len + 1) then
              guardR OverRead (p' + nat len \<le> length buf)
                (Inr (Some (take (nat len) (drop p' buf)), len, p' + nat len))
            else Inr (None, len, p')
          else Inr (None, len, p'))
      else Inr (None, 0, p))"

definition readUTF :: "(int \<Rightarrow> bool) \<Rightarrow> byte list \<Rightarrow> nat \<Rightarrow> nat \<Rightarrow> (byte list option \<times> nat) res" where
  "readUTF alloc buf p enddata = bindR (readUTFlen alloc buf p enddata) (\<lambda>(s, _, p'). Inr (s, p'))"

definition writeUTF :: "byte list \<Rightarrow> byte list" where
  "writeUTF string = writeInt (int (length string)) @ string"

definition writeData :: "byte list \<Rightarrow> int \<Rightarrow> byte list res" where
  "writeData data datalen =
     guardR OverRead (0 \<le> datalen \<and> nat datalen \<le> length data)
       (Inr (writeInt datalen @ take (nat datalen) data))"

text \<open>
  A length-delimited string with its own length field; the pointer may be null.
\<close>

record MQTTLenString =
  ls_len :: int
  ls_data :: "byte list option"

definition writeMQTTLenString :: "MQTTLenString \<Rightarrow> byte list res" where
  "writeMQTTLenString s =
     guardR OverRead (0 \<le> ls_len s)
       (case ls_data s of
          None \<Rightarrow> guardR NullDeref (ls_len s = 0) (Inr (writeInt 0))
        | Some d \<Rightarrow> guardR OverRead (nat (ls_len s) \<le> length d)
            (Inr (writeInt (ls_len s) @ take (nat (ls_len s)) d)))"

text \<open>
  \<^verbatim>\<open>MQTTLenStringRead\<close> fills in a structure: \<open>None\<close> as the new length or data stands for a field it
  leaves as it was. The number returned is 0 on failure.
\<close>

definition MQTTLenStringRead ::
  "byte list \<Rightarrow> nat \<Rightarrow> nat \<Rightarrow> (int \<times> int option \<times> byte list option \<times> nat) res" where
  "MQTTLenStringRead buf p enddata =
     (if p + 1 < enddata then
        bindR (readInt buf p) (\<lambda>(len, p').
          if p' + nat len \<le> enddata then
            guardR OverRead (p' + nat len \<le> length buf)
              (Inr (2 + len, Some len, Some (take (nat len) (drop p' buf)), p' + nat len))
          else Inr (0, Some len, None, p'))
      else Inr (0, None, None, p))"

section \<open>Codecs\<close>

text \<open>
  The contract of a reader and its writer: what was written is read back, whatever precedes and
  follows it, and the cursor advances by what was written. Codecs of this kind are self-delimiting.
\<close>

locale byte_codec =
  fixes valid :: "'a \<Rightarrow> bool"
    and enc :: "'a \<Rightarrow> byte list"
    and dec :: "byte list \<Rightarrow> nat \<Rightarrow> ('a \<times> nat) res"
  assumes dec_enc: "valid x \<Longrightarrow> drop p buf = enc x @ post \<Longrightarrow> dec buf p = Inr (x, p + length (enc x))"
begin

lemma dec_at: "valid x \<Longrightarrow> dec (pre @ enc x @ post) (length pre) = Inr (x, length pre + length (enc x))"
  by (rule dec_enc [where post = post]) simp_all

text \<open>No encoding is a proper prefix of another one.\<close>

lemma enc_unique:
  assumes "valid x" and "valid y" and "enc x @ r = enc y @ s"
  shows "x = y \<and> r = s"
proof -
  have "dec (enc x @ r) 0 = Inr (x, length (enc x))" "dec (enc y @ s) 0 = Inr (y, length (enc y))"
    using dec_at [OF assms(1), of "[]" r] dec_at [OF assms(2), of "[]" s] by simp_all
  with assms(3) show ?thesis by auto
qed

lemma enc_list_unique:
  assumes "\<forall>x \<in> set xs. valid x" and "\<forall>y \<in> set ys. valid y" and "\<forall>x. enc x \<noteq> []"
    and "concat (map enc xs) = concat (map enc ys)"
  shows "xs = ys"
  using assms
proof (induction xs arbitrary: ys)
  case Nil
  then show ?case by (cases ys) auto
next
  case (Cons x xs)
  from Cons.prems(3,4) obtain y ys' where ys: "ys = y # ys'" by (cases ys) auto
  with Cons.prems enc_unique [of x y "concat (map enc xs)" "concat (map enc ys')"]
  have "x = y \<and> concat (map enc xs) = concat (map enc ys')" by simp
  with Cons.IH [of ys'] Cons.prems ys show ?case by simp
qed

end

section \<open>Lemmas\<close>

lemma encode_small: "l < 128 \<Longrightarrow> MQTTPacket_encode l = [word_of_nat l]"
  by (subst MQTTPacket_encode.simps) (simp add: Let_def)

lemma encode_large:
  "128 \<le> l \<Longrightarrow> MQTTPacket_encode l = (word_of_nat (l mod 128) OR 0x80) # MQTTPacket_encode (l div 128)"
  by (subst MQTTPacket_encode.simps) (auto simp add: Let_def div_greater_zero_iff)

lemma encode_not_Nil [simp]: "MQTTPacket_encode l \<noteq> []"
  by (cases "l < 128") (simp_all add: encode_small encode_large)

lemma encode_length_bound: "l < 128 ^ n \<Longrightarrow> 0 < n \<Longrightarrow> length (MQTTPacket_encode l) \<le> n"
proof (induction n arbitrary: l)
  case 0
  then show ?case by simp
next
  case (Suc n)
  show ?case
  proof (cases "l < 128")
    case True
    then show ?thesis by (simp add: encode_small)
  next
    case False
    with Suc.prems have "l div 128 < 128 ^ n" "0 < n"
      by (auto simp: less_mult_imp_div_less mult.commute intro: gr0I)
    with Suc.IH False show ?thesis by (simp add: encode_large)
  qed
qed

lemma div_mod_digits: "(v :: nat) + l mod 128 * m + l div 128 * (m * 128) = v + l * m"
proof -
  define d r where dr: "d = l div 128" "r = l mod 128"
  then have "l = d * 128 + r" by simp
  then have "v + r * m + d * (m * 128) = v + l * m" by (simp only:) (simp add: algebra_simps)
  then show ?thesis by (simp only: dr)
qed

text \<open>Reading back an encoded number, whatever follows it.\<close>

lemma decode_from_encode:
  assumes "l < 128 ^ k" and "0 < k"
    and "\<And>j. j < length (MQTTPacket_encode l) \<Longrightarrow> getch (i + j) = Inr (MQTTPacket_encode l ! j)"
  shows "decode_from getch k i m v =
    (TCPSOCKET_COMPLETE, v + l * m, i + length (MQTTPacket_encode l))"
  using assms
proof (induction k arbitrary: l i m v)
  case 0
  then show ?case by simp
next
  case (Suc k)
  show ?case
  proof (cases "l < 128")
    case True
    with Suc.prems(3) [of 0] show ?thesis
      by (simp add: encode_small byte_bits)
  next
    case False
    then have enc: "MQTTPacket_encode l = (word_of_nat (l mod 128) OR 0x80) # MQTTPacket_encode (l div 128)"
      by (simp add: encode_large)
    from False Suc.prems have k: "l div 128 < 128 ^ k" "0 < k"
      by (auto simp: less_mult_imp_div_less mult.commute intro: gr0I)
    have step: "getch (Suc i + j) = Inr (MQTTPacket_encode (l div 128) ! j)"
      if "j < length (MQTTPacket_encode (l div 128))" for j
      using Suc.prems(3) [of "Suc j"] that by (simp add: enc)
    have "getch i = Inr (word_of_nat (l mod 128) OR 0x80)"
      using Suc.prems(3) [of 0] by (simp add: enc)
    with Suc.IH [OF k step, of "m * 128"] show ?thesis
      by (simp add: byte_bits enc div_mod_digits)
  qed
qed

lemma VBIdecode_loop_encode:
  assumes "l < 128 ^ k" and "0 < k" and "drop p buf = MQTTPacket_encode l @ post"
  shows "VBIdecode_loop buf p k len m v = Inr (len + length (MQTTPacket_encode l), v + l * m)"
  using assms
proof (induction k arbitrary: l p len m v)
  case 0
  then show ?case by simp
next
  case (Suc k)
  have p: "p < length buf" using Suc.prems(3) by (cases "p < length buf") simp_all
  then have "buf ! p = hd (MQTTPacket_encode l)"
    using Suc.prems(3) by (metis encode_not_Nil hd_append2 hd_drop_conv_nth)
  moreover have "drop (Suc p) buf = tl (MQTTPacket_encode l) @ post"
    using Suc.prems(3) p by (metis drop_Suc encode_not_Nil tl_append2 tl_drop)
  ultimately show ?case
  proof (cases "l < 128")
    case True
    with \<open>buf ! p = _\<close> p show ?thesis by (simp add: encode_small byte_bits)
  next
    case False
    then have enc: "MQTTPacket_encode l = (word_of_nat (l mod 128) OR 0x80) # MQTTPacket_encode (l div 128)"
      by (simp add: encode_large)
    from False Suc.prems have k: "l div 128 < 128 ^ k" "0 < k"
      by (auto simp: less_mult_imp_div_less mult.commute intro: gr0I)
    have "drop (Suc p) buf = MQTTPacket_encode (l div 128) @ post"
      using \<open>drop (Suc p) buf = _\<close> by (simp add: enc)
    from Suc.IH [OF k this] \<open>buf ! p = _\<close> p show ?thesis
      by (simp add: byte_bits enc div_mod_digits)
  qed
qed

lemma decodeBuf_encode:
  assumes "l < 268435456" and "drop p buf = MQTTPacket_encode l @ post"
  shows "MQTTPacket_decodeBuf buf p = Inr (length (MQTTPacket_encode l), word_of_nat l)"
  using VBIdecode_loop_encode [of l 4 p buf post 0 1 0] assms by (simp add: MQTTPacket_decodeBuf_def)

lemma VBIlen_encode:
  assumes "0 \<le> n" and "n < 268435456"
  shows "MQTTPacket_VBIlen n = int (length (MQTTPacket_encode (nat n)))"
proof -
  have "length (MQTTPacket_encode l) =
      (if l < 128 then 1 else if l < 16384 then 2 else if l < 2097152 then 3 else 4)"
    if "l < 268435456" for l
    using that by (auto simp: encode_small encode_large)
  from this [of "nat n"] assms show ?thesis by (auto simp: MQTTPacket_VBIlen_def)
qed

lemma drop_nth_append:
  assumes "drop p buf = xs @ post" and "i < length xs"
  shows "p + i < length buf \<and> buf ! (p + i) = xs ! i"
proof -
  have len: "length buf - p = length xs + length post"
    using arg_cong [OF assms(1), of length] by simp
  with assms(2) have "p + i < length buf" by linarith
  moreover have "drop p buf ! i = xs ! i" using assms by (simp add: nth_append)
  ultimately show ?thesis by simp
qed

lemma drop_append_length: "drop p buf = xs @ post \<Longrightarrow> xs \<noteq> [] \<Longrightarrow> p + length xs \<le> length buf"
  using drop_nth_append [of p buf xs post "length xs - 1"] by (cases xs) auto

lemma drop_take_append: "drop p buf = xs @ post \<Longrightarrow> drop (p + length xs) buf = post"
  by (metis add.commute append_eq_conv_conj drop_drop)

lemma uint_byte_of_int: "uint (word_of_int n :: byte) = n mod 256"
  by (simp add: uint_word_of_int)

lemma writeInt_length [simp]: "length (writeInt n) = 2"
  by (simp add: writeInt_def)

lemma writeInt4_length [simp]: "length (writeInt4 n) = 4"
  by (simp add: writeInt4_def Let_def)

lemma writeInt_nonneg: "0 \<le> n \<Longrightarrow> writeInt n = [word_of_int (n div 256), word_of_int (n mod 256)]"
  by (simp add: writeInt_def)

lemma readInt_writeInt:
  assumes "0 \<le> n" and "n < 65536" and "drop p buf = writeInt n @ post"
  shows "readInt buf p = Inr (n, p + 2)"
proof -
  note b = drop_nth_append [OF assms(3)]
  from b [of 0] b [of 1] assms(1) have "p + 1 < length buf"
    "buf ! p = word_of_int (n div 256)" "buf ! (p + 1) = word_of_int (n mod 256)"
    by (simp_all add: writeInt_nonneg)
  moreover have "n div 256 mod 256 = n div 256" using assms(1,2) by simp
  ultimately show ?thesis by (simp add: readInt_def uint_byte_of_int)
qed

lemma readInt4_writeInt4:
  assumes "0 \<le> n" and "n < 2147483648" and "drop p buf = writeInt4 n @ post"
  shows "readInt4 buf p = Inr (n, p + 4)"
proof -
  define a where "a = n mod 16777216"
  define b where "b = a mod 65536"
  have ranges: "0 \<le> a" "a < 16777216" "0 \<le> b" "b < 65536" "n div 16777216 < 128" "0 \<le> n div 16777216"
    using assms(1,2) by (simp_all add: a_def b_def)
  have w: "writeInt4 n = [word_of_int (n div 16777216), word_of_int (a div 65536),
      word_of_int (b div 256), word_of_int (b mod 256)]"
    using assms(1) ranges by (simp add: writeInt4_def Let_def a_def b_def)
  note x = drop_nth_append [OF assms(3)]
  from x [of 0] x [of 1] x [of 2] x [of 3] have buf: "p + 3 < length buf"
    "buf ! p = word_of_int (n div 16777216)" "buf ! (p + 1) = word_of_int (a div 65536)"
    "buf ! (p + 2) = word_of_int (b div 256)" "buf ! (p + 3) = word_of_int (b mod 256)"
    by (simp_all add: w)
  have m: "n div 16777216 mod 256 = n div 16777216" "a div 65536 mod 256 = a div 65536"
    "b div 256 mod 256 = b div 256"
    using ranges by simp_all
  have "16777216 * (n div 16777216) + 65536 * (a div 65536) + 256 * (b div 256) + b mod 256 = n"
    by (simp add: a_def b_def)
  then show ?thesis
    using ranges assms(1,2)
    by (simp add: readInt4_def buf [simplified] uint_byte_of_int m int_range_defs Let_def)
qed

lemma readUTFlen_writeUTF:
  assumes "length s < 65536" and "drop p buf = writeUTF s @ post"
    and "p + length (writeUTF s) \<le> enddata" and "malloc_ok alloc (int (length s) + 1)"
  shows "readUTFlen alloc buf p enddata = Inr (Some s, int (length s), p + length (writeUTF s))"
proof -
  have w: "drop p buf = writeInt (int (length s)) @ s @ post"
    using assms(2) by (simp add: writeUTF_def)
  have r: "readInt buf p = Inr (int (length s), p + 2)"
    using readInt_writeInt [OF _ _ w] assms(1) by simp
  have d: "drop (p + 2) buf = s @ post"
    using drop_take_append [OF w] by simp
  have "s \<noteq> [] \<Longrightarrow> p + 2 + length s \<le> length buf" using drop_append_length [OF d] by simp
  moreover have "p + 2 \<le> length buf" using drop_nth_append [OF w, of 1] by simp
  ultimately have "p + 2 + length s \<le> length buf" by (cases s) simp_all
  then show ?thesis
    using assms(3,4) by (simp add: readUTFlen_def r d [simplified] writeUTF_def)
qed

lemma MQTTLenStringRead_write:
  assumes "length s < 65536" and "drop p buf = writeInt (int (length s)) @ s @ post"
    and "p + 2 + length s \<le> enddata"
  shows "MQTTLenStringRead buf p enddata =
    Inr (2 + int (length s), Some (int (length s)), Some s, p + 2 + length s)"
proof -
  have r: "readInt buf p = Inr (int (length s), p + 2)"
    using readInt_writeInt [OF _ _ assms(2)] assms(1) by simp
  have d: "drop (p + 2) buf = s @ post"
    using drop_take_append [OF assms(2)] by simp
  have "s \<noteq> [] \<Longrightarrow> p + 2 + length s \<le> length buf" using drop_append_length [OF d] by simp
  moreover have "p + 2 \<le> length buf" using drop_nth_append [OF assms(2), of 1] by simp
  ultimately have "p + 2 + length s \<le> length buf" by (cases s) simp_all
  then show ?thesis
    using assms(3) by (simp add: MQTTLenStringRead_def r d [simplified])
qed

text \<open>The three integer encodings satisfy the contract.\<close>

definition int2_valid :: "int \<Rightarrow> bool" where "int2_valid n \<longleftrightarrow> 0 \<le> n \<and> n < 65536"
definition int4_valid :: "int \<Rightarrow> bool" where "int4_valid n \<longleftrightarrow> 0 \<le> n \<and> n < 2147483648"
definition vbi_valid :: "nat \<Rightarrow> bool" where "vbi_valid n \<longleftrightarrow> n < 268435456"

definition vbi_read :: "byte list \<Rightarrow> nat \<Rightarrow> (nat \<times> nat) res" where
  "vbi_read buf p = bindR (MQTTPacket_decodeBuf buf p) (\<lambda>(l, v). Inr (unat v, p + l))"

interpretation int2: byte_codec int2_valid writeInt readInt
  by unfold_locales (use readInt_writeInt in \<open>auto simp: int2_valid_def\<close>)

interpretation int4: byte_codec int4_valid writeInt4 readInt4
  by unfold_locales (simp add: int4_valid_def readInt4_writeInt4)

interpretation vbi: byte_codec vbi_valid MQTTPacket_encode vbi_read
  by unfold_locales (simp add: vbi_valid_def vbi_read_def decodeBuf_encode unat_of_nat)

section \<open>Properties\<close>

text \<open>
  C13: the remaining length round trip, for both decoders. Whatever the transport delivers after it,
  decoding with \<open>MQTTPacket_decode\<close> the bytes \<open>MQTTPacket_encode\<close> produced for a length below
  \<open>2 ^ 28\<close> (four bytes, the largest MQTT allows) completes with that length and consumes exactly those
  bytes; \<open>MQTTPacket_decodeBuf\<close> finds the same length and number of bytes wherever they stand in a
  buffer.
\<close>
theorem remaining_length_roundtrip:
  assumes "l < 268435456"
    and "\<And>j. j < length (MQTTPacket_encode l) \<Longrightarrow> getch j = Inr (MQTTPacket_encode l ! j)"
  shows "MQTTPacket_decode getch = (TCPSOCKET_COMPLETE, l, length (MQTTPacket_encode l)) \<and>
    MQTTPacket_decodeBuf (pre @ MQTTPacket_encode l @ post) (length pre) =
      Inr (length (MQTTPacket_encode l), word_of_nat l) \<and>
    length (MQTTPacket_encode l) \<le> 4"
proof -
  have "l < 128 ^ 4" using assms(1) by simp
  from decode_from_encode [OF this, of getch 0 1 0] encode_length_bound [OF this] assms(2)
    decodeBuf_encode [OF assms(1), of "length pre" "pre @ MQTTPacket_encode l @ post" post]
  show ?thesis by (simp add: MQTTPacket_decode_def)
qed

theorem remaining_length_roundtrip_witness:
  "MQTTPacket_decode (\<lambda>j. Inr ([0xC1, 0x02, 0x55] ! j)) = (TCPSOCKET_COMPLETE, 321, 2) \<and>
   MQTTPacket_decodeBuf [0x30, 0xC1, 0x02, 0x55] 1 = Inr (2, 321)"
proof -
  have enc: "MQTTPacket_encode 321 = [0xC1, 0x02]"
    by (simp add: encode_large encode_small)
  have "getch j = Inr (MQTTPacket_encode 321 ! j)" if "j < length (MQTTPacket_encode 321)"
    "getch = (\<lambda>j. Inr ([0xC1, 0x02, 0x55] ! j))" for j and getch :: getch
    using that by (auto simp: enc less_Suc_eq numeral_2_eq_2)
  with remaining_length_roundtrip [of 321 "\<lambda>j. Inr ([0xC1, 0x02, 0x55] ! j)" "[0x30]" "[0x55]"] show ?thesis
    by (simp add: enc)
qed

text \<open>
  four byte integers. Reading back what \<open>writeInt4\<close> wrote gives the number for every number
  below \<open>2 ^ 31\<close>. Above, the number is passed to \<open>writeInt4\<close> as a negative \<^verbatim>\<open>int\<close>, whose division
  truncates towards zero: the value \<open>2 ^ 32 - 1\<close>, a session that never expires, is written as 255.
\<close>
theorem int4_roundtrip:
  "(0 \<le> n \<and> n < 2147483648 \<longrightarrow> readInt4 (pre @ writeInt4 n @ post) (length pre) = Inr (n, length pre + 4)) \<and>
   writeInt4 (sint (0xFFFFFFFF :: u32)) = [0, 0, 0, 0xFF] \<and>
   readInt4 (writeInt4 (sint (0xFFFFFFFF :: u32))) 0 = Inr (255, 4)"
proof (intro conjI impI)
  assume "0 \<le> n \<and> n < 2147483648"
  then show "readInt4 (pre @ writeInt4 n @ post) (length pre) = Inr (n, length pre + 4)"
    using readInt4_writeInt4 [of n "length pre" "pre @ writeInt4 n @ post" post] by simp
next
  have "sint (0xFFFFFFFF :: u32) = -1" by code_simp
  then show w: "writeInt4 (sint (0xFFFFFFFF :: u32)) = [0, 0, 0, 0xFF]"
    by (simp add: writeInt4_def signed_divide_int_def signed_modulo_int_def)
  show "readInt4 (writeInt4 (sint (0xFFFFFFFF :: u32))) 0 = Inr (255, 4)"
    unfolding w by (simp add: readInt4_def Let_def int_range_defs)
qed

text \<open>
  strings. A string shorter than \<open>2 ^ 16\<close> bytes that was written by \<open>writeUTF\<close> anywhere in a
  packet is read back by \<open>readUTFlen\<close>, which consumes exactly what was written, if the end of data
  it is given is not before the string's end and memory is available.
\<close>
theorem utf_roundtrip:
  assumes "length s < 65536" and "length pre + 2 + length s \<le> enddata"
    and "malloc_ok alloc (int (length s) + 1)"
  shows "readUTFlen alloc (pre @ writeUTF s @ post) (length pre) enddata =
    Inr (Some s, int (length s), length pre + 2 + length s)"
proof -
  have "readUTFlen alloc (pre @ writeUTF s @ post) (length pre) enddata =
      Inr (Some s, int (length s), length pre + length (writeUTF s))"
    using assms by (intro readUTFlen_writeUTF) (auto simp: writeUTF_def)
  then show ?thesis by (simp add: writeUTF_def)
qed

end
