(* ===== verification/Mqtt_Properties.thy ===== *)
theory Mqtt_Properties
  imports Packet_Codec
begin

text \<open>
  MQTT 5 property lists: \<^verbatim>\<open>MQTTProperties.c\<close>.

  The union of a property's value is a datatype; reading a member that was not stored is the
  fault \<open>BadUnion\<close>. The array of a property list is a list of slots as long as the allocation; a
  slot is \<open>None\<close> until it is assigned. \<open>alloc\<close> is the allocator.

  Shown: adding a property keeps the list well formed and its \<^verbatim>\<open>length\<close> equal to the number of
  bytes its properties take on the wire; writing a list produces exactly \<^verbatim>\<open>MQTTProperties_len\<close>
  bytes; reading them back gives the list; a copy is equal; the look-ups by identifier and index.
\<close>

section \<open>Data\<close>

datatype MQTTPropertyTypes =
    TYPE_BYTE | TYPE_TWO_BYTE_INTEGER | TYPE_FOUR_BYTE_INTEGER | TYPE_VARIABLE_BYTE_INTEGER
  | TYPE_BINARY_DATA | TYPE_UTF_8_ENCODED_STRING | TYPE_UTF_8_STRING_PAIR

definition namesToTypes :: "(int \<times> MQTTPropertyTypes) list" where
  "namesToTypes =
     [(1, TYPE_BYTE), (2, TYPE_FOUR_BYTE_INTEGER), (3, TYPE_UTF_8_ENCODED_STRING),
      (8, TYPE_UTF_8_ENCODED_STRING), (9, TYPE_BINARY_DATA), (11, TYPE_VARIABLE_BYTE_INTEGER),
      (17, TYPE_FOUR_BYTE_INTEGER), (18, TYPE_UTF_8_ENCODED_STRING), (19, TYPE_TWO_BYTE_INTEGER),
      (21, TYPE_UTF_8_ENCODED_STRING), (22, TYPE_BINARY_DATA), (23, TYPE_BYTE),
      (24, TYPE_FOUR_BYTE_INTEGER), (25, TYPE_BYTE), (26, TYPE_UTF_8_ENCODED_STRING),
      (28, TYPE_UTF_8_ENCODED_STRING), (31, TYPE_UTF_8_ENCODED_STRING), (33, TYPE_TWO_BYTE_INTEGER),
      (34, TYPE_TWO_BYTE_INTEGER), (35, TYPE_TWO_BYTE_INTEGER), (36, TYPE_BYTE), (37, TYPE_BYTE),
      (38, TYPE_UTF_8_STRING_PAIR), (39, TYPE_FOUR_BYTE_INTEGER), (40, TYPE_BYTE), (41, TYPE_BYTE),
      (42, TYPE_BYTE)]"

definition nameToString :: "(int \<times> string) list" where
  "nameToString =
     [(1, ''PAYLOAD_FORMAT_INDICATOR''), (2, ''MESSAGE_EXPIRY_INTERVAL''), (3, ''CONTENT_TYPE''),
      (8, ''RESPONSE_TOPIC''), (9, ''CORRELATION_DATA''), (11, ''SUBSCRIPTION_IDENTIFIER''),
      (17, ''SESSION_EXPIRY_INTERVAL''), (18, ''ASSIGNED_CLIENT_IDENTIFER''), (19, ''SERVER_KEEP_ALIVE''),
      (21, ''AUTHENTICATION_METHOD''), (22, ''AUTHENTICATION_DATA''), (23, ''REQUEST_PROBLEM_INFORMATION''),
      (24, ''WILL_DELAY_INTERVAL''), (25, ''REQUEST_RESPONSE_INFORMATION''), (26, ''RESPONSE_INFORMATION''),
      (28, ''SERVER_REFERENCE''), (31, ''REASON_STRING''), (33, ''RECEIVE_MAXIMUM''),
      (34, ''TOPIC_ALIAS_MAXIMUM''), (35, ''TOPIC_ALIAS''), (36, ''MAXIMUM_QOS''), (37, ''RETAIN_AVAILABLE''),
      (38, ''USER_PROPERTY''), (39, ''MAXIMUM_PACKET_SIZE''), (40, ''WILDCARD_SUBSCRIPTION_AVAILABLE''),
      (41, ''SUBSCRIPTION_IDENTIFIERS_AVAILABLE''), (42, ''SHARED_SUBSCRIPTION_AVAILABLE'')]"

text \<open>
  \<open>PStr d v\<close> is the struct member with its two strings; the second one is only assigned for a
  string pair. \<open>PUninit\<close> is a union no member of which was assigned.
\<close>

datatype prop_value =
    PUninit | PByte byte | PInt2 u16 | PInt4 u32 | PStr MQTTLenString "MQTTLenString option"

record MQTTProperty =
  prop_id :: int
  pvalue :: prop_value

record MQTTProperties =
  pcount :: int
  max_count :: int
  plength :: int
  parray :: "MQTTProperty option list option"

definition MQTTProperties_initializer :: MQTTProperties where
  "MQTTProperties_initializer = \<lparr>pcount = 0, max_count = 0, plength = 0, parray = None\<rparr>"

definition sizeof_MQTTProperty :: int where "sizeof_MQTTProperty = 40"
definition MQTT_INVALID_PROPERTY_ID :: int where "MQTT_INVALID_PROPERTY_ID = -2"
text \<open>The loops over the two tables stop at the first match.\<close>

definition MQTTProperty_getType :: "int \<Rightarrow> MQTTPropertyTypes option" where
  "MQTTProperty_getType v = map_of namesToTypes v"

definition MQTTPropertyName :: "int \<Rightarrow> string option" where
  "MQTTPropertyName v = map_of nameToString v"

definition MQTTProperties_len :: "MQTTProperties option \<Rightarrow> int" where
  "MQTTProperties_len props =
     (case props of None \<Rightarrow> 1 | Some p \<Rightarrow> plength p + MQTTPacket_VBIlen (plength p))"

section \<open>Adding a property\<close>

definition datadup :: "(int \<Rightarrow> bool) \<Rightarrow> MQTTLenString \<Rightarrow> byte list option res" where
  "datadup alloc s =
     (if malloc_ok alloc (ls_len s) then
        case ls_data s of
          None \<Rightarrow> guardR NullDeref (ls_len s = 0) (Inr (Some []))
        | Some d \<Rightarrow> guardR OverRead (nat (ls_len s) \<le> length d) (Inr (Some (take (nat (ls_len s)) d)))
      else Inr None)"

definition resize :: "nat \<Rightarrow> 'a option list \<Rightarrow> 'a option list" where
  "resize n xs = take n xs @ replicate (n - length xs) None"

text \<open>The growth of the array at the head of \<^verbatim>\<open>MQTTProperties_add\<close>.\<close>

definition add_grow :: "(int \<Rightarrow> bool) \<Rightarrow> MQTTProperties \<Rightarrow> MQTTProperties" where
  "add_grow alloc props =
     (case parray props of
        None \<Rightarrow> props\<lparr>max_count := 10,
                  parray := (if malloc_ok alloc (sizeof_MQTTProperty * 10) then Some (replicate 10 None) else None)\<rparr>
      | Some xs \<Rightarrow>
          if pcount props = max_count props then
            let m = max_count props + 10 in
            props\<lparr>max_count := m,
              parray := (if malloc_ok alloc (sizeof_MQTTProperty * m) then Some (resize (nat m) xs) else None)\<rparr>
          else props)"

text \<open>The value stored and its length on the wire, by type.\<close>

definition add_value :: "(int \<Rightarrow> bool) \<Rightarrow> MQTTPropertyTypes \<Rightarrow> prop_value \<Rightarrow> (prop_value \<times> int) res" where
  "add_value alloc type v =
     (case type of
        TYPE_BYTE \<Rightarrow> Inr (v, 1)
      | TYPE_TWO_BYTE_INTEGER \<Rightarrow> Inr (v, 2)
      | TYPE_FOUR_BYTE_INTEGER \<Rightarrow> Inr (v, 4)
      | TYPE_VARIABLE_BYTE_INTEGER \<Rightarrow>
          (case v of PInt4 n \<Rightarrow> Inr (v, MQTTPacket_VBIlen (sint n)) | _ \<Rightarrow> Inl BadUnion)
      | TYPE_UTF_8_STRING_PAIR \<Rightarrow>
          (case v of
             PStr d (Some w) \<Rightarrow>
               bindR (datadup alloc d) (\<lambda>d'. bindR (datadup alloc w) (\<lambda>w'.
                 Inr (PStr (d\<lparr>ls_data := d'\<rparr>) (Some (w\<lparr>ls_data := w'\<rparr>)), 2 + ls_len d + (2 + ls_len w))))
           | PStr d None \<Rightarrow> Inl UninitRead
           | _ \<Rightarrow> Inl BadUnion)
      | _ \<Rightarrow>
          (case v of
             PStr d w \<Rightarrow> bindR (datadup alloc d) (\<lambda>d'. Inr (PStr (d\<lparr>ls_data := d'\<rparr>) w, 2 + ls_len d))
           | _ \<Rightarrow> Inl BadUnion))"

definition MQTTProperties_add ::
  "(int \<Rightarrow> bool) \<Rightarrow> MQTTProperties \<Rightarrow> MQTTProperty \<Rightarrow> (int \<times> MQTTProperties) res" where
  "MQTTProperties_add alloc props prop =
     (case MQTTProperty_getType (prop_id prop) of
        None \<Rightarrow> Inr (MQTT_INVALID_PROPERTY_ID, props)
      | Some type \<Rightarrow>
          let props1 = add_grow alloc props in
          case parray props1 of
            None \<Rightarrow> Inr (PAHO_MEMORY_ERROR, props1)
          | Some xs \<Rightarrow>
              guardR OverWrite (0 \<le> pcount props1 \<and> nat (pcount props1) < length xs)
                (bindR (add_value alloc type (pvalue prop)) (\<lambda>(v, len).
                   guardR SignedOverflow (in_int (plength props1 + len + 1))
                     (Inr (0, props1\<lparr>parray := Some (xs[nat (pcount props1) := Some (prop\<lparr>pvalue := v\<rparr>)]),
                              pcount := pcount props1 + 1, plength := plength props1 + len + 1\<rparr>)))))"

section \<open>Access by index\<close>

definition prop_at :: "MQTTProperties \<Rightarrow> nat \<Rightarrow> MQTTProperty res" where
  "prop_at props i =
     (case parray props of
        None \<Rightarrow> Inl NullDeref
      | Some xs \<Rightarrow> guardR OverRead (i < length xs)
          (case xs ! i of None \<Rightarrow> Inl UninitRead | Some p \<Rightarrow> Inr p))"

definition indices :: "MQTTProperties \<Rightarrow> nat list" where
  "indices props = [0 ..< nat (pcount props)]"

section \<open>Writing\<close>

definition MQTTProperty_write :: "MQTTProperty \<Rightarrow> (int \<times> byte list) res" where
  "MQTTProperty_write prop =
     (let ident = writeChar (word_of_int (prop_id prop)) in
      case MQTTProperty_getType (prop_id prop) of
        None \<Rightarrow> Inr (0, [])
      | Some TYPE_BYTE \<Rightarrow>
          (case pvalue prop of PByte b \<Rightarrow> Inr (2, ident @ writeChar b) | _ \<Rightarrow> Inl BadUnion)
      | Some TYPE_TWO_BYTE_INTEGER \<Rightarrow>
          (case pvalue prop of PInt2 n \<Rightarrow> Inr (3, ident @ writeInt (uint n)) | _ \<Rightarrow> Inl BadUnion)
      | Some TYPE_FOUR_BYTE_INTEGER \<Rightarrow>
          (case pvalue prop of PInt4 n \<Rightarrow> Inr (5, ident @ writeInt4 (sint n)) | _ \<Rightarrow> Inl BadUnion)
      | Some TYPE_VARIABLE_BYTE_INTEGER \<Rightarrow>
          (case pvalue prop of
             PInt4 n \<Rightarrow> let e = MQTTPacket_encode (unat n) in Inr (int (length e) + 1, ident @ e)
           | _ \<Rightarrow> Inl BadUnion)
      | Some TYPE_UTF_8_STRING_PAIR \<Rightarrow>
          (case pvalue prop of
             PStr d (Some w) \<Rightarrow>
               bindR (writeMQTTLenString d) (\<lambda>bd. bindR (writeMQTTLenString w) (\<lambda>bw.
                 Inr (ls_len d + ls_len w + 4 + 1, ident @ bd @ bw)))
           | PStr d None \<Rightarrow> Inl UninitRead
           | _ \<Rightarrow> Inl BadUnion)
      | Some _ \<Rightarrow>
          (case pvalue prop of
             PStr d w \<Rightarrow> bindR (writeMQTTLenString d) (\<lambda>bd. Inr (ls_len d + 2 + 1, ident @ bd))
           | _ \<Rightarrow> Inl BadUnion))"

fun write_props :: "MQTTProperties \<Rightarrow> nat list \<Rightarrow> int \<Rightarrow> byte list \<Rightarrow> (int \<times> byte list) res" where
  "write_props props [] len out = Inr (len, out)"
| "write_props props (i # is) len out =
     bindR (prop_at props i) (\<lambda>p. bindR (MQTTProperty_write p) (\<lambda>(rc, bs).
       if rc < 0 then Inr (rc, out @ bs) else write_props props is (len + rc) (out @ bs)))"

definition MQTTProperties_write :: "MQTTProperties option \<Rightarrow> (int \<times> byte list) res" where
  "MQTTProperties_write props =
     (case props of
        None \<Rightarrow> Inr (1, MQTTPacket_encode 0)
      | Some p \<Rightarrow> write_props p (indices p) 1 (MQTTPacket_encode (size_t (plength p))))"

section \<open>Reading\<close>

text \<open>
  A string read into a slot whose fields were not assigned before: if \<^verbatim>\<open>MQTTLenStringRead\<close> leaves a
  field, \<^verbatim>\<open>datadup\<close> uses an indeterminate value.
\<close>

definition read_string ::
  "(int \<Rightarrow> bool) \<Rightarrow> byte list \<Rightarrow> nat \<Rightarrow> nat \<Rightarrow> (MQTTLenString \<times> int \<times> nat) res" where
  "read_string alloc buf p enddata =
     bindR (MQTTLenStringRead buf p enddata) (\<lambda>(n, l, d, p').
       case (l, d) of
         (Some l, Some d) \<Rightarrow>
           bindR (datadup alloc \<lparr>ls_len = l, ls_data = Some d\<rparr>) (\<lambda>d'.
             Inr (\<lparr>ls_len = l, ls_data = d'\<rparr>, n, p'))
       | _ \<Rightarrow> Inl UninitRead)"

definition MQTTProperty_read ::
  "(int \<Rightarrow> bool) \<Rightarrow> byte list \<Rightarrow> nat \<Rightarrow> nat \<Rightarrow> (MQTTProperty \<times> int \<times> nat) res" where
  "MQTTProperty_read alloc buf p0 enddata =
     bindR (readChar buf p0) (\<lambda>(c, p).
       let mk = (\<lambda>v. \<lparr>prop_id = uint c, pvalue = v\<rparr>) in
       case MQTTProperty_getType (uint c) of
         None \<Rightarrow> Inr (mk PUninit, 1, p)
       | Some TYPE_BYTE \<Rightarrow> bindR (readChar buf p) (\<lambda>(b, p'). Inr (mk (PByte b), 1 + 1, p'))
       | Some TYPE_TWO_BYTE_INTEGER \<Rightarrow>
           bindR (readInt buf p) (\<lambda>(n, p'). Inr (mk (PInt2 (word_of_int n)), 2 + 1, p'))
       | Some TYPE_FOUR_BYTE_INTEGER \<Rightarrow>
           bindR (readInt4 buf p) (\<lambda>(n, p'). Inr (mk (PInt4 (word_of_int n)), 4 + 1, p'))
       | Some TYPE_VARIABLE_BYTE_INTEGER \<Rightarrow>
           bindR (MQTTPacket_decodeBuf buf p) (\<lambda>(l, n). Inr (mk (PInt4 n), int l + 1, p + l))
       | Some TYPE_UTF_8_STRING_PAIR \<Rightarrow>
           bindR (read_string alloc buf p enddata) (\<lambda>(d, n, p').
           bindR (read_string alloc buf p' enddata) (\<lambda>(w, m, p'').
             Inr (mk (PStr d (Some w)), n + m + 1, p'')))
       | Some _ \<Rightarrow>
           bindR (read_string alloc buf p enddata) (\<lambda>(d, n, p').
             Inr (mk (PStr d None), n + 1, p')))"

definition read_grow :: "(int \<Rightarrow> bool) \<Rightarrow> MQTTProperties \<Rightarrow> MQTTProperties" where
  "read_grow alloc props =
     (if pcount props = max_count props then
        let m = max_count props + 10 in
        props\<lparr>max_count := m,
          parray := (if malloc_ok alloc (sizeof_MQTTProperty * m) then
                       Some (if m = 10 then replicate 10 None
                             else resize (nat m) (case parray props of None \<Rightarrow> [] | Some xs \<Rightarrow> xs))
                     else None)\<rparr>
      else props)"

lemma readChar_Inr [buf_simps]: "readChar buf p = Inr (c, p') \<longleftrightarrow> p < length buf \<and> c = buf ! p \<and> p' = p + 1"
  by (auto simp: readChar_def guardR_eq_Inr)

lemma read_string_mono: "read_string alloc buf p e = Inr (s, n, p') \<Longrightarrow> p \<le> p'"
  by (auto simp: read_string_def MQTTLenStringRead_def readInt_def bindR_eq_Inr guardR_eq_Inr
      split: if_splits option.splits prod.splits)

lemma MQTTProperty_read_progress:
  assumes "MQTTProperty_read alloc buf p e = Inr (pr, n, p')"
  shows "p < p' \<and> p < length buf"
  using assms
  by (auto simp: MQTTProperty_read_def bindR_eq_Inr guardR_eq_Inr readInt_def readInt4_def buf_simps
      Let_def split: option.splits MQTTPropertyTypes.splits dest!: read_string_mono)

text \<open>
  The loop of \<^verbatim>\<open>MQTTProperties_read\<close>: \<open>Some\<close> code is the \<^verbatim>\<open>goto exit\<close> on a failed allocation. Each
  round consumes at least one byte, so it ends: with \<^verbatim>\<open>remlength\<close> 0 or by running off the buffer,
  since the unsigned \<^verbatim>\<open>remlength\<close> wraps when a property is longer than what is left.
\<close>

function read_props :: "(int \<Rightarrow> bool) \<Rightarrow> byte list \<Rightarrow> nat \<Rightarrow> u32 \<Rightarrow> nat \<Rightarrow> MQTTProperties
    \<Rightarrow> (int option \<times> MQTTProperties \<times> nat) res" where
  "read_props alloc buf enddata remlength p props =
     (if remlength = 0 then Inr (None, props, p)
      else
        let props1 = read_grow alloc props in
        case parray props1 of
          None \<Rightarrow> Inr (Some PAHO_MEMORY_ERROR, props1, p)
        | Some xs \<Rightarrow>
            guardR OverWrite (0 \<le> pcount props1 \<and> nat (pcount props1) < length xs)
              (bindR (MQTTProperty_read alloc buf p enddata) (\<lambda>(prop, n, p').
                 read_props alloc buf enddata (remlength - word_of_int n) p'
                   (props1\<lparr>parray := Some (xs[nat (pcount props1) := Some prop]),
                      pcount := pcount props1 + 1\<rparr>))))"
  by pat_completeness auto

termination
  by (relation "measure (\<lambda>(alloc, buf, enddata, remlength, p, props). length buf - p)")
    (auto dest!: MQTTProperty_read_progress)

declare read_props.simps [simp del]

definition MQTTProperties_read ::
  "(int \<Rightarrow> bool) \<Rightarrow> MQTTProperties \<Rightarrow> byte list \<Rightarrow> nat \<Rightarrow> nat \<Rightarrow> (int \<times> MQTTProperties \<times> nat) res" where
  "MQTTProperties_read alloc props buf p enddata =
     (if p < enddata then
        bindR (MQTTPacket_decodeBuf buf p) (\<lambda>(l, remlength).
        bindR (read_props alloc buf enddata remlength (p + l) (props\<lparr>plength := sint remlength\<rparr>))
          (\<lambda>(err, props', p').
            case err of Some e \<Rightarrow> Inr (e, props', p') | None \<Rightarrow> Inr (1, props', p')))
      else Inr (0, if parray props \<noteq> None then props\<lparr>parray := None, max_count := 0, pcount := 0\<rparr> else props, p))"

section \<open>Freeing, copying, look-up\<close>

text \<open>What \<^verbatim>\<open>MQTTProperties_free\<close> frees of one property.\<close>

definition free_value :: "MQTTProperty \<Rightarrow> unit res" where
  "free_value prop =
     (case MQTTProperty_getType (prop_id prop) of
        Some TYPE_UTF_8_STRING_PAIR \<Rightarrow>
          (case pvalue prop of PStr d (Some w) \<Rightarrow> Inr () | _ \<Rightarrow> Inl UninitRead)
      | Some TYPE_BINARY_DATA \<Rightarrow> (case pvalue prop of PStr d w \<Rightarrow> Inr () | _ \<Rightarrow> Inl UninitRead)
      | Some TYPE_UTF_8_ENCODED_STRING \<Rightarrow> (case pvalue prop of PStr d w \<Rightarrow> Inr () | _ \<Rightarrow> Inl UninitRead)
      | _ \<Rightarrow> Inr ())"

fun free_props :: "MQTTProperties \<Rightarrow> nat list \<Rightarrow> unit res" where
  "free_props props [] = Inr ()"
| "free_props props (i # is) =
     bindR (prop_at props i) (\<lambda>p. bindR (free_value p) (\<lambda>_. free_props props is))"

definition MQTTProperties_free :: "MQTTProperties \<Rightarrow> MQTTProperties res" where
  "MQTTProperties_free props =
     bindR (free_props props (indices props)) (\<lambda>_. Inr MQTTProperties_initializer)"

fun copy_props :: "(int \<Rightarrow> bool) \<Rightarrow> MQTTProperties \<Rightarrow> nat list \<Rightarrow> MQTTProperties \<Rightarrow> MQTTProperties res" where
  "copy_props alloc props [] result = Inr result"
| "copy_props alloc props (i # is) result =
     bindR (prop_at props i) (\<lambda>p. bindR (MQTTProperties_add alloc result p) (\<lambda>(rc, result').
       copy_props alloc props is result'))"

definition MQTTProperties_copy :: "(int \<Rightarrow> bool) \<Rightarrow> MQTTProperties \<Rightarrow> MQTTProperties res" where
  "MQTTProperties_copy alloc props = copy_props alloc props (indices props) MQTTProperties_initializer"

fun has_loop :: "MQTTProperties \<Rightarrow> int \<Rightarrow> nat list \<Rightarrow> int res" where
  "has_loop props propid [] = Inr 0"
| "has_loop props propid (i # is) =
     bindR (prop_at props i) (\<lambda>p. if propid = prop_id p then Inr 1 else has_loop props propid is)"

definition MQTTProperties_hasProperty :: "MQTTProperties \<Rightarrow> int \<Rightarrow> int res" where
  "MQTTProperties_hasProperty props propid = has_loop props propid (indices props)"

fun count_loop :: "MQTTProperties \<Rightarrow> int \<Rightarrow> nat list \<Rightarrow> int \<Rightarrow> int res" where
  "count_loop props propid [] n = Inr n"
| "count_loop props propid (i # is) n =
     bindR (prop_at props i) (\<lambda>p. count_loop props propid is (if propid = prop_id p then n + 1 else n))"

definition MQTTProperties_propertyCount :: "MQTTProperties \<Rightarrow> int \<Rightarrow> int res" where
  "MQTTProperties_propertyCount props propid = count_loop props propid (indices props) 0"

definition numeric_value :: "MQTTProperty \<Rightarrow> int res" where
  "numeric_value p =
     (case MQTTProperty_getType (prop_id p) of
        Some TYPE_BYTE \<Rightarrow> (case pvalue p of PByte b \<Rightarrow> Inr (uint b) | _ \<Rightarrow> Inl BadUnion)
      | Some TYPE_TWO_BYTE_INTEGER \<Rightarrow> (case pvalue p of PInt2 n \<Rightarrow> Inr (uint n) | _ \<Rightarrow> Inl BadUnion)
      | Some TYPE_FOUR_BYTE_INTEGER \<Rightarrow> (case pvalue p of PInt4 n \<Rightarrow> Inr (sint n) | _ \<Rightarrow> Inl BadUnion)
      | Some TYPE_VARIABLE_BYTE_INTEGER \<Rightarrow> (case pvalue p of PInt4 n \<Rightarrow> Inr (sint n) | _ \<Rightarrow> Inl BadUnion)
      | _ \<Rightarrow> Inr (-999999))"

fun numeric_loop :: "MQTTProperties \<Rightarrow> int \<Rightarrow> int \<Rightarrow> nat list \<Rightarrow> int \<Rightarrow> int res" where
  "numeric_loop props propid ix [] cur_index = Inr (-9999999)"
| "numeric_loop props propid ix (i # is) cur_index =
     bindR (prop_at props i) (\<lambda>p.
       if prop_id p = propid then
         if cur_index < ix then numeric_loop props propid ix is (cur_index + 1) else numeric_value p
       else numeric_loop props propid ix is cur_index)"

definition MQTTProperties_getNumericValueAt :: "MQTTProperties \<Rightarrow> int \<Rightarrow> int \<Rightarrow> int res" where
  "MQTTProperties_getNumericValueAt props propid ix = numeric_loop props propid ix (indices props) 0"

definition MQTTProperties_getNumericValue :: "MQTTProperties \<Rightarrow> int \<Rightarrow> int res" where
  "MQTTProperties_getNumericValue props propid = MQTTProperties_getNumericValueAt props propid 0"

fun property_loop :: "MQTTProperties \<Rightarrow> int \<Rightarrow> int \<Rightarrow> nat list \<Rightarrow> int \<Rightarrow> nat option res" where
  "property_loop props propid ix [] cur_index = Inr None"
| "property_loop props propid ix (i # is) cur_index =
     bindR (prop_at props i) (\<lambda>p.
       if prop_id p = propid then
         if cur_index = ix then Inr (Some i) else property_loop props propid ix is (cur_index + 1)
       else property_loop props propid ix is cur_index)"

definition MQTTProperties_getPropertyAt :: "MQTTProperties \<Rightarrow> int \<Rightarrow> int \<Rightarrow> nat option res" where
  "MQTTProperties_getPropertyAt props propid ix = property_loop props propid ix (indices props) 0"

definition MQTTProperties_getProperty :: "MQTTProperties \<Rightarrow> int \<Rightarrow> nat option res" where
  "MQTTProperties_getProperty props propid = MQTTProperties_getPropertyAt props propid 0"

section \<open>Properties on the wire\<close>

definition str_bytes :: "MQTTLenString \<Rightarrow> byte list" where
  "str_bytes s = writeInt (ls_len s) @ (case ls_data s of None \<Rightarrow> [] | Some d \<Rightarrow> d)"

definition wf_str :: "MQTTLenString \<Rightarrow> bool" where
  "wf_str s \<longleftrightarrow> ls_len s < 65536 \<and> (\<exists>d. ls_data s = Some d \<and> ls_len s = int (length d))"

text \<open>
  A property is well formed if its identifier is known, its value is of the identifier's type, and
  its value is in the range that the wire format and the code can carry.
\<close>

fun wf_value :: "MQTTPropertyTypes \<Rightarrow> prop_value \<Rightarrow> bool" where
  "wf_value TYPE_BYTE (PByte b) = True"
| "wf_value TYPE_TWO_BYTE_INTEGER (PInt2 n) = True"
| "wf_value TYPE_FOUR_BYTE_INTEGER (PInt4 n) = (unat n < 2147483648)"
| "wf_value TYPE_VARIABLE_BYTE_INTEGER (PInt4 n) = (unat n < 268435456)"
| "wf_value TYPE_BINARY_DATA (PStr d None) = wf_str d"
| "wf_value TYPE_UTF_8_ENCODED_STRING (PStr d None) = wf_str d"
| "wf_value TYPE_UTF_8_STRING_PAIR (PStr d (Some w)) = (wf_str d \<and> wf_str w)"
| "wf_value _ _ = False"

definition wf_prop :: "MQTTProperty \<Rightarrow> bool" where
  "wf_prop p \<longleftrightarrow> (case MQTTProperty_getType (prop_id p) of None \<Rightarrow> False | Some t \<Rightarrow> wf_value t (pvalue p))"

fun value_bytes :: "MQTTPropertyTypes \<Rightarrow> prop_value \<Rightarrow> byte list" where
  "value_bytes TYPE_FOUR_BYTE_INTEGER (PInt4 n) = writeInt4 (uint n)"
| "value_bytes _ (PInt4 n) = MQTTPacket_encode (unat n)"
| "value_bytes _ (PByte b) = [b]"
| "value_bytes _ (PInt2 n) = writeInt (uint n)"
| "value_bytes _ (PStr d None) = str_bytes d"
| "value_bytes _ (PStr d (Some w)) = str_bytes d @ str_bytes w"
| "value_bytes _ PUninit = []"

definition prop_bytes :: "MQTTProperty \<Rightarrow> byte list" where
  "prop_bytes p = word_of_int (prop_id p) #
     (case MQTTProperty_getType (prop_id p) of None \<Rightarrow> [] | Some t \<Rightarrow> value_bytes t (pvalue p))"

abbreviation props_bytes :: "MQTTProperty list \<Rightarrow> byte list" where
  "props_bytes ps \<equiv> concat (map prop_bytes ps)"

lemma getType_range:
  assumes "MQTTProperty_getType v = Some t"
  shows "1 \<le> v \<and> v \<le> 42"
proof -
  have "\<forall>x \<in> set namesToTypes. 1 \<le> fst x \<and> fst x \<le> 42" by code_simp
  with map_of_SomeD [OF assms [unfolded MQTTProperty_getType_def]] show ?thesis by fastforce
qed

lemma sint_small:
  assumes "unat (n :: u32) < 2147483648"
  shows "sint n = uint n"
proof -
  have "uint n = int (unat n)" by simp
  then have "uint n < 2147483648" using assms by linarith
  moreover have "- 2147483648 \<le> uint n" by (rule order_trans [OF _ unsigned_greater_eq]) simp
  ultimately have "signed_take_bit 31 (uint n) = uint n" by (intro signed_take_bit_int_eq_self) simp_all
  then show ?thesis by (simp add: sint_uint)
qed

lemma writeMQTTLenString_wf: "wf_str s \<Longrightarrow> writeMQTTLenString s = Inr (str_bytes s)"
  by (auto simp: wf_str_def writeMQTTLenString_def str_bytes_def)

lemma str_bytes_length: "wf_str s \<Longrightarrow> int (length (str_bytes s)) = 2 + ls_len s"
  by (auto simp: wf_str_def str_bytes_def)

lemma wf_value_cases:
  assumes "wf_value t v"
  obtains b where "t = TYPE_BYTE" "v = PByte b"
  | n where "t = TYPE_TWO_BYTE_INTEGER" "v = PInt2 n"
  | n where "t = TYPE_FOUR_BYTE_INTEGER" "v = PInt4 n" "unat n < 2147483648"
  | n where "t = TYPE_VARIABLE_BYTE_INTEGER" "v = PInt4 n" "unat n < 268435456"
  | d where "t \<in> {TYPE_BINARY_DATA, TYPE_UTF_8_ENCODED_STRING}" "v = PStr d None" "wf_str d"
  | d w where "t = TYPE_UTF_8_STRING_PAIR" "v = PStr d (Some w)" "wf_str d" "wf_str w"
  using assms by (cases "(t, v)" rule: wf_value.cases) auto

lemma wf_prop_cases:
  assumes "wf_prop p"
  obtains t where "MQTTProperty_getType (prop_id p) = Some t" "wf_value t (pvalue p)"
    "uint (word_of_int (prop_id p) :: byte) = prop_id p"
proof -
  from assms obtain t where t: "MQTTProperty_getType (prop_id p) = Some t" "wf_value t (pvalue p)"
    by (auto simp: wf_prop_def split: option.splits)
  with getType_range [OF t(1)] that show thesis by (simp add: uint_byte_of_int)
qed

lemma MQTTProperty_write_wf:
  assumes "wf_prop p"
  shows "MQTTProperty_write p = Inr (int (length (prop_bytes p)), prop_bytes p)"
  using assms
proof (cases rule: wf_prop_cases)
  case (1 t)
  from 1(2) show ?thesis
    by (cases rule: wf_value_cases)
      (use 1 in \<open>auto simp: MQTTProperty_write_def prop_bytes_def writeChar_def Let_def sint_small
        writeMQTTLenString_wf str_bytes_length\<close>)
qed

lemma datadup_wf:
  assumes "wf_str s" and "\<forall>n. alloc n"
  shows "datadup alloc s = Inr (ls_data s)"
proof -
  from assms(1) obtain d where "ls_data s = Some d" "ls_len s = int (length d)" "length d < 65536"
    by (auto simp: wf_str_def)
  with assms(2) show ?thesis
    by (simp add: datadup_def malloc_ok_def PTRDIFF_MAX_def)
qed

lemma VBIlen_word:
  assumes "unat (n :: u32) < 268435456"
  shows "MQTTPacket_VBIlen (sint n) = int (length (MQTTPacket_encode (unat n)))"
proof -
  have "sint n = int (unat n)" using sint_small [of n] assms by simp
  then show ?thesis using VBIlen_encode [of "int (unat n)"] assms by (simp only:) simp
qed

lemma add_value_wf:
  assumes "wf_value t v" and "\<forall>n. alloc n"
  shows "add_value alloc t v = Inr (v, int (length (value_bytes t v)))"
  using assms(1)
  by (cases rule: wf_value_cases)
    (auto simp: add_value_def VBIlen_word datadup_wf [OF _ assms(2)] str_bytes_length)

lemma read_string_wf:
  assumes "wf_str s" and "drop p buf = str_bytes s @ post" and "p + length (str_bytes s) \<le> enddata"
    and "\<forall>n. alloc n"
  shows "read_string alloc buf p enddata = Inr (s, int (length (str_bytes s)), p + length (str_bytes s))"
proof -
  from assms(1) obtain d where d: "ls_data s = Some d" "ls_len s = int (length d)" "length d < 65536"
    by (auto simp: wf_str_def)
  then have "MQTTLenStringRead buf p enddata =
      Inr (2 + int (length d), Some (int (length d)), Some d, p + 2 + length d)"
    using assms(2,3) by (intro MQTTLenStringRead_write) (auto simp: str_bytes_def)
  moreover have "s = \<lparr>ls_len = int (length d), ls_data = Some d\<rparr>" using d by (cases s) simp
  ultimately show ?thesis
    using datadup_wf [OF assms(1,4)] d(1) by (simp add: read_string_def str_bytes_def)
qed

lemma MQTTProperty_read_wf:
  assumes "wf_prop pr" and "drop p buf = prop_bytes pr @ post" and "p + length (prop_bytes pr) \<le> enddata"
    and "\<forall>n. alloc n"
  shows "MQTTProperty_read alloc buf p enddata =
    Inr (pr, int (length (prop_bytes pr)), p + length (prop_bytes pr))"
  using assms(1)
proof (cases rule: wf_prop_cases)
  case (1 t)
  have id: "readChar buf p = Inr (word_of_int (prop_id pr), p + 1)"
    using drop_nth_append [OF assms(2), of 0] by (simp add: readChar_def prop_bytes_def)
  have v: "drop (Suc p) buf = value_bytes t (pvalue pr) @ post"
    using drop_take_append [of p buf "[word_of_int (prop_id pr)]"] assms(2) 1 by (simp add: prop_bytes_def)
  have e: "Suc p + length (value_bytes t (pvalue pr)) \<le> enddata"
    using assms(3) 1 by (simp add: prop_bytes_def)
  have r: "\<lparr>prop_id = prop_id pr, pvalue = pvalue pr\<rparr> = pr" by (cases pr) simp
  note go = MQTTProperty_read_def id 1(1,3) prop_bytes_def Let_def
  from 1(2) show ?thesis
  proof (cases rule: wf_value_cases)
    case (1 b)
    with drop_nth_append [OF v, of 0] have "readChar buf (Suc p) = Inr (b, Suc p + 1)"
      by (simp add: readChar_def)
    with 1 r show ?thesis by (simp add: go)
  next
    case (2 n)
    have "readInt buf (Suc p) = Inr (uint n, Suc p + 2)"
      using int2.dec_enc [of "uint n" "Suc p" buf post] v 2 unsigned_less [of n]
      by (simp add: int2_valid_def)
    with 2 r show ?thesis by (simp add: go)
  next
    case (3 n)
    have "uint n = int (unat n)" by simp
    with 3(3) have "uint n < 2147483648" by linarith
    then have "int4_valid (uint n)" by (simp add: int4_valid_def)
    with int4.dec_enc [of "uint n" "Suc p" buf post] v 3
    have "readInt4 buf (Suc p) = Inr (uint n, Suc p + 4)" by simp
    with 3 r show ?thesis by (simp add: go)
  next
    case (4 n)
    with decodeBuf_encode [of "unat n" "Suc p" buf post] v r show ?thesis by (simp add: go)
  next
    case (5 d)
    with v e have "read_string alloc buf (Suc p) enddata =
        Inr (d, int (length (str_bytes d)), Suc p + length (str_bytes d))"
      by (intro read_string_wf [OF _ _ _ assms(4)]) auto
    with 5 r show ?thesis by (auto simp: go)
  next
    case (6 d w)
    with v have vd: "drop (Suc p) buf = str_bytes d @ str_bytes w @ post" by simp
    have "read_string alloc buf (Suc p) enddata =
        Inr (d, int (length (str_bytes d)), Suc p + length (str_bytes d))"
      using 6 e by (intro read_string_wf [OF _ vd _ assms(4)]) auto
    moreover have "read_string alloc buf (Suc p + length (str_bytes d)) enddata =
        Inr (w, int (length (str_bytes w)), Suc p + length (str_bytes d) + length (str_bytes w))"
      using 6 e by (intro read_string_wf [OF _ drop_take_append [OF vd] _ assms(4)]) auto
    ultimately show ?thesis using 6 r by (simp add: go)
  qed
qed

section \<open>Property lists\<close>

text \<open>
  The representation relation: the list of properties a structure holds. The array has
  \<^verbatim>\<open>max_count\<close> slots and starts with them; \<^verbatim>\<open>length\<close> is the number of bytes they take on the wire.
\<close>

definition slots :: "MQTTProperties \<Rightarrow> MQTTProperty list \<Rightarrow> bool" where
  "slots props ps \<longleftrightarrow> pcount props = int (length ps) \<and>
     (case parray props of
        None \<Rightarrow> ps = [] \<and> max_count props = 0
      | Some xs \<Rightarrow> int (length xs) = max_count props \<and> length ps \<le> length xs \<and>
          take (length ps) xs = map Some ps)"

definition holds :: "MQTTProperties \<Rightarrow> MQTTProperty list \<Rightarrow> bool" where
  "holds props ps \<longleftrightarrow> slots props ps \<and> (\<forall>p \<in> set ps. wf_prop p) \<and>
     plength props = int (length (props_bytes ps))"

lemma holds_initializer: "holds MQTTProperties_initializer []"
  by (simp add: holds_def slots_def MQTTProperties_initializer_def)

lemma take_update_snoc:
  assumes "take (length ps) xs = map Some ps" and "length ps < length xs"
  shows "take (Suc (length ps)) (xs[length ps := Some p]) = map Some (ps @ [p])"
  using assms by (simp add: take_Suc_conv_app_nth)

text \<open>Both ways of growing the array leave room for one more property.\<close>

lemma resize_facts:
  assumes "take n xs = ys" and "n \<le> length xs" and "length xs \<le> m"
  shows "take n (resize m xs) = ys" and "length (resize m xs) = m"
  using assms by (simp_all add: resize_def)

definition grown :: "MQTTProperty option list \<Rightarrow> MQTTProperties \<Rightarrow> MQTTProperties" where
  "grown xs props = props\<lparr>max_count := int (length xs), parray := Some xs\<rparr>"

lemma grow_cases:
  assumes "slots props ps" and "\<forall>n. alloc n" and "length ps < 1000000000"
    and g: "g \<in> {add_grow alloc, read_grow alloc}"
  obtains (same) xs where "g props = props" "parray props = Some xs" "length ps < length xs"
  | (new) "g props = grown (replicate 10 None) props" "ps = []"
  | (more) xs where "g props = grown (resize (length ps + 10) xs) props" "parray props = Some xs"
      "length xs = length ps"
proof (cases "parray props")
  case None
  have "malloc_ok alloc (sizeof_MQTTProperty * 10)"
    using assms(2) by (simp add: malloc_ok_def PTRDIFF_MAX_def sizeof_MQTTProperty_def)
  with None assms(1) g have "g props = grown (replicate 10 None) props" "ps = []"
    by (auto simp: slots_def add_grow_def read_grow_def grown_def)
  then show thesis by (rule new)
next
  case (Some ys)
  then have ys: "int (length ys) = max_count props" "length ps \<le> length ys" "pcount props = int (length ps)"
    using assms(1) by (simp_all add: slots_def)
  show thesis
  proof (cases "length ps < length ys")
    case True
    with ys g Some have "g props = props" by (auto simp: add_grow_def read_grow_def)
    with Some True show thesis by (intro same)
  next
    case False
    with ys have len: "length ys = length ps" and m: "max_count props = int (length ps)" by simp_all
    have n: "nat (int (length ps) + 10) = length ps + 10" by simp
    from assms(2,3) have "malloc_ok alloc (sizeof_MQTTProperty * (int (length ps) + 10))"
      by (simp add: malloc_ok_def PTRDIFF_MAX_def sizeof_MQTTProperty_def)
    moreover have "length (resize (length ps + 10) ys) = length ps + 10"
      by (simp add: resize_def len)
    moreover have "ps = [] \<Longrightarrow> resize (length ps + 10) ys = replicate 10 None"
      using len by (simp add: resize_def)
    ultimately have "g props = grown (resize (length ps + 10) ys) props"
      using g Some ys(3) m n
      by (auto simp: add_grow_def read_grow_def grown_def Let_def simp del: add_2_eq_Suc')
    with Some len show thesis by (intro more)
  qed
qed

lemma slots_grown:
  assumes "slots props ps" and "length ps \<le> length xs" and "take (length ps) xs = map Some ps"
  shows "slots (grown xs props) ps"
  using assms by (simp add: slots_def grown_def)

lemma grow_slots:
  assumes "slots props ps" and "\<forall>n. alloc n" and "length ps < 1000000000"
    and "g \<in> {add_grow alloc, read_grow alloc}"
  obtains xs where "parray (g props) = Some xs" "slots (g props) ps" "length ps < length xs"
    "plength (g props) = plength props" "pcount (g props) = pcount props"
  using assms
proof (cases rule: grow_cases)
  case (same xs)
  with assms(1) show thesis by (intro that) simp_all
next
  case new
  with slots_grown [OF assms(1), of "replicate 10 None"] show thesis
    by (intro that [of "replicate 10 None"]) (simp_all add: grown_def)
next
  case (more xs)
  have len: "length (resize (length ps + 10) xs) = length ps + 10"
    using more(3) by (simp add: resize_def)
  from assms(1) more(2) have "take (length ps) xs = map Some ps" by (simp add: slots_def)
  then have "take (length ps) (resize (length ps + 10) xs) = map Some ps"
    using more(3) by (simp add: resize_def)
  then have "slots (g props) ps"
    using slots_grown [OF assms(1), of "resize (length ps + 10) xs"] len more(1) by simp
  moreover have "length ps < length (resize (length ps + 10) xs)" unfolding len by simp
  ultimately show thesis using more(1) by (intro that) (simp_all add: grown_def)
qed

lemma prop_at_slots: "slots props ps \<Longrightarrow> i < length ps \<Longrightarrow> prop_at props i = Inr (ps ! i)"
proof -
  assume s: "slots props ps" "i < length ps"
  then obtain xs where xs: "parray props = Some xs" "take (length ps) xs = map Some ps" "i < length xs"
    by (auto simp: slots_def split: option.splits)
  with s(2) have "xs ! i = Some (ps ! i)" by (metis nth_map nth_take)
  with xs show ?thesis by (simp add: prop_at_def)
qed

lemma indices_slots: "slots props ps \<Longrightarrow> indices props = [0 ..< length ps]"
  by (simp add: indices_def slots_def)

lemma length_concat_ge: "(\<And>x. x \<in> set xs \<Longrightarrow> f x \<noteq> []) \<Longrightarrow> length xs \<le> length (concat (map f xs))"
proof (induction xs)
  case (Cons x xs)
  then have "0 < length (f x)" "length xs \<le> length (concat (map f xs))" by auto
  then show ?case by (simp del: length_greater_0_conv)
qed simp

lemma MQTTProperties_add_holds:
  assumes "holds props ps" and "wf_prop p" and "\<forall>n. alloc n"
    and "length (props_bytes (ps @ [p])) < 1000000000"
  shows "\<exists>props'. MQTTProperties_add alloc props p = Inr (0, props') \<and> holds props' (ps @ [p])"
proof -
  have small: "length ps < 1000000000"
    using assms(4) length_concat_ge [of ps prop_bytes] by (simp add: prop_bytes_def)
  from assms(1) have s: "slots props ps" by (simp add: holds_def)
  obtain xs where g: "parray (add_grow alloc props) = Some xs" "slots (add_grow alloc props) ps"
    "length ps < length xs" "plength (add_grow alloc props) = plength props" "pcount (add_grow alloc props) = pcount props"
    using grow_slots [OF s assms(3) small, of "add_grow alloc"] by blast
  from assms(2) obtain t where t: "MQTTProperty_getType (prop_id p) = Some t" "wf_value t (pvalue p)"
    by (cases rule: wf_prop_cases)
  have len: "length (prop_bytes p) = Suc (length (value_bytes t (pvalue p)))"
    using t by (simp add: prop_bytes_def)
  have "in_int (plength props + int (length (value_bytes t (pvalue p))) + 1)"
    using assms(1,4) len by (simp add: holds_def int_range_defs)
  with t g s add_value_wf [OF t(2) assms(3)] take_update_snoc [of ps xs p] assms(1,2) len show ?thesis
    by (auto simp: MQTTProperties_add_def Let_def holds_def slots_def)
qed

lemma write_props_holds:
  assumes "slots props ps" and "\<forall>p \<in> set ps. wf_prop p" and "i \<le> length ps"
  shows "write_props props [i ..< length ps] len out =
    Inr (len + int (length (props_bytes (drop i ps))), out @ props_bytes (drop i ps))"
  using assms(3)
proof (induction "length ps - i" arbitrary: i len out)
  case 0
  then show ?case by simp
next
  case (Suc n)
  then have i: "i < length ps" by simp
  then have d: "drop i ps = ps ! i # drop (Suc i) ps" and u: "[i ..< length ps] = i # [Suc i ..< length ps]"
    by (simp_all add: Cons_nth_drop_Suc upt_conv_Cons)
  from i assms(2) have "wf_prop (ps ! i)" by simp
  with Suc.hyps(1) [of "Suc i"] Suc.hyps(2) i prop_at_slots [OF assms(1) i] show ?case
    by (simp add: u d MQTTProperty_write_wf)
qed

lemma size_t_nonneg: "0 \<le> n \<Longrightarrow> n < 2 ^ 63 \<Longrightarrow> size_t n = nat n"
  by (simp add: size_t_def)

lemma MQTTProperties_write_holds:
  assumes "holds props ps" and "length (props_bytes ps) < 268435456"
  shows "MQTTProperties_write (Some props) = Inr (1 + int (length (props_bytes ps)),
    MQTTPacket_encode (length (props_bytes ps)) @ props_bytes ps)"
proof -
  from assms(1) have s: "slots props ps" "\<forall>p \<in> set ps. wf_prop p" by (simp_all add: holds_def)
  from assms show ?thesis
    using write_props_holds [OF s, of 0 1]
    by (simp add: MQTTProperties_write_def holds_def indices_slots [OF s(1)] size_t_nonneg)
qed

lemma word_of_nat_small_nonzero: "n < 1000000000 \<Longrightarrow> 0 < n \<Longrightarrow> (word_of_nat n :: u32) \<noteq> 0"
  by (simp add: word_of_nat_eq_0_iff nat_dvd_not_less)

lemma read_props_holds:
  assumes "slots props qs" and "\<forall>p \<in> set ps. wf_prop p" and "\<forall>n. alloc n"
    and "length qs + length (props_bytes ps) < 1000000000"
    and "drop p buf = props_bytes ps @ post" and "p + length (props_bytes ps) \<le> enddata"
  shows "\<exists>props'. read_props alloc buf enddata (word_of_nat (length (props_bytes ps))) p props =
      Inr (None, props', p + length (props_bytes ps)) \<and> slots props' (qs @ ps) \<and> plength props' = plength props"
  using assms
proof (induction ps arbitrary: props qs p)
  case Nil
  then show ?case by (subst read_props.simps) simp
next
  case (Cons pr ps)
  let ?n = "length (prop_bytes pr)" and ?m = "length (props_bytes (pr # ps))"
  have pos: "0 < ?n" by (simp add: prop_bytes_def)
  have "?m < 1000000000" "0 < ?m" using Cons.prems(4) pos by auto
  then have nz: "(word_of_nat ?m :: u32) \<noteq> 0" by (rule word_of_nat_small_nonzero)
  have sub: "word_of_nat ?m - word_of_int (int ?n) = (word_of_nat (length (props_bytes ps)) :: u32)"
    by simp
  obtain xs where g: "parray (read_grow alloc props) = Some xs" "slots (read_grow alloc props) qs"
    "length qs < length xs" "plength (read_grow alloc props) = plength props"
    "pcount (read_grow alloc props) = pcount props"
    using grow_slots [OF Cons.prems(1,3), of "read_grow alloc"] Cons.prems(4) by auto
  let ?props = "(read_grow alloc props)\<lparr>parray := Some (xs[length qs := Some pr]), pcount := pcount props + 1\<rparr>"
  have c: "pcount props = int (length qs)" using Cons.prems(1) by (simp add: slots_def)
  have s: "slots ?props (qs @ [pr])"
    using g c take_update_snoc [of qs xs pr] by (auto simp: slots_def)
  have rd: "MQTTProperty_read alloc buf p enddata = Inr (pr, int ?n, p + ?n)"
    using Cons.prems by (intro MQTTProperty_read_wf [where post = "props_bytes ps @ post"]) auto
  have d: "drop (p + ?n) buf = props_bytes ps @ post"
    using drop_take_append [of p buf "prop_bytes pr"] Cons.prems(5) by simp
  have small: "length (qs @ [pr]) + length (props_bytes ps) < 1000000000"
    using Cons.prems(4) pos by (simp del: length_greater_0_conv)
  have "\<exists>props'. read_props alloc buf enddata (word_of_nat (length (props_bytes ps))) (p + ?n) ?props =
      Inr (None, props', p + ?n + length (props_bytes ps)) \<and> slots props' ((qs @ [pr]) @ ps) \<and>
      plength props' = plength ?props"
    using Cons.prems by (intro Cons.IH [OF s _ Cons.prems(3) small d]) auto
  then show ?case
    using nz g c rd sub by (subst read_props.simps) (auto simp: Let_def add.assoc)
qed

lemma MQTTProperties_read_holds:
  assumes "\<forall>p \<in> set ps. wf_prop p" and "\<forall>n. alloc n" and "length (props_bytes ps) < 268435456"
    and "drop p buf = MQTTPacket_encode (length (props_bytes ps)) @ props_bytes ps @ post"
    and "p + length (MQTTPacket_encode (length (props_bytes ps))) + length (props_bytes ps) \<le> enddata"
  shows "\<exists>props. MQTTProperties_read alloc MQTTProperties_initializer buf p enddata =
      Inr (1, props, p + length (MQTTPacket_encode (length (props_bytes ps))) + length (props_bytes ps)) \<and>
      holds props ps"
proof -
  let ?n = "length (props_bytes ps)" and ?l = "length (MQTTPacket_encode (length (props_bytes ps)))"
  have dec: "MQTTPacket_decodeBuf buf p = Inr (?l, word_of_nat ?n)"
    using decodeBuf_encode [OF assms(3,4)] .
  have "unat (word_of_nat ?n :: u32) = ?n" using assms(3) by (simp add: unat_of_nat)
  moreover from this have "sint (word_of_nat ?n :: u32) = uint (word_of_nat ?n :: u32)"
    using assms(3) by (intro sint_small) (simp del: of_nat_unat)
  moreover have "uint (word_of_nat ?n :: u32) = int (unat (word_of_nat ?n :: u32))" by simp
  ultimately have len: "sint (word_of_nat ?n :: u32) = int ?n" by (simp only:)
  let ?props = "MQTTProperties_initializer\<lparr>plength := int ?n\<rparr>"
  have "slots ?props []" by (simp add: slots_def MQTTProperties_initializer_def)
  from read_props_holds [OF this assms(1,2) _ drop_take_append [OF assms(4)], of enddata]
  obtain props where "read_props alloc buf enddata (word_of_nat ?n) (p + ?l) ?props =
      Inr (None, props, p + ?l + ?n)" "slots props ps" "plength props = int ?n"
    using assms(3,5) by auto
  moreover have "p < enddata" using assms(5) by (cases "MQTTPacket_encode ?n") auto
  ultimately show ?thesis
    using assms(1) by (simp add: MQTTProperties_read_def dec len holds_def)
qed

lemma copy_props_holds:
  assumes "slots props ps" and "\<forall>p \<in> set ps. wf_prop p" and "\<forall>n. alloc n"
    and "length (props_bytes ps) < 1000000000" and "i \<le> length ps" and "holds result (take i ps)"
  shows "\<exists>result'. copy_props alloc props [i ..< length ps] result = Inr result' \<and> holds result' ps"
  using assms(5,6)
proof (induction "length ps - i" arbitrary: i result)
  case 0
  then show ?case by simp
next
  case (Suc n)
  then have i: "i < length ps" by simp
  then have u: "[i ..< length ps] = i # [Suc i ..< length ps]" by (simp add: upt_conv_Cons)
  have t: "take (Suc i) ps = take i ps @ [ps ! i]" using i by (simp add: take_Suc_conv_app_nth)
  have "ps = take (Suc i) ps @ drop (Suc i) ps" by simp
  then have "props_bytes ps = props_bytes (take (Suc i) ps) @ props_bytes (drop (Suc i) ps)"
    by (metis concat_append map_append)
  then have small: "length (props_bytes (take i ps @ [ps ! i])) < 1000000000"
    using assms(4) by (simp add: t)
  obtain result' where "MQTTProperties_add alloc result (ps ! i) = Inr (0, result')"
    "holds result' (take (Suc i) ps)"
    using MQTTProperties_add_holds [OF Suc.prems(2) _ assms(3) small] assms(2) i t by auto
  with Suc.hyps(1) [of "Suc i" result'] Suc.hyps(2) i prop_at_slots [OF assms(1) i] show ?case
    by (simp add: u)
qed

lemma has_loop_spec:
  assumes "slots props ps" and "\<forall>i \<in> set js. i < length ps"
  shows "has_loop props propid js = Inr (if \<exists>i \<in> set js. prop_id (ps ! i) = propid then 1 else 0)"
  using assms(2) by (induction js) (auto simp: prop_at_slots [OF assms(1)])

lemma count_loop_spec:
  assumes "slots props ps" and "\<forall>i \<in> set js. i < length ps"
  shows "count_loop props propid js n = Inr (n + int (length (filter (\<lambda>i. prop_id (ps ! i) = propid) js)))"
  using assms(2) by (induction js arbitrary: n) (auto simp: prop_at_slots [OF assms(1)])

lemma numeric_loop_spec:
  assumes "slots props ps" and "\<forall>i \<in> set js. i < length ps" and "c \<le> ix"
  shows "numeric_loop props propid ix js c =
    (let m = filter (\<lambda>i. prop_id (ps ! i) = propid) js; k = nat (ix - c) in
     if k < length m then numeric_value (ps ! (m ! k)) else Inr (-9999999))"
  using assms(2,3)
proof (induction js arbitrary: c)
  case (Cons i js)
  show ?case
  proof (cases "prop_id (ps ! i) = propid \<and> c < ix")
    case True
    then have "nat (ix - c) = Suc (nat (ix - (c + 1)))"
      using Suc_nat_eq_nat_zadd1 [of "ix - (c + 1)"] by simp
    with True Cons.IH [of "c + 1"] Cons.prems show ?thesis
      by (simp add: prop_at_slots [OF assms(1)] Let_def)
  next
    case False
    with Cons.IH [of c] Cons.prems show ?thesis
      by (auto simp: prop_at_slots [OF assms(1)] Let_def)
  qed
qed simp

lemma property_loop_spec:
  assumes "slots props ps" and "\<forall>i \<in> set js. i < length ps" and "c \<le> ix"
  shows "property_loop props propid ix js c =
    (let m = filter (\<lambda>i. prop_id (ps ! i) = propid) js; k = nat (ix - c) in
     Inr (if k < length m then Some (m ! k) else None))"
  using assms(2,3)
proof (induction js arbitrary: c)
  case (Cons i js)
  show ?case
  proof (cases "prop_id (ps ! i) = propid \<and> c \<noteq> ix")
    case True
    with Cons.prems(2) have "nat (ix - c) = Suc (nat (ix - (c + 1)))"
      using Suc_nat_eq_nat_zadd1 [of "ix - (c + 1)"] by simp
    with True Cons.IH [of "c + 1"] Cons.prems show ?thesis
      by (simp add: prop_at_slots [OF assms(1)] Let_def)
  next
    case False
    with Cons.IH [of c] Cons.prems show ?thesis
      by (auto simp: prop_at_slots [OF assms(1)] Let_def)
  qed
qed simp

text \<open>Properties are self-delimiting: the codec contract for a single property.\<close>

definition prop_read :: "byte list \<Rightarrow> nat \<Rightarrow> (MQTTProperty \<times> nat) res" where
  "prop_read buf p = bindR (MQTTProperty_read (\<lambda>_. True) buf p (length buf)) (\<lambda>(pr, n, p'). Inr (pr, p'))"

interpretation wire: byte_codec wf_prop prop_bytes prop_read
proof
  fix x p buf post
  assume "wf_prop x" and d: "drop p buf = prop_bytes x @ post"
  moreover have "p + length (prop_bytes x) \<le> length buf"
    using drop_append_length [OF d] by (simp add: prop_bytes_def)
  ultimately show "prop_read buf p = Inr (x, p + length (prop_bytes x))"
    using MQTTProperty_read_wf [of x p buf post "length buf" "\<lambda>_. True"] by (simp add: prop_read_def)
qed

section \<open>Theorems\<close>

text \<open>
  adding a property. If the structure holds the well-formed properties \<open>ps\<close> and memory is
  available, adding a well-formed property succeeds and the structure holds \<open>ps\<close> followed by it:
  the array has room, and \<^verbatim>\<open>length\<close> is again the number of bytes on the wire.
\<close>
theorem MQTTProperties_add_keeps:
  assumes "holds props ps" and "wf_prop p" and "\<forall>n. alloc n"
    and "length (props_bytes (ps @ [p])) < 1000000000"
  shows "\<exists>props'. MQTTProperties_add alloc props p = Inr (0, props') \<and> holds props' (ps @ [p])"
  using assms by (rule MQTTProperties_add_holds)

definition sample_str :: MQTTLenString where
  "sample_str = \<lparr>ls_len = 2, ls_data = Some [104, 105]\<rparr>"

definition sample_props :: "MQTTProperty list" where
  "sample_props = [\<lparr>prop_id = 1, pvalue = PByte 1\<rparr>, \<lparr>prop_id = 38, pvalue = PStr sample_str (Some sample_str)\<rparr>,
     \<lparr>prop_id = 17, pvalue = PInt4 300\<rparr>, \<lparr>prop_id = 38, pvalue = PStr sample_str (Some sample_str)\<rparr>]"

lemma sample_wf: "\<forall>p \<in> set sample_props. wf_prop p"
  by (simp add: sample_props_def wf_prop_def MQTTProperty_getType_def namesToTypes_def wf_str_def sample_str_def)

lemma sample_bytes: "props_bytes sample_props =
  [1, 1, 38, 0, 2, 104, 105, 0, 2, 104, 105, 17, 0, 0, 1, 44, 38, 0, 2, 104, 105, 0, 2, 104, 105]"
  by code_simp

definition sample_struct :: MQTTProperties where
  "sample_struct = \<lparr>pcount = 4, max_count = 10, plength = 25,
     parray = Some (map Some sample_props @ replicate 6 None)\<rparr>"

lemma sample_holds: "holds sample_struct sample_props"
  unfolding holds_def sample_bytes
  by (simp add: sample_wf) (simp add: slots_def sample_struct_def sample_props_def)

text \<open>
  the length announced is the length written. For well-formed properties of less than
  \<open>2 ^ 28\<close> bytes, \<open>MQTTProperties_write\<close> writes exactly \<open>MQTTProperties_len\<close> bytes, so the buffers
  that the packet writers size with the latter are filled exactly. Its return value is one more
  than the length of the properties, which is the number of bytes written only up to 127.
\<close>
theorem MQTTProperties_write_length:
  assumes "holds props ps" and "length (props_bytes ps) < 268435456"
  shows "\<exists>rc bs. MQTTProperties_write (Some props) = Inr (rc, bs) \<and>
    int (length bs) = MQTTProperties_len (Some props) \<and> rc = 1 + plength props \<and>
    (rc = int (length bs) \<longleftrightarrow> plength props < 128)"
proof -
  let ?n = "length (props_bytes ps)"
  have n: "plength props = int ?n" using assms(1) by (simp add: holds_def)
  have "MQTTPacket_VBIlen (int ?n) = int (length (MQTTPacket_encode ?n))"
    using VBIlen_encode [of "int ?n"] assms(2) by simp
  moreover have "int (length (MQTTPacket_encode ?n)) = 1 \<longleftrightarrow> ?n < 128"
    using calculation by (auto simp: MQTTPacket_VBIlen_def split: if_splits)
  ultimately show ?thesis
    using MQTTProperties_write_holds [OF assms] n by (auto simp: MQTTProperties_len_def)
qed

text \<open>
  C7: properties survive the network. What \<open>MQTTProperties_write\<close> wrote for well-formed properties
  of less than \<open>2 ^ 28\<close> bytes is read back by \<open>MQTTProperties_read\<close>, anywhere in a packet, into an
  initialised structure: it returns 1, stops right behind, and the structure holds the same
  properties.
\<close>
theorem MQTTProperties_roundtrip:
  assumes "holds props ps" and "length (props_bytes ps) < 268435456" and "\<forall>n. alloc n"
    and "MQTTProperties_write (Some props) = Inr (rc, bs)" and "length pre + length bs \<le> enddata"
  shows "\<exists>props'. MQTTProperties_read alloc MQTTProperties_initializer (pre @ bs @ post) (length pre) enddata =
      Inr (1, props', length pre + length bs) \<and> holds props' ps"
proof -
  have bs: "bs = MQTTPacket_encode (length (props_bytes ps)) @ props_bytes ps"
    using MQTTProperties_write_holds [OF assms(1,2)] assms(4) by simp
  have "\<forall>p \<in> set ps. wf_prop p" using assms(1) by (simp add: holds_def)
  from MQTTProperties_read_holds [OF this assms(3,2), of "length pre" "pre @ bs @ post" post enddata]
  show ?thesis using assms(5) by (simp add: bs add.assoc)
qed

theorem MQTTProperties_roundtrip_witness:
  "\<exists>rc bs props'. MQTTProperties_write (Some sample_struct) = Inr (rc, bs) \<and>
     MQTTProperties_read (\<lambda>_. True) MQTTProperties_initializer ([7] @ bs @ [8]) 1 27 = Inr (1, props', 27) \<and>
     holds props' sample_props"
proof -
  have small: "length (props_bytes sample_props) < 268435456" by (simp only: sample_bytes) simp
  have w: "MQTTProperties_write (Some sample_struct) = Inr (26, 25 # props_bytes sample_props)"
    using MQTTProperties_write_holds [OF sample_holds small] by (simp add: sample_bytes encode_small)
  have len: "length [7 :: byte] + length (25 # props_bytes sample_props) = 27" by (simp only: sample_bytes) simp
  have mem: "\<forall>n :: int. (\<lambda>_. True) n" by simp
  from MQTTProperties_roundtrip [OF sample_holds small mem w, of "[7]" 27 "[8]"] len w
  show ?thesis by auto
qed

text \<open>
  different property lists are written differently. If two structures are written to the same
  bytes, they hold the same properties in the same order.
\<close>
theorem MQTTProperties_write_injective:
  assumes "holds props ps" and "holds props' qs"
    and "length (props_bytes ps) < 268435456" and "length (props_bytes qs) < 268435456"
    and "MQTTProperties_write (Some props) = MQTTProperties_write (Some props')"
  shows "ps = qs"
proof (rule wire.enc_list_unique)
  show "\<forall>p \<in> set ps. wf_prop p" "\<forall>p \<in> set qs. wf_prop p" using assms(1,2) by (simp_all add: holds_def)
  show "\<forall>x. prop_bytes x \<noteq> []" by (simp add: prop_bytes_def)
  have "vbi_valid (length (props_bytes ps))" "vbi_valid (length (props_bytes qs))"
    using assms(3,4) by (simp_all add: vbi_valid_def)
  from vbi.enc_unique [OF this]
  show "props_bytes ps = props_bytes qs"
    using assms(5) MQTTProperties_write_holds [OF assms(1,3)] MQTTProperties_write_holds [OF assms(2,4)]
    by auto
qed

text \<open>
  a copy is equal. Copying a structure that holds well-formed properties gives, memory
  permitting, a structure that holds the same properties, with the same length.
\<close>
theorem MQTTProperties_copy_equal:
  assumes "holds props ps" and "\<forall>n. alloc n" and "length (props_bytes ps) < 1000000000"
  shows "\<exists>props'. MQTTProperties_copy alloc props = Inr props' \<and> holds props' ps \<and> plength props' = plength props"
proof -
  from assms(1) have s: "slots props ps" "\<forall>p \<in> set ps. wf_prop p" by (simp_all add: holds_def)
  from copy_props_holds [OF s assms(2,3), of 0 MQTTProperties_initializer] holds_initializer
  obtain props' where c: "copy_props alloc props [0 ..< length ps] MQTTProperties_initializer = Inr props'"
    "holds props' ps" by auto
  then have "plength props' = plength props" using assms(1) by (simp add: holds_def)
  with c show ?thesis by (simp add: MQTTProperties_copy_def indices_slots [OF s(1)])
qed

text \<open>
  look-up by identifier and index, for any structure that holds \<open>ps\<close>. With \<open>ms\<close> the
  properties of the identifier in order, the count is their number, and for an index below it the
  numeric value and the property are those of \<open>ms ! index\<close>; beyond it -9999999 and null.
\<close>
theorem MQTTProperties_lookup:
  assumes "holds props ps" and "ms = filter (\<lambda>i. prop_id (ps ! i) = propid) [0 ..< length ps]"
  shows "MQTTProperties_hasProperty props propid = Inr (if ms = [] then 0 else 1) \<and>
    MQTTProperties_propertyCount props propid = Inr (int (length ms)) \<and>
    MQTTProperties_getPropertyAt props propid (int k) = Inr (if k < length ms then Some (ms ! k) else None) \<and>
    MQTTProperties_getNumericValueAt props propid (int k) =
      (if k < length ms then numeric_value (ps ! (ms ! k)) else Inr (-9999999))"
proof -
  from assms(1) have s: "slots props ps" by (simp add: holds_def)
  have "\<forall>i \<in> set [0 ..< length ps]. i < length ps" by simp
  note all = has_loop_spec [OF s this] count_loop_spec [OF s this]
    property_loop_spec [OF s this, of 0 "int k"] numeric_loop_spec [OF s this, of 0 "int k"]
  have "(\<exists>i \<in> set [0 ..< length ps]. prop_id (ps ! i) = propid) \<longleftrightarrow> ms \<noteq> []"
    by (auto simp: assms(2) filter_empty_conv)
  then show ?thesis
    unfolding MQTTProperties_hasProperty_def MQTTProperties_propertyCount_def indices_slots [OF s]
      MQTTProperties_getPropertyAt_def MQTTProperties_getNumericValueAt_def
    by (simp add: all Let_def assms(2) [symmetric])
qed

text \<open>
  what the reader does not check. The end of data is only compared for strings: a byte
  property at the very end of the data is read from behind it, with success. If the array cannot
  be grown, the list is left with a positive count and no array, so freeing it dereferences a null
  pointer.
\<close>
theorem MQTTProperties_unchecked:
  "(\<exists>props. MQTTProperties_read (\<lambda>_. True) MQTTProperties_initializer [2, 1, 7] 0 2 = Inr (1, props, 3)) \<and>
   (\<forall>props p. holds props (replicate 10 p) \<and> max_count props = 10 \<longrightarrow>
      (\<exists>props'. MQTTProperties_add (\<lambda>_. False) props p = Inr (PAHO_MEMORY_ERROR, props') \<and>
        MQTTProperties_free props' = Inl NullDeref))"
proof (intro conjI allI impI)
  have "MQTTPacket_decodeBuf [2, 1, 7] 0 = Inr (1, 2)" by code_simp
  moreover have "MQTTProperty_read (\<lambda>_. True) [2, 1, 7] 1 2 = Inr (\<lparr>prop_id = 1, pvalue = PByte 7\<rparr>, 2, 3)"
    by code_simp
  ultimately show "\<exists>props. MQTTProperties_read (\<lambda>_. True) MQTTProperties_initializer [2, 1, 7] 0 2 = Inr (1, props, 3)"
    by (simp add: MQTTProperties_read_def read_props.simps [of _ _ _ 2] read_props.simps [of _ _ _ 0]
        read_grow_def MQTTProperties_initializer_def malloc_ok_def sizeof_MQTTProperty_def PTRDIFF_MAX_def)
next
  fix props p
  assume h: "holds props (replicate 10 p) \<and> max_count props = 10"
  then obtain xs where xs: "parray props = Some xs" "pcount props = 10"
    by (auto simp: holds_def slots_def split: option.splits)
  from h obtain t where "MQTTProperty_getType (prop_id p) = Some t"
    by (auto simp: holds_def elim: wf_prop_cases)
  moreover have "[0 ..< 10] = 0 # [1 ..< 10]" by code_simp
  ultimately show "\<exists>props'. MQTTProperties_add (\<lambda>_. False) props p = Inr (PAHO_MEMORY_ERROR, props') \<and>
      MQTTProperties_free props' = Inl NullDeref"
    using xs h by (simp add: MQTTProperties_add_def add_grow_def malloc_ok_def Let_def
        MQTTProperties_free_def indices_def prop_at_def)
qed

end
