(* ===== verification/Packet_In.thy ===== *)
theory Packet_In
  imports Mqtt_Properties
begin

text \<open>
  Incoming packets: the packet constructors of \<^verbatim>\<open>MQTTPacket.c\<close> and \<^verbatim>\<open>MQTTPacketOut.c\<close> and
  \<^verbatim>\<open>MQTTPacket_Factory\<close>, which reads one packet from the transport and dispatches on its type.

  A constructor returns \<open>None\<close> for a null pointer. \<open>data\<close> is the buffer of the rest of the packet,
  \<open>datalen\<close> the length that the code is told; structures come from \<^verbatim>\<open>malloc\<close>, so a field that is
  not assigned is \<open>None\<close>. The transport (\<^verbatim>\<open>WebSocket_getch\<close>, \<^verbatim>\<open>WebSocket_getdata\<close>) and the result of
  the persistence layer are arguments of the factory.

  Shown: what the factory accepts; which faults short packets cause.
\<close>

section \<open>The header byte\<close>

definition hdr_type :: "byte \<Rightarrow> nat" where "hdr_type b = unat b div 16"
definition hdr_dup :: "byte \<Rightarrow> nat" where "hdr_dup b = unat b div 8 mod 2"
definition hdr_qos :: "byte \<Rightarrow> nat" where "hdr_qos b = unat b div 2 mod 4"
definition hdr_retain :: "byte \<Rightarrow> nat" where "hdr_retain b = unat b mod 2"

text \<open>Assigning the bit-fields of \<^verbatim>\<open>Header\<close> truncates each value to its width.\<close>

definition mk_header :: "nat \<Rightarrow> int \<Rightarrow> int \<Rightarrow> int \<Rightarrow> byte" where
  "mk_header type dup qos retain =
     word_of_nat (type mod 16 * 16 + nat (dup mod 2) * 8 + nat (qos mod 4) * 2 + nat (retain mod 2))"

definition CONNECT :: nat where "CONNECT = 1"
definition CONNACK :: nat where "CONNACK = 2"
definition PUBLISH :: nat where "PUBLISH = 3"
definition PUBACK :: nat where "PUBACK = 4"
definition PUBREC :: nat where "PUBREC = 5"
definition PUBREL :: nat where "PUBREL = 6"
definition PUBCOMP :: nat where "PUBCOMP = 7"
definition SUBSCRIBE :: nat where "SUBSCRIBE = 8"
definition SUBACK :: nat where "SUBACK = 9"
definition UNSUBSCRIBE :: nat where "UNSUBSCRIBE = 10"
definition UNSUBACK :: nat where "UNSUBACK = 11"
definition PINGREQ :: nat where "PINGREQ = 12"
definition PINGRESP :: nat where "PINGRESP = 13"
definition DISCONNECT :: nat where "DISCONNECT = 14"
definition AUTH :: nat where "AUTH = 15"

lemmas packet_types = CONNECT_def CONNACK_def PUBLISH_def PUBACK_def PUBREC_def PUBREL_def PUBCOMP_def
  SUBSCRIBE_def SUBACK_def UNSUBSCRIBE_def UNSUBACK_def PINGREQ_def PINGRESP_def DISCONNECT_def AUTH_def

definition packet_names :: "string list" where
  "packet_names = [''RESERVED'', ''CONNECT'', ''CONNACK'', ''PUBLISH'', ''PUBACK'', ''PUBREC'', ''PUBREL'',
     ''PUBCOMP'', ''SUBSCRIBE'', ''SUBACK'', ''UNSUBSCRIBE'', ''UNSUBACK'', ''PINGREQ'', ''PINGRESP'',
     ''DISCONNECT'', ''AUTH'']"

definition MQTTPacket_name :: "int \<Rightarrow> string" where
  "MQTTPacket_name ptype = (if 0 \<le> ptype \<and> ptype \<le> int AUTH then packet_names ! nat ptype else ''UNKNOWN'')"

section \<open>Packets\<close>

record Publish =
  pub_header :: byte
  pub_topic :: "byte list"
  pub_topiclen :: int
  pub_msgId :: int
  pub_payload :: "byte list"
  pub_payloadlen :: int
  pub_version :: int
  pub_properties :: MQTTProperties

record Ack =
  ack_header :: byte
  ack_msgId :: "int option"
  ack_rc :: "byte option"
  ack_version :: int
  ack_properties :: "MQTTProperties option"

record Connack =
  ca_header :: byte
  ca_flags :: byte
  ca_rc :: byte
  ca_version :: int
  ca_properties :: "MQTTProperties option"

record Suback =
  sub_header :: byte
  sub_msgId :: int
  sub_version :: int
  sub_properties :: "MQTTProperties option"
  sub_qoss :: "byte list"

record Unsuback =
  uns_header :: byte
  uns_msgId :: int
  uns_version :: int
  uns_properties :: "MQTTProperties option"
  uns_reasonCodes :: "byte list option"

datatype packet =
    P_Connack Connack | P_Publish Publish | P_Ack Ack | P_Suback Suback | P_Unsuback Unsuback | P_Header byte

section \<open>Constructors\<close>

definition MQTTPacket_header_only :: "byte \<Rightarrow> packet option res" where
  "MQTTPacket_header_only aHeader = Inr (Some (P_Header aHeader))"

text \<open>
  \<^verbatim>\<open>MQTTPacket_publish\<close>. The structure is zeroed first; the payload is a pointer into the data.
\<close>

definition MQTTPacket_publish ::
  "(int \<Rightarrow> bool) \<Rightarrow> int \<Rightarrow> byte \<Rightarrow> byte list \<Rightarrow> nat \<Rightarrow> Publish option res" where
  "MQTTPacket_publish alloc version aHeader data datalen =
     (if \<not> malloc_ok alloc 72 then Inr None else
      bindR (readUTFlen alloc data 0 datalen) (\<lambda>(topic, topiclen, p).
        case topic of
          None \<Rightarrow> Inr None
        | Some t \<Rightarrow>
            bindR (if 0 < hdr_qos aHeader then readInt data p else Inr (0, p)) (\<lambda>(msgId, p).
            bindR (if 5 \<le> version
                   then MQTTProperties_read alloc MQTTProperties_initializer data p datalen
                   else Inr (1, MQTTProperties_initializer, p)) (\<lambda>(rc, props, p).
              if rc \<noteq> 1 then Inr None
              else Inr (Some \<lparr>pub_header = aHeader, pub_topic = t, pub_topiclen = topiclen,
                     pub_msgId = msgId, pub_payload = drop p data,
                     pub_payloadlen = int datalen - int p, pub_version = version,
                     pub_properties = props\<rparr>)))))"

text \<open>
  \<^verbatim>\<open>MQTTPacket_ack\<close>, also used for \<^verbatim>\<open>DISCONNECT\<close> and \<^verbatim>\<open>AUTH\<close>. The reason code is read if \<^verbatim>\<open>datalen\<close>
  exceeds 2, whether or not a message id was read before.
\<close>

definition MQTTPacket_ack ::
  "(int \<Rightarrow> bool) \<Rightarrow> int \<Rightarrow> byte \<Rightarrow> byte list \<Rightarrow> nat \<Rightarrow> Ack option res" where
  "MQTTPacket_ack alloc version aHeader data datalen =
     (if \<not> malloc_ok alloc 40 then Inr None else
      bindR (if hdr_type aHeader \<noteq> DISCONNECT
             then bindR (readInt data 0) (\<lambda>(n, p). Inr (Some n, p)) else Inr (None, 0)) (\<lambda>(msgId, p).
        let mk = (\<lambda>rc props. Inr (Some \<lparr>ack_header = aHeader, ack_msgId = msgId, ack_rc = rc,
                    ack_version = version, ack_properties = props\<rparr>)) in
        if 5 \<le> version then
          bindR (if 2 < datalen then readChar data p else Inr (0, p)) (\<lambda>(rc, p).
            if 3 < datalen then
              bindR (MQTTProperties_read alloc MQTTProperties_initializer data p datalen) (\<lambda>(r, props, p).
                if r \<noteq> 1 then Inr None else mk (Some rc) (Some props))
            else mk (Some rc) (Some MQTTProperties_initializer))
        else mk None None))"

definition MQTTPacket_connack ::
  "(int \<Rightarrow> bool) \<Rightarrow> int \<Rightarrow> byte \<Rightarrow> byte list \<Rightarrow> nat \<Rightarrow> Connack option res" where
  "MQTTPacket_connack alloc version aHeader data datalen =
     (if \<not> malloc_ok alloc 32 then Inr None else
      bindR (readChar data 0) (\<lambda>(flags, p). bindR (readChar data p) (\<lambda>(rc, p).
        let mk = (\<lambda>props. Inr (Some \<lparr>ca_header = aHeader, ca_flags = flags, ca_rc = rc,
                    ca_version = version, ca_properties = props\<rparr>)) in
        if version < 5 then if datalen \<noteq> 2 then Inr None else mk None
        else if 2 < datalen then
          bindR (MQTTProperties_read alloc MQTTProperties_initializer data p datalen) (\<lambda>(r, props, p).
            if r \<noteq> 1 then Inr None else mk (Some props))
        else mk None)))"

text \<open>
  The loop that collects one code per remaining byte; \<open>None\<close> if an allocation fails.
\<close>

fun read_codes :: "(int \<Rightarrow> bool) \<Rightarrow> byte list \<Rightarrow> nat \<Rightarrow> nat \<Rightarrow> byte list \<Rightarrow> byte list option res" where
  "read_codes alloc data 0 p acc = Inr (Some acc)"
| "read_codes alloc data (Suc n) p acc =
     (if malloc_ok alloc 4 then bindR (readChar data p) (\<lambda>(c, p'). read_codes alloc data n p' (acc @ [c]))
      else Inr None)"

text \<open>
  \<^verbatim>\<open>MQTTPacket_suback\<close>. On its error paths it inspects \<^verbatim>\<open>properties.array\<close>, which is not assigned
  before MQTT 5, and with no code at all it uses the structure after freeing it.
\<close>

definition MQTTPacket_suback ::
  "(int \<Rightarrow> bool) \<Rightarrow> int \<Rightarrow> byte \<Rightarrow> byte list \<Rightarrow> nat \<Rightarrow> Suback option res" where
  "MQTTPacket_suback alloc version aHeader data datalen =
     (if \<not> malloc_ok alloc 48 then Inr None else
      bindR (readInt data 0) (\<lambda>(msgId, p).
      bindR (if 5 \<le> version
             then bindR (MQTTProperties_read alloc MQTTProperties_initializer data p datalen)
                    (\<lambda>(r, props, p). Inr (r, Some props, p))
             else Inr (1, None, p)) (\<lambda>(r, props, p).
        if r \<noteq> 1 then Inr None else
        bindR (read_codes alloc data (datalen - p) p []) (\<lambda>codes.
          case codes of
            None \<Rightarrow> if props = None then Inl UninitRead else Inr None
          | Some [] \<Rightarrow> if props = None then Inl UninitRead else Inl UseAfterFree
          | Some cs \<Rightarrow> Inr (Some \<lparr>sub_header = aHeader, sub_msgId = msgId, sub_version = version,
                        sub_properties = props, sub_qoss = cs\<rparr>)))))"

definition MQTTPacket_unsuback ::
  "(int \<Rightarrow> bool) \<Rightarrow> int \<Rightarrow> byte \<Rightarrow> byte list \<Rightarrow> nat \<Rightarrow> Unsuback option res" where
  "MQTTPacket_unsuback alloc version aHeader data datalen =
     (if \<not> malloc_ok alloc 48 then Inr None else
      bindR (readInt data 0) (\<lambda>(msgId, p).
        let mk = (\<lambda>props codes. Inr (Some \<lparr>uns_header = aHeader, uns_msgId = msgId, uns_version = version,
                    uns_properties = props, uns_reasonCodes = codes\<rparr>)) in
        if 5 \<le> version then
          bindR (MQTTProperties_read alloc MQTTProperties_initializer data p datalen) (\<lambda>(r, props, p).
            if r \<noteq> 1 then Inr None else
            bindR (read_codes alloc data (datalen - p) p []) (\<lambda>codes.
              case codes of
                None \<Rightarrow> Inr None
              | Some [] \<Rightarrow> Inr None
              | Some cs \<Rightarrow> mk (Some props) (Some cs)))
        else mk None None))"

section \<open>Freeing packets\<close>

definition free_properties :: "int \<Rightarrow> MQTTProperties option \<Rightarrow> unit res" where
  "free_properties version props =
     (if 5 \<le> version then
        case props of None \<Rightarrow> Inl UninitRead | Some p \<Rightarrow> bindR (MQTTProperties_free p) (\<lambda>_. Inr ())
      else Inr ())"

definition MQTTPacket_freePublish :: "Publish \<Rightarrow> unit res" where
  "MQTTPacket_freePublish pack = free_properties (pub_version pack) (Some (pub_properties pack))"

definition MQTTPacket_freeAck :: "Ack \<Rightarrow> unit res" where
  "MQTTPacket_freeAck pack = free_properties (ack_version pack) (ack_properties pack)"

definition MQTTPacket_freeConnack :: "Connack \<Rightarrow> unit res" where
  "MQTTPacket_freeConnack pack = free_properties (ca_version pack) (ca_properties pack)"

definition MQTTPacket_freeSuback :: "Suback \<Rightarrow> unit res" where
  "MQTTPacket_freeSuback pack = free_properties (sub_version pack) (sub_properties pack)"

definition MQTTPacket_freeUnsuback :: "Unsuback \<Rightarrow> unit res" where
  "MQTTPacket_freeUnsuback pack = free_properties (uns_version pack) (uns_properties pack)"

text \<open>
  \<^verbatim>\<open>MQTTPacket_free_packet\<close>; other packets than \<^verbatim>\<open>PUBLISH\<close> are released without their properties.
\<close>

definition MQTTPacket_free_packet :: "packet \<Rightarrow> unit res" where
  "MQTTPacket_free_packet pack = (case pack of P_Publish p \<Rightarrow> MQTTPacket_freePublish p | _ \<Rightarrow> Inr ())"

section \<open>The factory\<close>

text \<open>The table of constructors; \<open>None\<close> is a null entry.\<close>

definition new_packets ::
  "(int \<Rightarrow> bool) \<Rightarrow> int \<Rightarrow> byte \<Rightarrow> byte list \<Rightarrow> nat \<Rightarrow> packet option res option list" where
  "new_packets alloc version h data datalen =
     (let ack = Some (bindR (MQTTPacket_ack alloc version h data datalen) (\<lambda>p. Inr (map_option P_Ack p))) in
      [None, None,
       Some (bindR (MQTTPacket_connack alloc version h data datalen) (\<lambda>p. Inr (map_option P_Connack p))),
       Some (bindR (MQTTPacket_publish alloc version h data datalen) (\<lambda>p. Inr (map_option P_Publish p))),
       ack, ack, ack, ack, None,
       Some (bindR (MQTTPacket_suback alloc version h data datalen) (\<lambda>p. Inr (map_option P_Suback p))),
       None,
       Some (bindR (MQTTPacket_unsuback alloc version h data datalen) (\<lambda>p. Inr (map_option P_Unsuback p))),
       Some (MQTTPacket_header_only h), Some (MQTTPacket_header_only h), ack, ack])"

text \<open>
  The packet made of a header byte and the rest of the packet. \<open>persist\<close> is what
  \<^verbatim>\<open>MQTTPersistence_putPacket\<close> returns. The result is the error code and the packet.
\<close>

definition factory_packet ::
  "(int \<Rightarrow> bool) \<Rightarrow> int \<Rightarrow> int \<Rightarrow> byte \<Rightarrow> byte list \<Rightarrow> nat \<Rightarrow> (int \<times> packet option) res" where
  "factory_packet alloc version persist h bytes remaining_length =
     (let ptype = hdr_type h in
      if ptype < CONNECT \<or> (version < 5 \<and> DISCONNECT \<le> ptype) \<or> (5 \<le> version \<and> AUTH < ptype)
      then Inr (TCPSOCKET_COMPLETE, None)
      else (case new_packets alloc version h bytes remaining_length ! ptype of
         None \<Rightarrow> Inr (TCPSOCKET_COMPLETE, None)
       | Some mk \<Rightarrow> bindR mk (\<lambda>pack.
           case pack of
             None \<Rightarrow> Inr (SOCKET_ERROR, None)
           | Some pk \<Rightarrow>
               if ptype = PUBLISH \<and> hdr_qos h = 2 then
                 if malloc_ok alloc 10 then Inr (persist, Some pk) else Inr (SOCKET_ERROR, Some pk)
               else Inr (TCPSOCKET_COMPLETE, Some pk))))"

text \<open>
  \<open>getdata n\<close> is the outcome of \<^verbatim>\<open>WebSocket_getdata\<close> for \<open>n\<close> bytes: the pointer (if not null) and the
  number of bytes available.
\<close>

definition MQTTPacket_Factory ::
  "(int \<Rightarrow> bool) \<Rightarrow> int \<Rightarrow> getch \<Rightarrow> (nat \<Rightarrow> byte list option \<times> nat) \<Rightarrow> int \<Rightarrow> (int \<times> packet option) res" where
  "MQTTPacket_Factory alloc version getch getdata persist =
     (case getch 0 of
        Inl e \<Rightarrow> Inr (e, None)
      | Inr h \<Rightarrow>
          (case MQTTPacket_decode (\<lambda>i. getch (Suc i)) of
             (e, remaining_length, _) \<Rightarrow>
               if e \<noteq> TCPSOCKET_COMPLETE then Inr (e, None) else
               (case getdata remaining_length of
                  (data, actual_len) \<Rightarrow>
                    if remaining_length \<noteq> 0 \<and> data = None then Inr (SOCKET_ERROR, None)
                    else if actual_len < remaining_length then Inr (TCPSOCKET_INTERRUPTED, None)
                    else factory_packet alloc version persist h (case data of None \<Rightarrow> [] | Some d \<Rightarrow> d) remaining_length)))"

end
