(* ===== verification/Packet_Out.thy ===== *)
theory Packet_Out
  imports Packet_In
begin

text \<open>
  Outgoing packets: \<^verbatim>\<open>MQTTPacket_send\<close>, \<^verbatim>\<open>MQTTPacket_sends\<close> and the packet writers of
  \<^verbatim>\<open>MQTTPacket.c\<close> and \<^verbatim>\<open>MQTTPacketOut.c\<close>.

  The network handle is a record: the result of the next call of \<^verbatim>\<open>WebSocket_putdatas\<close>, the bytes
  handed to it so far, what was handed to the persistence layer, and the time stamps. A writer
  that allocates \<open>len\<close> bytes and fills them with \<open>out\<close> is checked by \<open>filled\<close>: writing more is
  \<open>OverWrite\<close>, sending bytes it did not write is \<open>UninitRead\<close>. C strings are the bytes before
  their NUL.

  Shown: every writer fills exactly the bytes it allocated and announces exactly the bytes that
  follow; a published message, sent and received, is the same message.
\<close>

section \<open>Sending\<close>

record net =
  put_rc :: "nat \<Rightarrow> int"
  sent :: "byte list list"
  persisted :: "(nat \<times> int \<times> byte list) list"
  lastSent :: int
  net_now :: int

definition put :: "byte list \<Rightarrow> net \<Rightarrow> int \<times> net" where
  "put bytes n =
     (let rc = put_rc n (length (sent n)); n' = n\<lparr>sent := sent n @ [bytes]\<rparr> in
      (rc, if rc = TCPSOCKET_COMPLETE then n'\<lparr>lastSent := net_now n\<rparr> else n'))"

text \<open>
  \<^verbatim>\<open>MQTTPacket_send\<close>: header, remaining length and buffer are handed over in one call. A \<^verbatim>\<open>PUBREL\<close>
  is persisted first, under the message id at its start.
\<close>

definition MQTTPacket_send ::
  "(int \<Rightarrow> bool) \<Rightarrow> byte \<Rightarrow> byte list \<Rightarrow> nat \<Rightarrow> net \<Rightarrow> (int \<times> net) res" where
  "MQTTPacket_send alloc header buffer buflen n =
     (let buf = header # MQTTPacket_encode buflen in
      if \<not> malloc_ok alloc (int (length buf)) then Inr (SOCKET_ERROR, n)
      else
        guardR OverRead (buflen \<le> length buffer)
          (let packet = buf @ take buflen buffer in
           bindR (if hdr_type header = PUBREL
                  then bindR (readInt buffer 0) (\<lambda>(msgId, _).
                         Inr (n\<lparr>persisted := persisted n @ [(hdr_type header, msgId, packet)]\<rparr>))
                  else Inr n)
             (\<lambda>n'. Inr (put packet n'))))"

definition MQTTPacket_sends ::
  "(int \<Rightarrow> bool) \<Rightarrow> byte \<Rightarrow> byte list list \<Rightarrow> net \<Rightarrow> (int \<times> net) res" where
  "MQTTPacket_sends alloc header bufs n =
     (let total = length (concat bufs); buf = header # MQTTPacket_encode total in
      if \<not> malloc_ok alloc (int (length buf)) then Inr (SOCKET_ERROR, n)
      else
        let packet = buf @ concat bufs in
        bindR (if hdr_type header = PUBLISH \<and> hdr_qos header \<noteq> 0
               then guardR OverRead (2 < length bufs)
                      (bindR (readInt (bufs ! 2) 0) (\<lambda>(msgId, _).
                         Inr (n\<lparr>persisted := persisted n @ [(hdr_type header, msgId, packet)]\<rparr>)))
               else Inr n)
          (\<lambda>n'. Inr (put packet n')))"

definition filled :: "int \<Rightarrow> byte list \<Rightarrow> byte list res" where
  "filled len out =
     guardR OverWrite (int (length out) \<le> len) (guardR UninitRead (int (length out) = len) (Inr out))"

section \<open>Acknowledgements, disconnect, ping\<close>

definition MQTTPacket_send_ack ::
  "(int \<Rightarrow> bool) \<Rightarrow> nat \<Rightarrow> int \<Rightarrow> int \<Rightarrow> net \<Rightarrow> (int \<times> net) res" where
  "MQTTPacket_send_ack alloc type msgid dup n =
     (if \<not> malloc_ok alloc 2 then Inr (SOCKET_ERROR, n)
      else
        let header = mk_header type dup (if type = PUBREL then 1 else 0) 0 in
        bindR (filled 2 (writeInt msgid)) (\<lambda>buf. MQTTPacket_send alloc header buf 2 n))"

definition MQTTPacket_send_puback :: "(int \<Rightarrow> bool) \<Rightarrow> int \<Rightarrow> net \<Rightarrow> (int \<times> net) res" where
  "MQTTPacket_send_puback alloc msgid n = MQTTPacket_send_ack alloc PUBACK msgid 0 n"

definition MQTTPacket_send_pubrec :: "(int \<Rightarrow> bool) \<Rightarrow> int \<Rightarrow> net \<Rightarrow> (int \<times> net) res" where
  "MQTTPacket_send_pubrec alloc msgid n = MQTTPacket_send_ack alloc PUBREC msgid 0 n"

definition MQTTPacket_send_pubrel :: "(int \<Rightarrow> bool) \<Rightarrow> int \<Rightarrow> int \<Rightarrow> net \<Rightarrow> (int \<times> net) res" where
  "MQTTPacket_send_pubrel alloc msgid dup n = MQTTPacket_send_ack alloc PUBREL msgid dup n"

definition MQTTPacket_send_pubcomp :: "(int \<Rightarrow> bool) \<Rightarrow> int \<Rightarrow> net \<Rightarrow> (int \<times> net) res" where
  "MQTTPacket_send_pubcomp alloc msgid n = MQTTPacket_send_ack alloc PUBCOMP msgid 0 n"

definition write_properties :: "MQTTProperties option \<Rightarrow> byte list res" where
  "write_properties props = bindR (MQTTProperties_write props) (\<lambda>(_, bs). Inr bs)"

definition MQTTPacket_send_disconnect ::
  "(int \<Rightarrow> bool) \<Rightarrow> int \<Rightarrow> int \<Rightarrow> MQTTProperties option \<Rightarrow> net \<Rightarrow> (int \<times> net) res" where
  "MQTTPacket_send_disconnect alloc version reason props n =
     (let header = mk_header DISCONNECT 0 0 0 in
      if 5 \<le> version \<and> (props \<noteq> None \<or> reason \<noteq> 0) then
        let buflen = 1 + (case props of None \<Rightarrow> 0 | Some p \<Rightarrow> MQTTProperties_len (Some p)) in
        if \<not> malloc_ok alloc buflen then Inr (SOCKET_ERROR, n)
        else
          bindR (case props of None \<Rightarrow> Inr [] | Some p \<Rightarrow> write_properties (Some p)) (\<lambda>bs.
          bindR (filled buflen (writeChar (word_of_int reason) @ bs)) (\<lambda>buf.
            MQTTPacket_send alloc header buf (nat buflen) n))
      else MQTTPacket_send alloc header [] 0 n)"

definition MQTTPacket_send_pingreq :: "(int \<Rightarrow> bool) \<Rightarrow> net \<Rightarrow> (int \<times> net) res" where
  "MQTTPacket_send_pingreq alloc n = MQTTPacket_send alloc (mk_header PINGREQ 0 0 0) [] 0 n"

section \<open>Connect\<close>

record willMessages =
  will_topic :: "byte list"
  will_payload :: "byte list"
  will_payloadlen :: int
  will_retained :: int
  will_qos :: int

record conn_client =
  clientID :: "byte list"
  c_username :: "byte list option"
  c_passwordlen :: int
  c_password :: "byte list option"
  cleansession_c :: int
  cleanstart :: int
  c_keepAliveInterval :: int
  will :: "willMessages option"
  MQTTVersion :: int

definition MQIsdp :: "byte list" where "MQIsdp = [0x4D, 0x51, 0x49, 0x73, 0x64, 0x70]"
definition MQTT_name :: "byte list" where "MQTT_name = [0x4D, 0x51, 0x54, 0x54]"

text \<open>The length computed before the buffer is allocated.\<close>

definition connect_len :: "conn_client \<Rightarrow> int \<Rightarrow> MQTTProperties option \<Rightarrow> MQTTProperties option \<Rightarrow> int" where
  "connect_len c version connectProperties willProperties =
     (if version = 3 then 12 else 10) + int (length (clientID c)) + 2
     + (case will c of None \<Rightarrow> 0 | Some w \<Rightarrow> int (length (will_topic w)) + 2 + will_payloadlen w + 2)
     + (case c_username c of None \<Rightarrow> 0 | Some u \<Rightarrow> int (length u) + 2)
     + (case c_password c of None \<Rightarrow> 0 | Some _ \<Rightarrow> c_passwordlen c + 2)
     + (if 5 \<le> version then MQTTProperties_len connectProperties
          + (case will c of None \<Rightarrow> 0 | Some _ \<Rightarrow> MQTTProperties_len willProperties) else 0)"

definition connect_flags :: "conn_client \<Rightarrow> int \<Rightarrow> byte" where
  "connect_flags c version =
     word_of_int
       (2 * ((if 5 \<le> version then cleanstart c else cleansession_c c) mod 2)
        + (case will c of None \<Rightarrow> 0 | Some w \<Rightarrow> 4 + 8 * (will_qos w mod 4) + 32 * (will_retained w mod 2))
        + (case c_password c of None \<Rightarrow> 0 | Some _ \<Rightarrow> 64)
        + (case c_username c of None \<Rightarrow> 0 | Some _ \<Rightarrow> 128))"

definition MQTTPacket_send_connect ::
  "(int \<Rightarrow> bool) \<Rightarrow> conn_client \<Rightarrow> int \<Rightarrow> MQTTProperties option \<Rightarrow> MQTTProperties option \<Rightarrow> net \<Rightarrow> (int \<times> net) res" where
  "MQTTPacket_send_connect alloc c version connectProperties willProperties n =
     (let len = connect_len c version connectProperties willProperties in
      if \<not> malloc_ok alloc len then Inr (SOCKET_ERROR, n)
      else if version \<noteq> 3 \<and> version \<noteq> 4 \<and> version \<noteq> 5 then Inr (SOCKET_ERROR, n)
      else
        let start = writeUTF (if version = 3 then MQIsdp else MQTT_name) @ writeChar (word_of_int version)
                      @ writeChar (connect_flags c version) @ writeInt (c_keepAliveInterval c) in
        bindR (if 5 \<le> version then write_properties connectProperties else Inr []) (\<lambda>cp.
        bindR (case will c of
                 None \<Rightarrow> Inr []
               | Some w \<Rightarrow>
                   bindR (if 5 \<le> version then write_properties willProperties else Inr []) (\<lambda>wp.
                   bindR (writeData (will_payload w) (will_payloadlen w)) (\<lambda>wd.
                     Inr (wp @ writeUTF (will_topic w) @ wd)))) (\<lambda>ws.
        bindR (case c_password c of None \<Rightarrow> Inr [] | Some p \<Rightarrow> writeData p (c_passwordlen c)) (\<lambda>pw.
        bindR (filled len (start @ cp @ writeUTF (clientID c) @ ws
                 @ (case c_username c of None \<Rightarrow> [] | Some u \<Rightarrow> writeUTF u) @ pw)) (\<lambda>buf.
          MQTTPacket_send alloc (mk_header CONNECT 0 0 0) buf (nat len) n)))))"

section \<open>Subscribe and unsubscribe\<close>

record subscribe_opts =
  noLocal :: byte
  retainAsPublished :: byte
  retainHandling :: byte

text \<open>
  The loop over the topics; the list of qualities of service is walked in parallel and the options
  array is indexed.
\<close>

fun subscribe_topics ::
  "int \<Rightarrow> subscribe_opts list option \<Rightarrow> nat \<Rightarrow> byte list list \<Rightarrow> int list \<Rightarrow> byte list res" where
  "subscribe_topics version opts i [] qoss = Inr []"
| "subscribe_topics version opts i (t # ts) [] = Inl NullDeref"
| "subscribe_topics version opts i (t # ts) (q # qs) =
     bindR (case opts of
              None \<Rightarrow> Inr (word_of_int q)
            | Some os \<Rightarrow>
                if 5 \<le> version then
                  guardR OverRead (i < length os)
                    (Inr (word_of_int q OR push_bit 2 (noLocal (os ! i)) OR push_bit 3 (retainAsPublished (os ! i))
                            OR push_bit 4 (retainHandling (os ! i))))
                else Inr (word_of_int q)) (\<lambda>subopts.
     bindR (subscribe_topics version opts (Suc i) ts qs) (\<lambda>rest.
       Inr (writeUTF t @ writeChar subopts @ rest)))"

definition MQTTPacket_send_subscribe ::
  "(int \<Rightarrow> bool) \<Rightarrow> byte list list \<Rightarrow> int list \<Rightarrow> subscribe_opts list option \<Rightarrow> MQTTProperties option
    \<Rightarrow> int \<Rightarrow> int \<Rightarrow> int \<Rightarrow> net \<Rightarrow> (int \<times> net) res" where
  "MQTTPacket_send_subscribe alloc topics qoss opts props msgid dup version n =
     (let datalen = 2 + int (length topics) * 3 + int (length (concat topics))
            + (if 5 \<le> version then MQTTProperties_len props else 0) in
      if \<not> malloc_ok alloc datalen then Inr (-1, n)
      else
        bindR (if 5 \<le> version then write_properties props else Inr []) (\<lambda>ps.
        bindR (subscribe_topics version opts 0 topics qoss) (\<lambda>ts.
        bindR (filled datalen (writeInt msgid @ ps @ ts)) (\<lambda>buf.
          MQTTPacket_send alloc (mk_header SUBSCRIBE dup 1 0) buf (nat datalen) n))))"

definition MQTTPacket_send_unsubscribe ::
  "(int \<Rightarrow> bool) \<Rightarrow> byte list list \<Rightarrow> MQTTProperties option \<Rightarrow> int \<Rightarrow> int \<Rightarrow> int \<Rightarrow> net \<Rightarrow> (int \<times> net) res" where
  "MQTTPacket_send_unsubscribe alloc topics props msgid dup version n =
     (let datalen = 2 + int (length topics) * 2 + int (length (concat topics))
            + (if 5 \<le> version then MQTTProperties_len props else 0) in
      if \<not> malloc_ok alloc datalen then Inr (SOCKET_ERROR, n)
      else
        bindR (if 5 \<le> version then write_properties props else Inr []) (\<lambda>ps.
        bindR (filled datalen (writeInt msgid @ ps @ concat (map writeUTF topics))) (\<lambda>buf.
          MQTTPacket_send alloc (mk_header UNSUBSCRIBE dup 1 0) buf (nat datalen) n)))"

section \<open>Publish\<close>

text \<open>
  The structure passed to \<^verbatim>\<open>MQTTPacket_send_publish\<close> is a \<^verbatim>\<open>Publish\<close>; its topic and payload are sent from
  where they are.
\<close>

definition MQTTPacket_send_publish ::
  "(int \<Rightarrow> bool) \<Rightarrow> Publish \<Rightarrow> int \<Rightarrow> int \<Rightarrow> int \<Rightarrow> net \<Rightarrow> (int \<times> net) res" where
  "MQTTPacket_send_publish alloc pack dup qos retained n =
     (if \<not> malloc_ok alloc 2 then Inr (SOCKET_ERROR, n)
      else
        guardR OverRead (0 \<le> pub_payloadlen pack \<and> nat (pub_payloadlen pack) \<le> length (pub_payload pack))
          (let header = mk_header PUBLISH dup qos retained;
               topiclen = writeInt (int (length (pub_topic pack)));
               payload = take (nat (pub_payloadlen pack)) (pub_payload pack) in
           if 0 < qos \<or> 5 \<le> pub_version pack then
             let buflen = (if 0 < qos then 2 else 0)
                   + (if 5 \<le> pub_version pack then MQTTProperties_len (Some (pub_properties pack)) else 0) in
             if \<not> malloc_ok alloc buflen then Inr (SOCKET_ERROR, n)
             else
               bindR (if 5 \<le> pub_version pack then write_properties (Some (pub_properties pack)) else Inr []) (\<lambda>ps.
               bindR (filled buflen ((if 0 < qos then writeInt (pub_msgId pack) else []) @ ps)) (\<lambda>buf.
                 MQTTPacket_sends alloc header [topiclen, pub_topic pack, buf, payload] n))
           else MQTTPacket_sends alloc header [topiclen, pub_topic pack, payload] n))"

section \<open>Header bytes\<close>

lemma header_digits:
  fixes t d q r :: nat
  assumes "t < 16" and "d < 2" and "q < 4" and "r < 2"
  defines "n \<equiv> t * 16 + d * 8 + q * 2 + r"
  shows "n < 256" and "n div 16 = t" and "n div 8 mod 2 = d" and "n div 2 mod 4 = q" and "n mod 2 = r"
proof -
  have n: "n = t * 16 + (d * 8 + q * 2 + r)" "n = (t * 2 + d) * 8 + (q * 2 + r)" "n = (t * 8 + d * 4 + q) * 2 + r"
    by (simp_all add: n_def)
  have m: "d * 8 + q * 2 + r < 16" "q * 2 + r < 8" using assms(2-4) by simp_all
  from assms(1) m(1) n(1) show "n < 256" by linarith
  from m(1) show "n div 16 = t" unfolding n(1) by simp
  have "n div 8 = t * 2 + d" unfolding n(2) using m(2) by simp
  then show "n div 8 mod 2 = d" using assms(2) by simp
  have "n div 2 = (t * 2 + d) * 4 + q" unfolding n(3) using assms(4) by simp
  then show "n div 2 mod 4 = q" using assms(3) by (simp only: mod_mult_self3 mod_less)
  show "n mod 2 = r" unfolding n(3) using assms(4) by (simp only: mod_mult_self3 mod_less)
qed

lemma mk_header_bits:
  assumes "t < 16" and "dup \<in> {0, 1}" and "0 \<le> qos" and "qos < 4" and "retain \<in> {0, 1}"
  shows "hdr_type (mk_header t dup qos retain) = t" and "hdr_dup (mk_header t dup qos retain) = nat dup"
    and "hdr_qos (mk_header t dup qos retain) = nat qos" and "hdr_retain (mk_header t dup qos retain) = nat retain"
proof -
  have "nat dup < 2" "nat qos < 4" "nat retain < 2" using assms by auto
  note d = header_digits [OF assms(1) this]
  have "mk_header t dup qos retain = word_of_nat (t * 16 + nat dup * 8 + nat qos * 2 + nat retain)"
    using assms by (auto simp: mk_header_def)
  with d show "hdr_type (mk_header t dup qos retain) = t" "hdr_dup (mk_header t dup qos retain) = nat dup"
    "hdr_qos (mk_header t dup qos retain) = nat qos" "hdr_retain (mk_header t dup qos retain) = nat retain"
    by (simp_all only: hdr_type_def hdr_dup_def hdr_qos_def hdr_retain_def byte_of_nat_unat)
qed

section \<open>Writers fill their buffers\<close>

definition props_ok :: "MQTTProperties option \<Rightarrow> bool" where
  "props_ok p \<longleftrightarrow> (case p of None \<Rightarrow> True | Some q \<Rightarrow> \<exists>ps. holds q ps \<and> length (props_bytes ps) < 268435456)"

lemma write_properties_ok:
  assumes "props_ok p"
  obtains bs where "write_properties p = Inr bs" "int (length bs) = MQTTProperties_len p"
proof (cases p)
  case None
  then show thesis
    by (intro that [of "[0]"])
      (simp_all add: write_properties_def MQTTProperties_write_def encode_small MQTTProperties_len_def)
next
  case (Some q)
  with assms obtain ps where ps: "holds q ps" "length (props_bytes ps) < 268435456"
    by (auto simp: props_ok_def)
  then have "plength q = int (length (props_bytes ps))" by (simp add: holds_def)
  with Some MQTTProperties_write_holds [OF ps] VBIlen_encode [of "int (length (props_bytes ps))"] ps(2)
  show thesis
    by (intro that [of "MQTTPacket_encode (length (props_bytes ps)) @ props_bytes ps"])
      (simp_all add: write_properties_def MQTTProperties_len_def)
qed

lemma filled_exact: "int (length out) = len \<Longrightarrow> filled len out = Inr out"
  by (simp add: filled_def)

text \<open>The bytes of one packet: header, remaining length, body.\<close>

definition framed :: "byte \<Rightarrow> byte list \<Rightarrow> byte list" where
  "framed header body = header # MQTTPacket_encode (length body) @ body"

lemma encode_length_le_10: "l < 2 ^ 63 \<Longrightarrow> length (MQTTPacket_encode l) \<le> 10"
proof -
  assume "l < 2 ^ 63"
  also have "(2 :: nat) ^ 63 < 128 ^ 10" by simp
  finally show ?thesis by (intro encode_length_bound) simp_all
qed

lemma malloc_small: "\<forall>n. alloc n \<Longrightarrow> 0 \<le> n \<Longrightarrow> n < 2 ^ 62 \<Longrightarrow> malloc_ok alloc n"
  by (simp add: malloc_ok_def PTRDIFF_MAX_def)

lemma malloc_frame:
  "\<forall>n. alloc n \<Longrightarrow> length body < 2 ^ 62 \<Longrightarrow> malloc_ok alloc (int (length (h # MQTTPacket_encode (length body))))"
  using encode_length_le_10 [of "length body"] by (intro malloc_small) simp_all

lemma MQTTPacket_send_framed:
  assumes "\<forall>n. alloc n" and "length body < 2 ^ 62" and "hdr_type header \<noteq> PUBREL"
  shows "MQTTPacket_send alloc header body (length body) n = Inr (put (framed header body) n)"
  using malloc_frame [OF assms(1,2), of header] assms(3)
  by (simp add: MQTTPacket_send_def framed_def Let_def)

lemma writeUTF_length [simp]: "length (writeUTF s) = 2 + length s"
  by (simp add: writeUTF_def)

lemma writeData_exact:
  "n = int (length d) \<Longrightarrow> writeData d n = Inr (writeInt n @ d)"
  by (simp add: writeData_def)

definition client_ok :: "conn_client \<Rightarrow> bool" where
  "client_ok c \<longleftrightarrow>
     (case will c of None \<Rightarrow> True | Some w \<Rightarrow> will_payloadlen w = int (length (will_payload w))) \<and>
     (case c_password c of None \<Rightarrow> True | Some p \<Rightarrow> c_passwordlen c = int (length p))"

lemma subscribe_topics_length:
  assumes "length topics \<le> length qoss"
    and "5 \<le> version \<longrightarrow> (case opts of None \<Rightarrow> True | Some os \<Rightarrow> i + length topics \<le> length os)"
  shows "\<exists>bs. subscribe_topics version opts i topics qoss = Inr bs \<and>
    length bs = 3 * length topics + length (concat topics)"
  using assms
proof (induction topics arbitrary: qoss i)
  case (Cons t ts)
  then obtain q qs where qoss: "qoss = q # qs" by (cases qoss) auto
  obtain bs where "subscribe_topics version opts (Suc i) ts qs = Inr bs"
    "length bs = 3 * length ts + length (concat ts)"
    using Cons.IH [of qs "Suc i"] Cons.prems qoss by (auto split: option.splits)
  with Cons.prems qoss show ?case by (auto simp: writeChar_def split: option.splits)
qed simp

section \<open>Sending and receiving\<close>

text \<open>A transport that delivers one packet: its bytes, and its body in one piece.\<close>

definition wire :: "byte list \<Rightarrow> getch" where
  "wire bs = (\<lambda>i. if i < length bs then Inr (bs ! i) else Inl TCPSOCKET_INTERRUPTED)"

definition getdata_of :: "byte list \<Rightarrow> nat \<Rightarrow> byte list option \<times> nat" where
  "getdata_of body m = (Some (take m body), min m (length body))"

lemma hdr_type_le: "hdr_type h \<le> 15"
  using unat_byte_less [of h] by (simp add: hdr_type_def)

lemma factory_framed:
  assumes "length body < 268435456" and "CONNECT \<le> hdr_type h" and "version < 5 \<longrightarrow> hdr_type h < DISCONNECT"
    and "new_packets alloc version h body (length body) ! hdr_type h = Some (Inr (Some pk))"
    and "\<forall>n. alloc n"
  shows "MQTTPacket_Factory alloc version (wire (framed h body)) (getdata_of body) persist =
    Inr (if hdr_type h = PUBLISH \<and> hdr_qos h = 2 then persist else TCPSOCKET_COMPLETE, Some pk)"
proof -
  let ?l = "MQTTPacket_encode (length body)"
  have w: "wire (framed h body) 0 = Inr h" by (simp add: wire_def framed_def)
  have "wire (framed h body) (Suc (0 + j)) = Inr (?l ! j)" if "j < length ?l" for j
    using that by (simp add: wire_def framed_def nth_append)
  from decode_from_encode [of "length body" 4 "\<lambda>i. wire (framed h body) (Suc i)" 0 1 0] this assms(1)
  have d: "MQTTPacket_decode (\<lambda>i. wire (framed h body) (Suc i)) = (TCPSOCKET_COMPLETE, length body, length ?l)"
    by (simp add: MQTTPacket_decode_def)
  have "malloc_ok alloc 10" by (rule malloc_small [OF assms(5)]) simp_all
  with w d assms(2,3,4) hdr_type_le [of h] show ?thesis
    by (auto simp: MQTTPacket_Factory_def factory_packet_def getdata_of_def Let_def AUTH_def)
qed

definition publish_ok :: "Publish \<Rightarrow> MQTTProperty list \<Rightarrow> int \<Rightarrow> bool" where
  "publish_ok pack ps qos \<longleftrightarrow>
     length (pub_topic pack) < 65536 \<and> 0 \<le> pub_msgId pack \<and> pub_msgId pack < 65536 \<and>
     pub_payloadlen pack = int (length (pub_payload pack)) \<and> holds (pub_properties pack) ps \<and>
     length (pub_topic pack) + length (pub_payload pack) + length (props_bytes ps) + 8 < 268435456 \<and>
     0 \<le> qos \<and> qos \<le> 2"

definition publish_body :: "Publish \<Rightarrow> MQTTProperty list \<Rightarrow> int \<Rightarrow> byte list" where
  "publish_body pack ps qos =
     writeUTF (pub_topic pack) @ (if 0 < qos then writeInt (pub_msgId pack) else [])
     @ (if 5 \<le> pub_version pack then MQTTPacket_encode (length (props_bytes ps)) @ props_bytes ps else [])
     @ pub_payload pack"

lemma publish_body_small:
  assumes "publish_ok pack ps qos"
  shows "length (publish_body pack ps qos) < 268435456"
proof -
  have "length (MQTTPacket_encode (length (props_bytes ps))) \<le> 4"
    using assms by (intro encode_length_bound) (auto simp: publish_ok_def)
  with assms show ?thesis by (auto simp: publish_ok_def publish_body_def)
qed

lemma send_publish_framed:
  assumes "publish_ok pack ps qos" and "\<forall>n. alloc n" and "dup \<in> {0, 1}" and "retained \<in> {0, 1}"
  defines "h \<equiv> mk_header PUBLISH dup qos retained"
  shows "\<exists>n1. MQTTPacket_send_publish alloc pack dup qos retained n =
      Inr (put (framed h (publish_body pack ps qos)) n1) \<and> sent n1 = sent n \<and>
      persisted n1 = persisted n @ (if 0 < qos
        then [(PUBLISH, pub_msgId pack, framed h (publish_body pack ps qos))] else [])"
proof -
  let ?body = "publish_body pack ps qos"
  let ?pb = "MQTTPacket_encode (length (props_bytes ps)) @ props_bytes ps"
  have hb: "hdr_type h = PUBLISH" "hdr_qos h = nat qos"
    using mk_header_bits(1,3) [of PUBLISH dup qos retained] assms(1,3,4)
    by (auto simp: h_def publish_ok_def PUBLISH_def)
  have small: "length (props_bytes ps) < 268435456" "length ?body < 2 ^ 62"
    using assms(1) publish_body_small [OF assms(1)] by (simp_all add: publish_ok_def)
  have hp: "holds (pub_properties pack) ps" using assms(1) by (simp add: publish_ok_def)
  have wp: "write_properties (Some (pub_properties pack)) = Inr ?pb"
    using MQTTProperties_write_holds [OF hp small(1)] by (simp add: write_properties_def)
  obtain bs where "write_properties (Some (pub_properties pack)) = Inr bs"
    "int (length bs) = MQTTProperties_len (Some (pub_properties pack))"
    using write_properties_ok [of "Some (pub_properties pack)"] hp small(1) by (auto simp: props_ok_def)
  with wp have pl: "MQTTProperties_len (Some (pub_properties pack)) = int (length ?pb)" by simp
  define pv where "pv = (if 5 \<le> pub_version pack then ?pb else [])"
  have wv: "(if 5 \<le> pub_version pack then write_properties (Some (pub_properties pack)) else Inr []) = Inr pv"
    by (simp add: pv_def wp)
  define buf where "buf = (if 0 < qos then writeInt (pub_msgId pack) else []) @ pv"
  define bl where "bl = (if 0 < qos then 2 else 0) +
    (if 5 \<le> pub_version pack then MQTTProperties_len (Some (pub_properties pack)) else 0)"
  have bl: "int (length buf) = bl" by (simp add: buf_def pv_def bl_def pl)
  have "length (MQTTPacket_encode (length (props_bytes ps))) \<le> 10"
    using small(1) by (intro encode_length_le_10) simp
  then have "bl < 2 ^ 62" using small(1) by (simp add: bl_def pl)
  then have m: "malloc_ok alloc 2" "malloc_ok alloc bl"
    "malloc_ok alloc (int (length (h # MQTTPacket_encode (length ?body))))"
    using malloc_small [OF assms(2)] malloc_frame [OF assms(2) small(2)] bl by auto
  have rd: "readInt (writeInt (pub_msgId pack) @ x) 0 = Inr (pub_msgId pack, 2)" for x
    using int2.dec_at [of "pub_msgId pack" "[]" x] assms(1) by (simp add: publish_ok_def int2_valid_def)
  have ln: "pub_payloadlen pack = int (length (pub_payload pack))" using assms(1) by (simp add: publish_ok_def)
  show ?thesis
  proof (cases "0 < qos \<or> 5 \<le> pub_version pack")
    case True
    have body: "concat [writeInt (int (length (pub_topic pack))), pub_topic pack, buf, pub_payload pack] = ?body"
      by (simp add: publish_body_def buf_def pv_def writeUTF_def)
    have fl: "filled bl buf = Inr buf" using bl by (rule filled_exact)
    have "MQTTPacket_send_publish alloc pack dup qos retained n =
        MQTTPacket_sends alloc h [writeInt (int (length (pub_topic pack))), pub_topic pack, buf, pub_payload pack] n"
      unfolding MQTTPacket_send_publish_def Let_def h_def [symmetric] bl_def [symmetric] wv
      using True m(1,2) fl ln by (simp add: buf_def [symmetric])
    with body m(3) hb rd show ?thesis
      by (auto simp: MQTTPacket_sends_def Let_def framed_def buf_def)
  next
    case False
    have body: "concat [writeInt (int (length (pub_topic pack))), pub_topic pack, pub_payload pack] = ?body"
      using False by (simp add: publish_body_def writeUTF_def)
    have "MQTTPacket_send_publish alloc pack dup qos retained n =
        MQTTPacket_sends alloc h [writeInt (int (length (pub_topic pack))), pub_topic pack, pub_payload pack] n"
      using False m(1) ln by (simp add: MQTTPacket_send_publish_def Let_def h_def [symmetric])
    with body m(3) hb False show ?thesis
      by (auto simp: MQTTPacket_sends_def Let_def framed_def)
  qed
qed

lemma MQTTPacket_publish_body:
  assumes "publish_ok pack ps qos" and "\<forall>n. alloc n" and "hdr_qos h = nat qos"
  defines "body \<equiv> publish_body pack ps qos"
  shows "\<exists>pack'. MQTTPacket_publish alloc (pub_version pack) h body (length body) = Inr (Some pack') \<and>
    pub_header pack' = h \<and> pub_topic pack' = pub_topic pack \<and>
    pub_msgId pack' = (if 0 < qos then pub_msgId pack else 0) \<and>
    pub_payload pack' = pub_payload pack \<and> pub_payloadlen pack' = pub_payloadlen pack \<and>
    (5 \<le> pub_version pack \<longrightarrow> holds (pub_properties pack') ps)"
proof -
  let ?t = "pub_topic pack" and ?n = "length (props_bytes ps)"
  define ids where "ids = (if 0 < qos then writeInt (pub_msgId pack) else [])"
  define pv where "pv = (if 5 \<le> pub_version pack then MQTTPacket_encode ?n @ props_bytes ps else [])"
  have body: "body = writeUTF ?t @ ids @ pv @ pub_payload pack"
    by (simp add: body_def publish_body_def ids_def pv_def)
  have m: "malloc_ok alloc 72" "malloc_ok alloc (int (length ?t) + 1)"
    using malloc_small [OF assms(2)] assms(1) by (simp_all add: publish_ok_def)
  have utf: "readUTFlen alloc body 0 (length body) = Inr (Some ?t, int (length ?t), 2 + length ?t)"
    using readUTFlen_writeUTF [of ?t 0 body "ids @ pv @ pub_payload pack" "length body" alloc] assms(1) m(2)
    by (simp add: body publish_ok_def)
  define p1 where "p1 = 2 + length ?t"
  define p2 where "p2 = p1 + length ids"
  define p3 where "p3 = p2 + length pv"
  have d1: "drop p1 body = ids @ pv @ pub_payload pack" by (simp add: body p1_def)
  have d2: "drop p2 body = pv @ pub_payload pack" using drop_take_append [OF d1] by (simp add: p2_def)
  have d3: "drop p3 body = pub_payload pack" using drop_take_append [OF d2] by (simp add: p3_def)
  have len: "length body = p3 + length (pub_payload pack)"
    by (simp add: body p1_def p2_def p3_def)
  have ids: "(if 0 < hdr_qos h then readInt body p1 else Inr (0, p1)) = Inr (if 0 < qos then pub_msgId pack else 0, p2)"
    using int2.dec_enc [of "pub_msgId pack" p1 body] d1 assms(1,3)
    by (auto simp: ids_def p2_def int2_valid_def publish_ok_def)
  obtain props where props: "(if 5 \<le> pub_version pack
      then MQTTProperties_read alloc MQTTProperties_initializer body p2 (length body)
      else Inr (1, MQTTProperties_initializer, p2)) = Inr (1, props, p3)"
    "5 \<le> pub_version pack \<longrightarrow> holds props ps"
  proof (cases "5 \<le> pub_version pack")
    case True
    have wf: "\<forall>p \<in> set ps. wf_prop p" "?n < 268435456"
      using assms(1) by (simp_all add: publish_ok_def holds_def)
    from MQTTProperties_read_holds [OF wf(1) assms(2) wf(2), of p2 body "pub_payload pack" "length body"] that True d2 len
    show thesis by (auto simp: pv_def p3_def add.assoc)
  next
    case False
    then show thesis by (intro that) (simp_all add: p3_def pv_def)
  qed
  have "readUTFlen alloc body 0 (length body) = Inr (Some ?t, int (length ?t), p1)"
    using utf by (simp only: p1_def)
  then have "MQTTPacket_publish alloc (pub_version pack) h body (length body) = Inr (Some
      \<lparr>pub_header = h, pub_topic = ?t, pub_topiclen = int (length ?t),
       pub_msgId = (if 0 < qos then pub_msgId pack else 0), pub_payload = drop p3 body,
       pub_payloadlen = int (length body) - int p3, pub_version = pub_version pack, pub_properties = props\<rparr>)"
    by (simp add: MQTTPacket_publish_def m(1) ids props(1))
  then show ?thesis
    using props(2) d3 len assms(1) by (simp add: publish_ok_def)
qed

lemma put_facts: "sent (snd (put bs n)) = sent n @ [bs]" "persisted (snd (put bs n)) = persisted n"
  "fst (put bs n) = put_rc n (length (sent n))"
  by (simp_all add: put_def Let_def)

section \<open>Theorems\<close>

text \<open>
  C14: the \<^verbatim>\<open>CONNECT\<close> packet. For MQTT 3.1, 3.1.1 and 5, if the lengths of will payload and password
  are right and the properties well formed, the bytes written fill the allocated buffer exactly,
  and one packet with that body is handed to the transport: nothing is written out of bounds, no
  unwritten byte is sent, and the remaining length announced is right.
\<close>
theorem connect_exact:
  assumes "client_ok c" and "props_ok cp" and "props_ok wp" and "version \<in> {3, 4, 5}"
    and "\<forall>n. alloc n" and "0 \<le> connect_len c version cp wp" and "connect_len c version cp wp < 2 ^ 31"
  shows "\<exists>body. MQTTPacket_send_connect alloc c version cp wp n = Inr (put (framed 0x10 body) n) \<and>
    int (length body) = connect_len c version cp wp \<and>
    take 2 (drop (if version = 3 then 8 else 6) body) = [word_of_int version, connect_flags c version]"
proof -
  let ?len = "connect_len c version cp wp"
  obtain cb where cb: "write_properties cp = Inr cb" "int (length cb) = MQTTProperties_len cp"
    using write_properties_ok [OF assms(2)] by blast
  obtain wb where wb: "write_properties wp = Inr wb" "int (length wb) = MQTTProperties_len wp"
    using write_properties_ok [OF assms(3)] by blast
  define start where "start = writeUTF (if version = 3 then MQIsdp else MQTT_name) @ writeChar (word_of_int version)
      @ writeChar (connect_flags c version) @ writeInt (c_keepAliveInterval c)"
  define ws where "ws = (case will c of None \<Rightarrow> [] | Some w \<Rightarrow>
      (if 5 \<le> version then wb else []) @ writeUTF (will_topic w) @ writeInt (will_payloadlen w) @ will_payload w)"
  define us where "us = (case c_username c of None \<Rightarrow> [] | Some u \<Rightarrow> writeUTF u)"
  define pw where "pw = (case c_password c of None \<Rightarrow> [] | Some p \<Rightarrow> writeInt (c_passwordlen c) @ p)"
  define body where "body = start @ (if 5 \<le> version then cb else []) @ writeUTF (clientID c) @ ws @ us @ pw"
  have parts: "(case will c of None \<Rightarrow> Inr [] | Some w \<Rightarrow>
        bindR (if 5 \<le> version then write_properties wp else Inr []) (\<lambda>wp.
          bindR (writeData (will_payload w) (will_payloadlen w)) (\<lambda>wd.
            Inr (wp @ writeUTF (will_topic w) @ wd)))) = Inr ws"
    "(case c_password c of None \<Rightarrow> Inr [] | Some p \<Rightarrow> writeData p (c_passwordlen c)) = Inr pw"
    using assms(1) wb by (auto simp: ws_def pw_def client_ok_def writeData_exact split: option.splits)
  have len: "int (length body) = ?len"
    using assms(1,4) cb(2) wb(2)
    by (auto simp: body_def start_def ws_def us_def pw_def connect_len_def client_ok_def writeChar_def
        MQIsdp_def MQTT_name_def split: option.splits)
  then have n: "nat ?len = length body" by linarith
  have h: "mk_header CONNECT 0 0 0 = 0x10" "hdr_type 0x10 \<noteq> PUBREL" by code_simp+
  have "length body < 2 ^ 62" using len assms(7) by simp
  from MQTTPacket_send_framed [OF assms(5) this h(2)]
  have "MQTTPacket_send_connect alloc c version cp wp n = Inr (put (framed 0x10 body) n)"
    using assms(4,7) parts cb(1) filled_exact [OF len] malloc_small [OF assms(5,6)]
    by (auto simp: MQTTPacket_send_connect_def Let_def n h(1) body_def start_def us_def)
  moreover have "take 2 (drop (if version = 3 then 8 else 6) body) = [word_of_int version, connect_flags c version]"
    by (simp add: body_def start_def writeUTF_def writeInt_def writeChar_def MQIsdp_def MQTT_name_def
        eval_nat_numeral)
  ultimately show ?thesis using len by blast
qed

definition sample_client :: conn_client where
  "sample_client = \<lparr>clientID = [97], c_username = Some [98], c_passwordlen = 1, c_password = Some [99],
     cleansession_c = 1, cleanstart = 0, c_keepAliveInterval = 60,
     will = Some \<lparr>will_topic = [100], will_payload = [1, 2], will_payloadlen = 2, will_retained = 0, will_qos = 1\<rparr>,
     MQTTVersion = 4\<rparr>"

definition net_ok :: net where
  "net_ok = \<lparr>put_rc = (\<lambda>_. 0), sent = [], persisted = [], lastSent = 0, net_now = 5\<rparr>"

theorem connect_exact_witness:
  "\<exists>body. MQTTPacket_send_connect (\<lambda>_. True) sample_client 4 None None net_ok = Inr (put (framed 0x10 body) net_ok) \<and>
     length body = 26 \<and> take 2 (drop 6 body) = [4, 0xCE]"
proof -
  have ok: "client_ok sample_client" by (simp add: client_ok_def sample_client_def)
  have len: "connect_len sample_client 4 None None = 26" by (simp add: connect_len_def sample_client_def)
  have p: "props_ok None" by (simp add: props_ok_def)
  have fl: "connect_flags sample_client 4 = 0xCE" by code_simp
  from connect_exact [OF ok p p, of 4 "\<lambda>_. True" net_ok] show ?thesis
    by (auto simp: len fl)
qed

text \<open>
  the \<^verbatim>\<open>SUBSCRIBE\<close> and \<^verbatim>\<open>UNSUBSCRIBE\<close> packets. With a quality of service (and, in MQTT 5, options) for
  every topic and well-formed properties, the bytes written fill the allocated buffer exactly,
  and one packet with that body is handed to the transport.
\<close>
theorem subscribe_exact:
  assumes "length topics \<le> length qoss" and "props_ok props" and "\<forall>n. alloc n"
    and "5 \<le> version \<longrightarrow> (case opts of None \<Rightarrow> True | Some os \<Rightarrow> length topics \<le> length os)"
    and "3 * int (length topics) + int (length (concat topics)) + MQTTProperties_len props < 2 ^ 31"
  shows "(\<exists>body. MQTTPacket_send_subscribe alloc topics qoss opts props msgid 0 version n =
      Inr (put (framed 0x82 body) n) \<and> take 2 body = writeInt msgid) \<and>
    (\<exists>body. MQTTPacket_send_unsubscribe alloc topics props msgid 0 version n =
      Inr (put (framed 0xA2 body) n) \<and> take 2 body = writeInt msgid)"
proof -
  obtain pb where pb: "write_properties props = Inr pb" "int (length pb) = MQTTProperties_len props"
    using write_properties_ok [OF assms(2)] by blast
  define pv where "pv = (if 5 \<le> version then pb else [])"
  have pv: "(if 5 \<le> version then write_properties props else Inr []) = Inr pv"
    "int (length pv) = (if 5 \<le> version then MQTTProperties_len props else 0)"
    using pb by (simp_all add: pv_def)
  obtain ts where ts: "subscribe_topics version opts 0 topics qoss = Inr ts"
    "length ts = 3 * length topics + length (concat topics)"
    using subscribe_topics_length [OF assms(1), where version = version and opts = opts and i = 0] assms(4)
    by (cases opts) auto
  define sb ub where "sb = writeInt msgid @ pv @ ts" and "ub = writeInt msgid @ pv @ concat (map writeUTF topics)"
  have utf: "length (concat (map writeUTF xs)) = 2 * length xs + length (concat xs)" for xs
    by (induction xs) simp_all
  have h: "mk_header SUBSCRIBE 0 1 0 = 0x82" "mk_header UNSUBSCRIBE 0 1 0 = 0xA2"
    "hdr_type 0x82 \<noteq> PUBREL" "hdr_type 0xA2 \<noteq> PUBREL" by code_simp+
  have sl: "int (length sb) = 2 + int (length topics) * 3 + int (length (concat topics))
      + (if 5 \<le> version then MQTTProperties_len props else 0)"
    and ul: "int (length ub) = 2 + int (length topics) * 2 + int (length (concat topics))
      + (if 5 \<le> version then MQTTProperties_len props else 0)"
    by (simp_all add: sb_def ub_def pv(2) ts(2) utf)
  have "0 \<le> MQTTProperties_len props" using pb(2) by linarith
  then have small: "length sb < 2 ^ 62" "length ub < 2 ^ 62" using sl ul assms(5) by (auto split: if_splits)
  have "MQTTPacket_send_subscribe alloc topics qoss opts props msgid 0 version n = Inr (put (framed 0x82 sb) n)"
    unfolding MQTTPacket_send_subscribe_def Let_def sl [symmetric] pv(1) h
    using ts(1) filled_exact [of sb] MQTTPacket_send_framed [OF assms(3) small(1) h(3)]
      malloc_small [OF assms(3), of "int (length sb)"] small(1)
    by (simp add: sb_def [symmetric])
  moreover have "MQTTPacket_send_unsubscribe alloc topics props msgid 0 version n = Inr (put (framed 0xA2 ub) n)"
    unfolding MQTTPacket_send_unsubscribe_def Let_def ul [symmetric] pv(1) h
    using filled_exact [of ub] MQTTPacket_send_framed [OF assms(3) small(2) h(4)]
      malloc_small [OF assms(3), of "int (length ub)"] small(2)
    by (simp add: ub_def [symmetric])
  ultimately show ?thesis by (auto simp: sb_def ub_def)
qed

text \<open>
  C6: a published message arrives unchanged. Sending a well-formed \<^verbatim>\<open>Publish\<close> (topic below \<open>2 ^ 16\<close>
  bytes, message id of 16 bits, payload length right, properties well formed, all below \<open>2 ^ 28\<close>
  bytes) hands one packet to the transport; the packet factory of the same protocol version makes
  of its bytes a publish with the same topic, payload and flags, the same message id if the
  quality of service is above 0, and, in MQTT 5, the same properties. With quality of service
  above 0 the packet is persisted under its message id before it is sent.
\<close>
theorem publish_roundtrip:
  assumes "publish_ok pack ps qos" and "\<forall>n. alloc n" and "dup \<in> {0, 1}" and "retained \<in> {0, 1}"
  shows "\<exists>rc n' body pack'. MQTTPacket_send_publish alloc pack dup qos retained n = Inr (rc, n') \<and>
    (let packet = framed (mk_header PUBLISH dup qos retained) body in
     sent n' = sent n @ [packet] \<and>
     persisted n' = persisted n @ (if 0 < qos then [(PUBLISH, pub_msgId pack, packet)] else []) \<and>
     MQTTPacket_Factory alloc (pub_version pack) (wire packet) (getdata_of body) persist =
       Inr (if qos = 2 then persist else TCPSOCKET_COMPLETE, Some (P_Publish pack'))) \<and>
    pub_topic pack' = pub_topic pack \<and> pub_payload pack' = pub_payload pack \<and>
    pub_msgId pack' = (if 0 < qos then pub_msgId pack else 0) \<and>
    hdr_dup (pub_header pack') = nat dup \<and> hdr_qos (pub_header pack') = nat qos \<and>
    hdr_retain (pub_header pack') = nat retained \<and>
    (5 \<le> pub_version pack \<longrightarrow> holds (pub_properties pack') ps)"
proof -
  let ?h = "mk_header PUBLISH dup qos retained" and ?body = "publish_body pack ps qos"
  have "0 \<le> qos" "qos < 4" "qos \<le> 2" using assms(1) by (simp_all add: publish_ok_def)
  note bits = mk_header_bits [OF _ assms(3) this(1,2) assms(4), of PUBLISH]
  then have h: "hdr_type ?h = PUBLISH" "hdr_qos ?h = nat qos" "hdr_dup ?h = nat dup" "hdr_retain ?h = nat retained"
    by (simp_all add: PUBLISH_def)
  from send_publish_framed [OF assms, of n] obtain n1 where
    send: "MQTTPacket_send_publish alloc pack dup qos retained n = Inr (put (framed ?h ?body) n1)"
    and n1: "sent n1 = sent n" "persisted n1 = persisted n @ (if 0 < qos
        then [(PUBLISH, pub_msgId pack, framed ?h ?body)] else [])" by blast
  from MQTTPacket_publish_body [OF assms(1,2) h(2)] obtain pack' where
    p: "MQTTPacket_publish alloc (pub_version pack) ?h ?body (length ?body) = Inr (Some pack')"
    "pub_header pack' = ?h" "pub_topic pack' = pub_topic pack"
    "pub_msgId pack' = (if 0 < qos then pub_msgId pack else 0)" "pub_payload pack' = pub_payload pack"
    "5 \<le> pub_version pack \<longrightarrow> holds (pub_properties pack') ps" by blast
  have "MQTTPacket_Factory alloc (pub_version pack) (wire (framed ?h ?body)) (getdata_of ?body) persist =
      Inr (if hdr_type ?h = PUBLISH \<and> hdr_qos ?h = 2 then persist else TCPSOCKET_COMPLETE, Some (P_Publish pack'))"
    using publish_body_small [OF assms(1)] p(1) assms(2) h(1)
    by (intro factory_framed) (simp_all add: packet_types new_packets_def Let_def)
  moreover have "nat qos = 2 \<longleftrightarrow> qos = 2" by auto
  moreover obtain rc n' where "put (framed ?h ?body) n1 = (rc, n')" by fastforce
  ultimately show ?thesis
    using send n1 p h put_facts [of "framed ?h ?body" n1]
    by (intro exI [of _ rc] exI [of _ n'] exI [of _ ?body] exI [of _ pack']) (simp add: Let_def)
qed

definition sample_publish :: Publish where
  "sample_publish = \<lparr>pub_header = 0, pub_topic = [97, 47, 98], pub_topiclen = 3, pub_msgId = 7,
     pub_payload = [1, 2], pub_payloadlen = 2, pub_version = 5, pub_properties = sample_struct\<rparr>"

theorem publish_roundtrip_witness:
  "\<exists>rc n' body pack'. MQTTPacket_send_publish (\<lambda>_. True) sample_publish 0 2 1 net_ok = Inr (rc, n') \<and>
     MQTTPacket_Factory (\<lambda>_. True) 5 (wire (framed (mk_header PUBLISH 0 2 1) body)) (getdata_of body) 0 =
       Inr (0, Some (P_Publish pack')) \<and> pub_msgId pack' = 7 \<and> holds (pub_properties pack') sample_props"
proof -
  have ok: "publish_ok sample_publish sample_props 2"
    unfolding publish_ok_def sample_bytes using sample_holds by (simp add: sample_publish_def)
  have v: "pub_version sample_publish = 5" "pub_msgId sample_publish = 7" by (simp_all add: sample_publish_def)
  from publish_roundtrip [OF ok, of "\<lambda>_. True" 0 1 net_ok 0] show ?thesis
    by (auto simp: Let_def v)
qed

text \<open>
  acknowledgements arrive unchanged. Each of \<^verbatim>\<open>PUBACK\<close>, \<^verbatim>\<open>PUBREC\<close>, \<^verbatim>\<open>PUBREL\<close> and \<^verbatim>\<open>PUBCOMP\<close>, sent for a
  message id of 16 bits, is a packet of four bytes that the factory turns into an acknowledgement
  of the same type and message id, in every protocol version; in MQTT 5 with reason code 0 and no
  properties. A \<^verbatim>\<open>PUBREL\<close> is persisted before it is sent.
\<close>
theorem ack_roundtrip:
  assumes "type \<in> {PUBACK, PUBREC, PUBREL, PUBCOMP}" and "0 \<le> msgid" and "msgid < 65536" and "\<forall>n. alloc n"
    and "dup \<in> {0, 1}"
  shows "\<exists>rc n' packet ack. MQTTPacket_send_ack alloc type msgid dup n = Inr (rc, n') \<and> length packet = 4 \<and>
    sent n' = sent n @ [packet] \<and>
    persisted n' = persisted n @ (if type = PUBREL then [(PUBREL, msgid, packet)] else []) \<and>
    MQTTPacket_Factory alloc version (wire packet) (getdata_of (drop 2 packet)) persist =
      Inr (TCPSOCKET_COMPLETE, Some (P_Ack ack)) \<and>
    hdr_type (ack_header ack) = type \<and> ack_msgId ack = Some msgid \<and>
    (5 \<le> version \<longrightarrow> ack_rc ack = Some 0 \<and> ack_properties ack = Some MQTTProperties_initializer)"
proof -
  define h where "h = mk_header type dup (if type = PUBREL then 1 else 0) 0"
  have "type < 16" using assms(1) by (auto simp: packet_types)
  then have h: "hdr_type h = type"
    using mk_header_bits(1) [of type dup "if type = PUBREL then 1 else 0" 0] assms(5) by (simp add: h_def)
  let ?body = "writeInt msgid"
  have enc: "MQTTPacket_encode 2 = [2]" by (simp add: encode_small)
  have packet: "framed h ?body = h # 2 # ?body" by (simp add: framed_def enc)
  have rd: "readInt ?body 0 = Inr (msgid, 2)"
    using int2.dec_at [of msgid "[]" "[]"] assms(2,3) by (simp add: int2_valid_def)
  have m: "malloc_ok alloc k" if "k \<in> {2, 40}" for k
    using that malloc_small [OF assms(4), of k] by auto
  obtain rc n' where put: "put (framed h ?body) (if type = PUBREL
      then n\<lparr>persisted := persisted n @ [(PUBREL, msgid, framed h ?body)]\<rparr> else n) = (rc, n')" by fastforce
  from arg_cong [OF put, of snd] have n': "sent n' = sent n @ [framed h ?body]"
    "persisted n' = persisted n @ (if type = PUBREL then [(PUBREL, msgid, framed h ?body)] else [])"
    by (auto simp: put_def Let_def)
  have send: "MQTTPacket_send_ack alloc type msgid dup n = Inr (rc, n')"
    using m put rd h
    by (auto simp: MQTTPacket_send_ack_def MQTTPacket_send_def Let_def h_def [symmetric] filled_exact enc packet)
  define ack where "ack = \<lparr>ack_header = h, ack_msgId = Some msgid, ack_rc = (if 5 \<le> version then Some 0 else None),
     ack_version = version, ack_properties = (if 5 \<le> version then Some MQTTProperties_initializer else None)\<rparr>"
  have "MQTTPacket_ack alloc version h ?body 2 = Inr (Some ack)"
    using m rd h assms(1) by (auto simp: MQTTPacket_ack_def Let_def ack_def packet_types)
  then have "MQTTPacket_Factory alloc version (wire (framed h ?body)) (getdata_of ?body) persist =
      Inr (if hdr_type h = PUBLISH \<and> hdr_qos h = 2 then persist else TCPSOCKET_COMPLETE, Some (P_Ack ack))"
    using assms(1,4) h by (intro factory_framed) (auto simp: packet_types new_packets_def Let_def)
  moreover have "type \<noteq> PUBLISH" using assms(1) by (auto simp: packet_types)
  ultimately show ?thesis
    using send n' h packet
    by (intro exI [of _ rc] exI [of _ n'] exI [of _ "framed h ?body"] exI [of _ ack])
      (simp add: ack_def)
qed

text \<open>
  acknowledgements the constructors mishandle. A \<^verbatim>\<open>SUBACK\<close> without return codes makes
  \<open>MQTTPacket_suback\<close> read an unassigned field (before MQTT 5) or use freed memory (MQTT 5); a
  \<^verbatim>\<open>CONNACK\<close> of two bytes in MQTT 5 yields a packet that cannot be freed; and the reason of a
  \<^verbatim>\<open>DISCONNECT\<close> packet that carries only a reason code is ignored: success is reported.
\<close>
theorem short_packets:
  assumes "\<forall>n. alloc n"
  shows "MQTTPacket_suback alloc 4 0x90 [hi, lo] 2 = Inl UninitRead \<and>
    MQTTPacket_suback alloc 5 0x90 [hi, lo, 0] 3 = Inl UseAfterFree \<and>
    (\<exists>pack. MQTTPacket_connack alloc 5 0x20 [fl, rc] 2 = Inr (Some pack) \<and>
       MQTTPacket_freeConnack pack = Inl UninitRead) \<and>
    (\<exists>pack. MQTTPacket_ack alloc 5 0xE0 [reason] 1 = Inr (Some pack) \<and> ack_rc pack = Some 0)"
proof -
  have m: "malloc_ok alloc 48" "malloc_ok alloc 32" "malloc_ok alloc 40"
    using malloc_small [OF assms] by simp_all
  have dec: "MQTTPacket_decodeBuf [hi, lo, 0] 2 = Inr (1, 0)"
    using decodeBuf_encode [of 0 2 "[hi, lo, 0]" "[]"] by (simp add: encode_small)
  have pr: "MQTTProperties_read alloc MQTTProperties_initializer [hi, lo, 0] 2 3 =
      Inr (1, MQTTProperties_initializer, 3)"
    by (simp add: MQTTProperties_read_def dec read_props.simps [of _ _ _ 0] MQTTProperties_initializer_def)
  have "hdr_type 0xE0 = DISCONNECT" by code_simp
  then show ?thesis
    using m pr [unfolded numeral_2_eq_2]
    by (simp add: MQTTPacket_suback_def MQTTPacket_connack_def MQTTPacket_ack_def readInt_def readChar_def
        MQTTPacket_freeConnack_def free_properties_def Let_def)
qed

end
