(* ===== verification/Message_Ids.thy ===== *)
theory Message_Ids
  imports Mqtt_Prelude
begin

text \<open>
  The search for a message id that is not in use, which \<^verbatim>\<open>MQTTProtocol_assignMsgId\<close> and
  \<^verbatim>\<open>MQTTAsync_assignMsgId\<close> share: they try the ids after the last one in turn and stop when they come
  back to it. Shown: what the search returns, and when it does not end.
\<close>

definition MAX_MSG_ID :: int where "MAX_MSG_ID = 65535"

definition next_id :: "int \<Rightarrow> int" where
  "next_id msgid = (if msgid = MAX_MSG_ID then 1 else msgid + 1)"

partial_function (option) search_id :: "(int \<Rightarrow> bool) \<Rightarrow> int \<Rightarrow> int \<Rightarrow> int option" where
  "search_id used start msgid =
     (if used msgid then
        let msgid' = next_id msgid in
        if msgid' = start then Some 0 else search_id used start msgid'
      else Some msgid)"

text \<open>The \<open>j\<close>-th candidate after \<open>start\<close>, for the candidates before it comes round to \<open>start\<close>.\<close>

definition id_at :: "int \<Rightarrow> nat \<Rightarrow> int" where
  "id_at start j = (if start + int j \<le> 65535 then start + int j else start + int j - 65535)"

lemma id_at_range: "1 \<le> start \<Longrightarrow> start \<le> 65535 \<Longrightarrow> j \<le> 65535 \<Longrightarrow> 1 \<le> id_at start j \<and> id_at start j \<le> 65535"
  by (simp add: id_at_def)

lemma next_id_at:
  "1 \<le> start \<Longrightarrow> start \<le> 65535 \<Longrightarrow> j < 65535 \<Longrightarrow> next_id (id_at start j) = id_at start (Suc j)"
  by (simp add: id_at_def next_id_def MAX_MSG_ID_def)

lemma id_at_start:
  "1 \<le> start \<Longrightarrow> start \<le> 65535 \<Longrightarrow> 1 \<le> j \<Longrightarrow> j \<le> 65535 \<Longrightarrow> id_at start j = start \<longleftrightarrow> j = 65535"
  by (auto simp: id_at_def)

lemma id_at_onto:
  assumes "1 \<le> start" "start \<le> 65535" "1 \<le> y" "y \<le> 65535" "y \<noteq> start"
  obtains j where "1 \<le> j" "j \<le> 65534" "id_at start j = y"
proof (cases "start < y")
  case True
  then show thesis using assms by (intro that [of "nat (y - start)"]) (simp_all add: id_at_def nat_le_iff)
next
  case False
  then show thesis using assms by (intro that [of "nat (y - start + 65535)"]) (simp_all add: id_at_def nat_le_iff)
qed

lemma search_from:
  assumes "1 \<le> start" "start \<le> 65535" "1 \<le> j" "j \<le> 65534"
  shows "(\<exists>k. j \<le> k \<and> k \<le> 65534 \<and> \<not> used (id_at start k) \<and>
      search_id used start (id_at start j) = Some (id_at start k)) \<or>
    (\<forall>k. j \<le> k \<and> k \<le> 65534 \<longrightarrow> used (id_at start k)) \<and>
      search_id used start (id_at start j) = Some 0"
  using assms(3,4)
proof (induction "65534 - j" arbitrary: j)
  case 0
  then have j: "j = 65534" by simp
  have "next_id (id_at start j) = start"
    using id_at_start [OF assms(1,2), of "Suc j"] assms(1,2) by (simp add: next_id_at j)
  then show ?case
    by (subst (1 2) search_id.simps) (auto simp: j Let_def)
next
  case (Suc n)
  show ?case
  proof (cases "used (id_at start j)")
    case False
    then have "search_id used start (id_at start j) = Some (id_at start j)"
      by (subst search_id.simps) simp
    with False Suc.prems show ?thesis by blast
  next
    case True
    have j: "j < 65534" using Suc.hyps(2) by simp
    then have "next_id (id_at start j) \<noteq> start"
      using id_at_start [OF assms(1,2), of "Suc j"] assms(1,2) by (simp add: next_id_at)
    with True j assms(1,2) have step: "search_id used start (id_at start j) = search_id used start (id_at start (Suc j))"
      by (subst search_id.simps) (simp add: Let_def next_id_at)
    have "n = 65534 - Suc j" "1 \<le> Suc j" "Suc j \<le> 65534" using Suc.hyps(2) Suc.prems by simp_all
    from Suc.hyps(1) [OF this] show ?thesis
    proof
      assume "\<exists>k. Suc j \<le> k \<and> k \<le> 65534 \<and> \<not> used (id_at start k) \<and>
        search_id used start (id_at start (Suc j)) = Some (id_at start k)"
      then show ?thesis using step by (auto dest: Suc_leD)
    next
      assume all: "(\<forall>k. Suc j \<le> k \<and> k \<le> 65534 \<longrightarrow> used (id_at start k)) \<and>
        search_id used start (id_at start (Suc j)) = Some 0"
      have "used (id_at start k)" if "j \<le> k" "k \<le> 65534" for k
        using all True that by (cases "k = j") auto
      with all step show ?thesis by auto
    qed
  qed
qed

text \<open>From the initial value 0 the search never gives up: it finds a free id or runs forever.\<close>

lemma search_zero_free:
  assumes "1 \<le> x" "x \<le> y" "y \<le> 65535" "\<not> used y"
  shows "\<exists>z. 1 \<le> z \<and> z \<le> 65535 \<and> \<not> used z \<and> search_id used 0 x = Some z"
  using assms(1,2)
proof (induction "nat (y - x)" arbitrary: x)
  case 0
  then have "x = y" by simp
  with assms have "search_id used 0 x = Some x" by (subst search_id.simps) simp
  with \<open>x = y\<close> assms show ?case by (intro exI [of _ y]) simp
next
  case (Suc n)
  show ?case
  proof (cases "used x")
    case False
    then have "search_id used 0 x = Some x" by (subst search_id.simps) simp
    with False Suc.prems assms(3) show ?thesis by (intro exI [of _ x]) simp
  next
    case True
    have "x < y" using Suc.hyps(2) by simp
    then have "next_id x = x + 1" using assms(3) by (simp add: next_id_def MAX_MSG_ID_def)
    with True Suc.prems have "search_id used 0 x = search_id used 0 (x + 1)"
      by (subst search_id.simps) (simp add: Let_def)
    moreover have "n = nat (y - (x + 1))" "1 \<le> x + 1" "x + 1 \<le> y" using Suc.hyps(2) Suc.prems \<open>x < y\<close> by simp_all
    ultimately show ?thesis using Suc.hyps(1) [of "x + 1"] by simp
  qed
qed

lemma search_zero_all_used:
  assumes "search_id used start x = Some r"
  shows "start = 0 \<and> (\<forall>y. 1 \<le> y \<and> y \<le> 65535 \<longrightarrow> used y) \<longrightarrow> \<not> (1 \<le> x \<and> x \<le> 65535)"
proof (rule search_id.raw_induct [where P = "\<lambda>used start x r.
    start = 0 \<and> (\<forall>y. 1 \<le> y \<and> y \<le> 65535 \<longrightarrow> used y) \<longrightarrow> \<not> (1 \<le> x \<and> x \<le> 65535)", OF _ assms])
  fix loop :: "(int \<Rightarrow> bool) \<Rightarrow> int \<Rightarrow> int \<Rightarrow> int option" and used start x r
  assume IH: "\<And>used start x r. loop used start x = Some r \<Longrightarrow>
      start = 0 \<and> (\<forall>y. 1 \<le> y \<and> y \<le> 65535 \<longrightarrow> used y) \<longrightarrow> \<not> (1 \<le> x \<and> x \<le> 65535)"
    and step: "(if used x then
        let msgid' = next_id x in if msgid' = start then Some 0 else loop used start msgid'
      else Some x) = Some r"
  show "start = 0 \<and> (\<forall>y. 1 \<le> y \<and> y \<le> 65535 \<longrightarrow> used y) \<longrightarrow> \<not> (1 \<le> x \<and> x \<le> 65535)"
  proof (intro impI notI)
    assume a: "start = 0 \<and> (\<forall>y. 1 \<le> y \<and> y \<le> 65535 \<longrightarrow> used y)" and x: "1 \<le> x \<and> x \<le> 65535"
    then have n: "1 \<le> next_id x \<and> next_id x \<le> 65535" by (simp add: next_id_def MAX_MSG_ID_def)
    with a x step have "loop used start (next_id x) = Some r" by (simp add: Let_def)
    from IH [OF this] a n show False by blast
  qed
qed

lemma search_zero_stuck:
  assumes "\<forall>y. 1 \<le> y \<and> y \<le> 65535 \<longrightarrow> used y" and "1 \<le> x" "x \<le> 65535"
  shows "search_id used 0 x = None"
  using search_zero_all_used [of used 0 x] assms by (cases "search_id used 0 x") simp_all

text \<open>
  The result: 0 when no id other than the last one is free, and no result at all when the last one is
  the initial 0 and none is free.
\<close>

lemma search_id_result:
  fixes used :: "int \<Rightarrow> bool"
  assumes "0 \<le> start" "start \<le> 65535"
  defines "free \<equiv> {x \<in> {1..65535}. \<not> used x}"
  shows "if free \<subseteq> {start} then search_id used start (next_id start) = (if start = 0 then None else Some 0)
    else \<exists>x \<in> free. search_id used start (next_id start) = Some x"
proof (cases "start = 0")
  case True
  have n: "next_id start = 1" by (simp add: True next_id_def MAX_MSG_ID_def)
  show ?thesis
  proof (cases "free \<subseteq> {start}")
    case False
    then obtain y where "1 \<le> y" "y \<le> 65535" "\<not> used y" by (auto simp: free_def)
    then obtain z where "1 \<le> z" "z \<le> 65535" "\<not> used z" "search_id used 0 1 = Some z"
      using search_zero_free [of 1 y used] by auto
    with False n True show ?thesis by (auto simp: free_def)
  next
    case stuck: True
    then have "\<forall>y. 1 \<le> y \<and> y \<le> 65535 \<longrightarrow> used y" using True by (auto simp: free_def)
    from search_zero_stuck [OF this, of 1] n stuck True show ?thesis by simp
  qed
next
  case False
  with assms(1) have s: "1 \<le> start" by simp
  have n: "next_id start = id_at start 1" using next_id_at [of start 0] s assms(2) by (simp add: id_at_def)
  have one: "(1 :: nat) \<le> 65534" by simp
  from search_from [OF s assms(2) order_refl one, of used] show ?thesis
  proof (elim disjE conjE exE)
    fix k assume k: "1 \<le> k" "k \<le> 65534" "\<not> used (id_at start k)" "search_id used start (id_at start 1) = Some (id_at start k)"
    then have "id_at start k \<in> free" "id_at start k \<noteq> start"
      using id_at_range [OF s assms(2), of k] id_at_start [OF s assms(2), of k] by (simp_all add: free_def)
    with k(4) n show ?thesis by auto
  next
    assume all: "\<forall>k. 1 \<le> k \<and> k \<le> 65534 \<longrightarrow> used (id_at start k)" and r: "search_id used start (id_at start 1) = Some 0"
    have "y = start" if "y \<in> free" for y
      using that all s assms(2) id_at_onto [of start y] by (auto simp: free_def)
    with r n False show ?thesis by auto
  qed
qed

end
