(* ===== verification/Protocol_Client.thy ===== *)
theory Protocol_Client
  imports Packet_Out Message_Ids "HOL-Library.Multiset"
begin

text \<open>
  The MQTT protocol engine of a client: \<^verbatim>\<open>MQTTProtocolClient.c\<close>, with \<^verbatim>\<open>Protocol_processPublication\<close> of
  \<^verbatim>\<open>MQTTAsync.c\<close>, the comparison functions of \<^verbatim>\<open>Clients.c\<close> and \<^verbatim>\<open>MQTTTime_difftime\<close>.

  Stored publications are shared by pointer, so they live in an explicit store: a pointer is a
  number, \<open>pubs\<close> maps the live ones to their contents, \<open>publications\<close> is the list
  \<^verbatim>\<open>state.publications\<close>. Message lists are lists; \<^verbatim>\<open>ListFindItem\<close> finds the message with a given id,
  which is unique in a list.

  Inputs of the model: the allocator, whether a socket has no pending writes, whether the
  application's callback accepts a message, the clock, the result of removing a persisted packet,
  and \<^verbatim>\<open>MQTTProtocol_closeSession\<close>, which belongs to the client API above this layer.
\<close>

section \<open>State\<close>

record Publications =
  p_topic :: "byte list"
  p_topiclen :: int
  p_payload :: "byte list"
  p_payloadlen :: int
  refcount :: int

record Messages =
  m_qos :: int
  m_retain :: int
  m_msgid :: int
  m_version :: int
  m_properties :: "MQTTProperties option"
  m_publish :: "nat option"
  m_lastTouch :: int
  m_next :: "nat option"

record app_message =
  a_topic :: "byte list"
  a_payload :: "byte list"
  a_qos :: int
  a_retained :: int
  a_dup :: int
  a_msgid :: int
  a_properties :: "MQTTProperties option"

record Clients = conn_client +
  socket :: int
  cnet :: net
  lastReceived :: int
  lastPing :: int
  connected :: bool
  good :: bool
  ping_outstanding :: bool
  msgID :: int
  retryInterval :: int
  inboundMsgs :: "Messages list"
  outboundMsgs :: "Messages list"
  messageQueue :: "app_message list"
  delivered :: "app_message list"

record MQTTProtocol =
  pubs :: "nat \<rightharpoonup> Publications"
  publications :: "nat list"
  next_pub :: nat
  msgs_received :: u32
  msgs_sent :: u32
  pending_writes :: "(int \<times> nat) list"

record env =
  alloc :: "int \<Rightarrow> bool"
  noPendingWrites :: "int \<Rightarrow> nat \<Rightarrow> bool"
  callback :: bool
  now :: int
  persist_remove :: int

section \<open>Searching\<close>

definition clientIDCompare :: "Clients \<Rightarrow> byte list \<Rightarrow> bool" where
  "clientIDCompare c b \<longleftrightarrow> clientID c = b"

definition clientSocketCompare :: "Clients \<Rightarrow> int \<Rightarrow> bool" where
  "clientSocketCompare c sock \<longleftrightarrow> socket c = sock"

definition messageIDCompare :: "Messages \<Rightarrow> int \<Rightarrow> bool" where
  "messageIDCompare m msgid \<longleftrightarrow> m_msgid m = msgid"

definition find_msg :: "int \<Rightarrow> Messages list \<Rightarrow> nat option" where
  "find_msg msgid ms = first_index (\<lambda>m. messageIDCompare m msgid) ms"

definition MQTTProtocol_assignMsgId :: "Clients \<Rightarrow> (int \<times> Clients) option" where
  "MQTTProtocol_assignMsgId c =
     map_option (\<lambda>msgid. (msgid, if msgid \<noteq> 0 then c\<lparr>msgID := msgid\<rparr> else c))
       (search_id (\<lambda>msgid. find_msg msgid (outboundMsgs c) \<noteq> None) (msgID c) (next_id (msgID c)))"

section \<open>Stored publications\<close>

text \<open>
  \<^verbatim>\<open>MQTTProtocol_storePublication\<close>: the new pointer, or \<open>None\<close> if there is no memory. It takes over
  topic and payload.
\<close>

definition MQTTProtocol_storePublication ::
  "(int \<Rightarrow> bool) \<Rightarrow> Publish \<Rightarrow> MQTTProtocol \<Rightarrow> nat option \<times> MQTTProtocol" where
  "MQTTProtocol_storePublication al publish st =
     (if malloc_ok al 40 \<and> malloc_ok al 24 then
        (Some (next_pub st),
         st\<lparr>pubs := (pubs st)(next_pub st \<mapsto>
               \<lparr>p_topic = pub_topic publish, p_topiclen = pub_topiclen publish, p_payload = pub_payload publish,
                p_payloadlen = pub_payloadlen publish, refcount = 1\<rparr>),
            publications := publications st @ [next_pub st], next_pub := Suc (next_pub st)\<rparr>)
      else (None, st))"

definition drop_publication :: "nat \<Rightarrow> MQTTProtocol \<Rightarrow> MQTTProtocol" where
  "drop_publication p st = st\<lparr>pubs := (pubs st)(p := None), publications := remove1 p (publications st)\<rparr>"

definition MQTTProtocol_removePublication :: "nat option \<Rightarrow> MQTTProtocol \<Rightarrow> MQTTProtocol res" where
  "MQTTProtocol_removePublication ptr st =
     (case ptr of
        None \<Rightarrow> Inr st
      | Some p \<Rightarrow>
          (case pubs st p of
             None \<Rightarrow> Inl UseAfterFree
           | Some r \<Rightarrow>
               if refcount r - 1 = 0 then Inr (drop_publication p st)
               else Inr (st\<lparr>pubs := (pubs st)(p \<mapsto> r\<lparr>refcount := refcount r - 1\<rparr>)\<rparr>)))"

definition deref :: "nat option \<Rightarrow> MQTTProtocol \<Rightarrow> Publications res" where
  "deref ptr st =
     (case ptr of
        None \<Rightarrow> Inl NullDeref
      | Some p \<Rightarrow> (case pubs st p of None \<Rightarrow> Inl UseAfterFree | Some r \<Rightarrow> Inr r))"

definition payload_bytes :: "byte list \<Rightarrow> int \<Rightarrow> byte list res" where
  "payload_bytes payload n = guardR OverRead (0 \<le> n \<and> nat n \<le> length payload) (Inr (take (nat n) payload))"

section \<open>Starting a publish exchange\<close>

text \<open>
  \<^verbatim>\<open>MQTTProtocol_createMessage\<close> with \<^verbatim>\<open>*mm\<close> null, as its callers use it; \<open>None\<close> is the null pointer. When
  \<^verbatim>\<open>allocatePayload\<close> is set the payload is copied.
\<close>

definition MQTTProtocol_createMessage ::
  "env \<Rightarrow> Publish \<Rightarrow> int \<Rightarrow> int \<Rightarrow> bool \<Rightarrow> MQTTProtocol \<Rightarrow> (Messages option \<times> MQTTProtocol) res" where
  "MQTTProtocol_createMessage e publish qos retained allocatePayload st =
     (if \<not> malloc_ok (alloc e) 72 then Inr (None, st)
      else
        (case MQTTProtocol_storePublication (alloc e) publish st of
           (None, st1) \<Rightarrow> Inl UseAfterFree
         | (Some p, st1) \<Rightarrow>
             bindR (if allocatePayload then
                      if malloc_ok (alloc e) (pub_payloadlen publish)
                      then bindR (payload_bytes (pub_payload publish) (pub_payloadlen publish)) (\<lambda>bs.
                             Inr (st1\<lparr>pubs := (pubs st1)(p := map_option (\<lambda>r. r\<lparr>p_payload := bs\<rparr>) (pubs st1 p))\<rparr>))
                      else Inl UseAfterFree
                    else Inr st1) (\<lambda>st2.
             bindR (if 5 \<le> pub_version publish
                    then bindR (MQTTProperties_copy (alloc e) (pub_properties publish)) (\<lambda>ps. Inr (Some ps))
                    else Inr None) (\<lambda>props.
               Inr (Some \<lparr>m_qos = qos, m_retain = retained, m_msgid = pub_msgId publish,
                      m_version = pub_version publish, m_properties = props, m_publish = Some p,
                      m_lastTouch = now e, m_next = (if qos = 2 then Some PUBREC else None)\<rparr>, st2)))))"

definition MQTTProtocol_storeQoS0 ::
  "env \<Rightarrow> Clients \<Rightarrow> Publish \<Rightarrow> MQTTProtocol \<Rightarrow> MQTTProtocol" where
  "MQTTProtocol_storeQoS0 e c publish st =
     (if \<not> malloc_ok (alloc e) 16 then st
      else
        (case MQTTProtocol_storePublication (alloc e) publish st of
           (None, st1) \<Rightarrow> st1
         | (Some p, st1) \<Rightarrow> st1\<lparr>pending_writes := pending_writes st1 @ [(socket c, p)]\<rparr>))"

definition MQTTProtocol_startPublishCommon ::
  "env \<Rightarrow> Publish \<Rightarrow> int \<Rightarrow> int \<Rightarrow> Clients \<Rightarrow> MQTTProtocol \<Rightarrow> (int \<times> Clients \<times> MQTTProtocol) res" where
  "MQTTProtocol_startPublishCommon e publish qos retained c st =
     bindR (MQTTPacket_send_publish (alloc e) publish 0 qos retained (cnet c)) (\<lambda>(rc, n).
       Inr (rc, c\<lparr>cnet := n\<rparr>,
         if qos = 0 \<and> rc = TCPSOCKET_INTERRUPTED then MQTTProtocol_storeQoS0 e c publish st else st))"

definition MQTTProtocol_startPublish ::
  "env \<Rightarrow> Publish \<Rightarrow> int \<Rightarrow> int \<Rightarrow> Clients \<Rightarrow> MQTTProtocol \<Rightarrow> (int \<times> Clients \<times> MQTTProtocol) res" where
  "MQTTProtocol_startPublish e publish qos retained c st =
     (if 0 < qos then
        bindR (MQTTProtocol_createMessage e publish qos retained False st) (\<lambda>(mm, st1).
          case mm of
            None \<Rightarrow> Inl NullDeref
          | Some m \<Rightarrow>
              bindR (deref (m_publish m) st1) (\<lambda>r.
                MQTTProtocol_startPublishCommon e
                  (publish\<lparr>pub_payload := p_payload r, pub_topic := p_topic r,
                     pub_properties := (case m_properties m of None \<Rightarrow> pub_properties publish | Some ps \<Rightarrow> ps),
                     pub_version := m_version m\<rparr>)
                  qos retained (c\<lparr>outboundMsgs := outboundMsgs c @ [m]\<rparr>) st1))
      else MQTTProtocol_startPublishCommon e publish qos retained c st)"

section \<open>Handing a message to the application\<close>

text \<open>
  \<^verbatim>\<open>Protocol_processPublication\<close>: if nothing is queued and the client is connected, the callback is
  tried; a message that it does not take is queued. Without memory the message is dropped.
\<close>

definition Protocol_processPublication ::
  "env \<Rightarrow> Publish \<Rightarrow> bool \<Rightarrow> Clients \<Rightarrow> Clients res" where
  "Protocol_processPublication e publish allocatePayload c =
     (if \<not> malloc_ok (alloc e) 64 then Inr c
      else if allocatePayload \<and> \<not> malloc_ok (alloc e) (pub_payloadlen publish) then Inr c
      else
        bindR (payload_bytes (pub_payload publish) (pub_payloadlen publish)) (\<lambda>payload.
        bindR (if 5 \<le> pub_version publish
               then bindR (MQTTProperties_copy (alloc e) (pub_properties publish)) (\<lambda>ps. Inr (Some ps))
               else Inr None) (\<lambda>props.
          let h = pub_header publish;
              mm = \<lparr>a_topic = pub_topic publish, a_payload = payload, a_qos = int (hdr_qos h),
                    a_retained = int (hdr_retain h), a_dup = (if hdr_qos h = 2 then 0 else int (hdr_dup h)),
                    a_msgid = pub_msgId publish, a_properties = props\<rparr> in
          if messageQueue c = [] \<and> connected c \<and> callback e then Inr (c\<lparr>delivered := delivered c @ [mm]\<rparr>)
          else if malloc_ok (alloc e) 24 then Inr (c\<lparr>messageQueue := messageQueue c @ [mm]\<rparr>)
          else Inr c)))"

section \<open>Incoming publications\<close>

text \<open>
  Storing a QoS 2 publication in the inbound list: a message with the same id is replaced, its
  publication and properties released.
\<close>

definition store_inbound ::
  "Messages \<Rightarrow> Clients \<Rightarrow> MQTTProtocol \<Rightarrow> (bool \<times> Clients \<times> MQTTProtocol) res" where
  "store_inbound m c st =
     (case find_msg (m_msgid m) (inboundMsgs c) of
        Some i \<Rightarrow>
          let old = inboundMsgs c ! i in
          bindR (MQTTProtocol_removePublication (m_publish old) st) (\<lambda>st1.
          bindR (free_properties (m_version old) (m_properties old)) (\<lambda>_.
            Inr (True, c\<lparr>inboundMsgs := (inboundMsgs c)[i := m]\<rparr>, st1)))
      | None \<Rightarrow> Inr (False, c\<lparr>inboundMsgs := inboundMsgs c @ [m]\<rparr>, st))"

definition set_msg :: "int \<Rightarrow> (Messages \<Rightarrow> Messages) \<Rightarrow> Messages list \<Rightarrow> Messages list" where
  "set_msg msgid f ms = (case find_msg msgid ms of None \<Rightarrow> ms | Some i \<Rightarrow> ms[i := f (ms ! i)])"

definition handle_qos2 ::
  "env \<Rightarrow> Publish \<Rightarrow> Clients \<Rightarrow> MQTTProtocol \<Rightarrow> (int \<times> Clients \<times> MQTTProtocol) res" where
  "handle_qos2 e publish c st =
     (if \<not> malloc_ok (alloc e) 72 then Inr (PAHO_MEMORY_ERROR, c, st)
      else
        (case MQTTProtocol_storePublication (alloc e) publish st of
           (p, st1) \<Rightarrow>
             bindR (if 5 \<le> pub_version publish
                    then bindR (MQTTProperties_copy (alloc e) (pub_properties publish)) (\<lambda>ps. Inr (Some ps))
                    else Inr None) (\<lambda>props.
             let m = \<lparr>m_qos = int (hdr_qos (pub_header publish)), m_retain = int (hdr_retain (pub_header publish)),
                      m_msgid = pub_msgId publish, m_version = pub_version publish, m_properties = props,
                      m_publish = p, m_lastTouch = 0, m_next = Some PUBREL\<rparr> in
             bindR (store_inbound m c st1) (\<lambda>(already_received, c2, st2).
             bindR (MQTTPacket_send_pubrec (alloc e) (pub_msgId publish) (cnet c2)) (\<lambda>(rc, n).
             bindR (deref p st2) (\<lambda>r.
               let c3 = c2\<lparr>cnet := n\<rparr> in
               if 5 \<le> m_version m \<and> \<not> already_received then
                 bindR (Protocol_processPublication e
                   (publish\<lparr>pub_header := mk_header 0 0 (m_qos m) (m_retain m), pub_topic := p_topic r,
                      pub_topiclen := p_topiclen r, pub_payload := p_payload r, pub_payloadlen := p_payloadlen r,
                      pub_properties := (case m_properties m of None \<Rightarrow> MQTTProperties_initializer | Some ps \<Rightarrow> ps)\<rparr>)
                   True c3) (\<lambda>c4.
                 Inr (rc, c4\<lparr>inboundMsgs := set_msg (m_msgid m) (\<lambda>x. x\<lparr>m_publish := None\<rparr>) (inboundMsgs c4)\<rparr>,
                      drop_publication (the p) st2))
               else if malloc_ok (alloc e) (p_payloadlen r) then
                 bindR (payload_bytes (p_payload r) (p_payloadlen r)) (\<lambda>bs.
                   Inr (rc, c3, st2\<lparr>pubs := (pubs st2)(the p \<mapsto> r\<lparr>p_payload := bs\<rparr>)\<rparr>))
               else Inr (PAHO_MEMORY_ERROR, c3, st2\<lparr>pubs := (pubs st2)(the p \<mapsto> r\<lparr>p_payload := []\<rparr>)\<rparr>)))))))"

text \<open>\<^verbatim>\<open>MQTTProtocol_handlePublishes\<close> for the client of the socket; the packet is freed at the end.\<close>

definition handle_publish ::
  "env \<Rightarrow> Publish \<Rightarrow> Clients \<Rightarrow> MQTTProtocol \<Rightarrow> (int \<times> Clients \<times> MQTTProtocol) res" where
  "handle_publish e publish c st =
     bindR
       (if hdr_qos (pub_header publish) = 0 then
          bindR (Protocol_processPublication e publish True c) (\<lambda>c'. Inr (TCPSOCKET_COMPLETE, c', st))
        else if \<not> noPendingWrites e (socket c) 0 then Inr (SOCKET_ERROR, c, st)
        else if hdr_qos (pub_header publish) = 1 then
          bindR (MQTTPacket_send_puback (alloc e) (pub_msgId publish) (cnet c)) (\<lambda>(rc, n).
          bindR (Protocol_processPublication e publish True (c\<lparr>cnet := n\<rparr>)) (\<lambda>c'. Inr (rc, c', st)))
        else if hdr_qos (pub_header publish) = 2 then handle_qos2 e publish c st
        else Inr (TCPSOCKET_COMPLETE, c, st))
       (\<lambda>(rc, c', st'). bindR (MQTTPacket_freePublish publish) (\<lambda>_. Inr (rc, c', st')))"

section \<open>Incoming acknowledgements\<close>

text \<open>Releasing an outbound message: its publication, its properties, its list entry.\<close>

definition release_outbound ::
  "nat \<Rightarrow> Clients \<Rightarrow> MQTTProtocol \<Rightarrow> (Clients \<times> MQTTProtocol) res" where
  "release_outbound i c st =
     (let m = outboundMsgs c ! i in
      bindR (MQTTProtocol_removePublication (m_publish m) st) (\<lambda>st1.
      bindR (free_properties (m_version m) (m_properties m)) (\<lambda>_.
        Inr (c\<lparr>outboundMsgs := remove_nth i (outboundMsgs c)\<rparr>, st1))))"

definition handle_puback ::
  "env \<Rightarrow> Ack \<Rightarrow> Clients \<Rightarrow> MQTTProtocol \<Rightarrow> (int \<times> Clients \<times> MQTTProtocol) res" where
  "handle_puback e puback c st =
     (case ack_msgId puback of
        None \<Rightarrow> Inl UninitRead
      | Some msgid \<Rightarrow>
          bindR (case find_msg msgid (outboundMsgs c) of
                   None \<Rightarrow> Inr (TCPSOCKET_COMPLETE, c, st)
                 | Some i \<Rightarrow>
                     if m_qos (outboundMsgs c ! i) \<noteq> 1 then Inr (TCPSOCKET_COMPLETE, c, st)
                     else bindR (release_outbound i c st) (\<lambda>(c', st'). Inr (persist_remove e, c', st')))
            (\<lambda>r. bindR (MQTTPacket_freeAck puback) (\<lambda>_. Inr r)))"

definition handle_pubrec ::
  "env \<Rightarrow> Ack \<Rightarrow> Clients \<Rightarrow> MQTTProtocol \<Rightarrow> (int \<times> Clients \<times> MQTTProtocol) res" where
  "handle_pubrec e pubrec c st =
     (case ack_msgId pubrec of
        None \<Rightarrow> Inl UninitRead
      | Some msgid \<Rightarrow>
          bindR (case find_msg msgid (outboundMsgs c) of
                   None \<Rightarrow> Inr (TCPSOCKET_COMPLETE, c, st)
                 | Some i \<Rightarrow>
                     let m = outboundMsgs c ! i in
                     if m_qos m \<noteq> 2 then Inr (TCPSOCKET_COMPLETE, c, st)
                     else if m_next m \<noteq> Some PUBREC then Inr (TCPSOCKET_COMPLETE, c, st)
                     else if 5 \<le> ack_version pubrec \<and> (case ack_rc pubrec of None \<Rightarrow> False | Some b \<Rightarrow> 128 \<le> unat b) then
                       bindR (release_outbound i c st) (\<lambda>(c', st').
                         Inr (persist_remove e, c', st'\<lparr>msgs_sent := msgs_sent st' + 1\<rparr>))
                     else
                       bindR (MQTTPacket_send_pubrel (alloc e) msgid 0 (cnet c)) (\<lambda>(rc, n).
                         Inr (rc, c\<lparr>cnet := n, outboundMsgs := (outboundMsgs c)[i :=
                                 m\<lparr>m_next := Some PUBCOMP, m_lastTouch := now e\<rparr>]\<rparr>, st)))
            (\<lambda>r. bindR (MQTTPacket_freeAck pubrec) (\<lambda>_. Inr r)))"

text \<open>
  Handing over the stored message of a \<^verbatim>\<open>PUBREL\<close>, before MQTT 5. Such a message always has its
  publication; without one a null topic would be used.
\<close>

definition deliver_stored :: "env \<Rightarrow> Messages \<Rightarrow> MQTTProtocol \<Rightarrow> Clients \<Rightarrow> Clients res" where
  "deliver_stored e m st c =
     (if 5 \<le> m_version m then Inr c
      else
        bindR (deref (m_publish m) st) (\<lambda>r.
          Protocol_processPublication e
            \<lparr>pub_header = mk_header 0 0 (m_qos m) (m_retain m), pub_topic = p_topic r,
             pub_topiclen = p_topiclen r, pub_msgId = m_msgid m, pub_payload = p_payload r,
             pub_payloadlen = p_payloadlen r, pub_version = m_version m,
             pub_properties = MQTTProperties_initializer\<rparr>
            False c))"

definition handle_pubrel ::
  "env \<Rightarrow> Ack \<Rightarrow> Clients \<Rightarrow> MQTTProtocol \<Rightarrow> (int \<times> Clients \<times> MQTTProtocol) res" where
  "handle_pubrel e pubrel c st =
     (case ack_msgId pubrel of
        None \<Rightarrow> Inl UninitRead
      | Some msgid \<Rightarrow>
          bindR (case find_msg msgid (inboundMsgs c) of
                   None \<Rightarrow>
                     if hdr_dup (ack_header pubrel) = 0 then Inr (TCPSOCKET_COMPLETE, c, st)
                     else if \<not> noPendingWrites e (socket c) 0 then Inr (SOCKET_ERROR, c, st)
                     else bindR (MQTTPacket_send_pubcomp (alloc e) msgid (cnet c)) (\<lambda>(rc, n).
                            Inr (rc, c\<lparr>cnet := n\<rparr>, st))
                 | Some i \<Rightarrow>
                     let m = inboundMsgs c ! i in
                     if m_qos m \<noteq> 2 then Inr (TCPSOCKET_COMPLETE, c, st)
                     else if m_next m \<noteq> Some PUBREL then Inr (TCPSOCKET_COMPLETE, c, st)
                     else if \<not> noPendingWrites e (socket c) 0 then Inr (SOCKET_ERROR, c, st)
                     else
                       bindR (MQTTPacket_send_pubcomp (alloc e) msgid (cnet c)) (\<lambda>(rc, n).
                       bindR (deliver_stored e m st (c\<lparr>cnet := n\<rparr>)) (\<lambda>c2.
                       bindR (free_properties (m_version m) (m_properties m)) (\<lambda>_.
                         Inr (rc + persist_remove e, c2\<lparr>inboundMsgs := remove_nth i (inboundMsgs c2)\<rparr>,
                           (case m_publish m of None \<Rightarrow> st | Some p \<Rightarrow> drop_publication p st)
                             \<lparr>msgs_received := msgs_received st + 1\<rparr>)))))
            (\<lambda>r. bindR (MQTTPacket_freeAck pubrel) (\<lambda>_. Inr r)))"

definition handle_pubcomp ::
  "env \<Rightarrow> Ack \<Rightarrow> Clients \<Rightarrow> MQTTProtocol \<Rightarrow> (int \<times> Clients \<times> MQTTProtocol) res" where
  "handle_pubcomp e pubcomp c st =
     (case ack_msgId pubcomp of
        None \<Rightarrow> Inl UninitRead
      | Some msgid \<Rightarrow>
          bindR (case find_msg msgid (outboundMsgs c) of
                   None \<Rightarrow> Inr (TCPSOCKET_COMPLETE, c, st)
                 | Some i \<Rightarrow>
                     if m_qos (outboundMsgs c ! i) \<noteq> 2 then Inr (TCPSOCKET_COMPLETE, c, st)
                     else if m_next (outboundMsgs c ! i) \<noteq> Some PUBCOMP then Inr (TCPSOCKET_COMPLETE, c, st)
                     else bindR (release_outbound i c st) (\<lambda>(c', st').
                            Inr (persist_remove e, c', st'\<lparr>msgs_sent := msgs_sent st' + 1\<rparr>)))
            (\<lambda>r. bindR (MQTTPacket_freeAck pubcomp) (\<lambda>_. Inr r)))"

section \<open>The handlers\<close>

text \<open>
  Each handler looks up the client by its socket, without checking that there is one.
\<close>

definition with_client ::
  "(Clients \<Rightarrow> MQTTProtocol \<Rightarrow> (int \<times> Clients \<times> MQTTProtocol) res) \<Rightarrow> int
    \<Rightarrow> Clients list \<times> MQTTProtocol \<Rightarrow> (int \<times> Clients list \<times> MQTTProtocol) res" where
  "with_client f sock = (\<lambda>(cs, st).
     case first_index (\<lambda>c. clientSocketCompare c sock) cs of
       None \<Rightarrow> Inl NullDeref
     | Some i \<Rightarrow> bindR (f (cs ! i) st) (\<lambda>(rc, c', st'). Inr (rc, cs[i := c'], st')))"

definition MQTTProtocol_handlePublishes ::
  "env \<Rightarrow> Publish \<Rightarrow> int \<Rightarrow> Clients list \<times> MQTTProtocol \<Rightarrow> (int \<times> Clients list \<times> MQTTProtocol) res" where
  "MQTTProtocol_handlePublishes e pack sock = with_client (handle_publish e pack) sock"

definition MQTTProtocol_handlePubacks ::
  "env \<Rightarrow> Ack \<Rightarrow> int \<Rightarrow> Clients list \<times> MQTTProtocol \<Rightarrow> (int \<times> Clients list \<times> MQTTProtocol) res" where
  "MQTTProtocol_handlePubacks e pack sock = with_client (handle_puback e pack) sock"

definition MQTTProtocol_handlePubrecs ::
  "env \<Rightarrow> Ack \<Rightarrow> int \<Rightarrow> Clients list \<times> MQTTProtocol \<Rightarrow> (int \<times> Clients list \<times> MQTTProtocol) res" where
  "MQTTProtocol_handlePubrecs e pack sock = with_client (handle_pubrec e pack) sock"

definition MQTTProtocol_handlePubrels ::
  "env \<Rightarrow> Ack \<Rightarrow> int \<Rightarrow> Clients list \<times> MQTTProtocol \<Rightarrow> (int \<times> Clients list \<times> MQTTProtocol) res" where
  "MQTTProtocol_handlePubrels e pack sock = with_client (handle_pubrel e pack) sock"

definition MQTTProtocol_handlePubcomps ::
  "env \<Rightarrow> Ack \<Rightarrow> int \<Rightarrow> Clients list \<times> MQTTProtocol \<Rightarrow> (int \<times> Clients list \<times> MQTTProtocol) res" where
  "MQTTProtocol_handlePubcomps e pack sock = with_client (handle_pubcomp e pack) sock"

section \<open>Time, keep alive and retries\<close>

text \<open>
  Times are microseconds; \<^verbatim>\<open>MQTTTime_difftime\<close> is the difference in milliseconds, rounded down since
  \<^verbatim>\<open>timersub\<close> normalises the microseconds to a non-negative number.
\<close>

definition MQTTTime_difftime :: "int \<Rightarrow> int \<Rightarrow> int" where
  "MQTTTime_difftime new old = (let d = new - old in d div 1000000 * 1000 + d mod 1000000 div 1000)"

definition interval_ms :: "int \<Rightarrow> int res" where
  "interval_ms k = guardR SignedOverflow (in_int (k * 1000)) (Inr (k * 1000))"

text \<open>
  One client of the loop of \<^verbatim>\<open>MQTTProtocol_keepalive\<close>. \<open>closeSession\<close> is the function of the layer above.
\<close>

definition keepalive_client :: "env \<Rightarrow> (Clients \<Rightarrow> Clients) \<Rightarrow> Clients \<Rightarrow> Clients res" where
  "keepalive_client e closeSession c =
     (if \<not> connected c \<or> c_keepAliveInterval c = 0 then Inr c
      else
        bindR (interval_ms (c_keepAliveInterval c)) (\<lambda>ms.
          if ping_outstanding c then
            Inr (if ms \<le> MQTTTime_difftime (now e) (lastPing c) then closeSession c else c)
          else if ms \<le> MQTTTime_difftime (now e) (lastSent (cnet c)) \<or> ms \<le> MQTTTime_difftime (now e) (lastReceived c) then
            if noPendingWrites e (socket c) 0 then
              bindR (MQTTPacket_send_pingreq (alloc e) (cnet c)) (\<lambda>(rc, n).
                Inr (if rc \<noteq> TCPSOCKET_COMPLETE then closeSession (c\<lparr>cnet := n\<rparr>)
                     else c\<lparr>cnet := n, lastPing := now e, ping_outstanding := True\<rparr>))
            else Inr c
          else Inr c))"

fun MQTTProtocol_keepalive :: "env \<Rightarrow> (Clients \<Rightarrow> Clients) \<Rightarrow> Clients list \<Rightarrow> Clients list res" where
  "MQTTProtocol_keepalive e closeSession [] = Inr []"
| "MQTTProtocol_keepalive e closeSession (c # cs) =
     bindR (keepalive_client e closeSession c) (\<lambda>c'.
     bindR (MQTTProtocol_keepalive e closeSession cs) (\<lambda>cs'. Inr (c' # cs')))"

text \<open>
  Retrying one message: the packet to send again, by quality of service and state. The result
  tells whether the session is still open.
\<close>

definition retry_due :: "env \<Rightarrow> bool \<Rightarrow> Clients \<Rightarrow> Messages \<Rightarrow> bool res" where
  "retry_due e regardless c m =
     (if regardless then Inr True
      else bindR (interval_ms (max (retryInterval c) 10)) (\<lambda>ms. Inr (ms < MQTTTime_difftime (now e) (m_lastTouch m))))"

definition retry_message ::
  "env \<Rightarrow> (Clients \<Rightarrow> Clients) \<Rightarrow> nat \<Rightarrow> Clients \<Rightarrow> MQTTProtocol \<Rightarrow> (bool \<times> Clients) res" where
  "retry_message e closeSession i c st =
     (let m = outboundMsgs c ! i;
          touch = (\<lambda>n. c\<lparr>cnet := n, outboundMsgs := (outboundMsgs c)[i := m\<lparr>m_lastTouch := now e\<rparr>]\<rparr>);
          close = (\<lambda>n. closeSession (c\<lparr>cnet := n, good := False\<rparr>)) in
      if m_qos m = 1 \<or> (m_qos m = 2 \<and> m_next m = Some PUBREC) then
        bindR (deref (m_publish m) st) (\<lambda>r.
        bindR (MQTTPacket_send_publish (alloc e)
            \<lparr>pub_header = 0, pub_topic = p_topic r, pub_topiclen = 0, pub_msgId = m_msgid m,
             pub_payload = p_payload r, pub_payloadlen = p_payloadlen r, pub_version = m_version m,
             pub_properties = (case m_properties m of None \<Rightarrow> MQTTProperties_initializer | Some ps \<Rightarrow> ps)\<rparr>
            1 (m_qos m) (m_retain m) (cnet c)) (\<lambda>(rc, n).
          Inr (if rc = SOCKET_ERROR then (False, close n) else (True, touch n))))
      else if m_qos m \<noteq> 0 \<and> m_next m = Some PUBCOMP then
        bindR (MQTTPacket_send_pubrel (alloc e) (m_msgid m) 0 (cnet c)) (\<lambda>(rc, n).
          Inr (if rc \<noteq> TCPSOCKET_COMPLETE then (False, close n) else (True, touch n)))
      else Inr (True, c))"

text \<open>
  The loop over the outbound messages; \<open>left\<close> are those not visited yet. Before each message the
  code checks that the session is usable and the socket has nothing pending.
\<close>

fun retries_loop ::
  "env \<Rightarrow> (Clients \<Rightarrow> Clients) \<Rightarrow> bool \<Rightarrow> nat \<Rightarrow> nat \<Rightarrow> Clients \<Rightarrow> MQTTProtocol \<Rightarrow> Clients res" where
  "retries_loop e closeSession regardless 0 i c st = Inr c"
| "retries_loop e closeSession regardless (Suc left) i c st =
     (if connected c \<and> good c \<and> noPendingWrites e (socket c) i then
        bindR (retry_due e regardless c (outboundMsgs c ! i)) (\<lambda>due.
        bindR (if due then retry_message e closeSession i c st else Inr (True, c)) (\<lambda>(alive, c').
          if alive then retries_loop e closeSession regardless left (Suc i) c' st else Inr c'))
      else Inr c)"

definition MQTTProtocol_retries ::
  "env \<Rightarrow> (Clients \<Rightarrow> Clients) \<Rightarrow> bool \<Rightarrow> Clients \<Rightarrow> MQTTProtocol \<Rightarrow> Clients res" where
  "MQTTProtocol_retries e closeSession regardless c st =
     (if \<not> regardless \<and> retryInterval c \<le> 0 then Inr c
      else retries_loop e closeSession regardless (length (outboundMsgs c)) 0 c st)"

fun MQTTProtocol_retry ::
  "env \<Rightarrow> (Clients \<Rightarrow> Clients) \<Rightarrow> bool \<Rightarrow> bool \<Rightarrow> Clients list \<Rightarrow> MQTTProtocol \<Rightarrow> Clients list res" where
  "MQTTProtocol_retry e closeSession doRetry regardless [] st = Inr []"
| "MQTTProtocol_retry e closeSession doRetry regardless (c # cs) st =
     bindR (if \<not> connected c then Inr c
            else if \<not> good c then Inr (closeSession c)
            else if \<not> noPendingWrites e (socket c) 0 then Inr c
            else if doRetry then MQTTProtocol_retries e closeSession regardless c st
            else Inr c) (\<lambda>c'.
     bindR (MQTTProtocol_retry e closeSession doRetry regardless cs st) (\<lambda>cs'. Inr (c' # cs')))"

section \<open>Releasing message lists, copying strings\<close>

fun MQTTProtocol_emptyMessageList :: "Messages list \<Rightarrow> MQTTProtocol \<Rightarrow> MQTTProtocol res" where
  "MQTTProtocol_emptyMessageList [] st = Inr st"
| "MQTTProtocol_emptyMessageList (m # ms) st =
     bindR (MQTTProtocol_removePublication (m_publish m) st) (\<lambda>st1.
     bindR (free_properties (m_version m) (m_properties m)) (\<lambda>_. MQTTProtocol_emptyMessageList ms st1))"

definition MQTTProtocol_freeClient :: "Clients \<Rightarrow> MQTTProtocol \<Rightarrow> (Clients \<times> MQTTProtocol) res" where
  "MQTTProtocol_freeClient c st =
     bindR (MQTTProtocol_emptyMessageList (outboundMsgs c) st) (\<lambda>st1.
     bindR (MQTTProtocol_emptyMessageList (inboundMsgs c) st1) (\<lambda>st2.
       Inr (c\<lparr>outboundMsgs := [], inboundMsgs := [], messageQueue := [], clientID := [], will := None\<rparr>, st2)))"

text \<open>\<^verbatim>\<open>MQTTStrncpy\<close>: the loop copies while more than one byte is left and the source has not ended.\<close>

fun strncpy_loop :: "nat \<Rightarrow> byte list \<Rightarrow> byte list \<Rightarrow> byte list" where
  "strncpy_loop k [] acc = acc"
| "strncpy_loop k (x # xs) acc = (if 1 < k then strncpy_loop (k - 1) xs (acc @ [x]) else acc)"

definition MQTTStrncpy :: "byte list \<Rightarrow> nat \<Rightarrow> byte list res" where
  "MQTTStrncpy src dest_size = guardR OverWrite (1 \<le> dest_size) (Inr (strncpy_loop dest_size src []))"

definition MQTTStrdup :: "(int \<Rightarrow> bool) \<Rightarrow> byte list \<Rightarrow> byte list option res" where
  "MQTTStrdup al src =
     (if malloc_ok al (int (length src) + 1)
      then bindR (MQTTStrncpy src (length src + 1)) (\<lambda>s. Inr (Some s)) else Inr None)"

section \<open>A connected client\<close>

text \<open>A client just after it connected, for examples.\<close>

definition new_client :: "int \<Rightarrow> Clients" where
  "new_client v = \<lparr>clientID = [0x61], c_username = None, c_passwordlen = 0, c_password = None,
     cleansession_c = 1, cleanstart = 1, c_keepAliveInterval = 60, will = None, MQTTVersion = v,
     socket = 7, cnet = net_ok, lastReceived = 0, lastPing = 0, connected = True, good = True,
     ping_outstanding = False, msgID = 0, retryInterval = 20, inboundMsgs = [], outboundMsgs = [],
     messageQueue = [], delivered = []\<rparr>"

lemma new_client_simps [simp]:
  "msgID (new_client v) = 0" "outboundMsgs (new_client v) = []" "inboundMsgs (new_client v) = []"
  "messageQueue (new_client v) = []" "delivered (new_client v) = []" "socket (new_client v) = 7"
  "connected (new_client v)" "cnet (new_client v) = net_ok"
  by (simp_all add: new_client_def)

end
