(* ===== verification/Protocol_Session.thy ===== *)
theory Protocol_Session
  imports Protocol_Client
begin

text \<open>
  Theorems about the protocol engine of \<open>Protocol_Client\<close>.

  Message ids: what \<^verbatim>\<open>MQTTProtocol_assignMsgId\<close> returns is not in use. Stored publications: the
  engine never uses or releases one twice and never loses one. Sender and receiver: the handlers
  refine two small machines, a sender that moves each message through the phases of its quality
  of service, and a receiver that hands each QoS 2 message to the application once.
\<close>

section \<open>Message ids\<close>

lemma find_msg_None: "find_msg x ms = None \<longleftrightarrow> x \<notin> m_msgid ` set ms"
  by (auto simp: find_msg_def first_index_None messageIDCompare_def)

text \<open>
  C11: message ids. A new id lies between 1 and 65535 and is used by no outbound message; it becomes
  the client's last id. Only when every id other than the last one is in use is 0 returned, the
  last id itself being never tried; and a client that has not assigned an id yet (0) then
  searches forever.
\<close>
theorem assignMsgId_fresh:
  assumes "0 \<le> msgID c" and "msgID c \<le> 65535"
  shows "let used = set (map m_msgid (outboundMsgs c)) in
    if {1..65535} \<subseteq> insert (msgID c) used
    then MQTTProtocol_assignMsgId c = (if msgID c = 0 then None else Some (0, c))
    else \<exists>x \<in> {1..65535} - used. MQTTProtocol_assignMsgId c = Some (x, c\<lparr>msgID := x\<rparr>)"
proof -
  let ?used = "set (map m_msgid (outboundMsgs c))"
  have used: "(\<lambda>msgid. find_msg msgid (outboundMsgs c) \<noteq> None) = (\<lambda>msgid. msgid \<in> ?used)"
    by (auto simp: find_msg_None)
  have "{x \<in> {1..65535}. x \<notin> ?used} = {1..65535} - ?used" by auto
  moreover have "{1..65535} - ?used \<subseteq> {msgID c} \<longleftrightarrow> {1..65535} \<subseteq> insert (msgID c) ?used" by auto
  ultimately show ?thesis
    using search_id_result [OF assms, of "\<lambda>msgid. msgid \<in> ?used"]
    unfolding MQTTProtocol_assignMsgId_def used by (auto simp: Let_def split: if_splits)
qed

theorem assignMsgId_fresh_witness:
  "\<exists>x \<in> {1..65535}. MQTTProtocol_assignMsgId (new_client 4) = Some (x, (new_client 4)\<lparr>msgID := x\<rparr>)"
proof -
  have "\<not> {1..65535 :: int} \<subseteq> {0}" by (simp add: subset_eq) (rule exI [of _ 1], simp)
  with assignMsgId_fresh [of "new_client 4"] show ?thesis by simp
qed

section \<open>Stored publications\<close>

text \<open>
  \<open>heap_ok M st\<close>: the stored publications are exactly those owned by someone (\<open>M\<close>, with
  multiplicity), each has one owner, and their contents are as long as they say.
\<close>

definition stored_ok :: "Publications \<Rightarrow> bool" where
  "stored_ok r \<longleftrightarrow> refcount r = 1 \<and> 0 \<le> p_payloadlen r \<and> nat (p_payloadlen r) \<le> length (p_payload r) \<and>
     p_payloadlen r < 2147483648"

definition heap_ok :: "nat multiset \<Rightarrow> MQTTProtocol \<Rightarrow> bool" where
  "heap_ok M st \<longleftrightarrow> mset (publications st) = M \<and> distinct (publications st) \<and>
     dom (pubs st) = set (publications st) \<and> (\<forall>p \<in> dom (pubs st). p < next_pub st) \<and>
     (\<forall>r \<in> ran (pubs st). stored_ok r)"

lemma heap_ok_deref:
  assumes "heap_ok M st" and "p \<in># M"
  obtains r where "pubs st p = Some r" "stored_ok r" "deref (Some p) st = Inr r"
proof -
  have "p \<in> dom (pubs st)" using assms unfolding heap_ok_def by auto
  then obtain r where "pubs st p = Some r" by auto
  with that assms(1) show thesis by (auto simp: heap_ok_def deref_def ranI)
qed

lemma heap_ok_store:
  assumes "heap_ok M st" and "\<forall>n. al n" and "0 \<le> pub_payloadlen publish"
    and "nat (pub_payloadlen publish) \<le> length (pub_payload publish)" and "pub_payloadlen publish < 2147483648"
  defines "r \<equiv> \<lparr>p_topic = pub_topic publish, p_topiclen = pub_topiclen publish, p_payload = pub_payload publish,
     p_payloadlen = pub_payloadlen publish, refcount = 1\<rparr>"
  obtains st1 where "MQTTProtocol_storePublication al publish st = (Some (next_pub st), st1)"
    "heap_ok (add_mset (next_pub st) M) st1" "pubs st1 = (pubs st)(next_pub st \<mapsto> r)" "next_pub st \<notin># M"
proof -
  have "malloc_ok al 40" "malloc_ok al 24" using malloc_small [OF assms(2)] by simp_all
  moreover have new: "next_pub st \<notin> dom (pubs st)" using assms(1) unfolding heap_ok_def by blast
  moreover have "stored_ok r" using assms by (simp add: stored_ok_def)
  moreover have "next_pub st \<notin># M" using assms(1) new by (auto simp: heap_ok_def)
  ultimately show thesis using assms(1)
    by (intro that [of "snd (MQTTProtocol_storePublication al publish st)"])
      (auto simp: MQTTProtocol_storePublication_def heap_ok_def r_def less_Suc_eq ran_def)
qed

lemma heap_ok_distinct: "heap_ok (add_mset p M) st \<Longrightarrow> p \<notin># M"
proof -
  assume "heap_ok (add_mset p M) st"
  then have m: "mset (publications st) = add_mset p M" "distinct (publications st)" by (simp_all add: heap_ok_def)
  then have "M = mset (remove1 p (publications st))" by simp
  then have "set_mset M = set (remove1 p (publications st))" by (metis set_mset_mset)
  then show ?thesis by (simp add: set_remove1_eq [OF m(2)])
qed

lemma heap_ok_drop:
  assumes "heap_ok (add_mset p M) st"
  shows "heap_ok M (drop_publication p st)" and "q \<in># M \<Longrightarrow> pubs (drop_publication p st) q = pubs st q"
proof -
  have m: "mset (publications st) = add_mset p M" "distinct (publications st)" using assms by (simp_all add: heap_ok_def)
  have p: "p \<notin># M" by (rule heap_ok_distinct [OF assms])
  show "heap_ok M (drop_publication p st)"
    using assms m by (auto simp: heap_ok_def drop_publication_def ran_def)
  show "q \<in># M \<Longrightarrow> pubs (drop_publication p st) q = pubs st q" using p by (auto simp: drop_publication_def)
qed

lemma heap_ok_remove:
  assumes "heap_ok (add_mset p M) st"
  shows "MQTTProtocol_removePublication (Some p) st = Inr (drop_publication p st)"
proof -
  obtain r where "pubs st p = Some r" "stored_ok r" using heap_ok_deref [OF assms, of p] by auto
  then show ?thesis by (simp add: MQTTProtocol_removePublication_def stored_ok_def)
qed

lemma heap_ok_payload:
  assumes "heap_ok M st" and "pubs st p = Some r"
  shows "heap_ok M (st\<lparr>pubs := (pubs st)(p \<mapsto> r\<lparr>p_payload := take (nat (p_payloadlen r)) (p_payload r)\<rparr>)\<rparr>)"
proof -
  have "stored_ok r" using assms by (auto simp: heap_ok_def ran_def)
  then have "stored_ok (r\<lparr>p_payload := take (nat (p_payloadlen r)) (p_payload r)\<rparr>)" by (simp add: stored_ok_def)
  with assms show ?thesis by (auto simp: heap_ok_def ran_def)
qed

text \<open>The owners in a message list.\<close>

definition ptr :: "nat option \<Rightarrow> nat multiset" where
  "ptr p = (case p of None \<Rightarrow> {#} | Some q \<Rightarrow> {#q#})"

definition owners :: "Messages list \<Rightarrow> nat multiset" where
  "owners ms = (\<Sum>m \<in># mset ms. ptr (m_publish m))"

lemma ptr_simps [simp]: "ptr None = {#}" "ptr (Some q) = {#q#}"
  by (simp_all add: ptr_def)

lemma owners_simps [simp]: "owners [] = {#}" "owners (ms @ [m]) = add_mset q M \<longleftrightarrow> owners ms + ptr (m_publish m) = add_mset q M"
  "owners (m # ms) = ptr (m_publish m) + owners ms" "owners (ms @ ms') = owners ms + owners ms'"
  by (simp_all add: owners_def add.commute)

lemma owners_mem: "m \<in> set ms \<Longrightarrow> m_publish m = Some q \<Longrightarrow> q \<in># owners ms"
  by (induction ms) auto

lemma remove_nth_facts:
  assumes "i < length ms"
  shows "mset ms = add_mset (ms ! i) (mset (remove_nth i ms))"
    and "mset (ms[i := m]) = add_mset m (mset (remove_nth i ms))"
    and "set (remove_nth i ms) \<subseteq> set ms"
proof -
  have "ms = take i ms @ ms ! i # drop (Suc i) ms" using assms by (rule id_take_nth_drop)
  then have "mset ms = mset (take i ms @ ms ! i # drop (Suc i) ms)" by (rule arg_cong)
  then show "mset ms = add_mset (ms ! i) (mset (remove_nth i ms))" by (simp add: remove_nth_def)
  show "mset (ms[i := m]) = add_mset m (mset (remove_nth i ms))"
    using assms by (simp add: upd_conv_take_nth_drop remove_nth_def)
  show "set (remove_nth i ms) \<subseteq> set ms"
    by (auto simp: remove_nth_def dest: in_set_takeD in_set_dropD)
qed

lemma owners_nth:
  assumes "i < length ms"
  shows "owners ms = ptr (m_publish (ms ! i)) + owners (remove_nth i ms)"
    and "owners (ms[i := m]) = ptr (m_publish m) + owners (remove_nth i ms)"
  by (simp_all add: owners_def remove_nth_facts [OF assms])

text \<open>A message list as a finite map from message ids.\<close>

definition by_id :: "(Messages \<Rightarrow> 'v) \<Rightarrow> Messages list \<Rightarrow> int \<rightharpoonup> 'v" where
  "by_id f ms = map_of (map (\<lambda>m. (m_msgid m, f m)) ms)"

lemma by_id_None: "by_id f ms x = None \<longleftrightarrow> x \<notin> m_msgid ` set ms"
  by (induction ms) (auto simp: by_id_def)

lemma by_id_simps: "by_id f [] = Map.empty" "by_id f (m # ms) = (by_id f ms)(m_msgid m \<mapsto> f m)"
  "by_id f (a @ b) x = (case by_id f a x of None \<Rightarrow> by_id f b x | Some v \<Rightarrow> Some v)"
  by (simp_all add: by_id_def map_add_def split: option.split)

lemma by_id_cong: "(\<And>m. m \<in> set ms \<Longrightarrow> f m = g m) \<Longrightarrow> by_id f ms = by_id g ms"
  by (simp add: by_id_def cong: map_cong)

lemma find_msg_Some:
  assumes "find_msg x ms = Some i"
  shows "i < length ms" and "m_msgid (ms ! i) = x" and "ms ! i \<in> set ms"
  using assms by (simp_all add: find_msg_def first_index_Some messageIDCompare_def)

lemma by_id_split:
  assumes "distinct (map m_msgid (a @ x # b))" and "m_msgid m = m_msgid x"
  shows "by_id f (a @ m # b) = (by_id f (a @ x # b))(m_msgid m \<mapsto> f m)"
    and "by_id f (a @ b) = (by_id f (a @ x # b))(m_msgid m := None)"
    and "by_id f (a @ x # b) (m_msgid m) = Some (f x)"
    and "distinct (map m_msgid (a @ m # b))" and "distinct (map m_msgid (a @ b))"
proof -
  have a: "by_id f a (m_msgid x) = None" and b: "by_id f b (m_msgid x) = None"
    using assms by (auto simp: by_id_None)
  show "by_id f (a @ m # b) = (by_id f (a @ x # b))(m_msgid m \<mapsto> f m)"
    "by_id f (a @ b) = (by_id f (a @ x # b))(m_msgid m := None)"
    "by_id f (a @ x # b) (m_msgid m) = Some (f x)"
    using a b assms(2) by (auto simp: by_id_simps fun_eq_iff split: option.splits)
  show "distinct (map m_msgid (a @ m # b))" "distinct (map m_msgid (a @ b))" using assms by auto
qed

lemma by_id_nth:
  assumes "i < length ms" and "m_msgid m = m_msgid (ms ! i)" and "distinct (map m_msgid ms)"
  shows "by_id f (ms[i := m]) = (by_id f ms)(m_msgid m \<mapsto> f m)"
    and "by_id f (remove_nth i ms) = (by_id f ms)(m_msgid m := None)"
    and "by_id f ms (m_msgid m) = Some (f (ms ! i))"
    and "distinct (map m_msgid (ms[i := m]))" and "distinct (map m_msgid (remove_nth i ms))"
proof -
  have ms: "take i ms @ ms ! i # drop (Suc i) ms = ms" using id_take_nth_drop [OF assms(1)] by simp
  have "distinct (map m_msgid (take i ms @ ms ! i # drop (Suc i) ms))" unfolding ms by (rule assms(3))
  note k = by_id_split [OF this assms(2), unfolded ms]
  show "by_id f (ms[i := m]) = (by_id f ms)(m_msgid m \<mapsto> f m)" "distinct (map m_msgid (ms[i := m]))"
    using k(1,4) by (simp_all only: upd_conv_take_nth_drop [OF assms(1)])
  show "by_id f (remove_nth i ms) = (by_id f ms)(m_msgid m := None)" "distinct (map m_msgid (remove_nth i ms))"
    using k(2,5) by (simp_all only: remove_nth_def)
  show "by_id f ms (m_msgid m) = Some (f (ms ! i))" by (rule k(3))
qed

lemma by_id_snoc:
  assumes "find_msg (m_msgid m) ms = None"
  shows "by_id f (ms @ [m]) = (by_id f ms)(m_msgid m \<mapsto> f m)"
    and "distinct (map m_msgid ms) \<Longrightarrow> distinct (map m_msgid (ms @ [m]))"
    and "by_id f ms (m_msgid m) = None"
proof -
  from assms show n: "by_id f ms (m_msgid m) = None" by (simp add: by_id_None find_msg_None)
  then show "by_id f (ms @ [m]) = (by_id f ms)(m_msgid m \<mapsto> f m)"
    by (auto simp: by_id_simps fun_eq_iff split: option.splits)
  from assms show "distinct (map m_msgid ms) \<Longrightarrow> distinct (map m_msgid (ms @ [m]))"
    by (auto simp: find_msg_None)
qed

lemma by_id_find:
  "find_msg x ms = Some i \<Longrightarrow> distinct (map m_msgid ms) \<Longrightarrow> by_id f ms x = Some (f (ms ! i))"
  using find_msg_Some [of x ms i] by_id_nth(3) [of i ms "ms ! i" f] by simp

section \<open>Packets and properties\<close>

lemma free_value_wf: "wf_prop p \<Longrightarrow> free_value p = Inr ()"
  by (elim wf_prop_cases; elim wf_value_cases) (auto simp: free_value_def)

lemma free_props_slots:
  assumes "slots props ps" and "\<forall>p \<in> set ps. wf_prop p" and "set is \<subseteq> {..< length ps}"
  shows "free_props props is = Inr ()"
  using assms(3)
proof (induction "is")
  case (Cons i js)
  then have "i < length ps" by simp
  with Cons assms(2) show ?case by (simp add: prop_at_slots [OF assms(1)] free_value_wf)
qed simp

definition props_held :: "int \<Rightarrow> MQTTProperties option \<Rightarrow> bool" where
  "props_held version props \<longleftrightarrow> (5 \<le> version \<longrightarrow> props \<noteq> None \<and> props_ok props)"

lemma free_properties_held:
  assumes "props_held version props"
  shows "free_properties version props = Inr ()"
proof (cases "5 \<le> version")
  case True
  with assms obtain q ps where q: "props = Some q" "slots q ps" "\<forall>p \<in> set ps. wf_prop p"
    by (auto simp: props_held_def props_ok_def holds_def)
  with free_props_slots [OF q(2,3), of "[0 ..< length ps]"] True show ?thesis
    by (simp add: free_properties_def MQTTProperties_free_def indices_slots lessThan_atLeast0)
qed (simp add: free_properties_def)

definition prop_list :: "MQTTProperties \<Rightarrow> MQTTProperty list" where
  "prop_list props = (case parray props of None \<Rightarrow> [] | Some xs \<Rightarrow> map the (take (nat (pcount props)) xs))"

lemma prop_list_slots: "slots props ps \<Longrightarrow> prop_list props = ps"
  by (auto simp: slots_def prop_list_def o_def split: option.splits)

lemma copy_held:
  assumes "props_ok (Some props)" and "\<forall>n. al n"
  obtains props' where "MQTTProperties_copy al props = Inr props'" "props_ok (Some props')"
    "prop_list props' = prop_list props"
proof -
  from assms(1) obtain ps where h: "holds props ps" and l: "length (props_bytes ps) < 268435456"
    by (auto simp: props_ok_def)
  then have s: "slots props ps" "\<forall>p \<in> set ps. wf_prop p" by (simp_all add: holds_def)
  from copy_props_holds [OF s assms(2), of 0 MQTTProperties_initializer] holds_initializer l
  obtain props' where c: "copy_props al props [0 ..< length ps] MQTTProperties_initializer = Inr props'"
    "holds props' ps" by auto
  then have "prop_list props' = ps" "prop_list props = ps"
    using s(1) by (simp_all add: holds_def prop_list_slots)
  with c l that show thesis
    by (auto simp: MQTTProperties_copy_def indices_slots [OF s(1)] props_ok_def)
qed

lemma send_ack_ok:
  assumes "\<forall>n. al n" and "type \<in> {PUBACK, PUBREC, PUBREL, PUBCOMP}"
  obtains rc n' where "MQTTPacket_send_ack al type msgid 0 n = Inr (rc, n')"
    "sent n' = sent n @ [framed (mk_header type 0 (if type = PUBREL then 1 else 0) 0) (writeInt msgid)]"
proof -
  define h where "h = mk_header type 0 (if type = PUBREL then 1 else 0) 0"
  have "type < 16" using assms(2) by (auto simp: packet_types)
  then have h: "hdr_type h = type"
    using mk_header_bits(1) [of type 0 "if type = PUBREL then 1 else 0" 0] by (simp add: h_def)
  have enc: "MQTTPacket_encode 2 = [2]" "MQTTPacket_encode (Suc (Suc 0)) = [2]" by (simp_all add: encode_small)
  obtain x y where w: "writeInt msgid = [x, y]" by (simp add: writeInt_def)
  then obtain id where rd: "readInt (writeInt msgid) 0 = Inr (id, 2)" by (simp add: readInt_def)
  have m: "malloc_ok al 2" using malloc_small [OF assms(1), of 2] by simp
  let ?n = "if type = PUBREL then n\<lparr>persisted := persisted n @ [(PUBREL, id, framed h (writeInt msgid))]\<rparr> else n"
  obtain rc n' where p: "put (framed h (writeInt msgid)) ?n = (rc, n')" by fastforce
  from arg_cong [OF p, of snd] have "sent n' = sent n @ [framed h (writeInt msgid)]"
    by (auto simp: put_facts)
  moreover have "MQTTPacket_send_ack al type msgid 0 n = Inr (rc, n')"
    using m p rd h w by (auto simp: MQTTPacket_send_ack_def MQTTPacket_send_def Let_def h_def [symmetric]
        filled_exact enc framed_def)
  ultimately show thesis using that by (simp add: h_def)
qed

lemma send_acks_ex:
  assumes "\<forall>n. al n"
  shows "\<exists>rc n'. MQTTPacket_send_puback al msgid n = Inr (rc, n') \<and>
      sent n' = sent n @ [framed (mk_header PUBACK 0 0 0) (writeInt msgid)]"
    and "\<exists>rc n'. MQTTPacket_send_pubrec al msgid n = Inr (rc, n') \<and>
      sent n' = sent n @ [framed (mk_header PUBREC 0 0 0) (writeInt msgid)]"
    and "\<exists>rc n'. MQTTPacket_send_pubrel al msgid 0 n = Inr (rc, n') \<and>
      sent n' = sent n @ [framed (mk_header PUBREL 0 1 0) (writeInt msgid)]"
    and "\<exists>rc n'. MQTTPacket_send_pubcomp al msgid n = Inr (rc, n') \<and>
      sent n' = sent n @ [framed (mk_header PUBCOMP 0 0 0) (writeInt msgid)]"
proof -
  have ex: "\<exists>rc n'. MQTTPacket_send_ack al type msgid 0 n = Inr (rc, n') \<and>
      sent n' = sent n @ [framed (mk_header type 0 (if type = PUBREL then 1 else 0) 0) (writeInt msgid)]"
    if "type \<in> {PUBACK, PUBREC, PUBREL, PUBCOMP}" for type
    using send_ack_ok [OF assms that, of msgid n] by blast
  note types = MQTTPacket_send_puback_def MQTTPacket_send_pubrec_def MQTTPacket_send_pubrel_def
    MQTTPacket_send_pubcomp_def packet_types
  show "\<exists>rc n'. MQTTPacket_send_puback al msgid n = Inr (rc, n') \<and>
      sent n' = sent n @ [framed (mk_header PUBACK 0 0 0) (writeInt msgid)]"
    using ex [of PUBACK] by (simp add: types)
  show "\<exists>rc n'. MQTTPacket_send_pubrec al msgid n = Inr (rc, n') \<and>
      sent n' = sent n @ [framed (mk_header PUBREC 0 0 0) (writeInt msgid)]"
    using ex [of PUBREC] by (simp add: types)
  show "\<exists>rc n'. MQTTPacket_send_pubrel al msgid 0 n = Inr (rc, n') \<and>
      sent n' = sent n @ [framed (mk_header PUBREL 0 1 0) (writeInt msgid)]"
    using ex [of PUBREL] by (simp add: types)
  show "\<exists>rc n'. MQTTPacket_send_pubcomp al msgid n = Inr (rc, n') \<and>
      sent n' = sent n @ [framed (mk_header PUBCOMP 0 0 0) (writeInt msgid)]"
    using ex [of PUBCOMP] by (simp add: types)
qed

section \<open>The abstract receiver\<close>

text \<open>
  What the application sees of a message, and the receiver's promise: \<open>handed\<close> are the messages
  handed to it, in order (delivered or waiting in its queue); \<open>awaiting\<close> maps the id of each
  QoS 2 message whose \<^verbatim>\<open>PUBREL\<close> has not come to the message still to be handed over (before
  MQTT 5), or to \<open>None\<close> if that was done when it arrived (MQTT 5).
\<close>

record amsg =
  g_topic :: "byte list"
  g_payload :: "byte list"
  g_qos :: int
  g_retained :: int
  g_dup :: int
  g_msgid :: int
  g_properties :: "MQTTProperty list option"

record receiver =
  awaiting :: "int \<rightharpoonup> amsg option"
  handed :: "amsg list"

definition hand :: "amsg \<Rightarrow> receiver \<Rightarrow> receiver" where
  "hand g r = r\<lparr>handed := handed r @ [g]\<rparr>"

definition rx_publish :: "int \<Rightarrow> bool \<Rightarrow> amsg \<Rightarrow> receiver \<Rightarrow> receiver" where
  "rx_publish v ready g r =
     (if g_qos g = 0 then hand g r
      else if \<not> ready then r
      else if g_qos g = 1 then hand g r
      else if g_qos g = 2 then
        (if v < 5 then r\<lparr>awaiting := (awaiting r)(g_msgid g \<mapsto> Some g)\<rparr>
         else if awaiting r (g_msgid g) = None then hand g (r\<lparr>awaiting := (awaiting r)(g_msgid g \<mapsto> None)\<rparr>)
         else r)
      else r)"

definition rx_pubrel :: "bool \<Rightarrow> int \<Rightarrow> receiver \<Rightarrow> receiver" where
  "rx_pubrel ready msgid r =
     (case awaiting r msgid of
        None \<Rightarrow> r
      | Some x \<Rightarrow>
          if \<not> ready then r
          else (case x of None \<Rightarrow> id | Some g \<Rightarrow> hand g) (r\<lparr>awaiting := (awaiting r)(msgid := None)\<rparr>))"

text \<open>The views of packets, stored messages and delivered messages.\<close>

definition msg_of :: "Publish \<Rightarrow> amsg" where
  "msg_of p = (let h = pub_header p in
     \<lparr>g_topic = pub_topic p, g_payload = take (nat (pub_payloadlen p)) (pub_payload p),
      g_qos = int (hdr_qos h), g_retained = int (hdr_retain h),
      g_dup = (if hdr_qos h = 2 then 0 else int (hdr_dup h)), g_msgid = pub_msgId p,
      g_properties = (if 5 \<le> pub_version p then Some (prop_list (pub_properties p)) else None)\<rparr>)"

definition stored_msg :: "MQTTProtocol \<Rightarrow> Messages \<Rightarrow> amsg" where
  "stored_msg st m = (case Option.bind (m_publish m) (pubs st) of
     None \<Rightarrow> \<lparr>g_topic = [], g_payload = [], g_qos = 2, g_retained = m_retain m, g_dup = 0, g_msgid = m_msgid m,
       g_properties = None\<rparr>
   | Some r \<Rightarrow> \<lparr>g_topic = p_topic r, g_payload = take (nat (p_payloadlen r)) (p_payload r), g_qos = 2,
       g_retained = m_retain m, g_dup = 0, g_msgid = m_msgid m, g_properties = None\<rparr>)"

definition view :: "app_message \<Rightarrow> amsg" where
  "view a = \<lparr>g_topic = a_topic a, g_payload = a_payload a, g_qos = a_qos a, g_retained = a_retained a,
     g_dup = a_dup a, g_msgid = a_msgid a, g_properties = map_option prop_list (a_properties a)\<rparr>"

definition pending_msg :: "int \<Rightarrow> MQTTProtocol \<Rightarrow> Messages \<Rightarrow> amsg option" where
  "pending_msg v st m = (if 5 \<le> v then None else Some (stored_msg st m))"

definition receiver_of :: "int \<Rightarrow> Clients \<Rightarrow> MQTTProtocol \<Rightarrow> receiver" where
  "receiver_of v c st = \<lparr>awaiting = by_id (pending_msg v st) (inboundMsgs c),
     handed = map view (delivered c @ messageQueue c)\<rparr>"

text \<open>The invariant of a client's session; \<open>F\<close> are the publications owned elsewhere.\<close>

definition in_ok :: "int \<Rightarrow> Messages \<Rightarrow> bool" where
  "in_ok v m \<longleftrightarrow> m_version m = v \<and> m_qos m = 2 \<and> m_retain m \<in> {0, 1} \<and> m_next m = Some PUBREL \<and>
     props_held v (m_properties m) \<and> (v < 5 \<longrightarrow> m_publish m \<noteq> None)"

definition out_ok :: "int \<Rightarrow> Messages \<Rightarrow> bool" where
  "out_ok v m \<longleftrightarrow> m_version m = v \<and> m_publish m \<noteq> None \<and> props_held v (m_properties m) \<and>
     (m_qos m = 1 \<and> m_next m = None \<or> m_qos m = 2 \<and> m_next m \<in> {Some PUBREC, Some PUBCOMP})"

definition session_ok :: "int \<Rightarrow> nat multiset \<Rightarrow> Clients \<Rightarrow> MQTTProtocol \<Rightarrow> bool" where
  "session_ok v F c st \<longleftrightarrow> heap_ok (owners (inboundMsgs c) + (owners (outboundMsgs c) + F)) st \<and>
     distinct (map m_msgid (inboundMsgs c)) \<and> distinct (map m_msgid (outboundMsgs c)) \<and>
     (\<forall>m \<in> set (inboundMsgs c). in_ok v m) \<and> (\<forall>m \<in> set (outboundMsgs c). out_ok v m)"

definition publish_in :: "int \<Rightarrow> Publish \<Rightarrow> bool" where
  "publish_in v p \<longleftrightarrow> pub_version p = v \<and> (5 \<le> v \<longrightarrow> props_ok (Some (pub_properties p))) \<and>
     0 \<le> pub_payloadlen p \<and> nat (pub_payloadlen p) \<le> length (pub_payload p) \<and> pub_payloadlen p < 2147483648"

lemma payload_bytes_ok: "0 \<le> n \<Longrightarrow> nat n \<le> length xs \<Longrightarrow> payload_bytes xs n = Inr (take (nat n) xs)"
  by (simp add: payload_bytes_def)

lemma copy_option:
  assumes "publish_in v p" and "\<forall>n. al n"
  obtains props where
    "(if 5 \<le> pub_version p then bindR (MQTTProperties_copy al (pub_properties p)) (\<lambda>ps. Inr (Some ps)) else Inr None)
       = Inr props"
    "props_held v props" "map_option prop_list props = g_properties (msg_of p)" "5 \<le> v \<longleftrightarrow> props \<noteq> None"
proof (cases "5 \<le> v")
  case True
  with assms(1) have p: "props_ok (Some (pub_properties p))" "pub_version p = v" by (simp_all add: publish_in_def)
  from copy_held [OF p(1) assms(2)] obtain q where "MQTTProperties_copy al (pub_properties p) = Inr q"
    "props_ok (Some q)" "prop_list q = prop_list (pub_properties p)" .
  with True p(2) show thesis by (intro that [of "Some q"]) (simp_all add: props_held_def msg_of_def Let_def)
next
  case False
  with assms(1) show thesis
    by (intro that [of None]) (simp_all add: publish_in_def props_held_def msg_of_def Let_def)
qed

text \<open>Handing a message over: it joins \<open>handed\<close>, nothing else of the client changes.\<close>

lemma process_ok:
  assumes "publish_in v p" and "\<forall>n. alloc e n"
  obtains d q where "Protocol_processPublication e p ap c = Inr (c\<lparr>delivered := d, messageQueue := q\<rparr>)"
    "map view (d @ q) = map view (delivered c @ messageQueue c) @ [msg_of p]"
proof -
  obtain props where props:
    "(if 5 \<le> pub_version p then bindR (MQTTProperties_copy (alloc e) (pub_properties p)) (\<lambda>ps. Inr (Some ps)) else Inr None)
       = Inr props" "map_option prop_list props = g_properties (msg_of p)"
    by (rule copy_option [OF assms])
  have len: "0 \<le> pub_payloadlen p" "nat (pub_payloadlen p) \<le> length (pub_payload p)" "pub_payloadlen p < 2147483648"
    using assms(1) by (simp_all add: publish_in_def)
  have m: "malloc_ok (alloc e) 64" "malloc_ok (alloc e) 24" "malloc_ok (alloc e) (pub_payloadlen p)"
    using malloc_small [OF assms(2)] len by simp_all
  define a where "a = (let h = pub_header p in \<lparr>a_topic = pub_topic p,
     a_payload = take (nat (pub_payloadlen p)) (pub_payload p), a_qos = int (hdr_qos h),
     a_retained = int (hdr_retain h), a_dup = (if hdr_qos h = 2 then 0 else int (hdr_dup h)),
     a_msgid = pub_msgId p, a_properties = props\<rparr>)"
  have v: "view a = msg_of p" using props(2) by (simp add: view_def a_def msg_of_def Let_def)
  have r: "Protocol_processPublication e p ap c =
      (if messageQueue c = [] \<and> connected c \<and> callback e then Inr (c\<lparr>delivered := delivered c @ [a]\<rparr>)
       else Inr (c\<lparr>messageQueue := messageQueue c @ [a]\<rparr>))"
    using m by (simp add: Protocol_processPublication_def props(1) payload_bytes_ok [OF len(1,2)] a_def Let_def)
  show thesis
  proof (cases "messageQueue c = [] \<and> connected c \<and> callback e")
    case True
    then have "c\<lparr>delivered := delivered c @ [a], messageQueue := []\<rparr> = c\<lparr>delivered := delivered c @ [a]\<rparr>"
      by (cases c) simp
    with True r v show thesis by (intro that [where d = "delivered c @ [a]" and q = "[]"]) simp_all
  next
    case False
    have "c\<lparr>delivered := delivered c, messageQueue := messageQueue c @ [a]\<rparr> = c\<lparr>messageQueue := messageQueue c @ [a]\<rparr>"
      by (cases c) simp
    with False r v show thesis by (intro that [where d = "delivered c" and q = "messageQueue c @ [a]"]) auto
  qed
qed

lemma process_ex:
  assumes "publish_in v p" and "\<forall>n. alloc e n"
  shows "\<exists>d q. Protocol_processPublication e p ap c = Inr (c\<lparr>delivered := d, messageQueue := q\<rparr>) \<and>
    map view (d @ q) = map view (delivered c @ messageQueue c) @ [msg_of p]"
  by (rule process_ok [OF assms, of ap c]) blast

section \<open>Receiving\<close>

text \<open>\<open>ins\<close> is the inbound list \<open>old\<close> with \<open>m\<close>, at position \<open>i\<close>, in place of any message with its id.\<close>

definition placed :: "Messages \<Rightarrow> nat \<Rightarrow> Messages list \<Rightarrow> Messages list \<Rightarrow> bool" where
  "placed m i ins old \<longleftrightarrow> i < length ins \<and> ins ! i = m \<and> distinct (map m_msgid ins) \<and>
     set (remove_nth i ins) \<subseteq> set old \<and>
     (\<forall>f :: Messages \<Rightarrow> amsg option. by_id f ins = (by_id f old)(m_msgid m \<mapsto> f m))"

lemma store_inbound_ok:
  assumes "heap_ok (add_mset p (owners (inboundMsgs c) + R)) st" and "m_publish m = Some p"
    and "distinct (map m_msgid (inboundMsgs c))"
    and "\<forall>x \<in> set (inboundMsgs c). props_held (m_version x) (m_properties x)"
  obtains ins i st2 where
    "store_inbound m c st = Inr (find_msg (m_msgid m) (inboundMsgs c) \<noteq> None, c\<lparr>inboundMsgs := ins\<rparr>, st2)"
    "heap_ok (add_mset p (owners (remove_nth i ins) + R)) st2" "placed m i ins (inboundMsgs c)"
    "\<And>q. q \<in># add_mset p (owners (remove_nth i ins) + R) \<Longrightarrow> pubs st2 q = pubs st q"
proof (cases "find_msg (m_msgid m) (inboundMsgs c)")
  case None
  show thesis
  proof (rule that [where i = "length (inboundMsgs c)" and ins = "inboundMsgs c @ [m]" and ?st2.0 = st])
    show "heap_ok (add_mset p (owners (remove_nth (length (inboundMsgs c)) (inboundMsgs c @ [m])) + R)) st"
      using assms(1) by (simp add: remove_nth_def)
  qed (use None by_id_snoc(2) [OF None] assms(3) in \<open>simp_all add: store_inbound_def remove_nth_def placed_def by_id_snoc(1) [OF None]\<close>)
next
  case (Some i)
  note i = find_msg_Some [OF Some]
  let ?old = "inboundMsgs c ! i"
  let ?R = "add_mset p (owners (remove_nth i (inboundMsgs c)) + R)"
  have free: "free_properties (m_version ?old) (m_properties ?old) = Inr ()"
    using assms(4) i by (simp add: free_properties_held)
  have h: "heap_ok (ptr (m_publish ?old) + ?R) st"
    using assms(1) by (simp add: owners_nth(1) [OF i(1)] ac_simps)
  obtain st2 where st2: "MQTTProtocol_removePublication (m_publish ?old) st = Inr st2" "heap_ok ?R st2"
    "\<And>q. q \<in># ?R \<Longrightarrow> pubs st2 q = pubs st q"
  proof (cases "m_publish ?old")
    case None
    with h that [of st] show thesis by (simp add: MQTTProtocol_removePublication_def)
  next
    case (Some q)
    with h have h': "heap_ok (add_mset q ?R) st" by (simp add: add_mset_commute)
    show thesis
      using that [of "drop_publication q st"] heap_ok_drop [OF h'] heap_ok_remove [OF h'] Some by simp
  qed
  show thesis
  proof (rule that [where i = i and ins = "(inboundMsgs c)[i := m]" and ?st2.0 = st2])
    show "placed m i ((inboundMsgs c)[i := m]) (inboundMsgs c)"
      using remove_nth_facts(3) [OF i(1)] assms(3) i by (simp add: placed_def by_id_nth(1,4))
  qed (use Some st2 i free in \<open>simp_all add: store_inbound_def Let_def\<close>)
qed

lemma pending_cong:
  assumes "\<And>q. q \<in># owners ms \<Longrightarrow> pubs st' q = pubs st q"
  shows "by_id (pending_msg v st') ms = by_id (pending_msg v st) ms"
proof (rule by_id_cong)
  fix m assume m: "m \<in> set ms"
  have "Option.bind (m_publish m) (pubs st') = Option.bind (m_publish m) (pubs st)"
    using assms owners_mem [OF m] by (cases "m_publish m") simp_all
  then show "pending_msg v st' m = pending_msg v st m" by (simp add: pending_msg_def stored_msg_def)
qed

text \<open>The two ways a QoS 2 publication is settled once it is in the inbound list.\<close>

definition qos2_message :: "Publish \<Rightarrow> nat option \<Rightarrow> MQTTProperties option \<Rightarrow> Messages" where
  "qos2_message publish p props = \<lparr>m_qos = int (hdr_qos (pub_header publish)),
     m_retain = int (hdr_retain (pub_header publish)), m_msgid = pub_msgId publish, m_version = pub_version publish,
     m_properties = props, m_publish = p, m_lastTouch = 0, m_next = Some PUBREL\<rparr>"

lemma qos2_message_simps [simp]:
  "m_msgid (qos2_message publish p props) = pub_msgId publish"
  "m_publish (qos2_message publish p props) = p"
  "m_version (qos2_message publish p props) = pub_version publish"
  "m_properties (qos2_message publish p props) = props"
  "m_qos (qos2_message publish p props) = int (hdr_qos (pub_header publish))"
  "m_retain (qos2_message publish p props) = int (hdr_retain (pub_header publish))"
  "(qos2_message publish p props)\<lparr>m_publish := p'\<rparr> = qos2_message publish p' props"
  by (simp_all add: qos2_message_def)

lemma hdr_retain_bit: "int (hdr_retain h) \<in> {0, 1}"
  by (auto simp: hdr_retain_def)

lemma qos2_message_ok:
  assumes "publish_in v publish" and "hdr_qos (pub_header publish) = 2" and "props_held v props"
  shows "in_ok v (qos2_message publish p props) \<longleftrightarrow> (v < 5 \<longrightarrow> p \<noteq> None)"
  using assms hdr_retain_bit [of "pub_header publish"]
  by (simp add: in_ok_def publish_in_def) (simp add: qos2_message_def)

lemma session_ok_placed:
  assumes "session_ok v F c st" and "placed m i ins (inboundMsgs c)" and "in_ok v m"
    and "heap_ok (owners ins + (owners (outboundMsgs c) + F)) st'" and "inboundMsgs c' = ins"
    and "outboundMsgs c' = outboundMsgs c"
  shows "session_ok v F c' st'"
proof -
  from assms(2) have "set ins = insert m (set (remove_nth i ins))"
    using remove_nth_facts(1) [of i ins] unfolding placed_def by (metis set_mset_add_mset_insert set_mset_mset)
  with assms show ?thesis by (auto simp: session_ok_def placed_def)
qed

lemma qos2_steps:
  assumes ok: "session_ok v F c st" and p: "publish_in v publish" and qos: "hdr_qos (pub_header publish) = 2"
    and al: "\<forall>n. alloc e n"
  defines "q \<equiv> next_pub st" and "R \<equiv> owners (outboundMsgs c) + F"
    and "r \<equiv> \<lparr>p_topic = pub_topic publish, p_topiclen = pub_topiclen publish, p_payload = pub_payload publish,
      p_payloadlen = pub_payloadlen publish, refcount = 1\<rparr>"
  obtains props m ins i st2 rc n where "props_held v props" "5 \<le> v \<longleftrightarrow> props \<noteq> None"
    "map_option prop_list props = g_properties (msg_of publish)" "m = qos2_message publish (Some q) props"
    "heap_ok (add_mset q (owners (remove_nth i ins) + R)) st2" "placed m i ins (inboundMsgs c)" "pubs st2 q = Some r"
    "\<And>x. x \<in># owners (remove_nth i ins) \<Longrightarrow> pubs st2 x = pubs st x"
    "handle_qos2 e publish c st =
       (if 5 \<le> v \<and> find_msg (pub_msgId publish) (inboundMsgs c) = None then
          bindR (Protocol_processPublication e
              (publish\<lparr>pub_header := mk_header 0 0 (m_qos m) (m_retain m), pub_properties := the props\<rparr>) True
              (c\<lparr>inboundMsgs := ins, cnet := n\<rparr>)) (\<lambda>c4.
            Inr (rc, c4\<lparr>inboundMsgs := set_msg (m_msgid m) (\<lambda>x. x\<lparr>m_publish := None\<rparr>) (inboundMsgs c4)\<rparr>,
              drop_publication q st2))
        else Inr (rc, c\<lparr>inboundMsgs := ins, cnet := n\<rparr>,
          st2\<lparr>pubs := (pubs st2)(q \<mapsto> r\<lparr>p_payload := take (nat (p_payloadlen r)) (p_payload r)\<rparr>)\<rparr>))"
proof -
  have heap: "heap_ok (owners (inboundMsgs c) + R) st" and d: "distinct (map m_msgid (inboundMsgs c))"
    and held: "\<forall>x \<in> set (inboundMsgs c). props_held (m_version x) (m_properties x)"
    using ok by (auto simp: session_ok_def R_def in_ok_def)
  have len: "0 \<le> pub_payloadlen publish" "nat (pub_payloadlen publish) \<le> length (pub_payload publish)"
    "pub_payloadlen publish < 2147483648" using p by (simp_all add: publish_in_def)
  obtain st1 where st1: "MQTTProtocol_storePublication (alloc e) publish st = (Some q, st1)"
    "heap_ok (add_mset q (owners (inboundMsgs c) + R)) st1" "pubs st1 = (pubs st)(q \<mapsto> r)"
    "q \<notin># owners (inboundMsgs c) + R"
    using heap_ok_store [OF heap al len] unfolding q_def r_def by metis
  obtain props where props:
    "(if 5 \<le> pub_version publish then bindR (MQTTProperties_copy (alloc e) (pub_properties publish)) (\<lambda>ps. Inr (Some ps))
      else Inr None) = Inr props" "props_held v props" "map_option prop_list props = g_properties (msg_of publish)"
    "5 \<le> v \<longleftrightarrow> props \<noteq> None"
    by (rule copy_option [OF p al])
  define m where "m = qos2_message publish (Some q) props"
  have mp: "m_publish m = Some q" "m_msgid m = pub_msgId publish" by (simp_all add: m_def)
  from store_inbound_ok [OF st1(2) mp(1) d held] obtain ins i st2 where ins:
    "store_inbound m c st1 = Inr (find_msg (m_msgid m) (inboundMsgs c) \<noteq> None, c\<lparr>inboundMsgs := ins\<rparr>, st2)"
    "heap_ok (add_mset q (owners (remove_nth i ins) + R)) st2" "placed m i ins (inboundMsgs c)"
    "\<And>x. x \<in># add_mset q (owners (remove_nth i ins) + R) \<Longrightarrow> pubs st2 x = pubs st1 x" by metis
  have r2: "pubs st2 q = Some r" using ins(4) [of q] st1(3) by simp
  then have r2': "deref (Some q) st2 = Inr r" by (simp add: deref_def)
  have rest: "pubs st2 x = pubs st x" if "x \<in># owners (remove_nth i ins)" for x
  proof -
    from that have "x \<in># owners (inboundMsgs c)"
      using ins(3) by (fastforce simp: placed_def owners_def ptr_def split: option.splits)
    with st1(4) have "x \<noteq> q" by auto
    with that ins(4) [of x] st1(3) show ?thesis by simp
  qed
  obtain rc n where send: "MQTTPacket_send_pubrec (alloc e) (pub_msgId publish) (cnet c) = Inr (rc, n)"
    using send_acks_ex(2) [OF al, of "pub_msgId publish" "cnet c"] by auto
  have mal: "malloc_ok (alloc e) 72" "malloc_ok (alloc e) (p_payloadlen r)"
    using malloc_small [OF al] len by (simp_all add: r_def)
  have pl: "payload_bytes (p_payload r) (p_payloadlen r) = Inr (take (nat (p_payloadlen r)) (p_payload r))"
    using len by (simp add: r_def payload_bytes_ok)
  have m': "\<lparr>m_qos = int (hdr_qos (pub_header publish)), m_retain = int (hdr_retain (pub_header publish)),
     m_msgid = pub_msgId publish, m_version = pub_version publish, m_properties = props, m_publish = Some q,
     m_lastTouch = 0, m_next = Some PUBREL\<rparr> = m" by (simp add: m_def qos2_message_def)
  have v: "pub_version publish = v" using p by (simp add: publish_in_def)
  have pe: "5 \<le> v \<Longrightarrow> (case props of None \<Rightarrow> MQTTProperties_initializer | Some ps \<Rightarrow> ps) = the props"
    using props(4) by (auto split: option.splits)
  have mv: "m_version m = v" "m_qos m = int (hdr_qos (pub_header publish))"
    "m_retain m = int (hdr_retain (pub_header publish))" by (simp_all add: m_def v)
  have pub: "publish\<lparr>pub_header := h, pub_topic := p_topic r, pub_topiclen := p_topiclen r, pub_payload := p_payload r,
      pub_payloadlen := p_payloadlen r, pub_properties := ps\<rparr> = publish\<lparr>pub_header := h, pub_properties := ps\<rparr>" for h ps
    by (cases publish) (simp add: r_def)
  have run: "handle_qos2 e publish c st =
       (if 5 \<le> v \<and> find_msg (pub_msgId publish) (inboundMsgs c) = None then
          bindR (Protocol_processPublication e
              (publish\<lparr>pub_header := mk_header 0 0 (m_qos m) (m_retain m), pub_properties := the props\<rparr>) True
              (c\<lparr>inboundMsgs := ins, cnet := n\<rparr>)) (\<lambda>c4.
            Inr (rc, c4\<lparr>inboundMsgs := set_msg (m_msgid m) (\<lambda>x. x\<lparr>m_publish := None\<rparr>) (inboundMsgs c4)\<rparr>,
              drop_publication q st2))
        else Inr (rc, c\<lparr>inboundMsgs := ins, cnet := n\<rparr>,
          st2\<lparr>pubs := (pubs st2)(q \<mapsto> r\<lparr>p_payload := take (nat (p_payloadlen r)) (p_payload r)\<rparr>)\<rparr>))"
    using mal pe unfolding handle_qos2_def
    by (cases "find_msg (pub_msgId publish) (inboundMsgs c)")
      (simp_all add: st1(1) props(1) [unfolded v] m' [unfolded v] pub Let_def ins(1) [unfolded mp(2)] send r2' pl v mv mp
        cong: if_cong)
  show thesis
    by (rule that [OF props(2,4,3) m_def ins(2,3) r2 _ run]) (rule rest)
qed

lemma find_msg_nth:
  assumes "i < length ms" and "distinct (map m_msgid ms)"
  shows "find_msg (m_msgid (ms ! i)) ms = Some i"
  unfolding find_msg_def using assms
  by (intro first_index_unique) (auto simp: messageIDCompare_def dest: distinct_map_nth)

lemma msg_of_again:
  assumes "hdr_qos (pub_header p) = 2" and "pub_version p = v" and "5 \<le> v \<longleftrightarrow> props \<noteq> None"
    and "map_option prop_list props = g_properties (msg_of p)"
  shows "5 \<le> v \<Longrightarrow> msg_of (p\<lparr>pub_header := mk_header 0 0 2 (int (hdr_retain (pub_header p))), pub_properties := the props\<rparr>)
      = msg_of p"
  using assms mk_header_bits [of 0 0 2 "int (hdr_retain (pub_header p))"] hdr_retain_bit [of "pub_header p"]
  by (auto simp: msg_of_def Let_def)

lemma rx_publish_qos2:
  "g_qos g = 2 \<Longrightarrow> v < 5 \<Longrightarrow> rx_publish v True g r = r\<lparr>awaiting := (awaiting r)(g_msgid g \<mapsto> Some g)\<rparr>"
  "g_qos g = 2 \<Longrightarrow> 5 \<le> v \<Longrightarrow> awaiting r (g_msgid g) = None \<Longrightarrow>
     rx_publish v True g r = hand g (r\<lparr>awaiting := (awaiting r)(g_msgid g \<mapsto> None)\<rparr>)"
  "g_qos g = 2 \<Longrightarrow> 5 \<le> v \<Longrightarrow> awaiting r (g_msgid g) = Some x \<Longrightarrow> rx_publish v True g r = r"
  by (simp_all add: rx_publish_def)

lemma msg_of_fields [simp]: "g_msgid (msg_of p) = pub_msgId p" "g_qos (msg_of p) = int (hdr_qos (pub_header p))"
  by (simp_all add: msg_of_def Let_def)

text \<open>MQTT 5, first arrival: handed over at once, the publication is no longer needed.\<close>

lemma settle_first:
  assumes ok: "session_ok v F c st" and v: "5 \<le> v" and new: "find_msg (m_msgid m) (inboundMsgs c) = None"
    and pl: "placed m i ins (inboundMsgs c)" and m: "in_ok v (m\<lparr>m_publish := None\<rparr>)"
    and heap: "heap_ok (add_mset q (owners (remove_nth i ins) + (owners (outboundMsgs c) + F))) st2"
    and c': "inboundMsgs c' = set_msg (m_msgid m) (\<lambda>x. x\<lparr>m_publish := None\<rparr>) ins" "outboundMsgs c' = outboundMsgs c"
    "map view (delivered c' @ messageQueue c') = map view (delivered c @ messageQueue c) @ [g]"
    and g: "g_msgid g = m_msgid m" "g_qos g = 2"
  shows "session_ok v F c' (drop_publication q st2) \<and>
    receiver_of v c' (drop_publication q st2) = rx_publish v True g (receiver_of v c st)"
proof -
  have i: "i < length ins" "ins ! i = m" "distinct (map m_msgid ins)" using pl by (simp_all add: placed_def)
  then have "find_msg (m_msgid m) ins = Some i" using find_msg_nth [of i ins] by simp
  with i have c'': "inboundMsgs c' = ins[i := m\<lparr>m_publish := None\<rparr>]" by (simp add: c' set_msg_def)
  have pl': "placed (m\<lparr>m_publish := None\<rparr>) i (ins[i := m\<lparr>m_publish := None\<rparr>]) (inboundMsgs c)"
    using pl i(2) by (simp add: placed_def by_id_nth(1,4) [OF i(1) _ i(3)])
  have h: "heap_ok (owners (ins[i := m\<lparr>m_publish := None\<rparr>]) + (owners (outboundMsgs c) + F)) (drop_publication q st2)"
    using heap_ok_drop(1) [OF heap] by (simp add: owners_nth(2) [OF i(1)])
  have f: "pending_msg v st' = (\<lambda>_. None)" for st' using v by (simp add: pending_msg_def fun_eq_iff)
  have "awaiting (receiver_of v c st) (g_msgid g) = None"
    using new g by (simp add: receiver_of_def by_id_None find_msg_None)
  then have "rx_publish v True g (receiver_of v c st) = receiver_of v c' (drop_publication q st2)"
    using rx_publish_qos2(2) [OF g(2) v] pl' c'(3) g by (simp add: hand_def receiver_of_def c'' placed_def f)
  with session_ok_placed [OF ok pl' m h c'' c'(2)] show ?thesis by simp
qed

text \<open>Otherwise the publication is kept, with a copy of its payload, until the \<^verbatim>\<open>PUBREL\<close>.\<close>

lemma settle_kept:
  assumes ok: "session_ok v F c st" and old: "5 \<le> v \<Longrightarrow> find_msg (m_msgid m) (inboundMsgs c) \<noteq> None"
    and pl: "placed m i ins (inboundMsgs c)" and m: "in_ok v m" "m_publish m = Some q"
    and heap: "heap_ok (add_mset q (owners (remove_nth i ins) + (owners (outboundMsgs c) + F))) st2"
    and st2: "pubs st2 q = Some r" "\<And>x. x \<in># owners (remove_nth i ins) \<Longrightarrow> pubs st2 x = pubs st x"
    and g: "g_msgid g = m_msgid m" "g_qos g = 2" "v < 5 \<Longrightarrow> g = \<lparr>g_topic = p_topic r,
      g_payload = take (nat (p_payloadlen r)) (p_payload r), g_qos = 2, g_retained = m_retain m, g_dup = 0,
      g_msgid = m_msgid m, g_properties = None\<rparr>"
  defines "st' \<equiv> st2\<lparr>pubs := (pubs st2)(q \<mapsto> r\<lparr>p_payload := take (nat (p_payloadlen r)) (p_payload r)\<rparr>)\<rparr>"
  shows "session_ok v F (c\<lparr>inboundMsgs := ins, cnet := n\<rparr>) st' \<and>
    receiver_of v (c\<lparr>inboundMsgs := ins, cnet := n\<rparr>) st' = rx_publish v True g (receiver_of v c st)"
proof -
  have i: "i < length ins" "ins ! i = m" "distinct (map m_msgid ins)" using pl by (simp_all add: placed_def)
  have "heap_ok (owners ins + (owners (outboundMsgs c) + F)) st'"
    using heap_ok_payload [OF heap st2(1)] m(2) i by (simp add: owners_nth(1) [OF i(1)] st'_def)
  then have "session_ok v F (c\<lparr>inboundMsgs := ins, cnet := n\<rparr>) st'"
    by (intro session_ok_placed [OF ok pl m(1)]) simp_all
  moreover have "receiver_of v (c\<lparr>inboundMsgs := ins, cnet := n\<rparr>) st' = rx_publish v True g (receiver_of v c st)"
  proof (cases "v < 5")
    case True
    let ?b = "\<lambda>st. by_id (pending_msg v st)"
    have q: "q \<notin># owners (remove_nth i ins)" using heap_ok_distinct [OF heap] by simp
    have f: "pending_msg v st' m = Some g"
      using True m(2) g(3) by (simp add: pending_msg_def stored_msg_def st'_def)
    have "?b st' ins = (?b st' (remove_nth i ins))(m_msgid m \<mapsto> pending_msg v st' m)"
      using by_id_nth(2,3) [OF i(1) _ i(3), of m "pending_msg v st'"] i(2) by (auto simp: fun_eq_iff)
    also have "?b st' (remove_nth i ins) = ?b st (remove_nth i ins)"
      using st2(2) q by (intro pending_cong) (auto simp: st'_def)
    also have "(?b st (remove_nth i ins))(m_msgid m \<mapsto> x) = (?b st (inboundMsgs c))(m_msgid m \<mapsto> x)" for x
      using by_id_nth(2) [OF i(1) _ i(3), of m "pending_msg v st"] i(2) pl by (auto simp: fun_eq_iff placed_def)
    finally show ?thesis using rx_publish_qos2(1) [OF g(2) True] f g(1) by (simp add: receiver_of_def)
  next
    case False
    then have v: "5 \<le> v" by simp
    then have f: "pending_msg v st = (\<lambda>_. None)" for st by (simp add: pending_msg_def fun_eq_iff)
    from old [OF v] obtain j where "find_msg (m_msgid m) (inboundMsgs c) = Some j" by auto
    then have "by_id (\<lambda>_. None) (inboundMsgs c) (m_msgid m) = Some (None :: amsg option)"
      using ok by (auto simp: session_ok_def dest!: by_id_find)
    then have "awaiting (receiver_of v c st) (g_msgid g) = Some None"
      "by_id (\<lambda>_. None) ins = by_id (\<lambda>_. None :: amsg option) (inboundMsgs c)"
      using pl by (simp_all add: receiver_of_def f g(1) placed_def fun_upd_idem)
    then show ?thesis using rx_publish_qos2(3) [OF g(2) v] by (simp add: receiver_of_def f)
  qed
  ultimately show ?thesis ..
qed

lemma handle_qos2_ok:
  assumes ok: "session_ok v F c st" and p: "publish_in v publish" and qos: "hdr_qos (pub_header publish) = 2"
    and al: "\<forall>n. alloc e n"
  shows "\<exists>rc c' st'. handle_qos2 e publish c st = Inr (rc, c', st') \<and> session_ok v F c' st' \<and>
    outboundMsgs c' = outboundMsgs c \<and> socket c' = socket c \<and>
    receiver_of v c' st' = rx_publish v True (msg_of publish) (receiver_of v c st)"
proof (rule qos2_steps [OF assms])
  let ?q = "next_pub st" and ?r = "\<lparr>p_topic = pub_topic publish, p_topiclen = pub_topiclen publish,
    p_payload = pub_payload publish, p_payloadlen = pub_payloadlen publish, refcount = 1\<rparr>"
  fix props m ins i st2 rc n
  assume props: "props_held v props" "5 \<le> v \<longleftrightarrow> props \<noteq> None" "map_option prop_list props = g_properties (msg_of publish)"
    and m: "m = qos2_message publish (Some ?q) props"
    and ins: "heap_ok (add_mset ?q (owners (remove_nth i ins) + (owners (outboundMsgs c) + F))) st2"
    "placed m i ins (inboundMsgs c)"
    and st2: "pubs st2 ?q = Some ?r" "\<And>x. x \<in># owners (remove_nth i ins) \<Longrightarrow> pubs st2 x = pubs st x"
    and run: "handle_qos2 e publish c st =
       (if 5 \<le> v \<and> find_msg (pub_msgId publish) (inboundMsgs c) = None then
          bindR (Protocol_processPublication e
              (publish\<lparr>pub_header := mk_header 0 0 (m_qos m) (m_retain m), pub_properties := the props\<rparr>) True
              (c\<lparr>inboundMsgs := ins, cnet := n\<rparr>)) (\<lambda>c4.
            Inr (rc, c4\<lparr>inboundMsgs := set_msg (m_msgid m) (\<lambda>x. x\<lparr>m_publish := None\<rparr>) (inboundMsgs c4)\<rparr>,
              drop_publication ?q st2))
        else Inr (rc, c\<lparr>inboundMsgs := ins, cnet := n\<rparr>,
          st2\<lparr>pubs := (pubs st2)(?q \<mapsto> ?r\<lparr>p_payload := take (nat (p_payloadlen ?r)) (p_payload ?r)\<rparr>)\<rparr>))"
  have v: "pub_version publish = v" using p by (simp add: publish_in_def)
  have mm: "m_msgid m = pub_msgId publish" "m_publish m = Some ?q" by (simp_all add: m)
  have g: "g_msgid (msg_of publish) = m_msgid m" "g_qos (msg_of publish) = 2" by (simp_all add: mm qos)
  show ?thesis
  proof (cases "5 \<le> v \<and> find_msg (pub_msgId publish) (inboundMsgs c) = None")
    case True
    let ?p = "publish\<lparr>pub_header := mk_header 0 0 (m_qos m) (m_retain m), pub_properties := the props\<rparr>"
    have p': "publish_in v ?p" using p props True by (auto simp: publish_in_def props_held_def)
    have same: "msg_of ?p = msg_of publish" using msg_of_again [OF qos v props(2,3)] True qos by (simp add: m)
    from process_ex [OF p' al, of True "c\<lparr>inboundMsgs := ins, cnet := n\<rparr>"] obtain d w where dw:
      "Protocol_processPublication e ?p True (c\<lparr>inboundMsgs := ins, cnet := n\<rparr>) =
         Inr (c\<lparr>inboundMsgs := ins, cnet := n, delivered := d, messageQueue := w\<rparr>)"
      "map view (d @ w) = map view (delivered c @ messageQueue c) @ [msg_of ?p]" by auto
    have m0: "in_ok v (m\<lparr>m_publish := None\<rparr>)" using qos2_message_ok [OF p qos props(1), of None] True by (simp add: m)
    let ?c = "c\<lparr>cnet := n, delivered := d, messageQueue := w,
      inboundMsgs := set_msg (m_msgid m) (\<lambda>x. x\<lparr>m_publish := None\<rparr>) ins\<rparr>"
    have "session_ok v F ?c (drop_publication ?q st2) \<and>
        receiver_of v ?c (drop_publication ?q st2) = rx_publish v True (msg_of publish) (receiver_of v c st)"
      using True dw(2) by (intro settle_first [OF ok _ _ ins(2) m0 ins(1) _ _ _ g]) (simp_all add: mm same)
    with run True dw(1) show ?thesis by simp
  next
    case False
    have m1: "in_ok v m" using qos2_message_ok [OF p qos props(1), of "Some ?q"] by (simp add: m)
    let ?c = "c\<lparr>inboundMsgs := ins, cnet := n\<rparr>"
      and ?st = "st2\<lparr>pubs := (pubs st2)(?q \<mapsto> ?r\<lparr>p_payload := take (nat (p_payloadlen ?r)) (p_payload ?r)\<rparr>)\<rparr>"
    have "session_ok v F ?c ?st \<and> receiver_of v ?c ?st = rx_publish v True (msg_of publish) (receiver_of v c st)"
      by (rule settle_kept [OF ok _ ins(2) m1 mm(2) ins(1) st2 g])
        (use False qos v in \<open>auto simp: msg_of_def Let_def m\<close>)
    moreover have "handle_qos2 e publish c st = Inr (rc, ?c, ?st)" using False by (simp only: run if_False)
    ultimately show ?thesis by simp
  qed
qed

text \<open>Every incoming \<^verbatim>\<open>PUBLISH\<close>.\<close>

lemma receiver_handed:
  assumes "session_ok v F c st" and "map view (d @ q) = map view (delivered c @ messageQueue c) @ [g]"
  shows "session_ok v F (c\<lparr>cnet := n, delivered := d, messageQueue := q\<rparr>) st"
    and "receiver_of v (c\<lparr>cnet := n, delivered := d, messageQueue := q\<rparr>) st = hand g (receiver_of v c st)"
  using assms by (simp_all add: session_ok_def receiver_of_def hand_def)

lemma handle_publish_ok:
  assumes ok: "session_ok v F c st" and p: "publish_in v publish" and al: "\<forall>n. alloc e n"
  shows "\<exists>rc c' st'. handle_publish e publish c st = Inr (rc, c', st') \<and> session_ok v F c' st' \<and>
    outboundMsgs c' = outboundMsgs c \<and> socket c' = socket c \<and>
    receiver_of v c' st' = rx_publish v (noPendingWrites e (socket c) 0) (msg_of publish) (receiver_of v c st)"
proof -
  have v: "pub_version publish = v" using p by (simp add: publish_in_def)
  have free: "MQTTPacket_freePublish publish = Inr ()"
    using p by (simp add: MQTTPacket_freePublish_def v props_held_def publish_in_def free_properties_held)
  have id: "c\<lparr>cnet := cnet c\<rparr> = c" by simp
  consider "hdr_qos (pub_header publish) = 0" | "hdr_qos (pub_header publish) \<noteq> 0" "\<not> noPendingWrites e (socket c) 0"
    | "hdr_qos (pub_header publish) = 1" "noPendingWrites e (socket c) 0"
    | "hdr_qos (pub_header publish) = 2" "noPendingWrites e (socket c) 0"
    | "hdr_qos (pub_header publish) > 2" "noPendingWrites e (socket c) 0" by linarith
  then show ?thesis
  proof cases
    case 1
    from process_ex [OF p al, of True c] obtain d q where "Protocol_processPublication e publish True c =
        Inr (c\<lparr>delivered := d, messageQueue := q\<rparr>)"
      "map view (d @ q) = map view (delivered c @ messageQueue c) @ [msg_of publish]" by auto
    with 1 receiver_handed [OF ok this(2), of "cnet c"] show ?thesis
      by (simp add: handle_publish_def free rx_publish_def)
  next
    case 2
    with ok show ?thesis by (simp add: handle_publish_def free rx_publish_def)
  next
    case 3
    from send_acks_ex(1) [OF al] obtain rc n where s: "MQTTPacket_send_puback (alloc e) (pub_msgId publish) (cnet c) = Inr (rc, n)"
      by blast
    from process_ex [OF p al, of True "c\<lparr>cnet := n\<rparr>"] obtain d q where
      "Protocol_processPublication e publish True (c\<lparr>cnet := n\<rparr>) = Inr (c\<lparr>cnet := n, delivered := d, messageQueue := q\<rparr>)"
      "map view (d @ q) = map view (delivered c @ messageQueue c) @ [msg_of publish]" by auto
    with 3 s receiver_handed [OF ok this(2), of n] show ?thesis
      by (simp add: handle_publish_def free rx_publish_def)
  next
    case 4
    from handle_qos2_ok [OF ok p 4(1) al] 4 show ?thesis by (auto simp: handle_publish_def free)
  next
    case 5
    with ok show ?thesis by (auto simp: handle_publish_def free rx_publish_def)
  qed
qed

section \<open>Releasing\<close>

definition ack_in :: "int \<Rightarrow> Ack \<Rightarrow> bool" where
  "ack_in v a \<longleftrightarrow> ack_version a = v \<and> ack_msgId a \<noteq> None \<and> props_held v (ack_properties a)"

lemma freeAck_ok: "ack_in v a \<Longrightarrow> MQTTPacket_freeAck a = Inr ()"
  by (auto simp: ack_in_def MQTTPacket_freeAck_def free_properties_held)

text \<open>The inbound message of a \<^verbatim>\<open>PUBREL\<close> leaves the list, and its publication the store.\<close>

lemma session_ok_released:
  assumes ok: "session_ok v F c st" and i: "i < length (inboundMsgs c)"
    and c': "inboundMsgs c' = remove_nth i (inboundMsgs c)" "outboundMsgs c' = outboundMsgs c"
  defines "st' \<equiv> case m_publish (inboundMsgs c ! i) of None \<Rightarrow> st | Some p \<Rightarrow> drop_publication p st"
  shows "session_ok v F c' (st'\<lparr>msgs_received := k\<rparr>)"
    and "by_id (pending_msg v (st'\<lparr>msgs_received := k\<rparr>)) (remove_nth i (inboundMsgs c)) =
      (by_id (pending_msg v st) (inboundMsgs c))(m_msgid (inboundMsgs c ! i) := None)"
proof -
  let ?m = "inboundMsgs c ! i"
  let ?R = "owners (remove_nth i (inboundMsgs c)) + (owners (outboundMsgs c) + F)"
  have d: "distinct (map m_msgid (inboundMsgs c))" using ok by (simp add: session_ok_def)
  have heap: "heap_ok (ptr (m_publish ?m) + ?R) st"
    using ok by (simp add: session_ok_def owners_nth(1) [OF i] ac_simps)
  have st': "heap_ok ?R st' \<and> (\<forall>q \<in># ?R. pubs st' q = pubs st q)"
  proof (cases "m_publish ?m")
    case None
    with heap show ?thesis by (simp add: st'_def)
  next
    case (Some q)
    with heap have "heap_ok (add_mset q ?R) st" by simp
    from heap_ok_drop [OF this] Some show ?thesis by (simp add: st'_def)
  qed
  then show "session_ok v F c' (st'\<lparr>msgs_received := k\<rparr>)"
    using ok c' remove_nth_facts(3) [OF i] by_id_nth(5) [OF i refl d]
    by (auto simp: session_ok_def heap_ok_def)
  have "by_id (pending_msg v (st'\<lparr>msgs_received := k\<rparr>)) (remove_nth i (inboundMsgs c)) =
      by_id (pending_msg v st) (remove_nth i (inboundMsgs c))"
    using st' by (intro pending_cong) simp
  with by_id_nth(2) [OF i refl d]
  show "by_id (pending_msg v (st'\<lparr>msgs_received := k\<rparr>)) (remove_nth i (inboundMsgs c)) =
      (by_id (pending_msg v st) (inboundMsgs c))(m_msgid ?m := None)" by simp
qed

lemma deliver_stored_ok:
  assumes heap: "heap_ok M st" and m: "in_ok v m" and own: "\<And>q. m_publish m = Some q \<Longrightarrow> q \<in># M" and al: "\<forall>n. alloc e n"
  shows "\<exists>d q. deliver_stored e m st c = Inr (c\<lparr>delivered := d, messageQueue := q\<rparr>) \<and>
    map view (d @ q) = map view (delivered c @ messageQueue c) @ (if 5 \<le> v then [] else [stored_msg st m])"
proof (cases "5 \<le> v")
  case True
  with m show ?thesis
    by (intro exI [of _ "delivered c"] exI [of _ "messageQueue c"]) (simp add: deliver_stored_def in_ok_def)
next
  case False
  with m obtain q where q: "m_publish m = Some q" by (auto simp: in_ok_def)
  from heap_ok_deref [OF heap own [OF q]] obtain r where r: "pubs st q = Some r" "stored_ok r" "deref (Some q) st = Inr r" .
  have mq: "m_qos m = 2" "m_version m = v" "m_retain m \<in> {0, 1}" using m by (simp_all add: in_ok_def)
  define p where "p = \<lparr>pub_header = mk_header 0 0 2 (m_retain m), pub_topic = p_topic r,
     pub_topiclen = p_topiclen r, pub_msgId = m_msgid m, pub_payload = p_payload r,
     pub_payloadlen = p_payloadlen r, pub_version = v, pub_properties = MQTTProperties_initializer\<rparr>"
  have "publish_in v p" using r(2) False by (simp add: publish_in_def stored_ok_def p_def)
  moreover have "msg_of p = stored_msg st m"
    using q r(1) mq(3) False mk_header_bits [of 0 0 2 "m_retain m"]
    by (auto simp: msg_of_def stored_msg_def Let_def p_def)
  ultimately show ?thesis
    using process_ex [of v p e False c, OF _ al] False q r(3) mq by (simp add: deliver_stored_def p_def)
qed

lemma handle_pubrel_ok:
  assumes ok: "session_ok v F c st" and a: "ack_in v pubrel" "ack_msgId pubrel = Some msgid" and al: "\<forall>n. alloc e n"
  shows "\<exists>rc c' st'. handle_pubrel e pubrel c st = Inr (rc, c', st') \<and> session_ok v F c' st' \<and>
    outboundMsgs c' = outboundMsgs c \<and> socket c' = socket c \<and>
    receiver_of v c' st' = rx_pubrel (noPendingWrites e (socket c) 0) msgid (receiver_of v c st)"
proof (cases "find_msg msgid (inboundMsgs c)")
  case None
  then have n: "awaiting (receiver_of v c st) msgid = None" by (simp add: receiver_of_def by_id_None find_msg_None)
  obtain rc n where s: "MQTTPacket_send_pubcomp (alloc e) msgid (cnet c) = Inr (rc, n)"
    using send_acks_ex(4) [OF al] by blast
  have c: "session_ok v F (c\<lparr>cnet := n\<rparr>) st" "receiver_of v (c\<lparr>cnet := n\<rparr>) st = receiver_of v c st"
    using ok by (simp_all add: session_ok_def receiver_of_def)
  from None n s c ok show ?thesis
    by (simp add: handle_pubrel_def a(2) freeAck_ok [OF a(1)] rx_pubrel_def)
next
  case (Some i)
  let ?m = "inboundMsgs c ! i" and ?ready = "noPendingWrites e (socket c) 0"
  note i = find_msg_Some [OF Some]
  have m: "in_ok v ?m" and d: "distinct (map m_msgid (inboundMsgs c))" using ok i(3) by (auto simp: session_ok_def)
  have aw: "awaiting (receiver_of v c st) msgid = Some (pending_msg v st ?m)"
    using by_id_find [OF Some d] by (simp add: receiver_of_def)
  obtain rc n where s: "MQTTPacket_send_pubcomp (alloc e) msgid (cnet c) = Inr (rc, n)"
    using send_acks_ex(4) [OF al] by blast
  show ?thesis
  proof (cases ?ready)
    case False
    with Some m ok aw show ?thesis
      by (simp add: handle_pubrel_def a(2) freeAck_ok [OF a(1)] rx_pubrel_def in_ok_def Let_def)
  next
    case True
    define st' where "st' = (case m_publish ?m of None \<Rightarrow> st | Some p \<Rightarrow> drop_publication p st)
      \<lparr>msgs_received := msgs_received st + 1\<rparr>"
    have free: "free_properties (m_version ?m) (m_properties ?m) = Inr ()"
      using m by (simp add: in_ok_def free_properties_held)
    have heap: "heap_ok (owners (inboundMsgs c) + (owners (outboundMsgs c) + F)) st" using ok by (simp add: session_ok_def)
    have "\<exists>d q. deliver_stored e ?m st (c\<lparr>cnet := n\<rparr>) = Inr (c\<lparr>cnet := n, delivered := d, messageQueue := q\<rparr>) \<and>
      map view (d @ q) = map view (delivered c @ messageQueue c) @ (if 5 \<le> v then [] else [stored_msg st ?m])"
      using deliver_stored_ok [OF heap m _ al, of "c\<lparr>cnet := n\<rparr>"] owners_mem [OF i(3)] by simp
    then obtain D Q where DQ: "deliver_stored e ?m st (c\<lparr>cnet := n\<rparr>) = Inr (c\<lparr>cnet := n, delivered := D, messageQueue := Q\<rparr>)"
      "map view (D @ Q) = map view (delivered c @ messageQueue c) @ (if 5 \<le> v then [] else [stored_msg st ?m])" by blast
    let ?c = "c\<lparr>cnet := n, delivered := D, messageQueue := Q, inboundMsgs := remove_nth i (inboundMsgs c)\<rparr>"
    have "handle_pubrel e pubrel c st = Inr (rc + persist_remove e, ?c, st')"
      using Some True m s DQ(1) free
      by (simp add: handle_pubrel_def a(2) freeAck_ok [OF a(1)] in_ok_def Let_def st'_def)
    moreover have "session_ok v F ?c st'"
      unfolding st'_def by (rule session_ok_released(1) [OF ok i(1)]) simp_all
    moreover have "receiver_of v ?c st' = rx_pubrel ?ready msgid (receiver_of v c st)"
      using session_ok_released(2) [OF ok i(1), of ?c "msgs_received st + 1"] aw True DQ(2) i(2)
      by (simp add: rx_pubrel_def hand_def receiver_of_def st'_def pending_msg_def)
    ultimately show ?thesis by simp
  qed
qed

end
