(* ===== verification/Protocol_Exchange.thy ===== *)
theory Protocol_Exchange
  imports Protocol_Session
begin

text \<open>
  Complete sessions of the protocol engine. The acknowledgement handlers move each outbound
  message through the phases of its quality of service; together with the receiver of
  \<open>Protocol_Session\<close> this gives an abstract session, which every sequence of packets and
  publications refines.
\<close>

section \<open>The abstract sender\<close>

datatype phase = AwaitPuback | AwaitPubrec | AwaitPubcomp

definition phase_of :: "Messages \<Rightarrow> phase" where
  "phase_of m = (if m_qos m = 1 then AwaitPuback else if m_next m = Some PUBREC then AwaitPubrec else AwaitPubcomp)"

type_synonym sender = "int \<rightharpoonup> phase"

definition sender_of :: "Clients \<Rightarrow> sender" where
  "sender_of c = by_id phase_of (outboundMsgs c)"

definition tx_start :: "int \<Rightarrow> int \<Rightarrow> sender \<Rightarrow> sender" where
  "tx_start msgid qos s = s(msgid \<mapsto> if qos = 1 then AwaitPuback else AwaitPubrec)"

definition tx_puback :: "int \<Rightarrow> sender \<Rightarrow> sender" where
  "tx_puback msgid s = (if s msgid = Some AwaitPuback then s(msgid := None) else s)"

definition tx_pubrec :: "bool \<Rightarrow> int \<Rightarrow> sender \<Rightarrow> sender" where
  "tx_pubrec refused msgid s =
     (if s msgid = Some AwaitPubrec then s(msgid := if refused then None else Some AwaitPubcomp) else s)"

definition tx_pubcomp :: "int \<Rightarrow> sender \<Rightarrow> sender" where
  "tx_pubcomp msgid s = (if s msgid = Some AwaitPubcomp then s(msgid := None) else s)"

definition refused :: "Ack \<Rightarrow> bool" where
  "refused a \<longleftrightarrow> 5 \<le> ack_version a \<and> (case ack_rc a of None \<Rightarrow> False | Some b \<Rightarrow> 128 \<le> unat b)"

lemma session_ok_counts:
  "session_ok v F c st \<Longrightarrow> session_ok v F c (st\<lparr>msgs_sent := k\<rparr>)"
  "receiver_of v c (st\<lparr>msgs_sent := k\<rparr>) = receiver_of v c st"
  by (auto simp: session_ok_def heap_ok_def receiver_of_def intro!: pending_cong)

text \<open>Releasing an outbound message frees exactly its publication.\<close>

lemma release_outbound_ok:
  assumes ok: "session_ok v F c st" and i: "i < length (outboundMsgs c)"
  shows "\<exists>c' st'. release_outbound i c st = Inr (c', st') \<and> session_ok v F c' st' \<and> socket c' = socket c \<and>
    cnet c' = cnet c \<and> receiver_of v c' st' = receiver_of v c st \<and>
    sender_of c' = (sender_of c)(m_msgid (outboundMsgs c ! i) := None)"
proof -
  let ?m = "outboundMsgs c ! i"
  let ?c = "c\<lparr>outboundMsgs := remove_nth i (outboundMsgs c)\<rparr>"
  let ?R = "owners (inboundMsgs c) + (owners (remove_nth i (outboundMsgs c)) + F)"
  have m: "out_ok v ?m" and d: "distinct (map m_msgid (outboundMsgs c))" using ok i by (auto simp: session_ok_def)
  then obtain q where q: "m_publish ?m = Some q" by (auto simp: out_ok_def)
  have heap: "heap_ok (add_mset q ?R) st"
    using ok by (simp add: session_ok_def owners_nth(1) [OF i] q ac_simps)
  note drop = heap_ok_drop [OF heap]
  have free: "free_properties (m_version ?m) (m_properties ?m) = Inr ()"
    using m by (simp add: out_ok_def free_properties_held)
  have "release_outbound i c st = Inr (?c, drop_publication q st)"
    by (simp add: release_outbound_def Let_def q heap_ok_remove [OF heap] free)
  moreover have "session_ok v F ?c (drop_publication q st)"
    using ok drop(1) remove_nth_facts(3) [OF i] by_id_nth(5) [OF i refl d] by (auto simp: session_ok_def)
  moreover have "receiver_of v ?c (drop_publication q st) = receiver_of v c st"
    using drop(2) by (auto simp: receiver_of_def intro: pending_cong)
  moreover have "sender_of ?c = (sender_of c)(m_msgid ?m := None)"
    using by_id_nth(2) [OF i refl d] by (simp add: sender_of_def)
  ultimately show ?thesis by simp
qed

section \<open>Acknowledgements\<close>

lemma sender_find:
  assumes "session_ok v F c st"
  shows "find_msg x (outboundMsgs c) = None \<Longrightarrow> sender_of c x = None"
    and "find_msg x (outboundMsgs c) = Some i \<Longrightarrow> sender_of c x = Some (phase_of (outboundMsgs c ! i))"
    and "find_msg x (outboundMsgs c) = Some i \<Longrightarrow> out_ok v (outboundMsgs c ! i)"
  using assms by_id_find [of x "outboundMsgs c"] find_msg_Some [of x "outboundMsgs c"]
  by (auto simp: sender_of_def by_id_None find_msg_None session_ok_def)

lemma phase_iff:
  assumes "out_ok v m"
  shows "phase_of m = AwaitPuback \<longleftrightarrow> m_qos m = 1"
    and "phase_of m = AwaitPubrec \<longleftrightarrow> m_qos m = 2 \<and> m_next m = Some PUBREC"
    and "phase_of m = AwaitPubcomp \<longleftrightarrow> m_qos m = 2 \<and> m_next m = Some PUBCOMP"
  using assms by (auto simp: out_ok_def phase_of_def packet_types)

text \<open>How a handler's look-up shows in the abstract sender.\<close>

lemma sender_phase:
  assumes "session_ok v F c st"
  shows "sender_of c x = Some AwaitPuback \<longleftrightarrow> (\<exists>i. find_msg x (outboundMsgs c) = Some i \<and> m_qos (outboundMsgs c ! i) = 1)"
    and "sender_of c x = Some AwaitPubrec \<longleftrightarrow> (\<exists>i. find_msg x (outboundMsgs c) = Some i \<and>
      m_qos (outboundMsgs c ! i) = 2 \<and> m_next (outboundMsgs c ! i) = Some PUBREC)"
    and "sender_of c x = Some AwaitPubcomp \<longleftrightarrow> (\<exists>i. find_msg x (outboundMsgs c) = Some i \<and>
      m_qos (outboundMsgs c ! i) = 2 \<and> m_next (outboundMsgs c ! i) = Some PUBCOMP)"
  using sender_find [OF assms, of x] phase_iff [of v]
  by (cases "find_msg x (outboundMsgs c)"; simp)+

lemma handle_puback_ok:
  assumes ok: "session_ok v F c st" and a: "ack_in v puback" "ack_msgId puback = Some msgid"
  shows "\<exists>rc c' st'. handle_puback e puback c st = Inr (rc, c', st') \<and> session_ok v F c' st' \<and>
    socket c' = socket c \<and> cnet c' = cnet c \<and> receiver_of v c' st' = receiver_of v c st \<and>
    sender_of c' = tx_puback msgid (sender_of c)"
proof (cases "sender_of c msgid = Some AwaitPuback")
  case True
  then obtain i where i: "find_msg msgid (outboundMsgs c) = Some i" "m_qos (outboundMsgs c ! i) = 1"
    using sender_phase(1) [OF ok] by blast
  from release_outbound_ok [OF ok find_msg_Some(1) [OF i(1)]] i True find_msg_Some(2) [OF i(1)] show ?thesis
    by (auto simp: handle_puback_def a(2) freeAck_ok [OF a(1)] tx_puback_def)
next
  case False
  with sender_phase(1) [OF ok] ok show ?thesis
    by (auto simp: handle_puback_def a(2) freeAck_ok [OF a(1)] tx_puback_def split: option.splits)
qed

lemma handle_pubcomp_ok:
  assumes ok: "session_ok v F c st" and a: "ack_in v pubcomp" "ack_msgId pubcomp = Some msgid"
  shows "\<exists>rc c' st'. handle_pubcomp e pubcomp c st = Inr (rc, c', st') \<and> session_ok v F c' st' \<and>
    socket c' = socket c \<and> cnet c' = cnet c \<and> receiver_of v c' st' = receiver_of v c st \<and>
    sender_of c' = tx_pubcomp msgid (sender_of c)"
proof (cases "sender_of c msgid = Some AwaitPubcomp")
  case True
  then obtain i where i: "find_msg msgid (outboundMsgs c) = Some i" "m_qos (outboundMsgs c ! i) = 2"
    "m_next (outboundMsgs c ! i) = Some PUBCOMP" using sender_phase(3) [OF ok] by blast
  from release_outbound_ok [OF ok find_msg_Some(1) [OF i(1)]] i True find_msg_Some(2) [OF i(1)] show ?thesis
    by (auto simp: handle_pubcomp_def a(2) freeAck_ok [OF a(1)] tx_pubcomp_def session_ok_counts)
next
  case False
  with sender_phase(3) [OF ok] ok show ?thesis
    by (auto simp: handle_pubcomp_def a(2) freeAck_ok [OF a(1)] tx_pubcomp_def split: option.splits)
qed

text \<open>A \<^verbatim>\<open>PUBREC\<close> that is not refused is answered with the \<^verbatim>\<open>PUBREL\<close> of the same id.\<close>

lemma pubrel_sent:
  fixes n :: net and t :: int
  assumes ok: "session_ok v F c st" and i: "find_msg msgid (outboundMsgs c) = Some i"
    and m: "m_qos (outboundMsgs c ! i) = 2"
  defines "c' \<equiv> c\<lparr>cnet := n, outboundMsgs := (outboundMsgs c)[i :=
    (outboundMsgs c ! i)\<lparr>m_next := Some PUBCOMP, m_lastTouch := t\<rparr>]\<rparr>"
  shows "session_ok v F c' st" and "receiver_of v c' st = receiver_of v c st"
    and "sender_of c' = (sender_of c)(msgid \<mapsto> AwaitPubcomp)"
proof -
  let ?m = "(outboundMsgs c ! i)\<lparr>m_next := Some PUBCOMP, m_lastTouch := t\<rparr>"
  note il = find_msg_Some [OF i]
  have d: "distinct (map m_msgid (outboundMsgs c))" using ok by (simp add: session_ok_def)
  have o: "out_ok v (outboundMsgs c ! i)" by (rule sender_find(3) [OF ok i])
  then have o': "out_ok v ?m" using m by (simp add: out_ok_def)
  note b = by_id_nth(1) [OF il(1) _ d, of ?m phase_of] by_id_nth(4) [OF il(1) _ d, of ?m]
  have "owners ((outboundMsgs c)[i := ?m]) = owners (outboundMsgs c)"
    by (simp add: owners_nth [OF il(1)])
  moreover have "\<forall>x \<in> set ((outboundMsgs c)[i := ?m]). out_ok v x"
    using ok o' by (auto simp: session_ok_def dest: set_update_subset_insert [THEN subsetD])
  ultimately show "session_ok v F c' st" using ok b(2) by (simp add: session_ok_def c'_def)
  show "receiver_of v c' st = receiver_of v c st" by (simp add: receiver_of_def c'_def)
  have "phase_of ?m = AwaitPubcomp" using m by (simp add: phase_of_def packet_types)
  then show "sender_of c' = (sender_of c)(msgid \<mapsto> AwaitPubcomp)"
    using b(1) il(2) by (simp add: sender_of_def c'_def)
qed

lemma handle_pubrec_ok:
  assumes ok: "session_ok v F c st" and a: "ack_in v pubrec" "ack_msgId pubrec = Some msgid" and al: "\<forall>n. alloc e n"
  shows "\<exists>rc c' st'. handle_pubrec e pubrec c st = Inr (rc, c', st') \<and> session_ok v F c' st' \<and>
    socket c' = socket c \<and> receiver_of v c' st' = receiver_of v c st \<and>
    sender_of c' = tx_pubrec (refused pubrec) msgid (sender_of c) \<and>
    sent (cnet c') = sent (cnet c) @ (if sender_of c msgid = Some AwaitPubrec \<and> \<not> refused pubrec
      then [framed (mk_header PUBREL 0 1 0) (writeInt msgid)] else [])"
proof (cases "sender_of c msgid = Some AwaitPubrec")
  case True
  then obtain i where i: "find_msg msgid (outboundMsgs c) = Some i" "m_qos (outboundMsgs c ! i) = 2"
    "m_next (outboundMsgs c ! i) = Some PUBREC" using sender_phase(2) [OF ok] by blast
  show ?thesis
  proof (cases "refused pubrec")
    case r: True
    from release_outbound_ok [OF ok find_msg_Some(1) [OF i(1)]] i r True find_msg_Some(2) [OF i(1)] show ?thesis
      by (auto simp: handle_pubrec_def a(2) freeAck_ok [OF a(1)] tx_pubrec_def session_ok_counts refused_def Let_def)
  next
    case r: False
    obtain rc n where s: "MQTTPacket_send_pubrel (alloc e) msgid 0 (cnet c) = Inr (rc, n)"
      "sent n = sent (cnet c) @ [framed (mk_header PUBREL 0 1 0) (writeInt msgid)]"
      using send_acks_ex(3) [OF al] by blast
    from pubrel_sent [OF ok i(1,2), where n = n and t = "now e"] i r True s show ?thesis
      by (auto simp: handle_pubrec_def a(2) freeAck_ok [OF a(1)] tx_pubrec_def refused_def Let_def)
  qed
next
  case False
  with sender_phase(2) [OF ok] ok show ?thesis
    by (auto simp: handle_pubrec_def a(2) freeAck_ok [OF a(1)] tx_pubrec_def Let_def split: option.splits)
qed

section \<open>Publishing\<close>

lemma copy_holds:
  assumes "holds props ps" and "\<forall>n. al n" and "length (props_bytes ps) < 268435456"
  shows "\<exists>props'. MQTTProperties_copy al props = Inr props' \<and> holds props' ps"
proof -
  from assms(1) have s: "slots props ps" "\<forall>p \<in> set ps. wf_prop p" by (simp_all add: holds_def)
  from copy_props_holds [OF s assms(2), of 0 MQTTProperties_initializer] holds_initializer assms(3) show ?thesis
    by (auto simp: MQTTProperties_copy_def indices_slots [OF s(1)])
qed

lemma session_ok_started:
  fixes n :: net
  assumes ok: "session_ok v F c st" and m: "out_ok v m" "m_publish m = Some (next_pub st)"
    and new: "sender_of c (m_msgid m) = None"
    and heap: "heap_ok (add_mset (next_pub st) (owners (inboundMsgs c) + (owners (outboundMsgs c) + F))) st1"
    and st1: "pubs st1 = (pubs st)(next_pub st \<mapsto> r)"
  defines "c' \<equiv> c\<lparr>outboundMsgs := outboundMsgs c @ [m], cnet := n\<rparr>"
  shows "session_ok v F c' st1" and "receiver_of v c' st1 = receiver_of v c st"
    and "sender_of c' = (sender_of c)(m_msgid m \<mapsto> phase_of m)"
proof -
  have f: "find_msg (m_msgid m) (outboundMsgs c) = None"
    using new by (simp add: sender_of_def by_id_None find_msg_None)
  have "next_pub st \<notin># owners (inboundMsgs c)" using heap_ok_distinct [OF heap] by simp
  then show "receiver_of v c' st1 = receiver_of v c st"
    using st1 by (auto simp: receiver_of_def c'_def intro!: pending_cong)
  show "session_ok v F c' st1"
    using ok m heap by_id_snoc(2) [OF f] by (auto simp: session_ok_def c'_def)
  show "sender_of c' = (sender_of c)(m_msgid m \<mapsto> phase_of m)"
    using by_id_snoc(1) [OF f, of phase_of] by (simp add: sender_of_def c'_def)
qed

lemma startPublish_ok:
  assumes ok: "session_ok v F c st" and p: "publish_ok publish ps qos" "pub_version publish = v"
    and qos: "qos = 1 \<or> qos = 2" and retained: "retained \<in> {0, 1}" and al: "\<forall>n. alloc e n"
    and new: "sender_of c (pub_msgId publish) = None"
  shows "\<exists>rc c' st'. MQTTProtocol_startPublish e publish qos retained c st = Inr (rc, c', st') \<and>
    session_ok v F c' st' \<and> socket c' = socket c \<and> receiver_of v c' st' = receiver_of v c st \<and>
    sender_of c' = tx_start (pub_msgId publish) qos (sender_of c) \<and>
    sent (cnet c') = sent (cnet c) @ [framed (mk_header PUBLISH 0 qos retained) (publish_body publish ps qos)]"
proof -
  have heap: "heap_ok (owners (inboundMsgs c) + (owners (outboundMsgs c) + F)) st" using ok by (simp add: session_ok_def)
  have len: "0 \<le> pub_payloadlen publish" "nat (pub_payloadlen publish) \<le> length (pub_payload publish)"
    "pub_payloadlen publish < 2147483648" using p by (simp_all add: publish_ok_def)
  from heap_ok_store [OF heap al len] obtain st1 where st1:
    "MQTTProtocol_storePublication (alloc e) publish st = (Some (next_pub st), st1)"
    "heap_ok (add_mset (next_pub st) (owners (inboundMsgs c) + (owners (outboundMsgs c) + F))) st1"
    "pubs st1 = (pubs st)(next_pub st \<mapsto> \<lparr>p_topic = pub_topic publish, p_topiclen = pub_topiclen publish,
      p_payload = pub_payload publish, p_payloadlen = pub_payloadlen publish, refcount = 1\<rparr>)" .
  have hp: "holds (pub_properties publish) ps" "length (props_bytes ps) < 268435456" using p by (simp_all add: publish_ok_def)
  obtain props' where cp: "MQTTProperties_copy (alloc e) (pub_properties publish) = Inr props'" "holds props' ps"
    using copy_holds [OF hp(1) al hp(2)] by blast
  define props where "props = (if 5 \<le> v then Some props' else None)"
  define m where "m = \<lparr>m_qos = qos, m_retain = retained, m_msgid = pub_msgId publish, m_version = v,
     m_properties = props, m_publish = Some (next_pub st), m_lastTouch = now e,
     m_next = (if qos = 2 then Some PUBREC else None)\<rparr>"
  have mm: "m_publish m = Some (next_pub st)" "m_msgid m = pub_msgId publish" "m_version m = v" "m_properties m = props"
    by (simp_all add: m_def)
  have om: "out_ok v m" using qos cp(2) hp(2) by (auto simp: m_def out_ok_def props_held_def props_def props_ok_def)
  have mal: "malloc_ok (alloc e) 72" using malloc_small [OF al] by simp
  have create: "MQTTProtocol_createMessage e publish qos retained False st = Inr (Some m, st1)"
    using mal st1(1) cp(1) p(2) by (simp add: MQTTProtocol_createMessage_def m_def props_def)
  define publish' where "publish' = publish\<lparr>pub_properties := (case props of None \<Rightarrow> pub_properties publish | Some q \<Rightarrow> q)\<rparr>"
  have p': "publish_ok publish' ps qos" "publish_body publish' ps qos = publish_body publish ps qos"
    using p hp(1) cp(2) by (auto simp: publish'_def publish_ok_def publish_body_def props_def)
  have d0: "(0 :: int) \<in> {0, 1}" by simp
  from send_publish_framed [OF p'(1) al d0 retained, of "cnet c"] obtain rc n where
    s: "MQTTPacket_send_publish (alloc e) publish' 0 qos retained (cnet c) = Inr (rc, n)"
    "sent n = sent (cnet c) @ [framed (mk_header PUBLISH 0 qos retained) (publish_body publish ps qos)]"
    by (auto simp: p'(2) prod_eq_iff put_facts dest!: sym [of "put _ _"])
  let ?c = "c\<lparr>outboundMsgs := outboundMsgs c @ [m], cnet := n\<rparr>"
  have "session_ok v F ?c st1" "receiver_of v ?c st1 = receiver_of v c st"
    "sender_of ?c = (sender_of c)(pub_msgId publish \<mapsto> phase_of m)"
    using session_ok_started [OF ok om mm(1) _ st1(2,3)] new mm(2) by auto
  moreover have "phase_of m = (if qos = 1 then AwaitPuback else AwaitPubrec)"
    using qos by (auto simp: phase_of_def m_def)
  moreover have "MQTTProtocol_startPublish e publish qos retained c st = Inr (rc, ?c, st1)"
  proof -
    have "publish\<lparr>pub_payload := pub_payload publish, pub_topic := pub_topic publish,
        pub_properties := (case props of None \<Rightarrow> pub_properties publish | Some q \<Rightarrow> q), pub_version := v\<rparr> = publish'"
      using p(2) by (cases publish) (simp add: publish'_def)
    with s(1) qos create mm st1(3) show ?thesis
      by (auto simp: MQTTProtocol_startPublish_def deref_def MQTTProtocol_startPublishCommon_def)
  qed
  ultimately show ?thesis using s(2) by (simp add: tx_start_def)
qed

section \<open>Sessions\<close>

text \<open>What can happen to the client of a socket: a packet arrives, or the application publishes.\<close>

datatype event = E_publish Publish | E_puback Ack | E_pubrec Ack | E_pubrel Ack | E_pubcomp Ack
  | E_start Publish int int

fun session_step ::
  "env \<Rightarrow> event \<Rightarrow> int \<Rightarrow> Clients list \<times> MQTTProtocol \<Rightarrow> (int \<times> Clients list \<times> MQTTProtocol) res" where
  "session_step e (E_publish p) sock = MQTTProtocol_handlePublishes e p sock"
| "session_step e (E_puback a) sock = MQTTProtocol_handlePubacks e a sock"
| "session_step e (E_pubrec a) sock = MQTTProtocol_handlePubrecs e a sock"
| "session_step e (E_pubrel a) sock = MQTTProtocol_handlePubrels e a sock"
| "session_step e (E_pubcomp a) sock = MQTTProtocol_handlePubcomps e a sock"
| "session_step e (E_start p qos retained) sock = with_client (MQTTProtocol_startPublish e p qos retained) sock"

fun session_run ::
  "(env \<times> event) list \<Rightarrow> int \<Rightarrow> Clients list \<times> MQTTProtocol \<Rightarrow> (Clients list \<times> MQTTProtocol) res" where
  "session_run [] sock w = Inr w"
| "session_run ((e, ev) # evs) sock w = bindR (session_step e ev sock w) (\<lambda>(rc, w'). session_run evs sock w')"

text \<open>The abstract session: what is outstanding with the server, and the receiver.\<close>

record asession =
  tx :: sender
  rx :: receiver

fun spec_step :: "int \<Rightarrow> int \<Rightarrow> env \<times> event \<Rightarrow> asession \<Rightarrow> asession" where
  "spec_step v sock (e, E_publish p) s = s\<lparr>rx := rx_publish v (noPendingWrites e sock 0) (msg_of p) (rx s)\<rparr>"
| "spec_step v sock (e, E_puback a) s = s\<lparr>tx := tx_puback (the (ack_msgId a)) (tx s)\<rparr>"
| "spec_step v sock (e, E_pubrec a) s = s\<lparr>tx := tx_pubrec (refused a) (the (ack_msgId a)) (tx s)\<rparr>"
| "spec_step v sock (e, E_pubrel a) s = s\<lparr>rx := rx_pubrel (noPendingWrites e sock 0) (the (ack_msgId a)) (rx s)\<rparr>"
| "spec_step v sock (e, E_pubcomp a) s = s\<lparr>tx := tx_pubcomp (the (ack_msgId a)) (tx s)\<rparr>"
| "spec_step v sock (e, E_start p qos retained) s = s\<lparr>tx := tx_start (pub_msgId p) qos (tx s)\<rparr>"

text \<open>
  Which events are considered: memory is available, packets are well formed and of the session's
  protocol version, and a publication uses an id that is not in use.
\<close>

fun event_ok :: "int \<Rightarrow> env \<times> event \<Rightarrow> asession \<Rightarrow> bool" where
  "event_ok v (e, E_publish p) s \<longleftrightarrow> (\<forall>n. alloc e n) \<and> publish_in v p"
| "event_ok v (e, E_puback a) s \<longleftrightarrow> (\<forall>n. alloc e n) \<and> ack_in v a"
| "event_ok v (e, E_pubrec a) s \<longleftrightarrow> (\<forall>n. alloc e n) \<and> ack_in v a"
| "event_ok v (e, E_pubrel a) s \<longleftrightarrow> (\<forall>n. alloc e n) \<and> ack_in v a"
| "event_ok v (e, E_pubcomp a) s \<longleftrightarrow> (\<forall>n. alloc e n) \<and> ack_in v a"
| "event_ok v (e, E_start p qos retained) s \<longleftrightarrow> (\<forall>n. alloc e n) \<and> (\<exists>ps. publish_ok p ps qos) \<and> pub_version p = v \<and>
     qos \<in> {1, 2} \<and> retained \<in> {0, 1} \<and> tx s (pub_msgId p) = None"

fun events_ok :: "int \<Rightarrow> int \<Rightarrow> (env \<times> event) list \<Rightarrow> asession \<Rightarrow> bool" where
  "events_ok v sock [] s \<longleftrightarrow> True"
| "events_ok v sock (ev # evs) s \<longleftrightarrow> event_ok v ev s \<and> events_ok v sock evs (spec_step v sock ev s)"

definition client_at :: "int \<Rightarrow> Clients list \<Rightarrow> nat option" where
  "client_at sock cs = first_index (\<lambda>c. clientSocketCompare c sock) cs"

definition world_ok :: "int \<Rightarrow> nat multiset \<Rightarrow> int \<Rightarrow> Clients list \<times> MQTTProtocol \<Rightarrow> bool" where
  "world_ok v F sock = (\<lambda>(cs, st). case client_at sock cs of None \<Rightarrow> False | Some i \<Rightarrow> session_ok v F (cs ! i) st)"

definition session_of :: "int \<Rightarrow> int \<Rightarrow> Clients list \<times> MQTTProtocol \<Rightarrow> asession" where
  "session_of v sock = (\<lambda>(cs, st). let c = cs ! the (client_at sock cs) in \<lparr>tx = sender_of c, rx = receiver_of v c st\<rparr>)"

text \<open>What a handler promises, and how the look-up of the client carries it to the list of clients.\<close>

definition abs_client :: "int \<Rightarrow> Clients \<Rightarrow> MQTTProtocol \<Rightarrow> asession" where
  "abs_client v c st = \<lparr>tx = sender_of c, rx = receiver_of v c st\<rparr>"

definition refines ::
  "int \<Rightarrow> nat multiset \<Rightarrow> (Clients \<Rightarrow> MQTTProtocol \<Rightarrow> (int \<times> Clients \<times> MQTTProtocol) res) \<Rightarrow> (asession \<Rightarrow> asession)
    \<Rightarrow> Clients \<Rightarrow> MQTTProtocol \<Rightarrow> bool" where
  "refines v F f g c st \<longleftrightarrow> (\<exists>rc c' st'. f c st = Inr (rc, c', st') \<and> session_ok v F c' st' \<and>
     socket c' = socket c \<and> abs_client v c' st' = g (abs_client v c st))"

lemma refines_lift:
  assumes i: "client_at sock cs = Some i" and f: "refines v F f g (cs ! i) st"
  shows "\<exists>rc w'. with_client f sock (cs, st) = Inr (rc, w') \<and> world_ok v F sock w' \<and>
    session_of v sock w' = g (session_of v sock (cs, st))"
proof -
  from f obtain rc c' st' where f: "f (cs ! i) st = Inr (rc, c', st')" "session_ok v F c' st'"
    "socket c' = socket (cs ! i)" "abs_client v c' st' = g (abs_client v (cs ! i) st)" by (auto simp: refines_def)
  have il: "i < length cs" "socket (cs ! i) = sock" "\<And>j. j < i \<Longrightarrow> socket (cs ! j) \<noteq> sock"
    using i by (auto simp: client_at_def first_index_Some clientSocketCompare_def)
  then have "client_at sock (cs[i := c']) = Some i"
    using f(3) by (auto simp: client_at_def first_index_Some clientSocketCompare_def)
  moreover have "with_client f sock (cs, st) = Inr (rc, cs[i := c'], st')"
    using i f(1) by (simp add: with_client_def client_at_def)
  ultimately show ?thesis
    using f il(1) i by (simp add: world_ok_def session_of_def abs_client_def Let_def)
qed

lemma handlers_refine:
  assumes ok: "session_ok v F c st" and al: "\<forall>n. alloc e n"
  shows "publish_in v p \<Longrightarrow> refines v F (handle_publish e p) (spec_step v (socket c) (e, E_publish p)) c st"
    and "ack_in v a \<Longrightarrow> refines v F (handle_puback e a) (spec_step v (socket c) (e, E_puback a)) c st"
    and "ack_in v a \<Longrightarrow> refines v F (handle_pubrec e a) (spec_step v (socket c) (e, E_pubrec a)) c st"
    and "ack_in v a \<Longrightarrow> refines v F (handle_pubrel e a) (spec_step v (socket c) (e, E_pubrel a)) c st"
    and "ack_in v a \<Longrightarrow> refines v F (handle_pubcomp e a) (spec_step v (socket c) (e, E_pubcomp a)) c st"
proof -
  show "publish_in v p \<Longrightarrow> refines v F (handle_publish e p) (spec_step v (socket c) (e, E_publish p)) c st"
    using handle_publish_ok [OF ok _ al, of p] by (auto simp: refines_def abs_client_def sender_of_def)
  assume a: "ack_in v a"
  then obtain x where x: "ack_msgId a = Some x" by (auto simp: ack_in_def)
  show "refines v F (handle_puback e a) (spec_step v (socket c) (e, E_puback a)) c st"
    using handle_puback_ok [OF ok a x, of e] x by (auto simp: refines_def abs_client_def)
  show "refines v F (handle_pubrec e a) (spec_step v (socket c) (e, E_pubrec a)) c st"
    using handle_pubrec_ok [OF ok a x al] x by (auto simp: refines_def abs_client_def)
  show "refines v F (handle_pubrel e a) (spec_step v (socket c) (e, E_pubrel a)) c st"
    using handle_pubrel_ok [OF ok a x al] x by (auto simp: refines_def abs_client_def sender_of_def)
  show "refines v F (handle_pubcomp e a) (spec_step v (socket c) (e, E_pubcomp a)) c st"
    using handle_pubcomp_ok [OF ok a x, of e] x by (auto simp: refines_def abs_client_def)
qed

lemma start_refines:
  assumes "session_ok v F c st" and "event_ok v (e, E_start p qos retained) (abs_client v c st)"
  shows "refines v F (MQTTProtocol_startPublish e p qos retained) (spec_step v (socket c) (e, E_start p qos retained)) c st"
proof -
  from assms(2) obtain ps where p: "publish_ok p ps qos" "pub_version p = v" "qos = 1 \<or> qos = 2" "retained \<in> {0, 1}"
    "\<forall>n. alloc e n" "sender_of c (pub_msgId p) = None" by (auto simp: abs_client_def)
  from startPublish_ok [OF assms(1) p] show ?thesis by (auto simp: refines_def abs_client_def)
qed

lemmas handler_defs = MQTTProtocol_handlePublishes_def MQTTProtocol_handlePubacks_def MQTTProtocol_handlePubrecs_def
  MQTTProtocol_handlePubrels_def MQTTProtocol_handlePubcomps_def

lemma session_step_ok:
  assumes w: "world_ok v F sock w" and ev: "event_ok v (e, ev) (session_of v sock w)"
  shows "\<exists>rc w'. session_step e ev sock w = Inr (rc, w') \<and> world_ok v F sock w' \<and>
    session_of v sock w' = spec_step v sock (e, ev) (session_of v sock w)"
proof -
  obtain cs st where ws: "w = (cs, st)" by (cases w)
  from w obtain i where i: "client_at sock cs = Some i" and ok: "session_ok v F (cs ! i) st"
    by (auto simp: ws world_ok_def split: option.splits)
  have s: "session_of v sock (cs, st) = abs_client v (cs ! i) st" by (simp add: session_of_def abs_client_def i Let_def)
  have sock: "socket (cs ! i) = sock" using i by (auto simp: client_at_def first_index_Some clientSocketCompare_def)
  have al: "\<forall>n. alloc e n" using ev by (cases ev) simp_all
  note r = handlers_refine [OF ok al, unfolded sock, THEN refines_lift [OF i]]
  show ?thesis
  proof (cases ev)
    case (E_start p qos retained)
    with ev have "event_ok v (e, E_start p qos retained) (abs_client v (cs ! i) st)" by (simp only: ws s)
    from start_refines [OF ok this, unfolded sock, THEN refines_lift [OF i]] show ?thesis by (simp add: E_start ws)
  qed (use r ev in \<open>auto simp: ws handler_defs\<close>)
qed

lemma session_run_ok:
  assumes "world_ok v F sock w" and "events_ok v sock evs (session_of v sock w)"
  shows "\<exists>w'. session_run evs sock w = Inr w' \<and> world_ok v F sock w' \<and>
    session_of v sock w' = fold (spec_step v sock) evs (session_of v sock w)"
  using assms
proof (induction evs arbitrary: w)
  case (Cons ev evs)
  obtain e x where ev: "ev = (e, x)" by (cases ev)
  from Cons.prems session_step_ok [of v F sock w e x] obtain rc w1 where "session_step e x sock w = Inr (rc, w1)"
    "world_ok v F sock w1" "session_of v sock w1 = spec_step v sock ev (session_of v sock w)" by (auto simp: ev)
  with Cons.IH [of w1] Cons.prems(2) show ?case by (simp add: ev)
qed simp

section \<open>One message id\<close>

text \<open>
  The packets that concern the inbound QoS 2 message with a given id, and what the receiver keeps
  for it: its entry in \<open>awaiting\<close> and the messages handed over with this id.
\<close>

fun concerns :: "int \<Rightarrow> env \<times> event \<Rightarrow> bool" where
  "concerns x (e, E_publish p) \<longleftrightarrow> hdr_qos (pub_header p) = 2 \<and> pub_msgId p = x"
| "concerns x (e, E_pubrel a) \<longleftrightarrow> ack_msgId a = Some x"
| "concerns x (e, _) \<longleftrightarrow> False"

definition got :: "int \<Rightarrow> asession \<Rightarrow> amsg list" where
  "got x s = filter (\<lambda>g. g_qos g = 2 \<and> g_msgid g = x) (handed (rx s))"

definition of_id :: "int \<Rightarrow> asession \<Rightarrow> amsg option option \<times> amsg list" where
  "of_id x s = (awaiting (rx s) x, got x s)"

definition awaiting_ok :: "asession \<Rightarrow> bool" where
  "awaiting_ok s \<longleftrightarrow> (\<forall>x g. awaiting (rx s) x = Some (Some g) \<longrightarrow> g_msgid g = x \<and> g_qos g = 2)"

fun id_step :: "int \<Rightarrow> int \<Rightarrow> env \<times> event \<Rightarrow> amsg option option \<times> amsg list \<Rightarrow> amsg option option \<times> amsg list" where
  "id_step v sock (e, E_publish p) (a, h) =
     (if \<not> noPendingWrites e sock 0 then (a, h)
      else if v < 5 then (Some (Some (msg_of p)), h)
      else if a = None then (Some None, h @ [msg_of p]) else (a, h))"
| "id_step v sock (e, E_pubrel b) (a, h) =
     (if \<not> noPendingWrites e sock 0 then (a, h)
      else (None, h @ (case a of Some (Some g) \<Rightarrow> [g] | _ \<Rightarrow> [])))"
| "id_step v sock (e, _) (a, h) = (a, h)"

lemma awaiting_ok_step:
  assumes "awaiting_ok s"
  shows "awaiting_ok (spec_step v sock ev s)"
proof (cases "(v, sock, ev, s)" rule: spec_step.cases)
  case (1 v sock e p s)
  with assms show ?thesis by (simp add: awaiting_ok_def rx_publish_def hand_def)
next
  case (4 v sock e a s)
  with assms show ?thesis
    by (auto simp: awaiting_ok_def rx_pubrel_def hand_def split: option.splits)
qed (use assms in \<open>simp_all add: awaiting_ok_def\<close>)

lemma awaiting_ok_session: "world_ok v F sock w \<Longrightarrow> awaiting_ok (session_of v sock w)"
proof -
  have "by_id (pending_msg v st) ms x = Some (Some g) \<Longrightarrow> g_msgid g = x \<and> g_qos g = 2" for st ms x g
    by (induction ms) (auto simp: by_id_simps pending_msg_def stored_msg_def split: if_splits option.splits)
  then show ?thesis by (auto simp: awaiting_ok_def session_of_def receiver_of_def Let_def split: prod.splits)
qed

lemma of_id_step:
  assumes "event_ok v ev s" and "awaiting_ok s"
  shows "of_id x (spec_step v sock ev s) = (if concerns x ev then id_step v sock ev (of_id x s) else of_id x s)"
proof (cases "(v, sock, ev, s)" rule: spec_step.cases)
  case (1 v sock e p s)
  then show ?thesis by (auto simp: of_id_def got_def rx_publish_def hand_def)
next
  case (4 v sock e a s)
  with assms obtain y where y: "ack_msgId a = Some y" by (auto simp: ack_in_def)
  with 4 assms(2) show ?thesis
    by (auto simp: of_id_def got_def rx_pubrel_def hand_def awaiting_ok_def split: option.splits)
qed (simp_all add: of_id_def got_def)

lemma of_id_run:
  assumes "events_ok v sock evs s" and "awaiting_ok s"
  shows "of_id x (fold (spec_step v sock) evs s) = fold (id_step v sock) (filter (concerns x) evs) (of_id x s)"
  using assms
proof (induction evs arbitrary: s)
  case (Cons ev evs)
  then show ?case using of_id_step [of v ev s x sock] awaiting_ok_step [of s v sock ev] by auto
qed simp

lemma id_steps_publish:
  assumes "\<forall>(e, ev) \<in> set ps. noPendingWrites e sock 0 \<and> (\<exists>p. ev = E_publish p \<and> msg_of p = g)" and "ps \<noteq> []"
  shows "fold (id_step v sock) ps (None, h) = (if v < 5 then (Some (Some g), h) else (Some None, h @ [g]))"
proof -
  have "fold (id_step v sock) qs (if v < 5 then (Some (Some g), h) else (Some None, h @ [g])) =
      (if v < 5 then (Some (Some g), h) else (Some None, h @ [g]))"
    if "\<forall>(e, ev) \<in> set qs. noPendingWrites e sock 0 \<and> (\<exists>p. ev = E_publish p \<and> msg_of p = g)" for qs
    using that by (induction qs) auto
  then show ?thesis using assms by (cases ps) (auto split: if_splits)
qed

lemma id_steps_pubrel:
  assumes "\<forall>(e, ev) \<in> set rs. noPendingWrites e sock 0 \<and> (\<exists>a. ev = E_pubrel a)" and "rs \<noteq> []"
  shows "fold (id_step v sock) rs (a, h) = (None, h @ (case a of Some (Some g) \<Rightarrow> [g] | _ \<Rightarrow> []))"
proof -
  have "fold (id_step v sock) qs (None, h) = (None, h)"
    if "\<forall>(e, ev) \<in> set qs. noPendingWrites e sock 0 \<and> (\<exists>a. ev = E_pubrel a)" for qs h
    using that by (induction qs) auto
  then show ?thesis using assms by (cases rs) auto
qed

section \<open>Releasing a session\<close>

lemma emptyMessageList_ok:
  assumes "heap_ok (owners ms + R) st" and "\<forall>m \<in> set ms. props_held (m_version m) (m_properties m)"
  shows "\<exists>st'. MQTTProtocol_emptyMessageList ms st = Inr st' \<and> heap_ok R st'"
  using assms
proof (induction ms arbitrary: st)
  case (Cons m ms)
  have free: "free_properties (m_version m) (m_properties m) = Inr ()" using Cons.prems(2) by (simp add: free_properties_held)
  show ?case
  proof (cases "m_publish m")
    case None
    with Cons free show ?thesis by (simp add: MQTTProtocol_removePublication_def)
  next
    case (Some q)
    with Cons.prems(1) have h: "heap_ok (add_mset q (owners ms + R)) st" by simp
    from Cons.IH [OF heap_ok_drop(1) [OF h]] Cons.prems(2) Some free heap_ok_remove [OF h] show ?thesis by simp
  qed
qed simp

section \<open>A sample session\<close>

definition calm_env :: env where
  "calm_env = \<lparr>alloc = (\<lambda>_. True), noPendingWrites = (\<lambda>_ _. True), callback = True, now = 0, persist_remove = 0\<rparr>"

definition no_publications :: MQTTProtocol where
  "no_publications = \<lparr>pubs = Map.empty, publications = [], next_pub = 0, msgs_received = 0, msgs_sent = 0, pending_writes = []\<rparr>"

definition incoming :: "byte \<Rightarrow> Publish" where
  "incoming h = \<lparr>pub_header = h, pub_topic = [0x61], pub_topiclen = 1, pub_msgId = 9, pub_payload = [1, 2],
     pub_payloadlen = 2, pub_version = 4, pub_properties = MQTTProperties_initializer\<rparr>"

definition ack_of :: "byte \<Rightarrow> int \<Rightarrow> Ack" where
  "ack_of h x = \<lparr>ack_header = h, ack_msgId = Some x, ack_rc = None, ack_version = 4, ack_properties = None\<rparr>"

lemma sample_facts:
  "session_ok 4 {#} (new_client 4) no_publications"
  "world_ok 4 {#} 7 ([new_client 4], no_publications)"
  "tx (session_of 4 7 ([new_client 4], no_publications)) = Map.empty"
  "rx (session_of 4 7 ([new_client 4], no_publications)) = \<lparr>awaiting = Map.empty, handed = []\<rparr>"
  "publish_in 4 (incoming h)" "ack_in 4 (ack_of h x)" "\<forall>n. alloc calm_env n" "noPendingWrites calm_env 7 0"
  "ack_msgId (ack_of h x) = Some x" "\<not> refused (ack_of h x)"
  by (simp_all add: session_ok_def heap_ok_def no_publications_def world_ok_def client_at_def clientSocketCompare_def
      session_of_def sender_of_def receiver_of_def by_id_def publish_in_def incoming_def ack_in_def ack_of_def
      props_held_def calm_env_def refused_def Let_def)

lemma calm_env_alloc [simp]: "alloc calm_env = (\<lambda>_. True)"
  by (simp add: calm_env_def)

section \<open>Theorems\<close>

text \<open>
  C1: the protocol engine refines the abstract session. For the client of a socket whose session
  satisfies the invariant, every sequence of incoming packets and publications is processed
  without a fault (no use of a released publication, no double release, no null pointer), the
  invariant holds again (each stored publication is owned exactly once, whatever other clients
  own (\<open>F\<close>) is untouched), and the outstanding messages and the messages handed to the
  application are those of the abstract session after the same events.
\<close>
theorem session_refines:
  assumes "world_ok v F sock w" and "events_ok v sock evs (session_of v sock w)"
  shows "\<exists>w'. session_run evs sock w = Inr w' \<and> world_ok v F sock w' \<and>
    session_of v sock w' = fold (spec_step v sock) evs (session_of v sock w)"
  using assms by (rule session_run_ok)

theorem session_refines_witness:
  "\<exists>w'. session_run [(calm_env, E_publish (incoming 0x34)), (calm_env, E_puback (ack_of 0x40 1))] 7
     ([new_client 4], no_publications) = Inr w' \<and> world_ok 4 {#} 7 w'"
  using session_refines [OF sample_facts(2), of "[(calm_env, E_publish (incoming 0x34)), (calm_env, E_puback (ack_of 0x40 1))]"]
  by (auto simp: sample_facts)

text \<open>
  C2: a QoS 2 message reaches the application exactly once. Let the packets that concern a message
  id, among any others, be one or more copies of a \<^verbatim>\<open>PUBLISH\<close> (retransmissions) followed by one or
  more \<^verbatim>\<open>PUBREL\<close>s, each arriving when the socket can be written. Then the application is handed the
  message once, in MQTT 3.1 and 3.1.1 as in MQTT 5, and the id is free again.
\<close>
theorem qos2_exactly_once:
  assumes "world_ok v F sock w" and "events_ok v sock evs (session_of v sock w)"
    and "awaiting (rx (session_of v sock w)) x = None"
    and "filter (concerns x) evs = ps @ rs" and "ps \<noteq> []" and "rs \<noteq> []"
    and "\<forall>(e, ev) \<in> set ps. noPendingWrites e sock 0 \<and> (\<exists>p. ev = E_publish p \<and> msg_of p = g)"
    and "\<forall>(e, ev) \<in> set rs. noPendingWrites e sock 0 \<and> (\<exists>a. ev = E_pubrel a)"
  shows "\<exists>w'. session_run evs sock w = Inr w' \<and>
    got x (session_of v sock w') = got x (session_of v sock w) @ [g] \<and>
    awaiting (rx (session_of v sock w')) x = None"
proof -
  from session_run_ok [OF assms(1,2)] obtain w' where w': "session_run evs sock w = Inr w'"
    "session_of v sock w' = fold (spec_step v sock) evs (session_of v sock w)" by blast
  have "of_id x (session_of v sock w') = fold (id_step v sock) (ps @ rs) (None, got x (session_of v sock w))"
    using of_id_run [OF assms(2) awaiting_ok_session [OF assms(1)], of x] assms(3,4) w'(2) by (simp add: of_id_def)
  also have "\<dots> = (None, got x (session_of v sock w) @ [g])"
    using id_steps_publish [OF assms(7,5)] id_steps_pubrel [OF assms(8,6)] by simp
  finally show ?thesis using w'(1) by (auto simp: of_id_def)
qed

theorem qos2_exactly_once_witness:
  "\<exists>w'. session_run [(calm_env, E_publish (incoming 0x34)), (calm_env, E_puback (ack_of 0x40 1)),
      (calm_env, E_publish (incoming 0x3C)), (calm_env, E_pubrel (ack_of 0x62 9)), (calm_env, E_pubrel (ack_of 0x6A 9))] 7
     ([new_client 4], no_publications) = Inr w' \<and> got 9 (session_of 4 7 w') = [msg_of (incoming 0x34)]"
proof -
  have h: "hdr_qos (0x34 :: byte) = 2" "hdr_qos (0x3C :: byte) = 2" by (simp_all add: hdr_qos_def)
  have m: "msg_of (incoming 0x3C) = msg_of (incoming 0x34)" "pub_header (incoming 0x34) = 0x34" "pub_header (incoming 0x3C) = 0x3C"
    "pub_msgId (incoming 0x34) = 9" "pub_msgId (incoming 0x3C) = 9"
    by (simp_all add: incoming_def msg_of_def hdr_qos_def hdr_retain_def)
  have "got 9 (session_of 4 7 ([new_client 4], no_publications)) = []" by (simp add: got_def sample_facts)
  with qos2_exactly_once [OF sample_facts(2), where x = 9 and g = "msg_of (incoming 0x34)"
      and ps = "[(calm_env, E_publish (incoming 0x34)), (calm_env, E_publish (incoming 0x3C))]"
      and rs = "[(calm_env, E_pubrel (ack_of 0x62 9)), (calm_env, E_pubrel (ack_of 0x6A 9))]"
      and evs = "[(calm_env, E_publish (incoming 0x34)), (calm_env, E_puback (ack_of 0x40 1)),
        (calm_env, E_publish (incoming 0x3C)), (calm_env, E_pubrel (ack_of 0x62 9)), (calm_env, E_pubrel (ack_of 0x6A 9))]"]
  show ?thesis by (auto simp: sample_facts h m)
qed

text \<open>
  C12: an outbound message is kept until it is acknowledged. While no \<^verbatim>\<open>PUBACK\<close>, no \<^verbatim>\<open>PUBCOMP\<close> and no
  refusing \<^verbatim>\<open>PUBREC\<close> with its id arrives, a message that was outstanding stays outstanding.
\<close>
theorem outbound_kept:
  assumes "world_ok v F sock w" and "events_ok v sock evs (session_of v sock w)"
    and "tx (session_of v sock w) x \<noteq> None"
    and "\<forall>(e, ev) \<in> set evs. \<forall>a. ack_msgId a = Some x \<longrightarrow>
      ev \<noteq> E_puback a \<and> ev \<noteq> E_pubcomp a \<and> (ev = E_pubrec a \<longrightarrow> \<not> refused a)"
  shows "\<exists>w'. session_run evs sock w = Inr w' \<and> tx (session_of v sock w') x \<noteq> None"
proof -
  have "tx (fold (spec_step v sock) evs s) x \<noteq> None"
    if "events_ok v sock evs s" "tx s x \<noteq> None" "\<forall>(e, ev) \<in> set evs. \<forall>a. ack_msgId a = Some x \<longrightarrow>
      ev \<noteq> E_puback a \<and> ev \<noteq> E_pubcomp a \<and> (ev = E_pubrec a \<longrightarrow> \<not> refused a)" for s
    using that
  proof (induction evs arbitrary: s)
    case (Cons ev evs)
    have "tx (spec_step v sock ev s) x \<noteq> None"
    proof (cases "(v, sock, ev, s)" rule: spec_step.cases)
    qed (use Cons.prems in \<open>auto simp: tx_puback_def tx_pubrec_def tx_pubcomp_def tx_start_def ack_in_def\<close>)
    with Cons.IH [of "spec_step v sock ev s"] Cons.prems show ?case by simp
  qed simp
  from this [OF assms(2-4)] session_run_ok [OF assms(1,2)] show ?thesis by auto
qed

theorem outbound_kept_witness:
  "\<exists>w1 w2. session_run [(calm_env, E_start (incoming 0x34) 2 0)] 7 ([new_client 4], no_publications) = Inr w1 \<and>
     session_run [(calm_env, E_pubrec (ack_of 0x50 9)), (calm_env, E_pubcomp (ack_of 0x70 8))] 7 w1 = Inr w2 \<and>
     tx (session_of 4 7 w2) 9 \<noteq> None"
proof -
  let ?w = "([new_client 4], no_publications)"
  have p: "\<exists>ps. publish_ok (incoming 0x34) ps 2"
    by (intro exI [of _ "[]"]) (simp add: publish_ok_def incoming_def holds_initializer)
  have v: "pub_version (incoming 0x34) = 4" "pub_msgId (incoming 0x34) = 9" by (simp_all add: incoming_def)
  have "events_ok 4 7 [(calm_env, E_start (incoming 0x34) 2 0)] (session_of 4 7 ?w)"
    using p by (simp add: sample_facts v)
  from session_run_ok [OF sample_facts(2) this] obtain w1 where w1:
    "session_run [(calm_env, E_start (incoming 0x34) 2 0)] 7 ?w = Inr w1" "world_ok 4 {#} 7 w1"
    "session_of 4 7 w1 = fold (spec_step 4 7) [(calm_env, E_start (incoming 0x34) 2 0)] (session_of 4 7 ?w)" by blast
  then have "tx (session_of 4 7 w1) 9 \<noteq> None" by (simp add: tx_start_def v)
  moreover have "\<forall>a. ack_msgId a = Some 9 \<longrightarrow> ack_of 0x70 8 \<noteq> a" by (auto simp: ack_of_def)
  ultimately show ?thesis using outbound_kept [OF w1(2), of "[(calm_env, E_pubrec (ack_of 0x50 9)), (calm_env, E_pubcomp (ack_of 0x70 8))]" 9] w1(1)
    by (auto simp: sample_facts)
qed

text \<open>
  a \<^verbatim>\<open>PUBREC\<close> for a QoS 2 message that waits for it is answered with one \<^verbatim>\<open>PUBREL\<close> of the same id,
  after which the message waits for \<^verbatim>\<open>PUBCOMP\<close>; if it carries an error the message is given up and
  nothing is sent; any other \<^verbatim>\<open>PUBREC\<close> (a repeated one, an unknown id) changes nothing and sends
  nothing.
\<close>
theorem pubrec_answered:
  assumes "session_ok v F c st" and "ack_in v pubrec" and "ack_msgId pubrec = Some msgid" and "\<forall>n. alloc e n"
  shows "\<exists>rc c' st'. handle_pubrec e pubrec c st = Inr (rc, c', st') \<and>
    sender_of c' = tx_pubrec (refused pubrec) msgid (sender_of c) \<and>
    sent (cnet c') = sent (cnet c) @ (if sender_of c msgid = Some AwaitPubrec \<and> \<not> refused pubrec
      then [framed (mk_header PUBREL 0 1 0) (writeInt msgid)] else [])"
  using handle_pubrec_ok [OF assms] by blast

text \<open>
  releasing a client releases exactly the publications its messages own, each once: afterwards
  the store holds what others own, and the client's lists are empty.
\<close>
theorem freeClient_releases:
  assumes "session_ok v F c st"
  shows "\<exists>c' st'. MQTTProtocol_freeClient c st = Inr (c', st') \<and> heap_ok F st' \<and>
    outboundMsgs c' = [] \<and> inboundMsgs c' = []"
proof -
  have h: "heap_ok (owners (outboundMsgs c) + (owners (inboundMsgs c) + F)) st"
    using assms by (simp add: session_ok_def ac_simps)
  have "\<forall>m \<in> set (outboundMsgs c). props_held (m_version m) (m_properties m)"
    using assms by (auto simp: session_ok_def out_ok_def)
  from emptyMessageList_ok [OF h this] obtain st1 where st1:
    "MQTTProtocol_emptyMessageList (outboundMsgs c) st = Inr st1" "heap_ok (owners (inboundMsgs c) + F) st1" by blast
  have "\<forall>m \<in> set (inboundMsgs c). props_held (m_version m) (m_properties m)"
    using assms by (auto simp: session_ok_def in_ok_def)
  from emptyMessageList_ok [OF st1(2) this] st1(1) show ?thesis by (auto simp: MQTTProtocol_freeClient_def)
qed

end
