(* ===== verification/Linked_List.thy ===== *)
theory Linked_List
  imports Mqtt_Prelude
begin

text \<open>
  The doubly linked lists of \<^verbatim>\<open>LinkedList.c\<close> on a heap of list elements. An element's address is a
  number; \<open>elems\<close> maps the live ones to their contents, freed ones are absent, so that any use of
  a freed element is a fault. \<open>freed\<close> records the contents passed to \<^verbatim>\<open>free\<close>, in order.

  A loop along the \<^verbatim>\<open>next\<close> pointers need not end on an arbitrary heap: searches are
  option-valued, \<open>None\<close> meaning that the function does not return.

  Shown: on a well-formed list every operation returns, keeps the list well formed and does to
  the sequence of contents what its comment says; a search with the remembered element
  (\<^verbatim>\<open>current\<close>) interprets \<open>cached_search\<close>.
\<close>

section \<open>Heap and lists\<close>

record 'c ListElement =
  el_prev :: "nat option"
  el_next :: "nat option"
  el_content :: 'c

record 'c lheap =
  elems :: "nat \<rightharpoonup> 'c ListElement"
  fresh :: nat
  freed :: "'c list"

record LinkedList =
  first :: "nat option"
  last_el :: "nat option"
  current :: "nat option"
  lcount :: int
  lsize :: nat

definition ListZero :: LinkedList where
  "ListZero = \<lparr>first = None, last_el = None, current = None, lcount = 0, lsize = 0\<rparr>"

definition ListInitialize :: "(int \<Rightarrow> bool) \<Rightarrow> LinkedList option" where
  "ListInitialize al = (if malloc_ok al 40 then Some ListZero else None)"

text \<open>Access through a pointer: null and freed elements are faults.\<close>

definition elem_at :: "'c lheap \<Rightarrow> nat option \<Rightarrow> (nat \<times> 'c ListElement) res" where
  "elem_at h p = (case p of
     None \<Rightarrow> Inl NullDeref
   | Some a \<Rightarrow> (case elems h a of None \<Rightarrow> Inl UseAfterFree | Some e \<Rightarrow> Inr (a, e)))"

definition put_elem :: "nat \<Rightarrow> 'c ListElement \<Rightarrow> 'c lheap \<Rightarrow> 'c lheap" where
  "put_elem a e h = h\<lparr>elems := (elems h)(a \<mapsto> e)\<rparr>"

definition set_next :: "nat option \<Rightarrow> nat option \<Rightarrow> 'c lheap \<Rightarrow> 'c lheap res" where
  "set_next p v h = bindR (elem_at h p) (\<lambda>(a, e). Inr (put_elem a (e\<lparr>el_next := v\<rparr>) h))"

definition set_prev :: "nat option \<Rightarrow> nat option \<Rightarrow> 'c lheap \<Rightarrow> 'c lheap res" where
  "set_prev p v h = bindR (elem_at h p) (\<lambda>(a, e). Inr (put_elem a (e\<lparr>el_prev := v\<rparr>) h))"

definition free_elem :: "nat \<Rightarrow> 'c lheap \<Rightarrow> 'c lheap" where
  "free_elem a h = h\<lparr>elems := (elems h)(a := None)\<rparr>"

section \<open>Adding\<close>

text \<open>\<open>newel\<close> is an allocated element.\<close>

definition ListAppendNoMalloc ::
  "LinkedList \<Rightarrow> 'c \<Rightarrow> nat \<Rightarrow> nat \<Rightarrow> 'c lheap \<Rightarrow> (LinkedList \<times> 'c lheap) res" where
  "ListAppendNoMalloc l c newel sz h =
     (let h1 = put_elem newel \<lparr>el_prev = last_el l, el_next = None, el_content = c\<rparr> h;
          l1 = l\<lparr>last_el := Some newel, lcount := lcount l + 1, lsize := lsize l + sz\<rparr> in
      if first l = None then Inr (l1\<lparr>first := Some newel\<rparr>, h1)
      else bindR (set_next (last_el l) (Some newel) h1) (\<lambda>h2. Inr (l1, h2)))"

definition ListAppend ::
  "(int \<Rightarrow> bool) \<Rightarrow> LinkedList \<Rightarrow> 'c \<Rightarrow> nat \<Rightarrow> 'c lheap \<Rightarrow> (nat option \<times> LinkedList \<times> 'c lheap) res" where
  "ListAppend al l c sz h =
     (if malloc_ok al 24 then
        bindR (ListAppendNoMalloc l c (fresh h) sz (h\<lparr>fresh := Suc (fresh h)\<rparr>)) (\<lambda>(l', h'). Inr (Some (fresh h), l', h'))
      else Inr (None, l, h))"

definition ListInsert ::
  "(int \<Rightarrow> bool) \<Rightarrow> LinkedList \<Rightarrow> 'c \<Rightarrow> nat \<Rightarrow> nat option \<Rightarrow> 'c lheap
    \<Rightarrow> (nat option \<times> LinkedList \<times> 'c lheap) res" where
  "ListInsert al l c sz index h =
     (if \<not> malloc_ok al 24 then Inr (None, l, h)
      else
        let newel = fresh h; h0 = h\<lparr>fresh := Suc (fresh h)\<rparr> in
        case index of
          None \<Rightarrow> bindR (ListAppendNoMalloc l c newel sz h0) (\<lambda>(l', h'). Inr (Some newel, l', h'))
        | Some i \<Rightarrow>
            bindR (elem_at h0 index) (\<lambda>(_, e).
            bindR (set_prev index (Some newel)
                (put_elem newel \<lparr>el_prev = el_prev e, el_next = index, el_content = c\<rparr> h0)) (\<lambda>h1.
            bindR (if el_prev e \<noteq> None then bindR (set_next (el_prev e) (Some newel) h1) (\<lambda>h2. Inr (l, h2))
                   else Inr (l\<lparr>first := Some newel\<rparr>, h1)) (\<lambda>(l', h2).
              Inr (Some newel, l'\<lparr>lcount := lcount l' + 1, lsize := lsize l' + sz\<rparr>, h2)))))"

section \<open>Searching\<close>

definition ListNextElement :: "LinkedList \<Rightarrow> nat option \<Rightarrow> 'c lheap \<Rightarrow> nat option res" where
  "ListNextElement l pos h =
     (case pos of None \<Rightarrow> Inr (first l) | Some a \<Rightarrow> bindR (elem_at h pos) (\<lambda>(_, e). Inr (el_next e)))"

definition ListPrevElement :: "LinkedList \<Rightarrow> nat option \<Rightarrow> 'c lheap \<Rightarrow> nat option res" where
  "ListPrevElement l pos h =
     (case pos of None \<Rightarrow> Inr (last_el l) | Some a \<Rightarrow> bindR (elem_at h pos) (\<lambda>(_, e). Inr (el_prev e)))"

text \<open>The loop of \<^verbatim>\<open>ListFindItem\<close> after a call of \<^verbatim>\<open>ListNextElement\<close> gave \<open>pos\<close>.\<close>

partial_function (option) find_loop :: "'c lheap \<Rightarrow> ('c \<Rightarrow> bool) \<Rightarrow> nat option \<Rightarrow> nat option res option" where
  "find_loop h P pos =
     (case pos of
        None \<Rightarrow> Some (Inr None)
      | Some a \<Rightarrow>
          (case elems h a of
             None \<Rightarrow> Some (Inl UseAfterFree)
           | Some e \<Rightarrow> if P (el_content e) then Some (Inr (Some a)) else find_loop h P (el_next e)))"

text \<open>
  \<open>P c\<close> is the comparison of a content with what is looked for: the callback, or equality of
  pointers when the callback is null.
\<close>

definition ListFindItem ::
  "LinkedList \<Rightarrow> ('c \<Rightarrow> bool) \<Rightarrow> 'c lheap \<Rightarrow> (nat option \<times> LinkedList) res option" where
  "ListFindItem l P h =
     (let scan = map_option (\<lambda>r. bindR r (\<lambda>rc. Inr (rc, if rc \<noteq> None then l\<lparr>current := rc\<rparr> else l)))
                   (find_loop h P (first l)) in
      case current l of
        None \<Rightarrow> scan
      | Some a \<Rightarrow>
          (case elems h a of
             None \<Rightarrow> Some (Inl UseAfterFree)
           | Some e \<Rightarrow> if P (el_content e) then Some (Inr (current l, l)) else scan))"

definition ListFind :: "LinkedList \<Rightarrow> 'c \<Rightarrow> 'c lheap \<Rightarrow> (nat option \<times> LinkedList) res option" where
  "ListFind l c h = ListFindItem l (\<lambda>x. x = c) h"

definition intcompare :: "int \<Rightarrow> int \<Rightarrow> bool" where "intcompare a b \<longleftrightarrow> a = b"

definition stringcompare :: "string \<Rightarrow> string \<Rightarrow> bool" where "stringcompare a b \<longleftrightarrow> c_str a = c_str b"

section \<open>Removing\<close>

text \<open>Taking the element \<open>a\<close> out of the chain.\<close>

definition unlink_at :: "nat \<Rightarrow> 'c ListElement \<Rightarrow> LinkedList \<Rightarrow> 'c lheap \<Rightarrow> (LinkedList \<times> 'c lheap) res" where
  "unlink_at a e l h =
     bindR (if el_prev e = None then Inr (l\<lparr>first := el_next e\<rparr>, h)
            else bindR (set_next (el_prev e) (el_next e) h) (\<lambda>h1. Inr (l, h1))) (\<lambda>(l1, h1).
     bindR (if el_next e = None then Inr (l1\<lparr>last_el := el_prev e\<rparr>, h1)
            else bindR (set_prev (el_next e) (el_prev e) h1) (\<lambda>h2. Inr (l1, h2))) (\<lambda>(l2, h2).
       Inr (l2, h2)))"

definition ListUnlink ::
  "LinkedList \<Rightarrow> ('c \<Rightarrow> bool) \<Rightarrow> bool \<Rightarrow> 'c lheap \<Rightarrow> (int \<times> LinkedList \<times> 'c lheap) res option" where
  "ListUnlink l P freeContent h =
     map_option (\<lambda>r. bindR r (\<lambda>(rc, l1).
       if rc = None then Inr (0, l1, h)
       else
         bindR (elem_at h (current l1)) (\<lambda>(a, e).
         bindR (unlink_at a e l1 h) (\<lambda>(l2, h2).
           let h3 = (if freeContent then h2\<lparr>freed := freed h2 @ [el_content e]\<rparr> else h2) in
           Inr (1, l2\<lparr>current := (if current l = Some a then el_next e else current l), lcount := lcount l2 - 1\<rparr>,
                free_elem a h3)))))
     (ListFindItem l P h)"

definition ListDetach :: "LinkedList \<Rightarrow> 'c \<Rightarrow> 'c lheap \<Rightarrow> (int \<times> LinkedList \<times> 'c lheap) res option" where
  "ListDetach l c h = ListUnlink l (\<lambda>x. x = c) False h"

definition ListRemove :: "LinkedList \<Rightarrow> 'c \<Rightarrow> 'c lheap \<Rightarrow> (int \<times> LinkedList \<times> 'c lheap) res option" where
  "ListRemove l c h = ListUnlink l (\<lambda>x. x = c) True h"

definition ListDetachItem :: "LinkedList \<Rightarrow> ('c \<Rightarrow> bool) \<Rightarrow> 'c lheap \<Rightarrow> (int \<times> LinkedList \<times> 'c lheap) res option" where
  "ListDetachItem l P h = ListUnlink l P False h"

definition ListRemoveItem :: "LinkedList \<Rightarrow> ('c \<Rightarrow> bool) \<Rightarrow> 'c lheap \<Rightarrow> (int \<times> LinkedList \<times> 'c lheap) res option" where
  "ListRemoveItem l P h = ListUnlink l P True h"

definition ListDetachHead :: "LinkedList \<Rightarrow> 'c lheap \<Rightarrow> ('c option \<times> LinkedList \<times> 'c lheap) res" where
  "ListDetachHead l h =
     (if 0 < lcount l then
        bindR (elem_at h (first l)) (\<lambda>(a, e).
          let l1 = (if current l = first l then l\<lparr>current := el_next e\<rparr> else l);
              l2 = (if last_el l = first l then l1\<lparr>last_el := None\<rparr> else l1);
              l3 = l2\<lparr>first := el_next e, lcount := lcount l - 1\<rparr> in
          bindR (if el_next e = None then Inr h else set_prev (el_next e) None h) (\<lambda>h1.
            Inr (Some (el_content e), l3, free_elem a h1)))
      else Inr (None, l, h))"

definition ListRemoveHead :: "LinkedList \<Rightarrow> 'c lheap \<Rightarrow> (LinkedList \<times> 'c lheap) res" where
  "ListRemoveHead l h =
     bindR (ListDetachHead l h) (\<lambda>(c, l', h').
       Inr (l', case c of None \<Rightarrow> h' | Some x \<Rightarrow> h'\<lparr>freed := freed h' @ [x]\<rparr>))"

definition ListPopTail :: "LinkedList \<Rightarrow> 'c lheap \<Rightarrow> ('c option \<times> LinkedList \<times> 'c lheap) res" where
  "ListPopTail l h =
     (if 0 < lcount l then
        bindR (elem_at h (last_el l)) (\<lambda>(a, e).
          let l1 = (if current l = last_el l then l\<lparr>current := el_prev e\<rparr> else l);
              l2 = (if first l = last_el l then l1\<lparr>first := None\<rparr> else l1);
              l3 = l2\<lparr>last_el := el_prev e, lcount := lcount l - 1\<rparr> in
          bindR (if el_prev e = None then Inr h else set_next (el_prev e) None h) (\<lambda>h1.
            Inr (Some (el_content e), l3, free_elem a h1)))
      else Inr (None, l, h))"

text \<open>The loop of \<^verbatim>\<open>ListEmpty\<close>; with \<open>freeContent\<close> false, that of \<^verbatim>\<open>ListFreeNoContent\<close>.\<close>

partial_function (option) empty_loop :: "bool \<Rightarrow> nat option \<Rightarrow> 'c lheap \<Rightarrow> 'c lheap res option" where
  "empty_loop freeContent pos h =
     (case pos of
        None \<Rightarrow> Some (Inr h)
      | Some a \<Rightarrow>
          (case elems h a of
             None \<Rightarrow> Some (Inl UseAfterFree)
           | Some e \<Rightarrow> empty_loop freeContent (el_next e)
               (free_elem a (if freeContent then h\<lparr>freed := freed h @ [el_content e]\<rparr> else h))))"

definition ListEmpty :: "LinkedList \<Rightarrow> 'c lheap \<Rightarrow> (LinkedList \<times> 'c lheap) res option" where
  "ListEmpty l h = map_option (\<lambda>r. bindR r (\<lambda>h'. Inr (ListZero, h'))) (empty_loop True (first l) h)"

definition ListFree :: "LinkedList \<Rightarrow> 'c lheap \<Rightarrow> 'c lheap res option" where
  "ListFree l h = map_option (\<lambda>r. bindR r (\<lambda>(_, h'). Inr h')) (ListEmpty l h)"

definition ListFreeNoContent :: "LinkedList \<Rightarrow> 'c lheap \<Rightarrow> 'c lheap res option" where
  "ListFreeNoContent l h = empty_loop False (first l) h"

section \<open>Well-formed lists\<close>

text \<open>
  \<open>dll m p as q\<close>: the addresses \<open>as\<close> form a doubly linked chain in \<open>m\<close>, whose first element
  points back to \<open>p\<close> and whose last element points on to \<open>q\<close>.
\<close>

definition head_or :: "nat list \<Rightarrow> nat option \<Rightarrow> nat option" where
  "head_or as q = (case as of [] \<Rightarrow> q | a # _ \<Rightarrow> Some a)"

definition last_or :: "nat option \<Rightarrow> nat list \<Rightarrow> nat option" where
  "last_or p as = (if as = [] then p else Some (last as))"

fun dll :: "(nat \<rightharpoonup> 'c ListElement) \<Rightarrow> nat option \<Rightarrow> nat list \<Rightarrow> nat option \<Rightarrow> bool" where
  "dll m p [] q \<longleftrightarrow> True"
| "dll m p (a # as) q \<longleftrightarrow> (\<exists>e. m a = Some e \<and> el_prev e = p \<and> el_next e = head_or as q) \<and> dll m (Some a) as q"

definition contents :: "(nat \<rightharpoonup> 'c ListElement) \<Rightarrow> nat list \<Rightarrow> 'c list" where
  "contents m as = map (\<lambda>a. el_content (the (m a))) as"

definition linked :: "'c lheap \<Rightarrow> LinkedList \<Rightarrow> nat list \<Rightarrow> bool" where
  "linked h l as \<longleftrightarrow> dll (elems h) None as None \<and> distinct as \<and> first l = head_or as None \<and>
     last_el l = last_or None as \<and> lcount l = int (length as) \<and> (\<forall>a. current l = Some a \<longrightarrow> a \<in> set as) \<and>
     (\<forall>a \<in> dom (elems h). a < fresh h)"

lemma end_simps [simp]:
  "head_or [] q = q" "head_or (a # as) q = Some a" "last_or p [] = p" "last_or p (as @ [a]) = Some a"
  "last_or p (a # as) = last_or (Some a) as"
  "head_or (as @ bs) q = head_or as (head_or bs q)"
  by (auto simp: head_or_def last_or_def split: list.splits)

lemma head_or_None: "head_or as None = None \<longleftrightarrow> as = []"
  by (cases as) simp_all

lemma last_or_None: "last_or None as = None \<longleftrightarrow> as = []"
  by (simp add: last_or_def)

lemma dll_append [simp]: "dll m p (as @ bs) q \<longleftrightarrow> dll m p as (head_or bs q) \<and> dll m (last_or p as) bs q"
  by (induction as arbitrary: p) auto

lemma dll_frame [simp]: "a \<notin> set as \<Longrightarrow> dll (m(a := v)) p as q = dll m p as q"
  by (induction as arbitrary: p) auto

lemma contents_frame [simp]: "a \<notin> set as \<Longrightarrow> contents (m(a := v)) as = contents m as"
  by (auto simp: contents_def)

lemma contents_simps [simp]: "contents m [] = []" "contents m (a # as) = el_content (the (m a)) # contents m as"
  "contents m (as @ bs) = contents m as @ contents m bs" "length (contents m as) = length as"
  by (simp_all add: contents_def)

lemma dll_dom: "dll m p as q \<Longrightarrow> a \<in> set as \<Longrightarrow> a \<in> dom m"
  by (induction as arbitrary: p) auto

text \<open>Changing where a chain begins or ends.\<close>

lemma dll_set_next:
  assumes "dll m p (as @ [a]) q" and "a \<notin> set as" and "m a = Some e"
  shows "dll (m(a \<mapsto> e\<lparr>el_next := q'\<rparr>)) p (as @ [a]) q'"
  using assms by simp

lemma dll_set_prev:
  assumes "dll m p (a # as) q" and "a \<notin> set as" and "m a = Some e"
  shows "dll (m(a \<mapsto> e\<lparr>el_prev := p'\<rparr>)) p' (a # as) q"
  using assms by auto

lemma contents_update:
  "m a = Some e \<Longrightarrow> contents (m(a \<mapsto> e\<lparr>el_next := v\<rparr>)) as = contents m as"
  "m a = Some e \<Longrightarrow> contents (m(a \<mapsto> e\<lparr>el_prev := v\<rparr>)) as = contents m as"
  by (auto simp: contents_def)

section \<open>Searching a well-formed list\<close>

lemma find_loop_dll:
  assumes "dll (elems h) p as None"
  shows "find_loop h P (head_or as None) =
    Some (Inr (map_option (\<lambda>i. as ! i) (first_index P (contents (elems h) as))))"
  using assms
proof (induction as arbitrary: p)
  case Nil
  then show ?case by (subst find_loop.simps) simp
next
  case (Cons a as)
  then obtain e where "elems h a = Some e" "el_next e = head_or as None" by auto
  with Cons.IH [of "Some a"] Cons.prems show ?case by (subst find_loop.simps) (simp add: option.map_comp o_def)
qed

text \<open>Where a search finds its element: at the remembered one if it matches, else at the first match.\<close>

definition position :: "nat list \<Rightarrow> nat option \<Rightarrow> nat option" where
  "position as p = Option.bind p (\<lambda>a. first_index (\<lambda>x. x = a) as)"

lemma position_nth: "distinct as \<Longrightarrow> i < length as \<Longrightarrow> position as (Some (as ! i)) = Some i"
  by (auto simp: position_def nth_eq_iff_index_eq intro!: first_index_unique)

lemma position_Some: "position as p = Some i \<Longrightarrow> i < length as \<and> p = Some (as ! i)"
  by (auto simp: position_def first_index_Some split: bind_splits)

lemma ListFindItem_linked:
  fixes P :: "'c \<Rightarrow> bool"
  assumes "linked h l as"
  defines "rc \<equiv> (if \<exists>a. current l = Some a \<and> P (el_content (the (elems h a))) then current l
    else map_option (\<lambda>i. as ! i) (first_index P (contents (elems h) as)))"
  shows "ListFindItem l P h = Some (Inr (rc, if rc \<noteq> None then l\<lparr>current := rc\<rparr> else l))"
proof -
  have scan: "find_loop h P (first l) = Some (Inr (map_option (\<lambda>i. as ! i) (first_index P (contents (elems h) as))))"
    using assms(1) find_loop_dll [of h None as P] by (simp add: linked_def)
  show ?thesis
  proof (cases "current l")
    case None
    then show ?thesis by (simp add: ListFindItem_def scan rc_def)
  next
    case (Some a)
    with assms(1) have "a \<in> dom (elems h)" using dll_dom [of "elems h" None as None a] by (simp add: linked_def)
    then obtain e where "elems h a = Some e" by auto
    moreover have "l\<lparr>current := Some a\<rparr> = l" using Some by (cases l) simp
    ultimately show ?thesis using Some by (simp add: ListFindItem_def scan rc_def)
  qed
qed

definition find_position :: "('c \<Rightarrow> bool) \<Rightarrow> 'c lheap \<times> LinkedList \<times> nat list \<Rightarrow> nat option" where
  "find_position P = (\<lambda>(h, l, as). case ListFindItem l P h of Some (Inr (rc, _)) \<Rightarrow> position as rc | _ \<Rightarrow> None)"

lemma find_position_cases:
  assumes "linked h l as"
  shows "find_position P (h, l, as) = (case position as (current l) of
      None \<Rightarrow> first_index P (contents (elems h) as)
    | Some i \<Rightarrow> if P (contents (elems h) as ! i) then Some i else first_index P (contents (elems h) as))"
proof -
  have d: "distinct as" using assms by (simp add: linked_def)
  have hit: "position as (map_option (\<lambda>i. as ! i) (first_index P (contents (elems h) as))) = first_index P (contents (elems h) as)"
  proof (cases "first_index P (contents (elems h) as)")
    case (Some i)
    then have "i < length as" by (simp add: first_index_Some)
    with Some d show ?thesis by (simp add: position_nth)
  qed (simp add: position_def)
  show ?thesis
  proof (cases "current l")
    case None
    then show ?thesis
      using hit by (simp add: find_position_def ListFindItem_linked [OF assms]) (simp add: position_def)
  next
    case (Some a)
    then obtain i where i: "i < length as" "as ! i = a"
      using assms by (auto simp: linked_def in_set_conv_nth)
    with d have "position as (Some a) = Some i" by (auto simp: position_nth)
    with Some i hit show ?thesis by (simp add: find_position_def ListFindItem_linked [OF assms] contents_def)
  qed
qed

text \<open>\<^verbatim>\<open>ListFindItem\<close> with its remembered element is a cached search over the contents.\<close>

interpretation list_find: cached_search "\<lambda>(h, l, as). linked h l as" "\<lambda>(h, l, as). contents (elems h) as"
  "\<lambda>(h, l, as). position as (current l)" "\<lambda>P c. P c" find_position
proof
  fix s :: "'c lheap \<times> LinkedList \<times> nat list" and i and P :: "'c \<Rightarrow> bool"
  assume "case s of (h, l, as) \<Rightarrow> linked h l as" "(case s of (h, l, as) \<Rightarrow> position as (current l)) = Some i"
    "i < length (case s of (h, l, as) \<Rightarrow> contents (elems h) as)"
    "P ((case s of (h, l, as) \<Rightarrow> contents (elems h) as) ! i)"
  then show "find_position P s = Some i" by (cases s) (simp add: find_position_cases)
next
  fix s :: "'c lheap \<times> LinkedList \<times> nat list" and P :: "'c \<Rightarrow> bool"
  assume a: "case s of (h, l, as) \<Rightarrow> linked h l as"
    "\<not> (\<exists>i. (case s of (h, l, as) \<Rightarrow> position as (current l)) = Some i \<and>
       i < length (case s of (h, l, as) \<Rightarrow> contents (elems h) as) \<and>
       P ((case s of (h, l, as) \<Rightarrow> contents (elems h) as) ! i))"
  obtain h l as where s: "s = (h, l, as)" by (cases s)
  from a show "find_position P s = first_index P (case s of (h, l, as) \<Rightarrow> contents (elems h) as)"
    using position_Some [of as "current l"] by (auto simp: s find_position_cases split: option.splits)
qed

section \<open>Changing a well-formed list\<close>

text \<open>What is kept of the heap by an operation on the list at \<open>as\<close>.\<close>

definition same_outside :: "nat list \<Rightarrow> 'c lheap \<Rightarrow> 'c lheap \<Rightarrow> bool" where
  "same_outside as h h' \<longleftrightarrow> (\<forall>a. a \<notin> set as \<longrightarrow> elems h' a = elems h a)"

lemma elem_at_Some [simp]: "elems h a = Some e \<Longrightarrow> elem_at h (Some a) = Inr (a, e)"
  by (simp add: elem_at_def)

lemma put_elem_simps [simp]: "elems (put_elem a e h) = (elems h)(a \<mapsto> e)" "fresh (put_elem a e h) = fresh h"
  "freed (put_elem a e h) = freed h" "elems (free_elem a h) = (elems h)(a := None)" "fresh (free_elem a h) = fresh h"
  "freed (free_elem a h) = freed h"
  by (simp_all add: put_elem_def free_elem_def)

lemma unlink_left:
  assumes l: "dll (elems h) None xs (Some a)" "distinct xs" "first l = head_or xs (Some a)"
    and e: "el_prev e = last_or None xs" "el_next e = head_or ys None"
  shows "\<exists>h1. (if el_prev e = None then Inr (l\<lparr>first := el_next e\<rparr>, h)
      else bindR (set_next (el_prev e) (el_next e) h) (\<lambda>h1. Inr (l, h1))) = Inr (l\<lparr>first := head_or (xs @ ys) None\<rparr>, h1) \<and>
    dll (elems h1) None xs (head_or ys None) \<and> (\<forall>as. contents (elems h1) as = contents (elems h) as) \<and>
    dom (elems h1) = dom (elems h) \<and> fresh h1 = fresh h \<and> freed h1 = freed h \<and> same_outside xs h h1"
proof (cases xs rule: rev_cases)
  case Nil
  with e show ?thesis by (simp add: same_outside_def)
next
  case (snoc xs' x)
  with l(1) obtain ex where ex: "elems h x = Some ex" by auto
  have x: "x \<notin> set xs'" using l(2) snoc by simp
  from dll_set_next [OF l(1) [unfolded snoc] x ex, of "head_or ys None"]
  have d: "dll ((elems h)(x \<mapsto> ex\<lparr>el_next := head_or ys None\<rparr>)) None xs (head_or ys None)" by (simp add: snoc)
  have "first l = head_or (xs @ ys) None" using l(3) snoc by simp
  then have f: "l\<lparr>first := head_or (xs @ ys) None\<rparr> = l" by (cases l) simp
  show ?thesis
    using d ex f e snoc
    by (intro exI [of _ "put_elem x (ex\<lparr>el_next := head_or ys None\<rparr>) h"])
      (auto simp: set_next_def contents_update same_outside_def)
qed

lemma unlink_right:
  assumes l: "dll (elems h) (Some a) ys None" "distinct ys" "last_el l = last_or (Some a) ys"
    and e: "el_prev e = last_or None xs" "el_next e = head_or ys None"
  shows "\<exists>h1. (if el_next e = None then Inr (l\<lparr>last_el := el_prev e\<rparr>, h)
      else bindR (set_prev (el_next e) (el_prev e) h) (\<lambda>h1. Inr (l, h1))) = Inr (l\<lparr>last_el := last_or None (xs @ ys)\<rparr>, h1) \<and>
    dll (elems h1) (last_or None xs) ys None \<and> (\<forall>as. contents (elems h1) as = contents (elems h) as) \<and>
    dom (elems h1) = dom (elems h) \<and> fresh h1 = fresh h \<and> freed h1 = freed h \<and> same_outside ys h h1"
proof (cases ys)
  case Nil
  with e show ?thesis by (simp add: same_outside_def)
next
  case (Cons y ys')
  with l(1) obtain ey where ey: "elems h y = Some ey" by auto
  have y: "y \<notin> set ys'" using l(2) Cons by simp
  from dll_set_prev [OF l(1) [unfolded Cons] y ey, of "last_or None xs"]
  have d: "dll ((elems h)(y \<mapsto> ey\<lparr>el_prev := last_or None xs\<rparr>)) (last_or None xs) ys None" by (simp add: Cons)
  have "last_el l = last_or None (xs @ ys)" using l(3) Cons by (simp add: last_or_def)
  then have f: "l\<lparr>last_el := last_or None (xs @ ys)\<rparr> = l" by (cases l) simp
  show ?thesis
    using d ey f e Cons
    by (intro exI [of _ "put_elem y (ey\<lparr>el_prev := last_or None xs\<rparr>) h"])
      (auto simp: set_prev_def contents_update same_outside_def)
qed

lemma dll_outside:
  assumes "dll (elems h) p as q" and "same_outside bs h h'" and "set as \<inter> set bs = {}"
  shows "dll (elems h') p as q"
  using assms by (induction as arbitrary: p) (auto simp: same_outside_def)

lemma unlink_at_linked:
  assumes l: "dll (elems h) None (xs @ a # ys) None" "distinct (xs @ a # ys)" "first l = head_or (xs @ a # ys) None"
    "last_el l = last_or None (xs @ a # ys)" and e: "elems h a = Some e"
  shows "\<exists>h2. unlink_at a e l h = Inr (l\<lparr>first := head_or (xs @ ys) None, last_el := last_or None (xs @ ys)\<rparr>, h2) \<and>
    dll (elems h2) None (xs @ ys) None \<and> (\<forall>as. contents (elems h2) as = contents (elems h) as) \<and>
    dom (elems h2) = dom (elems h) \<and> fresh h2 = fresh h \<and> freed h2 = freed h \<and> same_outside (xs @ ys) h h2"
proof -
  have en: "el_prev e = last_or None xs" "el_next e = head_or ys None" using l(1) e by auto
  from unlink_left [of h xs a l, OF _ _ _ en] l obtain h1 where h1:
    "(if el_prev e = None then Inr (l\<lparr>first := el_next e\<rparr>, h)
      else bindR (set_next (el_prev e) (el_next e) h) (\<lambda>h1. Inr (l, h1))) = Inr (l\<lparr>first := head_or (xs @ ys) None\<rparr>, h1)"
    "dll (elems h1) None xs (head_or ys None)" "\<forall>as. contents (elems h1) as = contents (elems h) as"
    "dom (elems h1) = dom (elems h)" "fresh h1 = fresh h" "freed h1 = freed h" "same_outside xs h h1" by auto
  let ?l = "l\<lparr>first := head_or (xs @ ys) None\<rparr>"
  have "dll (elems h) (Some a) ys None" using l(1) by simp
  then have "dll (elems h1) (Some a) ys None" by (rule dll_outside [OF _ h1(7)]) (use l(2) in auto)
  moreover have "last_el ?l = last_or (Some a) ys" using l(4) by (simp add: last_or_def)
  ultimately obtain h2 where h2:
    "(if el_next e = None then Inr (?l\<lparr>last_el := el_prev e\<rparr>, h1)
      else bindR (set_prev (el_next e) (el_prev e) h1) (\<lambda>h1. Inr (?l, h1))) = Inr (?l\<lparr>last_el := last_or None (xs @ ys)\<rparr>, h2)"
    "dll (elems h2) (last_or None xs) ys None" "\<forall>as. contents (elems h2) as = contents (elems h1) as"
    "dom (elems h2) = dom (elems h1)" "fresh h2 = fresh h1" "freed h2 = freed h1" "same_outside ys h1 h2"
    using unlink_right [of h1 a ys ?l, OF _ _ _ en] l(2) by auto
  have "dll (elems h2) None xs (head_or ys None)" by (rule dll_outside [OF h1(2) h2(7)]) (use l(2) in auto)
  moreover have "unlink_at a e l h = Inr (?l\<lparr>last_el := last_or None (xs @ ys)\<rparr>, h2)"
    by (simp only: unlink_at_def h1(1) h2(1) bindR_simps prod.case)
  ultimately show ?thesis using h1 h2 by (auto simp: same_outside_def)
qed

lemma ListFindItem_position:
  assumes "linked h l as"
  shows "ListFindItem l P h = Some (Inr (case find_position P (h, l, as) of
    None \<Rightarrow> (None, l) | Some i \<Rightarrow> (Some (as ! i), l\<lparr>current := Some (as ! i)\<rparr>)))"
proof (cases "position as (current l)")
  case None
  then have "current l = None"
    using assms position_nth [of as] by (cases "current l") (auto simp: linked_def in_set_conv_nth)
  then show ?thesis
    using None find_position_cases [OF assms, of P] by (simp add: ListFindItem_linked [OF assms] split: option.splits)
next
  case (Some i)
  then have "i < length as" "current l = Some (as ! i)" using position_Some by blast+
  then show ?thesis
    using Some find_position_cases [OF assms, of P]
    by (simp add: ListFindItem_linked [OF assms] contents_def split: option.splits)
qed

lemma ListUnlink_linked:
  assumes l: "linked h l as"
  shows "case find_position P (h, l, as) of
      None \<Rightarrow> ListUnlink l P fc h = Some (Inr (0, l, h))
    | Some i \<Rightarrow> \<exists>l' h'. ListUnlink l P fc h = Some (Inr (1, l', h')) \<and> linked h' l' (take i as @ drop (Suc i) as) \<and>
        contents (elems h') (take i as @ drop (Suc i) as) = take i (contents (elems h) as) @ drop (Suc i) (contents (elems h) as) \<and>
        elems h' (as ! i) = None \<and> same_outside as h h' \<and>
        freed h' = freed h @ (if fc then [contents (elems h) as ! i] else [])"
proof (cases "find_position P (h, l, as)")
  case None
  then show ?thesis by (simp add: ListUnlink_def ListFindItem_position [OF l])
next
  case (Some i)
  define xs a ys where xay: "xs = take i as" "a = as ! i" "ys = drop (Suc i) as"
  have i: "i < length as" using list_find.found_Some(1) [of "(h, l, as)" P i] Some l by simp
  then have as: "as = xs @ a # ys" unfolding xay by (rule id_take_nth_drop)
  have lk: "dll (elems h) None (xs @ a # ys) None" "distinct (xs @ a # ys)" "first l = head_or (xs @ a # ys) None"
    "last_el l = last_or None (xs @ a # ys)" using l unfolding linked_def as by blast+
  then obtain e where e: "elems h a = Some e" "el_next e = head_or ys None" by auto
  let ?l = "l\<lparr>current := Some a\<rparr>"
  from unlink_at_linked [of h xs a ys ?l e] lk e obtain h2 where h2:
    "unlink_at a e ?l h = Inr (?l\<lparr>first := head_or (xs @ ys) None, last_el := last_or None (xs @ ys)\<rparr>, h2)"
    "dll (elems h2) None (xs @ ys) None" "\<forall>bs. contents (elems h2) bs = contents (elems h) bs"
    "dom (elems h2) = dom (elems h)" "fresh h2 = fresh h" "freed h2 = freed h" "same_outside (xs @ ys) h h2" by auto
  define h' where "h' = free_elem a (if fc then h2\<lparr>freed := freed h2 @ [el_content e]\<rparr> else h2)"
  define l' where "l' = l\<lparr>first := head_or (xs @ ys) None, last_el := last_or None (xs @ ys),
     current := (if current l = Some a then el_next e else current l), lcount := lcount l - 1\<rparr>"
  have h': "elems h' = (elems h2)(a := None)" "fresh h' = fresh h" "freed h' = freed h @ (if fc then [el_content e] else [])"
    using h2(5,6) by (simp_all add: h'_def)
  have "ListUnlink l P fc h = Some (Inr (1, l', h'))"
    using Some e(1) h2(1) by (simp add: ListUnlink_def ListFindItem_position [OF l] xay [symmetric] h'_def l'_def Let_def)
  moreover have "linked h' l' (xs @ ys)"
    unfolding linked_def
  proof (intro conjI allI impI)
    show "dll (elems h') None (xs @ ys) None" using h2(2) lk(2) unfolding h'(1) by (subst dll_frame) auto
    show "lcount l' = int (length (xs @ ys))" using l by (simp add: linked_def l'_def as)
    show "b \<in> set (xs @ ys)" if "current l' = Some b" for b
    proof (cases "current l = Some a")
      case True
      with that e(2) show ?thesis by (cases ys) (simp_all add: l'_def)
    next
      case False
      with that l as show ?thesis by (auto simp: l'_def linked_def)
    qed
    show "\<forall>b \<in> dom (elems h'). b < fresh h'" using l h2(4) h' by (auto simp: linked_def)
  qed (use lk(2) in \<open>simp_all add: l'_def\<close>)
  moreover have "contents (elems h') (xs @ ys) = take i (contents (elems h) as) @ drop (Suc i) (contents (elems h) as)"
    using lk(2) h2(3) h'(1) by (simp add: contents_def xay(1,3) take_map drop_map)
  moreover have "el_content e = contents (elems h) as ! i" using i e(1) by (simp add: contents_def xay(2))
  moreover have "same_outside as h h'" using h2(7) h'(1) as by (auto simp: same_outside_def)
  ultimately show ?thesis using Some h' by (simp add: xay)
qed

lemma linked_fresh: "linked h l as \<Longrightarrow> fresh h \<notin> dom (elems h) \<and> fresh h \<notin> set as"
  using dll_dom [of "elems h" None as None] by (fastforce simp: linked_def)

lemma ListAppend_linked:
  assumes l: "linked h l as" and al: "malloc_ok al 24"
  shows "\<exists>l' h'. ListAppend al l c sz h = Inr (Some (fresh h), l', h') \<and> linked h' l' (as @ [fresh h]) \<and>
    contents (elems h') (as @ [fresh h]) = contents (elems h) as @ [c] \<and> same_outside (as @ [fresh h]) h h' \<and>
    freed h' = freed h \<and> current l' = current l"
proof -
  note f = linked_fresh [OF l]
  define h0 where "h0 = put_elem (fresh h) \<lparr>el_prev = last_el l, el_next = None, el_content = c\<rparr> (h\<lparr>fresh := Suc (fresh h)\<rparr>)"
  have d0: "dll (elems h0) None as None" "distinct as" "last_el l = last_or None as" "first l = head_or as None"
    using l f by (simp_all add: linked_def h0_def)
  show ?thesis
  proof (cases as rule: rev_cases)
    case Nil
    with l al f show ?thesis
      by (auto simp: ListAppend_def ListAppendNoMalloc_def linked_def Let_def same_outside_def put_elem_def less_Suc_eq)
  next
    case (snoc xs x)
    with d0(1) obtain ex where ex: "elems h0 x = Some ex" by auto
    have x: "x \<notin> set xs" "x \<noteq> fresh h" using d0(2) f snoc by auto
    define h' where "h' = put_elem x (ex\<lparr>el_next := Some (fresh h)\<rparr>) h0"
    define l' where "l' = l\<lparr>last_el := Some (fresh h), lcount := lcount l + 1, lsize := lsize l + sz\<rparr>"
    have "first l \<noteq> None" using d0(4) snoc by (simp add: head_or_def split: list.splits)
    moreover have lx: "last_el l = Some x" using d0(3) snoc by simp
    ultimately have "ListAppend al l c sz h = Inr (Some (fresh h), l', h')"
      using al ex by (auto simp: ListAppend_def ListAppendNoMalloc_def Let_def set_next_def
          h0_def [unfolded lx, symmetric] h'_def l'_def)
    moreover have "dll (elems h') None (as @ [fresh h]) None"
      using dll_set_next [OF d0(1) [unfolded snoc] x(1) ex, of "Some (fresh h)"] x d0(3)
      by (simp add: snoc h'_def) (simp add: h0_def)
    moreover have "contents (elems h') (as @ [fresh h]) = contents (elems h) as @ [c]"
      using f x ex by (simp add: h'_def contents_update(1)) (simp add: h0_def)
    ultimately show ?thesis
      using l f snoc d0 by (auto simp: linked_def l'_def h'_def h0_def same_outside_def less_Suc_eq last_or_def)
  qed
qed

text \<open>The element before the new one is linked to it.\<close>

lemma insert_left:
  assumes d: "dll (elems h) None xs (Some a)" "distinct xs" "first l = head_or xs (Some a)"
  shows "\<exists>h1. (if last_or None xs \<noteq> None then bindR (set_next (last_or None xs) (Some b) h) (\<lambda>h2. Inr (l, h2))
      else Inr (l\<lparr>first := Some b\<rparr>, h)) = Inr (l\<lparr>first := head_or xs (Some b)\<rparr>, h1) \<and>
    dll (elems h1) None xs (Some b) \<and> (\<forall>as. contents (elems h1) as = contents (elems h) as) \<and>
    dom (elems h1) = dom (elems h) \<and> fresh h1 = fresh h \<and> freed h1 = freed h \<and> same_outside xs h h1"
proof (cases xs rule: rev_cases)
  case Nil
  then show ?thesis by (simp add: same_outside_def)
next
  case (snoc xs' x)
  with d(1) obtain ex where ex: "elems h x = Some ex" by auto
  have x: "x \<notin> set xs'" using d(2) snoc by simp
  have "first l = head_or xs (Some b)" using d(3) snoc by simp
  then have f: "l\<lparr>first := head_or xs (Some b)\<rparr> = l" by (cases l) simp
  have "dll ((elems h)(x \<mapsto> ex\<lparr>el_next := Some b\<rparr>)) None xs (Some b)"
    using dll_set_next [OF d(1) [unfolded snoc] x ex, of "Some b"] by (simp add: snoc)
  then show ?thesis
    using ex f snoc by (intro exI [of _ "put_elem x (ex\<lparr>el_next := Some b\<rparr>) h"])
      (auto simp: set_next_def contents_update same_outside_def)
qed

lemma ListInsert_linked:
  assumes l: "linked h l (xs @ a # ys)" and al: "malloc_ok al 24"
  shows "\<exists>l' h'. ListInsert al l c sz (Some a) h = Inr (Some (fresh h), l', h') \<and> linked h' l' (xs @ fresh h # a # ys) \<and>
    contents (elems h') (xs @ fresh h # a # ys) = contents (elems h) xs @ c # contents (elems h) (a # ys) \<and>
    same_outside (fresh h # xs @ a # ys) h h' \<and> freed h' = freed h \<and> current l' = current l"
proof -
  let ?n = "fresh h"
  have f: "?n \<notin> dom (elems h)" "?n \<notin> set (xs @ a # ys)" using linked_fresh [OF l] by simp_all
  have d: "dll (elems h) None xs (Some a)" "dll (elems h) (Some a) ys None" "distinct (xs @ a # ys)"
    "first l = head_or xs (Some a)" "last_el l = last_or None (xs @ a # ys)" using l by (simp_all add: linked_def)
  obtain e where e: "elems h a = Some e" "el_prev e = last_or None xs" "el_next e = head_or ys None"
    using l by (auto simp: linked_def)
  define h1 where "h1 = put_elem a (e\<lparr>el_prev := Some ?n\<rparr>)
    (put_elem ?n \<lparr>el_prev = last_or None xs, el_next = Some a, el_content = c\<rparr> (h\<lparr>fresh := Suc ?n\<rparr>))"
  have "dll (elems h1) None xs (Some a)" using d(1,3) f by (simp add: h1_def)
  then obtain h2 where h2: "(if last_or None xs \<noteq> None then bindR (set_next (last_or None xs) (Some ?n) h1) (\<lambda>h2. Inr (l, h2))
      else Inr (l\<lparr>first := Some ?n\<rparr>, h1)) = Inr (l\<lparr>first := head_or xs (Some ?n)\<rparr>, h2)"
    "dll (elems h2) None xs (Some ?n)" "\<forall>as. contents (elems h2) as = contents (elems h1) as"
    "dom (elems h2) = dom (elems h1)" "fresh h2 = fresh h1" "freed h2 = freed h1" "same_outside xs h1 h2"
    using insert_left [of h1 xs a l ?n] d(3,4) by auto
  define l' where "l' = l\<lparr>first := head_or xs (Some ?n), lcount := lcount l + 1, lsize := lsize l + sz\<rparr>"
  have run: "ListInsert al l c sz (Some a) h = Inr (Some ?n, l', h2)"
    using al e(1,2) f h2(1) by (auto simp: ListInsert_def Let_def elem_at_def set_prev_def h1_def [symmetric] l'_def)
  have tail: "dll (elems h1) (last_or None xs) (?n # a # ys) None" using d e f by (auto simp: h1_def)
  have "dll (elems h2) (last_or None xs) (?n # a # ys) None"
    by (rule dll_outside [OF tail h2(7)]) (use d(3) f in auto)
  moreover have "contents (elems h1) (xs @ ?n # a # ys) = contents (elems h) xs @ c # contents (elems h) (a # ys)"
    using d(3) f e(1) by (auto simp: h1_def)
  moreover have "\<forall>b \<in> dom (elems h2). b < fresh h2"
    using l h2(4,5) e(1) by (auto simp: h1_def linked_def less_Suc_eq)
  ultimately show ?thesis
    using l run h2 f by (auto simp: linked_def l'_def same_outside_def h1_def last_or_def)
qed

text \<open>Taking the first or the last element.\<close>

lemma ListDetachHead_linked:
  assumes l: "linked h l (a # as)"
  shows "\<exists>l' h'. ListDetachHead l h = Inr (Some (el_content (the (elems h a))), l', h') \<and> linked h' l' as \<and>
    contents (elems h') as = contents (elems h) as \<and> elems h' a = None \<and> freed h' = freed h"
proof -
  have d: "dll (elems h) (Some a) as None" "distinct (a # as)" "first l = Some a" "last_el l = last_or (Some a) as"
    "lcount l = 1 + int (length as)" using l by (simp_all add: linked_def)
  obtain e where e: "elems h a = Some e" "el_next e = head_or as None" using l by (auto simp: linked_def)
  let ?l = "(if current l = first l then l\<lparr>current := el_next e\<rparr> else l)"
  obtain h1 where h1: "(if el_next e = None then Inr h else set_prev (el_next e) None h) = Inr h1"
    "dll (elems h1) None as None" "\<forall>bs. contents (elems h1) bs = contents (elems h) bs"
    "dom (elems h1) = dom (elems h)" "fresh h1 = fresh h" "freed h1 = freed h"
  proof (cases as)
    case Nil
    with e that [of h] show thesis by simp
  next
    case (Cons b bs)
    with d(1) obtain eb where eb: "elems h b = Some eb" by auto
    have b: "b \<notin> set bs" using d(2) Cons by simp
    have "dll ((elems h)(b \<mapsto> eb\<lparr>el_prev := None\<rparr>)) None as None"
      using dll_set_prev [OF d(1) [unfolded Cons] b eb, of None] by (simp add: Cons)
    with Cons e eb show thesis
      by (intro that [of "put_elem b (eb\<lparr>el_prev := None\<rparr>) h"]) (auto simp: set_prev_def contents_update)
  qed
  define l' where "l' = (if last_el l = first l then ?l\<lparr>last_el := None\<rparr> else ?l)\<lparr>first := el_next e, lcount := lcount l - 1\<rparr>"
  have "ListDetachHead l h = Inr (Some (el_content e), l', free_elem a h1)"
    using d(3,5) e(1) h1(1) by (simp add: ListDetachHead_def Let_def l'_def)
  moreover have "last_el l' = last_or None as"
    using d(2-4) by (cases as rule: rev_cases) (auto simp: l'_def)
  moreover have "b \<in> set as" if "current l' = Some b" for b
  proof (cases "current l = first l")
    case True
    with that e(2) d(3) show ?thesis by (cases as) (simp_all add: l'_def split: if_splits)
  next
    case False
    with that l show ?thesis by (auto simp: l'_def linked_def split: if_splits)
  qed
  moreover have "first l' = head_or as None" "lcount l' = int (length as)" using d e by (simp_all add: l'_def)
  moreover have "\<forall>b \<in> dom (elems h1). b < fresh h1" using l h1(4,5) by (simp add: linked_def)
  ultimately show ?thesis using d(2) e(1) h1 by (auto simp: linked_def)
qed

lemma empty_loop_dll:
  assumes "dll (elems h) p as None" and "distinct as"
  shows "\<exists>h'. empty_loop fc (head_or as None) h = Some (Inr h') \<and> elems h' = (elems h) |` (- set as) \<and>
    freed h' = freed h @ (if fc then contents (elems h) as else []) \<and> fresh h' = fresh h"
  using assms
proof (induction as arbitrary: p h)
  case Nil
  then show ?case by (subst empty_loop.simps) (simp add: restrict_map_def fun_eq_iff)
next
  case (Cons a as)
  then obtain e where e: "elems h a = Some e" "el_next e = head_or as None" by auto
  let ?h = "free_elem a (if fc then h\<lparr>freed := freed h @ [el_content e]\<rparr> else h)"
  have d: "dll (elems ?h) (Some a) as None" "distinct as" using Cons.prems by simp_all
  from Cons.IH [OF d] obtain h' where "empty_loop fc (head_or as None) ?h = Some (Inr h')"
    "elems h' = (elems ?h) |` (- set as)" "freed h' = freed ?h @ (if fc then contents (elems ?h) as else [])"
    "fresh h' = fresh ?h" by blast
  with e Cons.prems(2) show ?case
    by (subst empty_loop.simps) (auto simp: restrict_map_def fun_eq_iff)
qed

section \<open>Theorems\<close>

text \<open>
  adding to a list. On a well-formed list with contents \<open>cs\<close>, \<open>ListAppend\<close> gives a well-formed
  list with contents \<open>cs @ [c]\<close>, and \<open>ListInsert\<close> before the \<open>i\<close>-th element one with \<open>c\<close> inserted at
  position \<open>i\<close>; nothing else on the heap changes and nothing is freed.
\<close>
theorem list_add:
  assumes "linked h l as" and "malloc_ok al 24"
  shows "(\<exists>l' h' as'. ListAppend al l c sz h = Inr (Some (fresh h), l', h') \<and> linked h' l' as' \<and>
      contents (elems h') as' = contents (elems h) as @ [c] \<and> same_outside (fresh h # as) h h' \<and> freed h' = freed h) \<and>
    (i < length as \<longrightarrow> (\<exists>l' h' as'. ListInsert al l c sz (Some (as ! i)) h = Inr (Some (fresh h), l', h') \<and> linked h' l' as' \<and>
      contents (elems h') as' = take i (contents (elems h) as) @ c # drop i (contents (elems h) as) \<and>
      same_outside (fresh h # as) h h' \<and> freed h' = freed h))"
proof (intro conjI impI)
  have "same_outside (as @ [fresh h]) h h' = same_outside (fresh h # as) h h'" for h' by (simp add: same_outside_def)
  with ListAppend_linked [OF assms, of c sz]
  show "\<exists>l' h' as'. ListAppend al l c sz h = Inr (Some (fresh h), l', h') \<and> linked h' l' as' \<and>
      contents (elems h') as' = contents (elems h) as @ [c] \<and> same_outside (fresh h # as) h h' \<and> freed h' = freed h"
    by metis
next
  assume "i < length as"
  then have as: "as = take i as @ as ! i # drop (Suc i) as" by (rule id_take_nth_drop)
  then have d: "drop i as = as ! i # drop (Suc i) as" using \<open>i < length as\<close> by (simp add: Cons_nth_drop_Suc)
  from ListInsert_linked [of h l "take i as" "as ! i" "drop (Suc i) as" al c sz] as assms
  obtain l' h' where r: "ListInsert al l c sz (Some (as ! i)) h = Inr (Some (fresh h), l', h')"
    "linked h' l' (take i as @ fresh h # as ! i # drop (Suc i) as)"
    "contents (elems h') (take i as @ fresh h # as ! i # drop (Suc i) as) =
       contents (elems h) (take i as) @ c # contents (elems h) (as ! i # drop (Suc i) as)"
    "same_outside (fresh h # take i as @ as ! i # drop (Suc i) as) h h'" "freed h' = freed h" by metis
  moreover have "contents (elems h) (take i as) = take i (contents (elems h) as)"
    "contents (elems h) (as ! i # drop (Suc i) as) = drop i (contents (elems h) as)"
    unfolding d [symmetric] by (simp_all add: contents_def take_map drop_map)
  moreover have "set (take i as @ as ! i # drop (Suc i) as) = set as" using as by metis
  ultimately show "\<exists>l' h' as'. ListInsert al l c sz (Some (as ! i)) h = Inr (Some (fresh h), l', h') \<and> linked h' l' as' \<and>
      contents (elems h') as' = take i (contents (elems h) as) @ c # drop i (contents (elems h) as) \<and>
      same_outside (fresh h # as) h h' \<and> freed h' = freed h"
    by (intro exI [of _ l'] exI [of _ h'] exI [of _ "take i as @ fresh h # as ! i # drop (Suc i) as"])
      (auto simp: same_outside_def)
qed

text \<open>A sample list: two elements, the second remembered.\<close>

definition sample_heap :: "int lheap" where
  "sample_heap = \<lparr>elems = [0 \<mapsto> \<lparr>el_prev = None, el_next = Some 1, el_content = 7\<rparr>,
      1 \<mapsto> \<lparr>el_prev = Some 0, el_next = None, el_content = 8\<rparr>], fresh = 2, freed = []\<rparr>"

definition sample_list :: LinkedList where
  "sample_list = \<lparr>first = Some 0, last_el = Some 1, current = Some 1, lcount = 2, lsize = 8\<rparr>"

lemma sample_linked: "linked sample_heap sample_list [0, 1]" "contents (elems sample_heap) [0, 1] = [7, 8]"
  by (auto simp: linked_def sample_heap_def sample_list_def last_or_def)

text \<open>
  searching with the remembered element. If at most one content satisfies the comparison, the
  element found is the first one that satisfies it, whatever was remembered, and the search
  remembers it; if none does, null is returned and the list is unchanged. The search returns.
\<close>
theorem list_find_first:
  assumes "linked h l as"
    and "\<And>i j. i < length as \<Longrightarrow> j < length as \<Longrightarrow> P (contents (elems h) as ! i) \<Longrightarrow> P (contents (elems h) as ! j) \<Longrightarrow> i = j"
  shows "ListFindItem l P h = Some (Inr (case first_index P (contents (elems h) as) of
    None \<Rightarrow> (None, l) | Some i \<Rightarrow> (Some (as ! i), l\<lparr>current := Some (as ! i)\<rparr>)))"
proof -
  have "find_position P (h, l, as) = first_index P (contents (elems h) as)"
    using list_find.found_first [of "(h, l, as)" P] assms by simp
  then show ?thesis by (simp add: ListFindItem_position [OF assms(1)])
qed

text \<open>
  removing from a list. If some content satisfies the comparison, one element that does is
  taken out: the result is 1, the list stays well formed with that content removed and the others
  in order, exactly that element is freed, its content is freed when asked for, and the rest of the
  heap is untouched. Otherwise the result is 0 and nothing changes.
\<close>
theorem list_unlink:
  assumes "linked h l as"
  shows "if \<exists>c \<in> set (contents (elems h) as). P c
    then \<exists>i l' h' as'. i < length as \<and> P (contents (elems h) as ! i) \<and> ListUnlink l P fc h = Some (Inr (1, l', h')) \<and>
      linked h' l' as' \<and> contents (elems h') as' = take i (contents (elems h) as) @ drop (Suc i) (contents (elems h) as) \<and>
      elems h' (as ! i) = None \<and> same_outside as h h' \<and>
      freed h' = freed h @ (if fc then [contents (elems h) as ! i] else [])
    else ListUnlink l P fc h = Some (Inr (0, l, h))"
proof (cases "find_position P (h, l, as)")
  case None
  then have "\<not> (\<exists>c \<in> set (contents (elems h) as). P c)"
    using list_find.found_None [of "(h, l, as)" P] assms by simp
  with None ListUnlink_linked [OF assms, of P fc] show ?thesis by simp
next
  case (Some i)
  then have i: "i < length as" "P (contents (elems h) as ! i)"
    using list_find.found_Some [of "(h, l, as)" P i] assms by simp_all
  then have "contents (elems h) as ! i \<in> set (contents (elems h) as)" by (intro nth_mem) simp
  with i(2) have ex: "\<exists>c \<in> set (contents (elems h) as). P c" by blast
  from Some ListUnlink_linked [OF assms, of P fc] obtain l' h' where
    "ListUnlink l P fc h = Some (Inr (1, l', h'))" "linked h' l' (take i as @ drop (Suc i) as)"
    "contents (elems h') (take i as @ drop (Suc i) as) = take i (contents (elems h) as) @ drop (Suc i) (contents (elems h) as)"
    "elems h' (as ! i) = None" "same_outside as h h'"
    "freed h' = freed h @ (if fc then [contents (elems h) as ! i] else [])" by auto
  with i show ?thesis unfolding if_P [OF ex] by blast
qed

text \<open>
  emptying a list returns, frees every element of it and every content once, in order, and
  leaves the rest of the heap and an empty list.
\<close>
theorem list_empty:
  assumes "linked h l as"
  shows "\<exists>h'. ListEmpty l h = Some (Inr (ListZero, h')) \<and> elems h' = (elems h) |` (- set as) \<and>
    freed h' = freed h @ contents (elems h) as \<and> linked h' ListZero []"
proof -
  from assms have "dll (elems h) None as None" "distinct as" "first l = head_or as None" by (simp_all add: linked_def)
  with empty_loop_dll [of h None as True] obtain h' where h': "empty_loop True (first l) h = Some (Inr h')"
    "elems h' = (elems h) |` (- set as)" "freed h' = freed h @ contents (elems h) as" "fresh h' = fresh h" by auto
  with assms show ?thesis by (auto simp: ListEmpty_def linked_def ListZero_def)
qed

end
