(* ===== verification/Utf8_Check.thy ===== *)
theory Utf8_Check
  imports Mqtt_Prelude
begin

text \<open>
  \<^verbatim>\<open>utf-8.c\<close>: checking that a string is well-formed UTF-8. Shown: the check accepts exactly the byte
  strings that are encodings of sequences of Unicode scalar values.
\<close>

section \<open>The check\<close>

definition valid_ranges :: "(byte \<times> byte) list list" where
  "valid_ranges =
     [[(0x00, 0x7F)],
      [(0xC2, 0xDF), (0x80, 0xBF)],
      [(0xE0, 0xE0), (0xA0, 0xBF), (0x80, 0xBF)],
      [(0xE1, 0xEC), (0x80, 0xBF), (0x80, 0xBF)],
      [(0xED, 0xED), (0x80, 0x9F), (0x80, 0xBF)],
      [(0xEE, 0xEF), (0x80, 0xBF), (0x80, 0xBF)],
      [(0xF0, 0xF0), (0x90, 0xBF), (0x80, 0xBF), (0x80, 0xBF)],
      [(0xF1, 0xF3), (0x80, 0xBF), (0x80, 0xBF), (0x80, 0xBF)],
      [(0xF4, 0xF4), (0x80, 0x8F), (0x80, 0xBF), (0x80, 0xBF)]]"

text \<open>Bytes are compared as values of type \<^verbatim>\<open>char\<close>, which is signed.\<close>

definition in_range :: "byte \<Rightarrow> byte \<times> byte \<Rightarrow> bool" where
  "in_range b r \<longleftrightarrow> \<not> (sint b < sint (fst r) \<or> sint (snd r) < sint b)"

definition charlen :: "byte \<Rightarrow> nat" where
  "charlen b = (if b AND 128 = 0 then 1 else if b AND 0xF0 = 0xF0 then 4 else if b AND 0xE0 = 0xE0 then 3 else 2)"

definition match_row :: "byte list \<Rightarrow> (byte \<times> byte) list \<Rightarrow> bool" where
  "match_row data row \<longleftrightarrow> list_all2 in_range (take (length row) data) row"

text \<open>\<^verbatim>\<open>UTF8_char_validate\<close> of non-null data: the offset of the next character, or null.\<close>

definition UTF8_char_validate :: "int \<Rightarrow> byte list \<Rightarrow> nat option res" where
  "UTF8_char_validate len data =
     guardR OverRead (data \<noteq> [])
       (let n = charlen (hd data) in
        if len < int n then Inr None
        else guardR OverRead (n \<le> length data)
          (Inr (if \<exists>row \<in> set valid_ranges. length row = n \<and> match_row data row then Some n else None)))"

lemma charlen_bounds: "1 \<le> charlen b" "charlen b \<le> 4"
  by (simp_all add: charlen_def)

lemma UTF8_char_validate_progress: "UTF8_char_validate len data = Inr (Some n) \<Longrightarrow> 1 \<le> n \<and> int n \<le> len"
  using charlen_bounds [of "hd data"]
  by (auto simp: UTF8_char_validate_def Let_def res_simps split: if_splits)

function UTF8_loop :: "int \<Rightarrow> byte list \<Rightarrow> bool res" where
  "UTF8_loop len data =
     bindR (UTF8_char_validate len data) (\<lambda>r.
       case r of
         None \<Rightarrow> Inr False
       | Some n \<Rightarrow> if int n < len then UTF8_loop (len - int n) (drop n data) else Inr True)"
  by pat_completeness auto
termination
  by (relation "measure (\<lambda>(len, data). nat len)") (auto dest: UTF8_char_validate_progress)

declare UTF8_loop.simps [simp del]

definition UTF8_validate :: "int \<Rightarrow> byte list option \<Rightarrow> int res" where
  "UTF8_validate len data =
     (case data of
        None \<Rightarrow> Inr 1
      | Some bs \<Rightarrow> if len = 0 then Inr 1 else bindR (UTF8_loop len bs) (\<lambda>ok. Inr (if ok then 1 else 0)))"

text \<open>\<^verbatim>\<open>(int)strlen(string)\<close> wraps for strings of 2 GB and more.\<close>

definition UTF8_validateString :: "byte list option \<Rightarrow> int res" where
  "UTF8_validateString s =
     (case s of
        None \<Rightarrow> Inr 0
      | Some bs \<Rightarrow> UTF8_validate ((int (length bs) + 2 ^ 31) mod 2 ^ 32 - 2 ^ 31) (Some (bs @ [0])))"

section \<open>UTF-8\<close>

definition scalar :: "nat \<Rightarrow> bool" where
  "scalar c \<longleftrightarrow> c < 0x110000 \<and> \<not> (0xD800 \<le> c \<and> c \<le> 0xDFFF)"

definition utf8 :: "nat \<Rightarrow> byte list" where
  "utf8 c = map word_of_nat
     (if c < 0x80 then [c]
      else if c < 0x800 then [0xC0 + c div 64, 0x80 + c mod 64]
      else if c < 0x10000 then [0xE0 + c div 4096, 0x80 + c div 64 mod 64, 0x80 + c mod 64]
      else [0xF0 + c div 262144, 0x80 + c div 4096 mod 64, 0x80 + c div 64 mod 64, 0x80 + c mod 64])"

text \<open>Bytes as numbers: the lead byte tells the length, and the signed comparison agrees with the unsigned one.\<close>

lemma charlen_unat:
  "charlen b = (if unat b < 128 then 1 else if 240 \<le> unat b then 4 else if 224 \<le> unat b then 3 else 2)"
  by (rule byte_cases) code_simp

lemma sint_byte: "sint (b :: byte) = (if unat b < 128 then int (unat b) else int (unat b) - 256)"
  by (rule byte_cases) code_simp

lemma in_range_unat:
  assumes "unat lo < 128 \<longleftrightarrow> unat hi < 128"
  shows "in_range b (lo, hi) \<longleftrightarrow> unat lo \<le> unat b \<and> unat b \<le> unat hi"
  using assms unat_byte_less [of b] unat_byte_less [of lo] unat_byte_less [of hi]
  unfolding in_range_def fst_conv snd_conv sint_byte by presburger

text \<open>The table in numbers.\<close>

definition valid_char :: "byte list \<Rightarrow> bool" where
  "valid_char bs \<longleftrightarrow> (\<exists>row \<in> set valid_ranges. length row = length bs \<and> list_all2 in_range bs row)"

lemma valid_char_1: "valid_char [a] \<longleftrightarrow> unat a \<le> 127"
  by (simp add: valid_char_def valid_ranges_def in_range_unat)

lemma valid_char_2:
  "valid_char [a, b] \<longleftrightarrow> 194 \<le> unat a \<and> unat a \<le> 223 \<and> 128 \<le> unat b \<and> unat b \<le> 191"
  by (simp add: valid_char_def valid_ranges_def in_range_unat)

lemma valid_char_3:
  "valid_char [a, b, c] \<longleftrightarrow>
     224 \<le> unat a \<and> unat a \<le> 239 \<and> 128 \<le> unat b \<and> unat b \<le> 191 \<and> 128 \<le> unat c \<and> unat c \<le> 191 \<and>
     (unat a = 224 \<longrightarrow> 160 \<le> unat b) \<and> (unat a = 237 \<longrightarrow> unat b \<le> 159)"
  by (simp add: valid_char_def valid_ranges_def in_range_unat) arith

lemma valid_char_4:
  "valid_char [a, b, c, d] \<longleftrightarrow>
     240 \<le> unat a \<and> unat a \<le> 244 \<and> 128 \<le> unat b \<and> unat b \<le> 191 \<and> 128 \<le> unat c \<and> unat c \<le> 191 \<and>
     128 \<le> unat d \<and> unat d \<le> 191 \<and>
     (unat a = 240 \<longrightarrow> 144 \<le> unat b) \<and> (unat a = 244 \<longrightarrow> unat b \<le> 143)"
  by (simp add: valid_char_def valid_ranges_def in_range_unat) arith

lemma valid_char_length: "valid_char bs \<Longrightarrow> length bs \<in> {1, 2, 3, 4}"
  by (auto simp: valid_char_def valid_ranges_def)

lemmas valid_char_simps = valid_char_1 valid_char_2 valid_char_3 valid_char_4

lemma digit_div_mod: "(w :: nat) < 64 \<Longrightarrow> (k * 64 + w) div 64 = k" "w < 64 \<Longrightarrow> (k * 64 + w) mod 64 = w"
  by simp_all

lemma div_4096: "(c :: nat) div 4096 = c div 64 div 64" "c div 262144 = c div 64 div 64 div 64"
  by (simp_all add: div_mult2_eq [symmetric])

lemma utf8_decode_3:
  assumes "valid_char [a, b, d]"
  shows "\<exists>c. scalar c \<and> [a, b, d] = utf8 c"
proof -
  define x y z where "x = unat a - 224" and "y = unat b - 128" and "z = unat d - 128"
  define c where "c = (x * 64 + y) * 64 + z"
  have *: "x < 16" "y < 64" "z < 64" "unat a = 224 + x" "unat b = 128 + y" "unat d = 128 + z"
    "x = 0 \<longrightarrow> 32 \<le> y" "x = 13 \<longrightarrow> y < 32"
    using assms by (auto simp: valid_char_simps x_def y_def z_def)
  then have "c div 64 mod 64 = y" "c mod 64 = z" "c div 4096 = x"
    unfolding c_def div_4096 by (simp_all only: digit_div_mod)
  with * have "utf8 c = map word_of_nat [unat a, unat b, unat d]"
    by (auto simp: utf8_def c_def)
  moreover have "x \<le> 12 \<or> x = 13 \<or> 14 \<le> x" by linarith
  with * have "scalar c" by (auto simp: scalar_def c_def)
  ultimately show ?thesis by (intro exI [of _ c]) simp
qed

lemma utf8_decode_4:
  assumes "valid_char [a, b, d, e]"
  shows "\<exists>c. scalar c \<and> [a, b, d, e] = utf8 c"
proof -
  define x y z w where "x = unat a - 240" and "y = unat b - 128" and "z = unat d - 128" and "w = unat e - 128"
  define c where "c = ((x * 64 + y) * 64 + z) * 64 + w"
  have *: "x < 5" "y < 64" "z < 64" "w < 64" "unat a = 240 + x" "unat b = 128 + y" "unat d = 128 + z"
    "unat e = 128 + w" "x = 0 \<longrightarrow> 16 \<le> y" "x = 4 \<longrightarrow> y < 16"
    using assms by (auto simp: valid_char_simps x_def y_def z_def w_def)
  then have "c div 64 mod 64 = z" "c mod 64 = w" "c div 4096 mod 64 = y" "c div 262144 = x"
    unfolding c_def div_4096 by (simp_all only: digit_div_mod)
  moreover have "65536 \<le> c" using * by (cases "x = 0") (simp_all add: c_def)
  ultimately have "utf8 c = map word_of_nat [unat a, unat b, unat d, unat e]"
    using * by (simp add: utf8_def)
  moreover have "x = 0 \<or> 1 \<le> x \<and> x \<le> 3 \<or> x = 4" using *(1) by linarith
  with * have "scalar c" by (auto simp: scalar_def c_def)
  ultimately show ?thesis by (intro exI [of _ c]) simp
qed

lemma utf8_decode:
  assumes "valid_char bs"
  shows "\<exists>c. scalar c \<and> bs = utf8 c"
proof -
  consider (one) a where "bs = [a]" | (two) a b where "bs = [a, b]"
    | (three) a b d where "bs = [a, b, d]" | (four) a b d e where "bs = [a, b, d, e]"
    using valid_char_length [OF assms] by (auto simp: length_Suc_conv numeral_eq_Suc)
  then show ?thesis
  proof cases
    case one
    with assms show ?thesis
      by (intro exI [of _ "unat a"]) (simp add: valid_char_simps scalar_def utf8_def)
  next
    case two
    define x y where "x = unat a - 192" and "y = unat b - 128"
    have "2 \<le> x" "x < 32" "y < 64" "unat a = 192 + x" "unat b = 128 + y"
      using assms by (auto simp: two valid_char_simps x_def y_def)
    then have "scalar (x * 64 + y)" "utf8 (x * 64 + y) = map word_of_nat [unat a, unat b]"
      by (simp_all add: scalar_def utf8_def)
    then show ?thesis by (intro exI [of _ "x * 64 + y"]) (simp add: two)
  qed (use assms utf8_decode_3 utf8_decode_4 in blast)+
qed

lemma utf8_cases:
  assumes "scalar c"
  obtains (one) "c < 128" "utf8 c = [word_of_nat c]"
    | (two) x y where "2 \<le> x" "x < 32" "y < 64" "utf8 c = map word_of_nat [192 + x, 128 + y]"
    | (three) x y z where "x < 16" "y < 64" "z < 64" "x = 0 \<longrightarrow> 32 \<le> y" "x = 13 \<longrightarrow> y < 32"
        "utf8 c = map word_of_nat [224 + x, 128 + y, 128 + z]"
    | (four) x y z w where "x < 5" "y < 64" "z < 64" "w < 64" "x = 0 \<longrightarrow> 16 \<le> y" "x = 4 \<longrightarrow> y < 16"
        "utf8 c = map word_of_nat [240 + x, 128 + y, 128 + z, 128 + w]"
proof -
  define m where "m = c div 64"
  have c: "c = m * 64 + c mod 64" "c mod 64 < 64" by (simp_all add: m_def)
  have m: "m = m div 64 * 64 + m mod 64" "m mod 64 < 64" by simp_all
  have h: "m div 64 = m div 64 div 64 * 64 + m div 64 mod 64" "m div 64 mod 64 < 64" by simp_all
  consider "c < 128" | "128 \<le> c" "c < 2048" | "2048 \<le> c" "c < 65536" | "65536 \<le> c" by linarith
  then show ?thesis
  proof cases
    case 1
    then show ?thesis by (intro one) (simp_all add: utf8_def)
  next
    case 2
    with c show ?thesis by (intro two [of m "c mod 64"]) (simp_all add: utf8_def m_def)
  next
    case 3
    with c m assms show ?thesis
      by (intro three [of "m div 64" "m mod 64" "c mod 64"]) (auto simp: utf8_def m_def scalar_def div_mult2_eq [symmetric])
  next
    case 4
    have "c div 4096 < 272" using assms by (simp add: scalar_def div_less_iff_less_mult)
    with 4 c m h assms show ?thesis
      by (intro four [of "m div 64 div 64" "m div 64 mod 64" "m mod 64" "c mod 64"])
        (auto simp: utf8_def m_def scalar_def div_mult2_eq [symmetric])
  qed
qed

lemma utf8_valid: "scalar c \<Longrightarrow> valid_char (utf8 c)"
  by (erule utf8_cases) (auto simp: valid_char_simps simp del: of_nat_add)

lemma utf8_charlen: "scalar c \<Longrightarrow> charlen (hd (utf8 c)) = length (utf8 c)"
  by (erule utf8_cases) (simp_all add: charlen_unat del: of_nat_add)

section \<open>The check and the encoding\<close>

lemma UTF8_char_validate_valid:
  assumes "data \<noteq> []"
  shows "UTF8_char_validate (int (length data)) (data @ ts) =
    Inr (if charlen (hd data) \<le> length data \<and> valid_char (take (charlen (hd data)) data)
         then Some (charlen (hd data)) else None)"
proof (cases "charlen (hd data) \<le> length data")
  case True
  with assms show ?thesis
    by (auto simp: UTF8_char_validate_def valid_char_def match_row_def Let_def)
next
  case False
  with assms show ?thesis by (simp add: UTF8_char_validate_def Let_def)
qed

definition encoded :: "byte list \<Rightarrow> bool" where
  "encoded bs \<longleftrightarrow> (\<exists>cs. (\<forall>c \<in> set cs. scalar c) \<and> bs = concat (map utf8 cs))"

lemma encoded_Nil: "encoded []"
  unfolding encoded_def by (rule exI [of _ "[]"]) simp

lemma encoded_append: "scalar c \<Longrightarrow> encoded bs \<Longrightarrow> encoded (utf8 c @ bs)"
  unfolding encoded_def by (elim exE, rule exI [of _ "c # cs" for cs]) auto

lemma encoded_cases:
  assumes "encoded bs" and "bs \<noteq> []"
  shows "\<exists>c rest. scalar c \<and> encoded rest \<and> bs = utf8 c @ rest"
proof -
  obtain cs where cs: "\<forall>c \<in> set cs. scalar c" "bs = concat (map utf8 cs)"
    using assms(1) by (auto simp: encoded_def)
  with assms(2) obtain c cs' where "cs = c # cs'" by (cases cs) auto
  with cs show ?thesis
    by (intro exI [of _ c] exI [of _ "concat (map utf8 cs')"]) (auto simp: encoded_def)
qed

text \<open>A text that starts with a valid character is an encoding when the rest is one; any other is not.\<close>

lemma encoded_charlen:
  assumes "encoded bs" and "bs \<noteq> []"
  shows "charlen (hd bs) \<le> length bs \<and> valid_char (take (charlen (hd bs)) bs) \<and> encoded (drop (charlen (hd bs)) bs)"
proof -
  obtain d rest where d: "scalar d" "encoded rest" "bs = utf8 d @ rest"
    using encoded_cases [OF assms] by blast
  have "utf8 d \<noteq> []" by (simp add: utf8_def)
  with d utf8_charlen [OF d(1)] have "charlen (hd bs) = length (utf8 d)" by simp
  with d utf8_valid [OF d(1)] show ?thesis by simp
qed

lemma encoded_step:
  assumes "bs \<noteq> []" and "valid_char (take (charlen (hd bs)) bs)"
  shows "encoded bs \<longleftrightarrow> encoded (drop (charlen (hd bs)) bs)"
proof
  assume "encoded (drop (charlen (hd bs)) bs)"
  moreover obtain c where "scalar c" "take (charlen (hd bs)) bs = utf8 c" using assms(2) utf8_decode by blast
  ultimately show "encoded bs" using encoded_append [of c "drop (charlen (hd bs)) bs"] by (metis append_take_drop_id)
qed (use assms(1) encoded_charlen in blast)

text \<open>What follows the text in memory does not matter.\<close>

lemma UTF8_loop_encoded: "bs \<noteq> [] \<Longrightarrow> UTF8_loop (int (length bs)) (bs @ ts) = Inr (encoded bs)"
proof (induction bs rule: length_induct)
  case (1 bs)
  let ?n = "charlen (hd bs)"
  have n: "1 \<le> ?n" by (rule charlen_bounds)
  show ?case
  proof (cases "?n \<le> length bs \<and> valid_char (take ?n bs)")
    case True
    then have step: "UTF8_loop (int (length bs)) (bs @ ts) =
        (if ?n < length bs then UTF8_loop (int (length (drop ?n bs))) (drop ?n bs @ ts) else Inr True)"
      using 1(2) by (subst UTF8_loop.simps) (simp add: UTF8_char_validate_valid of_nat_diff)
    have enc: "encoded bs \<longleftrightarrow> encoded (drop ?n bs)"
      using 1(2) True encoded_step by blast
    show ?thesis
    proof (cases "?n < length bs")
      case lt: True
      with n have "length (drop ?n bs) < length bs" "drop ?n bs \<noteq> []" by simp_all
      with 1(1) have "UTF8_loop (int (length (drop ?n bs))) (drop ?n bs @ ts) = Inr (encoded (drop ?n bs))"
        by blast
      with lt step enc show ?thesis by simp
    next
      case False
      with step enc show ?thesis by (simp add: encoded_Nil)
    qed
  next
    case False
    with 1(2) have "\<not> encoded bs" using encoded_charlen by blast
    with False 1(2) show ?thesis
      by (subst UTF8_loop.simps) (auto simp: UTF8_char_validate_valid)
  qed
qed

lemma UTF8_validate_encoded:
  "UTF8_validate (int (length bs)) (Some (bs @ ts)) = Inr (if encoded bs then 1 else 0)"
  using UTF8_loop_encoded [of bs ts] encoded_Nil by (cases "bs = []") (simp_all add: UTF8_validate_def)

text \<open>
  C20: \<^verbatim>\<open>UTF8_validate\<close> always returns, and it accepts exactly the byte strings that are encodings
  of sequences of Unicode scalar values: overlong forms, surrogates and values above 10FFFF are
  refused. \<^verbatim>\<open>UTF8_validateString\<close> decides the same for a string of less than 2 GB, without reading
  past its terminating NUL.
\<close>
theorem UTF8_validate_correct:
  "UTF8_validate (int (length bs)) (Some bs) =
     Inr (if \<exists>cs. list_all scalar cs \<and> bs = concat (map utf8 cs) then 1 else 0) \<and>
   (length bs < 2 ^ 31 \<longrightarrow>
      UTF8_validateString (Some bs) = UTF8_validate (int (length bs)) (Some bs))"
proof -
  have enc: "encoded bs \<longleftrightarrow> (\<exists>cs. list_all scalar cs \<and> bs = concat (map utf8 cs))"
    by (simp add: encoded_def list_all_iff)
  have "(int (length bs) + 2 ^ 31) mod 2 ^ 32 - 2 ^ 31 = int (length bs)" if "length bs < 2 ^ 31"
    using that by simp
  with enc show ?thesis
    using UTF8_validate_encoded [of bs "[]"] UTF8_validate_encoded [of bs "[0]"]
    by (simp add: UTF8_validateString_def)
qed

theorem UTF8_validate_correct_witness:
  "UTF8_validateString (Some [0x41, 0xE2, 0x82, 0xAC]) = UTF8_validate 4 (Some [0x41, 0xE2, 0x82, 0xAC]) \<and>
   UTF8_validate 4 (Some [0x41, 0xE2, 0x82, 0xAC]) = Inr 1 \<and>
   UTF8_validate 2 (Some [0xC0, 0x80]) = Inr 0"
proof -
  have "UTF8_validate 4 (Some [0x41, 0xE2, 0x82, 0xAC]) = Inr 1" by code_simp
  moreover have "UTF8_validate 2 (Some [0xC0, 0x80]) = Inr 0" by code_simp
  ultimately show ?thesis
    using UTF8_validate_correct [of "[0x41, 0xE2, 0x82, 0xAC]"] by simp
qed

end
