(* ===== verification/Packet_Stream.thy ===== *)
theory Packet_Stream
  imports Packet_Out
begin

text \<open>
  Reading packets from a transport that may stop at any byte. \<^verbatim>\<open>MQTTPacket_Factory\<close> is called again
  when a read was interrupted, and starts from the header byte: the transport hands out what it
  has kept. The locale \<open>resumable\<close> states what the factory relies on, and it is shown once that
  calling it again yields the packets of the stream, in order, each exactly once; \<open>resumable_live\<close>
  adds what makes every packet arrive.
\<close>

section \<open>Reading with state\<close>

text \<open>\<^verbatim>\<open>MQTTPacket_decode\<close>: the value, or the code that ended it. \<open>k\<close> bytes are still allowed.\<close>

fun read_len :: "('s \<Rightarrow> ((int + byte) \<times> 's) res) \<Rightarrow> nat \<Rightarrow> nat \<Rightarrow> nat \<Rightarrow> 's \<Rightarrow> ((int + nat) \<times> 's) res" where
  "read_len getch 0 multiplier val s = Inr (Inl SOCKET_ERROR, s)"
| "read_len getch (Suc k) multiplier val s =
     bindR (getch s) (\<lambda>(r, s').
       case r of
         Inl rc \<Rightarrow> Inr (Inl rc, s')
       | Inr c \<Rightarrow>
           let val' = val + low7 c * multiplier in
           if goes_on c then read_len getch k (multiplier * 128) val' s' else Inr (Inr val', s'))"

datatype read_result = Frame byte "byte list" | Not_read int

text \<open>The buffer that \<^verbatim>\<open>WebSocket_getdata\<close> returns may hold indeterminate bytes.\<close>

definition body_of :: "nat \<Rightarrow> byte option list option \<Rightarrow> byte list res" where
  "body_of n buf =
     (if n = 0 then Inr []
      else case buf of
        None \<Rightarrow> Inl NullDeref
      | Some b \<Rightarrow> guardR OverRead (n \<le> length b) (guardR UninitRead (None \<notin> set (take n b)) (Inr (map the (take n b)))))"

definition read_frame ::
  "('s \<Rightarrow> ((int + byte) \<times> 's) res) \<Rightarrow> (nat \<Rightarrow> 's \<Rightarrow> ((byte option list option \<times> nat) \<times> 's) res)
    \<Rightarrow> 's \<Rightarrow> (read_result \<times> 's) res" where
  "read_frame getch getdata s =
     bindR (getch s) (\<lambda>(r, s1).
       case r of
         Inl rc \<Rightarrow> Inr (Not_read rc, s1)
       | Inr h \<Rightarrow>
           bindR (read_len getch 4 1 0 s1) (\<lambda>(r, s2).
             case r of
               Inl rc \<Rightarrow> Inr (Not_read rc, s2)
             | Inr n \<Rightarrow>
                 bindR (getdata n s2) (\<lambda>((data, actual_len), s3).
                   if n \<noteq> 0 \<and> data = None then Inr (Not_read SOCKET_ERROR, s3)
                   else if actual_len < n then Inr (Not_read TCPSOCKET_INTERRUPTED, s3)
                   else bindR (body_of n data) (\<lambda>body. Inr (Frame h body, s3)))))"

text \<open>\<^verbatim>\<open>MQTTPacket_Factory\<close> on a transport with state.\<close>

definition factory_read ::
  "(int \<Rightarrow> bool) \<Rightarrow> int \<Rightarrow> int \<Rightarrow> ('s \<Rightarrow> ((int + byte) \<times> 's) res)
    \<Rightarrow> (nat \<Rightarrow> 's \<Rightarrow> ((byte option list option \<times> nat) \<times> 's) res) \<Rightarrow> 's \<Rightarrow> ((int \<times> packet option) \<times> 's) res" where
  "factory_read alloc version persist getch getdata s =
     bindR (read_frame getch getdata s) (\<lambda>(r, s').
       case r of
         Not_read rc \<Rightarrow> Inr ((rc, None), s')
       | Frame h body \<Rightarrow>
           bindR (factory_packet alloc version persist h body (length body)) (\<lambda>p. Inr (p, s')))"

text \<open>The frames that \<open>k\<close> calls yield; a call that fails ends the reading.\<close>

fun read_frames :: "('s \<Rightarrow> (read_result \<times> 's) res) \<Rightarrow> nat \<Rightarrow> 's \<Rightarrow> ((byte \<times> byte list) list \<times> 's) res" where
  "read_frames rd 0 s = Inr ([], s)"
| "read_frames rd (Suc k) s =
     bindR (rd s) (\<lambda>(r, s').
       case r of
         Frame h body \<Rightarrow> bindR (read_frames rd k s') (\<lambda>(fs, s''). Inr ((h, body) # fs, s''))
       | Not_read rc \<Rightarrow> if rc = TCPSOCKET_INTERRUPTED then read_frames rd k s' else Inr ([], s'))"

definition wire_frames :: "(byte \<times> byte list) list \<Rightarrow> byte list" where
  "wire_frames fs = concat (map (\<lambda>(h, body). framed h body) fs)"

definition header_len :: "nat \<Rightarrow> nat" where
  "header_len n = Suc (length (MQTTPacket_encode n))"

lemma header_len_le: "n < 268435456 \<Longrightarrow> header_len n \<le> 5"
  using encode_length_bound [of n 4] by (simp add: header_len_def)

lemma framed_nth_0: "(framed h body @ more_bytes) ! 0 = h"
  by (simp add: framed_def)

lemma framed_drop: "drop (header_len (length body)) (framed h body @ more_bytes) = body @ more_bytes"
  by (simp add: framed_def header_len_def)

lemma framed_length: "length (framed h body) = header_len (length body) + length body"
  by (simp add: framed_def header_len_def)

section \<open>What the factory relies on\<close>

text \<open>
  \<open>stream s\<close> is what the transport still has to hand out, from the first byte of the packet that is
  being read; \<open>cursor s\<close> how many bytes the present call has taken of it; \<open>held l n s\<close> that what is
  kept of an interrupted read fits a packet with a header of \<open>l\<close> bytes and \<open>n\<close> more bytes.

  For progress, \<open>got s\<close> is the number of bytes kept, \<open>answers s\<close> how often the network is still
  going to answer, \<open>credit s\<close> how often with data, and \<open>calm s\<close> says that it never fails.
\<close>

locale resumable =
  fixes getch :: "'s \<Rightarrow> ((int + byte) \<times> 's) res"
    and getdata :: "nat \<Rightarrow> 's \<Rightarrow> ((byte option list option \<times> nat) \<times> 's) res"
    and inv :: "'s \<Rightarrow> bool"
    and stream :: "'s \<Rightarrow> byte list"
    and cursor :: "'s \<Rightarrow> nat"
    and held :: "nat \<Rightarrow> nat \<Rightarrow> 's \<Rightarrow> bool"
    and got :: "'s \<Rightarrow> nat"
    and credit :: "'s \<Rightarrow> nat"
    and answers :: "'s \<Rightarrow> nat"
    and calm :: "'s \<Rightarrow> bool"
  assumes getch_returns: "inv s \<Longrightarrow> held l n s \<Longrightarrow> cursor s < l \<Longrightarrow> \<exists>r s'. getch s = Inr (r, s')"
    and getch_byte: "inv s \<Longrightarrow> held l n s \<Longrightarrow> cursor s < l \<Longrightarrow> getch s = Inr (Inr c, s') \<Longrightarrow>
      inv s' \<and> held l n s' \<and> stream s' = stream s \<and> cursor s < length (stream s) \<and> c = stream s ! cursor s \<and>
      cursor s' = Suc (cursor s)"
    and getch_code: "inv s \<Longrightarrow> held l n s \<Longrightarrow> cursor s < l \<Longrightarrow> getch s = Inr (Inl rc, s') \<Longrightarrow>
      rc = TCPSOCKET_INTERRUPTED \<Longrightarrow> inv s' \<and> held l n s' \<and> stream s' = stream s \<and> cursor s' = 0"
    and getdata_returns: "inv s \<Longrightarrow> held l n s \<Longrightarrow> cursor s = l \<Longrightarrow> \<exists>b m s'. getdata n s = Inr ((b, m), s')"
    and getdata_done: "inv s \<Longrightarrow> held l n s \<Longrightarrow> cursor s = l \<Longrightarrow> getdata n s = Inr ((b, m), s') \<Longrightarrow>
      n = 0 \<or> b \<noteq> None \<Longrightarrow> \<not> m < n \<Longrightarrow>
      body_of n b = Inr (take n (drop l (stream s))) \<and> inv s' \<and> stream s' = drop (l + n) (stream s) \<and> cursor s' = 0 \<and>
      (\<forall>l' n'. l' \<le> 5 \<longrightarrow> n' < 268435456 \<longrightarrow> held l' n' s')"
    and getdata_partial: "inv s \<Longrightarrow> held l n s \<Longrightarrow> cursor s = l \<Longrightarrow> getdata n s = Inr ((b, m), s') \<Longrightarrow> b \<noteq> None \<Longrightarrow>
      m < n \<Longrightarrow> inv s' \<and> held l n s' \<and> stream s' = stream s \<and> cursor s' = 0"
    and getch_live: "inv s \<Longrightarrow> held l n s \<Longrightarrow> cursor s < l \<Longrightarrow> cursor s < length (stream s) \<Longrightarrow> getch s = Inr (r, s') \<Longrightarrow>
      calm s \<Longrightarrow> calm s' \<and> got s + credit s \<le> got s' + credit s' \<and> answers s' \<le> answers s \<and>
      (\<forall>rc. r = Inl rc \<longrightarrow> rc = TCPSOCKET_INTERRUPTED \<and> got s' < l \<and> (answers s' < answers s \<or> answers s' = 0))"
    and getdata_live: "inv s \<Longrightarrow> held l n s \<Longrightarrow> cursor s = l \<Longrightarrow> l + n \<le> length (stream s) \<Longrightarrow>
      getdata n s = Inr ((b, m), s') \<Longrightarrow> calm s \<Longrightarrow>
      calm s' \<and> b \<noteq> None \<and> answers s' \<le> answers s \<and>
      (if m < n then got s + credit s \<le> got s' + credit s' \<and> got s' < l + n \<and> (answers s' < answers s \<or> answers s' = 0)
       else got s + credit s \<le> l + n + credit s')"
    and credit_answers: "credit s \<le> answers s"
begin

text \<open>Between two reads of one call, and after a call that was interrupted.\<close>

definition lively :: "'s \<Rightarrow> 's \<Rightarrow> bool" where
  "lively s s' \<longleftrightarrow> (calm s \<longrightarrow> calm s' \<and> got s + credit s \<le> got s' + credit s' \<and> answers s' \<le> answers s)"

definition goes_to :: "nat \<Rightarrow> nat \<Rightarrow> 's \<Rightarrow> 's \<Rightarrow> bool" where
  "goes_to l n s s' \<longleftrightarrow> inv s' \<and> held l n s' \<and> stream s' = stream s \<and> lively s s'"

definition stops :: "nat \<Rightarrow> nat \<Rightarrow> 's \<Rightarrow> int \<Rightarrow> 's \<Rightarrow> bool" where
  "stops l n s rc s' \<longleftrightarrow>
     (rc = TCPSOCKET_INTERRUPTED \<longrightarrow> goes_to l n s s' \<and> cursor s' = 0) \<and>
     (calm s \<longrightarrow> rc = TCPSOCKET_INTERRUPTED \<and> got s' < l + n \<and> (answers s' < answers s \<or> answers s' = 0))"

lemma goes_to_trans: "goes_to l n s s' \<Longrightarrow> goes_to l n s' s'' \<Longrightarrow> goes_to l n s s''"
  by (auto simp: goes_to_def lively_def)

lemma stops_trans: "goes_to l n s s' \<Longrightarrow> stops l n s' rc s'' \<Longrightarrow> stops l n s rc s''"
  by (auto simp: goes_to_def lively_def stops_def)

lemma getch_cases:
  assumes "inv s" "held l n s" "cursor s < l" "cursor s < length (stream s)"
  shows "(\<exists>s'. getch s = Inr (Inr (stream s ! cursor s), s') \<and> goes_to l n s s' \<and> cursor s' = Suc (cursor s)) \<or>
         (\<exists>rc s'. getch s = Inr (Inl rc, s') \<and> stops l n s rc s')"
proof -
  obtain r s' where g: "getch s = Inr (r, s')" using getch_returns [OF assms(1-3)] by blast
  show ?thesis
  proof (cases r)
    case (Inl rc)
    then have "stops l n s rc s'"
      using getch_code [OF assms(1-3)] getch_live [OF assms g] g by (auto simp: stops_def goes_to_def lively_def)
    with g Inl show ?thesis by auto
  next
    case (Inr c)
    with getch_byte [OF assms(1-3)] getch_live [OF assms g] g show ?thesis by (auto simp: goes_to_def lively_def)
  qed
qed

lemma read_len_cases:
  assumes "v < 128 ^ k" "0 < k" "inv s" "held l n s" "l = cursor s + length (MQTTPacket_encode v)"
    and "drop (cursor s) (stream s) = MQTTPacket_encode v @ post"
  shows "(\<exists>s'. read_len getch k m a s = Inr (Inr (a + v * m), s') \<and> goes_to l n s s' \<and> cursor s' = l) \<or>
         (\<exists>rc s'. read_len getch k m a s = Inr (Inl rc, s') \<and> stops l n s rc s')"
  using assms
proof (induction k arbitrary: v s m a)
  case (Suc k)
  have lt: "cursor s < l" using Suc.prems(5) by simp
  have str: "cursor s < length (stream s)"
    using Suc.prems(6) by (metis append_is_Nil_conv drop_eq_Nil encode_not_Nil linorder_not_less)
  then have c: "stream s ! cursor s = hd (MQTTPacket_encode v)"
    using Suc.prems(6) by (metis encode_not_Nil hd_append2 hd_drop_conv_nth)
  show ?case
    using getch_cases [OF Suc.prems(3,4) lt str]
  proof (elim disjE exE conjE)
    fix rc s' assume "getch s = Inr (Inl rc, s')" "stops l n s rc s'"
    then show ?thesis by simp
  next
    fix s' assume s': "getch s = Inr (Inr (stream s ! cursor s), s')" "goes_to l n s s'" "cursor s' = Suc (cursor s)"
    then have i: "inv s'" "held l n s'" "stream s' = stream s" by (simp_all add: goes_to_def)
    show ?thesis
    proof (cases "v < 128")
      case True
      with s' c Suc.prems(5) show ?thesis by (simp add: encode_small byte_bits)
    next
      case False
      then have enc: "MQTTPacket_encode v = (word_of_nat (v mod 128) OR 0x80) # MQTTPacket_encode (v div 128)"
        by (simp add: encode_large)
      from False Suc.prems have k: "v div 128 < 128 ^ k" "0 < k"
        by (auto simp: less_mult_imp_div_less mult.commute intro: gr0I)
      have post: "drop (cursor s') (stream s') = MQTTPacket_encode (v div 128) @ post"
        using Suc.prems(6) s'(3) i(3) by (simp add: enc drop_Suc flip: tl_drop)
      have l: "l = cursor s' + length (MQTTPacket_encode (v div 128))"
        using Suc.prems(5) s'(3) by (simp add: enc)
      from Suc.IH [OF k i(1,2) l post, of "m * 128" "a + v mod 128 * m"] s' c show ?thesis
        by (auto simp: byte_bits enc div_mod_digits intro: goes_to_trans stops_trans)
    qed
  qed
qed simp

text \<open>The end of a call: the rest of the packet.\<close>

definition reads_frame :: "nat \<Rightarrow> byte list \<Rightarrow> 's \<Rightarrow> 's \<Rightarrow> bool" where
  "reads_frame len rest s s' \<longleftrightarrow> inv s' \<and> cursor s' = 0 \<and> stream s' = rest \<and> (\<forall>l n. l \<le> 5 \<longrightarrow> n < 268435456 \<longrightarrow> held l n s') \<and>
     (calm s \<longrightarrow> calm s' \<and> got s + credit s \<le> len + credit s' \<and> answers s' \<le> answers s)"

lemma getdata_cases:
  assumes "inv s" "held l n s" "cursor s = l" "stream s = head @ body @ rest" "length head = l" "length body = n"
    and d: "getdata n s = Inr ((b, m), s')"
  shows "n \<noteq> 0 \<and> b = None \<and> stops l n s SOCKET_ERROR s' \<or>
         m < n \<and> b \<noteq> None \<and> stops l n s TCPSOCKET_INTERRUPTED s' \<or>
         (n = 0 \<or> b \<noteq> None) \<and> \<not> m < n \<and> body_of n b = Inr body \<and> reads_frame (l + n) rest s s'"
proof -
  have "l + n \<le> length (stream s)" using assms(4-6) by simp
  note live = getdata_live [OF assms(1-3) this d]
  consider (null) "n \<noteq> 0" "b = None" | (part) "m < n" "b \<noteq> None" | (full) "n = 0 \<or> b \<noteq> None" "\<not> m < n"
    by linarith
  then show ?thesis
  proof cases
    case null
    with live show ?thesis by (auto simp: stops_def transport_codes)
  next
    case part
    with getdata_partial [OF assms(1-3) d] live show ?thesis by (auto simp: stops_def goes_to_def lively_def)
  next
    case full
    have "take n (drop l (stream s)) = body" "drop (l + n) (stream s) = rest"
      using assms(4-6) by simp_all
    with getdata_done [OF assms(1-3) d full] live full show ?thesis by (auto simp: reads_frame_def)
  qed
qed

text \<open>One call: the next packet of the stream, or an interruption, or another error.\<close>

lemma read_frame_cases:
  assumes "inv s" "cursor s = 0" "stream s = framed h body @ rest" "length body < 268435456"
    and "held (header_len (length body)) (length body) s"
  shows "(\<exists>s'. read_frame getch getdata s = Inr (Frame h body, s') \<and> reads_frame (length (framed h body)) rest s s') \<or>
         (\<exists>rc s'. read_frame getch getdata s = Inr (Not_read rc, s') \<and>
            stops (header_len (length body)) (length body) s rc s')"
    (is "?done \<or> ?not")
proof -
  let ?n = "length body"
  let ?l = "header_len ?n"
  let ?head = "h # MQTTPacket_encode ?n"
  have str: "stream s = ?head @ body @ rest" using assms(3) by (simp add: framed_def)
  have "cursor s < ?l" "cursor s < length (stream s)" using assms(2) str by (simp_all add: header_len_def)
  from getch_cases [OF assms(1,5) this] assms(2) str consider
      (code) rc s' where "getch s = Inr (Inl rc, s')" "stops ?l ?n s rc s'"
    | (byte) s1 where "getch s = Inr (Inr h, s1)" "goes_to ?l ?n s s1" "cursor s1 = 1"
    by auto
  then show ?thesis
  proof cases
    case code
    then show ?thesis by (simp add: read_frame_def)
  next
    case byte
    then have s1: "inv s1" "held ?l ?n s1" "stream s1 = ?head @ body @ rest" "?l = cursor s1 + length (MQTTPacket_encode ?n)"
      using str by (simp_all add: goes_to_def header_len_def)
    have post: "drop (cursor s1) (stream s1) = MQTTPacket_encode ?n @ body @ rest" using byte(3) s1(3) by simp
    have "?n < 128 ^ 4" using assms(4) by simp
    from read_len_cases [OF this _ s1(1,2,4) post, of 1 0] consider
        (code) rc s' where "read_len getch 4 1 0 s1 = Inr (Inl rc, s')" "stops ?l ?n s1 rc s'"
      | (len) s2 where "read_len getch 4 1 0 s1 = Inr (Inr ?n, s2)" "goes_to ?l ?n s1 s2" "cursor s2 = ?l"
      by auto
    then show ?thesis
    proof cases
      case code
      with byte stops_trans [OF byte(2)] show ?thesis by (simp add: read_frame_def)
    next
      case len
      then have s2: "inv s2" "held ?l ?n s2" "stream s2 = ?head @ body @ rest" "length ?head = ?l"
        using s1(3) by (simp_all add: goes_to_def header_len_def)
      have to: "goes_to ?l ?n s s2" using byte(2) len(2) by (rule goes_to_trans)
      obtain b m s3 where d: "getdata ?n s2 = Inr ((b, m), s3)" using getdata_returns [OF s2(1,2) len(3)] by blast
      have rd: "read_frame getch getdata s =
          (if ?n \<noteq> 0 \<and> b = None then Inr (Not_read SOCKET_ERROR, s3)
           else if m < ?n then Inr (Not_read TCPSOCKET_INTERRUPTED, s3)
           else bindR (body_of ?n b) (\<lambda>body. Inr (Frame h body, s3)))"
        using byte(1) len(1) d by (simp add: read_frame_def)
      have "reads_frame (?l + ?n) rest s s3" if "reads_frame (?l + ?n) rest s2 s3"
        using that to by (auto simp: reads_frame_def goes_to_def lively_def)
      with getdata_cases [OF s2(1,2) len(3) s2(3,4) refl d] rd stops_trans [OF to] show ?thesis
        by (auto simp: framed_length)
    qed
  qed
qed

text \<open>When nothing more is going to come, nothing is read.\<close>

lemma read_frame_empty:
  assumes "inv s" "cursor s = 0" "stream s = []" "held l n s" "0 < l"
  shows "\<exists>rc s'. read_frame getch getdata s = Inr (Not_read rc, s') \<and>
    (rc = TCPSOCKET_INTERRUPTED \<longrightarrow> inv s' \<and> cursor s' = 0 \<and> stream s' = [] \<and> held l n s')"
proof -
  have lt: "cursor s < l" using assms by simp
  obtain r s' where g: "getch s = Inr (r, s')" using getch_returns [OF assms(1,4) lt] by blast
  show ?thesis
  proof (cases r)
    case (Inl rc)
    with g getch_code [OF assms(1,4) lt, of rc s'] assms(3) show ?thesis by (auto simp: read_frame_def)
  next
    case (Inr c)
    with g getch_byte [OF assms(1,4) lt, of c s'] assms(3) show ?thesis by auto
  qed
qed

section \<open>Streams of packets\<close>

definition at_frames :: "(byte \<times> byte list) list \<Rightarrow> 's \<Rightarrow> bool" where
  "at_frames fs s \<longleftrightarrow> inv s \<and> cursor s = 0 \<and> stream s = wire_frames fs \<and>
     (\<forall>f \<in> set fs. length (snd f) < 268435456) \<and>
     (if fs = [] then \<exists>l n. 0 < l \<and> held l n s
      else held (header_len (length (snd (hd fs)))) (length (snd (hd fs))) s)"

lemma at_frames_next:
  assumes "at_frames ((h, body) # fs) s" "reads_frame len (wire_frames fs) s s'"
  shows "at_frames fs s'"
proof (cases fs)
  case Nil
  with assms show ?thesis by (auto simp: at_frames_def reads_frame_def intro!: exI [of _ 1])
next
  case (Cons f fs')
  with assms header_len_le [of "length (snd f)"] show ?thesis by (auto simp: at_frames_def reads_frame_def)
qed

lemma read_frame_at:
  assumes "at_frames ((h, body) # fs) s"
  shows "(\<exists>s'. read_frame getch getdata s = Inr (Frame h body, s') \<and> at_frames fs s' \<and>
            reads_frame (length (framed h body)) (wire_frames fs) s s') \<or>
         (\<exists>rc s'. read_frame getch getdata s = Inr (Not_read rc, s') \<and>
            stops (header_len (length body)) (length body) s rc s' \<and>
            (rc = TCPSOCKET_INTERRUPTED \<longrightarrow> at_frames ((h, body) # fs) s'))"
proof -
  have s: "inv s" "cursor s = 0" "stream s = framed h body @ wire_frames fs" "length body < 268435456"
    "held (header_len (length body)) (length body) s"
    using assms by (simp_all add: at_frames_def wire_frames_def)
  from read_frame_cases [OF s] at_frames_next [OF assms] assms show ?thesis
    by (fastforce simp: at_frames_def stops_def goes_to_def)
qed

lemma read_frame_end:
  assumes "at_frames [] s"
  shows "\<exists>rc s'. read_frame getch getdata s = Inr (Not_read rc, s') \<and> (rc = TCPSOCKET_INTERRUPTED \<longrightarrow> at_frames [] s')"
proof -
  obtain l n where "inv s" "cursor s = 0" "stream s = []" "held l n s" "0 < l"
    using assms by (auto simp: at_frames_def wire_frames_def)
  from read_frame_empty [OF this] \<open>0 < l\<close> show ?thesis
    by (fastforce simp: at_frames_def wire_frames_def)
qed

text \<open>The packets that any number of calls yields are the first ones of the stream, in order.\<close>

lemma read_frames_prefix:
  assumes "at_frames fs s"
  shows "\<exists>m s'. read_frames (read_frame getch getdata) k s = Inr (take m fs, s')"
  using assms
proof (induction k arbitrary: fs s)
  case 0
  then show ?case by (intro exI [of _ 0]) simp
next
  case (Suc k)
  have again: "\<exists>m s''. read_frames (read_frame getch getdata) (Suc k) s = Inr (take m fs, s'')"
    if "read_frame getch getdata s = Inr (Not_read rc, s')" "rc = TCPSOCKET_INTERRUPTED \<longrightarrow> at_frames fs s'" for rc s'
    using that Suc.IH [of fs s'] by (cases "rc = TCPSOCKET_INTERRUPTED") (auto intro: exI [of _ 0])
  show ?case
  proof (cases fs)
    case Nil
    with read_frame_end [of s] Suc.prems again show ?thesis by blast
  next
    case (Cons f fs')
    moreover obtain h body where f: "f = (h, body)" by fastforce
    ultimately consider (got) s' where "read_frame getch getdata s = Inr (Frame h body, s')" "at_frames fs' s'"
      | (not) rc s' where "read_frame getch getdata s = Inr (Not_read rc, s')" "rc = TCPSOCKET_INTERRUPTED \<longrightarrow> at_frames fs s'"
      using read_frame_at [of h body fs' s] Suc.prems by blast
    then show ?thesis
    proof cases
      case got
      with Suc.IH [of fs' s'] obtain m s'' where "read_frames (read_frame getch getdata) k s' = Inr (take m fs', s'')" by blast
      with got Cons f show ?thesis by (intro exI [of _ "Suc m"]) simp
    next
      case not
      then show ?thesis by (rule again)
    qed
  qed
qed

text \<open>
  When the network answers with data at least as often as there are bytes to come, all packets are
  read, by at most one call per answer and packet.
\<close>

lemma read_frames_all:
  assumes "at_frames fs s" "calm s" "length (wire_frames fs) \<le> got s + credit s" "answers s + length fs \<le> k"
  shows "\<exists>s'. read_frames (read_frame getch getdata) k s = Inr (fs, s')"
  using assms
proof (induction k arbitrary: fs s)
  case 0
  then show ?case by simp
next
  case (Suc k)
  show ?case
  proof (cases fs)
    case Nil
    with Suc.prems(1) read_frames_prefix [of fs s "Suc k"] show ?thesis by auto
  next
    case (Cons f fs')
    moreover obtain h body where f: "f = (h, body)" by fastforce
    moreover have len: "length (wire_frames fs) = length (framed h body) + length (wire_frames fs')"
      by (simp add: Cons f wire_frames_def)
    ultimately consider
        (got) s' where "read_frame getch getdata s = Inr (Frame h body, s')" "at_frames fs' s'"
          "reads_frame (length (framed h body)) (wire_frames fs') s s'"
      | (not) rc s' where "read_frame getch getdata s = Inr (Not_read rc, s')"
          "stops (header_len (length body)) (length body) s rc s'" "rc = TCPSOCKET_INTERRUPTED \<longrightarrow> at_frames fs s'"
      using read_frame_at [of h body fs' s] Suc.prems(1) by blast
    then show ?thesis
    proof cases
      case got
      have "length (wire_frames fs') \<le> got s' + credit s'" "calm s'" "answers s' \<le> answers s"
        using got(3) Suc.prems(2,3) len by (auto simp: reads_frame_def)
      with Suc.IH [OF got(2)] Suc.prems(4) Cons got(1) f show ?thesis by auto
    next
      case not
      have s': "rc = TCPSOCKET_INTERRUPTED" "calm s'" "got s + credit s \<le> got s' + credit s'"
        "got s' < length (framed h body)" "answers s' < answers s \<or> answers s' = 0"
        using not(2) Suc.prems(2) by (auto simp: stops_def goes_to_def lively_def framed_length)
      have "answers s' \<noteq> 0"
      proof
        assume "answers s' = 0"
        then have "credit s' = 0" using credit_answers [of s'] by simp
        with s'(3,4) Suc.prems(3) len show False by simp
      qed
      with s'(5) have "answers s' + length fs \<le> k" using Suc.prems(4) by simp
      with Suc.IH [of fs s'] s' not Suc.prems(3) show ?thesis by simp
    qed
  qed
qed

end

end
