(* ===== verification/Socket_Buffer.thy ===== *)
theory Socket_Buffer
  imports Mqtt_Prelude
begin

text \<open>
  \<^verbatim>\<open>SocketBuffer.c\<close>: what has been read of a packet when a read would block is kept, per socket, in
  a queue, and what is left of a packet when a write would block is kept as a pending write.

  The list of queues is a HOL list; that \<^verbatim>\<open>ListFindItem\<close> finds the first match whatever position it
  remembers is shown in \<open>Linked_List\<close>, and a socket has at most one queue. The buffer of a queue is
  a list of bytes, \<open>None\<close> where memory is indeterminate, or a null pointer.
\<close>

section \<open>State\<close>

record socket_queue =
  sq_socket :: int
  sq_index :: nat
  headerlen :: nat
  fixed_header :: "byte option list"
  buflen :: nat
  datalen :: nat
  sq_buf :: "byte option list option"

text \<open>\<open>frees\<close> tells which buffers the module owns; a buffer that was freed is \<open>None\<close>.\<close>

record pending_writes =
  pw_socket :: int
  pw_total :: nat
  pw_bytes :: nat
  pw_iovecs :: "byte list option list"
  pw_frees :: "bool list"

text \<open>The default queue: a null pointer, a structure whose fields are indeterminate, or a queue.\<close>

datatype def_ptr = Null_Queue | Raw_Queue | Queue socket_queue

record socket_buffers =
  def_queue :: def_ptr
  queues :: "socket_queue list"
  writes :: "pending_writes list"

definition deref_queue :: "def_ptr \<Rightarrow> socket_queue res" where
  "deref_queue d = (case d of Null_Queue \<Rightarrow> Inl NullDeref | Raw_Queue \<Rightarrow> Inl UninitRead | Queue q \<Rightarrow> Inr q)"

definition socketcompare :: "int \<Rightarrow> socket_queue \<Rightarrow> bool" where
  "socketcompare sock q \<longleftrightarrow> sq_socket q = sock"

definition find_queue :: "int \<Rightarrow> socket_buffers \<Rightarrow> nat option" where
  "find_queue sock st = first_index (socketcompare sock) (queues st)"

text \<open>The queue that serves a socket, in the list or by default, and storing it back.\<close>

definition get_queue :: "nat option \<Rightarrow> socket_buffers \<Rightarrow> socket_queue res" where
  "get_queue loc st = (case loc of None \<Rightarrow> deref_queue (def_queue st) | Some i \<Rightarrow> Inr (queues st ! i))"

definition put_queue :: "nat option \<Rightarrow> socket_queue \<Rightarrow> socket_buffers \<Rightarrow> socket_buffers" where
  "put_queue loc q st =
     (case loc of None \<Rightarrow> st\<lparr>def_queue := Queue q\<rparr> | Some i \<Rightarrow> st\<lparr>queues := (queues st)[i := q]\<rparr>)"

section \<open>Set-up and release\<close>

definition SocketBuffer_newDefQ :: "(int \<Rightarrow> bool) \<Rightarrow> socket_buffers \<Rightarrow> int \<times> socket_buffers" where
  "SocketBuffer_newDefQ al st =
     (if \<not> malloc_ok al 48 then (PAHO_MEMORY_ERROR, st\<lparr>def_queue := Null_Queue\<rparr>)
      else if \<not> malloc_ok al 1000 then (PAHO_MEMORY_ERROR, st\<lparr>def_queue := Raw_Queue\<rparr>)
      else (0, st\<lparr>def_queue := Queue \<lparr>sq_socket = 0, sq_index = 0, headerlen = 0, fixed_header = replicate 5 None,
                 buflen = 0, datalen = 0, sq_buf = Some (replicate 1000 None)\<rparr>\<rparr>))"

text \<open>\<^verbatim>\<open>SocketBuffer_initialize\<close>; the last component tells whether the list of queues could be allocated.\<close>

definition SocketBuffer_initialize :: "(int \<Rightarrow> bool) \<Rightarrow> int \<times> socket_buffers" where
  "SocketBuffer_initialize al =
     (let (rc, st) = SocketBuffer_newDefQ al \<lparr>def_queue = Null_Queue, queues = [], writes = []\<rparr> in
      if rc = 0 \<and> \<not> malloc_ok al 40 then (PAHO_MEMORY_ERROR, st) else (rc, st))"

definition SocketBuffer_freeDefQ :: "socket_buffers \<Rightarrow> socket_buffers res" where
  "SocketBuffer_freeDefQ st =
     guardR NullDeref (def_queue st \<noteq> Null_Queue)
       (guardR UninitRead (def_queue st \<noteq> Raw_Queue) (Inr (st\<lparr>def_queue := Null_Queue\<rparr>)))"

definition SocketBuffer_terminate :: "socket_buffers \<Rightarrow> socket_buffers res" where
  "SocketBuffer_terminate st = SocketBuffer_freeDefQ (st\<lparr>writes := [], queues := []\<rparr>)"

definition reset_queue :: "socket_queue \<Rightarrow> socket_queue" where
  "reset_queue q = q\<lparr>sq_socket := 0, sq_index := 0, headerlen := 0, datalen := 0\<rparr>"

definition pending_socketcompare :: "int \<Rightarrow> pending_writes \<Rightarrow> bool" where
  "pending_socketcompare sock pw \<longleftrightarrow> pw_socket pw = sock"

definition SocketBuffer_writeComplete :: "int \<Rightarrow> socket_buffers \<Rightarrow> int \<times> socket_buffers" where
  "SocketBuffer_writeComplete sock st =
     (case first_index (pending_socketcompare sock) (writes st) of
        None \<Rightarrow> (0, st)
      | Some i \<Rightarrow> (1, st\<lparr>writes := remove_nth i (writes st)\<rparr>))"

definition SocketBuffer_cleanup :: "int \<Rightarrow> socket_buffers \<Rightarrow> socket_buffers res" where
  "SocketBuffer_cleanup sock st0 =
     (let (_, st) = SocketBuffer_writeComplete sock st0;
          st1 = (case find_queue sock st of None \<Rightarrow> st | Some i \<Rightarrow> st\<lparr>queues := remove_nth i (queues st)\<rparr>) in
      bindR (deref_queue (def_queue st1)) (\<lambda>q.
        Inr (if sq_socket q = sock then st1\<lparr>def_queue := Queue (reset_queue q)\<rparr> else st1)))"

section \<open>Reading\<close>

text \<open>
  The buffer for the rest of a packet. The second result is the number of bytes already in it, the
  first the queue it belongs to: the caller reads into the buffer of that queue. When a queue with
  data has to grow, the new memory is assigned before the copy, which then copies the new memory
  onto itself: the data are lost.
\<close>

definition SocketBuffer_getQueuedData ::
  "(int \<Rightarrow> bool) \<Rightarrow> int \<Rightarrow> nat \<Rightarrow> socket_buffers \<Rightarrow> (nat option \<times> nat \<times> socket_buffers) res" where
  "SocketBuffer_getQueuedData al sock bytes st =
     (let loc = find_queue sock st in
      bindR (get_queue loc st) (\<lambda>q.
        let actual_len = (if loc = None then 0 else datalen q);
            old = (case sq_buf q of None \<Rightarrow> [] | Some b \<Rightarrow> b);
            q' = (if buflen q < bytes then
                    if 0 < datalen q then
                      if malloc_ok al (int bytes) then q\<lparr>sq_buf := Some (replicate bytes None), buflen := bytes\<rparr>
                      else q\<lparr>sq_buf := None\<rparr>
                    else
                      if malloc_ok al (int bytes)
                      then q\<lparr>sq_buf := Some (take bytes (old @ replicate bytes None)), buflen := bytes\<rparr>
                      else q\<lparr>sq_buf := None, buflen := bytes\<rparr>
                  else q) in
        Inr (loc, actual_len, put_queue loc q' st)))"

text \<open>The next character of the header read before, if any.\<close>

definition SocketBuffer_getQueuedChar :: "int \<Rightarrow> socket_buffers \<Rightarrow> (int \<times> byte option \<times> socket_buffers) res" where
  "SocketBuffer_getQueuedChar sock st =
     (case find_queue sock st of
        None \<Rightarrow> Inr (TCPSOCKET_INTERRUPTED, None, st)
      | Some i \<Rightarrow>
          let q = queues st ! i in
          if sq_index q < headerlen q then
            guardR OverRead (sq_index q < length (fixed_header q))
              (case fixed_header q ! sq_index q of
                 None \<Rightarrow> Inl UninitRead
               | Some c \<Rightarrow> Inr (TCPSOCKET_COMPLETE, Some c, put_queue (Some i) (q\<lparr>sq_index := Suc (sq_index q)\<rparr>) st))
          else if 4 < sq_index q then Inr (SOCKET_ERROR, None, st)
          else Inr (TCPSOCKET_INTERRUPTED, None, st))"

definition SocketBuffer_interrupted :: "(int \<Rightarrow> bool) \<Rightarrow> int \<Rightarrow> nat \<Rightarrow> socket_buffers \<Rightarrow> socket_buffers res" where
  "SocketBuffer_interrupted al sock actual_len st =
     (case find_queue sock st of
        Some i \<Rightarrow> Inr (put_queue (Some i) ((queues st ! i)\<lparr>sq_index := 0, datalen := actual_len\<rparr>) st)
      | None \<Rightarrow>
          bindR (deref_queue (def_queue st)) (\<lambda>q.
            let q' = q\<lparr>sq_socket := sock, sq_index := 0, datalen := actual_len\<rparr>;
                st1 = (if malloc_ok al 24 then st\<lparr>queues := queues st @ [q']\<rparr> else st) in
            Inr (snd (SocketBuffer_newDefQ al st1))))"

definition SocketBuffer_complete :: "int \<Rightarrow> socket_buffers \<Rightarrow> socket_buffers res" where
  "SocketBuffer_complete sock st =
     (case find_queue sock st of
        Some i \<Rightarrow>
          bindR (SocketBuffer_freeDefQ st) (\<lambda>st1.
            Inr (st1\<lparr>def_queue := Queue (reset_queue (queues st ! i)), queues := remove_nth i (queues st)\<rparr>))
      | None \<Rightarrow> bindR (deref_queue (def_queue st)) (\<lambda>q. Inr (st\<lparr>def_queue := Queue (reset_queue q)\<rparr>)))"

definition SocketBuffer_queueChar :: "int \<Rightarrow> byte \<Rightarrow> socket_buffers \<Rightarrow> socket_buffers res" where
  "SocketBuffer_queueChar sock c st =
     (let add = (\<lambda>loc q err.
            if 4 < sq_index q \<or> err then Inr (put_queue loc q st)
            else guardR OverWrite (sq_index q < length (fixed_header q))
              (Inr (put_queue loc (q\<lparr>fixed_header := (fixed_header q)[sq_index q := Some c],
                  sq_index := Suc (sq_index q), headerlen := Suc (sq_index q)\<rparr>) st))) in
      case find_queue sock st of
        Some i \<Rightarrow> add (Some i) (queues st ! i) False
      | None \<Rightarrow>
          bindR (deref_queue (def_queue st)) (\<lambda>q.
            if sq_socket q = 0 then add None (q\<lparr>sq_socket := sock, sq_index := 0, datalen := 0\<rparr>) False
            else add None q (sq_socket q \<noteq> sock)))"

section \<open>Writing\<close>

definition SocketBuffer_pendingWrite ::
  "(int \<Rightarrow> bool) \<Rightarrow> int \<Rightarrow> byte list option list \<Rightarrow> bool list \<Rightarrow> nat \<Rightarrow> nat \<Rightarrow> socket_buffers \<Rightarrow> int \<times> socket_buffers" where
  "SocketBuffer_pendingWrite al sock iovecs frees tot bytes st =
     (if \<not> malloc_ok al 128 then (PAHO_MEMORY_ERROR, st)
      else if \<not> malloc_ok al 24 then (0, st)
      else (0, st\<lparr>writes := writes st @ [\<lparr>pw_socket = sock, pw_total = tot, pw_bytes = bytes,
                 pw_iovecs = iovecs, pw_frees = frees\<rparr>]\<rparr>))"

definition SocketBuffer_getWrite :: "int \<Rightarrow> socket_buffers \<Rightarrow> nat option" where
  "SocketBuffer_getWrite sock st = first_index (pending_socketcompare sock) (writes st)"

text \<open>The topic and payload of a QoS 0 write now belong to a stored publication.\<close>

definition SocketBuffer_updateWrite ::
  "int \<Rightarrow> byte list \<Rightarrow> byte list \<Rightarrow> socket_buffers \<Rightarrow> nat option \<times> socket_buffers" where
  "SocketBuffer_updateWrite sock topic payload st =
     (case SocketBuffer_getWrite sock st of
        None \<Rightarrow> (None, st)
      | Some i \<Rightarrow>
          let pw = writes st ! i in
          (Some i, if length (pw_iovecs pw) = 4
            then st\<lparr>writes := (writes st)[i := pw\<lparr>pw_iovecs := (pw_iovecs pw)[2 := Some topic, 3 := Some payload]\<rparr>]\<rparr>
            else st))"

end
