(* ===== verification/Socket_Io.thy ===== *)
theory Socket_Io
  imports Socket_Buffer
begin

text \<open>
  \<^verbatim>\<open>Socket.c\<close>: reading and writing on non-blocking sockets, and the choice of the next socket that is
  ready. What the operating system answers is part of the state: for each socket the bytes the peer
  sends, in order, and what each call of \<^verbatim>\<open>recv\<close> and \<^verbatim>\<open>writev\<close> finds. The build is the one without
  OpenSSL (\<^verbatim>\<open>libpaho-mqtt3a\<close>).
\<close>

section \<open>The operating system\<close>

text \<open>
  A call finds room or data for at most so many bytes (none: it would block), the peer has closed
  the connection, or it fails with an error.
\<close>

datatype arrival = Avail nat | Closed | Failed int

definition EAGAIN :: int where "EAGAIN = 11"
definition EWOULDBLOCK :: int where "EWOULDBLOCK = 11"
definition EFAULT :: int where "EFAULT = 14"
definition EPIPE :: int where "EPIPE = 32"

record peer =
  incoming :: "byte list"
  arrivals :: "arrival list"
  room :: "arrival list"
  sent :: "byte list"

datatype recv_result = Received "byte list" | Recv_error int

text \<open>When nothing more is said about a socket its calls would block.\<close>

fun recv :: "nat \<Rightarrow> peer \<Rightarrow> recv_result \<times> peer" where
  "recv n p =
     (case arrivals p of
        [] \<Rightarrow> (Recv_error EAGAIN, p)
      | Avail k # as \<Rightarrow>
          let m = min n (min k (length (incoming p))) in
          if m = 0 then (Recv_error EAGAIN, p\<lparr>arrivals := as\<rparr>)
          else (Received (take m (incoming p)), p\<lparr>arrivals := as, incoming := drop m (incoming p)\<rparr>)
      | Closed # as \<Rightarrow> (Received [], p\<lparr>arrivals := as\<rparr>)
      | Failed e # as \<Rightarrow> (Recv_error e, p\<lparr>arrivals := as\<rparr>))"

datatype writev_result = Written nat | Write_error int

fun writev :: "byte list \<Rightarrow> peer \<Rightarrow> writev_result \<times> peer" where
  "writev bs p =
     (case room p of
        [] \<Rightarrow> (Write_error EAGAIN, p)
      | Avail k # rs \<Rightarrow>
          let m = min k (length bs) in
          if m = 0 \<and> bs \<noteq> [] then (Write_error EAGAIN, p\<lparr>room := rs\<rparr>)
          else (Written m, p\<lparr>room := rs, sent := sent p @ take m bs\<rparr>)
      | Closed # rs \<Rightarrow> (Write_error EPIPE, p\<lparr>room := rs\<rparr>)
      | Failed e # rs \<Rightarrow> (Write_error e, p\<lparr>room := rs\<rparr>))"

declare recv.simps [simp del] writev.simps [simp del]

section \<open>State\<close>

text \<open>
  A list of distinct sockets with the position \<^verbatim>\<open>LinkedList.c\<close> remembers. A search that succeeds moves
  the position to what it found; a removal puts back the position it found, or moves it to the
  successor when that element was removed.
\<close>

record 'a pending_list =
  items :: "'a list"
  current_item :: "'a option"

definition from_item :: "'a option \<Rightarrow> 'a list \<Rightarrow> 'a list" where
  "from_item c xs = (case c of None \<Rightarrow> [] | Some x \<Rightarrow> dropWhile (\<lambda>y. y \<noteq> x) xs)"

definition head_item :: "'a list \<Rightarrow> 'a option" where
  "head_item xs = (case xs of [] \<Rightarrow> None | x # _ \<Rightarrow> Some x)"

definition find_item :: "'a \<Rightarrow> 'a pending_list \<Rightarrow> bool \<times> 'a pending_list" where
  "find_item x l = (if x \<in> set (items l) then (True, l\<lparr>current_item := Some x\<rparr>) else (False, l))"

definition remove_item :: "'a \<Rightarrow> 'a pending_list \<Rightarrow> bool \<times> 'a pending_list" where
  "remove_item x l =
     (if x \<in> set (items l) then
        (True, l\<lparr>items := remove1 x (items l),
                 current_item := (if current_item l = Some x then head_item (tl (from_item (Some x) (items l)))
                                  else current_item l)\<rparr>)
      else (False, l))"

text \<open>
  \<^verbatim>\<open>mod_s\<close> with the module \<^verbatim>\<open>SocketBuffer\<close>. The iterator \<^verbatim>\<open>cur_clientsds\<close> is named by the socket it points
  to, since \<^verbatim>\<open>clientsds\<close> holds each socket once. \<open>released\<close> collects the write buffers that were freed,
  \<open>completed\<close> the calls of the write-complete callback.
\<close>

record sockets =
  buffers :: socket_buffers
  clientsds :: "int list"
  cur_clientsds :: "int option"
  connect_pending :: "int list"
  write_pending :: "int pending_list"
  pending_wset :: "int list"
  rset :: "int list"
  rset_saved :: "int list"
  wset :: "int list"
  maxfdp1 :: int
  peers :: "int \<Rightarrow> peer"
  released :: "byte list list"
  completed :: "(int \<times> int) list"

definition set_peer :: "int \<Rightarrow> peer \<Rightarrow> sockets \<Rightarrow> sockets" where
  "set_peer sock p st = st\<lparr>peers := (peers st)(sock := p)\<rparr>"

definition FD_SET :: "int \<Rightarrow> int list \<Rightarrow> int list" where "FD_SET s fds = List.insert s fds"
definition FD_CLR :: "int \<Rightarrow> int list \<Rightarrow> int list" where "FD_CLR s fds = removeAll s fds"
definition FD_ISSET :: "int \<Rightarrow> int list \<Rightarrow> bool" where "FD_ISSET s fds \<longleftrightarrow> s \<in> set fds"
definition FD_SETSIZE :: int where "FD_SETSIZE = 1024"

section \<open>Reading\<close>

text \<open>One byte, or a code other than \<^verbatim>\<open>TCPSOCKET_COMPLETE\<close>.\<close>

definition Socket_getch :: "(int \<Rightarrow> bool) \<Rightarrow> int \<Rightarrow> sockets \<Rightarrow> ((int + byte) \<times> sockets) res" where
  "Socket_getch al sock st =
     bindR (SocketBuffer_getQueuedChar sock (buffers st)) (\<lambda>(rc, c, b).
       if rc \<noteq> TCPSOCKET_INTERRUPTED then
         Inr (case c of Some ch \<Rightarrow> Inr ch | None \<Rightarrow> Inl rc, st\<lparr>buffers := b\<rparr>)
       else
         case recv 1 (peers st sock) of (r, p) \<Rightarrow>
           let st1 = set_peer sock p (st\<lparr>buffers := b\<rparr>) in
           case r of
             Recv_error err \<Rightarrow>
               if err = EWOULDBLOCK \<or> err = EAGAIN then
                 bindR (SocketBuffer_interrupted al sock 0 b) (\<lambda>b'. Inr (Inl TCPSOCKET_INTERRUPTED, st1\<lparr>buffers := b'\<rparr>))
               else Inr (Inl SOCKET_ERROR, st1)
           | Received [] \<Rightarrow> Inr (Inl SOCKET_ERROR, st1)
           | Received (ch # _) \<Rightarrow>
               bindR (SocketBuffer_queueChar sock ch b) (\<lambda>b'. Inr (Inr ch, st1\<lparr>buffers := b'\<rparr>)))"

text \<open>
  \<^verbatim>\<open>Socket_getdata\<close>: the buffer that is returned (\<open>None\<close> for null), \<^verbatim>\<open>actual_len\<close>, which the caller has set
  to 0, and what is assigned to \<^verbatim>\<open>*rc\<close>, if anything: the result of \<^verbatim>\<open>recv\<close> or the error. Reading into a null
  buffer fails with \<^verbatim>\<open>EFAULT\<close>.
\<close>

definition recv_into :: "byte option list option \<Rightarrow> nat \<Rightarrow> peer \<Rightarrow> recv_result \<times> peer" where
  "recv_into buf n p =
     (case recv n p of
        (Received (b # bs), p') \<Rightarrow> if buf = None then (Recv_error EFAULT, p) else (Received (b # bs), p')
      | rp \<Rightarrow> rp)"

definition finish_read ::
  "(int \<Rightarrow> bool) \<Rightarrow> int \<Rightarrow> nat \<Rightarrow> nat \<Rightarrow> sockets \<Rightarrow> sockets res" where
  "finish_read al sock bytes actual_len st =
     bindR (if actual_len = bytes then SocketBuffer_complete sock (buffers st)
            else SocketBuffer_interrupted al sock actual_len (buffers st))
       (\<lambda>b. Inr (st\<lparr>buffers := b\<rparr>))"

definition Socket_getdata_rc ::
  "(int \<Rightarrow> bool) \<Rightarrow> int \<Rightarrow> nat \<Rightarrow> sockets \<Rightarrow> ((byte option list option \<times> nat \<times> int option) \<times> sockets) res" where
  "Socket_getdata_rc al sock bytes st =
     (if bytes = 0 then
        bindR (SocketBuffer_complete sock (buffers st)) (\<lambda>b.
          bindR (deref_queue (def_queue b)) (\<lambda>q. Inr ((sq_buf q, 0, None), st\<lparr>buffers := b\<rparr>)))
      else
        bindR (SocketBuffer_getQueuedData al sock bytes (buffers st)) (\<lambda>(loc, actual_len, b).
        bindR (get_queue loc b) (\<lambda>q.
          case recv_into (sq_buf q) (bytes - actual_len) (peers st sock) of (r, p) \<Rightarrow>
            let st1 = set_peer sock p (st\<lparr>buffers := b\<rparr>) in
            case r of
              Recv_error err \<Rightarrow>
                if err \<noteq> EAGAIN \<and> err \<noteq> EWOULDBLOCK then Inr ((None, actual_len, Some err), st1)
                else bindR (finish_read al sock bytes actual_len st1) (\<lambda>st2. Inr ((sq_buf q, actual_len, Some err), st2))
            | Received [] \<Rightarrow> Inr ((None, actual_len, Some 0), st1)
            | Received (c # cs) \<Rightarrow>
                (let n = actual_len + length (c # cs); old = the (sq_buf q);
                     new = take actual_len old @ map Some (c # cs) @ drop n old in
                 guardR OverWrite (n \<le> length old)
                   (bindR (finish_read al sock bytes n (st1\<lparr>buffers := put_queue loc (q\<lparr>sq_buf := Some new\<rparr>) b\<rparr>))
                     (\<lambda>st2. Inr ((Some new, n, Some (int (length (c # cs)))), st2)))))))"

text \<open>A packet is read through \<^verbatim>\<open>WebSocket_getdata\<close>, which drops the code.\<close>

definition Socket_getdata ::
  "(int \<Rightarrow> bool) \<Rightarrow> int \<Rightarrow> nat \<Rightarrow> sockets \<Rightarrow> ((byte option list option \<times> nat) \<times> sockets) res" where
  "Socket_getdata al sock bytes st =
     bindR (Socket_getdata_rc al sock bytes st) (\<lambda>((buf, actual_len, rc), st'). Inr ((buf, actual_len), st'))"

section \<open>Writing\<close>

definition Socket_noPendingWrites :: "int \<Rightarrow> sockets \<Rightarrow> bool \<times> sockets" where
  "Socket_noPendingWrites sock st =
     (let (found, l) = find_item sock (write_pending st) in (\<not> found, st\<lparr>write_pending := l\<rparr>))"

text \<open>The code and the number of bytes written; a freed buffer may not be written.\<close>

definition Socket_writev :: "int \<Rightarrow> byte list option list \<Rightarrow> sockets \<Rightarrow> (int \<times> nat \<times> sockets) res" where
  "Socket_writev sock iovecs st =
     guardR UseAfterFree (None \<notin> set iovecs)
       (case writev (concat (map the iovecs)) (peers st sock) of
          (Written n, p) \<Rightarrow> Inr (int n, n, set_peer sock p st)
        | (Write_error err, p) \<Rightarrow>
            Inr (if err = EWOULDBLOCK \<or> err = EAGAIN then TCPSOCKET_INTERRUPTED else SOCKET_ERROR, 0, set_peer sock p st))"

text \<open>
  \<^verbatim>\<open>PacketBuffers\<close>: the buffers and whether each is owned by the module when the write is interrupted.
  A failure to store the pending write is not noticed.
\<close>

type_synonym packet_buffers = "(byte list \<times> bool) list"

definition Socket_putdatas ::
  "(int \<Rightarrow> bool) \<Rightarrow> int \<Rightarrow> byte list \<Rightarrow> packet_buffers \<Rightarrow> sockets \<Rightarrow> (int \<times> sockets) res" where
  "Socket_putdatas al sock buf0 bufs st =
     (case Socket_noPendingWrites sock st of
        (free, st0) \<Rightarrow>
          if \<not> free then Inr (SOCKET_ERROR, st0)
          else guardR OverWrite (length bufs < 5)
            (let tot = length buf0 + sum_list (map (length \<circ> fst) bufs);
                 iovecs = Some buf0 # map (Some \<circ> fst) bufs; frees1 = True # map snd bufs in
             bindR (Socket_writev sock iovecs st0) (\<lambda>(rc, bytes, st1).
               if rc = SOCKET_ERROR then Inr (SOCKET_ERROR, st1)
               else if bytes = tot then Inr (TCPSOCKET_COMPLETE, st1)
               else if \<not> malloc_ok al 4 then Inr (PAHO_MEMORY_ERROR, st1)
               else
                 let st2 = st1\<lparr>buffers := snd (SocketBuffer_pendingWrite al sock iovecs frees1 tot bytes (buffers st1))\<rparr> in
                 if \<not> malloc_ok al 24 then Inr (PAHO_MEMORY_ERROR, st2)
                 else Inr (TCPSOCKET_INTERRUPTED,
                   st2\<lparr>write_pending := (write_pending st2)\<lparr>items := items (write_pending st2) @ [sock]\<rparr>,
                       pending_wset := FD_SET sock (pending_wset st2)\<rparr>))))"

definition Socket_addPendingWrite :: "int \<Rightarrow> sockets \<Rightarrow> sockets" where
  "Socket_addPendingWrite sock st = st\<lparr>pending_wset := FD_SET sock (pending_wset st)\<rparr>"

definition Socket_clearPendingWrite :: "int \<Rightarrow> sockets \<Rightarrow> sockets" where
  "Socket_clearPendingWrite sock st =
     (if FD_ISSET sock (pending_wset st) then st\<lparr>pending_wset := FD_CLR sock (pending_wset st)\<rparr> else st)"

text \<open>
  The buffers of a continued write: \<open>b\<close> bytes were written, \<open>cur\<close> is the length of the buffers passed.
  After a buffer that was written in part no other is added.
\<close>

fun continue_bufs :: "nat \<Rightarrow> nat \<Rightarrow> byte list list \<Rightarrow> byte list list" where
  "continue_bufs b cur [] = []"
| "continue_bufs b cur (v # vs) =
     (if b \<le> cur then v # continue_bufs b (cur + length v) vs
      else if b < cur + length v then [drop (b - cur) v]
      else continue_bufs b (cur + length v) vs)"

text \<open>Releasing the buffers of a pending write that the module owns.\<close>

definition owned :: "pending_writes \<Rightarrow> byte list list" where
  "owned pw = map (the \<circ> fst) (filter (\<lambda>(v, f). f \<and> v \<noteq> None) (zip (pw_iovecs pw) (pw_frees pw)))"

definition free_owned :: "pending_writes \<Rightarrow> pending_writes" where
  "free_owned pw = pw\<lparr>pw_iovecs := map (\<lambda>(v, f). if f then None else v) (zip (pw_iovecs pw) (pw_frees pw))\<rparr>"

definition put_write :: "nat \<Rightarrow> pending_writes \<Rightarrow> sockets \<Rightarrow> sockets" where
  "put_write i pw st = st\<lparr>buffers := (buffers st)\<lparr>writes := (writes (buffers st))[i := pw]\<rparr>\<rparr>"

definition Socket_continueWrite :: "int \<Rightarrow> sockets \<Rightarrow> (int \<times> sockets) res" where
  "Socket_continueWrite sock st =
     (case SocketBuffer_getWrite sock (buffers st) of
        None \<Rightarrow> Inl NullDeref
      | Some i \<Rightarrow>
          let pw = writes (buffers st) ! i in
          guardR UseAfterFree (None \<notin> set (pw_iovecs pw))
            (let iovecs1 = map Some (continue_bufs (pw_bytes pw) 0 (map the (pw_iovecs pw))) in
             bindR (Socket_writev sock iovecs1 st) (\<lambda>(rc, bytes, st1).
               if rc = SOCKET_ERROR then
                 Inr (SOCKET_ERROR, (put_write i (free_owned pw) st1)\<lparr>released := released st1 @ owned pw\<rparr>)
               else
                 let pw1 = pw\<lparr>pw_bytes := pw_bytes pw + bytes\<rparr> in
                 if pw_bytes pw1 = pw_total pw1 then
                   Inr (1, (put_write i (free_owned pw1) st1)\<lparr>released := released st1 @ owned pw1\<rparr>)
                 else Inr (0, put_write i pw1 st1))))"

definition Socket_abortWrite :: "int \<Rightarrow> sockets \<Rightarrow> int \<times> sockets" where
  "Socket_abortWrite sock st =
     (case SocketBuffer_getWrite sock (buffers st) of
        None \<Rightarrow> (0, st)
      | Some i \<Rightarrow> (0, st\<lparr>released := released st @ owned (writes (buffers st) ! i)\<rparr>))"

lemma remove_item_less:
  "x \<in> set (items l) \<Longrightarrow> length (items (snd (remove_item x l))) < length (items l)"
  using length_pos_if_in_set [of x "items l"] by (simp add: remove_item_def length_remove1)

lemma Socket_writev_pending: "Socket_writev sock v st = Inr (rc, n, st') \<Longrightarrow> write_pending st' = write_pending st"
  by (auto simp: Socket_writev_def set_peer_def res_simps split: prod.splits writev_result.splits)

lemma Socket_continueWrite_pending:
  "Socket_continueWrite sock st = Inr (rc, st') \<Longrightarrow> write_pending st' = write_pending st"
  by (auto simp: Socket_continueWrite_def Let_def put_write_def res_simps
      split: option.splits if_splits dest: Socket_writev_pending)

text \<open>
  \<^verbatim>\<open>Socket_continueWrites\<close>: \<open>todo\<close> is what the loop has still in front of it, from \<^verbatim>\<open>curpending\<close> on. After
  a removal the loop goes on where the list remembers its position. What is left of the loop is always
  part of the list, which the guard repeats so that the loop is seen to end.
\<close>

function continue_loop :: "int list \<Rightarrow> int list \<Rightarrow> sockets \<Rightarrow> sockets res" where
  "continue_loop pwset [] st = Inr st"
| "continue_loop pwset (sock # todo) st =
     (if FD_ISSET sock pwset \<and> sock \<in> set (items (write_pending st)) then
        bindR (Socket_continueWrite sock st) (\<lambda>(rc, st1).
          if rc = 0 then continue_loop pwset todo st1
          else
            let l = snd (remove_item sock (write_pending st1)) in
            continue_loop pwset (from_item (current_item l) (items l))
              (st1\<lparr>buffers := snd (SocketBuffer_writeComplete sock (buffers st1)),
                   pending_wset := FD_CLR sock (pending_wset st1), write_pending := l,
                   completed := completed st1 @ [(sock, rc)]\<rparr>))
      else continue_loop pwset todo st)"
  by pat_completeness auto
termination
  by (relation "measures [\<lambda>(_, _, st). length (items (write_pending st)), \<lambda>(_, todo, _). length todo]")
    (auto simp: remove_item_less dest!: Socket_continueWrite_pending)

declare continue_loop.simps [simp del]

definition Socket_continueWrites :: "int list \<Rightarrow> sockets \<Rightarrow> (int \<times> sockets) res" where
  "Socket_continueWrites pwset st =
     bindR (continue_loop pwset (items (write_pending st)) st) (\<lambda>st'. Inr (0, st'))"

section \<open>The sockets in use\<close>

text \<open>\<open>nonblocking\<close> is the result of \<^verbatim>\<open>Socket_setnonblocking\<close>.\<close>

definition Socket_addSocket :: "(int \<Rightarrow> bool) \<Rightarrow> int \<Rightarrow> int \<Rightarrow> sockets \<Rightarrow> int \<times> sockets" where
  "Socket_addSocket al nonblocking newSd st =
     (if newSd \<in> set (clientsds st) then (0, st)
      else if FD_SETSIZE \<le> int (length (clientsds st)) then (SOCKET_ERROR, st)
      else if \<not> malloc_ok al 4 \<or> \<not> malloc_ok al 24 then (PAHO_MEMORY_ERROR, st)
      else (nonblocking, st\<lparr>clientsds := clientsds st @ [newSd], rset_saved := FD_SET newSd (rset_saved st),
              maxfdp1 := max (maxfdp1 st) (newSd + 1)\<rparr>))"

definition isReady :: "int \<Rightarrow> int list \<Rightarrow> int list \<Rightarrow> sockets \<Rightarrow> bool \<times> sockets" where
  "isReady sock read_set write_set st =
     (if sock \<in> set (connect_pending st) \<and> FD_ISSET sock write_set then
        (True, st\<lparr>connect_pending := remove1 sock (connect_pending st)\<rparr>)
      else if FD_ISSET sock read_set \<and> FD_ISSET sock write_set then Socket_noPendingWrites sock st
      else (False, st))"

text \<open>The first ready socket in front of the iterator, and what comes from it on.\<close>

fun scan_ready :: "int list \<Rightarrow> sockets \<Rightarrow> int list \<times> sockets" where
  "scan_ready [] st = ([], st)"
| "scan_ready (sock # todo) st =
     (let (ready, st') = isReady sock (rset st) (wset st) st in
      if ready then (sock # todo, st') else scan_ready todo st')"

text \<open>
  \<^verbatim>\<open>Socket_getReadySocket\<close>: \<open>sel1\<close> is the result of the first \<^verbatim>\<open>select\<close> with the sockets that can be read and
  those of \<^verbatim>\<open>pending_wset\<close> that can be written, \<open>sel2\<close> that of the second with the sockets that can be
  written.
\<close>

definition take_ready :: "int list \<Rightarrow> sockets \<Rightarrow> int \<times> sockets" where
  "take_ready todo st =
     (case todo of
        [] \<Rightarrow> (0, st\<lparr>cur_clientsds := None\<rparr>)
      | sock # rest \<Rightarrow> (sock, st\<lparr>cur_clientsds := head_item rest\<rparr>))"

definition Socket_getReadySocket ::
  "int \<times> int list \<times> int list \<Rightarrow> int \<times> int list \<Rightarrow> sockets \<Rightarrow> (int \<times> sockets) res" where
  "Socket_getReadySocket sel1 sel2 st =
     (if clientsds st = [] then Inr (0, st)
      else case scan_ready (from_item (cur_clientsds st) (clientsds st)) st of (todo, st1) \<Rightarrow>
        if todo \<noteq> [] then Inr (take_ready todo st1)
        else case sel1 of (rc, readable, pwset) \<Rightarrow>
          let st2 = st1\<lparr>cur_clientsds := None, rset := readable\<rparr> in
          if rc = SOCKET_ERROR then Inr (rc, st2\<lparr>rset := rset_saved st1\<rparr>)
          else bindR (Socket_continueWrites pwset st2) (\<lambda>(rc', st3).
            if rc' = SOCKET_ERROR then Inr (0, st3)
            else case sel2 of (rc1, writable) \<Rightarrow>
              if rc1 = SOCKET_ERROR then Inr (rc1, st3\<lparr>wset := rset_saved st3\<rparr>)
              else let st4 = st3\<lparr>wset := writable\<rparr> in
                if rc = 0 \<and> rc1 = 0 then Inr (0, st4)
                else case scan_ready (clientsds st4) st4 of (todo', st5) \<Rightarrow> Inr (take_ready todo' st5)))"

definition Socket_close :: "int \<Rightarrow> sockets \<Rightarrow> sockets res" where
  "Socket_close sock st =
     (let st1 = Socket_clearPendingWrite sock (st\<lparr>rset_saved := FD_CLR sock (rset_saved st)\<rparr>);
          st2 = (if cur_clientsds st1 = Some sock
                 then st1\<lparr>cur_clientsds := head_item (tl (from_item (Some sock) (clientsds st1)))\<rparr> else st1);
          st3 = snd (Socket_abortWrite sock st2) in
      bindR (SocketBuffer_cleanup sock (buffers st3)) (\<lambda>b.
        let st4 = st3\<lparr>buffers := b, connect_pending := remove1 sock (connect_pending st3),
                      write_pending := snd (remove_item sock (write_pending st3)),
                      clientsds := remove1 sock (clientsds st3)\<rparr> in
        Inr (if maxfdp1 st4 \<le> sock + 1 then st4\<lparr>maxfdp1 := fold max (clientsds st4) 0 + 1\<rparr> else st4)))"

end
