(* ===== verification/Socket_Stream.thy ===== *)
theory Socket_Stream
  imports Packet_Stream Socket_Io
begin

text \<open>
  Reading packets from sockets: \<^verbatim>\<open>Socket_getch\<close> and \<^verbatim>\<open>Socket_getdata\<close> with the queues of
  \<^verbatim>\<open>SocketBuffer.c\<close> are a resumable transport. Shown: whatever the network does, the packets read from
  a socket are those the peer sent, in order and complete; and they all arrive when enough data do.
\<close>

section \<open>The queue of a socket\<close>

definition queue_ok :: "socket_queue \<Rightarrow> bool" where
  "queue_ok q \<longleftrightarrow> sq_index q \<le> headerlen q \<and> headerlen q \<le> 5 \<and> length (fixed_header q) = 5 \<and>
     None \<notin> set (take (headerlen q) (fixed_header q)) \<and> datalen q \<le> buflen q \<and>
     (\<exists>b. sq_buf q = Some b \<and> buflen q \<le> length b \<and> None \<notin> set (take (datalen q) b))"

definition empty_queue :: socket_queue where
  "empty_queue = \<lparr>sq_socket = 0, sq_index = 0, headerlen = 0, fixed_header = replicate 5 None, buflen = 0, datalen = 0,
     sq_buf = Some (replicate 1000 None)\<rparr>"

definition mine :: "int \<Rightarrow> socket_buffers \<Rightarrow> socket_queue" where
  "mine sock b = (case find_queue sock b of
     Some i \<Rightarrow> queues b ! i
   | None \<Rightarrow> (case def_queue b of Queue d \<Rightarrow> d | _ \<Rightarrow> empty_queue))"

text \<open>
  While \<open>sock\<close> is being read: the default queue is free, or it holds the header bytes read in this
  call; every other socket with kept data has its own queue.
\<close>

definition def_ok :: "int \<Rightarrow> socket_buffers \<Rightarrow> socket_queue \<Rightarrow> bool" where
  "def_ok sock b d \<longleftrightarrow> queue_ok d \<and> datalen d = 0 \<and> sq_index d = headerlen d \<and>
     (sq_socket d = 0 \<and> headerlen d = 0 \<or> sq_socket d = sock \<and> find_queue sock b = None)"

definition reading :: "int \<Rightarrow> socket_buffers \<Rightarrow> bool" where
  "reading sock b \<longleftrightarrow> sock \<noteq> 0 \<and> (\<exists>d. def_queue b = Queue d \<and> def_ok sock b d) \<and>
     (\<forall>q \<in> set (queues b). queue_ok q) \<and> distinct (map sq_socket (queues b))"

definition head_bytes :: "socket_queue \<Rightarrow> byte list" where
  "head_bytes q = map the (take (headerlen q) (fixed_header q))"

definition data_bytes :: "socket_queue \<Rightarrow> byte list" where
  "data_bytes q = map the (take (datalen q) (the (sq_buf q)))"

lemma find_queue_Some:
  assumes "find_queue sock b = Some i"
  shows "i < length (queues b)" "sq_socket (queues b ! i) = sock" "mine sock b = queues b ! i"
proof -
  show "mine sock b = queues b ! i" using assms by (simp add: mine_def)
  show "i < length (queues b)" "sq_socket (queues b ! i) = sock"
    using assms by (simp_all add: find_queue_def first_index_Some socketcompare_def)
qed

lemma first_index_update: "first_index P xs = Some i \<Longrightarrow> P x \<Longrightarrow> first_index P (xs[i := x]) = Some i"
  by (simp add: first_index_Some)

lemma find_queue_None: "find_queue sock b = None \<longleftrightarrow> sock \<notin> sq_socket ` set (queues b)"
  by (auto simp: find_queue_def first_index_None socketcompare_def)

lemma reading_mine: "reading sock b \<Longrightarrow> queue_ok (mine sock b)"
  by (cases "find_queue sock b") (auto simp: reading_def def_ok_def mine_def dest: find_queue_Some)

lemma get_queue_mine: "reading sock b \<Longrightarrow> get_queue (find_queue sock b) b = Inr (mine sock b)"
  by (cases "find_queue sock b") (auto simp: reading_def get_queue_def mine_def deref_queue_def)

text \<open>Storing the queue of the socket back.\<close>

lemma put_mine:
  assumes r: "reading sock b" and q: "queue_ok q"
    and s: "find_queue sock b \<noteq> None \<Longrightarrow> sq_socket q = sock"
    and d: "find_queue sock b = None \<Longrightarrow> datalen q = 0 \<and> sq_index q = headerlen q \<and>
      (sq_socket q = 0 \<and> headerlen q = 0 \<or> sq_socket q = sock)"
  shows "reading sock (put_queue (find_queue sock b) q b)"
    and "mine sock (put_queue (find_queue sock b) q b) = q"
    and "find_queue sock (put_queue (find_queue sock b) q b) = find_queue sock b"
proof -
  let ?b = "put_queue (find_queue sock b) q b"
  show f: "find_queue sock ?b = find_queue sock b"
  proof (cases "find_queue sock b")
    case None
    then show ?thesis by (simp add: put_queue_def find_queue_def)
  next
    case (Some i)
    then have "first_index (socketcompare sock) ((queues b)[i := q]) = Some i"
      using s by (intro first_index_update) (simp_all add: find_queue_def socketcompare_def)
    with Some show ?thesis by (simp add: put_queue_def find_queue_def)
  qed
  show "mine sock ?b = q"
    using f find_queue_Some(1) by (auto simp: mine_def put_queue_def split: option.splits)
  show "reading sock ?b"
  proof (cases "find_queue sock b")
    case None
    with r q d f show ?thesis by (auto simp: reading_def def_ok_def put_queue_def)
  next
    case (Some i)
    have "map sq_socket ((queues b)[i := q]) = map sq_socket (queues b)"
      using find_queue_Some [OF Some] s Some by (simp add: map_update list_update_same_conv)
    with r q f Some show ?thesis
      by (auto simp: reading_def def_ok_def put_queue_def dest: set_update_subset_insert [THEN subsetD])
  qed
qed

section \<open>Operations on the queue of a socket\<close>

lemma queue_okD:
  assumes "queue_ok q"
  shows "headerlen q \<le> 5" "sq_index q \<le> headerlen q" "length (fixed_header q) = 5" "length (head_bytes q) = headerlen q"
    "i < headerlen q \<Longrightarrow> fixed_header q ! i = Some (head_bytes q ! i)"
proof -
  show "headerlen q \<le> 5" "sq_index q \<le> headerlen q" "length (fixed_header q) = 5" "length (head_bytes q) = headerlen q"
    using assms by (simp_all add: queue_ok_def head_bytes_def)
  assume i: "i < headerlen q"
  then have "fixed_header q ! i \<in> set (take (headerlen q) (fixed_header q))"
    using assms by (auto simp: queue_ok_def in_set_conv_nth intro!: exI [of _ i])
  with assms have "fixed_header q ! i \<noteq> None" unfolding queue_ok_def by metis
  with i assms show "fixed_header q ! i = Some (head_bytes q ! i)" by (simp add: head_bytes_def queue_ok_def)
qed

lemma getQueuedChar_kept:
  assumes r: "reading sock b" and lt: "sq_index (mine sock b) < headerlen (mine sock b)"
  shows "\<exists>b'. SocketBuffer_getQueuedChar sock b = Inr (TCPSOCKET_COMPLETE, Some (head_bytes (mine sock b) ! sq_index (mine sock b)), b') \<and>
    reading sock b' \<and> mine sock b' = (mine sock b)\<lparr>sq_index := Suc (sq_index (mine sock b))\<rparr>"
proof (cases "find_queue sock b")
  case None
  with r lt show ?thesis by (auto simp: reading_def def_ok_def mine_def)
next
  case (Some i)
  let ?q = "mine sock b"
  let ?q' = "?q\<lparr>sq_index := Suc (sq_index ?q)\<rparr>"
  note ok = queue_okD [OF reading_mine [OF r]]
  have "queue_ok ?q'" using reading_mine [OF r] lt by (simp add: queue_ok_def)
  moreover have "sq_socket ?q' = sock" using find_queue_Some [OF Some] by simp
  ultimately have "reading sock (put_queue (find_queue sock b) ?q' b)" "mine sock (put_queue (find_queue sock b) ?q' b) = ?q'"
    using put_mine(1,2) [OF r, of ?q'] Some by simp_all
  with ok(5) [OF lt] ok(1,3) lt find_queue_Some(3) [OF Some] Some show ?thesis
    by (simp add: SocketBuffer_getQueuedChar_def Let_def)
qed

lemma getQueuedChar_none:
  assumes "reading sock b" and "sq_index (mine sock b) = headerlen (mine sock b)" "headerlen (mine sock b) \<le> 4"
  shows "SocketBuffer_getQueuedChar sock b = Inr (TCPSOCKET_INTERRUPTED, None, b)"
  using assms by (cases "find_queue sock b") (auto simp: SocketBuffer_getQueuedChar_def find_queue_Some(3))

text \<open>The queue after a character was added.\<close>

definition add_char :: "int \<Rightarrow> byte \<Rightarrow> socket_queue \<Rightarrow> socket_queue" where
  "add_char sock c q = q\<lparr>sq_socket := sock, fixed_header := (fixed_header q)[headerlen q := Some c],
     sq_index := Suc (headerlen q), headerlen := Suc (headerlen q)\<rparr>"

lemma add_char_ok:
  assumes "queue_ok q" "headerlen q \<le> 4"
  shows "queue_ok (add_char sock c q)" "head_bytes (add_char sock c q) = head_bytes q @ [c]"
    "data_bytes (add_char sock c q) = data_bytes q"
proof -
  have "take (Suc (headerlen q)) ((fixed_header q)[headerlen q := Some c]) = take (headerlen q) (fixed_header q) @ [Some c]"
    using assms by (simp add: queue_ok_def take_Suc_conv_app_nth)
  with assms show "queue_ok (add_char sock c q)" "head_bytes (add_char sock c q) = head_bytes q @ [c]"
    by (simp_all add: queue_ok_def add_char_def head_bytes_def)
qed (simp add: data_bytes_def add_char_def)

lemma queueChar_mine:
  assumes r: "reading sock b" and h: "sq_index (mine sock b) = headerlen (mine sock b)" "headerlen (mine sock b) \<le> 4"
  shows "\<exists>b'. SocketBuffer_queueChar sock c b = Inr b' \<and> reading sock b' \<and> mine sock b' = add_char sock c (mine sock b)"
proof -
  let ?q = "mine sock b"
  let ?b = "put_queue (find_queue sock b) (add_char sock c ?q) b"
  have dat: "datalen ?q = 0" if "find_queue sock b = None"
    using that r by (auto simp: reading_def def_ok_def mine_def)
  have "reading sock ?b" "mine sock ?b = add_char sock c ?q"
    using put_mine(1,2) [OF r add_char_ok(1) [OF reading_mine [OF r] h(2)]] dat by (auto simp: add_char_def)
  moreover have "SocketBuffer_queueChar sock c b = Inr ?b"
  proof (cases "find_queue sock b")
    case None
    with r obtain d where d: "def_queue b = Queue d" "def_ok sock b d" "mine sock b = d" "sock \<noteq> 0"
      by (auto simp: reading_def mine_def)
    with None h queue_okD(3) [OF reading_mine [OF r]] show ?thesis
      by (cases d) (auto simp: SocketBuffer_queueChar_def def_ok_def deref_queue_def add_char_def Let_def)
  next
    case (Some i)
    with h queue_okD(3) [OF reading_mine [OF r]] find_queue_Some [OF Some] show ?thesis
      by (cases "queues b ! i") (simp add: SocketBuffer_queueChar_def add_char_def Let_def)
  qed
  ultimately show ?thesis by blast
qed

text \<open>The queue of an interrupted and of a completed read.\<close>

definition keep_data :: "int \<Rightarrow> nat \<Rightarrow> socket_queue \<Rightarrow> socket_queue" where
  "keep_data sock n q = q\<lparr>sq_socket := sock, sq_index := 0, datalen := n\<rparr>"

lemma interrupted_mine:
  assumes r: "reading sock b" and al: "\<forall>n. al n"
    and n: "n \<le> buflen (mine sock b)" "None \<notin> set (take n (the (sq_buf (mine sock b))))"
  shows "\<exists>b'. SocketBuffer_interrupted al sock n b = Inr b' \<and> reading sock b' \<and> mine sock b' = keep_data sock n (mine sock b)"
proof -
  let ?q = "mine sock b"
  have q: "queue_ok (keep_data sock n ?q)"
    using reading_mine [OF r] n by (auto simp: queue_ok_def keep_data_def)
  show ?thesis
  proof (cases "find_queue sock b")
    case None
    let ?b = "snd (SocketBuffer_newDefQ al (b\<lparr>queues := queues b @ [keep_data sock n ?q]\<rparr>))"
    have m: "malloc_ok al 24" "malloc_ok al 48" "malloc_ok al 1000"
      using al by (simp_all add: malloc_ok_def PTRDIFF_MAX_def)
    have "SocketBuffer_interrupted al sock n b = Inr ?b"
      using r None m by (auto simp: SocketBuffer_interrupted_def reading_def mine_def deref_queue_def keep_data_def)
    moreover have b: "queues ?b = queues b @ [keep_data sock n ?q]" "def_queue ?b = Queue empty_queue"
      using m by (simp_all add: SocketBuffer_newDefQ_def empty_queue_def)
    moreover have f: "find_queue sock ?b = Some (length (queues b))"
      using None b(1)
      by (auto simp: find_queue_def first_index_Some first_index_None nth_append socketcompare_def keep_data_def)
    moreover have "queue_ok empty_queue" by (simp add: queue_ok_def empty_queue_def)
    moreover have "sock \<notin> sq_socket ` set (queues b)" using None by (simp add: find_queue_None)
    ultimately show ?thesis
      using r q by (auto simp: reading_def def_ok_def mine_def empty_queue_def keep_data_def)
  next
    case (Some i)
    with put_mine(1,2) [OF r q] have "reading sock (put_queue (Some i) (keep_data sock n ?q) b)"
      "mine sock (put_queue (Some i) (keep_data sock n ?q) b) = keep_data sock n ?q"
      by (simp_all add: keep_data_def)
    moreover have "SocketBuffer_interrupted al sock n b = Inr (put_queue (Some i) (keep_data sock n ?q) b)"
      using find_queue_Some [OF Some] Some by (cases "queues b ! i") (simp add: SocketBuffer_interrupted_def keep_data_def)
    ultimately show ?thesis by blast
  qed
qed

lemma distinct_remove_nth: "distinct (map f xs) \<Longrightarrow> distinct (map f (remove_nth i xs))"
  by (simp add: remove_nth_def flip: take_map drop_map) (simp add: distinct_append set_take_disj_set_drop_if_distinct)

lemma remove_nth_not_in:
  assumes "distinct (map f xs)" "i < length xs"
  shows "f (xs ! i) \<notin> f ` set (remove_nth i xs)"
proof -
  have "xs = take i xs @ xs ! i # drop (Suc i) xs" using assms(2) by (rule id_take_nth_drop)
  then have "distinct (map f (take i xs @ xs ! i # drop (Suc i) xs))" using assms(1) by metis
  then show ?thesis by (auto simp: remove_nth_def)
qed

lemma complete_mine:
  assumes r: "reading sock b"
  shows "\<exists>b'. SocketBuffer_complete sock b = Inr b' \<and> reading sock b' \<and> mine sock b' = reset_queue (mine sock b) \<and>
    def_queue b' = Queue (reset_queue (mine sock b))"
proof -
  have q: "queue_ok (reset_queue (mine sock b))"
    using reading_mine [OF r] by (auto simp: queue_ok_def reset_queue_def)
  show ?thesis
  proof (cases "find_queue sock b")
    case None
    with r q show ?thesis
      by (auto simp: SocketBuffer_complete_def reading_def def_ok_def mine_def deref_queue_def reset_queue_def find_queue_def)
  next
    case (Some i)
    let ?b = "b\<lparr>def_queue := Queue (reset_queue (mine sock b)), queues := remove_nth i (queues b)\<rparr>"
    have "SocketBuffer_complete sock b = Inr ?b"
      using r Some find_queue_Some(3) [OF Some]
      by (auto simp: SocketBuffer_complete_def SocketBuffer_freeDefQ_def reading_def)
    moreover have "find_queue sock ?b = None"
      using remove_nth_not_in [of sq_socket "queues b" i] find_queue_Some [OF Some] r
      by (simp add: find_queue_None reading_def)
    moreover have "set (remove_nth i (queues b)) \<subseteq> set (queues b)"
      by (auto simp: remove_nth_def dest: in_set_takeD in_set_dropD)
    ultimately show ?thesis
      using r q distinct_remove_nth [of sq_socket "queues b" i]
      by (auto simp: reading_def def_ok_def mine_def reset_queue_def)
  qed
qed

lemma getQueuedData_mine:
  assumes r: "reading sock b" and al: "\<forall>n. al n"
    and n: "n < 268435456" "0 < datalen (mine sock b) \<longrightarrow> n \<le> buflen (mine sock b)"
  shows "\<exists>b'. SocketBuffer_getQueuedData al sock n b = Inr (find_queue sock b, datalen (mine sock b), b') \<and> reading sock b' \<and>
    find_queue sock b' = find_queue sock b \<and> n \<le> buflen (mine sock b') \<and> datalen (mine sock b') = datalen (mine sock b) \<and>
    data_bytes (mine sock b') = data_bytes (mine sock b) \<and> headerlen (mine sock b') = headerlen (mine sock b) \<and>
    head_bytes (mine sock b') = head_bytes (mine sock b) \<and> sq_index (mine sock b') = sq_index (mine sock b)"
proof -
  let ?q = "mine sock b"
  note ok = reading_mine [OF r]
  obtain old where old: "sq_buf ?q = Some old" "buflen ?q \<le> length old" using ok by (auto simp: queue_ok_def)
  let ?q' = "if buflen ?q < n then ?q\<lparr>sq_buf := Some (take n (old @ replicate n None)), buflen := n\<rparr> else ?q"
  have m: "malloc_ok al (int n)" using al n(1) by (simp add: malloc_ok_def PTRDIFF_MAX_def)
  have act: "(if find_queue sock b = None then 0 else datalen ?q) = datalen ?q"
    using r by (auto simp: reading_def def_ok_def mine_def)
  have eq: "SocketBuffer_getQueuedData al sock n b = Inr (find_queue sock b, datalen ?q, put_queue (find_queue sock b) ?q' b)"
    using n(2) m act old(1) by (auto simp: SocketBuffer_getQueuedData_def get_queue_mine [OF r] Let_def)
  have q': "queue_ok ?q'" using ok old n by (auto simp: queue_ok_def)
  have s: "sq_socket ?q' = sock" if "find_queue sock b \<noteq> None" using that find_queue_Some(2,3) by fastforce
  have d: "datalen ?q' = 0 \<and> sq_index ?q' = headerlen ?q' \<and> (sq_socket ?q' = 0 \<and> headerlen ?q' = 0 \<or> sq_socket ?q' = sock)"
    if "find_queue sock b = None"
    using that r by (auto simp: reading_def def_ok_def mine_def)
  note put = put_mine [OF r q' s d]
  from put eq n(2) show ?thesis by (auto simp: data_bytes_def head_bytes_def)
qed

section \<open>The network\<close>

definition has_data :: "arrival \<Rightarrow> bool" where
  "has_data a = (case a of Avail k \<Rightarrow> 0 < k | _ \<Rightarrow> False)"

definition peer_credit :: "peer \<Rightarrow> nat" where
  "peer_credit p = length (filter has_data (arrivals p))"

definition peer_calm :: "peer \<Rightarrow> bool" where
  "peer_calm p \<longleftrightarrow> (\<forall>a \<in> set (arrivals p). case a of Avail k \<Rightarrow> True | _ \<Rightarrow> False)"

lemmas peer_defs = peer_credit_def peer_calm_def has_data_def

lemma recv_error:
  assumes "recv n p = (Recv_error e, p')"
  shows "incoming p' = incoming p" "length (arrivals p') \<le> length (arrivals p)"
    and "peer_calm p \<Longrightarrow> e = EAGAIN \<and> peer_calm p' \<and>
      (length (arrivals p') < length (arrivals p) \<or> length (arrivals p') = 0)"
    and "peer_calm p \<Longrightarrow> 0 < n \<Longrightarrow> incoming p \<noteq> [] \<Longrightarrow> peer_credit p' = peer_credit p"
  using assms
  by (auto simp: recv.simps peer_defs Let_def min_def split: list.splits arrival.splits if_splits)

lemma recv_data:
  assumes "recv n p = (Received bs, p')"
  shows "incoming p = bs @ incoming p'" "length bs \<le> n" "length (arrivals p') < length (arrivals p)"
    and "peer_calm p \<Longrightarrow> bs \<noteq> [] \<and> peer_calm p' \<and> peer_credit p \<le> Suc (peer_credit p')"
  using assms
  by (auto simp: recv.simps peer_defs Let_def min_def split: list.splits arrival.splits if_splits)

section \<open>The transport\<close>

definition sock_inv :: "(int \<Rightarrow> bool) \<Rightarrow> int \<Rightarrow> sockets \<Rightarrow> bool" where
  "sock_inv al sock st \<longleftrightarrow> reading sock (buffers st) \<and> (\<forall>n. al n)"

definition sock_stream :: "int \<Rightarrow> sockets \<Rightarrow> byte list" where
  "sock_stream sock st =
     head_bytes (mine sock (buffers st)) @ data_bytes (mine sock (buffers st)) @ incoming (peers st sock)"

definition sock_cursor :: "int \<Rightarrow> sockets \<Rightarrow> nat" where
  "sock_cursor sock st = sq_index (mine sock (buffers st))"

definition queue_held :: "nat \<Rightarrow> nat \<Rightarrow> socket_queue \<Rightarrow> bool" where
  "queue_held l n q \<longleftrightarrow> n < 268435456 \<and> l \<le> 5 \<and> headerlen q \<le> l \<and>
     (datalen q = 0 \<or> headerlen q = l \<and> n \<le> buflen q \<and> datalen q < n)"

definition sock_held :: "int \<Rightarrow> nat \<Rightarrow> nat \<Rightarrow> sockets \<Rightarrow> bool" where
  "sock_held sock l n st \<longleftrightarrow> queue_held l n (mine sock (buffers st))"

definition sock_got :: "int \<Rightarrow> sockets \<Rightarrow> nat" where
  "sock_got sock st = headerlen (mine sock (buffers st)) + datalen (mine sock (buffers st))"

definition sock_credit :: "int \<Rightarrow> sockets \<Rightarrow> nat" where
  "sock_credit sock st = peer_credit (peers st sock)"

definition sock_answers :: "int \<Rightarrow> sockets \<Rightarrow> nat" where
  "sock_answers sock st = length (arrivals (peers st sock))"

definition sock_calm :: "int \<Rightarrow> sockets \<Rightarrow> bool" where
  "sock_calm sock st \<longleftrightarrow> peer_calm (peers st sock)"

lemmas sock_defs = sock_inv_def sock_stream_def sock_cursor_def sock_held_def sock_got_def sock_credit_def
  sock_answers_def sock_calm_def set_peer_def

text \<open>What \<^verbatim>\<open>Socket_getch\<close> does: a byte that was kept, a byte from the network, or none.\<close>

lemma Socket_getch_cases:
  assumes inv: "sock_inv al sock st" and held: "sock_held sock l n st" and lt: "sock_cursor sock st < l"
  defines "q \<equiv> mine sock (buffers st)"
  obtains (kept) b where "sq_index q < headerlen q" "reading sock b" "mine sock b = q\<lparr>sq_index := Suc (sq_index q)\<rparr>"
      "Socket_getch al sock st = Inr (Inr (head_bytes q ! sq_index q), st\<lparr>buffers := b\<rparr>)"
    | (byte) b c p where "sq_index q = headerlen q" "headerlen q < l" "datalen q = 0" "recv 1 (peers st sock) = (Received [c], p)"
      "reading sock b" "mine sock b = add_char sock c q"
      "Socket_getch al sock st = Inr (Inr c, set_peer sock p (st\<lparr>buffers := b\<rparr>))"
    | (again) b p where "sq_index q = headerlen q" "headerlen q < l" "datalen q = 0" "recv 1 (peers st sock) = (Recv_error EAGAIN, p)"
      "reading sock b" "mine sock b = keep_data sock 0 q"
      "Socket_getch al sock st = Inr (Inl TCPSOCKET_INTERRUPTED, set_peer sock p (st\<lparr>buffers := b\<rparr>))"
    | (err) st' where "\<not> sock_calm sock st" "Socket_getch al sock st = Inr (Inl SOCKET_ERROR, st')"
proof -
  have r: "reading sock (buffers st)" and al: "\<forall>n. al n" using inv by (simp_all add: sock_inv_def)
  note ok = reading_mine [OF r, folded q_def]
  show thesis
  proof (cases "sq_index q < headerlen q")
    case True
    obtain b where "SocketBuffer_getQueuedChar sock (buffers st) = Inr (TCPSOCKET_COMPLETE, Some (head_bytes q ! sq_index q), b)"
      "reading sock b" "mine sock b = q\<lparr>sq_index := Suc (sq_index q)\<rparr>"
      using getQueuedChar_kept [OF r] True unfolding q_def by blast
    with True show thesis by (intro kept) (simp_all add: Socket_getch_def transport_codes)
  next
    case False
    with queue_okD(2) [OF ok] have i: "sq_index q = headerlen q" by simp
    with lt held have h: "headerlen q < l" "datalen q = 0" "headerlen q \<le> 4"
      by (auto simp: sock_cursor_def sock_held_def queue_held_def q_def)
    have qc: "SocketBuffer_getQueuedChar sock (buffers st) = Inr (TCPSOCKET_INTERRUPTED, None, buffers st)"
      using getQueuedChar_none [OF r] i h(3) by (simp add: q_def)
    obtain res p where rp: "recv 1 (peers st sock) = (res, p)" by (cases "recv 1 (peers st sock)")
    show thesis
    proof (cases res)
      case (Received bs)
      note d = recv_data [OF rp [unfolded Received]]
      show thesis
      proof (cases bs)
        case Nil
        with d(4) qc rp Received show thesis
          by (intro err [of "set_peer sock p st"]) (auto simp: sock_calm_def Socket_getch_def)
      next
        case (Cons c cs)
        with d(2) have bs: "bs = [c]" by simp
        obtain b where "SocketBuffer_queueChar sock c (buffers st) = Inr b" "reading sock b" "mine sock b = add_char sock c q"
          using queueChar_mine [OF r] i h(3) unfolding q_def by blast
        with qc rp Received bs i h show thesis
          by (intro byte [of c p b]) (simp_all add: Socket_getch_def set_peer_def)
      qed
    next
      case (Recv_error e)
      note d = recv_error [OF rp [unfolded Recv_error]]
      show thesis
      proof (cases "e = EAGAIN")
        case True
        obtain b where "SocketBuffer_interrupted al sock 0 (buffers st) = Inr b" "reading sock b" "mine sock b = keep_data sock 0 q"
          using interrupted_mine [OF r al, of 0] unfolding q_def by auto
        with qc rp Recv_error True i h show thesis
          by (intro again [of p b]) (simp_all add: Socket_getch_def set_peer_def)
      next
        case False
        with d(3) qc rp Recv_error show thesis
          by (intro err [of "set_peer sock p st"]) (auto simp: sock_calm_def Socket_getch_def EAGAIN_def EWOULDBLOCK_def)
      qed
    qed
  qed
qed

text \<open>Bytes that arrive behind the data of a queue.\<close>

definition store_bytes :: "byte list \<Rightarrow> socket_queue \<Rightarrow> socket_queue" where
  "store_bytes bs q = q\<lparr>sq_buf := Some (take (datalen q) (the (sq_buf q)) @ map Some bs @
     drop (datalen q + length bs) (the (sq_buf q)))\<rparr>"

lemma store_bytes_ok:
  assumes "queue_ok q" "datalen q + length bs \<le> buflen q"
  shows "queue_ok (store_bytes bs q)"
    and "take (datalen q + length bs) (the (sq_buf (store_bytes bs q))) = map Some (data_bytes q @ bs)"
proof -
  obtain b where b: "sq_buf q = Some b" "buflen q \<le> length b" "None \<notin> set (take (datalen q) b)"
    using assms(1) by (auto simp: queue_ok_def)
  have "take (datalen q) b = map Some (map the (take (datalen q) b))"
    using b(3) by (auto simp: list_eq_iff_nth_eq in_set_conv_nth)
  then have dat: "map Some (data_bytes q) = take (datalen q) b" by (simp add: data_bytes_def b(1))
  show "queue_ok (store_bytes bs q)" using assms b by (auto simp: queue_ok_def store_bytes_def)
  have "length (take (datalen q) b) = datalen q" using assms b by simp
  then have "take (datalen q + length bs) (take (datalen q) b @ map Some bs @ drop (datalen q + length bs) b) =
      take (datalen q) b @ map Some bs" by simp
  then show "take (datalen q + length bs) (the (sq_buf (store_bytes bs q))) = map Some (data_bytes q @ bs)"
    by (simp add: store_bytes_def b(1) dat)
qed

lemma store_bytes_mine:
  assumes r: "reading sock b" and bs: "datalen (mine sock b) + length bs \<le> buflen (mine sock b)"
  shows "reading sock (put_queue (find_queue sock b) (store_bytes bs (mine sock b)) b)"
    and "mine sock (put_queue (find_queue sock b) (store_bytes bs (mine sock b)) b) = store_bytes bs (mine sock b)"
proof -
  have s: "sq_socket (store_bytes bs (mine sock b)) = sock" if "find_queue sock b \<noteq> None"
    using that find_queue_Some(2,3) by (fastforce simp: store_bytes_def)
  have d: "datalen (store_bytes bs (mine sock b)) = 0 \<and>
      sq_index (store_bytes bs (mine sock b)) = headerlen (store_bytes bs (mine sock b)) \<and>
      (sq_socket (store_bytes bs (mine sock b)) = 0 \<and> headerlen (store_bytes bs (mine sock b)) = 0 \<or>
       sq_socket (store_bytes bs (mine sock b)) = sock)" if "find_queue sock b = None"
    using that r by (auto simp: reading_def def_ok_def mine_def store_bytes_def)
  from put_mine(1,2) [OF r store_bytes_ok(1) [OF reading_mine [OF r] bs] s d]
  show "reading sock (put_queue (find_queue sock b) (store_bytes bs (mine sock b)) b)"
    "mine sock (put_queue (find_queue sock b) (store_bytes bs (mine sock b)) b) = store_bytes bs (mine sock b)"
    by blast+
qed

text \<open>Both ends of a read that leaves \<open>m\<close> bytes in the buffer.\<close>

lemma finish_read_mine:
  assumes r: "reading sock (buffers st)" and al: "\<forall>n. al n"
    and m: "m \<le> buflen (mine sock (buffers st))" "None \<notin> set (take m (the (sq_buf (mine sock (buffers st)))))"
  shows "\<exists>b. finish_read al sock n m st = Inr (st\<lparr>buffers := b\<rparr>) \<and> reading sock b \<and>
    mine sock b = (if m = n then reset_queue (mine sock (buffers st)) else keep_data sock m (mine sock (buffers st)))"
  using complete_mine [OF r] interrupted_mine [OF r al m] by (auto simp: finish_read_def)

lemma reset_queue_bytes: "head_bytes (reset_queue q) = []" "data_bytes (reset_queue q) = []"
  by (simp_all add: head_bytes_def data_bytes_def reset_queue_def)

lemma peers_buffers [simp]: "st\<lparr>peers := p, buffers := b\<rparr> = st\<lparr>buffers := b, peers := p\<rparr>"
  by simp

lemma recv_into_Some: "recv_into (Some b) n p = recv n p"
  by (auto simp: recv_into_def split: prod.splits recv_result.splits list.splits)

lemma Socket_getdata_rc_zero:
  assumes "sock_inv al sock st"
  shows "\<exists>b v. Socket_getdata_rc al sock 0 st = Inr ((Some v, 0, None), st\<lparr>buffers := b\<rparr>) \<and> reading sock b \<and>
    mine sock b = reset_queue (mine sock (buffers st))"
proof -
  have r: "reading sock (buffers st)" using assms by (simp add: sock_inv_def)
  obtain v where "sq_buf (mine sock (buffers st)) = Some v" using reading_mine [OF r] by (auto simp: queue_ok_def)
  with complete_mine [OF r] show ?thesis by (auto simp: Socket_getdata_rc_def deref_queue_def reset_queue_def)
qed

lemma Socket_getdata_zero:
  assumes "sock_inv al sock st"
  shows "\<exists>b v. Socket_getdata al sock 0 st = Inr ((Some v, 0), st\<lparr>buffers := b\<rparr>) \<and> reading sock b \<and>
    mine sock b = reset_queue (mine sock (buffers st))"
  using Socket_getdata_rc_zero [OF assms] by (auto simp: Socket_getdata_def)

text \<open>
  What \<^verbatim>\<open>Socket_getdata\<close> does for \<open>n\<close> bytes: it stores the bytes \<open>bs\<close> that arrive (none when the network
  has none) and completes the read or keeps it.
\<close>

definition stored :: "int \<Rightarrow> nat \<Rightarrow> socket_queue \<Rightarrow> byte list \<Rightarrow> byte option list \<Rightarrow> socket_queue \<Rightarrow> socket_buffers \<Rightarrow> bool" where
  "stored sock n q bs v q' b \<longleftrightarrow> length bs \<le> n - datalen q \<and> take (datalen q + length bs) v = map Some (data_bytes q @ bs) \<and>
     head_bytes q' = head_bytes q \<and> headerlen q' = headerlen q \<and> n \<le> buflen q' \<and>
     data_bytes (q'\<lparr>datalen := datalen q + length bs\<rparr>) = data_bytes q @ bs \<and> reading sock b \<and>
     mine sock b = (if datalen q + length bs = n then reset_queue q' else keep_data sock (datalen q + length bs) q')"

text \<open>The buffer is large enough before anything is received.\<close>

definition prepared :: "(int \<Rightarrow> bool) \<Rightarrow> int \<Rightarrow> nat \<Rightarrow> sockets \<Rightarrow> socket_buffers \<Rightarrow> byte option list \<Rightarrow> bool" where
  "prepared al sock n st b1 old \<longleftrightarrow> (let q = mine sock (buffers st); q1 = mine sock b1 in
     SocketBuffer_getQueuedData al sock n (buffers st) = Inr (find_queue sock (buffers st), datalen q, b1) \<and>
     reading sock b1 \<and> find_queue sock b1 = find_queue sock (buffers st) \<and> n \<le> buflen q1 \<and> datalen q1 = datalen q \<and>
     data_bytes q1 = data_bytes q \<and> headerlen q1 = headerlen q \<and> head_bytes q1 = head_bytes q \<and>
     sq_buf q1 = Some old \<and> buflen q1 \<le> length old \<and> get_queue (find_queue sock (buffers st)) b1 = Inr q1 \<and>
     (\<forall>n. al n) \<and> 0 < n \<and> datalen q < n)"

lemma getdata_prepares:
  assumes inv: "sock_inv al sock st" and held: "sock_held sock l n st" and n: "0 < n"
  shows "\<exists>b1 old. prepared al sock n st b1 old"
proof -
  let ?q = "mine sock (buffers st)"
  have r: "reading sock (buffers st)" and al: "\<forall>n. al n" using inv by (simp_all add: sock_inv_def)
  have hn: "n < 268435456" "0 < datalen ?q \<longrightarrow> n \<le> buflen ?q" "datalen ?q < n"
    using held n by (auto simp: sock_held_def queue_held_def)
  obtain b1 where b1: "SocketBuffer_getQueuedData al sock n (buffers st) = Inr (find_queue sock (buffers st), datalen ?q, b1)"
    "reading sock b1" "find_queue sock b1 = find_queue sock (buffers st)" "n \<le> buflen (mine sock b1)"
    "datalen (mine sock b1) = datalen ?q" "data_bytes (mine sock b1) = data_bytes ?q"
    "headerlen (mine sock b1) = headerlen ?q" "head_bytes (mine sock b1) = head_bytes ?q"
    using getQueuedData_mine [OF r al hn(1,2)] by auto
  obtain old where "sq_buf (mine sock b1) = Some old" "buflen (mine sock b1) \<le> length old"
    using reading_mine [OF b1(2)] by (auto simp: queue_ok_def)
  with b1 get_queue_mine [OF b1(2)] al n hn(3) have "prepared al sock n st b1 old"
    by (simp add: prepared_def Let_def)
  then show ?thesis by blast
qed

lemma getdata_bytes:
  assumes pr: "prepared al sock n st b1 old"
    and rp: "recv (n - datalen (mine sock (buffers st))) (peers st sock) = (Received (c # cs), p)"
  shows "\<exists>v q' b. stored sock n (mine sock (buffers st)) (c # cs) v q' b \<and>
    Socket_getdata_rc al sock n st = Inr ((Some v, datalen (mine sock (buffers st)) + length (c # cs), Some (int (length (c # cs)))),
      set_peer sock p (st\<lparr>buffers := b\<rparr>))"
proof -
  define q where "q = mine sock (buffers st)"
  define q1 where "q1 = mine sock b1"
  let ?bs = "c # cs" and ?m = "datalen q + length (c # cs)"
  note b1 = pr [unfolded prepared_def Let_def, folded q_def q1_def]
  then have ok1: "queue_ok q1" using reading_mine [of sock b1] by (simp add: q1_def)
  have len: "length ?bs \<le> n - datalen q" using recv_data(2) [OF rp] by (simp add: q_def)
  then have fit: "datalen q1 + length ?bs \<le> buflen q1" using b1 by auto
  define q2 where "q2 = store_bytes ?bs q1"
  define b2 where "b2 = put_queue (find_queue sock (buffers st)) q2 b1"
  have b2: "reading sock b2" "mine sock b2 = q2"
    using store_bytes_mine [of sock b1 ?bs] b1 fit by (simp_all add: b2_def q2_def q1_def)
  have v: "take ?m (the (sq_buf q2)) = map Some (data_bytes q @ ?bs)"
    using store_bytes_ok(2) [OF ok1 fit] b1 by (simp add: q2_def)
  have m2: "?m \<le> buflen q2" using fit b1 by (auto simp: q2_def store_bytes_def)
  have u2: "None \<notin> set (take ?m (the (sq_buf q2)))" unfolding v by auto
  let ?st = "set_peer sock p (st\<lparr>buffers := b2\<rparr>)"
  obtain b where b: "finish_read al sock n ?m ?st = Inr (?st\<lparr>buffers := b\<rparr>)" "reading sock b"
    "mine sock b = (if ?m = n then reset_queue q2 else keep_data sock ?m q2)"
    using finish_read_mine [of sock ?st al ?m n] b2 b1 m2 u2 by (auto simp: set_peer_def)
  have s: "sq_buf q2 = Some (the (sq_buf q2))" by (simp add: q2_def store_bytes_def)
  have "Socket_getdata_rc al sock n st = Inr ((sq_buf q2, ?m, Some (int (length ?bs))), set_peer sock p (st\<lparr>buffers := b\<rparr>))"
    using b(1) fit b1 rp [folded q_def]
    by (simp add: Socket_getdata_rc_def recv_into_Some b2_def q2_def store_bytes_def Let_def set_peer_def)
  moreover have "stored sock n q ?bs (the (sq_buf q2)) q2 b"
    unfolding stored_def
  proof (intro conjI)
    show "data_bytes (q2\<lparr>datalen := ?m\<rparr>) = data_bytes q @ ?bs"
      using v by (simp add: data_bytes_def [of "q2\<lparr>datalen := _\<rparr>"])
    have "head_bytes q2 = head_bytes q1" by (simp add: q2_def store_bytes_def head_bytes_def)
    with b1 show "head_bytes q2 = head_bytes q" by simp
    show "headerlen q2 = headerlen q" "n \<le> buflen q2" using b1 by (simp_all add: q2_def store_bytes_def)
  qed (use len v b in simp_all)
  ultimately show ?thesis using s unfolding q_def by metis
qed

lemma getdata_again:
  assumes pr: "prepared al sock n st b1 old"
    and rp: "recv (n - datalen (mine sock (buffers st))) (peers st sock) = (Recv_error EAGAIN, p)"
  shows "\<exists>v q' b. stored sock n (mine sock (buffers st)) [] v q' b \<and>
    Socket_getdata_rc al sock n st = Inr ((Some v, datalen (mine sock (buffers st)), Some EAGAIN), set_peer sock p (st\<lparr>buffers := b\<rparr>))"
proof -
  define q where "q = mine sock (buffers st)"
  define q1 where "q1 = mine sock b1"
  note b1 = pr [unfolded prepared_def Let_def, folded q_def q1_def]
  then have ok1: "queue_ok q1" using reading_mine [of sock b1] by (simp add: q1_def)
  have m1: "datalen q \<le> buflen q1" "None \<notin> set (take (datalen q) old)"
    using ok1 b1 by (auto simp: queue_ok_def)
  have v: "take (datalen q) old = map Some (data_bytes q)"
    using store_bytes_ok(2) [OF ok1, of "[]"] m1 b1 by (simp add: store_bytes_def)
  let ?st = "set_peer sock p (st\<lparr>buffers := b1\<rparr>)"
  obtain b where b: "finish_read al sock n (datalen q) ?st = Inr (?st\<lparr>buffers := b\<rparr>)" "reading sock b"
    "mine sock b = keep_data sock (datalen q) q1"
    using finish_read_mine [of sock ?st al "datalen q" n] b1 m1 by (auto simp: set_peer_def q1_def)
  have "Socket_getdata_rc al sock n st = Inr ((Some old, datalen q, Some EAGAIN), set_peer sock p (st\<lparr>buffers := b\<rparr>))"
    using b(1) b1 rp [folded q_def] by (simp add: Socket_getdata_rc_def recv_into_Some set_peer_def EAGAIN_def EWOULDBLOCK_def)
  moreover have "stored sock n q [] old q1 b"
    using v b b1 by (simp add: stored_def data_bytes_def)
  ultimately show ?thesis unfolding q_def by metis
qed

lemma Socket_getdata_rc_cases:
  assumes inv: "sock_inv al sock st" and held: "sock_held sock l n st" and n: "0 < n"
  defines "q \<equiv> mine sock (buffers st)"
  obtains (data) bs p v q' b where "bs \<noteq> []" "recv (n - datalen q) (peers st sock) = (Received bs, p)" "stored sock n q bs v q' b"
      "Socket_getdata_rc al sock n st = Inr ((Some v, datalen q + length bs, Some (int (length bs))), set_peer sock p (st\<lparr>buffers := b\<rparr>))"
    | (again) p v q' b where "recv (n - datalen q) (peers st sock) = (Recv_error EAGAIN, p)" "stored sock n q [] v q' b"
      "Socket_getdata_rc al sock n st = Inr ((Some v, datalen q, Some EAGAIN), set_peer sock p (st\<lparr>buffers := b\<rparr>))"
    | (err) m rc st' where "\<not> sock_calm sock st" "Socket_getdata_rc al sock n st = Inr ((None, m, Some rc), st')"
proof -
  obtain b1 old where pr: "prepared al sock n st b1 old" using getdata_prepares [OF inv held n] by blast
  obtain res p where rp: "recv (n - datalen q) (peers st sock) = (res, p)" by (cases "recv (n - datalen q) (peers st sock)")
  show thesis
  proof (cases "res = Received [] \<or> (\<exists>e. res = Recv_error e \<and> e \<noteq> EAGAIN)")
    case True
    then have "\<not> sock_calm sock st"
      using recv_data(4) [of "n - datalen q" "peers st sock" "[]" p] recv_error(3) [of "n - datalen q" "peers st sock" _ p] rp
      by (auto simp: sock_calm_def)
    moreover have "\<exists>rc. Socket_getdata_rc al sock n st = Inr ((None, datalen q, Some rc), set_peer sock p (st\<lparr>buffers := b1\<rparr>))"
      using True pr rp
      by (auto simp: prepared_def Let_def Socket_getdata_rc_def recv_into_Some EAGAIN_def EWOULDBLOCK_def q_def)
    ultimately show thesis using err by blast
  next
    case False
    then consider (bytes) c cs where "res = Received (c # cs)" | (none) "res = Recv_error EAGAIN"
      by (metis list.exhaust recv_result.exhaust)
    then show thesis
      using getdata_bytes [OF pr] getdata_again [OF pr] rp data again unfolding q_def by cases blast+
  qed
qed

lemma Socket_getdata_cases:
  assumes inv: "sock_inv al sock st" and held: "sock_held sock l n st" and n: "0 < n"
  defines "q \<equiv> mine sock (buffers st)"
  obtains (data) bs p b v q' where "recv (n - datalen q) (peers st sock) = (Received bs, p) \<or>
        bs = [] \<and> recv (n - datalen q) (peers st sock) = (Recv_error EAGAIN, p)"
      "length bs \<le> n - datalen q" "take (datalen q + length bs) v = map Some (data_bytes q @ bs)"
      "head_bytes q' = head_bytes q" "headerlen q' = headerlen q" "n \<le> buflen q'"
      "data_bytes (q'\<lparr>datalen := datalen q + length bs\<rparr>) = data_bytes q @ bs" "reading sock b"
      "mine sock b = (if datalen q + length bs = n then reset_queue q' else keep_data sock (datalen q + length bs) q')"
      "Socket_getdata al sock n st = Inr ((Some v, datalen q + length bs), set_peer sock p (st\<lparr>buffers := b\<rparr>))"
    | (err) m st' where "\<not> sock_calm sock st" "Socket_getdata al sock n st = Inr ((None, m), st')"
  using inv held n
proof (cases rule: Socket_getdata_rc_cases)
  case (data bs p v q' b)
  show ?thesis
    using data(2,3,4) by (intro that(1) [of bs p v q' b]) (simp_all add: Socket_getdata_def stored_def q_def)
next
  case (again p v q' b)
  show ?thesis
    using again by (intro that(1) [of "[]" p v q' b]) (simp_all add: Socket_getdata_def stored_def q_def)
next
  case (err m rc st')
  show ?thesis using err by (intro that(2)) (simp_all add: Socket_getdata_def)
qed

section \<open>Sockets are resumable\<close>

lemma keep_data_bytes: "head_bytes (keep_data sock n q) = head_bytes q"
    "data_bytes (keep_data sock n q) = data_bytes (q\<lparr>datalen := n\<rparr>)"
    "headerlen (keep_data sock n q) = headerlen q" "datalen (keep_data sock n q) = n" "sq_index (keep_data sock n q) = 0"
    "buflen (keep_data sock n q) = buflen q"
  by (simp_all add: head_bytes_def data_bytes_def keep_data_def)

lemma index_bytes: "head_bytes (q\<lparr>sq_index := i\<rparr>) = head_bytes q" "data_bytes (q\<lparr>sq_index := i\<rparr>) = data_bytes q"
  by (simp_all add: head_bytes_def data_bytes_def)

lemma no_data: "datalen q = 0 \<Longrightarrow> data_bytes q = []" "data_bytes (q\<lparr>datalen := 0\<rparr>) = []"
  by (simp_all add: data_bytes_def)

lemma queue_held_index: "queue_held l n (q\<lparr>sq_index := i\<rparr>) = queue_held l n q"
  by (simp add: queue_held_def)

lemma add_char_held: "queue_held l n q \<Longrightarrow> headerlen q < l \<Longrightarrow> queue_held l n (add_char sock c q)"
  by (auto simp: queue_held_def add_char_def)

lemma add_char_fields: "sq_index (add_char sock c q) = Suc (headerlen q)" "headerlen (add_char sock c q) = Suc (headerlen q)"
    "datalen (add_char sock c q) = datalen q"
  by (simp_all add: add_char_def)

lemma Socket_getch_byte:
  assumes "sock_inv al sock st" "sock_held sock l n st" "sock_cursor sock st < l" "Socket_getch al sock st = Inr (Inr c, st')"
  shows "sock_inv al sock st' \<and> sock_held sock l n st' \<and> sock_stream sock st' = sock_stream sock st \<and>
    sock_cursor sock st < length (sock_stream sock st) \<and> c = sock_stream sock st ! sock_cursor sock st \<and>
    sock_cursor sock st' = Suc (sock_cursor sock st)"
  using assms(1-3)
proof (cases rule: Socket_getch_cases)
  case (kept b)
  have "queue_ok (mine sock (buffers st))" using assms(1) by (simp add: sock_inv_def reading_mine)
  with kept assms show ?thesis
    by (auto simp: sock_defs index_bytes queue_held_index nth_append queue_okD(4))
next
  case (byte b ch p)
  have ok: "queue_ok (mine sock (buffers st))" using assms(1) by (simp add: sock_inv_def reading_mine)
  have "headerlen (mine sock (buffers st)) \<le> 4" using byte(2) assms(2) by (auto simp: sock_held_def queue_held_def)
  note add = add_char_ok [OF ok this]
  from byte assms add recv_data(1) [OF byte(4)] queue_okD(4) [OF ok] show ?thesis
    by (auto simp: sock_defs add_char_held add_char_fields nth_append no_data)
qed (use assms(4) in simp_all)

lemma Socket_getch_code:
  assumes "sock_inv al sock st" "sock_held sock l n st" "sock_cursor sock st < l"
    "Socket_getch al sock st = Inr (Inl rc, st')" "rc = TCPSOCKET_INTERRUPTED"
  shows "sock_inv al sock st' \<and> sock_held sock l n st' \<and> sock_stream sock st' = sock_stream sock st \<and> sock_cursor sock st' = 0"
  using assms(1-3)
proof (cases rule: Socket_getch_cases)
  case (again b p)
  with assms recv_error(1) [OF again(4)] show ?thesis
    by (auto simp: sock_defs queue_held_def keep_data_bytes no_data)
qed (use assms(4,5) in \<open>simp_all add: transport_codes\<close>)

lemma Socket_getch_live:
  assumes "sock_inv al sock st" "sock_held sock l n st" "sock_cursor sock st < l"
    "sock_cursor sock st < length (sock_stream sock st)" "Socket_getch al sock st = Inr (r, st')" "sock_calm sock st"
  shows "sock_calm sock st' \<and> sock_got sock st + sock_credit sock st \<le> sock_got sock st' + sock_credit sock st' \<and>
    sock_answers sock st' \<le> sock_answers sock st \<and>
    (\<forall>rc. r = Inl rc \<longrightarrow> rc = TCPSOCKET_INTERRUPTED \<and> sock_got sock st' < l \<and>
      (sock_answers sock st' < sock_answers sock st \<or> sock_answers sock st' = 0))"
  using assms(1-3)
proof (cases rule: Socket_getch_cases)
  case (kept b)
  with assms(5,6) show ?thesis by (auto simp: sock_defs)
next
  case (byte b ch p)
  with assms(5,6) recv_data [OF byte(4)] show ?thesis
    by (auto simp: sock_defs add_char_fields)
next
  case (again b p)
  have ok: "queue_ok (mine sock (buffers st))" using assms(1) by (simp add: sock_inv_def reading_mine)
  with assms(4) again(1,3) have "incoming (peers st sock) \<noteq> []"
    by (auto simp: sock_defs no_data queue_okD(4))
  with again assms(5,6) recv_error [OF again(4)] show ?thesis
    by (auto simp: sock_defs keep_data_bytes)
qed (use assms(6) in simp_all)

text \<open>At the end of the header the cursor is at the end of what is kept of it.\<close>

lemma held_at_end:
  assumes "sock_inv al sock st" "sock_held sock l n st" "sock_cursor sock st = l"
  shows "headerlen (mine sock (buffers st)) = l" "length (head_bytes (mine sock (buffers st))) = l"
proof -
  have ok: "queue_ok (mine sock (buffers st))" using assms(1) by (simp add: sock_inv_def reading_mine)
  then show "headerlen (mine sock (buffers st)) = l"
    using assms(2,3) queue_okD(2) [OF ok] by (auto simp: sock_held_def queue_held_def sock_cursor_def)
  then show "length (head_bytes (mine sock (buffers st))) = l" using queue_okD(4) [OF ok] by simp
qed

lemma reset_held: "l \<le> 5 \<Longrightarrow> n < 268435456 \<Longrightarrow> queue_held l n (reset_queue q)"
  by (simp add: queue_held_def reset_queue_def)

lemma data_bytes_length: "queue_ok q \<Longrightarrow> length (data_bytes q) = datalen q"
  by (auto simp: queue_ok_def data_bytes_def)

lemma Socket_getdata_done:
  assumes "sock_inv al sock st" "sock_held sock l n st" "sock_cursor sock st = l"
    "Socket_getdata al sock n st = Inr ((v, m), st')" "n = 0 \<or> v \<noteq> None" "\<not> m < n"
  shows "body_of n v = Inr (take n (drop l (sock_stream sock st))) \<and> sock_inv al sock st' \<and>
    sock_stream sock st' = drop (l + n) (sock_stream sock st) \<and> sock_cursor sock st' = 0 \<and>
    (\<forall>l' n'. l' \<le> 5 \<longrightarrow> n' < 268435456 \<longrightarrow> sock_held sock l' n' st')"
proof (cases "n = 0")
  case True
  with assms(2) have "datalen (mine sock (buffers st)) = 0" by (auto simp: sock_held_def queue_held_def)
  with True assms Socket_getdata_zero [OF assms(1)] held_at_end [OF assms(1-3)] show ?thesis
    by (auto simp: sock_defs body_of_def reset_queue_bytes reset_held no_data) (simp_all add: reset_queue_def)
next
  case False
  then have n: "0 < n" by simp
  from assms(1,2) n show ?thesis
  proof (cases rule: Socket_getdata_cases)
    case (data bs p b v' q')
    let ?q = "mine sock (buffers st)"
    have eq: "v = Some v'" "m = datalen ?q + length bs" "st' = set_peer sock p (st\<lparr>buffers := b\<rparr>)"
      using data(10) assms(4) by simp_all
    have full: "datalen ?q + length bs = n"
      using assms(2,6) data(2) eq(2) n by (auto simp: sock_held_def queue_held_def)
    have inc: "incoming (peers st sock) = bs @ incoming p"
      using data(1) recv_data(1) recv_error(1) by fastforce
    have "queue_ok ?q" using assms(1) by (simp add: sock_inv_def reading_mine)
    then have len: "length (data_bytes ?q @ bs) = n" using full by (simp add: data_bytes_length)
    have body: "take n (drop l (sock_stream sock st)) = data_bytes ?q @ bs"
      "drop (l + n) (sock_stream sock st) = incoming p"
      using held_at_end [OF assms(1-3)] inc len by (simp_all add: sock_stream_def)
    have v: "take n v' = map Some (data_bytes ?q @ bs)" using data(3) full by simp
    then have "length (take n v') = n" using len by (metis length_map)
    then have "n \<le> length v'" by simp
    with n v have "body_of n (Some v') = Inr (data_bytes ?q @ bs)" by (auto simp: body_of_def)
    with body eq data full assms(1) show ?thesis
      by (auto simp: sock_inv_def sock_held_def sock_cursor_def sock_stream_def set_peer_def reset_queue_bytes reset_held)
        (simp_all add: reset_queue_def)
  qed (use assms(4,5) n in simp_all)
qed

lemma Socket_getdata_partial:
  assumes "sock_inv al sock st" "sock_held sock l n st" "sock_cursor sock st = l"
    "Socket_getdata al sock n st = Inr ((v, m), st')" "v \<noteq> None" "m < n"
  shows "sock_inv al sock st' \<and> sock_held sock l n st' \<and> sock_stream sock st' = sock_stream sock st \<and> sock_cursor sock st' = 0"
proof -
  have n: "0 < n" using assms(6) by simp
  from assms(1,2) n show ?thesis
  proof (cases rule: Socket_getdata_cases)
    case (data bs p b v' q')
    let ?q = "mine sock (buffers st)"
    have eq: "m = datalen ?q + length bs" "st' = set_peer sock p (st\<lparr>buffers := b\<rparr>)"
      using data(10) assms(4) by simp_all
    then have mine: "mine sock b = keep_data sock m q'" using data(9) assms(6) by simp
    have inc: "incoming (peers st sock) = bs @ incoming p"
      using data(1) recv_data(1) recv_error(1) by fastforce
    from mine inc eq data held_at_end(1) [OF assms(1-3)] assms(1,2,6) show ?thesis
      by (auto simp: sock_inv_def sock_held_def queue_held_def sock_stream_def sock_cursor_def set_peer_def keep_data_bytes)
  qed (use assms(4,5) in simp_all)
qed

lemma Socket_getdata_live:
  assumes "sock_inv al sock st" "sock_held sock l n st" "sock_cursor sock st = l" "l + n \<le> length (sock_stream sock st)"
    "Socket_getdata al sock n st = Inr ((v, m), st')" "sock_calm sock st"
  shows "sock_calm sock st' \<and> v \<noteq> None \<and> sock_answers sock st' \<le> sock_answers sock st \<and>
    (if m < n then sock_got sock st + sock_credit sock st \<le> sock_got sock st' + sock_credit sock st' \<and>
       sock_got sock st' < l + n \<and> (sock_answers sock st' < sock_answers sock st \<or> sock_answers sock st' = 0)
     else sock_got sock st + sock_credit sock st \<le> l + n + sock_credit sock st')"
proof (cases "n = 0")
  case True
  with assms(2) have "datalen (mine sock (buffers st)) = 0" by (auto simp: sock_held_def queue_held_def)
  with True assms Socket_getdata_zero [OF assms(1)] held_at_end(1) [OF assms(1-3)] show ?thesis
    by (auto simp: sock_defs)
next
  case False
  then have n: "0 < n" by simp
  from assms(1,2) n show ?thesis
  proof (cases rule: Socket_getdata_cases)
    case (data bs p b v' q')
    let ?q = "mine sock (buffers st)"
    have eq: "v = Some v'" "m = datalen ?q + length bs" "st' = set_peer sock p (st\<lparr>buffers := b\<rparr>)"
      using data(10) assms(5) by simp_all
    have dn: "datalen ?q < n" using assms(2) n by (auto simp: sock_held_def queue_held_def)
    have h: "headerlen ?q = l" by (rule held_at_end(1) [OF assms(1-3)])
    have "queue_ok ?q" using assms(1) by (simp add: sock_inv_def reading_mine)
    then have inc: "incoming (peers st sock) \<noteq> []"
      using assms(4) dn held_at_end(2) [OF assms(1-3)] by (auto simp: sock_stream_def data_bytes_length)
    have calm: "peer_calm (peers st sock)" using assms(6) by (simp add: sock_calm_def)
    have net: "peer_calm p \<and> length (arrivals p) \<le> length (arrivals (peers st sock)) \<and>
        (length (arrivals p) < length (arrivals (peers st sock)) \<or> length (arrivals p) = 0) \<and>
        peer_credit (peers st sock) \<le> peer_credit p + length bs"
      using data(1)
    proof (elim disjE conjE)
      assume "recv (n - datalen ?q) (peers st sock) = (Received bs, p)"
      from recv_data(3,4) [OF this] calm show ?thesis
        by (cases bs) auto
    next
      assume "recv (n - datalen ?q) (peers st sock) = (Recv_error EAGAIN, p)"
      from recv_error [OF this] calm inc dn show ?thesis
        by auto
    qed
    have "headerlen (mine sock b) = (if m = n then 0 else l)" "datalen (mine sock b) = (if m = n then 0 else m)"
      using data(5,9) eq(2) h by (auto simp: keep_data_bytes reset_queue_def)
    with net eq h dn data(2) n show ?thesis by (auto simp: sock_defs)
  qed (use assms(6) in simp_all)
qed

interpretation sock: resumable "Socket_getch al sock" "Socket_getdata al sock" "sock_inv al sock" "sock_stream sock"
  "sock_cursor sock" "sock_held sock" "sock_got sock" "sock_credit sock" "sock_answers sock" "sock_calm sock"
proof (unfold_locales, goal_cases)
  case (1 st l n)
  then show ?case by (cases rule: Socket_getch_cases) auto
next
  case (4 st l n)
  then show ?case
  proof (cases "n = 0")
    case True
    with Socket_getdata_zero [OF 4(1)] show ?thesis by blast
  next
    case False
    then have "0 < n" by simp
    with 4(1,2) show ?thesis by (cases rule: Socket_getdata_cases) auto
  qed
qed (rule Socket_getch_byte Socket_getch_code Socket_getdata_done Socket_getdata_partial Socket_getch_live Socket_getdata_live;
    assumption | simp add: sock_credit_def sock_answers_def peer_credit_def)+

section \<open>Packets on a socket\<close>

lemma fresh_at_frames:
  assumes "\<forall>n. al n" "sock \<noteq> 0" "buffers st = snd (SocketBuffer_initialize al)"
    and "incoming (peers st sock) = wire_frames fs" "\<forall>f \<in> set fs. length (snd f) < 268435456"
  shows "sock.at_frames al sock fs st" "sock_got sock st = 0"
proof -
  have b: "buffers st = \<lparr>def_queue = Queue empty_queue, queues = [], writes = []\<rparr>"
    using assms(1,3) by (simp add: SocketBuffer_initialize_def SocketBuffer_newDefQ_def empty_queue_def malloc_ok_def PTRDIFF_MAX_def)
  have ok: "queue_ok empty_queue" by (simp add: queue_ok_def empty_queue_def)
  have m: "mine sock (buffers st) = empty_queue" by (simp add: b mine_def find_queue_def)
  then show "sock_got sock st = 0" by (simp add: sock_got_def empty_queue_def)
  have "reading sock (buffers st)" using ok assms(2) by (simp add: b reading_def def_ok_def empty_queue_def)
  moreover have held: "sock_held sock l n st" if "l \<le> 5" "n < 268435456" for l n
    using that by (simp add: sock_held_def m queue_held_def empty_queue_def)
  ultimately show "sock.at_frames al sock fs st"
    using assms m held [of 1 0] header_len_le
    by (auto simp: sock.at_frames_def sock_inv_def sock_cursor_def sock_stream_def head_bytes_def data_bytes_def empty_queue_def
        intro!: held exI [of _ 1])
qed

text \<open>
  C21: However the bytes arrive, the packets that repeated calls of the packet reader take from a
  socket are the first packets the peer sent, in order, each with all of its bytes: a call that
  ends with \<^verbatim>\<open>TCPSOCKET_INTERRUPTED\<close> in the middle of a packet loses nothing, no byte is taken twice, and
  no buffer is overrun.
\<close>
theorem socket_packets_in_order:
  assumes "\<forall>n. al n" "sock \<noteq> 0" "buffers st = snd (SocketBuffer_initialize al)"
    and "incoming (peers st sock) = wire_frames fs" "\<forall>f \<in> set fs. length (snd f) < 268435456"
  shows "\<exists>m st'. read_frames (read_frame (Socket_getch al sock) (Socket_getdata al sock)) k st = Inr (take m fs, st')"
  using sock.read_frames_prefix [OF fresh_at_frames(1) [OF assms]] by blast

definition sample_peer :: peer where
  "sample_peer = \<lparr>incoming = [0x40, 2, 0, 7, 0xD0, 0],
     arrivals = [Avail 1, Avail 0, Avail 9, Avail 1, Avail 0, Avail 9, Avail 2, Avail 9], room = [], sent = []\<rparr>"

definition sample_sockets :: "peer \<Rightarrow> sockets" where
  "sample_sockets p = \<lparr>buffers = snd (SocketBuffer_initialize (\<lambda>_. True)), clientsds = [3], cur_clientsds = None,
     connect_pending = [], write_pending = \<lparr>items = [], current_item = None\<rparr>, pending_wset = [], rset = [], rset_saved = [3],
     wset = [], maxfdp1 = 4, peers = (\<lambda>_. p), released = [], completed = []\<rparr>"

definition sample_frames :: "(byte \<times> byte list) list" where
  "sample_frames = [(0x40, [0, 7]), (0xD0, [])]"

lemma sample_wire: "incoming (peers (sample_sockets sample_peer) 3) = wire_frames sample_frames"
  by (simp add: sample_sockets_def sample_peer_def sample_frames_def wire_frames_def framed_def encode_small)

theorem socket_packets_in_order_witness:
  "\<exists>m st'. read_frames (read_frame (Socket_getch (\<lambda>_. True) 3) (Socket_getdata (\<lambda>_. True) 3)) 2 (sample_sockets sample_peer) =
     Inr (take m sample_frames, st')"
  by (rule socket_packets_in_order) (use sample_wire in \<open>simp_all add: sample_sockets_def sample_frames_def\<close>)

text \<open>
  C22: Every packet arrives: when the network does not fail and answers with data at least as often
  as there are bytes to come, then after at most one call per answer and per packet all packets the
  peer sent have been read.
\<close>
theorem socket_packets_arrive:
  assumes "\<forall>n. al n" "sock \<noteq> 0" "buffers st = snd (SocketBuffer_initialize al)"
    and "incoming (peers st sock) = wire_frames fs" "\<forall>f \<in> set fs. length (snd f) < 268435456"
    and "\<forall>a \<in> set (arrivals (peers st sock)). \<exists>k. a = Avail k"
    and "length (wire_frames fs) \<le> length (filter (\<lambda>a. \<exists>k > 0. a = Avail k) (arrivals (peers st sock)))"
    and "length (arrivals (peers st sock)) + length fs \<le> k"
  shows "\<exists>st'. read_frames (read_frame (Socket_getch al sock) (Socket_getdata al sock)) k st = Inr (fs, st')"
proof (rule sock.read_frames_all [OF fresh_at_frames(1) [OF assms(1-5)]])
  have "has_data = (\<lambda>a. \<exists>k > 0. a = Avail k)" by (auto simp: has_data_def split: arrival.splits)
  then show "length (wire_frames fs) \<le> sock_got sock st + sock_credit sock st"
    using assms(7) by (simp add: sock_credit_def peer_credit_def)
  show "sock_calm sock st" using assms(6) by (auto simp: sock_calm_def peer_calm_def split: arrival.splits)
  show "sock_answers sock st + length fs \<le> k" using assms(8) by (simp add: sock_answers_def)
qed

theorem socket_packets_arrive_witness:
  "\<exists>st'. read_frames (read_frame (Socket_getch (\<lambda>_. True) 3) (Socket_getdata (\<lambda>_. True) 3)) 10 (sample_sockets sample_peer) =
     Inr (sample_frames, st')"
proof (rule socket_packets_arrive [OF _ _ _ sample_wire])
  have "length (wire_frames sample_frames) = 6"
    using sample_wire by (simp add: sample_sockets_def sample_peer_def flip: sample_wire)
  then show "length (wire_frames sample_frames) \<le>
      length (filter (\<lambda>a. \<exists>k > 0. a = Avail k) (arrivals (peers (sample_sockets sample_peer) 3)))"
    by (simp add: sample_sockets_def sample_peer_def)
qed (simp_all add: sample_sockets_def sample_peer_def sample_frames_def)

end
