(* ===== verification/Socket_Write.thy ===== *)
theory Socket_Write
  imports Socket_Io
begin

text \<open>
  Writing packets to sockets: \<^verbatim>\<open>Socket_putdatas\<close> and, for what could not be written at once,
  \<^verbatim>\<open>Socket_continueWrite\<close>. Shown: the bytes that leave are those of the packet, in order; the buffers the
  module owns are released exactly once; and when there is room often enough the write completes.
\<close>

section \<open>A pending write\<close>

text \<open>The buffers of a packet, each with its owner: the first belongs to the module.\<close>

definition all_bufs :: "byte list \<Rightarrow> packet_buffers \<Rightarrow> packet_buffers" where
  "all_bufs buf0 bufs = (buf0, True) # bufs"

definition bytes_of :: "packet_buffers \<Rightarrow> byte list" where
  "bytes_of vs = concat (map fst vs)"

definition owned_of :: "packet_buffers \<Rightarrow> byte list list" where
  "owned_of vs = map fst (filter snd vs)"

text \<open>\<open>m\<close> bytes of the packet were written, the rest is pending.\<close>

definition pending :: "int \<Rightarrow> packet_buffers \<Rightarrow> nat \<Rightarrow> pending_writes" where
  "pending sock vs m = \<lparr>pw_socket = sock, pw_total = length (bytes_of vs), pw_bytes = m,
     pw_iovecs = map (Some \<circ> fst) vs, pw_frees = map snd vs\<rparr>"

definition writing :: "int \<Rightarrow> packet_buffers \<Rightarrow> nat \<Rightarrow> sockets \<Rightarrow> bool" where
  "writing sock vs m st \<longleftrightarrow> m < length (bytes_of vs) \<and>
     (\<exists>i. SocketBuffer_getWrite sock (buffers st) = Some i \<and> writes (buffers st) ! i = pending sock vs m)"

text \<open>Continuing at most \<open>k\<close> times, as \<^verbatim>\<open>Socket_continueWrites\<close> does whenever the socket is writable.\<close>

fun continue_run :: "int \<Rightarrow> nat \<Rightarrow> sockets \<Rightarrow> (int \<times> sockets) res" where
  "continue_run sock 0 st = Inr (0, st)"
| "continue_run sock (Suc k) st =
     bindR (Socket_continueWrite sock st) (\<lambda>(rc, st'). if rc = 0 then continue_run sock k st' else Inr (rc, st'))"

definition send_packet ::
  "(int \<Rightarrow> bool) \<Rightarrow> int \<Rightarrow> byte list \<Rightarrow> packet_buffers \<Rightarrow> nat \<Rightarrow> sockets \<Rightarrow> (int \<times> sockets) res" where
  "send_packet al sock buf0 bufs k st =
     bindR (Socket_putdatas al sock buf0 bufs st) (\<lambda>(rc, st1).
       if rc = TCPSOCKET_INTERRUPTED then continue_run sock k st1
       else Inr (if rc = TCPSOCKET_COMPLETE then 1 else rc, st1))"

text \<open>A continued write starts where the last one stopped, and never with nothing.\<close>

lemma continue_bufs_done: "b \<le> cur \<Longrightarrow> continue_bufs b cur vs = vs"
  by (induction vs arbitrary: cur) auto

lemma continue_bufs_rest:
  assumes "cur \<le> b" "b < cur + length (concat vs)"
  shows "\<exists>more. drop (b - cur) (concat vs) = concat (continue_bufs b cur vs) @ more \<and> concat (continue_bufs b cur vs) \<noteq> []"
  using assms
proof (induction vs arbitrary: cur)
  case (Cons v vs)
  show ?case
  proof (cases "b \<le> cur")
    case True
    with Cons.prems show ?thesis
      by (intro exI [of _ "[]"]) (auto simp: continue_bufs_done simp del: concat_eq_Nil_conv)
  next
    case False
    show ?thesis
    proof (cases "b < cur + length v")
      case True
      with False show ?thesis by (intro exI [of _ "concat vs"]) simp
    next
      case ge: False
      with Cons.IH [of "cur + length v"] Cons.prems False obtain more
        where "drop (b - (cur + length v)) (concat vs) = concat (continue_bufs b (cur + length v) vs) @ more"
          "concat (continue_bufs b (cur + length v) vs) \<noteq> []" by auto
      with ge False show ?thesis by (intro exI [of _ more]) simp
    qed
  qed
qed simp

section \<open>The network\<close>

definition has_room :: "arrival \<Rightarrow> bool" where
  "has_room a = (case a of Avail k \<Rightarrow> 0 < k | _ \<Rightarrow> False)"

definition room_calm :: "peer \<Rightarrow> bool" where
  "room_calm p \<longleftrightarrow> (\<forall>a \<in> set (room p). case a of Avail k \<Rightarrow> True | _ \<Rightarrow> False)"

definition room_credit :: "peer \<Rightarrow> nat" where
  "room_credit p = length (filter has_room (room p))"

lemmas room_defs = has_room_def room_calm_def room_credit_def

text \<open>\<open>n\<close> bytes of \<open>bs\<close> are taken; when none are although there were some, it was no use of the credit.\<close>

lemma writev_cases:
  assumes "bs \<noteq> []"
  obtains (wrote) n p' where "writev bs p = (Written n, p')" "0 < n" "n \<le> length bs" "sent p' = sent p @ take n bs"
      "length (room p') < length (room p)" "room_calm p \<longrightarrow> room_calm p' \<and> room_credit p \<le> Suc (room_credit p')"
    | (again) p' where "writev bs p = (Write_error EAGAIN, p')" "sent p' = sent p"
      "room_calm p \<longrightarrow> room_calm p' \<and> room_credit p' = room_credit p \<and>
        (length (room p') < length (room p) \<or> length (room p') = 0)"
    | (err) e p' where "writev bs p = (Write_error e, p')" "e \<noteq> EAGAIN" "sent p' = sent p" "\<not> room_calm p"
proof (cases "room p")
  case Nil
  with that(2) show thesis by (simp add: writev.simps room_defs)
next
  case (Cons a rs)
  show thesis
  proof (cases a)
    case (Avail k)
    show thesis
    proof (cases "k = 0")
      case True
      with Cons Avail assms that(2) show thesis by (simp add: writev.simps room_defs)
    next
      case False
      with Cons Avail assms that(1) show thesis by (simp add: writev.simps room_defs Let_def)
    qed
  next
    case Closed
    with Cons that(3) show thesis by (simp add: writev.simps room_defs EPIPE_def EAGAIN_def)
  next
    case (Failed e)
    with Cons that(2,3) show thesis by (cases "e = EAGAIN") (simp_all add: writev.simps room_defs)
  qed
qed

section \<open>Continuing\<close>

lemma Socket_writev_Some:
  "Socket_writev sock (map Some vs) st =
     (case writev (concat vs) (peers st sock) of
        (Written n, p) \<Rightarrow> Inr (int n, n, set_peer sock p st)
      | (Write_error err, p) \<Rightarrow>
          Inr (if err = EWOULDBLOCK \<or> err = EAGAIN then TCPSOCKET_INTERRUPTED else SOCKET_ERROR, 0, set_peer sock p st))"
proof -
  have "None \<notin> set (map Some vs)" by auto
  then show ?thesis by (simp add: Socket_writev_def comp_def)
qed

lemma owned_pending: "owned (pending sock vs m) = owned_of vs"
  by (induction vs) (auto simp: owned_def pending_def owned_of_def)

lemma pending_the: "map the (pw_iovecs (pending sock vs m)) = map fst vs" "None \<notin> set (pw_iovecs (pending sock vs m))"
  by (auto simp: pending_def)

lemma writing_put:
  assumes "SocketBuffer_getWrite sock (buffers st) = Some i" "m < length (bytes_of vs)" "buffers st' = buffers st"
  shows "writing sock vs m (put_write i (pending sock vs m) st')"
proof -
  have "i < length (writes (buffers st))" using assms(1) by (simp add: SocketBuffer_getWrite_def first_index_Some)
  moreover have "first_index (pending_socketcompare sock) ((writes (buffers st))[i := pending sock vs m]) = Some i"
    using assms(1) by (auto simp: SocketBuffer_getWrite_def first_index_Some pending_socketcompare_def pending_def)
  ultimately show ?thesis using assms(2,3) by (simp add: writing_def put_write_def SocketBuffer_getWrite_def)
qed

definition progress :: "int \<Rightarrow> nat \<Rightarrow> nat \<Rightarrow> sockets \<Rightarrow> sockets \<Rightarrow> bool" where
  "progress sock m m' st st' \<longleftrightarrow> (let p = peers st sock; p' = peers st' sock in
     room_calm p \<longrightarrow> room_calm p' \<and> m + room_credit p \<le> m' + room_credit p' \<and>
       (length (room p') < length (room p) \<or> length (room p') = 0))"

lemma continue_step:
  assumes "writing sock vs m st"
  obtains (complete) st' where "Socket_continueWrite sock st = Inr (1, st')"
      "sent (peers st' sock) = sent (peers st sock) @ drop m (bytes_of vs)" "released st' = released st @ owned_of vs"
    | (more) m' st' where "Socket_continueWrite sock st = Inr (0, st')" "m \<le> m'" "writing sock vs m' st'"
      "sent (peers st' sock) = sent (peers st sock) @ take (m' - m) (drop m (bytes_of vs))" "released st' = released st"
      "progress sock m m' st st'"
    | (err) st' where "Socket_continueWrite sock st = Inr (SOCKET_ERROR, st')" "\<not> room_calm (peers st sock)"
      "sent (peers st' sock) = sent (peers st sock)" "released st' = released st @ owned_of vs"
proof -
  obtain i where i: "SocketBuffer_getWrite sock (buffers st) = Some i" "writes (buffers st) ! i = pending sock vs m"
    "m < length (bytes_of vs)" using assms by (auto simp: writing_def)
  let ?bs = "concat (continue_bufs m 0 (map fst vs))"
  obtain rest where rest: "drop m (bytes_of vs) = ?bs @ rest" "?bs \<noteq> []"
    using continue_bufs_rest [of 0 m "map fst vs"] i(3) by (auto simp: bytes_of_def)
  note run = Socket_continueWrite_def i(1,2) pending_the Socket_writev_Some owned_pending
  have upd: "(pending sock vs m)\<lparr>pw_bytes := m'\<rparr> = pending sock vs m'" for m' by (simp add: pending_def)
  have fields: "pw_bytes (pending sock vs k) = k" "pw_total (pending sock vs k) = length (bytes_of vs)" for k
    by (simp_all add: pending_def)
  from rest(2) show thesis
  proof (cases rule: writev_cases [of _ "peers st sock"])
    case (wrote n p')
    let ?st = "set_peer sock p' st"
    have n: "m + n \<le> length (bytes_of vs)" using rest(1) wrote(3) by (metis add.commute i(3) le_diff_conv2 length_append
        length_drop less_imp_le trans_le_add1)
    have out: "take n ?bs = take n (drop m (bytes_of vs))" using rest(1) wrote(3) by simp
    show thesis
    proof (cases "m + n = length (bytes_of vs)")
      case True
      then have "take n (drop m (bytes_of vs)) = drop m (bytes_of vs)" by simp
      with True wrote out show thesis
        by (intro complete [of "(put_write i (free_owned (pending sock vs (m + n))) ?st)\<lparr>released := released st @ owned_of vs\<rparr>"])
          (simp_all add: run upd fields Let_def transport_codes put_write_def set_peer_def)
    next
      case False
      with n have lt: "m + n < length (bytes_of vs)" by simp
      have "room_calm (peers st sock) \<longrightarrow> room_credit (peers st sock) \<le> n + room_credit p'" using wrote(2,6) by auto
      with lt wrote out writing_put [OF i(1) lt, of ?st] False show thesis
        by (intro more [of "put_write i (pending sock vs (m + n)) ?st" "m + n"])
          (simp_all add: run upd fields Let_def transport_codes put_write_def set_peer_def progress_def)
    qed
  next
    case (again p')
    let ?st = "set_peer sock p' st"
    from again writing_put [OF i(1,3), of ?st] i(3) show thesis
      by (intro more [of "put_write i (pending sock vs m) ?st" m])
        (simp_all add: run upd fields Let_def transport_codes put_write_def set_peer_def progress_def)
  next
    case (err e p')
    then show thesis
      by (intro that(3) [of "(put_write i (free_owned (pending sock vs m)) (set_peer sock p' st))\<lparr>released := released st @ owned_of vs\<rparr>"])
        (simp_all add: run fields Let_def EWOULDBLOCK_def EAGAIN_def put_write_def set_peer_def)
  qed
qed

section \<open>Writing a packet\<close>

text \<open>A socket with nothing pending.\<close>

definition can_write :: "int \<Rightarrow> sockets \<Rightarrow> bool" where
  "can_write sock st \<longleftrightarrow> sock \<notin> set (items (write_pending st)) \<and> SocketBuffer_getWrite sock (buffers st) = None"

lemma putdatas_step:
  fixes buf0 :: "byte list"
  assumes w: "can_write sock st" and al: "\<forall>n. al n" and len: "length bufs < 5"
  defines "vs \<equiv> all_bufs buf0 bufs"
  assumes ne: "bytes_of vs \<noteq> []"
  obtains (complete) st' where "Socket_putdatas al sock buf0 bufs st = Inr (TCPSOCKET_COMPLETE, st')"
      "sent (peers st' sock) = sent (peers st sock) @ bytes_of vs" "released st' = released st"
    | (more) m st' where "Socket_putdatas al sock buf0 bufs st = Inr (TCPSOCKET_INTERRUPTED, st')" "writing sock vs m st'"
      "sent (peers st' sock) = sent (peers st sock) @ take m (bytes_of vs)" "released st' = released st" "progress sock 0 m st st'"
    | (err) st' where "Socket_putdatas al sock buf0 bufs st = Inr (SOCKET_ERROR, st')" "\<not> room_calm (peers st sock)"
      "sent (peers st' sock) = sent (peers st sock)" "released st' = released st"
proof -
  have mal: "malloc_ok al 4" "malloc_ok al 24" "malloc_ok al 128" using al by (simp_all add: malloc_ok_def PTRDIFF_MAX_def)
  have tot: "length buf0 + sum_list (map (length \<circ> fst) bufs) = length (bytes_of vs)"
    by (simp add: bytes_of_def vs_def all_bufs_def length_concat comp_def)
  have iov: "Some buf0 # map (Some \<circ> fst) bufs = map (Some \<circ> fst) vs" "True # map snd bufs = map snd vs"
    by (simp_all add: vs_def all_bufs_def)
  note wv = Socket_writev_Some [of sock "map fst vs" st, folded bytes_of_def, unfolded map_map]
  have npw: "Socket_noPendingWrites sock st = (True, st)"
    using w by (simp add: can_write_def Socket_noPendingWrites_def find_item_def)
  note run = Socket_putdatas_def npw tot iov wv len mal SocketBuffer_pendingWrite_def
  have new: "SocketBuffer_getWrite sock (b\<lparr>writes := ws @ [pending sock vs m]\<rparr>) = Some (length ws)"
    if "writes b = ws" "SocketBuffer_getWrite sock b = None" for ws m b
    using that by (auto simp: SocketBuffer_getWrite_def first_index_Some first_index_None nth_append pending_socketcompare_def pending_def)
  define later where "later p m = (set_peer sock p st)\<lparr>
      buffers := (buffers st)\<lparr>writes := writes (buffers st) @ [pending sock vs m]\<rparr>,
      write_pending := (write_pending st)\<lparr>items := items (write_pending st) @ [sock]\<rparr>,
      pending_wset := FD_SET sock (pending_wset st)\<rparr>" for p m
  have later: "writing sock vs m (later p m)" if "m < length (bytes_of vs)" for p m
    using that w new by (auto simp: writing_def later_def can_write_def set_peer_def)
  from ne show thesis
  proof (cases rule: writev_cases [of _ "peers st sock"])
    case (wrote n p')
    show thesis
    proof (cases "n = length (bytes_of vs)")
      case True
      with wrote show thesis
        by (intro complete [of "set_peer sock p' st"]) (simp_all add: run transport_codes set_peer_def Let_def)
    next
      case False
      have "room_calm (peers st sock) \<longrightarrow> room_credit (peers st sock) \<le> n + room_credit p'" using wrote(2,6) by auto
      with wrote False later [of n p'] show thesis
        by (intro more [of "later p' n" n])
          (simp_all add: run transport_codes set_peer_def later_def progress_def pending_def Let_def)
    qed
  next
    case (again p')
    with ne later [of 0 p'] show thesis
      by (intro more [of "later p' 0" 0])
        (simp_all add: run transport_codes set_peer_def later_def progress_def pending_def Let_def)
  next
    case (err e p')
    then show thesis
      by (intro that(3) [of "set_peer sock p' st"])
        (simp_all add: run EWOULDBLOCK_def EAGAIN_def set_peer_def Let_def)
  qed
qed

lemma continue_run_ok:
  assumes "writing sock vs m st"
  shows "\<exists>rc st' j. continue_run sock k st = Inr (rc, st') \<and>
    sent (peers st' sock) = sent (peers st sock) @ take j (drop m (bytes_of vs)) \<and>
    (rc = 1 \<longrightarrow> m + j = length (bytes_of vs)) \<and> (rc = 0 \<longrightarrow> m + j < length (bytes_of vs)) \<and>
    released st' = released st @ (if rc = 0 then [] else owned_of vs)"
  using assms
proof (induction k arbitrary: m st)
  case 0
  then show ?case by (intro exI [of _ 0]) (auto simp: writing_def)
next
  case (Suc k)
  from Suc.prems show ?case
  proof (cases rule: continue_step)
    case (complete st')
    moreover have "m < length (bytes_of vs)" using Suc.prems by (simp add: writing_def)
    ultimately show ?thesis by (intro exI [of _ 1] exI [of _ st'] exI [of _ "length (bytes_of vs) - m"]) auto
  next
    case (more m' st')
    from Suc.IH [OF more(3)] obtain rc st'' j where r: "continue_run sock k st' = Inr (rc, st'')"
      "sent (peers st'' sock) = sent (peers st' sock) @ take j (drop m' (bytes_of vs))"
      "rc = 1 \<longrightarrow> m' + j = length (bytes_of vs)" "rc = 0 \<longrightarrow> m' + j < length (bytes_of vs)"
      "released st'' = released st' @ (if rc = 0 then [] else owned_of vs)" by blast
    have "take (m' - m) (drop m (bytes_of vs)) @ take j (drop m' (bytes_of vs)) = take (m' - m + j) (drop m (bytes_of vs))"
      using more(2) take_add [of "m' - m" j "drop m (bytes_of vs)"] by (simp add: drop_drop)
    with r more show ?thesis
      by (intro exI [of _ rc] exI [of _ st''] exI [of _ "m' - m + j"]) auto
  next
    case (err st')
    then show ?thesis
      by (intro exI [of _ SOCKET_ERROR] exI [of _ st'] exI [of _ 0]) (auto simp: transport_codes)
  qed
qed

lemma continue_run_all:
  assumes "writing sock vs m st" "room_calm (peers st sock)" "length (bytes_of vs) \<le> m + room_credit (peers st sock)"
    "length (room (peers st sock)) < k"
  shows "\<exists>st'. continue_run sock k st = Inr (1, st')"
  using assms
proof (induction k arbitrary: m st)
  case (Suc k)
  from Suc.prems(1) show ?case
  proof (cases rule: continue_step)
    case (more m' st')
    then have p: "room_calm (peers st' sock)" "m + room_credit (peers st sock) \<le> m' + room_credit (peers st' sock)"
      "length (room (peers st' sock)) < length (room (peers st sock)) \<or> length (room (peers st' sock)) = 0"
      using Suc.prems(2) by (simp_all add: progress_def Let_def)
    have "room_credit (peers st' sock) \<noteq> 0"
      using p(2) Suc.prems(3) more(3) by (auto simp: writing_def)
    then have "room (peers st' sock) \<noteq> []" by (auto simp: room_credit_def)
    with p Suc.IH [OF more(3)] Suc.prems(3,4) more(1) show ?thesis by simp
  qed (use Suc.prems(2) in simp_all)
qed simp

lemma send_packet_ok:
  assumes "can_write sock st" "\<forall>n. al n" "length bufs < 5" "bytes_of (all_bufs buf0 bufs) \<noteq> []"
  shows "\<exists>rc st' j. send_packet al sock buf0 bufs k st = Inr (rc, st') \<and>
    sent (peers st' sock) = sent (peers st sock) @ take j (bytes_of (all_bufs buf0 bufs)) \<and>
    (rc = 1 \<longrightarrow> length (bytes_of (all_bufs buf0 bufs)) \<le> j) \<and>
    (\<exists>first st1. Socket_putdatas al sock buf0 bufs st = Inr (first, st1) \<and>
       released st' = released st @
         (if first = TCPSOCKET_INTERRUPTED \<and> rc \<noteq> 0 then owned_of (all_bufs buf0 bufs) else [])) \<and>
    (room_calm (peers st sock) \<longrightarrow> length (bytes_of (all_bufs buf0 bufs)) \<le> room_credit (peers st sock) \<longrightarrow>
     length (room (peers st sock)) \<le> k \<longrightarrow> rc = 1)"
  using assms
proof (cases rule: putdatas_step)
  case (complete st')
  then show ?thesis
    by (intro exI [of _ 1] exI [of _ st'] exI [of _ "length (bytes_of (all_bufs buf0 bufs))"]) (simp add: send_packet_def transport_codes)
next
  case (err st')
  then show ?thesis
    by (intro exI [of _ SOCKET_ERROR] exI [of _ st'] exI [of _ 0]) (simp add: send_packet_def transport_codes)
next
  case (more m st')
  obtain rc st'' j where r: "continue_run sock k st' = Inr (rc, st'')"
    "sent (peers st'' sock) = sent (peers st' sock) @ take j (drop m (bytes_of (all_bufs buf0 bufs)))"
    "rc = 1 \<longrightarrow> m + j = length (bytes_of (all_bufs buf0 bufs))"
    "released st'' = released st' @ (if rc = 0 then [] else owned_of (all_bufs buf0 bufs))"
    using continue_run_ok [OF more(2)] by blast
  have live: "rc = 1" if "room_calm (peers st sock)" "length (bytes_of (all_bufs buf0 bufs)) \<le> room_credit (peers st sock)"
      "length (room (peers st sock)) \<le> k"
  proof -
    have p: "room_calm (peers st' sock)" "length (bytes_of (all_bufs buf0 bufs)) \<le> m + room_credit (peers st' sock)"
      "length (room (peers st' sock)) < length (room (peers st sock)) \<or> length (room (peers st' sock)) = 0"
      using more(5) that by (simp_all add: progress_def Let_def)
    have "room_credit (peers st' sock) \<noteq> 0" using p(2) more(2) by (auto simp: writing_def)
    then have "room (peers st' sock) \<noteq> []" by (auto simp: room_credit_def)
    with continue_run_all [OF more(2) p(1,2), of k] p(3) that(3) r(1) show ?thesis by simp
  qed
  have "take m (bytes_of (all_bufs buf0 bufs)) @ take j (drop m (bytes_of (all_bufs buf0 bufs))) = take (m + j) (bytes_of (all_bufs buf0 bufs))" by (simp add: take_add)
  with r more live show ?thesis
    by (intro exI [of _ rc] exI [of _ st''] exI [of _ "m + j"]) (auto simp: send_packet_def)
qed

text \<open>
  C23: Writing a packet: whatever the network accepts, the bytes that leave are an initial part of the
  packet, in order and without gaps. The write reports completion only when all of it has left. A write
  that was left pending and has ended since, completely or with an error, has released each buffer that
  was handed over exactly once; as long as it is pending, and when it never was (the caller keeps the
  buffers then), it has released none. When there is room at least as often as there are bytes, the
  write completes.
\<close>
theorem socket_packet_written:
  assumes "can_write sock st" "\<forall>n. al n" "length bufs < 5" "bytes_of (all_bufs buf0 bufs) \<noteq> []"
  shows "\<exists>rc st' j. send_packet al sock buf0 bufs k st = Inr (rc, st') \<and>
    sent (peers st' sock) = sent (peers st sock) @ take j (bytes_of (all_bufs buf0 bufs)) \<and>
    (rc = 1 \<longrightarrow> length (bytes_of (all_bufs buf0 bufs)) \<le> j) \<and>
    (\<exists>first st1. Socket_putdatas al sock buf0 bufs st = Inr (first, st1) \<and>
       released st' = released st @
         (if first = TCPSOCKET_INTERRUPTED \<and> rc \<noteq> 0 then owned_of (all_bufs buf0 bufs) else [])) \<and>
    ((\<forall>a \<in> set (room (peers st sock)). \<exists>k. a = Avail k) \<longrightarrow>
     length (bytes_of (all_bufs buf0 bufs)) \<le> length (filter (\<lambda>a. \<exists>k > 0. a = Avail k) (room (peers st sock))) \<longrightarrow>
     length (room (peers st sock)) \<le> k \<longrightarrow> rc = 1)"
proof -
  have calm: "room_calm p \<longleftrightarrow> (\<forall>a \<in> set (room p). \<exists>k. a = Avail k)" for p
    by (auto simp: room_calm_def split: arrival.splits) (metis arrival.exhaust)
  have "has_room = (\<lambda>a. \<exists>k > 0. a = Avail k)" by (auto simp: has_room_def split: arrival.splits)
  then have credit: "room_credit p = length (filter (\<lambda>a. \<exists>k > 0. a = Avail k) (room p))" for p
    by (simp add: room_credit_def)
  show ?thesis using send_packet_ok [OF assms, of k] unfolding calm credit .
qed

definition sample_room :: sockets where
  "sample_room = \<lparr>buffers = \<lparr>def_queue = Null_Queue, queues = [], writes = []\<rparr>, clientsds = [3], cur_clientsds = None,
     connect_pending = [], write_pending = \<lparr>items = [], current_item = None\<rparr>, pending_wset = [], rset = [], rset_saved = [3],
     wset = [], maxfdp1 = 4, peers = (\<lambda>_. \<lparr>incoming = [], arrivals = [],
     room = [Avail 1, Avail 0, Avail 2, Avail 9, Avail 9, Avail 9], sent = []\<rparr>), released = [], completed = []\<rparr>"

lemma sample_room_pending:
  "\<exists>st1. Socket_putdatas (\<lambda>_. True) 3 [0x40, 2] [([0, 7], True)] sample_room = Inr (TCPSOCKET_INTERRUPTED, st1)"
proof -
  have "can_write 3 sample_room" by (simp add: can_write_def sample_room_def SocketBuffer_getWrite_def)
  then show ?thesis
    by (simp add: Socket_putdatas_def Socket_noPendingWrites_def can_write_def find_item_def Socket_writev_def)
      (simp add: sample_room_def writev.simps malloc_ok_def PTRDIFF_MAX_def transport_codes Let_def set_peer_def)
qed

theorem socket_packet_written_witness:
  "\<exists>st' j. send_packet (\<lambda>_. True) 3 [0x40, 2] [([0, 7], True)] 6 sample_room = Inr (1, st') \<and>
     sent (peers st' 3) = take j [0x40, 2, 0, 7] \<and> 4 \<le> j \<and> released st' = [[0x40, 2], [0, 7]]"
proof -
  have sample: "can_write 3 sample_room" "sent (peers sample_room 3) = []" "released sample_room = []"
    "room (peers sample_room 3) = [Avail 1, Avail 0, Avail 2, Avail 9, Avail 9, Avail 9]"
    by (simp_all add: sample_room_def can_write_def SocketBuffer_getWrite_def)
  have bufs: "bytes_of (all_bufs [0x40, 2] [([0, 7], True)]) = [0x40, 2, 0, 7]"
    "owned_of (all_bufs [0x40, 2] [([0, 7], True)]) = [[0x40, 2], [0, 7]]"
    by (simp_all add: bytes_of_def all_bufs_def owned_of_def)
  from sample_room_pending show ?thesis
    using socket_packet_written [of 3 sample_room "\<lambda>_. True" "[([0, 7], True)]" "[0x40, 2]" 6]
    by (auto simp: sample bufs intro!: exI [of _ 4])
qed

end
