(* ===== verification/WebSocket_Frame.thy ===== *)
theory WebSocket_Frame
  imports Socket_Write
begin

text \<open>
  The sending side of \<^verbatim>\<open>WebSocket.c\<close>: a packet is sent in one masked frame. The mask is written into the
  caller's buffers and taken out again when the write does not have to be continued. Shown: what leaves
  is a frame whose payload, by the rules of RFC 6455, is the packet. The build is the one without
  OpenSSL; the results of \<^verbatim>\<open>rand\<close> are an argument.
\<close>

section \<open>Headers and masks\<close>

definition WebSocket_OP_CONTINUE :: nat where "WebSocket_OP_CONTINUE = 0"
definition WebSocket_OP_TEXT :: nat where "WebSocket_OP_TEXT = 1"
definition WebSocket_OP_BINARY :: nat where "WebSocket_OP_BINARY = 2"
definition WebSocket_OP_CLOSE :: nat where "WebSocket_OP_CLOSE = 8"
definition WebSocket_OP_PING :: nat where "WebSocket_OP_PING = 9"
definition WebSocket_OP_PONG :: nat where "WebSocket_OP_PONG = 10"

lemmas opcodes = WebSocket_OP_CONTINUE_def WebSocket_OP_TEXT_def WebSocket_OP_BINARY_def WebSocket_OP_CLOSE_def
  WebSocket_OP_PING_def WebSocket_OP_PONG_def

definition frame_limit :: nat where "frame_limit = 2 ^ 64 - 1"

definition WebSocket_calculateFrameHeaderSize :: "bool \<Rightarrow> bool \<Rightarrow> nat \<Rightarrow> nat" where
  "WebSocket_calculateFrameHeaderSize websocket mask_data data_len =
     (if websocket then
        (if data_len < 126 then 2 else if data_len < 65536 then 4 else if data_len < frame_limit then 10 else 0) +
        (if mask_data then 4 else 0)
      else 0)"

text \<open>The \<open>k\<close> low bytes of a number, the highest first.\<close>

fun be_bytes :: "nat \<Rightarrow> nat \<Rightarrow> byte list" where
  "be_bytes 0 v = []"
| "be_bytes (Suc k) v = of_nat (v div 256 ^ k) # be_bytes k v"

text \<open>The header up to the payload length.\<close>

definition frame_header :: "nat \<Rightarrow> bool \<Rightarrow> nat \<Rightarrow> byte list" where
  "frame_header opcode mask_data data_len =
     (0x80 OR (of_nat opcode AND 0x0F)) #
     (let mask_bit = (if mask_data then 0x80 else 0) in
      if data_len < 126 then [mask_bit OR (of_nat data_len AND 0x7F)]
      else if data_len < 65536 then (mask_bit OR (126 AND 0x7F)) # be_bytes 2 data_len
      else (mask_bit OR (127 AND 0x7F)) # be_bytes 8 data_len)"

text \<open>Masking bytes of which the first is byte \<open>idx\<close> of the payload.\<close>

fun xor_mask :: "byte list \<Rightarrow> nat \<Rightarrow> byte list \<Rightarrow> byte list" where
  "xor_mask key idx [] = []"
| "xor_mask key idx (b # bs) = (b XOR key ! (idx mod 4)) # xor_mask key (Suc idx) bs"

text \<open>
  The loop over the buffers behind the first: with a mask that is already in use, the topic (buffer 2)
  or the payload (the last) ends the loop.
\<close>

fun mask_bufs :: "bool \<Rightarrow> byte list \<Rightarrow> nat \<Rightarrow> nat \<Rightarrow> nat \<Rightarrow> packet_buffers \<Rightarrow> packet_buffers" where
  "mask_bufs new_mask key count i idx [] = []"
| "mask_bufs new_mask key count i idx ((b, f) # bs) =
     (if \<not> new_mask \<and> (i = 2 \<or> i = count - 1) then (b, f) # bs
      else (xor_mask key idx b, f) # mask_bufs new_mask key count (Suc i) (idx + length b) bs)"

text \<open>Four calls of \<^verbatim>\<open>rand\<close>.\<close>

definition rand_mask :: "int list \<Rightarrow> byte list \<times> int list" where
  "rand_mask rands = (map (\<lambda>r. of_int (r mod 255)) (take 4 (rands @ replicate 4 0)), drop 4 rands)"

section \<open>Frames\<close>

text \<open>
  \<^verbatim>\<open>WebSocket_buildFrame\<close>: the buffer with header and first part (\<open>None\<close> when there is no memory), the
  other buffers, the mask and the remaining results of \<^verbatim>\<open>rand\<close>.
\<close>

definition WebSocket_buildFrame ::
  "(int \<Rightarrow> bool) \<Rightarrow> nat \<Rightarrow> bool \<Rightarrow> byte list option \<Rightarrow> packet_buffers \<Rightarrow> byte list \<Rightarrow> int list \<Rightarrow>
     (byte list option \<times> packet_buffers \<times> byte list \<times> int list) res" where
  "WebSocket_buildFrame al opcode mask_data pbuf0 bufs key rands =
     (let buf0 = (case pbuf0 of None \<Rightarrow> [] | Some b \<Rightarrow> b);
          data_len = length buf0 + sum_list (map (length \<circ> fst) bufs);
          ws_header_size = WebSocket_calculateFrameHeaderSize True mask_data data_len in
      if \<not> malloc_ok al (int (length buf0 + ws_header_size)) then Inr (None, bufs, key, rands)
      else
        let new_mask = (mask_data \<and> key ! 0 = 0);
            (key1, rands1) = (if new_mask then rand_mask rands else (key, rands));
            header = frame_header opcode mask_data data_len @ (if mask_data then key1 else []) in
        guardR OverWrite (data_len < frame_limit \<and> length header \<le> ws_header_size)
          (if mask_data then
             Inr (Some (header @ xor_mask key1 0 buf0), mask_bufs new_mask key1 (length bufs) 0 (length buf0) bufs, key1, rands1)
           else Inr (Some (header @ buf0), bufs, key1, rands1)))"

fun unmask_bufs :: "byte list \<Rightarrow> nat \<Rightarrow> packet_buffers \<Rightarrow> packet_buffers" where
  "unmask_bufs key idx [] = []"
| "unmask_bufs key idx ((b, f) # bs) = (xor_mask key idx b, f) # unmask_bufs key (idx + length b) bs"

definition WebSocket_unmaskData :: "nat \<Rightarrow> packet_buffers \<Rightarrow> byte list \<Rightarrow> packet_buffers \<times> byte list" where
  "WebSocket_unmaskData idx bufs key = (unmask_bufs key idx bufs, [0, 0, 0, 0])"

text \<open>
  \<^verbatim>\<open>Socket_putdatas\<close> for a buffer that may be null, which \<^verbatim>\<open>writev\<close> refuses, and that is freed afterwards.
  Freeing it while a pending write refers to it is the fault.
\<close>

definition put_frame ::
  "(int \<Rightarrow> bool) \<Rightarrow> int \<Rightarrow> byte list option \<Rightarrow> packet_buffers \<Rightarrow> sockets \<Rightarrow> (int \<times> sockets) res" where
  "put_frame al sock wsbuf0 bufs st =
     (case wsbuf0 of
        None \<Rightarrow> Inr (SOCKET_ERROR, snd (Socket_noPendingWrites sock st))
      | Some b \<Rightarrow> Socket_putdatas al sock b bufs st)"

definition free_sent :: "sockets \<Rightarrow> sockets \<Rightarrow> 'a \<Rightarrow> 'a res" where
  "free_sent before after x = guardR UseAfterFree (writes (buffers after) = writes (buffers before)) (Inr x)"

text \<open>\<^verbatim>\<open>WebSocket_putdatas\<close>: the code, the caller's buffers and mask, and the state.\<close>

definition WebSocket_putdatas ::
  "(int \<Rightarrow> bool) \<Rightarrow> bool \<Rightarrow> int \<Rightarrow> byte list \<Rightarrow> packet_buffers \<Rightarrow> byte list \<Rightarrow> int list \<Rightarrow> sockets \<Rightarrow>
     (int \<times> packet_buffers \<times> byte list \<times> int list \<times> sockets) res" where
  "WebSocket_putdatas al websocket sock buf0 bufs key rands st =
     (if websocket then
        bindR (WebSocket_buildFrame al WebSocket_OP_BINARY True (Some buf0) bufs key rands) (\<lambda>(wsbuf0, bufs1, key1, rands1).
        bindR (put_frame al sock wsbuf0 bufs1 st) (\<lambda>(rc, st1).
          if rc \<noteq> TCPSOCKET_INTERRUPTED then
            case WebSocket_unmaskData (length buf0) bufs1 key1 of (bufs2, key2) \<Rightarrow>
              free_sent st st1 (rc, bufs2, key2, rands1, st1)
          else Inr (rc, bufs1, key1, rands1, st1)))
      else bindR (Socket_putdatas al sock buf0 bufs st) (\<lambda>(rc, st1). Inr (rc, bufs, key, rands, st1)))"

text \<open>\<^verbatim>\<open>WebSocket_pong\<close> frees its frame whether or not the write was interrupted.\<close>

definition WebSocket_pong :: "(int \<Rightarrow> bool) \<Rightarrow> int \<Rightarrow> byte list \<Rightarrow> int list \<Rightarrow> sockets \<Rightarrow> (int list \<times> sockets) res" where
  "WebSocket_pong al sock app_data rands st =
     bindR (WebSocket_buildFrame al WebSocket_OP_PONG True None [(app_data, False)] [0, 0, 0, 0] rands) (\<lambda>(wsbuf0, bufs1, key1, rands1).
     bindR (put_frame al sock wsbuf0 bufs1 st) (\<lambda>(rc, st1). free_sent st st1 (rands1, st1)))"

definition WebSocket_CLOSE_NORMAL :: int where "WebSocket_CLOSE_NORMAL = 1000"
definition WebSocket_CLOSE_GOING_AWAY :: int where "WebSocket_CLOSE_GOING_AWAY = 1001"
definition WebSocket_CLOSE_TLS_FAIL :: int where "WebSocket_CLOSE_TLS_FAIL = 1015"

text \<open>
  \<^verbatim>\<open>WebSocket_close\<close> on an open connection. The reason is copied with \<^verbatim>\<open>strcpy\<close>, whose terminator is one
  byte more than was allocated.
\<close>

definition WebSocket_close ::
  "(int \<Rightarrow> bool) \<Rightarrow> int \<Rightarrow> int \<Rightarrow> byte list option \<Rightarrow> int list \<Rightarrow> sockets \<Rightarrow> (bool \<times> int list \<times> sockets) res" where
  "WebSocket_close al sock status_code reason rands st =
     (let code = (if status_code < WebSocket_CLOSE_NORMAL \<or> WebSocket_CLOSE_TLS_FAIL < status_code
                  then WebSocket_CLOSE_GOING_AWAY else status_code);
          text = (case reason of None \<Rightarrow> [] | Some r \<Rightarrow> r) in
      if \<not> malloc_ok al (int (2 + length text)) then Inr (True, rands, st)
      else guardR OverWrite (reason = None)
        (bindR (WebSocket_buildFrame al WebSocket_OP_CLOSE True (Some (be_bytes 2 (nat code) @ text)) [] [0, 0, 0, 0] rands)
          (\<lambda>(wsbuf0, bufs1, key1, rands1).
           bindR (put_frame al sock wsbuf0 bufs1 st) (\<lambda>(rc, st1). free_sent st st1 (False, rands1, st1)))))"

section \<open>The format of frames\<close>

text \<open>
  A frame by RFC 6455: the final bit, the opcode, the length in 7, 16 or 64 bits, the masking key if the
  mask bit is set, and the payload. Byte \<open>i\<close> of a masked payload is combined with byte \<open>i mod 4\<close> of the
  key. A frame without the mask bit is read, too, but has no key.
\<close>

definition be_val :: "byte list \<Rightarrow> nat" where
  "be_val bs = foldl (\<lambda>v b. 256 * v + unat b) 0 bs"

definition payload_len :: "byte \<Rightarrow> byte list \<Rightarrow> nat \<times> byte list" where
  "payload_len b1 bs =
     (let n = unat (b1 AND 0x7F) in
      if n = 126 then (be_val (take 2 bs), drop 2 bs) else if n = 127 then (be_val (take 8 bs), drop 8 bs) else (n, bs))"

definition rfc_unmask :: "byte list \<Rightarrow> byte list \<Rightarrow> byte list" where
  "rfc_unmask key bs = map (\<lambda>i. bs ! i XOR key ! (i mod 4)) [0 ..< length bs]"

definition read_ws_frame :: "byte list \<Rightarrow> (bool \<times> nat \<times> byte list option \<times> byte list) option" where
  "read_ws_frame bs =
     (case bs of
        b0 # b1 # bs1 \<Rightarrow>
          let (n, bs2) = payload_len b1 bs1; masked = bit b1 7; bs3 = (if masked then drop 4 bs2 else bs2) in
          if length bs3 = n then
            Some (bit b0 7, unat (b0 AND 0x0F), if masked then Some (take 4 bs2) else None,
              if masked then rfc_unmask (take 4 bs2) bs3 else bs3)
          else None
      | _ \<Rightarrow> None)"

lemma xor_mask_rfc: "xor_mask k 0 bs = rfc_unmask k bs"
proof -
  have "xor_mask k i bs = map (\<lambda>j. bs ! j XOR k ! ((i + j) mod 4)) [0 ..< length bs]" for i
    by (induction bs arbitrary: i) (simp_all add: map_upt_Suc del: upt_Suc)
  from this [of 0] show ?thesis by (simp add: rfc_unmask_def)
qed

lemma xor_mask_append: "xor_mask k i (xs @ ys) = xor_mask k i xs @ xor_mask k (i + length xs) ys"
  by (induction xs arbitrary: i) simp_all

lemma length_xor_mask [simp]: "length (xor_mask k i xs) = length xs"
  by (induction xs arbitrary: i) simp_all

lemma xor_mask_twice [simp]: "xor_mask k i (xor_mask k i xs) = xs"
  by (induction xs arbitrary: i) (simp_all add: xor.assoc)

lemma mask_bufs_new: "mask_bufs True k c i idx bufs = unmask_bufs k idx bufs"
  by (induction bufs arbitrary: i idx) auto

lemma bytes_unmask_bufs: "bytes_of (unmask_bufs k idx bufs) = xor_mask k idx (bytes_of bufs)"
  by (induction bufs arbitrary: idx) (auto simp: bytes_of_def xor_mask_append)

lemma unmask_bufs_twice [simp]: "unmask_bufs k idx (unmask_bufs k idx bufs) = bufs"
  by (induction bufs arbitrary: idx) auto

lemma length_unmask_bufs [simp]: "length (unmask_bufs k idx bufs) = length bufs"
  by (induction bufs arbitrary: idx) auto

lemma owned_unmask_bufs: "map snd (unmask_bufs k idx bufs) = map snd bufs"
  by (induction bufs arbitrary: idx) auto

lemma length_bytes_of: "length (bytes_of bufs) = sum_list (map (length \<circ> fst) bufs)"
  by (induction bufs) (auto simp: bytes_of_def)

lemma length_be_bytes [simp]: "length (be_bytes k v) = k"
  by (induction k) simp_all

lemma be_val_snoc: "be_val (xs @ [x]) = 256 * be_val xs + unat x"
  by (simp add: be_val_def)

lemma be_bytes_snoc: "be_bytes (Suc k) v = be_bytes k (v div 256) @ [of_nat v]"
  by (induction k) (simp_all add: div_mult2_eq [symmetric] mult.commute)

lemma be_val_be_bytes: "v < 256 ^ k \<Longrightarrow> be_val (be_bytes k v) = v"
proof (induction k arbitrary: v)
  case 0
  then show ?case by (simp add: be_val_def)
next
  case (Suc k)
  then have "v div 256 < 256 ^ k" by (simp add: less_mult_imp_div_less)
  with Suc.IH have "be_val (be_bytes k (v div 256)) = v div 256" .
  then show ?case
    unfolding be_bytes_snoc be_val_snoc by (simp add: unat_of_nat)
qed

lemma length_frame_header:
  "data_len < frame_limit \<Longrightarrow>
   length (frame_header opcode m data_len) = WebSocket_calculateFrameHeaderSize True False data_len"
  by (simp add: frame_header_def WebSocket_calculateFrameHeaderSize_def Let_def)

text \<open>The bits of the first two bytes.\<close>

lemma low_bits:
  fixes h w :: byte
  assumes "h AND lo = 0"
  shows "(h OR (w AND lo)) AND lo = w AND lo"
  using assms by (simp add: bit.conj_disj_distrib2 and.assoc)

lemma unat_low: "n < 128 \<Longrightarrow> unat (of_nat n AND 0x7F :: byte) = n" "n < 16 \<Longrightarrow> unat (of_nat n AND 0x0F :: byte) = n"
proof -
  have m: "(0x7F :: byte) = mask 7" "(0x0F :: byte) = mask 4" by (simp_all add: mask_eq_exp_minus_1)
  show "n < 128 \<Longrightarrow> unat (of_nat n AND 0x7F :: byte) = n" "n < 16 \<Longrightarrow> unat (of_nat n AND 0x0F :: byte) = n"
    unfolding m by (simp_all flip: take_bit_eq_mask add: unat_word_ariths unsigned_take_bit_eq unat_of_nat take_bit_eq_mod)
qed

lemma opcode_byte:
  assumes "opcode < 16"
  shows "bit (0x80 OR (of_nat opcode AND 0x0F) :: byte) 7" "unat ((0x80 OR (of_nat opcode AND 0x0F)) AND 0x0F :: byte) = opcode"
  using assms by (simp_all add: bit_or_iff low_bits unat_low)

lemma length_byte:
  fixes h :: byte
  assumes "n < 128" "h \<in> {0, 0x80}"
  shows "unat ((h OR (of_nat n AND 0x7F)) AND 0x7F) = n" "bit (h OR (of_nat n AND 0x7F)) 7 = (h = 0x80)"
proof -
  have "h AND 0x7F = 0" "bit h 7 = (h = 0x80)" using assms(2) by auto
  with assms(1) show "unat ((h OR (of_nat n AND 0x7F)) AND 0x7F) = n" "bit (h OR (of_nat n AND 0x7F)) 7 = (h = 0x80)"
    by (simp_all add: low_bits unat_low bit_or_iff bit_and_iff)
qed

text \<open>A header is read as it was written.\<close>

definition has_ext :: "byte \<Rightarrow> byte list \<Rightarrow> nat \<Rightarrow> bool" where
  "has_ext b1 ext n \<longleftrightarrow> (let k = unat (b1 AND 0x7F) in
     if k = 126 then length ext = 2 \<and> be_val ext = n else if k = 127 then length ext = 8 \<and> be_val ext = n else ext = [] \<and> n = k)"

lemma payload_len_ext: "has_ext b1 ext n \<Longrightarrow> payload_len b1 (ext @ rest) = (n, rest)"
  by (auto simp: payload_len_def has_ext_def Let_def split: if_splits)

lemma frame_header_parts:
  assumes "data_len < frame_limit"
  obtains b1 ext where "frame_header opcode m data_len = (0x80 OR (of_nat opcode AND 0x0F)) # b1 # ext"
    "bit b1 7 = m" "has_ext b1 ext data_len"
proof -
  define h :: byte where "h = (if m then 0x80 else 0)"
  have h: "h \<in> {0, 0x80}" "(h = 0x80) = m" by (auto simp: h_def)
  note b = length_byte [OF _ h(1)]
  consider "data_len < 126" | "126 \<le> data_len" "data_len < 65536" | "65536 \<le> data_len" by linarith
  then show thesis
  proof cases
    case 1
    with b [of data_len] h show thesis
      by (intro that) (auto simp: frame_header_def Let_def has_ext_def simp flip: h_def)
  next
    case 2
    with b [of 126] h be_val_be_bytes [of data_len 2] show thesis
      by (intro that [of "h OR (126 AND 0x7F)" "be_bytes 2 data_len"]) (simp_all add: frame_header_def Let_def has_ext_def flip: h_def)
  next
    case 3
    with assms b [of 127] h be_val_be_bytes [of data_len 8] show thesis
      by (intro that [of "h OR (127 AND 0x7F)" "be_bytes 8 data_len"])
        (simp_all add: frame_header_def Let_def has_ext_def frame_limit_def flip: h_def)
  qed
qed

lemma read_written_frame:
  assumes "length body < frame_limit" "opcode < 16" "length key = 4"
  shows "read_ws_frame (frame_header opcode True (length body) @ key @ body) = Some (True, opcode, Some key, xor_mask key 0 body)"
    and "read_ws_frame (frame_header opcode False (length body) @ body) = Some (True, opcode, None, body)"
proof -
  obtain b1 ext where "frame_header opcode True (length body) = (0x80 OR (of_nat opcode AND 0x0F)) # b1 # ext"
    "bit b1 7" "has_ext b1 ext (length body)"
    using frame_header_parts [OF assms(1), of opcode True] by auto
  with payload_len_ext [of b1 ext "length body" "key @ body"] opcode_byte [OF assms(2)] assms(3)
  show "read_ws_frame (frame_header opcode True (length body) @ key @ body) = Some (True, opcode, Some key, xor_mask key 0 body)"
    by (simp add: read_ws_frame_def xor_mask_rfc)
  obtain b1 ext where "frame_header opcode False (length body) = (0x80 OR (of_nat opcode AND 0x0F)) # b1 # ext"
    "\<not> bit b1 7" "has_ext b1 ext (length body)"
    using frame_header_parts [OF assms(1), of opcode False] by auto
  with payload_len_ext [of b1 ext "length body" body] opcode_byte [OF assms(2)]
  show "read_ws_frame (frame_header opcode False (length body) @ body) = Some (True, opcode, None, body)"
    by (simp add: read_ws_frame_def)
qed

section \<open>Sending a packet\<close>

lemma rand_mask_length: "length (fst (rand_mask rands)) = 4"
  by (simp add: rand_mask_def)

lemma buildFrame_new:
  fixes rands :: "int list"
  assumes "\<forall>n. al n" "length buf0 + length (bytes_of bufs) < 2 ^ 62" "opcode < 16" "hd key = 0" "length key = 4"
  defines "k \<equiv> fst (rand_mask rands)"
  defines "w \<equiv> frame_header opcode True (length (buf0 @ bytes_of bufs)) @ k @ xor_mask k 0 buf0"
  shows "WebSocket_buildFrame al opcode True (Some buf0) bufs key rands =
      Inr (Some w, unmask_bufs k (length buf0) bufs, k, snd (rand_mask rands))"
    and "read_ws_frame (w @ bytes_of (unmask_bufs k (length buf0) bufs)) = Some (True, opcode, Some k, buf0 @ bytes_of bufs)"
proof -
  let ?n = "length (buf0 @ bytes_of bufs)"
  have n: "length buf0 + sum_list (map (length \<circ> fst) bufs) = ?n" by (simp add: length_bytes_of)
  have lim: "?n < frame_limit" using assms(2) by (simp add: frame_limit_def)
  have len: "length (frame_header opcode True ?n @ k) = WebSocket_calculateFrameHeaderSize True True ?n"
    using length_frame_header [OF lim, of opcode True]
    by (simp add: k_def rand_mask_length WebSocket_calculateFrameHeaderSize_def)
  have "malloc_ok al (int (length buf0 + WebSocket_calculateFrameHeaderSize True True ?n))"
    using assms(1,2) by (simp add: malloc_ok_def PTRDIFF_MAX_def WebSocket_calculateFrameHeaderSize_def)
  moreover have "key ! 0 = 0" using assms(4,5) by (cases key) simp_all
  ultimately show "WebSocket_buildFrame al opcode True (Some buf0) bufs key rands =
      Inr (Some w, unmask_bufs k (length buf0) bufs, k, snd (rand_mask rands))"
    using lim len by (simp add: WebSocket_buildFrame_def n Let_def w_def k_def mask_bufs_new case_prod_unfold)
  have "xor_mask k 0 buf0 @ bytes_of (unmask_bufs k (length buf0) bufs) = xor_mask k 0 (buf0 @ bytes_of bufs)"
    by (simp add: bytes_unmask_bufs xor_mask_append)
  then show "read_ws_frame (w @ bytes_of (unmask_bufs k (length buf0) bufs)) = Some (True, opcode, Some k, buf0 @ bytes_of bufs)"
    using read_written_frame(1) [of "xor_mask k 0 (buf0 @ bytes_of bufs)" opcode k] lim assms(3)
    by (simp add: w_def k_def rand_mask_length)
qed

text \<open>A write that is not continued leaves no pending write.\<close>

lemma putdatas_writes:
  assumes "Socket_putdatas al sock buf0 bufs st = Inr (rc, st')" "rc \<noteq> TCPSOCKET_INTERRUPTED" "\<forall>n. al n"
  shows "writes (buffers st') = writes (buffers st)"
proof -
  have mal: "malloc_ok al 4" "malloc_ok al 24" using assms(3) by (simp_all add: malloc_ok_def PTRDIFF_MAX_def)
  have "writes (buffers st1) = writes (buffers st0)" if "Socket_writev sock v st0 = Inr (r, n, st1)" for v st0 r n st1
    using that by (auto simp: Socket_writev_def set_peer_def res_simps split: prod.splits writev_result.splits)
  moreover have "writes (buffers (snd (Socket_noPendingWrites sock st))) = writes (buffers st)"
    by (simp add: Socket_noPendingWrites_def find_item_def)
  ultimately show ?thesis
    using assms(1,2) mal
    by (auto simp: Socket_putdatas_def Let_def res_simps split: prod.splits if_splits)
qed

definition websocket_send ::
  "(int \<Rightarrow> bool) \<Rightarrow> int \<Rightarrow> byte list \<Rightarrow> packet_buffers \<Rightarrow> int list \<Rightarrow> nat \<Rightarrow> sockets \<Rightarrow> (int \<times> sockets) res" where
  "websocket_send al sock buf0 bufs rands k st =
     bindR (WebSocket_putdatas al True sock buf0 bufs [0, 0, 0, 0] rands st) (\<lambda>(rc, bufs', key', rands', st1).
       if rc = TCPSOCKET_INTERRUPTED then continue_run sock k st1
       else Inr (if rc = TCPSOCKET_COMPLETE then 1 else rc, st1))"

lemma putdatas_new:
  fixes rands :: "int list"
  assumes "\<forall>n. al n" "length buf0 + length (bytes_of bufs) < 2 ^ 62"
  defines "k \<equiv> fst (rand_mask rands)"
  defines "w \<equiv> frame_header WebSocket_OP_BINARY True (length (buf0 @ bytes_of bufs)) @ k @ xor_mask k 0 buf0"
  shows "WebSocket_putdatas al True sock buf0 bufs [0, 0, 0, 0] rands st =
    bindR (Socket_putdatas al sock w (unmask_bufs k (length buf0) bufs) st) (\<lambda>(rc, st1).
      if rc \<noteq> TCPSOCKET_INTERRUPTED then Inr (rc, bufs, [0, 0, 0, 0], snd (rand_mask rands), st1)
      else Inr (rc, unmask_bufs k (length buf0) bufs, k, snd (rand_mask rands), st1))"
proof -
  note b = buildFrame_new(1) [OF assms(1,2), of WebSocket_OP_BINARY "[0, 0, 0, 0]" rands, folded k_def, folded w_def]
  show ?thesis
    using putdatas_writes [OF _ _ assms(1), of sock w "unmask_bufs k (length buf0) bufs" st] b
    by (cases "Socket_putdatas al sock w (unmask_bufs k (length buf0) bufs) st")
      (auto simp: WebSocket_putdatas_def put_frame_def free_sent_def WebSocket_unmaskData_def opcodes)
qed

text \<open>
  C25: Sending a packet over a WebSocket: whatever the network accepts, the bytes that leave are an
  initial part of one binary frame that is final, has the mask bit and the four bytes taken from \<^verbatim>\<open>rand\<close>
  as its key, and carries, unmasked with that key as RFC 6455 says, the bytes of the packet. Completion is reported only when the whole frame has left, and it has left when there is
  room often enough; a write that is not to be continued gives the caller's buffers back unmasked.
\<close>
theorem websocket_packet_written:
  assumes "can_write sock st" "\<forall>n. al n" "length bufs < 5" "length buf0 + length (bytes_of bufs) < 2 ^ 62"
  shows "\<exists>frame rc st' j. read_ws_frame frame =
      Some (True, WebSocket_OP_BINARY, Some (fst (rand_mask rands)), buf0 @ bytes_of bufs) \<and>
    websocket_send al sock buf0 bufs rands k st = Inr (rc, st') \<and>
    sent (peers st' sock) = sent (peers st sock) @ take j frame \<and> (rc = 1 \<longrightarrow> length frame \<le> j) \<and>
    (room_calm (peers st sock) \<longrightarrow> length frame \<le> room_credit (peers st sock) \<longrightarrow> length (room (peers st sock)) \<le> k \<longrightarrow> rc = 1) \<and>
    (\<forall>c bufs' key' r s. WebSocket_putdatas al True sock buf0 bufs [0, 0, 0, 0] rands st = Inr (c, bufs', key', r, s) \<longrightarrow>
       c \<noteq> TCPSOCKET_INTERRUPTED \<longrightarrow> bufs' = bufs \<and> key' = [0, 0, 0, 0])"
proof -
  define key where "key = fst (rand_mask rands)"
  define w where "w = frame_header WebSocket_OP_BINARY True (length (buf0 @ bytes_of bufs)) @ key @ xor_mask key 0 buf0"
  define vs where "vs = unmask_bufs key (length buf0) bufs"
  note put = putdatas_new [OF assms(2,4), of sock rands st, folded key_def, folded w_def vs_def]
  have "websocket_send al sock buf0 bufs rands k st = send_packet al sock w vs k st"
    by (auto simp: websocket_send_def send_packet_def put bindR_assoc intro!: bindR_cong)
  moreover have "bytes_of (all_bufs w vs) \<noteq> []" by (simp add: bytes_of_def all_bufs_def w_def frame_header_def)
  moreover have "length vs < 5" using assms(3) by (simp add: vs_def)
  moreover have "read_ws_frame (bytes_of (all_bufs w vs)) = Some (True, WebSocket_OP_BINARY, Some key, buf0 @ bytes_of bufs)"
    using buildFrame_new(2) [OF assms(2,4), of WebSocket_OP_BINARY "[0, 0, 0, 0]" rands, folded key_def, folded w_def vs_def]
    by (simp add: all_bufs_def bytes_of_def opcodes)
  moreover have "\<forall>c bufs' key' r s. WebSocket_putdatas al True sock buf0 bufs [0, 0, 0, 0] rands st = Inr (c, bufs', key', r, s) \<longrightarrow>
       c \<noteq> TCPSOCKET_INTERRUPTED \<longrightarrow> bufs' = bufs \<and> key' = [0, 0, 0, 0]"
    by (auto simp: put bindR_eq_Inr split: if_splits)
  ultimately show ?thesis
    using send_packet_ok [OF assms(1,2), of vs w k] key_def
    by (intro exI [of _ "bytes_of (all_bufs w vs)"]) auto
qed

theorem websocket_packet_written_witness:
  "\<exists>frame rc st' j. read_ws_frame frame = Some (True, WebSocket_OP_BINARY, Some [12, 90, 6, 7], [0x40, 2, 0, 7]) \<and>
     websocket_send (\<lambda>_. True) 3 [0x40, 2] [([0, 7], True)] [12, 345, 6, 7] 6 sample_room = Inr (rc, st') \<and>
     sent (peers st' 3) = take j frame \<and> (rc = 1 \<longrightarrow> length frame \<le> j)"
proof -
  have "can_write 3 sample_room" "\<forall>n. (\<lambda>_. True) (n :: int)" "length [([0, 7 :: byte], True)] < 5"
    "length [0x40, 2 :: byte] + length (bytes_of [([0, 7], True)]) < 2 ^ 62"
    by (simp_all add: can_write_def sample_room_def SocketBuffer_getWrite_def bytes_of_def)
  from websocket_packet_written [OF this, of "[12, 345, 6, 7]" 6] show ?thesis
    by (auto simp: bytes_of_def sample_room_def rand_mask_def)
qed

end
