(* ===== verification/WebSocket_Stream.thy ===== *)
theory WebSocket_Stream
  imports Socket_Stream WebSocket_Frame
begin

text \<open>
  The receiving side of \<^verbatim>\<open>WebSocket.c\<close>: frames are collected in a buffer of their own until they are
  complete, and their payloads in a queue from which packets are read. Shown: receiving ends; a frame is
  taken from the network completely or not at all, so that an interrupted read can be repeated; and the
  payloads arrive in order.
\<close>

section \<open>State\<close>

text \<open>
  A received frame with the position up to which it was read, and pointers to such frames. The list
  \<^verbatim>\<open>in_frames\<close> may be null. The local variable \<^verbatim>\<open>rcs\<close> is not initialised; \<open>junk\<close> stands for its value.
\<close>

record ws_frame =
  frame_data :: "byte list"
  frame_pos :: nat

datatype frame_ptr = Null_Frame | Freed_Frame | Frame_at ws_frame

record ws =
  io :: sockets
  websocket :: bool
  in_frames :: "frame_ptr list option"
  last_frame :: "ws_frame option"
  frame_buffer :: "byte list option"
  frame_buffer_len :: nat
  frame_buffer_index :: nat
  frame_buffer_data_len :: nat
  rands :: "int list"

definition deref_frame :: "frame_ptr \<Rightarrow> ws_frame res" where
  "deref_frame p = (case p of Null_Frame \<Rightarrow> Inl NullDeref | Freed_Frame \<Rightarrow> Inl UseAfterFree | Frame_at f \<Rightarrow> Inr f)"

definition first_frame :: "ws \<Rightarrow> frame_ptr" where
  "first_frame w = (case in_frames w of Some (p # _) \<Rightarrow> p | _ \<Rightarrow> Null_Frame)"

definition set_first :: "frame_ptr \<Rightarrow> ws \<Rightarrow> ws" where
  "set_first p w = (case in_frames w of Some (_ # ps) \<Rightarrow> w\<lparr>in_frames := Some (p # ps)\<rparr> | _ \<Rightarrow> w)"

definition detach_first :: "ws_frame \<Rightarrow> ws \<Rightarrow> ws" where
  "detach_first f w = w\<lparr>last_frame := Some f, in_frames := map_option tl (in_frames w)\<rparr>"

text \<open>Subtraction of \<^verbatim>\<open>size_t\<close>.\<close>

definition size_sub :: "nat \<Rightarrow> nat \<Rightarrow> nat" where
  "size_sub a b = nat ((int a - int b) mod 2 ^ 64)"

section \<open>Raw data\<close>

definition buffer_slice :: "nat \<Rightarrow> ws \<Rightarrow> byte list res" where
  "buffer_slice n w =
     (case frame_buffer w of
        None \<Rightarrow> Inl NullDeref
      | Some b \<Rightarrow> guardR OverRead (frame_buffer_index w + n \<le> length b) (Inr (take n (drop (frame_buffer_index w) b))))"

text \<open>Appending to the buffer; \<open>None\<close> when the first allocation fails.\<close>

definition buffer_append :: "(int \<Rightarrow> bool) \<Rightarrow> byte list \<Rightarrow> ws \<Rightarrow> ws option res" where
  "buffer_append al bs w =
     (case frame_buffer w of
        None \<Rightarrow>
          if malloc_ok al (int (length bs)) then
            Inr (Some (w\<lparr>frame_buffer := Some bs, frame_buffer_index := 0, frame_buffer_data_len := length bs, frame_buffer_len := length bs\<rparr>))
          else Inr None
      | Some b \<Rightarrow>
          let n = frame_buffer_data_len w + length bs in
          if n < frame_buffer_len w then
            Inr (Some (w\<lparr>frame_buffer := Some (take (frame_buffer_data_len w) b @ bs @ drop n b), frame_buffer_data_len := n\<rparr>))
          else
            guardR NullDeref (malloc_ok al (int n))
              (Inr (Some (w\<lparr>frame_buffer := Some (take (frame_buffer_data_len w) b @ bs), frame_buffer_len := n, frame_buffer_data_len := n\<rparr>))))"

text \<open>
  \<^verbatim>\<open>WebSocket_getRawSocketData\<close>: the data (\<open>None\<close> for null), their number and the code.
\<close>

definition WebSocket_getRawSocketData ::
  "(int \<Rightarrow> bool) \<Rightarrow> int \<Rightarrow> nat \<Rightarrow> int \<Rightarrow> ws \<Rightarrow> ((byte list option \<times> nat \<times> int) \<times> ws) res" where
  "WebSocket_getRawSocketData al sock bytes rc w =
     (let avail = size_sub (frame_buffer_data_len w) (frame_buffer_index w) in
      if 0 < bytes \<and> bytes \<le> avail then
        bindR (buffer_slice bytes w) (\<lambda>bs. Inr ((Some bs, bytes, rc), w\<lparr>frame_buffer_index := frame_buffer_index w + bytes\<rparr>))
      else
        bindR (Socket_getdata_rc al sock (if 0 < bytes then bytes - avail else 0) (io w)) (\<lambda>((v, n, rc'), io').
          let w1 = w\<lparr>io := io'\<rparr>; rc1 = (case rc' of None \<Rightarrow> rc | Some r \<Rightarrow> r); none = map_option (\<lambda>_. []) v in
          if rc1 = 0 then Inr ((none, n, SOCKET_ERROR), w1)
          else if bytes = 0 then
            Inr ((none, n, rc1), w1\<lparr>frame_buffer_index := 0, frame_buffer_data_len := 0, frame_buffer_len := 0, frame_buffer := None\<rparr>)
          else if v \<noteq> None \<and> n \<noteq> 0 then
            guardR UninitRead (n \<le> length (the v) \<and> None \<notin> set (take n (the v)))
              (bindR (buffer_append al (map the (take n (the v))) w1) (\<lambda>w2.
                 case w2 of
                   None \<Rightarrow> Inr ((None, n, rc1), w1)
                 | Some w2 \<Rightarrow>
                     bindR (SocketBuffer_complete sock (buffers (io w2))) (\<lambda>b.
                       let w3 = w2\<lparr>io := (io w2)\<lparr>buffers := b\<rparr>\<rparr>;
                           m = min bytes (size_sub (frame_buffer_data_len w3) (frame_buffer_index w3)) in
                       bindR (buffer_slice m w3) (\<lambda>bs.
                         Inr ((Some bs, m, rc1), w3\<lparr>frame_buffer_index := frame_buffer_index w3 + m\<rparr>)))))
          else Inr ((none, n, rc1), w1)))"

section \<open>Receiving a frame\<close>

text \<open>
  Sequencing inside \<^verbatim>\<open>WebSocket_receiveFrame\<close>: \<open>Inl rc\<close> leaves through the label \<^verbatim>\<open>exit\<close> with that code.
\<close>

type_synonym 'a ws_step = "((int + 'a) \<times> ws) res"

definition bindW :: "'a ws_step \<Rightarrow> ('a \<Rightarrow> ws \<Rightarrow> 'b ws_step) \<Rightarrow> 'b ws_step" where
  "bindW m f = bindR m (\<lambda>(r, w). case r of Inl rc \<Rightarrow> Inr (Inl rc, w) | Inr x \<Rightarrow> f x w)"

text \<open>Reading \<open>n\<close> bytes; the codes when there is no buffer or not enough data.\<close>

definition raw_read :: "(int \<Rightarrow> bool) \<Rightarrow> int \<Rightarrow> int \<Rightarrow> nat \<Rightarrow> int \<Rightarrow> ws \<Rightarrow> (byte list \<times> int) ws_step" where
  "raw_read al sock null_rc n rcs w =
     bindR (WebSocket_getRawSocketData al sock n rcs w) (\<lambda>((b, len, rcs'), w').
       Inr (if rcs' = SOCKET_ERROR then Inl SOCKET_ERROR
            else case b of
              None \<Rightarrow> Inl null_rc
            | Some bs \<Rightarrow> if len < n then Inl TCPSOCKET_INTERRUPTED else Inr (bs, rcs'), w'))"

definition fragment_length :: "(int \<Rightarrow> bool) \<Rightarrow> int \<Rightarrow> byte \<Rightarrow> int \<Rightarrow> ws \<Rightarrow> (nat \<times> int) ws_step" where
  "fragment_length al sock b1 rcs w =
     (let n = unat (b1 AND 0x7F) in
      if n = 126 then bindW (raw_read al sock SOCKET_ERROR 2 rcs w) (\<lambda>(bs, rcs') w'. Inr (Inr (be_val bs, rcs'), w'))
      else if n = 127 then bindW (raw_read al sock SOCKET_ERROR 8 rcs w) (\<lambda>(bs, rcs') w'. Inr (Inr (be_val bs, rcs'), w'))
      else Inr (Inr (n, rcs), w))"

text \<open>The masking key is stored in a variable of an inner block; the outer one stays zero.\<close>

definition fragment_key :: "(int \<Rightarrow> bool) \<Rightarrow> int \<Rightarrow> bool \<Rightarrow> int \<Rightarrow> ws \<Rightarrow> int ws_step" where
  "fragment_key al sock has_mask rcs w =
     (if has_mask then bindW (raw_read al sock SOCKET_ERROR 4 rcs w) (\<lambda>(bs, rcs') w'. Inr (Inr rcs', w'))
      else Inr (Inr rcs, w))"

definition outer_key :: "byte list" where "outer_key = [0, 0, 0, 0]"

text \<open>One turn of the inner loop: is it final, the opcode and the frame read so far.\<close>

definition extend_frame :: "frame_ptr \<Rightarrow> byte list \<Rightarrow> ws_frame res" where
  "extend_frame res bs =
     (case res of
        Null_Frame \<Rightarrow> Inr \<lparr>frame_data = bs, frame_pos = 0\<rparr>
      | p \<Rightarrow> bindR (deref_frame p) (\<lambda>f. Inr (f\<lparr>frame_data := frame_data f @ bs\<rparr>)))"

definition store_fragment ::
  "(int \<Rightarrow> bool) \<Rightarrow> int \<Rightarrow> int \<Rightarrow> bool \<Rightarrow> nat \<Rightarrow> frame_ptr \<Rightarrow> byte list \<Rightarrow> ws \<Rightarrow> (bool \<times> nat \<times> ws_frame) ws_step" where
  "store_fragment al sock rcs is_final opcode res bs w =
     bindR (extend_frame res bs) (\<lambda>f.
       if \<not> malloc_ok al (16 + int (length (frame_data f))) then Inr (Inl PAHO_MEMORY_ERROR, w)
       else
         bindR (WebSocket_getRawSocketData al sock 0 rcs (set_first (Frame_at f) w)) (\<lambda>((b, len, rcs'), w').
           Inr (if rcs' = SOCKET_ERROR then Inl SOCKET_ERROR else Inr (is_final, opcode, f), w')))"

definition read_fragment ::
  "(int \<Rightarrow> bool) \<Rightarrow> int \<Rightarrow> int \<Rightarrow> nat \<Rightarrow> frame_ptr \<Rightarrow> ws \<Rightarrow> (bool \<times> nat \<times> ws_frame) ws_step" where
  "read_fragment al sock junk opcode res w =
     bindW (raw_read al sock TCPSOCKET_INTERRUPTED 2 junk w) (\<lambda>(b, rcs1) w1.
       let is_final = bit (b ! 0) 7; tmp_opcode = unat (b ! 0 AND 0x0F);
           op = (if tmp_opcode \<noteq> 0 then tmp_opcode else opcode) in
       if WebSocket_OP_PONG < op \<or> WebSocket_OP_BINARY < op \<and> op < WebSocket_OP_CLOSE then Inr (Inl SOCKET_ERROR, w1)
       else
         bindW (fragment_length al sock (b ! 1) rcs1 w1) (\<lambda>(n, rcs2) w2.
         bindW (fragment_key al sock (bit (b ! 1) 7) rcs2 w2) (\<lambda>rcs3 w3.
         bindW (raw_read al sock SOCKET_ERROR n rcs3 w3) (\<lambda>(payload, rcs4) w4.
           store_fragment al sock rcs4 is_final op res (if bit (b ! 1) 7 then xor_mask outer_key 0 payload else payload) w4))))"

text \<open>
  Both loops of \<^verbatim>\<open>WebSocket_receiveFrame\<close>. A message that ends with a ping or pong is discarded, also
  when it was appended to a frame in the queue, which then refers to freed memory.
\<close>

partial_function (option) receive_loop ::
  "(int \<Rightarrow> bool) \<Rightarrow> int \<Rightarrow> int \<Rightarrow> nat \<Rightarrow> frame_ptr \<Rightarrow> ws \<Rightarrow> ws_frame ws_step option" where
  "receive_loop al sock junk opcode res w =
     (case read_fragment al sock junk opcode res w of
        Inl e \<Rightarrow> Some (Inl e)
      | Inr (Inl rc, w1) \<Rightarrow> Some (Inr (Inl rc, w1))
      | Inr (Inr (is_final, op, f), w1) \<Rightarrow>
          if \<not> is_final then receive_loop al sock junk op (Frame_at f) w1
          else if op = WebSocket_OP_PING \<or> op = WebSocket_OP_PONG then
            (case (if op = WebSocket_OP_PING then WebSocket_pong al sock (frame_data f) (rands w1) (io w1) else Inr (rands w1, io w1)) of
               Inl e \<Rightarrow> Some (Inl e)
             | Inr (rands', io') \<Rightarrow>
                 receive_loop al sock junk op Null_Frame (set_first Freed_Frame (w1\<lparr>io := io', rands := rands'\<rparr>)))
          else if op = WebSocket_OP_CLOSE then
            Some (bindR (WebSocket_close al sock WebSocket_CLOSE_GOING_AWAY None (rands w1) (io w1)) (\<lambda>(open, rands', io').
              Inr (Inl SOCKET_ERROR, set_first Freed_Frame (w1\<lparr>io := io', rands := rands', websocket := open\<rparr>))))
          else Some (Inr (Inr f, w1)))"

text \<open>
  The code and \<^verbatim>\<open>actual_len\<close>. A frame that the list has no memory for is lost.
\<close>

definition rewind :: "int \<Rightarrow> ws \<Rightarrow> ws" where
  "rewind rc w = (if rc = TCPSOCKET_INTERRUPTED then w\<lparr>frame_buffer_index := 0\<rparr> else w)"

definition queue_frame :: "(int \<Rightarrow> bool) \<Rightarrow> ws_frame \<Rightarrow> ws \<Rightarrow> ws" where
  "queue_frame al f w = (if in_frames w = Some [] \<and> malloc_ok al 24 then w\<lparr>in_frames := Some [Frame_at f]\<rparr> else w)"

definition leave_receive :: "(int \<Rightarrow> bool) \<Rightarrow> (int + ws_frame) \<times> ws \<Rightarrow> (int \<times> nat option) \<times> ws" where
  "leave_receive al r =
     (case r of
        (Inl rc, w) \<Rightarrow> ((rc, None), rewind rc w)
      | (Inr f, w) \<Rightarrow> ((TCPSOCKET_COMPLETE, Some (size_sub (length (frame_data f)) (frame_pos f))), queue_frame al f w))"

definition WebSocket_receiveFrame ::
  "(int \<Rightarrow> bool) \<Rightarrow> int \<Rightarrow> int \<Rightarrow> ws \<Rightarrow> ((int \<times> nat option) \<times> ws) res option" where
  "WebSocket_receiveFrame al sock junk w =
     (if in_frames w = None \<and> \<not> malloc_ok al 40 then Some (Inl NullDeref)
      else
        let w0 = (if in_frames w = None then w\<lparr>in_frames := Some []\<rparr> else w) in
        map_option (\<lambda>r. bindR r (\<lambda>x. Inr (leave_receive al x)))
          (receive_loop al sock junk WebSocket_OP_BINARY (first_frame w0) w0))"

section \<open>Reading packets from frames\<close>

definition WebSocket_framePos :: "ws \<Rightarrow> nat res" where
  "WebSocket_framePos w =
     (if first_frame w = Null_Frame then Inr 0 else bindR (deref_frame (first_frame w)) (\<lambda>f. Inr (frame_pos f)))"

definition WebSocket_framePosSeekTo :: "nat \<Rightarrow> ws \<Rightarrow> ws res" where
  "WebSocket_framePosSeekTo pos w =
     (if first_frame w = Null_Frame then Inr w
      else bindR (deref_frame (first_frame w)) (\<lambda>f. Inr (set_first (Frame_at (f\<lparr>frame_pos := pos\<rparr>)) w)))"

text \<open>
  A byte of the first frame. When there is none, because the frame received is empty, the code says that
  a byte was read although none is assigned.
\<close>

definition take_byte :: "ws \<Rightarrow> ((int + byte) \<times> ws) res" where
  "take_byte w =
     (case first_frame w of
        Null_Frame \<Rightarrow> Inl UninitRead
      | p \<Rightarrow> bindR (deref_frame p) (\<lambda>f.
          guardR UninitRead (frame_pos f < length (frame_data f))
            (Inr (Inr (frame_data f ! frame_pos f), set_first (Frame_at (f\<lparr>frame_pos := Suc (frame_pos f)\<rparr>)) w))))"

definition used_up :: "ws \<Rightarrow> bool res" where
  "used_up w =
     (if first_frame w = Null_Frame then Inr True
      else bindR (deref_frame (first_frame w)) (\<lambda>f. Inr (length (frame_data f) = frame_pos f)))"

definition WebSocket_getch :: "(int \<Rightarrow> bool) \<Rightarrow> int \<Rightarrow> int \<Rightarrow> ws \<Rightarrow> ((int + byte) \<times> ws) res option" where
  "WebSocket_getch al sock junk w =
     (if websocket w then
        (case used_up w of
           Inl e \<Rightarrow> Some (Inl e)
         | Inr False \<Rightarrow> Some (take_byte w)
         | Inr True \<Rightarrow> map_option (\<lambda>r. bindR r (\<lambda>((rc, n), w1). if rc \<noteq> TCPSOCKET_COMPLETE then Inr (Inl rc, w1) else take_byte w1))
             (WebSocket_receiveFrame al sock junk w))
      else Some (bindR (Socket_getch al sock (io w)) (\<lambda>(c, io'). Inr (c, w\<lparr>io := io'\<rparr>))))"

text \<open>The rest of the first frame, extended until it holds enough: the data and their number.\<close>

partial_function (option) getdata_loop ::
  "(int \<Rightarrow> bool) \<Rightarrow> int \<Rightarrow> int \<Rightarrow> nat \<Rightarrow> ws \<Rightarrow> ((byte option list option \<times> nat) \<times> ws) res option" where
  "getdata_loop al sock junk bytes w =
     (case deref_frame (first_frame w) of
        Inl e \<Rightarrow> Some (Inl e)
      | Inr f \<Rightarrow>
          let rv = Some (map Some (drop (frame_pos f) (frame_data f)));
              n = size_sub (length (frame_data f)) (frame_pos f) in
          if n < bytes then
            (case WebSocket_receiveFrame al sock junk w of
               None \<Rightarrow> None
             | Some (Inl e) \<Rightarrow> Some (Inl e)
             | Some (Inr ((rc, _), w1)) \<Rightarrow>
                 if rc \<noteq> TCPSOCKET_COMPLETE then Some (Inr ((rv, n), w1)) else getdata_loop al sock junk bytes w1)
          else if bytes < n then Some (Inr ((rv, n), set_first (Frame_at (f\<lparr>frame_pos := frame_pos f + bytes\<rparr>)) w))
          else Some (Inr ((rv, n), detach_first f w)))"

definition WebSocket_getdata ::
  "(int \<Rightarrow> bool) \<Rightarrow> int \<Rightarrow> int \<Rightarrow> nat \<Rightarrow> ws \<Rightarrow> ((byte option list option \<times> nat) \<times> ws) res option" where
  "WebSocket_getdata al sock junk bytes w =
     (if \<not> websocket w then Some (bindR (Socket_getdata al sock bytes (io w)) (\<lambda>(r, io'). Inr (r, w\<lparr>io := io'\<rparr>)))
      else if bytes = 0 then
        Some (if first_frame w = Null_Frame then Inr ((None, 0), w)
              else bindR (deref_frame (first_frame w)) (\<lambda>f.
                Inr (if frame_pos f = length (frame_data f) then ((Some [], 0), detach_first f w) else ((None, 0), w))))
      else if first_frame w \<noteq> Null_Frame then getdata_loop al sock junk bytes w
      else
        (case WebSocket_receiveFrame al sock junk w of
           None \<Rightarrow> None
         | Some (Inl e) \<Rightarrow> Some (Inl e)
         | Some (Inr ((rc, n), w1)) \<Rightarrow>
             if rc = TCPSOCKET_COMPLETE \<and> first_frame w1 \<noteq> Null_Frame then getdata_loop al sock junk bytes w1
             else Some (Inr ((None, case n of None \<Rightarrow> 0 | Some m \<Rightarrow> m), w1))))"

definition WebSocket_terminate :: "ws \<Rightarrow> ws" where
  "WebSocket_terminate w = w\<lparr>in_frames := None, last_frame := None, frame_buffer := None, frame_buffer_len := 0,
     frame_buffer_index := 0, frame_buffer_data_len := 0\<rparr>"

section \<open>The buffer\<close>

definition buffered :: "ws \<Rightarrow> byte list" where
  "buffered w = (case frame_buffer w of None \<Rightarrow> [] | Some b \<Rightarrow> b)"

text \<open>
  The buffer holds what was read of the current frame; nothing of it is left with the socket. \<open>wire\<close> is
  what comes from the start of the current frame on.
\<close>

definition ws_inv :: "(int \<Rightarrow> bool) \<Rightarrow> int \<Rightarrow> ws \<Rightarrow> bool" where
  "ws_inv al sock w \<longleftrightarrow> sock_inv al sock (io w) \<and> headerlen (mine sock (buffers (io w))) = 0 \<and>
     datalen (mine sock (buffers (io w))) = 0 \<and> (frame_buffer w = None \<longleftrightarrow> buffered w = []) \<and>
     frame_buffer_data_len w = length (buffered w) \<and> frame_buffer_len w = length (buffered w) \<and>
     frame_buffer_index w \<le> length (buffered w) \<and> length (buffered w) < 2 ^ 62"

definition wire :: "int \<Rightarrow> ws \<Rightarrow> byte list" where
  "wire sock w = buffered w @ incoming (peers (io w) sock)"

definition ws_calm :: "int \<Rightarrow> ws \<Rightarrow> bool" where
  "ws_calm sock w \<longleftrightarrow> sock_calm sock (io w)"

text \<open>What reading raw data leaves alone.\<close>

definition same_frames :: "ws \<Rightarrow> ws \<Rightarrow> bool" where
  "same_frames w w' \<longleftrightarrow> in_frames w' = in_frames w \<and> last_frame w' = last_frame w \<and> websocket w' = websocket w \<and> rands w' = rands w"

lemma size_sub_le: "b \<le> a \<Longrightarrow> a < 2 ^ 62 \<Longrightarrow> size_sub a b = a - b"
proof -
  assume "b \<le> a" "a < 2 ^ 62"
  then have "(int a - int b) mod 2 ^ 64 = int (a - b)" by (simp add: of_nat_diff)
  then show ?thesis by (simp add: size_sub_def)
qed

lemma buffer_append_ok:
  assumes "ws_inv al sock w" "bs \<noteq> []" "length (buffered w) + length bs < 2 ^ 62"
  shows "\<exists>w'. buffer_append al bs w = Inr (Some w') \<and> buffered w' = buffered w @ bs \<and> frame_buffer w' \<noteq> None \<and>
    frame_buffer_data_len w' = length (buffered w') \<and> frame_buffer_len w' = length (buffered w') \<and>
    frame_buffer_index w' = frame_buffer_index w \<and> io w' = io w \<and> same_frames w w'"
proof -
  have "malloc_ok al (int n)" if "n < 2 ^ 62" for n
    using assms(1) that by (auto simp: ws_inv_def sock_inv_def malloc_ok_def PTRDIFF_MAX_def)
  from this [of "length bs"] this [of "length (buffered w) + length bs"] assms(3)
  have "malloc_ok al (int (length bs))" "malloc_ok al (int (length (buffered w)) + int (length bs))" by simp_all
  with assms show ?thesis
    by (cases "frame_buffer w") (auto simp: buffer_append_def ws_inv_def buffered_def same_frames_def Let_def)
qed

text \<open>The next \<open>m\<close> calls find as much data as they ask for, up to \<open>N\<close> bytes, if the peer has sent them.\<close>

definition ready :: "nat \<Rightarrow> nat \<Rightarrow> peer \<Rightarrow> bool" where
  "ready N m p \<longleftrightarrow> m \<le> length (arrivals p) \<and> (\<forall>a \<in> set (arrivals p). \<exists>k \<ge> N. a = Avail k)"

lemma recv_ready:
  assumes "recv n p = (r, p')" "ready N (Suc m) p" "n \<le> N" "0 < n"
  shows "ready N m p'" "n \<le> length (incoming p) \<Longrightarrow> r = Received (take n (incoming p))"
proof -
  obtain k as where "arrivals p = Avail k # as" "N \<le> k" "m \<le> length as" "\<forall>a \<in> set as. \<exists>k \<ge> N. a = Avail k"
    using assms(2) by (cases "arrivals p") (auto simp: ready_def)
  with assms(1,3,4) show "ready N m p'" "n \<le> length (incoming p) \<Longrightarrow> r = Received (take n (incoming p))"
    by (auto simp: recv.simps ready_def Let_def min_def split: if_splits)
qed

text \<open>
  One read of \<open>n\<close> bytes from where the index stands: all of them, or an interruption that loses nothing.
\<close>

definition read_on :: "(int \<Rightarrow> bool) \<Rightarrow> int \<Rightarrow> nat \<Rightarrow> ws \<Rightarrow> ws \<Rightarrow> bool" where
  "read_on al sock n w w' \<longleftrightarrow> ws_inv al sock w' \<and> ws_calm sock w' \<and> wire sock w' = wire sock w \<and> same_frames w w' \<and>
     length (buffered w') \<le> max (length (buffered w)) (frame_buffer_index w + n) \<and>
     (\<forall>N m. n \<le> N \<longrightarrow> ready N (Suc m) (peers (io w) sock) \<longrightarrow> ready N m (peers (io w') sock))"

text \<open>What the socket gives, in terms of the buffer.\<close>

lemma mine_held: "ws_inv al sock w \<Longrightarrow> n < 268435456 \<Longrightarrow> sock_held sock 0 n (io w)"
  by (simp add: ws_inv_def sock_held_def queue_held_def)

lemma ready_mono: "ready N (Suc m) p \<Longrightarrow> ready N m p"
  by (simp add: ready_def)

lemma buffer_slice_ok:
  "frame_buffer w \<noteq> None \<Longrightarrow> frame_buffer_index w + m \<le> length (buffered w) \<Longrightarrow>
   buffer_slice m w = Inr (take m (drop (frame_buffer_index w) (buffered w)))"
  by (auto simp: buffer_slice_def buffered_def)

lemma getRaw_buffer:
  assumes "ws_inv al sock w" "ws_calm sock w" "0 < n" "frame_buffer_index w + n \<le> length (buffered w)"
  defines "w' \<equiv> w\<lparr>frame_buffer_index := frame_buffer_index w + n\<rparr>"
  shows "WebSocket_getRawSocketData al sock n rcs w = Inr ((Some (take n (drop (frame_buffer_index w) (wire sock w))), n, rcs), w')"
    and "read_on al sock n w w'"
proof -
  have "frame_buffer w \<noteq> None" using assms(1,3,4) by (auto simp: ws_inv_def)
  from buffer_slice_ok [OF this assms(4)]
  have "buffer_slice n w = Inr (take n (drop (frame_buffer_index w) (wire sock w)))" using assms(4) by (simp add: wire_def)
  moreover have "n \<le> size_sub (frame_buffer_data_len w) (frame_buffer_index w)"
    using assms(1,4) by (simp add: ws_inv_def size_sub_le)
  ultimately show "WebSocket_getRawSocketData al sock n rcs w =
      Inr ((Some (take n (drop (frame_buffer_index w) (wire sock w))), n, rcs), w')"
    using assms(3) by (simp add: WebSocket_getRawSocketData_def w'_def)
  from assms(1,2,4) show "read_on al sock n w w'"
    by (auto simp: read_on_def w'_def ws_inv_def ws_calm_def wire_def same_frames_def buffered_def ready_mono)
qed

text \<open>The state after \<open>bs\<close> have arrived and \<open>m\<close> bytes are handed out.\<close>

lemma getRaw_data:
  assumes inv: "ws_inv al sock w" and n: "0 < n" "length (buffered w) - frame_buffer_index w < n" "length (buffered w) + n < 2 ^ 62"
    and bs: "bs \<noteq> []" "length bs \<le> n - (length (buffered w) - frame_buffer_index w)" "take (length bs) v = map Some bs"
    and get: "Socket_getdata_rc al sock (n - (length (buffered w) - frame_buffer_index w)) (io w) =
      Inr ((Some v, length bs, Some (int (length bs))), st)" and st: "reading sock (buffers st)"
  defines "m \<equiv> min n (length (buffered w) + length bs - frame_buffer_index w)"
  shows "\<exists>w'. WebSocket_getRawSocketData al sock n rcs w =
      Inr ((Some (take m (drop (frame_buffer_index w) (buffered w @ bs))), m, int (length bs)), w') \<and>
    ws_inv al sock w' \<and> buffered w' = buffered w @ bs \<and> frame_buffer_index w' = frame_buffer_index w + m \<and>
    peers (io w') = peers st \<and> same_frames w w'"
proof -
  let ?w1 = "w\<lparr>io := st\<rparr>"
  have avail: "size_sub (frame_buffer_data_len w) (frame_buffer_index w) = length (buffered w) - frame_buffer_index w"
    using inv by (simp add: ws_inv_def size_sub_le)
  have len: "length bs \<le> length v" using bs(3) by (metis length_map length_take min.cobounded1)
  have thev: "map the (take (length bs) v) = bs" by (simp add: bs(3) comp_def)
  have sz: "length (buffered w) + length bs < 2 ^ 62" using n bs(2) by linarith
  have "buffer_append al bs ?w1 = map_sum id (map_option (\<lambda>w'. w'\<lparr>io := st\<rparr>)) (buffer_append al bs w)"
    by (simp add: buffer_append_def Let_def guardR_def split: option.split)
  moreover obtain w2 where w2: "buffer_append al bs w = Inr (Some w2)" "buffered w2 = buffered w @ bs" "frame_buffer w2 \<noteq> None"
    "frame_buffer_data_len w2 = length (buffered w2)" "frame_buffer_len w2 = length (buffered w2)"
    "frame_buffer_index w2 = frame_buffer_index w" "same_frames w w2"
    using buffer_append_ok [OF inv bs(1) sz] by blast
  ultimately have app: "buffer_append al bs ?w1 = Inr (Some (w2\<lparr>io := st\<rparr>))" by simp
  obtain b where b: "SocketBuffer_complete sock (buffers st) = Inr b" "reading sock b" "mine sock b = reset_queue (mine sock (buffers st))"
    using complete_mine [OF st] by blast
  define w3 where "w3 = w2\<lparr>io := st\<lparr>buffers := b\<rparr>\<rparr>"
  have small: "length (buffered w2) < 2 ^ 62" using w2(2) sz by simp
  have idx: "frame_buffer_index w \<le> length (buffered w)" using inv by (simp add: ws_inv_def)
  have avail2: "size_sub (frame_buffer_data_len w2) (frame_buffer_index w2) = length (buffered w) + length bs - frame_buffer_index w"
    using w2 small idx by (simp add: size_sub_le)
  have i3: "frame_buffer_index w3 = frame_buffer_index w2" by (simp add: w3_def)
  have slice: "buffer_slice m w3 = Inr (take m (drop (frame_buffer_index w) (buffered w @ bs)))"
    using buffer_slice_ok [of w3 m] w2 idx by (simp add: w3_def buffered_def m_def)
  let ?w = "w3\<lparr>frame_buffer_index := frame_buffer_index w3 + m\<rparr>"
  have "None \<notin> set (take (length bs) v)" by (auto simp: bs(3))
  then have "WebSocket_getRawSocketData al sock n rcs w =
      Inr ((Some (take m (drop (frame_buffer_index w) (buffered w @ bs))), m, int (length bs)), ?w)"
    using n bs(1) get app b(1) avail avail2 i3 slice len
    by (simp add: WebSocket_getRawSocketData_def thev Let_def flip: w3_def m_def)
  moreover have "ws_inv al sock ?w"
    using inv w2 b small idx bs(1)
    by (auto simp: ws_inv_def w3_def buffered_def sock_inv_def reset_queue_def m_def)
  ultimately show ?thesis using w2 by (auto simp: w3_def buffered_def same_frames_def)
qed

lemma getRaw_socket:
  assumes inv: "ws_inv al sock w" and calm: "ws_calm sock w"
    and n: "0 < n" "n < 268435456" "length (buffered w) - frame_buffer_index w < n" "length (buffered w) + n < 2 ^ 62"
  defines "i \<equiv> frame_buffer_index w"
  shows "\<exists>bs m rc w'. WebSocket_getRawSocketData al sock n rcs w = Inr ((Some bs, m, rc), w') \<and> rc \<notin> {0, SOCKET_ERROR} \<and>
    read_on al sock n w w' \<and>
    (if m < n then \<forall>N k. n \<le> N \<longrightarrow> ready N (Suc k) (peers (io w) sock) \<longrightarrow> length (wire sock w) < i + n
     else m = n \<and> bs = take n (drop i (wire sock w)) \<and> i + n \<le> length (wire sock w) \<and> frame_buffer_index w' = i + n)"
proof -
  define want where "want = n - (length (buffered w) - i)"
  have want: "0 < want" "want < 268435456" "want \<le> n" using n by (auto simp: want_def i_def)
  have q: "datalen (mine sock (buffers (io w))) = 0" "headerlen (mine sock (buffers (io w))) = 0"
    and si: "sock_inv al sock (io w)" and idx: "i \<le> length (buffered w)" using inv by (simp_all add: ws_inv_def i_def)
  from si mine_held [OF inv want(2)] want(1) show ?thesis
  proof (cases rule: Socket_getdata_rc_cases)
    case (data bs p v q' b)
    note rd = recv_data [OF data(2)]
    have bs: "length bs \<le> want" "take (length bs) v = map Some bs" "reading sock b"
      using data(3) q no_data(1) by (simp_all add: stored_def)
    define m where "m = min n (length (buffered w) + length bs - i)"
    obtain w' where w': "WebSocket_getRawSocketData al sock n rcs w =
        Inr ((Some (take m (drop i (buffered w @ bs))), m, int (length bs)), w')"
      "ws_inv al sock w'" "buffered w' = buffered w @ bs" "frame_buffer_index w' = i + m"
      "peers (io w') = peers (set_peer sock p ((io w)\<lparr>buffers := b\<rparr>))" "same_frames w w'"
      using getRaw_data [OF inv n(1,3,4) data(1), folded i_def, folded want_def m_def, OF bs(1,2), of "set_peer sock p ((io w)\<lparr>buffers := b\<rparr>)" rcs]
        data(4) bs(3) q by (auto simp: set_peer_def)
    have rdy: "ready N k p" if "n \<le> N" "ready N (Suc k) (peers (io w) sock)" for N k
      using recv_ready(1) [OF data(2) that(2)] that(1) want q by simp
    have wire: "wire sock w' = wire sock w" using rd(1) w'(3,5) by (simp add: wire_def set_peer_def)
    have "read_on al sock n w w'"
      using w' wire rd(4) calm rdy bs(1) idx
      by (auto simp: read_on_def ws_calm_def sock_calm_def set_peer_def want_def i_def [symmetric])
    moreover have "length (wire sock w) < i + n" if "m < n" "n \<le> N" "ready N (Suc k) (peers (io w) sock)" for N k
    proof (rule ccontr)
      assume "\<not> length (wire sock w) < i + n"
      then have "want \<le> length (incoming (peers (io w) sock))" using idx by (auto simp: wire_def want_def)
      then have "length bs = want"
        using recv_ready(2) [OF data(2) that(3)] that(2) want q by simp
      with that(1) idx n(3) show False by (auto simp: m_def want_def i_def)
    qed
    moreover have "take m (drop i (buffered w @ bs)) = take n (drop i (wire sock w)) \<and> i + n \<le> length (wire sock w)" if "\<not> m < n"
      using that idx rd(1) by (auto simp: m_def wire_def min_def split: if_splits)
    moreover have "int (length bs) \<notin> {0, SOCKET_ERROR}" using data(1) by (auto simp: transport_codes)
    moreover have "m \<le> n" by (simp add: m_def)
    ultimately show ?thesis
      using w'(1,4)
      by (intro exI [of _ "take m (drop i (buffered w @ bs))"] exI [of _ m] exI [of _ "int (length bs)"] exI [of _ w'])
        (cases "m < n"; auto)
  next
    case (again p v q' b)
    let ?w = "w\<lparr>io := set_peer sock p ((io w)\<lparr>buffers := b\<rparr>)\<rparr>"
    note rd = recv_error [OF again(1)]
    have avail: "size_sub (frame_buffer_data_len w) (frame_buffer_index w) = length (buffered w) - i"
      using inv by (simp add: ws_inv_def size_sub_le i_def)
    have "WebSocket_getRawSocketData al sock n rcs w = Inr ((Some [], 0, EAGAIN), ?w)"
      using n avail again(3) q(1)
      by (simp add: WebSocket_getRawSocketData_def Let_def want_def [symmetric] i_def [symmetric] EAGAIN_def)
    moreover have "ready N k p" if "n \<le> N" "ready N (Suc k) (peers (io w) sock)" for N k
      using recv_ready(1) [OF again(1) that(2)] that(1) want q by simp
    moreover have "ws_inv al sock ?w"
      using inv again(2) want q by (simp add: ws_inv_def stored_def sock_inv_def set_peer_def buffered_def keep_data_def)
    ultimately have "read_on al sock n w ?w"
      using rd(1,3) calm
      by (auto simp: read_on_def ws_calm_def sock_calm_def set_peer_def wire_def buffered_def same_frames_def)
    moreover have "length (wire sock w) < i + n" if "n \<le> N" "ready N (Suc k) (peers (io w) sock)" for N k
    proof (rule ccontr)
      assume "\<not> length (wire sock w) < i + n"
      then have "want \<le> length (incoming (peers (io w) sock))" using idx by (auto simp: wire_def want_def)
      then show False using recv_ready(2) [OF again(1) that(2)] that(1) want q by simp
    qed
    ultimately show ?thesis
      using \<open>WebSocket_getRawSocketData al sock n rcs w = _\<close> n(1)
      by (intro exI [of _ "[]"] exI [of _ 0] exI [of _ EAGAIN] exI [of _ ?w]) (auto simp: EAGAIN_def transport_codes)
  next
    case (err m rc st')
    with calm show ?thesis by (simp add: ws_calm_def)
  qed
qed

lemma raw_read_cases:
  assumes inv: "ws_inv al sock w" and calm: "ws_calm sock w" and rcs: "rcs \<notin> {0, SOCKET_ERROR}"
    and n: "0 < n" "n < 268435456" "length (buffered w) + n < 2 ^ 62"
  defines "i \<equiv> frame_buffer_index w"
  obtains (all) rc w' where "raw_read al sock c n rcs w = Inr (Inr (take n (drop i (wire sock w)), rc), w')"
      "rc \<notin> {0, SOCKET_ERROR}" "read_on al sock n w w'" "frame_buffer_index w' = i + n" "i + n \<le> length (wire sock w)"
    | (short) w' where "raw_read al sock c n rcs w = Inr (Inl TCPSOCKET_INTERRUPTED, w')" "read_on al sock n w w'"
      "\<And>N k. n \<le> N \<Longrightarrow> ready N (Suc k) (peers (io w) sock) \<Longrightarrow> length (wire sock w) < i + n"
proof (cases "i + n \<le> length (buffered w)")
  case True
  show thesis
  proof (rule all [of rcs])
    show "raw_read al sock c n rcs w =
        Inr (Inr (take n (drop i (wire sock w)), rcs), w\<lparr>frame_buffer_index := frame_buffer_index w + n\<rparr>)"
      using getRaw_buffer(1) [OF inv calm n(1)] True rcs by (simp add: raw_read_def i_def)
    show "read_on al sock n w (w\<lparr>frame_buffer_index := frame_buffer_index w + n\<rparr>)"
      using getRaw_buffer(2) [OF inv calm n(1)] True by (simp add: i_def)
  qed (use rcs True in \<open>simp_all add: i_def wire_def\<close>)
next
  case False
  then have "length (buffered w) - frame_buffer_index w < n" using n(1) by (auto simp: i_def)
  from getRaw_socket [OF inv calm n(1,2) this n(3), of rcs, folded i_def] obtain bs m rc w' where r:
    "WebSocket_getRawSocketData al sock n rcs w = Inr ((Some bs, m, rc), w')" "rc \<notin> {0, SOCKET_ERROR}" "read_on al sock n w w'"
    "if m < n then \<forall>N k. n \<le> N \<longrightarrow> ready N (Suc k) (peers (io w) sock) \<longrightarrow> length (wire sock w) < i + n
     else m = n \<and> bs = take n (drop i (wire sock w)) \<and> i + n \<le> length (wire sock w) \<and> frame_buffer_index w' = i + n" by blast
  show thesis
  proof (cases "m < n")
    case True
    with r show thesis by (intro short [of w']) (auto simp: raw_read_def)
  next
    case False
    with r show thesis by (intro all [of rc w']) (simp_all add: raw_read_def)
  qed
qed

text \<open>At the end of a frame the buffer is cleared.\<close>

lemma getRaw_clear:
  assumes inv: "ws_inv al sock w" and rcs: "rcs \<notin> {0, SOCKET_ERROR}" and i: "frame_buffer_index w = length (buffered w)"
  shows "\<exists>w'. WebSocket_getRawSocketData al sock 0 rcs w = Inr ((Some [], 0, rcs), w') \<and> ws_inv al sock w' \<and> buffered w' = [] \<and>
    frame_buffer_index w' = 0 \<and> wire sock w' = drop (length (buffered w)) (wire sock w) \<and> peers (io w') = peers (io w) \<and> same_frames w w'"
proof -
  have "sock_inv al sock (io w)" using inv by (simp add: ws_inv_def)
  from Socket_getdata_rc_zero [OF this] obtain b v where b: "Socket_getdata_rc al sock 0 (io w) = Inr ((Some v, 0, None), (io w)\<lparr>buffers := b\<rparr>)"
    "reading sock b" "mine sock b = reset_queue (mine sock (buffers (io w)))" by blast
  let ?w = "w\<lparr>io := (io w)\<lparr>buffers := b\<rparr>, frame_buffer_index := 0, frame_buffer_data_len := 0, frame_buffer_len := 0, frame_buffer := None\<rparr>"
  have "WebSocket_getRawSocketData al sock 0 rcs w = Inr ((Some [], 0, rcs), ?w)"
    using b(1) rcs by (simp add: WebSocket_getRawSocketData_def Let_def)
  moreover have "ws_inv al sock ?w"
    using inv b by (auto simp: ws_inv_def sock_inv_def buffered_def reset_queue_def)
  ultimately show ?thesis by (auto simp: buffered_def wire_def same_frames_def)
qed

section \<open>A frame\<close>

text \<open>
  A sequence of at most \<open>k\<close> reads that do not go beyond position \<open>L\<close>. The interruption of one of them is
  due to the network.
\<close>

definition reads_to :: "(int \<Rightarrow> bool) \<Rightarrow> int \<Rightarrow> nat \<Rightarrow> nat \<Rightarrow> ws \<Rightarrow> ws \<Rightarrow> bool" where
  "reads_to al sock L k w0 w \<longleftrightarrow> ws_inv al sock w \<and> ws_calm sock w \<and> wire sock w = wire sock w0 \<and> same_frames w0 w \<and>
     length (buffered w) \<le> L \<and> (\<forall>N m. L \<le> N \<longrightarrow> ready N (k + m) (peers (io w0) sock) \<longrightarrow> ready N m (peers (io w) sock))"

lemma reads_to_step:
  assumes "reads_to al sock L k w0 w" "read_on al sock n w w'" "frame_buffer_index w + n \<le> L"
  shows "reads_to al sock L (Suc k) w0 w'"
proof -
  have "ready N m (peers (io w') sock)" if "L \<le> N" "ready N (Suc k + m) (peers (io w0) sock)" for N m
    using assms that by (simp add: reads_to_def read_on_def)
  with assms show ?thesis by (auto simp: reads_to_def read_on_def same_frames_def)
qed

lemma ready_le: "ready N m p \<Longrightarrow> k \<le> m \<Longrightarrow> ready N k p"
  by (simp add: ready_def)

lemma not_ready_le: "(\<And>m. \<not> ready N (j + m) p) \<Longrightarrow> j \<le> k \<Longrightarrow> \<not> ready N (k + m) p"
  using le_add_diff_inverse [of j k] by (metis add.assoc)

lemma reads_to_le:
  assumes "reads_to al sock L j w w'" "j \<le> k"
  shows "reads_to al sock L k w w'"
proof -
  have "ready N m (peers (io w') sock)" if "L \<le> N" "ready N (k + m) (peers (io w) sock)" for N m
  proof -
    have "ready N (j + (k - j + m)) (peers (io w) sock)" using that(2) assms(2) by simp
    then have "ready N (k - j + m) (peers (io w') sock)" using assms(1) that(1) unfolding reads_to_def by blast
    then show ?thesis by (rule ready_le) simp
  qed
  with assms(1) show ?thesis by (simp add: reads_to_def)
qed

lemma raw_step:
  assumes to: "reads_to al sock L k w0 w" and rcs: "rcs \<notin> {0, SOCKET_ERROR}"
    and seg: "wire sock w0 = pre @ seg @ post" "frame_buffer_index w = length pre" "seg \<noteq> []" "length seg < 268435456"
    and L: "length pre + length seg \<le> L" "L < 2 ^ 60"
  obtains (all) rc w' where "raw_read al sock c (length seg) rcs w = Inr (Inr (seg, rc), w')" "rc \<notin> {0, SOCKET_ERROR}"
      "reads_to al sock L (Suc k) w0 w'" "frame_buffer_index w' = length (pre @ seg)"
    | (short) w' where "raw_read al sock c (length seg) rcs w = Inr (Inl TCPSOCKET_INTERRUPTED, w')" "reads_to al sock L (Suc k) w0 w'"
      "\<And>N m. L \<le> N \<Longrightarrow> \<not> ready N (Suc k + m) (peers (io w0) sock)"
proof -
  have w: "ws_inv al sock w" "ws_calm sock w" "wire sock w = pre @ seg @ post" using to seg(1) by (simp_all add: reads_to_def)
  have n: "0 < length seg" "length (buffered w) + length seg < 2 ^ 62"
    using to seg(3) L by (auto simp: reads_to_def)
  from w(1,2) rcs n(1) seg(4) n(2) show thesis
  proof (cases rule: raw_read_cases [where c = c])
    case (all rc w')
    then show thesis
      using that(1) [of rc w'] reads_to_step [OF to all(3)] seg(2) L w(3) by simp
  next
    case (short w')
    have "\<not> ready N (Suc k + m) (peers (io w0) sock)" if "L \<le> N" for N m
    proof
      assume "ready N (Suc k + m) (peers (io w0) sock)"
      then have "ready N (Suc m) (peers (io w) sock)" using to that by (simp add: reads_to_def)
      with short(3) [of N m] that L w(3) seg(2) show False by simp
    qed
    then show thesis
      using that(2) [of w'] short(1) reads_to_step [OF to short(2)] seg(2) L by simp
  qed
qed

lemma fragment_length_cases:
  assumes to: "reads_to al sock L k w0 w" and rcs: "rcs \<notin> {0, SOCKET_ERROR}" and ext: "has_ext b1 ext n"
    and seg: "wire sock w0 = pre @ ext @ post" "frame_buffer_index w = length pre"
    and L: "length pre + length ext \<le> L" "L < 2 ^ 60"
  obtains (all) rc w' j where "fragment_length al sock b1 rcs w = Inr (Inr (n, rc), w')" "rc \<notin> {0, SOCKET_ERROR}"
      "j \<le> Suc k" "reads_to al sock L j w0 w'" "frame_buffer_index w' = length (pre @ ext)"
    | (short) w' where "fragment_length al sock b1 rcs w = Inr (Inl TCPSOCKET_INTERRUPTED, w')" "reads_to al sock L (Suc k) w0 w'"
      "\<And>N m. L \<le> N \<Longrightarrow> \<not> ready N (Suc k + m) (peers (io w0) sock)"
proof (cases "ext = []")
  case True
  with assms all [of rcs w k] show thesis by (auto simp: fragment_length_def has_ext_def Let_def split: if_splits)
next
  case False
  have len: "length ext < 268435456" using ext by (auto simp: has_ext_def Let_def split: if_splits)
  have eq: "fragment_length al sock b1 rcs w =
      bindW (raw_read al sock SOCKET_ERROR (length ext) rcs w) (\<lambda>(bs, rcs') w'. Inr (Inr (be_val bs, rcs'), w'))" and v: "be_val ext = n"
    using ext False by (auto simp: fragment_length_def has_ext_def Let_def split: if_splits)
  from to rcs seg False len L show thesis
  proof (cases rule: raw_step [where c = SOCKET_ERROR])
    case (all rc w')
    then show thesis using that(1) [of rc w' "Suc k"] eq v by (simp add: bindW_def)
  next
    case (short w')
    then show thesis using that(2) [of w'] eq by (simp add: bindW_def)
  qed
qed

text \<open>The whole frame was read; \<open>post\<close> follows it.\<close>

definition at_end :: "(int \<Rightarrow> bool) \<Rightarrow> int \<Rightarrow> nat \<Rightarrow> nat \<Rightarrow> byte list \<Rightarrow> ws \<Rightarrow> ws \<Rightarrow> bool" where
  "at_end al sock L k post w0 w \<longleftrightarrow> ws_inv al sock w \<and> ws_calm sock w \<and> same_frames w0 w \<and>
     frame_buffer_index w = length (buffered w) \<and> wire sock w = buffered w @ post \<and>
     (\<forall>N m. L \<le> N \<longrightarrow> ready N (k + m) (peers (io w0) sock) \<longrightarrow> ready N m (peers (io w) sock))"

lemma payload_cases:
  assumes to: "reads_to al sock L k w0 w" and rcs: "rcs \<notin> {0, SOCKET_ERROR}"
    and seg: "wire sock w0 = pre @ body @ post" "frame_buffer_index w = length pre" "length body < 268435456"
    and L: "L = length pre + length body" "L < 2 ^ 60"
  obtains (all) rc w' where "raw_read al sock SOCKET_ERROR (length body) rcs w = Inr (Inr (body, rc), w')" "rc \<notin> {0, SOCKET_ERROR}"
      "at_end al sock L (Suc k) post w0 w'"
    | (short) w' where "raw_read al sock SOCKET_ERROR (length body) rcs w = Inr (Inl TCPSOCKET_INTERRUPTED, w')"
      "reads_to al sock L (Suc k) w0 w'" "\<And>N m. L \<le> N \<Longrightarrow> \<not> ready N (Suc k + m) (peers (io w0) sock)"
proof (cases "body = []")
  case True
  have "frame_buffer_index w = length (buffered w)" and inv: "ws_inv al sock w"
    using to seg(2) L(1) True by (auto simp: reads_to_def ws_inv_def)
  from getRaw_clear [OF inv rcs this(1)] obtain w' where w': "WebSocket_getRawSocketData al sock 0 rcs w = Inr ((Some [], 0, rcs), w')"
    "ws_inv al sock w'" "buffered w' = []" "frame_buffer_index w' = 0" "wire sock w' = drop (length (buffered w)) (wire sock w)"
    "peers (io w') = peers (io w)" "same_frames w w'" by blast
  have "wire sock w' = post"
    using w'(5) \<open>frame_buffer_index w = length (buffered w)\<close> to seg True by (simp add: reads_to_def)
  then have "at_end al sock L (Suc k) post w0 w'"
    using w' to ready_mono by (auto simp: at_end_def reads_to_def ws_calm_def sock_calm_def same_frames_def)
  with w'(1) rcs True show thesis by (intro all [of rcs w']) (simp_all add: raw_read_def)
next
  case False
  have le: "length pre + length body \<le> L" using L(1) by simp
  from to rcs seg(1,2) False seg(3) le L(2) show thesis
  proof (cases rule: raw_step [where c = SOCKET_ERROR])
    case (all rc w')
    have "frame_buffer_index w' = length (buffered w')" "length (buffered w') = length (pre @ body)"
      using all(3,4) L(1) by (auto simp: reads_to_def ws_inv_def)
    moreover have "buffered w' @ incoming (peers (io w') sock) = (pre @ body) @ post"
      using all(3) seg(1) by (simp add: reads_to_def wire_def)
    then have "incoming (peers (io w') sock) = post" using calculation(2) by (metis append_eq_append_conv)
    ultimately have "at_end al sock L (Suc k) post w0 w'"
      using all(3) by (simp add: at_end_def reads_to_def wire_def)
    with all show thesis using that(1) [of rc w'] by simp
  next
    case (short w')
    then show thesis using that(2) [of w'] by simp
  qed
qed

lemma set_first_fields [simp]:
  "io (set_first p w) = io w" "buffered (set_first p w) = buffered w" "wire sock (set_first p w) = wire sock w"
  "frame_buffer_index (set_first p w) = frame_buffer_index w" "ws_inv al sock (set_first p w) = ws_inv al sock w"
  "ws_calm sock (set_first p w) = ws_calm sock w" "last_frame (set_first p w) = last_frame w"
  "websocket (set_first p w) = websocket w" "rands (set_first p w) = rands w"
  by (simp_all add: set_first_def buffered_def wire_def ws_inv_def ws_calm_def split: option.split list.split)

text \<open>The frame was taken over: \<open>f\<close> is the first in the queue, if the queue has one.\<close>

definition taken :: "(int \<Rightarrow> bool) \<Rightarrow> int \<Rightarrow> byte list \<Rightarrow> ws_frame \<Rightarrow> ws \<Rightarrow> ws \<Rightarrow> bool" where
  "taken al sock post f w w' \<longleftrightarrow> ws_inv al sock w' \<and> ws_calm sock w' \<and> buffered w' = [] \<and> frame_buffer_index w' = 0 \<and>
     wire sock w' = post \<and> same_frames (set_first (Frame_at f) w) w'"

lemma same_frames_first: "same_frames w0 w \<Longrightarrow> same_frames (set_first p w0) (set_first p w)"
  by (simp add: same_frames_def set_first_def split: option.split list.split)

lemma same_frames_trans: "same_frames w0 w \<Longrightarrow> same_frames w w' \<Longrightarrow> same_frames w0 w'"
  by (simp add: same_frames_def)

lemma store_fragment_ok:
  assumes e: "at_end al sock L k post w0 w" and rcs: "rcs \<notin> {0, SOCKET_ERROR}"
    and f: "extend_frame res bs = Inr f" "length (frame_data f) < 2 ^ 61"
  shows "\<exists>w'. store_fragment al sock rcs fin op res bs w = Inr (Inr (fin, op, f), w') \<and> taken al sock post f w0 w' \<and>
    (\<forall>N m. L \<le> N \<longrightarrow> ready N (k + m) (peers (io w0) sock) \<longrightarrow> ready N m (peers (io w') sock))"
proof -
  let ?w = "set_first (Frame_at f) w"
  have "ws_inv al sock ?w" "frame_buffer_index ?w = length (buffered ?w)" using e by (simp_all add: at_end_def)
  from getRaw_clear [OF this(1) rcs this(2)] obtain w' where w': "WebSocket_getRawSocketData al sock 0 rcs ?w = Inr ((Some [], 0, rcs), w')"
    "ws_inv al sock w'" "buffered w' = []" "frame_buffer_index w' = 0" "wire sock w' = drop (length (buffered w)) (wire sock w)"
    "peers (io w') = peers (io w)" "same_frames ?w w'" by auto
  have "malloc_ok al (16 + int (length (frame_data f)))"
    using e f(2) by (simp add: at_end_def ws_inv_def sock_inv_def malloc_ok_def PTRDIFF_MAX_def)
  with w'(1) f(1) rcs have "store_fragment al sock rcs fin op res bs w = Inr (Inr (fin, op, f), w')"
    by (simp add: store_fragment_def)
  moreover have "taken al sock post f w0 w'"
    using w' e same_frames_trans [OF same_frames_first] by (auto simp: taken_def at_end_def ws_calm_def sock_calm_def)
  ultimately show ?thesis using w'(6) e by (auto simp: at_end_def)
qed

text \<open>
  Reading a fragment that is a whole unmasked frame: it is taken over, or the read is interrupted, which
  happens only when the network does not have the data.
\<close>

lemma read_fragment_cases:
  assumes inv: "ws_inv al sock w" and calm: "ws_calm sock w" and i: "frame_buffer_index w = 0" and junk: "junk \<notin> {0, SOCKET_ERROR}"
    and wire: "wire sock w = frame_header op False (length body) @ body @ post"
    and op: "op \<in> {1, 2, 8, 9, 10}" and body: "length body < 268435456"
    and L: "L = length (frame_header op False (length body) @ body)" "length (buffered w) \<le> L"
    and f: "extend_frame res body = Inr f" "length (frame_data f) < 2 ^ 61"
  obtains (all) w' where "read_fragment al sock junk opcode res w = Inr (Inr (True, op, f), w')" "taken al sock post f w w'"
      "\<And>N m. L \<le> N \<Longrightarrow> ready N (3 + m) (peers (io w) sock) \<Longrightarrow> ready N m (peers (io w') sock)"
    | (short) w' where "read_fragment al sock junk opcode res w = Inr (Inl TCPSOCKET_INTERRUPTED, w')" "reads_to al sock L 3 w w'"
      "\<And>N m. L \<le> N \<Longrightarrow> \<not> ready N (3 + m) (peers (io w) sock)"
proof -
  obtain b1 ext where h: "frame_header op False (length body) = (0x80 OR (of_nat op AND 0x0F)) # b1 # ext" "\<not> bit b1 7"
    "has_ext b1 ext (length body)"
    using frame_header_parts [of "length body" op False] body by (auto simp: frame_limit_def)
  let ?b0 = "0x80 OR (of_nat op AND 0x0F) :: byte"
  have ext: "length ext \<le> 8" using h(3) by (auto simp: has_ext_def Let_def split: if_splits)
  have Ls: "L = 2 + length ext + length body" "L < 2 ^ 60" using L(1) h(1) ext body by simp_all
  have opb: "bit ?b0 7" "unat (?b0 AND 0x0F) = op" "op \<noteq> 0" "\<not> (WebSocket_OP_PONG < op \<or> WebSocket_OP_BINARY < op \<and> op < WebSocket_OP_CLOSE)"
    using op opcode_byte [of op] by (auto simp: opcodes)
  have t0: "reads_to al sock L 0 w w" using inv calm L(2) by (simp add: reads_to_def same_frames_def)
  have w0: "wire sock w = [] @ [?b0, b1] @ (ext @ body @ post)" "[?b0, b1] \<noteq> []" "length [?b0, b1] < 268435456" "frame_buffer_index w = length []"
    "length [] + length [?b0, b1] \<le> L" using wire h(1) i Ls(1) by simp_all
  have two: "length [?b0, b1] = 2" by simp
  from t0 junk w0(1,4,2,3,5) Ls(2) show thesis
  proof (cases rule: raw_step [where c = TCPSOCKET_INTERRUPTED])
    case (short w1)
    then show thesis
      using reads_to_le [of al sock L 1 w w1 3] not_ready_le [of _ 1 _ 3] short(1) [unfolded two] by (intro that(2) [of w1]) (auto simp: read_fragment_def bindW_def)
  next
    case (all rc1 w1)
    note r1 = all(1) [unfolded two]
    have seg: "wire sock w = [?b0, b1] @ ext @ (body @ post)" "frame_buffer_index w1 = length [?b0, b1]" "length [?b0, b1] + length ext \<le> L"
      using w0(1) all(4) Ls(1) by simp_all
    from all(3,2) h(3) seg Ls(2) show thesis
    proof (cases rule: fragment_length_cases)
      case (short w2)
      then show thesis
        using reads_to_le [of al sock L 2 w w2 3] not_ready_le [of _ 2 _ 3] r1 opb
        by (intro that(2) [of w2]) (auto simp: read_fragment_def bindW_def Let_def numeral_2_eq_2)
    next
      case (all rc2 w2 j)
      note r2 = all
      have seg: "wire sock w = ([?b0, b1] @ ext) @ body @ post" "frame_buffer_index w2 = length ([?b0, b1] @ ext)"
        "L = length ([?b0, b1] @ ext) + length body"
        using w0(1) all(5) Ls(1) by simp_all
      from all(4,2) seg(1,2) body seg(3) Ls(2) show thesis
      proof (cases rule: payload_cases)
        case (short w3)
        then show thesis
          using reads_to_le [of al sock L "Suc j" w w3 3] not_ready_le [of _ "Suc j" _ 3] r1 r2(1,3) opb h(2)
          by (intro that(2) [of w3]) (auto simp: read_fragment_def fragment_key_def bindW_def Let_def)
      next
        case (all rc3 w3)
        obtain w4 where w4: "store_fragment al sock rc3 True op res body w3 = Inr (Inr (True, op, f), w4)" "taken al sock post f w w4"
          "\<forall>N m. L \<le> N \<longrightarrow> ready N (Suc j + m) (peers (io w) sock) \<longrightarrow> ready N m (peers (io w4) sock)"
          using store_fragment_ok [OF all(3,2) f] by blast
        have "ready N m (peers (io w4) sock)" if "L \<le> N" "ready N (3 + m) (peers (io w) sock)" for N m
        proof -
          have "ready N (Suc j + m) (peers (io w) sock)" using that(2) r2(3) by (simp add: ready_def)
          with w4(3) that(1) show ?thesis by blast
        qed
        with w4(1,2) r1 r2(1) all(1) opb h(2) show thesis
          by (intro that(1) [of w4]) (simp_all add: read_fragment_def fragment_key_def bindW_def Let_def)
      qed
    qed
  qed
qed

section \<open>The payloads\<close>

text \<open>The queue has at most one frame; the payloads received are its data.\<close>

definition good_queue :: "ws \<Rightarrow> bool" where
  "good_queue w \<longleftrightarrow> in_frames w \<in> {None, Some []} \<or> (\<exists>f. in_frames w = Some [Frame_at f])"

definition payloads :: "ws \<Rightarrow> byte list" where
  "payloads w = (case first_frame w of Frame_at f \<Rightarrow> frame_data f | _ \<Rightarrow> [])"

text \<open>Between two calls: the index is at the start of the frame that comes next.\<close>

definition ws_idle :: "(int \<Rightarrow> bool) \<Rightarrow> int \<Rightarrow> ws \<Rightarrow> bool" where
  "ws_idle al sock w \<longleftrightarrow> ws_inv al sock w \<and> ws_calm sock w \<and> frame_buffer_index w = 0 \<and> good_queue w"

definition server_frame :: "nat \<times> byte list \<Rightarrow> byte list" where
  "server_frame f = (case f of (op, body) \<Rightarrow> frame_header op False (length body) @ body)"

definition data_frame :: "nat \<times> byte list \<Rightarrow> bool" where
  "data_frame f \<longleftrightarrow> fst f \<in> {WebSocket_OP_TEXT, WebSocket_OP_BINARY} \<and> length (snd f) < 268435456"

lemma rewind_idle:
  assumes "reads_to al sock L k w w'" "good_queue w"
  shows "ws_idle al sock (rewind TCPSOCKET_INTERRUPTED w')" "wire sock (rewind TCPSOCKET_INTERRUPTED w') = wire sock w"
    "payloads (rewind TCPSOCKET_INTERRUPTED w') = payloads w" "length (buffered (rewind TCPSOCKET_INTERRUPTED w')) \<le> L"
    "peers (io (rewind TCPSOCKET_INTERRUPTED w')) = peers (io w')"
  using assms
  by (auto simp: reads_to_def ws_idle_def rewind_def ws_inv_def ws_calm_def buffered_def good_queue_def same_frames_def
      wire_def payloads_def first_frame_def)

lemma extend_first:
  assumes "good_queue w"
  shows "\<exists>f. extend_frame (first_frame w) body = Inr f \<and> frame_data f = payloads w @ body"
  using assms by (auto simp: good_queue_def extend_frame_def first_frame_def payloads_def deref_frame_def)

lemma queue_taken:
  assumes t: "taken al sock post f w w'" and g: "good_queue w" "in_frames w \<noteq> None" and al: "\<forall>n. al n"
  shows "ws_idle al sock (queue_frame al f w')" "wire sock (queue_frame al f w') = post" "payloads (queue_frame al f w') = frame_data f"
    "buffered (queue_frame al f w') = []" "peers (io (queue_frame al f w')) = peers (io w')" "in_frames (queue_frame al f w') \<noteq> None"
proof -
  have "malloc_ok al 24" using al by (simp add: malloc_ok_def PTRDIFF_MAX_def)
  with g t have q: "queue_frame al f w' = w'\<lparr>in_frames := Some [Frame_at f]\<rparr>"
    by (auto simp: queue_frame_def good_queue_def taken_def same_frames_def set_first_def)
  show "ws_idle al sock (queue_frame al f w')" "wire sock (queue_frame al f w') = post" "payloads (queue_frame al f w') = frame_data f"
    "buffered (queue_frame al f w') = []" "peers (io (queue_frame al f w')) = peers (io w')" "in_frames (queue_frame al f w') \<noteq> None"
    using t unfolding q
    by (auto simp: taken_def ws_idle_def ws_inv_def ws_calm_def buffered_def good_queue_def wire_def payloads_def first_frame_def)
qed

text \<open>One call, with the frame \<open>f\<close> in front of it.\<close>

lemma receiveFrame_cases:
  assumes idle: "ws_idle al sock w" and junk: "junk \<notin> {0, SOCKET_ERROR}" and d: "data_frame f"
    and wire: "wire sock w = server_frame f @ post" and buf: "length (buffered w) \<le> length (server_frame f)"
    and size: "length (payloads w @ snd f) < 2 ^ 61"
  obtains (all) n w' where "WebSocket_receiveFrame al sock junk w = Some (Inr ((TCPSOCKET_COMPLETE, n), w'))" "ws_idle al sock w'"
      "wire sock w' = post" "payloads w' = payloads w @ snd f" "buffered w' = []"
      "\<And>N m. length (server_frame f) \<le> N \<Longrightarrow> ready N (3 + m) (peers (io w) sock) \<Longrightarrow> ready N m (peers (io w') sock)"
    | (short) w' where "WebSocket_receiveFrame al sock junk w = Some (Inr ((TCPSOCKET_INTERRUPTED, None), w'))" "ws_idle al sock w'"
      "wire sock w' = wire sock w" "payloads w' = payloads w" "length (buffered w') \<le> length (server_frame f)"
      "\<And>N m. length (server_frame f) \<le> N \<Longrightarrow> \<not> ready N (3 + m) (peers (io w) sock)"
proof -
  obtain op body where fb: "f = (op, body)" by (cases f)
  define w0 where "w0 = (if in_frames w = None then w\<lparr>in_frames := Some []\<rparr> else w)"
  have al: "\<forall>n. al n" and g: "good_queue w" using idle by (auto simp: ws_idle_def ws_inv_def sock_inv_def)
  then have mal: "malloc_ok al 40" by (simp add: malloc_ok_def PTRDIFF_MAX_def)
  have w0: "ws_inv al sock w0" "ws_calm sock w0" "frame_buffer_index w0 = 0" "good_queue w0" "in_frames w0 \<noteq> None"
    "wire sock w0 = wire sock w" "payloads w0 = payloads w" "buffered w0 = buffered w" "io w0 = io w"
    using idle
    by (auto simp: w0_def ws_idle_def ws_inv_def ws_calm_def good_queue_def wire_def payloads_def buffered_def first_frame_def)
  obtain g where g: "extend_frame (first_frame w0) body = Inr g" "frame_data g = payloads w @ body"
    using extend_first [OF w0(4)] w0(7) by auto
  have op: "op \<in> {1, 2, 8, 9, 10}" "op \<noteq> WebSocket_OP_PING \<and> op \<noteq> WebSocket_OP_PONG \<and> op \<noteq> WebSocket_OP_CLOSE" and body: "length body < 268435456"
    using d fb by (auto simp: data_frame_def opcodes)
  have run: "WebSocket_receiveFrame al sock junk w =
      map_option (\<lambda>r. bindR r (\<lambda>x. Inr (leave_receive al x)))
       (receive_loop al sock junk WebSocket_OP_BINARY (first_frame w0) w0)"
    using mal by (simp add: WebSocket_receiveFrame_def w0_def Let_def)
  have fr: "wire sock w0 = frame_header op False (length body) @ body @ post" "length (server_frame f) = length (frame_header op False (length body) @ body)"
    "length (buffered w0) \<le> length (server_frame f)" "length (frame_data g) < 2 ^ 61"
    using wire w0(6,8) buf fb size g(2) by (simp_all add: server_frame_def)
  from w0(1-3) junk fr(1) op(1) body fr(2,3) g(1) fr(4) show thesis
  proof (cases rule: read_fragment_cases [where opcode = WebSocket_OP_BINARY and post = post])
    case (all w1)
    note q = queue_taken [OF all(2) w0(4,5) al]
    have "receive_loop al sock junk WebSocket_OP_BINARY (first_frame w0) w0 = Some (Inr (Inr g, w1))"
      using all(1) op(2) by (subst receive_loop.simps) simp
    with run q g(2) fb w0(9) all(3) show thesis
      by (intro that(1) [of _ "queue_frame al g w1"]) (auto simp: server_frame_def leave_receive_def)
  next
    case (short w1)
    note q = rewind_idle [OF short(2) w0(4)]
    have "receive_loop al sock junk WebSocket_OP_BINARY (first_frame w0) w0 = Some (Inr (Inl TCPSOCKET_INTERRUPTED, w1))"
      using short(1) by (subst receive_loop.simps) simp
    with run q fb w0 short(3) show thesis
      by (intro that(2) [of "rewind TCPSOCKET_INTERRUPTED w1"]) (auto simp: server_frame_def leave_receive_def)
  qed
qed

text \<open>One call when nothing comes any more.\<close>

lemma receiveFrame_nothing:
  assumes idle: "ws_idle al sock w" and junk: "junk \<notin> {0, SOCKET_ERROR}" and wire: "wire sock w = []"
  obtains w' where "WebSocket_receiveFrame al sock junk w = Some (Inr ((TCPSOCKET_INTERRUPTED, None), w'))" "ws_idle al sock w'"
    "wire sock w' = []" "payloads w' = payloads w"
proof -
  define w0 where "w0 = (if in_frames w = None then w\<lparr>in_frames := Some []\<rparr> else w)"
  have "\<forall>n. al n" using idle by (simp add: ws_idle_def ws_inv_def sock_inv_def)
  then have mal: "malloc_ok al 40" by (simp add: malloc_ok_def PTRDIFF_MAX_def)
  have w0: "ws_inv al sock w0" "ws_calm sock w0" "frame_buffer_index w0 = 0" "good_queue w0" "wire sock w0 = []" "payloads w0 = payloads w"
    "length (buffered w0) + 2 < 2 ^ 62"
    using idle wire
    by (auto simp: w0_def ws_idle_def ws_inv_def ws_calm_def good_queue_def wire_def payloads_def buffered_def first_frame_def)
  have two: "0 < (2 :: nat)" "2 < (268435456 :: nat)" by simp_all
  from w0(1,2) junk two w0(7) show thesis
  proof (cases rule: raw_read_cases [where c = TCPSOCKET_INTERRUPTED and n = 2])
    case (short w1)
    have "reads_to al sock 2 1 w0 w1"
      using short(2) w0(1-3,5) by (auto simp: reads_to_def read_on_def wire_def)
    note q = rewind_idle [OF this w0(4)]
    have "receive_loop al sock junk WebSocket_OP_BINARY (first_frame w0) w0 = Some (Inr (Inl TCPSOCKET_INTERRUPTED, w1))"
      using short(1) by (subst receive_loop.simps) (simp add: read_fragment_def bindW_def)
    then have "WebSocket_receiveFrame al sock junk w = Some (Inr ((TCPSOCKET_INTERRUPTED, None), rewind TCPSOCKET_INTERRUPTED w1))"
      using mal by (simp add: WebSocket_receiveFrame_def w0_def Let_def leave_receive_def)
    with q w0 that show thesis by simp
  qed (use w0(5) in simp_all)
qed

text \<open>Calling \<^verbatim>\<open>WebSocket_receiveFrame\<close> \<open>k\<close> times: the codes.\<close>

fun receive_run :: "(int \<Rightarrow> bool) \<Rightarrow> int \<Rightarrow> int \<Rightarrow> nat \<Rightarrow> ws \<Rightarrow> (int list \<times> ws) res option" where
  "receive_run al sock junk 0 w = Some (Inr ([], w))"
| "receive_run al sock junk (Suc k) w =
     (case WebSocket_receiveFrame al sock junk w of
        None \<Rightarrow> None
      | Some (Inl e) \<Rightarrow> Some (Inl e)
      | Some (Inr ((rc, _), w1)) \<Rightarrow> map_option (\<lambda>r. bindR r (\<lambda>(rcs, w2). Inr (rc # rcs, w2))) (receive_run al sock junk k w1))"

definition frames_wire :: "(nat \<times> byte list) list \<Rightarrow> byte list" where
  "frames_wire fs = concat (map server_frame fs)"

definition frames_data :: "(nat \<times> byte list) list \<Rightarrow> byte list" where
  "frames_data fs = concat (map snd fs)"

lemma receive_run_ok:
  assumes "ws_idle al sock w" "junk \<notin> {0, SOCKET_ERROR}" "\<forall>f \<in> set fs. data_frame f" "wire sock w = frames_wire fs"
    and "length (buffered w) \<le> (case fs of [] \<Rightarrow> 0 | f # _ \<Rightarrow> length (server_frame f))" "length (payloads w @ frames_data fs) < 2 ^ 61"
  shows "\<exists>j rcs w'. receive_run al sock junk k w = Some (Inr (rcs, w')) \<and> j \<le> length fs \<and>
    set rcs \<subseteq> {TCPSOCKET_COMPLETE, TCPSOCKET_INTERRUPTED} \<and>
    length (filter (\<lambda>rc. rc = TCPSOCKET_COMPLETE) rcs) = j \<and>
    payloads w' = payloads w @ frames_data (take j fs) \<and> wire sock w' = frames_wire (drop j fs) \<and>
    (length fs \<le> k \<longrightarrow> (\<exists>N. ready N (3 * length fs) (peers (io w) sock) \<and> (\<forall>f \<in> set fs. length (server_frame f) \<le> N)) \<longrightarrow> j = length fs)"
  using assms
proof (induction k arbitrary: w fs)
  case 0
  then show ?case by (intro exI [of _ 0] exI [of _ "[]"] exI [of _ w]) (simp add: frames_data_def)
next
  case (Suc k)
  show ?case
  proof (cases fs)
    case Nil
    with Suc.prems(4) have "wire sock w = []" by (simp add: frames_wire_def)
    with Suc.prems(1,2) obtain w1 where w1: "WebSocket_receiveFrame al sock junk w = Some (Inr ((TCPSOCKET_INTERRUPTED, None), w1))"
      "ws_idle al sock w1" "wire sock w1 = []" "payloads w1 = payloads w" by (rule receiveFrame_nothing)
    have "length (buffered w1) = 0" using w1(3) by (simp add: wire_def)
    with Suc.IH [OF w1(2) Suc.prems(2), of "[]"] w1 Suc.prems(6) Nil show ?thesis
      by (auto simp: frames_wire_def frames_data_def transport_codes)
  next
    case (Cons f gs)
    have wire: "wire sock w = server_frame f @ frames_wire gs" using Suc.prems(4) Cons by (simp add: frames_wire_def)
    have d: "data_frame f" and buf: "length (buffered w) \<le> length (server_frame f)" and size: "length (payloads w @ snd f) < 2 ^ 61"
      using Suc.prems(3,5,6) Cons by (simp_all add: frames_data_def)
    from Suc.prems(1,2) d wire buf size show ?thesis
    proof (cases rule: receiveFrame_cases)
      case (all n w1)
      from Suc.IH [OF all(2) Suc.prems(2), of gs] all(3,4,5) Suc.prems(3,6) Cons obtain j rcs w' where r:
        "receive_run al sock junk k w1 = Some (Inr (rcs, w'))" "j \<le> length gs"
        "set rcs \<subseteq> {TCPSOCKET_COMPLETE, TCPSOCKET_INTERRUPTED}"
        "length (filter (\<lambda>rc. rc = TCPSOCKET_COMPLETE) rcs) = j"
        "payloads w' = payloads w1 @ frames_data (take j gs)" "wire sock w' = frames_wire (drop j gs)"
        "length gs \<le> k \<longrightarrow> (\<exists>N. ready N (3 * length gs) (peers (io w1) sock) \<and> (\<forall>f \<in> set gs. length (server_frame f) \<le> N)) \<longrightarrow> j = length gs"
        by (auto simp: frames_data_def)
      have live: "j = length gs" if "Suc (length gs) \<le> Suc k" "ready N (3 + 3 * length gs) (peers (io w) sock)"
        "\<forall>f \<in> set fs. length (server_frame f) \<le> N" for N
        using r(7) all(6) [of N "3 * length gs"] that Cons by auto
      from r live all(1,4) Cons show ?thesis
        by (intro exI [of _ "Suc j"] exI [of _ "TCPSOCKET_COMPLETE # rcs"] exI [of _ w'])
          (auto simp: frames_data_def transport_codes)
    next
      case (short w1)
      from Suc.IH [OF short(2) Suc.prems(2), of fs] short(3,4,5) Suc.prems(3,4,6) Cons obtain j rcs w' where r:
        "receive_run al sock junk k w1 = Some (Inr (rcs, w'))" "j \<le> length fs"
        "set rcs \<subseteq> {TCPSOCKET_COMPLETE, TCPSOCKET_INTERRUPTED}"
        "length (filter (\<lambda>rc. rc = TCPSOCKET_COMPLETE) rcs) = j"
        "payloads w' = payloads w1 @ frames_data (take j fs)" "wire sock w' = frames_wire (drop j fs)" by auto
      have "\<not> ready N (3 * length fs) (peers (io w) sock)" if "\<forall>f \<in> set fs. length (server_frame f) \<le> N" for N
        using short(6) [of N "3 * length gs"] that Cons by simp
      with r short(1,4) show ?thesis
        by (intro exI [of _ j] exI [of _ "TCPSOCKET_INTERRUPTED # rcs"] exI [of _ w'])
          (auto simp: transport_codes)
    qed
  qed
qed

text \<open>A connection on which nothing was received yet.\<close>

definition new_ws :: "sockets \<Rightarrow> ws" where
  "new_ws st = \<lparr>io = st, websocket = True, in_frames = None, last_frame = None, frame_buffer = None, frame_buffer_len = 0,
     frame_buffer_index = 0, frame_buffer_data_len = 0, rands = []\<rparr>"

lemma new_ws_idle:
  assumes "\<forall>n. al n" "sock \<noteq> 0" "buffers st = snd (SocketBuffer_initialize al)" "sock_calm sock st"
  shows "ws_idle al sock (new_ws st)" "buffered (new_ws st) = []" "payloads (new_ws st) = []" "wire sock (new_ws st) = incoming (peers st sock)"
proof -
  have b: "buffers st = \<lparr>def_queue = Queue empty_queue, queues = [], writes = []\<rparr>"
    using assms(1,3) by (simp add: SocketBuffer_initialize_def SocketBuffer_newDefQ_def empty_queue_def malloc_ok_def PTRDIFF_MAX_def)
  have ok: "queue_ok empty_queue" by (simp add: queue_ok_def empty_queue_def)
  have m: "mine sock (buffers st) = empty_queue" by (simp add: b mine_def find_queue_def)
  have "reading sock (buffers st)" using ok assms(2) by (simp add: b reading_def def_ok_def empty_queue_def)
  with assms(1,4) m show "ws_idle al sock (new_ws st)" "buffered (new_ws st) = []" "payloads (new_ws st) = []"
    "wire sock (new_ws st) = incoming (peers st sock)"
    by (simp_all add: ws_idle_def new_ws_def ws_inv_def sock_inv_def ws_calm_def buffered_def good_queue_def empty_queue_def
        payloads_def first_frame_def wire_def)
qed

text \<open>
  C26: Receiving from a server that sends only final, unmasked TEXT or BINARY frames (no fragments, no
  control frames), however their bytes arrive: every call returns, with completion or interruption; the
  payloads queued are those of the first frames the server sent, in order and whole, one frame for each
  completed call, and what was not taken is still there to be read. When the network has the data the
  frames are all received. The uninitialised code must not look like an error. Fragments that are
  interrupted, and data that a ping interrupts, are outside this statement: the code does lose them.
\<close>
theorem websocket_payloads_in_order:
  assumes "\<forall>n. al n" "sock \<noteq> 0" "buffers st = snd (SocketBuffer_initialize al)"
    and "incoming (peers st sock) = frames_wire fs" "\<forall>f \<in> set fs. data_frame f" "length (frames_data fs) < 2 ^ 61"
    and "\<forall>a \<in> set (arrivals (peers st sock)). \<exists>k. a = Avail k" "junk \<notin> {0, SOCKET_ERROR}"
  shows "\<exists>j rcs w. receive_run al sock junk k (new_ws st) = Some (Inr (rcs, w)) \<and> j \<le> length fs \<and>
    set rcs \<subseteq> {TCPSOCKET_COMPLETE, TCPSOCKET_INTERRUPTED} \<and> length (filter (\<lambda>rc. rc = TCPSOCKET_COMPLETE) rcs) = j \<and>
    payloads w = frames_data (take j fs) \<and> wire sock w = frames_wire (drop j fs) \<and>
    (length fs \<le> k \<longrightarrow> 3 * length fs \<le> length (arrivals (peers st sock)) \<longrightarrow>
     (\<forall>a \<in> set (arrivals (peers st sock)). \<exists>k \<ge> length (frames_wire fs). a = Avail k) \<longrightarrow> j = length fs)"
proof -
  have calm: "sock_calm sock st" using assms(7) by (auto simp: sock_calm_def peer_calm_def split: arrival.splits)
  note n = new_ws_idle [OF assms(1-3) calm]
  obtain j rcs w where r: "receive_run al sock junk k (new_ws st) = Some (Inr (rcs, w))" "j \<le> length fs"
    "set rcs \<subseteq> {TCPSOCKET_COMPLETE, TCPSOCKET_INTERRUPTED}" "length (filter (\<lambda>rc. rc = TCPSOCKET_COMPLETE) rcs) = j"
    "payloads w = frames_data (take j fs)" "wire sock w = frames_wire (drop j fs)"
    "length fs \<le> k \<longrightarrow> (\<exists>N. ready N (3 * length fs) (peers st sock) \<and> (\<forall>f \<in> set fs. length (server_frame f) \<le> N)) \<longrightarrow> j = length fs"
    using receive_run_ok [OF n(1) assms(8,5), of k] n assms(4,6) by (auto simp: new_ws_def)
  have "length (server_frame f) \<le> length (frames_wire fs)" if "f \<in> set fs" for f
    using that split_list [OF that] by (auto simp: frames_wire_def)
  then have "j = length fs" if "length fs \<le> k" "ready (length (frames_wire fs)) (3 * length fs) (peers st sock)"
    using r(7) that by blast
  with r(1-6) show ?thesis by (auto simp: ready_def)
qed

theorem websocket_payloads_in_order_witness:
  "\<exists>rcs w. receive_run (\<lambda>_. True) 3 11 2
       (new_ws (sample_sockets \<lparr>incoming = [0x82, 2, 0x20, 2, 0x82, 2, 0, 0], arrivals = replicate 6 (Avail 8), room = [], sent = []\<rparr>)) =
     Some (Inr (rcs, w)) \<and> payloads w = [0x20, 2, 0, 0]"
proof -
  let ?p = "\<lparr>incoming = [0x82, 2, 0x20, 2, 0x82, 2, 0, 0], arrivals = replicate 6 (Avail 8), room = [], sent = []\<rparr>"
  let ?fs = "[(WebSocket_OP_BINARY, [0x20, 2]), (WebSocket_OP_BINARY, [0, 0])] :: (nat \<times> byte list) list"
  have wire: "frames_wire ?fs = [0x82, 2, 0x20, 2, 0x82, 2, 0, 0]"
    by (simp add: frames_wire_def server_frame_def frame_header_def opcodes)
  have "buffers (sample_sockets ?p) = snd (SocketBuffer_initialize (\<lambda>_. True))" "incoming (peers (sample_sockets ?p) 3) = frames_wire ?fs"
    "\<forall>f \<in> set ?fs. data_frame f" "length (frames_data ?fs) < 2 ^ 61" "\<forall>a \<in> set (arrivals (peers (sample_sockets ?p) 3)). \<exists>k. a = Avail k"
    "(11 :: int) \<notin> {0, SOCKET_ERROR}"
    using wire by (simp_all add: sample_sockets_def data_frame_def frames_data_def transport_codes)
  from websocket_payloads_in_order [OF _ _ this, where k = 2] wire show ?thesis
    by (auto simp: sample_sockets_def frames_data_def)
qed

end
