(* ===== verification/Base64_Codec.thy ===== *)
theory Base64_Codec
  imports Mqtt_Prelude
begin

text \<open>
  \<^verbatim>\<open>Base64.c\<close> in the build without OpenSSL, used for the proxy and WebSocket handshakes. Lengths are of
  type \<^verbatim>\<open>unsigned int\<close>. Shown: what is encoded is decoded again, the results of the length functions
  are exact, and the output buffers are never overrun.
\<close>

section \<open>Encoding\<close>

definition BASE64_ENCODE_TABLE :: "byte list" where
  "BASE64_ENCODE_TABLE = map (word_of_nat \<circ> of_char)
     ''ABCDEFGHIJKLMNOPQRSTUVWXYZabcdefghijklmnopqrstuvwxyz0123456789+/=''"

text \<open>The indices of the four characters for the next one to three bytes.\<close>

definition encode_quad :: "byte list \<Rightarrow> byte list" where
  "encode_quad inp =
     (case inp of
        [] \<Rightarrow> []
      | [a] \<Rightarrow> [drop_bit 2 (a AND NOT 0x3), push_bit 4 (a AND 0x3), 64, 64]
      | [a, b] \<Rightarrow>
          [drop_bit 2 (a AND NOT 0x3), push_bit 4 (a AND 0x3) OR drop_bit 4 (b AND NOT 0xF), push_bit 2 (b AND 0xF), 64]
      | a # b # c # _ \<Rightarrow>
          [drop_bit 2 (a AND NOT 0x3), push_bit 4 (a AND 0x3) OR drop_bit 4 (b AND NOT 0xF),
           push_bit 2 (b AND 0xF) OR drop_bit 6 (c AND NOT 0x3F), c AND 0x3F])"

text \<open>The loop: \<open>out\<close> is what has been written, \<open>cnt\<close> is \<^verbatim>\<open>out_count\<close>.\<close>

function encode_loop :: "nat \<Rightarrow> byte list \<Rightarrow> nat \<Rightarrow> byte list \<Rightarrow> nat \<times> byte list" where
  "encode_loop out_len inp cnt out =
     (if inp \<noteq> [] \<and> cnt < out_len then
        encode_loop out_len (drop 3 inp) (cnt + 4)
          (if cnt + 4 \<le> out_len then out @ map (\<lambda>i. BASE64_ENCODE_TABLE ! unat i) (encode_quad inp) else out)
      else (cnt, out))"
  by pat_completeness auto
termination
  by (relation "measure (\<lambda>(_, inp, _, _). length inp)") auto

declare encode_loop.simps [simp del]

text \<open>The return value and the bytes written; a write at or past \<open>out_len\<close> is a fault.\<close>

definition Base64_encode :: "nat \<Rightarrow> byte list \<Rightarrow> (nat \<times> byte list) res" where
  "Base64_encode out_len inp =
     (let (cnt, out) = encode_loop out_len inp 0 [] in
      let out' = (if cnt < out_len then out @ [0] else out) in
      guardR OverWrite (length out' \<le> out_len) (Inr (if cnt \<le> out_len then cnt else 0, out')))"

definition Base64_encodeLength :: "nat \<Rightarrow> nat" where
  "Base64_encodeLength in_len = ((4 * in_len mod 2 ^ 32 div 3 + 3) mod 2 ^ 32) div 4 * 4"

section \<open>Decoding\<close>

definition NV :: byte where "NV = 64"

definition BASE64_DECODE_TABLE :: "byte list" where
  "BASE64_DECODE_TABLE =
     replicate 43 NV @ [62, NV, NV, NV, 63] @ map word_of_nat [52..<62] @ replicate 7 NV @ map word_of_nat [0..<26] @
     replicate 6 NV @ map word_of_nat [26..<52] @ replicate 133 NV"

text \<open>The table is indexed with a signed \<^verbatim>\<open>char\<close>: a byte of 128 or more reads before its start.\<close>

definition decode_char :: "byte \<Rightarrow> byte res" where
  "decode_char c = guardR OverRead (unat c < 128) (Inr (BASE64_DECODE_TABLE ! unat c))"

text \<open>The bytes for four characters, when \<open>room\<close> bytes may be written, and whether the loop goes on.\<close>

definition decode_quad :: "nat \<Rightarrow> byte \<Rightarrow> byte \<Rightarrow> byte \<Rightarrow> byte \<Rightarrow> byte list \<times> bool" where
  "decode_quad room c0 c1 c2 c3 =
     (let b0 = push_bit 2 c0 OR drop_bit 4 (c1 AND NOT 0xF);
          b1 = push_bit 4 (c1 AND 0xF) OR drop_bit 2 (c2 AND NOT 0x3);
          b2 = push_bit 6 (c2 AND 0x3) OR c3 in
      if room < 2 then ([b0], True)
      else if \<not> c2 < NV then ([b0], False)
      else if room < 3 then ([b0, b1], True)
      else if \<not> c3 < NV then ([b0, b1], False)
      else ([b0, b1, b2], True))"

fun decode_loop64 :: "nat \<Rightarrow> byte list \<Rightarrow> byte list \<Rightarrow> byte list res" where
  "decode_loop64 out_len (i0 # i1 # i2 # i3 # inp) out =
     (if length out < out_len then
        bindR (decode_char i0) (\<lambda>c0. bindR (decode_char i1) (\<lambda>c1. bindR (decode_char i2) (\<lambda>c2. bindR (decode_char i3) (\<lambda>c3.
          let (bs, again) = decode_quad (out_len - length out) c0 c1 c2 c3 in
          if again then decode_loop64 out_len inp (out @ bs) else Inr (out @ bs)))))
      else Inr out)"
| "decode_loop64 out_len inp out = Inr out"

definition Base64_decode :: "nat \<Rightarrow> byte list \<Rightarrow> (nat \<times> byte list) res" where
  "Base64_decode out_len inp =
     bindR (decode_loop64 out_len inp []) (\<lambda>out.
       let out' = (if length out < out_len then out @ [0] else out) in
       guardR OverWrite (length out' \<le> out_len) (Inr (length out, out')))"

definition EQ_SIGN :: byte where "EQ_SIGN = 61"

definition Base64_decodeLength :: "byte list \<Rightarrow> nat" where
  "Base64_decodeLength inp =
     (let n = length inp;
          pad = (if 1 < n \<and> inp ! (n - 2) = EQ_SIGN then 1 else 0) + (if 0 < n \<and> inp ! (n - 1) = EQ_SIGN then 1 else 0) in
      nat ((int (n div 4 * 3) - pad) mod 2 ^ 32))"

section \<open>Bits\<close>

lemma masks: "(0x3 :: byte) = mask 2" "(0xF :: byte) = mask 4" "(0x3F :: byte) = mask 6"
  by (simp_all add: mask_eq_exp_minus_1)

lemma table_inverse: "i \<le> 64 \<longrightarrow> decode_char (BASE64_ENCODE_TABLE ! unat i) = Inr i"
  by (rule byte_cases) code_simp

lemma below_64: "take_bit 6 (w :: byte) = w \<Longrightarrow> w < 64"
proof -
  have "take_bit 6 w = w \<longrightarrow> w < 64" by (rule byte_cases) code_simp
  then show "take_bit 6 w = w \<Longrightarrow> w < 64" by blast
qed

lemma two_less: "2 \<le> n \<Longrightarrow> Suc (Suc (n - 2)) = n"
  by simp

definition sextets :: "byte \<Rightarrow> byte \<Rightarrow> byte \<Rightarrow> byte list" where
  "sextets a b c =
     [drop_bit 2 (a AND NOT 0x3), push_bit 4 (a AND 0x3) OR drop_bit 4 (b AND NOT 0xF),
      push_bit 2 (b AND 0xF) OR drop_bit 6 (c AND NOT 0x3F), c AND 0x3F]"

lemma sextets_less: "\<forall>i \<in> set (sextets a b c). i < 64"
  by (auto simp: sextets_def masks intro!: below_64 bit_word_eqI) (auto simp: bit_simps)

lemma sextets_decode:
  "push_bit 2 (sextets a b c ! 0) OR drop_bit 4 ((sextets a b c ! 1) AND NOT 0xF) = a"
  "push_bit 4 ((sextets a b c ! 1) AND 0xF) OR drop_bit 2 ((sextets a b c ! 2) AND NOT 0x3) = b"
  "push_bit 6 ((sextets a b c ! 2) AND 0x3) OR (sextets a b c ! 3) = c"
  by (auto simp: sextets_def masks intro!: bit_word_eqI) (auto simp: bit_simps two_less)

section \<open>Round trip\<close>

text \<open>The characters of up to three bytes.\<close>

lemma encode_quad_sextets:
  "encode_quad (a # b # c # bs) = sextets a b c"
  "encode_quad [a, b] = take 3 (sextets a b 0) @ [64]"
  "encode_quad [a] = take 2 (sextets a 0 0) @ [64, 64]"
  by (simp_all add: encode_quad_def sextets_def)

definition chars_of :: "byte list \<Rightarrow> byte list" where
  "chars_of inp = map (\<lambda>i. BASE64_ENCODE_TABLE ! unat i) (encode_quad inp)"

fun encoded64 :: "byte list \<Rightarrow> byte list" where
  "encoded64 (a # b # c # bs) = chars_of [a, b, c] @ encoded64 bs"
| "encoded64 [] = chars_of []"
| "encoded64 [a] = chars_of [a]"
| "encoded64 [a, b] = chars_of [a, b]"

lemma chars_of_3: "chars_of (a # b # c # bs) = chars_of [a, b, c]"
  by (simp add: chars_of_def encode_quad_sextets)

lemma chars_of_length: "bs \<noteq> [] \<Longrightarrow> length (chars_of bs) = 4"
  by (auto simp: chars_of_def encode_quad_def split: list.splits)

lemma chars_of_Nil: "chars_of [] = []"
  by (simp add: chars_of_def encode_quad_def)

lemma encoded64_length: "length (encoded64 bs) = (length bs + 2) div 3 * 4"
proof (induction bs rule: encoded64.induct)
  case (1 a b c bs)
  have "(length bs + 5) div 3 = Suc ((length bs + 2) div 3)" by presburger
  with 1 show ?case by (simp add: chars_of_length add.commute)
qed (simp_all add: chars_of_length chars_of_Nil)

lemma encode_loop_step:
  "inp \<noteq> [] \<Longrightarrow> cnt + 4 \<le> out_len \<Longrightarrow>
   encode_loop out_len inp cnt out = encode_loop out_len (drop 3 inp) (cnt + 4) (out @ chars_of inp)"
  by (subst encode_loop.simps) (simp add: chars_of_def)

lemma encode_loop_Nil: "encode_loop out_len [] cnt out = (cnt, out)"
  by (subst encode_loop.simps) simp

lemma encode_loop_encoded64:
  "cnt + length (encoded64 inp) \<le> out_len \<Longrightarrow>
   encode_loop out_len inp cnt out = (cnt + length (encoded64 inp), out @ encoded64 inp)"
proof (induction inp arbitrary: cnt out rule: encoded64.induct)
  case (1 a b c bs)
  have "cnt + 4 \<le> out_len" "cnt + 4 + length (encoded64 bs) \<le> out_len"
    using 1(2) by (simp_all add: chars_of_length)
  with 1(1) [of "cnt + 4" "out @ chars_of [a, b, c]"] encode_loop_step [of "a # b # c # bs" cnt out_len out]
  show ?case by (simp add: chars_of_length chars_of_3 [of a b c bs])
qed (simp_all add: encode_loop_step encode_loop_Nil chars_of_length chars_of_Nil)

text \<open>Decoding four characters.\<close>

lemma decode_chars:
  assumes "is = [i0, i1, i2, i3]" "\<forall>i \<in> set is. i \<le> 64" "length out < out_len"
  shows "decode_loop64 out_len (map (\<lambda>i. BASE64_ENCODE_TABLE ! unat i) is @ inp) out =
    (let (bs, again) = decode_quad (out_len - length out) i0 i1 i2 i3 in
     if again then decode_loop64 out_len inp (out @ bs) else Inr (out @ bs))"
  using assms table_inverse by simp

lemma sextets_list: "sextets a b c = [sextets a b c ! 0, sextets a b c ! 1, sextets a b c ! 2, sextets a b c ! 3]"
  by (simp add: sextets_def)

lemma sextets_nth_less: "k < 4 \<Longrightarrow> sextets a b c ! k < 64"
proof -
  assume "k < 4"
  moreover have "length (sextets a b c) = 4" by (simp add: sextets_def)
  ultimately show ?thesis using sextets_less [of a b c] by (metis nth_mem)
qed

lemma decode_quad_3:
  "3 \<le> room \<Longrightarrow> decode_quad room (sextets a b c ! 0) (sextets a b c ! 1) (sextets a b c ! 2) (sextets a b c ! 3) = ([a, b, c], True)"
  using sextets_nth_less [of 2 a b c] sextets_nth_less [of 3 a b c] sextets_decode [of a b c]
  by (simp add: decode_quad_def NV_def)

lemma decode_quad_2:
  "2 \<le> room \<Longrightarrow> fst (decode_quad room (sextets a b 0 ! 0) (sextets a b 0 ! 1) (sextets a b 0 ! 2) 64) = [a, b]"
  using sextets_nth_less [of 2 a b 0] sextets_decode(1,2) [of a b 0]
  by (simp add: decode_quad_def NV_def Let_def)

lemma decode_quad_1:
  "1 \<le> room \<Longrightarrow> fst (decode_quad room (sextets a 0 0 ! 0) (sextets a 0 0 ! 1) 64 64) = [a]"
  using sextets_decode(1) [of a 0 0]
  by (simp add: decode_quad_def NV_def Let_def)

lemma decode_last:
  assumes "is = [i0, i1, i2, i3]" "\<forall>i \<in> set is. i \<le> 64" "length out < out_len"
    and "fst (decode_quad (out_len - length out) i0 i1 i2 i3) = bs"
  shows "decode_loop64 out_len (map (\<lambda>i. BASE64_ENCODE_TABLE ! unat i) is) out = Inr (out @ bs)"
  using decode_chars [OF assms(1-3), of "[]"] assms(4) by (auto split: prod.splits)

lemma sextets_take: "take 3 (sextets a b c) = [sextets a b c ! 0, sextets a b c ! 1, sextets a b c ! 2]"
    "take 2 (sextets a b c) = [sextets a b c ! 0, sextets a b c ! 1]"
  by (simp_all add: sextets_def)

lemma sextets_le: "\<forall>i \<in> set (sextets a b c). i \<le> 64"
  using sextets_less [of a b c] by (auto intro: less_imp_le)

lemma decode_encoded64:
  "length out + length bs \<le> out_len \<Longrightarrow> decode_loop64 out_len (encoded64 bs) out = Inr (out @ bs)"
proof (induction bs arbitrary: out rule: encoded64.induct)
  case (1 a b c bs)
  then show ?case
    using decode_chars [OF sextets_list sextets_le, of out out_len a b c "encoded64 bs"]
      decode_quad_3 [of "out_len - length out" a b c] 1(1) [of "out @ [a, b, c]"]
    by (simp add: chars_of_def encode_quad_sextets)
next
  case (3 a)
  have "decode_loop64 out_len (map (\<lambda>i. BASE64_ENCODE_TABLE ! unat i) (take 2 (sextets a 0 0) @ [64, 64])) out = Inr (out @ [a])"
    using 3 sextets_le [of a 0 0]
    by (intro decode_last [OF _ _ _ decode_quad_1]) (auto simp: sextets_take intro!: less_imp_le sextets_nth_less)
  then show ?case by (simp add: chars_of_def encode_quad_sextets)
next
  case (4 a b)
  have "decode_loop64 out_len (map (\<lambda>i. BASE64_ENCODE_TABLE ! unat i) (take 3 (sextets a b 0) @ [64])) out = Inr (out @ [a, b])"
    using 4 sextets_le [of a b 0]
    by (intro decode_last [OF _ _ _ decode_quad_2]) (auto simp: sextets_take intro!: less_imp_le sextets_nth_less)
  then show ?case by (simp add: chars_of_def encode_quad_sextets)
qed (simp add: chars_of_Nil)

text \<open>Padding appears exactly where bytes are missing.\<close>

lemma table_not_eq: "(i :: byte) < 64 \<longrightarrow> BASE64_ENCODE_TABLE ! unat i \<noteq> EQ_SIGN"
  by (rule byte_cases) code_simp

lemma table_eq: "BASE64_ENCODE_TABLE ! 64 = EQ_SIGN"
  by code_simp

lemma encoded64_pad:
  "bs \<noteq> [] \<Longrightarrow> \<exists>pre x y. encoded64 bs = pre @ [x, y] \<and> (x = EQ_SIGN \<longleftrightarrow> length bs mod 3 = 1) \<and>
     (y = EQ_SIGN \<longleftrightarrow> length bs mod 3 \<noteq> 0)"
proof (induction bs rule: encoded64.induct)
  case (1 a b c bs)
  show ?case
  proof (cases "bs = []")
    case True
    have "encoded64 [a, b, c] = map (\<lambda>i. BASE64_ENCODE_TABLE ! unat i)
        [sextets a b c ! 0, sextets a b c ! 1, sextets a b c ! 2, sextets a b c ! 3]"
      using sextets_list [of a b c] by (simp add: chars_of_Nil chars_of_def [of "[a, b, c]"] encode_quad_sextets)
    with True table_not_eq sextets_nth_less [of 2 a b c] sextets_nth_less [of 3 a b c] show ?thesis by simp
  next
    case False
    with 1 obtain pre x y where "encoded64 bs = pre @ [x, y]" "x = EQ_SIGN \<longleftrightarrow> length bs mod 3 = 1"
      "y = EQ_SIGN \<longleftrightarrow> length bs mod 3 \<noteq> 0" by blast
    moreover have "length (a # b # c # bs) mod 3 = length bs mod 3" by simp
    ultimately show ?thesis
      by (intro exI [of _ "chars_of [a, b, c] @ pre"] exI [of _ x] exI [of _ y]) simp
  qed
next
  case (4 a b)
  have "encoded64 [a, b] = map (\<lambda>i. BASE64_ENCODE_TABLE ! unat i)
      [sextets a b 0 ! 0, sextets a b 0 ! 1, sextets a b 0 ! 2, 64]"
    by (simp add: chars_of_def encode_quad_sextets sextets_take)
  with table_not_eq sextets_nth_less [of 2 a b 0] table_eq show ?case by simp
qed (simp_all add: chars_of_def encode_quad_sextets sextets_take table_eq)

lemma decodeLength_encoded64:
  assumes "length bs < 2 ^ 30"
  shows "Base64_decodeLength (encoded64 bs) = length bs"
proof (cases "bs = []")
  case True
  then show ?thesis by (simp add: Base64_decodeLength_def chars_of_Nil)
next
  case False
  then obtain pre x y where e: "encoded64 bs = pre @ [x, y]" "x = EQ_SIGN \<longleftrightarrow> length bs mod 3 = 1"
    "y = EQ_SIGN \<longleftrightarrow> length bs mod 3 \<noteq> 0" using encoded64_pad by blast
  define n where "n = length bs"
  have len: "length (encoded64 bs) = (n + 2) div 3 * 4" by (simp add: encoded64_length n_def)
  have nth: "encoded64 bs ! (length (encoded64 bs) - 2) = x" "encoded64 bs ! (length (encoded64 bs) - 1) = y"
    "1 < length (encoded64 bs)" unfolding e(1) by (simp_all add: nth_append)
  let ?pad = "(if n mod 3 = 1 then 1 else 0) + (if n mod 3 \<noteq> 0 then 1 else (0 :: int))"
  have "int ((n + 2) div 3 * 3) - ?pad = int n" by (simp; presburger)
  moreover have "int n < 2 ^ 32" using assms by (simp add: n_def)
  ultimately show ?thesis
    using nth e(2,3) len by (simp add: Base64_decodeLength_def Let_def n_def split: if_splits)
qed

lemma encodeLength_eq: "n < 2 ^ 30 \<Longrightarrow> Base64_encodeLength n = (n + 2) div 3 * 4"
proof -
  assume "n < 2 ^ 30"
  then have "Base64_encodeLength n = (4 * n div 3 + 3) div 4 * 4" by (simp add: Base64_encodeLength_def)
  also have "\<dots> = (n + 2) div 3 * 4"
  proof -
    define k where "k = n div 3"
    have "n = 3 * k \<or> n = 3 * k + 1 \<or> n = 3 * k + 2" unfolding k_def by presburger
    moreover have "(4 + 12 * k) div 3 = 4 * k + 1" "(8 + 12 * k) div 3 = 4 * k + 2" by presburger+
    moreover have "(4 * k + 4) div 4 = k + 1" "(4 * k + 5) div 4 = k + 1" by presburger+
    ultimately show ?thesis by (elim disjE) (simp_all add: add.commute)
  qed
  finally show ?thesis .
qed

text \<open>
  C24: Base64: a buffer of the length \<^verbatim>\<open>Base64_encodeLength\<close> computes is filled exactly by \<^verbatim>\<open>Base64_encode\<close>, for
  the characters written \<^verbatim>\<open>Base64_decodeLength\<close> gives the original length, and decoding them into a
  buffer of that length or more gives back the original bytes; nothing is written outside of the buffers.
\<close>
theorem base64_roundtrip:
  assumes "length bs < 2 ^ 30" "length bs \<le> out_len"
  shows "\<exists>cs. Base64_encode (Base64_encodeLength (length bs)) bs = Inr (length cs, cs) \<and>
    length cs = Base64_encodeLength (length bs) \<and> Base64_decodeLength cs = length bs \<and>
    Base64_decode out_len cs = Inr (length bs, if length bs < out_len then bs @ [0] else bs)"
proof (intro exI conjI)
  have len: "length (encoded64 bs) = Base64_encodeLength (length bs)"
    using assms by (simp add: encoded64_length encodeLength_eq)
  then show "length (encoded64 bs) = Base64_encodeLength (length bs)" .
  show "Base64_encode (Base64_encodeLength (length bs)) bs = Inr (length (encoded64 bs), encoded64 bs)"
    using encode_loop_encoded64 [of 0 bs "Base64_encodeLength (length bs)" "[]"] len by (simp add: Base64_encode_def)
  show "Base64_decodeLength (encoded64 bs) = length bs" using assms(1) by (rule decodeLength_encoded64)
  show "Base64_decode out_len (encoded64 bs) = Inr (length bs, if length bs < out_len then bs @ [0] else bs)"
    using decode_encoded64 [of "[]" bs out_len] assms(2) by (simp add: Base64_decode_def)
qed

theorem base64_roundtrip_witness:
  "\<exists>cs. Base64_encode 8 [1, 2, 3, 255] = Inr (length cs, cs) \<and> length cs = 8 \<and> Base64_decodeLength cs = 4 \<and>
     Base64_decode 9 cs = Inr (4, [1, 2, 3, 255, 0])"
proof -
  have len: "length ([1, 2, 3, 255] :: byte list) = 4" "Base64_encodeLength 4 = 8"
    by (simp_all add: Base64_encodeLength_def)
  show ?thesis using base64_roundtrip [of "[1, 2, 3, 255]" 9] unfolding len by simp
qed

text \<open>A character of the upper half of the code reads outside of the table.\<close>

lemma Base64_decode_high_char:
  assumes "0 < out_len" "128 \<le> unat c"
  shows "Base64_decode out_len (c # i1 # i2 # i3 # inp) = Inl OverRead"
  using assms by (simp add: Base64_decode_def decode_char_def)

end
