(* ===== verification/Async_Queue.thy ===== *)
theory Async_Queue
  imports Protocol_Client Utf8_Check "HOL-Library.Sublist"
begin

text \<open>
  The command queue of \<^verbatim>\<open>MQTTAsync.c\<close>: the calls that queue a command (\<^verbatim>\<open>MQTTAsync_send\<close>,
  \<^verbatim>\<open>MQTTAsync_subscribeMany\<close>, \<^verbatim>\<open>MQTTAsync_unsubscribeMany\<close>), how \<^verbatim>\<open>MQTTAsync_addCommand\<close> orders them and limits
  the messages buffered for a client, the message ids, and how \<^verbatim>\<open>MQTTAsync_processCommand\<close> chooses the
  next command. Clients are named by numbers, the addresses of their structures. The calls run under
  the locks of the library, so they are steps on one state.
\<close>

section \<open>State\<close>

definition MQTTASYNC_SUCCESS :: int where "MQTTASYNC_SUCCESS = 0"
definition MQTTASYNC_FAILURE :: int where "MQTTASYNC_FAILURE = - 1"
definition MQTTASYNC_DISCONNECTED :: int where "MQTTASYNC_DISCONNECTED = - 3"
definition MQTTASYNC_BAD_UTF8_STRING :: int where "MQTTASYNC_BAD_UTF8_STRING = - 5"
definition MQTTASYNC_NULL_PARAMETER :: int where "MQTTASYNC_NULL_PARAMETER = - 6"
definition MQTTASYNC_BAD_STRUCTURE :: int where "MQTTASYNC_BAD_STRUCTURE = - 8"
definition MQTTASYNC_BAD_QOS :: int where "MQTTASYNC_BAD_QOS = - 9"
definition MQTTASYNC_NO_MORE_MSGIDS :: int where "MQTTASYNC_NO_MORE_MSGIDS = - 10"
definition MQTTASYNC_MAX_BUFFERED_MESSAGES :: int where "MQTTASYNC_MAX_BUFFERED_MESSAGES = - 12"
definition MQTTASYNC_BAD_MQTT_OPTION :: int where "MQTTASYNC_BAD_MQTT_OPTION = - 15"

lemmas async_codes = MQTTASYNC_SUCCESS_def MQTTASYNC_FAILURE_def MQTTASYNC_DISCONNECTED_def MQTTASYNC_BAD_UTF8_STRING_def
  MQTTASYNC_NULL_PARAMETER_def MQTTASYNC_BAD_STRUCTURE_def MQTTASYNC_BAD_QOS_def MQTTASYNC_NO_MORE_MSGIDS_def
  MQTTASYNC_MAX_BUFFERED_MESSAGES_def MQTTASYNC_BAD_MQTT_OPTION_def

definition MQTTASYNC_PERSISTENCE_ERROR :: int where "MQTTASYNC_PERSISTENCE_ERROR = - 2"
definition MQTTASYNC_OPERATION_INCOMPLETE :: int where "MQTTASYNC_OPERATION_INCOMPLETE = - 11"
definition MQTTASYNC_TRUE :: int where "MQTTASYNC_TRUE = 1"

definition NOT_IN_PROGRESS :: int where "NOT_IN_PROGRESS = 0"
definition DISCONNECTING :: int where "DISCONNECTING = - 2"

text \<open>
  The union of \<^verbatim>\<open>MQTTAsync_command\<close>, whose member always belongs to the field \<^verbatim>\<open>type\<close>. Callbacks are set or
  null.
\<close>

datatype cmd_details =
    Sub_details (sub_topics: "byte list list") (sub_qoss: "int list") (sub_opts: subscribe_opts) (sub_optlist: "subscribe_opts list option")
  | Unsub_details (unsub_topics: "byte list list")
  | Pub_details (pub_destinationName: "byte list option") (pub_payload: "byte list option") (pub_payloadlen: int) (pub_qos: int) (pub_retained: int)
  | Dis_details (dis_internal: bool) (dis_timeout: int) (dis_reasonCode: int)
  | Conn_details (currentURI: int) (conn_MQTTVersion: int)

definition details_type :: "cmd_details \<Rightarrow> nat" where
  "details_type d = (case d of Sub_details _ _ _ _ \<Rightarrow> SUBSCRIBE | Unsub_details _ \<Rightarrow> UNSUBSCRIBE | Pub_details _ _ _ _ _ \<Rightarrow> PUBLISH
     | Dis_details _ _ _ \<Rightarrow> DISCONNECT | Conn_details _ _ \<Rightarrow> CONNECT)"

record callbacks =
  onSuccess :: bool
  onFailure :: bool
  onSuccess5 :: bool
  onFailure5 :: bool

definition no_callbacks :: callbacks where
  "no_callbacks = \<lparr>onSuccess = False, onFailure = False, onSuccess5 = False, onFailure5 = False\<rparr>"

record queued_command =
  q_client :: nat
  q_callbacks :: callbacks
  q_token :: int
  q_context :: int
  q_start_time :: int
  q_properties :: MQTTProperties
  q_details :: cmd_details
  q_not_restored :: bool

definition cmd_type :: "queued_command \<Rightarrow> nat" where
  "cmd_type q = details_type (q_details q)"

record createOptions =
  co_struct_version :: int
  sendWhileDisconnected :: bool
  maxBufferedMessages :: int
  allowDisconnectedSendAtAnyTime :: bool
  deleteOldestMessages :: bool
  persistQoS0 :: bool

text \<open>
  \<^verbatim>\<open>connect_state\<close>, \<^verbatim>\<open>maxInflightMessages\<close>, \<^verbatim>\<open>sessionExpiry\<close> and \<^verbatim>\<open>persistence\<close> are fields of \<^verbatim>\<open>Clients\<close> in the
  source. \<open>connectionLost\<close> says whether the callback \<^verbatim>\<open>cl\<close> is set. \<^verbatim>\<open>connect\<close>, \<^verbatim>\<open>disconnect\<close> and
  \<^verbatim>\<open>pending_write\<close> are commands; here they keep the fields of the queue around them.
\<close>

record MQTTAsyncs =
  m_c :: Clients
  m_createOptions :: "createOptions option"
  shouldBeConnected :: bool
  noBufferedMessages :: int
  responses :: "queued_command list"
  connect_state :: int
  maxInflightMessages :: int
  sessionExpiry :: int
  persistence :: bool
  connectionLost :: bool
  m_connect :: queued_command
  m_disconnect :: queued_command
  pending_write :: "queued_command option"
  serverURI :: "byte list"
  serverURIs :: "byte list list"
  websocket :: bool
  automaticReconnect :: bool
  minRetryInterval :: int
  maxRetryInterval :: int
  currentInterval :: int
  currentIntervalBase :: int
  lastConnectionFailedTime :: int
  retrying :: bool
  reconnectNow :: bool

record async_state =
  commands :: "queued_command list"
  handles :: "nat \<Rightarrow> MQTTAsyncs"

record responseOptions =
  ro_struct_version :: int
  ro_callbacks :: callbacks
  ro_context :: int
  ro_token :: int
  ro_properties :: MQTTProperties
  subscribeOptions :: subscribe_opts
  subscribeOptionsCount :: int
  subscribeOptionsList :: "subscribe_opts list"

text \<open>
  What the calls get from outside: the allocator, the clock, the position the list of commands remembers
  (its \<^verbatim>\<open>current\<close> element), and the results of \<^verbatim>\<open>Thread_signal_cond\<close> and \<^verbatim>\<open>MQTTAsync_persistCommand\<close>.
\<close>

record async_env =
  aal :: "int \<Rightarrow> bool"
  clock :: int
  cached :: "nat option"
  signal_rc :: int
  persist_rc :: int

definition update_handle :: "nat \<Rightarrow> (MQTTAsyncs \<Rightarrow> MQTTAsyncs) \<Rightarrow> async_state \<Rightarrow> async_state" where
  "update_handle m f st = st\<lparr>handles := (handles st)(m := f (handles st m))\<rparr>"

section \<open>Queueing\<close>

definition clientCompareConnectCommand :: "queued_command \<Rightarrow> queued_command \<Rightarrow> bool" where
  "clientCompareConnectCommand cmd1 cmd2 \<longleftrightarrow>
     q_client cmd1 = q_client cmd2 \<and> cmd_type cmd1 = cmd_type cmd2 \<and> (cmd_type cmd1 = CONNECT \<or> cmd_type cmd1 = DISCONNECT)"

text \<open>A search of the list: the remembered element if it matches, otherwise the first that does.\<close>

definition find_command :: "nat option \<Rightarrow> (queued_command \<Rightarrow> bool) \<Rightarrow> queued_command list \<Rightarrow> nat option" where
  "find_command pos P qs =
     (case pos of
        Some i \<Rightarrow> if i < length qs \<and> P (qs ! i) then Some i else first_index P qs
      | None \<Rightarrow> first_index P qs)"

definition remove_command :: "nat option \<Rightarrow> (queued_command \<Rightarrow> bool) \<Rightarrow> queued_command list \<Rightarrow> queued_command list" where
  "remove_command pos P qs = (case find_command pos P qs of None \<Rightarrow> qs | Some i \<Rightarrow> remove_nth i qs)"

definition first_publish :: "nat \<Rightarrow> queued_command list \<Rightarrow> nat option" where
  "first_publish m qs = first_index (\<lambda>q. q_client q = m \<and> cmd_type q = PUBLISH) qs"

text \<open>
  Storing a command: the buffer for the key of a stored \<^verbatim>\<open>PUBLISH\<close> is two bytes too short for it.
\<close>

definition persist_queued :: "async_env \<Rightarrow> queued_command \<Rightarrow> MQTTAsyncs \<Rightarrow> unit res" where
  "persist_queued e q h =
     (if \<not> persistence h then Inr ()
      else if cmd_type q = PUBLISH \<and>
        (case m_createOptions h of Some co \<Rightarrow> 2 \<le> co_struct_version co \<and> \<not> persistQoS0 co | None \<Rightarrow> False) \<and> pub_qos (q_details q) = 0 then Inr ()
      else guardR OverWrite (\<not> (cmd_type q = PUBLISH \<and> persist_rc e = 0)) (Inr ()))"

text \<open>
  Counting a buffered message, or dropping the oldest one of the client. The command that is dropped is
  used after it was freed when there is persistence.
\<close>

definition buffer_publish :: "nat \<Rightarrow> async_state \<Rightarrow> async_state res" where
  "buffer_publish m st =
     (let h = handles st m in
      if (case m_createOptions h of Some co \<Rightarrow> maxBufferedMessages co \<le> noBufferedMessages h | None \<Rightarrow> False) then
        (case first_publish m (commands st) of
           None \<Rightarrow> Inr st
         | Some i \<Rightarrow> guardR UseAfterFree (\<not> persistence h) (Inr (st\<lparr>commands := remove_nth i (commands st)\<rparr>)))
      else guardR SignedOverflow (noBufferedMessages h < 2 ^ 31 - 1)
        (Inr (update_handle m (\<lambda>h. h\<lparr>noBufferedMessages := noBufferedMessages h + 1\<rparr>) st)))"

text \<open>The time at which the command is queued. A connection that is being retried keeps the old one.\<close>

definition stamped :: "async_env \<Rightarrow> queued_command \<Rightarrow> MQTTAsyncs \<Rightarrow> queued_command" where
  "stamped e q h = (if cmd_type q \<noteq> CONNECT \<or> connect_state h = NOT_IN_PROGRESS then q\<lparr>q_start_time := clock e\<rparr> else q)"

definition MQTTAsync_addCommand :: "async_env \<Rightarrow> queued_command \<Rightarrow> async_state \<Rightarrow> (int \<times> async_state) res" where
  "MQTTAsync_addCommand e command st =
     (let m = q_client command; h = handles st m;
          q = stamped e command h in
      if cmd_type q = CONNECT \<or> cmd_type q = DISCONNECT \<and> dis_internal (q_details q) then
        if commands st \<noteq> [] \<and> q_client (hd (commands st)) = m \<and> cmd_type (hd (commands st)) = cmd_type q then Inr (signal_rc e, st)
        else
          let rest = remove_command (cached e) (\<lambda>x. clientCompareConnectCommand x q) (commands st) in
          Inr (signal_rc e, st\<lparr>commands := (if malloc_ok (aal e) 24 then q # rest else rest)\<rparr>)
      else
        bindR (persist_queued e q h) (\<lambda>_.
          let st1 = st\<lparr>commands := (if malloc_ok (aal e) 24 then commands st @ [q] else commands st)\<rparr> in
          bindR (if cmd_type q = PUBLISH then buffer_publish m st1 else Inr st1) (\<lambda>st2. Inr (signal_rc e, st2))))"

section \<open>Message ids\<close>

definition cmdMessageIDCompare :: "queued_command \<Rightarrow> int \<Rightarrow> bool" where
  "cmdMessageIDCompare q msgid \<longleftrightarrow> q_token q = msgid"

definition id_used :: "async_state \<Rightarrow> nat \<Rightarrow> int \<Rightarrow> bool" where
  "id_used st m msgid \<longleftrightarrow> list_ex (\<lambda>q. cmdMessageIDCompare q msgid) (commands st) \<or>
     list_ex (\<lambda>x. messageIDCompare x msgid) (outboundMsgs (m_c (handles st m))) \<or>
     list_ex (\<lambda>q. cmdMessageIDCompare q msgid) (responses (handles st m))"

definition MQTTAsync_assignMsgId :: "nat \<Rightarrow> async_state \<Rightarrow> (int \<times> async_state) option" where
  "MQTTAsync_assignMsgId m st =
     (let start = msgID (m_c (handles st m)) in
      map_option (\<lambda>msgid. (msgid, if msgid \<noteq> 0 then update_handle m (\<lambda>h. h\<lparr>m_c := (m_c h)\<lparr>msgID := msgid\<rparr>\<rparr>) st else st))
        (search_id (id_used st m) start (next_id start)))"

section \<open>Calls\<close>

text \<open>The check of the response options against the version of the connection.\<close>

definition bad_callbacks :: "int \<Rightarrow> responseOptions option \<Rightarrow> bool" where
  "bad_callbacks version response =
     (case response of
        None \<Rightarrow> False
      | Some r \<Rightarrow>
          if 5 \<le> version then ro_struct_version r = 0 \<or> onFailure (ro_callbacks r) \<or> onSuccess (ro_callbacks r)
          else 1 \<le> ro_struct_version r \<and> (onFailure5 (ro_callbacks r) \<or> onSuccess5 (ro_callbacks r)))"

text \<open>The command with what the response options add to it, and the token they return.\<close>

definition new_command :: "(int \<Rightarrow> bool) \<Rightarrow> int \<Rightarrow> nat \<Rightarrow> int \<Rightarrow> responseOptions option \<Rightarrow> cmd_details \<Rightarrow> queued_command res" where
  "new_command al version m msgid response d =
     (let q = \<lparr>q_client = m, q_callbacks = no_callbacks, q_token = msgid, q_context = 0, q_start_time = 0,
        q_properties = MQTTProperties_initializer, q_details = d, q_not_restored = False\<rparr> in
      case response of
        None \<Rightarrow> Inr q
      | Some r \<Rightarrow>
          let q1 = q\<lparr>q_callbacks := ro_callbacks r, q_context := ro_context r\<rparr> in
          if 5 \<le> version then bindR (MQTTProperties_copy al (ro_properties r)) (\<lambda>ps. Inr (q1\<lparr>q_properties := ps\<rparr>)) else Inr q1)"

definition return_token :: "int \<Rightarrow> responseOptions option \<Rightarrow> responseOptions option" where
  "return_token msgid response = map_option (\<lambda>r. r\<lparr>ro_token := msgid\<rparr>) response"

text \<open>Is sending while disconnected allowed?\<close>

definition may_send :: "MQTTAsyncs \<Rightarrow> bool" where
  "may_send h \<longleftrightarrow> connected (m_c h) \<or>
     (case m_createOptions h of
        None \<Rightarrow> False
      | Some co \<Rightarrow> sendWhileDisconnected co \<and>
          (shouldBeConnected h \<or> 2 \<le> co_struct_version co \<and> allowDisconnectedSendAtAnyTime co))"

definition refuses_newest :: "MQTTAsyncs \<Rightarrow> bool" where
  "refuses_newest h \<longleftrightarrow>
     (case m_createOptions h of
        None \<Rightarrow> False
      | Some co \<Rightarrow> (co_struct_version co < 2 \<or> \<not> deleteOldestMessages co) \<and> maxBufferedMessages co \<le> noBufferedMessages h)"

type_synonym call_result = "((int \<times> responseOptions option) \<times> async_state) res"

text \<open>The part of \<^verbatim>\<open>MQTTAsync_send\<close> after the checks.\<close>

definition queue_publish ::
  "async_env \<Rightarrow> nat \<Rightarrow> byte list \<Rightarrow> byte list \<Rightarrow> int \<Rightarrow> int \<Rightarrow> responseOptions option \<Rightarrow> int \<Rightarrow> async_state \<Rightarrow> call_result" where
  "queue_publish e m dest payload qos retained response msgid st =
     (if \<not> malloc_ok (aal e) 168 then Inr ((PAHO_MEMORY_ERROR, response), st)
      else
        bindR (MQTTStrdup (aal e) dest) (\<lambda>d.
        bindR (new_command (aal e) (MQTTVersion (m_c (handles st m))) m msgid response
                 (Pub_details d (Some payload) (int (length payload)) qos retained)) (\<lambda>q.
          if d = None \<or> \<not> malloc_ok (aal e) (int (length payload)) then Inr ((PAHO_MEMORY_ERROR, return_token msgid response), st)
          else bindR (MQTTAsync_addCommand e q st) (\<lambda>(rc, st'). Inr ((rc, return_token msgid response), st')))))"

definition MQTTAsync_send ::
  "async_env \<Rightarrow> nat option \<Rightarrow> byte list \<Rightarrow> byte list \<Rightarrow> int \<Rightarrow> int \<Rightarrow> responseOptions option \<Rightarrow> async_state \<Rightarrow> call_result option" where
  "MQTTAsync_send e handle destinationName payload qos retained response st =
     (case handle of
        None \<Rightarrow> Some (Inr ((MQTTASYNC_FAILURE, response), st))
      | Some m \<Rightarrow>
          if \<not> may_send (handles st m) then Some (Inr ((MQTTASYNC_DISCONNECTED, response), st))
          else
            (case UTF8_validateString (Some destinationName) of
               Inl f \<Rightarrow> Some (Inl f)
             | Inr valid \<Rightarrow>
                 if valid = 0 then Some (Inr ((MQTTASYNC_BAD_UTF8_STRING, response), st))
                 else if qos < 0 \<or> 2 < qos then Some (Inr ((MQTTASYNC_BAD_QOS, response), st))
                 else
                   map_option (\<lambda>(msgid, st1).
                     if 0 < qos \<and> msgid = 0 then Inr ((MQTTASYNC_NO_MORE_MSGIDS, response), st1)
                     else if refuses_newest (handles st1 m) then Inr ((MQTTASYNC_MAX_BUFFERED_MESSAGES, response), st1)
                     else if bad_callbacks (MQTTVersion (m_c (handles st1 m))) response then Inr ((MQTTASYNC_BAD_MQTT_OPTION, response), st1)
                     else queue_publish e m destinationName payload qos retained response msgid st1)
                     (if 0 < qos then MQTTAsync_assignMsgId m st else Some (0, st))))"

text \<open>
  \<^verbatim>\<open>MQTTAsync_sendMessage\<close>: the message, if any, with whether its eyecatcher and version are right. With
  MQTT 5 its properties are put into the response options.
\<close>

record async_message =
  msg_valid :: bool
  msg_payload :: "byte list"
  msg_qos :: int
  msg_retained :: int
  msg_properties :: MQTTProperties

definition MQTTAsync_sendMessage ::
  "async_env \<Rightarrow> nat option \<Rightarrow> byte list \<Rightarrow> async_message option \<Rightarrow> responseOptions option \<Rightarrow> async_state \<Rightarrow> call_result option" where
  "MQTTAsync_sendMessage e handle destination message response st =
     (case message of
        None \<Rightarrow> Some (Inr ((MQTTASYNC_NULL_PARAMETER, response), st))
      | Some msg \<Rightarrow>
          if \<not> msg_valid msg then Some (Inr ((MQTTASYNC_BAD_STRUCTURE, response), st))
          else
            (case handle of
               None \<Rightarrow> Some (Inl NullDeref)
             | Some m \<Rightarrow>
                 MQTTAsync_send e handle destination (msg_payload msg) (msg_qos msg) (msg_retained msg)
                   (if 5 \<le> MQTTVersion (m_c (handles st m)) then map_option (\<lambda>r. r\<lparr>ro_properties := msg_properties msg\<rparr>) response
                    else response) st))"

text \<open>The loop over the topics to check; \<open>qoss\<close> is absent when unsubscribing.\<close>

fun check_topics :: "byte list list \<Rightarrow> int list option \<Rightarrow> int res" where
  "check_topics [] qoss = Inr MQTTASYNC_SUCCESS"
| "check_topics (t # ts) qoss =
     bindR (UTF8_validateString (Some t)) (\<lambda>valid.
       if valid = 0 then Inr MQTTASYNC_BAD_UTF8_STRING
       else
         (case qoss of
            None \<Rightarrow> check_topics ts None
          | Some qs \<Rightarrow>
              guardR OverRead (qs \<noteq> [])
                (if hd qs < 0 \<or> 2 < hd qs then Inr MQTTASYNC_BAD_QOS else check_topics ts (Some (tl qs)))))"

fun dup_topics :: "(int \<Rightarrow> bool) \<Rightarrow> byte list list \<Rightarrow> byte list list option res" where
  "dup_topics al [] = Inr (Some [])"
| "dup_topics al (t # ts) =
     bindR (MQTTStrdup al t) (\<lambda>d. case d of None \<Rightarrow> Inr None | Some s \<Rightarrow> bindR (dup_topics al ts) (\<lambda>r. Inr (map_option (\<lambda>ss. s # ss) r)))"

definition default_opts :: subscribe_opts where
  "default_opts = \<lparr>noLocal = 0, retainAsPublished = 0, retainHandling = 0\<rparr>"

text \<open>The options stored with a subscription of several topics in MQTT 5.\<close>

definition option_list :: "int \<Rightarrow> nat \<Rightarrow> responseOptions option \<Rightarrow> subscribe_opts list option res" where
  "option_list version n response =
     (case response of
        None \<Rightarrow> Inr None
      | Some r \<Rightarrow>
          if version < 5 \<or> n \<le> 1 then Inr None
          else if subscribeOptionsCount r = 0 then Inr (Some (replicate n default_opts))
          else guardR OverRead (n \<le> length (subscribeOptionsList r)) (Inr (Some (take n (subscribeOptionsList r)))))"

definition queue_subscribe ::
  "async_env \<Rightarrow> nat \<Rightarrow> byte list list \<Rightarrow> int list \<Rightarrow> responseOptions option \<Rightarrow> int \<Rightarrow> async_state \<Rightarrow> call_result" where
  "queue_subscribe e m topics qos response msgid st =
     (let version = MQTTVersion (m_c (handles st m)); n = length topics; al = aal e;
          opts = (case response of Some r \<Rightarrow> if 5 \<le> version then subscribeOptions r else default_opts | None \<Rightarrow> default_opts) in
      if \<not> malloc_ok al 168 then Inr ((PAHO_MEMORY_ERROR, response), st)
      else
        bindR (option_list version n response) (\<lambda>optlist.
        bindR (new_command al version m msgid response (Sub_details topics (take n qos) opts optlist)) (\<lambda>q.
          if optlist \<noteq> None \<and> \<not> malloc_ok al (int (12 * n)) \<or> \<not> malloc_ok al (int (8 * n)) \<or> \<not> malloc_ok al (int (4 * n))
          then Inr ((PAHO_MEMORY_ERROR, return_token msgid response), st)
          else
            bindR (dup_topics al topics) (\<lambda>ds.
              if ds = None then Inr ((PAHO_MEMORY_ERROR, return_token msgid response), st)
              else bindR (MQTTAsync_addCommand e q st) (\<lambda>(rc, st'). Inr ((rc, return_token msgid response), st'))))))"

text \<open>
  \<^verbatim>\<open>MQTTAsync_subscribeMany\<close>: with MQTT 5 and several topics the response options are used without a
  check that there are any.
\<close>

definition MQTTAsync_subscribeMany ::
  "async_env \<Rightarrow> nat option \<Rightarrow> byte list list \<Rightarrow> int list \<Rightarrow> responseOptions option \<Rightarrow> async_state \<Rightarrow> call_result option" where
  "MQTTAsync_subscribeMany e handle topics qos response st =
     (case handle of
        None \<Rightarrow> Some (Inr ((MQTTASYNC_FAILURE, response), st))
      | Some m \<Rightarrow>
          if \<not> connected (m_c (handles st m)) then Some (Inr ((MQTTASYNC_DISCONNECTED, response), st))
          else
            (case check_topics topics (Some qos) of
               Inl f \<Rightarrow> Some (Inl f)
             | Inr rc \<Rightarrow>
                 if rc \<noteq> MQTTASYNC_SUCCESS then Some (Inr ((rc, response), st))
                 else
                   map_option (\<lambda>(msgid, st1).
                     let version = MQTTVersion (m_c (handles st1 m)); many = (5 \<le> version \<and> 1 < length topics) in
                     if msgid = 0 then Inr ((MQTTASYNC_NO_MORE_MSGIDS, response), st1)
                     else guardR NullDeref (\<not> (many \<and> response = None))
                       (if many \<and> subscribeOptionsCount (the response) \<noteq> int (length topics) \<and> subscribeOptionsCount (the response) \<noteq> 0
                        then Inr ((MQTTASYNC_BAD_MQTT_OPTION, response), st1)
                        else if bad_callbacks version response then Inr ((MQTTASYNC_BAD_MQTT_OPTION, response), st1)
                        else queue_subscribe e m topics qos response msgid st1))
                     (MQTTAsync_assignMsgId m st)))"

definition MQTTAsync_subscribe ::
  "async_env \<Rightarrow> nat option \<Rightarrow> byte list \<Rightarrow> int \<Rightarrow> responseOptions option \<Rightarrow> async_state \<Rightarrow> call_result option" where
  "MQTTAsync_subscribe e handle topic qos response st = MQTTAsync_subscribeMany e handle [topic] [qos] response st"

text \<open>A topic that cannot be copied when unsubscribing is stored as a null pointer, which is used later.\<close>

definition queue_unsubscribe ::
  "async_env \<Rightarrow> nat \<Rightarrow> byte list list \<Rightarrow> responseOptions option \<Rightarrow> int \<Rightarrow> async_state \<Rightarrow> call_result" where
  "queue_unsubscribe e m topics response msgid st =
     (if \<not> malloc_ok (aal e) 168 then Inr ((PAHO_MEMORY_ERROR, response), st)
      else
        bindR (new_command (aal e) (MQTTVersion (m_c (handles st m))) m msgid response (Unsub_details topics)) (\<lambda>q.
          if \<not> malloc_ok (aal e) (int (8 * length topics)) then Inr ((PAHO_MEMORY_ERROR, return_token msgid response), st)
          else
            bindR (dup_topics (aal e) topics) (\<lambda>ds.
              guardR NullDeref (ds \<noteq> None)
                (bindR (MQTTAsync_addCommand e q st) (\<lambda>(rc, st'). Inr ((rc, return_token msgid response), st'))))))"

definition MQTTAsync_unsubscribeMany ::
  "async_env \<Rightarrow> nat option \<Rightarrow> byte list list \<Rightarrow> responseOptions option \<Rightarrow> async_state \<Rightarrow> call_result option" where
  "MQTTAsync_unsubscribeMany e handle topics response st =
     (case handle of
        None \<Rightarrow> Some (Inr ((MQTTASYNC_FAILURE, response), st))
      | Some m \<Rightarrow>
          if \<not> connected (m_c (handles st m)) then Some (Inr ((MQTTASYNC_DISCONNECTED, response), st))
          else
            (case check_topics topics None of
               Inl f \<Rightarrow> Some (Inl f)
             | Inr rc \<Rightarrow>
                 if rc \<noteq> MQTTASYNC_SUCCESS then Some (Inr ((rc, response), st))
                 else
                   map_option (\<lambda>(msgid, st1).
                     if msgid = 0 then Inr ((MQTTASYNC_NO_MORE_MSGIDS, response), st1)
                     else if bad_callbacks (MQTTVersion (m_c (handles st1 m))) response then Inr ((MQTTASYNC_BAD_MQTT_OPTION, response), st1)
                     else queue_unsubscribe e m topics response msgid st1)
                     (MQTTAsync_assignMsgId m st)))"

definition MQTTAsync_unsubscribe ::
  "async_env \<Rightarrow> nat option \<Rightarrow> byte list \<Rightarrow> responseOptions option \<Rightarrow> async_state \<Rightarrow> call_result option" where
  "MQTTAsync_unsubscribe e handle topic response st = MQTTAsync_unsubscribeMany e handle [topic] response st"

section \<open>The next command\<close>

text \<open>
  The conditions under which \<^verbatim>\<open>MQTTAsync_processCommand\<close> takes a command. \<open>idle\<close> is the result of
  \<^verbatim>\<open>MQTTAsync_Socket_noPendingWrites\<close>.
\<close>

definition eligible :: "(int \<Rightarrow> bool) \<Rightarrow> (nat \<Rightarrow> MQTTAsyncs) \<Rightarrow> queued_command \<Rightarrow> bool" where
  "eligible idle hs cmd \<longleftrightarrow>
     (let h = hs (q_client cmd); c = m_c h; t = cmd_type cmd; out = int (length (outboundMsgs c)) in
      (t = CONNECT \<or> t = DISCONNECT \<or> connected c \<and> connect_state h = NOT_IN_PROGRESS \<and> idle (socket c)) \<and>
      \<not> (t \<in> {PUBLISH, SUBSCRIBE, UNSUBSCRIBE} \<and> MAX_MSG_ID - 1 \<le> out) \<and>
      \<not> ((t = PUBLISH \<and> 0 < pub_qos (q_details cmd) \<or> t = SUBSCRIBE \<or> t = UNSUBSCRIBE) \<and> maxInflightMessages h \<le> out))"

text \<open>The loop over the commands, with the list of clients that are passed over.\<close>

fun select_command :: "(int \<Rightarrow> bool) \<Rightarrow> (queued_command \<Rightarrow> bool) \<Rightarrow> nat list \<Rightarrow> queued_command list \<Rightarrow> nat option" where
  "select_command al ok ignored [] = None"
| "select_command al ok ignored (cmd # cmds) =
     (if q_client cmd \<in> set ignored then map_option Suc (select_command al ok ignored cmds)
      else if ok cmd then Some 0
      else map_option Suc (select_command al ok (if malloc_ok al 24 then ignored @ [q_client cmd] else ignored) cmds))"

text \<open>
  The first part of \<^verbatim>\<open>MQTTAsync_processCommand\<close>: the command that is taken from the queue. Reading a
  stored command back from persistence is not modelled.
\<close>

definition take_command :: "(int \<Rightarrow> bool) \<Rightarrow> (int \<Rightarrow> bool) \<Rightarrow> async_state \<Rightarrow> (queued_command option \<times> async_state) res" where
  "take_command al idle st =
     guardR NullDeref (malloc_ok al 40)
       (case select_command al (eligible idle (handles st)) [] (commands st) of
          None \<Rightarrow> Inr (None, st)
        | Some i \<Rightarrow>
            let cmd = commands st ! i;
                st1 = (if cmd_type cmd = PUBLISH
                       then update_handle (q_client cmd) (\<lambda>h. h\<lparr>noBufferedMessages := noBufferedMessages h - 1\<rparr>) st else st) in
            Inr (Some cmd, st1\<lparr>commands := remove_nth i (commands st1)\<rparr>))"

section \<open>Choosing a command\<close>

text \<open>The first command of its client, and among these the first that can be executed.\<close>

definition leads :: "queued_command list \<Rightarrow> nat \<Rightarrow> bool" where
  "leads qs i \<longleftrightarrow> i < length qs \<and> (\<forall>j < i. q_client (qs ! j) \<noteq> q_client (qs ! i))"

lemma leads_Cons: "leads (q # qs) (Suc i) \<longleftrightarrow> leads qs i \<and> q_client (qs ! i) \<noteq> q_client q"
  by (auto simp: leads_def less_Suc_eq_0_disj)

lemma select_command_spec:
  assumes "malloc_ok al 24"
  shows "case select_command al ok ign qs of
      None \<Rightarrow> \<forall>i. leads qs i \<and> ok (qs ! i) \<longrightarrow> q_client (qs ! i) \<in> set ign
    | Some i \<Rightarrow> leads qs i \<and> ok (qs ! i) \<and> q_client (qs ! i) \<notin> set ign \<and>
        (\<forall>j < i. leads qs j \<and> ok (qs ! j) \<longrightarrow> q_client (qs ! j) \<in> set ign)"
proof (induction qs arbitrary: ign)
  case Nil
  then show ?case by (simp add: leads_def)
next
  case (Cons q qs)
  define ign' where "ign' = (if q_client q \<in> set ign then ign else ign @ [q_client q])"
  have ign': "set ign' = insert (q_client q) (set ign)" by (auto simp: ign'_def)
  show ?case
  proof (cases "q_client q \<in> set ign \<or> \<not> ok q")
    case True
    then have sel: "select_command al ok ign (q # qs) = map_option Suc (select_command al ok ign' qs)" using assms by (auto simp: ign'_def)
    show ?thesis
    proof (cases "select_command al ok ign' qs")
      case None
      with Cons.IH [of ign'] have i: "\<And>i. leads qs i \<Longrightarrow> ok (qs ! i) \<Longrightarrow> q_client (qs ! i) \<in> set ign'" by simp
      have "q_client ((q # qs) ! j) \<in> set ign" if "leads (q # qs) j" "ok ((q # qs) ! j)" for j
        using that True i by (cases j) (auto simp: leads_Cons ign')
      with sel None show ?thesis by simp
    next
      case (Some i)
      with Cons.IH [of ign'] have i: "leads qs i" "ok (qs ! i)" "q_client (qs ! i) \<notin> set ign'"
        "\<And>j. j < i \<Longrightarrow> leads qs j \<Longrightarrow> ok (qs ! j) \<Longrightarrow> q_client (qs ! j) \<in> set ign'" by auto
      have "q_client ((q # qs) ! j) \<in> set ign" if "j < Suc i" "leads (q # qs) j" "ok ((q # qs) ! j)" for j
        using that True i(4) by (cases j) (auto simp: leads_Cons ign')
      with i sel Some show ?thesis by (auto simp: leads_Cons ign')
    qed
  next
    case False
    then show ?thesis by (simp add: leads_def)
  qed
qed

section \<open>The order of commands\<close>

text \<open>The requests of a client, that is its commands other than connecting and disconnecting, in order.\<close>

definition request :: "nat \<Rightarrow> queued_command \<Rightarrow> bool" where
  "request m q \<longleftrightarrow> q_client q = m \<and> cmd_type q \<in> {PUBLISH, SUBSCRIBE, UNSUBSCRIBE}"

definition requests :: "nat \<Rightarrow> async_state \<Rightarrow> queued_command list" where
  "requests m st = filter (request m) (commands st)"

definition publishes :: "nat \<Rightarrow> async_state \<Rightarrow> nat" where
  "publishes m st = length (filter (\<lambda>q. q_client q = m \<and> cmd_type q = PUBLISH) (commands st))"

text \<open>The oldest message is dropped.\<close>

definition drop_publish :: "queued_command list \<Rightarrow> queued_command list" where
  "drop_publish qs = (case first_index (\<lambda>q. cmd_type q = PUBLISH) qs of None \<Rightarrow> qs | Some i \<Rightarrow> remove_nth i qs)"

definition is_full :: "MQTTAsyncs \<Rightarrow> bool" where
  "is_full h \<longleftrightarrow> (case m_createOptions h of Some co \<Rightarrow> maxBufferedMessages co \<le> noBufferedMessages h | None \<Rightarrow> False)"

lemma types_distinct [simp]:
  "CONNECT \<noteq> PUBLISH" "CONNECT \<noteq> SUBSCRIBE" "CONNECT \<noteq> UNSUBSCRIBE" "DISCONNECT \<noteq> PUBLISH" "DISCONNECT \<noteq> SUBSCRIBE"
  "DISCONNECT \<noteq> UNSUBSCRIBE" "PUBLISH \<noteq> SUBSCRIBE" "PUBLISH \<noteq> UNSUBSCRIBE" "PUBLISH \<noteq> CONNECT" "PUBLISH \<noteq> DISCONNECT"
  "SUBSCRIBE \<noteq> CONNECT" "SUBSCRIBE \<noteq> DISCONNECT" "UNSUBSCRIBE \<noteq> CONNECT" "UNSUBSCRIBE \<noteq> DISCONNECT" "SUBSCRIBE \<noteq> PUBLISH"
  "UNSUBSCRIBE \<noteq> PUBLISH"
  by (simp_all add: CONNECT_def DISCONNECT_def PUBLISH_def SUBSCRIBE_def UNSUBSCRIBE_def)

lemma filter_remove_nth:
  assumes "i < length xs"
  shows "filter P (remove_nth i xs) = (if P (xs ! i) then remove_nth (length (filter P (take i xs))) (filter P xs) else filter P xs)"
proof -
  have xs: "xs = take i xs @ xs ! i # drop (Suc i) xs" using assms by (rule id_take_nth_drop)
  have "filter P xs = filter P (take i xs) @ (if P (xs ! i) then [xs ! i] else []) @ filter P (drop (Suc i) xs)"
    by (subst xs) simp
  then show ?thesis by (simp add: remove_nth_def)
qed

lemma find_command_Some: "find_command pos P qs = Some i \<Longrightarrow> i < length qs \<and> P (qs ! i)"
  by (auto simp: find_command_def first_index_Some split: option.splits if_splits)

text \<open>Removing an element that does not count.\<close>

lemma filter_remove_command:
  assumes "\<And>q. Q q \<Longrightarrow> \<not> P q"
  shows "filter P (remove_command pos Q qs) = filter P qs"
  using assms find_command_Some [of pos Q qs] by (auto simp: remove_command_def filter_remove_nth split: option.splits)

lemma first_index_filter:
  assumes "first_index (\<lambda>x. P x \<and> Q x) xs = Some i"
  shows "first_index Q (filter P xs) = Some (length (filter P (take i xs)))"
  using assms
proof (induction xs arbitrary: i)
  case (Cons x xs)
  then show ?case
    by (cases "P x \<and> Q x"; cases i) (auto simp: first_index_Some nth_Cons' less_Suc_eq_0_disj split: if_splits)
qed (simp add: first_index_Some)

lemma requests_simps:
  "requests m (st\<lparr>commands := qs\<rparr>) = filter (request m) qs" "requests m (update_handle k f st) = requests m st"
  by (simp_all add: requests_def update_handle_def)

lemma publishes_requests: "publishes m st = length (filter (\<lambda>q. cmd_type q = PUBLISH) (requests m st))"
  by (simp add: publishes_def requests_def request_def conj_ac) (metis (mono_tags, lifting))

lemma stamped_simps [simp]:
  "q_client (stamped e q h) = q_client q" "cmd_type (stamped e q h) = cmd_type q" "request m (stamped e q h) = request m q"
  "q_details (stamped e q h) = q_details q"
  by (simp_all add: stamped_def cmd_type_def request_def)

lemma drop_oldest:
  assumes "first_publish m qs = Some i"
  shows "filter (request m) (remove_nth i qs) = drop_publish (filter (request m) qs)"
    and "k \<noteq> m \<Longrightarrow> filter (request k) (remove_nth i qs) = filter (request k) qs"
proof -
  have i: "i < length qs" "q_client (qs ! i) = m" "cmd_type (qs ! i) = PUBLISH"
    using assms by (simp_all add: first_publish_def first_index_Some)
  have "(\<lambda>q. q_client q = m \<and> cmd_type q = PUBLISH) = (\<lambda>q. request m q \<and> cmd_type q = PUBLISH)"
    by (auto simp: request_def)
  with assms have "first_index (\<lambda>q. cmd_type q = PUBLISH) (filter (request m) qs) = Some (length (filter (request m) (take i qs)))"
    by (simp add: first_publish_def first_index_filter)
  with i show "filter (request m) (remove_nth i qs) = drop_publish (filter (request m) qs)"
    by (simp add: filter_remove_nth drop_publish_def request_def)
  show "k \<noteq> m \<Longrightarrow> filter (request k) (remove_nth i qs) = filter (request k) qs"
    using i by (simp add: filter_remove_nth request_def)
qed

lemma drop_oldest_snoc:
  assumes "q_client q = m" "cmd_type q = PUBLISH"
  obtains i where "first_publish m (qs @ [q]) = Some i"
proof -
  from assms have "first_publish m (qs @ [q]) \<noteq> None" by (auto simp: first_publish_def first_index_None)
  then show thesis using that by auto
qed

text \<open>What \<^verbatim>\<open>MQTTAsync_addCommand\<close> does to the requests of every client and to the count.\<close>

lemma addCommand_effect:
  assumes add: "MQTTAsync_addCommand e q st = Inr (rc, st')" and al: "\<forall>n. aal e n" and np: "\<not> persistence (handles st (q_client q))"
  defines "h \<equiv> handles st (q_client q)"
  defines "q' \<equiv> stamped e q h" and "full \<equiv> cmd_type q = PUBLISH \<and> is_full h"
  shows "requests m st' =
      (if request m q then if full then drop_publish (requests m st @ [q']) else requests m st @ [q'] else requests m st)
    \<and> handles st' = (if cmd_type q = PUBLISH \<and> \<not> full
      then (handles st)(q_client q := h\<lparr>noBufferedMessages := noBufferedMessages h + 1\<rparr>) else handles st)"
proof -
  have mal: "malloc_ok (aal e) 24" using al by (simp add: malloc_ok_def PTRDIFF_MAX_def)
  have conn: "cmd_type x = CONNECT \<or> cmd_type x = DISCONNECT \<Longrightarrow> \<not> request m x" for x m by (auto simp: request_def)
  have ignore: "filter (request m) (remove_command (cached e) (\<lambda>x. clientCompareConnectCommand x q') (commands st)) = filter (request m) (commands st)" for m
    by (rule filter_remove_command) (auto simp: clientCompareConnectCommand_def conn)
  note run = MQTTAsync_addCommand_def Let_def persist_queued_def np mal q'_def h_def
  have fields: "cmd_type q' = cmd_type q" "q_details q' = q_details q" "request m q' = request m q" "q_client q' = q_client q" for m
    by (simp_all add: q'_def)
  consider (conn) "cmd_type q = CONNECT \<or> cmd_type q = DISCONNECT \<and> dis_internal (q_details q)"
    | (other) "cmd_type q \<noteq> PUBLISH" "\<not> (cmd_type q = CONNECT \<or> cmd_type q = DISCONNECT \<and> dis_internal (q_details q))"
    | (room) "cmd_type q = PUBLISH" "\<not> is_full h" | (full) "cmd_type q = PUBLISH" "is_full h"
    by auto
  then show ?thesis
  proof cases
    case conn
    then have "cmd_type q \<noteq> PUBLISH" "\<not> request m q" "\<not> request m q'" by (auto simp: request_def fields)
    moreover have "st' = st \<or> st' = st\<lparr>commands := q' # remove_command (cached e) (\<lambda>x. clientCompareConnectCommand x q') (commands st)\<rparr>"
      using add conn by (auto simp: run split: if_split_asm)
    ultimately show ?thesis using ignore [of m] by (auto simp: requests_def full_def)
  next
    case other
    with add have "st' = st\<lparr>commands := commands st @ [q']\<rparr>" by (auto simp: run)
    with other show ?thesis by (simp add: requests_def full_def fields)
  next
    case room
    with add have "st' = update_handle (q_client q) (\<lambda>h. h\<lparr>noBufferedMessages := noBufferedMessages h + 1\<rparr>) (st\<lparr>commands := commands st @ [q']\<rparr>)"
      by (auto simp: run buffer_publish_def is_full_def [symmetric] guardR_def split: if_splits)
    with room show ?thesis by (simp add: requests_simps full_def fields) (simp add: update_handle_def requests_def h_def)
  next
    case full
    obtain i where i: "first_publish (q_client q) (commands st @ [q']) = Some i"
      using drop_oldest_snoc [of q' "q_client q"] fields full(1) by metis
    with add full have st': "st' = st\<lparr>commands := remove_nth i (commands st @ [q'])\<rparr>"
      by (auto simp: run buffer_publish_def is_full_def [symmetric])
    show ?thesis
    proof (cases "m = q_client q")
      case True
      with drop_oldest(1) [OF i] full show ?thesis by (simp add: st' requests_def full_def fields request_def)
    next
      case False
      with drop_oldest(2) [OF i] full show ?thesis by (simp add: st' requests_def full_def fields request_def)
    qed
  qed
qed

text \<open>Taking a command: it leads the requests of its client, and the others keep theirs.\<close>

lemma remove_nth_publishes:
  assumes "i < length (commands st)" "commands st ! i = q"
  shows "publishes m (st\<lparr>commands := remove_nth i (commands st)\<rparr>) = publishes m st - (if q_client q = m \<and> cmd_type q = PUBLISH then 1 else 0)"
proof -
  have xs: "commands st = take i (commands st) @ q # drop (Suc i) (commands st)" using id_take_nth_drop assms by blast
  have "publishes m st = length (filter (\<lambda>q. q_client q = m \<and> cmd_type q = PUBLISH) (take i (commands st)))
      + (if q_client q = m \<and> cmd_type q = PUBLISH then 1 else 0)
      + length (filter (\<lambda>q. q_client q = m \<and> cmd_type q = PUBLISH) (drop (Suc i) (commands st)))"
    unfolding publishes_def by (subst xs) simp
  then show ?thesis by (simp add: publishes_def remove_nth_def)
qed

lemma take_command_effect:
  assumes "take_command al idle st = Inr (Some q, st')" and al: "\<forall>n. al n"
  shows "eligible idle (handles st) q" "requests (q_client q) st = (if request (q_client q) q then [q] else []) @ requests (q_client q) st'"
    and "m \<noteq> q_client q \<Longrightarrow> requests m st' = requests m st"
    and "publishes m st = publishes m st' + (if q_client q = m \<and> cmd_type q = PUBLISH then 1 else 0)"
    and "handles st' = (if cmd_type q = PUBLISH
      then (handles st)(q_client q := (handles st (q_client q))\<lparr>noBufferedMessages := noBufferedMessages (handles st (q_client q)) - 1\<rparr>) else handles st)"
proof -
  have mal: "malloc_ok al 24" "malloc_ok al 40" using al by (simp_all add: malloc_ok_def PTRDIFF_MAX_def)
  from assms mal obtain i where i: "select_command al (eligible idle (handles st)) [] (commands st) = Some i" "q = commands st ! i"
    and st': "commands st' = remove_nth i (commands st)"
    and hs: "handles st' = (if cmd_type q = PUBLISH
      then (handles st)(q_client q := (handles st (q_client q))\<lparr>noBufferedMessages := noBufferedMessages (handles st (q_client q)) - 1\<rparr>) else handles st)"
    by (auto simp: take_command_def Let_def update_handle_def split: option.splits)
  from select_command_spec [OF mal(1), where ok = "eligible idle (handles st)" and ign = "[]" and qs = "commands st"] i
  have l: "leads (commands st) i" and el: "eligible idle (handles st) q" by simp_all
  then have len: "i < length (commands st)" by (simp add: leads_def)
  have req: "requests m st' = (if request m q then remove_nth (length (filter (request m) (take i (commands st)))) (requests m st) else requests m st)" for m
    using filter_remove_nth [OF len, of "request m"] i(2) by (simp add: requests_def st')
  have "\<not> request (q_client q) x" if "x \<in> set (take i (commands st))" for x
    using that l len by (auto simp: leads_def request_def i(2) in_set_conv_nth)
  then have none: "filter (request (q_client q)) (take i (commands st)) = []" by (simp add: filter_empty_conv)
  have "requests (q_client q) st = filter (request (q_client q)) (take i (commands st) @ q # drop (Suc i) (commands st))"
    using id_take_nth_drop [OF len] by (simp add: requests_def i(2))
  with none req [of "q_client q"] show "requests (q_client q) st = (if request (q_client q) q then [q] else []) @ requests (q_client q) st'"
    by (simp add: remove_nth_def)
  show "m \<noteq> q_client q \<Longrightarrow> requests m st' = requests m st" using req [of m] by (simp add: request_def)
  have "publishes m st' = publishes m (st\<lparr>commands := remove_nth i (commands st)\<rparr>)" by (simp add: publishes_def st')
  moreover have "0 < publishes m st" if "q_client q = m \<and> cmd_type q = PUBLISH"
    using that len i(2) nth_mem by (fastforce simp: publishes_def filter_empty_conv)
  ultimately show "publishes m st = publishes m st' + (if q_client q = m \<and> cmd_type q = PUBLISH then 1 else 0)"
    using remove_nth_publishes [OF len, of q m] i(2) by auto
  show "eligible idle (handles st) q" by (rule el)
  show "handles st' = (if cmd_type q = PUBLISH
      then (handles st)(q_client q := (handles st (q_client q))\<lparr>noBufferedMessages := noBufferedMessages (handles st (q_client q)) - 1\<rparr>) else handles st)"
    by (rule hs)
qed

end
