(* ===== verification/Async_Runs.thy ===== *)
theory Async_Runs
  imports Async_Queue
begin

text \<open>
  Runs of the command queue of \<^verbatim>\<open>MQTTAsync.c\<close>: commands are queued by any thread, taken by the sending
  thread and dropped when a client is destroyed, in any order. The library changes the queue in no other
  way while no client has persistence. The results are the order in which requests are executed, the
  count of buffered messages and that a command which can be executed is not starved.
\<close>

section \<open>Destroying a client\<close>

text \<open>The tokens whose failure is reported to the application, and the commands that are left.\<close>

definition reports_failure :: "queued_command \<Rightarrow> bool" where
  "reports_failure q \<longleftrightarrow> onFailure (q_callbacks q) \<or> onFailure5 (q_callbacks q)"

definition failed_tokens :: "queued_command list \<Rightarrow> int list" where
  "failed_tokens qs = map q_token (filter reports_failure qs)"

definition MQTTAsync_freeCommands :: "nat \<Rightarrow> async_state \<Rightarrow> int list \<times> async_state" where
  "MQTTAsync_freeCommands m st =
     (failed_tokens (filter (\<lambda>q. q_client q = m) (commands st)), st\<lparr>commands := filter (\<lambda>q. q_client q \<noteq> m) (commands st)\<rparr>)"

definition MQTTAsync_freeResponses :: "nat \<Rightarrow> async_state \<Rightarrow> int list \<times> async_state" where
  "MQTTAsync_freeResponses m st =
     (failed_tokens (responses (handles st m)), update_handle m (\<lambda>h. h\<lparr>responses := []\<rparr>) st)"

section \<open>Steps\<close>

datatype async_event = Queued queued_command | Took queued_command | Destroyed nat | Quiet

text \<open>What the other code of the library may change: anything but the queue, the count and the options.\<close>

definition quiet_change :: "async_state \<Rightarrow> async_state \<Rightarrow> bool" where
  "quiet_change st st' \<longleftrightarrow> commands st' = commands st \<and>
     (\<forall>m. noBufferedMessages (handles st' m) = noBufferedMessages (handles st m) \<and>
       m_createOptions (handles st' m) = m_createOptions (handles st m) \<and> persistence (handles st' m) = persistence (handles st m))"

text \<open>A client that is created at the address of a destroyed one starts from a zeroed structure.\<close>

inductive async_step :: "async_state \<Rightarrow> async_event \<Rightarrow> async_state \<Rightarrow> bool" where
  add: "MQTTAsync_addCommand e q st = Inr (rc, st') \<Longrightarrow> \<forall>n. aal e n \<Longrightarrow> \<not> persistence (handles st (q_client q)) \<Longrightarrow>
    async_step st (Queued (stamped e q (handles st (q_client q)))) st'"
| take: "take_command al idle st = Inr (Some q, st') \<Longrightarrow> \<forall>n. al n \<Longrightarrow> async_step st (Took q) st'"
| destroy: "noBufferedMessages h = 0 \<Longrightarrow>
    async_step st (Destroyed m) (update_handle m (\<lambda>_. h) (snd (MQTTAsync_freeCommands m st)))"
| other: "quiet_change st st' \<Longrightarrow> async_step st Quiet st'"

inductive async_run :: "async_state \<Rightarrow> async_event list \<Rightarrow> async_state \<Rightarrow> bool" where
  start: "async_run st [] st"
| continue: "async_run st evs st' \<Longrightarrow> async_step st' ev st'' \<Longrightarrow> async_run st (evs @ [ev]) st''"

inductive_cases async_stepE: "async_step st ev st'"

fun queued_of :: "nat \<Rightarrow> async_event \<Rightarrow> queued_command list" where
  "queued_of m (Queued q) = (if request m q then [q] else [])"
| "queued_of m _ = []"

fun took_of :: "nat \<Rightarrow> async_event \<Rightarrow> queued_command list" where
  "took_of m (Took q) = (if request m q then [q] else [])"
| "took_of m _ = []"

text \<open>The requests of a client that were queued and the ones that were executed, in order.\<close>

definition queued :: "nat \<Rightarrow> async_event list \<Rightarrow> queued_command list" where
  "queued m evs = concat (map (queued_of m) evs)"

definition executed :: "nat \<Rightarrow> async_event list \<Rightarrow> queued_command list" where
  "executed m evs = concat (map (took_of m) evs)"

lemma event_lists [simp]:
  "queued m [] = []" "executed m [] = []"
  "queued m (evs @ [ev]) = queued m evs @ queued_of m ev" "executed m (evs @ [ev]) = executed m evs @ took_of m ev"
  by (simp_all add: queued_def executed_def)

lemma drop_publish_subseq: "subseq (drop_publish qs) qs"
proof (cases "first_index (\<lambda>q. cmd_type q = PUBLISH) qs")
  case (Some i)
  have "subseq (take i qs @ drop (Suc i) qs) (take i qs @ drop i qs)"
    by (rule list_emb_append_mono) (use suffix_imp_subseq [OF suffix_drop [of 1 "drop i qs"]] in simp_all)
  with Some show ?thesis by (simp add: drop_publish_def remove_nth_def)
qed (simp add: drop_publish_def)

text \<open>One step, seen by one client: requests are added at the end and taken at the front.\<close>

lemma step_requests:
  assumes "async_step st ev st'"
  shows "subseq (took_of m ev @ requests m st') (requests m st @ queued_of m ev)"
    and "m_createOptions (handles st m) = None \<Longrightarrow> ev \<noteq> Destroyed m \<Longrightarrow>
      took_of m ev @ requests m st' = requests m st @ queued_of m ev \<and> m_createOptions (handles st' m) = None"
  using assms
proof (induction rule: async_step.induct)
  case (add e q st rc st')
  note eff = addCommand_effect [OF add, of m]
  {
    case 1
    then show ?case using eff drop_publish_subseq by (auto split: if_splits)
  next
    case 2
    then show ?case using eff by (auto simp: is_full_def request_def split: if_splits)
  }
next
  case (take al idle st q st')
  note eff = take_command_effect [OF take]
  {
    case 1
    then show ?case using eff(2) eff(3) [of m] by (cases "m = q_client q") (auto simp: request_def)
  next
    case 2
    then show ?case using eff(2,5) eff(3) [of m] by (cases "m = q_client q") (auto simp: request_def split: if_splits)
  }
next
  case (destroy h st k)
  {
    case 1
    have "requests m (snd (MQTTAsync_freeCommands k st)) = filter (\<lambda>q. q_client q \<noteq> k) (requests m st)"
      by (simp add: requests_def MQTTAsync_freeCommands_def conj_commute)
    then show ?case by (simp add: requests_simps)
  next
    case 2
    then have "k \<noteq> m" by simp
    then have "requests m (snd (MQTTAsync_freeCommands k st)) = requests m st"
      by (auto simp: requests_def MQTTAsync_freeCommands_def request_def intro: filter_cong)
    with 2 \<open>k \<noteq> m\<close> show ?case by (simp add: requests_simps) (simp add: update_handle_def MQTTAsync_freeCommands_def)
  }
next
  case (other st st')
  {
    case 1
    then show ?case using other by (simp add: quiet_change_def requests_def)
  next
    case 2
    then show ?case using other by (simp add: quiet_change_def requests_def)
  }
qed

text \<open>
  The count of buffered messages is right, and it never exceeds the limit of the client's options.
\<close>

definition buffered_ok :: "async_state \<Rightarrow> bool" where
  "buffered_ok st \<longleftrightarrow> (\<forall>m. noBufferedMessages (handles st m) = int (publishes m st) \<and>
     (case m_createOptions (handles st m) of Some co \<Rightarrow> int (publishes m st) \<le> max 0 (maxBufferedMessages co) | None \<Rightarrow> True))"

lemma drop_publish_count:
  assumes "x \<in> set qs" "cmd_type x = PUBLISH"
  shows "Suc (length (filter (\<lambda>q. cmd_type q = PUBLISH) (drop_publish qs))) = length (filter (\<lambda>q. cmd_type q = PUBLISH) qs)"
proof -
  obtain i where i: "first_index (\<lambda>q. cmd_type q = PUBLISH) qs = Some i"
    using assms first_index_None [of "\<lambda>q. cmd_type q = PUBLISH" qs] by (cases "first_index (\<lambda>q. cmd_type q = PUBLISH) qs") auto
  then have i': "i < length qs" "cmd_type (qs ! i) = PUBLISH" by (simp_all add: first_index_Some)
  from arg_cong [OF id_take_nth_drop [OF i'(1)], of "filter (\<lambda>q. cmd_type q = PUBLISH)"] i'(2)
  have "filter (\<lambda>q. cmd_type q = PUBLISH) qs =
      filter (\<lambda>q. cmd_type q = PUBLISH) (take i qs) @ qs ! i # filter (\<lambda>q. cmd_type q = PUBLISH) (drop (Suc i) qs)" by simp
  with i show ?thesis by (simp add: drop_publish_def remove_nth_def)
qed

lemma add_publishes:
  assumes "MQTTAsync_addCommand e q st = Inr (rc, st')" "\<forall>n. aal e n" "\<not> persistence (handles st (q_client q))"
  shows "publishes m st' = publishes m st + (if q_client q = m \<and> cmd_type q = PUBLISH \<and> \<not> is_full (handles st (q_client q)) then 1 else 0)"
proof -
  let ?q = "stamped e q (handles st (q_client q))"
  note eff = addCommand_effect [OF assms, of m]
  show ?thesis
  proof (cases "q_client q = m \<and> cmd_type q = PUBLISH")
    case True
    then have "Suc (length (filter (\<lambda>q. cmd_type q = PUBLISH) (drop_publish (requests m st @ [?q])))) = Suc (publishes m st)"
      by (subst drop_publish_count [of ?q]) (simp_all add: publishes_requests)
    with eff True show ?thesis by (simp add: publishes_requests request_def)
  next
    case False
    with eff show ?thesis by (auto simp: publishes_requests request_def)
  qed
qed

lemma step_buffered:
  assumes "async_step st ev st'" "buffered_ok st"
  shows "buffered_ok st'"
  using assms
proof (induction rule: async_step.induct)
  case (add e q st rc st')
  note eff = add_publishes [OF add(1-3)] addCommand_effect [OF add(1-3)]
  show ?case unfolding buffered_ok_def
  proof
    fix m
    from add(4) have "noBufferedMessages (handles st m) = int (publishes m st)"
      "case m_createOptions (handles st m) of Some co \<Rightarrow> int (publishes m st) \<le> max 0 (maxBufferedMessages co) | None \<Rightarrow> True"
      by (simp_all add: buffered_ok_def)
    with eff(1) [of m] eff(2) [of m] show "noBufferedMessages (handles st' m) = int (publishes m st') \<and>
      (case m_createOptions (handles st' m) of Some co \<Rightarrow> int (publishes m st') \<le> max 0 (maxBufferedMessages co) | None \<Rightarrow> True)"
      by (cases "q_client q = m \<and> cmd_type q = PUBLISH") (auto simp: is_full_def split: option.splits if_splits)
  qed
next
  case (take al idle st q st')
  note eff = take_command_effect(4,5) [OF take(1,2)]
  show ?case unfolding buffered_ok_def
  proof
    fix m
    from take(3) have "noBufferedMessages (handles st m) = int (publishes m st)"
      "case m_createOptions (handles st m) of Some co \<Rightarrow> int (publishes m st) \<le> max 0 (maxBufferedMessages co) | None \<Rightarrow> True"
      by (simp_all add: buffered_ok_def)
    with eff(1) [of m] eff(2) show "noBufferedMessages (handles st' m) = int (publishes m st') \<and>
      (case m_createOptions (handles st' m) of Some co \<Rightarrow> int (publishes m st') \<le> max 0 (maxBufferedMessages co) | None \<Rightarrow> True)"
      by (cases "q_client q = m \<and> cmd_type q = PUBLISH") (auto split: option.splits if_splits)
  qed
next
  case (destroy h st k)
  have "publishes m (update_handle k (\<lambda>_. h) (snd (MQTTAsync_freeCommands k st))) = (if m = k then 0 else publishes m st)" for m
    by (auto simp: publishes_def MQTTAsync_freeCommands_def update_handle_def filter_empty_conv intro!: arg_cong [of _ _ length] filter_cong)
  with destroy show ?case by (auto simp: buffered_ok_def update_handle_def MQTTAsync_freeCommands_def split: option.splits)
next
  case (other st st')
  then have "publishes m st' = publishes m st" for m by (simp add: quiet_change_def publishes_def)
  with other show ?case by (simp add: buffered_ok_def quiet_change_def cong: option.case_cong)
qed

section \<open>No starvation\<close>

text \<open>
  Calls of \<^verbatim>\<open>MQTTAsync_processCommand\<close>, each after other threads changed the clients and queued more
  commands.
\<close>

fun serve ::
  "(int \<Rightarrow> bool) \<Rightarrow> ((int \<Rightarrow> bool) \<times> (nat \<Rightarrow> MQTTAsyncs) \<times> queued_command list) list \<Rightarrow> async_state \<Rightarrow> queued_command option list res" where
  "serve al [] st = Inr []"
| "serve al ((idle, hs, new) # xs) st =
     bindR (take_command al idle (st\<lparr>commands := commands st @ new, handles := hs\<rparr>)) (\<lambda>(q, st').
     bindR (serve al xs st') (\<lambda>qs. Inr (q # qs)))"

lemma leads_append: "leads qs i \<Longrightarrow> leads (qs @ new) i"
  by (auto simp: leads_def nth_append)

lemma leads_remove:
  assumes "leads qs i" "j < i"
  shows "leads (remove_nth j qs) (i - 1)" "remove_nth j qs ! (i - 1) = qs ! i"
  using assms by (auto simp: leads_def remove_nth_def nth_append min_def)

lemma take_command_bound:
  assumes "leads (commands st) i" "eligible idle (handles st) (commands st ! i)" "\<forall>n. al n"
  obtains j st' where "j \<le> i" "take_command al idle st = Inr (Some (commands st ! j), st')" "commands st' = remove_nth j (commands st)"
proof -
  have mal: "malloc_ok al 24" "malloc_ok al 40" using assms(3) by (simp_all add: malloc_ok_def PTRDIFF_MAX_def)
  note spec = select_command_spec [OF mal(1), where ok = "eligible idle (handles st)" and ign = "[]" and qs = "commands st"]
  from spec assms(1,2) obtain j where j: "select_command al (eligible idle (handles st)) [] (commands st) = Some j"
    by (auto split: option.splits)
  with spec assms(1,2) have "j \<le> i" by (auto simp: not_less [symmetric])
  with that j mal(2) show thesis by (auto simp: take_command_def Let_def update_handle_def)
qed

lemma serve_total: "\<forall>n. al n \<Longrightarrow> \<exists>qs. serve al xs st = Inr qs"
proof (induction xs arbitrary: st)
  case (Cons x xs)
  obtain idle hs new where x: "x = (idle, hs, new)" by (cases x)
  have "malloc_ok al 40" using Cons.prems by (simp add: malloc_ok_def PTRDIFF_MAX_def)
  then have "\<exists>q st'. take_command al idle (st\<lparr>commands := commands st @ new, handles := hs\<rparr>) = Inr (q, st')"
    by (simp add: take_command_def Let_def split: option.splits)
  then obtain q st' where "take_command al idle (st\<lparr>commands := commands st @ new, handles := hs\<rparr>) = Inr (q, st')" by blast
  with Cons x show ?case by (metis bindR_simps(2) serve.simps(2) split_conv)
qed simp

lemma serve_reaches:
  assumes "leads (commands st) i" "i < length xs" "\<forall>n. al n" "\<forall>(idle, hs, new) \<in> set xs. eligible idle hs (commands st ! i)"
  shows "\<exists>qs. serve al xs st = Inr qs \<and> Some (commands st ! i) \<in> set qs"
  using assms
proof (induction xs arbitrary: st i)
  case (Cons x xs)
  obtain idle hs new where x: "x = (idle, hs, new)" by (cases x)
  let ?st = "st\<lparr>commands := commands st @ new, handles := hs\<rparr>"
  have i: "i < length (commands st)" using Cons.prems(1) by (simp add: leads_def)
  have nth: "commands ?st ! i = commands st ! i" using i by (simp add: nth_append)
  have l: "leads (commands ?st) i" using Cons.prems(1) by (simp add: leads_append)
  from Cons.prems x nth have "eligible idle (handles ?st) (commands ?st ! i)" by simp
  from take_command_bound [OF l this Cons.prems(3)] obtain j st'
    where j: "j \<le> i" "take_command al idle ?st = Inr (Some (commands ?st ! j), st')" "commands st' = remove_nth j (commands ?st)" .
  show ?case
  proof (cases "j = i")
    case True
    from serve_total [OF Cons.prems(3)] obtain qs where "serve al xs st' = Inr qs" by blast
    with True j nth x show ?thesis by simp
  next
    case False
    with j have "j < i" by simp
    note moved = leads_remove [OF l this, folded j(3)]
    have same: "commands st' ! (i - 1) = commands st ! i" using moved(2) nth by simp
    have "\<exists>qs. serve al xs st' = Inr qs \<and> Some (commands st' ! (i - 1)) \<in> set qs"
      using moved(1) Cons.prems(2,3,4) \<open>j < i\<close> unfolding same by (intro Cons.IH [of st' "i - 1", unfolded same]) auto
    then show ?thesis using j(2) x same by auto
  qed
qed simp

section \<open>Properties of runs\<close>

text \<open>Concrete states for the witnesses: one connected client, and two messages published by it.\<close>

definition sample_connect :: queued_command where
  "sample_connect = \<lparr>q_client = 1, q_callbacks = no_callbacks, q_token = 0, q_context = 0, q_start_time = 3,
     q_properties = MQTTProperties_initializer, q_details = Conn_details 0 0, q_not_restored = False\<rparr>"

definition sample_handle :: "createOptions option \<Rightarrow> MQTTAsyncs" where
  "sample_handle co = \<lparr>m_c = new_client 4, m_createOptions = co, shouldBeConnected = True, noBufferedMessages = 0, responses = [],
     connect_state = NOT_IN_PROGRESS, maxInflightMessages = 10, sessionExpiry = 0, persistence = False, connectionLost = True,
     m_connect = sample_connect, m_disconnect = sample_connect, pending_write = None, serverURI = [0x68], serverURIs = [],
     websocket = False, automaticReconnect = True, minRetryInterval = 1, maxRetryInterval = 60, currentInterval = 0,
     currentIntervalBase = 0, lastConnectionFailedTime = 0, retrying = False, reconnectNow = False\<rparr>"

definition sample_async :: "createOptions option \<Rightarrow> async_state" where
  "sample_async co = \<lparr>commands = [], handles = (\<lambda>_. sample_handle co)\<rparr>"

definition sample_async_env :: async_env where
  "sample_async_env = \<lparr>aal = (\<lambda>_. True), clock = 3, cached = None, signal_rc = 0, persist_rc = 0\<rparr>"

definition sample_pub :: "int \<Rightarrow> queued_command" where
  "sample_pub tok = \<lparr>q_client = 1, q_callbacks = no_callbacks, q_token = tok, q_context = 0, q_start_time = 3,
     q_properties = MQTTProperties_initializer, q_details = Pub_details (Some [0x74]) (Some [0x31]) 1 0 0, q_not_restored = False\<rparr>"

definition one_message :: createOptions where
  "one_message = \<lparr>co_struct_version = 2, sendWhileDisconnected = True, maxBufferedMessages = 1, allowDisconnectedSendAtAnyTime = True,
     deleteOldestMessages = True, persistQoS0 = True\<rparr>"

lemmas sample_async_defs = sample_handle_def sample_async_def sample_async_env_def one_message_def

lemma sample_pub_simps [simp]:
  "q_client (sample_pub k) = 1" "cmd_type (sample_pub k) = PUBLISH" "request m (sample_pub k) = (m = 1)"
  "stamped sample_async_env (sample_pub k) h = sample_pub k" "q_token (sample_pub k) = k" "pub_qos (q_details (sample_pub k)) = 0"
  by (auto simp: sample_pub_def cmd_type_def details_type_def request_def stamped_def sample_async_env_def)

text \<open>
  C27: Requests are executed in the order in which they were queued. In any run of the library from an
  empty queue, the requests (publish, subscribe, unsubscribe) of a client that were executed so far
  followed by the ones still queued are a subsequence of the ones it queued: nothing is executed twice,
  or before an earlier request. If the client was created without options, so that no limit on buffered
  messages applies, and is not destroyed, then none is lost either.
\<close>
theorem async_requests_in_order:
  assumes "async_run st0 evs st" "commands st0 = []"
  shows "subseq (executed m evs @ requests m st) (queued m evs) \<and>
    (m_createOptions (handles st0 m) = None \<and> Destroyed m \<notin> set evs \<longrightarrow> executed m evs @ requests m st = queued m evs)"
proof -
  have "subseq (executed m evs @ requests m st) (queued m evs) \<and> (m_createOptions (handles st0 m) = None \<and> Destroyed m \<notin> set evs \<longrightarrow>
      executed m evs @ requests m st = queued m evs \<and> m_createOptions (handles st m) = None)"
    using assms
  proof (induction rule: async_run.induct)
    case (start st)
    then show ?case by (simp add: requests_def)
  next
    case (continue st0 evs st' ev st'')
    note step = step_requests [OF continue(2), of m]
    from continue have IH: "subseq (executed m evs @ requests m st') (queued m evs)" by blast
    have "subseq (executed m evs @ took_of m ev @ requests m st'') (executed m evs @ requests m st' @ queued_of m ev)"
      using step(1) by (simp add: subseq_append')
    moreover have "subseq (executed m evs @ requests m st' @ queued_of m ev) (queued m evs @ queued_of m ev)"
      using IH subseq_append [of "executed m evs @ requests m st'" "queued_of m ev"] by simp
    ultimately show ?case using subseq_order.order_trans continue step(2) by auto
  qed
  then show ?thesis by blast
qed

definition after_two :: "createOptions option \<Rightarrow> async_state" where
  "after_two co = \<lparr>commands = (if co = None then [sample_pub 1, sample_pub 2] else [sample_pub 2]),
     handles = (\<lambda>m. sample_handle co)(1 := (sample_handle co)\<lparr>noBufferedMessages := (if co = None then 2 else 1)\<rparr>)\<rparr>"

lemma run_two: "async_step st e1 st' \<Longrightarrow> async_step st' e2 st'' \<Longrightarrow> async_run st [e1, e2] st''"
  using continue [OF continue [OF start], of st e1 st' e2 st''] by simp

lemma sample_two:
  assumes "co \<in> {None, Some one_message}"
  shows "async_run (sample_async co) [Queued (sample_pub 1), Queued (sample_pub 2)] (after_two co)"
proof -
  let ?mid = "\<lparr>commands = [sample_pub 1], handles = (\<lambda>m. sample_handle co)(1 := (sample_handle co)\<lparr>noBufferedMessages := 1\<rparr>)\<rparr>"
  have al: "\<forall>n. aal sample_async_env n" and mal: "malloc_ok (aal sample_async_env) 24" and sig: "signal_rc sample_async_env = 0"
    by (simp_all add: sample_async_env_def malloc_ok_def PTRDIFF_MAX_def)
  note run = MQTTAsync_addCommand_def Let_def persist_queued_def buffer_publish_def update_handle_def sample_handle_def sample_async_def
    mal sig one_message_def first_publish_def remove_nth_def
  have "MQTTAsync_addCommand sample_async_env (sample_pub 1) (sample_async co) = Inr (0, ?mid)"
    using assms by (auto simp: run)
  then have 1: "async_step (sample_async co) (Queued (sample_pub 1)) ?mid"
    using add [OF _ al, of "sample_pub 1" "sample_async co"] by (simp add: sample_async_def sample_handle_def)
  have "MQTTAsync_addCommand sample_async_env (sample_pub 2) ?mid = Inr (0, after_two co)"
    using assms by (auto simp: run after_two_def)
  then have "async_step ?mid (Queued (sample_pub 2)) (after_two co)"
    using add [OF _ al, of "sample_pub 2" ?mid] by (simp add: sample_handle_def)
  with 1 show ?thesis by (rule run_two)
qed

lemma sample_take:
  "async_step (after_two None) (Took (sample_pub 1))
     ((after_two None)\<lparr>commands := [sample_pub 2], handles := (\<lambda>m. sample_handle None)(1 := (sample_handle None)\<lparr>noBufferedMessages := 1\<rparr>)\<rparr>)"
proof (rule take [of "\<lambda>_. True" "\<lambda>_. True"])
  show "take_command (\<lambda>_. True) (\<lambda>_. True) (after_two None) = Inr (Some (sample_pub 1),
      (after_two None)\<lparr>commands := [sample_pub 2], handles := (\<lambda>m. sample_handle None)(1 := (sample_handle None)\<lparr>noBufferedMessages := 1\<rparr>)\<rparr>)"
    by (simp add: take_command_def malloc_ok_def PTRDIFF_MAX_def after_two_def eligible_def Let_def sample_handle_def MAX_MSG_ID_def
      update_handle_def remove_nth_def)
qed simp

theorem async_requests_in_order_witness:
  "\<exists>st. async_run (sample_async None) ([Queued (sample_pub 1), Queued (sample_pub 2)] @ [Took (sample_pub 1)]) st \<and>
     [sample_pub 1] @ requests 1 st = [sample_pub 1, sample_pub 2]"
proof -
  let ?st = "(after_two None)\<lparr>commands := [sample_pub 2], handles := (\<lambda>m. sample_handle None)(1 := (sample_handle None)\<lparr>noBufferedMessages := 1\<rparr>)\<rparr>"
  have run: "async_run (sample_async None) ([Queued (sample_pub 1), Queued (sample_pub 2)] @ [Took (sample_pub 1)]) ?st"
    by (rule continue [OF sample_two sample_take]) simp
  have "commands (sample_async None) = []" "m_createOptions (handles (sample_async None) 1) = None"
    by (simp_all add: sample_async_def sample_handle_def)
  with async_requests_in_order [OF run, of 1] run show ?thesis by (auto simp: executed_def queued_def)
qed

text \<open>
  C29: In every run the count \<^verbatim>\<open>noBufferedMessages\<close> of a client is the number of its messages in the queue, and
  never exceeds the limit \<^verbatim>\<open>maxBufferedMessages\<close> of its options.
\<close>
theorem async_buffered_count:
  assumes "async_run st0 evs st" "buffered_ok st0"
  shows "buffered_ok st"
  using assms by (induction rule: async_run.induct) (auto intro: step_buffered)

theorem async_buffered_count_witness:
  "buffered_ok (after_two (Some one_message)) \<and> noBufferedMessages (handles (after_two (Some one_message)) 1) = 1"
proof -
  have "buffered_ok (sample_async (Some one_message))"
    by (simp add: buffered_ok_def sample_async_def sample_handle_def publishes_def one_message_def)
  with async_buffered_count [OF sample_two] have "buffered_ok (after_two (Some one_message))" by blast
  then show ?thesis by (simp add: after_two_def)
qed

text \<open>
  C30: A command is not starved. If it is the first of its client and can be executed whenever the sending
  thread looks for a command, it is executed after at most as many other commands as stand before it, whatever
  happens to the other clients and whatever is queued behind it meanwhile.
\<close>
theorem async_no_starvation:
  assumes "leads (commands st) i" "i < length calls" "\<forall>n. al n" "\<forall>(idle, hs, new) \<in> set calls. eligible idle hs (commands st ! i)"
  shows "\<exists>qs. serve al calls st = Inr qs \<and> Some (commands st ! i) \<in> set qs"
  by (rule serve_reaches [OF assms])

theorem async_no_starvation_witness:
  "\<exists>qs. serve (\<lambda>_. True) [(\<lambda>_. True, \<lambda>_. sample_handle None, [sample_pub 2])]
     ((sample_async None)\<lparr>commands := [sample_pub 1]\<rparr>) = Inr qs \<and> Some (sample_pub 1) \<in> set qs"
  using async_no_starvation [of "(sample_async None)\<lparr>commands := [sample_pub 1]\<rparr>" 0 "[(\<lambda>_. True, \<lambda>_. sample_handle None, [sample_pub 2])]" "\<lambda>_. True"]
  by (simp add: leads_def eligible_def Let_def sample_handle_def MAX_MSG_ID_def)

end
