(* ===== verification/Async_Calls.thy ===== *)
theory Async_Calls
  imports Async_Runs
begin

text \<open>
  The calls of \<^verbatim>\<open>MQTTAsync.c\<close> that an application makes, next to the ones of \<open>Async_Queue\<close>: disconnecting,
  reconnecting, and asking what is still pending. The calls that queue a command share the interface
  \<open>queueing_call\<close>; each is interpreted on its definition, so that the results on runs of the queue apply
  to the calls.
\<close>

section \<open>Disconnecting and reconnecting\<close>

record disconnectOptions =
  do_valid :: bool
  do_struct_version :: int
  do_timeout :: int
  do_callbacks :: callbacks
  do_context :: int
  do_properties :: MQTTProperties
  do_reasonCode :: int

definition disconnectOptions_initializer :: disconnectOptions where
  "disconnectOptions_initializer = \<lparr>do_valid = True, do_struct_version = 0, do_timeout = 0, do_callbacks = no_callbacks, do_context = 0,
     do_properties = MQTTProperties_initializer, do_reasonCode = 0\<rparr>"

text \<open>The command that \<^verbatim>\<open>MQTTAsync_disconnect1\<close> fills in.\<close>

definition disconnect_command :: "async_env \<Rightarrow> int \<Rightarrow> nat \<Rightarrow> disconnectOptions option \<Rightarrow> bool \<Rightarrow> queued_command res" where
  "disconnect_command e version m options internal =
     (let q = \<lparr>q_client = m, q_callbacks = no_callbacks, q_token = 0, q_context = 0, q_start_time = 0,
        q_properties = MQTTProperties_initializer, q_details = Dis_details internal 0 0, q_not_restored = False\<rparr> in
      case options of
        None \<Rightarrow> Inr q
      | Some d \<Rightarrow>
          let q1 = q\<lparr>q_callbacks := do_callbacks d, q_context := do_context d, q_details := Dis_details internal (do_timeout d) 0\<rparr> in
          if 5 \<le> version \<and> 1 \<le> do_struct_version d then
            bindR (MQTTProperties_copy (aal e) (do_properties d)) (\<lambda>ps.
              Inr (q1\<lparr>q_properties := ps, q_details := Dis_details internal (do_timeout d) (do_reasonCode d)\<rparr>))
          else Inr q1)"

definition MQTTAsync_disconnect1 ::
  "async_env \<Rightarrow> nat option \<Rightarrow> disconnectOptions option \<Rightarrow> bool \<Rightarrow> async_state \<Rightarrow> (int \<times> async_state) res" where
  "MQTTAsync_disconnect1 e handle options internal st =
     (case handle of
        None \<Rightarrow> Inr (MQTTASYNC_FAILURE, st)
      | Some m \<Rightarrow>
          let st1 = (if internal then st else update_handle m (\<lambda>h. h\<lparr>shouldBeConnected := False\<rparr>) st) in
          if \<not> connected (m_c (handles st1 m)) then Inr (MQTTASYNC_DISCONNECTED, st1)
          else if \<not> malloc_ok (aal e) 168 then Inr (PAHO_MEMORY_ERROR, st1)
          else bindR (disconnect_command e (MQTTVersion (m_c (handles st1 m))) m options internal) (\<lambda>q. MQTTAsync_addCommand e q st1))"

definition MQTTAsync_disconnect_internal :: "async_env \<Rightarrow> nat option \<Rightarrow> int \<Rightarrow> async_state \<Rightarrow> (int \<times> async_state) res" where
  "MQTTAsync_disconnect_internal e handle timeout st =
     MQTTAsync_disconnect1 e handle (Some (disconnectOptions_initializer\<lparr>do_timeout := timeout\<rparr>)) True st"

definition MQTTAsync_disconnect ::
  "async_env \<Rightarrow> nat option \<Rightarrow> disconnectOptions option \<Rightarrow> async_state \<Rightarrow> (int \<times> async_state) res" where
  "MQTTAsync_disconnect e handle options st =
     (case options of
        Some d \<Rightarrow>
          if \<not> do_valid d \<or> do_struct_version d < 0 \<or> 1 < do_struct_version d then Inr (MQTTASYNC_BAD_STRUCTURE, st)
          else MQTTAsync_disconnect1 e handle options False st
      | None \<Rightarrow> MQTTAsync_disconnect1 e handle options False st)"

definition MQTTAsync_isConnected :: "nat option \<Rightarrow> async_state \<Rightarrow> bool" where
  "MQTTAsync_isConnected handle st = (case handle of None \<Rightarrow> False | Some m \<Rightarrow> connected (m_c (handles st m)))"

text \<open>The stored connect command, with the attempts at protocol versions restarted.\<close>

definition connect_command :: "nat \<Rightarrow> MQTTAsyncs \<Rightarrow> queued_command" where
  "connect_command m h =
     (let q = (m_connect h)\<lparr>q_client := m, q_not_restored := False\<rparr> in
      if MQTTVersion (m_c h) = 0 then q\<lparr>q_details := Conn_details (currentURI (q_details q)) 0\<rparr> else q)"

definition MQTTAsync_reconnect :: "async_env \<Rightarrow> nat option \<Rightarrow> async_state \<Rightarrow> (int \<times> async_state) res" where
  "MQTTAsync_reconnect e handle st =
     (case handle of
        None \<Rightarrow> Inl NullDeref
      | Some m \<Rightarrow>
          let h = handles st m in
          if automaticReconnect h then
            if shouldBeConnected h then
              Inr (MQTTASYNC_SUCCESS, update_handle m (\<lambda>h. let h1 = h\<lparr>reconnectNow := True\<rparr> in
                if \<not> retrying h1 then h1\<lparr>currentIntervalBase := minRetryInterval h1, currentInterval := minRetryInterval h1, retrying := True\<rparr>
                else h1) st)
            else Inr (MQTTASYNC_FAILURE, st)
          else if \<not> malloc_ok (aal e) 168 then Inr (PAHO_MEMORY_ERROR, st)
          else MQTTAsync_addCommand e (connect_command m h) st)"

section \<open>What is pending\<close>

definition client_commands :: "nat \<Rightarrow> async_state \<Rightarrow> queued_command list" where
  "client_commands m st = filter (\<lambda>q. q_client q = m) (commands st)"

text \<open>The tokens are followed by \<open>-1\<close>; \<open>None\<close> is the null pointer.\<close>

definition MQTTAsync_getPendingTokens :: "async_env \<Rightarrow> nat option \<Rightarrow> async_state \<Rightarrow> int \<times> int list option" where
  "MQTTAsync_getPendingTokens e handle st =
     (case handle of
        None \<Rightarrow> (MQTTASYNC_FAILURE, None)
      | Some m \<Rightarrow>
          let qs = client_commands m st; out = outboundMsgs (m_c (handles st m)); n = length qs + length out in
          if n = 0 then (MQTTASYNC_SUCCESS, None)
          else if \<not> malloc_ok (aal e) (4 * (int n + 1)) then (PAHO_MEMORY_ERROR, None)
          else (MQTTASYNC_SUCCESS, Some (map q_token qs @ map m_msgid out @ [- 1])))"

definition MQTTAsync_isComplete :: "nat option \<Rightarrow> int \<Rightarrow> async_state \<Rightarrow> int" where
  "MQTTAsync_isComplete handle dt st =
     (case handle of
        None \<Rightarrow> MQTTASYNC_FAILURE
      | Some m \<Rightarrow>
          if list_ex (\<lambda>q. q_client q = m \<and> q_token q = dt) (commands st) then MQTTASYNC_SUCCESS
          else if list_ex (\<lambda>x. m_msgid x = dt) (outboundMsgs (m_c (handles st m))) then MQTTASYNC_SUCCESS
          else MQTTASYNC_TRUE)"

text \<open>
  \<^verbatim>\<open>MQTTAsync_waitForCompletion\<close>: a round is the state after the sleep, the state in which the connection is
  read, and the time that has passed then. The first two checks see the states \<open>st\<close> and \<open>st'\<close>. \<open>None\<close> means
  that the call is still waiting.
\<close>

fun wait_rounds :: "nat \<Rightarrow> int \<Rightarrow> int \<Rightarrow> int \<Rightarrow> (async_state \<times> async_state \<times> int) list \<Rightarrow> int option" where
  "wait_rounds m dt timeout elapsed rounds =
     (if \<not> elapsed < timeout then Some MQTTASYNC_FAILURE
      else
        (case rounds of
           [] \<Rightarrow> None
         | (st1, st2, elapsed') # rest \<Rightarrow>
             if \<not> connected (m_c (handles st2 m)) then Some MQTTASYNC_DISCONNECTED
             else if MQTTAsync_isComplete (Some m) dt st1 = 1 then Some MQTTASYNC_SUCCESS
             else wait_rounds m dt timeout elapsed' rest))"

declare wait_rounds.simps [simp del]

definition MQTTAsync_waitForCompletion ::
  "nat option \<Rightarrow> int \<Rightarrow> int \<Rightarrow> async_state \<Rightarrow> async_state \<Rightarrow> int \<Rightarrow> (async_state \<times> async_state \<times> int) list \<Rightarrow> int option" where
  "MQTTAsync_waitForCompletion handle dt timeout st st' elapsed rounds =
     (case handle of
        None \<Rightarrow> Some MQTTASYNC_FAILURE
      | Some m \<Rightarrow>
          if \<not> connected (m_c (handles st m)) then Some MQTTASYNC_DISCONNECTED
          else if MQTTAsync_isComplete handle dt st' = 1 then Some MQTTASYNC_SUCCESS
          else wait_rounds m dt timeout elapsed rounds)"

section \<open>The interface of the calls that queue a command\<close>

text \<open>
  A call may change what is not part of the queue, such as the last message id, and then queues at most one
  command.
\<close>

locale queueing_call =
  fixes call :: "async_env \<Rightarrow> async_state \<Rightarrow> (int \<times> async_state) res option"
  assumes one_command: "call e st = Some (Inr (rc, st')) \<Longrightarrow>
    \<exists>st1. quiet_change st st1 \<and> (st' = st1 \<or> (\<exists>q. MQTTAsync_addCommand e q st1 = Inr (rc, st')))"
begin

lemma refused:
  assumes "call e st = Some (Inr (rc, st'))" "rc \<noteq> signal_rc e"
  shows "quiet_change st st'"
proof -
  have "rc = signal_rc e" if "MQTTAsync_addCommand e q st1 = Inr (rc, st')" for q st1
    using that by (auto simp: MQTTAsync_addCommand_def Let_def res_simps split: if_splits)
  with one_command [OF assms(1)] assms(2) show ?thesis by blast
qed

lemma is_run:
  assumes "call e st = Some (Inr (rc, st'))" "\<forall>n. aal e n" "\<forall>m. \<not> persistence (handles st m)"
  shows "\<exists>evs. async_run st evs st'"
proof -
  from one_command [OF assms(1)] obtain st1 where st1: "quiet_change st st1"
    and "st' = st1 \<or> (\<exists>q. MQTTAsync_addCommand e q st1 = Inr (rc, st'))" by blast
  then consider "st' = st1" | q where "MQTTAsync_addCommand e q st1 = Inr (rc, st')" by blast
  then show ?thesis
  proof cases
    case 1
    with st1 continue [OF start other] show ?thesis by blast
  next
    case 2
    have "\<not> persistence (handles st1 (q_client q))" using st1 assms(3) by (simp add: quiet_change_def)
    with run_two [OF other [OF st1] add [OF 2 assms(2)]] show ?thesis by blast
  qed
qed

lemma keeps_count:
  assumes "call e st = Some (Inr (rc, st'))" "\<forall>n. aal e n" "\<forall>m. \<not> persistence (handles st m)" "buffered_ok st"
  shows "buffered_ok st'"
proof -
  obtain evs where "async_run st evs st'" using is_run assms by blast
  then show ?thesis using assms(4) by (induction rule: async_run.induct) (auto intro: step_buffered)
qed

end

text \<open>The calls, without the token they return.\<close>

definition without_token :: "call_result option \<Rightarrow> (int \<times> async_state) res option" where
  "without_token r = map_option (map_sum id (\<lambda>((rc, _), st'). (rc, st'))) r"

lemma without_token_Some: "without_token r = Some (Inr (rc, st')) \<longleftrightarrow> (\<exists>response. r = Some (Inr ((rc, response), st')))"
  by (auto simp: without_token_def map_sum_def split: sum.splits) (metis sum.exhaust surj_pair)

lemma without_token_I: "r = Some (Inr ((rc, response), st')) \<Longrightarrow> without_token r = Some (Inr (rc, st'))"
  by (simp add: without_token_def)

lemma Some_cong: "r = x \<Longrightarrow> Some r = Some x"
  by simp

lemma quiet_refl [simp]: "quiet_change st st"
  by (simp add: quiet_change_def)

lemma assignMsgId_quiet: "MQTTAsync_assignMsgId m st = Some (msgid, st') \<Longrightarrow> quiet_change st st'"
  by (auto simp: MQTTAsync_assignMsgId_def Let_def quiet_change_def update_handle_def split: if_splits)

lemma queue_publish_shape:
  "queue_publish e m dest payload qos retained response msgid st = Inr ((rc, r), st') \<Longrightarrow>
    st' = st \<or> (\<exists>q. MQTTAsync_addCommand e q st = Inr (rc, st'))"
  by (auto simp: queue_publish_def res_simps split: if_splits)

lemma queue_subscribe_shape:
  "queue_subscribe e m topics qos response msgid st = Inr ((rc, r), st') \<Longrightarrow>
    st' = st \<or> (\<exists>q. MQTTAsync_addCommand e q st = Inr (rc, st'))"
  by (auto simp: queue_subscribe_def Let_def res_simps split: if_splits)

lemma queue_unsubscribe_shape:
  "queue_unsubscribe e m topics response msgid st = Inr ((rc, r), st') \<Longrightarrow>
    st' = st \<or> (\<exists>q. MQTTAsync_addCommand e q st = Inr (rc, st'))"
  by (auto simp: queue_unsubscribe_def res_simps split: if_splits)

interpretation send_call: queueing_call "\<lambda>e st. without_token (MQTTAsync_send e handle destinationName payload qos retained response st)"
  for handle destinationName payload qos retained response
proof
  fix e st rc st'
  assume "without_token (MQTTAsync_send e handle destinationName payload qos retained response st) = Some (Inr (rc, st'))"
  then obtain r where "MQTTAsync_send e handle destinationName payload qos retained response st = Some (Inr ((rc, r), st'))"
    by (auto simp: without_token_Some)
  then show "\<exists>st1. quiet_change st st1 \<and> (st' = st1 \<or> (\<exists>q. MQTTAsync_addCommand e q st1 = Inr (rc, st')))"
    by (auto simp: MQTTAsync_send_def split: option.splits if_splits sum.splits dest!: assignMsgId_quiet queue_publish_shape
      intro: quiet_refl)
qed

interpretation subscribe_call: queueing_call "\<lambda>e st. without_token (MQTTAsync_subscribeMany e handle topics qos response st)"
  for handle topics qos response
proof
  fix e st rc st'
  assume "without_token (MQTTAsync_subscribeMany e handle topics qos response st) = Some (Inr (rc, st'))"
  then obtain r where "MQTTAsync_subscribeMany e handle topics qos response st = Some (Inr ((rc, r), st'))"
    by (auto simp: without_token_Some)
  then show "\<exists>st1. quiet_change st st1 \<and> (st' = st1 \<or> (\<exists>q. MQTTAsync_addCommand e q st1 = Inr (rc, st')))"
    by (auto simp: MQTTAsync_subscribeMany_def Let_def res_simps split: option.splits if_splits sum.splits
      dest!: assignMsgId_quiet queue_subscribe_shape intro: quiet_refl)
qed

interpretation unsubscribe_call: queueing_call "\<lambda>e st. without_token (MQTTAsync_unsubscribeMany e handle topics response st)"
  for handle topics response
proof
  fix e st rc st'
  assume "without_token (MQTTAsync_unsubscribeMany e handle topics response st) = Some (Inr (rc, st'))"
  then obtain r where "MQTTAsync_unsubscribeMany e handle topics response st = Some (Inr ((rc, r), st'))"
    by (auto simp: without_token_Some)
  then show "\<exists>st1. quiet_change st st1 \<and> (st' = st1 \<or> (\<exists>q. MQTTAsync_addCommand e q st1 = Inr (rc, st')))"
    by (auto simp: MQTTAsync_unsubscribeMany_def split: option.splits if_splits sum.splits
      dest!: assignMsgId_quiet queue_unsubscribe_shape intro: quiet_refl)
qed

interpretation disconnect_call: queueing_call "\<lambda>e st. Some (MQTTAsync_disconnect1 e handle options internal st)"
  for handle options internal
proof
  fix e st rc st'
  assume "Some (MQTTAsync_disconnect1 e handle options internal st) = Some (Inr (rc, st'))"
  moreover have "quiet_change st (update_handle m (\<lambda>h. h\<lparr>shouldBeConnected := False\<rparr>) st)" for m
    by (simp add: quiet_change_def update_handle_def)
  ultimately show "\<exists>st1. quiet_change st st1 \<and> (st' = st1 \<or> (\<exists>q. MQTTAsync_addCommand e q st1 = Inr (rc, st')))"
    by (auto simp: MQTTAsync_disconnect1_def Let_def res_simps split: option.splits if_splits intro: quiet_refl)
qed

interpretation reconnect_call: queueing_call "\<lambda>e st. Some (MQTTAsync_reconnect e handle st)"
  for handle
proof
  fix e st rc st'
  assume "Some (MQTTAsync_reconnect e handle st) = Some (Inr (rc, st'))"
  then have "quiet_change st st' \<or> (\<exists>q. MQTTAsync_addCommand e q st = Inr (rc, st'))"
    by (auto simp: MQTTAsync_reconnect_def Let_def quiet_change_def update_handle_def split: option.splits if_splits)
  then show "\<exists>st1. quiet_change st st1 \<and> (st' = st1 \<or> (\<exists>q. MQTTAsync_addCommand e q st1 = Inr (rc, st')))"
    using quiet_refl by blast
qed

section \<open>Properties of the calls\<close>

text \<open>
  A call that is refused leaves the queue alone. Whenever sending, subscribing, unsubscribing,
  disconnecting or reconnecting returns a code other than the result of signalling the sending thread, no command
  of any client was added, removed or reordered, and no count of buffered messages changed.
\<close>
theorem refused_calls_quiet:
  assumes "rc \<noteq> signal_rc e"
    and "MQTTAsync_send e handle destinationName payload qos retained response st = Some (Inr ((rc, r), st')) \<or>
      MQTTAsync_subscribeMany e handle topics qoss response st = Some (Inr ((rc, r), st')) \<or>
      MQTTAsync_unsubscribeMany e handle topics response st = Some (Inr ((rc, r), st')) \<or>
      MQTTAsync_disconnect1 e handle options internal st = Inr (rc, st') \<or> MQTTAsync_reconnect e handle st = Inr (rc, st')"
  shows "quiet_change st st'"
  using assms(2)
  by (elim disjE) (blast intro: send_call.refused [OF without_token_I assms(1)] subscribe_call.refused [OF without_token_I assms(1)]
    unsubscribe_call.refused [OF without_token_I assms(1)] disconnect_call.refused [OF Some_cong assms(1)] reconnect_call.refused [OF Some_cong assms(1)])+

lemma strncpy_whole: "strncpy_loop (Suc (length src)) src acc = acc @ src"
  by (induction src arbitrary: acc) auto

lemma MQTTStrdup_copies: "malloc_ok al (int (length src) + 1) \<Longrightarrow> MQTTStrdup al src = Inr (Some src)"
  by (simp add: MQTTStrdup_def MQTTStrncpy_def strncpy_whole)

lemma id_used_queued: "q \<in> set (commands st) \<Longrightarrow> q_token q = x \<Longrightarrow> id_used st m x"
  by (auto simp: id_used_def cmdMessageIDCompare_def list_ex_iff)

lemma assignMsgId_result:
  assumes "0 \<le> msgID (m_c (handles st m))" "msgID (m_c (handles st m)) \<le> 65535"
    and "1 \<le> y" "y \<le> 65535" "y \<noteq> msgID (m_c (handles st m))" "\<not> id_used st m y"
  obtains x where "1 \<le> x" "x \<le> 65535" "\<not> id_used st m x"
    "MQTTAsync_assignMsgId m st = Some (x, update_handle m (\<lambda>h. h\<lparr>m_c := (m_c h)\<lparr>msgID := x\<rparr>\<rparr>) st)"
proof -
  have "\<not> {x \<in> {1..65535}. \<not> id_used st m x} \<subseteq> {msgID (m_c (handles st m))}" using assms(3-) by auto
  with search_id_result [OF assms(1,2), of "id_used st m"] obtain x where
    "x \<in> {1..65535}" "\<not> id_used st m x" "search_id (id_used st m) (msgID (m_c (handles st m))) (next_id (msgID (m_c (handles st m)))) = Some x"
    by (auto split: if_splits)
  with that [of x] show thesis by (simp add: MQTTAsync_assignMsgId_def Let_def)
qed

lemma addCommand_room:
  assumes "cmd_type q = PUBLISH" "q_client q = m" "\<not> is_full (handles st m)" "\<not> persistence (handles st m)"
    "noBufferedMessages (handles st m) < 2 ^ 31 - 1" "malloc_ok (aal e) 24"
  shows "MQTTAsync_addCommand e q st = Inr (signal_rc e,
    update_handle m (\<lambda>h. h\<lparr>noBufferedMessages := noBufferedMessages h + 1\<rparr>) (st\<lparr>commands := commands st @ [q\<lparr>q_start_time := clock e\<rparr>]\<rparr>))"
proof -
  have "stamped e q (handles st m) = q\<lparr>q_start_time := clock e\<rparr>" "cmd_type (q\<lparr>q_start_time := clock e\<rparr>) = PUBLISH"
    using assms(1) by (simp_all add: stamped_def cmd_type_def)
  with assms show ?thesis
    by (simp add: MQTTAsync_addCommand_def Let_def persist_queued_def buffer_publish_def is_full_def [symmetric])
qed

text \<open>
  A message that is accepted is queued as it was given. If sending is allowed, the topic is valid UTF-8,
  there is room in the buffer, memory is available and a message id is free, then \<^verbatim>\<open>MQTTAsync_send\<close> with QoS 1 or 2
  and without response options appends to the queue, behind the earlier requests of the client, a command with the
  given topic, payload, QoS and retained flag, under an id between 1 and 65535 that no queued command, message in
  flight or awaited response uses; the message is then reported as pending under that token.
\<close>
theorem send_queues:
  fixes st :: async_state
  assumes "may_send (handles st m)" "UTF8_validateString (Some dest) = Inr v" "v \<noteq> 0" "qos = 1 \<or> qos = 2"
    and mem: "\<forall>n. aal e n" "int (length dest) + 1 \<le> PTRDIFF_MAX" "int (length payload) \<le> PTRDIFF_MAX"
    and "0 \<le> msgID (m_c (handles st m))" "msgID (m_c (handles st m)) \<le> 65535"
    and free: "1 \<le> y" "y \<le> 65535" "y \<noteq> msgID (m_c (handles st m))" "\<not> id_used st m y"
    and room: "\<not> is_full (handles st m)" "noBufferedMessages (handles st m) < 2 ^ 31 - 1"
    and "\<not> persistence (handles st m)"
  shows "\<exists>x st' q. MQTTAsync_send e (Some m) dest payload qos retained None st = Some (Inr ((signal_rc e, None), st')) \<and>
    1 \<le> x \<and> x \<le> 65535 \<and> \<not> id_used st m x \<and> commands st' = commands st @ [q] \<and>
    q_client q = m \<and> q_token q = x \<and> q_details q = Pub_details (Some dest) (Some payload) (int (length payload)) qos retained \<and>
    MQTTAsync_isComplete (Some m) x st' = MQTTASYNC_SUCCESS"
proof -
  obtain x where x: "1 \<le> x" "x \<le> 65535" "\<not> id_used st m x"
    and as: "MQTTAsync_assignMsgId m st = Some (x, update_handle m (\<lambda>h. h\<lparr>m_c := (m_c h)\<lparr>msgID := x\<rparr>\<rparr>) st)"
    using assignMsgId_result [OF assms(8,9) free] .
  let ?st1 = "update_handle m (\<lambda>h. h\<lparr>m_c := (m_c h)\<lparr>msgID := x\<rparr>\<rparr>) st"
  let ?q = "\<lparr>q_client = m, q_callbacks = no_callbacks, q_token = x, q_context = 0, q_start_time = 0, q_properties = MQTTProperties_initializer,
    q_details = Pub_details (Some dest) (Some payload) (int (length payload)) qos retained, q_not_restored = False\<rparr>"
  have mal: "malloc_ok (aal e) 168" "malloc_ok (aal e) 24" "malloc_ok (aal e) (int (length dest) + 1)" "malloc_ok (aal e) (int (length payload))"
    using mem by (simp_all add: malloc_ok_def PTRDIFF_MAX_def)
  have h: "handles ?st1 m = (handles st m)\<lparr>m_c := (m_c (handles st m))\<lparr>msgID := x\<rparr>\<rparr>" by (simp add: update_handle_def)
  have ok: "\<not> refuses_newest (handles ?st1 m)" "\<not> is_full (handles ?st1 m)" "\<not> persistence (handles ?st1 m)"
    "noBufferedMessages (handles ?st1 m) < 2147483647"
    using room assms(16) by (auto simp: h refuses_newest_def is_full_def split: option.splits)
  have "cmd_type ?q = PUBLISH" "q_client ?q = m" by (simp_all add: cmd_type_def details_type_def)
  from addCommand_room [OF this ok(2,3) _ mal(2)] ok(4) obtain st'
    where add: "MQTTAsync_addCommand e ?q ?st1 = Inr (signal_rc e, st')" "commands st' = commands st @ [?q\<lparr>q_start_time := clock e\<rparr>]"
    by (simp add: update_handle_def)
  have "queue_publish e m dest payload qos retained None x ?st1 = Inr ((signal_rc e, None), st')"
    using mal add by (simp add: queue_publish_def MQTTStrdup_copies new_command_def Let_def return_token_def)
  with assms(1-4) as ok(1) x have "MQTTAsync_send e (Some m) dest payload qos retained None st = Some (Inr ((signal_rc e, None), st'))"
    by (auto simp: MQTTAsync_send_def bad_callbacks_def)
  moreover have "MQTTAsync_isComplete (Some m) x st' = MQTTASYNC_SUCCESS"
    using add(2) by (simp add: MQTTAsync_isComplete_def)
  ultimately show ?thesis using x add(2) by (intro exI [of _ x] exI [of _ st'] exI [of _ "?q\<lparr>q_start_time := clock e\<rparr>"]) simp
qed

lemma malloc_all: "\<forall>n. al n \<Longrightarrow> 0 \<le> n \<Longrightarrow> n \<le> PTRDIFF_MAX \<Longrightarrow> malloc_ok al n"
  by (simp add: malloc_ok_def PTRDIFF_MAX_def)

text \<open>
  \<^verbatim>\<open>MQTTAsync_isComplete\<close> and \<^verbatim>\<open>MQTTAsync_getPendingTokens\<close> agree: a token is reported as complete exactly when
  it is not in the list of pending tokens, before its end marker; no list means that nothing is pending.
\<close>
theorem complete_iff_not_pending:
  assumes "\<forall>n. aal e n" "4 * (int (length (client_commands m st) + length (outboundMsgs (m_c (handles st m)))) + 1) \<le> PTRDIFF_MAX"
  shows "MQTTAsync_isComplete (Some m) dt st =
    (case MQTTAsync_getPendingTokens e (Some m) st of
       (rc, None) \<Rightarrow> MQTTASYNC_TRUE
     | (rc, Some toks) \<Rightarrow> if dt \<in> set (butlast toks) then MQTTASYNC_SUCCESS else MQTTASYNC_TRUE)"
proof -
  let ?qs = "client_commands m st" and ?out = "outboundMsgs (m_c (handles st m))"
  have "MQTTAsync_isComplete (Some m) dt st = (if dt \<in> set (map q_token ?qs @ map m_msgid ?out) then MQTTASYNC_SUCCESS else MQTTASYNC_TRUE)"
    by (auto simp: MQTTAsync_isComplete_def client_commands_def list_ex_iff)
  moreover have "butlast (map q_token ?qs @ map m_msgid ?out @ [- 1]) = map q_token ?qs @ map m_msgid ?out"
    by (simp add: butlast_append)
  moreover have "malloc_ok (aal e) (4 * (int (length ?qs + length ?out) + 1))"
    using assms by (intro malloc_all) simp_all
  ultimately show ?thesis by (auto simp: MQTTAsync_getPendingTokens_def Let_def)
qed

text \<open>
  Waiting: success means that the token was complete in a state that was observed; the call gives up once
  the timeout has passed.
\<close>

lemma wait_unfold:
  "wait_rounds m dt timeout elapsed [] = (if elapsed < timeout then None else Some MQTTASYNC_FAILURE)"
  "wait_rounds m dt timeout elapsed ((st1, st2, t) # rest) =
     (if \<not> elapsed < timeout then Some MQTTASYNC_FAILURE
      else if \<not> connected (m_c (handles st2 m)) then Some MQTTASYNC_DISCONNECTED
      else if MQTTAsync_isComplete (Some m) dt st1 = 1 then Some MQTTASYNC_SUCCESS
      else wait_rounds m dt timeout t rest)"
  by (simp_all add: wait_rounds.simps)

lemma wait_rounds_cases:
  assumes "wait_rounds m dt timeout elapsed rounds = Some rc"
  shows "rc = MQTTASYNC_SUCCESS \<and> (\<exists>(st1, st2, t) \<in> set rounds. MQTTAsync_isComplete (Some m) dt st1 = 1 \<and> connected (m_c (handles st2 m))) \<or>
    rc = MQTTASYNC_DISCONNECTED \<and> (\<exists>(st1, st2, t) \<in> set rounds. \<not> connected (m_c (handles st2 m))) \<or>
    rc = MQTTASYNC_FAILURE \<and> (timeout \<le> elapsed \<or> (\<exists>(st1, st2, t) \<in> set rounds. timeout \<le> t))"
  using assms
proof (induction rounds arbitrary: elapsed)
  case Nil
  then show ?case by (simp add: wait_unfold split: if_splits)
next
  case (Cons r rest)
  obtain st1 st2 t where r: "r = (st1, st2, t)" by (cases r)
  show ?case
  proof (cases "elapsed < timeout \<and> connected (m_c (handles st2 m)) \<and> MQTTAsync_isComplete (Some m) dt st1 \<noteq> 1")
    case True
    with Cons.prems r have "wait_rounds m dt timeout t rest = Some rc" by (simp add: wait_unfold)
    with Cons.IH [of t] True r show ?thesis by auto
  next
    case False
    with Cons.prems r show ?thesis by (auto simp: wait_unfold split: if_splits)
  qed
qed

lemma wait_rounds_returns:
  assumes "\<exists>(st1, st2, t) \<in> set rounds. timeout \<le> t"
  shows "\<exists>rc. wait_rounds m dt timeout elapsed rounds = Some rc"
  using assms
proof (induction rounds arbitrary: elapsed)
  case (Cons r rest)
  obtain st1 st2 t where r: "r = (st1, st2, t)" by (cases r)
  show ?case
  proof (cases "timeout \<le> t")
    case True
    then show ?thesis by (cases rest) (auto simp: wait_unfold r)
  next
    case False
    with Cons r show ?thesis by (simp add: wait_unfold)
  qed
qed simp

end
