(* ===== verification/Async_Retry.thy ===== *)
theory Async_Retry
  imports Async_Calls
begin

text \<open>
  The waiting times between automatic attempts to reconnect, \<^verbatim>\<open>MQTTAsync_randomJitter\<close> and
  \<^verbatim>\<open>MQTTAsync_startConnectRetry\<close> of \<^verbatim>\<open>MQTTAsync.c\<close>. The results of \<^verbatim>\<open>rand\<close> are the sequence \<open>draw\<close>; a loop that
  never gets a usable one is the value \<open>None\<close>.

  The products with \<^verbatim>\<open>1.2\<close> are computed in double precision and truncated. For values of type \<^verbatim>\<open>int\<close> this is
  the exact quotient by integers: the relative error of the constant and of the rounding is below
  \<open>2 ^ -52\<close>, a product that is not integral is at least \<open>1/6\<close> away from the next integer, and one that is
  integral is rounded to it.
\<close>

section \<open>The waiting time\<close>

definition RAND_MAX :: int where "RAND_MAX = 2147483647"

definition trunc_ratio :: "int \<Rightarrow> int \<Rightarrow> int \<Rightarrow> int" where
  "trunc_ratio x a b = (if 0 \<le> x then x * a div b else - (- x * a div b))"

definition int_range :: "int \<Rightarrow> bool" where
  "int_range x \<longleftrightarrow> - (2 ^ 31) \<le> x \<and> x < 2 ^ 31"

partial_function (option) draw_below :: "(nat \<Rightarrow> int) \<Rightarrow> int \<Rightarrow> nat \<Rightarrow> int option" where
  "draw_below draw limit i = (if draw i < limit then Some (draw i) else draw_below draw limit (Suc i))"

definition MQTTAsync_randomJitter :: "(nat \<Rightarrow> int) \<Rightarrow> int \<Rightarrow> int \<Rightarrow> int \<Rightarrow> int res option" where
  "MQTTAsync_randomJitter draw base minInterval maxInterval =
     (let max_sleep = trunc_ratio (min maxInterval base) 6 5; min_sleep = trunc_ratio (max minInterval base) 5 6 in
      if \<not> int_range max_sleep then Some (Inl SignedOverflow)
      else if max_sleep \<le> min_sleep then Some (Inr min_sleep)
      else if \<not> int_range (max_sleep - min_sleep + 1) then Some (Inl SignedOverflow)
      else
        let range = max_sleep - min_sleep + 1; buckets = RAND_MAX div range; limit = buckets * range in
        map_option (\<lambda>r. Inr (min_sleep + r div buckets)) (draw_below draw limit 0))"

definition MQTTAsync_startConnectRetry :: "(nat \<Rightarrow> int) \<Rightarrow> int \<Rightarrow> MQTTAsyncs \<Rightarrow> MQTTAsyncs res option" where
  "MQTTAsync_startConnectRetry draw time h =
     (if automaticReconnect h \<and> shouldBeConnected h then
        if retrying h \<and> \<not> int_range (currentIntervalBase h * 2) then Some (Inl SignedOverflow)
        else
          let h1 = h\<lparr>lastConnectionFailedTime := time,
                 currentIntervalBase := (if retrying h then min (currentIntervalBase h * 2) (maxRetryInterval h) else minRetryInterval h),
                 retrying := True\<rparr> in
          map_option (\<lambda>j. bindR j (\<lambda>t. Inr (h1\<lparr>currentInterval := t\<rparr>)))
            (MQTTAsync_randomJitter draw (currentIntervalBase h1) (minRetryInterval h1) (maxRetryInterval h1))
      else Some (Inr h))"

section \<open>Bounds\<close>

lemma draw_below_Some:
  assumes "draw k < limit"
  shows "\<exists>j. draw_below draw limit 0 = Some (draw j) \<and> draw j < limit"
proof -
  have "\<exists>j. draw_below draw limit i = Some (draw j) \<and> draw j < limit" if "i \<le> k" for i
    using that
  proof (induction "k - i" arbitrary: i)
    case 0
    with assms show ?case by (auto simp: draw_below.simps)
  next
    case (Suc n)
    then have "\<exists>j. draw_below draw limit (Suc i) = Some (draw j) \<and> draw j < limit" by (intro Suc.hyps(1)) auto
    then show ?case by (auto simp: draw_below.simps [of draw limit i])
  qed
  then show ?thesis by simp
qed

text \<open>The results of \<^verbatim>\<open>rand\<close>, which come arbitrarily low.\<close>

definition fair_draws :: "(nat \<Rightarrow> int) \<Rightarrow> bool" where
  "fair_draws draw \<longleftrightarrow> (\<forall>i. 0 \<le> draw i \<and> draw i \<le> RAND_MAX) \<and> (\<exists>k. draw k = 0)"

lemma randomJitter_bounds:
  assumes "0 < minI" "minI \<le> base" "base \<le> maxI" "maxI \<le> 2 ^ 30" "fair_draws draw"
  shows "\<exists>t. MQTTAsync_randomJitter draw base minI maxI = Some (Inr t) \<and> base * 5 div 6 \<le> t \<and> t \<le> base * 6 div 5"
proof -
  define lo hi where "lo = base * 5 div 6" and "hi = base * 6 div 5"
  have eqs: "trunc_ratio (min maxI base) 6 5 = hi" "trunc_ratio (max minI base) 5 6 = lo"
    using assms by (simp_all add: trunc_ratio_def lo_def hi_def min_def max_def)
  have lohi: "0 \<le> lo" "lo \<le> hi" "hi < 2 ^ 31 - 1" using assms(1-4) by (auto simp: lo_def hi_def)
  then have rng: "int_range hi" "int_range (hi - lo + 1)" by (simp_all add: int_range_def)
  show ?thesis
  proof (cases "hi \<le> lo")
    case True
    with lohi rng show ?thesis by (simp add: MQTTAsync_randomJitter_def eqs Let_def flip: lo_def hi_def)
  next
    case False
    define range buckets where "range = hi - lo + 1" and "buckets = RAND_MAX div range"
    have r: "1 \<le> range" "range \<le> RAND_MAX" using False lohi by (simp_all add: range_def RAND_MAX_def)
    then have b: "1 \<le> buckets" using zdiv_mono1 [of range RAND_MAX range] by (simp add: buckets_def)
    obtain k where "draw k = 0" using assms(5) by (auto simp: fair_draws_def)
    with draw_below_Some [of draw k "buckets * range"] r b obtain j
      where j: "draw_below draw (buckets * range) 0 = Some (draw j)" "draw j < buckets * range" by auto
    have "0 \<le> draw j" using assms(5) by (simp add: fair_draws_def)
    then have "0 \<le> draw j div buckets" using b by (simp add: pos_imp_zdiv_nonneg_iff)
    have "buckets * (draw j div buckets) \<le> draw j" using b pos_mod_sign [of buckets "draw j"] mult_div_mod_eq [of buckets "draw j"] by linarith
    with j(2) have "buckets * (draw j div buckets) < buckets * range" by linarith
    with b have "draw j div buckets < range" by (simp add: mult_less_cancel_left_pos)
    moreover have "MQTTAsync_randomJitter draw base minI maxI = Some (Inr (lo + draw j div buckets))"
      using False rng j(1) by (simp add: MQTTAsync_randomJitter_def eqs Let_def range_def buckets_def)
    ultimately show ?thesis using \<open>0 \<le> draw j div buckets\<close> by (auto simp: range_def simp flip: lo_def hi_def)
  qed
qed

text \<open>Failure after failure, each at its time and with its results of \<^verbatim>\<open>rand\<close>.\<close>

fun retry_times :: "(nat \<Rightarrow> nat \<Rightarrow> int) \<Rightarrow> (nat \<Rightarrow> int) \<Rightarrow> nat \<Rightarrow> MQTTAsyncs \<Rightarrow> MQTTAsyncs res option" where
  "retry_times draws time 0 h = Some (Inr h)"
| "retry_times draws time (Suc k) h =
     (case retry_times draws time k h of
        Some (Inr h') \<Rightarrow> MQTTAsync_startConnectRetry (draws k) (time k) h'
      | r \<Rightarrow> r)"

definition retry_ok :: "int \<Rightarrow> MQTTAsyncs \<Rightarrow> MQTTAsyncs \<Rightarrow> bool" where
  "retry_ok base h0 h \<longleftrightarrow> automaticReconnect h \<and> shouldBeConnected h \<and> retrying h \<and> minRetryInterval h = minRetryInterval h0 \<and>
     maxRetryInterval h = maxRetryInterval h0 \<and> currentIntervalBase h = base \<and>
     base * 5 div 6 \<le> currentInterval h \<and> currentInterval h \<le> base * 6 div 5"

lemma startConnectRetry_ok:
  assumes "automaticReconnect h" "shouldBeConnected h" "fair_draws draw" "0 < minRetryInterval h"
    "minRetryInterval h \<le> maxRetryInterval h" "maxRetryInterval h < 2 ^ 30"
    and base: "base = (if retrying h then min (currentIntervalBase h * 2) (maxRetryInterval h) else minRetryInterval h)"
    "retrying h \<Longrightarrow> minRetryInterval h \<le> currentIntervalBase h \<and> currentIntervalBase h \<le> maxRetryInterval h"
  shows "\<exists>h'. MQTTAsync_startConnectRetry draw time h = Some (Inr h') \<and> retry_ok base h h'"
proof -
  have b: "minRetryInterval h \<le> base" "base \<le> maxRetryInterval h" using base assms(4,5) by (auto split: if_splits)
  from randomJitter_bounds [OF assms(4) b _ assms(3)] assms(6) obtain t
    where t: "MQTTAsync_randomJitter draw base (minRetryInterval h) (maxRetryInterval h) = Some (Inr t)"
      "base * 5 div 6 \<le> t" "t \<le> base * 6 div 5" by auto
  have "retrying h \<Longrightarrow> int_range (currentIntervalBase h * 2)" using base(2) assms(4,6) by (auto simp: int_range_def)
  with assms(1,2) t base(1) show ?thesis
    by (auto simp: MQTTAsync_startConnectRetry_def Let_def retry_ok_def)
qed

text \<open>
  Automatic reconnection backs off exponentially. After \<open>k + 1\<close> failures in a row the base of the waiting time
  is the minimum doubled \<open>k\<close> times, but at most the maximum, and the waiting time itself differs from
  it by at most a fifth upwards and a sixth downwards. The computation always ends without overflow if the
  maximum is below \<open>2 ^ 30\<close> seconds and \<^verbatim>\<open>rand\<close> eventually returns a small value.
\<close>
theorem retry_backoff:
  assumes "automaticReconnect h" "shouldBeConnected h" "\<not> retrying h" "0 < minRetryInterval h"
    "minRetryInterval h \<le> maxRetryInterval h" "maxRetryInterval h < 2 ^ 30" "\<forall>k. fair_draws (draws k)"
  shows "\<exists>h'. retry_times draws time (Suc k) h = Some (Inr h') \<and> retry_ok (min (minRetryInterval h * 2 ^ k) (maxRetryInterval h)) h h'"
proof (induction k)
  case 0
  with startConnectRetry_ok [OF assms(1,2) _ assms(4-6), of "draws 0" "minRetryInterval h" "time 0"] assms show ?case
    by (auto simp: min_def)
next
  case (Suc k)
  then obtain h' where h': "retry_times draws time (Suc k) h = Some (Inr h')"
    and ok: "retry_ok (min (minRetryInterval h * 2 ^ k) (maxRetryInterval h)) h h'" by blast
  have "1 * minRetryInterval h \<le> 2 ^ k * minRetryInterval h" using assms(4) by (intro mult_right_mono) simp_all
  then have le: "minRetryInterval h \<le> minRetryInterval h * 2 ^ k" by (simp add: mult.commute)
  have dbl: "min (minRetryInterval h * 2 ^ Suc k) (maxRetryInterval h) =
      min (min (minRetryInterval h * 2 ^ k) (maxRetryInterval h) * 2) (maxRetryInterval h)"
    using assms(4,5) by (auto simp: min_def)
  obtain h'' where "MQTTAsync_startConnectRetry (draws (Suc k)) (time (Suc k)) h' = Some (Inr h'')"
      "retry_ok (min (minRetryInterval h * 2 ^ Suc k) (maxRetryInterval h)) h' h''"
    using startConnectRetry_ok [of h' "draws (Suc k)" "min (minRetryInterval h * 2 ^ Suc k) (maxRetryInterval h)" "time (Suc k)"] ok assms le dbl
    by (auto simp: retry_ok_def)
  with h' ok show ?case by (auto simp: retry_ok_def)
qed

end
