(* ===== verification/Async_Process.thy ===== *)
theory Async_Process
  imports Async_Retry
begin

text \<open>
  Executing queued commands, \<^verbatim>\<open>MQTTAsync_processCommand\<close> of \<^verbatim>\<open>MQTTAsync.c\<close>, with the closing of sessions:
  \<^verbatim>\<open>MQTTProtocol_checkPendingWrites\<close>, \<^verbatim>\<open>MQTTAsync_closeOnly\<close>, \<^verbatim>\<open>MQTTAsync_cleanSession\<close>, \<^verbatim>\<open>MQTTAsync_closeSession\<close>,
  \<^verbatim>\<open>MQTTAsync_checkDisconnect\<close>, \<^verbatim>\<open>nextOrClose\<close>. The build has no TLS, and the clients here have no persistence.

  The state is the command queue with the clients, the protocol state, the callbacks that were made, the
  sockets that were closed and the connections that were started: address, use of WebSocket, protocol version. Inputs: the allocator, clocks, whether a socket has pending writes, the result of
  removing stored messages, the results of \<^verbatim>\<open>rand\<close>, the contents of uninitialised memory, and
  \<^verbatim>\<open>MQTTProtocol_connect\<close>, which starts a network connection.
\<close>

section \<open>State\<close>

text \<open>
  Calls of the application's functions. A success or failure carries the token that is put into its data and, for a
  failure, the code. The callback is the one of a request of the application, under its token, or one of the
  commands to connect and disconnect: the token in the data does not tell, for a request that cannot be executed
  fails with token 0.
\<close>

datatype whose = Request int | Connecting | Disconnecting

datatype told = Told_success nat whose int | Told_failure nat whose int int | Told_connectionLost nat | Told_connected nat | Told_disconnected nat
  | Told_deliveryComplete nat int

record async_world =
  aq :: async_state
  proto :: MQTTProtocol
  told :: "told list"
  shut :: "int list"
  dialled :: "(byte list \<times> bool \<times> int) list"

record process_env =
  pq :: async_env
  pp :: env
  idle :: "int \<Rightarrow> bool"
  unpersist_rc :: int
  draws :: "nat \<Rightarrow> int"
  elapsed :: "int \<Rightarrow> int"
  garbage :: int
  connect_to :: "byte list \<Rightarrow> bool \<Rightarrow> int \<Rightarrow> MQTTAsyncs \<Rightarrow> int \<times> MQTTAsyncs"

definition bindO :: "'a res option \<Rightarrow> ('a \<Rightarrow> 'b res option) \<Rightarrow> 'b res option" where
  "bindO m f = (case m of None \<Rightarrow> None | Some (Inl e) \<Rightarrow> Some (Inl e) | Some (Inr x) \<Rightarrow> f x)"

lemma bindO_simps [simp]:
  "bindO None f = None" "bindO (Some (Inl e)) f = Some (Inl e)" "bindO (Some (Inr x)) f = f x"
  by (simp_all add: bindO_def)

lemma bindO_eq_Inr: "bindO m f = Some (Inr y) \<longleftrightarrow> (\<exists>x. m = Some (Inr x) \<and> f x = Some (Inr y))"
  by (auto simp: bindO_def split: option.splits sum.splits)

definition handle_of :: "async_world \<Rightarrow> nat \<Rightarrow> MQTTAsyncs" where
  "handle_of w m = handles (aq w) m"

definition set_handle :: "nat \<Rightarrow> MQTTAsyncs \<Rightarrow> async_world \<Rightarrow> async_world" where
  "set_handle m h w = w\<lparr>aq := update_handle m (\<lambda>_. h) (aq w)\<rparr>"

definition tell :: "told list \<Rightarrow> async_world \<Rightarrow> async_world" where
  "tell ts w = w\<lparr>told := told w @ ts\<rparr>"

lemma world_simps [simp]:
  "handle_of (set_handle m h w) k = (if k = m then h else handle_of w k)" "handle_of (tell ts w) k = handle_of w k"
  "told (set_handle m h w) = told w" "told (tell ts w) = told w @ ts" "commands (aq (set_handle m h w)) = commands (aq w)"
  "aq (tell ts w) = aq w" "proto (set_handle m h w) = proto w" "proto (tell ts w) = proto w" "shut (set_handle m h w) = shut w"
  "shut (tell ts w) = shut w" "dialled (set_handle m h w) = dialled w" "dialled (tell ts w) = dialled w"
  by (simp_all add: handle_of_def set_handle_def tell_def update_handle_def)

section \<open>Closing a session\<close>

text \<open>Releasing the publications whose write is complete.\<close>

fun MQTTProtocol_checkPendingWrites :: "(int \<Rightarrow> bool) \<Rightarrow> (int \<times> nat) list \<Rightarrow> MQTTProtocol \<Rightarrow> ((int \<times> nat) list \<times> MQTTProtocol) res" where
  "MQTTProtocol_checkPendingWrites done [] st = Inr ([], st)"
| "MQTTProtocol_checkPendingWrites done ((sock, p) # ws) st =
     (if done sock then bindR (MQTTProtocol_removePublication (Some p) st) (\<lambda>st1. MQTTProtocol_checkPendingWrites done ws st1)
      else bindR (MQTTProtocol_checkPendingWrites done ws st) (\<lambda>(rest, st1). Inr ((sock, p) # rest, st1)))"

definition MQTTAsync_closeOnly :: "process_env \<Rightarrow> nat \<Rightarrow> int \<Rightarrow> MQTTProperties option \<Rightarrow> async_world \<Rightarrow> async_world res" where
  "MQTTAsync_closeOnly e m reasonCode props w =
     (let h = handle_of w m; c = (m_c h)\<lparr>good := False, ping_outstanding := False\<rparr> in
      bindR
        (if 0 < socket c then
           bindR (MQTTProtocol_checkPendingWrites (idle e) (pending_writes (proto w)) (proto w)) (\<lambda>(ws, st1).
           bindR (if connected c \<and> idle e (socket c)
                  then bindR (MQTTPacket_send_disconnect (alloc (pp e)) (MQTTVersion c) reasonCode props (cnet c)) (\<lambda>(rc, n). Inr (c\<lparr>cnet := n\<rparr>))
                  else Inr c) (\<lambda>c1.
             Inr (c1\<lparr>socket := 0\<rparr>, w\<lparr>proto := st1\<lparr>pending_writes := ws\<rparr>, shut := shut w @ [socket c]\<rparr>)))
         else Inr (c, w))
        (\<lambda>(c2, w2). Inr (set_handle m (h\<lparr>m_c := c2\<lparr>connected := False\<rparr>, connect_state := NOT_IN_PROGRESS\<rparr>) w2)))"

definition MQTTAsync_cleanSession :: "process_env \<Rightarrow> nat \<Rightarrow> async_world \<Rightarrow> (int \<times> async_world) res" where
  "MQTTAsync_cleanSession e m w =
     (let h = handle_of w m; c = m_c h in
      bindR (MQTTProtocol_emptyMessageList (inboundMsgs c) (proto w)) (\<lambda>st1.
      bindR (MQTTProtocol_emptyMessageList (outboundMsgs c) st1) (\<lambda>st2.
        let w1 = set_handle m (h\<lparr>m_c := c\<lparr>inboundMsgs := [], outboundMsgs := [], msgID := 0\<rparr>\<rparr>) (w\<lparr>proto := st2\<rparr>);
            (failed, q) = MQTTAsync_freeResponses m (aq w1) in
        Inr (unpersist_rc e, tell (map (\<lambda>tok. Told_failure m (Request tok) tok MQTTASYNC_OPERATION_INCOMPLETE) failed) (w1\<lparr>aq := q\<rparr>)))))"

definition MQTTAsync_closeSession :: "process_env \<Rightarrow> nat \<Rightarrow> int \<Rightarrow> MQTTProperties option \<Rightarrow> async_world \<Rightarrow> async_world res" where
  "MQTTAsync_closeSession e m reasonCode props w =
     bindR (MQTTAsync_closeOnly e m reasonCode props w) (\<lambda>w1.
       let h = handle_of w1 m in
       if cleansession_c (m_c h) \<noteq> 0 \<or> 5 \<le> MQTTVersion (m_c h) \<and> sessionExpiry h = 0
       then bindR (MQTTAsync_cleanSession e m w1) (\<lambda>(rc, w2). Inr w2) else Inr w1)"

definition start_retry :: "process_env \<Rightarrow> nat \<Rightarrow> async_world \<Rightarrow> async_world res option" where
  "start_retry e m w =
     bindO (MQTTAsync_startConnectRetry (draws e) (clock (pq e)) (handle_of w m)) (\<lambda>h. Some (Inr (set_handle m h w)))"

text \<open>The timeout is compared as an unsigned 64 bit number.\<close>

definition MQTTAsync_checkDisconnect :: "process_env \<Rightarrow> nat \<Rightarrow> queued_command \<Rightarrow> async_world \<Rightarrow> async_world res option" where
  "MQTTAsync_checkDisconnect e m command w =
     (let h = handle_of w m; d = q_details command in
      if outboundMsgs (m_c h) = [] \<or> dis_timeout d mod 2 ^ 64 \<le> elapsed e (q_start_time command) then
        bindO (Some (MQTTAsync_closeSession e m (dis_reasonCode d) (Some (q_properties command)) w)) (\<lambda>w1.
          if dis_internal d then
            start_retry e m (if connectionLost h \<and> connected (m_c h) then tell [Told_connectionLost m] w1 else w1)
          else if onSuccess (q_callbacks command) \<or> onSuccess5 (q_callbacks command) then Some (Inr (tell [Told_success m Disconnecting 0] w1))
          else Some (Inr w1))
      else Some (Inr w))"

section \<open>Executing a command\<close>

definition URI_TCP :: "byte list" where "URI_TCP = [0x74, 0x63, 0x70, 0x3A, 0x2F, 0x2F]"
definition URI_WS :: "byte list" where "URI_WS = [0x77, 0x73, 0x3A, 0x2F, 0x2F]"

definition MQTTAsync_checkConn :: "queued_command \<Rightarrow> MQTTAsyncs \<Rightarrow> bool" where
  "MQTTAsync_checkConn command client \<longleftrightarrow>
     currentURI (q_details command) + 1 < int (length (serverURIs client)) \<or>
     conn_MQTTVersion (q_details command) = 4 \<and> MQTTVersion (m_c client) = 0"

text \<open>The server to connect to, and whether it is reached by WebSocket.\<close>

definition choose_uri :: "queued_command \<Rightarrow> MQTTAsyncs \<Rightarrow> (byte list \<times> bool) res" where
  "choose_uri command h =
     (let i = currentURI (q_details command) in
      if 0 < length (serverURIs h) \<and> i < int (length (serverURIs h)) then
        guardR OverRead (0 \<le> i)
          (let uri = serverURIs h ! nat i in
           if take (length URI_TCP) uri = URI_TCP then Inr (drop (length URI_TCP) uri, websocket h)
           else if take (length URI_WS) uri = URI_WS then Inr (drop (length URI_WS) uri, True)
           else Inr (uri, websocket h))
      else Inr (serverURI h, websocket h))"

definition next_version :: "int \<Rightarrow> int \<Rightarrow> int" where
  "next_version wanted current = (if wanted = 0 then if current = 0 then 4 else if current = 4 then 3 else current else wanted)"

text \<open>
  The result of executing a command: the code, the command as it is then, and the state. When a connection
  is pending, its socket is also put into the set of sockets waiting to be writable, by the socket layer.
\<close>

type_synonym executed = "(int \<times> queued_command \<times> async_world) res"

definition exec_connect :: "process_env \<Rightarrow> queued_command \<Rightarrow> async_world \<Rightarrow> executed" where
  "exec_connect e command w =
     (let m = q_client command; h = handle_of w m in
      if connect_state h \<noteq> NOT_IN_PROGRESS \<or> connected (m_c h) then Inr (0, command, w)
      else
        bindR (choose_uri command h) (\<lambda>(uri, ws).
          let v = next_version (MQTTVersion (m_c h)) (conn_MQTTVersion (q_details command));
              command1 = command\<lparr>q_details := Conn_details (currentURI (q_details command)) v\<rparr>;
              (rc, h1) = connect_to e uri ws v (h\<lparr>websocket := ws\<rparr>) in
          Inr (if connect_state h1 = NOT_IN_PROGRESS then SOCKET_ERROR else rc, command1, set_handle m h1 (w\<lparr>dialled := dialled w @ [(uri, ws, v)]\<rparr>))))"

text \<open>The topics as a list: without memory for its elements it stays empty.\<close>

definition topic_list :: "(int \<Rightarrow> bool) \<Rightarrow> 'a list \<Rightarrow> 'a list res" where
  "topic_list al xs = guardR NullDeref (malloc_ok al 40) (Inr (if malloc_ok al 24 then xs else []))"

definition send_on :: "nat \<Rightarrow> (int \<times> net) res \<Rightarrow> queued_command \<Rightarrow> async_world \<Rightarrow> executed" where
  "send_on m result command w =
     bindR result (\<lambda>(rc, n). let h = handle_of w m in Inr (rc, command, set_handle m (h\<lparr>m_c := (m_c h)\<lparr>cnet := n\<rparr>\<rparr>) w))"

definition exec_subscribe :: "process_env \<Rightarrow> queued_command \<Rightarrow> async_world \<Rightarrow> executed" where
  "exec_subscribe e command w =
     (let m = q_client command; c = m_c (handle_of w m); d = q_details command; al = alloc (pp e);
          v5 = (5 \<le> MQTTVersion c);
          subopts = (if v5 then if 1 < length (sub_topics d) then sub_optlist d else Some [sub_opts d] else None) in
      bindR (topic_list al (sub_topics d)) (\<lambda>topics.
      bindR (topic_list al (sub_qoss d)) (\<lambda>qoss.
        send_on m (MQTTPacket_send_subscribe al topics qoss subopts (if v5 then Some (q_properties command) else None)
          (q_token command) 0 (MQTTVersion c) (cnet c)) command w)))"

definition exec_unsubscribe :: "process_env \<Rightarrow> queued_command \<Rightarrow> async_world \<Rightarrow> executed" where
  "exec_unsubscribe e command w =
     (let m = q_client command; c = m_c (handle_of w m); al = alloc (pp e) in
      bindR (topic_list al (unsub_topics (q_details command))) (\<lambda>topics.
        send_on m (MQTTPacket_send_unsubscribe al topics (if 5 \<le> MQTTVersion c then Some (q_properties command) else None)
          (q_token command) 0 (MQTTVersion c) (cnet c)) command w))"

text \<open>
  Publishing. A success is reported at once for QoS 0; a write that is not complete, or failed, is remembered
  in \<^verbatim>\<open>pending_write\<close>. Topic and payload go over to the protocol code.
\<close>

definition publish_packet :: "process_env \<Rightarrow> queued_command \<Rightarrow> int \<Rightarrow> Publish" where
  "publish_packet e command version =
     \<lparr>pub_header = word_of_int (garbage e), pub_topic = the (pub_destinationName (q_details command)), pub_topiclen = garbage e,
      pub_msgId = q_token command, pub_payload = the (cmd_details.pub_payload (q_details command)),
      pub_payloadlen = cmd_details.pub_payloadlen (q_details command), pub_version = version,
      pub_properties = (if 5 \<le> version then q_properties command else MQTTProperties_initializer)\<rparr>"

definition exec_publish :: "process_env \<Rightarrow> queued_command \<Rightarrow> async_world \<Rightarrow> executed" where
  "exec_publish e command w =
     (let m = q_client command; h = handle_of w m; d = q_details command in
      guardR NullDeref (pub_destinationName d \<noteq> None \<and> cmd_details.pub_payload d \<noteq> None)
        (bindR (MQTTProtocol_startPublish (pp e) (publish_packet e command (MQTTVersion (m_c h))) (pub_qos d) (pub_retained d) (m_c h) (proto w))
          (\<lambda>(rc, c, st).
            let w1 = set_handle m (h\<lparr>m_c := c\<rparr>) (w\<lparr>proto := st\<rparr>);
                kept = (\<lambda>dest pay. command\<lparr>q_details := Pub_details dest pay (cmd_details.pub_payloadlen d) (pub_qos d) (pub_retained d)\<rparr>) in
            if pub_qos d = 0 then
              if rc = TCPSOCKET_COMPLETE then
                Inr (rc, command, if onSuccess (q_callbacks command) \<or> onSuccess5 (q_callbacks command)
                  then tell [Told_success m (Request (q_token command)) (q_token command)] w1 else w1)
              else
                let command1 = (if rc \<noteq> SOCKET_ERROR then kept None (cmd_details.pub_payload d) else command) in
                Inr (rc, command1, set_handle m ((handle_of w1 m)\<lparr>pending_write := Some command1\<rparr>) w1)
            else Inr (rc, kept None None, w1))))"

definition exec_disconnect :: "process_env \<Rightarrow> queued_command \<Rightarrow> async_world \<Rightarrow> async_world res option" where
  "exec_disconnect e command w =
     (let m = q_client command; h = handle_of w m in
      if connect_state h \<noteq> NOT_IN_PROGRESS \<or> connected (m_c h) then
        MQTTAsync_checkDisconnect e m command
          (if connect_state h \<noteq> NOT_IN_PROGRESS then
             let w1 = set_handle m (h\<lparr>connect_state := DISCONNECTING\<rparr>) w in
             if reports_failure (m_connect h) then tell [Told_failure m Connecting 0 MQTTASYNC_OPERATION_INCOMPLETE] w1 else w1
           else w)
      else Some (Inr w))"

text \<open>The next attempt to connect, after one that failed.\<close>

definition next_attempt :: "MQTTAsyncs \<Rightarrow> queued_command \<Rightarrow> queued_command" where
  "next_attempt h command =
     (let i = currentURI (q_details command); v = conn_MQTTVersion (q_details command) in
      command\<lparr>q_details :=
        (if MQTTVersion (m_c h) = 0 then if v = 3 then Conn_details (i + 1) 0 else Conn_details i v else Conn_details (i + 1) v)\<rparr>)"

definition await_response :: "process_env \<Rightarrow> queued_command \<Rightarrow> async_world \<Rightarrow> async_world" where
  "await_response e command w =
     (let m = q_client command; h = handle_of w m in
      if malloc_ok (aal (pq e)) 24 then set_handle m (h\<lparr>responses := responses h @ [command]\<rparr>) w else w)"

text \<open>A failed command: the connection is closed, and the failure is reported with token 0.\<close>

definition command_failed :: "process_env \<Rightarrow> int \<Rightarrow> queued_command \<Rightarrow> async_world \<Rightarrow> async_world res option" where
  "command_failed e rc command w =
     (let m = q_client command; conn = (cmd_type command = CONNECT) in
      bindO
        (Some (bindR
           (if conn then bindR (MQTTAsync_disconnect (pq e) (Some m) (Some disconnectOptions_initializer) (aq w))
              (\<lambda>(_, st). Inr (update_handle m (\<lambda>h. h\<lparr>shouldBeConnected := True\<rparr>) st))
            else bindR (MQTTAsync_disconnect_internal (pq e) (Some m) 0 (aq w)) (\<lambda>(_, st). Inr st))
           (\<lambda>st. Inr (w\<lparr>aq := st\<rparr>))))
        (\<lambda>w1.
          if conn \<and> MQTTAsync_checkConn command (handle_of w1 m) then
            Some (bindR (MQTTAsync_addCommand (pq e) (next_attempt (handle_of w1 m) command) (aq w1)) (\<lambda>(_, st). Inr (w1\<lparr>aq := st\<rparr>)))
          else
            let w2 = (if reports_failure command
              then tell [Told_failure m (if conn then Connecting else Request (q_token command)) 0 rc] w1 else w1) in
            if conn then start_retry e m (set_handle m ((handle_of w2 m)\<lparr>m_connect := command\<rparr>) w2) else Some (Inr w2)))"

definition finish_command :: "process_env \<Rightarrow> int \<Rightarrow> queued_command \<Rightarrow> async_world \<Rightarrow> async_world res option" where
  "finish_command e rc command w =
     (let m = q_client command; h = handle_of w m; t = cmd_type command;
          bad = (rc = SOCKET_ERROR \<or> rc = MQTTASYNC_PERSISTENCE_ERROR) in
      if t = CONNECT \<and> \<not> bad then Some (Inr (set_handle m (h\<lparr>m_connect := command\<rparr>) w))
      else if t = DISCONNECT then Some (Inr (set_handle m (h\<lparr>m_disconnect := command\<rparr>) w))
      else if t = PUBLISH \<and> pub_qos (q_details command) = 0 \<and> \<not> bad then
        Some (Inr (if rc = TCPSOCKET_INTERRUPTED then await_response e command w else w))
      else if bad then command_failed e rc command w
      else Some (Inr (await_response e command w)))"

definition exec_command :: "process_env \<Rightarrow> queued_command \<Rightarrow> async_world \<Rightarrow> executed option" where
  "exec_command e command w =
     (let t = cmd_type command in
      if t = CONNECT then Some (exec_connect e command w)
      else if t = SUBSCRIBE then Some (exec_subscribe e command w)
      else if t = UNSUBSCRIBE then Some (exec_unsubscribe e command w)
      else if t = PUBLISH then Some (exec_publish e command w)
      else bindO (exec_disconnect e command w) (\<lambda>w1. Some (Inr (0, command, w1))))"

text \<open>
  \<^verbatim>\<open>MQTTAsync_processCommand\<close>. If there is no memory for the packet of a message, the command is forgotten.
\<close>

definition MQTTAsync_processCommand :: "process_env \<Rightarrow> async_world \<Rightarrow> (bool \<times> async_world) res option" where
  "MQTTAsync_processCommand e w =
     bindO (Some (take_command (aal (pq e)) (idle e) (aq w))) (\<lambda>(found, st).
       let w1 = w\<lparr>aq := st\<rparr> in
       case found of
         None \<Rightarrow> Some (Inr (False, w1))
       | Some command \<Rightarrow>
           if cmd_type command = PUBLISH \<and> \<not> malloc_ok (aal (pq e)) 72 then Some (Inr (True, w1))
           else
             bindO (exec_command e command w1) (\<lambda>(rc, command1, w2).
             bindO (finish_command e rc command1 w2) (\<lambda>w3. Some (Inr (True, w3)))))"

text \<open>\<^verbatim>\<open>nextOrClose\<close>: after a failed connection, the next server or version is tried, or the failure is reported.\<close>

definition nextOrClose :: "process_env \<Rightarrow> nat \<Rightarrow> int \<Rightarrow> async_world \<Rightarrow> async_world res option" where
  "nextOrClose e m rc w =
     (let h = handle_of w m; conn = m_connect h in
      if MQTTAsync_checkConn conn h then
        Some (bindR (MQTTAsync_closeOnly e m 0 None w) (\<lambda>w1.
          if \<not> malloc_ok (aal (pq e)) 168 then Inr w1
          else bindR (MQTTAsync_addCommand (pq e) (next_attempt (handle_of w1 m) (conn\<lparr>q_client := m, q_not_restored := False\<rparr>)) (aq w1))
            (\<lambda>(_, st). Inr (w1\<lparr>aq := st\<rparr>))))
      else
        bindO (Some (MQTTAsync_closeSession e m 0 None w)) (\<lambda>w1.
          start_retry e m (if reports_failure conn then tell [Told_failure m Connecting 0 rc] w1 else w1)))"

section \<open>What becomes of a request\<close>

lemma disconnect_internal_head:
  assumes "connected (m_c (handles st m))" "\<forall>n. aal e n"
  shows "\<exists>rc st'. MQTTAsync_disconnect_internal e (Some m) 0 st = Inr (rc, st') \<and> handles st' = handles st \<and> commands st' \<noteq> [] \<and>
    q_client (hd (commands st')) = m \<and> cmd_type (hd (commands st')) = DISCONNECT"
proof -
  have mal: "malloc_ok (aal e) 168" "malloc_ok (aal e) 24" using assms(2) by (simp_all add: malloc_ok_def PTRDIFF_MAX_def)
  define q where "q = \<lparr>q_client = m, q_callbacks = no_callbacks, q_token = 0, q_context = 0, q_start_time = 0,
    q_properties = MQTTProperties_initializer, q_details = Dis_details True 0 0, q_not_restored = False\<rparr>"
  have q: "q_client q = m" "cmd_type q = DISCONNECT" "dis_internal (q_details q)" by (simp_all add: q_def cmd_type_def details_type_def)
  have "MQTTAsync_disconnect_internal e (Some m) 0 st = MQTTAsync_addCommand e q st"
    using assms(1) mal(1) by (simp add: MQTTAsync_disconnect_internal_def MQTTAsync_disconnect1_def disconnect_command_def Let_def
      disconnectOptions_initializer_def q_def)
  with q mal(2) show ?thesis by (auto simp: MQTTAsync_addCommand_def Let_def)
qed

definition needs_answer :: "queued_command \<Rightarrow> bool" where
  "needs_answer q \<longleftrightarrow> cmd_type q = SUBSCRIBE \<or> cmd_type q = UNSUBSCRIBE \<or> cmd_type q = PUBLISH \<and> 0 < pub_qos (q_details q)"

text \<open>Executing a request changes the network side of its client only.\<close>

definition same_request :: "queued_command \<Rightarrow> queued_command \<Rightarrow> bool" where
  "same_request q q1 \<longleftrightarrow> q_client q1 = q_client q \<and> q_token q1 = q_token q \<and> q_callbacks q1 = q_callbacks q \<and> q_context q1 = q_context q \<and>
     cmd_type q1 = cmd_type q \<and> (cmd_type q = PUBLISH \<longrightarrow> pub_qos (q_details q1) = pub_qos (q_details q))"

lemma send_on_effect:
  "send_on m result q w = Inr (rc, q1, w1) \<Longrightarrow> q1 = q \<and> told w1 = told w \<and>
    (\<exists>n. aq w1 = update_handle m (\<lambda>h. h\<lparr>m_c := (m_c h)\<lparr>cnet := n\<rparr>\<rparr>) (aq w))"
  by (auto simp: send_on_def Let_def res_simps set_handle_def handle_of_def update_handle_def fun_eq_iff)

lemma startPublishCommon_connected:
  "MQTTProtocol_startPublishCommon e p qos ret c st = Inr (rc, c', st') \<Longrightarrow> connected c' = connected c"
  by (auto simp: MQTTProtocol_startPublishCommon_def res_simps)

lemma startPublish_connected:
  assumes "MQTTProtocol_startPublish e p qos ret c st = Inr (rc, c', st')"
  shows "connected c' = connected c"
proof (cases "0 < qos")
  case True
  with assms obtain mm st1 where "(case mm of None \<Rightarrow> Inl NullDeref | Some m \<Rightarrow> bindR (deref (m_publish m) st1) (\<lambda>r.
      MQTTProtocol_startPublishCommon e (p\<lparr>Publish.pub_payload := p_payload r, pub_topic := p_topic r,
        pub_properties := (case m_properties m of None \<Rightarrow> pub_properties p | Some ps \<Rightarrow> ps), pub_version := m_version m\<rparr>)
        qos ret (c\<lparr>outboundMsgs := outboundMsgs c @ [m]\<rparr>) st1)) = Inr (rc, c', st')"
    by (auto simp: MQTTProtocol_startPublish_def bindR_eq_Inr)
  then show ?thesis by (cases mm) (auto simp: bindR_eq_Inr dest!: startPublishCommon_connected)
next
  case False
  with assms show ?thesis by (auto simp: MQTTProtocol_startPublish_def dest: startPublishCommon_connected)
qed

lemma exec_request:
  assumes "exec_command e q w = Some (Inr (rc, q1, w1))" "needs_answer q"
  shows "same_request q q1 \<and> told w1 = told w \<and>
    (\<exists>c. connected c = connected (m_c (handle_of w (q_client q))) \<and> aq w1 = update_handle (q_client q) (\<lambda>h. h\<lparr>m_c := c\<rparr>) (aq w))"
proof -
  consider "cmd_type q = SUBSCRIBE \<or> cmd_type q = UNSUBSCRIBE" | "cmd_type q = PUBLISH" "0 < pub_qos (q_details q)"
    using assms(2) by (auto simp: needs_answer_def)
  then show ?thesis
  proof cases
    case 1
    then have "\<exists>result. send_on (q_client q) result q w = Inr (rc, q1, w1)"
      using assms(1) by (auto simp: exec_command_def Let_def exec_subscribe_def exec_unsubscribe_def bindR_eq_Inr split: if_split_asm)
    with send_on_effect obtain n where n: "q1 = q" "told w1 = told w"
      "aq w1 = update_handle (q_client q) (\<lambda>h. h\<lparr>m_c := (m_c h)\<lparr>cnet := n\<rparr>\<rparr>) (aq w)" by blast
    then have "aq w1 = update_handle (q_client q) (\<lambda>h. h\<lparr>m_c := (m_c (handle_of w (q_client q)))\<lparr>cnet := n\<rparr>\<rparr>) (aq w)"
      by (simp add: update_handle_def handle_of_def)
    then show ?thesis using n(1,2) by (intro conjI exI [of _ "(m_c (handle_of w (q_client q)))\<lparr>cnet := n\<rparr>"]) (simp_all add: same_request_def)
  next
    case 2
    then obtain c st where c: "MQTTProtocol_startPublish (pp e) (publish_packet e q (MQTTVersion (m_c (handle_of w (q_client q)))))
        (pub_qos (q_details q)) (pub_retained (q_details q)) (m_c (handle_of w (q_client q))) (proto w) = Inr (rc, c, st)"
      and w1: "w1 = set_handle (q_client q) ((handle_of w (q_client q))\<lparr>m_c := c\<rparr>) (w\<lparr>proto := st\<rparr>)"
      and q1: "q1 = q\<lparr>q_details := Pub_details None None (cmd_details.pub_payloadlen (q_details q)) (pub_qos (q_details q)) (pub_retained (q_details q))\<rparr>"
      using assms(1) by (auto simp: exec_command_def Let_def exec_publish_def res_simps)
    from startPublish_connected [OF c] w1 q1 2 show ?thesis
      by (auto simp: same_request_def set_handle_def handle_of_def update_handle_def cmd_type_def details_type_def)
  qed
qed

text \<open>
  C28: No request is lost. When the sending thread takes a request that has to be answered by the server
  (subscribing, unsubscribing, a message with QoS 1 or 2), then afterwards it is either the last of the commands
  of its client that wait for a response, with its token, callbacks and context, or its failure has been reported
  to the application, if it asked for that, and closing the connection is the first command of the queue.
\<close>
theorem processCommand_request:
  assumes take: "take_command (aal (pq e)) (idle e) (aq w) = Inr (Some q, st)" and "needs_answer q"
    and mem: "\<forall>n. aal (pq e) n" and run: "MQTTAsync_processCommand e w = Some (Inr (found, w'))"
  shows "found \<and>
    ((\<exists>q1. same_request q q1 \<and> responses (handle_of w' (q_client q)) = responses (handle_of w (q_client q)) @ [q1] \<and> told w' = told w) \<or>
     (\<exists>code. told w' = told w @ (if reports_failure q then [Told_failure (q_client q) (Request (q_token q)) 0 code] else []) \<and> commands (aq w') \<noteq> [] \<and>
       q_client (hd (commands (aq w'))) = q_client q \<and> cmd_type (hd (commands (aq w'))) = DISCONNECT))"
proof -
  let ?m = "q_client q" and ?w1 = "w\<lparr>aq := st\<rparr>"
  have mal: "malloc_ok (aal (pq e)) 72" "malloc_ok (aal (pq e)) 24" using mem by (simp_all add: malloc_ok_def PTRDIFF_MAX_def)
  from run mal(1) obtain rc q1 w2 where exec: "exec_command e q ?w1 = Some (Inr (rc, q1, w2))"
    and fin: "finish_command e rc q1 w2 = Some (Inr w')" and "found"
    by (auto simp: MQTTAsync_processCommand_def take Let_def bindO_eq_Inr)
  from exec_request [OF exec assms(2)] obtain c where same: "same_request q q1" and told: "told w2 = told w"
    and c: "connected c = connected (m_c (handle_of ?w1 ?m))" and aq: "aq w2 = update_handle ?m (\<lambda>h. h\<lparr>m_c := c\<rparr>) st" by auto
  note eff = take_command_effect [OF take mem]
  have kept: "m_c (handles st ?m) = m_c (handle_of w ?m)" "responses (handles st ?m) = responses (handle_of w ?m)"
    using eff(5) by (auto simp: handle_of_def)
  have "cmd_type q \<in> {SUBSCRIBE, UNSUBSCRIBE, PUBLISH}" using assms(2) by (auto simp: needs_answer_def)
  then have "connected (m_c (handle_of w ?m))" using eff(1) by (auto simp: eligible_def Let_def handle_of_def)
  with c kept have conn: "connected (m_c (handles (aq w2) ?m))" by (simp add: aq update_handle_def handle_of_def)
  have type: "cmd_type q1 \<noteq> CONNECT" "cmd_type q1 \<noteq> DISCONNECT" "\<not> (cmd_type q1 = PUBLISH \<and> pub_qos (q_details q1) = 0)" "q_client q1 = ?m"
    using same assms(2) by (auto simp: same_request_def needs_answer_def)
  show ?thesis
  proof (cases "rc = SOCKET_ERROR \<or> rc = MQTTASYNC_PERSISTENCE_ERROR")
    case True
    from disconnect_internal_head [OF conn mem] obtain drc st' where d: "MQTTAsync_disconnect_internal (pq e) (Some ?m) 0 (aq w2) = Inr (drc, st')"
      "commands st' \<noteq> []" "q_client (hd (commands st')) = ?m" "cmd_type (hd (commands st')) = DISCONNECT" by blast
    have "w' = (if reports_failure q1 then tell [Told_failure ?m (Request (q_token q1)) 0 rc] (w2\<lparr>aq := st'\<rparr>) else w2\<lparr>aq := st'\<rparr>)"
      using fin type True d(1) by (auto simp: finish_command_def command_failed_def Let_def)
    moreover have "reports_failure q1 = reports_failure q" "q_token q1 = q_token q" using same by (simp_all add: same_request_def reports_failure_def)
    ultimately show ?thesis using d told \<open>found\<close> by auto
  next
    case False
    with fin type mal(2) have "w' = set_handle ?m ((handle_of w2 ?m)\<lparr>responses := responses (handle_of w2 ?m) @ [q1]\<rparr>) w2"
      by (auto simp: finish_command_def Let_def await_response_def)
    then have "responses (handle_of w' ?m) = responses (handle_of w ?m) @ [q1]" "told w' = told w"
      using told kept(2) by (simp_all add: handle_of_def set_handle_def aq update_handle_def)
    with same \<open>found\<close> show ?thesis by blast
  qed
qed

definition sample_unsub :: queued_command where
  "sample_unsub = \<lparr>q_client = 1, q_callbacks = no_callbacks, q_token = 5, q_context = 0, q_start_time = 3,
     q_properties = MQTTProperties_initializer, q_details = Unsub_details [[0x74]], q_not_restored = False\<rparr>"

definition sample_process_env :: process_env where
  "sample_process_env = \<lparr>pq = sample_async_env, pp = \<lparr>alloc = (\<lambda>_. True), noPendingWrites = (\<lambda>_ _. True), callback = True, now = 0, persist_remove = 0\<rparr>,
     idle = (\<lambda>_. True), unpersist_rc = 0, draws = (\<lambda>_. 0), elapsed = (\<lambda>_. 0), garbage = 0, connect_to = (\<lambda>_ _ _ h. (- 1, h))\<rparr>"

definition sample_world :: async_world where
  "sample_world = \<lparr>aq = (sample_async None)\<lparr>commands := [sample_unsub]\<rparr>,
     proto = \<lparr>pubs = (\<lambda>_. None), publications = [], next_pub = 0, msgs_received = 0, msgs_sent = 0, pending_writes = []\<rparr>, told = [], shut = [], dialled = []\<rparr>"

lemma sample_process:
  "case MQTTAsync_processCommand sample_process_env sample_world of
     Some (Inr (found, w')) \<Rightarrow> length (commands (aq w')) = 0 | _ \<Rightarrow> False"
  by code_simp

lemma sample_process_take:
  "case take_command (aal (pq sample_process_env)) (idle sample_process_env) (aq sample_world) of Inr (Some q, st) \<Rightarrow> q = sample_unsub | _ \<Rightarrow> False"
  by code_simp

theorem processCommand_request_witness:
  "\<exists>w' q1. MQTTAsync_processCommand sample_process_env sample_world = Some (Inr (True, w')) \<and> same_request sample_unsub q1 \<and>
     responses (handle_of w' 1) = [q1]"
proof -
  obtain found w' where run: "MQTTAsync_processCommand sample_process_env sample_world = Some (Inr (found, w'))" "commands (aq w') = []"
    using sample_process by (auto split: option.splits sum.splits)
  obtain st where take: "take_command (aal (pq sample_process_env)) (idle sample_process_env) (aq sample_world) = Inr (Some sample_unsub, st)"
    using sample_process_take by (auto split: sum.splits option.splits)
  have mem: "\<forall>n. aal (pq sample_process_env) n" by (simp add: sample_process_env_def sample_async_env_def)
  have na: "needs_answer sample_unsub" by (simp add: needs_answer_def sample_unsub_def cmd_type_def details_type_def)
  have before: "responses (handle_of sample_world 1) = []" "q_client sample_unsub = 1"
    by (simp_all add: sample_world_def handle_of_def sample_async_def sample_handle_def sample_unsub_def)
  from processCommand_request [OF take na mem run(1)] before run show ?thesis by auto
qed

section \<open>Attempts to connect\<close>

text \<open>
  Rounds of the loop of \<^verbatim>\<open>MQTTAsync_sendThread\<close>, each with inputs of its own; it ends when the queue is empty or no command
  can be executed.
\<close>

fun send_commands :: "process_env list \<Rightarrow> async_world \<Rightarrow> async_world res option" where
  "send_commands [] w = Some (Inr w)"
| "send_commands (e # es) w =
     (if commands (aq w) = [] then Some (Inr w)
      else bindO (MQTTAsync_processCommand e w) (\<lambda>(found, w1). if found then send_commands es w1 else Some (Inr w1)))"

text \<open>
  What is meant by all attempts, without the code: each server in turn, with each version in turn. A server whose URI
  starts with \<^verbatim>\<open>ws://\<close> is reached by WebSocket, and so are all after it.
\<close>

definition versions :: "int \<Rightarrow> int list" where
  "versions v = (if v = 0 then [4, 3] else [v])"

definition without_scheme :: "byte list \<Rightarrow> byte list" where
  "without_scheme uri = (if take 6 uri = URI_TCP then drop 6 uri else if take 5 uri = URI_WS then drop 5 uri else uri)"

fun attempts :: "bool \<Rightarrow> int \<Rightarrow> byte list list \<Rightarrow> (byte list \<times> bool \<times> int) list" where
  "attempts s v [] = []"
| "attempts s v (uri # uris) =
     (let s1 = (s \<or> take 5 uri = URI_WS) in map (\<lambda>x. (without_scheme uri, s1, x)) (versions v) @ attempts s1 v uris)"

definition all_attempts :: "MQTTAsyncs \<Rightarrow> (byte list \<times> bool \<times> int) list" where
  "all_attempts h =
     (if serverURIs h = [] then map (\<lambda>x. (serverURI h, websocket h, x)) (versions (MQTTVersion (m_c h)))
      else attempts (websocket h) (MQTTVersion (m_c h)) (serverURIs h))"

text \<open>The network refuses: \<^verbatim>\<open>MQTTProtocol_connect\<close> leaves the client without a connection in progress.\<close>

definition refuses :: "process_env \<Rightarrow> bool" where
  "refuses e \<longleftrightarrow> (\<forall>uri s v h. \<exists>c. snd (connect_to e uri s v h) = h\<lparr>m_c := c\<rparr> \<and> connected c = connected (m_c h) \<and>
     MQTTVersion c = MQTTVersion (m_c h))"

text \<open>The waiting time before the next connection can be computed.\<close>

definition can_wait :: "MQTTAsyncs \<Rightarrow> bool" where
  "can_wait h \<longleftrightarrow> automaticReconnect h \<longrightarrow> 0 < minRetryInterval h \<and> minRetryInterval h \<le> maxRetryInterval h \<and> maxRetryInterval h < 2 ^ 30 \<and>
     (retrying h \<longrightarrow> minRetryInterval h \<le> currentIntervalBase h \<and> currentIntervalBase h \<le> maxRetryInterval h)"

section \<open>All servers are tried\<close>

text \<open>The attempts that are left when the command \<open>q\<close> is at the head of the queue.\<close>

definition second_version :: "MQTTAsyncs \<Rightarrow> queued_command \<Rightarrow> bool" where
  "second_version h q \<longleftrightarrow> MQTTVersion (m_c h) = 0 \<and> conn_MQTTVersion (q_details q) = 4"

definition attempts_left :: "MQTTAsyncs \<Rightarrow> queued_command \<Rightarrow> (byte list \<times> bool \<times> int) list" where
  "attempts_left h q =
     (let r = all_attempts (h\<lparr>serverURIs := drop (nat (currentURI (q_details q))) (serverURIs h)\<rparr>) in if second_version h q then tl r else r)"

definition attempt_ok :: "MQTTAsyncs \<Rightarrow> queued_command \<Rightarrow> bool" where
  "attempt_ok h q \<longleftrightarrow> (let i = currentURI (q_details q) in
     0 \<le> i \<and> (i = 0 \<or> i < int (length (serverURIs h))) \<and> (MQTTVersion (m_c h) = 0 \<longrightarrow> conn_MQTTVersion (q_details q) \<in> {0, 4}))"

definition attempted :: "MQTTAsyncs \<Rightarrow> queued_command \<Rightarrow> queued_command" where
  "attempted h q = q\<lparr>q_details := Conn_details (currentURI (q_details q)) (next_version (MQTTVersion (m_c h)) (conn_MQTTVersion (q_details q)))\<rparr>"

definition same_servers :: "MQTTAsyncs \<Rightarrow> MQTTAsyncs \<Rightarrow> bool" where
  "same_servers h h1 \<longleftrightarrow> serverURIs h1 = serverURIs h \<and> serverURI h1 = serverURI h \<and> MQTTVersion (m_c h1) = MQTTVersion (m_c h)"

lemma URI_lengths [simp]: "length URI_TCP = 6" "length URI_WS = 5"
  by (simp_all add: URI_TCP_def URI_WS_def)

lemma URI_distinct:
  assumes "take 6 uri = URI_TCP"
  shows "take 5 uri \<noteq> URI_WS"
proof -
  have "take 5 uri = take 5 (take 6 uri)" by simp
  then show ?thesis unfolding assms by (simp add: URI_TCP_def URI_WS_def)
qed

lemma choose_uri_at:
  assumes "attempt_ok h q" "serverURIs h \<noteq> []"
  shows "choose_uri q h = Inr (without_scheme (serverURIs h ! nat (currentURI (q_details q))), websocket h \<or> take 5 (serverURIs h ! nat (currentURI (q_details q))) = URI_WS)"
proof -
  let ?i = "currentURI (q_details q)"
  have i: "0 \<le> ?i" "?i < int (length (serverURIs h))" using assms by (auto simp: attempt_ok_def Let_def)
  with assms(2) URI_distinct [of "serverURIs h ! nat ?i"] show ?thesis by (simp add: choose_uri_def without_scheme_def Let_def)
qed

lemma choose_uri_returns: "attempt_ok h q \<Longrightarrow> \<exists>uri s. choose_uri q h = Inr (uri, s)"
  using choose_uri_at by (cases "serverURIs h = []") (auto simp: choose_uri_def Let_def)

lemma attempts_left_step:
  assumes ok: "attempt_ok h q" and "choose_uri q h = Inr (uri, s)" and h1: "same_servers h h1" "websocket h1 = s"
    and q1: "q_details q1 = q_details (next_attempt h (attempted h q))"
  shows "attempts_left h q = (uri, s, conn_MQTTVersion (q_details (attempted h q))) # (if MQTTAsync_checkConn (attempted h q) h then attempts_left h1 q1 else [])"
    and "MQTTAsync_checkConn (attempted h q) h \<Longrightarrow> attempt_ok h1 q1"
proof -
  let ?i = "currentURI (q_details q)" and ?us = "serverURIs h" and ?V = "MQTTVersion (m_c h)"
  show "MQTTAsync_checkConn (attempted h q) h \<Longrightarrow> attempt_ok h1 q1"
    using ok h1(1) q1 by (auto simp: attempt_ok_def Let_def MQTTAsync_checkConn_def next_attempt_def attempted_def same_servers_def next_version_def)
  show "attempts_left h q = (uri, s, conn_MQTTVersion (q_details (attempted h q))) # (if MQTTAsync_checkConn (attempted h q) h then attempts_left h1 q1 else [])"
  proof (cases "?us = []")
    case True
    with assms show ?thesis
      by (auto simp: attempts_left_def all_attempts_def second_version_def attempted_def MQTTAsync_checkConn_def next_version_def versions_def
          choose_uri_def next_attempt_def same_servers_def attempt_ok_def Let_def)
  next
    case False
    then have i: "0 \<le> ?i" "nat ?i < length ?us" using ok by (auto simp: attempt_ok_def Let_def)
    then have d: "drop (nat ?i) ?us = ?us ! nat ?i # drop (nat (?i + 1)) ?us" by (simp add: Cons_nth_drop_Suc nat_add_distrib)
    have more: "drop (nat (?i + 1)) ?us = [] \<longleftrightarrow> \<not> ?i + 1 < int (length ?us)" using i by (simp add: not_less) linarith
    from choose_uri_at [OF ok False] assms(2) have us: "uri = without_scheme (?us ! nat ?i)" "s = (websocket h \<or> take 5 (?us ! nat ?i) = URI_WS)" by simp_all
    show ?thesis
      using ok h1 q1 d more us
      by (auto simp: attempts_left_def all_attempts_def second_version_def attempted_def MQTTAsync_checkConn_def next_version_def versions_def
          next_attempt_def same_servers_def attempt_ok_def Let_def)
  qed
qed

text \<open>The command at the head of the queue is the only one of its client that asks for a connection.\<close>

definition connecting :: "nat \<Rightarrow> queued_command list \<Rightarrow> queued_command \<Rightarrow> async_world \<Rightarrow> bool" where
  "connecting m rest q w \<longleftrightarrow> commands (aq w) = q # rest \<and> q_client q = m \<and> cmd_type q = CONNECT \<and>
     (\<forall>x \<in> set rest. \<not> (q_client x = m \<and> cmd_type x = CONNECT)) \<and>
     connect_state (handle_of w m) = NOT_IN_PROGRESS \<and> \<not> connected (m_c (handle_of w m))"

lemma take_connect:
  assumes "connecting m rest q w" "\<forall>n. al n"
  shows "take_command al ok (aq w) = Inr (Some q, (aq w)\<lparr>commands := rest\<rparr>)"
  using assms by (auto simp: connecting_def take_command_def Let_def malloc_ok_def PTRDIFF_MAX_def eligible_def remove_nth_def packet_types)

lemma add_connect:
  assumes "cmd_type q = CONNECT" "\<forall>x \<in> set (commands st). \<not> (q_client x = q_client q \<and> cmd_type x = CONNECT)" "\<forall>n. aal e n"
    "connect_state (handles st (q_client q)) = NOT_IN_PROGRESS"
  shows "MQTTAsync_addCommand e q st = Inr (signal_rc e, st\<lparr>commands := q\<lparr>q_start_time := clock e\<rparr> # commands st\<rparr>)"
proof -
  let ?q = "q\<lparr>q_start_time := clock e\<rparr>"
  have q: "stamped e q (handles st (q_client q)) = ?q" "cmd_type ?q = CONNECT" "q_client ?q = q_client q"
    using assms(1,4) by (simp_all add: stamped_def cmd_type_def)
  have no: "\<not> clientCompareConnectCommand x ?q" if "x \<in> set (commands st)" for x using that q assms(2) by (auto simp: clientCompareConnectCommand_def)
  then have "find_command p (\<lambda>x. clientCompareConnectCommand x ?q) (commands st) = None" for p
    using find_command_Some [of p "\<lambda>x. clientCompareConnectCommand x ?q" "commands st"] nth_mem by (cases "find_command p (\<lambda>x. clientCompareConnectCommand x ?q) (commands st)") fastforce+
  then have r: "remove_command p (\<lambda>x. clientCompareConnectCommand x ?q) (commands st) = commands st" for p by (simp add: remove_command_def)
  have "\<not> (commands st \<noteq> [] \<and> q_client (hd (commands st)) = q_client q \<and> cmd_type (hd (commands st)) = CONNECT)"
    using assms(2) by (cases "commands st") auto
  with q r assms(1,3) show ?thesis by (auto simp: MQTTAsync_addCommand_def Let_def malloc_ok_def PTRDIFF_MAX_def)
qed

lemma refused_exec:
  assumes "refuses e" "connect_state (handle_of w m) = NOT_IN_PROGRESS" "\<not> connected (m_c (handle_of w m))" "q_client q = m" "cmd_type q = CONNECT"
    and uri: "choose_uri q (handle_of w m) = Inr (uri, s)" and q1: "q1 = attempted (handle_of w m) q"
  shows "\<exists>c. connected c = connected (m_c (handle_of w m)) \<and> MQTTVersion c = MQTTVersion (m_c (handle_of w m)) \<and>
    exec_command e q w = Some (Inr (SOCKET_ERROR, q1,
      set_handle m ((handle_of w m)\<lparr>websocket := s, m_c := c\<rparr>) (w\<lparr>dialled := dialled w @ [(uri, s, conn_MQTTVersion (q_details q1))]\<rparr>)))"
proof -
  let ?h = "handle_of w m" and ?v = "conn_MQTTVersion (q_details q1)"
  from assms(1) [unfolded refuses_def, rule_format, of uri s ?v "?h\<lparr>websocket := s\<rparr>"]
  obtain c where c: "snd (connect_to e uri s ?v (?h\<lparr>websocket := s\<rparr>)) = ?h\<lparr>websocket := s, m_c := c\<rparr>" "connected c = connected (m_c ?h)"
    "MQTTVersion c = MQTTVersion (m_c ?h)" by auto
  then obtain rc where "connect_to e uri s ?v (?h\<lparr>websocket := s\<rparr>) = (rc, ?h\<lparr>websocket := s, m_c := c\<rparr>)" by (metis prod.collapse)
  with assms c(2,3) show ?thesis by (intro exI [of _ c]) (simp add: exec_command_def exec_connect_def attempted_def Let_def)
qed

lemma refused_failed:
  assumes "\<forall>n. aal (pq e) n" "connect_state (handle_of w m) = NOT_IN_PROGRESS" "\<not> connected (m_c (handle_of w m))" "q_client q = m" "cmd_type q = CONNECT"
    "\<forall>x \<in> set (commands (aq w)). \<not> (q_client x = m \<and> cmd_type x = CONNECT)"
  shows "finish_command e SOCKET_ERROR q w =
    (let h1 = (handle_of w m)\<lparr>shouldBeConnected := True\<rparr> in
     if MQTTAsync_checkConn q h1
     then Some (Inr ((set_handle m h1 w)\<lparr>aq := (aq (set_handle m h1 w))\<lparr>commands := (next_attempt h1 q)\<lparr>q_start_time := clock (pq e)\<rparr> # commands (aq w)\<rparr>\<rparr>))
     else start_retry e m (tell (if reports_failure q then [Told_failure m Connecting 0 SOCKET_ERROR] else []) (set_handle m (h1\<lparr>m_connect := q\<rparr>) w)))"
proof -
  define h1 where "h1 = (handle_of w m)\<lparr>shouldBeConnected := True\<rparr>"
  define w1 where "w1 = set_handle m h1 w"
  have d: "MQTTAsync_disconnect (pq e) (Some m) (Some disconnectOptions_initializer) (aq w) =
      Inr (MQTTASYNC_DISCONNECTED, update_handle m (\<lambda>h. h\<lparr>shouldBeConnected := False\<rparr>) (aq w))"
    using assms(3) by (simp add: MQTTAsync_disconnect_def MQTTAsync_disconnect1_def Let_def disconnectOptions_initializer_def update_handle_def handle_of_def)
  have u: "w\<lparr>aq := update_handle m (\<lambda>h. h\<lparr>shouldBeConnected := True\<rparr>) (update_handle m (\<lambda>h. h\<lparr>shouldBeConnected := False\<rparr>) (aq w))\<rparr> = w1"
    by (simp add: w1_def h1_def set_handle_def update_handle_def handle_of_def)
  have h: "handle_of w1 m = h1" "commands (aq w1) = commands (aq w)" by (simp_all add: w1_def)
  have a: "MQTTAsync_addCommand (pq e) (next_attempt h1 q) (aq w1) =
      Inr (signal_rc (pq e), (aq w1)\<lparr>commands := (next_attempt h1 q)\<lparr>q_start_time := clock (pq e)\<rparr> # commands (aq w)\<rparr>)"
    using assms h add_connect [of "next_attempt h1 q" "aq w1" "pq e"] by (simp add: h1_def next_attempt_def Let_def cmd_type_def details_type_def handle_of_def)
  have f: "finish_command e SOCKET_ERROR q w = command_failed e SOCKET_ERROR q w" using assms(5) by (simp add: finish_command_def Let_def packet_types)
  have "tell [] w1 = w1" by (simp add: tell_def)
  then have t: "(if reports_failure q then tell [x] w1 else w1) = tell (if reports_failure q then [x] else []) w1" for x by simp
  have m: "set_handle m ((handle_of (tell ts w1) m)\<lparr>m_connect := q\<rparr>) (tell ts w1) = tell ts (set_handle m (h1\<lparr>m_connect := q\<rparr>) w)" for ts
    by (simp add: w1_def set_handle_def tell_def update_handle_def handle_of_def)
  show ?thesis unfolding f command_failed_def Let_def assms(4) h1_def [symmetric] w1_def [symmetric]
    unfolding d bindR_simps prod.case u assms(5) simp_thms if_True bindO_simps h a t m by simp
qed

lemma start_retry_returns:
  assumes "can_wait (handle_of w m)" "fair_draws (draws e)" "shouldBeConnected (handle_of w m)"
  shows "\<exists>h. start_retry e m w = Some (Inr (set_handle m h w)) \<and> automaticReconnect h = automaticReconnect (handle_of w m) \<and>
    retrying h = (retrying (handle_of w m) \<or> automaticReconnect (handle_of w m))"
proof (cases "automaticReconnect (handle_of w m)")
  case True
  with startConnectRetry_ok [OF True assms(3,2), of _ "clock (pq e)"] assms(1) obtain h base where
    "MQTTAsync_startConnectRetry (draws e) (clock (pq e)) (handle_of w m) = Some (Inr h)" "retry_ok base (handle_of w m) h"
    unfolding can_wait_def by blast
  with True show ?thesis by (auto simp: start_retry_def retry_ok_def)
qed (auto simp: start_retry_def MQTTAsync_startConnectRetry_def)

text \<open>One attempt that is refused: the next one is at the head of the queue, or the failure is reported.\<close>

definition tries_next :: "nat \<Rightarrow> queued_command list \<Rightarrow> queued_command \<Rightarrow> async_world \<Rightarrow> queued_command \<Rightarrow> async_world \<Rightarrow> byte list \<times> bool \<times> int \<Rightarrow> bool" where
  "tries_next m rest q w q1 w1 a \<longleftrightarrow> connecting m rest q1 w1 \<and> reports_failure q1 = reports_failure q \<and> attempt_ok (handle_of w1 m) q1 \<and>
     can_wait (handle_of w1 m) \<and> told w1 = told w \<and> attempts_left (handle_of w m) q = a # attempts_left (handle_of w1 m) q1"

definition gives_up :: "nat \<Rightarrow> queued_command list \<Rightarrow> queued_command \<Rightarrow> async_world \<Rightarrow> async_world \<Rightarrow> byte list \<times> bool \<times> int \<Rightarrow> bool" where
  "gives_up m rest q w w1 a \<longleftrightarrow> commands (aq w1) = rest \<and>
     told w1 = told w @ (if reports_failure q then [Told_failure m Connecting 0 SOCKET_ERROR] else []) \<and>
     attempts_left (handle_of w m) q = [a] \<and> (automaticReconnect (handle_of w m) \<longrightarrow> retrying (handle_of w1 m))"

lemma refused_round:
  assumes c: "connecting m rest q w" "refuses e" "\<forall>n. aal (pq e) n" and ok: "attempt_ok (handle_of w m) q" and wait: "can_wait (handle_of w m)" "fair_draws (draws e)"
  shows "\<exists>w1 a. MQTTAsync_processCommand e w = Some (Inr (True, w1)) \<and> dialled w1 = dialled w @ [a] \<and>
    automaticReconnect (handle_of w1 m) = automaticReconnect (handle_of w m) \<and> ((\<exists>q1. tries_next m rest q w q1 w1 a) \<or> gives_up m rest q w w1 a)"
proof -
  let ?h = "handle_of w m"
  define q1 where "q1 = attempted ?h q"
  obtain uri s where uri: "choose_uri q ?h = Inr (uri, s)" using choose_uri_returns [OF ok] by blast
  define a where "a = (uri, s, conn_MQTTVersion (q_details q1))"
  define w0 where "w0 = w\<lparr>aq := (aq w)\<lparr>commands := rest\<rparr>\<rparr>"
  have h0: "handle_of w0 m = ?h" by (simp add: w0_def handle_of_def)
  have type: "connect_state ?h = NOT_IN_PROGRESS" "\<not> connected (m_c ?h)" "q_client q = m" "cmd_type q = CONNECT" "cmd_type q1 = CONNECT" "q_client q1 = m"
    "reports_failure q1 = reports_failure q" "\<forall>x \<in> set rest. \<not> (q_client x = m \<and> cmd_type x = CONNECT)"
    using c(1) by (simp_all add: connecting_def q1_def attempted_def cmd_type_def details_type_def reports_failure_def)
  from refused_exec [of e w0 m q uri s q1] c(2) type uri q1_def obtain k where k: "connected k = connected (m_c ?h)" "MQTTVersion k = MQTTVersion (m_c ?h)"
    and ex: "exec_command e q w0 = Some (Inr (SOCKET_ERROR, q1, set_handle m (?h\<lparr>websocket := s, m_c := k\<rparr>) (w0\<lparr>dialled := dialled w0 @ [a]\<rparr>)))"
    unfolding h0 a_def by blast
  define w2 where "w2 = set_handle m (?h\<lparr>websocket := s, m_c := k\<rparr>) (w0\<lparr>dialled := dialled w0 @ [a]\<rparr>)"
  define h1 where "h1 = ?h\<lparr>websocket := s, m_c := k, shouldBeConnected := True\<rparr>"
  have w2: "handle_of w2 m = ?h\<lparr>websocket := s, m_c := k\<rparr>" "?h\<lparr>websocket := s, m_c := k\<rparr>\<lparr>shouldBeConnected := True\<rparr> = h1"
    "commands (aq w2) = rest" "told w2 = told w" "dialled w2 = dialled w @ [a]" by (simp_all add: w2_def w0_def h1_def)
  have same: "same_servers ?h h1" "websocket h1 = s" "MQTTAsync_checkConn q1 h1 = MQTTAsync_checkConn q1 ?h"
    using k by (simp_all add: h1_def same_servers_def MQTTAsync_checkConn_def)
  have run: "MQTTAsync_processCommand e w = bindO (finish_command e SOCKET_ERROR q1 w2) (\<lambda>w3. Some (Inr (True, w3)))"
    using take_connect [OF c(1,3), of "idle e"] ex type(4) by (simp add: MQTTAsync_processCommand_def w0_def [symmetric] w2_def [symmetric] packet_types)
  note fin = refused_failed [of e w2 m q1, unfolded w2 Let_def same(3)]
  show ?thesis
  proof (cases "MQTTAsync_checkConn q1 ?h")
    case True
    define q2 where "q2 = (next_attempt h1 q1)\<lparr>q_start_time := clock (pq e)\<rparr>"
    define w3 where "w3 = (set_handle m h1 w2)\<lparr>aq := (aq (set_handle m h1 w2))\<lparr>commands := q2 # rest\<rparr>\<rparr>"
    have w3: "handle_of w3 m = h1" "told w3 = told w" "dialled w3 = dialled w @ [a]" "commands (aq w3) = q2 # rest"
      by (simp_all add: w3_def w2 set_handle_def update_handle_def handle_of_def)
    have q2: "q_details q2 = q_details (next_attempt ?h (attempted ?h q))" "q_client q2 = m" "cmd_type q2 = CONNECT" "reports_failure q2 = reports_failure q"
      using k type by (simp_all add: q2_def h1_def next_attempt_def Let_def q1_def [symmetric] cmd_type_def details_type_def reports_failure_def)
    have "connecting m rest q2 w3" using type w3 q2 k by (simp add: connecting_def h1_def)
    then have "tries_next m rest q w q2 w3 a" using attempts_left_step [OF ok uri same(1,2) q2(1), folded q1_def] True w3 q2 wait(1)
      by (simp add: tries_next_def a_def can_wait_def h1_def)
    moreover have "MQTTAsync_processCommand e w = Some (Inr (True, w3))" using run fin True c(3) type k by (simp add: w3_def q2_def)
    ultimately show ?thesis using w3 by (intro exI [of _ w3] exI [of _ a]) (auto simp: h1_def)
  next
    case False
    define w3 where "w3 = tell (if reports_failure q1 then [Told_failure m Connecting 0 SOCKET_ERROR] else []) (set_handle m (h1\<lparr>m_connect := q1\<rparr>) w2)"
    have h3: "handle_of w3 m = h1\<lparr>m_connect := q1\<rparr>" by (simp add: w3_def)
    with start_retry_returns [of w3 m e] wait obtain h where h: "start_retry e m w3 = Some (Inr (set_handle m h w3))"
      "automaticReconnect h = automaticReconnect ?h" "automaticReconnect ?h \<Longrightarrow> retrying h" by (auto simp: can_wait_def h1_def)
    have "attempts_left ?h q = [a]" using attempts_left_step(1) [OF ok uri same(1,2) refl, folded q1_def] False by (simp add: a_def)
    then have "gives_up m rest q w (set_handle m h w3) a" using h(3) type(7) by (simp add: gives_up_def w3_def w2)
    moreover have "MQTTAsync_processCommand e w = Some (Inr (True, set_handle m h w3))" using run fin False c(3) type k h(1) by (simp add: w3_def)
    ultimately show ?thesis using h(2) by (intro exI [of _ "set_handle m h w3"] exI [of _ a]) (simp add: w3_def w2)
  qed
qed

lemma attempts_left_nonempty:
  assumes "attempt_ok h q"
  shows "attempts_left h q \<noteq> []"
proof -
  obtain uri s where "choose_uri q h = Inr (uri, s)" using choose_uri_returns [OF assms] by blast
  from attempts_left_step(1) [OF assms this, of "h\<lparr>websocket := s\<rparr>"] show ?thesis by (auto simp: same_servers_def)
qed

lemma send_commands_refused:
  assumes "connecting m rest q w" "attempt_ok (handle_of w m) q" "can_wait (handle_of w m)" "length es = length (attempts_left (handle_of w m) q)"
    "\<forall>e \<in> set es. refuses e \<and> (\<forall>n. aal (pq e) n) \<and> fair_draws (draws e)"
  shows "\<exists>w'. send_commands es w = Some (Inr w') \<and> dialled w' = dialled w @ attempts_left (handle_of w m) q \<and> commands (aq w') = rest \<and>
    told w' = told w @ (if reports_failure q then [Told_failure m Connecting 0 SOCKET_ERROR] else []) \<and>
    (automaticReconnect (handle_of w m) \<longrightarrow> retrying (handle_of w' m))"
  using assms
proof (induction es arbitrary: w q)
  case Nil
  with attempts_left_nonempty show ?case by fastforce
next
  case (Cons e es)
  have "refuses e" "\<forall>n. aal (pq e) n" "fair_draws (draws e)" using Cons.prems(5) by simp_all
  from refused_round [OF Cons.prems(1) this(1,2) Cons.prems(2,3) this(3)] obtain w1 a where run: "MQTTAsync_processCommand e w = Some (Inr (True, w1))"
    and w1: "dialled w1 = dialled w @ [a]" "automaticReconnect (handle_of w1 m) = automaticReconnect (handle_of w m)"
    and step: "(\<exists>q1. tries_next m rest q w q1 w1 a) \<or> gives_up m rest q w w1 a" by blast
  have es: "send_commands (e # es) w = send_commands es w1" using run Cons.prems(1) by (simp add: connecting_def)
  from step show ?case
  proof (elim disjE exE)
    fix q1 assume g: "tries_next m rest q w q1 w1 a"
    then have "\<exists>w'. send_commands es w1 = Some (Inr w') \<and> dialled w' = dialled w1 @ attempts_left (handle_of w1 m) q1 \<and> commands (aq w') = rest \<and>
      told w' = told w1 @ (if reports_failure q1 then [Told_failure m Connecting 0 SOCKET_ERROR] else []) \<and>
      (automaticReconnect (handle_of w1 m) \<longrightarrow> retrying (handle_of w' m))" using Cons.prems(4,5) by (intro Cons.IH) (simp_all add: tries_next_def)
    with g w1 es show ?thesis by (auto simp: tries_next_def)
  next
    assume g: "gives_up m rest q w w1 a"
    then have "es = []" using Cons.prems(4) by (simp add: gives_up_def)
    with g w1 es show ?thesis by (simp add: gives_up_def)
  qed
qed

text \<open>A connection that is lost later, while it is being set up, is followed by the same next attempt.\<close>

lemma closeOnly_effect:
  "MQTTAsync_closeOnly e m r ps w = Inr w1 \<Longrightarrow> commands (aq w1) = commands (aq w) \<and> told w1 = told w \<and>
    connect_state (handle_of w1 m) = NOT_IN_PROGRESS \<and> MQTTVersion (m_c (handle_of w1 m)) = MQTTVersion (m_c (handle_of w m))"
  by (auto simp: MQTTAsync_closeOnly_def Let_def bindR_eq_Inr split: if_splits)

lemma nextOrClose_requeues:
  assumes "MQTTAsync_closeOnly e m 0 None w = Inr w1" "MQTTAsync_checkConn (m_connect (handle_of w m)) (handle_of w m)" "\<forall>n. aal (pq e) n"
    "\<forall>x \<in> set (commands (aq w)). \<not> (q_client x = m \<and> cmd_type x = CONNECT)"
  shows "\<exists>w' q. nextOrClose e m rc w = Some (Inr w') \<and> commands (aq w') = q # commands (aq w) \<and> q_client q = m \<and> told w' = told w \<and>
    q_details q = q_details (next_attempt (handle_of w m) (m_connect (handle_of w m)))"
proof -
  define q where "q = next_attempt (handle_of w1 m) ((m_connect (handle_of w m))\<lparr>q_client := m, q_not_restored := False\<rparr>)"
  note w1 = closeOnly_effect [OF assms(1)]
  have q: "cmd_type q = CONNECT" "q_client q = m" "q_details q = q_details (next_attempt (handle_of w m) (m_connect (handle_of w m)))"
    using w1 by (simp_all add: q_def next_attempt_def Let_def cmd_type_def details_type_def)
  have "MQTTAsync_addCommand (pq e) q (aq w1) = Inr (signal_rc (pq e), (aq w1)\<lparr>commands := q\<lparr>q_start_time := clock (pq e)\<rparr> # commands (aq w1)\<rparr>)"
    using q assms(3,4) w1 by (intro add_connect) (simp_all add: handle_of_def)
  moreover have "malloc_ok (aal (pq e)) 168" using assms(3) by (simp add: malloc_ok_def PTRDIFF_MAX_def)
  ultimately show ?thesis using assms(1,2) w1 q(2,3) by (simp add: nextOrClose_def Let_def q_def [symmetric])
qed

text \<open>
  C31: A connection is attempted with every server and every version, in order, and then given up. A client that
  is not connected has its \<^verbatim>\<open>CONNECT\<close> at the head of the queue, and the network refuses every connection. Then the sending
  thread, for as many rounds of its loop as there are attempts, starts exactly these connections: to each server of the list
  in its order, or to the single one if there is no list, with MQTT 3.1.1 and then with MQTT 3.1 when no version was asked
  for, and otherwise once with the version asked for; by WebSocket from the first server on whose URI starts with \<^verbatim>\<open>ws://\<close>.
  Afterwards no command to connect is left, the rest of the queue is as it was, the failure has been reported once, if
  the application asked for that, and with automatic reconnection the client waits for its next turn.
\<close>
theorem connect_attempts:
  assumes "commands (aq w) = q # rest" "q_client q = m" "q_details q = Conn_details 0 0" "h = handle_of w m"
    "\<forall>x \<in> set rest. \<not> (q_client x = m \<and> cmd_type x = CONNECT)" "connect_state h = NOT_IN_PROGRESS" "\<not> connected (m_c h)" "can_wait h"
    "\<forall>e \<in> set es. refuses e \<and> (\<forall>n. aal (pq e) n) \<and> fair_draws (draws e)" "length es = length (all_attempts h)"
  shows "\<exists>w'. send_commands es w = Some (Inr w') \<and> dialled w' = dialled w @ all_attempts h \<and> commands (aq w') = rest \<and>
    told w' = told w @ (if reports_failure q then [Told_failure m Connecting 0 SOCKET_ERROR] else []) \<and>
    (automaticReconnect h \<longrightarrow> retrying (handle_of w' m))"
proof -
  have "connecting m rest q w" using assms(1-7) by (simp add: connecting_def cmd_type_def details_type_def)
  moreover have "attempt_ok h q" using assms(3) by (simp add: attempt_ok_def)
  moreover have "attempts_left h q = all_attempts h" using assms(3) by (simp add: attempts_left_def second_version_def)
  ultimately show ?thesis using send_commands_refused [of m rest q w es] assms(4,8-10) by simp
qed

text \<open>Two servers, the first by WebSocket, and no version asked for: four attempts.\<close>

definition sample_servers :: async_world where
  "sample_servers = sample_world\<lparr>aq := \<lparr>commands = [sample_connect\<lparr>q_callbacks := no_callbacks\<lparr>onFailure := True\<rparr>\<rparr>, sample_unsub],
     handles = (\<lambda>_. (sample_handle None)\<lparr>m_c := (new_client 0)\<lparr>connected := False\<rparr>, serverURIs := [[0x77, 0x73, 0x3A, 0x2F, 0x2F, 0x61], [0x62]]\<rparr>)\<rparr>\<rparr>"

theorem connect_attempts_witness:
  "\<exists>w'. send_commands (replicate 4 sample_process_env) sample_servers = Some (Inr w') \<and>
     dialled w' = [([0x61], True, 4), ([0x61], True, 3), ([0x62], True, 4), ([0x62], True, 3)] \<and> commands (aq w') = [sample_unsub] \<and>
     told w' = [Told_failure 1 Connecting 0 SOCKET_ERROR] \<and> retrying (handle_of w' 1)"
proof -
  let ?q = "sample_connect\<lparr>q_callbacks := no_callbacks\<lparr>onFailure := True\<rparr>\<rparr>" and ?h = "handle_of sample_servers 1"
  have h: "serverURIs ?h = [[0x77, 0x73, 0x3A, 0x2F, 0x2F, 0x61], [0x62]]" "MQTTVersion (m_c ?h) = 0" "\<not> connected (m_c ?h)" "connect_state ?h = NOT_IN_PROGRESS"
    "\<not> websocket ?h" "can_wait ?h" "automaticReconnect ?h"
    by (simp_all add: handle_of_def sample_servers_def sample_handle_def new_client_def can_wait_def)
  then have all: "all_attempts ?h = [([0x61], True, 4), ([0x61], True, 3), ([0x62], True, 4), ([0x62], True, 3)]"
    by (simp add: all_attempts_def versions_def without_scheme_def URI_TCP_def URI_WS_def)
  have "\<exists>c. x = x\<lparr>m_c := c\<rparr> \<and> connected c = connected (m_c x) \<and> MQTTVersion c = MQTTVersion (m_c x)" for x :: MQTTAsyncs
    by (intro exI [of _ "m_c x"]) simp
  then have env: "\<forall>e \<in> set (replicate 4 sample_process_env). refuses e \<and> (\<forall>n. aal (pq e) n) \<and> fair_draws (draws e)"
    by (simp add: refuses_def sample_process_env_def sample_async_env_def fair_draws_def RAND_MAX_def)
  have q: "commands (aq sample_servers) = [?q, sample_unsub]" "q_client ?q = 1" "q_details ?q = Conn_details 0 0"
    "\<forall>x \<in> set [sample_unsub]. \<not> (q_client x = 1 \<and> cmd_type x = CONNECT)" "reports_failure ?q"
    "dialled sample_servers = []" "told sample_servers = []"
    by (simp_all add: sample_servers_def sample_world_def sample_connect_def sample_unsub_def cmd_type_def details_type_def packet_types reports_failure_def no_callbacks_def)
  from connect_attempts [OF q(1-3) refl q(4) h(4,3,6) env] all h(7) q(5-7) show ?thesis by simp
qed

end
