(* ===== verification/File_Store.thy ===== *)
theory File_Store
  imports Mqtt_Prelude "HOL-Library.AList"
begin

text \<open>
  The file store of \<^verbatim>\<open>MQTTPersistenceDefault.c\<close>, in its Unix variant: a directory for each client and server,
  and in it one file for each key. The locale \<open>persistent_store\<close> is the contract that a store keeps with the
  code that uses it, also when operations fail; it is interpreted on the file store.

  The file system is a list of directories and a list of regular files under their path, in the order in which
  \<^verbatim>\<open>readdir\<close> returns them. A path names one file: paths are compared as strings. Operations of the system
  may fail as the record \<open>fs_faults\<close> says: \<open>write_limit\<close> is how much a call of \<^verbatim>\<open>fwrite\<close> accepts, \<open>flush_limit\<close> how much of
  what was accepted is in the file after \<^verbatim>\<open>fclose\<close>, whose result the code ignores.
\<close>

section \<open>The file system\<close>

record filesys =
  fs_dirs :: "string list"
  fs_files :: "(string \<times> byte list) list"
  fs_cwd :: string

record fs_faults =
  open_ok :: "string \<Rightarrow> bool"
  write_limit :: "string \<Rightarrow> nat \<Rightarrow> nat option"
  read_limit :: "string \<Rightarrow> nat option"
  unlink_ok :: "string \<Rightarrow> bool"
  mkdir_ok :: "string \<Rightarrow> bool"
  rmdir_ok :: "string \<Rightarrow> bool"
  flush_limit :: "string \<Rightarrow> nat option"

definition upto_limit :: "nat option \<Rightarrow> 'a list \<Rightarrow> 'a list" where
  "upto_limit l xs = (case l of None \<Rightarrow> xs | Some n \<Rightarrow> take n xs)"

definition MQTTCLIENT_PERSISTENCE_ERROR :: int where "MQTTCLIENT_PERSISTENCE_ERROR = - 2"

definition MESSAGE_FILENAME_EXTENSION :: string where "MESSAGE_FILENAME_EXTENSION = ''.msg''"

definition msg_path :: "string \<Rightarrow> string \<Rightarrow> string" where
  "msg_path dir key = dir @ ''/'' @ key @ MESSAGE_FILENAME_EXTENSION"

definition path_size :: "string \<Rightarrow> string \<Rightarrow> int" where
  "path_size dir key = int (length dir + length key + length MESSAGE_FILENAME_EXTENSION + 2)"

section \<open>Opening\<close>

definition is_sep :: "char \<Rightarrow> bool" where
  "is_sep c \<longleftrightarrow> c = CHR ''/'' \<or> c = CHR 0x5C"

text \<open>The tokens of \<^verbatim>\<open>strtok_r\<close>.\<close>

function strtok :: "string \<Rightarrow> string list" where
  "strtok s =
     (let t = dropWhile is_sep s in
      if t = [] then [] else takeWhile (\<lambda>c. \<not> is_sep c) t # strtok (dropWhile (\<lambda>c. \<not> is_sep c) t))"
  by auto

termination
proof (relation "measure length")
  fix s t :: string
  assume t: "t = dropWhile is_sep s" and ne: "t \<noteq> []"
  then have "\<not> is_sep (hd t)" using hd_dropWhile by blast
  with ne have "dropWhile (\<lambda>c. \<not> is_sep c) t = dropWhile (\<lambda>c. \<not> is_sep c) (tl t)" by (cases t) auto
  then have "length (dropWhile (\<lambda>c. \<not> is_sep c) t) < length t"
    using ne length_dropWhile_le [of "\<lambda>c. \<not> is_sep c" "tl t"] by (cases t) auto
  also have "length t \<le> length s" by (simp add: t length_dropWhile_le)
  finally show "(dropWhile (\<lambda>c. \<not> is_sep c) t, s) \<in> measure length" by simp
qed simp

declare strtok.simps [simp del]

definition pstmkdir :: "fs_faults \<Rightarrow> string \<Rightarrow> filesys \<Rightarrow> int \<times> filesys" where
  "pstmkdir env path fs =
     (if path \<in> set (fs_dirs fs) then (0, fs)
      else if mkdir_ok env path then (0, fs\<lparr>fs_dirs := fs_dirs fs @ [path]\<rparr>)
      else (MQTTCLIENT_PERSISTENCE_ERROR, fs))"

text \<open>The levels of the path are created one after the other.\<close>

fun mkdir_levels :: "fs_faults \<Rightarrow> string \<Rightarrow> string list \<Rightarrow> filesys \<Rightarrow> int \<times> filesys" where
  "mkdir_levels env crt [] fs = (0, fs)"
| "mkdir_levels env crt (tok # toks) fs =
     (let crt1 = crt @ ''/'' @ tok; (rc, fs1) = pstmkdir env crt1 fs in
      if rc = 0 then mkdir_levels env crt1 toks fs1 else (rc, fs1))"

definition client_dir :: "string \<Rightarrow> string \<Rightarrow> string \<Rightarrow> string" where
  "client_dir dataDir clientID serverURI =
     dataDir @ ''/'' @ clientID @ ''-'' @ map (\<lambda>c. if c = CHR '':'' then CHR ''-'' else c) serverURI"

definition pstopen ::
  "fs_faults \<Rightarrow> (int \<Rightarrow> bool) \<Rightarrow> string \<Rightarrow> string \<Rightarrow> string \<Rightarrow> filesys \<Rightarrow> (int \<times> string option \<times> filesys) res" where
  "pstopen env al clientID serverURI dataDir fs =
     (let dir = client_dir dataDir clientID serverURI in
      if \<not> malloc_ok al (int (length serverURI) + 1) \<or> \<not> malloc_ok al (int (length dataDir + length clientID + length serverURI) + 3) \<or>
         \<not> malloc_ok al (int (length dir) + 1) then Inr (PAHO_MEMORY_ERROR, None, fs)
      else
        let (lead, toks) = (if dir \<noteq> [] \<and> is_sep (hd dir) then ([hd dir], strtok (tl dir)) else ([], strtok dir)) in
        (case toks of
           [] \<Rightarrow> Inl NullDeref
         | tok # rest \<Rightarrow>
             let (rc, fs1) = pstmkdir env (lead @ tok) fs in
             if rc = 0 then let (rc2, fs2) = mkdir_levels env (lead @ tok) rest fs1 in Inr (rc2, Some dir, fs2)
             else Inr (rc, Some dir, fs1)))"

section \<open>Reading and writing\<close>

definition pstremove :: "fs_faults \<Rightarrow> (int \<Rightarrow> bool) \<Rightarrow> string option \<Rightarrow> string \<Rightarrow> filesys \<Rightarrow> int \<times> filesys" where
  "pstremove env al handle key fs =
     (case handle of
        None \<Rightarrow> (MQTTCLIENT_PERSISTENCE_ERROR, fs)
      | Some dir \<Rightarrow>
          if \<not> malloc_ok al (path_size dir key) then (PAHO_MEMORY_ERROR, fs)
          else
            (case map_of (fs_files fs) (msg_path dir key) of
               None \<Rightarrow> (0, fs)
             | Some _ \<Rightarrow>
                 if unlink_ok env (msg_path dir key) then (0, fs\<lparr>fs_files := AList.delete (msg_path dir key) (fs_files fs)\<rparr>)
                 else (MQTTCLIENT_PERSISTENCE_ERROR, fs)))"

fun fwrite_all :: "(nat \<Rightarrow> nat option) \<Rightarrow> nat \<Rightarrow> byte list list \<Rightarrow> byte list" where
  "fwrite_all limit i [] = []"
| "fwrite_all limit i (b # bs) = upto_limit (limit i) b @ fwrite_all limit (Suc i) bs"

definition pstput :: "fs_faults \<Rightarrow> (int \<Rightarrow> bool) \<Rightarrow> string option \<Rightarrow> string \<Rightarrow> byte list list \<Rightarrow> filesys \<Rightarrow> int \<times> filesys" where
  "pstput env al handle key buffers fs =
     (case handle of
        None \<Rightarrow> (MQTTCLIENT_PERSISTENCE_ERROR, fs)
      | Some dir \<Rightarrow>
          if \<not> malloc_ok al (path_size dir key) then (PAHO_MEMORY_ERROR, fs)
          else
            let file = msg_path dir key in
            if dir \<in> set (fs_dirs fs) \<and> open_ok env file then
              let written = fwrite_all (write_limit env file) 0 buffers;
                  flushed = upto_limit (flush_limit env file) written;
                  fs1 = fs\<lparr>fs_files := AList.update file flushed (fs_files fs)\<rparr> in
              if length written \<noteq> length (concat buffers)
              then (MQTTCLIENT_PERSISTENCE_ERROR, snd (pstremove env al handle key fs1)) else (0, fs1)
            else (MQTTCLIENT_PERSISTENCE_ERROR, fs))"

definition pstget :: "fs_faults \<Rightarrow> (int \<Rightarrow> bool) \<Rightarrow> string option \<Rightarrow> string \<Rightarrow> filesys \<Rightarrow> int \<times> byte list option" where
  "pstget env al handle key fs =
     (case handle of
        None \<Rightarrow> (MQTTCLIENT_PERSISTENCE_ERROR, None)
      | Some dir \<Rightarrow>
          if \<not> malloc_ok al (path_size dir key) then (PAHO_MEMORY_ERROR, None)
          else
            let filename = msg_path dir key in
            (case map_of (fs_files fs) filename of
               None \<Rightarrow> (MQTTCLIENT_PERSISTENCE_ERROR, None)
             | Some content \<Rightarrow>
                 if \<not> open_ok env filename then (MQTTCLIENT_PERSISTENCE_ERROR, None)
                 else if \<not> malloc_ok al (int (length content)) then (PAHO_MEMORY_ERROR, None)
                 else
                   let buf = upto_limit (read_limit env filename) content in
                   (if length buf \<noteq> length content then MQTTCLIENT_PERSISTENCE_ERROR else 0, Some buf)))"

section \<open>Directories\<close>

text \<open>The regular files of a directory.\<close>

definition entry_name :: "string \<Rightarrow> string \<Rightarrow> string option" where
  "entry_name dir path =
     (if take (length dir + 1) path = dir @ ''/'' \<and> CHR ''/'' \<notin> set (drop (length dir + 1) path)
      then Some (drop (length dir + 1) path) else None)"

definition dir_entries :: "string \<Rightarrow> filesys \<Rightarrow> string list" where
  "dir_entries dir fs = List.map_filter (entry_name dir) (map fst (fs_files fs))"

definition pstclose :: "fs_faults \<Rightarrow> string option \<Rightarrow> filesys \<Rightarrow> int \<times> filesys" where
  "pstclose env handle fs =
     (case handle of
        None \<Rightarrow> (MQTTCLIENT_PERSISTENCE_ERROR, fs)
      | Some dir \<Rightarrow>
          if dir \<notin> set (fs_dirs fs) \<or> dir_entries dir fs \<noteq> [] then (0, fs)
          else if rmdir_ok env dir then (0, fs\<lparr>fs_dirs := removeAll dir (fs_dirs fs)\<rparr>)
          else (MQTTCLIENT_PERSISTENCE_ERROR, fs))"

text \<open>A file name up to the first place where the extension occurs in it.\<close>

definition file_key :: "string \<Rightarrow> string" where
  "file_key name = (case strstr name MESSAGE_FILENAME_EXTENSION of None \<Rightarrow> name | Some i \<Rightarrow> take i name)"

fun containskey_loop :: "(int \<Rightarrow> bool) \<Rightarrow> string \<Rightarrow> string \<Rightarrow> string list \<Rightarrow> int" where
  "containskey_loop al dir key [] = MQTTCLIENT_PERSISTENCE_ERROR"
| "containskey_loop al dir key (name # names) =
     (if \<not> malloc_ok al (int (length dir + length name) + 2) \<or> \<not> malloc_ok al (int (length name) + 1) then PAHO_MEMORY_ERROR
      else if file_key name = key then 0 else containskey_loop al dir key names)"

definition containskeyUnix :: "(int \<Rightarrow> bool) \<Rightarrow> string \<Rightarrow> string \<Rightarrow> filesys \<Rightarrow> int" where
  "containskeyUnix al dir key fs =
     (if dir \<in> set (fs_dirs fs) then containskey_loop al dir key (dir_entries dir fs) else MQTTCLIENT_PERSISTENCE_ERROR)"

definition pstcontainskey :: "(int \<Rightarrow> bool) \<Rightarrow> string option \<Rightarrow> string \<Rightarrow> filesys \<Rightarrow> int" where
  "pstcontainskey al handle key fs =
     (case handle of None \<Rightarrow> MQTTCLIENT_PERSISTENCE_ERROR | Some dir \<Rightarrow> containskeyUnix al dir key fs)"

text \<open>
  Clearing the store: the names of the directory are looked up in the current directory of the process.
\<close>

fun clear_loop :: "fs_faults \<Rightarrow> string list \<Rightarrow> filesys \<Rightarrow> int \<times> filesys" where
  "clear_loop env [] fs = (0, fs)"
| "clear_loop env (name # names) fs =
     (let path = fs_cwd fs @ ''/'' @ name in
      if map_of (fs_files fs) path = None then clear_loop env names fs
      else if unlink_ok env path then clear_loop env names (fs\<lparr>fs_files := AList.delete path (fs_files fs)\<rparr>)
      else (MQTTCLIENT_PERSISTENCE_ERROR, fs))"

definition clearUnix :: "fs_faults \<Rightarrow> string \<Rightarrow> filesys \<Rightarrow> int \<times> filesys" where
  "clearUnix env dir fs =
     (if dir \<in> set (fs_dirs fs) then clear_loop env (dir_entries dir fs) fs else (MQTTCLIENT_PERSISTENCE_ERROR, fs))"

definition pstclear :: "fs_faults \<Rightarrow> string option \<Rightarrow> filesys \<Rightarrow> int \<times> filesys" where
  "pstclear env handle fs =
     (case handle of None \<Rightarrow> (MQTTCLIENT_PERSISTENCE_ERROR, fs) | Some dir \<Rightarrow> clearUnix env dir fs)"

definition keysUnix :: "(int \<Rightarrow> bool) \<Rightarrow> string \<Rightarrow> filesys \<Rightarrow> int \<times> string list" where
  "keysUnix al dir fs =
     (let names = dir_entries dir fs in
      if dir \<notin> set (fs_dirs fs) then (MQTTCLIENT_PERSISTENCE_ERROR, [])
      else if list_ex (\<lambda>n. \<not> malloc_ok al (int (length dir + length n) + 2) \<or> \<not> malloc_ok al (int (length n) + 1)) names \<or>
              names \<noteq> [] \<and> \<not> malloc_ok al (8 * int (length names)) then (PAHO_MEMORY_ERROR, [])
      else (0, map file_key names))"

definition pstkeys :: "(int \<Rightarrow> bool) \<Rightarrow> string option \<Rightarrow> filesys \<Rightarrow> int \<times> string list" where
  "pstkeys al handle fs =
     (case handle of None \<Rightarrow> (MQTTCLIENT_PERSISTENCE_ERROR, []) | Some dir \<Rightarrow> keysUnix al dir fs)"

text \<open>A file system on which \<^verbatim>\<open>fclose\<close> writes out everything.\<close>

definition flushes :: "fs_faults \<Rightarrow> bool" where
  "flushes env \<longleftrightarrow> (\<forall>p. flush_limit env p = None)"

definition flushing :: "fs_faults \<Rightarrow> fs_faults" where
  "flushing env = env\<lparr>flush_limit := \<lambda>p. None\<rparr>"

lemma flushing_id: "flushes env \<Longrightarrow> flushing env = env"
  by (simp add: flushes_def flushing_def fun_eq_iff)

lemma flushes_flushing [simp]: "flush_limit (flushing env) p = None"
  by (simp add: flushing_def)

section \<open>The contract of a store\<close>

text \<open>The functions of \<^verbatim>\<open>MQTTClient_persistence\<close>, with their handle.\<close>

record 's store_ops =
  s_put :: "string \<Rightarrow> byte list list \<Rightarrow> 's \<Rightarrow> int \<times> 's"
  s_get :: "string \<Rightarrow> 's \<Rightarrow> int \<times> byte list option"
  s_remove :: "string \<Rightarrow> 's \<Rightarrow> int \<times> 's"
  s_keys :: "'s \<Rightarrow> int \<times> string list"
  s_containskey :: "string \<Rightarrow> 's \<Rightarrow> int"

definition file_ops :: "fs_faults \<Rightarrow> (int \<Rightarrow> bool) \<Rightarrow> string \<Rightarrow> filesys store_ops" where
  "file_ops env al dir = \<lparr>s_put = pstput env al (Some dir), s_get = pstget env al (Some dir), s_remove = pstremove env al (Some dir),
     s_keys = pstkeys al (Some dir), s_containskey = pstcontainskey al (Some dir)\<rparr>"

text \<open>
  What a store holds is a map from keys to bytes. An operation that reports success has done its work; one that
  fails leaves the map alone, except that a failed write may lose the old value of its key.
\<close>

locale persistent_store =
  fixes ops :: "'s store_ops"
    and holds_data :: "'s \<Rightarrow> string \<rightharpoonup> byte list"
    and good_store :: "'s \<Rightarrow> bool"
    and good_key :: "string \<Rightarrow> bool"
  assumes put_law: "good_store s \<Longrightarrow> good_key k \<Longrightarrow> s_put ops k bufs s = (rc, s') \<Longrightarrow>
      good_store s' \<and> (if rc = 0 then holds_data s' = (holds_data s)(k \<mapsto> concat bufs)
        else holds_data s' = holds_data s \<or> holds_data s' = (holds_data s)(k := None) \<or>
          (\<exists>part. holds_data s' = (holds_data s)(k \<mapsto> part)))"
    and get_law: "good_store s \<Longrightarrow> good_key k \<Longrightarrow> s_get ops k s = (rc, r) \<Longrightarrow> rc = 0 \<Longrightarrow> r \<noteq> None \<and> holds_data s k = r"
    and remove_law: "good_store s \<Longrightarrow> good_key k \<Longrightarrow> s_remove ops k s = (rc, s') \<Longrightarrow>
      good_store s' \<and> holds_data s' = (if rc = 0 then (holds_data s)(k := None) else holds_data s)"
    and keys_law: "good_store s \<Longrightarrow> s_keys ops s = (0, ks) \<Longrightarrow> distinct ks \<and> set ks = dom (holds_data s)"
    and containskey_law: "good_store s \<Longrightarrow> good_key k \<Longrightarrow> s_containskey ops k s = 0 \<Longrightarrow> holds_data s k \<noteq> None"
    and keys_good: "good_store s \<Longrightarrow> dom (holds_data s) \<subseteq> Collect good_key"
begin

lemma get_after_put:
  assumes "good_store s" "good_key k" "s_put ops k bufs s = (0, s')" "s_get ops k s' = (0, r)"
  shows "r = Some (concat bufs)"
  using put_law [OF assms(1-3)] get_law [of s' k 0 r] assms by simp

lemma get_after_other_put:
  assumes "good_store s" "good_key k" "good_key j" "j \<noteq> k" "s_put ops k bufs s = (rc, s')" "s_get ops j s' = (0, r)"
  shows "holds_data s j = r"
  using put_law [OF assms(1,2,5)] get_law [of s' j 0 r] assms by (auto split: if_splits)

end

text \<open>A key without a slash or a dot comes back from its file name.\<close>

definition plain_key :: "string \<Rightarrow> bool" where
  "plain_key k \<longleftrightarrow> CHR ''/'' \<notin> set k \<and> CHR ''.'' \<notin> set k"

definition file_data :: "string \<Rightarrow> filesys \<Rightarrow> string \<rightharpoonup> byte list" where
  "file_data dir fs k = (if plain_key k then map_of (fs_files fs) (msg_path dir k) else None)"

text \<open>The directory exists and contains files of the store only.\<close>

definition file_good :: "string \<Rightarrow> filesys \<Rightarrow> bool" where
  "file_good dir fs \<longleftrightarrow> dir \<in> set (fs_dirs fs) \<and> distinct (map fst (fs_files fs)) \<and>
     (\<forall>name \<in> set (dir_entries dir fs). \<exists>k. plain_key k \<and> name = k @ MESSAGE_FILENAME_EXTENSION)"

lemma strstr_ext: "CHR ''.'' \<notin> set k \<Longrightarrow> strstr (k @ MESSAGE_FILENAME_EXTENSION) MESSAGE_FILENAME_EXTENSION = Some (length k)"
  by (induction k) (auto simp: MESSAGE_FILENAME_EXTENSION_def)

lemma file_key_ext [simp]: "plain_key k \<Longrightarrow> file_key (k @ MESSAGE_FILENAME_EXTENSION) = k"
  by (simp add: file_key_def strstr_ext plain_key_def)

lemma entry_name_msg: "plain_key k \<Longrightarrow> entry_name dir (msg_path dir k) = Some (k @ MESSAGE_FILENAME_EXTENSION)"
  by (simp add: entry_name_def msg_path_def plain_key_def MESSAGE_FILENAME_EXTENSION_def)

lemma entry_name_Some: "entry_name dir path = Some name \<longleftrightarrow> path = dir @ ''/'' @ name \<and> CHR ''/'' \<notin> set name"
proof
  assume "entry_name dir path = Some name"
  then have t: "take (length dir + 1) path = dir @ ''/''" "name = drop (length dir + 1) path" "CHR ''/'' \<notin> set name"
    by (auto simp: entry_name_def split: if_splits)
  then show "path = dir @ ''/'' @ name \<and> CHR ''/'' \<notin> set name"
    using append_take_drop_id [of "length dir + 1" path] by simp
qed (auto simp: entry_name_def)

lemma entry_name_path [simp]: "CHR ''/'' \<notin> set name \<Longrightarrow> entry_name dir (dir @ CHR ''/'' # name) = Some name"
  by (simp add: entry_name_Some)

lemma msg_path_inj [simp]: "msg_path dir k = msg_path dir j \<longleftrightarrow> k = j"
  by (simp add: msg_path_def)

lemma dir_entries_set: "name \<in> set (dir_entries dir fs) \<longleftrightarrow> dir @ ''/'' @ name \<in> fst ` set (fs_files fs) \<and> CHR ''/'' \<notin> set name"
proof -
  have "name \<in> set (dir_entries dir fs) \<longleftrightarrow> (\<exists>path \<in> fst ` set (fs_files fs). entry_name dir path = Some name)"
    by (auto simp: dir_entries_def List.map_filter_def image_iff) (metis fst_conv option.sel)
  then show ?thesis by (auto simp: entry_name_Some)
qed

text \<open>Updating a file of the store.\<close>

lemma file_good_update:
  assumes "file_good dir fs" "plain_key k"
  shows "file_good dir (fs\<lparr>fs_files := AList.update (msg_path dir k) v (fs_files fs)\<rparr>)"
    and "file_data dir (fs\<lparr>fs_files := AList.update (msg_path dir k) v (fs_files fs)\<rparr>) = (file_data dir fs)(k \<mapsto> v)"
proof -
  have "\<exists>k. plain_key k \<and> name = k @ MESSAGE_FILENAME_EXTENSION"
    if "name \<in> set (dir_entries dir (fs\<lparr>fs_files := AList.update (msg_path dir k) v (fs_files fs)\<rparr>))" for name
  proof (cases "dir @ ''/'' @ name = msg_path dir k")
    case True
    with assms(2) show ?thesis by (auto simp: msg_path_def)
  next
    case False
    with that have "name \<in> set (dir_entries dir fs)" by (auto simp: dir_entries_set dom_update)
    with assms(1) show ?thesis by (simp add: file_good_def)
  qed
  with assms show "file_good dir (fs\<lparr>fs_files := AList.update (msg_path dir k) v (fs_files fs)\<rparr>)"
    by (simp add: file_good_def distinct_update)
  show "file_data dir (fs\<lparr>fs_files := AList.update (msg_path dir k) v (fs_files fs)\<rparr>) = (file_data dir fs)(k \<mapsto> v)"
    using assms(2) by (auto simp: file_data_def fun_eq_iff update_conv')
qed

lemma file_good_delete:
  assumes "file_good dir fs" "plain_key k"
  shows "file_good dir (fs\<lparr>fs_files := AList.delete (msg_path dir k) (fs_files fs)\<rparr>)"
    and "file_data dir (fs\<lparr>fs_files := AList.delete (msg_path dir k) (fs_files fs)\<rparr>) = (file_data dir fs)(k := None)"
proof -
  have "name \<in> set (dir_entries dir fs)" if "name \<in> set (dir_entries dir (fs\<lparr>fs_files := AList.delete (msg_path dir k) (fs_files fs)\<rparr>))" for name
    using that by (auto simp: dir_entries_set simp flip: set_map simp add: delete_keys)
  with assms show "file_good dir (fs\<lparr>fs_files := AList.delete (msg_path dir k) (fs_files fs)\<rparr>)"
    by (auto simp: file_good_def delete_keys distinct_removeAll)
  show "file_data dir (fs\<lparr>fs_files := AList.delete (msg_path dir k) (fs_files fs)\<rparr>) = (file_data dir fs)(k := None)"
    using assms(2) by (auto simp: file_data_def fun_eq_iff delete_conv')
qed

lemma pstremove_effect:
  assumes "file_good dir fs" "plain_key k" "pstremove env al (Some dir) k fs = (rc, fs')"
  shows "file_good dir fs' \<and> file_data dir fs' = (if rc = 0 then (file_data dir fs)(k := None) else file_data dir fs)"
  using assms file_good_delete [OF assms(1,2)]
  by (auto simp: pstremove_def MQTTCLIENT_PERSISTENCE_ERROR_def PAHO_MEMORY_ERROR_def file_data_def fun_eq_iff split: if_splits option.splits)

lemma fwrite_all_whole: "length (fwrite_all limit i bufs) = length (concat bufs) \<Longrightarrow> fwrite_all limit i bufs = concat bufs"
proof (induction bufs arbitrary: i)
  case (Cons b bs)
  have le: "length (fwrite_all limit j cs) \<le> length (concat cs)" for j cs
    by (induction cs arbitrary: j) (auto simp: upto_limit_def add_mono split: option.splits)
  have "length (upto_limit (limit i) b) \<le> length b" by (simp add: upto_limit_def split: option.splits)
  with Cons.prems le [of "Suc i" bs] have "length (upto_limit (limit i) b) = length b" "length (fwrite_all limit (Suc i) bs) = length (concat bs)"
    by auto
  with Cons.IH show ?case by (auto simp: upto_limit_def split: option.splits)
qed simp

text \<open>The keys of a store directory are the names of its files without the extension.\<close>

lemma dir_entries_distinct: "distinct (map fst (fs_files fs)) \<Longrightarrow> distinct (dir_entries dir fs)"
proof -
  have "distinct (List.map_filter (entry_name dir) ps)" if "distinct ps" for ps
  proof -
    have "inj_on (the \<circ> entry_name dir) (set (filter (\<lambda>p. entry_name dir p \<noteq> None) ps))"
      by (intro inj_onI) (auto simp: entry_name_Some)
    then show ?thesis using that by (simp add: List.map_filter_def distinct_map)
  qed
  then show "distinct (map fst (fs_files fs)) \<Longrightarrow> distinct (dir_entries dir fs)" by (simp add: dir_entries_def)
qed

lemma entries_of_keys:
  assumes "file_good dir fs"
  shows "dir_entries dir fs = map (\<lambda>k. k @ MESSAGE_FILENAME_EXTENSION) (map file_key (dir_entries dir fs))"
proof -
  have "file_key name @ MESSAGE_FILENAME_EXTENSION = name" if "name \<in> set (dir_entries dir fs)" for name
    using assms that by (auto simp: file_good_def)
  then show ?thesis by (simp add: map_idI)
qed

lemma file_keys:
  assumes "file_good dir fs"
  shows "distinct (map file_key (dir_entries dir fs))" and "set (map file_key (dir_entries dir fs)) = dom (file_data dir fs)"
proof -
  have "distinct (map (\<lambda>k. k @ MESSAGE_FILENAME_EXTENSION) (map file_key (dir_entries dir fs)))"
    using entries_of_keys [OF assms] dir_entries_distinct [of fs dir] assms by (simp add: file_good_def)
  then show "distinct (map file_key (dir_entries dir fs))" using distinct_map by blast
  show "set (map file_key (dir_entries dir fs)) = dom (file_data dir fs)"
  proof (intro set_eqI iffI)
    fix k assume "k \<in> set (map file_key (dir_entries dir fs))"
    then obtain name where n: "name \<in> set (dir_entries dir fs)" "k = file_key name" by auto
    with assms obtain j where "plain_key j" "name = j @ MESSAGE_FILENAME_EXTENSION" by (auto simp: file_good_def)
    with n show "k \<in> dom (file_data dir fs)"
      by (auto simp: dir_entries_set file_data_def msg_path_def domIff map_of_eq_None_iff)
  next
    fix k assume k: "k \<in> dom (file_data dir fs)"
    then have p: "plain_key k" "msg_path dir k \<in> fst ` set (fs_files fs)"
      by (auto simp: file_data_def dom_map_of_conv_image_fst [symmetric] split: if_splits)
    then have "k @ MESSAGE_FILENAME_EXTENSION \<in> set (dir_entries dir fs)"
      by (simp add: dir_entries_set msg_path_def plain_key_def MESSAGE_FILENAME_EXTENSION_def)
    with p(1) show "k \<in> set (map file_key (dir_entries dir fs))" by (force simp: image_iff)
  qed
qed

lemma containskey_loop_found: "containskey_loop al dir k names = 0 \<Longrightarrow> k \<in> set (map file_key names)"
  by (induction names) (auto simp: MQTTCLIENT_PERSISTENCE_ERROR_def PAHO_MEMORY_ERROR_def split: if_splits)

lemma pstput_effect:
  assumes "file_good dir fs" "plain_key k" "pstput env al (Some dir) k bufs fs = (rc, fs')"
  shows "file_good dir fs' \<and> (if rc = 0 \<and> flush_limit env (msg_path dir k) = None then file_data dir fs' = (file_data dir fs)(k \<mapsto> concat bufs)
    else file_data dir fs' = file_data dir fs \<or> file_data dir fs' = (file_data dir fs)(k := None) \<or>
      (\<exists>part. file_data dir fs' = (file_data dir fs)(k \<mapsto> part)))"
proof -
  define written where "written = fwrite_all (write_limit env (msg_path dir k)) 0 bufs"
  define flushed where "flushed = upto_limit (flush_limit env (msg_path dir k)) written"
  define fs1 where "fs1 = fs\<lparr>fs_files := AList.update (msg_path dir k) flushed (fs_files fs)\<rparr>"
  note up = file_good_update [OF assms(1,2), of flushed, folded fs1_def]
  have rm: "file_good dir fs2 \<and> (file_data dir fs2 = (file_data dir fs)(k := None) \<or> (\<exists>part. file_data dir fs2 = (file_data dir fs)(k \<mapsto> part)))"
    if "pstremove env al (Some dir) k fs1 = (r, fs2)" for r fs2
    using pstremove_effect [OF up(1) assms(2) that] up(2) by (cases "r = 0") auto
  consider "rc \<noteq> 0" "fs' = fs" | "length written = length (concat bufs)" "rc = 0" "fs' = fs1"
    | "rc \<noteq> 0" "fs' = snd (pstremove env al (Some dir) k fs1)"
    using assms(3) by (auto simp: pstput_def Let_def written_def flushed_def fs1_def MQTTCLIENT_PERSISTENCE_ERROR_def PAHO_MEMORY_ERROR_def split: if_splits)
  then show ?thesis
  proof cases
    case 1
    with assms(1) show ?thesis by simp
  next
    case 2
    then have "written = concat bufs" using fwrite_all_whole [of "write_limit env (msg_path dir k)" 0 bufs] by (simp add: written_def)
    with 2 up show ?thesis by (auto simp: flushed_def upto_limit_def)
  next
    case 3
    with rm [of "fst (pstremove env al (Some dir) k fs1)" fs'] show ?thesis by (metis prod.collapse)
  qed
qed

interpretation file_store: persistent_store "file_ops (flushing env) al dir" "file_data dir" "file_good dir" plain_key for env al dir
proof
  fix s k bufs rc s'
  assume "file_good dir s" "plain_key k" "s_put (file_ops (flushing env) al dir) k bufs s = (rc, s')"
  then show "file_good dir s' \<and> (if rc = 0 then file_data dir s' = (file_data dir s)(k \<mapsto> concat bufs)
        else file_data dir s' = file_data dir s \<or> file_data dir s' = (file_data dir s)(k := None) \<or>
          (\<exists>part. file_data dir s' = (file_data dir s)(k \<mapsto> part)))"
    using pstput_effect [of dir s k "flushing env" al bufs rc s'] by (simp add: file_ops_def)
next
  fix s k rc r
  assume "file_good dir s" "plain_key k" "s_get (file_ops (flushing env) al dir) k s = (rc, r)" "rc = 0"
  then show "r \<noteq> None \<and> file_data dir s k = r"
    by (cases "map_of (fs_files s) (msg_path dir k)"; cases r)
      (auto simp: file_ops_def pstget_def Let_def file_data_def upto_limit_def MQTTCLIENT_PERSISTENCE_ERROR_def PAHO_MEMORY_ERROR_def
        split: option.splits if_splits)
next
  fix s k rc s'
  assume "file_good dir s" "plain_key k" "s_remove (file_ops (flushing env) al dir) k s = (rc, s')"
  then show "file_good dir s' \<and> file_data dir s' = (if rc = 0 then (file_data dir s)(k := None) else file_data dir s)"
    by (intro pstremove_effect) (auto simp: file_ops_def)
next
  fix s ks
  assume "file_good dir s" "s_keys (file_ops (flushing env) al dir) s = (0, ks)"
  then show "distinct ks \<and> set ks = dom (file_data dir s)"
    using file_keys [of dir s] by (auto simp: file_ops_def pstkeys_def keysUnix_def Let_def MQTTCLIENT_PERSISTENCE_ERROR_def PAHO_MEMORY_ERROR_def split: if_splits)
next
  fix s k
  assume "file_good dir s" "plain_key k" "s_containskey (file_ops (flushing env) al dir) k s = 0"
  then have "k \<in> set (map file_key (dir_entries dir s))"
    by (intro containskey_loop_found) (auto simp: file_ops_def pstcontainskey_def containskeyUnix_def MQTTCLIENT_PERSISTENCE_ERROR_def split: if_splits)
  then show "file_data dir s k \<noteq> None" using \<open>file_good dir s\<close> file_keys [of dir s] by auto
next
  fix s
  show "dom (file_data dir s) \<subseteq> Collect plain_key" by (auto simp: file_data_def split: if_splits)
qed

section \<open>Runs of a store\<close>

text \<open>
  Any sequence of writes and removals, each under faults of its own. What is known of a key afterwards: the
  bytes of its last write, nothing after a removal, and no knowledge after a write that failed.
\<close>

datatype store_call = Put string "byte list list" | Remove string

fun store_step :: "string \<Rightarrow> (fs_faults \<times> (int \<Rightarrow> bool)) \<times> store_call \<Rightarrow> filesys \<Rightarrow> int \<times> filesys" where
  "store_step dir ((env, al), Put k bufs) fs = pstput env al (Some dir) k bufs fs"
| "store_step dir ((env, al), Remove k) fs = pstremove env al (Some dir) k fs"

fun call_key :: "store_call \<Rightarrow> string" where
  "call_key (Put k bufs) = k"
| "call_key (Remove k) = k"

fun known_after :: "string \<Rightarrow> store_call \<Rightarrow> int \<Rightarrow> byte list option option \<Rightarrow> byte list option option" where
  "known_after k (Put j bufs) rc old = (if j \<noteq> k then old else if rc = 0 then Some (Some (concat bufs)) else None)"
| "known_after k (Remove j) rc old = (if j \<noteq> k \<or> rc \<noteq> 0 then old else Some None)"

fun store_run ::
  "string \<Rightarrow> ((fs_faults \<times> (int \<Rightarrow> bool)) \<times> store_call) list \<Rightarrow> string \<Rightarrow> byte list option option \<times> filesys \<Rightarrow> byte list option option \<times> filesys" where
  "store_run dir [] k (old, fs) = (old, fs)"
| "store_run dir (c # cs) k (old, fs) =
     (let (rc, fs1) = store_step dir c fs in store_run dir cs k (known_after k (snd c) rc old, fs1))"

lemma store_step_known:
  assumes "file_good dir fs" "plain_key (call_key (snd c))" "store_step dir c fs = (rc, fs')"
    and flush: "call_key (snd c) = k \<Longrightarrow> flush_limit (fst (fst c)) (msg_path dir k) = None"
    and old: "\<And>v. old = Some v \<Longrightarrow> file_data dir fs k = v" and new: "known_after k (snd c) rc old = Some v"
  shows "file_good dir fs' \<and> file_data dir fs' k = v"
proof -
  obtain env al call where c: "c = ((env, al), call)" by (metis prod.collapse)
  show ?thesis
  proof (cases call)
    case (Put j bufs)
    then have "pstput env al (Some dir) j bufs fs = (rc, fs')" "plain_key j" using assms c by auto
    from pstput_effect [OF assms(1) this(2,1)] old new c Put flush show ?thesis by (auto split: if_splits)
  next
    case (Remove j)
    then have "pstremove env al (Some dir) j fs = (rc, fs')" "plain_key j" using assms c by auto
    from pstremove_effect [OF assms(1) this(2,1)] old new c Remove show ?thesis by (auto split: if_splits)
  qed
qed

lemma store_step_good: "file_good dir fs \<Longrightarrow> plain_key (call_key (snd c)) \<Longrightarrow> store_step dir c fs = (rc, fs') \<Longrightarrow> file_good dir fs'"
  by (cases c; cases "snd c") (auto dest: pstput_effect pstremove_effect)

lemma store_run_known:
  assumes "file_good dir fs" "list_all (\<lambda>c. plain_key (call_key (snd c)) \<and> (call_key (snd c) = k \<longrightarrow> flush_limit (fst (fst c)) (msg_path dir k) = None)) cs" "\<And>v. old = Some v \<Longrightarrow> file_data dir fs k = v"
    "store_run dir cs k (old, fs) = (now, fs')"
  shows "file_good dir fs' \<and> (\<forall>v. now = Some v \<longrightarrow> file_data dir fs' k = v)"
  using assms
proof (induction cs arbitrary: old fs)
  case (Cons c cs)
  obtain rc fs1 where s: "store_step dir c fs = (rc, fs1)" by fastforce
  have "file_good dir fs1" using store_step_good [of dir fs c rc fs1] Cons.prems s by simp
  moreover have "file_data dir fs1 k = v" if "known_after k (snd c) rc old = Some v" for v
    using store_step_known [OF Cons.prems(1) _ s _ Cons.prems(3) that] Cons.prems(2) by simp
  ultimately show ?case using Cons.IH [of fs1 "known_after k (snd c) rc old"] Cons.prems s by (simp add: Let_def)
qed simp

lemma pstget_data:
  assumes "plain_key k" "pstget env al (Some dir) k fs = (rc, r)"
  shows "rc = 0 \<Longrightarrow> r \<noteq> None \<and> r = file_data dir fs k"
    and "file_data dir fs k = Some v \<Longrightarrow> malloc_ok al (path_size dir k) \<Longrightarrow> malloc_ok al (int (length v)) \<Longrightarrow>
      open_ok env (msg_path dir k) \<Longrightarrow> read_limit env (msg_path dir k) = None \<Longrightarrow> rc = 0"
  using assms
  by (cases "map_of (fs_files fs) (msg_path dir k)"; cases r; auto simp: pstget_def Let_def file_data_def upto_limit_def
      MQTTCLIENT_PERSISTENCE_ERROR_def PAHO_MEMORY_ERROR_def split: option.splits if_splits)+


definition sound_fs :: fs_faults where
  "sound_fs = \<lparr>open_ok = \<lambda>p. True, write_limit = \<lambda>p i. None, read_limit = \<lambda>p. None, unlink_ok = \<lambda>p. True,
     mkdir_ok = \<lambda>p. True, rmdir_ok = \<lambda>p. True, flush_limit = \<lambda>p. None\<rparr>"

lemma flushes_sound: "flushes sound_fs" "flushing sound_fs = sound_fs"
  by (simp_all add: flushes_def flushing_def sound_fs_def)

interpretation sound_store: persistent_store "file_ops sound_fs al dir" "file_data dir" "file_good dir" plain_key for al dir
  by (rule file_store.persistent_store_axioms [of sound_fs, unfolded flushes_sound])

definition full_disk :: fs_faults where
  "full_disk = sound_fs\<lparr>write_limit := \<lambda>p i. Some 1\<rparr>"

definition full_at_close :: fs_faults where
  "full_at_close = sound_fs\<lparr>flush_limit := \<lambda>p. Some 1\<rparr>"

definition sample_fs :: filesys where
  "sample_fs = \<lparr>fs_dirs = [''d''], fs_files = [(''x/s-7.msg'', [9])], fs_cwd = ''x''\<rparr>"

definition sample_calls :: "((fs_faults \<times> (int \<Rightarrow> bool)) \<times> store_call) list" where
  "sample_calls = [((sound_fs, \<lambda>n. True), Put ''s-7'' [[1, 2], [3]]), ((full_disk, \<lambda>n. True), Put ''s-8'' [[4, 5]]),
     ((full_at_close, \<lambda>n. True), Put ''s-9'' [[6, 7]]),
     ((sound_fs, \<lambda>n. True), Remove ''r-7'')]"

definition sample_after :: filesys where
  "sample_after = sample_fs\<lparr>fs_files := [(''x/s-7.msg'', [9]), (''d/s-7.msg'', [1, 2, 3]), (''d/s-9.msg'', [6])]\<rparr>"

lemma sample_fs_good: "file_good ''d'' sample_fs"
  by (simp add: file_good_def sample_fs_def dir_entries_def List.map_filter_def entry_name_def)


text \<open>
  When the disk is full by the time \<^verbatim>\<open>fclose\<close> writes the buffered bytes, success is reported and the file is
  truncated.
\<close>

lemma truncated_reported_ok:
  "pstput full_at_close (\<lambda>n. True) (Some ''d'') ''s-7'' [[1, 2], [3]] sample_fs =
     (0, sample_fs\<lparr>fs_files := [(''x/s-7.msg'', [9]), (''d/s-7.msg'', [1])]\<rparr>)"
  by code_simp

section \<open>Clearing\<close>

lemma same_dir: "CHR ''/'' \<notin> set a \<Longrightarrow> CHR ''/'' \<notin> set b \<Longrightarrow> d @ CHR ''/'' # a = e @ CHR ''/'' # b \<longleftrightarrow> d = e \<and> a = b"
  by (auto simp: append_eq_append_conv2 Cons_eq_append_conv append_eq_Cons_conv)

text \<open>
  The names found in the directory of the store are removed from the current directory of the process: the
  store keeps its data, and another store that lies there loses what it has under the same keys.
\<close>

lemma clear_loop_deletes:
  assumes "\<And>p. unlink_ok env p" "clear_loop env names fs = (rc, fs')"
  shows "rc = 0 \<and> map_of (fs_files fs') p = (if p \<in> (\<lambda>n. fs_cwd fs @ ''/'' @ n) ` set names then None else map_of (fs_files fs) p)"
  using assms(2)
proof (induction names arbitrary: fs)
  case (Cons n names)
  let ?path = "fs_cwd fs @ ''/'' @ n"
  show ?case
  proof (cases "map_of (fs_files fs) ?path")
    case None
    with Cons show ?thesis by auto
  next
    case (Some c)
    with Cons.prems assms(1) have "clear_loop env names (fs\<lparr>fs_files := AList.delete ?path (fs_files fs)\<rparr>) = (rc, fs')" by simp
    from Cons.IH [OF this] show ?thesis by (auto simp: delete_conv')
  qed
qed simp

lemma pstclear_misses_store:
  assumes "file_good dir fs" "\<And>p. unlink_ok env p" "fs_cwd fs \<noteq> dir" "pstclear env (Some dir) fs = (rc, fs')"
  shows "rc = 0 \<and> file_data dir fs' = file_data dir fs \<and> (\<forall>k. file_data dir fs k \<noteq> None \<longrightarrow> file_data (fs_cwd fs) fs' k = None)"
proof -
  have loop: "clear_loop env (dir_entries dir fs) fs = (rc, fs')"
    using assms(1,4) by (auto simp: pstclear_def clearUnix_def file_good_def split: if_splits)
  note del = clear_loop_deletes [OF assms(2) loop]
  have "file_data dir fs' k = file_data dir fs k" for k
    using assms(3) del [of "msg_path dir k"]
    by (auto simp: file_data_def msg_path_def plain_key_def MESSAGE_FILENAME_EXTENSION_def same_dir dir_entries_set)
  moreover have "file_data (fs_cwd fs) fs' k = None" if "file_data dir fs k \<noteq> None" for k
  proof -
    have "plain_key k" "msg_path dir k \<in> fst ` set (fs_files fs)"
      using that by (auto simp: file_data_def dom_map_of_conv_image_fst [symmetric] split: if_splits)
    then have "k @ MESSAGE_FILENAME_EXTENSION \<in> set (dir_entries dir fs)"
      by (simp add: dir_entries_set msg_path_def plain_key_def MESSAGE_FILENAME_EXTENSION_def)
    then show ?thesis using del [of "msg_path (fs_cwd fs) k"] by (simp add: file_data_def msg_path_def)
  qed
  ultimately show ?thesis using del by auto
qed

section \<open>Opening\<close>

text \<open>After a successful opening the directory of the client exists.\<close>

lemma mkdir_keeps: "pstmkdir env p fs = (rc, fs') \<Longrightarrow> set (fs_dirs fs) \<subseteq> set (fs_dirs fs') \<and> (rc = 0 \<longrightarrow> p \<in> set (fs_dirs fs')) \<and> fs_files fs' = fs_files fs"
  by (auto simp: pstmkdir_def MQTTCLIENT_PERSISTENCE_ERROR_def split: if_splits)

lemma mkdir_levels_made:
  "mkdir_levels env crt toks fs = (0, fs') \<Longrightarrow> crt \<in> set (fs_dirs fs) \<Longrightarrow>
     crt @ concat (map (\<lambda>t. ''/'' @ t) toks) \<in> set (fs_dirs fs') \<and> fs_files fs' = fs_files fs"
proof (induction toks arbitrary: crt fs)
  case (Cons t toks)
  obtain rc fs1 where m: "pstmkdir env (crt @ ''/'' @ t) fs = (rc, fs1)" by fastforce
  then have "rc = 0" "mkdir_levels env (crt @ ''/'' @ t) toks fs1 = (0, fs')" using Cons.prems(1) by (auto simp: Let_def split: if_splits)
  with Cons.IH [of "crt @ ''/'' @ t" fs1] mkdir_keeps [OF m] show ?case by simp
qed simp

lemma pstopen_makes_dir:
  assumes "pstopen env al clientID serverURI dataDir fs = Inr (0, Some dir, fs')"
    and "dir = tok @ concat (map (\<lambda>t. ''/'' @ t) toks)" "strtok dir = tok # toks" "\<not> is_sep (hd dir)"
  shows "dir \<in> set (fs_dirs fs') \<and> fs_files fs' = fs_files fs"
proof -
  have d: "dir = client_dir dataDir clientID serverURI" using assms(1)
    by (auto simp: pstopen_def Let_def split: if_splits list.splits prod.splits)
  obtain rc fs1 where m: "pstmkdir env tok fs = (rc, fs1)" by fastforce
  then have "rc = 0" "mkdir_levels env tok toks fs1 = (0, fs')"
    using assms d by (auto simp: pstopen_def Let_def split: if_splits prod.splits)
  with mkdir_levels_made [of env tok toks fs1 fs'] mkdir_keeps [OF m] assms(2) show ?thesis by simp
qed

end
