(* ===== verification/Persistence.thy ===== *)
theory Persistence
  imports File_Store Config_File Protocol_Session
begin

text \<open>
  Persistence of messages, \<^verbatim>\<open>MQTTPersistence.c\<close>, over any store: packets that are in flight are written under a
  key made of a stem and the message id and restored when the client is created again, in the order in which
  they were sent; messages that wait for the application are written under a sequence number.

  The store is an argument, with the contract of the locale \<open>persistent_store\<close>. \<open>None\<close> stands for a client without
  persistence. The callbacks \<^verbatim>\<open>beforeWrite\<close> and \<^verbatim>\<open>afterRead\<close> of the application are arguments as well.
\<close>

section \<open>Keys\<close>

definition PERSISTENCE_PUBLISH_SENT :: string where "PERSISTENCE_PUBLISH_SENT = ''s-''"
definition PERSISTENCE_PUBREL :: string where "PERSISTENCE_PUBREL = ''sc-''"
definition PERSISTENCE_PUBLISH_RECEIVED :: string where "PERSISTENCE_PUBLISH_RECEIVED = ''r-''"
definition PERSISTENCE_V5_PUBLISH_SENT :: string where "PERSISTENCE_V5_PUBLISH_SENT = ''s5-''"
definition PERSISTENCE_V5_PUBREL :: string where "PERSISTENCE_V5_PUBREL = ''sc5-''"
definition PERSISTENCE_V5_PUBLISH_RECEIVED :: string where "PERSISTENCE_V5_PUBLISH_RECEIVED = ''r5-''"
definition PERSISTENCE_COMMAND_KEY :: string where "PERSISTENCE_COMMAND_KEY = ''c-''"
definition PERSISTENCE_V5_COMMAND_KEY :: string where "PERSISTENCE_V5_COMMAND_KEY = ''c5-''"
definition PERSISTENCE_QUEUE_KEY :: string where "PERSISTENCE_QUEUE_KEY = ''q-''"
definition PERSISTENCE_V5_QUEUE_KEY :: string where "PERSISTENCE_V5_QUEUE_KEY = ''q5-''"

definition PERSISTENCE_MAX_KEY_LENGTH :: nat where "PERSISTENCE_MAX_KEY_LENGTH = 9"
definition PERSISTENCE_SEQNO_LIMIT :: nat where "PERSISTENCE_SEQNO_LIMIT = 1000000"
definition MESSAGE_FILENAME_LENGTH :: nat where "MESSAGE_FILENAME_LENGTH = 8"

lemmas stem_defs = PERSISTENCE_PUBLISH_SENT_def PERSISTENCE_PUBREL_def PERSISTENCE_PUBLISH_RECEIVED_def
  PERSISTENCE_V5_PUBLISH_SENT_def PERSISTENCE_V5_PUBREL_def PERSISTENCE_V5_PUBLISH_RECEIVED_def PERSISTENCE_COMMAND_KEY_def
  PERSISTENCE_V5_COMMAND_KEY_def PERSISTENCE_QUEUE_KEY_def PERSISTENCE_V5_QUEUE_KEY_def

text \<open>
  \<^verbatim>\<open>malloc\<close> is \<^verbatim>\<open>mymalloc\<close> of \<^verbatim>\<open>Heap.c\<close> unless the library is built for high performance, and that rounds sizes up:
  \<open>usable n\<close> is the number of bytes behind the pointer for a request of \<open>n\<close> bytes.
\<close>

definition Heap_roundup :: "nat \<Rightarrow> nat" where
  "Heap_roundup n = (if n mod 16 \<noteq> 0 then n + (16 - n mod 16) else n)"

record persist_env =
  pe_env :: env
  usable :: "nat \<Rightarrow> nat"
  beforeWrite :: "(byte list list \<Rightarrow> int \<times> byte list list) option"
  afterRead :: "(byte list \<Rightarrow> int \<times> byte list) option"

definition dec_int :: "int \<Rightarrow> string" where
  "dec_int n = (if n < 0 then CHR ''-'' # dec_str (nat (- n)) else dec_str (nat n))"

text \<open>\<^verbatim>\<open>sprintf(key, "%s%d", stem, n)\<close> into a buffer of \<open>room\<close> bytes.\<close>

definition sprintf_key :: "nat \<Rightarrow> string \<Rightarrow> int \<Rightarrow> string res" where
  "sprintf_key room stem n = guardR OverWrite (length stem + length (dec_int n) < room) (Inr (stem @ dec_int n))"

definition key_size :: "persist_env \<Rightarrow> nat" where
  "key_size pe = usable pe (MESSAGE_FILENAME_LENGTH + 1)"

section \<open>Writing and removing packets\<close>

text \<open>What the callback makes of the buffers, and what it makes of data that was read.\<close>

definition before_write :: "persist_env \<Rightarrow> byte list list \<Rightarrow> int \<times> byte list list" where
  "before_write pe bufs = (case beforeWrite pe of None \<Rightarrow> (0, bufs) | Some f \<Rightarrow> f bufs)"

definition after_read :: "persist_env \<Rightarrow> byte list \<Rightarrow> int \<times> byte list" where
  "after_read pe buf = (case afterRead pe of None \<Rightarrow> (0, buf) | Some f \<Rightarrow> f buf)"

definition packet_stem :: "nat \<Rightarrow> int \<Rightarrow> int \<Rightarrow> string option" where
  "packet_stem htype scr version =
     (if scr = 0 then
        Some (if htype = PUBLISH then (if 5 \<le> version then PERSISTENCE_V5_PUBLISH_SENT else PERSISTENCE_PUBLISH_SENT)
              else if htype = PUBREL then (if 5 \<le> version then PERSISTENCE_V5_PUBREL else PERSISTENCE_PUBREL)
              else PERSISTENCE_PUBLISH_SENT)
      else if scr = 1 then Some (if 5 \<le> version then PERSISTENCE_V5_PUBLISH_RECEIVED else PERSISTENCE_PUBLISH_RECEIVED)
      else None)"

text \<open>For the client of the socket. The key is indeterminate when \<^verbatim>\<open>scr\<close> is neither 0 nor 1.\<close>

definition MQTTPersistence_putPacket ::
  "persist_env \<Rightarrow> 's store_ops option \<Rightarrow> byte list \<Rightarrow> byte list list \<Rightarrow> nat \<Rightarrow> int \<Rightarrow> int \<Rightarrow> int \<Rightarrow> 's \<Rightarrow> (int \<times> 's) res" where
  "MQTTPersistence_putPacket pe per buf0 buffers htype msgId scr version s =
     (case per of
        None \<Rightarrow> Inr (0, s)
      | Some ops \<Rightarrow>
          let al = alloc (pe_env pe); nbufs = 1 + int (length buffers) in
          if \<not> malloc_ok al (int MESSAGE_FILENAME_LENGTH + 1) \<or> \<not> malloc_ok al (4 * nbufs) \<or> \<not> malloc_ok al (8 * nbufs)
          then Inr (PAHO_MEMORY_ERROR, s)
          else
            (case packet_stem htype scr version of
               None \<Rightarrow> Inl UninitRead
             | Some stem \<Rightarrow>
                 bindR (sprintf_key (key_size pe) stem msgId) (\<lambda>key.
                   let (rc, bufs) = before_write pe (buf0 # buffers) in
                   Inr (if rc = 0 then s_put ops key bufs s else (rc, s)))))"

text \<open>Removing a sequence of keys; the codes are added.\<close>

fun remove_keys :: "nat \<Rightarrow> 's store_ops \<Rightarrow> int \<Rightarrow> string list \<Rightarrow> int \<Rightarrow> 's \<Rightarrow> (int \<times> 's) res" where
  "remove_keys room ops msgId [] rc s = Inr (rc, s)"
| "remove_keys room ops msgId (stem # stems) rc s =
     bindR (sprintf_key room stem msgId) (\<lambda>key.
       let (rc1, s1) = s_remove ops key s in remove_keys room ops msgId stems (rc + rc1) s1)"

definition MQTTPersistence_remove :: "persist_env \<Rightarrow> 's store_ops option \<Rightarrow> string \<Rightarrow> int \<Rightarrow> 's \<Rightarrow> (int \<times> 's) res" where
  "MQTTPersistence_remove pe per type msgId s =
     (case per of
        None \<Rightarrow> Inr (0, s)
      | Some ops \<Rightarrow>
          if \<not> malloc_ok (alloc (pe_env pe)) (int MESSAGE_FILENAME_LENGTH + 1) then Inr (PAHO_MEMORY_ERROR, s)
          else if type = PERSISTENCE_PUBLISH_SENT \<or> type = PERSISTENCE_V5_PUBLISH_SENT then
            remove_keys (key_size pe) ops msgId
              [PERSISTENCE_V5_PUBLISH_SENT, PERSISTENCE_V5_PUBREL, PERSISTENCE_PUBLISH_SENT, PERSISTENCE_PUBREL] 0 s
          else remove_keys (key_size pe) ops msgId [PERSISTENCE_V5_PUBLISH_RECEIVED, PERSISTENCE_PUBLISH_RECEIVED] 0 s)"

section \<open>Restoring packets\<close>

text \<open>
  The remaining length of a stored packet. The loop has no bound of four bytes: with a fifth byte the
  multiplier leaves the range of \<open>int\<close>.
\<close>

fun stored_length :: "byte list \<Rightarrow> int \<Rightarrow> int \<Rightarrow> nat \<Rightarrow> (int \<times> nat \<times> byte list) res" where
  "stored_length [] remaining_length multiplier n = Inl OverRead"
| "stored_length (c # bs) remaining_length multiplier n =
     (let len = remaining_length + int (low7 c) * multiplier; m = multiplier * 128 in
      guardR SignedOverflow (in_int len \<and> in_int m) (if goes_on c then stored_length bs len m (Suc n) else Inr (len, Suc n, bs)))"

definition MQTTPersistence_restorePacket :: "(int \<Rightarrow> bool) \<Rightarrow> int \<Rightarrow> byte list \<Rightarrow> packet option res" where
  "MQTTPersistence_restorePacket al version buffer =
     (case buffer of
        [] \<Rightarrow> Inl OverRead
      | header # bs \<Rightarrow>
          bindR (stored_length bs 0 1 1) (\<lambda>(remaining_length, fixed_header_length, data).
            let ptype = hdr_type header in
            if int fixed_header_length + remaining_length = int (length buffer) \<and> CONNECT \<le> ptype \<and> ptype \<le> DISCONNECT
            then (case new_packets al version header data (nat remaining_length) ! ptype of None \<Rightarrow> Inr None | Some pack \<Rightarrow> pack)
            else Inr None))"

definition MQTTPersistence_insertInOrder :: "Messages \<Rightarrow> Messages list \<Rightarrow> Messages list" where
  "MQTTPersistence_insertInOrder m ms =
     (let before = takeWhile (\<lambda>x. \<not> m_msgid m < m_msgid x) ms in before @ m # drop (length before) ms)"

text \<open>The position of the widest gap, if it is wider than the one between the last id and the first.\<close>

fun widest_gap :: "int list \<Rightarrow> nat \<Rightarrow> int \<Rightarrow> nat option \<Rightarrow> nat option" where
  "widest_gap (prev # cur # ids) i gap wrapel =
     (if gap < cur - prev then widest_gap (cur # ids) (Suc i) (cur - prev) (Some i) else widest_gap (cur # ids) (Suc i) gap wrapel)"
| "widest_gap ids i gap wrapel = wrapel"

definition MQTTPersistence_wrapMsgID :: "Messages list \<Rightarrow> Messages list" where
  "MQTTPersistence_wrapMsgID ms =
     (if ms = [] then ms
      else
        let ids = map m_msgid ms in
        (case widest_gap ids 1 (MAX_MSG_ID - last ids + hd ids) None of None \<Rightarrow> ms | Some i \<Rightarrow> drop i ms @ take i ms))"

text \<open>
  The state of a client and its store. A received message of MQTT 5 has been handed to the application: its
  topic and payload are freed.
\<close>

record 's pworld =
  w_store :: 's
  w_client :: Clients
  w_proto :: MQTTProtocol

definition has_stem :: "string \<Rightarrow> string \<Rightarrow> bool" where
  "has_stem key stem \<longleftrightarrow> take (length stem) key = stem"

definition restore_received :: "persist_env \<Rightarrow> Publish \<Rightarrow> 's pworld \<Rightarrow> (int \<times> 's pworld) res" where
  "restore_received pe publish0 w =
     (let c = w_client w; publish = publish0\<lparr>pub_version := MQTTVersion c\<rparr> in
      bindR (MQTTProtocol_createMessage (pe_env pe) publish (int (hdr_qos (pub_header publish))) (int (hdr_retain (pub_header publish))) True
        (w_proto w)) (\<lambda>(msg, st).
        case msg of
          None \<Rightarrow> Inl NullDeref
        | Some m \<Rightarrow>
            let st1 = (if 5 \<le> MQTTVersion c
                       then st\<lparr>pubs := (pubs st)(the (m_publish m) := map_option (\<lambda>r. r\<lparr>p_topic := [], p_payload := []\<rparr>) (pubs st (the (m_publish m))))\<rparr>
                       else st) in
            bindR (MQTTPacket_freePublish publish) (\<lambda>_.
              Inr (0, w\<lparr>w_client := c\<lparr>inboundMsgs := inboundMsgs c @ [m\<lparr>m_next := Some PUBREL\<rparr>]\<rparr>, w_proto := st1\<rparr>))))"

definition restore_sent :: "persist_env \<Rightarrow> 's store_ops \<Rightarrow> Publish \<Rightarrow> 's pworld \<Rightarrow> (int \<times> 's pworld) res" where
  "restore_sent pe ops publish0 w =
     (let c = w_client w; publish = publish0\<lparr>pub_version := MQTTVersion c\<rparr> in
      bindR (sprintf_key (key_size pe) (if 5 \<le> pub_version publish then PERSISTENCE_V5_PUBREL else PERSISTENCE_PUBREL) (pub_msgId publish)) (\<lambda>key.
      bindR (MQTTProtocol_createMessage (pe_env pe) publish (int (hdr_qos (pub_header publish))) (int (hdr_retain (pub_header publish))) True
        (w_proto w)) (\<lambda>(msg, st).
        case msg of
          None \<Rightarrow> Inl NullDeref
        | Some m0 \<Rightarrow>
            let m1 = (if s_containskey ops key (w_store w) = 0 then m0\<lparr>m_next := Some PUBCOMP\<rparr> else m0);
                m = m1\<lparr>m_lastTouch := 0\<rparr> in
            bindR (MQTTPacket_freePublish publish) (\<lambda>_.
              Inr (0, w\<lparr>w_client := c\<lparr>outboundMsgs := MQTTPersistence_insertInOrder m (outboundMsgs c)\<rparr>, w_proto := st\<rparr>)))))"

text \<open>
  The version and the kind of a key.
\<close>

definition key_kind :: "string \<Rightarrow> int \<times> string" where
  "key_kind key =
     (if has_stem key PERSISTENCE_V5_PUBLISH_RECEIVED then (5, PERSISTENCE_PUBLISH_RECEIVED)
      else if has_stem key PERSISTENCE_V5_PUBLISH_SENT then (5, PERSISTENCE_PUBLISH_SENT)
      else if has_stem key PERSISTENCE_V5_PUBREL then (5, PERSISTENCE_PUBREL)
      else (4, key))"

definition carry_on :: "(int \<times> 's pworld) res \<Rightarrow> (int \<times> bool \<times> 's pworld) res" where
  "carry_on r = bindR r (\<lambda>(rc, w). Inr (rc, False, w))"

definition remove_record :: "'s store_ops \<Rightarrow> string \<Rightarrow> 's pworld \<Rightarrow> (int \<times> 's pworld) res" where
  "remove_record ops msgkey w = (let (rc, s) = s_remove ops msgkey (w_store w) in Inr (rc, w\<lparr>w_store := s\<rparr>))"

definition restore_pubrel :: "persist_env \<Rightarrow> 's store_ops \<Rightarrow> string \<Rightarrow> Ack \<Rightarrow> 's pworld \<Rightarrow> (int \<times> 's pworld) res" where
  "restore_pubrel pe ops msgkey pubrel w =
     (case ack_msgId pubrel of
        None \<Rightarrow> Inl UninitRead
      | Some msgId \<Rightarrow>
          bindR (sprintf_key (key_size pe) (if 5 \<le> MQTTVersion (w_client w) then PERSISTENCE_V5_PUBLISH_SENT else PERSISTENCE_PUBLISH_SENT) msgId) (\<lambda>key.
            if s_containskey ops key (w_store w) \<noteq> 0 then remove_record ops msgkey w else Inr (0, w)))"

text \<open>
  The result of a record is a code, whether the function is left at once, and the state. The kind of the packet
  is not compared with the key.
\<close>

definition restore_record :: "persist_env \<Rightarrow> 's store_ops \<Rightarrow> string \<Rightarrow> string \<Rightarrow> packet option \<Rightarrow> 's pworld \<Rightarrow> (int \<times> bool \<times> 's pworld) res" where
  "restore_record pe ops msgkey cur_key pack w =
     (case pack of
        None \<Rightarrow> carry_on (remove_record ops msgkey w)
      | Some p \<Rightarrow>
          let with_key = (\<lambda>r. if malloc_ok (alloc (pe_env pe)) (int MESSAGE_FILENAME_LENGTH + 1) then carry_on r
                else Inr (PAHO_MEMORY_ERROR, True, w)) in
          if has_stem cur_key PERSISTENCE_PUBLISH_RECEIVED then
            (case p of P_Publish publish \<Rightarrow> carry_on (restore_received pe publish w) | _ \<Rightarrow> Inl BadUnion)
          else if has_stem cur_key PERSISTENCE_PUBLISH_SENT then
            (case p of P_Publish publish \<Rightarrow> with_key (restore_sent pe ops publish w) | _ \<Rightarrow> Inl BadUnion)
          else if has_stem cur_key PERSISTENCE_PUBREL then
            (case p of P_Ack pubrel \<Rightarrow> with_key (restore_pubrel pe ops msgkey pubrel w) | _ \<Rightarrow> Inl BadUnion)
          else Inr (0, False, w))"

definition skipped_key :: "string \<Rightarrow> bool" where
  "skipped_key key \<longleftrightarrow> has_stem key PERSISTENCE_COMMAND_KEY \<or> has_stem key PERSISTENCE_V5_COMMAND_KEY \<or>
     has_stem key PERSISTENCE_QUEUE_KEY \<or> has_stem key PERSISTENCE_V5_QUEUE_KEY"

text \<open>A record of the store as the callback \<^verbatim>\<open>afterRead\<close> leaves it.\<close>

definition read_back :: "persist_env \<Rightarrow> 's store_ops \<Rightarrow> string \<Rightarrow> 's \<Rightarrow> int \<times> byte list" where
  "read_back pe ops key s = (let (rc, buffer) = s_get ops key s in if rc \<noteq> 0 then (rc, []) else after_read pe (the buffer))"

definition restore_key :: "persist_env \<Rightarrow> 's store_ops \<Rightarrow> string \<Rightarrow> 's pworld \<Rightarrow> (int \<times> bool \<times> 's pworld) res" where
  "restore_key pe ops msgkey w =
     (if skipped_key msgkey then Inr (0, False, w)
      else
        let (rc, buffer) = read_back pe ops msgkey (w_store w); (data_MQTTVersion, cur_key) = key_kind msgkey in
        if rc \<noteq> 0 then Inr (rc, False, w)
        else if data_MQTTVersion = 5 \<and> MQTTVersion (w_client w) < 5 then Inr (MQTTCLIENT_PERSISTENCE_ERROR, True, w)
        else
          bindR (MQTTPersistence_restorePacket (alloc (pe_env pe)) data_MQTTVersion buffer) (\<lambda>pack.
            restore_record pe ops msgkey cur_key pack w))"

fun restore_keys :: "persist_env \<Rightarrow> 's store_ops \<Rightarrow> string list \<Rightarrow> 's pworld \<Rightarrow> (int \<times> bool \<times> 's pworld) res" where
  "restore_keys pe ops [] w = Inr (0, False, w)"
| "restore_keys pe ops (key # keys) w =
     bindR (restore_key pe ops key w) (\<lambda>(rc, leave, w1). if rc = 0 then restore_keys pe ops keys w1 else Inr (rc, leave, w1))"

definition MQTTPersistence_restorePackets :: "persist_env \<Rightarrow> 's store_ops option \<Rightarrow> 's pworld \<Rightarrow> (int \<times> 's pworld) res" where
  "MQTTPersistence_restorePackets pe per w =
     bindR (case per of
              None \<Rightarrow> Inr (0, False, w)
            | Some ops \<Rightarrow> let (rc, msgkeys) = s_keys ops (w_store w) in if rc = 0 then restore_keys pe ops msgkeys w else Inr (rc, False, w))
       (\<lambda>(rc, leave, w1).
         Inr (rc, if leave then w1
                  else w1\<lparr>w_client := (w_client w1)\<lparr>outboundMsgs := MQTTPersistence_wrapMsgID (outboundMsgs (w_client w1))\<rparr>\<rparr>))"

section \<open>The queue of messages for the application\<close>

record qEntry =
  e_struct_version :: int
  e_payloadlen :: int
  e_payload :: "byte list"
  e_qos :: int
  e_retained :: int
  e_dup :: int
  e_msgid :: int
  e_properties :: MQTTProperties
  e_topicName :: "byte list"
  e_topicLen :: int
  e_seqno :: nat

record queue_state =
  qs_version :: int
  qentry_seqno :: nat
  qs_queue :: "qEntry list"

text \<open>An \<open>int\<close> in the memory of a little-endian machine.\<close>

definition int_bytes :: "int \<Rightarrow> byte list" where
  "int_bytes n = [word_of_int n, word_of_int (n div 256), word_of_int (n div 65536), word_of_int (n div 16777216)]"

definition get_int :: "byte list \<Rightarrow> (int \<times> byte list) res" where
  "get_int bs =
     (case bs of
        a # b # c # d # rest \<Rightarrow>
          let u = int (unat a) + 256 * int (unat b) + 65536 * int (unat c) + 16777216 * int (unat d) in
          Inr (if u < 2 ^ 31 then u else u - 2 ^ 32, rest)
      | _ \<Rightarrow> Inl OverRead)"

definition c_bytes :: "byte list \<Rightarrow> byte list" where
  "c_bytes s = takeWhile (\<lambda>b. b \<noteq> 0) s @ [0]"

definition get_cstring :: "byte list \<Rightarrow> (byte list \<times> byte list) res" where
  "get_cstring bs =
     (case dropWhile (\<lambda>b. b \<noteq> 0) bs of [] \<Rightarrow> Inl OverRead | _ # rest \<Rightarrow> Inr (takeWhile (\<lambda>b. b \<noteq> 0) bs, rest))"

definition next_seqno :: "nat \<Rightarrow> nat" where
  "next_seqno n = (if (n + 1) mod 2 ^ 32 = PERSISTENCE_SEQNO_LIMIT then 0 else (n + 1) mod 2 ^ 32)"

definition queue_key :: "int \<Rightarrow> nat \<Rightarrow> string res" where
  "queue_key version n =
     sprintf_key (PERSISTENCE_MAX_KEY_LENGTH + 1) (if 5 \<le> version then PERSISTENCE_V5_QUEUE_KEY else PERSISTENCE_QUEUE_KEY) (int n)"

definition MQTTPersistence_unpersistQueueEntry :: "'s store_ops \<Rightarrow> qEntry \<Rightarrow> queue_state \<Rightarrow> 's \<Rightarrow> (int \<times> 's) res" where
  "MQTTPersistence_unpersistQueueEntry ops qe q s = bindR (queue_key (qs_version q) (e_seqno qe)) (\<lambda>key. Inr (s_remove ops key s))"

definition entry_buffers :: "qEntry \<Rightarrow> byte list \<Rightarrow> byte list list" where
  "entry_buffers qe payload = [int_bytes (e_payloadlen qe), payload, int_bytes (e_qos qe), int_bytes (e_retained qe), int_bytes (e_dup qe),
     int_bytes (e_msgid qe), c_bytes (e_topicName qe), int_bytes (e_topicLen qe)]"

text \<open>
  With MQTT 5 the code of \<^verbatim>\<open>MQTTProperties_write\<close>, the number of bytes written, is what decides about writing the
  entry, unless the callback \<^verbatim>\<open>beforeWrite\<close> replaces it.
\<close>

definition write_entry :: "persist_env \<Rightarrow> 's store_ops \<Rightarrow> int \<Rightarrow> byte list list \<Rightarrow> string \<Rightarrow> 's \<Rightarrow> int \<times> 's" where
  "write_entry pe ops rc0 bufs0 key s =
     (let (rc, bufs) = (if beforeWrite pe = None then (rc0, bufs0) else before_write pe bufs0) in if rc = 0 then s_put ops key bufs s else (rc, s))"

definition MQTTPersistence_persistQueueEntry ::
  "persist_env \<Rightarrow> 's store_ops \<Rightarrow> qEntry \<Rightarrow> queue_state \<Rightarrow> 's \<Rightarrow> (int \<times> qEntry \<times> queue_state \<times> 's) res" where
  "MQTTPersistence_persistQueueEntry pe ops qe q s =
     bindR (payload_bytes (e_payload qe) (e_payloadlen qe)) (\<lambda>payload.
       let q1 = q\<lparr>qentry_seqno := next_seqno (qentry_seqno q)\<rparr>;
           props = (if 1 \<le> e_struct_version qe then e_properties qe else MQTTProperties_initializer);
           temp_len = MQTTProperties_len (Some props) in
       if 5 \<le> qs_version q \<and> \<not> malloc_ok (alloc (pe_env pe)) temp_len then Inr (PAHO_MEMORY_ERROR, qe, q1, s)
       else
         bindR (if 5 \<le> qs_version q then bindR (MQTTProperties_write (Some props)) (\<lambda>(rc, bs). bindR (filled temp_len bs) (\<lambda>out. Inr (rc, [out])))
                else Inr (0, [])) (\<lambda>(rc, propbuf).
         bindR (queue_key (qs_version q) (qentry_seqno q1)) (\<lambda>key.
           let (rc2, s2) = write_entry pe ops rc (entry_buffers qe payload @ propbuf) key s in
           Inr (rc2, qe\<lparr>e_seqno := qentry_seqno q1\<rparr>, q1, s2))))"

text \<open>
  Data that is shorter than its own lengths say is read past its end. If the properties cannot be read an
  error is logged and the entry is kept.
\<close>

definition MQTTPersistence_restoreQueueEntry :: "(int \<Rightarrow> bool) \<Rightarrow> byte list \<Rightarrow> int \<Rightarrow> qEntry option res" where
  "MQTTPersistence_restoreQueueEntry al buffer version =
     (if \<not> malloc_ok al 24 \<or> \<not> malloc_ok al 64 then Inr None
      else
        bindR (get_int buffer) (\<lambda>(payloadlen, p1).
        if \<not> malloc_ok al payloadlen then Inr None
        else
          bindR (payload_bytes p1 payloadlen) (\<lambda>payload.
          bindR (get_int (drop (nat payloadlen) p1)) (\<lambda>(qos, p2).
          bindR (get_int p2) (\<lambda>(retained, p3).
          bindR (get_int p3) (\<lambda>(dup, p4).
          bindR (get_int p4) (\<lambda>(msgid, p5).
          bindR (get_cstring p5) (\<lambda>(topicName, p6).
          if \<not> malloc_ok al (int (length topicName) + 1) then Inr None
          else
            bindR (get_int p6) (\<lambda>(topicLen, p7).
            bindR (if 5 \<le> version
                   then MQTTProperties_read al MQTTProperties_initializer buffer (length buffer - length p7) (length buffer)
                   else Inr (1, MQTTProperties_initializer, 0)) (\<lambda>(rc, props, _).
              Inr (Some \<lparr>e_struct_version = 1, e_payloadlen = payloadlen, e_payload = payload, e_qos = qos, e_retained = retained,
                e_dup = dup, e_msgid = msgid, e_properties = props, e_topicName = topicName, e_topicLen = topicLen, e_seqno = 0\<rparr>)))))))))))"

definition MQTTPersistence_insertInSeqOrder :: "qEntry \<Rightarrow> qEntry list \<Rightarrow> qEntry list" where
  "MQTTPersistence_insertInSeqOrder qe es =
     (let before = takeWhile (\<lambda>x. \<not> e_seqno qe < e_seqno x) es in before @ qe # drop (length before) es)"

text \<open>The number after the first dash of a key.\<close>

definition key_number :: "string \<Rightarrow> int res" where
  "key_number key = (case strchr key (CHR ''-'') of None \<Rightarrow> Inl NullDeref | Some i \<Rightarrow> atoi (drop (Suc i) key))"

definition restore_entry :: "persist_env \<Rightarrow> 's store_ops \<Rightarrow> string \<Rightarrow> queue_state \<Rightarrow> 's \<Rightarrow> (int \<times> queue_state) res" where
  "restore_entry pe ops key q s =
     (if \<not> has_stem key PERSISTENCE_QUEUE_KEY \<and> \<not> has_stem key PERSISTENCE_V5_QUEUE_KEY then Inr (0, q)
      else
        let (rc, buffer) = read_back pe ops key s in
        if rc \<noteq> 0 then Inr (rc, q)
        else
          bindR (MQTTPersistence_restoreQueueEntry (alloc (pe_env pe)) buffer (if has_stem key PERSISTENCE_V5_QUEUE_KEY then 5 else 4)) (\<lambda>qe.
            case qe of
              None \<Rightarrow> Inr (0, q)
            | Some e \<Rightarrow>
                bindR (key_number key) (\<lambda>n.
                  let seqno = nat (n mod 2 ^ 32) in
                  Inr (0, q\<lparr>qs_queue := MQTTPersistence_insertInSeqOrder (e\<lparr>e_seqno := seqno\<rparr>) (qs_queue q),
                            qentry_seqno := max (qentry_seqno q) seqno\<rparr>))))"

fun restore_entries :: "persist_env \<Rightarrow> 's store_ops \<Rightarrow> string list \<Rightarrow> queue_state \<Rightarrow> 's \<Rightarrow> (int \<times> queue_state) res" where
  "restore_entries pe ops [] q s = Inr (0, q)"
| "restore_entries pe ops (key # keys) q s =
     bindR (restore_entry pe ops key q s) (\<lambda>(rc, q1). if rc = 0 then restore_entries pe ops keys q1 s else Inr (rc, q1))"

definition MQTTPersistence_restoreMessageQueue :: "persist_env \<Rightarrow> 's store_ops option \<Rightarrow> queue_state \<Rightarrow> 's \<Rightarrow> (int \<times> queue_state) res" where
  "MQTTPersistence_restoreMessageQueue pe per q s =
     (case per of
        None \<Rightarrow> Inr (0, q)
      | Some ops \<Rightarrow> let (rc, msgkeys) = s_keys ops s in if rc = 0 then restore_entries pe ops msgkeys q s else Inr (rc, q))"

section \<open>Creating, opening and closing\<close>

definition MQTTCLIENT_PERSISTENCE_DEFAULT :: int where "MQTTCLIENT_PERSISTENCE_DEFAULT = 0"
definition MQTTCLIENT_PERSISTENCE_NONE :: int where "MQTTCLIENT_PERSISTENCE_NONE = 1"
definition MQTTCLIENT_PERSISTENCE_USER :: int where "MQTTCLIENT_PERSISTENCE_USER = 2"

text \<open>Pointers to functions are given by the name of the function, and null pointers as \<open>None\<close>.\<close>

record MQTTClient_persistence =
  per_context :: "string option"
  popen :: "string option"
  pclose :: "string option"
  pput :: "string option"
  pget :: "string option"
  premove :: "string option"
  pkeys :: "string option"
  pclear :: "string option"
  pcontainskey :: "string option"

datatype per_argument = Directory "string option" | Structure "MQTTClient_persistence option"

definition default_persistence :: "string \<Rightarrow> MQTTClient_persistence" where
  "default_persistence dir = \<lparr>per_context = Some dir, popen = Some ''pstopen'', pclose = Some ''pstclose'', pput = Some ''pstput'',
     pget = Some ''pstget'', premove = Some ''pstremove'', pkeys = Some ''pstkeys'', pclear = Some ''pstclear'', pcontainskey = Some ''pstcontainskey''\<rparr>"

definition complete_persistence :: "MQTTClient_persistence \<Rightarrow> bool" where
  "complete_persistence p \<longleftrightarrow> per_context p \<noteq> None \<and> pclear p \<noteq> None \<and> pclose p \<noteq> None \<and> pcontainskey p \<noteq> None \<and> pget p \<noteq> None \<and>
     pkeys p \<noteq> None \<and> popen p \<noteq> None \<and> pput p \<noteq> None \<and> premove p \<noteq> None"

text \<open>
  The second result is the value stored through the pointer, \<open>None\<close> if nothing is stored. The pointer \<^verbatim>\<open>pcontext\<close>
  is used as the path of a directory or as a structure, as the type says.
\<close>

definition MQTTPersistence_create ::
  "(int \<Rightarrow> bool) \<Rightarrow> int \<Rightarrow> per_argument \<Rightarrow> (int \<times> MQTTClient_persistence option option) res" where
  "MQTTPersistence_create al type pcontext =
     (if type = MQTTCLIENT_PERSISTENCE_NONE then Inr (0, Some None)
      else if type = MQTTCLIENT_PERSISTENCE_DEFAULT then
        (case pcontext of
           Structure (Some _) \<Rightarrow> Inl BadUnion
         | _ \<Rightarrow>
             let dir = (case pcontext of Directory (Some d) \<Rightarrow> d | _ \<Rightarrow> ''.'') in
             if \<not> malloc_ok al 72 then Inr (PAHO_MEMORY_ERROR, Some None)
             else if \<not> malloc_ok al (int (length dir) + 1) then Inr (PAHO_MEMORY_ERROR, None)
             else Inr (0, Some (Some (default_persistence dir))))
      else if type = MQTTCLIENT_PERSISTENCE_USER then
        (case pcontext of
           Directory (Some _) \<Rightarrow> Inl BadUnion
         | Structure (Some p) \<Rightarrow> Inr (if complete_persistence p then 0 else MQTTCLIENT_PERSISTENCE_ERROR, Some (Some p))
         | _ \<Rightarrow> Inr (MQTTCLIENT_PERSISTENCE_ERROR, Some None))
      else Inr (MQTTCLIENT_PERSISTENCE_ERROR, Some None))"

text \<open>\<open>open_store\<close> opens the store and gives its functions with the handle it returned.\<close>

definition MQTTPersistence_initialize ::
  "persist_env \<Rightarrow> ('s \<Rightarrow> (int \<times> 's store_ops \<times> 's) res) option \<Rightarrow> 's pworld \<Rightarrow> (int \<times> 's pworld) res" where
  "MQTTPersistence_initialize pe open_store w =
     (case open_store of
        None \<Rightarrow> Inr (0, w)
      | Some f \<Rightarrow>
          bindR (f (w_store w)) (\<lambda>(rc, ops, s).
            if rc = 0 then MQTTPersistence_restorePackets pe (Some ops) (w\<lparr>w_store := s\<rparr>) else Inr (rc, w\<lparr>w_store := s\<rparr>)))"

definition open_file_store ::
  "fs_faults \<Rightarrow> (int \<Rightarrow> bool) \<Rightarrow> string \<Rightarrow> string \<Rightarrow> string \<Rightarrow> filesys \<Rightarrow> (int \<times> filesys store_ops \<times> filesys) res" where
  "open_file_store env al client serverURI dataDir fs =
     bindR (pstopen env al client serverURI dataDir fs) (\<lambda>(rc, handle, fs1). Inr (rc, file_ops env al (the handle), fs1))"

text \<open>Closing and clearing; after closing the client has no persistence.\<close>

definition MQTTPersistence_close :: "('s \<Rightarrow> int \<times> 's) option \<Rightarrow> 's \<Rightarrow> int \<times> ('s \<Rightarrow> int \<times> 's) option \<times> 's" where
  "MQTTPersistence_close close_store s = (case close_store of None \<Rightarrow> (0, None, s) | Some f \<Rightarrow> let (rc, s1) = f s in (rc, None, s1))"

definition MQTTPersistence_clear :: "('s \<Rightarrow> int \<times> 's) option \<Rightarrow> 's \<Rightarrow> int \<times> 's" where
  "MQTTPersistence_clear clear_store s = (case clear_store of None \<Rightarrow> (0, s) | Some f \<Rightarrow> f s)"

end
