(* ===== verification/Packet_Restore.thy ===== *)
theory Packet_Restore
  imports Persistence
begin

text \<open>
  What persistence promises: keys are told apart and read back, packets in flight come back in the order in
  which they were sent, and queued messages come back as they were. The results are proved once for any store
  that keeps the contract \<open>persistent_store\<close>, and hold for the file store by its interpretation.
\<close>

section \<open>Keys\<close>

lemma dec_digit_check: "list_all (\<lambda>d. is_digit (dec_digit d) \<and> (of_char (dec_digit d) :: int) = 48 + int d) [0 ..< 10]"
  by code_simp

lemma dec_digit_facts: "d < 10 \<Longrightarrow> is_digit (dec_digit d)" "d < 10 \<Longrightarrow> (of_char (dec_digit d) :: int) = 48 + int d"
  using dec_digit_check by (auto simp: list_all_iff)

lemma dec_str_digits: "list_all is_digit (dec_str n)"
proof (induction n rule: dec_str.induct)
  case (1 n)
  then show ?case by (subst dec_str.simps) (auto simp: dec_digit_facts)
qed

lemma dec_str_not_Nil [simp]: "dec_str n \<noteq> []"
  by (subst dec_str.simps) simp

lemma digits_val_append: "list_all is_digit s \<Longrightarrow> digits_val a (s @ t) = digits_val (digits_val a s) t"
  by (induction s arbitrary: a) auto

lemma digits_val_dec: "digits_val 0 (dec_str n) = int n"
proof (induction n rule: dec_str.induct)
  case (1 n)
  show ?case
  proof (cases "n < 10")
    case True
    then show ?thesis by (subst dec_str.simps) (simp add: dec_digit_facts)
  next
    case False
    have "digits_val 0 (dec_str n) = digits_val (digits_val 0 (dec_str (n div 10))) [dec_digit (n mod 10)]"
      using False digits_val_append [OF dec_str_digits] by (subst dec_str.simps) simp
    with False 1 show ?thesis by (simp add: dec_digit_facts zdiv_int zmod_int)
  qed
qed

lemma dec_str_inj [simp]: "dec_str m = dec_str n \<longleftrightarrow> m = n"
  by (metis digits_val_dec of_nat_eq_iff)

lemma digit_chars: "is_digit c \<Longrightarrow> c \<noteq> CHR ''-'' \<and> c \<noteq> CHR ''+'' \<and> c \<noteq> CHR ''.'' \<and> c \<noteq> CHR ''/'' \<and> \<not> is_space c"
  by (auto simp: is_digit_def is_space_def SP_def TAB_def NL_def)

lemma atoi_dec: "n < 2 ^ 31 \<Longrightarrow> atoi (dec_str n) = Inr (int n)"
proof -
  assume n: "n < 2 ^ 31"
  obtain c cs where d: "dec_str n = c # cs" by (cases "dec_str n") auto
  then have "is_digit c" using dec_str_digits [of n] by simp
  from digit_chars [OF this] d n digits_val_dec [of n] show ?thesis
    by (simp add: atoi_def in_int_def INT_MAX_def INT_MIN_def)
qed

lemma dec_str_length: "n < 10 ^ k \<Longrightarrow> 0 < k \<Longrightarrow> length (dec_str n) \<le> k"
proof (induction n arbitrary: k rule: dec_str.induct)
  case (1 n)
  show ?case
  proof (cases "n < 10")
    case True
    with 1 show ?thesis by (subst dec_str.simps) simp
  next
    case False
    with "1.prems" obtain j where k: "k = Suc j" "0 < j" by (cases k; cases "k - 1") auto
    then have "n div 10 < 10 ^ j" using "1.prems"(1) by (simp add: less_mult_imp_div_less mult.commute)
    from "1.IH" [OF False this k(2)] False k show ?thesis by (subst dec_str.simps) simp
  qed
qed

lemma dec_int_nat [simp]: "0 \<le> n \<Longrightarrow> dec_int n = dec_str (nat n)"
  by (simp add: dec_int_def)

text \<open>A key is the stem and the number behind the first dash.\<close>

definition stem_ok :: "string \<Rightarrow> bool" where
  "stem_ok stem \<longleftrightarrow> stem \<noteq> [] \<and> last stem = CHR ''-'' \<and> CHR ''-'' \<notin> set (butlast stem) \<and> plain_key stem"

definition stems :: "string list" where
  "stems = [PERSISTENCE_PUBLISH_SENT, PERSISTENCE_PUBREL, PERSISTENCE_PUBLISH_RECEIVED, PERSISTENCE_V5_PUBLISH_SENT, PERSISTENCE_V5_PUBREL,
     PERSISTENCE_V5_PUBLISH_RECEIVED, PERSISTENCE_COMMAND_KEY, PERSISTENCE_V5_COMMAND_KEY, PERSISTENCE_QUEUE_KEY, PERSISTENCE_V5_QUEUE_KEY]"

lemma stems_ok: "list_all stem_ok stems" "distinct stems" "list_all (\<lambda>s. length s \<le> 4) stems"
  by code_simp+

lemma strchr_dash: "CHR ''-'' \<notin> set a \<Longrightarrow> strchr (a @ CHR ''-'' # b) (CHR ''-'') = Some (length a)"
  by (induction a) auto

lemma stem_body: "stem_ok stem \<Longrightarrow> \<exists>body. stem = body @ ''-'' \<and> CHR ''-'' \<notin> set body"
  by (metis append_butlast_last_id stem_ok_def)

lemma key_number_key: "stem_ok stem \<Longrightarrow> n < 2 ^ 31 \<Longrightarrow> key_number (stem @ dec_str n) = Inr (int n)"
  using stem_body [of stem] by (auto simp: key_number_def strchr_dash atoi_dec)

lemma digits_plain: "plain_key (dec_str n)"
  using dec_str_digits [of n] digit_chars by (fastforce simp: plain_key_def list_all_iff)

lemma plain_key_key: "stem_ok stem \<Longrightarrow> plain_key (stem @ dec_str n)"
  using digits_plain [of n] by (auto simp: stem_ok_def plain_key_def)

lemma key_split:
  assumes "stem_ok s" "stem_ok t"
  shows "s @ dec_str m = t @ dec_str n \<longleftrightarrow> s = t \<and> m = n"
proof -
  have d: "CHR ''-'' \<notin> set (dec_str k)" for k using dec_str_digits [of k] digit_chars by (fastforce simp: list_all_iff)
  obtain a b where "s = a @ ''-''" "CHR ''-'' \<notin> set a" "t = b @ ''-''" "CHR ''-'' \<notin> set b"
    using stem_body assms by blast
  with d show ?thesis by (auto simp: append_Cons_eq_iff)
qed

section \<open>The order of restored messages\<close>

text \<open>The distance from one message id to a later one, round the end of the range.\<close>

definition id_distance :: "int \<Rightarrow> int \<Rightarrow> int" where
  "id_distance a b = (if a < b then b - a else b + MAX_MSG_ID - a)"

text \<open>
  Ids in the order in which they were assigned: rising, with at most one wrap, and every step is shorter than
  the way from the last one back to the first.
\<close>

definition assigned_in_order :: "int list \<Rightarrow> bool" where
  "assigned_in_order ids \<longleftrightarrow> set ids \<subseteq> {1..MAX_MSG_ID} \<and>
     (\<exists>k \<le> length ids. sorted_wrt (<) (drop k ids @ take k ids)) \<and>
     successively (\<lambda>a b. id_distance a b < id_distance (last ids) (hd ids)) ids"

lemma widest_gap_none: "successively (\<lambda>a b. b - a \<le> gap) ids \<Longrightarrow> widest_gap ids i gap w = w"
  by (induction ids i gap w rule: widest_gap.induct) auto

lemma widest_gap_found:
  assumes "xs \<noteq> []" "ys \<noteq> []" "successively (\<lambda>a b. b - a < hd ys - last xs) xs"
    "successively (\<lambda>a b. b - a \<le> hd ys - last xs) ys" "gap < hd ys - last xs"
  shows "widest_gap (xs @ ys) i gap w = Some (i + length xs - 1)"
  using assms
proof (induction xs arbitrary: i gap w)
  case (Cons x xs)
  show ?case
  proof (cases xs)
    case Nil
    with Cons.prems obtain y zs where "ys = y # zs" by (cases ys) auto
    with Nil Cons.prems widest_gap_none [of "y - x" ys] show ?thesis by simp
  next
    case (Cons x2 xs2)
    with Cons.IH [of _ "Suc i"] Cons.prems show ?thesis by (auto simp: successively_Cons)
  qed
qed simp

text \<open>
  Sorted ids are turned back into the order of their assignment.
\<close>

lemma rising_steps:
  assumes "sorted_wrt (<) ids" "successively (\<lambda>a b. id_distance a b < g) ids"
  shows "successively (\<lambda>a b. b - a < g) ids"
  using assms by (induction ids rule: induct_list012) (auto simp: id_distance_def)

lemma wrapMsgID_order:
  assumes "assigned_in_order (map m_msgid ms)" "mset ms' = mset ms" "sorted_wrt (<) (map m_msgid ms')"
  shows "MQTTPersistence_wrapMsgID ms' = ms"
proof -
  let ?ids = "map m_msgid ms"
  obtain k where k: "k \<le> length ms" "sorted_wrt (<) (map m_msgid (drop k ms @ take k ms))"
    using assms(1) by (auto simp: assigned_in_order_def drop_map take_map)
  have "mset (drop k ms @ take k ms) = mset ms'" using assms(2) by (metis append_take_drop_id mset_append union_commute)
  then have ms': "ms' = drop k ms @ take k ms"
    using k(2) assms(3) by (intro map_sorted_distinct_set_unique [of m_msgid])
      (auto simp: strict_sorted_iff distinct_map simp flip: set_mset_mset)
  define A where "A = take k ms" define B where "B = drop k ms"
  have AB: "ms = A @ B" "ms' = B @ A" by (simp_all add: A_def B_def ms')
  have srt: "sorted_wrt (<) (map m_msgid B @ map m_msgid A)" using k(2) by (simp add: A_def B_def)
  have steps: "successively (\<lambda>a b. id_distance a b < id_distance (last ?ids) (hd ?ids)) (map m_msgid A @ map m_msgid B)"
    using assms(1) by (simp add: assigned_in_order_def AB)
  show ?thesis
  proof (cases "A = [] \<or> B = []")
    case True
    then have eq: "ms' = ms" "sorted_wrt (<) ?ids" "successively (\<lambda>a b. id_distance a b < id_distance (last ?ids) (hd ?ids)) ?ids"
      using srt steps AB by auto
    show ?thesis
    proof (cases "ms = []")
      case False
      then have "hd ?ids \<le> last ?ids" using eq(2) by (cases ms) (auto simp: last_map intro!: less_imp_le)
      then have g: "id_distance (last ?ids) (hd ?ids) = MAX_MSG_ID - last ?ids + hd ?ids" by (simp add: id_distance_def)
      have "successively (\<lambda>a b. b - a \<le> MAX_MSG_ID - last ?ids + hd ?ids) ?ids"
        using rising_steps [OF eq(2,3)] unfolding g by (rule successively_mono) simp
      from widest_gap_none [OF this] show ?thesis by (simp add: MQTTPersistence_wrapMsgID_def Let_def eq(1))
    qed (simp add: eq MQTTPersistence_wrapMsgID_def)
  next
    case False
    define g where "g = hd (map m_msgid A) - last (map m_msgid B)"
    have ends: "last (map m_msgid B) < hd (map m_msgid A)" "hd (map m_msgid B) < last (map m_msgid A)"
      using srt False by (auto simp: sorted_wrt_append last_map hd_map)
    then have d: "id_distance (last ?ids) (hd ?ids) = g" using False by (simp add: id_distance_def AB last_map hd_map g_def)
    from steps have st: "successively (\<lambda>a b. id_distance a b < g) (map m_msgid A)" "successively (\<lambda>a b. id_distance a b < g) (map m_msgid B)"
      "id_distance (last (map m_msgid A)) (hd (map m_msgid B)) < g"
      unfolding d using False by (auto simp: successively_append_iff)
    have sr: "sorted_wrt (<) (map m_msgid A)" "sorted_wrt (<) (map m_msgid B)" using srt by (auto simp: sorted_wrt_append)
    have gaps: "successively (\<lambda>a b. b - a < g) (map m_msgid B)" "successively (\<lambda>a b. b - a < g) (map m_msgid A)"
      using rising_steps sr st by auto
    have "successively (\<lambda>a b. b - a \<le> g) (map m_msgid A)" using gaps(2) by (rule successively_mono) simp
    moreover have "MAX_MSG_ID - last (map m_msgid ms') + hd (map m_msgid ms') < g"
      using st(3) ends False by (simp add: id_distance_def AB last_map hd_map)
    ultimately have "widest_gap (map m_msgid B @ map m_msgid A) 1 (MAX_MSG_ID - last (map m_msgid ms') + hd (map m_msgid ms')) None = Some (length B)"
      using widest_gap_found [of "map m_msgid B" "map m_msgid A" _ 1 None] gaps False by (simp add: g_def)
    with False show ?thesis by (simp add: MQTTPersistence_wrapMsgID_def Let_def AB)
  qed
qed

section \<open>One packet\<close>

lemma stored_length_encode:
  assumes "n < 128 ^ j" "0 < j" "mul * 128 ^ j \<le> 2 ^ 28" "0 < mul" "0 \<le> len" "len + int n * mul < 2 ^ 28"
  shows "stored_length (MQTTPacket_encode n @ bs) len mul k = Inr (len + int n * mul, k + length (MQTTPacket_encode n), bs)"
  using assms
proof (induction n arbitrary: j len mul k rule: MQTTPacket_encode.induct)
  case (1 n)
  let ?d = "n mod 128"
  have split: "a * m = d * m + q * (m * 128)" if "a = d + 128 * q" for a d q m :: int
    using that by (simp add: algebra_simps)
  have n: "int n * mul = int ?d * mul + int (n div 128) * (mul * 128)"
    by (rule split) (simp add: zdiv_int zmod_int)
  have dn: "0 \<le> int ?d * mul" "0 \<le> int (n div 128) * (mul * 128)" using "1.prems"(4) by simp_all
  have mm: "mul * 128 \<le> 2 ^ 28"
  proof -
    have "mul * 128 ^ 1 \<le> mul * 128 ^ j" using "1.prems"(2,4) by (intro mult_left_mono power_increasing) auto
    with "1.prems"(3) show ?thesis by simp
  qed
  have "0 \<le> len + int ?d * mul" "len + int ?d * mul < 2 ^ 28" using "1.prems"(5,6) n dn by linarith+
  then have fit: "in_int (len + int ?d * mul)" "in_int (mul * 128)"
    using "1.prems"(4) mm by (simp_all add: in_int_def INT_MAX_def INT_MIN_def del: of_nat_mod)
  show ?case
  proof (cases "0 < n div 128")
    case True
    then have "128 \<le> n" by simp
    with "1.prems"(1,2) obtain i where j: "j = Suc i" "0 < i" by (cases j; cases "j - 1") auto
    have "stored_length (MQTTPacket_encode (n div 128) @ bs) (len + int ?d * mul) (mul * 128) (Suc k) =
        Inr (len + int ?d * mul + int (n div 128) * (mul * 128), Suc k + length (MQTTPacket_encode (n div 128)), bs)"
      using "1.prems" j n dn True by (intro "1.IH" [OF refl refl True, of i]) (auto simp: less_mult_imp_div_less mult.commute)
    with True fit n show ?thesis
      by (subst (1 2) MQTTPacket_encode.simps) (simp add: Let_def byte_bits mult.assoc)
  next
    case False
    then have "n < 128" by simp
    with fit show ?thesis by (subst (1 2) MQTTPacket_encode.simps) (simp add: Let_def byte_bits)
  qed
qed

lemma restorePacket_framed:
  assumes "length body < 268435456" "CONNECT \<le> hdr_type h" "hdr_type h \<le> DISCONNECT"
    and "new_packets al version h body (length body) ! hdr_type h = Some pack"
  shows "MQTTPersistence_restorePacket al version (framed h body) = pack"
  using stored_length_encode [of "length body" 4 1 0 body 1] assms
  by (simp add: MQTTPersistence_restorePacket_def framed_def)

text \<open>The record of a message that was sent.\<close>

definition publish_record :: "Publish \<Rightarrow> MQTTProperty list \<Rightarrow> int \<Rightarrow> int \<Rightarrow> int \<Rightarrow> byte list" where
  "publish_record pack ps dup qos retained = framed (mk_header PUBLISH dup qos retained) (publish_body pack ps qos)"

lemma restorePacket_publish:
  assumes "publish_ok pack ps qos" "\<forall>n. al n" "dup \<in> {0, 1}" "retained \<in> {0, 1}" "0 < qos"
  shows "\<exists>pack'. MQTTPersistence_restorePacket al (pub_version pack) (publish_record pack ps dup qos retained) = Inr (Some (P_Publish pack')) \<and>
    hdr_qos (pub_header pack') = nat qos \<and> hdr_retain (pub_header pack') = nat retained \<and>
    pub_topic pack' = pub_topic pack \<and> pub_msgId pack' = pub_msgId pack \<and> pub_payload pack' = pub_payload pack \<and>
    pub_payloadlen pack' = int (length (pub_payload pack)) \<and> (5 \<le> pub_version pack \<longrightarrow> holds (pub_properties pack') ps)"
proof -
  let ?h = "mk_header PUBLISH dup qos retained" and ?body = "publish_body pack ps qos"
  have q: "0 \<le> qos" "qos < 4" using assms(1) by (simp_all add: publish_ok_def)
  have h: "hdr_type ?h = PUBLISH" "hdr_qos ?h = nat qos" "hdr_retain ?h = nat retained"
    using mk_header_bits [OF _ assms(3) q assms(4), of PUBLISH] by (simp_all add: PUBLISH_def)
  from MQTTPacket_publish_body [OF assms(1,2) h(2)] obtain pack' where
    p: "MQTTPacket_publish al (pub_version pack) ?h ?body (length ?body) = Inr (Some pack')" "pub_header pack' = ?h"
    "pub_topic pack' = pub_topic pack" "pub_msgId pack' = (if 0 < qos then pub_msgId pack else 0)" "pub_payload pack' = pub_payload pack"
    "pub_payloadlen pack' = pub_payloadlen pack" "5 \<le> pub_version pack \<longrightarrow> holds (pub_properties pack') ps" by blast
  have "MQTTPersistence_restorePacket al (pub_version pack) (framed ?h ?body) = Inr (Some (P_Publish pack'))"
    using publish_body_small [OF assms(1)] p(1) h(1)
    by (intro restorePacket_framed) (simp_all add: packet_types new_packets_def Let_def)
  with p h assms(1,5) show ?thesis by (auto simp: publish_record_def publish_ok_def)
qed

lemma createMessage_stored:
  assumes "heap_ok M st" "\<forall>n. alloc e n" "pub_payloadlen publish = int (length (pub_payload publish))" "length (pub_payload publish) < 2147483648"
    "5 \<le> pub_version publish \<Longrightarrow> props_ok (Some (pub_properties publish))"
  shows "\<exists>m st' r. MQTTProtocol_createMessage e publish qos retained True st = Inr (Some m, st') \<and>
    m_qos m = qos \<and> m_retain m = retained \<and> m_msgid m = pub_msgId publish \<and> m_version m = pub_version publish \<and>
    m_publish m = Some (next_pub st) \<and> m_next m = (if qos = 2 then Some PUBREC else None) \<and>
    (5 \<le> pub_version publish \<longrightarrow> (\<exists>ps. m_properties m = Some ps \<and> props_ok (Some ps) \<and> prop_list ps = prop_list (pub_properties publish))) \<and>
    heap_ok (add_mset (next_pub st) M) st' \<and> pubs st' = (pubs st)(next_pub st \<mapsto> r) \<and> next_pub st \<notin># M \<and>
    p_topic r = pub_topic publish \<and> p_payload r = pub_payload publish \<and> p_payloadlen r = pub_payloadlen publish"
proof -
  define r where "r = \<lparr>p_topic = pub_topic publish, p_topiclen = pub_topiclen publish, p_payload = pub_payload publish,
     p_payloadlen = pub_payloadlen publish, refcount = 1\<rparr>"
  obtain st1 where st1: "MQTTProtocol_storePublication (alloc e) publish st = (Some (next_pub st), st1)"
    "heap_ok (add_mset (next_pub st) M) st1" "pubs st1 = (pubs st)(next_pub st \<mapsto> r)" "next_pub st \<notin># M"
    using heap_ok_store [OF assms(1,2), of publish] assms(3,4) by (auto simp: r_def)
  have mal: "malloc_ok (alloc e) 72" "malloc_ok (alloc e) (pub_payloadlen publish)"
    using malloc_small [OF assms(2)] assms(3,4) by auto
  have pay: "payload_bytes (pub_payload publish) (pub_payloadlen publish) = Inr (pub_payload publish)"
    using assms(3) by (simp add: payload_bytes_def)
  have same: "st1\<lparr>pubs := (pubs st1)(next_pub st := map_option (\<lambda>r. r\<lparr>p_payload := pub_payload publish\<rparr>) (pubs st1 (next_pub st)))\<rparr> = st1"
    using st1(3) by (simp add: r_def fun_upd_idem)
  obtain props where "(if 5 \<le> pub_version publish then bindR (MQTTProperties_copy (alloc e) (pub_properties publish)) (\<lambda>ps. Inr (Some ps))
      else Inr None) = Inr props" "5 \<le> pub_version publish \<Longrightarrow>
        \<exists>ps. props = Some ps \<and> props_ok (Some ps) \<and> prop_list ps = prop_list (pub_properties publish)"
  proof (cases "5 \<le> pub_version publish")
    case True
    obtain ps where "MQTTProperties_copy (alloc e) (pub_properties publish) = Inr ps" "props_ok (Some ps)" "prop_list ps = prop_list (pub_properties publish)"
      using copy_held [OF assms(5) [OF True] assms(2)] by blast
    with True that show thesis by auto
  qed (auto intro: that)
  with st1 mal pay same show ?thesis
    by (simp add: MQTTProtocol_createMessage_def) (rule exI [of _ r], simp add: r_def)
qed

text \<open>The record of a \<^verbatim>\<open>PUBREL\<close>.\<close>

definition pubrel_record :: "int \<Rightarrow> int \<Rightarrow> byte list" where
  "pubrel_record dup msgid = framed (mk_header PUBREL dup 1 0) (writeInt msgid)"

lemma restorePacket_pubrel:
  assumes "dup \<in> {0, 1}" "0 \<le> msgid" "msgid < 65536" "\<forall>n. al n"
  shows "\<exists>ack. MQTTPersistence_restorePacket al version (pubrel_record dup msgid) = Inr (Some (P_Ack ack)) \<and> ack_msgId ack = Some msgid"
proof -
  define h where "h = mk_header PUBREL dup 1 0"
  have h: "hdr_type h = PUBREL" using mk_header_bits(1) [of PUBREL dup 1 0] assms(1) by (simp add: h_def PUBREL_def)
  have m: "malloc_ok al 40" using malloc_small [OF assms(4), of 40] by simp
  have rd: "readInt (writeInt msgid) 0 = Inr (msgid, 2)"
    using int2.dec_at [of msgid "[]" "[]"] assms(2,3) by (simp add: int2_valid_def)
  have l: "length (writeInt msgid) = 2" by (simp add: writeInt_def)
  define ack where "ack = \<lparr>ack_header = h, ack_msgId = Some msgid, ack_rc = (if 5 \<le> version then Some 0 else None),
     ack_version = version, ack_properties = (if 5 \<le> version then Some MQTTProperties_initializer else None)\<rparr>"
  have ack: "MQTTPacket_ack al version h (writeInt msgid) 2 = Inr (Some ack)" "ack_msgId ack = Some msgid"
    using m rd h by (auto simp: MQTTPacket_ack_def Let_def packet_types ack_def)
  have "MQTTPersistence_restorePacket al version (framed h (writeInt msgid)) = Inr (Some (P_Ack ack))"
    using ack(1) h l by (intro restorePacket_framed) (simp_all add: packet_types new_packets_def Let_def)
  with ack(2) show ?thesis by (simp add: pubrel_record_def h_def)
qed

section \<open>Restoring the messages in flight\<close>

text \<open>A message that was sent and not yet acknowledged, and whether its \<^verbatim>\<open>PUBREL\<close> was sent.\<close>

record stored_publish =
  sp_pack :: Publish
  sp_props :: "MQTTProperty list"
  sp_dup :: int
  sp_qos :: int
  sp_retained :: int
  sp_released :: bool

definition sp_id :: "stored_publish \<Rightarrow> int" where
  "sp_id sp = pub_msgId (sp_pack sp)"

definition sent_key :: "int \<Rightarrow> stored_publish \<Rightarrow> string" where
  "sent_key v sp = (if 5 \<le> v then PERSISTENCE_V5_PUBLISH_SENT else PERSISTENCE_PUBLISH_SENT) @ dec_str (nat (sp_id sp))"

definition rel_key :: "int \<Rightarrow> stored_publish \<Rightarrow> string" where
  "rel_key v sp = (if 5 \<le> v then PERSISTENCE_V5_PUBREL else PERSISTENCE_PUBREL) @ dec_str (nat (sp_id sp))"

definition sent_record :: "stored_publish \<Rightarrow> byte list" where
  "sent_record sp = publish_record (sp_pack sp) (sp_props sp) (sp_dup sp) (sp_qos sp) (sp_retained sp)"

definition sp_ok :: "int \<Rightarrow> stored_publish \<Rightarrow> bool" where
  "sp_ok v sp \<longleftrightarrow> publish_ok (sp_pack sp) (sp_props sp) (sp_qos sp) \<and> 0 < sp_qos sp \<and> sp_dup sp \<in> {0, 1} \<and> sp_retained sp \<in> {0, 1} \<and>
     pub_version (sp_pack sp) = (if 5 \<le> v then 5 else 4)"

text \<open>
  The store holds the messages \<open>sps\<close>, as \<^verbatim>\<open>afterRead\<close> returns the data, and beside them commands and queued messages
  only.
\<close>

definition stores_messages :: "persist_env \<Rightarrow> int \<Rightarrow> stored_publish list \<Rightarrow> (string \<rightharpoonup> byte list) \<Rightarrow> bool" where
  "stores_messages pe v sps data \<longleftrightarrow>
     (\<forall>sp \<in> set sps. sp_ok v sp \<and> data (sent_key v sp) \<noteq> None \<and> (data (rel_key v sp) \<noteq> None \<longleftrightarrow> sp_released sp)) \<and>
     (\<forall>k bytes. data k = Some bytes \<longrightarrow> skipped_key k \<or>
        (\<exists>sp \<in> set sps. k = sent_key v sp \<and> after_read pe bytes = (0, sent_record sp) \<or>
           sp_released sp \<and> k = rel_key v sp \<and> (\<exists>dup \<in> {0, 1}. after_read pe bytes = (0, pubrel_record dup (sp_id sp)))))"

text \<open>A message of the client that stands for a stored one.\<close>

definition stands_for :: "MQTTProtocol \<Rightarrow> int \<Rightarrow> stored_publish \<Rightarrow> Messages \<Rightarrow> bool" where
  "stands_for st v sp m \<longleftrightarrow> m_msgid m = sp_id sp \<and> m_qos m = sp_qos sp \<and> m_retain m = sp_retained sp \<and> m_version m = v \<and>
     m_next m = (if sp_released sp then Some PUBCOMP else if sp_qos sp = 2 then Some PUBREC else None) \<and>
     (\<exists>p r. m_publish m = Some p \<and> pubs st p = Some r \<and> p_topic r = pub_topic (sp_pack sp) \<and> p_payload r = pub_payload (sp_pack sp)) \<and>
     (5 \<le> v \<longrightarrow> (\<exists>props. m_properties m = Some props \<and> prop_list props = sp_props sp))"

text \<open>A store that works, as far as its sizes allow.\<close>

locale reliable_store = persistent_store +
  fixes roomy :: "'a \<Rightarrow> bool"
  assumes get_works: "good_store s \<Longrightarrow> roomy s \<Longrightarrow> holds_data s k = Some v \<Longrightarrow> s_get ops k s = (0, Some v)"
    and keys_work: "good_store s \<Longrightarrow> roomy s \<Longrightarrow> fst (s_keys ops s) = 0"
    and containskey_works: "good_store s \<Longrightarrow> roomy s \<Longrightarrow> holds_data s k \<noteq> None \<Longrightarrow> s_containskey ops k s = 0"
    and plain_good: "plain_key k \<Longrightarrow> good_key k"

definition file_roomy :: "string \<Rightarrow> filesys \<Rightarrow> bool" where
  "file_roomy dir fs \<longleftrightarrow> length dir < 2 ^ 30 \<and> length (fs_files fs) < 2 ^ 30 \<and>
     list_all (\<lambda>(path, content). length path < 2 ^ 30 \<and> length content < 2 ^ 30) (fs_files fs)"

lemma file_path_size:
  assumes "file_good dir fs" "file_roomy dir fs" "file_data dir fs k = Some v"
  shows "malloc_ok (\<lambda>n. True) (path_size dir k)" "malloc_ok (\<lambda>n. True) (int (length v))"
proof -
  have "(msg_path dir k, v) \<in> set (fs_files fs)" using assms(3) by (auto simp: file_data_def map_of_SomeD split: if_splits)
  with assms(2) have "length (msg_path dir k) < 2 ^ 30" "length v < 2 ^ 30" by (auto simp: file_roomy_def list_all_iff)
  then show "malloc_ok (\<lambda>n. True) (path_size dir k)" "malloc_ok (\<lambda>n. True) (int (length v))"
    by (simp_all add: malloc_ok_def PTRDIFF_MAX_def path_size_def msg_path_def)
qed

lemma file_entry_size:
  assumes "file_roomy dir fs" "name \<in> set (dir_entries dir fs)"
  shows "malloc_ok (\<lambda>n. True) (int (length dir + length name) + 2)" "malloc_ok (\<lambda>n. True) (int (length name) + 1)"
proof -
  have "dir @ ''/'' @ name \<in> fst ` set (fs_files fs)" using assms(2) by (simp add: dir_entries_set)
  with assms(1) have "length (dir @ ''/'' @ name) < 2 ^ 30" by (fastforce simp: file_roomy_def list_all_iff)
  then show "malloc_ok (\<lambda>n. True) (int (length dir + length name) + 2)" "malloc_ok (\<lambda>n. True) (int (length name) + 1)"
    by (simp_all add: malloc_ok_def PTRDIFF_MAX_def)
qed

lemma containskey_loop_finds:
  "k \<in> set (map file_key names) \<Longrightarrow>
   (\<And>n. n \<in> set names \<Longrightarrow> malloc_ok al (int (length dir + length n) + 2) \<and> malloc_ok al (int (length n) + 1)) \<Longrightarrow>
   containskey_loop al dir k names = 0"
  by (induction names) auto

interpretation file_reliable: reliable_store "file_ops sound_fs (\<lambda>n. True) dir" "file_data dir" "file_good dir" plain_key "file_roomy dir" for dir
proof
  fix s k v
  assume g: "file_good dir s" "file_roomy dir s" and d: "file_data dir s k = Some v"
  then have "map_of (fs_files s) (msg_path dir k) = Some v" by (auto simp: file_data_def split: if_splits)
  with file_path_size [OF g d] show "s_get (file_ops sound_fs (\<lambda>n. True) dir) k s = (0, Some v)"
    by (simp add: file_ops_def pstget_def Let_def sound_fs_def upto_limit_def)
next
  fix s
  assume g: "file_good dir s" "file_roomy dir s"
  have "length (dir_entries dir s) \<le> length (fs_files s)" by (simp add: dir_entries_def List.map_filter_def length_filter_le [THEN le_trans])
  then have "malloc_ok (\<lambda>n. True) (8 * int (length (dir_entries dir s)))" using g(2) by (simp add: file_roomy_def malloc_ok_def PTRDIFF_MAX_def)
  with g file_entry_size [OF g(2)] show "fst (s_keys (file_ops sound_fs (\<lambda>n. True) dir) s) = 0"
    by (auto simp: file_ops_def pstkeys_def keysUnix_def Let_def list_ex_iff file_good_def)
next
  fix s k
  assume g: "file_good dir s" "file_roomy dir s" and d: "file_data dir s k \<noteq> None"
  then have "k \<in> set (map file_key (dir_entries dir s))" using file_keys(2) [OF g(1)] by auto
  with g file_entry_size [OF g(2)] show "s_containskey (file_ops sound_fs (\<lambda>n. True) dir) k s = 0"
    by (auto simp: file_ops_def pstcontainskey_def containskeyUnix_def file_good_def intro!: containskey_loop_finds)
qed simp

section \<open>One key\<close>

lemma sent_key_kind: "key_kind (sent_key v sp) = (if 5 \<le> v then (5, PERSISTENCE_PUBLISH_SENT) else (4, sent_key v sp))"
  by (simp add: key_kind_def sent_key_def has_stem_def stem_defs)

lemma rel_key_kind: "key_kind (rel_key v sp) = (if 5 \<le> v then (5, PERSISTENCE_PUBREL) else (4, rel_key v sp))"
  by (simp add: key_kind_def rel_key_def has_stem_def stem_defs)

lemma kind_stems:
  "\<not> has_stem (snd (key_kind (sent_key v sp))) PERSISTENCE_PUBLISH_RECEIVED" "has_stem (snd (key_kind (sent_key v sp))) PERSISTENCE_PUBLISH_SENT"
  "\<not> has_stem (snd (key_kind (rel_key v sp))) PERSISTENCE_PUBLISH_RECEIVED" "\<not> has_stem (snd (key_kind (rel_key v sp))) PERSISTENCE_PUBLISH_SENT"
  "has_stem (snd (key_kind (rel_key v sp))) PERSISTENCE_PUBREL"
  unfolding sent_key_kind rel_key_kind by (simp_all add: sent_key_def rel_key_def has_stem_def stem_defs)

lemma key_not_skipped: "\<not> skipped_key (sent_key v sp)" "\<not> skipped_key (rel_key v sp)"
  by (simp_all add: skipped_key_def sent_key_def rel_key_def has_stem_def stem_defs)

lemma keys_differ [simp]: "sent_key v sp \<noteq> rel_key v sp'" "rel_key v sp' \<noteq> sent_key v sp"
  by (simp_all add: sent_key_def rel_key_def stem_defs)

lemma sent_key_inj: "0 \<le> sp_id sp \<Longrightarrow> 0 \<le> sp_id sp' \<Longrightarrow> sent_key v sp = sent_key v sp' \<longleftrightarrow> sp_id sp = sp_id sp'"
  by (auto simp: sent_key_def)

lemma sprintf_id:
  assumes "0 \<le> n" "n < 65536" "10 \<le> room" "length stem \<le> 4"
  shows "sprintf_key room stem n = Inr (stem @ dec_str (nat n))"
proof -
  have "length (dec_str (nat n)) \<le> 5" using assms by (intro dec_str_length) auto
  with assms show ?thesis by (simp add: sprintf_key_def)
qed

section \<open>The loop\<close>

lemma insertInOrder_simps [simp]:
  "MQTTPersistence_insertInOrder m [] = [m]"
  "MQTTPersistence_insertInOrder m (x # xs) = (if m_msgid m < m_msgid x then m # x # xs else x # MQTTPersistence_insertInOrder m xs)"
  by (simp_all add: MQTTPersistence_insertInOrder_def Let_def)

lemma insertInOrder_mset: "mset (MQTTPersistence_insertInOrder m xs) = add_mset m (mset xs)"
  by (induction xs) auto

lemma insertInOrder_set [simp]: "set (MQTTPersistence_insertInOrder m xs) = insert m (set xs)"
  by (induction xs) auto

lemma insertInOrder_owners: "owners (MQTTPersistence_insertInOrder m xs) = ptr (m_publish m) + owners xs"
  by (simp add: owners_def insertInOrder_mset)

lemma insertInOrder_sorted:
  "sorted_wrt (<) (map m_msgid xs) \<Longrightarrow> m_msgid m \<notin> m_msgid ` set xs \<Longrightarrow> sorted_wrt (<) (map m_msgid (MQTTPersistence_insertInOrder m xs))"
  by (induction xs) (auto simp: not_less)

lemma owners_member: "m \<in> set ms \<Longrightarrow> m_publish m = Some p \<Longrightarrow> p \<in># owners ms"
  by (induction ms) auto

text \<open>The messages whose keys \<open>K\<close> have been handled are in the list, in the order of their ids.\<close>

definition restoring :: "int \<Rightarrow> stored_publish list \<Rightarrow> string set \<Rightarrow> nat multiset \<Rightarrow> Messages list \<Rightarrow> MQTTProtocol \<Rightarrow> bool" where
  "restoring v sps K M out st \<longleftrightarrow> heap_ok (owners out + M) st \<and> sorted_wrt (<) (map m_msgid out) \<and>
     (\<forall>m \<in> set out. \<exists>sp \<in> set sps. sent_key v sp \<in> K \<and> stands_for st v sp m) \<and>
     (\<forall>sp \<in> set sps. sent_key v sp \<in> K \<longrightarrow> sp_id sp \<in> m_msgid ` set out)"

lemma stands_for_other:
  assumes "stands_for st v sp m" "pubs st' = (pubs st)(q \<mapsto> r)" "m_publish m \<noteq> Some q"
  shows "stands_for st' v sp m"
  using assms by (auto simp: stands_for_def)

lemma restoring_add:
  assumes R: "restoring v sps K M out st" and sp: "sp \<in> set sps" "sent_key v sp \<notin> K" "stands_for st' v sp m" "m_publish m = Some q"
    and heap: "heap_ok (add_mset q (owners out + M)) st'" "pubs st' = (pubs st)(q \<mapsto> r)" "q \<notin># owners out + M"
    and ids: "inj_on sp_id (set sps)" "\<And>sp. sp \<in> set sps \<Longrightarrow> 0 \<le> sp_id sp"
  shows "restoring v sps (insert (sent_key v sp) K) M (MQTTPersistence_insertInOrder m out) st'"
proof -
  have new: "m_msgid m \<notin> m_msgid ` set out"
  proof
    assume "m_msgid m \<in> m_msgid ` set out"
    then obtain m' sp' where "m' \<in> set out" "m_msgid m' = m_msgid m" "sp' \<in> set sps" "sent_key v sp' \<in> K" "stands_for st v sp' m'"
      using R by (auto simp: restoring_def)
    then have "sp_id sp' = sp_id sp" using sp(3) by (simp add: stands_for_def)
    with ids(1) sp(1) \<open>sp' \<in> set sps\<close> have "sp' = sp" by (auto dest: inj_onD)
    with \<open>sent_key v sp' \<in> K\<close> sp(2) show False by simp
  qed
  have old: "stands_for st' v sp' m'" if "m' \<in> set out" "stands_for st v sp' m'" for sp' m'
    using stands_for_other [OF that(2) heap(2)] heap(3) owners_member [OF that(1)] by fastforce
  have "\<exists>sp' \<in> set sps. sent_key v sp' \<in> insert (sent_key v sp) K \<and> stands_for st' v sp' m'" if "m' \<in> insert m (set out)" for m'
    using that sp(1,3) R old by (auto simp: restoring_def) blast+
  moreover have "sp_id sp' \<in> m_msgid ` insert m (set out)" if "sp' \<in> set sps" "sent_key v sp' \<in> insert (sent_key v sp) K" for sp'
    using that R sp(1,3) sent_key_inj [of sp' sp v] ids(2) by (auto simp: restoring_def stands_for_def)
  moreover have "sorted_wrt (<) (map m_msgid (MQTTPersistence_insertInOrder m out))"
    using R new by (intro insertInOrder_sorted) (simp_all add: restoring_def)
  ultimately show ?thesis using heap(1) sp(4) by (simp add: restoring_def insertInOrder_owners)
qed

text \<open>The records of a stored message.\<close>

lemma sp_facts:
  assumes "sp_ok v sp"
  shows "0 \<le> sp_id sp" "sp_id sp < 65536" "0 \<le> sp_qos sp" "0 \<le> sp_retained sp"
    "length (pub_payload (sp_pack sp)) < 2147483648" "holds (pub_properties (sp_pack sp)) (sp_props sp)" "length (props_bytes (sp_props sp)) < 268435456"
  using assms by (auto simp: sp_ok_def publish_ok_def sp_id_def)

lemma restore_sent_message:
  assumes al: "\<forall>n. alloc (pe_env pe) n" and room: "10 \<le> key_size pe" and sp: "sp_ok (MQTTVersion (w_client w)) sp"
    and pack: "hdr_qos (pub_header pack) = nat (sp_qos sp)" "hdr_retain (pub_header pack) = nat (sp_retained sp)"
      "pub_topic pack = pub_topic (sp_pack sp)" "pub_msgId pack = sp_id sp" "pub_payload pack = pub_payload (sp_pack sp)"
      "pub_payloadlen pack = int (length (pub_payload (sp_pack sp)))" "5 \<le> MQTTVersion (w_client w) \<longrightarrow> holds (pub_properties pack) (sp_props sp)"
    and rel: "s_containskey ops (rel_key (MQTTVersion (w_client w)) sp) (w_store w) = 0 \<longleftrightarrow> sp_released sp"
    and heap: "heap_ok M (w_proto w)"
  shows "\<exists>m st' r. restore_sent pe ops pack w =
      Inr (0, w\<lparr>w_client := (w_client w)\<lparr>outboundMsgs := MQTTPersistence_insertInOrder m (outboundMsgs (w_client w))\<rparr>, w_proto := st'\<rparr>) \<and>
    stands_for st' (MQTTVersion (w_client w)) sp m \<and> m_publish m = Some (next_pub (w_proto w)) \<and>
    heap_ok (add_mset (next_pub (w_proto w)) M) st' \<and> pubs st' = (pubs (w_proto w))(next_pub (w_proto w) \<mapsto> r) \<and> next_pub (w_proto w) \<notin># M"
proof -
  define v where "v = MQTTVersion (w_client w)"
  define publish where "publish = pack\<lparr>pub_version := v\<rparr>"
  note f = sp_facts [OF sp]
  have props: "props_ok (Some (pub_properties publish))" "prop_list (pub_properties publish) = sp_props sp" if "5 \<le> v"
    using that pack(7) f(7) by (auto simp: props_ok_def publish_def v_def holds_def intro: prop_list_slots)
  obtain m st' r where c: "MQTTProtocol_createMessage (pe_env pe) publish (sp_qos sp) (sp_retained sp) True (w_proto w) = Inr (Some m, st')"
    "m_qos m = sp_qos sp" "m_retain m = sp_retained sp" "m_msgid m = sp_id sp" "m_version m = v"
    "m_publish m = Some (next_pub (w_proto w))" "m_next m = (if sp_qos sp = 2 then Some PUBREC else None)"
    "5 \<le> v \<longrightarrow> (\<exists>ps. m_properties m = Some ps \<and> props_ok (Some ps) \<and> prop_list ps = sp_props sp)"
    "heap_ok (add_mset (next_pub (w_proto w)) M) st'" "pubs st' = (pubs (w_proto w))(next_pub (w_proto w) \<mapsto> r)" "next_pub (w_proto w) \<notin># M"
    "p_topic r = pub_topic (sp_pack sp)" "p_payload r = pub_payload (sp_pack sp)"
    using createMessage_stored [OF heap al, of publish "sp_qos sp" "sp_retained sp"] props pack f(5) by (auto simp: publish_def)
  define m' where "m' = (if sp_released sp then m\<lparr>m_next := Some PUBCOMP\<rparr> else m)\<lparr>m_lastTouch := 0\<rparr>"
  have key: "sprintf_key (key_size pe) (if 5 \<le> v then PERSISTENCE_V5_PUBREL else PERSISTENCE_PUBREL) (sp_id sp) = Inr (rel_key v sp)"
    using sprintf_id [OF f(1,2) room] by (simp add: rel_key_def stem_defs)
  have free: "MQTTPacket_freePublish publish = Inr ()"
    using props by (auto simp: MQTTPacket_freePublish_def publish_def intro!: free_properties_held simp: props_held_def)
  have "restore_sent pe ops pack w =
      Inr (0, w\<lparr>w_client := (w_client w)\<lparr>outboundMsgs := MQTTPersistence_insertInOrder m' (outboundMsgs (w_client w))\<rparr>, w_proto := st'\<rparr>)"
    using c(1) key free rel pack f(3,4)
    by (simp add: restore_sent_def Let_def v_def [symmetric] publish_def [symmetric] m'_def)
  moreover have "stands_for st' v sp m'" using c by (auto simp: stands_for_def m'_def)
  moreover have "m_publish m' = Some (next_pub (w_proto w))" using c(6) by (simp add: m'_def)
  ultimately show ?thesis using c(9,10,11) by (auto simp: v_def)
qed

text \<open>A run of the loop over a store that works and holds the messages \<open>sps\<close>.\<close>

definition restore_ready :: "persist_env \<Rightarrow> stored_publish list \<Rightarrow> string set \<Rightarrow> nat multiset \<Rightarrow> 's pworld \<Rightarrow> bool" where
  "restore_ready pe sps K M w \<longleftrightarrow> (\<forall>n. alloc (pe_env pe) n) \<and> 10 \<le> key_size pe \<and> inj_on sp_id (set sps) \<and> MQTTVersion (w_client w) \<le> 5 \<and>
     restoring (MQTTVersion (w_client w)) sps K M (outboundMsgs (w_client w)) (w_proto w)"

text \<open>What the restoration leaves alone.\<close>

definition only_outbound :: "'s pworld \<Rightarrow> 's pworld \<Rightarrow> bool" where
  "only_outbound w w' \<longleftrightarrow> w_store w' = w_store w \<and> w_client w' = (w_client w)\<lparr>outboundMsgs := outboundMsgs (w_client w')\<rparr>"

lemma only_outbound_version: "only_outbound w w' \<Longrightarrow> MQTTVersion (w_client w') = MQTTVersion (w_client w)"
proof -
  assume "only_outbound w w'"
  then have "w_client w' = (w_client w)\<lparr>outboundMsgs := outboundMsgs (w_client w')\<rparr>" by (simp add: only_outbound_def)
  then have "MQTTVersion (w_client w') = MQTTVersion ((w_client w)\<lparr>outboundMsgs := outboundMsgs (w_client w')\<rparr>)" by (rule arg_cong)
  then show ?thesis by simp
qed

lemma ready_other:
  "restore_ready pe sps K M w \<Longrightarrow> (\<And>sp. sp \<in> set sps \<Longrightarrow> sent_key (MQTTVersion (w_client w)) sp \<noteq> k) \<Longrightarrow> restore_ready pe sps (insert k K) M w"
  unfolding restore_ready_def restoring_def by blast

lemma only_outbound_trans: "only_outbound w w1 \<Longrightarrow> only_outbound w1 w2 \<Longrightarrow> only_outbound w w2"
  by (cases "w_client w1") (simp add: only_outbound_def)

lemma only_outbound_set: "only_outbound w w1 \<Longrightarrow> only_outbound w (w1\<lparr>w_client := (w_client w1)\<lparr>outboundMsgs := ms\<rparr>\<rparr>)"
  by (cases "w_client w1") (simp add: only_outbound_def)

lemma assigned_distinct: "assigned_in_order ids \<Longrightarrow> distinct ids"
proof -
  assume "assigned_in_order ids"
  then obtain k where "sorted_wrt (<) (drop k ids @ take k ids)" by (auto simp: assigned_in_order_def)
  then have "distinct (drop k ids @ take k ids)" using strict_sorted_iff by blast
  then show ?thesis by (metis append_take_drop_id distinct_append inf_commute)
qed

text \<open>The list in the order of the messages, found from the list in the order of their ids.\<close>

lemma reorder:
  assumes "distinct (map m_msgid out)" "distinct ids" "m_msgid ` set out = set ids"
  obtains ms where "map m_msgid ms = ids" "mset ms = mset out"
proof -
  define f where "f = inv_into (set out) m_msgid"
  have "map m_msgid (map f ids) = ids" using assms(3) by (auto simp: f_def f_inv_into_f intro!: map_idI)
  moreover have "mset (map f ids) = mset out"
  proof -
    have "distinct (map f ids)" using calculation assms(2) by (metis distinct_map)
    moreover have "set (map f ids) = set out"
      using assms(1,3) by (simp add: f_def distinct_map inv_into_image_cancel flip: assms(3))
    moreover have "distinct out" using assms(1) distinct_map by blast
    ultimately show ?thesis using set_eq_iff_mset_eq_distinct by blast
  qed
  ultimately show thesis by (rule that)
qed

context reliable_store
begin

lemma rel_key_contained:
  assumes "good_store s" "roomy s" "stores_messages pe v sps (holds_data s)" "sp \<in> set sps"
  shows "s_containskey ops (rel_key v sp) s = 0 \<longleftrightarrow> sp_released sp"
    and "s_containskey ops (sent_key v sp) s = 0"
proof -
  have st: "stem_ok PERSISTENCE_PUBREL" "stem_ok PERSISTENCE_V5_PUBREL" using stems_ok(1) by (simp_all add: stems_def)
  then have "good_key (rel_key v sp)" using plain_key_key by (intro plain_good) (auto simp: rel_key_def)
  from containskey_law [OF assms(1) this] containskey_works [OF assms(1,2), of "rel_key v sp"] assms(3,4)
  show "s_containskey ops (rel_key v sp) s = 0 \<longleftrightarrow> sp_released sp" by (auto simp: stores_messages_def)
  show "s_containskey ops (sent_key v sp) s = 0"
    using containskey_works [OF assms(1,2), of "sent_key v sp"] assms(3,4) by (auto simp: stores_messages_def)
qed

lemma read_back_held:
  "good_store s \<Longrightarrow> roomy s \<Longrightarrow> holds_data s k = Some bytes \<Longrightarrow> read_back pe ops k s = after_read pe bytes"
  by (simp add: read_back_def get_works)

lemma restore_key_sent:
  assumes "good_store (w_store w)" "roomy (w_store w)" "stores_messages pe v sps (holds_data (w_store w))" "v = MQTTVersion (w_client w)"
    and "restore_ready pe sps K M w" "sp \<in> set sps" "sent_key v sp \<notin> K"
    and "holds_data (w_store w) (sent_key v sp) = Some bytes" "after_read pe bytes = (0, sent_record sp)"
  shows "\<exists>w'. restore_key pe ops (sent_key v sp) w = Inr (0, False, w') \<and> only_outbound w w' \<and> restore_ready pe sps (insert (sent_key v sp) K) M w'"
proof -
  have al: "\<forall>n. alloc (pe_env pe) n" "10 \<le> key_size pe" and v5: "v \<le> 5" and inj: "inj_on sp_id (set sps)"
    and R: "restoring v sps K M (outboundMsgs (w_client w)) (w_proto w)"
    using assms(4,5) by (auto simp: restore_ready_def)
  have ok: "sp_ok v sp'" if "sp' \<in> set sps" for sp' using that assms(3) by (auto simp: stores_messages_def)
  define dv :: int where "dv = (if 5 \<le> v then 5 else 4)"
  obtain pack where pack: "MQTTPersistence_restorePacket (alloc (pe_env pe)) dv (sent_record sp) = Inr (Some (P_Publish pack))"
    "hdr_qos (pub_header pack) = nat (sp_qos sp)" "hdr_retain (pub_header pack) = nat (sp_retained sp)"
    "pub_topic pack = pub_topic (sp_pack sp)" "pub_msgId pack = sp_id sp" "pub_payload pack = pub_payload (sp_pack sp)"
    "pub_payloadlen pack = int (length (pub_payload (sp_pack sp)))" "5 \<le> v \<longrightarrow> holds (pub_properties pack) (sp_props sp)"
    using restorePacket_publish [of "sp_pack sp" "sp_props sp" "sp_qos sp" "alloc (pe_env pe)" "sp_dup sp" "sp_retained sp"] al(1) ok [OF assms(6)]
    by (auto simp: sp_ok_def sent_record_def sp_id_def dv_def split: if_splits)
  have heap: "heap_ok (owners (outboundMsgs (w_client w)) + M) (w_proto w)" using R by (simp add: restoring_def)
  obtain m st' r where m: "restore_sent pe ops pack w =
      Inr (0, w\<lparr>w_client := (w_client w)\<lparr>outboundMsgs := MQTTPersistence_insertInOrder m (outboundMsgs (w_client w))\<rparr>, w_proto := st'\<rparr>)"
    "stands_for st' v sp m" "m_publish m = Some (next_pub (w_proto w))"
    "heap_ok (add_mset (next_pub (w_proto w)) (owners (outboundMsgs (w_client w)) + M)) st'"
    "pubs st' = (pubs (w_proto w))(next_pub (w_proto w) \<mapsto> r)" "next_pub (w_proto w) \<notin># owners (outboundMsgs (w_client w)) + M"
    using restore_sent_message [OF al _ pack(2-7) _ _ heap, of ops] pack(8) ok [OF assms(6)] rel_key_contained(1) [OF assms(1-3,6)]
    unfolding assms(4) by blast
  define w' where "w' = w\<lparr>w_client := (w_client w)\<lparr>outboundMsgs := MQTTPersistence_insertInOrder m (outboundMsgs (w_client w))\<rparr>, w_proto := st'\<rparr>"
  have mal: "malloc_ok (alloc (pe_env pe)) (int MESSAGE_FILENAME_LENGTH + 1)"
    using malloc_small [OF al(1), of 9] by (simp add: MESSAGE_FILENAME_LENGTH_def)
  have "restore_record pe ops (sent_key v sp) (snd (key_kind (sent_key v sp))) (Some (P_Publish pack)) w = Inr (0, False, w')"
    using m(1) mal by (simp add: restore_record_def Let_def carry_on_def kind_stems w'_def)
  moreover have "fst (key_kind (sent_key v sp)) = dv" by (simp add: sent_key_kind dv_def)
  ultimately have "restore_key pe ops (sent_key v sp) w = Inr (0, False, w')"
    using pack(1) read_back_held [OF assms(1,2,8)] assms(4,9) dv_def
    by (cases "key_kind (sent_key v sp)") (simp add: restore_key_def key_not_skipped Let_def)
  moreover have "restoring v sps (insert (sent_key v sp) K) M (outboundMsgs (w_client w')) (w_proto w')"
    using restoring_add [OF R assms(6,7) m(2-6) inj] ok sp_facts(1) by (auto simp: w'_def)
  ultimately show ?thesis using assms(4) al inj v5
    by (intro exI [of _ w']) (auto simp: only_outbound_def restore_ready_def w'_def)
qed

lemma restore_key_quiet:
  assumes "good_store (w_store w)" "roomy (w_store w)" "stores_messages pe v sps (holds_data (w_store w))" "v = MQTTVersion (w_client w)"
    and "restore_ready pe sps K M w" "holds_data (w_store w) k = Some bytes"
    and k: "skipped_key k \<or> (\<exists>sp \<in> set sps. k = rel_key v sp \<and> (\<exists>dup \<in> {0, 1}. after_read pe bytes = (0, pubrel_record dup (sp_id sp))))"
  shows "restore_key pe ops k w = Inr (0, False, w) \<and> restore_ready pe sps (insert k K) M w"
proof (cases "skipped_key k")
  case True
  then have "sent_key (MQTTVersion (w_client w)) sp \<noteq> k" for sp using key_not_skipped(1) by blast
  with True ready_other [OF assms(5)] show ?thesis by (simp add: restore_key_def)
next
  case False
  with k obtain sp dup where sp: "sp \<in> set sps" "k = rel_key v sp" "dup \<in> {0, 1}" "after_read pe bytes = (0, pubrel_record dup (sp_id sp))" by blast
  have al: "\<forall>n. alloc (pe_env pe) n" "10 \<le> key_size pe" using assms(5) by (auto simp: restore_ready_def)
  have ok: "sp_ok v sp" using assms(3) sp(1) by (auto simp: stores_messages_def)
  obtain ack where ack: "MQTTPersistence_restorePacket (alloc (pe_env pe)) (fst (key_kind k)) (pubrel_record dup (sp_id sp)) = Inr (Some (P_Ack ack))"
    "ack_msgId ack = Some (sp_id sp)"
    using restorePacket_pubrel [OF sp(3) sp_facts(1,2) [OF ok] al(1)] by blast
  have mal: "malloc_ok (alloc (pe_env pe)) (int MESSAGE_FILENAME_LENGTH + 1)"
    using malloc_small [OF al(1), of 9] by (simp add: MESSAGE_FILENAME_LENGTH_def)
  have "sprintf_key (key_size pe) (if 5 \<le> v then PERSISTENCE_V5_PUBLISH_SENT else PERSISTENCE_PUBLISH_SENT) (sp_id sp) = Inr (sent_key v sp)"
    using sprintf_id [OF sp_facts(1,2) [OF ok] al(2)] by (simp add: sent_key_def stem_defs)
  with ack(2) assms(4) rel_key_contained(2) [OF assms(1-3) sp(1)] have "restore_pubrel pe ops k ack w = Inr (0, w)"
    by (simp add: restore_pubrel_def)
  then have "restore_record pe ops k (snd (key_kind k)) (Some (P_Ack ack)) w = Inr (0, False, w)"
    using mal by (simp add: restore_record_def Let_def carry_on_def kind_stems sp(2))
  moreover have "fst (key_kind k) = (if 5 \<le> v then 5 else 4)" by (simp add: sp(2) rel_key_kind)
  ultimately have "restore_key pe ops k w = Inr (0, False, w)"
    using ack(1) read_back_held [OF assms(1,2,6)] sp(4) assms(4) False
    by (cases "key_kind k") (simp add: restore_key_def Let_def)
  then show ?thesis using ready_other [OF assms(5), of k] keys_differ sp(2) assms(4) by simp
qed

lemma restore_loop:
  assumes "good_store (w_store w)" "roomy (w_store w)" "stores_messages pe v sps (holds_data (w_store w))" "v = MQTTVersion (w_client w)"
    and "restore_ready pe sps K M w" "distinct ks" "set ks \<subseteq> dom (holds_data (w_store w))" "set ks \<inter> K = {}"
  shows "\<exists>w'. restore_keys pe ops ks w = Inr (0, False, w') \<and> only_outbound w w' \<and> restore_ready pe sps (K \<union> set ks) M w'"
  using assms
proof (induction ks arbitrary: w K)
  case Nil
  then show ?case by (auto simp: only_outbound_def)
next
  case (Cons k ks)
  obtain bytes where b: "holds_data (w_store w) k = Some bytes" using Cons.prems(7) by auto
  then consider (quiet) "skipped_key k \<or> (\<exists>sp \<in> set sps. k = rel_key v sp \<and> (\<exists>dup \<in> {0, 1}. after_read pe bytes = (0, pubrel_record dup (sp_id sp))))"
    | (publish) sp where "sp \<in> set sps" "k = sent_key v sp" "after_read pe bytes = (0, sent_record sp)"
    using Cons.prems(3) unfolding stores_messages_def by blast
  then obtain w1 where w1: "restore_key pe ops k w = Inr (0, False, w1)" "only_outbound w w1" "restore_ready pe sps (insert k K) M w1"
  proof cases
    case quiet
    with restore_key_quiet [OF Cons.prems(1-5) b] that show thesis by (auto simp: only_outbound_def)
  next
    case publish
    with restore_key_sent [OF Cons.prems(1-5) publish(1)] b Cons.prems(8) that show thesis by auto
  qed
  have s: "w_store w1 = w_store w" "v = MQTTVersion (w_client w1)"
    using w1(2) only_outbound_version [OF w1(2)] Cons.prems(4) by (simp_all add: only_outbound_def)
  obtain w2 where "restore_keys pe ops ks w1 = Inr (0, False, w2)" "only_outbound w1 w2" "restore_ready pe sps (insert k K \<union> set ks) M w2"
    using Cons.IH [of w1 "insert k K"] Cons.prems w1 s by auto
  with w1 show ?case using only_outbound_trans by auto
qed

lemma restorePackets_in_order:
  assumes "good_store (w_store w)" "roomy (w_store w)" "stores_messages pe v sps (holds_data (w_store w))" "v = MQTTVersion (w_client w)" "v \<le> 5"
    and "\<forall>n. alloc (pe_env pe) n" "10 \<le> key_size pe" "outboundMsgs (w_client w) = []" "heap_ok M (w_proto w)" "assigned_in_order (map sp_id sps)"
  shows "\<exists>w'. MQTTPersistence_restorePackets pe (Some ops) w = Inr (0, w') \<and> only_outbound w w' \<and>
    list_all2 (stands_for (w_proto w') v) sps (outboundMsgs (w_client w')) \<and> heap_ok (owners (outboundMsgs (w_client w')) + M) (w_proto w')"
proof -
  have dist: "distinct (map sp_id sps)" by (rule assigned_distinct [OF assms(10)])
  then have inj: "inj_on sp_id (set sps)" by (simp add: distinct_map)
  have ready: "restore_ready pe sps {} M w" using assms inj by (simp add: restore_ready_def restoring_def)
  obtain ks where ks: "s_keys ops (w_store w) = (0, ks)" using keys_work [OF assms(1,2)] by (metis prod.collapse)
  have kd: "distinct ks" "set ks = dom (holds_data (w_store w))" using keys_law [OF assms(1) ks] by auto
  obtain w1 where w1: "restore_keys pe ops ks w = Inr (0, False, w1)" "only_outbound w w1" "restore_ready pe sps (set ks) M w1"
    using restore_loop [OF assms(1-4) ready kd(1)] kd(2) by auto
  let ?out = "outboundMsgs (w_client w1)"
  have v: "v = MQTTVersion (w_client w1)" using only_outbound_version [OF w1(2)] assms(4) by simp
  have R: "restoring v sps (set ks) M ?out (w_proto w1)" using w1(3) by (simp add: restore_ready_def v)
  have all: "sent_key v sp \<in> set ks" if "sp \<in> set sps" for sp using that assms(3) kd(2) by (auto simp: stores_messages_def)
  have rep: "\<exists>sp \<in> set sps. stands_for (w_proto w1) v sp m" if "m \<in> set ?out" for m using that R by (auto simp: restoring_def)
  have srt: "sorted_wrt (<) (map m_msgid ?out)" using R by (simp add: restoring_def)
  have "m_msgid ` set ?out = set (map sp_id sps)"
  proof (intro equalityI subsetI)
    fix i assume "i \<in> m_msgid ` set ?out"
    then obtain m sp where "m \<in> set ?out" "i = m_msgid m" "sp \<in> set sps" "stands_for (w_proto w1) v sp m" using rep by blast
    then show "i \<in> set (map sp_id sps)" by (auto simp: stands_for_def)
  next
    fix i assume "i \<in> set (map sp_id sps)"
    then show "i \<in> m_msgid ` set ?out" using R all by (auto simp: restoring_def)
  qed
  moreover have "distinct (map m_msgid ?out)" using srt strict_sorted_iff by blast
  ultimately obtain ms where ms: "map m_msgid ms = map sp_id sps" "mset ms = mset ?out" using reorder [of ?out "map sp_id sps"] dist by blast
  have wrap: "MQTTPersistence_wrapMsgID ?out = ms" using wrapMsgID_order [of ms ?out] assms(10) ms srt by simp
  have "list_all2 (stands_for (w_proto w1) v) sps ms"
  proof (rule list_all2_all_nthI)
    show len: "length sps = length ms" using ms(1) by (metis length_map)
    fix i assume i: "i < length sps"
    then have "ms ! i \<in> set ms" using len by simp
    then have "ms ! i \<in> set ?out" unfolding mset_eq_setD [OF ms(2)] .
    then obtain sp where sp: "sp \<in> set sps" "stands_for (w_proto w1) v sp (ms ! i)" using rep by blast
    have "m_msgid (ms ! i) = sp_id (sps ! i)" using ms(1) i len by (metis nth_map)
    with sp(2) have "sp_id sp = sp_id (sps ! i)" by (simp add: stands_for_def)
    then have "sp = sps ! i" using inj sp(1) i by (auto dest: inj_onD)
    with sp(2) show "stands_for (w_proto w1) v (sps ! i) (ms ! i)" by simp
  qed
  moreover have "owners ms = owners ?out" using ms(2) by (simp add: owners_def)
  moreover have "heap_ok (owners ?out + M) (w_proto w1)" using R by (simp add: restoring_def)
  moreover have "only_outbound w (w1\<lparr>w_client := (w_client w1)\<lparr>outboundMsgs := ms\<rparr>\<rparr>)"
    using w1(2) by (rule only_outbound_set)
  ultimately show ?thesis
    using ks w1(1) wrap by (intro exI [of _ "w1\<lparr>w_client := (w_client w1)\<lparr>outboundMsgs := ms\<rparr>\<rparr>"]) (simp add: MQTTPersistence_restorePackets_def)
qed

end

section \<open>From sending to restoring\<close>

text \<open>
  What the client persists when it sends messages: the \<^verbatim>\<open>PUBLISH\<close> packet of each, in the order of sending, and a
  \<^verbatim>\<open>PUBREL\<close> for those the server has received. It stops at the first error.
\<close>

definition put_record :: "persist_env \<Rightarrow> 's store_ops \<Rightarrow> nat \<Rightarrow> byte \<Rightarrow> byte list \<Rightarrow> int \<Rightarrow> int \<Rightarrow> 's \<Rightarrow> (int \<times> 's) res" where
  "put_record pe ops htype header body msgId v s =
     MQTTPersistence_putPacket pe (Some ops) (header # MQTTPacket_encode (length body)) [body] htype msgId 0 v s"

fun persist_run :: "persist_env \<Rightarrow> 's store_ops \<Rightarrow> int \<Rightarrow> stored_publish list \<Rightarrow> 's \<Rightarrow> (int \<times> 's) res" where
  "persist_run pe ops v [] s = Inr (0, s)"
| "persist_run pe ops v (sp # sps) s =
     bindR (put_record pe ops PUBLISH (mk_header PUBLISH (sp_dup sp) (sp_qos sp) (sp_retained sp)) (publish_body (sp_pack sp) (sp_props sp) (sp_qos sp))
       (sp_id sp) v s) (\<lambda>(rc, s1).
     if rc \<noteq> 0 then Inr (rc, s1)
     else
       bindR (if sp_released sp then put_record pe ops PUBREL (mk_header PUBREL 0 1 0) (writeInt (sp_id sp)) (sp_id sp) v s1 else Inr (0, s1)) (\<lambda>(rc, s2).
         if rc \<noteq> 0 then Inr (rc, s2) else persist_run pe ops v sps s2))"

text \<open>\<^verbatim>\<open>afterRead\<close> undoes \<^verbatim>\<open>beforeWrite\<close>, as their documentation asks of the application.\<close>

definition callbacks_invert :: "persist_env \<Rightarrow> bool" where
  "callbacks_invert pe \<longleftrightarrow> (\<forall>bufs bufs'. before_write pe bufs = (0, bufs') \<longrightarrow> after_read pe (concat bufs') = (0, concat bufs))"

lemma stores_messages_add:
  assumes "stores_messages pe v sps data" "sp_ok v sp" "sp_id sp \<notin> sp_id ` set sps"
    and "after_read pe b1 = (0, sent_record sp)" "sp_released sp \<Longrightarrow> after_read pe b2 = (0, pubrel_record 0 (sp_id sp))"
  shows "stores_messages pe v (sp # sps) (if sp_released sp then data(sent_key v sp \<mapsto> b1, rel_key v sp \<mapsto> b2) else data(sent_key v sp \<mapsto> b1))"
proof -
  let ?d = "if sp_released sp then data(sent_key v sp \<mapsto> b1, rel_key v sp \<mapsto> b2) else data(sent_key v sp \<mapsto> b1)"
  have other: "sent_key v sp' \<noteq> sent_key v sp" "rel_key v sp' \<noteq> rel_key v sp" if "sp' \<in> set sps" for sp'
  proof -
    have "0 \<le> sp_id sp'" "0 \<le> sp_id sp" using that assms(1,2) sp_facts(1) by (auto simp: stores_messages_def)
    moreover have "sp_id sp' \<noteq> sp_id sp" using that assms(3) by (metis imageI)
    ultimately show "sent_key v sp' \<noteq> sent_key v sp" "rel_key v sp' \<noteq> rel_key v sp" by (auto simp: sent_key_def rel_key_def)
  qed
  have new: "data (rel_key v sp) = None"
  proof (rule ccontr)
    assume "data (rel_key v sp) \<noteq> None"
    then obtain bytes where "data (rel_key v sp) = Some bytes" by auto
    with assms(1) have "skipped_key (rel_key v sp) \<or> (\<exists>sp' \<in> set sps. rel_key v sp = sent_key v sp' \<or> rel_key v sp = rel_key v sp')"
      unfolding stores_messages_def by blast
    with other keys_differ [of v] key_not_skipped(2) show False by metis
  qed
  have "sp_ok v sp' \<and> ?d (sent_key v sp') \<noteq> None \<and> (?d (rel_key v sp') \<noteq> None \<longleftrightarrow> sp_released sp')" if "sp' \<in> set (sp # sps)" for sp'
    using that assms(1,2) new keys_differ [of v] other by (auto simp: stores_messages_def)
  moreover have "skipped_key k \<or> (\<exists>sp' \<in> set (sp # sps). k = sent_key v sp' \<and> after_read pe bytes = (0, sent_record sp') \<or>
      sp_released sp' \<and> k = rel_key v sp' \<and> (\<exists>dup \<in> {0, 1}. after_read pe bytes = (0, pubrel_record dup (sp_id sp'))))" if k: "?d k = Some bytes" for k bytes
  proof -
    consider "k = sent_key v sp" "bytes = b1" | "sp_released sp" "k = rel_key v sp" "bytes = b2" | "data k = Some bytes"
      using k by (cases "sp_released sp"; cases "k = rel_key v sp"; cases "k = sent_key v sp") simp_all
    then show ?thesis
    proof cases
      case 3
      with assms(1) show ?thesis unfolding stores_messages_def by (meson list.set_intros(2))
    qed (use assms(4,5) in auto)
  qed
  ultimately show ?thesis unfolding stores_messages_def by blast
qed

context persistent_store
begin

lemma put_record_stored:
  assumes "good_store s" "put_record pe ops htype header body msgId v s = Inr (0, s')" "callbacks_invert pe" "0 \<le> msgId"
    and "packet_stem htype 0 v = Some stem" "good_key (stem @ dec_str (nat msgId))"
  shows "good_store s' \<and> (\<exists>bytes. holds_data s' = (holds_data s)(stem @ dec_str (nat msgId) \<mapsto> bytes) \<and> after_read pe bytes = (0, framed header body))"
proof -
  obtain rc bufs where w: "before_write pe [header # MQTTPacket_encode (length body), body] = (rc, bufs)" by fastforce
  have "rc = 0" "s_put ops (stem @ dec_str (nat msgId)) bufs s = (0, s')"
    using assms(2,4,5) w by (auto simp: put_record_def MQTTPersistence_putPacket_def Let_def sprintf_key_def guardR_def PAHO_MEMORY_ERROR_def split: if_splits)
  with put_law [OF assms(1,6) this(2)] w assms(3) show ?thesis by (auto simp: callbacks_invert_def framed_def)
qed

lemma persist_one:
  assumes "good_store s" "stores_messages pe v done (holds_data s)" "callbacks_invert pe" "\<And>k. plain_key k \<Longrightarrow> good_key k"
    and "sp_ok v sp" "sp_id sp \<notin> sp_id ` set done"
    and "persist_run pe ops v (sp # sps) s = Inr (0, s')"
  shows "\<exists>s2. good_store s2 \<and> stores_messages pe v (sp # done) (holds_data s2) \<and> persist_run pe ops v sps s2 = Inr (0, s')"
proof -
  let ?h = "mk_header PUBLISH (sp_dup sp) (sp_qos sp) (sp_retained sp)" and ?body = "publish_body (sp_pack sp) (sp_props sp) (sp_qos sp)"
  note id = sp_facts(1,2) [OF assms(5)]
  have st: "stem_ok PERSISTENCE_PUBREL" "stem_ok PERSISTENCE_V5_PUBREL" "stem_ok PERSISTENCE_PUBLISH_SENT" "stem_ok PERSISTENCE_V5_PUBLISH_SENT"
    using stems_ok(1) by (simp_all add: stems_def)
  then have gk: "good_key (sent_key v sp)" "good_key (rel_key v sp)"
    using plain_key_key by (auto simp: sent_key_def rel_key_def intro!: assms(4))
  obtain s1 where put1: "put_record pe ops PUBLISH ?h ?body (sp_id sp) v s = Inr (0, s1)"
    and rest: "bindR (if sp_released sp then put_record pe ops PUBREL (mk_header PUBREL 0 1 0) (writeInt (sp_id sp)) (sp_id sp) v s1 else Inr (0, s1))
      (\<lambda>(rc, s2). if rc \<noteq> 0 then Inr (rc, s2) else persist_run pe ops v sps s2) = Inr (0, s')"
    using assms(7) by (cases "put_record pe ops PUBLISH ?h ?body (sp_id sp) v s") (auto split: if_splits)
  obtain b1 where b1: "good_store s1" "holds_data s1 = (holds_data s)(sent_key v sp \<mapsto> b1)" "after_read pe b1 = (0, sent_record sp)"
    using put_record_stored [OF assms(1) put1 assms(3) id(1)] gk(1)
    by (auto simp: packet_stem_def sent_key_def sent_record_def publish_record_def split: if_splits)
  obtain b2 where b2: "sp_released sp \<Longrightarrow> after_read pe b2 = (0, pubrel_record 0 (sp_id sp))"
    "\<exists>s2. good_store s2 \<and> persist_run pe ops v sps s2 = Inr (0, s') \<and>
      holds_data s2 = (if sp_released sp then (holds_data s1)(rel_key v sp \<mapsto> b2) else holds_data s1)"
  proof (cases "sp_released sp")
    case False
    with rest b1(1) that show thesis by auto
  next
    case True
    then obtain s2 where put2: "put_record pe ops PUBREL (mk_header PUBREL 0 1 0) (writeInt (sp_id sp)) (sp_id sp) v s1 = Inr (0, s2)"
      "persist_run pe ops v sps s2 = Inr (0, s')"
      using rest by (cases "put_record pe ops PUBREL (mk_header PUBREL 0 1 0) (writeInt (sp_id sp)) (sp_id sp) v s1") (auto split: if_splits)
    with put_record_stored [OF b1(1) put2(1) assms(3) id(1)] gk(2) True that show thesis
      by (auto simp: packet_stem_def rel_key_def pubrel_record_def packet_types split: if_splits)
  qed
  then show ?thesis using stores_messages_add [OF assms(2,5,6) b1(3) b2(1)] b1(2) by (auto split: if_splits)
qed

lemma persist_run_stored:
  assumes "good_store s" "stores_messages pe v done (holds_data s)" "callbacks_invert pe" "\<And>k. plain_key k \<Longrightarrow> good_key k"
    and "\<forall>sp \<in> set sps. sp_ok v sp" "distinct (map sp_id (done @ sps))" "persist_run pe ops v sps s = Inr (0, s')"
  shows "good_store s' \<and> stores_messages pe v (rev sps @ done) (holds_data s')"
  using assms(1,2,5-)
proof (induction sps arbitrary: s "done")
  case (Cons sp sps)
  have "sp_ok v sp" "sp_id sp \<notin> sp_id ` set done" using Cons.prems(3,4) by auto
  from persist_one [OF Cons.prems(1,2) assms(3,4) this Cons.prems(5)] obtain s2 where
    "good_store s2" "stores_messages pe v (sp # done) (holds_data s2)" "persist_run pe ops v sps s2 = Inr (0, s')" by blast
  with Cons.IH [of s2 "sp # done"] Cons.prems(3,4) show ?case by auto
qed simp

end

lemma stores_messages_set: "set sps = set sps' \<Longrightarrow> stores_messages pe v sps data = stores_messages pe v sps' data"
  by (simp add: stores_messages_def)

text \<open>
  C4: messages in flight survive a restart. Let a client with a file store that holds no packets send messages
  with QoS 1 and 2, so that every packet is persisted without an error, whatever faults the file system has
  otherwise. Then a new client on that directory restores exactly these messages, in the order in which they
  were sent, also across the wrap of the message ids: with their topics, payloads, properties, QoS and retain
  flags, and waiting for \<^verbatim>\<open>PUBCOMP\<close> if the \<^verbatim>\<open>PUBREL\<close> was sent. The ids have to leave a gap that is wider than any
  step between them, and \<^verbatim>\<open>fclose\<close>, whose result the code ignores, has to write out what \<^verbatim>\<open>fwrite\<close> accepted. What \<^verbatim>\<open>beforeWrite\<close> does to the data \<^verbatim>\<open>afterRead\<close> has to undo.\<close>
theorem messages_survive_restart:
  assumes "file_good dir fs" and "stores_messages pe v [] (file_data dir fs)" and "callbacks_invert pe"
    and "\<forall>sp \<in> set sps. sp_ok v sp" and "assigned_in_order (map sp_id sps)"
    and "persist_run pe (file_ops env al dir) v sps fs = Inr (0, w_store w)" and "file_roomy dir (w_store w)"
    and "MQTTVersion (w_client w) = v" and "v \<le> 5" and "outboundMsgs (w_client w) = []" and "heap_ok M (w_proto w)"
    and "\<forall>n. alloc (pe_env pe) n" and "10 \<le> key_size pe" and "flushes env"
  shows "\<exists>w'. MQTTPersistence_restorePackets pe (Some (file_ops sound_fs (\<lambda>n. True) dir)) w = Inr (0, w') \<and> only_outbound w w' \<and>
    list_all2 (stands_for (w_proto w') v) sps (outboundMsgs (w_client w')) \<and> heap_ok (owners (outboundMsgs (w_client w')) + M) (w_proto w')"
proof -
  have "file_good dir (w_store w) \<and> stores_messages pe v (rev sps @ []) (file_data dir (w_store w))"
    using file_store.persist_run_stored [where env = env, unfolded flushing_id [OF assms(14)], OF assms(1,2,3) _ assms(4) _ assms(6)] assigned_distinct [OF assms(5)] by simp
  then have "file_good dir (w_store w)" "stores_messages pe v sps (file_data dir (w_store w))"
    using stores_messages_set [of "rev sps @ []" sps] by auto
  from file_reliable.restorePackets_in_order [OF this(1) assms(7) this(2)] show ?thesis using assms by auto
qed

text \<open>On a file system without faults every packet is persisted.\<close>

definition small_files :: "nat \<Rightarrow> string \<Rightarrow> filesys \<Rightarrow> bool" where
  "small_files n dir fs \<longleftrightarrow> dir \<in> set (fs_dirs fs) \<and> length dir < 2 ^ 20 \<and> length (fs_files fs) \<le> n \<and>
     list_all (\<lambda>(path, content). length path < 2 ^ 30 \<and> length content < 2 ^ 30) (fs_files fs)"

lemma small_files_update:
  assumes "small_files n dir fs" "length path < 2 ^ 30" "length content < 2 ^ 30"
  shows "small_files (Suc n) dir (fs\<lparr>fs_files := AList.update path content (fs_files fs)\<rparr>)"
proof -
  have "length (AList.update path content xs) \<le> Suc (length xs)" for xs by (induction xs) auto
  moreover have "list_all P (AList.update path content xs)" if "list_all P xs" "P (path, content)" for P and xs :: "(string \<times> byte list) list"
    using that by (induction xs) auto
  ultimately show ?thesis using assms le_trans by (fastforce simp: small_files_def)
qed

lemma put_sound:
  assumes "small_files n dir fs" "malloc_ok (\<lambda>n. True) (path_size dir key)"
  shows "s_put (file_ops sound_fs (\<lambda>n. True) dir) key bufs fs = (0, fs\<lparr>fs_files := AList.update (msg_path dir key) (concat bufs) (fs_files fs)\<rparr>)"
proof -
  have "fwrite_all (\<lambda>i. None) k bs = concat bs" for k bs by (induction bs arbitrary: k) (auto simp: upto_limit_def)
  with assms show ?thesis by (simp add: file_ops_def pstput_def Let_def sound_fs_def small_files_def upto_limit_def)
qed

lemma put_record_sound:
  assumes "small_files n dir fs" "\<forall>k. alloc (pe_env pe) k" "10 \<le> key_size pe" "0 \<le> msgId" "msgId < 65536"
    and "packet_stem htype 0 v = Some stem" "length stem \<le> 4" "before_write pe [header # MQTTPacket_encode (length body), body] = (0, bufs)"
    and "length (concat bufs) = length (framed header body)" "length body < 268435456"
  shows "\<exists>fs'. put_record pe (file_ops sound_fs (\<lambda>n. True) dir) htype header body msgId v fs = Inr (0, fs') \<and> small_files (Suc n) dir fs'"
proof -
  let ?key = "stem @ dec_str (nat msgId)"
  have "length (MQTTPacket_encode (length body)) \<le> 10" using assms(10) by (intro encode_length_le_10) simp
  then have c: "length (concat bufs) < 2 ^ 30" using assms(9,10) by (simp add: framed_def)
  have "length (dec_str (nat msgId)) \<le> 5" using assms(4,5) by (intro dec_str_length) auto
  then have p: "length (msg_path dir ?key) < 2 ^ 30" "malloc_ok (\<lambda>n. True) (path_size dir ?key)"
    using assms(1,7) by (simp_all add: small_files_def msg_path_def MESSAGE_FILENAME_EXTENSION_def path_size_def malloc_ok_def PTRDIFF_MAX_def)
  note put_sound [OF assms(1) p(2)]
  moreover have "malloc_ok (alloc (pe_env pe)) k" if "k \<in> {8, 9, 16}" for k using that malloc_small [OF assms(2), of k] by auto
  ultimately have "put_record pe (file_ops sound_fs (\<lambda>n. True) dir) htype header body msgId v fs =
      Inr (0, fs\<lparr>fs_files := AList.update (msg_path dir ?key) (concat bufs) (fs_files fs)\<rparr>)"
    using assms(6,8) sprintf_id [OF assms(4,5,3,7)] by (simp add: put_record_def MQTTPersistence_putPacket_def Let_def MESSAGE_FILENAME_LENGTH_def)
  with small_files_update [OF assms(1) p(1) c] show ?thesis by blast
qed

lemma persist_run_sound:
  assumes "small_files n dir fs" "\<forall>k. alloc (pe_env pe) k" "10 \<le> key_size pe" "\<forall>sp \<in> set sps. sp_ok v sp"
    and cb: "\<forall>bufs. \<exists>bufs'. before_write pe bufs = (0, bufs') \<and> length (concat bufs') = length (concat bufs)"
  shows "\<exists>fs'. persist_run pe (file_ops sound_fs (\<lambda>n. True) dir) v sps fs = Inr (0, fs') \<and> small_files (n + 2 * length sps) dir fs'"
  using assms(1,4)
proof (induction sps arbitrary: n fs)
  case (Cons sp sps)
  have ok: "sp_ok v sp" using Cons.prems(2) by simp
  note id = sp_facts(1,2) [OF ok]
  have put: "\<exists>fs'. put_record pe (file_ops sound_fs (\<lambda>n. True) dir) htype h body (sp_id sp) v fs0 = Inr (0, fs') \<and> small_files (Suc k) dir fs'"
    if "htype \<in> {PUBLISH, PUBREL}" "length body < 268435456" "small_files k dir fs0" for htype h body fs0 k
  proof -
    obtain stem where "packet_stem htype 0 v = Some stem" "length stem \<le> 4" using that(1) by (auto simp: packet_stem_def stem_defs)
    moreover obtain bufs where "before_write pe [h # MQTTPacket_encode (length body), body] = (0, bufs)" "length (concat bufs) = length (framed h body)"
      using cb by (auto simp: framed_def dest!: spec [of _ "[h # MQTTPacket_encode (length body), body]"])
    ultimately show ?thesis using put_record_sound [OF that(3) assms(2,3) id] that(2) by blast
  qed
  have "length (publish_body (sp_pack sp) (sp_props sp) (sp_qos sp)) < 268435456" using ok publish_body_small by (simp add: sp_ok_def)
  from put [OF _ this Cons.prems(1), of PUBLISH] obtain fs1 where
    1: "put_record pe (file_ops sound_fs (\<lambda>n. True) dir) PUBLISH (mk_header PUBLISH (sp_dup sp) (sp_qos sp) (sp_retained sp))
      (publish_body (sp_pack sp) (sp_props sp) (sp_qos sp)) (sp_id sp) v fs = Inr (0, fs1)" "small_files (Suc n) dir fs1" by blast
  have w: "length (writeInt (sp_id sp)) < 268435456" by (simp add: writeInt_def)
  obtain fs2 where 2: "(if sp_released sp then put_record pe (file_ops sound_fs (\<lambda>n. True) dir) PUBREL (mk_header PUBREL 0 1 0) (writeInt (sp_id sp)) (sp_id sp) v fs1
      else Inr (0, fs1)) = Inr (0, fs2)" "small_files (n + 2) dir fs2"
    using put [OF _ w 1(2), of PUBREL] 1(2) by (cases "sp_released sp") (auto simp: small_files_def)
  from Cons.IH [OF 2(2)] Cons.prems(2) 1(1) 2(1) show ?case by (auto simp: add.assoc)
qed simp

definition sample_env :: env where
  "sample_env = \<lparr>alloc = \<lambda>n. True, noPendingWrites = \<lambda>s n. True, callback = True, now = 0, persist_remove = 0\<rparr>"

definition scrambled :: persist_env where
  "scrambled = \<lparr>pe_env = sample_env, usable = Heap_roundup, beforeWrite = Some (\<lambda>bufs. (0, map (map (\<lambda>b. 255 - b)) bufs)),
     afterRead = Some (\<lambda>buf. (0, map (\<lambda>b. 255 - b) buf))\<rparr>"

definition sample_stored :: "int \<Rightarrow> bool \<Rightarrow> stored_publish" where
  "sample_stored n released = \<lparr>sp_pack = sample_publish\<lparr>pub_msgId := n\<rparr>, sp_props = sample_props, sp_dup = 0, sp_qos = 2, sp_retained = 1,
     sp_released = released\<rparr>"

definition sample_sent :: "stored_publish list" where
  "sample_sent = [sample_stored 65534 True, sample_stored 65535 False, sample_stored 1 False]"

definition restarted :: "filesys \<Rightarrow> filesys pworld" where
  "restarted fs = \<lparr>w_store = fs, w_client = new_client 5,
     w_proto = \<lparr>pubs = Map.empty, publications = [], next_pub = 0, msgs_received = 0, msgs_sent = 0, pending_writes = []\<rparr>\<rparr>"

lemma scrambled_inverts: "callbacks_invert scrambled"
  by (simp add: callbacks_invert_def before_write_def after_read_def scrambled_def map_concat o_def)

lemma sample_sp_ok: "n \<in> {1..65535} \<Longrightarrow> sp_ok 5 (sample_stored n r)"
proof -
  assume n: "n \<in> {1..65535}"
  have "publish_ok (sample_publish\<lparr>pub_msgId := n\<rparr>) sample_props 2"
    unfolding publish_ok_def sample_bytes using sample_holds n by (simp add: sample_publish_def)
  then show ?thesis by (simp add: sp_ok_def sample_stored_def) (simp add: sample_publish_def)
qed

theorem messages_survive_restart_witness:
  "\<exists>fs w'. persist_run scrambled (file_ops sound_fs (\<lambda>n. True) ''d'') 5 sample_sent sample_fs = Inr (0, fs) \<and>
     MQTTPersistence_restorePackets scrambled (Some (file_ops sound_fs (\<lambda>n. True) ''d'')) (restarted fs) = Inr (0, w') \<and>
     map m_msgid (outboundMsgs (w_client w')) = [65534, 65535, 1] \<and> map m_next (outboundMsgs (w_client w')) = [Some PUBCOMP, Some PUBREC, Some PUBREC]"
proof -
  have pe: "\<forall>n. alloc (pe_env scrambled) n" "10 \<le> key_size scrambled"
    by (simp_all add: scrambled_def sample_env_def key_size_def Heap_roundup_def MESSAGE_FILENAME_LENGTH_def)
  have ok: "\<forall>sp \<in> set sample_sent. sp_ok 5 sp" using sample_sp_ok by (simp add: sample_sent_def)
  have "small_files 1 ''d'' sample_fs" by (simp add: small_files_def sample_fs_def)
  from persist_run_sound [OF this pe ok] obtain fs where
    run: "persist_run scrambled (file_ops sound_fs (\<lambda>n. True) ''d'') 5 sample_sent sample_fs = Inr (0, w_store (restarted fs))"
    and sm: "small_files (1 + 2 * length sample_sent) ''d'' fs"
    by (auto simp: before_write_def scrambled_def length_concat o_def restarted_def)
  have empty: "file_data ''d'' sample_fs = Map.empty"
    by (auto simp: file_data_def fun_eq_iff sample_fs_def msg_path_def)
  have e: "stores_messages scrambled 5 [] (file_data ''d'' sample_fs)" unfolding empty by (simp add: stores_messages_def)
  have ids: "map sp_id sample_sent = [65534, 65535, 1]" by (simp add: sample_sent_def sample_stored_def sp_id_def)
  have ord: "assigned_in_order (map sp_id sample_sent)"
    unfolding ids assigned_in_order_def by (auto simp: id_distance_def MAX_MSG_ID_def intro!: exI [of _ 2])
  have roomy: "file_roomy ''d'' (w_store (restarted fs))"
    using sm by (simp add: small_files_def file_roomy_def restarted_def sample_sent_def)
  have c: "MQTTVersion (w_client (restarted fs)) = 5" "outboundMsgs (w_client (restarted fs)) = []" "heap_ok {#} (w_proto (restarted fs))"
    by (simp_all add: restarted_def heap_ok_def new_client_def)
  from messages_survive_restart [OF sample_fs_good e scrambled_inverts ok ord run roomy c(1) _ c(2,3) pe flushes_sound(1)]
  obtain w' where w': "MQTTPersistence_restorePackets scrambled (Some (file_ops sound_fs (\<lambda>n. True) ''d'')) (restarted fs) = Inr (0, w')"
    "list_all2 (stands_for (w_proto w') 5) sample_sent (outboundMsgs (w_client w'))" by auto
  from w'(2) have "map m_msgid (outboundMsgs (w_client w')) = [65534, 65535, 1] \<and> map m_next (outboundMsgs (w_client w')) = [Some PUBCOMP, Some PUBREC, Some PUBREC]"
    by (auto simp: sample_sent_def list_all2_Cons1 stands_for_def sample_stored_def sp_id_def)
  with run w'(1) show ?thesis by (auto simp: restarted_def)
qed

end
