(* ===== verification/Queue_Persist.thy ===== *)
theory Queue_Persist
  imports Packet_Restore
begin

text \<open>
  The persisted queue of messages for the application: an entry that was written is restored as it was, the
  queue comes back in the order of the sequence numbers, and with MQTT 5 entries are written only if the
  application has set the callback \<^verbatim>\<open>beforeWrite\<close>.
\<close>

section \<open>Integers and strings in memory\<close>

lemma int_digits:
  fixes n :: int
  shows "n mod 256 + 256 * (n div 256 mod 256) + 65536 * (n div 65536 mod 256) + 16777216 * (n div 16777216 mod 256) = n mod 4294967296"
proof -
  have "n mod 65536 = 256 * (n div 256 mod 256) + n mod 256" using zmod_zmult2_eq [of 256 n 256] by simp
  moreover have "n mod 16777216 = 65536 * (n div 65536 mod 256) + n mod 65536" using zmod_zmult2_eq [of 256 n 65536] by simp
  moreover have "n mod 4294967296 = 16777216 * (n div 16777216 mod 256) + n mod 16777216" using zmod_zmult2_eq [of 256 n 16777216] by simp
  ultimately show ?thesis by linarith
qed

lemma unat_byte_of_int: "int (unat (word_of_int n :: byte)) = n mod 256"
  by (simp add: uint_byte_of_int)

lemma get_int_bytes [simp]:
  assumes "in_int n"
  shows "get_int (int_bytes n @ rest) = Inr (n, rest)"
proof -
  define u where "u = n mod 4294967296"
  have "u = (if n < 0 then n + 4294967296 else n)"
    unfolding u_def using assms mod_pos_pos_trivial [of "n + 4294967296" 4294967296] by (auto simp: in_int_def INT_MAX_def INT_MIN_def)
  then have "(if u < 2 ^ 31 then u else u - 2 ^ 32) = n" using assms by (auto simp: in_int_def INT_MAX_def INT_MIN_def)
  moreover have "get_int (int_bytes n @ rest) = Inr (if u < 2 ^ 31 then u else u - 2 ^ 32, rest)"
    unfolding get_int_def int_bytes_def u_def int_digits [of n, symmetric] by (simp only: append_Cons append_Nil list.case Let_def unat_byte_of_int)
  ultimately show ?thesis by simp
qed

lemma int_bytes_length [simp]: "length (int_bytes n) = 4"
  by (simp add: int_bytes_def)

lemma get_cstring_bytes [simp]:
  assumes "0 \<notin> set s"
  shows "get_cstring (c_bytes s @ rest) = Inr (s, rest)"
proof -
  have 1: "takeWhile (\<lambda>b. b \<noteq> 0) s = s" using assms by (auto simp: takeWhile_eq_all_conv)
  have 2: "takeWhile (\<lambda>b. b \<noteq> 0) (s @ 0 # rest) = s" "dropWhile (\<lambda>b. b \<noteq> 0) (s @ 0 # rest) = 0 # rest"
    using assms by (induction s) auto
  show ?thesis unfolding get_cstring_def c_bytes_def 1 by (simp add: 2)
qed

section \<open>One entry\<close>

text \<open>An entry as the client queues it, with its properties \<open>ps\<close>.\<close>

definition entry_ok :: "int \<Rightarrow> qEntry \<Rightarrow> MQTTProperty list \<Rightarrow> bool" where
  "entry_ok v qe ps \<longleftrightarrow> e_payloadlen qe = int (length (e_payload qe)) \<and> in_int (e_payloadlen qe) \<and> in_int (e_qos qe) \<and> in_int (e_retained qe) \<and>
     in_int (e_dup qe) \<and> in_int (e_msgid qe) \<and> in_int (e_topicLen qe) \<and> 0 \<notin> set (e_topicName qe) \<and> length (e_topicName qe) < 65536 \<and>
     1 \<le> e_struct_version qe \<and> holds (e_properties qe) ps \<and> length (props_bytes ps) < 268435456"

definition same_entry :: "int \<Rightarrow> qEntry \<Rightarrow> qEntry \<Rightarrow> bool" where
  "same_entry v qe e \<longleftrightarrow> e_payload e = e_payload qe \<and> e_payloadlen e = e_payloadlen qe \<and> e_qos e = e_qos qe \<and> e_retained e = e_retained qe \<and>
     e_dup e = e_dup qe \<and> e_msgid e = e_msgid qe \<and> e_topicName e = e_topicName qe \<and> e_topicLen e = e_topicLen qe \<and>
     (5 \<le> v \<longrightarrow> prop_list (e_properties e) = prop_list (e_properties qe))"

definition props_buffer :: "int \<Rightarrow> MQTTProperty list \<Rightarrow> byte list list" where
  "props_buffer v ps = (if 5 \<le> v then [MQTTPacket_encode (length (props_bytes ps)) @ props_bytes ps] else [])"

definition entry_record :: "int \<Rightarrow> qEntry \<Rightarrow> MQTTProperty list \<Rightarrow> byte list" where
  "entry_record v qe ps = concat (entry_buffers qe (e_payload qe) @ props_buffer v ps)"

lemma restoreQueueEntry_record:
  assumes ok: "entry_ok v qe ps" and al: "\<forall>n. al n"
  shows "\<exists>e. MQTTPersistence_restoreQueueEntry al (entry_record v qe ps) v = Inr (Some e) \<and> same_entry v qe e"
proof -
  have m: "malloc_ok al 24" "malloc_ok al 64" "malloc_ok al (e_payloadlen qe)" "malloc_ok al (int (length (e_topicName qe)) + 1)"
    using ok malloc_small [OF al] by (auto simp: entry_ok_def in_int_def INT_MAX_def)
  define tail where "tail = concat (props_buffer v ps)"
  define pre where "pre = int_bytes (e_payloadlen qe) @ e_payload qe @ int_bytes (e_qos qe) @ int_bytes (e_retained qe) @ int_bytes (e_dup qe) @
      int_bytes (e_msgid qe) @ c_bytes (e_topicName qe) @ int_bytes (e_topicLen qe)"
  have rec: "entry_record v qe ps = pre @ tail" by (simp add: entry_record_def entry_buffers_def tail_def pre_def)
  have pay: "payload_bytes (e_payload qe @ x) (e_payloadlen qe) = Inr (e_payload qe)" "drop (nat (e_payloadlen qe)) (e_payload qe @ x) = x" for x
    using ok by (simp_all add: payload_bytes_def entry_ok_def)
  obtain rc props p where props: "(if 5 \<le> v then MQTTProperties_read al MQTTProperties_initializer (pre @ tail) (length (pre @ tail) - length tail) (length (pre @ tail))
      else Inr (1, MQTTProperties_initializer, 0)) = Inr (rc, props, p)" "5 \<le> v \<longrightarrow> holds props ps"
  proof (cases "5 \<le> v")
    case True
    then have t: "tail = MQTTPacket_encode (length (props_bytes ps)) @ props_bytes ps" by (simp add: tail_def props_buffer_def)
    have wf: "\<forall>p \<in> set ps. wf_prop p" "length (props_bytes ps) < 268435456" using ok by (auto simp: entry_ok_def holds_def)
    from MQTTProperties_read_holds [OF wf(1) al wf(2), of "length pre" "pre @ tail" "[]" "length (pre @ tail)"] that True show thesis
      by (auto simp: t)
  qed (auto intro: that)
  then have "5 \<le> v \<Longrightarrow> prop_list props = prop_list (e_properties qe)"
    using ok prop_list_slots by (metis entry_ok_def holds_def)
  moreover have ints: "in_int (e_payloadlen qe)" "in_int (e_qos qe)" "in_int (e_retained qe)" "in_int (e_dup qe)" "in_int (e_msgid qe)" "in_int (e_topicLen qe)"
    "0 \<notin> set (e_topicName qe)" using ok unfolding entry_ok_def by blast+
  moreover have "get_int (pre @ tail) = Inr (e_payloadlen qe, e_payload qe @ int_bytes (e_qos qe) @ int_bytes (e_retained qe) @ int_bytes (e_dup qe) @
      int_bytes (e_msgid qe) @ c_bytes (e_topicName qe) @ int_bytes (e_topicLen qe) @ tail)" using ints(1) by (simp add: pre_def)
  ultimately show ?thesis
    unfolding rec MQTTPersistence_restoreQueueEntry_def using m props(1) by (simp add: pay same_entry_def del: drop_append)
qed

section \<open>Writing an entry\<close>

definition entry_key :: "int \<Rightarrow> nat \<Rightarrow> string" where
  "entry_key v n = (if 5 \<le> v then PERSISTENCE_V5_QUEUE_KEY else PERSISTENCE_QUEUE_KEY) @ dec_str n"

lemma queue_key_fits: "n < PERSISTENCE_SEQNO_LIMIT \<Longrightarrow> queue_key v n = Inr (entry_key v n)"
proof -
  assume "n < PERSISTENCE_SEQNO_LIMIT"
  then have "length (dec_str n) \<le> 6" by (intro dec_str_length) (auto simp: PERSISTENCE_SEQNO_LIMIT_def)
  then show ?thesis by (auto simp: queue_key_def sprintf_key_def entry_key_def PERSISTENCE_MAX_KEY_LENGTH_def stem_defs)
qed

lemma next_seqno_less: "n < PERSISTENCE_SEQNO_LIMIT \<Longrightarrow> next_seqno n < PERSISTENCE_SEQNO_LIMIT"
  by (auto simp: next_seqno_def PERSISTENCE_SEQNO_LIMIT_def)

lemma props_len:
  assumes "holds props ps" "length (props_bytes ps) < 268435456"
  shows "MQTTProperties_len (Some props) = int (length (MQTTPacket_encode (length (props_bytes ps)) @ props_bytes ps))"
proof -
  obtain bs where "write_properties (Some props) = Inr bs" "int (length bs) = MQTTProperties_len (Some props)"
    using write_properties_ok [of "Some props"] assms by (auto simp: props_ok_def)
  with MQTTProperties_write_holds [OF assms] show ?thesis by (simp add: write_properties_def)
qed

lemma persistQueueEntry_writes:
  assumes ok: "entry_ok v qe ps" and v: "v = qs_version q" and al: "\<forall>n. alloc (pe_env pe) n" and n: "qentry_seqno q < PERSISTENCE_SEQNO_LIMIT"
  defines "n1 \<equiv> next_seqno (qentry_seqno q)"
  shows "MQTTPersistence_persistQueueEntry pe ops qe q s =
    (let (rc, s') = write_entry pe ops (if 5 \<le> v then 1 + int (length (props_bytes ps)) else 0) (entry_buffers qe (e_payload qe) @ props_buffer v ps)
       (entry_key v n1) s
     in Inr (rc, qe\<lparr>e_seqno := n1\<rparr>, q\<lparr>qentry_seqno := n1\<rparr>, s'))"
proof -
  have h: "holds (e_properties qe) ps" "length (props_bytes ps) < 268435456" "1 \<le> e_struct_version qe" using ok by (auto simp: entry_ok_def)
  have pay: "payload_bytes (e_payload qe) (e_payloadlen qe) = Inr (e_payload qe)" using ok by (simp add: payload_bytes_def entry_ok_def)
  have "length (MQTTPacket_encode (length (props_bytes ps))) \<le> 10" using h(2) by (intro encode_length_le_10) simp
  then have m: "malloc_ok (alloc (pe_env pe)) (MQTTProperties_len (Some (e_properties qe)))"
    using malloc_small [OF al] props_len [OF h(1,2)] h(2) by simp
  have f: "filled (MQTTProperties_len (Some (e_properties qe))) (MQTTPacket_encode (length (props_bytes ps)) @ props_bytes ps) =
      Inr (MQTTPacket_encode (length (props_bytes ps)) @ props_bytes ps)"
    using props_len [OF h(1,2)] by (intro filled_exact) simp
  have "queue_key v n1 = Inr (entry_key v n1)" using next_seqno_less [OF n] by (simp add: queue_key_fits n1_def)
  then show ?thesis
    using pay m f h(3) MQTTProperties_write_holds [OF h(1,2)]
    by (simp add: MQTTPersistence_persistQueueEntry_def v [symmetric] n1_def [symmetric] Let_def props_buffer_def split: prod.splits)
qed

text \<open>
  C38: with MQTT 5 a message that waits for the application is not persisted unless the callback \<^verbatim>\<open>beforeWrite\<close> is
  set: the number of bytes of its properties is taken for an error, the store is never asked to write, and
  the code that is returned is positive.\<close>
theorem queue_entry_lost_v5:
  assumes "entry_ok 5 qe ps" and "qs_version q = 5" and "\<forall>n. alloc (pe_env pe) n" and "qentry_seqno q < PERSISTENCE_SEQNO_LIMIT"
    and "beforeWrite pe = None"
  shows "\<exists>rc qe' q'. MQTTPersistence_persistQueueEntry pe ops qe q s = Inr (rc, qe', q', s) \<and> 1 \<le> rc"
  using persistQueueEntry_writes [OF assms(1) _ assms(3,4), of ops s] assms(2,5) by (simp add: write_entry_def)

definition sample_entry :: qEntry where
  "sample_entry = \<lparr>e_struct_version = 1, e_payloadlen = 2, e_payload = [1, 2], e_qos = 1, e_retained = 0, e_dup = 0, e_msgid = 7,
     e_properties = sample_struct, e_topicName = [97], e_topicLen = 0, e_seqno = 0\<rparr>"

definition plain_env :: persist_env where
  "plain_env = \<lparr>pe_env = sample_env, usable = Heap_roundup, beforeWrite = None, afterRead = None\<rparr>"

lemma sample_entry_ok: "entry_ok v sample_entry sample_props"
  unfolding entry_ok_def sample_bytes using sample_holds by (simp add: sample_entry_def in_int_def INT_MAX_def INT_MIN_def)

theorem queue_entry_lost_v5_witness:
  "\<exists>rc qe' q'. MQTTPersistence_persistQueueEntry plain_env (file_ops sound_fs (\<lambda>n. True) ''d'') sample_entry
     \<lparr>qs_version = 5, qentry_seqno = 3, qs_queue = []\<rparr> sample_fs = Inr (rc, qe', q', sample_fs) \<and> 1 \<le> rc"
  by (rule queue_entry_lost_v5 [OF sample_entry_ok]) (simp_all add: plain_env_def sample_env_def PERSISTENCE_SEQNO_LIMIT_def)

section \<open>Restoring the queue\<close>

lemma insertInSeqOrder_simps [simp]:
  "MQTTPersistence_insertInSeqOrder e [] = [e]"
  "MQTTPersistence_insertInSeqOrder e (x # xs) = (if e_seqno e < e_seqno x then e # x # xs else x # MQTTPersistence_insertInSeqOrder e xs)"
  by (simp_all add: MQTTPersistence_insertInSeqOrder_def Let_def)

lemma insertInSeqOrder_set [simp]: "set (MQTTPersistence_insertInSeqOrder e xs) = insert e (set xs)"
  by (induction xs) auto

lemma insertInSeqOrder_sorted:
  "sorted_wrt (<) (map e_seqno xs) \<Longrightarrow> e_seqno e \<notin> e_seqno ` set xs \<Longrightarrow> sorted_wrt (<) (map e_seqno (MQTTPersistence_insertInSeqOrder e xs))"
  by (induction xs) (auto simp: not_less)

text \<open>
  The store holds the entries \<open>es\<close> under their sequence numbers, and no other entry of the queue.
\<close>

type_synonym numbered = "nat \<times> qEntry \<times> MQTTProperty list"

definition stores_entries :: "persist_env \<Rightarrow> int \<Rightarrow> numbered list \<Rightarrow> (string \<rightharpoonup> byte list) \<Rightarrow> bool" where
  "stores_entries pe v es data \<longleftrightarrow>
     (\<forall>(n, qe, ps) \<in> set es. entry_ok v qe ps \<and> n < PERSISTENCE_SEQNO_LIMIT \<and>
        (\<exists>bytes. data (entry_key v n) = Some bytes \<and> after_read pe bytes = (0, entry_record v qe ps))) \<and>
     (\<forall>k \<in> dom data. has_stem k PERSISTENCE_QUEUE_KEY \<or> has_stem k PERSISTENCE_V5_QUEUE_KEY \<longrightarrow> k \<in> (\<lambda>(n, _). entry_key v n) ` set es)"

definition restores :: "int \<Rightarrow> numbered \<Rightarrow> qEntry \<Rightarrow> bool" where
  "restores v x e \<longleftrightarrow> e_seqno e = fst x \<and> same_entry v (fst (snd x)) e"

definition queue_restoring :: "int \<Rightarrow> numbered list \<Rightarrow> string set \<Rightarrow> queue_state \<Rightarrow> bool" where
  "queue_restoring v es K q \<longleftrightarrow> sorted_wrt (<) (map e_seqno (qs_queue q)) \<and>
     (\<forall>e \<in> set (qs_queue q). \<exists>x \<in> set es. entry_key v (fst x) \<in> K \<and> restores v x e) \<and>
     (\<forall>x \<in> set es. entry_key v (fst x) \<in> K \<longrightarrow> fst x \<in> e_seqno ` set (qs_queue q))"

lemma entry_key_inj [simp]: "entry_key v m = entry_key v n \<longleftrightarrow> m = n"
  by (simp add: entry_key_def)

lemma entry_key_number: "n < PERSISTENCE_SEQNO_LIMIT \<Longrightarrow> key_number (entry_key v n) = Inr (int n)"
  using stems_ok(1) key_number_key by (auto simp: entry_key_def stems_def PERSISTENCE_SEQNO_LIMIT_def)

lemma entry_key_stems:
  "has_stem (entry_key v n) PERSISTENCE_QUEUE_KEY \<or> has_stem (entry_key v n) PERSISTENCE_V5_QUEUE_KEY"
  "has_stem (entry_key v n) PERSISTENCE_V5_QUEUE_KEY \<longleftrightarrow> 5 \<le> v"
  by (auto simp: entry_key_def has_stem_def stem_defs)

lemma queue_restoring_add:
  assumes R: "queue_restoring v es K q" and x: "x \<in> set es" "entry_key v (fst x) \<notin> K" "restores v x e"
  shows "queue_restoring v es (insert (entry_key v (fst x)) K)
    (q\<lparr>qs_queue := MQTTPersistence_insertInSeqOrder e (qs_queue q), qentry_seqno := k\<rparr>)"
proof -
  have "e_seqno e \<notin> e_seqno ` set (qs_queue q)"
  proof
    assume "e_seqno e \<in> e_seqno ` set (qs_queue q)"
    then obtain e' y where "e' \<in> set (qs_queue q)" "e_seqno e' = e_seqno e" "entry_key v (fst y) \<in> K" "restores v y e'"
      using R by (auto simp: queue_restoring_def)
    with x(2,3) show False by (auto simp: restores_def)
  qed
  with R have "sorted_wrt (<) (map e_seqno (MQTTPersistence_insertInSeqOrder e (qs_queue q)))"
    by (intro insertInSeqOrder_sorted) (simp_all add: queue_restoring_def)
  moreover have "\<exists>y \<in> set es. entry_key v (fst y) \<in> insert (entry_key v (fst x)) K \<and> restores v y e'" if "e' \<in> insert e (set (qs_queue q))" for e'
    using that R x unfolding queue_restoring_def by blast
  moreover have "fst y \<in> e_seqno ` insert e (set (qs_queue q))" if "y \<in> set es" "entry_key v (fst y) \<in> insert (entry_key v (fst x)) K" for y
    using that R x(3) by (auto simp: queue_restoring_def restores_def)
  ultimately show ?thesis by (simp add: queue_restoring_def)
qed

lemma restoreQueueEntry_version:
  "MQTTPersistence_restoreQueueEntry al buf (if 5 \<le> v then 5 else 4) = MQTTPersistence_restoreQueueEntry al buf v"
proof -
  have "5 \<le> (if 5 \<le> v then 5 else 4 :: int) \<longleftrightarrow> 5 \<le> v" by simp
  then show ?thesis unfolding MQTTPersistence_restoreQueueEntry_def by (simp only:)
qed

context reliable_store
begin

lemma restore_entry_step:
  assumes "good_store s" "roomy s" "stores_entries pe v es (holds_data s)" "\<forall>n. alloc (pe_env pe) n"
    and "queue_restoring v es K q" "k \<in> dom (holds_data s)" "k \<notin> K"
  shows "\<exists>q'. restore_entry pe ops k q s = Inr (0, q') \<and> queue_restoring v es (insert k K) q' \<and> qs_version q' = qs_version q"
proof (cases "has_stem k PERSISTENCE_QUEUE_KEY \<or> has_stem k PERSISTENCE_V5_QUEUE_KEY")
  case False
  then have "entry_key v n \<noteq> k" for n using entry_key_stems(1) by metis
  then have "queue_restoring v es (insert k K) q" using assms(5) unfolding queue_restoring_def by blast
  with False show ?thesis by (simp add: restore_entry_def)
next
  case True
  with assms(3,6) have "k \<in> (\<lambda>(n, _). entry_key v n) ` set es" unfolding stores_entries_def by blast
  then obtain n qe ps where x: "(n, qe, ps) \<in> set es" "k = entry_key v n" by auto
  with assms(3) obtain bytes where b: "entry_ok v qe ps" "n < PERSISTENCE_SEQNO_LIMIT" "holds_data s k = Some bytes"
    "after_read pe bytes = (0, entry_record v qe ps)" unfolding stores_entries_def by fast
  obtain e where e: "MQTTPersistence_restoreQueueEntry (alloc (pe_env pe)) (entry_record v qe ps) v = Inr (Some e)" "same_entry v qe e"
    using restoreQueueEntry_record [OF b(1) assms(4)] by blast
  have num: "key_number k = Inr (int n)" "nat (int n mod 2 ^ 32) = n" using entry_key_number [OF b(2)] b(2) x(2) by (simp_all add: PERSISTENCE_SEQNO_LIMIT_def)
  let ?q = "q\<lparr>qs_queue := MQTTPersistence_insertInSeqOrder (e\<lparr>e_seqno := n\<rparr>) (qs_queue q), qentry_seqno := max (qentry_seqno q) n\<rparr>"
  have "restore_entry pe ops k q s = Inr (0, ?q)"
    using True read_back_held [OF assms(1,2) b(3)] b(4) e(1) num entry_key_stems(2) [of v n] x(2)
    by (auto simp: restore_entry_def restoreQueueEntry_version)
  moreover have "restores v (n, qe, ps) (e\<lparr>e_seqno := n\<rparr>)" using e(2) by (simp add: restores_def same_entry_def)
  ultimately show ?thesis using queue_restoring_add [OF assms(5) x(1)] x(2) assms(7) by auto
qed

lemma restore_entries_loop:
  assumes "good_store s" "roomy s" "stores_entries pe v es (holds_data s)" "\<forall>n. alloc (pe_env pe) n"
    and "queue_restoring v es K q" "distinct ks" "set ks \<subseteq> dom (holds_data s)" "set ks \<inter> K = {}"
  shows "\<exists>q'. restore_entries pe ops ks q s = Inr (0, q') \<and> queue_restoring v es (K \<union> set ks) q'"
  using assms(5-)
proof (induction ks arbitrary: K q)
  case (Cons k ks)
  obtain q1 where "restore_entry pe ops k q s = Inr (0, q1)" "queue_restoring v es (insert k K) q1"
    using restore_entry_step [OF assms(1-4) Cons.prems(1), of k] Cons.prems(3,4) by auto
  with Cons.IH [of "insert k K" q1] Cons.prems show ?case by auto
qed simp

lemma queue_in_order:
  assumes "good_store s" "roomy s" "stores_entries pe v es (holds_data s)" "\<forall>n. alloc (pe_env pe) n"
    and "sorted_wrt (<) (map fst es)" "qs_queue q = []"
  shows "\<exists>q'. MQTTPersistence_restoreMessageQueue pe (Some ops) q s = Inr (0, q') \<and> list_all2 (restores v) es (qs_queue q')"
proof -
  obtain ks where ks: "s_keys ops s = (0, ks)" using keys_work [OF assms(1,2)] by (metis prod.collapse)
  have kd: "distinct ks" "set ks = dom (holds_data s)" using keys_law [OF assms(1) ks] by auto
  have "queue_restoring v es {} q" using assms(6) by (simp add: queue_restoring_def)
  from restore_entries_loop [OF assms(1-4) this kd(1)] kd(2) obtain q1 where
    q1: "restore_entries pe ops ks q s = Inr (0, q1)" "queue_restoring v es (set ks) q1" by auto
  have all: "entry_key v (fst x) \<in> set ks" if "x \<in> set es" for x
    using that assms(3) kd(2) unfolding stores_entries_def by force
  have rep: "\<exists>x \<in> set es. restores v x e" if "e \<in> set (qs_queue q1)" for e using that q1(2) unfolding queue_restoring_def by blast
  have srt: "sorted_wrt (<) (map e_seqno (qs_queue q1))" using q1(2) by (simp add: queue_restoring_def)
  have "set (map e_seqno (qs_queue q1)) = set (map fst es)"
  proof (intro equalityI subsetI)
    fix n assume "n \<in> set (map e_seqno (qs_queue q1))"
    with rep show "n \<in> set (map fst es)" by (fastforce simp: restores_def)
  next
    fix n assume "n \<in> set (map fst es)"
    with all q1(2) show "n \<in> set (map e_seqno (qs_queue q1))" by (fastforce simp: queue_restoring_def)
  qed
  with srt assms(5) have eq: "map e_seqno (qs_queue q1) = map fst es" by (metis strict_sorted_equal)
  have inj: "x = y" if "x \<in> set es" "y \<in> set es" "fst x = fst y" for x y
    using that assms(5) by (metis distinct_map inj_onD strict_sorted_iff)
  have "list_all2 (restores v) es (qs_queue q1)"
  proof (rule list_all2_all_nthI)
    show len: "length es = length (qs_queue q1)" using eq by (metis length_map)
    fix i assume i: "i < length es"
    then have "qs_queue q1 ! i \<in> set (qs_queue q1)" using len by (metis nth_mem)
    then obtain x where x: "x \<in> set es" "restores v x (qs_queue q1 ! i)" using rep by blast
    have "e_seqno (qs_queue q1 ! i) = fst (es ! i)" using eq i len by (metis nth_map)
    with x(2) have "fst x = fst (es ! i)" by (simp add: restores_def)
    with inj [OF x(1) nth_mem [OF i]] have "x = es ! i" by blast
    with x(2) show "restores v (es ! i) (qs_queue q1 ! i)" by simp
  qed
  with ks q1(1) show ?thesis by (simp add: MQTTPersistence_restoreMessageQueue_def)
qed

end

section \<open>From queueing to restoring\<close>

fun queue_run ::
  "persist_env \<Rightarrow> 's store_ops \<Rightarrow> (qEntry \<times> MQTTProperty list) list \<Rightarrow> queue_state \<Rightarrow> 's \<Rightarrow> (int \<times> queue_state \<times> 's) res" where
  "queue_run pe ops [] q s = Inr (0, q, s)"
| "queue_run pe ops ((qe, ps) # es) q s =
     bindR (MQTTPersistence_persistQueueEntry pe ops qe q s) (\<lambda>(rc, qe1, q1, s1). if rc \<noteq> 0 then Inr (rc, q1, s1) else queue_run pe ops es q1 s1)"

text \<open>The entries with the sequence numbers after \<open>n\<close>.\<close>

fun numbered_from :: "nat \<Rightarrow> (qEntry \<times> MQTTProperty list) list \<Rightarrow> numbered list" where
  "numbered_from n [] = []"
| "numbered_from n (x # xs) = (Suc n, x) # numbered_from (Suc n) xs"

lemma numbered_above: "x \<in> set (numbered_from n xs) \<Longrightarrow> n < fst x \<and> snd x \<in> set xs"
  by (induction n xs rule: numbered_from.induct) auto

lemma numbered_sorted: "sorted_wrt (<) (map fst (numbered_from n xs))"
  by (induction n xs rule: numbered_from.induct) (auto dest: numbered_above)

lemma numbered_snd: "map snd (numbered_from n xs) = xs"
  by (induction n xs rule: numbered_from.induct) auto

lemma next_seqno_Suc: "Suc n < PERSISTENCE_SEQNO_LIMIT \<Longrightarrow> next_seqno n = Suc n"
  by (simp add: next_seqno_def PERSISTENCE_SEQNO_LIMIT_def)

lemma stores_entries_add:
  assumes "stores_entries pe v es data" "entry_ok v qe ps" "n < PERSISTENCE_SEQNO_LIMIT" "n \<notin> fst ` set es" "after_read pe bytes = (0, entry_record v qe ps)"
  shows "stores_entries pe v (es @ [(n, qe, ps)]) (data(entry_key v n \<mapsto> bytes))"
proof -
  have "entry_key v m \<noteq> entry_key v n" if "(m, x) \<in> set es" for m x using that assms(4) by force
  then have "entry_ok v qe' ps' \<and> m < PERSISTENCE_SEQNO_LIMIT \<and>
      (\<exists>b. (data(entry_key v n \<mapsto> bytes)) (entry_key v m) = Some b \<and> after_read pe b = (0, entry_record v qe' ps'))"
    if "(m, qe', ps') \<in> set (es @ [(n, qe, ps)])" for m qe' ps'
    using that assms(1,2,3,5) by (auto simp: stores_entries_def)
  moreover have "k \<in> (\<lambda>(n, _). entry_key v n) ` set (es @ [(n, qe, ps)])"
    if "k \<in> dom (data(entry_key v n \<mapsto> bytes))" "has_stem k PERSISTENCE_QUEUE_KEY \<or> has_stem k PERSISTENCE_V5_QUEUE_KEY" for k
    using that assms(1) by (auto simp: stores_entries_def)
  ultimately show ?thesis unfolding stores_entries_def by blast
qed

context persistent_store
begin

lemma write_entry_stored:
  assumes "good_store s" "good_key key" "callbacks_invert pe" "write_entry pe ops rc0 bufs key s = (0, s')"
  shows "good_store s' \<and> (\<exists>bytes. holds_data s' = (holds_data s)(key \<mapsto> bytes) \<and> after_read pe bytes = (0, concat bufs))"
proof -
  obtain rc bs where w: "before_write pe bufs = (rc, bs)" by fastforce
  have "rc = 0 \<and> s_put ops key bs s = (0, s')"
    using assms(4) w by (auto simp: write_entry_def before_write_def Let_def split: if_splits option.splits)
  with put_law [OF assms(1,2), of bs 0 s'] w assms(3) show ?thesis by (auto simp: callbacks_invert_def)
qed

lemma queue_run_stored:
  assumes "good_store s" "stores_entries pe v done (holds_data s)" "callbacks_invert pe" "\<And>k. plain_key k \<Longrightarrow> good_key k" "\<forall>n. alloc (pe_env pe) n"
    and "\<forall>(qe, ps) \<in> set es. entry_ok v qe ps" "qs_version q = v" "qentry_seqno q + length es < PERSISTENCE_SEQNO_LIMIT"
    and "\<forall>x \<in> set done. fst x \<le> qentry_seqno q" "queue_run pe ops es q s = Inr (0, q', s')"
  shows "good_store s' \<and> stores_entries pe v (done @ numbered_from (qentry_seqno q) es) (holds_data s')"
  using assms(1,2,6-)
proof (induction es arbitrary: s "done" q)
  case (Cons x es)
  obtain qe ps where x: "x = (qe, ps)" by fastforce
  let ?n = "Suc (qentry_seqno q)" and ?q = "q\<lparr>qentry_seqno := Suc (qentry_seqno q)\<rparr>"
  have n: "next_seqno (qentry_seqno q) = ?n" "qentry_seqno q < PERSISTENCE_SEQNO_LIMIT" "?n < PERSISTENCE_SEQNO_LIMIT"
    using Cons.prems(5) by (simp_all add: next_seqno_Suc)
  have ok: "entry_ok v qe ps" using Cons.prems(3) x by simp
  obtain rc s1 where w: "write_entry pe ops (if 5 \<le> v then 1 + int (length (props_bytes ps)) else 0) (entry_buffers qe (e_payload qe) @ props_buffer v ps)
      (entry_key v ?n) s = (rc, s1)" by fastforce
  then have "MQTTPersistence_persistQueueEntry pe ops qe q s = Inr (rc, qe\<lparr>e_seqno := ?n\<rparr>, ?q, s1)"
    using persistQueueEntry_writes [OF ok Cons.prems(4) [symmetric] assms(5) n(2), of ops s] n(1) by simp
  with Cons.prems(7) x have rc: "rc = 0" and rest: "queue_run pe ops es ?q s1 = Inr (0, q', s')" by (auto split: if_splits)
  have "good_key (entry_key v ?n)"
    using stems_ok(1) plain_key_key by (auto simp: entry_key_def stems_def intro!: assms(4))
  from write_entry_stored [OF Cons.prems(1) this assms(3) w [unfolded rc]] obtain bytes where
    b: "good_store s1" "holds_data s1 = (holds_data s)(entry_key v ?n \<mapsto> bytes)" "after_read pe bytes = (0, entry_record v qe ps)"
    unfolding entry_record_def by blast
  have "?n \<notin> fst ` set done" using Cons.prems(6) by fastforce
  from stores_entries_add [OF Cons.prems(2) ok n(3) this b(3)] b(2)
  have "stores_entries pe v (done @ [(?n, qe, ps)]) (holds_data s1)" by simp
  moreover have "\<forall>y \<in> set (done @ [(?n, qe, ps)]). fst y \<le> qentry_seqno ?q" using Cons.prems(6) by fastforce
  ultimately have "good_store s' \<and> stores_entries pe v ((done @ [(?n, qe, ps)]) @ numbered_from (qentry_seqno ?q) es) (holds_data s')"
    using Cons.prems(3-5) by (intro Cons.IH [OF b(1) _ _ _ _ _ rest]) simp_all
  then show ?case by (simp add: x)
qed simp

end

text \<open>
  C37: messages waiting for the application survive a restart. Let a client whose file store holds none queue
  messages, so that every one is persisted without an error. Then a new client on that directory restores
  exactly these messages in the order in which they were queued, with their payload, topic, flags, message
  id and properties. The \<^verbatim>\<open>fclose\<close> of the files has to write out what \<^verbatim>\<open>fwrite\<close> accepted. The sequence numbers must not wrap meanwhile, which they do after a million messages.\<close>
theorem queue_survives_restart:
  assumes "file_good dir fs" and "stores_entries pe v [] (file_data dir fs)" and "callbacks_invert pe" and "\<forall>n. alloc (pe_env pe) n"
    and "\<forall>(qe, ps) \<in> set es. entry_ok v qe ps" and "qs_version q = v" and "qentry_seqno q + length es < PERSISTENCE_SEQNO_LIMIT"
    and "queue_run pe (file_ops env al dir) es q fs = Inr (0, q1, fs1)" and "file_roomy dir fs1" and "qs_queue q0 = []"
    and "flushes env"
  shows "\<exists>q'. MQTTPersistence_restoreMessageQueue pe (Some (file_ops sound_fs (\<lambda>n. True) dir)) q0 fs1 = Inr (0, q') \<and>
    list_all2 (\<lambda>(qe, ps) e. same_entry v qe e) es (qs_queue q')"
proof -
  let ?es = "numbered_from (qentry_seqno q) es"
  have "file_good dir fs1 \<and> stores_entries pe v ([] @ ?es) (file_data dir fs1)"
    by (rule file_store.queue_run_stored [where env = env, unfolded flushing_id [OF assms(11)], OF assms(1-3) _ assms(4-7) _ assms(8)]) simp_all
  then have "file_good dir fs1" "stores_entries pe v ?es (file_data dir fs1)" by simp_all
  from file_reliable.queue_in_order [OF this(1) assms(9) this(2) assms(4) numbered_sorted assms(10)]
  obtain q' where q': "MQTTPersistence_restoreMessageQueue pe (Some (file_ops sound_fs (\<lambda>n. True) dir)) q0 fs1 = Inr (0, q')"
    "list_all2 (restores v) ?es (qs_queue q')" by blast
  have "list_all2 (\<lambda>(qe, ps) e. same_entry v qe e) (map snd ?es) (qs_queue q')"
    unfolding list_all2_map1 using q'(2) by (rule list_all2_mono) (auto simp: restores_def split: prod.splits)
  with q'(1) show ?thesis by (simp add: numbered_snd)
qed

definition sample_queue :: "nat \<Rightarrow> queue_state" where
  "sample_queue n = \<lparr>qs_version = 4, qentry_seqno = n, qs_queue = []\<rparr>"

theorem queue_survives_restart_witness:
  "\<exists>q1 fs1 q'. queue_run plain_env (file_ops sound_fs (\<lambda>n. True) ''d'') [(sample_entry, sample_props), (sample_entry\<lparr>e_msgid := 8\<rparr>, sample_props)]
       (sample_queue 8) sample_fs = Inr (0, q1, fs1) \<and>
     MQTTPersistence_restoreMessageQueue plain_env (Some (file_ops sound_fs (\<lambda>n. True) ''d'')) (sample_queue 0) fs1 = Inr (0, q') \<and>
     map e_msgid (qs_queue q') = [7, 8]"
proof -
  let ?es = "[(sample_entry, sample_props), (sample_entry\<lparr>e_msgid := 8\<rparr>, sample_props)]" and ?ops = "file_ops sound_fs (\<lambda>n. True) ''d''"
  have ok: "\<forall>(qe, ps) \<in> set ?es. entry_ok 4 qe ps"
    using sample_entry_ok [of 4] by (simp add: entry_ok_def in_int_def INT_MAX_def INT_MIN_def)
  have pe: "\<forall>n. alloc (pe_env plain_env) n" "callbacks_invert plain_env"
    by (simp_all add: plain_env_def sample_env_def callbacks_invert_def before_write_def after_read_def)
  have step: "\<exists>fs'. MQTTPersistence_persistQueueEntry plain_env ?ops qe (sample_queue n) fs = Inr (0, qe\<lparr>e_seqno := Suc n\<rparr>, sample_queue (Suc n), fs') \<and>
      small_files (Suc k) ''d'' fs'" if "entry_ok 4 qe ps" "length (e_payload qe) < 100" "n < 10" "small_files k ''d'' fs" for qe ps n fs k
  proof -
    define key where "key = entry_key 4 (Suc n)"
    have "length (dec_str (Suc n)) \<le> 2" using that(3) by (intro dec_str_length) auto
    then have m: "malloc_ok (\<lambda>n. True) (path_size ''d'' key)" "length (msg_path ''d'' key) < 2 ^ 30"
      by (simp_all add: path_size_def malloc_ok_def PTRDIFF_MAX_def MESSAGE_FILENAME_EXTENSION_def msg_path_def key_def entry_key_def stem_defs)
    have "length (takeWhile (\<lambda>b. b \<noteq> 0) (e_topicName qe)) \<le> length (e_topicName qe)" by (rule length_takeWhile_le)
    then have "length (concat (entry_buffers qe (e_payload qe))) < 2 ^ 30"
      using that(1,2) by (simp add: entry_buffers_def c_bytes_def entry_ok_def)
    with m that(3) put_sound [OF that(4) m(1)] small_files_update [OF that(4) m(2)] persistQueueEntry_writes [OF that(1) _ pe(1), of "sample_queue n" ?ops fs]
    show ?thesis by (auto simp: sample_queue_def write_entry_def plain_env_def props_buffer_def next_seqno_Suc PERSISTENCE_SEQNO_LIMIT_def key_def)
  qed
  have small: "small_files 1 ''d'' sample_fs" by (simp add: small_files_def sample_fs_def)
  obtain fs1 where 1: "MQTTPersistence_persistQueueEntry plain_env ?ops sample_entry (sample_queue 8) sample_fs =
      Inr (0, sample_entry\<lparr>e_seqno := 9\<rparr>, sample_queue 9, fs1)" "small_files 2 ''d'' fs1"
    using step [of sample_entry sample_props 8, OF _ _ _ small] ok by (auto simp: sample_entry_def numeral_2_eq_2)
  obtain fs2 where 2: "MQTTPersistence_persistQueueEntry plain_env ?ops (sample_entry\<lparr>e_msgid := 8\<rparr>) (sample_queue 9) fs1 =
      Inr (0, sample_entry\<lparr>e_msgid := 8, e_seqno := 10\<rparr>, sample_queue 10, fs2)" "small_files 3 ''d'' fs2"
    using step [of "sample_entry\<lparr>e_msgid := 8\<rparr>" sample_props 9, OF _ _ _ 1(2)] ok by (auto simp: sample_entry_def)
  have run: "queue_run plain_env ?ops ?es (sample_queue 8) sample_fs = Inr (0, sample_queue 10, fs2)" by (simp add: 1(1) 2(1))
  have empty: "file_data ''d'' sample_fs = Map.empty" by (auto simp: file_data_def fun_eq_iff sample_fs_def msg_path_def)
  have e: "stores_entries plain_env 4 [] (file_data ''d'' sample_fs)" unfolding empty by (simp add: stores_entries_def)
  have r: "file_roomy ''d'' fs2" using 2(2) by (simp add: small_files_def file_roomy_def)
  have q: "qs_version (sample_queue 8) = 4" "qentry_seqno (sample_queue 8) + length ?es < PERSISTENCE_SEQNO_LIMIT" "qs_queue (sample_queue 0) = []"
    by (simp_all add: sample_queue_def PERSISTENCE_SEQNO_LIMIT_def)
  from queue_survives_restart [OF sample_fs_good e pe(2,1) ok q(1,2) run r q(3) flushes_sound(1)] obtain q' where
    "MQTTPersistence_restoreMessageQueue plain_env (Some ?ops) (sample_queue 0) fs2 = Inr (0, q')"
    "list_all2 (\<lambda>(qe, ps) e. same_entry 4 qe e) ?es (qs_queue q')" by blast
  moreover from this(2) have "map e_msgid (qs_queue q') = [7, 8]" by (auto simp: list_all2_Cons1 same_entry_def sample_entry_def)
  ultimately show ?thesis using run by (intro exI [of _ "sample_queue 10"] exI [of _ fs2] exI [of _ q'] conjI)
qed

end
