(* ===== verification/Command_Store.thy ===== *)
theory Command_Store
  imports Async_Queue Queue_Persist
begin

text \<open>
  The persistence of the commands of the asynchronous client, the functions from \<^verbatim>\<open>MQTTAsync_unpersistCommand\<close> to
  \<^verbatim>\<open>MQTTAsync_unpersistInflightMessages\<close> in \<^verbatim>\<open>MQTTAsync.c\<close>: a command is written when it is queued and removed
  when it is taken from the queue. When a client is created the commands of its store are put back into the
  queue, without the payloads of messages, which are read when the command is executed.
\<close>

section \<open>Writing a command\<close>

text \<open>The fields \<^verbatim>\<open>seqno\<close> and \<^verbatim>\<open>key\<close> of \<^verbatim>\<open>MQTTAsync_queuedCommand\<close>.\<close>

record pcommand = queued_command +
  q_seqno :: nat
  q_key :: "string option"

definition command_stem :: "int \<Rightarrow> string" where
  "command_stem v = (if 5 \<le> v then PERSISTENCE_V5_COMMAND_KEY else PERSISTENCE_COMMAND_KEY)"

definition MQTTAsync_unpersistCommand :: "'s store_ops \<Rightarrow> int \<Rightarrow> pcommand \<Rightarrow> 's \<Rightarrow> (int \<times> 's) res" where
  "MQTTAsync_unpersistCommand ops v qcmd s =
     bindR (sprintf_key (PERSISTENCE_MAX_KEY_LENGTH + 1) (command_stem v) (int (q_seqno qcmd))) (\<lambda>key. Inr (s_remove ops key s))"

text \<open>
  The options of a subscription as bytes of their structure: its identifier and version, three bytes, and one
  byte of padding.
\<close>

definition opts_bytes :: "subscribe_opts \<Rightarrow> byte list" where
  "opts_bytes so = [0x4D, 0x51, 0x53, 0x4F] @ int_bytes 0 @ [noLocal so, retainAsPublished so, retainHandling so, 0]"

definition topic_buffers :: "int \<Rightarrow> nat \<Rightarrow> int list \<Rightarrow> subscribe_opts \<Rightarrow> subscribe_opts list option \<Rightarrow> byte list \<Rightarrow> nat \<Rightarrow> byte list list res" where
  "topic_buffers v n qoss opts optlist topic i =
     (if v < 5 then guardR OverRead (i < length qoss) (Inr [c_bytes topic, int_bytes (qoss ! i)])
      else if n = 1 then Inr [c_bytes topic, opts_bytes opts]
      else (case optlist of None \<Rightarrow> Inl NullDeref | Some os \<Rightarrow> guardR OverRead (i < length os) (Inr [c_bytes topic, opts_bytes (os ! i)])))"

fun topics_buffers :: "int \<Rightarrow> nat \<Rightarrow> int list \<Rightarrow> subscribe_opts \<Rightarrow> subscribe_opts list option \<Rightarrow> byte list list \<Rightarrow> nat \<Rightarrow> byte list list res" where
  "topics_buffers v n qoss opts optlist [] i = Inr []"
| "topics_buffers v n qoss opts optlist (t # ts) i =
     bindR (topic_buffers v n qoss opts optlist t i) (\<lambda>b. bindR (topics_buffers v n qoss opts optlist ts (Suc i)) (\<lambda>bs. Inr (b @ bs)))"

text \<open>The number of buffers and their contents, without the properties; \<open>None\<close> for the commands that are not persisted.\<close>

definition command_buffers :: "int \<Rightarrow> pcommand \<Rightarrow> (int \<times> byte list list) option res" where
  "command_buffers v qcmd =
     (let head = [int_bytes (int (details_type (q_details qcmd))), int_bytes (q_token qcmd)]; extra = (if 5 \<le> v then 1 else 0) in
      case q_details qcmd of
        Sub_details topics qoss opts optlist \<Rightarrow>
          bindR (topics_buffers v (length topics) qoss opts optlist topics 0) (\<lambda>bs.
            Inr (Some (3 + extra + 2 * int (length topics), head @ [int_bytes (int (length topics))] @ bs)))
      | Unsub_details topics \<Rightarrow>
          Inr (Some (3 + extra + int (length topics), head @ [int_bytes (int (length topics))] @ map c_bytes topics))
      | Pub_details dest payload payloadlen qos retained \<Rightarrow>
          (case dest of
             None \<Rightarrow> Inl NullDeref
           | Some d \<Rightarrow>
               bindR (payload_bytes (case payload of None \<Rightarrow> [] | Some p \<Rightarrow> p) payloadlen) (\<lambda>p.
                 Inr (Some (7 + extra, head @ [c_bytes d, int_bytes payloadlen, p, int_bytes qos, int_bytes retained]))))
      | _ \<Rightarrow> Inr None)"

text \<open>
  The code returned by \<^verbatim>\<open>beforeWrite\<close> is overwritten by the one of the store.
\<close>

definition put_command :: "persist_env \<Rightarrow> 's store_ops \<Rightarrow> string \<Rightarrow> byte list list \<Rightarrow> 's \<Rightarrow> int \<times> 's" where
  "put_command pe ops key bufs s = s_put ops key (snd (before_write pe bufs)) s"

definition MQTTAsync_persistCommand ::
  "persist_env \<Rightarrow> 's store_ops \<Rightarrow> int \<Rightarrow> pcommand \<Rightarrow> nat \<Rightarrow> 's \<Rightarrow> (int \<times> pcommand \<times> nat \<times> 's) res" where
  "MQTTAsync_persistCommand pe ops v qcmd command_seqno s =
     (let al = alloc (pe_env pe); seqno = next_seqno command_seqno; temp_len = MQTTProperties_len (Some (q_properties qcmd)) in
      bindR (command_buffers v qcmd) (\<lambda>r.
        case r of
          None \<Rightarrow> bindR (sprintf_key (PERSISTENCE_MAX_KEY_LENGTH + 1) PERSISTENCE_COMMAND_KEY (int seqno)) (\<lambda>_. Inr (0, qcmd, seqno, s))
        | Some (nbufs, bufs) \<Rightarrow>
            if \<not> malloc_ok al (4 * nbufs) \<or> \<not> malloc_ok al (8 * nbufs) then Inr (PAHO_MEMORY_ERROR, qcmd, command_seqno, s)
            else if 5 \<le> v \<and> \<not> malloc_ok al temp_len then Inr (PAHO_MEMORY_ERROR, qcmd, seqno, s)
            else
              bindR (if 5 \<le> v then bindR (MQTTProperties_write (Some (q_properties qcmd))) (\<lambda>(_, bs). bindR (filled temp_len bs) (\<lambda>out. Inr [out]))
                     else Inr []) (\<lambda>propbuf.
              bindR (sprintf_key (PERSISTENCE_MAX_KEY_LENGTH + 1) (command_stem v) (int seqno)) (\<lambda>key.
                let (rc, s1) = put_command pe ops key (bufs @ propbuf) s in Inr (rc, qcmd\<lparr>q_seqno := seqno\<rparr>, seqno, s1)))))"

section \<open>Reading a command\<close>

definition get_opts :: "byte list \<Rightarrow> (subscribe_opts \<times> byte list) res" where
  "get_opts bs = guardR OverRead (12 \<le> length bs)
     (Inr (\<lparr>noLocal = bs ! 8, retainAsPublished = bs ! 9, retainHandling = bs ! 10\<rparr>, drop 12 bs))"

text \<open>The topics of a subscription. The inner result is \<open>None\<close> when there is no memory for a topic.\<close>

fun read_sub_topics ::
  "(int \<Rightarrow> bool) \<Rightarrow> int \<Rightarrow> nat \<Rightarrow> byte list \<Rightarrow> ((byte list \<times> int \<times> subscribe_opts) list option \<times> byte list) res" where
  "read_sub_topics al v 0 bs = Inr (Some [], bs)"
| "read_sub_topics al v (Suc n) bs =
     bindR (get_cstring bs) (\<lambda>(topic, p1).
       if \<not> malloc_ok al (int (length topic) + 1) then Inr (None, p1)
       else
         bindR (if v < 5 then bindR (get_int p1) (\<lambda>(q, p). Inr (q, default_opts, p)) else bindR (get_opts p1) (\<lambda>(so, p). Inr (0, so, p))) (\<lambda>(q, so, p2).
         bindR (read_sub_topics al v n p2) (\<lambda>(r, p3). Inr (map_option (\<lambda>ts. (topic, q, so) # ts) r, p3))))"

fun read_unsub_topics :: "(int \<Rightarrow> bool) \<Rightarrow> nat \<Rightarrow> byte list \<Rightarrow> (byte list list option \<times> byte list) res" where
  "read_unsub_topics al 0 bs = Inr (Some [], bs)"
| "read_unsub_topics al (Suc n) bs =
     bindR (get_cstring bs) (\<lambda>(topic, p1).
       if \<not> malloc_ok al (int (length topic) + 1) then Inr (None, p1)
       else bindR (read_unsub_topics al n p1) (\<lambda>(r, p2). Inr (map_option (\<lambda>ts. topic # ts) r, p2)))"

text \<open>
  The details of a command; \<open>first\<close> is the first of the two calls for a command (\<^verbatim>\<open>not_restored\<close> is 1). In the second
  one the topics of a subscription are skipped without moving the pointer behind them. The inner result is
  \<open>None\<close> for a null command.
\<close>

definition restore_sub :: "(int \<Rightarrow> bool) \<Rightarrow> int \<Rightarrow> byte list \<Rightarrow> (cmd_details option \<times> byte list) res" where
  "restore_sub al v bs =
     bindR (get_int bs) (\<lambda>(count, p).
       if 0 < count \<and> (\<not> malloc_ok al (8 * count) \<or> v < 5 \<and> \<not> malloc_ok al (4 * count) \<or> 5 \<le> v \<and> 1 < count \<and> \<not> malloc_ok al (12 * count))
       then Inr (None, p)
       else
         bindR (read_sub_topics al v (nat count) p) (\<lambda>(r, p2).
           Inr (map_option (\<lambda>ts. Sub_details (map fst ts) (if v < 5 then map (fst \<circ> snd) ts else [])
                  (if 5 \<le> v \<and> count = 1 then snd (snd (hd ts)) else default_opts)
                  (if 5 \<le> v \<and> 1 < count then Some (map (snd \<circ> snd) ts) else None)) r, p2)))"

definition restore_unsub :: "(int \<Rightarrow> bool) \<Rightarrow> byte list \<Rightarrow> (cmd_details option \<times> byte list) res" where
  "restore_unsub al bs =
     bindR (get_int bs) (\<lambda>(count, p).
       if 0 < count \<and> \<not> malloc_ok al (8 * count) then Inr (None, p)
       else bindR (read_unsub_topics al (nat count) p) (\<lambda>(r, p2). Inr (map_option Unsub_details r, p2)))"

definition restore_pub :: "(int \<Rightarrow> bool) \<Rightarrow> bool \<Rightarrow> byte list \<Rightarrow> (cmd_details option \<times> byte list) res" where
  "restore_pub al first bs =
     bindR (get_cstring bs) (\<lambda>(dest, p1).
       if \<not> first \<and> \<not> malloc_ok al (int (length dest) + 1) then Inr (None, p1)
       else
         bindR (get_int p1) (\<lambda>(payloadlen, p2).
         if \<not> first \<and> \<not> malloc_ok al payloadlen then Inr (None, p2)
         else
           bindR (payload_bytes p2 payloadlen) (\<lambda>payload.
           bindR (get_int (drop (nat payloadlen) p2)) (\<lambda>(qos, p3).
           bindR (get_int p3) (\<lambda>(retained, p4).
             Inr (Some (Pub_details (if first then None else Some dest) (if first then None else Some payload) payloadlen qos retained), p4))))))"

definition restore_details :: "(int \<Rightarrow> bool) \<Rightarrow> int \<Rightarrow> bool \<Rightarrow> int \<Rightarrow> cmd_details \<Rightarrow> byte list \<Rightarrow> (cmd_details option \<times> byte list) res" where
  "restore_details al v first type old bs =
     (if type = int SUBSCRIBE then (if first then restore_sub al v bs else Inr (Some old, bs))
      else if type = int UNSUBSCRIBE then (if first then restore_unsub al bs else Inr (Some old, bs))
      else if type = int PUBLISH then restore_pub al first bs
      else Inr (None, bs))"

definition blank_command :: pcommand where
  "blank_command = \<lparr>q_client = 0, q_callbacks = no_callbacks, q_token = 0, q_context = 0, q_start_time = 0, q_properties = MQTTProperties_initializer,
     q_details = Unsub_details [], q_not_restored = True, q_seqno = 0, q_key = None\<rparr>"

definition MQTTAsync_restoreCommand :: "(int \<Rightarrow> bool) \<Rightarrow> byte list \<Rightarrow> int \<Rightarrow> pcommand option \<Rightarrow> pcommand option res" where
  "MQTTAsync_restoreCommand al buffer v qcommand =
     (if qcommand = None \<and> \<not> malloc_ok al 280 then Inr None
      else
        let first = (qcommand = None);
            q0 = (case qcommand of None \<Rightarrow> blank_command | Some q \<Rightarrow> q\<lparr>q_not_restored := False\<rparr>) in
        bindR (get_int buffer) (\<lambda>(type, p1).
        bindR (get_int p1) (\<lambda>(token, p2).
        bindR (restore_details al v first type (q_details q0) p2) (\<lambda>(d, p3).
          case d of
            None \<Rightarrow> Inr None
          | Some details \<Rightarrow>
              let q1 = q0\<lparr>q_token := token, q_details := details\<rparr> in
              if \<not> first \<and> 5 \<le> v then
                bindR (MQTTProperties_read al (q_properties q0) buffer (length buffer - length p3) (length buffer)) (\<lambda>(rc, props, _).
                  Inr (if rc = 1 then Some (q1\<lparr>q_properties := props\<rparr>) else None))
              else Inr (Some q1)))))"

section \<open>Restoring the queue\<close>

text \<open>
  The list of commands with its elements, which are named by numbers, and the array of \<^verbatim>\<open>struct keyloc\<close>: the
  sequence numbers of the commands restored so far with their elements. An entry that was not assigned is
  \<open>None\<close>. The sentinel has no command.
\<close>

record command_list =
  cl_elems :: "(nat \<times> pcommand option) list"
  cl_next :: nat

type_synonym keyloc = "(int \<times> nat option) option"

definition list_insert :: "(int \<Rightarrow> bool) \<Rightarrow> pcommand option \<Rightarrow> nat \<Rightarrow> command_list \<Rightarrow> nat option \<times> command_list" where
  "list_insert al c pos cl =
     (if malloc_ok al 24
      then (Some (cl_next cl), cl\<lparr>cl_elems := take pos (cl_elems cl) @ (cl_next cl, c) # drop pos (cl_elems cl), cl_next := Suc (cl_next cl)\<rparr>)
      else (None, cl))"

definition keyloc_at :: "keyloc list \<Rightarrow> nat \<Rightarrow> (int \<times> nat option) res" where
  "keyloc_at kl i = guardR OverRead (i < length kl) (case kl ! i of None \<Rightarrow> Inl UninitRead | Some x \<Rightarrow> Inr x)"

function keyloc_search :: "keyloc list \<Rightarrow> int \<Rightarrow> nat \<Rightarrow> nat \<Rightarrow> nat res" where
  "keyloc_search kl seqno low high =
     (if 1 < high - low then
        let divide_index = (high - low) div 2 + low in
        bindR (keyloc_at kl divide_index) (\<lambda>(n, _).
          if seqno < n then keyloc_search kl seqno low divide_index else keyloc_search kl seqno divide_index high)
      else Inr low)"
  by auto

termination
  by (relation "measure (\<lambda>(kl, seqno, low, high). high - low)") auto

declare keyloc_search.simps [simp del]

text \<open>The first step of the search divides at another place than the later ones.\<close>

definition keyloc_place :: "keyloc list \<Rightarrow> int \<Rightarrow> nat \<Rightarrow> nat res" where
  "keyloc_place kl seqno array_size =
     (if array_size = 0 then Inr 0
      else
        bindR (keyloc_at kl (array_size - 1)) (\<lambda>(n, _).
          if n < seqno then Inr (array_size - 1)
          else if 1 < array_size - 1 then
            bindR (keyloc_at kl (array_size div 2)) (\<lambda>(n, _).
              if seqno < n then keyloc_search kl seqno 0 (array_size div 2) else keyloc_search kl seqno (array_size div 2) (array_size - 1))
          else Inr 0))"

definition elem_pos :: "nat \<Rightarrow> command_list \<Rightarrow> nat res" where
  "elem_pos x cl = (case first_index (\<lambda>e. fst e = x) (cl_elems cl) of None \<Rightarrow> Inl UseAfterFree | Some i \<Rightarrow> Inr i)"

text \<open>The unsigned \<^verbatim>\<open>seqno\<close> of a command is copied to an \<^verbatim>\<open>int\<close> first.\<close>

definition seqno_int :: "nat \<Rightarrow> int" where
  "seqno_int n = (if n < 2 ^ 31 then int n else int n - 2 ^ 32)"

definition MQTTAsync_insertInOrder ::
  "(int \<Rightarrow> bool) \<Rightarrow> pcommand \<Rightarrow> keyloc list \<Rightarrow> nat \<Rightarrow> command_list \<Rightarrow> (keyloc list \<times> command_list) res" where
  "MQTTAsync_insertInOrder al c kl array_size cl =
     bindR (keyloc_place kl (seqno_int (q_seqno c)) array_size) (\<lambda>low.
     bindR (keyloc_at kl low) (\<lambda>(_, elem).
     bindR (case elem of None \<Rightarrow> Inr (length (cl_elems cl)) | Some x \<Rightarrow> bindR (elem_pos x cl) (\<lambda>i. Inr (Suc i))) (\<lambda>pos.
       let (inserted, cl1) = list_insert al (Some c) pos cl; new = Some (seqno_int (q_seqno c), inserted) in
       guardR OverWrite (low + 1 < length kl \<and> (0 < array_size \<and> low + 1 < array_size \<longrightarrow> array_size < length kl))
         (Inr (if 0 < array_size \<and> low + 1 < array_size
               then take (low + 1) kl @ new # drop (low + 1) (take array_size kl) @ drop (array_size + 1) kl
               else kl[low + 1 := new], cl1)))))"

text \<open>The order of \<^verbatim>\<open>qsort\<close> with \<^verbatim>\<open>cmpkeys\<close>; keys with equal numbers keep their order here.\<close>

definition cmpkeys :: "string \<Rightarrow> int" where
  "cmpkeys key = (case key_number key of Inl _ \<Rightarrow> 0 | Inr n \<Rightarrow> n)"

definition sort_keys :: "string list \<Rightarrow> string list res" where
  "sort_keys keys =
     (if 1 < length keys then
        (case filter (\<lambda>k. faults (key_number k)) keys of [] \<Rightarrow> Inr (sort_key cmpkeys keys) | k # _ \<Rightarrow> (case key_number k of Inl e \<Rightarrow> Inl e | Inr _ \<Rightarrow> Inr keys))
      else Inr keys)"

record restore_state =
  rs_list :: command_list
  rs_keyloc :: "keyloc list"
  rs_seqno :: nat
  rs_buffered :: int

definition is_command_key :: "string \<Rightarrow> bool" where
  "is_command_key key \<longleftrightarrow> has_stem key PERSISTENCE_COMMAND_KEY \<or> has_stem key PERSISTENCE_V5_COMMAND_KEY"

definition restore_command_key ::
  "persist_env \<Rightarrow> 's store_ops \<Rightarrow> nat \<Rightarrow> 's \<Rightarrow> nat \<Rightarrow> string \<Rightarrow> restore_state \<Rightarrow> (int \<times> restore_state) res" where
  "restore_command_key pe ops m s i key rs =
     (if \<not> is_command_key key then Inr (0, rs)
      else
        let (rc, buffer) = read_back pe ops key s in
        if rc \<noteq> 0 then Inr (rc, rs)
        else
          bindR (MQTTAsync_restoreCommand (alloc (pe_env pe)) buffer (if has_stem key PERSISTENCE_V5_COMMAND_KEY then 5 else 4) None) (\<lambda>cmd.
            case cmd of
              None \<Rightarrow> Inl NullDeref
            | Some c \<Rightarrow>
                guardR NullDeref (malloc_ok (alloc (pe_env pe)) (int (length key) + 1))
                  (bindR (key_number key) (\<lambda>n.
                    let seqno = nat (n mod 2 ^ 32); c1 = c\<lparr>q_client := m, q_seqno := seqno, q_key := Some key\<rparr> in
                    bindR (MQTTAsync_insertInOrder (alloc (pe_env pe)) c1 (rs_keyloc rs) (i + 1) (rs_list rs)) (\<lambda>(kl, cl).
                      Inr (0, rs\<lparr>rs_list := cl, rs_keyloc := kl, rs_seqno := max (rs_seqno rs) seqno,
                        rs_buffered := rs_buffered rs + (if details_type (q_details c1) = PUBLISH then 1 else 0)\<rparr>))))))"

fun restore_command_keys ::
  "persist_env \<Rightarrow> 's store_ops \<Rightarrow> nat \<Rightarrow> 's \<Rightarrow> nat \<Rightarrow> string list \<Rightarrow> restore_state \<Rightarrow> (int \<times> restore_state) res" where
  "restore_command_keys pe ops m s i [] rs = Inr (0, rs)"
| "restore_command_keys pe ops m s i (key # keys) rs =
     bindR (restore_command_key pe ops m s i key rs) (\<lambda>(rc, rs1). if rc = 0 then restore_command_keys pe ops m s (Suc i) keys rs1 else Inr (rc, rs1))"

text \<open>
  \<open>m\<close> is the client. At the end the head of the list is removed: the sentinel, if the list was empty before.
\<close>

definition MQTTAsync_restoreCommands ::
  "persist_env \<Rightarrow> 's store_ops option \<Rightarrow> nat \<Rightarrow> 's \<Rightarrow> command_list \<Rightarrow> nat \<Rightarrow> int \<Rightarrow> (int \<times> command_list \<times> nat \<times> int) res" where
  "MQTTAsync_restoreCommands pe per m s cl command_seqno noBuffered =
     (case per of
        None \<Rightarrow> Inr (0, cl, command_seqno, noBuffered)
      | Some ops \<Rightarrow>
          let al = alloc (pe_env pe); (rc, msgkeys) = s_keys ops s; nkeys = length msgkeys in
          if rc \<noteq> 0 \<or> nkeys = 0 then Inr (rc, cl, command_seqno, noBuffered)
          else
            bindR (sort_keys msgkeys) (\<lambda>keys.
              if \<not> malloc_ok al (16 * (int nkeys + 1)) \<or> \<not> malloc_ok al 280 then Inr (PAHO_MEMORY_ERROR, cl, command_seqno, noBuffered)
              else
                let (elem, cl1) = list_insert al None (length (cl_elems cl)) cl;
                    rs = \<lparr>rs_list = cl1, rs_keyloc = Some (- 1, elem) # replicate nkeys None, rs_seqno = command_seqno, rs_buffered = noBuffered\<rparr> in
                bindR (restore_command_keys pe ops m s 0 keys rs) (\<lambda>(rc, rs1).
                  Inr (rc, (rs_list rs1)\<lparr>cl_elems := tl (cl_elems (rs_list rs1))\<rparr>, rs_seqno rs1, rs_buffered rs1))))"

text \<open>
  What \<^verbatim>\<open>MQTTAsync_processCommand\<close> does with a command it takes from the queue: one that was restored at the start is
  read again, now with the payload, and then it is removed from the store.
\<close>

definition reread_command :: "persist_env \<Rightarrow> 's store_ops \<Rightarrow> pcommand \<Rightarrow> 's \<Rightarrow> pcommand option res" where
  "reread_command pe ops c s =
     (if q_not_restored c then
        (case q_key c of
           None \<Rightarrow> Inl NullDeref
         | Some key \<Rightarrow>
             let (rc, buffer) = read_back pe ops key s in
             if rc = 0
             then MQTTAsync_restoreCommand (alloc (pe_env pe)) buffer (if has_stem key PERSISTENCE_V5_COMMAND_KEY then 5 else 4) (Some (c\<lparr>q_key := None\<rparr>))
             else Inr (Some c))
      else Inr (Some c))"

definition take_stored :: "persist_env \<Rightarrow> 's store_ops \<Rightarrow> int \<Rightarrow> pcommand \<Rightarrow> 's \<Rightarrow> (pcommand \<times> 's) res" where
  "take_stored pe ops v c s =
     bindR (reread_command pe ops c s) (\<lambda>r.
       case r of None \<Rightarrow> Inl NullDeref | Some c1 \<Rightarrow> bindR (MQTTAsync_unpersistCommand ops v c1 s) (\<lambda>(_, s1). Inr (c1, s1)))"

section \<open>Removing what is stored\<close>

fun unpersist_keys :: "(string \<Rightarrow> bool) \<Rightarrow> 's store_ops \<Rightarrow> string list \<Rightarrow> 's \<Rightarrow> int \<times> 's" where
  "unpersist_keys sel ops [] s = (0, s)"
| "unpersist_keys sel ops (key # keys) s =
     (if sel key then let (rc, s1) = s_remove ops key s in if rc = 0 then unpersist_keys sel ops keys s1 else (rc, s1)
      else unpersist_keys sel ops keys s)"

definition unpersist_all :: "(string \<Rightarrow> bool) \<Rightarrow> 's store_ops option \<Rightarrow> 's \<Rightarrow> int \<times> 's" where
  "unpersist_all sel per s =
     (case per of None \<Rightarrow> (0, s) | Some ops \<Rightarrow> let (rc, keys) = s_keys ops s in if rc = 0 then unpersist_keys sel ops keys s else (rc, s))"

definition MQTTAsync_unpersistCommandsAndMessages :: "'s store_ops option \<Rightarrow> 's \<Rightarrow> int \<times> 's" where
  "MQTTAsync_unpersistCommandsAndMessages per s = unpersist_all skipped_key per s"

definition inflight_key :: "string \<Rightarrow> bool" where
  "inflight_key key \<longleftrightarrow> has_stem key PERSISTENCE_PUBLISH_SENT \<or> has_stem key PERSISTENCE_V5_PUBLISH_SENT \<or> has_stem key PERSISTENCE_PUBREL \<or>
     has_stem key PERSISTENCE_V5_PUBREL \<or> has_stem key PERSISTENCE_PUBLISH_RECEIVED \<or> has_stem key PERSISTENCE_V5_PUBLISH_RECEIVED"

definition MQTTAsync_unpersistInflightMessages :: "'s store_ops option \<Rightarrow> 's \<Rightarrow> int \<times> 's" where
  "MQTTAsync_unpersistInflightMessages per s = unpersist_all inflight_key per s"

end
