(* ===== verification/Command_Restore.thy ===== *)
theory Command_Restore
  imports Command_Store
begin

text \<open>
  What becomes of persisted commands: they come back in the order in which they were queued, messages lose
  nothing by being read in two steps, and the two places where restoring goes wrong.
\<close>

section \<open>One command\<close>

text \<open>A command as the calls of the client queue it, with its properties \<open>ps\<close>.\<close>

definition topic_ok :: "byte list \<Rightarrow> bool" where
  "topic_ok t \<longleftrightarrow> 0 \<notin> set t \<and> length t < 65536"

fun details_ok :: "int \<Rightarrow> cmd_details \<Rightarrow> bool" where
  "details_ok v (Sub_details topics qoss opts optlist) \<longleftrightarrow> topics \<noteq> [] \<and> length topics < 65536 \<and> list_all topic_ok topics \<and>
     (if v < 5 then length qoss = length topics \<and> list_all in_int qoss
      else 1 < length topics \<longrightarrow> (case optlist of None \<Rightarrow> False | Some os \<Rightarrow> length os = length topics))"
| "details_ok v (Unsub_details topics) \<longleftrightarrow> topics \<noteq> [] \<and> length topics < 65536 \<and> list_all topic_ok topics"
| "details_ok v (Pub_details dest payload payloadlen qos retained) \<longleftrightarrow>
     (case (dest, payload) of (Some d, Some p) \<Rightarrow> topic_ok d \<and> payloadlen = int (length p) | _ \<Rightarrow> False) \<and>
     in_int payloadlen \<and> in_int qos \<and> in_int retained"
| "details_ok v d \<longleftrightarrow> False"

definition command_ok :: "int \<Rightarrow> pcommand \<Rightarrow> MQTTProperty list \<Rightarrow> bool" where
  "command_ok v c ps \<longleftrightarrow> details_ok v (q_details c) \<and> in_int (q_token c) \<and> holds (q_properties c) ps \<and> length (props_bytes ps) < 268435456"

text \<open>What is kept of a subscription, and what the first step restores.\<close>

fun kept_details :: "int \<Rightarrow> cmd_details \<Rightarrow> cmd_details" where
  "kept_details v (Sub_details topics qoss opts optlist) = Sub_details topics (if v < 5 then qoss else [])
     (if 5 \<le> v \<and> length topics = 1 then opts else default_opts) (if 5 \<le> v \<and> 1 < length topics then optlist else None)"
| "kept_details v d = d"

fun first_details :: "int \<Rightarrow> cmd_details \<Rightarrow> cmd_details" where
  "first_details v (Pub_details dest payload payloadlen qos retained) = Pub_details None None payloadlen qos retained"
| "first_details v d = kept_details v d"

lemma opts_bytes_length: "length (opts_bytes so) = 12"
  by (simp add: opts_bytes_def)

lemma get_opts_bytes [simp]: "get_opts (opts_bytes so @ rest) = Inr (so, rest)"
  by (simp add: get_opts_def opts_bytes_length) (simp add: opts_bytes_def int_bytes_def)

lemma topic_malloc: "topic_ok t \<Longrightarrow> \<forall>n. al n \<Longrightarrow> malloc_ok al (int (length t) + 1)"
  by (intro malloc_small) (auto simp: topic_ok_def)

lemma sub_topics_restored:
  assumes "topics_buffers v n qoss opts optlist ts i = Inr bs" "list_all topic_ok ts" "v < 5 \<Longrightarrow> list_all in_int qoss" "\<forall>n. al n"
  shows "\<exists>trip. read_sub_topics al v (length ts) (concat bs @ rest) = Inr (Some trip, rest) \<and> map fst trip = ts \<and>
    (v < 5 \<longrightarrow> map (fst \<circ> snd) trip = take (length ts) (drop i qoss)) \<and> (5 \<le> v \<and> n = 1 \<longrightarrow> (\<forall>x \<in> set trip. snd (snd x) = opts)) \<and>
    (\<forall>os. 5 \<le> v \<and> n \<noteq> 1 \<and> optlist = Some os \<longrightarrow> map (snd \<circ> snd) trip = take (length ts) (drop i os))"
  using assms(1,2)
proof (induction ts arbitrary: i bs)
  case (Cons t ts)
  then obtain b bs' where b: "topic_buffers v n qoss opts optlist t i = Inr b" "topics_buffers v n qoss opts optlist ts (Suc i) = Inr bs'" "bs = b @ bs'"
    by (auto simp: bindR_def split: sum.splits)
  have t: "topic_ok t" "list_all topic_ok ts" using Cons.prems(2) by auto
  obtain trip where trip: "read_sub_topics al v (length ts) (concat bs' @ rest) = Inr (Some trip, rest)" "map fst trip = ts"
    "v < 5 \<longrightarrow> map (fst \<circ> snd) trip = take (length ts) (drop (Suc i) qoss)" "5 \<le> v \<and> n = 1 \<longrightarrow> (\<forall>x \<in> set trip. snd (snd x) = opts)"
    "\<forall>os. 5 \<le> v \<and> n \<noteq> 1 \<and> optlist = Some os \<longrightarrow> map (snd \<circ> snd) trip = take (length ts) (drop (Suc i) os)"
    using Cons.IH [OF b(2) t(2)] by blast
  have m: "malloc_ok al (int (length t) + 1)" "0 \<notin> set t" using topic_malloc [OF t(1) assms(4)] t(1) by (auto simp: topic_ok_def)
  consider (old) "v < 5" "i < length qoss" "b = [c_bytes t, int_bytes (qoss ! i)]" | (one) "5 \<le> v" "n = 1" "b = [c_bytes t, opts_bytes opts]"
    | (many) os where "5 \<le> v" "n \<noteq> 1" "optlist = Some os" "i < length os" "b = [c_bytes t, opts_bytes (os ! i)]"
    using b(1) by (auto simp: topic_buffers_def guardR_def split: if_splits option.splits)
  then show ?case
  proof cases
    case old
    then have "in_int (qoss ! i)" using assms(3) by (simp add: list_all_length)
    with old m trip b(3) show ?thesis
      by (intro exI [of _ "(t, qoss ! i, default_opts) # trip"]) (simp add: take_Cons' Cons_nth_drop_Suc [symmetric] comp_def)
  next
    case one
    with m trip b(3) show ?thesis by (intro exI [of _ "(t, 0, opts) # trip"]) simp
  next
    case many
    with m trip b(3) show ?thesis
      by (intro exI [of _ "(t, 0, os ! i) # trip"]) (simp add: take_Cons' Cons_nth_drop_Suc [symmetric] comp_def)
  qed
qed simp

lemma unsub_topics_restored:
  assumes "\<forall>n. al n" "list_all topic_ok ts"
  shows "read_unsub_topics al (length ts) (concat (map c_bytes ts) @ rest) = Inr (Some ts, rest)"
  using assms(2)
proof (induction ts)
  case (Cons t ts)
  then have "malloc_ok al (int (length t) + 1)" using topic_malloc [of t al] assms(1) by simp
  with Cons show ?case by (simp add: topic_ok_def)
qed simp

text \<open>The bytes of a command.\<close>

definition command_record :: "int \<Rightarrow> pcommand \<Rightarrow> MQTTProperty list \<Rightarrow> byte list" where
  "command_record v c ps = (case command_buffers v c of Inr (Some (n, bufs)) \<Rightarrow> concat (bufs @ props_buffer v ps) | _ \<Rightarrow> [])"

lemma topics_buffers_ok:
  "(if v < 5 then i + length ts \<le> length qoss else n \<noteq> 1 \<longrightarrow> (case optlist of None \<Rightarrow> False | Some os \<Rightarrow> i + length ts \<le> length os)) \<Longrightarrow>
   \<exists>bs. topics_buffers v n qoss opts optlist ts i = Inr bs"
proof (induction ts arbitrary: i)
  case (Cons t ts)
  then have "\<exists>b. topic_buffers v n qoss opts optlist t i = Inr b" by (auto simp: topic_buffers_def split: option.splits if_splits)
  moreover have "\<exists>bs. topics_buffers v n qoss opts optlist ts (Suc i) = Inr bs"
    using Cons by (intro Cons.IH) (auto split: if_splits option.splits)
  ultimately show ?case by auto
qed simp

text \<open>
  How the details follow the type and the token in a record, and that they are restored from there.
\<close>

definition follows :: "(int \<Rightarrow> bool) \<Rightarrow> int \<Rightarrow> cmd_details \<Rightarrow> byte list \<Rightarrow> bool" where
  "follows al v d bs \<longleftrightarrow> (\<forall>d0 rest.
     restore_details al v True (int (details_type d)) d0 (bs @ rest) = Inr (Some (first_details v d), rest) \<and>
     restore_details al v False (int (details_type d)) d0 (bs @ rest) = (if details_type d = PUBLISH then Inr (Some d, rest) else Inr (Some d0, bs @ rest)))"

definition head_bytes :: "pcommand \<Rightarrow> byte list list" where
  "head_bytes c = [int_bytes (int (details_type (q_details c))), int_bytes (q_token c)]"

lemma sub_follows:
  assumes "details_ok v (q_details c)" "\<forall>n. al n" "q_details c = Sub_details topics qoss opts optlist"
  shows "\<exists>n bufs. command_buffers v c = Inr (Some (n, head_bytes c @ bufs)) \<and> 0 < n \<and> n < 200000 \<and> follows al v (q_details c) (concat bufs)"
proof -
  have ok: "list_all topic_ok topics" "v < 5 \<Longrightarrow> list_all in_int qoss" "topics \<noteq> []" "length topics < 65536" using assms(1,3) by (auto split: if_splits)
  have cnt: "in_int (int (length topics))" "0 < int (length topics)" using ok(3,4) by (auto simp: in_int_def INT_MAX_def INT_MIN_def)
  have mal: "malloc_ok al (8 * int (length topics))" "malloc_ok al (4 * int (length topics))" "malloc_ok al (12 * int (length topics))"
    using ok(4) by (auto intro!: malloc_small [OF assms(2)])
  have "(if v < 5 then 0 + length topics \<le> length qoss else length topics \<noteq> 1 \<longrightarrow> (case optlist of None \<Rightarrow> False | Some os \<Rightarrow> 0 + length topics \<le> length os))"
    using assms(1,3) by (cases topics) (auto split: option.splits)
  then obtain bs where bs: "topics_buffers v (length topics) qoss opts optlist topics 0 = Inr bs" using topics_buffers_ok by blast
  let ?bufs = "int_bytes (int (length topics)) # bs"
  have first: "restore_sub al v (concat ?bufs @ rest) = Inr (Some (kept_details v (q_details c)), rest)" for rest
  proof -
    obtain trip where trip: "read_sub_topics al v (length topics) (concat bs @ rest) = Inr (Some trip, rest)" "map fst trip = topics"
      "v < 5 \<longrightarrow> map (fst \<circ> snd) trip = take (length topics) (drop 0 qoss)" "5 \<le> v \<and> length topics = 1 \<longrightarrow> (\<forall>x \<in> set trip. snd (snd x) = opts)"
      "\<forall>os. 5 \<le> v \<and> length topics \<noteq> 1 \<and> optlist = Some os \<longrightarrow> map (snd \<circ> snd) trip = take (length topics) (drop 0 os)"
      using sub_topics_restored [OF bs ok(1,2) assms(2)] by blast
    have "v < 5 \<Longrightarrow> map (fst \<circ> snd) trip = qoss" using trip(3) assms(1,3) by simp
    moreover have "snd (snd (hd trip)) = opts" if "5 \<le> v" "length topics = 1" using that trip(2,4) by (cases trip) auto
    moreover have "optlist = Some (map (snd \<circ> snd) trip)" if "5 \<le> v" "1 < length topics"
      using that trip(5) assms(1,3) by (auto split: option.splits)
    ultimately show ?thesis using cnt mal trip(1,2) assms(3) by (auto simp: restore_sub_def)
  qed
  then have "follows al v (q_details c) (concat ?bufs)"
    using assms(3) by (simp add: follows_def restore_details_def details_type_def packet_types)
  moreover have "command_buffers v c = Inr (Some (3 + (if 5 \<le> v then 1 else 0) + 2 * int (length topics), head_bytes c @ ?bufs))"
    using bs assms(3) by (simp add: command_buffers_def head_bytes_def)
  ultimately show ?thesis using ok(4) by force
qed

lemma unsub_follows:
  assumes "details_ok v (q_details c)" "\<forall>n. al n" "q_details c = Unsub_details topics"
  shows "\<exists>n bufs. command_buffers v c = Inr (Some (n, head_bytes c @ bufs)) \<and> 0 < n \<and> n < 200000 \<and> follows al v (q_details c) (concat bufs)"
proof -
  have ok: "list_all topic_ok topics" "topics \<noteq> []" "length topics < 65536" using assms(1,3) by auto
  have cnt: "in_int (int (length topics))" "malloc_ok al (8 * int (length topics))"
    using ok(3) by (auto simp: in_int_def INT_MAX_def INT_MIN_def intro!: malloc_small [OF assms(2)])
  let ?bufs = "int_bytes (int (length topics)) # map c_bytes topics"
  have "restore_unsub al (concat ?bufs @ rest) = Inr (Some (Unsub_details topics), rest)" for rest
    using cnt unsub_topics_restored [OF assms(2) ok(1)] by (simp add: restore_unsub_def)
  then have "follows al v (q_details c) (concat ?bufs)"
    using assms(3) by (simp add: follows_def restore_details_def details_type_def packet_types)
  moreover have "command_buffers v c = Inr (Some (3 + (if 5 \<le> v then 1 else 0) + int (length topics), head_bytes c @ ?bufs))"
    using assms(3) by (simp add: command_buffers_def head_bytes_def)
  ultimately show ?thesis using ok(3) by force
qed

lemma pub_follows:
  assumes "details_ok v (q_details c)" "\<forall>n. al n" "q_details c = Pub_details dest payload payloadlen qos retained"
  shows "\<exists>n bufs. command_buffers v c = Inr (Some (n, head_bytes c @ bufs)) \<and> 0 < n \<and> n < 200000 \<and> follows al v (q_details c) (concat bufs)"
proof -
  obtain d p where dp: "dest = Some d" "payload = Some p" "topic_ok d" "payloadlen = int (length p)" "in_int payloadlen" "in_int qos" "in_int retained"
    using assms(1,3) by (auto split: option.splits)
  have m: "malloc_ok al (int (length d) + 1)" "malloc_ok al payloadlen" "0 \<notin> set d"
    using topic_malloc [OF dp(3) assms(2)] malloc_small [OF assms(2), of payloadlen] dp by (auto simp: in_int_def INT_MAX_def topic_ok_def)
  let ?bufs = "[c_bytes d, int_bytes payloadlen, p, int_bytes qos, int_bytes retained]"
  have pay: "payload_bytes (p @ x) payloadlen = Inr p" "drop (nat payloadlen) (p @ x) = x" for x using dp(4) by (simp_all add: payload_bytes_def)
  have "restore_pub al first (concat ?bufs @ rest) =
      Inr (Some (Pub_details (if first then None else dest) (if first then None else payload) payloadlen qos retained), rest)" for first rest
    using dp(1,2,5-7) m by (simp add: restore_pub_def pay del: drop_append)
  then have "follows al v (q_details c) (concat ?bufs)"
    using assms(3) by (simp add: follows_def restore_details_def details_type_def packet_types)
  moreover have "command_buffers v c = Inr (Some (7 + (if 5 \<le> v then 1 else 0), head_bytes c @ ?bufs))"
    using assms(3) dp pay(1) [of "[]"] by (simp add: command_buffers_def head_bytes_def)
  ultimately show ?thesis by force
qed

lemma details_follow:
  assumes "details_ok v (q_details c)" "\<forall>n. al n"
  shows "\<exists>n bufs. command_buffers v c = Inr (Some (n, head_bytes c @ bufs)) \<and> 0 < n \<and> n < 200000 \<and> follows al v (q_details c) (concat bufs)"
  using sub_follows [OF assms] unsub_follows [OF assms] pub_follows [OF assms] assms(1) by (cases "q_details c") auto

lemma command_record_bytes:
  assumes "details_ok v (q_details c)" "\<forall>n. al n"
  obtains n bufs where "command_buffers v c = Inr (Some (n, head_bytes c @ bufs))" "0 < n" "n < 200000" "follows al v (q_details c) (concat bufs)"
    "command_record v c ps = int_bytes (int (details_type (q_details c))) @ int_bytes (q_token c) @ concat bufs @ concat (props_buffer v ps)"
proof -
  obtain n bufs where b: "command_buffers v c = Inr (Some (n, head_bytes c @ bufs))" "0 < n" "n < 200000" "follows al v (q_details c) (concat bufs)"
    using details_follow [OF assms] by blast
  moreover from b(1) have "command_record v c ps = int_bytes (int (details_type (q_details c))) @ int_bytes (q_token c) @ concat bufs @ concat (props_buffer v ps)"
    by (simp add: command_record_def head_bytes_def)
  ultimately show thesis using that by blast
qed

lemma type_in_int: "in_int (int (details_type d))"
  by (cases d) (simp_all add: details_type_def packet_types in_int_def INT_MAX_def INT_MIN_def)

lemma restoreCommand_first:
  assumes "command_ok v c ps" "\<forall>n. al n"
  shows "MQTTAsync_restoreCommand al (command_record v c ps) v None =
    Inr (Some (blank_command\<lparr>q_token := q_token c, q_details := first_details v (q_details c)\<rparr>))"
proof -
  have ok: "details_ok v (q_details c)" "in_int (q_token c)" using assms(1) by (auto simp: command_ok_def)
  obtain n bufs where b: "follows al v (q_details c) (concat bufs)"
    "command_record v c ps = int_bytes (int (details_type (q_details c))) @ int_bytes (q_token c) @ concat bufs @ concat (props_buffer v ps)"
    using command_record_bytes [OF ok(1) assms(2)] by blast
  have "malloc_ok al 280" using malloc_small [OF assms(2), of 280] by simp
  with b(1) ok(2) show ?thesis
    unfolding b(2) by (simp add: MQTTAsync_restoreCommand_def type_in_int follows_def)
qed

text \<open>The second step, for a message or before MQTT 5.\<close>

definition same_command :: "int \<Rightarrow> pcommand \<Rightarrow> MQTTProperty list \<Rightarrow> pcommand \<Rightarrow> bool" where
  "same_command v c ps c' \<longleftrightarrow> q_token c' = q_token c \<and> q_details c' = kept_details v (q_details c) \<and> \<not> q_not_restored c' \<and>
     (5 \<le> v \<longrightarrow> prop_list (q_properties c') = ps)"

lemma restoreCommand_second:
  assumes "command_ok v c ps" "\<forall>n. al n" "details_type (q_details c) = PUBLISH \<or> v < 5"
    and "q_details q = first_details v (q_details c)" "q_properties q = MQTTProperties_initializer"
  shows "\<exists>c'. MQTTAsync_restoreCommand al (command_record v c ps) v (Some q) = Inr (Some c') \<and> same_command v c ps c' \<and>
    q_client c' = q_client q \<and> q_seqno c' = q_seqno q"
proof -
  have ok: "details_ok v (q_details c)" "in_int (q_token c)" and h: "holds (q_properties c) ps" "length (props_bytes ps) < 268435456"
    using assms(1) by (auto simp: command_ok_def)
  obtain n bufs where b: "follows al v (q_details c) (concat bufs)"
    "command_record v c ps = int_bytes (int (details_type (q_details c))) @ int_bytes (q_token c) @ concat bufs @ concat (props_buffer v ps)"
    using command_record_bytes [OF ok(1) assms(2)] by blast
  define bytes where "bytes = command_record v c ps"
  define tail where "tail = concat (props_buffer v ps)"
  have len: "length bytes - length tail + length tail = length bytes" "drop (length bytes - length tail) bytes = tail"
    by (simp_all add: bytes_def b(2) tail_def)
  have props: "\<exists>props p. MQTTProperties_read al MQTTProperties_initializer bytes (length bytes - length tail) (length bytes) = Inr (1, props, p) \<and> holds props ps"
    if "5 \<le> v"
  proof -
    have t: "tail = MQTTPacket_encode (length (props_bytes ps)) @ props_bytes ps" using that by (simp add: tail_def props_buffer_def)
    have wf: "\<forall>p \<in> set ps. wf_prop p" using h(1) by (simp add: holds_def)
    from MQTTProperties_read_holds [OF wf assms(2) h(2), of "length bytes - length tail" bytes "[]" "length bytes"] len show ?thesis
      by (auto simp: t)
  qed
  have rest: "restore_details al v False (int (details_type (q_details c))) (q_details q) (concat bufs @ tail) =
      Inr (Some (kept_details v (q_details c)), if details_type (q_details c) = PUBLISH then tail else concat bufs @ tail)"
  proof (cases "q_details c")
    case (Pub_details x1 x2 x3 x4 x5)
    with b(1) show ?thesis by (simp add: follows_def details_type_def)
  qed (use b(1) assms(4) ok(1) in \<open>simp_all add: follows_def details_type_def packet_types\<close>)
  have read: "get_int bytes = Inr (int (details_type (q_details c)), int_bytes (q_token c) @ concat bufs @ tail)"
    by (simp add: bytes_def b(2) tail_def type_in_int)
  show ?thesis
  proof (cases "5 \<le> v")
    case True
    then obtain props p where pr: "MQTTProperties_read al MQTTProperties_initializer bytes (length bytes - length tail) (length bytes) = Inr (1, props, p)" "holds props ps"
      using props by blast
    then have "prop_list props = ps" by (simp add: holds_def prop_list_slots)
    with True pr rest read ok(2) assms(3,5) show ?thesis
      by (simp add: MQTTAsync_restoreCommand_def bytes_def [symmetric] same_command_def)
  next
    case False
    with rest read ok(2) show ?thesis by (simp add: MQTTAsync_restoreCommand_def bytes_def [symmetric] same_command_def)
  qed
qed

text \<open>
  With MQTT 5 the second step for a subscription reads its properties where the number of topics is. With one
  topic the command comes out with one property, which has no identifier and no value, instead of its own.
\<close>

lemma restoreCommand_wrong_properties:
  assumes "command_ok 5 c ps" "\<forall>n. al n" "q_details q = first_details 5 (q_details c)" "q_properties q = MQTTProperties_initializer"
    and "q_details c = Unsub_details [topic]"
  shows "\<exists>c'. MQTTAsync_restoreCommand al (command_record 5 c ps) 5 (Some q) = Inr (Some c') \<and>
    prop_list (q_properties c') = [\<lparr>prop_id = 0, pvalue = PUninit\<rparr>]"
proof -
  define rest where "rest = c_bytes topic @ concat (props_buffer 5 ps)"
  define buf where "buf = command_record 5 c ps"
  have ok: "in_int (q_token c)" using assms(1) by (simp add: command_ok_def)
  have one: "int_bytes 1 = [1, 0, 0, 0]" by (simp add: int_bytes_def)
  have buf: "buf = int_bytes (int UNSUBSCRIBE) @ int_bytes (q_token c) @ 1 # 0 # 0 # 0 # rest"
    using assms(5) by (simp add: buf_def command_record_def command_buffers_def details_type_def rest_def one)
  then have d: "drop 8 buf = 1 # 0 # 0 # 0 # rest" "length buf = 12 + length rest" by (simp_all add: int_bytes_def)
  have nth: "buf ! 8 = 1" "buf ! 9 = 0" using d nth_drop [of 8 buf 0] nth_drop [of 8 buf 1] by simp_all
  have dec: "MQTTPacket_decodeBuf buf 8 = Inr (1, 1)"
    using decodeBuf_encode [of 1 8 buf "0 # 0 # 0 # rest"] d(1) by (simp add: encode_small)
  have grow: "read_grow al (MQTTProperties_initializer\<lparr>plength := 1\<rparr>) =
      MQTTProperties_initializer\<lparr>plength := 1, max_count := 10, parray := Some (replicate 10 None)\<rparr>" 
    using malloc_small [OF assms(2), of "10 * sizeof_MQTTProperty"] by (simp add: read_grow_def MQTTProperties_initializer_def sizeof_MQTTProperty_def)
  have "readChar buf 9 = Inr (0, 10)" using nth d(2) by (simp add: readChar_def)
  moreover have "MQTTProperty_getType 0 = None" by code_simp
  ultimately have one_prop: "MQTTProperty_read al buf 9 (length buf) = Inr (\<lparr>prop_id = 0, pvalue = PUninit\<rparr>, 1, 10)"
    by (simp add: MQTTProperty_read_def)
  have "MQTTProperties_read al MQTTProperties_initializer buf 8 (length buf) =
      Inr (1, MQTTProperties_initializer\<lparr>plength := 1, max_count := 10, pcount := 1, parray := Some ((replicate 10 None)[0 := Some \<lparr>prop_id = 0, pvalue = PUninit\<rparr>])\<rparr>, 10)"
    using dec one_prop grow d(2)
    by (simp add: MQTTProperties_read_def read_props.simps [of _ _ _ 1] read_props.simps [of _ _ _ 0] MQTTProperties_initializer_def)
  moreover have "get_int buf = Inr (int UNSUBSCRIBE, drop 4 buf)" "get_int (drop 4 buf) = Inr (q_token c, drop 8 buf)"
    using ok d(1) by (simp_all add: buf packet_types in_int_def INT_MAX_def INT_MIN_def int_bytes_length)
  moreover have "length buf - length (drop 8 buf) = 8" using d by simp
  ultimately have "MQTTAsync_restoreCommand al buf 5 (Some q) = Inr (Some (q\<lparr>q_not_restored := False, q_token := q_token c,
      q_properties := MQTTProperties_initializer\<lparr>plength := 1, max_count := 10, pcount := 1, parray := Some ((replicate 10 None)[0 := Some \<lparr>prop_id = 0, pvalue = PUninit\<rparr>])\<rparr>\<rparr>))"
    using assms(4) by (simp add: MQTTAsync_restoreCommand_def restore_details_def packet_types)
  then show ?thesis by (simp add: buf_def [symmetric] prop_list_def MQTTProperties_initializer_def eval_nat_numeral)
qed

section \<open>Writing a command\<close>

definition command_key :: "int \<Rightarrow> nat \<Rightarrow> string" where
  "command_key v n = command_stem v @ dec_str n"

lemma command_stem_ok: "stem_ok (command_stem v)"
  using stems_ok(1) by (simp add: command_stem_def stems_def)

lemma command_key_fits: "n < PERSISTENCE_SEQNO_LIMIT \<Longrightarrow> sprintf_key (PERSISTENCE_MAX_KEY_LENGTH + 1) (command_stem v) (int n) = Inr (command_key v n)"
proof -
  assume "n < PERSISTENCE_SEQNO_LIMIT"
  then have "length (dec_str n) \<le> 6" by (intro dec_str_length) (auto simp: PERSISTENCE_SEQNO_LIMIT_def)
  then show ?thesis by (auto simp: sprintf_key_def command_key_def command_stem_def PERSISTENCE_MAX_KEY_LENGTH_def stem_defs)
qed

lemma command_key_inj [simp]: "command_key v m = command_key v n \<longleftrightarrow> m = n"
  by (simp add: command_key_def)

lemma command_key_number: "n < PERSISTENCE_SEQNO_LIMIT \<Longrightarrow> key_number (command_key v n) = Inr (int n)"
  unfolding command_key_def by (rule key_number_key [OF command_stem_ok]) (simp add: PERSISTENCE_SEQNO_LIMIT_def)

lemma command_key_stems: "is_command_key (command_key v n)" "has_stem (command_key v n) PERSISTENCE_V5_COMMAND_KEY \<longleftrightarrow> 5 \<le> v"
  by (auto simp: is_command_key_def command_key_def command_stem_def has_stem_def stem_defs)

lemma persistCommand_writes:
  assumes ok: "command_ok v c ps" and al: "\<forall>n. alloc (pe_env pe) n" and n: "seqno < PERSISTENCE_SEQNO_LIMIT"
  defines "n1 \<equiv> next_seqno seqno"
  shows "\<exists>bufs. concat bufs = command_record v c ps \<and> MQTTAsync_persistCommand pe ops v c seqno s =
    (let (rc, s') = put_command pe ops (command_key v n1) bufs s in Inr (rc, c\<lparr>q_seqno := n1\<rparr>, n1, s'))"
proof -
  have h: "details_ok v (q_details c)" "holds (q_properties c) ps" "length (props_bytes ps) < 268435456" using ok by (auto simp: command_ok_def)
  obtain k tail where "command_buffers v c = Inr (Some (k, head_bytes c @ tail))" "0 < k" "k < 200000" using details_follow [OF h(1) al] by blast
  then obtain bufs where b: "command_buffers v c = Inr (Some (k, bufs))" "0 < k" "k < 200000" by blast
  then have rec: "command_record v c ps = concat (bufs @ props_buffer v ps)" by (simp add: command_record_def)
  have "length (MQTTPacket_encode (length (props_bytes ps))) \<le> 10" using h(3) by (intro encode_length_le_10) simp
  then have m: "malloc_ok (alloc (pe_env pe)) (MQTTProperties_len (Some (q_properties c)))" "malloc_ok (alloc (pe_env pe)) (4 * k)" "malloc_ok (alloc (pe_env pe)) (8 * k)"
    using malloc_small [OF al] props_len [OF h(2,3)] h(3) b(2,3) by simp_all
  have f: "filled (MQTTProperties_len (Some (q_properties c))) (MQTTPacket_encode (length (props_bytes ps)) @ props_bytes ps) =
      Inr (MQTTPacket_encode (length (props_bytes ps)) @ props_bytes ps)"
    using props_len [OF h(2,3)] by (intro filled_exact) simp
  have "sprintf_key (PERSISTENCE_MAX_KEY_LENGTH + 1) (command_stem v) (int n1) = Inr (command_key v n1)"
    using next_seqno_less [OF n] by (intro command_key_fits) (simp add: n1_def)
  with m f b(1) MQTTProperties_write_holds [OF h(2,3)] rec show ?thesis
    by (intro exI [of _ "bufs @ props_buffer v ps"])
      (simp add: MQTTAsync_persistCommand_def n1_def [symmetric] Let_def props_buffer_def split: prod.splits)
qed

section \<open>Restoring the queue\<close>

lemma read_sub_topics_version: "read_sub_topics al (if 5 \<le> v then 5 else 4) n bs = read_sub_topics al v n bs"
proof (induction n arbitrary: bs)
  case (Suc n)
  have "(if 5 \<le> v then 5 else 4 :: int) < 5 \<longleftrightarrow> v < 5" by simp
  then show ?case by (simp only: read_sub_topics.simps Suc)
qed simp

lemma restoreCommand_version: "MQTTAsync_restoreCommand al buf (if 5 \<le> v then 5 else 4) q = MQTTAsync_restoreCommand al buf v q"
proof -
  have v: "5 \<le> (if 5 \<le> v then 5 else 4 :: int) \<longleftrightarrow> 5 \<le> v" "(if 5 \<le> v then 5 else 4 :: int) < 5 \<longleftrightarrow> v < 5" by auto
  have "restore_sub al (if 5 \<le> v then 5 else 4) bs = restore_sub al v bs" for bs
    unfolding restore_sub_def v read_sub_topics_version ..
  then show ?thesis unfolding MQTTAsync_restoreCommand_def restore_details_def v by (simp only:)
qed

text \<open>
  The entry of the array for the last command points at the last element of the list.
\<close>

definition at_end :: "nat \<Rightarrow> int \<Rightarrow> keyloc list \<Rightarrow> command_list \<Rightarrow> bool" where
  "at_end i n kl cl \<longleftrightarrow> i < length kl \<and> cl_elems cl \<noteq> [] \<and> kl ! i = Some (n, Some (fst (last (cl_elems cl)))) \<and>
     distinct (map fst (cl_elems cl)) \<and> (\<forall>e \<in> set (cl_elems cl). fst e < cl_next cl)"

lemma last_elem_pos:
  assumes "cl_elems cl \<noteq> []" "distinct (map fst (cl_elems cl))"
  shows "elem_pos (fst (last (cl_elems cl))) cl = Inr (length (cl_elems cl) - 1)"
proof -
  obtain es e where es: "cl_elems cl = es @ [e]" using assms(1) by (metis append_butlast_last_id)
  with assms(2) have "\<forall>x \<in> set es. fst x \<noteq> fst e" by (auto simp: image_iff)
  then have "first_index (\<lambda>x. fst x = fst e) (es @ [e]) = Some (length es)" by (induction es) auto
  with es show ?thesis by (simp add: elem_pos_def)
qed

lemma insertInOrder_end:
  assumes "at_end i n kl cl" "n < seqno_int (q_seqno c)" "i + 1 < length kl" "\<forall>n. al n"
  shows "\<exists>kl'. MQTTAsync_insertInOrder al c kl (i + 1) cl =
      Inr (kl', cl\<lparr>cl_elems := cl_elems cl @ [(cl_next cl, Some c)], cl_next := Suc (cl_next cl)\<rparr>) \<and>
    length kl' = length kl \<and> at_end (i + 1) (seqno_int (q_seqno c)) kl' (cl\<lparr>cl_elems := cl_elems cl @ [(cl_next cl, Some c)], cl_next := Suc (cl_next cl)\<rparr>)"
proof -
  have kl: "keyloc_at kl i = Inr (n, Some (fst (last (cl_elems cl))))" "cl_elems cl \<noteq> []" "distinct (map fst (cl_elems cl))"
    "\<forall>e \<in> set (cl_elems cl). fst e < cl_next cl" "i < length kl"
    using assms(1) by (auto simp: at_end_def keyloc_at_def)
  have "malloc_ok al 24" using malloc_small [OF assms(4), of 24] by simp
  then have "MQTTAsync_insertInOrder al c kl (i + 1) cl = Inr (kl[i + 1 := Some (seqno_int (q_seqno c), Some (cl_next cl))],
      cl\<lparr>cl_elems := cl_elems cl @ [(cl_next cl, Some c)], cl_next := Suc (cl_next cl)\<rparr>)"
    using kl assms(2,3) last_elem_pos [OF kl(2,3)]
    by (simp add: MQTTAsync_insertInOrder_def keyloc_place_def list_insert_def)
  moreover have "cl_next cl \<notin> fst ` set (cl_elems cl)" using kl(4) by auto
  ultimately show ?thesis using kl assms(3) by (auto simp: at_end_def less_Suc_eq)
qed

text \<open>
  The store holds the commands \<open>cs\<close> under their sequence numbers, and nothing else.
\<close>

type_synonym numbered_command = "nat \<times> pcommand \<times> MQTTProperty list"

definition stored_command :: "persist_env \<Rightarrow> int \<Rightarrow> (string \<rightharpoonup> byte list) \<Rightarrow> numbered_command \<Rightarrow> bool" where
  "stored_command pe v data x \<longleftrightarrow> (case x of (n, c, ps) \<Rightarrow> command_ok v c ps \<and> n < PERSISTENCE_SEQNO_LIMIT \<and>
     (\<exists>bytes. data (command_key v n) = Some bytes \<and> after_read pe bytes = (0, command_record v c ps)))"

definition stores_commands :: "persist_env \<Rightarrow> int \<Rightarrow> numbered_command list \<Rightarrow> (string \<rightharpoonup> byte list) \<Rightarrow> bool" where
  "stores_commands pe v cs data \<longleftrightarrow> (\<forall>x \<in> set cs. stored_command pe v data x) \<and> dom data = (\<lambda>x. command_key v (fst x)) ` set cs"

definition queued_again :: "int \<Rightarrow> nat \<Rightarrow> numbered_command \<Rightarrow> pcommand \<Rightarrow> bool" where
  "queued_again v m x q \<longleftrightarrow> (case x of (n, c, ps) \<Rightarrow> q = blank_command\<lparr>q_token := q_token c, q_details := first_details v (q_details c),
     q_client := m, q_seqno := n, q_key := Some (command_key v n)\<rparr>)"

definition publish_count :: "pcommand list \<Rightarrow> int" where
  "publish_count cs = int (length (filter (\<lambda>c. details_type (q_details c) = PUBLISH) cs))"

lemma first_details_type [simp]: "details_type (first_details v d) = details_type d"
  by (cases d) (simp_all add: details_type_def)

context reliable_store
begin

lemma restore_command_step:
  assumes "good_store s" "roomy s" "stored_command pe v (holds_data s) (n, c, ps)" "\<forall>n. alloc (pe_env pe) n"
    and "at_end i k (rs_keyloc rs) (rs_list rs)" "k < int n" "i + 1 < length (rs_keyloc rs)"
  shows "\<exists>rs' q. restore_command_key pe ops m s i (command_key v n) rs = Inr (0, rs') \<and> queued_again v m (n, c, ps) q \<and>
    map snd (cl_elems (rs_list rs')) = map snd (cl_elems (rs_list rs)) @ [Some q] \<and> at_end (i + 1) (int n) (rs_keyloc rs') (rs_list rs') \<and>
    length (rs_keyloc rs') = length (rs_keyloc rs) \<and> rs_seqno rs' = max (rs_seqno rs) n \<and> rs_buffered rs' = rs_buffered rs + publish_count [c]"
proof -
  obtain bytes where b: "command_ok v c ps" "n < PERSISTENCE_SEQNO_LIMIT" "holds_data s (command_key v n) = Some bytes"
    "after_read pe bytes = (0, command_record v c ps)" using assms(3) by (auto simp: stored_command_def)
  define q where "q = blank_command\<lparr>q_token := q_token c, q_details := first_details v (q_details c),
     q_client := m, q_seqno := n, q_key := Some (command_key v n)\<rparr>"
  have num: "key_number (command_key v n) = Inr (int n)" "nat (int n mod 2 ^ 32) = n"
    using command_key_number [OF b(2)] b(2) by (simp_all add: PERSISTENCE_SEQNO_LIMIT_def)
  have "length (dec_str n) \<le> 6" using b(2) by (intro dec_str_length) (auto simp: PERSISTENCE_SEQNO_LIMIT_def)
  then have mal: "malloc_ok (alloc (pe_env pe)) (int (length (command_key v n)) + 1)"
    using malloc_small [OF assms(4)] by (simp add: command_key_def command_stem_def stem_defs)
  obtain kl where kl: "MQTTAsync_insertInOrder (alloc (pe_env pe)) q (rs_keyloc rs) (i + 1) (rs_list rs) =
      Inr (kl, (rs_list rs)\<lparr>cl_elems := cl_elems (rs_list rs) @ [(cl_next (rs_list rs), Some q)], cl_next := Suc (cl_next (rs_list rs))\<rparr>)"
    "length kl = length (rs_keyloc rs)" "at_end (i + 1) (int n) kl
      ((rs_list rs)\<lparr>cl_elems := cl_elems (rs_list rs) @ [(cl_next (rs_list rs), Some q)], cl_next := Suc (cl_next (rs_list rs))\<rparr>)"
    using insertInOrder_end [OF assms(5) _ assms(7,4), of q] assms(6) b(2) by (auto simp: q_def seqno_int_def PERSISTENCE_SEQNO_LIMIT_def)
  have "restore_command_key pe ops m s i (command_key v n) rs = Inr (0, rs
      \<lparr>rs_list := (rs_list rs)\<lparr>cl_elems := cl_elems (rs_list rs) @ [(cl_next (rs_list rs), Some q)], cl_next := Suc (cl_next (rs_list rs))\<rparr>,
       rs_keyloc := kl, rs_seqno := max (rs_seqno rs) n, rs_buffered := rs_buffered rs + publish_count [c]\<rparr>)"
    unfolding restore_command_key_def command_key_stems(2) restoreCommand_version
    using command_key_stems(1) read_back_held [OF assms(1,2) b(3)] b(4) restoreCommand_first [OF b(1) assms(4)] num mal kl(1)
    by (simp add: q_def [symmetric] publish_count_def Let_def)
  moreover have "queued_again v m (n, c, ps) q" by (simp add: queued_again_def q_def)
  ultimately show ?thesis using kl(2,3) by (intro exI conjI) (assumption | simp)+
qed

lemma restore_command_loop:
  assumes "good_store s" "roomy s" "\<forall>x \<in> set cs. stored_command pe v (holds_data s) x" "\<forall>n. alloc (pe_env pe) n"
    and "sorted_wrt (<) (k # map (\<lambda>x. int (fst x)) cs)" "at_end i k (rs_keyloc rs) (rs_list rs)" "i + length cs < length (rs_keyloc rs)"
  shows "\<exists>rs' qs. restore_command_keys pe ops m s i (map (\<lambda>x. command_key v (fst x)) cs) rs = Inr (0, rs') \<and> list_all2 (queued_again v m) cs qs \<and>
    map snd (cl_elems (rs_list rs')) = map snd (cl_elems (rs_list rs)) @ map Some qs \<and> rs_seqno rs' = fold max (map fst cs) (rs_seqno rs) \<and>
    rs_buffered rs' = rs_buffered rs + publish_count (map (\<lambda>x. fst (snd x)) cs)"
  using assms(3,5-)
proof (induction cs arbitrary: i k rs)
  case (Cons x cs)
  obtain n c ps where x: "x = (n, c, ps)" by (cases x) auto
  obtain rs1 q where 1: "restore_command_key pe ops m s i (command_key v n) rs = Inr (0, rs1)" "queued_again v m x q"
    "map snd (cl_elems (rs_list rs1)) = map snd (cl_elems (rs_list rs)) @ [Some q]" "at_end (i + 1) (int n) (rs_keyloc rs1) (rs_list rs1)"
    "length (rs_keyloc rs1) = length (rs_keyloc rs)" "rs_seqno rs1 = max (rs_seqno rs) n" "rs_buffered rs1 = rs_buffered rs + publish_count [c]"
    using restore_command_step [OF assms(1,2) _ assms(4) Cons.prems(3), of v n c ps m] Cons.prems x by auto
  obtain rs2 qs where 2: "restore_command_keys pe ops m s (i + 1) (map (\<lambda>x. command_key v (fst x)) cs) rs1 = Inr (0, rs2)" "list_all2 (queued_again v m) cs qs"
    "map snd (cl_elems (rs_list rs2)) = map snd (cl_elems (rs_list rs1)) @ map Some qs" "rs_seqno rs2 = fold max (map fst cs) (rs_seqno rs1)"
    "rs_buffered rs2 = rs_buffered rs1 + publish_count (map (\<lambda>x. fst (snd x)) cs)"
    using Cons.IH [OF _ _ 1(4)] Cons.prems x 1(5) by auto
  have "publish_count (map (\<lambda>x. fst (snd x)) (x # cs)) = publish_count [c] + publish_count (map (\<lambda>x. fst (snd x)) cs)" by (simp add: x publish_count_def)
  with 1 2 x show ?case by (intro exI [of _ rs2] exI [of _ "q # qs"]) (simp add: max.commute)
qed (simp add: publish_count_def)

lemma commands_in_order:
  assumes "good_store s" "roomy s" "stores_commands pe v cs (holds_data s)" "\<forall>n. alloc (pe_env pe) n"
    and "sorted_wrt (<) (map fst cs)" "length cs < PERSISTENCE_SEQNO_LIMIT" "cl_elems cl = []"
  shows "\<exists>cl' n qs. MQTTAsync_restoreCommands pe (Some ops) m s cl k buffered = Inr (0, cl', n, buffered + publish_count (map (\<lambda>x. fst (snd x)) cs)) \<and>
    map snd (cl_elems cl') = map Some qs \<and> list_all2 (queued_again v m) cs qs \<and> n = fold max (map fst cs) k"
proof -
  obtain ks where ks: "s_keys ops s = (0, ks)" using keys_work [OF assms(1,2)] by (metis prod.collapse)
  let ?keys = "map (\<lambda>x. command_key v (fst x)) cs"
  have kd: "distinct ks" "set ks = set ?keys" using keys_law [OF assms(1) ks] assms(3) by (auto simp: stores_commands_def)
  have dist: "distinct (map fst cs)" using assms(5) by (simp add: strict_sorted_iff)
  then have dk: "distinct ?keys" by (simp add: distinct_map inj_on_def)
  have lim: "fst x < PERSISTENCE_SEQNO_LIMIT" if "x \<in> set cs" for x using that assms(3) by (auto simp: stores_commands_def stored_command_def)
  then have num: "key_number (command_key v (fst x)) = Inr (int (fst x))" if "x \<in> set cs" for x using that by (simp add: command_key_number)
  have len: "length ks = length cs" using kd dk by (metis distinct_card length_map)
  have cmp: "map cmpkeys ?keys = map (\<lambda>x. int (fst x)) cs" using num by (simp add: cmpkeys_def)
  have "sort_key cmpkeys ks = ?keys"
  proof (rule map_sorted_distinct_set_unique [of cmpkeys])
    have inj: "inj_on cmpkeys (set ?keys)" using num by (auto simp: inj_on_def cmpkeys_def)
    then show "inj_on cmpkeys (set (sort_key cmpkeys ks) \<union> set ?keys)" "distinct (map cmpkeys (sort_key cmpkeys ks))" "distinct (map cmpkeys ?keys)"
      using kd dk by (simp_all add: distinct_map comp_inj_on del: o_apply)
    show "sorted (map cmpkeys ?keys)" unfolding cmp using assms(5) by (auto simp: sorted_wrt_map intro: sorted_wrt_mono_rel [rotated])
  qed (use kd(2) in simp_all)
  moreover have "filter (\<lambda>k. faults (key_number k)) ks = []" using kd(2) num by (auto simp: filter_empty_conv)
  moreover have "sort_key cmpkeys ks = ks" if "\<not> 1 < length ks" using that by (cases ks) auto
  ultimately have srt: "sort_keys ks = Inr ?keys" by (auto simp: sort_keys_def)
  have mal: "malloc_ok (alloc (pe_env pe)) (16 * (int (length cs) + 1))" "malloc_ok (alloc (pe_env pe)) 280" "malloc_ok (alloc (pe_env pe)) 24"
    using malloc_small [OF assms(4)] assms(6) by (simp_all add: PERSISTENCE_SEQNO_LIMIT_def)
  show ?thesis
  proof (cases "cs = []")
    case True
    with ks len assms(7) show ?thesis by (simp add: MQTTAsync_restoreCommands_def publish_count_def)
  next
    case False
    define cl1 where "cl1 = cl\<lparr>cl_elems := [(cl_next cl, None)], cl_next := Suc (cl_next cl)\<rparr>"
    define rs where "rs = \<lparr>rs_list = cl1, rs_keyloc = Some (- 1, Some (cl_next cl)) # replicate (length cs) None, rs_seqno = k, rs_buffered = buffered\<rparr>"
    have "at_end 0 (- 1) (rs_keyloc rs) (rs_list rs)" by (simp add: at_end_def rs_def cl1_def)
    moreover have "sorted_wrt (<) (- 1 # map (\<lambda>x. int (fst x)) cs)" using assms(5) by (auto simp: sorted_wrt_map)
    moreover have "\<forall>x \<in> set cs. stored_command pe v (holds_data s) x" using assms(3) by (simp add: stores_commands_def)
    ultimately obtain rs' qs where r: "restore_command_keys pe ops m s 0 ?keys rs = Inr (0, rs')" "list_all2 (queued_again v m) cs qs"
      "map snd (cl_elems (rs_list rs')) = map snd (cl_elems (rs_list rs)) @ map Some qs" "rs_seqno rs' = fold max (map fst cs) (rs_seqno rs)"
      "rs_buffered rs' = rs_buffered rs + publish_count (map (\<lambda>x. fst (snd x)) cs)"
      using restore_command_loop [OF assms(1,2) _ assms(4), of cs v "- 1" 0 rs m] by (auto simp: rs_def)
    have "MQTTAsync_restoreCommands pe (Some ops) m s cl k buffered =
        Inr (0, (rs_list rs')\<lparr>cl_elems := tl (cl_elems (rs_list rs'))\<rparr>, rs_seqno rs', rs_buffered rs')"
    proof -
      have "list_insert (alloc (pe_env pe)) None (length (cl_elems cl)) cl = (Some (cl_next cl), cl1)"
        using mal(3) assms(7) by (simp add: list_insert_def cl1_def)
      with False ks len srt mal r(1) show ?thesis
        by (auto simp: MQTTAsync_restoreCommands_def rs_def [symmetric] Let_def)
    qed
    then show ?thesis using r(2-) by (auto simp: rs_def cl1_def map_tl)
  qed
qed

end

section \<open>From queueing to restoring\<close>

fun command_run ::
  "persist_env \<Rightarrow> 's store_ops \<Rightarrow> int \<Rightarrow> (pcommand \<times> MQTTProperty list) list \<Rightarrow> nat \<Rightarrow> 's \<Rightarrow> (int \<times> nat \<times> 's) res" where
  "command_run pe ops v [] n s = Inr (0, n, s)"
| "command_run pe ops v ((c, ps) # cs) n s =
     bindR (MQTTAsync_persistCommand pe ops v c n s) (\<lambda>(rc, c1, n1, s1). if rc \<noteq> 0 then Inr (rc, n1, s1) else command_run pe ops v cs n1 s1)"

fun number_commands :: "nat \<Rightarrow> (pcommand \<times> MQTTProperty list) list \<Rightarrow> numbered_command list" where
  "number_commands n [] = []"
| "number_commands n (x # xs) = (Suc n, x) # number_commands (Suc n) xs"

lemma number_commands_above: "x \<in> set (number_commands n xs) \<Longrightarrow> n < fst x"
  by (induction n xs rule: number_commands.induct) auto

lemma number_commands_sorted: "sorted_wrt (<) (map fst (number_commands n xs))"
  by (induction n xs rule: number_commands.induct) (auto dest: number_commands_above)

lemma number_commands_snd [simp]: "map snd (number_commands n xs) = xs" "length (number_commands n xs) = length xs"
  by (induction n xs rule: number_commands.induct) auto

lemma stores_commands_add:
  assumes "stores_commands pe v cs data" "command_ok v c ps" "n < PERSISTENCE_SEQNO_LIMIT" "n \<notin> fst ` set cs" "after_read pe bytes = (0, command_record v c ps)"
  shows "stores_commands pe v (cs @ [(n, c, ps)]) (data(command_key v n \<mapsto> bytes))"
proof -
  have "stored_command pe v (data(command_key v n \<mapsto> bytes)) x" if "x \<in> set cs" for x
  proof -
    have "fst x \<noteq> n" using that assms(4) by blast
    then show ?thesis using that assms(1) by (auto simp: stores_commands_def stored_command_def)
  qed
  moreover have "stored_command pe v (data(command_key v n \<mapsto> bytes)) (n, c, ps)" using assms(2,3,5) by (simp add: stored_command_def)
  moreover have "dom (data(command_key v n \<mapsto> bytes)) = (\<lambda>x. command_key v (fst x)) ` set (cs @ [(n, c, ps)])"
    using assms(1) by (simp add: stores_commands_def)
  ultimately show ?thesis unfolding stores_commands_def by auto
qed

context persistent_store
begin

lemma command_run_stored:
  assumes "good_store s" "stores_commands pe v done (holds_data s)" "callbacks_invert pe" "\<forall>bufs. fst (before_write pe bufs) = 0"
    and "\<And>k. plain_key k \<Longrightarrow> good_key k" "\<forall>n. alloc (pe_env pe) n"
    and "\<forall>(c, ps) \<in> set cs. command_ok v c ps" "n + length cs < PERSISTENCE_SEQNO_LIMIT"
    and "\<forall>x \<in> set done. fst x \<le> n" "command_run pe ops v cs n s = Inr (0, n', s')"
  shows "good_store s' \<and> stores_commands pe v (done @ number_commands n cs) (holds_data s')"
  using assms(1,2,7-)
proof (induction cs arbitrary: s "done" n)
  case (Cons x cs)
  obtain c ps where x: "x = (c, ps)" by fastforce
  have n: "next_seqno n = Suc n" "n < PERSISTENCE_SEQNO_LIMIT" "Suc n < PERSISTENCE_SEQNO_LIMIT" using Cons.prems(4) by (simp_all add: next_seqno_Suc)
  have ok: "command_ok v c ps" using Cons.prems(3) x by simp
  obtain bufs where b: "concat bufs = command_record v c ps" "MQTTAsync_persistCommand pe ops v c n s =
      (let (rc, s') = put_command pe ops (command_key v (Suc n)) bufs s in Inr (rc, c\<lparr>q_seqno := Suc n\<rparr>, Suc n, s'))"
    using persistCommand_writes [OF ok assms(6) n(2), of ops s] unfolding n(1) by (elim exE conjE)
  obtain bs where w: "before_write pe bufs = (0, bs)" using assms(4) by (metis prod.collapse)
  obtain rc s1 where put: "s_put ops (command_key v (Suc n)) bs s = (rc, s1)" by fastforce
  from Cons.prems(6) b(2) put w x have rc: "rc = 0" and rest: "command_run pe ops v cs (Suc n) s1 = Inr (0, n', s')"
    by (auto simp: put_command_def split: if_splits)
  have "good_key (command_key v (Suc n))" unfolding command_key_def by (rule assms(5) [OF plain_key_key [OF command_stem_ok]])
  from put_law [OF Cons.prems(1) this put] rc have s1: "good_store s1" "holds_data s1 = (holds_data s)(command_key v (Suc n) \<mapsto> concat bs)" by simp_all
  have "after_read pe (concat bs) = (0, command_record v c ps)" using assms(3) w b(1) by (simp add: callbacks_invert_def)
  moreover have "Suc n \<notin> fst ` set done" using Cons.prems(5) by fastforce
  ultimately have "stores_commands pe v (done @ [(Suc n, c, ps)]) (holds_data s1)"
    unfolding s1(2) using Cons.prems(2) ok n(3) by (intro stores_commands_add)
  moreover have "\<forall>y \<in> set (done @ [(Suc n, c, ps)]). fst y \<le> Suc n" using Cons.prems(5) by fastforce
  ultimately have "good_store s' \<and> stores_commands pe v ((done @ [(Suc n, c, ps)]) @ number_commands (Suc n) cs) (holds_data s')"
    using Cons.prems(3,4) by (intro Cons.IH [OF s1(1) _ _ _ _ rest]) simp_all
  then show ?case by (simp add: x)
qed simp

end

context reliable_store
begin

lemma reread_same:
  assumes "good_store s" "roomy s" "stored_command pe v (holds_data s) (n, c, ps)" "\<forall>n. alloc (pe_env pe) n" "queued_again v m (n, c, ps) q"
    and "details_type (q_details c) = PUBLISH \<or> v < 5"
  shows "\<exists>c'. reread_command pe ops q s = Inr (Some c') \<and> same_command v c ps c' \<and> q_client c' = m \<and> q_seqno c' = n"
proof -
  obtain bytes where b: "command_ok v c ps" "holds_data s (command_key v n) = Some bytes" "after_read pe bytes = (0, command_record v c ps)"
    using assms(3) by (auto simp: stored_command_def)
  have q: "q_not_restored q" "q_key q = Some (command_key v n)" "q_details (q\<lparr>q_key := None\<rparr>) = first_details v (q_details c)"
    "q_properties (q\<lparr>q_key := None\<rparr>) = MQTTProperties_initializer" "q_client q = m" "q_seqno q = n"
    using assms(5) by (simp_all add: queued_again_def blank_command_def)
  from restoreCommand_second [OF b(1) assms(4,6) q(3,4)] show ?thesis
    unfolding reread_command_def q(2) option.case command_key_stems(2) restoreCommand_version
    using q(1,5,6) read_back_held [OF assms(1,2) b(2)] b(3) by simp
qed

end

text \<open>
  C40: queued commands survive a restart. Let a client whose file store is empty queue subscriptions,
  unsubscriptions and messages, so that every one is persisted without an error and written out by \<^verbatim>\<open>fclose\<close>. Then a new client on that
  directory has exactly these commands in its queue, in the order in which they were queued, and counts the
  messages among them. When a message, or before MQTT 5 any command, is then taken from the queue, it is read
  again as it was: topics, options, payload and properties.\<close>
theorem commands_survive_restart:
  assumes "file_good dir fs" and "file_data dir fs = Map.empty" and "callbacks_invert pe" and "\<forall>bufs. fst (before_write pe bufs) = 0"
    and "\<forall>n. alloc (pe_env pe) n" and "\<forall>(c, ps) \<in> set cs. command_ok v c ps" and "n + length cs < PERSISTENCE_SEQNO_LIMIT"
    and "command_run pe (file_ops env al dir) v cs n fs = Inr (0, n1, fs1)" and "file_roomy dir fs1" and "cl_elems cl = []"
    and "flushes env"
  shows "\<exists>cl' n' qs. MQTTAsync_restoreCommands pe (Some (file_ops sound_fs (\<lambda>n. True) dir)) m fs1 cl 0 0 = Inr (0, cl', n', publish_count (map fst cs)) \<and>
    map snd (cl_elems cl') = map Some qs \<and>
    list_all2 (\<lambda>(c, ps) q. q_client q = m \<and> q_token q = q_token c \<and> q_details q = first_details v (q_details c) \<and>
      (details_type (q_details c) = PUBLISH \<or> v < 5 \<longrightarrow>
        (\<exists>c'. reread_command pe (file_ops sound_fs (\<lambda>n. True) dir) q fs1 = Inr (Some c') \<and> same_command v c ps c'))) cs qs"
proof -
  let ?cs = "number_commands n cs"
  have "stores_commands pe v [] (file_data dir fs)" using assms(2) by (simp add: stores_commands_def)
  then have "file_good dir fs1 \<and> stores_commands pe v ([] @ ?cs) (file_data dir fs1)"
    by (intro file_store.command_run_stored [where env = env, unfolded flushing_id [OF assms(11)], OF assms(1) _ assms(3,4) _ assms(5-7) _ assms(8)]) simp_all
  then have st: "file_good dir fs1" "stores_commands pe v ?cs (file_data dir fs1)" by simp_all
  have "length ?cs < PERSISTENCE_SEQNO_LIMIT" using assms(7) by simp
  from file_reliable.commands_in_order [OF st(1) assms(9) st(2) assms(5) number_commands_sorted this assms(10)]
  obtain cl' n' qs where r: "MQTTAsync_restoreCommands pe (Some (file_ops sound_fs (\<lambda>n. True) dir)) m fs1 cl 0 0 =
      Inr (0, cl', n', 0 + publish_count (map (\<lambda>x. fst (snd x)) ?cs))" "map snd (cl_elems cl') = map Some qs" "list_all2 (queued_again v m) ?cs qs" by blast
  have "map (\<lambda>x. fst (snd x)) ?cs = map fst (map snd ?cs)" unfolding map_map comp_def ..
  with r(1) have 1: "MQTTAsync_restoreCommands pe (Some (file_ops sound_fs (\<lambda>n. True) dir)) m fs1 cl 0 0 = Inr (0, cl', n', publish_count (map fst cs))" by simp
  have same: "list_all2 (\<lambda>(c, ps) q. q_client q = m \<and> q_token q = q_token c \<and> q_details q = first_details v (q_details c) \<and>
      (details_type (q_details c) = PUBLISH \<or> v < 5 \<longrightarrow>
        (\<exists>c'. reread_command pe (file_ops sound_fs (\<lambda>n. True) dir) q fs1 = Inr (Some c') \<and> same_command v c ps c'))) (map snd ?cs) qs"
    unfolding list_all2_map1 using r(3)
  proof (rule list.rel_mono_strong)
    fix x q assume x: "x \<in> set ?cs" and q: "queued_again v m x q"
    obtain k c ps where eq: "x = (k, c, ps)" by (cases x) auto
    from x st(2) have "stored_command pe v (file_data dir fs1) (k, c, ps)" by (simp add: stores_commands_def eq)
    from file_reliable.reread_same [OF st(1) assms(9) this assms(5) q [unfolded eq]] q
    show "(case snd x of (c, ps) \<Rightarrow> \<lambda>q. q_client q = m \<and> q_token q = q_token c \<and> q_details q = first_details v (q_details c) \<and>
      (details_type (q_details c) = PUBLISH \<or> v < 5 \<longrightarrow>
        (\<exists>c'. reread_command pe (file_ops sound_fs (\<lambda>n. True) dir) q fs1 = Inr (Some c') \<and> same_command v c ps c'))) q"
      by (auto simp: eq queued_again_def)
  qed
  show ?thesis by (rule exI [of _ cl'], rule exI [of _ n'], rule exI [of _ qs]) (use 1 r(2) same in simp)
qed

definition sample_message :: "int \<Rightarrow> pcommand" where
  "sample_message token = blank_command\<lparr>q_token := token, q_properties := sample_struct, q_details := Pub_details (Some [97]) (Some [1, 2]) 2 1 0\<rparr>"

lemma sample_message_ok: "in_int token \<Longrightarrow> command_ok v (sample_message token) sample_props"
  unfolding command_ok_def sample_bytes using sample_holds by (simp add: sample_message_def topic_ok_def in_int_def INT_MAX_def INT_MIN_def)

theorem commands_survive_restart_witness:
  "\<exists>n1 fs1 cl' n' qs. command_run plain_env (file_ops sound_fs (\<lambda>n. True) ''d'') 5 [(sample_message 7, sample_props), (sample_message 8, sample_props)] 8 sample_fs =
       Inr (0, n1, fs1) \<and>
     MQTTAsync_restoreCommands plain_env (Some (file_ops sound_fs (\<lambda>n. True) ''d'')) 3 fs1 \<lparr>cl_elems = [], cl_next = 0\<rparr> 0 0 = Inr (0, cl', n', 2) \<and>
     map snd (cl_elems cl') = map Some qs \<and> map q_token qs = [7, 8]"
proof -
  let ?cs = "[(sample_message 7, sample_props), (sample_message 8, sample_props)]" and ?ops = "file_ops sound_fs (\<lambda>n. True) ''d''"
  have ok: "\<forall>(c, ps) \<in> set ?cs. command_ok 5 c ps" using sample_message_ok by (simp add: in_int_def INT_MAX_def INT_MIN_def)
  have pe: "\<forall>n. alloc (pe_env plain_env) n" "callbacks_invert plain_env" "\<forall>bufs. fst (before_write plain_env bufs) = 0"
    by (simp_all add: plain_env_def sample_env_def callbacks_invert_def before_write_def after_read_def)
  have step: "\<exists>fs'. MQTTAsync_persistCommand plain_env ?ops 5 (sample_message t) n fs = Inr (0, (sample_message t)\<lparr>q_seqno := Suc n\<rparr>, Suc n, fs') \<and>
      small_files (Suc k) ''d'' fs'" if "command_ok 5 (sample_message t) sample_props" "n < 10" "small_files k ''d'' fs" for t n fs k
  proof -
    note ok1 = that(1)
    define key where "key = command_key 5 (Suc n)"
    have "length (dec_str (Suc n)) \<le> 2" using that(2) by (intro dec_str_length) auto
    then have m: "malloc_ok (\<lambda>n. True) (path_size ''d'' key)" "length (msg_path ''d'' key) < 2 ^ 30"
      by (simp_all add: path_size_def malloc_ok_def PTRDIFF_MAX_def MESSAGE_FILENAME_EXTENSION_def msg_path_def key_def command_key_def command_stem_def stem_defs)
    have n: "n < PERSISTENCE_SEQNO_LIMIT" "next_seqno n = Suc n" using that(2) by (simp_all add: next_seqno_Suc PERSISTENCE_SEQNO_LIMIT_def)
    obtain bufs where b: "concat bufs = command_record 5 (sample_message t) sample_props" "MQTTAsync_persistCommand plain_env ?ops 5 (sample_message t) n fs =
        (let (rc, s') = put_command plain_env ?ops key bufs fs in Inr (rc, (sample_message t)\<lparr>q_seqno := Suc n\<rparr>, Suc n, s'))"
      using persistCommand_writes [OF ok1 pe(1) n(1), of ?ops fs] unfolding n(2) key_def by (elim exE conjE)
    have "length (concat bufs) < 2 ^ 30"
      unfolding b(1) by (simp add: command_record_def command_buffers_def sample_message_def details_type_def payload_bytes_def c_bytes_def props_buffer_def
          sample_bytes encode_small)
    with m b(2) put_sound [OF that(3) m(1)] small_files_update [OF that(3) m(2)] show ?thesis
      by (auto simp: put_command_def plain_env_def before_write_def)
  qed
  have small: "small_files 1 ''d'' sample_fs" by (simp add: small_files_def sample_fs_def)
  obtain fs1 where 1: "MQTTAsync_persistCommand plain_env ?ops 5 (sample_message 7) 8 sample_fs = Inr (0, (sample_message 7)\<lparr>q_seqno := 9\<rparr>, 9, fs1)" "small_files 2 ''d'' fs1"
    using step [of 7 8, OF _ _ small] ok by (auto simp: numeral_2_eq_2)
  obtain fs2 where 2: "MQTTAsync_persistCommand plain_env ?ops 5 (sample_message 8) 9 fs1 = Inr (0, (sample_message 8)\<lparr>q_seqno := 10\<rparr>, 10, fs2)" "small_files 3 ''d'' fs2"
    using step [of 8 9, OF _ _ 1(2)] ok by auto
  have run: "command_run plain_env ?ops 5 ?cs 8 sample_fs = Inr (0, 10, fs2)" by (simp add: 1(1) 2(1))
  have empty: "file_data ''d'' sample_fs = Map.empty" by (auto simp: file_data_def fun_eq_iff sample_fs_def msg_path_def)
  have r: "file_roomy ''d'' fs2" using 2(2) by (simp add: small_files_def file_roomy_def)
  have n: "8 + length ?cs < PERSISTENCE_SEQNO_LIMIT" by (simp add: PERSISTENCE_SEQNO_LIMIT_def)
  have two: "publish_count (map fst ?cs) = 2" by (simp add: publish_count_def sample_message_def details_type_def)
  have "cl_elems \<lparr>cl_elems = [], cl_next = 0\<rparr> = []" by simp
  from commands_survive_restart [OF sample_fs_good empty pe(2,3,1) ok n run r this flushes_sound(1), of 3] obtain cl' n' qs where
    q: "MQTTAsync_restoreCommands plain_env (Some ?ops) 3 fs2 \<lparr>cl_elems = [], cl_next = 0\<rparr> 0 0 = Inr (0, cl', n', publish_count (map fst ?cs))"
    "map snd (cl_elems cl') = map Some qs" and all: "list_all2 (\<lambda>(c, ps) q. q_client q = 3 \<and> q_token q = q_token c \<and> q_details q = first_details 5 (q_details c) \<and>
      (details_type (q_details c) = PUBLISH \<or> (5::int) < 5 \<longrightarrow>
        (\<exists>c'. reread_command plain_env ?ops q fs2 = Inr (Some c') \<and> same_command 5 c ps c'))) ?cs qs" by (elim exE conjE)
  have "list_all2 (\<lambda>(c, ps) q. q_token q = q_token c) ?cs qs" using all by (rule list_all2_mono) auto
  then have "map q_token qs = [7, 8]" by (auto simp: list_all2_Cons1 sample_message_def)
  with q run show ?thesis unfolding two by (intro exI [of _ 10] exI [of _ fs2] exI [of _ cl'] exI [of _ n'] exI [of _ qs] conjI)
qed

section \<open>Other records in the store\<close>

text \<open>
  The index into the array counts all the keys, the entries are filled only for commands. A message in flight
  whose number is less than that of a queued command is enough to make the search read an entry that was
  never written.
\<close>

context reliable_store
begin

lemma restoreCommands_uninit:
  assumes "good_store s" "roomy s" "\<forall>n. alloc (pe_env pe) n" "stored_command pe v (holds_data s) (n, c, ps)"
    and "dom (holds_data s) = {key, command_key v n}" "\<not> is_command_key key" "key_number key = Inr j" "j < int n"
  shows "MQTTAsync_restoreCommands pe (Some ops) m s cl k buffered = Inl UninitRead"
proof -
  obtain ks where ks: "s_keys ops s = (0, ks)" using keys_work [OF assms(1,2)] by (metis prod.collapse)
  have kd: "distinct ks" "set ks = {key, command_key v n}" using keys_law [OF assms(1) ks] assms(5) by auto
  obtain bytes where b: "command_ok v c ps" "n < PERSISTENCE_SEQNO_LIMIT" "holds_data s (command_key v n) = Some bytes"
    "after_read pe bytes = (0, command_record v c ps)" using assms(4) by (auto simp: stored_command_def)
  note num = command_key_number [OF b(2), of v]
  have ne: "key \<noteq> command_key v n" using assms(6) command_key_stems(1) by metis
  then have len: "length ks = 2" using kd by (metis card_2_iff distinct_card)
  then obtain a b where ab: "ks = [a, b]" by (auto simp: length_Suc_conv numeral_2_eq_2)
  then have "ks = [key, command_key v n] \<or> ks = [command_key v n, key]" using kd ne by (auto simp: doubleton_eq_iff)
  then have srt: "sort_keys ks = Inr [key, command_key v n]" using num assms(7,8) by (auto simp: sort_keys_def cmpkeys_def)
  have "length (dec_str n) \<le> 6" using b(2) by (intro dec_str_length) (auto simp: PERSISTENCE_SEQNO_LIMIT_def)
  then have mal: "malloc_ok (alloc (pe_env pe)) (int (length (command_key v n)) + 1)" "malloc_ok (alloc (pe_env pe)) 48" "malloc_ok (alloc (pe_env pe)) 280"
    using malloc_small [OF assms(3)] by (simp_all add: command_key_def command_stem_def stem_defs)
  have "MQTTAsync_insertInOrder al q [Some x, None, None] (Suc (Suc 0)) cl1 = Inl UninitRead" for al q x cl1
    by (simp add: MQTTAsync_insertInOrder_def keyloc_place_def keyloc_at_def)
  then have "restore_command_key pe ops m s (Suc 0) (command_key v n) rs = Inl UninitRead" if "rs_keyloc rs = [Some x, None, None]" for rs x
    unfolding restore_command_key_def command_key_stems(2) restoreCommand_version
    using that command_key_stems(1) read_back_held [OF assms(1,2) b(3)] b(4) restoreCommand_first [OF b(1) assms(3)] num mal(1)
    by (simp add: Let_def)
  with ks len srt mal(2,3) assms(6) show ?thesis
    by (auto simp: MQTTAsync_restoreCommands_def restore_command_key_def numeral_2_eq_2 Let_def split: prod.splits)
qed

end

end
