(* ===== verification/Property_Types.thy ===== *)
theory Property_Types
  imports Mqtt_Properties
begin

text \<open>
  The types of received properties: whatever the bytes are, a property that was read carries the member of
  the union that the table of types names for its identifier, so that using it is defined.
\<close>

section \<open>Typed properties\<close>

text \<open>An identifier that is not in the table leaves the union unassigned. The lengths of strings are those of their data.\<close>

definition own_str :: "MQTTLenString \<Rightarrow> bool" where
  "own_str s \<longleftrightarrow> (case ls_data s of None \<Rightarrow> False | Some d \<Rightarrow> ls_len s = int (length d))"

fun typed_value :: "MQTTPropertyTypes option \<Rightarrow> prop_value \<Rightarrow> bool" where
  "typed_value None PUninit = True"
| "typed_value (Some TYPE_BYTE) (PByte b) = True"
| "typed_value (Some TYPE_TWO_BYTE_INTEGER) (PInt2 n) = True"
| "typed_value (Some TYPE_FOUR_BYTE_INTEGER) (PInt4 n) = True"
| "typed_value (Some TYPE_VARIABLE_BYTE_INTEGER) (PInt4 n) = True"
| "typed_value (Some TYPE_BINARY_DATA) (PStr d None) = own_str d"
| "typed_value (Some TYPE_UTF_8_ENCODED_STRING) (PStr d None) = own_str d"
| "typed_value (Some TYPE_UTF_8_STRING_PAIR) (PStr d (Some w)) = (own_str d \<and> own_str w)"
| "typed_value _ _ = False"

definition typed_prop :: "MQTTProperty \<Rightarrow> bool" where
  "typed_prop p \<longleftrightarrow> typed_value (MQTTProperty_getType (prop_id p)) (pvalue p)"

lemma read_string_own:
  assumes "read_string al buf p e = Inr (s, n, p')" "\<forall>n. al n"
  shows "own_str s"
proof -
  obtain n0 l0 d0 p0 where r0: "MQTTLenStringRead buf p e = Inr (n0, l0, d0, p0)" using assms(1) by (auto simp: read_string_def bindR_eq_Inr)
  obtain l d d' where r: "MQTTLenStringRead buf p e = Inr (n, Some l, Some d, p')" "s = \<lparr>ls_len = l, ls_data = d'\<rparr>"
    "datadup al \<lparr>ls_len = l, ls_data = Some d\<rparr> = Inr d'"
    using assms(1) r0 by (cases l0; cases d0) (auto simp: read_string_def bindR_eq_Inr)
  have byte: "uint b < 256" for b :: byte using uint_lt2p [of b] by simp
  have "256 * uint b + uint a < 65536" for a b :: byte using byte [of a] byte [of b] by linarith
  with r(1) have l: "0 \<le> l" "l < 65536" "int (length d) = l"
    by (auto simp: MQTTLenStringRead_def readInt_def bindR_eq_Inr guardR_eq_Inr split: if_splits)
  then have "malloc_ok al l" using assms(2) by (simp add: malloc_ok_def PTRDIFF_MAX_def)
  with r(2,3) l show ?thesis by (auto simp: datadup_def own_str_def guardR_eq_Inr split: if_splits)
qed

lemma MQTTProperty_read_typed:
  assumes "MQTTProperty_read al buf p e = Inr (pr, n, p')" "\<forall>n. al n"
  shows "typed_prop pr"
proof -
  obtain c q where c: "readChar buf p = Inr (c, q)" using assms(1) by (auto simp: MQTTProperty_read_def bindR_eq_Inr)
  show ?thesis
  proof (cases "MQTTProperty_getType (uint c)")
    case None
    with c assms(1) show ?thesis by (auto simp: MQTTProperty_read_def typed_prop_def)
  next
    case (Some t)
    with c assms show ?thesis
      by (cases t) (auto simp: MQTTProperty_read_def typed_prop_def bindR_eq_Inr dest: read_string_own)
  qed
qed

lemma read_props_error: "read_props al buf e r p props = Inr (Some err, props', p') \<Longrightarrow> err = PAHO_MEMORY_ERROR"
proof (induction al buf e r p props rule: read_props.induct)
  case (1 al buf e r p props)
  then show ?case
    by (subst (asm) (2) read_props.simps) (auto simp: Let_def bindR_eq_Inr guardR_eq_Inr split: if_splits option.splits)
qed

lemma read_grow_slots:
  assumes "slots props ps" "parray (read_grow al props) = Some xs"
  shows "slots (read_grow al props) ps \<and> pcount (read_grow al props) = pcount props"
proof (cases "pcount props = max_count props")
  case True
  with assms show ?thesis
    by (cases "parray props") (auto simp: slots_def read_grow_def Let_def resize_def split: if_splits)
qed (use assms in \<open>simp add: read_grow_def\<close>)

lemma read_props_typed:
  assumes "read_props al buf e r p props = Inr (None, props', p')" "\<forall>n. al n" "slots props ps" "list_all typed_prop ps"
  shows "\<exists>ps'. slots props' ps' \<and> list_all typed_prop ps'"
  using assms
proof (induction al buf e r p props arbitrary: ps rule: read_props.induct)
  case (1 al buf e r p props)
  show ?case
  proof (cases "r = 0")
    case True
    with "1.prems" show ?thesis by (auto simp: read_props.simps)
  next
    case False
    then obtain xs pr n p1 where x: "parray (read_grow al props) = Some xs" "nat (pcount (read_grow al props)) < length xs" "0 \<le> pcount (read_grow al props)"
      "MQTTProperty_read al buf p e = Inr (pr, n, p1)"
      "read_props al buf e (r - word_of_int n) p1 ((read_grow al props)\<lparr>parray := Some (xs[nat (pcount (read_grow al props)) := Some pr]),
         pcount := pcount (read_grow al props) + 1\<rparr>) = Inr (None, props', p')"
      using "1.prems"(1) by (subst (asm) read_props.simps) (auto simp: Let_def bindR_eq_Inr guardR_eq_Inr split: option.splits)
    have s: "slots (read_grow al props) ps" using read_grow_slots [OF "1.prems"(3) x(1)] by simp
    then have c: "pcount (read_grow al props) = int (length ps)" "take (length ps) xs = map Some ps" "int (length xs) = max_count (read_grow al props)"
      using x(1) by (simp_all add: slots_def)
    have "slots ((read_grow al props)\<lparr>parray := Some (xs[nat (pcount (read_grow al props)) := Some pr]), pcount := pcount (read_grow al props) + 1\<rparr>) (ps @ [pr])"
      using c x(2) take_update_snoc [OF c(2), of pr] by (simp add: slots_def)
    moreover have "list_all typed_prop (ps @ [pr])" using MQTTProperty_read_typed [OF x(4) "1.prems"(2)] "1.prems"(4) by simp
    ultimately show ?thesis
      using "1.IH" [OF False refl x(1) _ _ _ _ x(5) "1.prems"(2)] x(2-4) by blast
  qed
qed

section \<open>Using typed properties\<close>

lemma typed_write: "typed_prop p \<Longrightarrow> \<exists>rc bs. MQTTProperty_write p = Inr (rc, bs) \<and> 0 \<le> rc"
  unfolding typed_prop_def
  by (cases "(MQTTProperty_getType (prop_id p), pvalue p)" rule: typed_value.cases)
    (auto simp: MQTTProperty_write_def writeMQTTLenString_def own_str_def Let_def split: option.splits)

lemma typed_free: "typed_prop p \<Longrightarrow> free_value p = Inr ()"
  unfolding typed_prop_def
  by (cases "(MQTTProperty_getType (prop_id p), pvalue p)" rule: typed_value.cases) (auto simp: free_value_def)

lemma typed_numeric: "typed_prop p \<Longrightarrow> \<exists>n. numeric_value p = Inr n"
  unfolding typed_prop_def
  by (cases "(MQTTProperty_getType (prop_id p), pvalue p)" rule: typed_value.cases) (auto simp: numeric_value_def)

lemma typed_loops:
  assumes "slots props ps" "list_all typed_prop ps" "\<forall>i \<in> set is. i < length ps"
  shows "\<exists>rc bs. write_props props is len out = Inr (rc, bs)" "free_props props is = Inr ()" "\<exists>n. numeric_loop props propid ix is cur = Inr n"
proof -
  have at: "prop_at props i = Inr (ps ! i)" "typed_prop (ps ! i)" if "i < length ps" for i
    using that prop_at_slots [OF assms(1)] assms(2) by (auto simp: list_all_length)
  show "\<exists>rc bs. write_props props is len out = Inr (rc, bs)" using assms(3)
  proof (induction "is" arbitrary: len out)
    case (Cons i "is")
    then obtain rc bs where "MQTTProperty_write (ps ! i) = Inr (rc, bs)" "0 \<le> rc" using typed_write [OF at(2)] by force
    with Cons at(1) show ?case by simp
  qed simp
  show "free_props props is = Inr ()" using assms(3) by (induction "is") (auto simp: at typed_free)
  show "\<exists>n. numeric_loop props propid ix is cur = Inr n" using assms(3)
    by (induction "is" arbitrary: cur) (auto simp: at typed_numeric)
qed

text \<open>
  C8: received properties are typed. For any bytes, also ones a faulty or malicious peer sends, the properties
  that \<open>MQTTProperties_read\<close> returns as success fill the structure up to its count, and each carries the member
  of the union that belongs to its identifier. Writing them, freeing them and looking up a number in them
  then never reads a member that was not assigned.\<close>
theorem received_properties_typed:
  assumes "MQTTProperties_read al MQTTProperties_initializer buf p e = Inr (1, props, p')" and "\<forall>n. al n"
  shows "(\<exists>ps. slots props ps \<and> list_all typed_prop ps) \<and> (\<exists>rc bs. MQTTProperties_write (Some props) = Inr (rc, bs)) \<and>
    MQTTProperties_free props = Inr MQTTProperties_initializer \<and> (\<exists>n. MQTTProperties_getNumericValueAt props propid ix = Inr n)"
proof -
  obtain l r err where "read_props al buf e r (p + l) (MQTTProperties_initializer\<lparr>plength := sint r\<rparr>) = Inr (err, props, p')" "\<forall>x. err = Some x \<longrightarrow> x = 1"
    using assms(1) by (auto simp: MQTTProperties_read_def bindR_eq_Inr split: if_splits option.splits)
  then have "read_props al buf e r (p + l) (MQTTProperties_initializer\<lparr>plength := sint r\<rparr>) = Inr (None, props, p')"
    using read_props_error [of al buf e r "p + l" _ 1] by (cases err) (auto simp: PAHO_MEMORY_ERROR_def)
  moreover have "slots (MQTTProperties_initializer\<lparr>plength := sint r\<rparr>) []" by (simp add: slots_def MQTTProperties_initializer_def)
  ultimately obtain ps where ps: "slots props ps" "list_all typed_prop ps" using read_props_typed [OF _ assms(2)] by fastforce
  note loops = typed_loops [OF ps, of "[0 ..< length ps]"]
  show ?thesis
    using ps loops(1) [of 1 "MQTTPacket_encode (size_t (plength props))"] loops(2) loops(3) [of propid ix 0]
    by (auto simp: MQTTProperties_write_def MQTTProperties_free_def MQTTProperties_getNumericValueAt_def indices_slots [OF ps(1)])
qed

theorem received_properties_typed_witness:
  "\<exists>props. MQTTProperties_read (\<lambda>_. True) MQTTProperties_initializer [2, 1, 7] 0 3 = Inr (1, props, 3) \<and>
     (\<exists>n. MQTTProperties_getNumericValueAt props 1 0 = Inr n)"
proof -
  have "MQTTPacket_decodeBuf [2, 1, 7] 0 = Inr (1, 2)" by code_simp
  moreover have "MQTTProperty_read (\<lambda>_. True) [2, 1, 7] 1 3 = Inr (\<lparr>prop_id = 1, pvalue = PByte 7\<rparr>, 2, 3)" by code_simp
  ultimately have "\<exists>props. MQTTProperties_read (\<lambda>_. True) MQTTProperties_initializer [2, 1, 7] 0 3 = Inr (1, props, 3)"
    by (simp add: MQTTProperties_read_def read_props.simps [of _ _ _ 2] read_props.simps [of _ _ _ 0]
        read_grow_def MQTTProperties_initializer_def malloc_ok_def sizeof_MQTTProperty_def PTRDIFF_MAX_def)
  then show ?thesis using received_properties_typed by blast
qed

end
