(* ===== verification/Protocol_Out.thy ===== *)
theory Protocol_Out
  imports Packet_Restore Base64_Codec Socket_Io Protocol_Client
begin

text \<open>
  Setting up a connection: \<^verbatim>\<open>MQTTProtocolOut.c\<close>, and \<^verbatim>\<open>Socket_new\<close> of \<^verbatim>\<open>Socket.c\<close>. The address of a server is split into
  host and port, the user and password of an HTTP proxy are decoded and put into Base64, the socket is
  opened, and the \<^verbatim>\<open>CONNECT\<close> packet is sent. The operating system answers \<^verbatim>\<open>getaddrinfo\<close>, \<^verbatim>\<open>socket\<close> and \<^verbatim>\<open>connect\<close>; the
  handshakes of \<^verbatim>\<open>WebSocket.c\<close> are inputs too. The build has no TLS.
\<close>

section \<open>Addresses\<close>

definition strrchr :: "string \<Rightarrow> char \<Rightarrow> nat option" where
  "strrchr s c = map_option (\<lambda>i. length s - 1 - i) (strchr (rev s) c)"

text \<open>The position of the colon before the port; one inside the brackets of an IPv6 address is not.\<close>

definition port_colon :: "string \<Rightarrow> nat option" where
  "port_colon uri =
     (case strrchr uri CHR '':'' of
        None \<Rightarrow> None
      | Some c \<Rightarrow>
          if uri \<noteq> [] \<and> hd uri = CHR ''['' then
            (case strrchr uri CHR '']'' of None \<Rightarrow> Some c | Some b \<Rightarrow> if c < b then None else Some c)
          else Some c)"

text \<open>
  The length of the host, the port, and where the topic starts. The character before the end of the host is
  read without a check that there is one.
\<close>

definition MQTTProtocol_addressPort :: "string \<Rightarrow> int \<Rightarrow> (nat \<times> int \<times> nat option) res" where
  "MQTTProtocol_addressPort uri default_port =
     (let colon_pos = port_colon uri in
      bindR (case colon_pos of Some c \<Rightarrow> bindR (atoi (drop (c + 1) uri)) (\<lambda>port. Inr (c, port)) | None \<Rightarrow> Inr (length uri, default_port)) (\<lambda>(len, port).
        let start = (case colon_pos of Some c \<Rightarrow> c | None \<Rightarrow> 0);
            topic = map_option (\<lambda>i. start + i) (strchr (drop start uri) CHR ''/'') in
        guardR OverRead (0 < len) (Inr (if uri ! (len - 1) = CHR '']'' then len - 1 else len, port, topic))))"

section \<open>User and password of a proxy\<close>

definition hex_value :: "char \<Rightarrow> nat option" where
  "hex_value c =
     (let n = (of_char c :: nat) in
      if 48 \<le> n \<and> n \<le> 57 then Some (n - 48) else if 65 \<le> n \<and> n \<le> 70 then Some (n - 55) else if 97 \<le> n \<and> n \<le> 102 then Some (n - 87) else None)"

definition isxdigit :: "char \<Rightarrow> bool" where
  "isxdigit c \<longleftrightarrow> hex_value c \<noteq> None"

text \<open>The character given by two hexadecimal digits.\<close>

definition strtol16 :: "char \<Rightarrow> char \<Rightarrow> char" where
  "strtol16 a b = char_of (16 * the (hex_value a) + the (hex_value b))"

text \<open>
  \<open>p1\<close> is what is left to read, \<open>out\<close> what was written to the buffer of \<open>cap\<close> characters, \<open>len\<close> the unsigned counter.
  At a percent sign without two digits behind it no pointer is moved: the loop does not end.
\<close>

partial_function (option) special_loop :: "nat \<Rightarrow> string \<Rightarrow> string \<Rightarrow> nat \<Rightarrow> (string \<times> nat) res option" where
  "special_loop cap p1 out len =
     (case p1 of
        [] \<Rightarrow> Some (Inl OverRead)
      | c # rest \<Rightarrow>
          if c = CHR ''@'' then Some (guardR OverWrite (length out < cap) (Inr (out, len)))
          else if c \<noteq> CHR ''%'' then if length out < cap then special_loop cap rest (out @ [c]) len else Some (Inl OverWrite)
          else
            (case rest of
               a # b # rest2 \<Rightarrow>
                 if isxdigit a \<and> isxdigit b
                 then if length out < cap then special_loop cap rest2 (out @ [strtol16 a b]) (nat ((int len - 2) mod 2 ^ 32)) else Some (Inl OverWrite)
                 else special_loop cap p1 out len
             | _ \<Rightarrow> special_loop cap p1 out len))"

definition MQTTProtocol_specialChars :: "nat \<Rightarrow> string \<Rightarrow> nat \<Rightarrow> (string \<times> nat) res option" where
  "MQTTProtocol_specialChars cap p1 basic_auth_in_len = special_loop cap p1 [] basic_auth_in_len"

definition char_bytes :: "string \<Rightarrow> byte list" where
  "char_bytes s = map (\<lambda>c. word_of_nat (of_char c)) s"

text \<open>
  The value of the environment variable \<^verbatim>\<open>http_proxy\<close>: the code, the address of the proxy and the credentials.
\<close>

definition proxy_auth :: "(int \<Rightarrow> bool) \<Rightarrow> string \<Rightarrow> nat \<Rightarrow> nat \<Rightarrow> (int \<times> byte list option) res option" where
  "proxy_auth al p0 at start =
     (let in_len = nat ((int at + 1 - int start) mod 2 ^ 32) in
      if length p0 < start then Some (Inl OverRead)
      else if \<not> malloc_ok al (int in_len) then Some (Inr (PAHO_MEMORY_ERROR, None))
      else
        (case MQTTProtocol_specialChars in_len (drop start p0) (nat ((int in_len - 1) mod 2 ^ 32)) of
           None \<Rightarrow> None
         | Some (Inl f) \<Rightarrow> Some (Inl f)
         | Some (Inr (out, in_len1)) \<Rightarrow>
             let out_len = Base64_encodeLength in_len1; basic_auth = char_bytes out @ [0] in
             if \<not> malloc_ok al (int out_len) then Some (Inr (PAHO_MEMORY_ERROR, None))
             else
               Some (guardR UninitRead (in_len1 \<le> length basic_auth)
                 (bindR (Base64_encode out_len (take in_len1 basic_auth)) (\<lambda>(_, chars). Inr (0, Some chars))))))"

definition set_proxy :: "(int \<Rightarrow> bool) \<Rightarrow> string \<Rightarrow> (int \<times> string option \<times> byte list option) res option" where
  "set_proxy al p0 =
     (case strchr p0 CHR ''@'' of
        Some at \<Rightarrow>
          (case strchr p0 CHR '':'' of
             None \<Rightarrow> Some (Inl NullDeref)
           | Some colon \<Rightarrow>
               (case proxy_auth al p0 at (colon + 3) of
                  None \<Rightarrow> None
                | Some (Inl f) \<Rightarrow> Some (Inl f)
                | Some (Inr (rc, auth)) \<Rightarrow> Some (Inr (rc, Some (drop (at + 1) p0), auth))))
      | None \<Rightarrow>
          (case strchr p0 CHR '':'' of
             None \<Rightarrow> Some (Inr (0, None, None))
           | Some colon \<Rightarrow> Some (guardR OverRead (colon + 3 \<le> length p0) (Inr (0, Some (drop (colon + 3) p0), None)))))"

section \<open>Opening a socket\<close>

definition AF_INET :: int where "AF_INET = 2"
definition AF_INET6 :: int where "AF_INET6 = 10"
definition EINPROGRESS :: int where "EINPROGRESS = 115"

text \<open>
  What the operating system answers: the families of the addresses of a host, the new descriptor, whether it
  could be made non-blocking, and the result of \<^verbatim>\<open>connect\<close>, an error number or 0.
\<close>

record os_net =
  getaddrinfo :: "string \<Rightarrow> int \<times> int list"
  new_descriptor :: int
  socket_errno :: int
  setnonblocking :: int
  connect_errno :: "int \<Rightarrow> string \<Rightarrow> int \<Rightarrow> int"

fun prefer_ip4 :: "int list \<Rightarrow> int option" where
  "prefer_ip4 [] = None"
| "prefer_ip4 (f # fs) = (if f = AF_INET \<or> fs = [] then Some f else prefer_ip4 fs)"

text \<open>The host name given to \<^verbatim>\<open>getaddrinfo\<close>, without the bracket of an IPv6 address.\<close>

definition host_name :: "string \<Rightarrow> nat \<Rightarrow> string res" where
  "host_name addr addr_len =
     (if addr \<noteq> [] \<and> hd addr = CHR ''['' then guardR OverRead (0 < addr_len \<and> addr_len \<le> length addr) (Inr (take (addr_len - 1) (tl addr)))
      else guardR OverRead (addr_len \<le> length addr) (Inr (take addr_len addr)))"

text \<open>
  The code, the socket and the state of the socket layer. If there is no memory to remember a connection
  that is pending, its socket stays open.
\<close>

definition Socket_new :: "os_net \<Rightarrow> (int \<Rightarrow> bool) \<Rightarrow> string \<Rightarrow> nat \<Rightarrow> int \<Rightarrow> sockets \<Rightarrow> (int \<times> int \<times> sockets) res" where
  "Socket_new os al addr addr_len port st =
     bindR (host_name addr addr_len) (\<lambda>host.
       if \<not> malloc_ok al (int (length host) + 1) then Inr (PAHO_MEMORY_ERROR, - 1, st)
       else
         let (rc0, families) = getaddrinfo os host;
             rc1 = (if rc0 \<noteq> 0 then rc0
                    else case prefer_ip4 families of None \<Rightarrow> - 1 | Some f \<Rightarrow> if f = AF_INET \<or> f = AF_INET6 then 0 else - 1) in
         if rc1 \<noteq> 0 then Inr (rc1, - 1, st)
         else if new_descriptor os = - 1 then Inr (socket_errno os, - 1, st)
         else
           let sock = new_descriptor os; family = the (prefer_ip4 families); (added, st1) = Socket_addSocket al (setnonblocking os) sock st;
               rc = (if added = SOCKET_ERROR then socket_errno os else connect_errno os family host port) in
           if added \<noteq> SOCKET_ERROR \<and> (rc = EINPROGRESS \<or> rc = EWOULDBLOCK) then
             if malloc_ok al 4 \<and> malloc_ok al 24 then Inr (rc, sock, st1\<lparr>connect_pending := connect_pending st1 @ [sock]\<rparr>)
             else Inr (PAHO_MEMORY_ERROR, sock, st1)
           else if rc \<noteq> 0 \<and> rc \<noteq> EINPROGRESS \<and> rc \<noteq> EWOULDBLOCK then bindR (Socket_close sock st1) (\<lambda>st2. Inr (rc, - 1, st2))
           else Inr (rc, sock, st1))"

section \<open>Connecting\<close>

definition MQTT_DEFAULT_PORT :: int where "MQTT_DEFAULT_PORT = 1883"
definition WS_DEFAULT_PORT :: int where "WS_DEFAULT_PORT = 80"
definition TCP_IN_PROGRESS :: int where "TCP_IN_PROGRESS = 1"
definition WEBSOCKET_IN_PROGRESS :: int where "WEBSOCKET_IN_PROGRESS = 3"
definition WAIT_FOR_CONNACK :: int where "WAIT_FOR_CONNACK = 4"
definition PROXY_CONNECT_IN_PROGRESS :: int where "PROXY_CONNECT_IN_PROGRESS = 5"

text \<open>The parts of the client that connecting changes, with the state of the socket layer.\<close>

record connecting =
  cg_client :: Clients
  cg_state :: int
  cg_proxy :: "string option"
  cg_auth :: "byte list option"
  cg_sockets :: sockets

text \<open>The handshakes: each sends and receives on the connection of the client.\<close>

record handshakes =
  ws_proxy_connect :: "Clients \<Rightarrow> string \<Rightarrow> int \<times> Clients"
  ws_connect :: "Clients \<Rightarrow> string \<Rightarrow> int \<times> Clients"

definition open_socket :: "os_net \<Rightarrow> (int \<Rightarrow> bool) \<Rightarrow> string \<Rightarrow> int \<Rightarrow> int \<Rightarrow> connecting \<Rightarrow> (int \<times> connecting) res" where
  "open_socket os al addr default_port timeout g =
     bindR (MQTTProtocol_addressPort addr default_port) (\<lambda>(addr_len, port, _).
       if timeout < 0 then Inr (- 1, g)
       else bindR (Socket_new os al addr addr_len port (cg_sockets g)) (\<lambda>(rc, sock, st).
         Inr (rc, g\<lparr>cg_client := (cg_client g)\<lparr>socket := sock\<rparr>, cg_sockets := st\<rparr>)))"

text \<open>What follows when the TCP connection is there at once.\<close>

definition start_session ::
  "handshakes \<Rightarrow> (int \<Rightarrow> bool) \<Rightarrow> string \<Rightarrow> bool \<Rightarrow> int \<Rightarrow> MQTTProperties option \<Rightarrow> MQTTProperties option \<Rightarrow> connecting \<Rightarrow> (int \<times> connecting) res" where
  "start_session hs al ip_address websocket version connectProps willProps g =
     (let (rc1, g1) = (if websocket \<and> cg_proxy g \<noteq> None
                       then let (rc, c) = ws_proxy_connect hs (cg_client g) ip_address in (rc, g\<lparr>cg_client := c, cg_state := PROXY_CONNECT_IN_PROGRESS\<rparr>)
                       else (0, g));
          (rc2, g2) = (if websocket
                       then let (rc, c) = ws_connect hs (cg_client g1) ip_address in
                            (rc, g1\<lparr>cg_client := c, cg_state := (if rc = TCPSOCKET_INTERRUPTED then WEBSOCKET_IN_PROGRESS else cg_state g1)\<rparr>)
                       else (rc1, g1)) in
      if rc2 = 0 then
        bindR (MQTTPacket_send_connect al (conn_client.truncate (cg_client g2)) version connectProps willProps (cnet (cg_client g2))) (\<lambda>(rc, n).
          Inr (rc, g2\<lparr>cg_client := (cg_client g2)\<lparr>cnet := n\<rparr>, cg_state := (if rc = 0 then WAIT_FOR_CONNACK else 0)\<rparr>))
      else Inr (rc2, g2))"

definition MQTTProtocol_connect ::
  "os_net \<Rightarrow> handshakes \<Rightarrow> (int \<Rightarrow> bool) \<Rightarrow> string option \<Rightarrow> string \<Rightarrow> bool \<Rightarrow> int \<Rightarrow> MQTTProperties option \<Rightarrow> MQTTProperties option \<Rightarrow> int
    \<Rightarrow> connecting \<Rightarrow> (int \<times> connecting) res option" where
  "MQTTProtocol_connect os hs al http_proxy ip_address websocket version connectProps willProps timeout g0 =
     (let g = g0\<lparr>cg_client := (cg_client g0)\<lparr>good := True\<rparr>, cg_proxy := None, cg_auth := None\<rparr> in
      case (case http_proxy of None \<Rightarrow> Some (Inr (0, None, None)) | Some p0 \<Rightarrow> set_proxy al p0) of
        None \<Rightarrow> None
      | Some (Inl f) \<Rightarrow> Some (Inl f)
      | Some (Inr (rc, proxy, auth)) \<Rightarrow>
          let g1 = g\<lparr>cg_proxy := proxy, cg_auth := auth\<rparr> in
          if rc \<noteq> 0 then Some (Inr (rc, g1))
          else
            Some (bindR (case (websocket, proxy) of
                           (True, Some p) \<Rightarrow> open_socket os al p WS_DEFAULT_PORT timeout g1
                         | _ \<Rightarrow> open_socket os al ip_address MQTT_DEFAULT_PORT timeout g1) (\<lambda>(rc, g2).
              if rc = EINPROGRESS \<or> rc = EWOULDBLOCK then Inr (rc, g2\<lparr>cg_state := TCP_IN_PROGRESS\<rparr>)
              else if rc = 0 then start_session hs al ip_address websocket version connectProps willProps g2
              else Inr (rc, g2))))"

section \<open>Answers of the server\<close>

text \<open>The handlers for the client that was found by its socket.\<close>

definition MQTTProtocol_handlePingresps :: "Clients \<Rightarrow> int \<times> Clients" where
  "MQTTProtocol_handlePingresps c = (TCPSOCKET_COMPLETE, c\<lparr>ping_outstanding := False\<rparr>)"

definition MQTTProtocol_handleSubacks :: "Suback \<Rightarrow> int res" where
  "MQTTProtocol_handleSubacks pack = bindR (MQTTPacket_freeSuback pack) (\<lambda>_. Inr TCPSOCKET_COMPLETE)"

definition MQTTProtocol_handleUnsubacks :: "Unsuback \<Rightarrow> int res" where
  "MQTTProtocol_handleUnsubacks pack = bindR (MQTTPacket_freeUnsuback pack) (\<lambda>_. Inr TCPSOCKET_COMPLETE)"

end
