(* ===== verification/Connect_Setup.thy ===== *)
theory Connect_Setup
  imports Protocol_Out
begin

text \<open>
  What setting up a connection does with the addresses it is given: host names and ports are found, the
  credentials of a proxy are decoded, and for which ones the decoding never ends.
\<close>

section \<open>Addresses\<close>

lemma strrchr_last: "c \<notin> set ys \<Longrightarrow> strrchr (xs @ c # ys) c = Some (length xs)"
  by (simp add: strrchr_def strchr_append)

lemma strrchr_none: "c \<notin> set s \<Longrightarrow> strrchr s c = None"
  using strchr_None [of "rev s" c] by (simp add: strrchr_def)

lemma digits_no_marks: "c \<in> set (dec_str n) \<Longrightarrow> c \<noteq> CHR '':'' \<and> c \<noteq> CHR ''/'' \<and> c \<noteq> CHR '']''"
  using dec_str_digits [of n] by (auto simp: list_all_iff is_digit_def)

text \<open>
  The address of a server is taken apart as it is written. For a host name or an IPv4 address the name
  that is resolved and the port are those before and behind the colon; for an IPv6 address they are what
  stands in the brackets and the number behind them; without a number the port is the default.\<close>
lemma address_parsed:
  assumes "host \<noteq> []" and "set host \<inter> {CHR '':'', CHR ''['', CHR '']''} = {}" and "ip6 \<noteq> []" and "CHR '']'' \<notin> set ip6" and "port < 2 ^ 31"
  defines "by_name \<equiv> host @ '':'' @ dec_str port" and "by_ip6 \<equiv> ''['' @ ip6 @ '']:'' @ dec_str port" and "only_ip6 \<equiv> ''['' @ ip6 @ '']''"
  shows "(\<exists>len. MQTTProtocol_addressPort by_name d = Inr (len, int port, None) \<and> host_name by_name len = Inr host) \<and>
    (\<exists>len topic. MQTTProtocol_addressPort host d = Inr (len, d, topic) \<and> host_name host len = Inr host) \<and>
    (\<exists>len. MQTTProtocol_addressPort by_ip6 d = Inr (len, int port, None) \<and> host_name by_ip6 len = Inr ip6) \<and>
    (\<exists>len topic. MQTTProtocol_addressPort only_ip6 d = Inr (len, d, topic) \<and> host_name only_ip6 len = Inr ip6)"
proof (intro conjI)
  have digits: "CHR '':'' \<notin> set (dec_str port)" "CHR ''/'' \<notin> set (dec_str port)" "CHR '']'' \<notin> set (dec_str port)" using digits_no_marks by blast+
  have topic: "strchr (CHR '':'' # dec_str port) CHR ''/'' = None" using digits(2) by (simp add: strchr_None)
  have sep: "c \<noteq> CHR '':'' \<and> c \<noteq> CHR ''['' \<and> c \<noteq> CHR '']''" if "c \<in> set host" for c using that assms(2) by auto
  have no: "CHR '':'' \<notin> set host" "hd host \<noteq> CHR ''[''" "host ! (length host - 1) \<noteq> CHR '']''" "0 < length host"
    using sep [OF last_in_set [OF assms(1)]] sep [OF hd_in_set [OF assms(1)]] sep assms(1) by (auto simp: last_conv_nth [OF assms(1)])
  have hd_host: "hd (host @ x) = hd host" for x using assms(1) by simp
  have n: "(host @ x) ! (length host - 1) = host ! (length host - 1)" for x using no(4) by (simp add: nth_append)
  have "port_colon by_name = Some (length host)"
    using strrchr_last [OF digits(1), of host] no(2) hd_host by (simp add: port_colon_def by_name_def)
  then show "\<exists>len. MQTTProtocol_addressPort by_name d = Inr (len, int port, None) \<and> host_name by_name len = Inr host"
    using atoi_dec [OF assms(5)] topic no n hd_host by (simp add: MQTTProtocol_addressPort_def by_name_def host_name_def)
  have "port_colon host = None" using strrchr_none [OF no(1)] by (simp add: port_colon_def)
  then show "\<exists>len topic. MQTTProtocol_addressPort host d = Inr (len, d, topic) \<and> host_name host len = Inr host"
    using no by (simp add: MQTTProtocol_addressPort_def host_name_def)
  have b: "strrchr by_ip6 CHR '']'' = Some (length ip6 + 1)" "strrchr only_ip6 CHR '']'' = Some (length ip6 + 1)"
    using strrchr_last [of "CHR '']''" "CHR '':'' # dec_str port" "CHR ''['' # ip6"] strrchr_last [of "CHR '']''" "[]" "CHR ''['' # ip6"] digits(3)
    by (simp_all add: by_ip6_def only_ip6_def)
  have "strrchr by_ip6 CHR '':'' = Some (length ip6 + 2)"
    using strrchr_last [OF digits(1), of "CHR ''['' # ip6 @ '']''"] by (simp add: by_ip6_def)
  then have "port_colon by_ip6 = Some (length ip6 + 2)" using b(1) by (simp add: port_colon_def)
  then show "\<exists>len. MQTTProtocol_addressPort by_ip6 d = Inr (len, int port, None) \<and> host_name by_ip6 len = Inr ip6"
    using atoi_dec [OF assms(5)] topic by (simp add: MQTTProtocol_addressPort_def by_ip6_def host_name_def nth_append)
  have "c < length ip6 + 1" if "strrchr only_ip6 CHR '':'' = Some c" for c
  proof -
    have "strchr (rev only_ip6) CHR '':'' \<noteq> Some 0" by (simp add: only_ip6_def)
    with that show ?thesis by (auto simp: strrchr_def only_ip6_def split: if_splits)
  qed
  then have "port_colon only_ip6 = None" using b(2) by (auto simp: port_colon_def only_ip6_def split: option.splits)
  then show "\<exists>len topic. MQTTProtocol_addressPort only_ip6 d = Inr (len, d, topic) \<and> host_name only_ip6 len = Inr ip6"
    by (simp add: MQTTProtocol_addressPort_def host_name_def only_ip6_def nth_append)
qed

section \<open>Percent signs\<close>

text \<open>The meaning of escaped text, if every percent sign has two digits.\<close>

fun unescape :: "string \<Rightarrow> string option" where
  "unescape [] = Some []"
| "unescape (c # cs) =
     (if c \<noteq> CHR ''%'' then map_option (Cons c) (unescape cs)
      else case cs of a # b # rest \<Rightarrow> if isxdigit a \<and> isxdigit b then map_option (Cons (strtol16 a b)) (unescape rest) else None | _ \<Rightarrow> None)"

lemma unescape_length: "unescape u = Some t \<Longrightarrow> length t \<le> length u"
proof (induction u arbitrary: t rule: unescape.induct)
  case (2 c cs)
  then show ?case by (fastforce split: if_splits list.splits)
qed simp

lemma special_loop_stuck:
  assumes "special_loop cap p1 out len = Some r"
  shows "\<forall>u rest. p1 = u @ CHR ''@'' # rest \<longrightarrow> CHR ''@'' \<notin> set u \<longrightarrow> length out + length u < cap \<longrightarrow> unescape u \<noteq> None"
proof (rule special_loop.raw_induct [where P = "\<lambda>cap p1 out len r. \<forall>u rest. p1 = u @ CHR ''@'' # rest \<longrightarrow> CHR ''@'' \<notin> set u \<longrightarrow>
    length out + length u < cap \<longrightarrow> unescape u \<noteq> None", OF _ assms], goal_cases)
  case (1 f cap p1 out len r)
  show ?case
  proof (intro allI impI)
    fix u rest
    assume u: "p1 = u @ CHR ''@'' # rest" "CHR ''@'' \<notin> set u" "length out + length u < cap"
    show "unescape u \<noteq> None"
    proof (cases u)
      case (Cons c cs)
      show ?thesis
      proof (cases "c = CHR ''%''")
        case False
        then have "f cap (cs @ CHR ''@'' # rest) (out @ [c]) len = Some r" using 1(2) u Cons by (simp add: split: if_splits)
        from 1(1) [OF this, rule_format, OF refl] u Cons False show ?thesis by simp
      next
        case True
        have "f cap p1 out len = Some r \<Longrightarrow> ?thesis" using 1(1) u by blast
        moreover {
          fix a b r2 assume ab: "cs @ CHR ''@'' # rest = a # b # r2" "isxdigit a" "isxdigit b"
          then have "a \<noteq> CHR ''@''" "b \<noteq> CHR ''@''" by (auto simp: isxdigit_def hex_value_def)
          then obtain ds where ds: "cs = a # b # ds" "r2 = ds @ CHR ''@'' # rest" using ab(1) by (cases cs; cases "tl cs") auto
          then have "f cap r2 (out @ [strtol16 a b]) (nat ((int len - 2) mod 2 ^ 32)) = Some r" using 1(2) u Cons True ab by (simp split: if_splits)
          from 1(1) [OF this, rule_format, OF ds(2)] u Cons True ab ds have ?thesis by simp }
        ultimately show ?thesis using 1(2) u Cons True by (auto split: list.splits if_splits)
      qed
    qed simp
  qed
qed

lemma special_loop_result:
  assumes "unescape u = Some t" "CHR ''@'' \<notin> set u" "length out + length u < cap" "length u \<le> len" "len < 2 ^ 32"
  shows "special_loop cap (u @ CHR ''@'' # rest) out len = Some (Inr (out @ t, len - (length u - length t)))"
  using assms
proof (induction u arbitrary: t out len rule: unescape.induct)
  case 1
  then show ?case by (subst special_loop.simps) simp
next
  case (2 c cs)
  show ?case
  proof (cases "c = CHR ''%''")
    case False
    then obtain t' where t': "unescape cs = Some t'" "t = c # t'" using "2.prems"(1) by auto
    from "2.IH"(1) [OF False t'(1), of "out @ [c]" len] "2.prems" False t'(2) show ?thesis
      by (subst special_loop.simps) auto
  next
    case True
    then obtain a b ds t' where d: "cs = a # b # ds" "isxdigit a" "isxdigit b" "unescape ds = Some t'" "t = strtol16 a b # t'"
      using "2.prems"(1) by (auto split: list.splits if_splits)
    have n: "nat ((int len - 2) mod 2 ^ 32) = len - 2"
      using "2.prems"(4,5) d(1) by (simp add: mod_pos_pos_trivial nat_diff_distrib)
    have "length t' \<le> length ds" using unescape_length d(4) by blast
    then have l: "len - 2 - (length ds - length t') = len - (length (c # cs) - length t)" using d by simp
    have "\<not> c \<noteq> CHR ''%''" using True by simp
    from "2.IH"(2) [OF this d(1) refl _ d(4), of "out @ [strtol16 a b]" "len - 2"] "2.prems" d n l True show ?thesis
      by (subst special_loop.simps) simp
  qed
qed

text \<open>
  C39: decoding the credentials of a proxy ends exactly for well-formed ones. Let \<open>u\<close> be the text before the
  \<open>@\<close> sign, in a buffer of its size. If every percent sign in it is followed by two hexadecimal digits, \<open>MQTTProtocol_specialChars\<close>
  returns the decoded text with its length. If not, it never returns.\<close>
theorem specialChars_returns:
  assumes "CHR ''@'' \<notin> set u" and "length u < cap" and "length u < 2 ^ 32"
  shows "MQTTProtocol_specialChars cap (u @ CHR ''@'' # rest) (length u) =
    (case unescape u of None \<Rightarrow> None | Some t \<Rightarrow> Some (Inr (t, length t)))"
proof (cases "unescape u")
  case None
  then show ?thesis using special_loop_stuck assms(1,2) unfolding MQTTProtocol_specialChars_def by (cases "special_loop cap (u @ CHR ''@'' # rest) [] (length u)") force+
next
  case (Some t)
  with special_loop_result [OF Some assms(1), of "[]" cap "length u"] assms unescape_length [OF Some] show ?thesis
    by (simp add: MQTTProtocol_specialChars_def)
qed

theorem specialChars_returns_witness:
  "MQTTProtocol_specialChars 9 ''a%40b:c%@proxy'' 8 = None \<and> MQTTProtocol_specialChars 9 ''a%40b:cd@proxy'' 8 = Some (Inr (''a@b:cd'', 6))"
proof -
  have u: "unescape ''a%40b:c%'' = None" "unescape ''a%40b:cd'' = Some ''a@b:cd''" by code_simp+
  have l: "length ''a%40b:c%'' = 8" "length ''a%40b:cd'' = 8" "length ''a@b:cd'' = 6" by simp_all
  have "MQTTProtocol_specialChars 9 (''a%40b:c%'' @ CHR ''@'' # ''proxy'') (length ''a%40b:c%'') = None"
    by (subst specialChars_returns) (simp_all only: u option.case, simp_all)
  moreover have "MQTTProtocol_specialChars 9 (''a%40b:cd'' @ CHR ''@'' # ''proxy'') (length ''a%40b:cd'') = Some (Inr (''a@b:cd'', length ''a@b:cd''))"
    by (subst specialChars_returns) (simp_all only: u option.case, simp_all)
  ultimately show ?thesis unfolding l by simp
qed

section \<open>The proxy\<close>

text \<open>
  The address of a proxy with credentials: the host behind the \<open>@\<close> sign, and the Base64 form of the decoded
  credentials. It fills the buffer, so that no null character ends the string.
\<close>

lemma proxy_set:
  assumes "CHR ''@'' \<notin> set scheme" "CHR '':'' \<notin> set scheme" "CHR ''@'' \<notin> set u" "unescape u = Some t" "length u < 2 ^ 29" "\<forall>n. al n"
  shows "set_proxy al (scheme @ ''://'' @ u @ ''@'' @ host) = Some (Inr (0, Some host, Some (encoded64 (char_bytes t)))) \<and>
    length (encoded64 (char_bytes t)) = Base64_encodeLength (length t)"
proof -
  let ?p = "scheme @ ''://'' @ u @ ''@'' @ host" and ?at = "length scheme + 3 + length u"
  have at: "strchr ?p CHR ''@'' = Some ?at" using strchr_append [of "CHR ''@''" "scheme @ ''://'' @ u" host] assms(1,3) by simp
  have col: "strchr ?p CHR '':'' = Some (length scheme)" using strchr_append [of "CHR '':''" scheme "''//'' @ u @ ''@'' @ host"] assms(2) by simp
  have tl: "length t \<le> length u" using unescape_length [OF assms(4)] .
  have il: "nat ((int ?at + 1 - int (length scheme + 3)) mod 2 ^ 32) = length u + 1" "nat ((int (length u + 1) - 1) mod 2 ^ 32) = length u"
    using assms(5) by (simp_all add: mod_pos_pos_trivial)
  have sc: "MQTTProtocol_specialChars (length u + 1) (u @ CHR ''@'' # host) (length u) = Some (Inr (t, length t))"
    using special_loop_result [OF assms(4,3), of "[]" "length u + 1" "length u" host] tl assms(5) by (simp add: MQTTProtocol_specialChars_def)
  have len: "length (char_bytes t) = length t" by (simp add: char_bytes_def)
  have e: "Base64_encodeLength (length t) = (length t + 2) div 3 * 4" using encodeLength_eq tl assms(5) by simp
  have enc: "Base64_encode (Base64_encodeLength (length t)) (char_bytes t) = Inr (length (encoded64 (char_bytes t)), encoded64 (char_bytes t))"
    using encode_loop_encoded64 [of 0 "char_bytes t" "Base64_encodeLength (length t)" "[]"] by (simp add: Base64_encode_def encoded64_length len e)
  have mal: "malloc_ok al (int (length u + 1))" "malloc_ok al (int (Base64_encodeLength (length t)))"
    unfolding e using tl assms(5) by (auto intro!: malloc_small [OF assms(6)])
  have d: "drop (length scheme + 3) ?p = u @ CHR ''@'' # host" "drop (?at + 1) ?p = host"
    by (simp_all add: drop_Cons' numeral_eq_Suc)
  have "proxy_auth al ?p ?at (length scheme + 3) = Some (Inr (0, Some (encoded64 (char_bytes t))))"
    unfolding proxy_auth_def il d sc Let_def using mal enc len by simp
  with at col d(2) show ?thesis by (simp add: set_proxy_def encoded64_length len e)
qed

end
