(* ===== verification/Async_Receive.thy ===== *)
theory Async_Receive
  imports Async_Process Protocol_Out
begin

text \<open>
  The receiving side of \<^verbatim>\<open>MQTTAsync.c\<close>: \<^verbatim>\<open>MQTTAsync_cycle\<close> with \<^verbatim>\<open>MQTTAsync_connecting\<close> and \<^verbatim>\<open>MQTTAsync_retry\<close>, one round of
  \<^verbatim>\<open>MQTTAsync_receiveThread\<close> with \<^verbatim>\<open>MQTTAsync_completeConnection\<close>, \<^verbatim>\<open>MQTTAsync_writeComplete\<close> and
  \<^verbatim>\<open>MQTTAsync_checkTimeouts\<close>. The threads hold the lock of the library in these, so they are steps on one state; a
  round of the receiving thread is two of them.
  Inputs: the socket that is ready, the packet \<^verbatim>\<open>MQTTPacket_Factory\<close> returns for it, clocks, and what the
  application's functions return. The clients have no persistence, and the build has no TLS.
\<close>

section \<open>State\<close>

text \<open>
  Which callbacks are set, and what \<^verbatim>\<open>MQTTAsync_connect\<close> stored for the connection. \<open>live\<close> is the list of the
  clients in the order of \<^verbatim>\<open>handles\<close>.
\<close>

record client_conf =
  ma_set :: bool
  dc_set :: bool
  connected_set :: bool
  disconnected_set :: bool
  connectTimeout :: int
  connectProps :: "MQTTProperties option"
  willProps :: "MQTTProperties option"

record recv_world = async_world +
  live :: "nat list"
  conf :: "nat \<Rightarrow> client_conf"
  last_retry :: int
  last_check :: int
  retryLoopInterval :: int

text \<open>
  \<open>takes\<close>: the application takes a queued message. \<open>so_error\<close>: the result of \<^verbatim>\<open>getsockopt\<close> for a connection.
  \<open>ws\<close>, \<open>upgrade\<close>: the handshakes of \<^verbatim>\<open>WebSocket.c\<close>. \<open>updateConnectOptions\<close>: the callback for new credentials, if it is set:
  its code, the user name and the password with its length, each if its pointer was changed. \<open>reused\<close>: the command that waits
  for its response at the address of one that was freed, if there is one.
\<close>

record recv_env = process_env +
  takes :: bool
  so_error :: int
  ws :: handshakes
  proxied :: bool
  upgrade :: "Clients \<Rightarrow> int \<times> Clients"
  reused :: "nat option"
  updateConnectOptions :: "nat \<Rightarrow> (Clients \<Rightarrow> int \<times> byte list option option \<times> (byte list option \<times> int) option) option"

definition pe_of :: "recv_env \<Rightarrow> process_env" where
  "pe_of e = process_env.truncate e"

text \<open>A step of the sending side, on the part of the state it knows.\<close>

definition on_world :: "(async_world \<Rightarrow> async_world res option) \<Rightarrow> recv_world \<Rightarrow> recv_world res option" where
  "on_world f w =
     bindO (f (async_world.truncate w)) (\<lambda>v. Some (Inr (w\<lparr>aq := aq v, proto := proto v, told := told v, shut := shut v, dialled := dialled v\<rparr>)))"

definition client_of :: "recv_world \<Rightarrow> nat \<Rightarrow> MQTTAsyncs" where
  "client_of w m = handles (aq w) m"

definition put_client :: "nat \<Rightarrow> MQTTAsyncs \<Rightarrow> recv_world \<Rightarrow> recv_world" where
  "put_client m h w = w\<lparr>aq := update_handle m (\<lambda>_. h) (aq w)\<rparr>"

definition notify :: "told list \<Rightarrow> recv_world \<Rightarrow> recv_world" where
  "notify ts w = w\<lparr>told := told w @ ts\<rparr>"

definition clientSockCompare :: "recv_world \<Rightarrow> nat \<Rightarrow> int \<Rightarrow> bool" where
  "clientSockCompare w m sock \<longleftrightarrow> socket (m_c (client_of w m)) = sock"

definition find_sock :: "int \<Rightarrow> recv_world \<Rightarrow> nat option" where
  "find_sock sock w = find (\<lambda>m. clientSockCompare w m sock) (live w)"

section \<open>Keep alive and retries\<close>

text \<open>\<^verbatim>\<open>MQTTProtocol_closeSession\<close> queues a disconnection.\<close>

definition MQTTProtocol_closeSession :: "recv_env \<Rightarrow> nat \<Rightarrow> recv_world \<Rightarrow> recv_world res" where
  "MQTTProtocol_closeSession e m w = bindR (MQTTAsync_disconnect_internal (pq e) (Some m) 0 (aq w)) (\<lambda>(_, st). Inr (w\<lparr>aq := st\<rparr>))"

text \<open>
  One client of \<^verbatim>\<open>MQTTProtocol_keepalive\<close>; the function that is passed marks the client whose session is to be closed.
\<close>

definition keepalive_one :: "recv_env \<Rightarrow> nat \<Rightarrow> recv_world \<Rightarrow> recv_world res" where
  "keepalive_one e m w =
     (let h = client_of w m; c = m_c h in
      bindR (keepalive_client (pp e) (\<lambda>c. c\<lparr>good := \<not> good c\<rparr>) c) (\<lambda>c1.
        let w1 = put_client m (h\<lparr>m_c := c1\<lparr>good := good c\<rparr>\<rparr>) w in
        if good c1 \<noteq> good c then MQTTProtocol_closeSession e m w1 else Inr w1))"

text \<open>One client of \<^verbatim>\<open>MQTTProtocol_retry\<close>. A failed retransmission clears \<^verbatim>\<open>good\<close> before it closes the session.\<close>

definition retry_one :: "recv_env \<Rightarrow> bool \<Rightarrow> bool \<Rightarrow> nat \<Rightarrow> recv_world \<Rightarrow> recv_world res" where
  "retry_one e doRetry regardless m w =
     (let h = client_of w m; c = m_c h in
      if \<not> connected c then Inr w
      else if \<not> good c then MQTTProtocol_closeSession e m w
      else if \<not> noPendingWrites (pp e) (socket c) 0 \<or> \<not> doRetry then Inr w
      else
        bindR (MQTTProtocol_retries (pp e) (\<lambda>c. c) regardless c (proto w)) (\<lambda>c1.
          let w1 = put_client m (h\<lparr>m_c := c1\<rparr>) w in if good c1 then Inr w1 else MQTTProtocol_closeSession e m w1))"

fun for_clients :: "(nat \<Rightarrow> recv_world \<Rightarrow> recv_world res) \<Rightarrow> nat list \<Rightarrow> recv_world \<Rightarrow> recv_world res" where
  "for_clients f [] w = Inr w"
| "for_clients f (m # ms) w = bindR (f m w) (\<lambda>w1. for_clients f ms w1)"

definition MQTTAsync_retry :: "recv_env \<Rightarrow> recv_world \<Rightarrow> recv_world res" where
  "MQTTAsync_retry e w =
     bindR (interval_ms (retryLoopInterval w)) (\<lambda>ms.
       if ms < MQTTTime_difftime (clock (pq e)) (last_retry w) then
         bindR (for_clients (keepalive_one e) (live w) (w\<lparr>last_retry := clock (pq e)\<rparr>)) (\<lambda>w1. for_clients (retry_one e True False) (live w1) w1)
       else for_clients (retry_one e False False) (live w) w)"

section \<open>Progress of a connection\<close>

definition next_or_close :: "recv_env \<Rightarrow> nat \<Rightarrow> int \<Rightarrow> recv_world \<Rightarrow> recv_world res option" where
  "next_or_close e m rc w = on_world (nextOrClose (pe_of e) m rc) w"

definition send_connect :: "recv_env \<Rightarrow> nat \<Rightarrow> recv_world \<Rightarrow> (int \<times> recv_world) res" where
  "send_connect e m w =
     (let h = client_of w m; c = m_c h in
      bindR (MQTTPacket_send_connect (alloc (pp e)) (conn_client.truncate c) (conn_MQTTVersion (q_details (m_connect h)))
               (connectProps (conf w m)) (willProps (conf w m)) (cnet c)) (\<lambda>(rc, n).
        Inr (rc, put_client m (h\<lparr>m_c := c\<lparr>cnet := n\<rparr>, connect_state := WAIT_FOR_CONNACK\<rparr>) w)))"

text \<open>The address of the server, without its scheme. The index into the list is not checked.\<close>

definition connecting_uri :: "MQTTAsyncs \<Rightarrow> string res" where
  "connecting_uri h =
     (let i = currentURI (q_details (m_connect h)) in
      bindR (if serverURIs h \<noteq> [] then
               guardR OverRead (0 \<le> i \<and> i < int (length (serverURIs h)))
                 (let uri = serverURIs h ! nat i in
                  Inr (if take (length URI_TCP) uri = URI_TCP then drop (length URI_TCP) uri
                       else if take (length URI_WS) uri = URI_WS then drop (length URI_WS) uri else uri))
             else Inr (serverURI h)) (\<lambda>uri. Inr (map (\<lambda>b. char_of (unat b)) uri)))"

definition tcp_connected :: "recv_env \<Rightarrow> nat \<Rightarrow> string \<Rightarrow> recv_world \<Rightarrow> (int \<times> recv_world) res" where
  "tcp_connected e m uri w =
     (let h = client_of w m in
      if so_error e \<noteq> 0 then Inr (so_error e, w)
      else if websocket h then
        let (rc1, c1) = (if proxied e then ws_proxy_connect (ws e) (m_c h) uri else (0, m_c h)) in
        if proxied e \<and> rc1 = SOCKET_ERROR then Inr (rc1, put_client m (h\<lparr>m_c := c1, connect_state := PROXY_CONNECT_IN_PROGRESS\<rparr>) w)
        else let (rc2, c2) = ws_connect (ws e) c1 uri in Inr (rc2, put_client m (h\<lparr>m_c := c2, connect_state := WEBSOCKET_IN_PROGRESS\<rparr>) w)
      else send_connect e m w)"

definition SSL_IN_PROGRESS :: int where "SSL_IN_PROGRESS = 2"
definition SSL_FATAL :: int where "SSL_FATAL = - 3"

text \<open>What the state of the connection asks for.\<close>

definition connecting_step :: "recv_env \<Rightarrow> nat \<Rightarrow> string \<Rightarrow> recv_world \<Rightarrow> (int \<times> recv_world) res" where
  "connecting_step e m uri w =
     (let h = client_of w m in
      if connect_state h = TCP_IN_PROGRESS then tcp_connected e m uri w
      else if connect_state h = WEBSOCKET_IN_PROGRESS then
        let (rc, c) = upgrade e (m_c h); w1 = put_client m (h\<lparr>m_c := c\<rparr>) w in
        if rc = SOCKET_ERROR \<or> rc = TCPSOCKET_INTERRUPTED then Inr (rc, w1) else send_connect e m w1
      else Inr (- 1, w))"

definition MQTTAsync_connecting :: "recv_env \<Rightarrow> nat \<Rightarrow> recv_world \<Rightarrow> (int \<times> recv_world) res option" where
  "MQTTAsync_connecting e m w =
     bindO (Some (bindR (connecting_uri (client_of w m)) (\<lambda>uri. connecting_step e m uri w))) (\<lambda>(rc, w1).
       let s = connect_state (client_of w1 m) in
       if rc \<noteq> 0 \<and> rc \<noteq> TCPSOCKET_INTERRUPTED \<and> s \<noteq> SSL_IN_PROGRESS \<and> s \<noteq> WEBSOCKET_IN_PROGRESS \<or> rc = SSL_FATAL
       then bindO (next_or_close e m MQTTASYNC_FAILURE w1) (\<lambda>w2. Some (Inr (rc, w2)))
       else Some (Inr (rc, w1)))"

section \<open>Acknowledgements\<close>

text \<open>The request a packet with this message id answers: the first with this token.\<close>

definition answered :: "int \<Rightarrow> MQTTAsyncs \<Rightarrow> (queued_command \<times> MQTTAsyncs) option" where
  "answered msgid h =
     (case first_index (\<lambda>q. q_token q = msgid) (responses h) of
        None \<Rightarrow> None
      | Some i \<Rightarrow> Some (responses h ! i, h\<lparr>responses := remove_nth i (responses h)\<rparr>))"

definition UNSPECIFIED_ERROR :: int where "UNSPECIFIED_ERROR = 128"

text \<open>The report of a failure reads the type of the packet, which the handler has freed by then.\<close>

definition publish_report :: "nat \<Rightarrow> int \<Rightarrow> queued_command \<Rightarrow> told list res" where
  "publish_report m ackrc q =
     (if onSuccess (q_callbacks q) then Inr [Told_success m (Request (q_token q)) (q_token q)]
      else if onSuccess5 (q_callbacks q) \<and> ackrc < UNSPECIFIED_ERROR then Inr [Told_success m (Request (q_token q)) (q_token q)]
      else if onFailure5 (q_callbacks q) \<and> UNSPECIFIED_ERROR \<le> ackrc then Inl UseAfterFree
      else Inr [])"

definition receive_answer :: "nat \<Rightarrow> int \<Rightarrow> (queued_command \<Rightarrow> told list res) \<Rightarrow> recv_world \<Rightarrow> recv_world res" where
  "receive_answer m msgid report w =
     (case answered msgid (client_of w m) of
        None \<Rightarrow> Inr w
      | Some (q, h) \<Rightarrow> bindR (report q) (\<lambda>ts. Inr (notify ts (put_client m h w))))"

definition report_ack :: "nat \<Rightarrow> int \<Rightarrow> int \<Rightarrow> recv_world \<Rightarrow> recv_world res" where
  "report_ack m msgid ackrc w =
     receive_answer m msgid (publish_report m ackrc) (if dc_set (conf w m) then notify [Told_deliveryComplete m msgid] w else w)"

text \<open>
  The values that are kept from an acknowledgement before its handler frees it: message id and reason code.
\<close>

definition ack_values :: "recv_env \<Rightarrow> Ack \<Rightarrow> (int \<times> int) res" where
  "ack_values e ack =
     (case ack_msgId ack of
        None \<Rightarrow> Inl UninitRead
      | Some msgid \<Rightarrow>
          if 5 \<le> ack_version ack then
            (case (ack_rc ack, ack_properties ack) of
               (Some rc, Some ps) \<Rightarrow> bindR (MQTTProperties_copy (alloc (pp e)) ps) (\<lambda>_. Inr (msgid, uint rc))
             | _ \<Rightarrow> Inl UninitRead)
          else Inr (msgid, 0))"

definition with_handler ::
  "(Clients \<Rightarrow> MQTTProtocol \<Rightarrow> (int \<times> Clients \<times> MQTTProtocol) res) \<Rightarrow> nat \<Rightarrow> recv_world \<Rightarrow> (int \<times> recv_world) res" where
  "with_handler f m w =
     (let h = client_of w m in
      bindR (f (m_c h) (proto w)) (\<lambda>(rc, c, st). Inr (rc, put_client m (h\<lparr>m_c := c\<rparr>) (w\<lparr>proto := st\<rparr>))))"

definition handle_ack :: "recv_env \<Rightarrow> nat \<Rightarrow> Ack \<Rightarrow> recv_world \<Rightarrow> (int \<times> recv_world) res" where
  "handle_ack e m ack w =
     bindR (ack_values e ack) (\<lambda>(msgid, ackrc).
       let t = hdr_type (ack_header ack) in
       bindR (with_handler (if t = PUBCOMP then handle_pubcomp (pp e) ack else if t = PUBREC then handle_pubrec (pp e) ack else handle_puback (pp e) ack) m w)
         (\<lambda>(rc, w1). if t \<noteq> PUBREC \<or> UNSPECIFIED_ERROR \<le> ackrc then bindR (report_ack m msgid ackrc w1) (\<lambda>w2. Inr (rc, w2)) else Inr (rc, w1)))"

text \<open>The packets \<^verbatim>\<open>MQTTAsync_cycle\<close> deals with itself; the others are returned.\<close>

definition cycle_packet :: "recv_env \<Rightarrow> nat \<Rightarrow> int \<Rightarrow> packet \<Rightarrow> recv_world \<Rightarrow> (int \<times> packet option \<times> recv_world) res" where
  "cycle_packet e m rc pack w =
     (case pack of
        P_Publish p \<Rightarrow> bindR (with_handler (handle_publish (pp e) p) m w) (\<lambda>(rc, w1). Inr (rc, None, w1))
      | P_Ack a \<Rightarrow>
          if hdr_type (ack_header a) \<in> {PUBACK, PUBCOMP, PUBREC} then bindR (handle_ack e m a w) (\<lambda>(rc, w1). Inr (rc, None, w1))
          else if hdr_type (ack_header a) = PUBREL then bindR (with_handler (handle_pubrel (pp e) a) m w) (\<lambda>(rc, w1). Inr (rc, None, w1))
          else Inr (rc, Some pack, w)
      | P_Header b \<Rightarrow>
          if hdr_type b = PINGRESP then
            bindR (with_handler (\<lambda>c st. Inr (case MQTTProtocol_handlePingresps c of (rc, c1) \<Rightarrow> (rc, c1, st))) m w) (\<lambda>(rc, w1). Inr (rc, None, w1))
          else Inr (rc, Some pack, w)
      | _ \<Rightarrow> Inr (rc, Some pack, w))"

text \<open>\<open>sock\<close> is the socket that is ready, \<open>factory\<close> what \<^verbatim>\<open>MQTTPacket_Factory\<close> returns for it.\<close>

definition MQTTAsync_cycle ::
  "recv_env \<Rightarrow> int \<Rightarrow> int \<times> packet option \<Rightarrow> recv_world \<Rightarrow> (int \<times> packet option \<times> recv_world) res option" where
  "MQTTAsync_cycle e sock factory w =
     bindO
       (case (if 0 < sock then find_sock sock w else None) of
          None \<Rightarrow> Some (Inr (SOCKET_ERROR, None, w))
        | Some m \<Rightarrow>
            bindO (if connect_state (client_of w m) \<in> {TCP_IN_PROGRESS, SSL_IN_PROGRESS, WEBSOCKET_IN_PROGRESS}
                   then bindO (MQTTAsync_connecting e m w) (\<lambda>(rc, w1). Some (Inr (rc, None, w1)))
                   else Some (Inr (fst factory, snd factory, w))) (\<lambda>(rc, pack, w1).
            bindO (if connect_state (client_of w1 m) = WAIT_FOR_CONNACK \<and> rc = SOCKET_ERROR then next_or_close e m MQTTASYNC_FAILURE w1 else Some (Inr w1)) (\<lambda>w2.
              case pack of None \<Rightarrow> Some (Inr (rc, None, w2)) | Some p \<Rightarrow> Some (cycle_packet e m rc p w2))))
       (\<lambda>(rc, pack, w3). Some (bindR (MQTTAsync_retry e w3) (\<lambda>w4. Inr (rc, pack, w4))))"

section \<open>One round of the receiving thread\<close>

definition SESSION_PRESENT :: "byte \<Rightarrow> bool" where
  "SESSION_PRESENT flags \<longleftrightarrow> bit flags 0"

text \<open>\<^verbatim>\<open>MQTTAsync_cleanSession\<close> for a client that has just connected.\<close>

definition clean_session :: "recv_env \<Rightarrow> nat \<Rightarrow> recv_world \<Rightarrow> (int \<times> recv_world) res" where
  "clean_session e m w =
     bindR (MQTTAsync_cleanSession (pe_of e) m (async_world.truncate w)) (\<lambda>(rc, v).
       Inr (rc, w\<lparr>aq := aq v, proto := proto v, told := told v, shut := shut v, dialled := dialled v\<rparr>))"

definition untouched :: "Clients \<Rightarrow> Clients" where
  "untouched c = c\<lparr>outboundMsgs := map (\<lambda>x. x\<lparr>m_lastTouch := 0\<rparr>) (outboundMsgs c)\<rparr>"

text \<open>The messages in flight are sent again.\<close>

definition resend :: "recv_env \<Rightarrow> nat \<Rightarrow> int \<Rightarrow> recv_world \<Rightarrow> (int \<times> recv_world) res" where
  "resend e m rc w =
     (let h = client_of w m in
      if outboundMsgs (m_c h) \<noteq> [] then
        bindR (for_clients (retry_one e True True) (live w) (put_client m (h\<lparr>m_c := untouched (m_c h)\<rparr>) w)) (\<lambda>w1.
          Inr (if connected (m_c (client_of w1 m)) then rc else MQTTASYNC_DISCONNECTED, w1))
      else Inr (rc, w))"

definition MQTTAsync_completeConnection :: "recv_env \<Rightarrow> nat \<Rightarrow> Connack \<Rightarrow> recv_world \<Rightarrow> (int \<times> recv_world) res" where
  "MQTTAsync_completeConnection e m connack w =
     (let h = client_of w m; c = m_c h in
      if connect_state h \<noteq> WAIT_FOR_CONNACK then Inr (MQTTASYNC_FAILURE, w)
      else if ca_rc connack \<noteq> 0 then Inr (uint (ca_rc connack), w)
      else
        let w1 = put_client m (h\<lparr>retrying := False, connect_state := NOT_IN_PROGRESS, m_c := c\<lparr>connected := True, good := True\<rparr>\<rparr>) w in
        bindR (if cleansession_c c \<noteq> 0 \<or> cleanstart c \<noteq> 0 \<or> 4 \<le> MQTTVersion c \<and> \<not> SESSION_PRESENT (ca_flags connack)
               then clean_session e m w1 else Inr (0, w1)) (\<lambda>(rc, w2). resend e m rc w2))"

definition RECEIVE_MAXIMUM :: int where "RECEIVE_MAXIMUM = 33"

text \<open>With MQTT 5 the server limits the number of messages in flight.\<close>

definition receive_maximum :: "Connack \<Rightarrow> MQTTAsyncs \<Rightarrow> MQTTAsyncs res" where
  "receive_maximum connack h =
     (if MQTTVersion (m_c h) < 5 then Inr h
      else
        (case ca_properties connack of
           None \<Rightarrow> Inl UninitRead
         | Some ps \<Rightarrow>
             bindR (MQTTProperties_hasProperty ps RECEIVE_MAXIMUM) (\<lambda>has.
               if has = 0 then Inr h
               else bindR (MQTTProperties_getNumericValue ps RECEIVE_MAXIMUM) (\<lambda>recv_max.
                 Inr (if recv_max < maxInflightMessages h then h\<lparr>maxInflightMessages := recv_max\<rparr> else h)))))"

text \<open>
  A success reported to the application is not reported again. With \<^verbatim>\<open>onSuccess5\<close> the server is taken from the
  list without a check of the index.
\<close>

definition connect_report :: "nat \<Rightarrow> client_conf \<Rightarrow> MQTTAsyncs \<Rightarrow> (told list \<times> MQTTAsyncs) res" where
  "connect_report m cf h =
     (let q = m_connect h; cb = q_callbacks q;
          told_conn = (if connected_set cf then [Told_connected m] else []) in
      if onSuccess cb then Inr (Told_success m Connecting 0 # told_conn, h\<lparr>m_connect := q\<lparr>q_callbacks := cb\<lparr>onSuccess := False\<rparr>\<rparr>\<rparr>)
      else if onSuccess5 cb then
        guardR OverRead (serverURIs h \<noteq> [] \<longrightarrow> 0 \<le> currentURI (q_details q) \<and> currentURI (q_details q) < int (length (serverURIs h)))
          (Inr (Told_success m Connecting 0 # told_conn, h\<lparr>m_connect := q\<lparr>q_callbacks := cb\<lparr>onSuccess5 := False\<rparr>\<rparr>\<rparr>))
      else Inr (told_conn, h))"

definition receive_connack :: "recv_env \<Rightarrow> nat \<Rightarrow> Connack \<Rightarrow> recv_world \<Rightarrow> recv_world res option" where
  "receive_connack e m connack w =
     bindO (Some (MQTTAsync_completeConnection e m connack w)) (\<lambda>(rc, w1).
       bindO (if rc = MQTTASYNC_SUCCESS then
                Some (bindR (connect_report m (conf w1 m) (client_of w1 m)) (\<lambda>(ts, h1).
                      bindR (receive_maximum connack h1) (\<lambda>h2. Inr (notify ts (put_client m h2 w1)))))
              else next_or_close e m rc w1) (\<lambda>w2. Some (bindR (MQTTPacket_freeConnack connack) (\<lambda>_. Inr w2))))"

text \<open>
  The report on a subscription. With MQTT 5 the first reason code is read whatever their number is.
\<close>

definition suback_report :: "nat \<Rightarrow> int \<Rightarrow> Suback \<Rightarrow> queued_command \<Rightarrow> told list res" where
  "suback_report m version sub q =
     (let cb = q_callbacks q; codes = Suback.sub_qoss sub; tok = q_token q in
      if 5 \<le> version then
        if length codes = 1 \<and> UNSPECIFIED_ERROR \<le> uint (hd codes) then Inr (if onFailure5 cb then [Told_failure m (Request tok) tok (uint (hd codes))] else [])
        else if onSuccess5 cb then guardR NullDeref (codes \<noteq> []) (Inr [Told_success m (Request tok) tok])
        else Inr []
      else if length codes = 1 \<and> hd codes = 0x80 then Inr (if onFailure cb then [Told_failure m (Request tok) tok 0x80] else [])
      else Inr (if onSuccess cb then [Told_success m (Request tok) tok] else []))"

definition unsuback_report :: "nat \<Rightarrow> Unsuback \<Rightarrow> queued_command \<Rightarrow> told list res" where
  "unsuback_report m unsub q =
     (let cb = q_callbacks q in
      if onSuccess cb then Inr [Told_success m (Request (q_token q)) (q_token q)]
      else if onSuccess5 cb then guardR NullDeref (case uns_reasonCodes unsub of None \<Rightarrow> False | Some rs \<Rightarrow> rs \<noteq> []) (Inr [Told_success m (Request (q_token q)) (q_token q)])
      else Inr [])"

definition receive_packet :: "recv_env \<Rightarrow> nat \<Rightarrow> packet \<Rightarrow> recv_world \<Rightarrow> recv_world res option" where
  "receive_packet e m pack w =
     (case pack of
        P_Connack c \<Rightarrow> receive_connack e m c w
      | P_Suback s \<Rightarrow>
          Some (bindR (receive_answer m (sub_msgId s) (suback_report m (MQTTVersion (m_c (client_of w m))) s) w) (\<lambda>w1.
            bindR (MQTTProtocol_handleSubacks s) (\<lambda>_. Inr w1)))
      | P_Unsuback u \<Rightarrow>
          Some (bindR (receive_answer m (uns_msgId u) (unsuback_report m u) w) (\<lambda>w1. bindR (MQTTProtocol_handleUnsubacks u) (\<lambda>_. Inr w1)))
      | P_Ack a \<Rightarrow>
          if hdr_type (ack_header a) = DISCONNECT then
            Some (bindR (MQTTPacket_freeAck a) (\<lambda>_. Inr (if disconnected_set (conf w m) then notify [Told_disconnected m] w else w)))
          else Some (Inr w)
      | _ \<Rightarrow> Some (Inr w))"

text \<open>The first queued message is offered to the application.\<close>

definition deliver_queued :: "recv_env \<Rightarrow> nat \<Rightarrow> recv_world \<Rightarrow> recv_world" where
  "deliver_queued e m w =
     (let h = client_of w m; c = m_c h in
      case messageQueue c of
        [] \<Rightarrow> w
      | mm # mms \<Rightarrow>
          if ma_set (conf w m) \<and> takes e then put_client m (h\<lparr>m_c := c\<lparr>messageQueue := mms, delivered := delivered c @ [mm]\<rparr>\<rparr>) w else w)"

text \<open>
  What follows a call of \<^verbatim>\<open>MQTTAsync_cycle\<close>. The lock is released in between, so that other threads may run.
\<close>

definition receive_handle :: "recv_env \<Rightarrow> int \<Rightarrow> int \<Rightarrow> packet option \<Rightarrow> recv_world \<Rightarrow> recv_world res option" where
  "receive_handle e sock rc pack w =
     (if sock = 0 then Some (Inr w)
      else
        (case find_sock sock w of
           None \<Rightarrow> Some (Inr w)
         | Some m \<Rightarrow>
             if rc = SOCKET_ERROR then
               bindO (Some (if connected (m_c (client_of w m)) then MQTTProtocol_closeSession e m w else Inr w)) (\<lambda>w1. next_or_close e m rc w1)
             else
               let w1 = deliver_queued e m w in
               (case pack of None \<Rightarrow> Some (Inr w1) | Some p \<Rightarrow> receive_packet e m p w1)))"

definition receive_round :: "recv_env \<Rightarrow> int \<Rightarrow> int \<times> packet option \<Rightarrow> recv_world \<Rightarrow> recv_world res option" where
  "receive_round e sock factory w = bindO (MQTTAsync_cycle e sock factory w) (\<lambda>(rc, pack, w1). receive_handle e sock rc pack w1)"

section \<open>Completed writes\<close>

definition write_report :: "nat \<Rightarrow> int \<Rightarrow> queued_command \<Rightarrow> told list" where
  "write_report m rc q =
     (if rc = 1 \<and> pub_qos (q_details q) = 0 then (if onSuccess (q_callbacks q) \<or> onSuccess5 (q_callbacks q) then [Told_success m (Request (q_token q)) (q_token q)] else [])
      else if rc = - 1 then (if onFailure (q_callbacks q) \<or> onFailure5 (q_callbacks q) then [Told_failure m (Request (q_token q)) (q_token q) rc] else [])
      else [])"

text \<open>The payload of a message with QoS 0 is freed elsewhere.\<close>

definition without_payload :: "queued_command \<Rightarrow> queued_command" where
  "without_payload q =
     (case q_details q of
        Pub_details dest pay len qos ret \<Rightarrow> if qos = 0 then q\<lparr>q_details := Pub_details dest None len qos ret\<rparr> else q
      | _ \<Rightarrow> q)"

text \<open>
  The command whose write was pending is looked for, by its address, in the list of those that wait. As long as it waits,
  it is there with the value it had when its write was left pending. But the pointer may be stale: when the write fails,
  \<^verbatim>\<open>MQTTAsync_processCommand\<close> sets it, and frees the command. Then a later command may have got its address,
  and is taken for it; which one this is, if any, is an input.
\<close>

definition pending_at :: "recv_env \<Rightarrow> queued_command \<Rightarrow> queued_command list \<Rightarrow> nat option" where
  "pending_at e q rs =
     (case first_index (\<lambda>x. x = q) rs of
        Some i \<Rightarrow> Some i
      | None \<Rightarrow> (case reused e of None \<Rightarrow> None | Some i \<Rightarrow> if i < length rs then Some i else None))"

definition write_done :: "recv_env \<Rightarrow> nat \<Rightarrow> int \<Rightarrow> MQTTAsyncs \<Rightarrow> recv_world \<Rightarrow> recv_world" where
  "write_done e m rc h w =
     (case pending_write h of
        None \<Rightarrow> put_client m h w
      | Some pending \<Rightarrow>
          (case pending_at e pending (responses h) of
             None \<Rightarrow> put_client m (h\<lparr>pending_write := None\<rparr>) w
           | Some i \<Rightarrow>
               let q = responses h ! i in
               if cmd_type q = PUBLISH \<and> \<not> (rc = 1 \<and> pub_qos (q_details q) = 0) \<and> rc \<noteq> - 1
               then put_client m (h\<lparr>pending_write := None, responses := (responses h)[i := without_payload q]\<rparr>) w
               else
                 notify (if cmd_type q = PUBLISH then write_report m rc q else [])
                   (put_client m (h\<lparr>pending_write := None, responses := remove_nth i (responses h)\<rparr>) w)))"

definition MQTTAsync_writeComplete :: "recv_env \<Rightarrow> int \<Rightarrow> int \<Rightarrow> recv_world \<Rightarrow> recv_world res" where
  "MQTTAsync_writeComplete e sock rc w =
     bindR (MQTTProtocol_checkPendingWrites (idle e) (pending_writes (proto w)) (proto w)) (\<lambda>(ps, st).
       let w1 = w\<lparr>proto := st\<lparr>pending_writes := ps\<rparr>\<rparr> in
       case find_sock sock w1 of
         None \<Rightarrow> Inr w1
       | Some m \<Rightarrow>
           let h = client_of w1 m; c = m_c h in
           Inr (write_done e m rc (h\<lparr>m_c := c\<lparr>cnet := (cnet c)\<lparr>lastSent := clock (pq e)\<rparr>\<rparr>\<rparr>) w1))"

section \<open>Timeouts\<close>

text \<open>The automatic reconnection of a client; the flag says whether the loop goes on.\<close>

definition reconnect_due :: "recv_env \<Rightarrow> MQTTAsyncs \<Rightarrow> bool res" where
  "reconnect_due e h =
     (if \<not> (automaticReconnect h \<and> retrying h) then Inr False
      else if reconnectNow h then Inr True
      else bindR (interval_ms (currentInterval h)) (\<lambda>wait. Inr (wait mod 2 ^ 64 < elapsed e (lastConnectionFailedTime h))))"

text \<open>New credentials are copied. Without memory they are lost.\<close>

definition update_options :: "recv_env \<Rightarrow> nat \<Rightarrow> Clients \<Rightarrow> Clients" where
  "update_options e m c =
     (case updateConnectOptions e m of
        None \<Rightarrow> c
      | Some f \<Rightarrow>
          let (rc, user, pwd) = f c; al = aal (pq e);
              c1 = (case user of
                      None \<Rightarrow> c
                    | Some u \<Rightarrow> c\<lparr>c_username := (case u of None \<Rightarrow> None | Some s \<Rightarrow> if malloc_ok al (int (length s) + 1) then Some s else None)\<rparr>);
              c2 = (case pwd of
                      None \<Rightarrow> c1
                    | Some (None, _) \<Rightarrow> c1\<lparr>c_password := None, c_passwordlen := 0\<rparr>
                    | Some (Some s, len) \<Rightarrow> c1\<lparr>c_password := (if malloc_ok al len then Some (take (nat len) s) else None), c_passwordlen := len\<rparr>) in
          if rc = 1 then c2 else c)"

definition reconnect_client :: "recv_env \<Rightarrow> nat \<Rightarrow> recv_world \<Rightarrow> (bool \<times> recv_world) res" where
  "reconnect_client e m w =
     (let h = client_of w m in
      if \<not> malloc_ok (aal (pq e)) 168 then Inr (False, w)
      else
        let w1 = put_client m (h\<lparr>m_c := update_options e m (m_c h)\<rparr>) w in
        bindR (MQTTAsync_addCommand (pq e) (connect_command m h) (aq w1)) (\<lambda>(_, st).
          let w2 = w1\<lparr>aq := st\<rparr> in Inr (True, put_client m ((client_of w2 m)\<lparr>reconnectNow := False\<rparr>) w2)))"

definition connect_timed_out :: "recv_env \<Rightarrow> client_conf \<Rightarrow> MQTTAsyncs \<Rightarrow> bool res" where
  "connect_timed_out e cf h =
     (if connect_state h = NOT_IN_PROGRESS then Inr False
      else bindR (interval_ms (connectTimeout cf)) (\<lambda>timeout. Inr (timeout mod 2 ^ 64 < elapsed e (q_start_time (m_connect h)))))"

definition check_disconnecting :: "recv_env \<Rightarrow> nat \<Rightarrow> recv_world \<Rightarrow> recv_world res option" where
  "check_disconnecting e m w =
     (if connect_state (client_of w m) = DISCONNECTING
      then on_world (MQTTAsync_checkDisconnect (pe_of e) m (m_disconnect (client_of w m))) w else Some (Inr w))"

definition check_client :: "recv_env \<Rightarrow> nat \<Rightarrow> recv_world \<Rightarrow> (bool \<times> recv_world) res option" where
  "check_client e m w =
     bindO (check_disconnecting e m w) (\<lambda>w1.
       bindO (Some (connect_timed_out e (conf w1 m) (client_of w1 m))) (\<lambda>late.
         if late then bindO (next_or_close e m MQTTASYNC_FAILURE w1) (\<lambda>w2. Some (Inr (True, w2)))
         else bindO (Some (reconnect_due e (client_of w1 m))) (\<lambda>due. if due then Some (reconnect_client e m w1) else Some (Inr (True, w1)))))"

fun check_clients :: "recv_env \<Rightarrow> nat list \<Rightarrow> recv_world \<Rightarrow> recv_world res option" where
  "check_clients e [] w = Some (Inr w)"
| "check_clients e (m # ms) w = bindO (check_client e m w) (\<lambda>(go, w1). if go then check_clients e ms w1 else Some (Inr w1))"

definition MQTTAsync_checkTimeouts :: "recv_env \<Rightarrow> recv_world \<Rightarrow> recv_world res option" where
  "MQTTAsync_checkTimeouts e w =
     (if MQTTTime_difftime (clock (pq e)) (last_check w) < 3000 then Some (Inr w)
      else check_clients e (live w) (w\<lparr>last_check := clock (pq e)\<rparr>))"

text \<open>One step of the sending thread: a command is executed.\<close>

definition send_round :: "recv_env \<Rightarrow> recv_world \<Rightarrow> recv_world res option" where
  "send_round e w = on_world (\<lambda>v. bindO (MQTTAsync_processCommand (pe_of e) v) (\<lambda>(_, v1). Some (Inr v1))) w"

end
