(* ===== verification/Async_Reports.thy ===== *)
theory Async_Reports
  imports Async_Receive
begin

text \<open>
  Reports to the application: over all the steps of the asynchronous client, on the sending and on the
  receiving side, a request to subscribe, unsubscribe or publish is reported at most once, as a success or as a
  failure. The reports of connecting and disconnecting are not counted.
\<close>

section \<open>Requests and reports\<close>

definition is_req :: "nat \<Rightarrow> int \<Rightarrow> queued_command \<Rightarrow> bool" where
  "is_req m t q \<longleftrightarrow> q_client q = m \<and> q_token q = t \<and> cmd_type q \<noteq> CONNECT \<and> cmd_type q \<noteq> DISCONNECT"

text \<open>The requests of a client under a token that are queued, or wait for their response.\<close>

definition pending :: "nat \<Rightarrow> int \<Rightarrow> async_state \<Rightarrow> nat" where
  "pending m t st = length (filter (is_req m t) (commands st)) + length (filter (\<lambda>q. q_token q = t) (responses (handles st m)))"

fun reports_on :: "nat \<Rightarrow> int \<Rightarrow> told \<Rightarrow> bool" where
  "reports_on m t (Told_success k own s) \<longleftrightarrow> k = m \<and> own = Request t"
| "reports_on m t (Told_failure k own s c) \<longleftrightarrow> k = m \<and> own = Request t"
| "reports_on m t _ \<longleftrightarrow> False"

definition reported :: "nat \<Rightarrow> int \<Rightarrow> told list \<Rightarrow> nat" where
  "reported m t ts = length (filter (reports_on m t) ts)"

lemma reported_simps [simp]:
  "reported m t [] = 0" "reported m t (x # xs) = (if reports_on m t x then 1 else 0) + reported m t xs"
  "reported m t (xs @ ys) = reported m t xs + reported m t ys"
  by (simp_all add: reported_def)

definition conn_ok :: "async_state \<Rightarrow> bool" where
  "conn_ok st \<longleftrightarrow> (\<forall>m. cmd_type (m_connect (handles st m)) = CONNECT)"

text \<open>
  A step keeps within its means if what it reports and what is pending afterwards was pending before, or is
  covered by the credit \<open>c\<close>.
\<close>

definition spends :: "(nat \<Rightarrow> int \<Rightarrow> nat) \<Rightarrow> 'a async_world_scheme \<Rightarrow> 'b async_world_scheme \<Rightarrow> bool" where
  "spends c w w' \<longleftrightarrow> (conn_ok (aq w) \<longrightarrow> conn_ok (aq w') \<and>
     (\<exists>new. told w' = told w @ new \<and> (\<forall>m t. reported m t new + pending m t (aq w') \<le> pending m t (aq w) + c m t)))"

abbreviation free :: "nat \<Rightarrow> int \<Rightarrow> nat" where
  "free \<equiv> \<lambda>m t. 0"

definition credit :: "queued_command \<Rightarrow> nat \<Rightarrow> int \<Rightarrow> nat" where
  "credit q m t = (if is_req m t q then 1 else 0)"

lemma spends_trans:
  assumes "spends c u v" "spends d v w" "\<And>m t. c m t + d m t \<le> k m t"
  shows "spends k u w"
  unfolding spends_def
proof (intro impI)
  assume "conn_ok (aq u)"
  with assms(1) obtain n1 where 1: "conn_ok (aq v)" "told v = told u @ n1"
    "\<forall>m t. reported m t n1 + pending m t (aq v) \<le> pending m t (aq u) + c m t" by (auto simp: spends_def)
  with assms(2) obtain n2 where 2: "conn_ok (aq w)" "told w = told v @ n2"
    "\<forall>m t. reported m t n2 + pending m t (aq w) \<le> pending m t (aq v) + d m t" by (auto simp: spends_def)
  have "reported m t (n1 @ n2) + pending m t (aq w) \<le> pending m t (aq u) + k m t" for m t
    using 1(3) [rule_format, of m t] 2(3) [rule_format, of m t] assms(3) [of m t] by simp
  with 1(2) 2(1,2) show "conn_ok (aq w) \<and> (\<exists>new. told w = told u @ new \<and>
      (\<forall>m t. reported m t new + pending m t (aq w) \<le> pending m t (aq u) + k m t))" by auto
qed

lemma free_trans: "spends free u v \<Longrightarrow> spends free v w \<Longrightarrow> spends free u w"
  by (rule spends_trans) auto

text \<open>Most steps leave the queue, the responses and the reports alone.\<close>

definition untold :: "'a async_world_scheme \<Rightarrow> 'b async_world_scheme \<Rightarrow> bool" where
  "untold w w' \<longleftrightarrow> told w' = told w \<and> commands (aq w') = commands (aq w) \<and>
     (\<forall>m. responses (handles (aq w') m) = responses (handles (aq w) m) \<and> m_connect (handles (aq w') m) = m_connect (handles (aq w) m))"

lemma untold_spends: "untold w w' \<Longrightarrow> spends c w w'"
  by (auto simp: untold_def spends_def conn_ok_def pending_def)

lemma untold_refl [simp]: "untold w w"
  by (simp add: untold_def)

lemma spends_refl [simp]: "spends c w w"
  by (rule untold_spends) simp

lemma untold_trans: "untold u v \<Longrightarrow> untold v w \<Longrightarrow> untold u w"
  by (auto simp: untold_def)

lemma set_handle_untold:
  "untold w w1 \<Longrightarrow> responses h = responses (handle_of w1 m) \<Longrightarrow> m_connect h = m_connect (handle_of w1 m) \<Longrightarrow> untold w (set_handle m h w1)"
  by (auto simp: untold_def set_handle_def update_handle_def handle_of_def)

lemma remove_nth_filter_le: "length (filter P (remove_nth i xs)) \<le> length (filter P xs)"
proof -
  have "length (filter P (drop (Suc i) xs)) \<le> length (filter P (drop i xs))" by (cases "i < length xs") (simp_all add: Cons_nth_drop_Suc [symmetric])
  moreover have "length (filter P xs) = length (filter P (take i xs)) + length (filter P (drop i xs))"
    by (metis append_take_drop_id filter_append length_append)
  ultimately show ?thesis by (simp add: remove_nth_def)
qed

lemma remove_nth_filter_eq: "i < length xs \<Longrightarrow> length (filter P xs) = length (filter P (remove_nth i xs)) + (if P (xs ! i) then 1 else 0)"
  by (subst (1) id_take_nth_drop [of i xs]) (simp_all add: remove_nth_def)

section \<open>Queueing a connection or a disconnection\<close>

lemma addCommand_handles:
  assumes "MQTTAsync_addCommand e q st = Inr (rc, st')" "cmd_type q = CONNECT \<or> cmd_type q = DISCONNECT"
  shows "handles st' = handles st \<and> pending m t st' \<le> pending m t st"
proof -
  have r: "\<not> is_req m t q" "\<not> is_req m t (stamped e q h)" for h using assms(2) by (auto simp: is_req_def stamped_def cmd_type_def)
  have ty: "cmd_type (stamped e q h) = cmd_type q" for h by (simp add: stamped_def cmd_type_def)
  have ne: "cmd_type q \<noteq> PUBLISH" using assms(2) by (auto simp: packet_types)
  have le: "length (filter (is_req m t) (remove_command p P qs)) \<le> length (filter (is_req m t) qs)" for p P qs
    by (auto simp: remove_command_def remove_nth_filter_le split: option.splits)
  have "remove_command p P [] = []" for p P by (simp add: remove_command_def find_command_def split: option.splits)
  with assms(1) r ne le show ?thesis
    by (auto simp: MQTTAsync_addCommand_def Let_def ty bindR_eq_Inr pending_def split: if_splits)
qed

lemma addCommand_spends:
  assumes "MQTTAsync_addCommand e q (aq w) = Inr (rc, st)" "cmd_type q = CONNECT \<or> cmd_type q = DISCONNECT"
  shows "spends free w (w\<lparr>aq := st\<rparr>)"
  using addCommand_handles [OF assms] by (auto simp: spends_def conn_ok_def)

lemma disconnect_command_type: "disconnect_command e v m op i = Inr q \<Longrightarrow> cmd_type q = DISCONNECT"
  by (auto simp: disconnect_command_def Let_def cmd_type_def details_type_def bindR_eq_Inr split: option.splits if_splits)

lemma disconnect1_spends:
  assumes "MQTTAsync_disconnect1 e (Some m) op i (aq w) = Inr (rc, st)"
  shows "spends free w (w\<lparr>aq := st\<rparr>) \<and> (\<forall>k. responses (handles st k) = responses (handles (aq w) k))"
proof -
  define st1 where "st1 = (if i then aq w else update_handle m (\<lambda>h. h\<lparr>shouldBeConnected := False\<rparr>) (aq w))"
  have u: "untold w (w\<lparr>aq := st1\<rparr>)" by (auto simp: untold_def st1_def update_handle_def)
  consider "st = st1" | q where "disconnect_command e (MQTTVersion (m_c (handles st1 m))) m op i = Inr q" "MQTTAsync_addCommand e q st1 = Inr (rc, st)"
    using assms by (auto simp: MQTTAsync_disconnect1_def st1_def [symmetric] Let_def bindR_eq_Inr split: if_splits)
  then show ?thesis
  proof cases
    case 1
    with u show ?thesis by (auto intro: untold_spends simp: untold_def)
  next
    case 2
    note a = 2(2) disjI2 [OF disconnect_command_type [OF 2(1)]]
    have "spends free (w\<lparr>aq := st1\<rparr>) (w\<lparr>aq := st1\<rparr>\<lparr>aq := st\<rparr>)" using a by (intro addCommand_spends) simp_all
    moreover have "responses (handles st k) = responses (handles (aq w) k)" for k using addCommand_handles [OF a] u by (simp add: untold_def)
    ultimately show ?thesis using free_trans [OF untold_spends [OF u]] by simp
  qed
qed

lemma disconnect_internal_spends:
  "MQTTAsync_disconnect_internal e (Some m) t (aq w) = Inr (rc, st) \<Longrightarrow> spends free w (w\<lparr>aq := st\<rparr>)"
  unfolding MQTTAsync_disconnect_internal_def by (drule disconnect1_spends) simp

lemma disconnect_spends:
  "MQTTAsync_disconnect e (Some m) op (aq w) = Inr (rc, st) \<Longrightarrow> spends free w (w\<lparr>aq := st\<rparr>)"
  by (auto simp: MQTTAsync_disconnect_def split: option.splits if_splits dest: disconnect1_spends)

section \<open>Closing a session\<close>

lemma closeOnly_untold: "MQTTAsync_closeOnly e m r ps w = Inr w' \<Longrightarrow> untold w w'"
  by (auto simp: MQTTAsync_closeOnly_def Let_def bindR_eq_Inr handle_of_def intro!: set_handle_untold split: if_splits)
    (simp_all add: untold_def)

lemma reported_failures: "reported k t (map (\<lambda>tok. Told_failure m (Request tok) tok c) toks) = (if k = m then length (filter (\<lambda>x. x = t) toks) else 0)"
  by (induction toks) auto

lemma failed_tokens_count: "length (filter (\<lambda>x. x = t) (failed_tokens qs)) \<le> length (filter (\<lambda>q. q_token q = t) qs)"
  by (induction qs) (auto simp: failed_tokens_def)

lemma cleanSession_spends:
  assumes "MQTTAsync_cleanSession e m w = Inr (rc, w')"
  shows "spends free w w'"
proof -
  let ?new = "map (\<lambda>tok. Told_failure m (Request tok) tok MQTTASYNC_OPERATION_INCOMPLETE) (failed_tokens (responses (handles (aq w) m)))"
  have w': "told w' = told w @ ?new" "commands (aq w') = commands (aq w)"
    "responses (handles (aq w') k) = (if k = m then [] else responses (handles (aq w) k))" "m_connect (handles (aq w') k) = m_connect (handles (aq w) k)" for k
    using assms by (auto simp: MQTTAsync_cleanSession_def Let_def bindR_eq_Inr MQTTAsync_freeResponses_def set_handle_def update_handle_def tell_def handle_of_def)
  have "reported k t ?new + pending k t (aq w') \<le> pending k t (aq w)" for k t
    using failed_tokens_count [of t "responses (handles (aq w) m)"] by (auto simp: pending_def w' reported_failures)
  with w' show ?thesis by (auto simp: spends_def conn_ok_def)
qed

lemma closeSession_spends: "MQTTAsync_closeSession e m r ps w = Inr w' \<Longrightarrow> spends free w w'"
  by (auto simp: MQTTAsync_closeSession_def Let_def bindR_eq_Inr split: if_splits
      intro: free_trans [OF untold_spends [OF closeOnly_untold] cleanSession_spends] untold_spends closeOnly_untold)

lemma tell_spends:
  assumes "spends free w w1" "\<And>m t. reported m t ts = 0"
  shows "spends free w (tell ts w1)"
  by (rule free_trans [OF assms(1)]) (use assms(2) in \<open>auto simp: spends_def tell_def\<close>)

lemma startConnectRetry_same:
  "MQTTAsync_startConnectRetry d t h = Some (Inr h') \<Longrightarrow> responses h' = responses h \<and> m_connect h' = m_connect h"
  by (auto simp: MQTTAsync_startConnectRetry_def Let_def bindR_eq_Inr split: if_splits)

lemma start_retry_spends: "start_retry e m w1 = Some (Inr w') \<Longrightarrow> spends free w w1 \<Longrightarrow> spends free w w'"
  by (rule free_trans, assumption, rule untold_spends)
    (auto simp: start_retry_def bindO_eq_Inr handle_of_def dest!: startConnectRetry_same intro!: set_handle_untold)

lemma checkDisconnect_spends: "MQTTAsync_checkDisconnect e m q w = Some (Inr w') \<Longrightarrow> spends free w w'"
  by (auto simp: MQTTAsync_checkDisconnect_def Let_def bindO_eq_Inr split: if_splits elim!: start_retry_spends
      intro!: tell_spends intro: closeSession_spends)

section \<open>Executing a command\<close>

text \<open>\<^verbatim>\<open>MQTTProtocol_connect\<close> gets the client's connection only, not its requests.\<close>

definition connect_keeps :: "'a process_env_scheme \<Rightarrow> bool" where
  "connect_keeps e \<longleftrightarrow> (\<forall>uri ws v h. responses (snd (connect_to e uri ws v h)) = responses h \<and> m_connect (snd (connect_to e uri ws v h)) = m_connect h)"

definition like :: "queued_command \<Rightarrow> queued_command \<Rightarrow> bool" where
  "like q q1 \<longleftrightarrow> q_client q1 = q_client q \<and> q_token q1 = q_token q \<and> cmd_type q1 = cmd_type q"

lemma like_credit: "like q q1 \<Longrightarrow> credit q1 = credit q"
  by (auto simp: like_def credit_def is_req_def fun_eq_iff)

lemma send_on_untold: "send_on m r q w = Inr (rc, q1, w') \<Longrightarrow> untold w w' \<and> q1 = q"
  by (auto simp: send_on_def Let_def bindR_eq_Inr intro!: set_handle_untold)

lemma exec_connect_untold:
  assumes "exec_connect e q w = Inr (rc, q1, w')" "connect_keeps e" "cmd_type q = CONNECT"
  shows "untold w w' \<and> like q q1"
proof (cases "connect_state (handle_of w (q_client q)) \<noteq> NOT_IN_PROGRESS \<or> connected (m_c (handle_of w (q_client q)))")
  case True
  with assms(1) show ?thesis by (auto simp: exec_connect_def Let_def like_def)
next
  case False
  let ?m = "q_client q" and ?h = "handle_of w (q_client q)"
  have ty: "cmd_type (q\<lparr>q_details := Conn_details i v\<rparr>) = CONNECT" for i v by (simp add: cmd_type_def details_type_def)
  from assms(1) False obtain uri s where "choose_uri q ?h = Inr (uri, s)" by (auto simp: exec_connect_def Let_def bindR_eq_Inr)
  moreover obtain v where v: "v = next_version (MQTTVersion (m_c ?h)) (conn_MQTTVersion (q_details q))" by simp
  moreover obtain rc1 h1 where h1: "connect_to e uri s v (?h\<lparr>websocket := s\<rparr>) = (rc1, h1)" by (cases "connect_to e uri s v (?h\<lparr>websocket := s\<rparr>)")
  ultimately have r: "w' = set_handle ?m h1 (w\<lparr>dialled := dialled w @ [(uri, s, v)]\<rparr>)" "q1 = q\<lparr>q_details := Conn_details (currentURI (q_details q)) v\<rparr>"
    using assms(1) False by (simp_all add: exec_connect_def Let_def)
  have "responses (snd (connect_to e uri s v (?h\<lparr>websocket := s\<rparr>))) = responses (?h\<lparr>websocket := s\<rparr>)"
    "m_connect (snd (connect_to e uri s v (?h\<lparr>websocket := s\<rparr>))) = m_connect (?h\<lparr>websocket := s\<rparr>)"
    using assms(2) unfolding connect_keeps_def by blast+
  then have "responses h1 = responses ?h" "m_connect h1 = m_connect ?h" by (simp_all add: h1)
  moreover have "untold w (w\<lparr>dialled := d\<rparr>)" "handle_of (w\<lparr>dialled := d\<rparr>) ?m = ?h" for d by (simp_all add: untold_def handle_of_def)
  ultimately show ?thesis using r assms(3) ty by (simp add: like_def set_handle_untold)
qed

lemma tell_zero_spends: "spends free w w1 \<Longrightarrow> spends free w (tell [Told_failure m Connecting 0 c] w1)"
  by (erule tell_spends) simp

lemma exec_disconnect_spends:
  assumes "exec_disconnect e q w = Some (Inr w')"
  shows "spends free w w'"
proof -
  let ?h = "handle_of w (q_client q)"
  let ?w1 = "set_handle (q_client q) (?h\<lparr>connect_state := DISCONNECTING\<rparr>) w"
  let ?w2 = "tell [Told_failure (q_client q) Connecting 0 MQTTASYNC_OPERATION_INCOMPLETE] ?w1"
  have u: "spends free w ?w1" by (intro untold_spends set_handle_untold) simp_all
  show ?thesis
  proof (cases "connect_state ?h \<noteq> NOT_IN_PROGRESS \<or> connected (m_c ?h)")
    case True
    then obtain w0 where w0: "MQTTAsync_checkDisconnect e (q_client q) q w0 = Some (Inr w')" "w0 \<in> {w, ?w1, ?w2}"
      using assms by (simp add: exec_disconnect_def Let_def split: if_split_asm)
    from w0(2) u tell_zero_spends [OF u] have "spends free w w0" by fastforce
    from free_trans [OF this checkDisconnect_spends [OF w0(1)]] show ?thesis .
  next
    case False
    with assms show ?thesis by (simp add: exec_disconnect_def Let_def)
  qed
qed

lemma exec_other_spends:
  assumes "exec_command e q w = Some (Inr (rc, q1, w'))" "connect_keeps e" "cmd_type q \<noteq> PUBLISH"
  shows "spends free w w' \<and> like q q1"
proof -
  have send: "\<exists>r. send_on (q_client q) r q w = Inr (rc, q1, w') \<Longrightarrow> ?thesis" by (auto simp: like_def intro: untold_spends dest!: send_on_untold)
  consider "cmd_type q = CONNECT" | "cmd_type q \<noteq> CONNECT" "cmd_type q = SUBSCRIBE" | "cmd_type q \<noteq> CONNECT" "cmd_type q \<noteq> SUBSCRIBE" "cmd_type q = UNSUBSCRIBE"
    | "cmd_type q \<noteq> CONNECT" "cmd_type q \<noteq> SUBSCRIBE" "cmd_type q \<noteq> UNSUBSCRIBE" by blast
  then show ?thesis
  proof cases
    case 1
    with assms(1) have "exec_connect e q w = Inr (rc, q1, w')" by (simp add: exec_command_def)
    from exec_connect_untold [OF this assms(2) 1] show ?thesis by (simp add: untold_spends)
  next
    case 2
    with assms(1) have "exec_subscribe e q w = Inr (rc, q1, w')" by (simp add: exec_command_def)
    then show ?thesis by (intro send) (auto simp: exec_subscribe_def Let_def bindR_eq_Inr)
  next
    case 3
    with assms(1) have "exec_unsubscribe e q w = Inr (rc, q1, w')" by (simp add: exec_command_def)
    then show ?thesis by (intro send) (auto simp: exec_unsubscribe_def Let_def bindR_eq_Inr)
  next
    case 4
    with assms(1,3) have "exec_disconnect e q w = Some (Inr w')" "q1 = q" by (auto simp: exec_command_def bindO_eq_Inr)
    from exec_disconnect_spends [OF this(1)] this(2) show ?thesis by (simp add: like_def)
  qed
qed

lemma await_spends:
  assumes "cmd_type q \<noteq> CONNECT" "cmd_type q \<noteq> DISCONNECT"
  shows "spends (credit q) w (await_response e q w)"
proof (cases "malloc_ok (aal (pq e)) 24")
  case True
  let ?w = "await_response e q w"
  have w: "told ?w = told w" "commands (aq ?w) = commands (aq w)"
    "responses (handles (aq ?w) m) = (if m = q_client q then responses (handles (aq w) m) @ [q] else responses (handles (aq w) m))"
    "m_connect (handles (aq ?w) m) = m_connect (handles (aq w) m)" for m
    using True by (auto simp: await_response_def Let_def set_handle_def update_handle_def handle_of_def)
  have "pending m t (aq ?w) \<le> pending m t (aq w) + credit q m t" for m t using assms by (auto simp: pending_def w credit_def is_req_def)
  with w show ?thesis by (auto simp: spends_def conn_ok_def)
qed (simp add: await_response_def Let_def)

lemma set_connect_spends: "cmd_type q = CONNECT \<Longrightarrow> responses h = responses (handle_of w m) \<Longrightarrow> m_connect h = q \<Longrightarrow> spends c w (set_handle m h w)"
  by (auto simp: spends_def conn_ok_def pending_def set_handle_def update_handle_def handle_of_def)

lemma next_attempt_type: "cmd_type (next_attempt h q) = CONNECT"
  by (simp add: next_attempt_def Let_def cmd_type_def details_type_def)

text \<open>The report of a failed request is paid for by the request, which has left the queue.\<close>

lemma told_failure_spends:
  assumes "cmd_type q \<noteq> CONNECT" "cmd_type q \<noteq> DISCONNECT" "spends free w w1"
  shows "spends (credit q) w (tell [Told_failure (q_client q) (Request (q_token q)) 0 rc] w1)"
proof (rule spends_trans [OF assms(3)])
  have "reported m t [Told_failure (q_client q) (Request (q_token q)) 0 rc] = credit q m t" for m t
    using assms(1,2) by (auto simp: credit_def is_req_def)
  then show "spends (credit q) w1 (tell [Told_failure (q_client q) (Request (q_token q)) 0 rc] w1)" by (auto simp: spends_def)
qed simp

lemma free_spends: "spends free w w' \<Longrightarrow> spends c w w'"
  by (erule spends_trans [OF _ spends_refl [of free]]) simp

lemma command_failed_spends:
  assumes "command_failed e rc q w = Some (Inr w')" "cmd_type q \<noteq> DISCONNECT"
  shows "spends (credit q) w w'"
proof -
  let ?m = "q_client q" and ?conn = "cmd_type q = CONNECT"
  obtain st where st: "(if ?conn then bindR (MQTTAsync_disconnect (pq e) (Some ?m) (Some disconnectOptions_initializer) (aq w))
              (\<lambda>(_, st). Inr (update_handle ?m (\<lambda>h. h\<lparr>shouldBeConnected := True\<rparr>) st))
            else bindR (MQTTAsync_disconnect_internal (pq e) (Some ?m) 0 (aq w)) (\<lambda>(_, st). Inr st)) = Inr st"
    and rest: "(let w1 = w\<lparr>aq := st\<rparr> in if ?conn \<and> MQTTAsync_checkConn q (handle_of w1 ?m) then
            Some (bindR (MQTTAsync_addCommand (pq e) (next_attempt (handle_of w1 ?m) q) (aq w1)) (\<lambda>(_, st). Inr (w1\<lparr>aq := st\<rparr>)))
          else
            let w2 = (if reports_failure q then tell [Told_failure ?m (if ?conn then Connecting else Request (q_token q)) 0 rc] w1 else w1) in
            if ?conn then start_retry e ?m (set_handle ?m ((handle_of w2 ?m)\<lparr>m_connect := q\<rparr>) w2) else Some (Inr w2)) = Some (Inr w')"
    using assms(1) by (auto simp: command_failed_def Let_def bindO_eq_Inr bindR_eq_Inr split: if_splits)
  have 1: "spends free w (w\<lparr>aq := st\<rparr>)"
  proof (cases ?conn)
    case True
    then obtain rc0 st0 where d: "MQTTAsync_disconnect (pq e) (Some ?m) (Some disconnectOptions_initializer) (aq w) = Inr (rc0, st0)"
      "st = update_handle ?m (\<lambda>h. h\<lparr>shouldBeConnected := True\<rparr>) st0" using st by (auto simp: bindR_eq_Inr)
    then have "untold (w\<lparr>aq := st0\<rparr>) (w\<lparr>aq := st\<rparr>)" by (auto simp: untold_def update_handle_def)
    with disconnect_spends [OF d(1)] show ?thesis using free_trans untold_spends by blast
  next
    case False
    then show ?thesis using st disconnect_internal_spends by (auto simp: bindR_eq_Inr)
  qed
  show ?thesis
  proof (cases ?conn)
    case False
    with rest show ?thesis using told_failure_spends [OF False assms(2) 1, of rc] free_spends [OF 1] by (auto simp: Let_def split: if_split_asm)
  next
    case True
    define w2 where "w2 = (if reports_failure q then tell [Told_failure ?m Connecting 0 rc] (w\<lparr>aq := st\<rparr>) else w\<lparr>aq := st\<rparr>)"
    have 2: "spends free w w2" unfolding w2_def using tell_zero_spends [OF 1] 1 by simp
    consider rc1 st1 where "MQTTAsync_addCommand (pq e) (next_attempt (handle_of (w\<lparr>aq := st\<rparr>) ?m) q) (aq (w\<lparr>aq := st\<rparr>)) = Inr (rc1, st1)" "w' = w\<lparr>aq := st\<rparr>\<lparr>aq := st1\<rparr>"
      | "start_retry e ?m (set_handle ?m ((handle_of w2 ?m)\<lparr>m_connect := q\<rparr>) w2) = Some (Inr w')"
      using rest True by (auto simp: Let_def w2_def bindR_eq_Inr split: if_splits)
    then have "spends free w w'"
    proof cases
      case 1
      from addCommand_spends [OF 1(1) disjI1 [OF next_attempt_type]] 1(2) free_trans [OF \<open>spends free w (w\<lparr>aq := st\<rparr>)\<close>] show ?thesis by simp
    next
      case 2
      have "spends free w (set_handle ?m ((handle_of w2 ?m)\<lparr>m_connect := q\<rparr>) w2)"
        using free_trans [OF \<open>spends free w w2\<close> set_connect_spends] True by simp
      with start_retry_spends [OF 2] show ?thesis by blast
    qed
    then show ?thesis by (rule free_spends)
  qed
qed

lemma finish_spends:
  assumes "finish_command e rc q w = Some (Inr w')"
  shows "spends (credit q) w w'"
proof -
  let ?t = "cmd_type q" and ?bad = "rc = SOCKET_ERROR \<or> rc = MQTTASYNC_PERSISTENCE_ERROR"
  have ne: "PUBLISH \<noteq> CONNECT" "PUBLISH \<noteq> DISCONNECT" by (simp_all add: packet_types)
  consider "?t = CONNECT" "\<not> ?bad" | "?t = DISCONNECT" "?t \<noteq> CONNECT \<or> ?bad" | "?t \<noteq> DISCONNECT" "?bad" | "?t \<noteq> CONNECT" "?t \<noteq> DISCONNECT" "\<not> ?bad" by blast
  then show ?thesis
  proof cases
    case 1
    with assms have "w' = set_handle (q_client q) ((handle_of w (q_client q))\<lparr>m_connect := q\<rparr>) w" by (simp add: finish_command_def Let_def)
    with 1(1) show ?thesis by (simp add: set_connect_spends)
  next
    case 2
    with assms have "w' = set_handle (q_client q) ((handle_of w (q_client q))\<lparr>m_disconnect := q\<rparr>) w" by (simp add: finish_command_def Let_def split: if_split_asm)
    then show ?thesis by (simp add: untold_spends set_handle_untold)
  next
    case 3
    then have "command_failed e rc q w = Some (Inr w')" using assms by (simp add: finish_command_def Let_def split: if_split_asm)
    then show ?thesis using 3(1) by (rule command_failed_spends)
  next
    case 4
    then have "w' = await_response e q w \<or> w' = w" using assms by (simp add: finish_command_def Let_def split: if_split_asm)
    with await_spends [OF 4(1,2)] show ?thesis by fastforce
  qed
qed

lemma publish_effect:
  assumes "exec_publish e q w = Inr (rc, q1, w1)" "cmd_type q = PUBLISH"
  shows "untold w w1 \<and> like q q1 \<or> q1 = q \<and> rc = TCPSOCKET_COMPLETE \<and> pub_qos (q_details q) = 0 \<and>
    (\<exists>v. untold w v \<and> w1 = tell [Told_success (q_client q) (Request (q_token q)) (q_token q)] v)"
proof -
  let ?m = "q_client q" and ?d = "q_details q"
  have ty: "cmd_type (q\<lparr>q_details := Pub_details a b c d r\<rparr>) = PUBLISH" for a b c d r by (simp add: cmd_type_def details_type_def)
  from assms(1) obtain rc0 c st where pub: "MQTTProtocol_startPublish (pp e) (publish_packet e q (MQTTVersion (m_c (handle_of w ?m)))) (pub_qos ?d)
      (pub_retained ?d) (m_c (handle_of w ?m)) (proto w) = Inr (rc0, c, st)" by (auto simp: exec_publish_def Let_def bindR_eq_Inr guardR_eq_Inr)
  define v where "v = set_handle ?m ((handle_of w ?m)\<lparr>m_c := c\<rparr>) (w\<lparr>proto := st\<rparr>)"
  have "untold w (w\<lparr>proto := st\<rparr>)" "handle_of (w\<lparr>proto := st\<rparr>) ?m = handle_of w ?m" by (simp_all add: untold_def handle_of_def)
  then have u: "untold w v" unfolding v_def by (intro set_handle_untold) simp_all
  have u2: "untold w (set_handle ?m ((handle_of v ?m)\<lparr>pending_write := x\<rparr>) v)" for x by (rule set_handle_untold [OF u]) simp_all
  show ?thesis
  proof (cases "pub_qos ?d = 0")
    case True
    with assms pub u u2 show ?thesis by (auto simp: exec_publish_def Let_def guardR_eq_Inr v_def [symmetric] like_def ty split: if_split_asm)
  next
    case False
    with assms pub u show ?thesis by (auto simp: exec_publish_def Let_def guardR_eq_Inr v_def [symmetric] like_def ty)
  qed
qed

lemma publish_spends:
  assumes "exec_publish e q w = Inr (rc, q1, w1)" "finish_command e rc q1 w1 = Some (Inr w2)" "cmd_type q = PUBLISH"
  shows "spends (credit q) w w2"
  using publish_effect [OF assms(1,3)]
proof (elim disjE conjE exE)
  assume a: "untold w w1" "like q q1"
  from spends_trans [OF untold_spends [OF a(1)] finish_spends [OF assms(2)], of free "credit q"] like_credit [OF a(2)] show ?thesis by simp
next
  fix v
  assume a: "untold w v" "w1 = tell [Told_success (q_client q) (Request (q_token q)) (q_token q)] v" and "q1 = q" "rc = TCPSOCKET_COMPLETE" "pub_qos (q_details q) = 0"
  then have "w2 = w1" using assms(2,3)
    by (simp add: finish_command_def Let_def packet_types TCPSOCKET_COMPLETE_def SOCKET_ERROR_def MQTTASYNC_PERSISTENCE_ERROR_def TCPSOCKET_INTERRUPTED_def)
  moreover have "reported m t [Told_success (q_client q) (Request (q_token q)) (q_token q)] = credit q m t" for m t
    using assms(3) by (auto simp: credit_def is_req_def packet_types)
  then have "spends (credit q) v w1" by (auto simp: spends_def a(2))
  ultimately show ?thesis using spends_trans [OF untold_spends [OF a(1)] \<open>spends (credit q) v w1\<close>, of free "credit q"] by simp
qed

lemma take_spends:
  assumes "take_command al ok st = Inr (Some q, st')"
  shows "pending m t st' + credit q m t \<le> pending m t st" "conn_ok st \<Longrightarrow> conn_ok st'"
proof -
  obtain i where i: "select_command al (eligible ok (handles st)) [] (commands st) = Some i" "q = commands st ! i"
    "commands st' = remove_nth i (commands st)" "responses (handles st' k) = responses (handles st k)" "m_connect (handles st' k) = m_connect (handles st k)" for k
    using assms by (auto simp: take_command_def Let_def guardR_eq_Inr update_handle_def split: option.splits)
  have "j < length qs" if "select_command al f ign qs = Some j" for f ign qs j using that
    by (induction al f ign qs arbitrary: j rule: select_command.induct) (auto split: if_splits)
  with i(1) have "i < length (commands st)" by blast
  from remove_nth_filter_eq [OF this, of "is_req m t"] i(2-) show "pending m t st' + credit q m t \<le> pending m t st"
    by (simp add: pending_def credit_def)
  show "conn_ok st \<Longrightarrow> conn_ok st'" using i(5) by (simp add: conn_ok_def)
qed

lemma processCommand_spends:
  assumes "MQTTAsync_processCommand e w = Some (Inr (found, w'))" "connect_keeps e"
  shows "spends free w w'"
proof -
  obtain r st where t: "take_command (aal (pq e)) (idle e) (aq w) = Inr (r, st)" using assms(1) by (auto simp: MQTTAsync_processCommand_def bindO_eq_Inr)
  show ?thesis
  proof (cases r)
    case None
    with t have "st = aq w" by (auto simp: take_command_def Let_def guardR_eq_Inr split: option.splits)
    with None t assms(1) show ?thesis by (auto simp: MQTTAsync_processCommand_def)
  next
    case (Some q)
    let ?w1 = "w\<lparr>aq := st\<rparr>"
    have "spends (credit q) ?w1 w'"
    proof (cases "cmd_type q = PUBLISH")
      case True
      have ex: "exec_command e q ?w1 = Some (exec_publish e q ?w1)" using True by (simp add: exec_command_def packet_types)
      from t Some assms(1) True ex consider "w' = ?w1" | rc q1 w2 where "exec_publish e q ?w1 = Inr (rc, q1, w2)" "finish_command e rc q1 w2 = Some (Inr w')"
        by (auto simp: MQTTAsync_processCommand_def Let_def bindO_eq_Inr split: if_split_asm)
      then show ?thesis by cases (use publish_spends True in auto)
    next
      case False
      with t Some assms(1) obtain rc q1 w2 where "exec_command e q ?w1 = Some (Inr (rc, q1, w2))" "finish_command e rc q1 w2 = Some (Inr w')"
        by (auto simp: MQTTAsync_processCommand_def Let_def bindO_eq_Inr)
      with exec_other_spends [OF this(1) assms(2) False] finish_spends [OF this(2)] like_credit [of q q1] show ?thesis
        using spends_trans [of free ?w1 w2 "credit q" w' "credit q"] by simp
    qed
    with take_spends [OF t [unfolded Some]] show ?thesis
      unfolding spends_def by simp (meson add_le_cancel_right add_le_mono le_refl order_trans)
  qed
qed

lemma nextOrClose_spends:
  assumes "nextOrClose e m rc w = Some (Inr w')" "conn_ok (aq w)"
  shows "spends free w w'"
proof (cases "MQTTAsync_checkConn (m_connect (handle_of w m)) (handle_of w m)")
  case True
  then obtain w1 where w1: "MQTTAsync_closeOnly e m 0 None w = Inr w1" using assms(1) by (auto simp: nextOrClose_def Let_def bindR_eq_Inr)
  note u = untold_spends [OF closeOnly_untold [OF w1]]
  from True w1 assms(1) have "w' = w1 \<or> (\<exists>q rc st. cmd_type q = CONNECT \<and> MQTTAsync_addCommand (pq e) q (aq w1) = Inr (rc, st) \<and> w' = w1\<lparr>aq := st\<rparr>)"
    by (auto simp: nextOrClose_def Let_def bindR_eq_Inr next_attempt_type split: if_split_asm intro!: exI [where x = "next_attempt _ _"])
  then show ?thesis using u free_trans [OF u addCommand_spends] by blast
next
  case False
  then obtain w1 where w1: "MQTTAsync_closeSession e m 0 None w = Inr w1" using assms(1) by (auto simp: nextOrClose_def Let_def bindO_eq_Inr)
  with False assms(1) have r: "start_retry e m (if reports_failure (m_connect (handle_of w m)) then tell [Told_failure m Connecting 0 rc] w1 else w1) = Some (Inr w')"
    by (simp add: nextOrClose_def Let_def)
  show ?thesis by (rule start_retry_spends [OF r]) (use closeSession_spends [OF w1] tell_zero_spends [OF closeSession_spends [OF w1]] in simp)
qed

section \<open>The receiving side\<close>

lemma then_spends: "spends free (u :: recv_world) (v :: recv_world) \<Longrightarrow> spends free v (w :: recv_world) \<Longrightarrow> spends free u w"
  by (rule free_trans)

lemma on_world_spends:
  assumes "on_world f w = Some (Inr w')" "\<And>v. f (async_world.truncate w) = Some (Inr v) \<Longrightarrow> spends free (async_world.truncate w) v"
  shows "spends free w w'"
proof -
  from assms(1) obtain v where v: "f (async_world.truncate w) = Some (Inr v)" "w' = w\<lparr>aq := aq v, proto := proto v, told := told v, shut := shut v, dialled := dialled v\<rparr>"
    by (auto simp: on_world_def bindO_eq_Inr)
  from assms(2) [OF v(1)] show ?thesis by (simp add: spends_def v(2) async_world.truncate_def)
qed

lemma next_or_close_spends: "next_or_close e m rc w = Some (Inr w') \<Longrightarrow> conn_ok (aq w) \<Longrightarrow> spends free w w'"
  unfolding next_or_close_def by (erule on_world_spends) (auto intro: nextOrClose_spends simp: async_world.truncate_def)

lemma clean_session_spends:
  assumes "clean_session e m w = Inr (rc, w')"
  shows "spends free w w'"
proof -
  from assms obtain v where v: "MQTTAsync_cleanSession (pe_of e) m (async_world.truncate w) = Inr (rc, v)"
    "w' = w\<lparr>aq := aq v, proto := proto v, told := told v, shut := shut v, dialled := dialled v\<rparr>" by (auto simp: clean_session_def bindR_eq_Inr)
  from cleanSession_spends [OF v(1)] show ?thesis by (simp add: spends_def v(2) async_world.truncate_def)
qed

lemma put_client_untold:
  "untold w w1 \<Longrightarrow> responses h = responses (client_of w1 m) \<Longrightarrow> m_connect h = m_connect (client_of w1 m) \<Longrightarrow> untold w (put_client m h w1)"
  by (auto simp: untold_def put_client_def update_handle_def client_of_def)

lemma put_client_simps [simp]:
  "client_of (put_client m h w) k = (if k = m then h else client_of w k)" "told (put_client m h w) = told w"
  "conf (put_client m h w) = conf w" "live (put_client m h w) = live w" "proto (put_client m h w) = proto w"
  "client_of (notify ts w) k = client_of w k" "client_of (w\<lparr>proto := st\<rparr>) k = client_of w k" "conf (notify ts w) = conf w"
  by (simp_all add: put_client_def client_of_def update_handle_def notify_def)

lemma notify_spends:
  assumes "spends free w w1" "\<And>m t. reported m t ts = 0"
  shows "spends free w (notify ts w1)"
  by (rule free_trans [OF assms(1)]) (use assms(2) in \<open>auto simp: spends_def notify_def\<close>)

lemma untold_proto [simp]: "untold w (w\<lparr>proto := st\<rparr>)"
  by (simp add: untold_def)

lemma proto_closeSession_spends: "MQTTProtocol_closeSession e m w = Inr w' \<Longrightarrow> spends free w w'"
  by (auto simp: MQTTProtocol_closeSession_def bindR_eq_Inr intro: disconnect_internal_spends)

lemma keepalive_one_spends:
  assumes "keepalive_one e m w = Inr w'"
  shows "spends free w w'"
proof -
  from assms obtain c where c: "(if good c \<noteq> good (m_c (client_of w m)) then MQTTProtocol_closeSession e m
      (put_client m ((client_of w m)\<lparr>m_c := c\<lparr>good := good (m_c (client_of w m))\<rparr>\<rparr>) w)
      else Inr (put_client m ((client_of w m)\<lparr>m_c := c\<lparr>good := good (m_c (client_of w m))\<rparr>\<rparr>) w)) = Inr w'" (is "(if _ then _ else Inr ?v) = _")
    by (auto simp: keepalive_one_def Let_def bindR_eq_Inr)
  have "spends free w ?v" by (intro untold_spends put_client_untold) simp_all
  with c show ?thesis by (auto split: if_split_asm intro: then_spends proto_closeSession_spends)
qed

lemma retry_one_spends:
  assumes "retry_one e doRetry regardless m w = Inr w'"
  shows "spends free w w'"
proof -
  have u: "spends free w (put_client m ((client_of w m)\<lparr>m_c := c\<rparr>) w)" for c by (intro untold_spends put_client_untold) simp_all
  have "w' = w \<or> MQTTProtocol_closeSession e m w = Inr w' \<or>
      (\<exists>c. w' = put_client m ((client_of w m)\<lparr>m_c := c\<rparr>) w \<or> MQTTProtocol_closeSession e m (put_client m ((client_of w m)\<lparr>m_c := c\<rparr>) w) = Inr w')"
    using assms by (auto simp: retry_one_def Let_def bindR_eq_Inr split: if_split_asm)
  then show ?thesis by (elim disjE exE) (auto intro: u then_spends [OF u] proto_closeSession_spends)
qed

lemma for_clients_spends:
  assumes "\<And>m u v. f m u = Inr v \<Longrightarrow> spends free u v"
  shows "for_clients f ms w = Inr w' \<Longrightarrow> spends free w w'"
  by (induction ms arbitrary: w) (auto simp: bindR_eq_Inr intro: then_spends assms)

lemma retry_spends:
  assumes "MQTTAsync_retry e w = Inr w'"
  shows "spends free w w'"
proof -
  have "for_clients (retry_one e b False) (live v) v = Inr v' \<Longrightarrow> spends free v v'" for b v v' by (erule for_clients_spends [rotated]) (rule retry_one_spends)
  moreover have "for_clients (keepalive_one e) ms v = Inr v' \<Longrightarrow> spends free v v'" for ms v v'
    by (erule for_clients_spends [rotated]) (rule keepalive_one_spends)
  moreover have "spends free w (w\<lparr>last_retry := x\<rparr>)" for x by (rule untold_spends) (simp add: untold_def)
  moreover have "(\<exists>v. for_clients (keepalive_one e) (live w) (w\<lparr>last_retry := clock (pq e)\<rparr>) = Inr v \<and> for_clients (retry_one e True False) (live v) v = Inr w') \<or>
      for_clients (retry_one e False False) (live w) w = Inr w'"
    using assms by (auto simp: MQTTAsync_retry_def bindR_eq_Inr split: if_split_asm)
  ultimately show ?thesis by (metis then_spends)
qed

lemma send_connect_untold: "send_connect e m w = Inr (rc, w') \<Longrightarrow> untold w w'"
  by (auto simp: send_connect_def Let_def bindR_eq_Inr intro!: put_client_untold)

lemma tcp_connected_untold: "tcp_connected e m uri w = Inr (rc, w') \<Longrightarrow> untold w w'"
  by (auto simp: tcp_connected_def Let_def split: if_split_asm prod.splits intro!: put_client_untold dest: send_connect_untold)

lemma connecting_step_untold:
  assumes "connecting_step e m uri w = Inr (rc, w')"
  shows "untold w w'"
proof -
  have u: "untold w (put_client m ((client_of w m)\<lparr>m_c := c\<rparr>) w)" for c by (intro put_client_untold) simp_all
  from assms consider "tcp_connected e m uri w = Inr (rc, w')" | c where "w' = put_client m ((client_of w m)\<lparr>m_c := c\<rparr>) w"
    | c where "send_connect e m (put_client m ((client_of w m)\<lparr>m_c := c\<rparr>) w) = Inr (rc, w')" | "w' = w"
    by (auto simp: connecting_step_def Let_def split: if_split_asm prod.splits)
  then show ?thesis by cases (auto intro: u tcp_connected_untold untold_trans [OF u send_connect_untold])
qed

lemma connecting_spends:
  assumes "MQTTAsync_connecting e m w = Some (Inr (rc, w'))" "conn_ok (aq w)"
  shows "spends free w w'"
proof -
  from assms(1) obtain uri rc1 w1 where 1: "connecting_step e m uri w = Inr (rc1, w1)"
    and 2: "w' = w1 \<or> next_or_close e m MQTTASYNC_FAILURE w1 = Some (Inr w')"
    by (auto simp: MQTTAsync_connecting_def Let_def bindO_eq_Inr bindR_eq_Inr split: if_split_asm)
  then have u: "spends free w w1" and "conn_ok (aq w1)"
    using assms(2) connecting_step_untold [OF 1] by (auto intro: untold_spends simp: untold_def conn_ok_def)
  with 2 show ?thesis by (auto intro: then_spends next_or_close_spends)
qed

text \<open>A request that is taken from the list of those that wait may be reported, once.\<close>

lemma take_response_spends:
  assumes "commands (aq w') = commands (aq w)" "\<And>k. handles (aq w') k = (if k = m then h else handles (aq w) k)" "told w' = told w @ ts"
    and "responses h = remove_nth i (responses (handles (aq w) m))" "m_connect h = m_connect (handles (aq w) m)"
    and "i < length (responses (handles (aq w) m))" "\<And>k t. reported k t ts \<le> (if k = m \<and> t = q_token (responses (handles (aq w) m) ! i) then 1 else 0)"
  shows "spends free w w'"
proof -
  have "reported k t ts + pending k t (aq w') \<le> pending k t (aq w)" for k t
  proof (cases "k = m")
    case True
    with assms(7) [of k t] remove_nth_filter_eq [OF assms(6), of "\<lambda>q. q_token q = t"] show ?thesis
      by (auto simp: pending_def assms(1,2,4) split: if_split_asm)
  next
    case False
    with assms(7) [of k t] show ?thesis by (simp add: pending_def assms(1,2))
  qed
  with assms(2,3,5) show ?thesis by (auto simp: spends_def conn_ok_def)
qed

lemma answered_spends:
  assumes "answered msgid (client_of w m) = Some (q, h)" "\<And>k t. reported k t ts \<le> (if k = m \<and> t = q_token q then 1 else 0)"
  shows "spends free w (notify ts (put_client m h w))"
proof -
  from assms(1) obtain i where i: "first_index (\<lambda>q. q_token q = msgid) (responses (client_of w m)) = Some i" "q = responses (client_of w m) ! i"
    "h = (client_of w m)\<lparr>responses := remove_nth i (responses (client_of w m))\<rparr>" by (auto simp: answered_def split: option.splits)
  then have "i < length (responses (client_of w m))" by (simp add: first_index_Some)
  with assms(2) i(2,3) show ?thesis
    by (intro take_response_spends [where m = m and h = h and i = i and ts = ts]) (auto simp: notify_def put_client_def update_handle_def client_of_def)
qed

lemma receive_answer_spends:
  assumes "receive_answer m msgid r w = Inr w'" "\<And>q ts k t. r q = Inr ts \<Longrightarrow> reported k t ts \<le> (if k = m \<and> t = q_token q then 1 else 0)"
  shows "spends free w w'"
  using assms(1) by (auto simp: receive_answer_def bindR_eq_Inr split: option.splits prod.splits intro: answered_spends assms(2))

lemma report_ack_spends:
  assumes "report_ack m msgid ackrc w = Inr w'"
  shows "spends free w w'"
proof -
  let ?w1 = "if dc_set (conf w m) then notify [Told_deliveryComplete m msgid] w else w"
  have 1: "spends free w ?w1" using notify_spends [of w w "[Told_deliveryComplete m msgid]"] by simp
  have "spends free ?w1 w'"
    using assms unfolding report_ack_def by (rule receive_answer_spends) (auto simp: publish_report_def split: if_split_asm)
  from then_spends [OF 1 this] show ?thesis .
qed

lemma with_handler_spends: "with_handler f m w = Inr (rc, w') \<Longrightarrow> spends free w w'"
  by (auto simp: with_handler_def Let_def bindR_eq_Inr intro!: untold_spends put_client_untold)

lemma handle_ack_spends:
  assumes "handle_ack e m a w = Inr (rc, w')"
  shows "spends free w w'"
proof -
  from assms obtain f w1 msgid ackrc where f: "with_handler f m w = Inr (rc, w1)" "w' = w1 \<or> report_ack m msgid ackrc w1 = Inr w'"
    by (auto simp: handle_ack_def Let_def bindR_eq_Inr split: if_split_asm)
  then show ?thesis using then_spends [OF with_handler_spends [OF f(1)] report_ack_spends] with_handler_spends [OF f(1)] by auto
qed

lemma cycle_packet_spends: "cycle_packet e m rc p w = Inr (rc', p', w') \<Longrightarrow> spends free w w'"
  by (auto simp: cycle_packet_def bindR_eq_Inr split: packet.splits if_split_asm intro: with_handler_spends handle_ack_spends)

lemma conn_ok_spends: "conn_ok (aq w) \<Longrightarrow> spends c w w' \<Longrightarrow> conn_ok (aq w')"
  by (simp add: spends_def)

lemma cycle_client_spends:
  assumes "(if connect_state (client_of w m) \<in> S then bindO (MQTTAsync_connecting e m w) (\<lambda>(rc, w1). Some (Inr (rc, None, w1))) else Some (Inr (a, b, w)))
      = Some (Inr (rc, pack, w1))"
    and "(if P then next_or_close e m MQTTASYNC_FAILURE w1 else Some (Inr w1)) = Some (Inr w2)"
    and "(case pack of None \<Rightarrow> Some (Inr (rc, None, w2)) | Some p \<Rightarrow> Some (cycle_packet e m rc p w2)) = Some (Inr (rc', pack', w3))" "conn_ok (aq w)"
  shows "spends free w w3"
proof -
  have 1: "spends free w w1" using assms(1,4) by (auto simp: bindO_eq_Inr split: if_split_asm intro: connecting_spends)
  moreover have 2: "spends free w1 w2" using assms(2) conn_ok_spends [OF assms(4) 1] by (auto split: if_split_asm intro: next_or_close_spends)
  moreover have "spends free w2 w3" using assms(3) by (auto split: option.splits intro: cycle_packet_spends)
  ultimately show ?thesis using then_spends by blast
qed

lemma cycle_spends:
  assumes "MQTTAsync_cycle e sock factory w = Some (Inr (rc, pack, w'))" "conn_ok (aq w)"
  shows "spends free w w'"
proof -
  let ?f = "if 0 < sock then find_sock sock w else None"
  from assms(1) obtain rc1 pack1 w1 where w1: "MQTTAsync_retry e w1 = Inr w'" and
    f: "(case ?f of
          None \<Rightarrow> Some (Inr (SOCKET_ERROR, None, w))
        | Some m \<Rightarrow>
            bindO (if connect_state (client_of w m) \<in> {TCP_IN_PROGRESS, SSL_IN_PROGRESS, WEBSOCKET_IN_PROGRESS}
                   then bindO (MQTTAsync_connecting e m w) (\<lambda>(rc, w1). Some (Inr (rc, None, w1)))
                   else Some (Inr (fst factory, snd factory, w))) (\<lambda>(rc, pack, w1).
            bindO (if connect_state (client_of w1 m) = WAIT_FOR_CONNACK \<and> rc = SOCKET_ERROR then next_or_close e m MQTTASYNC_FAILURE w1 else Some (Inr w1)) (\<lambda>w2.
              case pack of None \<Rightarrow> Some (Inr (rc, None, w2)) | Some p \<Rightarrow> Some (cycle_packet e m rc p w2)))) = Some (Inr (rc1, pack1, w1))"
    unfolding MQTTAsync_cycle_def bindO_eq_Inr by (auto simp: bindR_eq_Inr)
  have "spends free w w1"
  proof (cases ?f)
    case None
    with f show ?thesis by simp
  next
    case (Some m)
    from f [unfolded Some option.case bindO_eq_Inr] obtain rc2 pack2 w2 w3 where
      "(if connect_state (client_of w m) \<in> {TCP_IN_PROGRESS, SSL_IN_PROGRESS, WEBSOCKET_IN_PROGRESS}
                   then bindO (MQTTAsync_connecting e m w) (\<lambda>(rc, w1). Some (Inr (rc, None, w1)))
                   else Some (Inr (fst factory, snd factory, w))) = Some (Inr (rc2, pack2, w2))"
      "(if connect_state (client_of w2 m) = WAIT_FOR_CONNACK \<and> rc2 = SOCKET_ERROR then next_or_close e m MQTTASYNC_FAILURE w2 else Some (Inr w2)) = Some (Inr w3)"
      "(case pack2 of None \<Rightarrow> Some (Inr (rc2, None, w3)) | Some p \<Rightarrow> Some (cycle_packet e m rc2 p w3)) = Some (Inr (rc1, pack1, w1))"
      by (clarsimp simp: bindO_eq_Inr)
    from cycle_client_spends [OF this assms(2)] show ?thesis .
  qed
  from then_spends [OF this retry_spends [OF w1]] show ?thesis .
qed

lemma resend_spends:
  assumes "resend e m rc w = Inr (rc', w')"
  shows "spends free w w'"
proof -
  have retries: "for_clients (retry_one e True True) ms v = Inr v' \<Longrightarrow> spends free v v'" for ms v v'
    by (erule for_clients_spends [rotated]) (rule retry_one_spends)
  have out: "spends free w (put_client m ((client_of w m)\<lparr>m_c := c\<rparr>) w)" for c by (intro untold_spends put_client_untold) simp_all
  from assms show ?thesis by (auto simp: resend_def Let_def bindR_eq_Inr split: if_split_asm intro: then_spends [OF out retries])
qed

lemma completeConnection_spends:
  assumes "MQTTAsync_completeConnection e m ca w = Inr (rc, w')"
  shows "spends free w w'"
proof (cases "connect_state (client_of w m) \<noteq> WAIT_FOR_CONNACK \<or> ca_rc ca \<noteq> 0")
  case True
  with assms show ?thesis by (auto simp: MQTTAsync_completeConnection_def Let_def split: if_split_asm)
next
  case False
  define w1 where "w1 = put_client m ((client_of w m)\<lparr>retrying := False, connect_state := NOT_IN_PROGRESS,
    m_c := (m_c (client_of w m))\<lparr>connected := True, good := True\<rparr>\<rparr>) w"
  have 1: "spends free w w1" unfolding w1_def by (intro untold_spends put_client_untold) simp_all
  from False assms obtain rc1 w2 where 2: "w2 = w1 \<or> clean_session e m w1 = Inr (rc1, w2)" and 3: "resend e m rc1 w2 = Inr (rc, w')"
    by (auto simp: MQTTAsync_completeConnection_def Let_def bindR_eq_Inr w1_def [symmetric] split: if_split_asm)
  from 2 have "spends free w w2" using 1 then_spends [OF 1 clean_session_spends] by blast
  from then_spends [OF this resend_spends [OF 3]] show ?thesis .
qed

lemma connect_report_same:
  "connect_report m cf h = Inr (ts, h') \<Longrightarrow> responses h' = responses h \<and> q_details (m_connect h') = q_details (m_connect h) \<and> reported k t ts = 0"
  by (auto simp: connect_report_def Let_def guardR_eq_Inr split: if_split_asm)

lemma receive_maximum_same: "receive_maximum ca h = Inr h' \<Longrightarrow> responses h' = responses h \<and> m_connect h' = m_connect h"
  by (auto simp: receive_maximum_def bindR_eq_Inr split: if_split_asm option.splits)

lemma receive_connack_spends:
  assumes "receive_connack e m ca w = Some (Inr w')" "conn_ok (aq w)"
  shows "spends free w w'"
proof -
  from assms(1) obtain rc w1 where 1: "MQTTAsync_completeConnection e m ca w = Inr (rc, w1)"
    and 2: "(\<exists>ts h1 h2. connect_report m (conf w1 m) (client_of w1 m) = Inr (ts, h1) \<and> receive_maximum ca h1 = Inr h2 \<and> w' = notify ts (put_client m h2 w1)) \<or>
       next_or_close e m rc w1 = Some (Inr w')"
    by (auto simp: receive_connack_def bindO_eq_Inr bindR_eq_Inr split: if_split_asm)
  note s = completeConnection_spends [OF 1]
  note ok = conn_ok_spends [OF assms(2) s]
  from 2 have "spends free w1 w'"
  proof (elim disjE exE conjE)
    fix ts h1 h2
    assume a: "connect_report m (conf w1 m) (client_of w1 m) = Inr (ts, h1)" "receive_maximum ca h1 = Inr h2" and w': "w' = notify ts (put_client m h2 w1)"
    have "responses h2 = responses (client_of w1 m)" "cmd_type (m_connect h2) = cmd_type (m_connect (client_of w1 m))"
      using connect_report_same [OF a(1)] receive_maximum_same [OF a(2)] by (simp_all add: cmd_type_def)
    with ok have "spends free w1 (put_client m h2 w1)"
      by (auto simp: spends_def conn_ok_def pending_def put_client_def update_handle_def client_of_def)
    then show ?thesis unfolding w' by (rule notify_spends) (use connect_report_same [OF a(1)] in simp)
  qed (rule next_or_close_spends [OF _ ok])
  from then_spends [OF s this] show ?thesis .
qed

lemma reports_once:
  "suback_report m v s q = Inr ts \<Longrightarrow> reported k t ts \<le> (if k = m \<and> t = q_token q then 1 else 0)"
  "unsuback_report m u q = Inr ts \<Longrightarrow> reported k t ts \<le> (if k = m \<and> t = q_token q then 1 else 0)"
  by (auto simp: suback_report_def unsuback_report_def Let_def guardR_eq_Inr split: if_split_asm)

lemma receive_packet_spends:
  assumes "receive_packet e m p w = Some (Inr w')" "conn_ok (aq w)"
  shows "spends free w w'"
proof (cases p)
  case (P_Connack c)
  with assms receive_connack_spends show ?thesis by (simp add: receive_packet_def)
next
  case (P_Suback s)
  with assms(1) have "receive_answer m (sub_msgId s) (suback_report m (MQTTVersion (m_c (client_of w m))) s) w = Inr w'"
    by (auto simp: receive_packet_def bindR_eq_Inr)
  then show ?thesis by (rule receive_answer_spends) (rule reports_once)
next
  case (P_Unsuback u)
  with assms(1) have "receive_answer m (uns_msgId u) (unsuback_report m u) w = Inr w'" by (auto simp: receive_packet_def bindR_eq_Inr)
  then show ?thesis by (rule receive_answer_spends) (rule reports_once)
next
  case (P_Ack a)
  with assms(1) show ?thesis by (auto simp: receive_packet_def bindR_eq_Inr split: if_split_asm intro!: notify_spends)
qed (use assms(1) in \<open>auto simp: receive_packet_def\<close>)

lemma deliver_queued_spends: "spends free w (deliver_queued e m w)"
  by (auto simp: deliver_queued_def Let_def split: list.splits intro!: untold_spends put_client_untold)

lemma receive_handle_spends:
  assumes "receive_handle e sock rc pack w = Some (Inr w')" "conn_ok (aq w)"
  shows "spends free w w'"
proof (cases "sock = 0 \<or> find_sock sock w = None")
  case True
  with assms(1) show ?thesis by (auto simp: receive_handle_def split: if_split_asm)
next
  case False
  then obtain m where m: "find_sock sock w = Some m" by auto
  show ?thesis
  proof (cases "rc = SOCKET_ERROR")
    case True
    with False m assms(1) obtain w1 where w1: "(if connected (m_c (client_of w m)) then MQTTProtocol_closeSession e m w else Inr w) = Inr w1"
      "next_or_close e m rc w1 = Some (Inr w')" by (auto simp: receive_handle_def bindO_eq_Inr)
    then have u: "spends free w w1" by (auto intro: proto_closeSession_spends split: if_split_asm)
    from then_spends [OF u next_or_close_spends [OF w1(2) conn_ok_spends [OF assms(2) u]]] show ?thesis .
  next
    case False
    note u = deliver_queued_spends [of w e m]
    from False \<open>\<not> (sock = 0 \<or> _)\<close> m assms(1) have "(case pack of None \<Rightarrow> Some (Inr (deliver_queued e m w))
        | Some p \<Rightarrow> receive_packet e m p (deliver_queued e m w)) = Some (Inr w')" by (simp add: receive_handle_def Let_def)
    then show ?thesis using u then_spends [OF u receive_packet_spends [OF _ conn_ok_spends [OF assms(2) u]]] by (cases pack) auto
  qed
qed

lemma same_tokens_spends:
  assumes "map q_token (responses h) = map q_token (responses (client_of w m))" "m_connect h = m_connect (client_of w m)"
  shows "spends free w (put_client m h w)"
proof -
  have "length (filter (\<lambda>q. q_token q = t) qs) = count_list (map q_token qs) t" for t qs by (induction qs) auto
  then have "length (filter (\<lambda>q. q_token q = t) (responses h)) = length (filter (\<lambda>q. q_token q = t) (responses (handles (aq w) m)))" for t
    using assms(1) by (metis client_of_def)
  then show ?thesis using assms(2) by (auto simp: spends_def conn_ok_def pending_def put_client_def update_handle_def client_of_def)
qed

lemma without_payload_token: "q_token (without_payload q) = q_token q"
  by (simp add: without_payload_def split: cmd_details.splits)

lemma pending_at_Some: "pending_at e q rs = Some i \<Longrightarrow> i < length rs"
  by (auto simp: pending_at_def first_index_Some split: option.splits if_splits)

lemma write_done_spends:
  assumes "responses h = responses (client_of w m)" "m_connect h = m_connect (client_of w m)"
  shows "spends free w (write_done e m rc h w)"
proof (cases "pending_write h")
  case None
  with assms show ?thesis by (auto simp: write_done_def intro!: untold_spends put_client_untold)
next
  case (Some p)
  have put: "spends free w (put_client m (h\<lparr>pending_write := None\<rparr>) w)" using assms by (intro same_tokens_spends) simp_all
  show ?thesis
  proof (cases "pending_at e p (responses h)")
    case None
    with Some put show ?thesis by (simp add: write_done_def)
  next
    case (Some i)
    define q where "q = responses h ! i"
    have i: "i < length (responses (handles (aq w) m))" "responses (handles (aq w) m) ! i = q"
      using pending_at_Some [OF Some] assms(1) by (simp_all add: client_of_def q_def)
    let ?ts = "if cmd_type q = PUBLISH then write_report m rc q else []"
    have "reported k t ?ts \<le> (if k = m \<and> t = q_token (responses (handles (aq w) m) ! i) then 1 else 0)" for k t by (auto simp: i write_report_def)
    then have "spends free w (notify ?ts (put_client m (h\<lparr>pending_write := None, responses := remove_nth i (responses h)\<rparr>) w))"
      using assms i by (intro take_response_spends [where m = m and h = "h\<lparr>pending_write := None, responses := remove_nth i (responses h)\<rparr>" and i = i and ts = ?ts])
        (simp_all add: notify_def put_client_def update_handle_def client_of_def)
    moreover have "map q_token ((responses h)[i := without_payload q]) = map q_token (responses h)"
      using pending_at_Some [OF Some] by (simp add: map_update without_payload_token q_def) (metis list_update_id nth_map)
    then have "spends free w (put_client m (h\<lparr>pending_write := None, responses := (responses h)[i := without_payload q]\<rparr>) w)"
      using assms by (intro same_tokens_spends) simp_all
    ultimately show ?thesis using Some \<open>pending_write h = Some p\<close> by (simp add: write_done_def Let_def flip: q_def)
  qed
qed

lemma writeComplete_spends:
  assumes "MQTTAsync_writeComplete e sock rc w = Inr w'"
  shows "spends free w w'"
proof -
  from assms obtain st where st: "(case find_sock sock (w\<lparr>proto := st\<rparr>) of None \<Rightarrow> Inr (w\<lparr>proto := st\<rparr>)
       | Some m \<Rightarrow> let h = client_of (w\<lparr>proto := st\<rparr>) m; c = m_c h in
           Inr (write_done e m rc (h\<lparr>m_c := c\<lparr>cnet := (cnet c)\<lparr>lastSent := clock (pq e)\<rparr>\<rparr>\<rparr>) (w\<lparr>proto := st\<rparr>))) = (Inr w' :: recv_world res)"
    by (auto simp: MQTTAsync_writeComplete_def bindR_eq_Inr Let_def)
  have u: "spends free w (w\<lparr>proto := st\<rparr>)" by (rule untold_spends) simp
  with st show ?thesis by (auto simp: Let_def split: option.splits intro!: then_spends [OF u write_done_spends])
qed

lemma reconnect_client_spends:
  assumes "reconnect_client e m w = Inr (go, w')" "conn_ok (aq w)"
  shows "spends free w w'"
proof (cases "malloc_ok (aal (pq e)) 168")
  case True
  define w1 where "w1 = put_client m ((client_of w m)\<lparr>m_c := update_options e m (m_c (client_of w m))\<rparr>) w"
  from True assms(1) obtain rc st where st: "MQTTAsync_addCommand (pq e) (connect_command m (client_of w m)) (aq w1) = Inr (rc, st)"
    and w': "w' = put_client m ((client_of (w1\<lparr>aq := st\<rparr>) m)\<lparr>reconnectNow := False\<rparr>) (w1\<lparr>aq := st\<rparr>)"
    by (auto simp: reconnect_client_def Let_def bindR_eq_Inr w1_def [symmetric])
  have "spends free w w1" unfolding w1_def by (intro untold_spends put_client_untold) simp_all
  moreover have "cmd_type (connect_command m (client_of w m)) = CONNECT"
    using assms(2) by (auto simp: connect_command_def Let_def conn_ok_def client_of_def cmd_type_def details_type_def)
  then have "spends free w1 (w1\<lparr>aq := st\<rparr>)" using st by (intro addCommand_spends) auto
  moreover have "spends free (w1\<lparr>aq := st\<rparr>) w'" unfolding w' by (intro untold_spends put_client_untold) simp_all
  ultimately show ?thesis using then_spends by blast
qed (use assms(1) in \<open>simp add: reconnect_client_def\<close>)

lemma check_client_spends:
  assumes "check_client e m w = Some (Inr (go, w'))" "conn_ok (aq w)"
  shows "spends free w w'"
proof -
  from assms(1) obtain w1 where w1: "check_disconnecting e m w = Some (Inr w1)"
    and rest: "w' = w1 \<or> next_or_close e m MQTTASYNC_FAILURE w1 = Some (Inr w') \<or> reconnect_client e m w1 = Inr (go, w')"
    by (auto simp: check_client_def bindO_eq_Inr Let_def split: if_split_asm)
  have 1: "spends free w w1"
    using w1 by (auto simp: check_disconnecting_def split: if_split_asm elim!: on_world_spends intro: checkDisconnect_spends)
  note ok = conn_ok_spends [OF assms(2) 1]
  from rest have "spends free w1 w'" by (elim disjE) (simp_all add: ok next_or_close_spends reconnect_client_spends)
  from then_spends [OF 1 this] show ?thesis .
qed

lemma check_clients_spends: "check_clients e ms w = Some (Inr w') \<Longrightarrow> conn_ok (aq w) \<Longrightarrow> spends free w w'"
proof (induction ms arbitrary: w)
  case (Cons m ms)
  then obtain go w1 where w1: "check_client e m w = Some (Inr (go, w1))" "w' = w1 \<or> check_clients e ms w1 = Some (Inr w')"
    by (auto simp: bindO_eq_Inr split: if_split_asm)
  note s = check_client_spends [OF w1(1) Cons.prems(2)]
  from w1(2) show ?case
  proof
    assume "check_clients e ms w1 = Some (Inr w')"
    from then_spends [OF s Cons.IH [OF this conn_ok_spends [OF Cons.prems(2) s]]] show ?thesis .
  qed (use s in simp)
qed simp

lemma checkTimeouts_spends:
  assumes "MQTTAsync_checkTimeouts e w = Some (Inr w')" "conn_ok (aq w)"
  shows "spends free w w'"
proof (cases "MQTTTime_difftime (clock (pq e)) (last_check w) < 3000")
  case False
  have "spends free w (w\<lparr>last_check := clock (pq e)\<rparr>)" by (rule untold_spends) (simp add: untold_def)
  moreover have "check_clients e (live w) (w\<lparr>last_check := clock (pq e)\<rparr>) = Some (Inr w')" using False assms(1) by (simp add: MQTTAsync_checkTimeouts_def)
  ultimately show ?thesis using check_clients_spends assms(2) by (auto intro: then_spends)
qed (use assms in \<open>simp add: MQTTAsync_checkTimeouts_def\<close>)

lemma send_round_spends:
  assumes "send_round e w = Some (Inr w')" "connect_keeps (pe_of e)"
  shows "spends free w w'"
  using assms(1) unfolding send_round_def by (rule on_world_spends) (auto simp: bindO_eq_Inr intro: processCommand_spends assms(2))

section \<open>Runs of the library\<close>

lemma add_request:
  assumes "MQTTAsync_addCommand e q st = Inr (rc, st')" "cmd_type q \<noteq> CONNECT" "cmd_type q \<noteq> DISCONNECT"
  shows "pending m t st' \<le> pending m t st + credit q m t \<and> m_connect (handles st' k) = m_connect (handles st k)"
proof -
  let ?q = "stamped e q (handles st (q_client q))"
  define st1 where "st1 = st\<lparr>commands := (if malloc_ok (aal e) 24 then commands st @ [?q] else commands st)\<rparr>"
  have ty: "cmd_type ?q = cmd_type q" by (simp add: stamped_def cmd_type_def)
  have "is_req m t ?q = is_req m t q" by (simp add: stamped_def is_req_def cmd_type_def)
  then have 1: "pending m t st1 \<le> pending m t st + credit q m t" by (auto simp: st1_def pending_def credit_def)
  from assms ty have "st' = st1 \<or> buffer_publish (q_client q) st1 = Inr st'"
    by (auto simp: MQTTAsync_addCommand_def Let_def bindR_eq_Inr st1_def [symmetric] split: if_split_asm)
  then show ?thesis
  proof
    assume "buffer_publish (q_client q) st1 = Inr st'"
    then have "st' = st1 \<or> (\<exists>i. st' = st1\<lparr>commands := remove_nth i (commands st1)\<rparr>) \<or>
        st' = update_handle (q_client q) (\<lambda>h. h\<lparr>noBufferedMessages := noBufferedMessages h + 1\<rparr>) st1"
      by (auto simp: buffer_publish_def Let_def guardR_eq_Inr split: if_split_asm option.splits)
    then have "pending m t st' \<le> pending m t st1" "m_connect (handles st' k) = m_connect (handles st1 k)"
      using remove_nth_filter_le [of "is_req m t"] by (auto simp: pending_def update_handle_def)
    with 1 show ?thesis by (simp add: st1_def)
  qed (use 1 in \<open>simp add: st1_def\<close>)
qed

lemma add_spends:
  assumes "MQTTAsync_addCommand e q (aq w) = Inr (rc, st)"
  shows "spends (credit q) w (w\<lparr>aq := st\<rparr>)"
proof (cases "cmd_type q = CONNECT \<or> cmd_type q = DISCONNECT")
  case True
  from spends_trans [OF addCommand_spends [OF assms True] spends_refl [of free], of "credit q"] show ?thesis by simp
next
  case False
  with add_request [OF assms] show ?thesis by (auto simp: spends_def conn_ok_def)
qed

text \<open>
  What the threads do, in any order: the application queues a command, and the library executes one, receives a
  packet, completes a write or looks at its timeouts. Each has inputs of its own.
\<close>

inductive lib_step :: "recv_world \<Rightarrow> queued_command list \<Rightarrow> recv_world \<Rightarrow> bool" where
  queues: "MQTTAsync_addCommand e q (aq w) = Inr (rc, st) \<Longrightarrow> lib_step w [q] (w\<lparr>aq := st\<rparr>)"
| sends: "send_round e w = Some (Inr w') \<Longrightarrow> connect_keeps (pe_of e) \<Longrightarrow> lib_step w [] w'"
| cycles: "MQTTAsync_cycle e sock factory w = Some (Inr (rc, pack, w')) \<Longrightarrow> lib_step w [] w'"
| handles: "receive_handle e sock rc pack w = Some (Inr w') \<Longrightarrow> lib_step w [] w'"
| writes: "MQTTAsync_writeComplete e sock rc w = Inr w' \<Longrightarrow> lib_step w [] w'"
| checks: "MQTTAsync_checkTimeouts e w = Some (Inr w') \<Longrightarrow> lib_step w [] w'"

inductive lib_run :: "recv_world \<Rightarrow> queued_command list \<Rightarrow> recv_world \<Rightarrow> bool" where
  start: "lib_run w [] w"
| continue: "lib_run w qs w' \<Longrightarrow> lib_step w' qs' w'' \<Longrightarrow> lib_run w (qs @ qs') w''"

definition submitted :: "queued_command list \<Rightarrow> nat \<Rightarrow> int \<Rightarrow> nat" where
  "submitted qs m t = length (filter (is_req m t) qs)"

lemma step_spends:
  assumes "lib_step w qs w'" "conn_ok (aq w)"
  shows "spends (submitted qs) w w'"
proof -
  have 0: "submitted [] = free" "submitted [q] = credit q" for q by (auto simp: submitted_def credit_def fun_eq_iff)
  from assms show ?thesis
    by (induction rule: lib_step.induct)
      (simp_all only: 0 add_spends send_round_spends cycle_spends receive_handle_spends writeComplete_spends checkTimeouts_spends)
qed

lemma run_spends: "lib_run w qs w' \<Longrightarrow> conn_ok (aq w) \<Longrightarrow> spends (submitted qs) w w'"
proof (induction rule: lib_run.induct)
  case (continue w qs w' qs' w'')
  note s = continue.IH [OF continue.prems]
  from spends_trans [OF s step_spends [OF continue.hyps(2) conn_ok_spends [OF continue.prems s]]] show ?case
    by (simp add: submitted_def)
qed simp

text \<open>
  C3: A request is reported at most once. Take any sequence of steps of the library, on the sending and on the
  receiving side, for any packets from the network, results of the operating system and states of memory. For each
  client and each token, the reports made through the callbacks of requests to subscribe, unsubscribe or publish under
  that token (success or failure, also a failure whose data carry the token 0), together with the requests that are
  still queued or waiting for their answer at the end, are no more than the requests that were pending at the start
  and those submitted since.
\<close>
theorem reported_at_most_once:
  assumes "lib_run w qs w'" "conn_ok (aq w)"
  shows "\<exists>new. told w' = told w @ new \<and>
    (\<forall>m t. reported m t new + pending m t (aq w') \<le> pending m t (aq w) + submitted qs m t)"
  using run_spends [OF assms] assms(2) by (simp add: spends_def)

text \<open>A request to unsubscribe that is queued, sent and answered.\<close>

definition asking :: queued_command where
  "asking = sample_unsub\<lparr>q_callbacks := no_callbacks\<lparr>onSuccess := True\<rparr>\<rparr>"

definition receiving :: recv_world where
  "receiving = \<lparr>aq = sample_async None, proto = proto sample_world, told = [], shut = [], dialled = [], live = [1],
     conf = (\<lambda>_. \<lparr>ma_set = True, dc_set = True, connected_set = False, disconnected_set = False, connectTimeout = 30,
       connectProps = None, willProps = None\<rparr>), last_retry = 3, last_check = 3, retryLoopInterval = 5\<rparr>"

definition receiving_env :: recv_env where
  "receiving_env = \<lparr>pq = sample_async_env, pp = pp sample_process_env, idle = (\<lambda>_. True), unpersist_rc = 0, draws = (\<lambda>_. 0), elapsed = (\<lambda>_. 0),
     garbage = 0, connect_to = (\<lambda>_ _ _ h. (- 1, h)), takes = True, so_error = 0,
     ws = \<lparr>ws_proxy_connect = (\<lambda>c _. (0, c)), ws_connect = (\<lambda>c _. (0, c))\<rparr>, proxied = False, upgrade = (\<lambda>c. (1, c)), reused = None, updateConnectOptions = (\<lambda>_. None)\<rparr>"

definition unsuback_5 :: packet where
  "unsuback_5 = P_Unsuback \<lparr>uns_header = 0xB0, uns_msgId = 5, uns_version = 4, uns_properties = None, uns_reasonCodes = None\<rparr>"

lemma sample_reports:
  "case MQTTAsync_addCommand sample_async_env asking (aq receiving) of
     Inl f \<Rightarrow> False
   | Inr (rc, st) \<Rightarrow>
       (case send_round receiving_env (receiving\<lparr>aq := st\<rparr>) of
          Some (Inr w1) \<Rightarrow>
            (case MQTTAsync_cycle receiving_env 7 (12, Some unsuback_5) w1 of
               Some (Inr (rc, pack, w2)) \<Rightarrow>
                 (case receive_handle receiving_env 7 rc pack w2 of Some (Inr w3) \<Rightarrow> told w3 = [Told_success 1 (Request 5) 5] | _ \<Rightarrow> False)
             | _ \<Rightarrow> False)
        | _ \<Rightarrow> False)"
  by code_simp

theorem reported_at_most_once_witness:
  "\<exists>w'. lib_run receiving [asking] w' \<and> told w' = [Told_success 1 (Request 5) 5] \<and> pending 1 5 (aq w') = 0"
proof -
  obtain rc st where 1: "MQTTAsync_addCommand sample_async_env asking (aq receiving) = Inr (rc, st)"
    using sample_reports by (cases "MQTTAsync_addCommand sample_async_env asking (aq receiving)") auto
  note s = sample_reports [unfolded 1 sum.case prod.case]
  obtain w1 where 2: "send_round receiving_env (receiving\<lparr>aq := st\<rparr>) = Some (Inr w1)" using s by (simp split: option.split_asm sum.split_asm)
  note s = s [unfolded 2 option.case sum.case]
  obtain rc2 pack w2 where 3: "MQTTAsync_cycle receiving_env 7 (12, Some unsuback_5) w1 = Some (Inr (rc2, pack, w2))"
    using s by (simp split: option.split_asm sum.split_asm prod.split_asm)
  note s = s [unfolded 3 option.case sum.case prod.case]
  obtain w3 where 4: "receive_handle receiving_env 7 rc2 pack w2 = Some (Inr w3)" and told: "told w3 = [Told_success 1 (Request 5) 5]"
    using s by (simp split: option.split_asm sum.split_asm)
  note run = 1 2 3 4
  have "connect_keeps (pe_of receiving_env)"
    by (simp add: connect_keeps_def pe_of_def receiving_env_def process_env.truncate_def)
  note steps = lib_step.queues [OF run(1)] lib_step.sends [OF run(2) this] lib_step.cycles [OF run(3)] lib_step.handles [OF run(4)]
  have "lib_run receiving (((([] @ [asking]) @ []) @ []) @ []) w3"
    by (rule lib_run.continue [OF lib_run.continue [OF lib_run.continue [OF lib_run.continue [OF lib_run.start steps(1)] steps(2)] steps(3)] steps(4)])
  then have r: "lib_run receiving [asking] w3" by simp
  have aq: "aq receiving = sample_async None" and new: "told receiving = []" by (simp_all add: receiving_def)
  have ok: "conn_ok (aq receiving)" by (simp add: aq conn_ok_def sample_async_def sample_handle_def sample_connect_def cmd_type_def details_type_def)
  have pend: "pending 1 5 (aq receiving) = 0" by (simp add: aq pending_def sample_async_def sample_handle_def)
  have sub: "submitted [asking] 1 5 = 1" by (simp add: submitted_def asking_def sample_unsub_def is_req_def cmd_type_def details_type_def packet_types)
  obtain ts where ts: "told w3 = told receiving @ ts"
    "\<forall>m t. reported m t ts + pending m t (aq w3) \<le> pending m t (aq receiving) + submitted [asking] m t"
    using reported_at_most_once [OF r ok] by blast
  have "reported 1 5 ts + pending 1 5 (aq w3) \<le> 1" using ts(2) [rule_format, of 1 5] unfolding pend sub by simp
  moreover have "ts = [Told_success 1 (Request 5) 5]" using ts(1) told unfolding new append_Nil by simp
  then have "reported 1 5 ts = 1" by simp
  ultimately show ?thesis using r told by (intro exI [of _ w3]) simp
qed

end
