(* ===== verification/Tree_Code.thy ===== *)
theory Tree_Code
  imports Mqtt_Prelude
begin

text \<open>
  The red-black trees of \<^verbatim>\<open>Tree.c\<close>, with their parent pointers, on a store of nodes. An address is a number; freed nodes
  are absent from the store, so that any use of one is a fault. The node that \<^verbatim>\<open>TreeRemoveNodeIndex\<close> keeps on its stack
  has the address 0, which no allocated node has. Only that node has no content. \<^verbatim>\<open>heap_tracking\<close> chooses between two
  allocators and is left out; an allocated address, or its failure, is an input. Loops need not end on an arbitrary
  store: they are option-valued, \<open>None\<close> meaning that the function does not return.
\<close>

section \<open>Nodes and trees\<close>

text \<open>The directions \<^verbatim>\<open>LEFT\<close> and \<^verbatim>\<open>RIGHT\<close>, the indexes of \<^verbatim>\<open>child\<close>, are \<open>False\<close> and \<open>True\<close>.\<close>

record 'c Node =
  n_parent :: "nat option"
  n_left :: "nat option"
  n_right :: "nat option"
  n_content :: "'c option"
  n_size :: int
  n_red :: bool

type_synonym 'c store = "nat \<rightharpoonup> 'c Node"

text \<open>What a content is compared with: another one, or a key.\<close>

datatype ('c, 'k) sought = Content 'c | Key 'k

record ('c, 'k) Tree =
  nodes :: "'c store"
  roots :: "nat \<Rightarrow> nat option"
  comparers :: "nat \<Rightarrow> 'c \<Rightarrow> ('c, 'k) sought \<Rightarrow> int"
  indexes :: nat
  t_count :: int
  t_size :: int
  allow_duplicates :: bool

definition LEFT :: bool where "LEFT = False"
definition RIGHT :: bool where "RIGHT = True"

definition child :: "'c Node \<Rightarrow> bool \<Rightarrow> nat option" where
  "child n d = (if d then n_right n else n_left n)"

definition set_child :: "bool \<Rightarrow> nat option \<Rightarrow> 'c Node \<Rightarrow> 'c Node" where
  "set_child d p n = (if d then n\<lparr>n_right := p\<rparr> else n\<lparr>n_left := p\<rparr>)"

text \<open>Reading and changing a node through a pointer.\<close>

definition node_at :: "nat option \<Rightarrow> 'c store \<Rightarrow> 'c Node res" where
  "node_at p N = (case p of None \<Rightarrow> Inl NullDeref | Some a \<Rightarrow> (case N a of None \<Rightarrow> Inl UseAfterFree | Some n \<Rightarrow> Inr n))"

definition change :: "nat option \<Rightarrow> ('c Node \<Rightarrow> 'c Node) \<Rightarrow> 'c store \<Rightarrow> 'c store res" where
  "change p f N = bindR (node_at p N) (\<lambda>n. Inr (N(the p \<mapsto> f n)))"

text \<open>The second index has no comparison function yet; it has no root either, so that none is called.\<close>

definition TreeInitializeNoMalloc :: "('c \<Rightarrow> ('c, 'k) sought \<Rightarrow> int) \<Rightarrow> ('c, 'k) Tree" where
  "TreeInitializeNoMalloc compare =
     \<lparr>nodes = Map.empty, roots = (\<lambda>_. None), comparers = (\<lambda>_. compare), indexes = 1, t_count = 0, t_size = 0, allow_duplicates = False\<rparr>"

definition TreeInitialize :: "(int \<Rightarrow> bool) \<Rightarrow> ('c \<Rightarrow> ('c, 'k) sought \<Rightarrow> int) \<Rightarrow> ('c, 'k) Tree option" where
  "TreeInitialize al compare = (if malloc_ok al 56 then Some (TreeInitializeNoMalloc compare) else None)"

definition TreeAddIndex :: "('c \<Rightarrow> ('c, 'k) sought \<Rightarrow> int) \<Rightarrow> ('c, 'k) Tree \<Rightarrow> ('c, 'k) Tree res" where
  "TreeAddIndex compare T =
     guardR OverWrite (indexes T < 2) (Inr (T\<lparr>comparers := (comparers T)(indexes T := compare), indexes := indexes T + 1\<rparr>))"

definition isRed :: "nat option \<Rightarrow> 'c store \<Rightarrow> bool res" where
  "isRed p N = (if p = None then Inr False else bindR (node_at p N) (\<lambda>n. Inr (n_red n)))"

definition isBlack :: "nat option \<Rightarrow> 'c store \<Rightarrow> bool res" where
  "isBlack p N = (if p = None then Inr True else bindR (node_at p N) (\<lambda>n. Inr (\<not> n_red n)))"

definition set_red :: "bool \<Rightarrow> 'c Node \<Rightarrow> 'c Node" where
  "set_red r n = n\<lparr>n_red := r\<rparr>"

definition set_parent :: "nat option \<Rightarrow> 'c Node \<Rightarrow> 'c Node" where
  "set_parent p n = n\<lparr>n_parent := p\<rparr>"

section \<open>Rotation\<close>

definition adopt :: "nat option \<Rightarrow> nat option \<Rightarrow> 'c store \<Rightarrow> 'c store res" where
  "adopt p up N = (if p \<noteq> None then change p (set_parent up) N else Inr N)"

text \<open>The pointer to \<open>curnode\<close>, in its parent or in the tree, is set to \<open>other\<close>.\<close>

definition redirect :: "nat option \<Rightarrow> nat option \<Rightarrow> bool \<Rightarrow> nat option \<Rightarrow> 'c store \<times> nat option \<Rightarrow> ('c store \<times> nat option) res" where
  "redirect up curnode direction other = (\<lambda>(N, root).
     if up = None then Inr (N, other)
     else
       bindR (node_at up N) (\<lambda>pn.
       bindR (change up (set_child (if curnode = child pn direction then direction else \<not> direction) other) N) (\<lambda>N1. Inr (N1, root))))"

definition TreeRotate :: "nat option \<Rightarrow> bool \<Rightarrow> 'c store \<times> nat option \<Rightarrow> ('c store \<times> nat option) res" where
  "TreeRotate curnode direction = (\<lambda>(N, root).
     bindR (node_at curnode N) (\<lambda>cn.
     let other = child cn (\<not> direction) in
     bindR (node_at other N) (\<lambda>on.
     bindR (change curnode (set_child (\<not> direction) (child on direction)) N) (\<lambda>N1.
     bindR (adopt (child on direction) curnode N1) (\<lambda>N2.
     bindR (node_at curnode N2) (\<lambda>cn2.
     bindR (change other (set_parent (n_parent cn2)) N2) (\<lambda>N3.
     bindR (redirect (n_parent cn2) curnode direction other (N3, root)) (\<lambda>(N4, root1).
     bindR (change other (set_child direction curnode) N4) (\<lambda>N5.
     bindR (change curnode (set_parent other) N5) (\<lambda>N6. Inr (N6, root1)))))))))))"

section \<open>Adding\<close>

definition TreeBAASub :: "nat option \<Rightarrow> bool \<Rightarrow> 'c store \<times> nat option \<Rightarrow> (nat option \<times> 'c store \<times> nat option) res" where
  "TreeBAASub curnode which = (\<lambda>(N, root).
     bindR (node_at curnode N) (\<lambda>cn.
     bindR (node_at (n_parent cn) N) (\<lambda>pn.
     bindR (node_at (n_parent pn) N) (\<lambda>gn.
     let uncle = child gn which in
     bindR (isRed uncle N) (\<lambda>r.
     if r then
       bindR (change uncle (set_red False) N) (\<lambda>N1.
       bindR (change (n_parent cn) (set_red False) N1) (\<lambda>N2.
       bindR (change (n_parent pn) (set_red True) N2) (\<lambda>N3. Inr (n_parent pn, N3, root))))
     else
       bindR (if curnode = child pn which then bindR (TreeRotate (n_parent cn) (\<not> which) (N, root)) (\<lambda>st. Inr (n_parent cn, st))
              else Inr (curnode, N, root)) (\<lambda>(cur, N1, root1).
       bindR (node_at cur N1) (\<lambda>cn1.
       bindR (change (n_parent cn1) (set_red False) N1) (\<lambda>N2.
       bindR (node_at (n_parent cn1) N2) (\<lambda>pn1.
       bindR (change (n_parent pn1) (set_red True) N2) (\<lambda>N3.
       bindR (TreeRotate (n_parent pn1) which (N3, root1)) (\<lambda>st. Inr (cur, st))))))))))))"

text \<open>The condition of the loop.\<close>

definition add_goes_on :: "nat option \<Rightarrow> 'c store \<Rightarrow> bool res" where
  "add_goes_on curnode N =
     (if curnode = None then Inr False
      else bindR (node_at curnode N) (\<lambda>cn.
        bindR (isRed (n_parent cn) N) (\<lambda>r. if r then bindR (node_at (n_parent cn) N) (\<lambda>pn. Inr (n_parent pn \<noteq> None)) else Inr False)))"

definition add_round :: "nat option \<Rightarrow> 'c store \<times> nat option \<Rightarrow> (nat option \<times> 'c store \<times> nat option) res" where
  "add_round curnode st =
     bindR (node_at curnode (fst st)) (\<lambda>cn.
     bindR (node_at (n_parent cn) (fst st)) (\<lambda>pn.
     bindR (node_at (n_parent pn) (fst st)) (\<lambda>gn.
       TreeBAASub curnode (if n_parent cn = child gn LEFT then RIGHT else LEFT) st)))"

partial_function (option) add_loop :: "nat option \<Rightarrow> 'c store \<times> nat option \<Rightarrow> ('c store \<times> nat option) res option" where
  "add_loop curnode st =
     (case add_goes_on curnode (fst st) of
        Inl f \<Rightarrow> Some (Inl f)
      | Inr go \<Rightarrow>
          if go then (case add_round curnode st of Inl f \<Rightarrow> Some (Inl f) | Inr (cur, st1) \<Rightarrow> add_loop cur st1)
          else Some (Inr st))"

definition TreeBalanceAfterAdd :: "nat option \<Rightarrow> 'c store \<times> nat option \<Rightarrow> ('c store \<times> nat option) res option" where
  "TreeBalanceAfterAdd curnode st =
     map_option (\<lambda>r. bindR r (\<lambda>(N, root). bindR (change root (set_red False) N) (\<lambda>N1. Inr (N1, root)))) (add_loop curnode st)"

text \<open>The search for the place of a new content: the parent, the direction, and the node with an equal content.\<close>

definition compare_at :: "('c \<Rightarrow> ('c, 'k) sought \<Rightarrow> int) \<Rightarrow> 'c Node \<Rightarrow> ('c, 'k) sought \<Rightarrow> int res" where
  "compare_at compare n key = (case n_content n of None \<Rightarrow> Inl NullDeref | Some c \<Rightarrow> Inr (compare c key))"

partial_function (option) add_search ::
  "('c \<Rightarrow> ('c, 'k) sought \<Rightarrow> int) \<Rightarrow> ('c, 'k) sought \<Rightarrow> 'c store \<Rightarrow> nat option \<Rightarrow> bool \<Rightarrow> nat option \<Rightarrow> (nat option \<times> bool \<times> nat option) res option" where
  "add_search compare key N curparent left curnode =
     (if curnode = None then Some (Inr (curparent, left, None))
      else
        (case bindR (node_at curnode N) (\<lambda>n. bindR (compare_at compare n key) (\<lambda>result. Inr (n, result))) of
           Inl f \<Rightarrow> Some (Inl f)
         | Inr (n, result) \<Rightarrow>
             if result = 0 then Some (Inr (curparent, 0 < result, curnode))
             else add_search compare key N curnode (0 < result) (child n (0 < result))))"

definition plus_size :: "int \<Rightarrow> int \<Rightarrow> int" where
  "plus_size a b = (a + b) mod 2 ^ 64"

text \<open>\<open>new\<close> is what the allocator returns for the node.\<close>

definition link_node :: "nat \<Rightarrow> 'c \<Rightarrow> int \<Rightarrow> nat option \<Rightarrow> bool \<Rightarrow> nat \<Rightarrow> ('c, 'k) Tree \<Rightarrow> ('c, 'k) Tree res" where
  "link_node newel content sz curparent left index T =
     (let N = (nodes T)(newel \<mapsto> \<lparr>n_parent = curparent, n_left = None, n_right = None, n_content = Some content, n_size = sz, n_red = True\<rparr>) in
      bindR (if curparent \<noteq> None then bindR (change curparent (set_child left (Some newel)) N) (\<lambda>N1. Inr (T\<lparr>nodes := N1\<rparr>))
             else Inr (T\<lparr>nodes := N, roots := (roots T)(index := Some newel)\<rparr>)) (\<lambda>T1.
        if index = 0 then guardR SignedOverflow (t_count T1 < INT_MAX) (Inr (T1\<lparr>t_count := t_count T1 + 1, t_size := plus_size (t_size T1) sz\<rparr>))
        else Inr T1))"

definition replace_content :: "nat option \<Rightarrow> 'c \<Rightarrow> int \<Rightarrow> nat \<Rightarrow> ('c, 'k) Tree \<Rightarrow> ('c, 'k) Tree res" where
  "replace_content p content sz index T =
     bindR (node_at p (nodes T)) (\<lambda>n.
     bindR (change p (\<lambda>n. n\<lparr>n_content := Some content, n_size := sz\<rparr>) (nodes T)) (\<lambda>N.
       Inr (T\<lparr>nodes := N, t_size := (if index = 0 then plus_size (t_size T) (sz - n_size n) else t_size T)\<rparr>)))"

definition balance_added :: "nat option \<Rightarrow> nat \<Rightarrow> ('c, 'k) Tree \<Rightarrow> ('c, 'k) Tree res option" where
  "balance_added newel index T =
     map_option (\<lambda>r. bindR r (\<lambda>(N, root). Inr (T\<lparr>nodes := N, roots := (roots T)(index := root)\<rparr>))) (TreeBalanceAfterAdd newel (nodes T, roots T index))"

definition TreeAddByIndex :: "nat option \<Rightarrow> 'c \<Rightarrow> int \<Rightarrow> nat \<Rightarrow> ('c, 'k) Tree \<Rightarrow> ('c option \<times> ('c, 'k) Tree) res option" where
  "TreeAddByIndex new content sz index T =
     (case add_search (comparers T index) (Content content) (nodes T) None False (roots T index) of
        None \<Rightarrow> None
      | Some (Inl f) \<Rightarrow> Some (Inl f)
      | Some (Inr (curparent, left, curnode)) \<Rightarrow>
          if curnode \<noteq> None \<and> allow_duplicates T then Some (Inr (None, T))
          else if curnode = None \<and> new = None then Some (Inr (None, T))
          else
            (case (if curnode \<noteq> None then replace_content curnode content sz index T else link_node (the new) content sz curparent left index T) of
               Inl f \<Rightarrow> Some (Inl f)
             | Inr T1 \<Rightarrow>
                 map_option (\<lambda>r. bindR r (\<lambda>T2. Inr (Some content, T2))) (balance_added (if curnode \<noteq> None then curnode else new) index T1)))"

text \<open>Each index has nodes of its own.\<close>

fun add_indexes :: "(nat \<Rightarrow> nat option) \<Rightarrow> 'c \<Rightarrow> int \<Rightarrow> nat list \<Rightarrow> 'c option \<Rightarrow> ('c, 'k) Tree \<Rightarrow> ('c option \<times> ('c, 'k) Tree) res option" where
  "add_indexes new content sz [] rc T = Some (Inr (rc, T))"
| "add_indexes new content sz (i # is) rc T =
     (case TreeAddByIndex (new i) content sz i T of
        None \<Rightarrow> None
      | Some (Inl f) \<Rightarrow> Some (Inl f)
      | Some (Inr (rc1, T1)) \<Rightarrow> add_indexes new content sz is rc1 T1)"

definition TreeAdd :: "(nat \<Rightarrow> nat option) \<Rightarrow> 'c \<Rightarrow> int \<Rightarrow> ('c, 'k) Tree \<Rightarrow> ('c option \<times> ('c, 'k) Tree) res option" where
  "TreeAdd new content sz T = add_indexes new content sz [0..<indexes T] None T"

section \<open>Searching\<close>

partial_function (option) find_node ::
  "('c \<Rightarrow> ('c, 'k) sought \<Rightarrow> int) \<Rightarrow> ('c, 'k) sought \<Rightarrow> 'c store \<Rightarrow> nat option \<Rightarrow> nat option res option" where
  "find_node compare key N curnode =
     (if curnode = None then Some (Inr None)
      else
        (case bindR (node_at curnode N) (\<lambda>n. bindR (compare_at compare n key) (\<lambda>result. Inr (n, result))) of
           Inl f \<Rightarrow> Some (Inl f)
         | Inr (n, result) \<Rightarrow> if result = 0 then Some (Inr curnode) else find_node compare key N (child n (0 < result))))"

definition TreeFindIndex1 :: "('c, 'k) sought \<Rightarrow> nat \<Rightarrow> ('c, 'k) Tree \<Rightarrow> nat option res option" where
  "TreeFindIndex1 key index T = find_node (comparers T index) key (nodes T) (roots T index)"

definition TreeFindIndex :: "'k \<Rightarrow> nat \<Rightarrow> ('c, 'k) Tree \<Rightarrow> nat option res option" where
  "TreeFindIndex key index T = TreeFindIndex1 (Key key) index T"

definition TreeFindContentIndex :: "'c \<Rightarrow> nat \<Rightarrow> ('c, 'k) Tree \<Rightarrow> nat option res option" where
  "TreeFindContentIndex key index T = TreeFindIndex1 (Content key) index T"

definition TreeFind :: "'k \<Rightarrow> ('c, 'k) Tree \<Rightarrow> nat option res option" where
  "TreeFind key T = TreeFindIndex key 0 T"

partial_function (option) leftmost :: "'c store \<Rightarrow> nat option \<Rightarrow> nat option res option" where
  "leftmost N curnode =
     (case node_at curnode N of
        Inl f \<Rightarrow> Some (Inl f)
      | Inr n \<Rightarrow> if child n LEFT = None then Some (Inr curnode) else leftmost N (child n LEFT))"

definition TreeMinimum :: "nat option \<Rightarrow> 'c store \<Rightarrow> nat option res option" where
  "TreeMinimum curnode N = (if curnode = None then Some (Inr None) else leftmost N curnode)"

partial_function (option) climb :: "'c store \<Rightarrow> nat option \<Rightarrow> nat option \<Rightarrow> nat option res option" where
  "climb N curnode curparent =
     (if curparent = None then Some (Inr None)
      else
        (case node_at curparent N of
           Inl f \<Rightarrow> Some (Inl f)
         | Inr pn \<Rightarrow> if curnode = child pn RIGHT then climb N curparent (n_parent pn) else Some (Inr curparent)))"

definition TreeSuccessor :: "nat option \<Rightarrow> 'c store \<Rightarrow> nat option res option" where
  "TreeSuccessor curnode N =
     (case node_at curnode N of
        Inl f \<Rightarrow> Some (Inl f)
      | Inr n \<Rightarrow> if child n RIGHT \<noteq> None then TreeMinimum (child n RIGHT) N else climb N curnode (n_parent n))"

definition TreeNextElementIndex :: "nat option \<Rightarrow> nat \<Rightarrow> ('c, 'k) Tree \<Rightarrow> nat option res option" where
  "TreeNextElementIndex curnode index T = (if curnode = None then TreeMinimum (roots T index) (nodes T) else TreeSuccessor curnode (nodes T))"

definition TreeNextElement :: "nat option \<Rightarrow> ('c, 'k) Tree \<Rightarrow> nat option res option" where
  "TreeNextElement curnode T = TreeNextElementIndex curnode 0 T"

section \<open>Removing\<close>

text \<open>A red sibling is turned up, so that the sibling is black.\<close>

definition bar_red :: "nat option \<Rightarrow> bool \<Rightarrow> 'c store \<times> nat option \<Rightarrow> ('c store \<times> nat option) res" where
  "bar_red curnode which = (\<lambda>(N, root).
     bindR (node_at curnode N) (\<lambda>cn.
     bindR (node_at (n_parent cn) N) (\<lambda>pn.
     bindR (isRed (child pn which) N) (\<lambda>r.
     if r then
       bindR (change (child pn which) (set_red False) N) (\<lambda>N1.
       bindR (change (n_parent cn) (set_red True) N1) (\<lambda>N2. TreeRotate (n_parent cn) (\<not> which) (N2, root)))
     else Inr (N, root)))))"

text \<open>The sibling is turned so that its outer child is red.\<close>

definition bar_turn :: "nat option \<Rightarrow> nat option \<Rightarrow> bool \<Rightarrow> 'c store \<times> nat option \<Rightarrow> (nat option \<times> 'c store \<times> nat option) res" where
  "bar_turn sibling up which = (\<lambda>(N, root).
     bindR (node_at sibling N) (\<lambda>sn.
     bindR (isBlack (child sn which) N) (\<lambda>far.
     if far then
       bindR (change (child sn (\<not> which)) (set_red False) N) (\<lambda>N1.
       bindR (change sibling (set_red True) N1) (\<lambda>N2.
       bindR (TreeRotate sibling which (N2, root)) (\<lambda>(N3, root1).
       bindR (node_at up N3) (\<lambda>pn. Inr (child pn which, N3, root1)))))
     else Inr (sibling, N, root))))"

text \<open>The sibling is turned up and takes the colour of the parent.\<close>

definition bar_finish :: "nat option \<Rightarrow> nat option \<Rightarrow> bool \<Rightarrow> 'c store \<times> nat option \<Rightarrow> (nat option \<times> 'c store \<times> nat option) res" where
  "bar_finish sibling up which = (\<lambda>(N, root).
     bindR (node_at up N) (\<lambda>pn.
     bindR (change sibling (set_red (n_red pn)) N) (\<lambda>N1.
     bindR (change up (set_red False) N1) (\<lambda>N2.
     bindR (node_at sibling N2) (\<lambda>sn.
     bindR (change (child sn which) (set_red False) N2) (\<lambda>N3.
     bindR (TreeRotate up (\<not> which) (N3, root)) (\<lambda>(N4, root1). Inr (root1, N4, root1))))))))"

definition bar_rest :: "nat option \<Rightarrow> bool \<Rightarrow> 'c store \<times> nat option \<Rightarrow> (nat option \<times> 'c store \<times> nat option) res" where
  "bar_rest curnode which = (\<lambda>(N, root).
     bindR (node_at curnode N) (\<lambda>cn.
     let up = n_parent cn in
     bindR (node_at up N) (\<lambda>pn.
     let sibling = child pn which in
     if sibling = None then Inr (up, N, root)
     else
       bindR (node_at sibling N) (\<lambda>sn.
       bindR (isBlack (child sn (\<not> which)) N) (\<lambda>near.
       bindR (isBlack (child sn which) N) (\<lambda>far.
       if near \<and> far then bindR (change sibling (set_red True) N) (\<lambda>N1. Inr (up, N1, root))
       else bindR (bar_turn sibling up which (N, root)) (\<lambda>(sib, st). bar_finish sib up which st)))))))"

definition TreeBARSub :: "nat option \<Rightarrow> bool \<Rightarrow> 'c store \<times> nat option \<Rightarrow> (nat option \<times> 'c store \<times> nat option) res" where
  "TreeBARSub curnode which st = bindR (bar_red curnode which st) (\<lambda>st1. bar_rest curnode which st1)"

definition remove_round :: "nat option \<Rightarrow> 'c store \<times> nat option \<Rightarrow> (nat option \<times> 'c store \<times> nat option) res" where
  "remove_round curnode st =
     bindR (node_at curnode (fst st)) (\<lambda>cn.
     bindR (node_at (n_parent cn) (fst st)) (\<lambda>pn.
       TreeBARSub curnode (if (if n_content cn \<noteq> None then curnode else None) = child pn LEFT then RIGHT else LEFT) st))"

partial_function (option) remove_loop :: "nat option \<Rightarrow> 'c store \<times> nat option \<Rightarrow> (nat option \<times> 'c store \<times> nat option) res option" where
  "remove_loop curnode st =
     (case (if curnode = snd st then Inr False else isBlack curnode (fst st)) of
        Inl f \<Rightarrow> Some (Inl f)
      | Inr go \<Rightarrow>
          if go then (case remove_round curnode st of Inl f \<Rightarrow> Some (Inl f) | Inr (cur, st1) \<Rightarrow> remove_loop cur st1)
          else Some (Inr (curnode, st)))"

definition TreeBalanceAfterRemove :: "nat option \<Rightarrow> 'c store \<times> nat option \<Rightarrow> ('c store \<times> nat option) res option" where
  "TreeBalanceAfterRemove curnode st =
     map_option (\<lambda>r. bindR r (\<lambda>(cur, N, root). bindR (change cur (set_red False) N) (\<lambda>N1. Inr (N1, root)))) (remove_loop curnode st)"

text \<open>The node on the stack.\<close>

definition TEMP :: nat where "TEMP = 0"

definition temp_node :: "nat option \<Rightarrow> 'c Node" where
  "temp_node up = \<lparr>n_parent = up, n_left = None, n_right = None, n_content = None, n_size = 0, n_red = False\<rparr>"

text \<open>Taking a node with at most one child out of the tree: its child, and the store.\<close>

definition unlink_node :: "nat option \<Rightarrow> 'c store \<times> nat option \<Rightarrow> (nat option \<times> 'c store \<times> nat option) res" where
  "unlink_node redundant = (\<lambda>(N, root).
     bindR (node_at redundant N) (\<lambda>rn.
     let curchild = child rn (if child rn LEFT \<noteq> None then LEFT else RIGHT) in
     bindR (adopt curchild (n_parent rn) N) (\<lambda>N1.
     bindR (redirect (n_parent rn) redundant LEFT curchild (N1, root)) (\<lambda>st. Inr (curchild, st)))))"

definition balance_removed :: "nat option \<Rightarrow> nat option \<Rightarrow> 'c store \<times> nat option \<Rightarrow> ('c store \<times> nat option) res option" where
  "balance_removed redundant curchild = (\<lambda>(N, root).
     (case bindR (isBlack redundant N) (\<lambda>b. bindR (node_at redundant N) (\<lambda>rn. Inr (b, n_parent rn))) of
        Inl f \<Rightarrow> Some (Inl f)
      | Inr (b, up) \<Rightarrow>
          if \<not> b then Some (Inr (N, root))
          else if curchild = None then
            if up = None then Some (Inr (N, root))
            else
              map_option (\<lambda>r. bindR r (\<lambda>(N1, root1). Inr (N1(TEMP := None), root1))) (TreeBalanceAfterRemove (Some TEMP) (N(TEMP \<mapsto> temp_node up), root))
          else TreeBalanceAfterRemove curchild (N, root)))"

definition move_content :: "nat option \<Rightarrow> nat option \<Rightarrow> 'c store \<Rightarrow> 'c store res" where
  "move_content redundant curnode N =
     (if redundant = curnode then Inr N
      else bindR (node_at redundant N) (\<lambda>rn. change curnode (\<lambda>n. n\<lparr>n_content := n_content rn, n_size := n_size rn\<rparr>) N))"

definition TreeRemoveNodeIndex :: "nat option \<Rightarrow> nat \<Rightarrow> ('c, 'k) Tree \<Rightarrow> ('c option \<times> ('c, 'k) Tree) res option" where
  "TreeRemoveNodeIndex curnode index T =
     (case node_at curnode (nodes T) of
        Inl f \<Rightarrow> Some (Inl f)
      | Inr cn \<Rightarrow>
          (case (if child cn LEFT \<noteq> None \<and> child cn RIGHT \<noteq> None then TreeSuccessor curnode (nodes T) else Some (Inr curnode)) of
             None \<Rightarrow> None
           | Some (Inl f) \<Rightarrow> Some (Inl f)
           | Some (Inr redundant) \<Rightarrow>
               (case bindR (unlink_node redundant (nodes T, roots T index)) (\<lambda>(curchild, N, root).
                       bindR (move_content redundant curnode N) (\<lambda>N1. Inr (curchild, N1, root))) of
                  Inl f \<Rightarrow> Some (Inl f)
                | Inr (curchild, st) \<Rightarrow>
                    map_option (\<lambda>r. bindR r (\<lambda>(N, root).
                      let T1 = T\<lparr>nodes := N(the redundant := None), roots := (roots T)(index := root)\<rparr> in
                      if index = 0 then guardR SignedOverflow (INT_MIN < t_count T1)
                        (Inr (n_content cn, T1\<lparr>t_size := plus_size (t_size T1) (- n_size cn), t_count := t_count T1 - 1\<rparr>))
                      else Inr (n_content cn, T1))) (balance_removed redundant curchild st))))"

definition TreeRemoveIndex :: "'c \<Rightarrow> nat \<Rightarrow> ('c, 'k) Tree \<Rightarrow> ('c option \<times> ('c, 'k) Tree) res option" where
  "TreeRemoveIndex content index T =
     (case TreeFindContentIndex content index T of
        None \<Rightarrow> None
      | Some (Inl f) \<Rightarrow> Some (Inl f)
      | Some (Inr curnode) \<Rightarrow> if curnode = None then Some (Inr (None, T)) else TreeRemoveNodeIndex curnode index T)"

fun remove_indexes :: "'c \<Rightarrow> nat list \<Rightarrow> 'c option \<Rightarrow> ('c, 'k) Tree \<Rightarrow> ('c option \<times> ('c, 'k) Tree) res option" where
  "remove_indexes content [] rc T = Some (Inr (rc, T))"
| "remove_indexes content (i # is) rc T =
     (case TreeRemoveIndex content i T of
        None \<Rightarrow> None
      | Some (Inl f) \<Rightarrow> Some (Inl f)
      | Some (Inr (rc1, T1)) \<Rightarrow> remove_indexes content is rc1 T1)"

definition TreeRemove :: "'c \<Rightarrow> ('c, 'k) Tree \<Rightarrow> ('c option \<times> ('c, 'k) Tree) res option" where
  "TreeRemove content T = remove_indexes content [0..<indexes T] None T"

text \<open>The content that was removed from one index is looked for in the others; a null content is compared.\<close>

fun remove_others :: "nat list \<Rightarrow> 'c option \<Rightarrow> ('c, 'k) Tree \<Rightarrow> ('c option \<times> ('c, 'k) Tree) res option" where
  "remove_others [] content T = Some (Inr (content, T))"
| "remove_others (i # is) content T =
     (case content of
        None \<Rightarrow> if roots T i = None then remove_others is None T else Some (Inl NullDeref)
      | Some c \<Rightarrow>
          (case TreeRemoveIndex c i T of
             None \<Rightarrow> None
           | Some (Inl f) \<Rightarrow> Some (Inl f)
           | Some (Inr (rc, T1)) \<Rightarrow> remove_others is rc T1))"

definition TreeRemoveKeyIndex :: "'k \<Rightarrow> nat \<Rightarrow> ('c, 'k) Tree \<Rightarrow> ('c option \<times> ('c, 'k) Tree) res option" where
  "TreeRemoveKeyIndex key index T =
     (case TreeFindIndex key index T of
        None \<Rightarrow> None
      | Some (Inl f) \<Rightarrow> Some (Inl f)
      | Some (Inr curnode) \<Rightarrow>
          if curnode = None then Some (Inr (None, T))
          else
            (case TreeRemoveNodeIndex curnode index T of
               None \<Rightarrow> None
             | Some (Inl f) \<Rightarrow> Some (Inl f)
             | Some (Inr (content, T1)) \<Rightarrow> remove_others (filter (\<lambda>i. i \<noteq> index) [0..<indexes T1]) content T1))"

definition TreeRemoveKey :: "'k \<Rightarrow> ('c, 'k) Tree \<Rightarrow> ('c option \<times> ('c, 'k) Tree) res option" where
  "TreeRemoveKey key T = TreeRemoveKeyIndex key 0 T"

section \<open>Comparison of contents\<close>

definition TreeIntCompare :: "int \<Rightarrow> int \<Rightarrow> int" where
  "TreeIntCompare i j = (if j < i then - 1 else if i = j then 0 else 1)"

definition TreePtrCompare :: "nat \<Rightarrow> nat \<Rightarrow> int" where
  "TreePtrCompare a b = (if b < a then - 1 else if a = b then 0 else 1)"

lemmas tree_loops [code] = add_loop.simps add_search.simps find_node.simps leftmost.simps climb.simps remove_loop.simps

end
