(* ===== verification/Red_Black.thy ===== *)
theory Red_Black
  imports Tree_Code "HOL-Library.Multiset"
begin

text \<open>
  Red-black trees as a data type whose nodes carry their addresses, and the positions in them as a subtree with the
  path above it. The loops of \<^verbatim>\<open>Tree.c\<close> that climb from a node to the root are functions on positions here. Shown: they
  keep the order of the contents, adding a new content and removing one keep the colours and the black height
  right, and the depth of a tree is at most twice the logarithm of its size.
\<close>

section \<open>Trees and positions\<close>

datatype 'c rbt = Tip | Bin "'c rbt" nat bool "'c \<times> int" "'c rbt"

text \<open>\<open>bin d t \<dots> s\<close> has \<open>t\<close> in direction \<open>d\<close> and \<open>s\<close> in the other.\<close>

definition bin :: "bool \<Rightarrow> 'c rbt \<Rightarrow> nat \<Rightarrow> bool \<Rightarrow> 'c \<times> int \<Rightarrow> 'c rbt \<Rightarrow> 'c rbt" where
  "bin d t a r x s = (if d then Bin s a r x t else Bin t a r x s)"

lemma bin_flip: "bin (\<not> d) t a r x s = bin d s a r x t"
  by (simp add: bin_def)

lemma bin_inject [simp]: "bin d t a r x s = bin d t' a' r' x' s' \<longleftrightarrow> t = t' \<and> a = a' \<and> r = r' \<and> x = x' \<and> s = s'"
  by (auto simp: bin_def)

lemma bin_not_Tip [simp]: "bin d t a r x s \<noteq> Tip" "Tip \<noteq> bin d t a r x s"
  by (simp_all add: bin_def)

type_synonym 'c frame = "bool \<times> nat \<times> bool \<times> ('c \<times> int) \<times> 'c rbt"

fun plug :: "'c frame list \<Rightarrow> 'c rbt \<Rightarrow> 'c rbt" where
  "plug [] t = t"
| "plug ((d, a, r, x, s) # c) t = plug c (bin d t a r x s)"

fun inorder :: "'c rbt \<Rightarrow> ('c \<times> int) list" where
  "inorder Tip = []"
| "inorder (Bin l a r x s) = inorder l @ x # inorder s"

lemma inorder_bin: "inorder (bin d t a r x s) = (if d then inorder s @ x # inorder t else inorder t @ x # inorder s)"
  by (simp add: bin_def)

text \<open>What is left and right of a position.\<close>

fun before :: "'c frame list \<Rightarrow> ('c \<times> int) list" where
  "before [] = []"
| "before ((d, a, r, x, s) # c) = before c @ (if d then inorder s @ [x] else [])"

fun behind :: "'c frame list \<Rightarrow> ('c \<times> int) list" where
  "behind [] = []"
| "behind ((d, a, r, x, s) # c) = (if d then [] else x # inorder s) @ behind c"

lemma inorder_plug: "inorder (plug c t) = before c @ inorder t @ behind c"
  by (induction c t rule: plug.induct) (auto simp: inorder_bin)

fun is_red :: "'c rbt \<Rightarrow> bool" where
  "is_red Tip = False"
| "is_red (Bin l a r x s) = r"

fun paint :: "bool \<Rightarrow> 'c rbt \<Rightarrow> 'c rbt" where
  "paint r Tip = Tip"
| "paint r (Bin l a q x s) = Bin l a r x s"

lemma red_bin [simp]: "is_red (bin d t a r x s) = r" "paint q (bin d t a r x s) = bin d t a q x s"
  by (simp_all add: bin_def)

lemma inorder_paint [simp]: "inorder (paint r t) = inorder t"
  by (cases t) simp_all

section \<open>Balancing\<close>

text \<open>Climbing after a node was added: \<open>t\<close> is the subtree at the node.\<close>

fun add_fix :: "'c frame list \<Rightarrow> 'c rbt \<Rightarrow> 'c rbt" where
  "add_fix ((d1, p, pr, px, s) # (d2, g, gr, gx, u) # c) t =
     (if \<not> pr then plug ((d1, p, pr, px, s) # (d2, g, gr, gx, u) # c) t
      else if is_red u then add_fix c (bin d2 (bin d1 t p False px s) g True gx (paint False u))
      else if d1 = d2 then plug c (bin d2 t p False px (bin d2 s g True gx u))
      else
        (case t of
           Tip \<Rightarrow> plug c (bin d2 (bin d1 t p pr px s) g gr gx u)
         | Bin l a r x b \<Rightarrow>
             plug c (bin d2 (bin d2 s p pr px (if d2 then b else l)) a False x (bin d2 (if d2 then l else b) g True gx u))))"
| "add_fix c t = plug c t"

lemmas add_fix_induct = add_fix.induct [case_names "1" "2" "3"]

definition add_balance :: "'c frame list \<Rightarrow> 'c rbt \<Rightarrow> 'c rbt" where
  "add_balance c t = paint False (add_fix c t)"

lemma inorder_add_fix: "inorder (add_fix c t) = inorder (plug c t)"
  by (induction c t rule: add_fix.induct) (auto simp: inorder_plug inorder_bin split: rbt.split)

lemma inorder_add_balance: "inorder (add_balance c t) = inorder (plug c t)"
  by (simp add: add_balance_def inorder_add_fix)

text \<open>
  One round after a node was removed, when the sibling is not red: either the parent is next, or the work is done.
\<close>

definition resolve :: "bool \<Rightarrow> 'c rbt \<Rightarrow> nat \<Rightarrow> bool \<Rightarrow> 'c \<times> int \<Rightarrow> 'c rbt \<Rightarrow> bool \<times> 'c rbt" where
  "resolve d t p pr px s =
     (case s of
        Tip \<Rightarrow> (False, bin d t p pr px Tip)
      | Bin l a r x b \<Rightarrow>
          let near = (if d then b else l); far = (if d then l else b) in
          if \<not> is_red near \<and> \<not> is_red far then (False, bin d t p pr px (Bin l a True x b))
          else if is_red far then (True, bin d (bin d t p False px near) a pr x (paint False far))
          else
            (case near of
               Tip \<Rightarrow> (True, bin d t p pr px s)
             | Bin nl na nr nx nb \<Rightarrow>
                 (True, bin d (bin d t p False px (if d then nb else nl)) na pr nx (bin d (if d then nl else nb) a False x far))))"

fun remove_fix :: "'c frame list \<Rightarrow> 'c rbt \<Rightarrow> 'c rbt" where
  "remove_fix [] t = paint False t"
| "remove_fix ((d, p, pr, px, s) # c) t =
     (if is_red t then plug ((d, p, pr, px, s) # c) (paint False t)
      else
        (case s of
           Bin l a True x b \<Rightarrow>
             let near = (if d then b else l); far = (if d then l else b);
                 c1 = (d, a, False, x, far) # c; (ready, u) = resolve d t p True px near in
             if ready then paint False (plug c1 u) else plug c1 (paint False u)
         | _ \<Rightarrow>
             let (ready, u) = resolve d t p pr px s in if ready then paint False (plug c u) else remove_fix c u))"

lemma inorder_resolve: "resolve d t p pr px s = (ready, u) \<Longrightarrow> inorder u = inorder (bin d t p pr px s)"
  by (auto simp: resolve_def Let_def inorder_bin split: rbt.splits if_split_asm)

lemma inorder_remove_fix: "inorder (remove_fix c t) = inorder (plug c t)"
proof (induction c t rule: remove_fix.induct)
  case (2 d p pr px s c t)
  show ?case
  proof (cases "is_red t")
    case False
    show ?thesis
    proof (cases s)
      case Tip
      obtain ready u where u: "resolve d t p pr px s = (ready, u)" by (cases "resolve d t p pr px s")
      with 2 [OF False] Tip False inorder_resolve [OF u] show ?thesis by (simp add: inorder_plug)
    next
      case (Bin l a r x b)
      show ?thesis
      proof (cases r)
        case True
        let ?near = "if d then b else l"
        obtain ready u where u: "resolve d t p True px ?near = (ready, u)" by (cases "resolve d t p True px ?near")
        with inorder_resolve [OF u] Bin False True show ?thesis by (auto simp: inorder_plug inorder_bin Let_def)
      next
        case r: False
        obtain ready u where u: "resolve d t p pr px s = (ready, u)" by (cases "resolve d t p pr px s")
        with 2 [OF False] Bin r False inorder_resolve [OF u] show ?thesis by (simp add: inorder_plug)
      qed
    qed
  qed (simp add: inorder_plug inorder_bin)
qed simp

section \<open>Colours and black height\<close>

fun bh :: "'c rbt \<Rightarrow> nat \<Rightarrow> bool" where
  "bh Tip n \<longleftrightarrow> n = 0"
| "bh (Bin l a r x s) n \<longleftrightarrow> (if r then \<not> is_red l \<and> \<not> is_red s \<and> bh l n \<and> bh s n else 0 < n \<and> bh l (n - 1) \<and> bh s (n - 1))"

definition red_parent :: "'c frame list \<Rightarrow> bool" where
  "red_parent c = (case c of [] \<Rightarrow> False | (d, a, r, x, s) # _ \<Rightarrow> r)"

lemma red_parent_simps [simp]: "\<not> red_parent []" "red_parent ((d, a, r, x, s) # c) = r"
  by (simp_all add: red_parent_def)

text \<open>The path above a subtree of black height \<open>n\<close>.\<close>

fun path_bh :: "'c frame list \<Rightarrow> nat \<Rightarrow> bool" where
  "path_bh [] n \<longleftrightarrow> True"
| "path_bh ((d, a, r, x, s) # c) n \<longleftrightarrow> bh s n \<and> (if r then \<not> is_red s \<and> \<not> red_parent c \<and> path_bh c n else path_bh c (Suc n))"

lemma bh_bin: "bh (bin d t a r x s) n \<longleftrightarrow> (if r then \<not> is_red t \<and> \<not> is_red s \<and> bh t n \<and> bh s n else 0 < n \<and> bh t (n - 1) \<and> bh s (n - 1))"
  by (auto simp: bin_def)

lemma bh_plug: "bh t n \<Longrightarrow> path_bh c n \<Longrightarrow> (is_red t \<Longrightarrow> \<not> red_parent c) \<Longrightarrow> \<exists>m. bh (plug c t) m"
proof (induction c t arbitrary: n rule: plug.induct)
  case (2 d a r x s c t)
  have "\<exists>m. bh (plug c (bin d t a r x s)) m"
    by (rule 2(1) [of "if r then n else Suc n"]) (use 2(2-4) in \<open>auto simp: bh_bin split: if_split_asm\<close>)
  then show ?case by simp
qed auto

lemma bh_unplug: "bh (plug c t) m \<Longrightarrow> \<exists>n. bh t n \<and> path_bh c n \<and> (is_red t \<longrightarrow> \<not> red_parent c)"
proof (induction c t rule: plug.induct)
  case (2 d a r x s c t)
  then obtain n where n: "bh (bin d t a r x s) n" "path_bh c n" "r \<longrightarrow> \<not> red_parent c" by auto
  then show ?case by (intro exI [of _ "if r then n else n - 1"]) (auto simp: bh_bin split: if_split_asm)
qed auto

lemma bh_paint: "bh t n \<Longrightarrow> bh (paint False t) (if is_red t then Suc n else n)"
  by (cases t) auto

lemma bh_paint_ex: "\<exists>n. bh t n \<Longrightarrow> \<exists>n. bh (paint False t) n"
  using bh_paint by blast

lemma paint_black [simp]: "\<not> is_red (paint False t)"
  by (cases t) auto

lemma add_fix_bh: "bh t n \<Longrightarrow> is_red t \<Longrightarrow> path_bh c n \<Longrightarrow> \<exists>m. bh (paint False (add_fix c t)) m"
proof (induction c t arbitrary: n rule: add_fix_induct)
  case (1 d1 p pr px s d2 g gr gx u c t)
  show ?case
  proof (cases pr)
    case False
    with bh_plug [OF 1(2) 1(4)] have "\<exists>m. bh (plug ((d1, p, pr, px, s) # (d2, g, gr, gx, u) # c) t) m" by simp
    with False show ?thesis by (simp add: bh_paint_ex)
  next
    case pr: True
    then have k: "bh s n" "\<not> is_red s" "\<not> gr" "bh u n" "path_bh c (Suc n)" using 1(4) by (auto split: if_split_asm)
    show ?thesis
    proof (cases "is_red u")
      case True
      have "bh (bin d2 (bin d1 t p False px s) g True gx (paint False u)) (Suc n)" using 1(2) k bh_paint [OF k(4)] True by (simp add: bh_bin)
      from 1(1) [OF _ True this _ k(5)] pr True show ?thesis by simp
    next
      case u: False
      show ?thesis
      proof (cases "d1 = d2")
        case True
        have "bh (bin d2 t p False px (bin d2 s g True gx u)) (Suc n)" using 1(2) k u by (simp add: bh_bin)
        from bh_plug [OF this k(5)] True pr u show ?thesis by (simp add: bh_paint_ex)
      next
        case False
        from 1(3) obtain l a x b where t: "t = Bin l a True x b" by (cases t) auto
        have "bh (bin d2 (bin d2 s p True px (if d2 then b else l)) a False x (bin d2 (if d2 then l else b) g True gx u)) (Suc n)"
          using 1(2) k u t by (simp add: bh_bin)
        from bh_plug [OF this k(5)] False pr u t show ?thesis by (auto simp: bh_paint_ex)
      qed
    qed
  qed
next
  case (3 f t)
  obtain d a r x s where "f = (d, a, r, x, s)" by (cases f)
  with 3 show ?case by (cases r) (auto simp: bh_bin intro: exI [of _ "Suc n"])
qed (auto intro: exI [of _ "Suc _"] dest: bh_paint)

text \<open>A red-black tree: black at the root, no red node below a red one, the same black height everywhere.\<close>

definition red_black :: "'c rbt \<Rightarrow> bool" where
  "red_black t \<longleftrightarrow> \<not> is_red t \<and> (\<exists>n. bh t n)"

lemma add_red_black: "red_black (plug c Tip) \<Longrightarrow> red_black (add_balance c (Bin Tip a True x Tip))"
proof -
  assume "red_black (plug c Tip)"
  then obtain n where "bh (Tip :: 'a rbt) n" "path_bh c n" unfolding red_black_def using bh_unplug by blast
  then have "\<exists>m. bh (paint False (add_fix c (Bin Tip a True x Tip))) m" by (intro add_fix_bh [of _ 0]) auto
  then show ?thesis by (simp add: red_black_def add_balance_def)
qed

lemma resolve_bh:
  assumes "resolve d t p pr px s = (ready, u)" "bh t n" "\<not> is_red t" "bh s (Suc n)" "\<not> is_red s"
  shows "is_red u = pr \<and> (if ready then bh u (if pr then Suc n else Suc (Suc n)) else bh (paint False u) (Suc n))"
proof -
  obtain l a x b where s: "s = Bin l a False x b" "bh l n" "bh b n" using assms(4,5) by (cases s) (auto split: if_split_asm)
  show ?thesis
    using assms(1-3) s by (cases d) (auto simp: resolve_def Let_def bh_bin bh_paint split: if_split_asm rbt.splits dest: bh_paint)
qed

lemma remove_fix_bh:
  "if is_red t then bh (paint False t) (Suc n) else bh t n \<Longrightarrow> path_bh c (Suc n) \<Longrightarrow> \<exists>m. bh (remove_fix c t) m"
proof (induction c t arbitrary: n rule: remove_fix.induct)
  case (1 t)
  then show ?case by (cases "is_red t") (auto dest: bh_paint)
next
  case (2 d p pr px s c t)
  have k: "bh s (Suc n)" "pr \<longrightarrow> \<not> is_red s \<and> \<not> red_parent c \<and> path_bh c (Suc n)" "\<not> pr \<longrightarrow> path_bh c (Suc (Suc n))" using 2(4) by (auto split: if_split_asm)
  show ?case
  proof (cases "is_red t")
    case True
    then have "bh (paint False t) (Suc n)" using 2(3) by simp
    from bh_plug [OF this 2(4)] True show ?thesis by simp
  next
    case black: False
    then have t: "bh t n" using 2(3) by simp
    show ?thesis
    proof (cases "is_red s")
      case True
      then obtain l a x b where s: "s = Bin l a True x b" by (cases s) auto
      define near far where "near = (if d then b else l)" and "far = (if d then l else b)"
      have nf: "bh near (Suc n)" "bh far (Suc n)" "\<not> is_red near" "\<not> is_red far" "\<not> pr" "path_bh c (Suc (Suc n))" using k s by (auto simp: near_def far_def)
      obtain ready u where u: "resolve d t p True px near = (ready, u)" by (cases "resolve d t p True px near")
      note r = resolve_bh [OF u t black nf(1,3)]
      have c1: "path_bh ((d, a, False, x, far) # c) (Suc n)" using nf by simp
      have "remove_fix ((d, p, pr, px, s) # c) t = (if ready then paint False (plug ((d, a, False, x, far) # c) u) else plug ((d, a, False, x, far) # c) (paint False u))"
        using black u by (simp add: s near_def far_def Let_def)
      moreover have "ready \<Longrightarrow> \<exists>m. bh (plug ((d, a, False, x, far) # c) u) m" using bh_plug [OF _ c1, of u] r by simp
      moreover have "\<not> ready \<Longrightarrow> \<exists>m. bh (plug ((d, a, False, x, far) # c) (paint False u)) m" using bh_plug [OF _ c1, of "paint False u"] r by simp
      ultimately show ?thesis using bh_paint_ex [of "plug ((d, a, False, x, far) # c) u"] by (cases ready) (simp_all del: plug.simps)
    next
      case s: False
      obtain ready u where u: "resolve d t p pr px s = (ready, u)" by (cases "resolve d t p pr px s")
      note r = resolve_bh [OF u t black k(1) s]
      have fix_eq: "remove_fix ((d, p, pr, px, s) # c) t = (if ready then paint False (plug c u) else remove_fix c u)"
        using black s u by (auto split: rbt.splits bool.splits)
      show ?thesis
      proof (cases ready)
        case True
        have "\<exists>m. bh (plug c u) m" by (rule bh_plug [of u "if pr then Suc n else Suc (Suc n)"]) (use r True k in auto)
        with bh_paint_ex fix_eq True show ?thesis by auto
      next
        case False
        have pre: "if is_red u then bh (paint False u) (Suc (if pr then n else Suc n)) else bh u (if pr then n else Suc n)"
          using r False by (cases u) auto
        have cc: "path_bh c (Suc (if pr then n else Suc n))" using k by simp
        have "\<exists>m. bh (remove_fix c u) m"
        proof (cases s)
          case Tip
          with k(1) show ?thesis by simp
        next
          case (Bin l a q x b)
          then have q: "q = False" using s by simp
          show ?thesis by (rule 2(2) [OF black Bin q u [symmetric] refl False pre cc])
        qed
        with fix_eq False show ?thesis by simp
      qed
    qed
  qed
qed

lemma plug_root: "c \<noteq> [] \<Longrightarrow> is_red (plug c u) = is_red (plug c v)"
proof (induction c arbitrary: u v)
  case (Cons f c)
  obtain d a r x s where "f = (d, a, r, x, s)" by (cases f)
  with Cons(1) show ?case by (cases "c = []") auto
qed simp

lemma remove_fix_black: "\<not> is_red (plug c t) \<Longrightarrow> \<not> is_red (remove_fix c t)"
proof (induction c t rule: remove_fix.induct)
  case (2 d p pr px s c t)
  show ?case
  proof (cases "is_red t")
    case True
    with 2(3) plug_root [of "(d, p, pr, px, s) # c" t "paint False t"] show ?thesis by simp
  next
    case black: False
    have up: "c \<noteq> [] \<Longrightarrow> \<not> is_red (plug c u)" for u using 2(3) plug_root [of c u "bin d t p pr px s"] by simp
    have down: "\<not> is_red (plug c (bin d u a False x far))" for u a x far using up by (cases "c = []") auto
    have rec: "(\<And>l a x b. s \<noteq> Bin l a True x b) \<Longrightarrow> resolve d t p pr px s = (False, u) \<Longrightarrow> \<not> is_red (remove_fix c u)" for u
    proof (cases "c = []")
      case False
      assume s: "\<And>l a x b. s \<noteq> Bin l a True x b" and r: "resolve d t p pr px s = (False, u)"
      show ?thesis
      proof (cases s)
        case Tip
        from 2(1) [OF black Tip r [symmetric] refl _ up [OF False]] show ?thesis by simp
      next
        case (Bin l a q x b)
        with s [of l a x b] have "q = False" by simp
        from 2(2) [OF black Bin this r [symmetric] refl _ up [OF False]] show ?thesis by simp
      qed
    qed simp
    show ?thesis
    proof (cases "is_red s")
      case True
      then obtain l a x b where "s = Bin l a True x b" by (cases s) auto
      with black down [of _ a x] show ?thesis by (auto simp: Let_def split: prod.splits)
    next
      case False
      then have "s \<noteq> Bin l a True x b" for l a x b by auto
      with black rec show ?thesis by (auto split: rbt.splits bool.splits prod.splits)
    qed
  qed
qed simp

lemma remove_fix_red_black:
  assumes "bh t n" "path_bh c (Suc n)" "c \<noteq> [] \<Longrightarrow> \<not> is_red (plug c t)"
  shows "red_black (remove_fix c t)"
proof -
  have "if is_red t then bh (paint False t) (Suc n) else bh t n" using bh_paint [OF assms(1)] assms(1) by (cases "is_red t") simp_all
  from remove_fix_bh [OF this assms(2)] remove_fix_black [OF assms(3)] show ?thesis by (cases "c = []") (auto simp: red_black_def)
qed

section \<open>Depth\<close>

fun height :: "'c rbt \<Rightarrow> nat" where
  "height Tip = 0"
| "height (Bin l a r x s) = Suc (max (height l) (height s))"

lemma bh_size: "bh t n \<Longrightarrow> 2 ^ n \<le> Suc (length (inorder t))"
proof (induction t arbitrary: n)
  case (Bin l a r x s)
  show ?case
  proof (cases r)
    case True
    with Bin.prems Bin.IH(1) [of n] show ?thesis by simp
  next
    case False
    with Bin.prems obtain m where m: "n = Suc m" "bh l m" "bh s m" by (cases n) auto
    with Bin.IH(1) [OF m(2)] Bin.IH(2) [OF m(3)] show ?thesis by simp
  qed
qed simp

lemma bh_height: "bh t n \<Longrightarrow> height t \<le> 2 * n + (if is_red t then 1 else 0)"
proof (induction t arbitrary: n)
  case (Bin l a r x s)
  show ?case
  proof (cases r)
    case True
    with Bin.prems Bin.IH(1) [of n] Bin.IH(2) [of n] show ?thesis by simp
  next
    case False
    with Bin.prems obtain m where m: "n = Suc m" "bh l m" "bh s m" by (cases n) auto
    with Bin.IH(1) [OF m(2)] Bin.IH(2) [OF m(3)] False show ?thesis by (simp split: if_split_asm)
  qed
qed simp

text \<open>The depth is at most twice the logarithm of the number of contents.\<close>

lemma red_black_height: "red_black t \<Longrightarrow> 2 ^ height t \<le> Suc (length (inorder t)) ^ 2"
proof -
  assume "red_black t"
  then obtain n where n: "\<not> is_red t" "bh t n" by (auto simp: red_black_def)
  have "(2::nat) ^ height t \<le> 2 ^ (n * 2)" using bh_height [OF n(2)] n(1) by (intro power_increasing) auto
  also have "\<dots> \<le> Suc (length (inorder t)) ^ 2" unfolding power_mult by (rule power_mono [OF bh_size [OF n(2)]]) simp
  finally show ?thesis .
qed

end
