(* ===== verification/Tree_Refine.thy ===== *)
theory Tree_Refine
  imports Red_Black
begin

text \<open>
  The pointer code of \<^verbatim>\<open>Tree.c\<close> implements the trees of the previous theory: a store holds a tree at a position, and
  every operation that is started there returns without a fault in a store that holds the tree it should.
\<close>

section \<open>Trees in a store\<close>

fun root_of :: "'c rbt \<Rightarrow> nat option" where
  "root_of Tip = None"
| "root_of (Bin l a r x s) = Some a"

fun addrs :: "'c rbt \<Rightarrow> nat list" where
  "addrs Tip = []"
| "addrs (Bin l a r x s) = a # addrs l @ addrs s"

definition node_for :: "nat option \<Rightarrow> nat option \<Rightarrow> nat option \<Rightarrow> bool \<Rightarrow> 'c \<times> int \<Rightarrow> 'c Node" where
  "node_for up l s r x = \<lparr>n_parent = up, n_left = l, n_right = s, n_content = Some (fst x), n_size = snd x, n_red = r\<rparr>"

fun shape :: "'c store \<Rightarrow> nat option \<Rightarrow> 'c rbt \<Rightarrow> bool" where
  "shape N up Tip \<longleftrightarrow> True"
| "shape N up (Bin l a r x s) \<longleftrightarrow> N a = Some (node_for up (root_of l) (root_of s) r x) \<and> shape N (Some a) l \<and> shape N (Some a) s"

definition parent_of :: "'c frame list \<Rightarrow> nat option" where
  "parent_of c = (case c of [] \<Rightarrow> None | (d, a, r, x, s) # _ \<Rightarrow> Some a)"

lemma parent_of_simps [simp]: "parent_of [] = None" "parent_of ((d, a, r, x, s) # c) = Some a"
  by (simp_all add: parent_of_def)

fun caddrs :: "'c frame list \<Rightarrow> nat list" where
  "caddrs [] = []"
| "caddrs ((d, a, r, x, s) # c) = a # addrs s @ caddrs c"

fun cshape :: "'c store \<Rightarrow> nat option \<Rightarrow> 'c frame list \<Rightarrow> bool" where
  "cshape N p [] \<longleftrightarrow> True"
| "cshape N p ((d, a, r, x, s) # c) \<longleftrightarrow>
     N a = Some (node_for (parent_of c) (if d then root_of s else p) (if d then p else root_of s) r x) \<and>
     shape N (Some a) s \<and> cshape N (Some a) c"

fun root_at :: "nat option \<Rightarrow> 'c frame list \<Rightarrow> nat option" where
  "root_at p [] = p"
| "root_at p ((d, a, r, x, s) # c) = root_at (Some a) c"

text \<open>The store holds the tree \<open>plug c t\<close>; the node at the position \<open>c\<close> is the root of \<open>t\<close>.\<close>

definition holds :: "'c store \<times> nat option \<Rightarrow> 'c frame list \<Rightarrow> 'c rbt \<Rightarrow> bool" where
  "holds st c t \<longleftrightarrow> snd st = root_at (root_of t) c \<and> shape (fst st) (parent_of c) t \<and> cshape (fst st) (root_of t) c \<and>
     distinct (addrs t @ caddrs c)"

definition same_outside :: "nat set \<Rightarrow> 'c store \<Rightarrow> 'c store \<Rightarrow> bool" where
  "same_outside A N N' \<longleftrightarrow> (\<forall>a. a \<notin> A \<longrightarrow> N' a = N a)"

definition at_position :: "'c frame list \<Rightarrow> 'c rbt \<Rightarrow> nat set" where
  "at_position c t = set (addrs t) \<union> set (caddrs c)"

lemma shape_upd [simp]: "a \<notin> set (addrs t) \<Longrightarrow> shape (N(a := n)) up t = shape N up t"
  by (induction t arbitrary: up) auto

lemma cshape_upd [simp]: "a \<notin> set (caddrs c) \<Longrightarrow> cshape (N(a := n)) p c = cshape N p c"
  by (induction N p c rule: cshape.induct) auto

lemma bin_simps [simp]:
  "root_of (bin d t a r x s) = Some a"
  "set (addrs (bin d t a r x s)) = insert a (set (addrs t) \<union> set (addrs s))"
  "distinct (addrs (bin d t a r x s)) \<longleftrightarrow> a \<notin> set (addrs t) \<and> a \<notin> set (addrs s) \<and> distinct (addrs t) \<and> distinct (addrs s) \<and> set (addrs t) \<inter> set (addrs s) = {}"
  by (auto simp: bin_def)

definition node_dir :: "bool \<Rightarrow> nat option \<Rightarrow> nat option \<Rightarrow> nat option \<Rightarrow> bool \<Rightarrow> 'c \<times> int \<Rightarrow> 'c Node" where
  "node_dir d up p q r x = (if d then node_for up q p r x else node_for up p q r x)"

lemma shape_bin [simp]:
  "shape N up (bin d t a r x s) \<longleftrightarrow> N a = Some (node_dir d up (root_of t) (root_of s) r x) \<and> shape N (Some a) t \<and> shape N (Some a) s"
  by (auto simp: bin_def node_dir_def)

lemma node_dir_simps [simp]:
  "child (node_dir d up p q r x) d = p" "child (node_dir d up p q r x) (\<not> d) = q" "n_parent (node_dir d up p q r x) = up"
  "n_red (node_dir d up p q r x) = r" "n_content (node_dir d up p q r x) = Some (fst x)" "n_size (node_dir d up p q r x) = snd x"
  "set_child d v (node_dir d up p q r x) = node_dir d up v q r x" "set_child (\<not> d) v (node_dir d up p q r x) = node_dir d up p v r x"
  "set_parent v (node_dir d up p q r x) = node_dir d v p q r x" "set_red b (node_dir d up p q r x) = node_dir d up p q b x"
  "child (node_dir (\<not> d) up p q r x) d = q" "set_child d v (node_dir (\<not> d) up p q r x) = node_dir (\<not> d) up p v r x"
  by (auto simp: node_dir_def node_for_def child_def set_child_def set_parent_def set_red_def)

lemma cshape_frame [simp]:
  "cshape N p ((d, a, r, x, s) # c) \<longleftrightarrow> N a = Some (node_dir d (parent_of c) p (root_of s) r x) \<and> shape N (Some a) s \<and> cshape N (Some a) c"
  by (auto simp: node_dir_def)

declare cshape.simps(2) [simp del]

lemma root_in: "root_of t = Some a \<Longrightarrow> a \<in> set (addrs t)"
  by (cases t) auto

lemma node_at_Some [simp]: "N a = Some n \<Longrightarrow> node_at (Some a) N = Inr n"
  by (simp add: node_at_def)

lemma change_Some [simp]: "N a = Some n \<Longrightarrow> change (Some a) f N = Inr (N(a \<mapsto> f n))"
  by (simp add: change_def)

lemma shape_reparent:
  "shape N up t \<Longrightarrow> root_of t = Some b \<Longrightarrow> distinct (addrs t) \<Longrightarrow> \<exists>n. N b = Some n \<and> shape (N(b \<mapsto> set_parent v n)) v t"
  by (cases t) (auto simp: node_for_def set_parent_def)

section \<open>Rotation\<close>

lemma reparent_child:
  assumes "shape N up t" "distinct (addrs t)"
  obtains N' where "adopt (root_of t) v N = Inr N'" "shape N' v t" "same_outside (set (addrs t)) N N'"
proof (cases "root_of t")
  case None
  then have "t = Tip" by (cases t) auto
  with that show thesis by (simp add: same_outside_def adopt_def)
next
  case (Some b)
  with shape_reparent [OF assms(1) Some assms(2)] obtain n where n: "N b = Some n" "shape (N(b \<mapsto> set_parent v n)) v t" by blast
  from Some have "b \<in> set (addrs t)" by (rule root_in)
  with n Some that [of "N(b \<mapsto> set_parent v n)"] show thesis by (simp add: same_outside_def adopt_def)
qed

lemma shape_outside: "same_outside A N N' \<Longrightarrow> A \<inter> set (addrs t) = {} \<Longrightarrow> shape N' up t = shape N up t"
  by (induction t arbitrary: up) (auto simp: same_outside_def)

lemma cshape_outside: "same_outside A N N' \<Longrightarrow> A \<inter> set (caddrs c) = {} \<Longrightarrow> cshape N' p c = cshape N p c"
proof (induction N p c rule: cshape.induct)
  case (2 N p d a r x s c)
  then have "N' a = N a" "A \<inter> set (addrs s) = {}" "A \<inter> set (caddrs c) = {}" by (auto simp: same_outside_def)
  with 2 shape_outside show ?case by (metis cshape_frame)
qed simp

lemma redirect_ok:
  assumes "cshape N (Some a) c" "a \<notin> set (caddrs c)" "distinct (caddrs c)" "root = root_at (Some a) c"
  obtains N' where "redirect (parent_of c) (Some a) direction p (N, root) = Inr (N', root_at p c)" "cshape N' p c" "same_outside (set (caddrs c)) N N'"
proof (cases c)
  case Nil
  with that assms show thesis by (simp add: redirect_def same_outside_def)
next
  case (Cons f c')
  obtain d b r x s where f: "f = (d, b, r, x, s)" by (cases f)
  have s: "root_of s \<noteq> Some a" using assms(2) root_in Cons f by fastforce
  let ?n = "node_dir d (parent_of c') (Some a) (root_of s) r x"
  have b: "N b = Some ?n" using assms(1) Cons f by simp
  have "(Some a = child ?n direction) = (direction = d)" using s by (cases direction; cases d) (auto simp: node_dir_def node_for_def child_def)
  then have e: "set_child (if Some a = child ?n direction then direction else \<not> direction) p ?n = node_dir d (parent_of c') p (root_of s) r x"
    by (cases direction; cases d) simp_all
  show thesis
  proof (rule that)
    show "redirect (parent_of c) (Some a) direction p (N, root) = Inr (N(b \<mapsto> node_dir d (parent_of c') p (root_of s) r x), root_at p c)"
      using b e assms(4) Cons f by (simp add: redirect_def)
    show "cshape (N(b \<mapsto> node_dir d (parent_of c') p (root_of s) r x)) p c" using assms Cons f by simp
    show "same_outside (set (caddrs c)) N (N(b \<mapsto> node_dir d (parent_of c') p (root_of s) r x))" using Cons f by (simp add: same_outside_def)
  qed
qed

lemma same_outside_trans: "same_outside A N N' \<Longrightarrow> same_outside B N' N'' \<Longrightarrow> A \<subseteq> C \<Longrightarrow> B \<subseteq> C \<Longrightarrow> same_outside C N N''"
  unfolding same_outside_def by (metis subsetD)

lemma same_outside_upd: "same_outside A N N' \<Longrightarrow> a \<in> A \<Longrightarrow> same_outside A N (N'(a := n))"
  by (auto simp: same_outside_def)

lemma same_outside_at: "same_outside A N N' \<Longrightarrow> a \<notin> A \<Longrightarrow> N' a = N a"
  by (simp add: same_outside_def)

lemma rotate_ok:
  assumes "holds (N, root) c (bin d A a ra x (bin d B b rb y C))"
  obtains N' root' where "TreeRotate (Some a) d (N, root) = Inr (N', root')" "holds (N', root') c (bin d (bin d A a ra x B) b rb y C)"
    "same_outside (at_position c (bin d A a ra x (bin d B b rb y C))) N N'"
proof -
  let ?up = "parent_of c" and ?all = "at_position c (bin d A a ra x (bin d B b rb y C))"
  note h = assms [unfolded holds_def, simplified]
  have dist: "a \<noteq> b" "a \<notin> set (addrs A)" "a \<notin> set (addrs B)" "a \<notin> set (addrs C)" "a \<notin> set (caddrs c)"
    "b \<notin> set (addrs A)" "b \<notin> set (addrs B)" "b \<notin> set (addrs C)" "b \<notin> set (caddrs c)"
    "set (addrs B) \<inter> set (addrs A) = {}" "set (addrs B) \<inter> set (addrs C) = {}" "set (addrs B) \<inter> set (caddrs c) = {}"
    "set (caddrs c) \<inter> set (addrs A) = {}" "set (caddrs c) \<inter> set (addrs B) = {}" "set (caddrs c) \<inter> set (addrs C) = {}"
    "distinct (addrs B)" "distinct (caddrs c)" using h by auto
  define N1 where "N1 = N(a \<mapsto> node_dir d ?up (root_of A) (root_of B) ra x)"
  have "shape N1 (Some b) B" using h dist by (simp add: N1_def)
  from reparent_child [OF this dist(16), of "Some a"] obtain N2 where
    r2: "adopt (root_of B) (Some a) N1 = Inr N2" and s2: "shape N2 (Some a) B"
    and o2: "same_outside (set (addrs B)) N1 N2" by blast
  note a2 = same_outside_at [OF o2 dist(3)] same_outside_at [OF o2 dist(7)]
  define N3 where "N3 = N2(b \<mapsto> node_dir d ?up (root_of B) (root_of C) rb y)"
  have c3: "cshape N3 (Some a) c" using h dist cshape_outside [OF o2 dist(12)] by (simp add: N3_def N1_def)
  from redirect_ok [OF c3 dist(5,17) refl, of d "Some b"] obtain N5 where
    r5: "redirect ?up (Some a) d (Some b) (N3, root_at (Some a) c) = Inr (N5, root_at (Some b) c)" and c5: "cshape N5 (Some b) c"
    and o5: "same_outside (set (caddrs c)) N3 N5" by blast
  note a5 = same_outside_at [OF o5 dist(5)] same_outside_at [OF o5 dist(9)]
  define N7 where "N7 = N5(b \<mapsto> node_dir d ?up (Some a) (root_of C) rb y, a \<mapsto> node_dir d (Some b) (root_of A) (root_of B) ra x)"
  have run: "TreeRotate (Some a) d (N, root) = Inr (N7, root_at (Some b) c)"
    using h dist r2 r5 a2 a5 unfolding TreeRotate_def
    by (simp add: N1_def [symmetric] Let_def) (simp add: N1_def N3_def [symmetric] N7_def, simp add: N3_def fun_upd_twist)
  have "shape N7 (Some a) A" "shape N7 (Some a) B" "shape N7 (Some b) C"
    using h dist s2 shape_outside [OF o5] shape_outside [OF o2] by (simp_all add: N7_def N3_def N1_def)
  moreover have "cshape N7 (Some b) c" using c5 dist by (simp add: N7_def)
  ultimately have "holds (N7, root_at (Some b) c) c (bin d (bin d A a ra x B) b rb y C)"
    using h dist by (auto simp: holds_def N7_def)
  moreover have "same_outside ?all N N7"
    using o2 o5 by (auto simp: same_outside_def at_position_def N7_def N3_def N1_def)
  ultimately show thesis using run that by blast
qed

section \<open>Positions\<close>

lemma holds_up: "holds st ((d, a, r, x, s) # c) t \<longleftrightarrow> holds st c (bin d t a r x s)"
  by (auto simp: holds_def)

lemma holds_plug: "holds st c t \<longleftrightarrow> holds st [] (plug c t)"
  by (induction c t rule: plug.induct) (simp_all add: holds_up)

lemma holds_sibling: "holds st ((d, a, r, x, s) # c) t \<longleftrightarrow> holds st ((\<not> d, a, r, x, t) # c) s"
  by (simp add: holds_up bin_flip)

lemma at_position_up: "at_position ((d, a, r, x, s) # c) t = at_position c (bin d t a r x s)"
  by (auto simp: at_position_def)

lemma at_position_plug: "at_position c t = set (addrs (plug c t))"
  by (induction c t rule: plug.induct) (simp_all add: at_position_up, simp add: at_position_def)

text \<open>The same store, up to the nodes of a tree, which are the same as well.\<close>

definition step_to :: "'c store \<Rightarrow> 'c rbt \<Rightarrow> 'c store \<times> nat option \<Rightarrow> 'c rbt \<Rightarrow> bool" where
  "step_to N t st' t' \<longleftrightarrow> holds st' [] t' \<and> same_outside (set (addrs t)) N (fst st') \<and> set (addrs t') = set (addrs t)"

lemma step_to_refl: "holds (N, root) [] t \<Longrightarrow> step_to N t (N, root) t"
  by (simp add: step_to_def same_outside_def)

lemma step_to_trans: "step_to N t (N1, r1) t1 \<Longrightarrow> step_to N1 t1 st2 t2 \<Longrightarrow> step_to N t st2 t2"
  unfolding step_to_def by (metis fst_conv same_outside_trans subset_refl)

lemma set_addrs_plug: "set (addrs (plug c t)) = set (addrs t) \<union> set (caddrs c)"
  using at_position_plug [of c t] by (auto simp: at_position_def)

lemma node_of:
  assumes "holds (N, root) c (bin d t a r x s)"
  shows "N a = Some (node_dir d (parent_of c) (root_of t) (root_of s) r x)"
  using assms by (simp add: holds_def)

lemma rotate_step:
  assumes "holds (N, root) c (bin d A a ra x (bin d B b rb y C))"
  obtains N' root' where "TreeRotate (Some a) d (N, root) = Inr (N', root')"
    "step_to N (plug c (bin d A a ra x (bin d B b rb y C))) (N', root') (plug c (bin d (bin d A a ra x B) b rb y C))"
proof -
  from rotate_ok [OF assms] obtain N' root' where r: "TreeRotate (Some a) d (N, root) = Inr (N', root')"
    "holds (N', root') c (bin d (bin d A a ra x B) b rb y C)" "same_outside (at_position c (bin d A a ra x (bin d B b rb y C))) N N'" by blast
  then have "step_to N (plug c (bin d A a ra x (bin d B b rb y C))) (N', root') (plug c (bin d (bin d A a ra x B) b rb y C))"
    by (auto simp: step_to_def holds_plug [symmetric] at_position_plug set_addrs_plug)
  with r(1) that show thesis by blast
qed

lemma paint_step:
  assumes "holds (N, root) c t" "root_of t = Some a"
  obtains N' where "change (Some a) (set_red q) N = Inr N'" "step_to N (plug c t) (N', root) (plug c (paint q t))"
proof -
  from assms(2) obtain l r x s where t: "t = bin False l a r x s" by (cases t) (auto simp: bin_def)
  let ?n = "node_dir False (parent_of c) (root_of l) (root_of s) q x"
  have n: "N a = Some (node_dir False (parent_of c) (root_of l) (root_of s) r x)" using assms(1) unfolding t by (rule node_of)
  then have "change (Some a) (set_red q) N = Inr (N(a \<mapsto> ?n))" by simp
  moreover have "holds (N(a \<mapsto> ?n), root) c (paint q t)" using assms(1) unfolding t by (auto simp: holds_def)
  moreover have "same_outside (set (addrs (plug c t))) N (N(a \<mapsto> ?n))" by (auto simp: same_outside_def set_addrs_plug t)
  ultimately show thesis using that by (simp add: step_to_def holds_plug [symmetric] set_addrs_plug t)
qed

lemma holds_of_step: "step_to N t st' (plug c' t') \<Longrightarrow> holds st' c' t'"
  by (simp add: step_to_def holds_plug [symmetric])

section \<open>Balancing after adding\<close>

lemma holds_distinct:
  assumes "holds st ((d, a, r, x, s) # c) t"
  shows "root_of s \<noteq> root_of t \<or> t = Tip" "a \<notin> set (addrs t)" "a \<notin> set (addrs s)" "a \<notin> set (caddrs c)" "parent_of c \<noteq> Some a"
proof -
  have "parent_of c \<noteq> Some a"
  proof
    assume "parent_of c = Some a"
    then have "a \<in> set (caddrs c)" by (auto simp: parent_of_def split: list.splits)
    with assms show False by (simp add: holds_def)
  qed
  moreover have "root_of s \<noteq> root_of t \<or> t = Tip"
  proof (cases t)
    case (Bin l b q y u)
    then have "b \<notin> set (addrs s)" using assms by (simp add: holds_def)
    with Bin root_in [of s b] show ?thesis by auto
  qed simp
  ultimately show "root_of s \<noteq> root_of t \<or> t = Tip" "a \<notin> set (addrs t)" "a \<notin> set (addrs s)" "a \<notin> set (caddrs c)" "parent_of c \<noteq> Some a"
    using assms by (auto simp: holds_def)
qed

lemma isRed_root:
  assumes "holds (N, root) c t"
  shows "isRed (root_of t) N = Inr (is_red t)" "isBlack (root_of t) N = Inr (\<not> is_red t)"
  using assms by (cases t; simp add: isRed_def isBlack_def holds_def node_for_def)+

lemma root_cases: "t \<noteq> Tip \<Longrightarrow> \<exists>a. root_of t = Some a"
  by (cases t) auto

lemma node_of_root:
  assumes "holds (N, root) c t" "root_of t = Some a"
  obtains n where "N a = Some n" "n_parent n = parent_of c"
  using assms by (cases t) (auto simp: holds_def node_for_def)

lemma bin_exists: "t \<noteq> Tip \<Longrightarrow> \<exists>l a r x s. t = bin d l a r x s"
  by (cases t; cases d) (auto simp: bin_def)

lemma parent_frame:
  assumes "holds (N, root) ((d, a, r, x, s) # c) t"
  shows "N a = Some (node_dir d (parent_of c) (root_of t) (root_of s) r x)"
  using assms by (simp add: holds_def)

lemma up_frame:
  assumes "holds (N, root) (f # (d, a, r, x, s) # c) t"
  shows "N a = Some (node_dir d (parent_of c) (Some (fst (snd f))) (root_of s) r x)"
  using assms by (cases f) (simp add: holds_def)

lemma baa_red:
  assumes h: "holds (N, root) ((d1, p, True, px, s) # (d2, g, gr, gx, u) # c) t" and "t \<noteq> Tip" "is_red u"
  obtains N' root' where "TreeBAASub (root_of t) (\<not> d2) (N, root) = Inr (Some g, N', root')"
    "step_to N (plug ((d1, p, True, px, s) # (d2, g, gr, gx, u) # c) t) (N', root') (plug c (bin d2 (bin d1 t p False px s) g True gx (paint False u)))"
proof -
  from root_cases [OF assms(2)] obtain a where a: "root_of t = Some a" ..
  from node_of_root [OF h a] obtain n where n: "N a = Some n" "n_parent n = Some p" by auto
  note pn = parent_frame [OF h] and gn = up_frame [OF h]
  from assms(3) obtain b where b: "root_of u = Some b" by (cases u) auto
  have hu: "holds (N, root) ((\<not> d2, g, gr, gx, bin d1 t p True px s) # c) u" using h by (simp add: holds_up bin_flip)
  from paint_step [OF hu b] obtain N1 where N1: "change (Some b) (set_red False) N = Inr N1"
    "step_to N (plug c (bin d2 (bin d1 t p True px s) g gr gx u)) (N1, root) (plug c (bin d2 (bin d1 t p True px s) g gr gx (paint False u)))"
    by (auto simp: bin_flip)
  have "holds (N1, root) ((d2, g, gr, gx, paint False u) # c) (bin d1 t p True px s)" using holds_of_step [OF N1(2)] by (simp add: holds_up)
  from paint_step [OF this] obtain N2 where N2: "change (Some p) (set_red False) N1 = Inr N2"
    "step_to N1 (plug c (bin d2 (bin d1 t p True px s) g gr gx (paint False u))) (N2, root) (plug c (bin d2 (bin d1 t p False px s) g gr gx (paint False u)))"
    by auto
  from paint_step [OF holds_of_step [OF N2(2)]] obtain N3 where N3: "change (Some g) (set_red True) N2 = Inr N3"
    "step_to N2 (plug c (bin d2 (bin d1 t p False px s) g gr gx (paint False u))) (N3, root) (plug c (bin d2 (bin d1 t p False px s) g True gx (paint False u)))"
    by auto
  have "TreeBAASub (root_of t) (\<not> d2) (N, root) = Inr (Some g, N3, root)"
    using a n pn gn b isRed_root(1) [OF hu] assms(3) N1(1) N2(1) N3(1) by (simp add: TreeBAASub_def Let_def)
  moreover note step_to_trans [OF N1(2) step_to_trans [OF N2(2) N3(2)]]
  ultimately show thesis using that by simp
qed

text \<open>The second rotation, after the colours were changed.\<close>

lemma baa_turn:
  assumes "holds (N, root) ((d, p, pr, px, s) # (d, g, gr, gx, u) # c) t" "root_of t = Some a"
  obtains n N1 N2 N3 root' where "N a = Some n" "n_parent n = Some p" "change (Some p) (set_red False) N = Inr N1"
    "node_at (Some p) N1 = Inr (node_dir d (Some g) (root_of t) (root_of s) False px)" "change (Some g) (set_red True) N1 = Inr N2"
    "TreeRotate (Some g) (\<not> d) (N2, root) = Inr (N3, root')"
    "step_to N (plug ((d, p, pr, px, s) # (d, g, gr, gx, u) # c) t) (N3, root') (plug c (bin d t p False px (bin d s g True gx u)))"
proof -
  note h = assms(1)
  from node_of_root [OF h assms(2)] obtain n where n: "N a = Some n" "n_parent n = Some p" by auto
  have "holds (N, root) ((d, g, gr, gx, u) # c) (bin d t p pr px s)" using h by (simp add: holds_up)
  from paint_step [OF this] obtain N1 where N1: "change (Some p) (set_red False) N = Inr N1"
    "step_to N (plug c (bin d (bin d t p pr px s) g gr gx u)) (N1, root) (plug c (bin d (bin d t p False px s) g gr gx u))" by auto
  have h1: "holds (N1, root) c (bin d (bin d t p False px s) g gr gx u)" using holds_of_step [OF N1(2)] .
  then have p1: "node_at (Some p) N1 = Inr (node_dir d (Some g) (root_of t) (root_of s) False px)"
    using parent_frame [of N1 root d p False px s "(d, g, gr, gx, u) # c" t] by (simp add: holds_up)
  from paint_step [OF h1] obtain N2 where N2: "change (Some g) (set_red True) N1 = Inr N2"
    "step_to N1 (plug c (bin d (bin d t p False px s) g gr gx u)) (N2, root) (plug c (bin d (bin d t p False px s) g True gx u))" by auto
  have "holds (N2, root) c (bin (\<not> d) u g True gx (bin (\<not> d) s p False px t))" using holds_of_step [OF N2(2)] by (simp add: bin_flip)
  from rotate_step [OF this] obtain N3 root' where N3: "TreeRotate (Some g) (\<not> d) (N2, root) = Inr (N3, root')"
    "step_to N2 (plug c (bin d (bin d t p False px s) g True gx u)) (N3, root') (plug c (bin d t p False px (bin d s g True gx u)))"
    by (auto simp: bin_flip)
  from that [OF n N1(1) p1 N2(1) N3(1)] step_to_trans [OF N1(2) step_to_trans [OF N2(2) N3(2)]] show thesis by simp
qed

lemma baa_outer:
  assumes h: "holds (N, root) ((d, p, True, px, s) # (d, g, gr, gx, u) # c) t" and "t \<noteq> Tip" "\<not> is_red u"
  obtains N' root' where "TreeBAASub (root_of t) (\<not> d) (N, root) = Inr (root_of t, N', root')"
    "step_to N (plug ((d, p, True, px, s) # (d, g, gr, gx, u) # c) t) (N', root') (plug c (bin d t p False px (bin d s g True gx u)))"
proof -
  from root_cases [OF assms(2)] obtain a where a: "root_of t = Some a" ..
  note pn = parent_frame [OF h] and gn = up_frame [OF h]
  have hu: "holds (N, root) ((\<not> d, g, gr, gx, bin d t p True px s) # c) u" using h by (simp add: holds_up bin_flip)
  have "root_of s \<noteq> Some a" using holds_distinct(1) [OF h] a assms(2) by auto
  from baa_turn [OF h a] obtain n N1 N2 N3 root' where
    r: "N a = Some n" "n_parent n = Some p" "change (Some p) (set_red False) N = Inr N1"
    "node_at (Some p) N1 = Inr (node_dir d (Some g) (root_of t) (root_of s) False px)" "change (Some g) (set_red True) N1 = Inr N2"
    "TreeRotate (Some g) (\<not> d) (N2, root) = Inr (N3, root')"
    "step_to N (plug ((d, p, True, px, s) # (d, g, gr, gx, u) # c) t) (N3, root') (plug c (bin d t p False px (bin d s g True gx u)))" by blast
  have "TreeBAASub (root_of t) (\<not> d) (N, root) = Inr (root_of t, N3, root')"
    using a r(1-6) pn gn isRed_root(1) [OF hu] assms(3) \<open>root_of s \<noteq> Some a\<close> by (auto simp: TreeBAASub_def Let_def)
  with r(7) that show thesis by blast
qed

lemma baa_inner:
  assumes h: "holds (N, root) ((\<not> d, p, True, px, s) # (d, g, gr, gx, u) # c) (bin d B a r x C)" and "\<not> is_red u"
  obtains N' root' where "TreeBAASub (Some a) (\<not> d) (N, root) = Inr (Some p, N', root')"
    "step_to N (plug ((\<not> d, p, True, px, s) # (d, g, gr, gx, u) # c) (bin d B a r x C)) (N', root')
       (plug c (bin d (bin d s p True px B) a False x (bin d C g True gx u)))"
proof -
  obtain n where n: "N a = Some n" "n_parent n = Some p" using node_of_root [OF h, of a] by auto
  note pn = parent_frame [OF h] and gn = up_frame [OF h]
  have hu: "holds (N, root) ((\<not> d, g, gr, gx, bin (\<not> d) (bin d B a r x C) p True px s) # c) u" using h by (simp add: holds_up bin_flip)
  have "holds (N, root) ((d, g, gr, gx, u) # c) (bin d s p True px (bin d B a r x C))" using h by (simp add: holds_up bin_flip)
  from rotate_step [OF this] obtain N1 root1 where N1: "TreeRotate (Some p) d (N, root) = Inr (N1, root1)"
    "step_to N (plug c (bin d (bin d s p True px (bin d B a r x C)) g gr gx u)) (N1, root1) (plug c (bin d (bin d (bin d s p True px B) a r x C) g gr gx u))"
    by auto
  have "holds (N1, root1) ((d, a, r, x, C) # (d, g, gr, gx, u) # c) (bin d s p True px B)" using holds_of_step [OF N1(2)] by (simp add: holds_up)
  from baa_turn [OF this bin_simps(1)] obtain n1 N2 N3 N4 root' where
    r: "N1 p = Some n1" "n_parent n1 = Some a" "change (Some a) (set_red False) N1 = Inr N2"
    "node_at (Some a) N2 = Inr (node_dir d (Some g) (root_of (bin d s p True px B)) (root_of C) False x)" "change (Some g) (set_red True) N2 = Inr N3"
    "TreeRotate (Some g) (\<not> d) (N3, root1) = Inr (N4, root')"
    "step_to N1 (plug ((d, a, r, x, C) # (d, g, gr, gx, u) # c) (bin d s p True px B)) (N4, root') (plug c (bin d (bin d s p True px B) a False x (bin d C g True gx u)))"
    by blast
  have "TreeBAASub (Some a) (\<not> d) (N, root) = Inr (Some p, N4, root')"
    using n pn gn isRed_root(1) [OF hu] assms(2) N1(1) r(1-6) by (simp add: TreeBAASub_def Let_def)
  with that step_to_trans [OF N1(2) r(7) [unfolded plug.simps]] show thesis by (simp add: bin_flip)
qed

lemma add_stop:
  assumes "holds (N, root) c t" "t \<noteq> Tip" "case c of (d, p, True, px, s) # f # c' \<Rightarrow> False | _ \<Rightarrow> True"
  shows "add_loop (root_of t) (N, root) = Some (Inr (N, root))"
proof -
  from root_cases [OF assms(2)] obtain a where a: "root_of t = Some a" ..
  from node_of_root [OF assms(1) a] obtain n where n: "N a = Some n" "n_parent n = parent_of c" .
  have "add_goes_on (Some a) N = Inr False"
  proof (cases c)
    case Nil
    with n show ?thesis by (simp add: add_goes_on_def isRed_def)
  next
    case (Cons f c')
    obtain d p r x s where f: "f = (d, p, r, x, s)" by (cases f)
    have p: "N p = Some (node_dir d (parent_of c') (root_of t) (root_of s) r x)" using parent_frame assms(1) Cons f by blast
    have "r \<longrightarrow> c' = []" using assms(3) Cons f by (cases c') (auto split: bool.splits)
    with n p Cons f show ?thesis by (cases r) (simp_all add: add_goes_on_def isRed_def)
  qed
  with a show ?thesis by (subst add_loop.simps) simp
qed

lemma add_go:
  assumes h: "holds (N, root) ((d1, p, True, px, s) # (d2, g, gr, gx, u) # c) t" and "t \<noteq> Tip"
  shows "add_loop (root_of t) (N, root) = (case TreeBAASub (root_of t) (\<not> d2) (N, root) of Inl f \<Rightarrow> Some (Inl f) | Inr (cur, st1) \<Rightarrow> add_loop cur st1)"
proof -
  from root_cases [OF assms(2)] obtain a where a: "root_of t = Some a" ..
  from node_of_root [OF h a] obtain n where n: "N a = Some n" "n_parent n = Some p" by auto
  note pn = parent_frame [OF h] and gn = up_frame [OF h]
  have "holds (N, root) ((d2, g, gr, gx, u) # c) (bin d1 t p True px s)" using h by (simp add: holds_up)
  then have "root_of u \<noteq> Some p" using holds_distinct(1) by fastforce
  then have "(if Some p = child (node_dir d2 (parent_of c) (Some p) (root_of u) gr gx) LEFT then RIGHT else LEFT) = (\<not> d2)"
    by (cases d2) (auto simp: node_dir_def node_for_def child_def LEFT_def RIGHT_def)
  with n pn gn a have "add_round (Some a) (N, root) = TreeBAASub (Some a) (\<not> d2) (N, root)" "add_goes_on (Some a) N = Inr True"
    by (simp_all add: add_round_def add_goes_on_def isRed_def)
  with a show ?thesis by (subst add_loop.simps) simp
qed

lemma add_loop_ok:
  assumes "holds (N, root) c t" "t \<noteq> Tip"
  shows "\<exists>st'. add_loop (root_of t) (N, root) = Some (Inr st') \<and> step_to N (plug c t) st' (add_fix c t)"
  using assms
proof (induction c t arbitrary: N root rule: add_fix_induct)
  case (1 d1 p pr px s d2 g gr gx u c t)
  note h = 1(2)
  have self: "step_to N (plug ((d1, p, pr, px, s) # (d2, g, gr, gx, u) # c) t) (N, root) (plug ((d1, p, pr, px, s) # (d2, g, gr, gx, u) # c) t)"
    by (rule step_to_refl [OF holds_plug [THEN iffD1, OF h]])
  show ?case
  proof (cases pr)
    case False
    with add_stop [OF h 1(3)] self show ?thesis by auto
  next
    case pr: True
    have h: "holds (N, root) ((d1, p, True, px, s) # (d2, g, gr, gx, u) # c) t" using h pr by simp
    note go = add_go [OF h 1(3)]
    show ?thesis
    proof (cases "is_red u")
      case True
      from baa_red [OF h 1(3) True] obtain N' root' where b: "TreeBAASub (root_of t) (\<not> d2) (N, root) = Inr (Some g, N', root')"
        "step_to N (plug ((d1, p, True, px, s) # (d2, g, gr, gx, u) # c) t) (N', root') (plug c (bin d2 (bin d1 t p False px s) g True gx (paint False u)))" .
      from 1(1) [OF _ True holds_of_step [OF b(2)]] pr obtain st' where
        "add_loop (Some g) (N', root') = Some (Inr st')"
        "step_to N' (plug c (bin d2 (bin d1 t p False px s) g True gx (paint False u))) st' (add_fix c (bin d2 (bin d1 t p False px s) g True gx (paint False u)))" by auto
      with step_to_trans [OF b(2)] go b(1) True pr show ?thesis by auto
    next
      case black: False
      show ?thesis
      proof (cases "d1 = d2")
        case True
        note h = h [unfolded True]
        from baa_outer [OF h 1(3) black] obtain N' root' where b: "TreeBAASub (root_of t) (\<not> d2) (N, root) = Inr (root_of t, N', root')"
          "step_to N (plug ((d2, p, True, px, s) # (d2, g, gr, gx, u) # c) t) (N', root') (plug c (bin d2 t p False px (bin d2 s g True gx u)))" .
        have "holds (N', root') ((d2, p, False, px, bin d2 s g True gx u) # c) t" using holds_of_step [OF b(2)] by (simp add: holds_up)
        from add_stop [OF this 1(3)] go b True pr black show ?thesis by auto
      next
        case False
        then have d1: "d1 = (\<not> d2)" by auto
        obtain B a r x C where t: "t = bin d2 B a r x C" using bin_exists [OF 1(3)] by blast
        note h = h [unfolded d1 t]
        from baa_inner [OF h black] obtain N' root' where b: "TreeBAASub (Some a) (\<not> d2) (N, root) = Inr (Some p, N', root')"
          "step_to N (plug ((\<not> d2, p, True, px, s) # (d2, g, gr, gx, u) # c) (bin d2 B a r x C)) (N', root')
             (plug c (bin d2 (bin d2 s p True px B) a False x (bin d2 C g True gx u)))" .
        have "holds (N', root') ((d2, a, False, x, bin d2 C g True gx u) # c) (bin d2 s p True px B)" using holds_of_step [OF b(2)] by (simp add: holds_up)
        from add_stop [OF this] have stop: "add_loop (Some p) (N', root') = Some (Inr (N', root'))" by simp
        have "add_fix ((\<not> d2, p, True, px, s) # (d2, g, gr, gx, u) # c) t = plug c (bin d2 (bin d2 s p True px B) a False x (bin d2 C g True gx u))"
          using black by (cases d2) (simp_all add: t bin_def)
        with go b stop pr d1 t show ?thesis by auto
      qed
    qed
  qed
next
  case (2 t)
  with add_stop [of N root "[]" t] step_to_refl show ?case by auto
next
  case (3 f t)
  obtain d p r x s where f: "f = (d, p, r, x, s)" by (cases f)
  with 3 add_stop [of N root "[f]" t] step_to_refl [of N root "plug [f] t"] show ?case by (auto simp: holds_up split: bool.splits)
qed

lemma add_fix_not_Tip: "t \<noteq> Tip \<Longrightarrow> add_fix c t \<noteq> Tip"
proof -
  have p: "t \<noteq> Tip \<Longrightarrow> plug c t \<noteq> Tip" for c t by (induction c t rule: plug.induct) auto
  show "t \<noteq> Tip \<Longrightarrow> add_fix c t \<noteq> Tip" by (induction c t rule: add_fix.induct) (auto simp: p split: rbt.splits)
qed

lemma balance_add_ok:
  assumes "holds (N, root) c t" "t \<noteq> Tip"
  obtains st' where "TreeBalanceAfterAdd (root_of t) (N, root) = Some (Inr st')" "step_to N (plug c t) st' (add_balance c t)"
proof -
  from add_loop_ok [OF assms] obtain N1 root1 where l: "add_loop (root_of t) (N, root) = Some (Inr (N1, root1))"
    "step_to N (plug c t) (N1, root1) (add_fix c t)" by auto
  from root_cases [OF add_fix_not_Tip [OF assms(2)]] obtain a where a: "root_of (add_fix c t) = Some a" by blast
  have h: "holds (N1, root1) [] (add_fix c t)" using l(2) by (simp add: step_to_def)
  then have "root1 = Some a" using a by (simp add: holds_def)
  moreover obtain N2 where "change (Some a) (set_red False) N1 = Inr N2" "step_to N1 (add_fix c t) (N2, root1) (paint False (add_fix c t))"
    using paint_step [OF h a, of False] by auto
  ultimately show thesis using that l step_to_trans [OF l(2)] by (auto simp: TreeBalanceAfterAdd_def add_balance_def)
qed

section \<open>Balancing after removing\<close>

text \<open>The pointer with which the loop starts: the root of the subtree, or the node on the stack for an empty one.\<close>

definition cursor :: "nat option \<Rightarrow> 'c store \<Rightarrow> 'c frame list \<Rightarrow> 'c rbt \<Rightarrow> bool" where
  "cursor cur N c t \<longleftrightarrow> TEMP \<notin> at_position c t \<and>
     (if t = Tip then cur = Some TEMP \<and> N TEMP = Some (temp_node (parent_of c)) else cur = root_of t)"

lemma cursor_node:
  assumes "holds (N, root) c t" "cursor cur N c t"
  obtains n where "node_at cur N = Inr n" "n_parent n = parent_of c" "(n_content n = None) = (t = Tip)" "n_red n = is_red t"
  using assms by (cases t) (auto simp: cursor_def holds_def temp_node_def node_for_def)

lemma cursor_step:
  assumes "cursor cur N c t" "step_to N (plug c t) (N', root') (plug c' t)" "parent_of c' = parent_of c"
  shows "cursor cur N' c' t"
proof -
  have "same_outside (at_position c t) N N'" "at_position c' t = at_position c t" using assms(2) by (auto simp: step_to_def at_position_plug)
  with assms(1,3) same_outside_at [of "at_position c t" N N' TEMP] show ?thesis by (auto simp: cursor_def)
qed

lemma bar_red_ok:
  assumes h: "holds (N, root) ((d, p, pr, px, bin d near a True x far) # c) t" and cur: "cursor cur N ((d, p, pr, px, bin d near a True x far) # c) t"
  obtains N' root' where "bar_red cur (\<not> d) (N, root) = Inr (N', root')"
    "step_to N (plug c (bin d t p pr px (bin d near a True x far))) (N', root') (plug c (bin d (bin d t p True px near) a False x far))"
proof -
  from cursor_node [OF h cur] obtain n where n: "node_at cur N = Inr n" "n_parent n = Some p" by auto
  note pn = parent_frame [OF h]
  have hs: "holds (N, root) ((\<not> d, p, pr, px, t) # c) (bin d near a True x far)" using h by (simp add: holds_up bin_flip)
  from paint_step [OF hs] obtain N1 where N1: "change (Some a) (set_red False) N = Inr N1"
    "step_to N (plug c (bin d t p pr px (bin d near a True x far))) (N1, root) (plug c (bin d t p pr px (bin d near a False x far)))"
    by (auto simp: bin_flip)
  from paint_step [OF holds_of_step [OF N1(2)]] obtain N2 where N2: "change (Some p) (set_red True) N1 = Inr N2"
    "step_to N1 (plug c (bin d t p pr px (bin d near a False x far))) (N2, root) (plug c (bin d t p True px (bin d near a False x far)))" by auto
  from rotate_step [OF holds_of_step [OF N2(2)]] obtain N3 root' where N3: "TreeRotate (Some p) d (N2, root) = Inr (N3, root')"
    "step_to N2 (plug c (bin d t p True px (bin d near a False x far))) (N3, root') (plug c (bin d (bin d t p True px near) a False x far))" .
  have "bar_red cur (\<not> d) (N, root) = Inr (N3, root')"
    using n pn isRed_root(1) [OF hs] N1(1) N2(1) N3(1) by (simp add: bar_red_def)
  with that step_to_trans [OF N1(2) step_to_trans [OF N2(2) N3(2)]] show thesis by blast
qed

lemma bar_turn_ok:
  assumes h: "holds (N, root) ((d, p, pr, px, bin d (bin d n1 na True nx n2) a r x far) # c) t" and "\<not> is_red far"
  obtains N' root' where "bar_turn (Some a) (Some p) (\<not> d) (N, root) = Inr (Some na, N', root')"
    "step_to N (plug c (bin d t p pr px (bin d (bin d n1 na True nx n2) a r x far))) (N', root') (plug c (bin d t p pr px (bin d n1 na False nx (bin d n2 a True x far))))"
proof -
  have hs: "holds (N, root) ((\<not> d, p, pr, px, t) # c) (bin d (bin d n1 na True nx n2) a r x far)" using h by (simp add: holds_up bin_flip)
  note an = node_of [OF hs]
  have hf: "holds (N, root) ((\<not> d, a, r, x, bin d n1 na True nx n2) # (\<not> d, p, pr, px, t) # c) far" using hs by (simp add: holds_up bin_flip)
  have hn: "holds (N, root) ((d, a, r, x, far) # (\<not> d, p, pr, px, t) # c) (bin d n1 na True nx n2)" using hs by (simp add: holds_up)
  from paint_step [OF hn] obtain N1 where N1: "change (Some na) (set_red False) N = Inr N1"
    "step_to N (plug c (bin d t p pr px (bin d (bin d n1 na True nx n2) a r x far))) (N1, root) (plug c (bin d t p pr px (bin d (bin d n1 na False nx n2) a r x far)))"
    by (auto simp: bin_flip)
  have "holds (N1, root) ((\<not> d, p, pr, px, t) # c) (bin d (bin d n1 na False nx n2) a r x far)" using holds_of_step [OF N1(2)] by (simp add: holds_up bin_flip)
  from paint_step [OF this] obtain N2 where N2: "change (Some a) (set_red True) N1 = Inr N2"
    "step_to N1 (plug c (bin d t p pr px (bin d (bin d n1 na False nx n2) a r x far))) (N2, root) (plug c (bin d t p pr px (bin d (bin d n1 na False nx n2) a True x far)))"
    by (auto simp: bin_flip)
  have "holds (N2, root) ((\<not> d, p, pr, px, t) # c) (bin (\<not> d) far a True x (bin (\<not> d) n2 na False nx n1))"
    using holds_of_step [OF N2(2)] by (simp add: holds_up bin_flip)
  from rotate_step [OF this] obtain N3 root' where N3: "TreeRotate (Some a) (\<not> d) (N2, root) = Inr (N3, root')"
    "step_to N2 (plug c (bin d t p pr px (bin d (bin d n1 na False nx n2) a True x far))) (N3, root') (plug c (bin d t p pr px (bin d n1 na False nx (bin d n2 a True x far))))"
    by (auto simp: bin_flip)
  have "N3 p = Some (node_dir d (parent_of c) (root_of t) (Some na) pr px)" using node_of [OF holds_of_step [OF N3(2)]] by simp
  then have "bar_turn (Some a) (Some p) (\<not> d) (N, root) = Inr (Some na, N3, root')"
    using an isRed_root(2) [OF hf] assms(2) N1(1) N2(1) N3(1) by (simp add: bar_turn_def)
  with that step_to_trans [OF N1(2) step_to_trans [OF N2(2) N3(2)]] show thesis by blast
qed

lemma bar_finish_ok:
  assumes h: "holds (N, root) ((d, p, pr, px, bin d near a r x far) # c) t" and "is_red far"
  obtains N' root' where "bar_finish (Some a) (Some p) (\<not> d) (N, root) = Inr (root', N', root')"
    "step_to N (plug c (bin d t p pr px (bin d near a r x far))) (N', root') (plug c (bin d (bin d t p False px near) a pr x (paint False far)))"
proof -
  note pn = parent_frame [OF h]
  have hs: "holds (N, root) ((\<not> d, p, pr, px, t) # c) (bin d near a r x far)" using h by (simp add: holds_up bin_flip)
  from paint_step [OF hs] obtain N1 where N1: "change (Some a) (set_red pr) N = Inr N1"
    "step_to N (plug c (bin d t p pr px (bin d near a r x far))) (N1, root) (plug c (bin d t p pr px (bin d near a pr x far)))"
    by (auto simp: bin_flip)
  from paint_step [OF holds_of_step [OF N1(2)]] obtain N2 where N2: "change (Some p) (set_red False) N1 = Inr N2"
    "step_to N1 (plug c (bin d t p pr px (bin d near a pr x far))) (N2, root) (plug c (bin d t p False px (bin d near a pr x far)))" by auto
  have h2: "holds (N2, root) ((\<not> d, p, False, px, t) # c) (bin d near a pr x far)" using holds_of_step [OF N2(2)] by (simp add: holds_up bin_flip)
  note sn = node_of [OF h2]
  from assms(2) obtain b where b: "root_of far = Some b" by (cases far) auto
  have "holds (N2, root) ((\<not> d, a, pr, x, near) # (\<not> d, p, False, px, t) # c) far" using h2 by (simp add: holds_up bin_flip)
  from paint_step [OF this b] obtain N3 where N3: "change (Some b) (set_red False) N2 = Inr N3"
    "step_to N2 (plug c (bin d t p False px (bin d near a pr x far))) (N3, root) (plug c (bin d t p False px (bin d near a pr x (paint False far))))"
    by (auto simp: bin_flip)
  from rotate_step [OF holds_of_step [OF N3(2)]] obtain N4 root' where N4: "TreeRotate (Some p) d (N3, root) = Inr (N4, root')"
    "step_to N3 (plug c (bin d t p False px (bin d near a pr x (paint False far)))) (N4, root') (plug c (bin d (bin d t p False px near) a pr x (paint False far)))" .
  have "bar_finish (Some a) (Some p) (\<not> d) (N, root) = Inr (root', N4, root')"
    using pn sn b N1(1) N2(1) N3(1) N4(1) by (simp add: bar_finish_def)
  with that step_to_trans [OF N1(2) step_to_trans [OF N2(2) step_to_trans [OF N3(2) N4(2)]]] show thesis by blast
qed

lemma resolve_bin:
  "resolve d t p pr px (bin d near a r x far) =
     (if \<not> is_red near \<and> \<not> is_red far then (False, bin d t p pr px (bin d near a True x far))
      else if is_red far then (True, bin d (bin d t p False px near) a pr x (paint False far))
      else case near of Tip \<Rightarrow> (True, bin d t p pr px (bin d near a r x far))
        | Bin nl na nr nx nb \<Rightarrow> (True, bin d (bin d t p False px (if d then nb else nl)) na pr nx (bin d (if d then nl else nb) a False x far)))"
  by (cases d) (simp_all add: resolve_def bin_def split: rbt.splits)

lemma resolve_red: "is_red near \<Longrightarrow> \<not> is_red far \<Longrightarrow> near = bin d n1 na q nx n2 \<Longrightarrow>
  resolve d t p pr px (bin d near a r x far) = (True, bin d (bin d t p False px n1) na pr nx (bin d n2 a False x far))"
  by (cases d) (simp_all add: resolve_def bin_def)

lemma bar_rest_ok:
  assumes h: "holds (N, root) ((d, p, pr, px, s) # c) t" and cur: "cursor cur N ((d, p, pr, px, s) # c) t"
    and s: "resolve d t p pr px s = (ready, u)" and which: "which = (\<not> d) \<or> s = Tip \<and> t = Tip"
  obtains N' root' where "bar_rest cur which (N, root) = Inr (if ready then root' else Some p, N', root')"
    "step_to N (plug c (bin d t p pr px s)) (N', root') (plug c u)"
proof -
  from cursor_node [OF h cur] obtain n where n: "node_at cur N = Inr n" "n_parent n = Some p" by auto
  note pn = parent_frame [OF h]
  show thesis
  proof (cases "s = Tip")
    case True
    then have "child (node_dir d (parent_of c) (root_of t) (root_of s) pr px) which = None" using which by (cases which; cases d) (auto simp: node_dir_def node_for_def child_def)
    with n pn have "bar_rest cur which (N, root) = Inr (Some p, N, root)" by (simp add: bar_rest_def)
    moreover have "ready = False" "u = bin d t p pr px s" using s True by (auto simp: resolve_def)
    moreover have "step_to N (plug c u) (N, root) (plug c u)" using h calculation(3) by (intro step_to_refl) (simp add: holds_up holds_plug [symmetric])
    ultimately show thesis using that by simp
  next
    case False
    then have w: "which = (\<not> d)" using which by simp
    from bin_exists [OF False] obtain near a r x far where sib: "s = bin d near a r x far" by blast
    have hs: "holds (N, root) ((\<not> d, p, pr, px, t) # c) (bin d near a r x far)" using h sib by (simp add: holds_up bin_flip)
    note an = node_of [OF hs]
    have hf: "holds (N, root) ((\<not> d, a, r, x, near) # (\<not> d, p, pr, px, t) # c) far" using hs by (simp add: holds_up bin_flip)
    have hn: "holds (N, root) ((d, a, r, x, far) # (\<not> d, p, pr, px, t) # c) near" using hs by (simp add: holds_up)
    note facts = n pn an isRed_root(2) [OF hf] isRed_root(2) [OF hn]
    show thesis
    proof (cases "\<not> is_red near \<and> \<not> is_red far")
      case True
      from paint_step [OF hs] obtain N1 where N1: "change (Some a) (set_red True) N = Inr N1"
        "step_to N (plug c (bin d t p pr px s)) (N1, root) (plug c (bin d t p pr px (bin d near a True x far)))" by (auto simp: bin_flip sib)
      have "ready = False" "u = bin d t p pr px (bin d near a True x far)" using s True by (auto simp: sib resolve_bin)
      with that facts N1 True w sib show thesis by (auto simp: bar_rest_def)
    next
      case red: False
      show thesis
      proof (cases "is_red far")
        case True
        from bar_finish_ok [OF h [unfolded sib] True] obtain N' root' where f: "bar_finish (Some a) (Some p) (\<not> d) (N, root) = Inr (root', N', root')"
          "step_to N (plug c (bin d t p pr px (bin d near a r x far))) (N', root') (plug c (bin d (bin d t p False px near) a pr x (paint False far)))" by blast
        have "bar_turn (Some a) (Some p) (\<not> d) (N, root) = Inr (Some a, N, root)" using facts True by (simp add: bar_turn_def)
        moreover have "ready = True" "u = bin d (bin d t p False px near) a pr x (paint False far)" using s True by (auto simp: sib resolve_bin)
        ultimately have "bar_rest cur which (N, root) = Inr (if ready then root' else Some p, N', root')" using facts f(1) True w sib by (simp add: bar_rest_def)
        then show thesis using that f(2) \<open>u = _\<close> sib by blast
      next
        case far: False
        with red have nr: "is_red near" by simp
        then have "near \<noteq> Tip" by auto
        from bin_exists [OF this] obtain n1 na q nx n2 where near: "near = bin d n1 na q nx n2" by blast
        with nr have near: "near = bin d n1 na True nx n2" by simp
        from bar_turn_ok [OF h [unfolded sib near] far] obtain N1 root1 where f1: "bar_turn (Some a) (Some p) (\<not> d) (N, root) = Inr (Some na, N1, root1)"
          "step_to N (plug c (bin d t p pr px (bin d (bin d n1 na True nx n2) a r x far))) (N1, root1) (plug c (bin d t p pr px (bin d n1 na False nx (bin d n2 a True x far))))" by blast
        have "holds (N1, root1) ((d, p, pr, px, bin d n1 na False nx (bin d n2 a True x far)) # c) t" using holds_of_step [OF f1(2)] by (simp add: holds_up)
        from bar_finish_ok [OF this red_bin(1) [THEN iffD2, OF TrueI]] obtain N' root' where f2: "bar_finish (Some na) (Some p) (\<not> d) (N1, root1) = Inr (root', N', root')"
          "step_to N1 (plug c (bin d t p pr px (bin d n1 na False nx (bin d n2 a True x far)))) (N', root')
             (plug c (bin d (bin d t p False px n1) na pr nx (paint False (bin d n2 a True x far))))" by blast
        note f2 = f2 [unfolded red_bin(2)]
        have "ready = True" "u = bin d (bin d t p False px n1) na pr nx (bin d n2 a False x far)"
          using s resolve_red [OF nr far near, of t p pr px a r x] by (simp_all add: sib)
        moreover from this have "bar_rest cur which (N, root) = Inr (if ready then root' else Some p, N', root')" using facts f1(1) f2(1) far nr w sib by (simp add: bar_rest_def)
        ultimately show thesis using that step_to_trans [OF f1(2) f2(2)] sib near by blast
      qed
    qed
  qed
qed

text \<open>One round of the loop.\<close>

lemma root_at_in: "c \<noteq> [] \<Longrightarrow> \<exists>a. a \<in> set (caddrs c) \<and> root_at p c = Some a"
proof (induction c arbitrary: p)
  case (Cons f c)
  obtain d a r x s where "f = (d, a, r, x, s)" by (cases f)
  with Cons show ?case by (cases "c = []") auto
qed simp

lemma not_at_root:
  assumes "holds (N, root) (f # c) t" "cursor cur N (f # c) t"
  shows "cur \<noteq> root"
proof -
  from root_at_in [of "f # c" "root_of t"] obtain a where "a \<in> set (caddrs (f # c))" "root = Some a" using assms(1) by (auto simp: holds_def)
  moreover have "a \<notin> set (addrs t)" "TEMP \<notin> set (caddrs (f # c))" using assms calculation(1) by (auto simp: holds_def cursor_def at_position_def)
  ultimately show ?thesis using assms(2) root_in [of t a] unfolding cursor_def by (metis option.inject)
qed

lemma remove_round_which:
  assumes h: "holds (N, root) ((d, p, pr, px, s) # c) t" and cur: "cursor cur N ((d, p, pr, px, s) # c) t"
  obtains which where "remove_round cur (N, root) = TreeBARSub cur which (N, root)" "which = (\<not> d) \<or> s = Tip \<and> t = Tip"
proof -
  obtain n where n: "node_at cur N = Inr n" "n_parent n = parent_of ((d, p, pr, px, s) # c)" "(n_content n = None) = (t = Tip)" "n_red n = is_red t"
    by (rule cursor_node [OF h cur])
  note pn = parent_frame [OF h]
  define which where "which = (if (if n_content n \<noteq> None then cur else None) = child (node_dir d (parent_of c) (root_of t) (root_of s) pr px) LEFT then RIGHT else LEFT)"
  have "remove_round cur (N, root) = TreeBARSub cur which (N, root)" using n(1,2) pn by (simp add: remove_round_def which_def)
  moreover have "which = (\<not> d) \<or> s = Tip \<and> t = Tip"
  proof (cases t)
    case Tip
    then show ?thesis using n(3) by (cases d; cases s) (auto simp: which_def node_dir_def node_for_def child_def LEFT_def RIGHT_def)
  next
    case (Bin l a r x b)
    then have "cur = Some a" "root_of s \<noteq> Some a" using cur holds_distinct(1) [OF h] by (auto simp: cursor_def)
    with Bin n(3) show ?thesis by (cases d) (auto simp: which_def node_dir_def node_for_def child_def LEFT_def RIGHT_def)
  qed
  ultimately show thesis using that by blast
qed

lemma resolve_more: "resolve d t p pr px s = (ready, u) \<Longrightarrow> u \<noteq> Tip \<and> (\<not> ready \<longrightarrow> root_of u = Some p \<and> is_red u = pr)"
  by (auto simp: resolve_def Let_def split: rbt.splits if_split_asm)

lemma temp_stays: "cursor cur N c t \<Longrightarrow> step_to N (plug c t) st' t' \<Longrightarrow> TEMP \<notin> set (addrs t')"
  by (auto simp: cursor_def step_to_def at_position_plug)

lemma balance_stop:
  assumes "holds (N, root) c t" "root_of t = Some a" "c = [] \<or> is_red t"
  shows "\<exists>N'. TreeBalanceAfterRemove (Some a) (N, root) = Some (Inr (N', root)) \<and> step_to N (plug c t) (N', root) (plug c (paint False t))"
proof -
  have "(if Some a = root then Inr False else isBlack (Some a) N) = Inr False"
    using assms isRed_root(2) [OF assms(1)] by (cases "c = []") (auto simp: holds_def)
  then have "remove_loop (Some a) (N, root) = Some (Inr (Some a, N, root))" by (subst remove_loop.simps) (simp split: if_split_asm)
  moreover obtain N' where "change (Some a) (set_red False) N = Inr N'" "step_to N (plug c t) (N', root) (plug c (paint False t))"
    using paint_step [OF assms(1,2)] by blast
  ultimately show ?thesis by (simp add: TreeBalanceAfterRemove_def)
qed

lemma balance_go:
  assumes h: "holds (N, root) ((d, p, pr, px, s) # c) t" and cur: "cursor cur N ((d, p, pr, px, s) # c) t" and "\<not> is_red t"
    and "remove_round cur (N, root) = Inr (cur1, st1)"
  shows "TreeBalanceAfterRemove cur (N, root) = TreeBalanceAfterRemove cur1 st1"
proof -
  obtain n where n: "node_at cur N = Inr n" "n_red n = is_red t" by (rule cursor_node [OF h cur])
  have "cur \<noteq> None" using cur by (cases t) (auto simp: cursor_def)
  with n have "isBlack cur N = Inr True" using assms(3) by (simp add: isBlack_def)
  with not_at_root [OF h cur] assms(4) have "remove_loop cur (N, root) = remove_loop cur1 st1" by (subst remove_loop.simps) simp
  then show ?thesis by (simp add: TreeBalanceAfterRemove_def)
qed

text \<open>The end of the work, when the root is next.\<close>

lemma balance_ready:
  assumes "step_to N t (N1, root1) (plug c u)" "u \<noteq> Tip"
  shows "\<exists>st'. TreeBalanceAfterRemove root1 (N1, root1) = Some (Inr st') \<and> step_to N t st' (paint False (plug c u))"
proof -
  have h: "holds (N1, root1) [] (plug c u)" using assms(1) by (simp add: step_to_def)
  have "plug c u \<noteq> Tip" using assms(2) by (induction c u rule: plug.induct) auto
  from root_cases [OF this] obtain a where a: "root_of (plug c u) = Some a" ..
  have "root1 = Some a" using h a by (simp add: holds_def)
  with balance_stop [OF h a] step_to_trans [OF assms(1)] show ?thesis by (metis plug.simps(1))
qed

lemma balance_remove_ok:
  assumes "holds (N, root) c t" "cursor cur N c t" "c = [] \<longrightarrow> t \<noteq> Tip"
  shows "\<exists>st'. TreeBalanceAfterRemove cur (N, root) = Some (Inr st') \<and> step_to N (plug c t) st' (remove_fix c t)"
  using assms
proof (induction c t arbitrary: N root cur rule: remove_fix.induct)
  case (1 t)
  then obtain a where a: "root_of t = Some a" "cur = Some a" using root_cases [of t] by (auto simp: cursor_def)
  with balance_stop [OF 1(1) a(1)] show ?case by auto
next
  case (2 d p pr px s c t)
  note h = 2(3) and cur = 2(4)
  show ?case
  proof (cases "is_red t")
    case True
    then obtain a where a: "root_of t = Some a" "cur = Some a" using cur by (cases t) (auto simp: cursor_def)
    with balance_stop [OF h a(1)] True show ?thesis by auto
  next
    case black: False
    from remove_round_which [OF h cur] obtain which where
      which: "remove_round cur (N, root) = TreeBARSub cur which (N, root)" "which = (\<not> d) \<or> s = Tip \<and> t = Tip" .
    show ?thesis
    proof (cases "is_red s")
      case True
      then obtain near a x far where s: "s = bin d near a True x far" using bin_exists [of s d] by (cases s) fastforce+
      then have w: "which = (\<not> d)" using which(2) by auto
      from bar_red_ok [OF h [unfolded s] cur [unfolded s]] obtain N1 root1 where b1: "bar_red cur (\<not> d) (N, root) = Inr (N1, root1)"
        "step_to N (plug c (bin d t p pr px (bin d near a True x far))) (N1, root1) (plug c (bin d (bin d t p True px near) a False x far))" .
      let ?c1 = "(d, p, True, px, near) # (d, a, False, x, far) # c"
      have h1: "holds (N1, root1) ?c1 t" using holds_of_step [OF b1(2)] by (simp add: holds_up)
      have cur1: "cursor cur N1 ?c1 t" by (rule cursor_step [OF cur]) (use b1(2) s in simp_all)
      obtain ready u where u: "resolve d t p True px near = (ready, u)" by (cases "resolve d t p True px near")
      from bar_rest_ok [OF h1 cur1 u disjI1 [OF refl]] obtain N2 root2 where
        b2: "bar_rest cur (\<not> d) (N1, root1) = Inr (if ready then root2 else Some p, N2, root2)"
        "step_to N1 (plug ((d, a, False, x, far) # c) (bin d t p True px near)) (N2, root2) (plug ((d, a, False, x, far) # c) u)" .
      note st = step_to_trans [OF b1(2) b2(2) [unfolded plug.simps(2)]]
      have "remove_round cur (N, root) = Inr (if ready then root2 else Some p, N2, root2)" using which(1) w b1(1) b2(1) by (simp add: TreeBARSub_def)
      note go = balance_go [OF h cur black this]
      have fix_eq: "remove_fix ((d, p, pr, px, s) # c) t = (if ready then paint False (plug ((d, a, False, x, far) # c) u) else plug ((d, a, False, x, far) # c) (paint False u))"
        using black u by (cases d) (simp_all add: s bin_def)
      show ?thesis
      proof (cases ready)
        case True
        from balance_ready [of N _ N2 root2 "(d, a, False, x, far) # c" u, OF st [folded plug.simps(2)]] resolve_more [OF u] go True fix_eq s show ?thesis by auto
      next
        case False
        have hu: "holds (N2, root2) ((d, a, False, x, far) # c) u" using holds_of_step [OF b2(2)] .
        have "root_of u = Some p" "is_red u" using resolve_more [OF u] False by auto
        from balance_stop [OF hu this(1)] this(2) obtain N3 where "TreeBalanceAfterRemove (Some p) (N2, root2) = Some (Inr (N3, root2))"
          "step_to N2 (plug ((d, a, False, x, far) # c) u) (N3, root2) (plug ((d, a, False, x, far) # c) (paint False u))" by blast
        with go False fix_eq s step_to_trans [OF st] show ?thesis by auto
      qed
    next
      case False
      obtain ready u where u: "resolve d t p pr px s = (ready, u)" by (cases "resolve d t p pr px s")
      from bar_rest_ok [OF h cur u which(2)] obtain N2 root2 where b2: "bar_rest cur which (N, root) = Inr (if ready then root2 else Some p, N2, root2)"
        "step_to N (plug c (bin d t p pr px s)) (N2, root2) (plug c u)" .
      have "bar_red cur which (N, root) = Inr (N, root)"
      proof -
        obtain n where n: "node_at cur N = Inr n" "n_parent n = parent_of ((d, p, pr, px, s) # c)" by (rule cursor_node [OF h cur])
        have "holds (N, root) ((\<not> d, p, pr, px, t) # c) s" using h by (simp add: holds_up bin_flip)
        note r = isRed_root(1) [OF this]
        have "child (node_dir d (parent_of c) (root_of t) (root_of s) pr px) which = root_of s"
          using which(2) by (cases which; cases d) (auto simp: node_dir_def node_for_def child_def)
        with n parent_frame [OF h] r False show ?thesis by (simp add: bar_red_def)
      qed
      with which(1) b2(1) have "remove_round cur (N, root) = Inr (if ready then root2 else Some p, N2, root2)" by (simp add: TreeBARSub_def)
      note go = balance_go [OF h cur black this]
      have fix_eq: "remove_fix ((d, p, pr, px, s) # c) t = (if ready then paint False (plug c u) else remove_fix c u)"
        using black False u by (auto split: rbt.splits bool.splits)
      show ?thesis
      proof (cases ready)
        case True
        from balance_ready [OF b2(2)] resolve_more [OF u] go True fix_eq show ?thesis by auto
      next
        case nr: False
        have u': "u \<noteq> Tip" "root_of u = Some p" using resolve_more [OF u] nr by auto
        have cu: "cursor (Some p) N2 c u" using temp_stays [OF cur, of "(N2, root2)" "plug c u"] b2(2) u' by (simp add: cursor_def at_position_plug)
        have "\<exists>st'. TreeBalanceAfterRemove (Some p) (N2, root2) = Some (Inr st') \<and> step_to N2 (plug c u) st' (remove_fix c u)"
        proof (cases s)
          case Tip
          show ?thesis by (rule 2(1)) (use Tip black u nr holds_of_step [OF b2(2)] cu u' in simp_all)
        next
          case (Bin l a r x b)
          with False show ?thesis by (intro 2(2)) (use Bin black u nr holds_of_step [OF b2(2)] cu u' in simp_all)
        qed
        with go nr fix_eq step_to_trans [OF b2(2)] show ?thesis by auto
      qed
    qed
  qed
qed

end
