(* ===== verification/Tree_Ops.thy ===== *)
theory Tree_Ops
  imports Tree_Refine
begin

text \<open>
  The operations of \<^verbatim>\<open>Tree.c\<close> on a tree in a store: searching, adding and removing do to the sequence of the contents what
  an ordered map does, whatever the rotations were, and leave the rest of the store alone.
\<close>

section \<open>Searching\<close>

fun locate :: "('c \<Rightarrow> int) \<Rightarrow> 'c frame list \<Rightarrow> 'c rbt \<Rightarrow> 'c frame list \<times> 'c rbt" where
  "locate f c Tip = (c, Tip)"
| "locate f c (Bin l a r x s) =
     (if f (fst x) = 0 then (c, Bin l a r x s)
      else if 0 < f (fst x) then locate f ((True, a, r, x, l) # c) s else locate f ((False, a, r, x, s) # c) l)"

lemma locate_plug: "locate f c t = (c', t') \<Longrightarrow> plug c' t' = plug c t"
  by (induction f c t rule: locate.induct) (auto simp: bin_def split: if_split_asm)

definition dir_of :: "'c frame list \<Rightarrow> bool" where
  "dir_of c = (case c of [] \<Rightarrow> False | (d, _) # _ \<Rightarrow> d)"

lemma holds_children:
  assumes "holds st c (Bin l a r x s)"
  shows "holds st ((False, a, r, x, s) # c) l" "holds st ((True, a, r, x, l) # c) s"
  using assms by (simp_all add: holds_up bin_def)

lemma node_of_Bin:
  assumes "holds (N, root) c (Bin l a r x s)"
  shows "N a = Some (node_for (parent_of c) (root_of l) (root_of s) r x)"
  using assms by (simp add: holds_def)

lemma node_for_simps [simp]:
  "child (node_for up p q r x) d = (if d then q else p)" "n_content (node_for up p q r x) = Some (fst x)" "n_parent (node_for up p q r x) = up"
  "n_red (node_for up p q r x) = r" "n_size (node_for up p q r x) = snd x"
  by (simp_all add: node_for_def child_def)

lemma add_search_ok:
  assumes "holds (N, root) c t" "locate (\<lambda>x. compare x key) c t = (c', t')"
  shows "add_search compare key N (parent_of c) (dir_of c) (root_of t) = Some (Inr (parent_of c', t' = Tip \<and> dir_of c', root_of t'))"
  using assms
proof (induction "\<lambda>x. compare x key" c t rule: locate.induct)
  case (1 c)
  then show ?case by (subst add_search.simps) simp
next
  case (2 c l a r x s)
  note n = node_of_Bin [OF 2(3)] and kids = holds_children [OF 2(3)]
  have step: "add_search compare key N (parent_of c) (dir_of c) (Some a) =
      (if compare (fst x) key = 0 then Some (Inr (parent_of c, False, Some a))
       else add_search compare key N (Some a) (0 < compare (fst x) key) (if 0 < compare (fst x) key then root_of s else root_of l))"
    using n by (subst add_search.simps) (simp add: compare_at_def)
  show ?case using 2 step kids by (auto simp: dir_of_def split: if_split_asm)
qed

lemma find_node_ok:
  assumes "holds (N, root) c t" "locate (\<lambda>x. compare x key) c t = (c', t')"
  shows "find_node compare key N (root_of t) = Some (Inr (root_of t'))"
  using assms
proof (induction "\<lambda>x. compare x key" c t rule: locate.induct)
  case (1 c)
  then show ?case by (subst find_node.simps) simp
next
  case (2 c l a r x s)
  note n = node_of_Bin [OF 2(3)] and kids = holds_children [OF 2(3)]
  have step: "find_node compare key N (Some a) =
      (if compare (fst x) key = 0 then Some (Inr (Some a)) else find_node compare key N (if 0 < compare (fst x) key then root_of s else root_of l))"
    using n by (subst find_node.simps) (simp add: compare_at_def)
  show ?case using 2 step kids by (auto split: if_split_asm)
qed

section \<open>Order\<close>

text \<open>The contents in order of their keys, and an ordered map with the same entries.\<close>

definition sorted_tree :: "('c \<Rightarrow> 'k :: linorder) \<Rightarrow> 'c rbt \<Rightarrow> bool" where
  "sorted_tree key t \<longleftrightarrow> sorted_wrt (<) (map (key \<circ> fst) (inorder t))"

fun put_key :: "('c \<Rightarrow> 'k :: linorder) \<Rightarrow> 'c \<times> int \<Rightarrow> ('c \<times> int) list \<Rightarrow> ('c \<times> int) list" where
  "put_key key x [] = [x]"
| "put_key key x (y # ys) =
     (if key (fst x) < key (fst y) then x # y # ys else if key (fst x) = key (fst y) then x # ys else y # put_key key x ys)"

text \<open>A comparison function that follows the order of a key.\<close>

locale ordered_by =
  fixes compare :: "'c \<Rightarrow> ('c, 'k :: linorder) sought \<Rightarrow> int" and key :: "'c \<Rightarrow> 'k"
  assumes compare_content: "compare c (Content x) = compare c (Key (key x))"
    and compare_zero: "compare c (Key k) = 0 \<longleftrightarrow> key c = k"
    and compare_pos: "0 < compare c (Key k) \<longleftrightarrow> key c < k"
begin

lemma put_new:
  assumes "\<forall>y \<in> set xs. key (fst y) < key (fst x)" "\<forall>y \<in> set ys. key (fst x) < key (fst y)"
  shows "put_key key x (xs @ ys) = xs @ x # ys"
proof -
  have "put_key key x ys = x # ys" using assms(2) by (cases ys) auto
  with assms(1) show ?thesis by (induction xs) auto
qed

lemma put_old:
  assumes "\<forall>y \<in> set xs. key (fst y) < key (fst x)" "key (fst z) = key (fst x)"
  shows "put_key key x (xs @ z # ys) = xs @ x # ys"
  using assms by (induction xs) auto

lemma locate_sides:
  assumes "locate (\<lambda>x. compare x (Key k)) c t = (c', t')" "sorted_tree key (plug c t)"
    "\<forall>y \<in> set (before c). key (fst y) < k" "\<forall>y \<in> set (behind c). k < key (fst y)"
  shows "(\<forall>y \<in> set (before c'). key (fst y) < k) \<and> (\<forall>y \<in> set (behind c'). k < key (fst y)) \<and>
    (\<forall>l a r x s. t' = Bin l a r x s \<longrightarrow> key (fst x) = k)"
  using assms
proof (induction "\<lambda>x. compare x (Key k)" c t rule: locate.induct)
  case (2 c l a r x s)
  have l: "\<forall>y \<in> set (inorder l). key (fst y) < key (fst x)" "\<forall>y \<in> set (inorder s). key (fst x) < key (fst y)"
    using 2(4) by (auto simp: sorted_tree_def inorder_plug sorted_wrt_append)
  show ?case
  proof (cases "compare (fst x) (Key k) = 0")
    case True
    with 2(3,5,6) compare_zero show ?thesis by auto
  next
    case ne: False
    show ?thesis
    proof (cases "0 < compare (fst x) (Key k)")
      case True
      then have "key (fst x) < k" using compare_pos by blast
      with l True ne 2(3-6) show ?thesis by (intro 2(1)) (auto simp: bin_def)
    next
      case False
      then have "k < key (fst x)" using ne compare_pos compare_zero by (metis linorder_cases)
      with l False ne 2(3-6) show ?thesis by (intro 2(2)) (auto simp: bin_def)
    qed
  qed
qed simp

text \<open>A key is found exactly if it is there.\<close>

lemma locate_key:
  assumes "locate (\<lambda>x. compare x (Key k)) [] t = (c', t')" "sorted_tree key t"
  shows "t' = Tip \<longleftrightarrow> k \<notin> key ` fst ` set (inorder t)"
proof -
  have i: "inorder t = before c' @ inorder t' @ behind c'" using locate_plug [OF assms(1)] inorder_plug [of c' t'] by simp
  have s: "\<forall>y \<in> set (before c'). key (fst y) < k" "\<forall>y \<in> set (behind c'). k < key (fst y)" "\<forall>l a r x s. t' = Bin l a r x s \<longrightarrow> key (fst x) = k"
    using locate_sides [OF assms(1)] assms(2) by simp_all
  show ?thesis
  proof (cases t')
    case Tip
    with i s(1,2) show ?thesis by auto
  next
    case (Bin l a r x s)
    then have "k = key (fst x)" "x \<in> set (inorder t)" using s(3) i by (blast, simp)
    with Bin show ?thesis by blast
  qed
qed

end

section \<open>Adding\<close>

definition tree_in :: "('c, 'k) Tree \<Rightarrow> nat \<Rightarrow> 'c rbt \<Rightarrow> bool" where
  "tree_in T i t \<longleftrightarrow> holds (nodes T, roots T i) [] t"

text \<open>The count and the total size that are kept with the first index.\<close>

definition sized :: "nat \<Rightarrow> int \<Rightarrow> int \<Rightarrow> ('c, 'k) Tree \<Rightarrow> ('c, 'k) Tree" where
  "sized i n m T = (if i = 0 then T\<lparr>t_count := t_count T + n, t_size := plus_size (t_size T) m\<rparr> else T)"

lemma sized_simps [simp]: "nodes (sized i n m T) = nodes T" "roots (sized i n m T) = roots T" "comparers (sized i n m T) = comparers T"
  "indexes (sized i n m T) = indexes T" "allow_duplicates (sized i n m T) = allow_duplicates T"
  by (simp_all add: sized_def)

lemma shape_dom: "shape N up t \<Longrightarrow> b \<in> set (addrs t) \<Longrightarrow> N b \<noteq> None"
  by (induction t arbitrary: up) auto

lemma cshape_dom: "cshape N p c \<Longrightarrow> b \<in> set (caddrs c) \<Longrightarrow> N b \<noteq> None"
proof (induction c arbitrary: p)
  case (Cons f c)
  obtain d a r x s where "f = (d, a, r, x, s)" by (cases f)
  with Cons show ?case by (auto dest: shape_dom)
qed simp

lemma holds_dom: "holds (N, root) c t \<Longrightarrow> b \<in> at_position c t \<Longrightarrow> N b \<noteq> None"
  unfolding holds_def at_position_def using shape_dom cshape_dom by (metis Un_iff fst_conv)

lemma keep_roots: "roots T i = p \<Longrightarrow> T\<lparr>nodes := N, roots := (roots T)(i := p)\<rparr> = T\<lparr>nodes := N\<rparr>"
  by (cases T) (auto simp: fun_upd_idem)

lemma link_ok:
  assumes h: "holds (nodes T, roots T i) c Tip" and a: "nodes T a = None" and "i = 0 \<longrightarrow> t_count T < INT_MAX"
  obtains N' where "link_node a content sz (parent_of c) (dir_of c) i T =
      Inr (sized i 1 sz (T\<lparr>nodes := N', roots := (roots T)(i := root_at (Some a) c)\<rparr>))"
    "holds (N', root_at (Some a) c) c (Bin Tip a True (content, sz) Tip)" "same_outside (insert a (at_position c Tip)) (nodes T) N'"
proof -
  let ?N = "(nodes T)(a \<mapsto> node_for (parent_of c) None None True (content, sz))"
  have fresh: "a \<notin> at_position c Tip" using holds_dom [OF h] a by blast
  show thesis
  proof (cases c)
    case Nil
    with assms that [of ?N] show thesis by (simp add: link_node_def Let_def sized_def holds_def same_outside_def node_for_def)
  next
    case (Cons f c')
    obtain d p r x s where f: "f = (d, p, r, x, s)" by (cases f)
    let ?N' = "?N(p \<mapsto> node_dir d (parent_of c') (Some a) (root_of s) r x)"
    have d: "a \<noteq> p" "a \<notin> set (addrs s)" "a \<notin> set (caddrs c')" using fresh Cons f by (auto simp: at_position_def)
    have p: "nodes T p = Some (node_dir d (parent_of c') None (root_of s) r x)" using h Cons f by (simp add: holds_def)
    have root: "roots T i = root_at (Some a) c" using h Cons f by (simp add: holds_def)
    have "change (Some p) (set_child d (Some a)) ?N = Inr ?N'" using p d(1) by simp
    then have "link_node a content sz (parent_of c) (dir_of c) i T = Inr (sized i 1 sz (T\<lparr>nodes := ?N', roots := (roots T)(i := root_at (Some a) c)\<rparr>))"
      using assms(3) keep_roots [OF root] Cons f by (auto simp: link_node_def Let_def sized_def dir_of_def node_for_def)
    moreover have "holds (?N', root_at (Some a) c) c (Bin Tip a True (content, sz) Tip)" using h d Cons f by (auto simp: holds_def)
    moreover have "same_outside (insert a (at_position c Tip)) (nodes T) ?N'" using Cons f by (auto simp: same_outside_def at_position_def)
    ultimately show thesis by (rule that)
  qed
qed

lemma replace_ok:
  assumes h: "holds (nodes T, roots T i) c (Bin l a r x s)"
  obtains N' where "replace_content (Some a) content sz i T = Inr (sized i 0 (sz - snd x) (T\<lparr>nodes := N'\<rparr>))"
    "holds (N', roots T i) c (Bin l a r (content, sz) s)" "same_outside (at_position c (Bin l a r x s)) (nodes T) N'"
proof
  let ?N = "(nodes T)(a \<mapsto> node_for (parent_of c) (root_of l) (root_of s) r (content, sz))"
  show "replace_content (Some a) content sz i T = Inr (sized i 0 (sz - snd x) (T\<lparr>nodes := ?N\<rparr>))"
    using node_of_Bin [OF h] by (simp add: replace_content_def sized_def node_for_def)
  show "holds (?N, roots T i) c (Bin l a r (content, sz) s)" using h by (simp add: holds_def)
  show "same_outside (at_position c (Bin l a r x s)) (nodes T) ?N" by (simp add: same_outside_def at_position_def)
qed

lemma balance_added_ok:
  assumes "holds (nodes T, roots T i) c t" "root_of t = Some a"
  obtains N' root' where "balance_added (Some a) i T = Some (Inr (T\<lparr>nodes := N', roots := (roots T)(i := root')\<rparr>))"
    "step_to (nodes T) (plug c t) (N', root') (add_balance c t)"
proof -
  have "t \<noteq> Tip" using assms(2) by auto
  from balance_add_ok [OF assms(1) this] obtain N' root' where
    "TreeBalanceAfterAdd (root_of t) (nodes T, roots T i) = Some (Inr (N', root'))" "step_to (nodes T) (plug c t) (N', root') (add_balance c t)" by (metis surj_pair)
  with assms(2) that show thesis by (simp add: balance_added_def)
qed

lemma step_to_tree: "step_to N t (N', root') t' \<Longrightarrow> holds (N', root') [] t' \<and> same_outside (set (addrs t)) N N' \<and> set (addrs t') = set (addrs t)"
  by (simp add: step_to_def)

lemma add_new:
  assumes t: "tree_in T i t" and loc: "locate (\<lambda>x. comparers T i x (Content content)) [] t = (c, Tip)"
    and a: "nodes T a = None" "i = 0 \<longrightarrow> t_count T < INT_MAX"
  obtains N' root' where "TreeAddByIndex (Some a) content sz i T =
      Some (Inr (Some content, sized i 1 sz (T\<lparr>nodes := N', roots := (roots T)(i := root')\<rparr>)))"
    "holds (N', root') [] (add_balance c (Bin Tip a True (content, sz) Tip))" "same_outside (insert a (set (addrs t))) (nodes T) N'"
    "set (addrs (add_balance c (Bin Tip a True (content, sz) Tip))) = insert a (set (addrs t))"
proof -
  let ?t = "Bin Tip a True (content, sz) Tip"
  note h0 = t [unfolded tree_in_def] and pl = locate_plug [OF loc]
  have h: "holds (nodes T, roots T i) c Tip" using h0 pl holds_plug [of _ c Tip] by simp
  have search: "add_search (comparers T i) (Content content) (nodes T) None False (roots T i) = Some (Inr (parent_of c, dir_of c, None))"
    using add_search_ok [where compare = "comparers T i" and key = "Content content", OF h0 loc] h0 by (simp add: holds_def dir_of_def)
  from link_ok [OF h a] obtain N1 where l: "link_node a content sz (parent_of c) (dir_of c) i T = Inr (sized i 1 sz (T\<lparr>nodes := N1, roots := (roots T)(i := root_at (Some a) c)\<rparr>))"
    "holds (N1, root_at (Some a) c) c ?t" "same_outside (insert a (at_position c Tip)) (nodes T) N1" .
  let ?T1 = "sized i 1 sz (T\<lparr>nodes := N1, roots := (roots T)(i := root_at (Some a) c)\<rparr>)"
  have "holds (nodes ?T1, roots ?T1 i) c ?t" using l(2) by simp
  from balance_added_ok [OF this root_of.simps(2)] obtain N2 root2 where b: "balance_added (Some a) i ?T1 = Some (Inr (?T1\<lparr>nodes := N2, roots := (roots ?T1)(i := root2)\<rparr>))"
    "step_to (nodes ?T1) (plug c ?t) (N2, root2) (add_balance c ?t)" by blast
  have run: "TreeAddByIndex (Some a) content sz i T = Some (Inr (Some content, sized i 1 sz (T\<lparr>nodes := N2, roots := (roots T)(i := root2)\<rparr>)))"
    using search l(1) b(1) by (simp add: TreeAddByIndex_def sized_def)
  have sets: "at_position c Tip = set (addrs t)" "set (addrs (plug c ?t)) = insert a (set (addrs t))"
    using pl set_addrs_plug [of c Tip] set_addrs_plug [of c ?t] by (auto simp: at_position_def)
  note s = step_to_tree [OF b(2)]
  have "same_outside (insert a (set (addrs t))) (nodes T) N2" using l(3) s sets by (auto simp: same_outside_def)
  with run s sets show thesis by (intro that) auto
qed

lemma add_old:
  assumes t: "tree_in T i t" and loc: "locate (\<lambda>x. comparers T i x (Content content)) [] t = (c, Bin l a r x s)" and "\<not> allow_duplicates T"
  obtains N' root' where "TreeAddByIndex new content sz i T =
      Some (Inr (Some content, sized i 0 (sz - snd x) (T\<lparr>nodes := N', roots := (roots T)(i := root')\<rparr>)))"
    "holds (N', root') [] (add_balance c (Bin l a r (content, sz) s))" "same_outside (set (addrs t)) (nodes T) N'"
    "set (addrs (add_balance c (Bin l a r (content, sz) s))) = set (addrs t)"
proof -
  let ?t = "Bin l a r (content, sz) s"
  note h0 = t [unfolded tree_in_def] and pl = locate_plug [OF loc]
  have h: "holds (nodes T, roots T i) c (Bin l a r x s)" using h0 pl holds_plug [of _ c "Bin l a r x s"] by simp
  have search: "add_search (comparers T i) (Content content) (nodes T) None False (roots T i) = Some (Inr (parent_of c, False, Some a))"
    using add_search_ok [where compare = "comparers T i" and key = "Content content", OF h0 loc] h0 by (simp add: holds_def dir_of_def)
  from replace_ok [OF h] obtain N1 where l: "replace_content (Some a) content sz i T = Inr (sized i 0 (sz - snd x) (T\<lparr>nodes := N1\<rparr>))"
    "holds (N1, roots T i) c ?t" "same_outside (at_position c (Bin l a r x s)) (nodes T) N1" .
  let ?T1 = "sized i 0 (sz - snd x) (T\<lparr>nodes := N1\<rparr>)"
  have "holds (nodes ?T1, roots ?T1 i) c ?t" using l(2) by simp
  from balance_added_ok [OF this root_of.simps(2)] obtain N2 root2 where b: "balance_added (Some a) i ?T1 = Some (Inr (?T1\<lparr>nodes := N2, roots := (roots ?T1)(i := root2)\<rparr>))"
    "step_to (nodes ?T1) (plug c ?t) (N2, root2) (add_balance c ?t)" by blast
  have run: "TreeAddByIndex new content sz i T = Some (Inr (Some content, sized i 0 (sz - snd x) (T\<lparr>nodes := N2, roots := (roots T)(i := root2)\<rparr>)))"
    using search l(1) b(1) assms(3) by (simp add: TreeAddByIndex_def sized_def)
  have sets: "at_position c (Bin l a r x s) = set (addrs t)" "set (addrs (plug c ?t)) = set (addrs t)"
    using pl set_addrs_plug [of c "Bin l a r x s"] set_addrs_plug [of c ?t] by (auto simp: at_position_def)
  note s = step_to_tree [OF b(2)]
  have "same_outside (set (addrs t)) (nodes T) N2" using l(3) s sets by (auto simp: same_outside_def)
  with run s sets show thesis by (intro that) auto
qed

section \<open>Removing\<close>

lemma unlink_ok:
  assumes h: "holds (N, root) c (Bin l m r x s)" and "l = Tip \<or> s = Tip"
  defines "ch \<equiv> if l \<noteq> Tip then l else s"
  obtains N' root' where "unlink_node (Some m) (N, root) = Inr (root_of ch, N', root')" "holds (N', root') c ch" "N' m = N m"
    "same_outside (at_position c ch) N N'"
proof -
  note n = node_of_Bin [OF h]
  note hh = h [unfolded holds_def, simplified]
  have ch: "shape N (Some m) ch" "distinct (addrs ch)" "m \<notin> set (addrs ch)" "set (addrs ch) \<inter> set (caddrs c) = {}" "m \<notin> set (caddrs c)" "distinct (caddrs c)"
    using hh by (auto simp: ch_def)
  from reparent_child [OF ch(1,2)] obtain N1 where N1: "adopt (root_of ch) (parent_of c) N = Inr N1" "shape N1 (parent_of c) ch"
    "same_outside (set (addrs ch)) N N1" .
  have c1: "cshape N1 (Some m) c" using hh cshape_outside [OF N1(3) ch(4)] by simp
  from redirect_ok [OF c1 ch(5,6) refl, of LEFT "root_of ch"] obtain N2 where
    N2: "redirect (parent_of c) (Some m) LEFT (root_of ch) (N1, root_at (Some m) c) = Inr (N2, root_at (root_of ch) c)"
    "cshape N2 (root_of ch) c" "same_outside (set (caddrs c)) N1 N2" .
  have "(if root_of l \<noteq> None then root_of l else root_of s) = root_of ch" using assms(2) by (cases l) (auto simp: ch_def)
  then have "unlink_node (Some m) (N, root) = Inr (root_of ch, N2, root_at (root_of ch) c)"
    using n N1(1) N2(1) hh by (auto simp: unlink_node_def Let_def LEFT_def RIGHT_def split: if_split_asm)
  moreover have "holds (N2, root_at (root_of ch) c) c ch"
    using N1(2) N2(2) shape_outside [OF N2(3)] ch by (auto simp: holds_def)
  moreover have "N2 m = N m" using N1(3) N2(3) ch by (simp add: same_outside_def)
  moreover have "same_outside (at_position c ch) N N2" using N1(3) N2(3) by (auto simp: same_outside_def at_position_def)
  ultimately show thesis by (rule that)
qed

definition removed :: "'c frame list \<Rightarrow> bool \<Rightarrow> 'c rbt \<Rightarrow> 'c rbt" where
  "removed c r ch = (if r then plug c ch else remove_fix c ch)"

lemma step_frame:
  assumes "step_to (N(b \<mapsto> n)) t (N', root') t'" "b \<notin> set (addrs t)" "N b = None"
  shows "step_to N t (N'(b := None), root') t'"
proof -
  have "b \<notin> set (addrs t')" using assms(1,2) by (simp add: step_to_def)
  with assms show ?thesis by (auto simp: step_to_def holds_def same_outside_def)
qed

lemma balance_removed_ok:
  assumes h: "holds (N, root) c ch" and m: "N m = Some n" "n_red n = r" "n_parent n = parent_of c" "m \<notin> at_position c ch"
    and temp: "N TEMP = None"
  obtains N' root' where "balance_removed (Some m) (root_of ch) (N, root) = Some (Inr (N', root'))" "step_to N (plug c ch) (N', root') (removed c r ch)"
proof -
  have temp_out: "TEMP \<notin> at_position c ch" using holds_dom [OF h] temp by blast
  have st: "step_to N (plug c ch) (N, root) (plug c ch)" by (rule step_to_refl [OF holds_plug [THEN iffD1, OF h]])
  have black: "isBlack (Some m) N = Inr (\<not> r)" using m by (simp add: isBlack_def)
  show thesis
  proof (cases r)
    case True
    with st m black that [of N root] show thesis by (simp add: balance_removed_def removed_def)
  next
    case r: False
    show thesis
    proof (cases "ch = Tip")
      case True
      show thesis
      proof (cases c)
        case Nil
        with True r st m black that [of N root] show thesis by (simp add: balance_removed_def removed_def)
      next
        case (Cons f c')
        then obtain p where p: "parent_of c = Some p" by (cases f) auto
        let ?N = "N(TEMP \<mapsto> temp_node (parent_of c))"
        have h1: "holds (?N, root) c Tip" using h True temp_out by (simp add: holds_def at_position_def)
        have cur: "cursor (Some TEMP) ?N c Tip" using temp_out True by (simp add: cursor_def)
        obtain N' root' where b: "TreeBalanceAfterRemove (Some TEMP) (?N, root) = Some (Inr (N', root'))" "step_to ?N (plug c Tip) (N', root') (remove_fix c Tip)"
          using balance_remove_ok [OF h1 cur] Cons by (metis list.distinct(1) surj_pair)
        have "step_to N (plug c Tip) (N'(TEMP := None), root') (remove_fix c Tip)"
          by (rule step_frame [OF b(2) _ temp]) (use temp_out True in \<open>simp add: at_position_plug\<close>)
        with that [of "N'(TEMP := None)" root'] b(1) True r m black p show thesis by (simp add: balance_removed_def removed_def)
      qed
    next
      case False
      from root_cases [OF this] obtain a where a: "root_of ch = Some a" ..
      have cur: "cursor (Some a) N c ch" using temp_out False a by (simp add: cursor_def)
      obtain N' root' where b: "TreeBalanceAfterRemove (Some a) (N, root) = Some (Inr (N', root'))" "step_to N (plug c ch) (N', root') (remove_fix c ch)"
        using balance_remove_ok [OF h cur] False by (metis surj_pair)
      with that [of N' root'] a r m black show thesis by (simp add: balance_removed_def removed_def)
    qed
  qed
qed

lemma plug_append: "plug (c @ c') t = plug c' (plug c t)"
  by (induction c t rule: plug.induct) simp_all

lemma holds_append: "holds st (c @ c') t \<longleftrightarrow> holds st c' (plug c t)"
  by (simp add: holds_plug [of st "c @ c'"] holds_plug [of st c'] plug_append)

lemma before_append: "before (c @ c') = before c' @ before c" "behind (c @ c') = behind c @ behind c'"
  by (induction c) auto

text \<open>The position of the smallest content of a subtree.\<close>

fun min_pos :: "'c frame list \<Rightarrow> 'c rbt \<Rightarrow> 'c frame list \<times> 'c rbt" where
  "min_pos c (Bin (Bin l b q y u) a r x s) = min_pos ((False, a, r, x, s) # c) (Bin l b q y u)"
| "min_pos c t = (c, t)"

lemmas min_pos_induct = min_pos.induct [case_names "1" "2" "3"]

lemma min_pos_shape:
  "t \<noteq> Tip \<Longrightarrow> \<exists>c2 m r x s. min_pos c t = (c2 @ c, Bin Tip m r x s) \<and> plug c2 (Bin Tip m r x s) = t \<and> before c2 = []"
proof (induction c t rule: min_pos.induct)
  case (1 c l b q y u a r x s)
  then obtain c2 m r' x' s' where i: "min_pos ((False, a, r, x, s) # c) (Bin l b q y u) = (c2 @ (False, a, r, x, s) # c, Bin Tip m r' x' s')"
    "plug c2 (Bin Tip m r' x' s') = Bin l b q y u" "before c2 = []" by auto
  then show ?case by (intro exI [of _ "c2 @ [(False, a, r, x, s)]"]) (auto simp: plug_append before_append bin_def)
qed auto

lemma min_pos_root: "t \<noteq> Tip \<Longrightarrow> snd (min_pos c t) = snd (min_pos c' t)"
  by (induction c t arbitrary: c' rule: min_pos.induct) auto

lemma leftmost_ok:
  assumes "holds (N, root) c t" "t \<noteq> Tip"
  shows "leftmost N (root_of t) = Some (Inr (root_of (snd (min_pos c t))))"
  using assms
proof (induction c t rule: min_pos_induct)
  case (1 c l b q y u a r x s)
  then show ?case using node_of_Bin [OF 1(2)] holds_children(1) [OF 1(2)] by (subst leftmost.simps) (simp add: LEFT_def)
next
  case (3 c a r x s)
  then show ?case using node_of_Bin [OF 3(1)] by (subst leftmost.simps) (simp add: LEFT_def)
qed simp

text \<open>The tree without the node at a position.\<close>

definition remove_at :: "'c frame list \<Rightarrow> 'c rbt \<Rightarrow> 'c rbt" where
  "remove_at c t =
     (case t of
        Tip \<Rightarrow> plug c Tip
      | Bin l a r x s \<Rightarrow>
          if l \<noteq> Tip \<and> s \<noteq> Tip then
            (case min_pos [] s of
               (c2, Bin _ m rm xm sm) \<Rightarrow> removed (c2 @ (True, a, r, xm, l) # c) rm sm
             | (_, Tip) \<Rightarrow> Tip)
          else removed c r (if l \<noteq> Tip then l else s))"

lemma inorder_removed: "inorder (removed c r ch) = before c @ inorder ch @ behind c"
  by (simp add: removed_def inorder_plug inorder_remove_fix)

lemma inorder_remove_at: "inorder (remove_at c (Bin l a r x s)) = before c @ inorder l @ inorder s @ behind c"
proof (cases "l \<noteq> Tip \<and> s \<noteq> Tip")
  case True
  with min_pos_shape [of s "[]"] obtain c2 m rm xm sm where m: "min_pos [] s = (c2, Bin Tip m rm xm sm)" "plug c2 (Bin Tip m rm xm sm) = s" "before c2 = []" by auto
  have "inorder s = xm # inorder sm @ behind c2" using inorder_plug [of c2 "Bin Tip m rm xm sm"] m(2,3) by simp
  with True m show ?thesis by (simp add: remove_at_def inorder_removed before_append)
qed (auto simp: remove_at_def inorder_removed)

lemma move_ok:
  assumes h: "holds (N, root) (c2 @ (True, a, r, x, l) # c) t" and m: "N m = Some n" "n_content n = Some (fst y)" "n_size n = snd y" "m \<noteq> a"
  obtains N' where "move_content (Some m) (Some a) N = Inr N'" "holds (N', root) (c2 @ (True, a, r, y, l) # c) t"
    "same_outside (insert a {}) N N'"
proof -
  have h1: "holds (N, root) c (Bin l a r x (plug c2 t))" using h by (simp add: holds_append holds_up bin_def)
  let ?N = "N(a \<mapsto> node_for (parent_of c) (root_of l) (root_of (plug c2 t)) r y)"
  have "move_content (Some m) (Some a) N = Inr ?N" using node_of_Bin [OF h1] m by (simp add: move_content_def node_for_def)
  moreover have "holds (?N, root) c (Bin l a r y (plug c2 t))" using h1 by (simp add: holds_def)
  then have "holds (?N, root) (c2 @ (True, a, r, y, l) # c) t" by (simp add: holds_append holds_up bin_def)
  ultimately show thesis using that by (simp add: same_outside_def)
qed

text \<open>Taking a node out, in a store in which \<open>redundant\<close> is the node that is unlinked.\<close>

lemma finish_remove:
  assumes "node_at (Some a) (nodes T) = Inr cn" "n_content cn = Some (fst x)" "n_size cn = snd x" "i = 0 \<longrightarrow> INT_MIN < t_count T"
    and "(if child cn LEFT \<noteq> None \<and> child cn RIGHT \<noteq> None then TreeSuccessor (Some a) (nodes T) else Some (Inr (Some a))) = Some (Inr (Some m))"
    and "unlink_node (Some m) (nodes T, roots T i) = Inr (ch, N1, root1)" "move_content (Some m) (Some a) N1 = Inr N2"
    and "balance_removed (Some m) ch (N2, root1) = Some (Inr (N3, root3))"
  shows "TreeRemoveNodeIndex (Some a) i T = Some (Inr (Some (fst x), sized i (- 1) (- snd x) (T\<lparr>nodes := N3(m := None), roots := (roots T)(i := root3)\<rparr>)))"
  using assms by (simp add: TreeRemoveNodeIndex_def Let_def sized_def)

lemma remove_leaf:
  assumes h: "holds (nodes T, roots T i) c (Bin l a r x s)" and one: "l = Tip \<or> s = Tip" and temp: "nodes T TEMP = None"
    and cnt: "i = 0 \<longrightarrow> INT_MIN < t_count T"
  obtains N' root' where "TreeRemoveNodeIndex (Some a) i T = Some (Inr (Some (fst x), sized i (- 1) (- snd x) (T\<lparr>nodes := N'(a := None), roots := (roots T)(i := root')\<rparr>)))"
    "holds (N', root') [] (remove_at c (Bin l a r x s))" "same_outside (at_position c (Bin l a r x s)) (nodes T) N'"
    "set (addrs (remove_at c (Bin l a r x s))) = at_position c (Bin l a r x s) - {a}"
proof -
  let ?ch = "if l \<noteq> Tip then l else s"
  note n = node_of_Bin [OF h]
  have out: "a \<notin> at_position c ?ch" "at_position c (Bin l a r x s) = insert a (at_position c ?ch)" using h one by (auto simp: holds_def at_position_def)
  from unlink_ok [OF h one] obtain N1 root1 where u: "unlink_node (Some a) (nodes T, roots T i) = Inr (root_of ?ch, N1, root1)" "holds (N1, root1) c ?ch"
    "N1 a = nodes T a" "same_outside (at_position c ?ch) (nodes T) N1" .
  have temp_out: "TEMP \<notin> at_position c ?ch" using holds_dom [OF h] temp out(2) by blast
  have "N1 TEMP = None" using same_outside_at [OF u(4) temp_out] temp by simp
  from balance_removed_ok [OF u(2) u(3) [unfolded n] _ _ out(1) this] obtain N2 root2 where
    b: "balance_removed (Some a) (root_of ?ch) (N1, root1) = Some (Inr (N2, root2))" "step_to N1 (plug c ?ch) (N2, root2) (removed c r ?ch)" by auto
  have res: "remove_at c (Bin l a r x s) = removed c r ?ch" using one by (auto simp: remove_at_def)
  have "TreeRemoveNodeIndex (Some a) i T = Some (Inr (Some (fst x), sized i (- 1) (- snd x) (T\<lparr>nodes := N2(a := None), roots := (roots T)(i := root2)\<rparr>)))"
    by (rule finish_remove [OF _ _ _ cnt _ u(1) _ b(1)]) (use n one in \<open>auto simp: move_content_def LEFT_def RIGHT_def\<close>)
  moreover have "holds (N2, root2) [] (removed c r ?ch)" using b(2) by (simp add: step_to_def)
  moreover have "same_outside (at_position c (Bin l a r x s)) (nodes T) N2"
    using u(4) b(2) out(2) by (auto simp: step_to_def at_position_plug same_outside_def)
  moreover have "set (addrs (removed c r ?ch)) = at_position c (Bin l a r x s) - {a}" using b(2) out by (auto simp: step_to_def at_position_plug)
  ultimately show thesis unfolding res [symmetric] by (rule that)
qed

lemma remove_inner:
  assumes h: "holds (nodes T, roots T i) c (Bin l a r x s)" and two: "l \<noteq> Tip" "s \<noteq> Tip" and temp: "nodes T TEMP = None"
    and cnt: "i = 0 \<longrightarrow> INT_MIN < t_count T"
  obtains N' root' m where "TreeRemoveNodeIndex (Some a) i T = Some (Inr (Some (fst x), sized i (- 1) (- snd x) (T\<lparr>nodes := N'(m := None), roots := (roots T)(i := root')\<rparr>)))"
    "holds (N', root') [] (remove_at c (Bin l a r x s))" "same_outside (at_position c (Bin l a r x s)) (nodes T) N'"
    "m \<in> at_position c (Bin l a r x s)" "set (addrs (remove_at c (Bin l a r x s))) = at_position c (Bin l a r x s) - {m}"
proof -
  note n = node_of_Bin [OF h]
  from min_pos_shape [OF two(2), of "[]"] obtain c2 m rm xm sm where mp: "min_pos [] s = (c2, Bin Tip m rm xm sm)" "plug c2 (Bin Tip m rm xm sm) = s" by auto
  let ?c = "c2 @ (True, a, r, x, l) # c" and ?c' = "c2 @ (True, a, r, xm, l) # c"
  have hm: "holds (nodes T, roots T i) ?c (Bin Tip m rm xm sm)" using h mp(2) by (simp add: holds_append holds_up bin_def)
  note nm = node_of_Bin [OF hm]
  have ca: "set (caddrs (c2 @ c')) = set (caddrs c2) \<union> set (caddrs c')" for c' :: "'a frame list" by (induction c2) auto
  have all: "at_position ?c (Bin Tip m rm xm sm) = at_position c (Bin l a r x s)"
    using mp(2) by (simp add: at_position_plug plug_append bin_def)
  have dist: "m \<noteq> a" "m \<notin> at_position ?c sm" "at_position ?c (Bin Tip m rm xm sm) = insert m (at_position ?c sm)" "a \<in> at_position ?c sm" "at_position ?c' sm = at_position ?c sm"
    using hm by (auto simp: holds_def at_position_def ca)
  obtain b where b: "root_of s = Some b" "root_of l \<noteq> None" using root_cases [OF two(2)] root_cases [OF two(1)] by auto
  have "leftmost (nodes T) (Some b) = Some (Inr (Some m))" using leftmost_ok [OF holds_children(2) [OF h] two(2)] mp(1) b min_pos_root [OF two(2), of _ "[]"] by simp
  then have succ: "TreeSuccessor (Some a) (nodes T) = Some (Inr (Some m))" using n b by (simp add: TreeSuccessor_def TreeMinimum_def RIGHT_def)
  from unlink_ok [OF hm disjI1 [OF refl]] obtain N1 root1 where u: "unlink_node (Some m) (nodes T, roots T i) = Inr (root_of sm, N1, root1)" "holds (N1, root1) ?c sm"
    "N1 m = nodes T m" "same_outside (at_position ?c sm) (nodes T) N1" by auto
  have temp_out: "TEMP \<notin> at_position ?c sm" using holds_dom [OF hm] temp dist(3) by blast
  from move_ok [OF u(2) u(3) [unfolded nm] _ _ dist(1), of xm] obtain N2 where mv: "move_content (Some m) (Some a) N1 = Inr N2" "holds (N2, root1) ?c' sm"
    "same_outside {a} N1 N2" by auto
  have "TEMP \<noteq> a" using dist(4) temp_out by blast
  then have n2: "N2 m = Some (node_for (parent_of ?c) None (root_of sm) rm xm)" "N2 TEMP = None"
    using same_outside_at [OF mv(3)] u(3) nm dist(1,4) same_outside_at [OF u(4) temp_out] temp temp_out by auto
  have po: "parent_of ?c' = parent_of ?c" by (cases c2) (auto simp: parent_of_def)
  from balance_removed_ok [OF mv(2) n2(1) _ _ _ n2(2)] obtain N3 root3 where
    br: "balance_removed (Some m) (root_of sm) (N2, root1) = Some (Inr (N3, root3))" "step_to N2 (plug ?c' sm) (N3, root3) (removed ?c' rm sm)"
    using dist(2,5) po by auto
  have res: "remove_at c (Bin l a r x s) = removed ?c' rm sm" using two mp(1) by (simp add: remove_at_def)
  have "TreeRemoveNodeIndex (Some a) i T = Some (Inr (Some (fst x), sized i (- 1) (- snd x) (T\<lparr>nodes := N3(m := None), roots := (roots T)(i := root3)\<rparr>)))"
    by (rule finish_remove [OF _ _ _ cnt _ u(1) mv(1) br(1)]) (use n b succ in \<open>auto simp: LEFT_def RIGHT_def\<close>)
  moreover have "holds (N3, root3) [] (removed ?c' rm sm)" using br(2) by (simp add: step_to_def)
  moreover have "same_outside (at_position c (Bin l a r x s)) (nodes T) N3"
    using u(4) mv(3) br(2) dist all by (auto simp: step_to_def at_position_plug [symmetric] same_outside_def)
  moreover have "m \<in> at_position c (Bin l a r x s)" using dist(3) all by auto
  moreover have "set (addrs (removed ?c' rm sm)) = at_position c (Bin l a r x s) - {m}" using br(2) dist all by (auto simp: step_to_def at_position_plug [symmetric])
  ultimately show thesis unfolding res [symmetric] by (rule that)
qed

section \<open>Removing keeps the colours\<close>

lemma bh_zero: "bh t 0 \<Longrightarrow> \<not> is_red t \<Longrightarrow> t = Tip"
  by (cases t) auto

lemma removed_red_black:
  assumes "bh (Bin l a r x s) n" "path_bh c n" "r \<longrightarrow> \<not> red_parent c" "\<not> is_red (plug c (Bin l a r x s))" "l = Tip \<or> s = Tip"
  shows "red_black (removed c r (if l \<noteq> Tip then l else s))"
proof -
  let ?ch = "if l \<noteq> Tip then l else s"
  have up: "c \<noteq> [] \<Longrightarrow> \<not> is_red (plug c t)" for t using assms(4) plug_root [of c t "Bin l a r x s"] by simp
  show ?thesis
  proof (cases r)
    case True
    then have k: "bh l n" "bh s n" "\<not> is_red l" "\<not> is_red s" using assms(1) by auto
    then have "n = 0" using assms(5) by auto
    with k have ch: "l = Tip" "s = Tip" using bh_zero by blast+
    have "\<exists>m. bh (plug c Tip) m" by (rule bh_plug [of _ n]) (use assms(2) \<open>n = 0\<close> in auto)
    then show ?thesis using True ch up by (cases "c = []") (auto simp: removed_def red_black_def)
  next
    case False
    then obtain m where m: "n = Suc m" "bh l m" "bh s m" using assms(1) by (cases n) auto
    then have "red_black (remove_fix c ?ch)" by (intro remove_fix_red_black [of _ m] up) (use assms(2) in auto)
    with False show ?thesis by (simp add: removed_def)
  qed
qed

lemma path_bh_content: "path_bh (c2 @ (d, a, r, x, l) # c) n \<longleftrightarrow> path_bh (c2 @ (d, a, r, y, l) # c) n"
proof (induction c2 arbitrary: n)
  case (Cons f c2)
  obtain d' a' r' x' l' where f: "f = (d', a', r', x', l')" by (cases f)
  have "red_parent (c2 @ (d, a, r, x, l) # c) = red_parent (c2 @ (d, a, r, y, l) # c)" by (cases c2) (auto simp: red_parent_def)
  with Cons f show ?case by simp
qed simp

lemma remove_at_red_black:
  assumes "red_black (plug c (Bin l a r x s))"
  shows "red_black (remove_at c (Bin l a r x s))"
proof -
  from assms obtain m where m: "\<not> is_red (plug c (Bin l a r x s))" "bh (plug c (Bin l a r x s)) m" by (auto simp: red_black_def)
  show ?thesis
  proof (cases "l \<noteq> Tip \<and> s \<noteq> Tip")
    case False
    then have one: "l = Tip \<or> s = Tip" by blast
    from bh_unplug [OF m(2)] obtain n where "bh (Bin l a r x s) n" "path_bh c n" "r \<longrightarrow> \<not> red_parent c" by auto
    from removed_red_black [OF this m(1) one] one show ?thesis by (auto simp: remove_at_def)
  next
    case True
    with min_pos_shape [of s "[]"] obtain c2 b rm xm sm where b: "min_pos [] s = (c2, Bin Tip b rm xm sm)" "plug c2 (Bin Tip b rm xm sm) = s" by auto
    let ?c = "\<lambda>x. c2 @ (True, a, r, x, l) # c" and ?t = "Bin Tip b rm xm sm"
    have "bh (plug (?c x) ?t) m" using m(2) b(2) by (simp add: plug_append bin_def)
    from bh_unplug [OF this] obtain n where n: "bh ?t n" "path_bh (?c x) n" "rm \<longrightarrow> \<not> red_parent (?c x)" by auto
    have p: "red_parent (?c x) = red_parent (?c xm)" by (cases c2) (auto simp: red_parent_def)
    have "\<not> is_red (plug (?c xm) ?t)" using m(1) b(2) plug_root [of c "Bin l a r x s" "Bin l a r xm s"] by (cases "c = []") (auto simp: plug_append bin_def)
    from removed_red_black [OF n(1) _ _ this] n(2,3) path_bh_content [of c2 True a r x l c n xm] p True b show ?thesis by (simp add: remove_at_def)
  qed
qed

end
