(* ===== verification/Tree_Map.thy ===== *)
theory Tree_Map
  imports Tree_Ops
begin

text \<open>
  A tree of \<^verbatim>\<open>Tree.c\<close> with one index is an ordered map. Any sequence of \<^verbatim>\<open>TreeAdd\<close>, \<^verbatim>\<open>TreeRemove\<close>, \<^verbatim>\<open>TreeRemoveKey\<close> and
  \<^verbatim>\<open>TreeFind\<close> that starts with an empty tree returns without a fault and gives the results of the map; the count and
  the total size are those of the contents; and as long as no content replaces an equal one the tree is a red-black
  tree. Walking with \<^verbatim>\<open>TreeNextElement\<close> visits the contents in order.
\<close>

section \<open>The map in a tree\<close>

definition total_size :: "('c \<times> int) list \<Rightarrow> int" where
  "total_size xs = sum_list (map snd xs) mod 2 ^ 64"

definition tree_map :: "('c \<Rightarrow> ('c, 'k) sought \<Rightarrow> int) \<Rightarrow> ('c \<Rightarrow> 'k :: linorder) \<Rightarrow> ('c, 'k) Tree \<Rightarrow> 'c rbt \<Rightarrow> bool" where
  "tree_map compare key T t \<longleftrightarrow>
     tree_in T 0 t \<and> sorted_tree key t \<and> comparers T 0 = compare \<and> indexes T = 1 \<and> \<not> allow_duplicates T \<and>
     dom (nodes T) = set (addrs t) \<and> TEMP \<notin> set (addrs t) \<and> t_count T = int (length (inorder t)) \<and> t_size T = total_size (inorder t)"

definition find_key :: "('c \<Rightarrow> 'k) \<Rightarrow> 'k \<Rightarrow> ('c \<times> int) list \<Rightarrow> 'c option" where
  "find_key key k xs = map_option fst (find (\<lambda>y. key (fst y) = k) xs)"

definition drop_key :: "('c \<Rightarrow> 'k) \<Rightarrow> 'k \<Rightarrow> ('c \<times> int) list \<Rightarrow> ('c \<times> int) list" where
  "drop_key key k xs = filter (\<lambda>y. key (fst y) \<noteq> k) xs"

lemma plus_size_total: "plus_size (total_size xs) n = (sum_list (map snd xs) + n) mod 2 ^ 64"
  unfolding total_size_def plus_size_def by (rule mod_add_left_eq)

lemma total_parts: "total_size (xs @ (x, sz) # ys) = plus_size (total_size (xs @ ys)) sz" "total_size (xs @ ys) = plus_size (total_size (xs @ y # ys)) (- snd y)"
  "total_size (xs @ (x, sz) # ys) = plus_size (total_size (xs @ y # ys)) (sz - snd y)"
  unfolding plus_size_total by (simp_all add: total_size_def algebra_simps)

lemma sorted_sides:
  assumes "sorted_wrt (<) (map f (xs @ z # ys))"
  shows "\<forall>y \<in> set xs. f y < f z" "\<forall>y \<in> set ys. f z < f y"
  using assms by (auto simp: sorted_wrt_append)

lemma keys_out: "find_key key k xs = None \<longleftrightarrow> k \<notin> key ` fst ` set xs" "k \<notin> key ` fst ` set xs \<Longrightarrow> drop_key key k xs = xs"
  by (auto simp: find_key_def drop_key_def find_None_iff image_iff intro!: filter_True)

lemma keys_in:
  assumes "\<forall>y \<in> set xs. key (fst y) \<noteq> k" "key (fst z) = k" "\<forall>y \<in> set ys. key (fst y) \<noteq> k"
  shows "find_key key k (xs @ z # ys) = Some (fst z)" "drop_key key k (xs @ z # ys) = xs @ ys"
proof -
  show "find_key key k (xs @ z # ys) = Some (fst z)" using assms(1,2) by (induction xs) (auto simp: find_key_def)
  show "drop_key key k (xs @ z # ys) = xs @ ys" using assms by (auto simp: drop_key_def intro!: filter_True)
qed

lemma holds_upd [simp]: "a \<notin> at_position c t \<Longrightarrow> holds (N(a := n), root) c t = holds (N, root) c t"
  by (simp add: holds_def at_position_def)

text \<open>The addresses in use after an operation.\<close>

lemma dom_after:
  assumes "dom N = A" "same_outside B N N'" "holds (N', root) [] t'" "B - M = set (addrs t')" "A \<subseteq> B"
  shows "dom (\<lambda>a. if a \<in> M then None else N' a) = set (addrs t')"
proof -
  have "N' a \<noteq> None" if "a \<in> set (addrs t')" for a using holds_dom [OF assms(3)] that by (simp add: at_position_def)
  moreover have "N' a = None" if "a \<notin> B" for a using assms(1,2,5) that by (auto simp: same_outside_def)
  ultimately show ?thesis using assms(4) by (fastforce simp: domIff split: if_split_asm)
qed

text \<open>Removing any node.\<close>

lemma remove_any:
  assumes h: "holds (nodes T, roots T i) c (Bin l a r x s)" and temp: "nodes T TEMP = None" and cnt: "i = 0 \<longrightarrow> INT_MIN < t_count T"
  obtains N' root' m where "TreeRemoveNodeIndex (Some a) i T = Some (Inr (Some (fst x), sized i (- 1) (- snd x) (T\<lparr>nodes := N'(m := None), roots := (roots T)(i := root')\<rparr>)))"
    "holds (N', root') [] (remove_at c (Bin l a r x s))" "same_outside (at_position c (Bin l a r x s)) (nodes T) N'"
    "set (addrs (remove_at c (Bin l a r x s))) = at_position c (Bin l a r x s) - {m}"
proof (cases "l \<noteq> Tip \<and> s \<noteq> Tip")
  case True
  show thesis
    by (rule remove_inner [OF h conjunct1 [OF True] conjunct2 [OF True] temp cnt]) (rule that)
next
  case False
  then have one: "l = Tip \<or> s = Tip" by blast
  show thesis by (rule remove_leaf [OF h one temp cnt]) (rule that)
qed

lemma tree_mapD:
  assumes "tree_map compare key T t"
  shows "holds (nodes T, roots T 0) [] t" "sorted_tree key t" "comparers T 0 = compare" "indexes T = 1" "\<not> allow_duplicates T"
    "dom (nodes T) = set (addrs t)" "TEMP \<notin> set (addrs t)" "t_count T = int (length (inorder t))" "t_size T = total_size (inorder t)" "nodes T TEMP = None"
  using assms by (auto simp: tree_map_def tree_in_def)

text \<open>Establishing the relation after an operation on the first index.\<close>

lemma tree_map_after:
  assumes m: "tree_map compare key T t"
    and h: "holds (N', root') [] t'" "same_outside (insert b (set (addrs t))) (nodes T) N'" "set (addrs t') = insert b (set (addrs t)) - M" "TEMP \<noteq> b"
    and c: "length (inorder t') = nat (int (length (inorder t)) + n)" "0 \<le> int (length (inorder t)) + n" "total_size (inorder t') = plus_size (total_size (inorder t)) k"
    and s: "sorted_tree key t'"
  shows "tree_map compare key (sized 0 n k (T\<lparr>nodes := (\<lambda>a. if a \<in> M then None else N' a), roots := (roots T)(0 := root')\<rparr>)) t'"
proof -
  let ?N = "\<lambda>a. if a \<in> M then None else N' a"
  note d = tree_mapD [OF m]
  have "shape ?N up u = shape N' up u" if "set (addrs u) \<inter> M = {}" for up u using that by (induction u arbitrary: up) auto
  then have "holds (?N, root') [] t'" using h(1,3) by (auto simp: holds_def)
  moreover have "dom ?N = set (addrs t')" by (rule dom_after [OF d(6) h(2,1)]) (use h(3) in auto)
  ultimately show ?thesis using d(3-5,7-9) h(3,4) c s by (auto simp: tree_map_def tree_in_def sized_def)
qed

lemma no_change: "(\<lambda>a. if a \<in> {} then None else N a) = N" "(\<lambda>a. if a \<in> {m} then None else N a) = N(m := None)"
  by auto

context ordered_by
begin

lemma located:
  assumes "sorted_tree key t" "locate (\<lambda>x. compare x (Key k)) [] t = (c, t')"
  shows "t' = Tip \<Longrightarrow> inorder t = before c @ behind c \<and> find_key key k (inorder t) = None \<and> drop_key key k (inorder t) = inorder t \<and>
      (\<forall>x. key (fst x) = k \<longrightarrow> put_key key x (inorder t) = before c @ x # behind c)"
    and "t' = Bin l a r z s \<Longrightarrow> inorder t = (before c @ inorder l) @ z # inorder s @ behind c \<and> key (fst z) = k \<and>
      find_key key k (inorder t) = Some (fst z) \<and> drop_key key k (inorder t) = (before c @ inorder l) @ inorder s @ behind c \<and>
      (\<forall>x. key (fst x) = k \<longrightarrow> put_key key x (inorder t) = (before c @ inorder l) @ x # inorder s @ behind c)"
proof -
  have i: "inorder t = before c @ inorder t' @ behind c" using locate_plug [OF assms(2)] inorder_plug [of c t'] by simp
  have b: "\<forall>y \<in> set (before c). key (fst y) < k" "\<forall>y \<in> set (behind c). k < key (fst y)" "\<forall>l a r x s. t' = Bin l a r x s \<longrightarrow> key (fst x) = k"
    using locate_sides [OF assms(2)] assms(1) by simp_all
  show "t' = Tip \<Longrightarrow> inorder t = before c @ behind c \<and> find_key key k (inorder t) = None \<and> drop_key key k (inorder t) = inorder t \<and>
      (\<forall>x. key (fst x) = k \<longrightarrow> put_key key x (inorder t) = before c @ x # behind c)"
  proof -
    assume t': "t' = Tip"
    with locate_key [OF assms(2,1)] have "k \<notin> key ` fst ` set (inorder t)" by simp
    with i t' b put_new show ?thesis by (simp add: keys_out)
  qed
  show "t' = Bin l a r z s \<Longrightarrow> inorder t = (before c @ inorder l) @ z # inorder s @ behind c \<and> key (fst z) = k \<and>
      find_key key k (inorder t) = Some (fst z) \<and> drop_key key k (inorder t) = (before c @ inorder l) @ inorder s @ behind c \<and>
      (\<forall>x. key (fst x) = k \<longrightarrow> put_key key x (inorder t) = (before c @ inorder l) @ x # inorder s @ behind c)"
  proof -
    assume t': "t' = Bin l a r z s"
    then have k: "key (fst z) = k" and j: "inorder t = (before c @ inorder l) @ z # inorder s @ behind c" using b(3) i by (blast, simp)
    from sorted_sides [of "key \<circ> fst" "before c @ inorder l" z "inorder s @ behind c"] assms(1) j k
    have sides: "\<forall>y \<in> set (before c @ inorder l). key (fst y) < k" "\<forall>y \<in> set (inorder s @ behind c). k < key (fst y)" by (auto simp: sorted_tree_def)
    then have ne: "\<forall>y \<in> set (before c @ inorder l). key (fst y) \<noteq> k" "\<forall>y \<in> set (inorder s @ behind c). key (fst y) \<noteq> k" by auto
    have "put_key key x (inorder t) = (before c @ inorder l) @ x # inorder s @ behind c" if "key (fst x) = k" for x
      unfolding j by (rule put_old) (use sides(1) k that in simp_all)
    then show ?thesis using k keys_in [where key = key, OF ne(1) k ne(2)] unfolding j by blast
  qed
qed

lemma located_none: "sorted_tree key t \<Longrightarrow> locate (\<lambda>x. compare x (Key k)) [] t = (c, Tip) \<Longrightarrow> find_key key k (inorder t) = None \<and> drop_key key k (inorder t) = inorder t"
  using located(1) by blast

lemma put_set: "z \<in> set (put_key key x xs) \<Longrightarrow> z = x \<or> z \<in> set xs"
  by (induction xs) (auto split: if_split_asm)

lemma sorted_put: "sorted_wrt (<) (map (key \<circ> fst) xs) \<Longrightarrow> sorted_wrt (<) (map (key \<circ> fst) (put_key key x xs))"
proof (induction xs)
  case (Cons y ys)
  show ?case
  proof (cases "key (fst x) \<le> key (fst y)")
    case True
    with Cons.prems show ?thesis by (fastforce intro: less_trans)
  next
    case False
    then have "put_key key x (y # ys) = y # put_key key x ys" by auto
    moreover have "key (fst y) < key (fst z)" if "z \<in> set (put_key key x ys)" for z using put_set [OF that] False Cons.prems by auto
    ultimately show ?thesis using Cons by simp
  qed
qed simp

lemma sorted_drop: "sorted_wrt (<) (map (key \<circ> fst) xs) \<Longrightarrow> sorted_wrt (<) (map (key \<circ> fst) (drop_key key k xs))"
  by (simp add: drop_key_def sorted_wrt_map sorted_wrt_filter)

lemma find_root:
  assumes "tree_map compare key T t" "locate (\<lambda>x. compare x q) [] t = (c, t')"
  shows "TreeFindIndex1 q 0 T = Some (Inr (root_of t'))"
  using find_node_ok [where compare = compare, OF tree_mapD(1) [OF assms(1)] assms(2)] tree_mapD(1,3) [OF assms(1)] by (simp add: TreeFindIndex1_def holds_def)

lemma locate_content: "locate (\<lambda>x. compare x (Content y)) c t = locate (\<lambda>x. compare x (Key (key y))) c t"
  by (simp add: compare_content)

lemma add_keeps:
  assumes m: "tree_map compare key T t" and a: "new 0 = Some a" "nodes T a = None" "a \<noteq> TEMP" "t_count T < INT_MAX"
  obtains T' t' where "TreeAdd new content sz T = Some (Inr (Some content, T'))" "tree_map compare key T' t'"
    "inorder t' = put_key key (content, sz) (inorder t)" "find_key key (key content) (inorder t) = None \<Longrightarrow> red_black t \<Longrightarrow> red_black t'"
proof -
  note d = tree_mapD [OF m]
  have in0: "tree_in T 0 t" using d(1) by (simp add: tree_in_def)
  have sorted: "sorted_wrt (<) (map (key \<circ> fst) (put_key key (content, sz) (inorder t)))" using d(2) sorted_put by (simp add: sorted_tree_def)
  obtain c t1 where loc: "locate (\<lambda>x. compare x (Key (key content))) [] t = (c, t1)" by (cases "locate (\<lambda>x. compare x (Key (key content))) [] t")
  have loc': "locate (\<lambda>x. comparers T 0 x (Content content)) [] t = (c, t1)" using loc d(3) locate_content by simp
  have one: "TreeAdd new content sz T = (case TreeAddByIndex (Some a) content sz 0 T of None \<Rightarrow> None | Some (Inl f) \<Rightarrow> Some (Inl f) | Some (Inr (rc, T1)) \<Rightarrow> Some (Inr (rc, T1)))"
    using d(4) a(1) by (simp add: TreeAdd_def split: option.split sum.split)
  show thesis
  proof (cases t1)
    case Tip
    let ?t = "add_balance c (Bin Tip a True (content, sz) Tip)"
    note i = located(1) [OF d(2) loc Tip]
    have new: "inorder ?t = before c @ (content, sz) # behind c" by (simp add: inorder_add_balance inorder_plug)
    have io: "inorder ?t = put_key key (content, sz) (inorder t)" unfolding new using i by (metis fst_conv)
    from add_new [OF in0 loc' [unfolded Tip] a(2), of sz] a(4) obtain N' root' where
      n: "TreeAddByIndex (Some a) content sz 0 T = Some (Inr (Some content, sized 0 1 sz (T\<lparr>nodes := N', roots := (roots T)(0 := root')\<rparr>)))"
      "holds (N', root') [] ?t" "same_outside (insert a (set (addrs t))) (nodes T) N'" "set (addrs ?t) = insert a (set (addrs t))" by blast
    have "tree_map compare key (sized 0 1 sz (T\<lparr>nodes := N', roots := (roots T)(0 := root')\<rparr>)) ?t"
      by (rule tree_map_after [OF m n(2,3), where M = "{}", unfolded no_change])
        (use n(4) a(3) new sorted [folded io] i total_parts(1) [of "before c" content sz "behind c"] in \<open>simp_all add: sorted_tree_def\<close>)
    moreover have "red_black t \<Longrightarrow> red_black ?t" using add_red_black [of c] locate_plug [OF loc] Tip by simp
    moreover have "TreeAdd new content sz T = Some (Inr (Some content, sized 0 1 sz (T\<lparr>nodes := N', roots := (roots T)(0 := root')\<rparr>)))" using n(1) one by simp
    ultimately show thesis using that io by blast
  next
    case (Bin l b r z s)
    let ?t = "add_balance c (Bin l b r (content, sz) s)"
    note i = located(2) [OF d(2) loc Bin]
    have new: "inorder ?t = (before c @ inorder l) @ (content, sz) # inorder s @ behind c" by (simp add: inorder_add_balance inorder_plug)
    have io: "inorder ?t = put_key key (content, sz) (inorder t)" unfolding new using i by (metis fst_conv)
    from add_old [OF in0 loc' [unfolded Bin] d(5), of "Some a" sz] obtain N' root' where
      n: "TreeAddByIndex (Some a) content sz 0 T = Some (Inr (Some content, sized 0 0 (sz - snd z) (T\<lparr>nodes := N', roots := (roots T)(0 := root')\<rparr>)))"
      "holds (N', root') [] ?t" "same_outside (set (addrs t)) (nodes T) N'" "set (addrs ?t) = set (addrs t)" by blast
    have b: "b \<in> set (addrs t)" using locate_plug [OF loc] Bin set_addrs_plug [of c t1] by auto
    have tm: "tree_map compare key (sized 0 0 (sz - snd z) (T\<lparr>nodes := N', roots := (roots T)(0 := root')\<rparr>)) ?t"
      by (rule tree_map_after [OF m n(2), where M = "{}" and b = b, unfolded no_change])
        (use n(3,4) b d(7) new sorted [folded io] i total_parts(3) [of "before c @ inorder l" content sz "inorder s @ behind c" z] in \<open>auto simp: sorted_tree_def insert_absorb\<close>)
    have run: "TreeAdd new content sz T = Some (Inr (Some content, sized 0 0 (sz - snd z) (T\<lparr>nodes := N', roots := (roots T)(0 := root')\<rparr>)))" using n(1) one by simp
    have "find_key key (key content) (inorder t) \<noteq> None" using i by blast
    then show thesis by (intro that [OF run tm io]) simp
  qed
qed

lemma remove_keeps:
  assumes m: "tree_map compare key T t" and loc: "locate (\<lambda>x. compare x (Key k)) [] t = (c, Bin l a r z s)"
  obtains T' t' where "TreeRemoveNodeIndex (Some a) 0 T = Some (Inr (Some (fst z), T'))" "tree_map compare key T' t'"
    "inorder t' = drop_key key k (inorder t)" "red_black t \<Longrightarrow> red_black t'"
proof -
  note d = tree_mapD [OF m] and pl = locate_plug [OF loc]
  let ?t = "remove_at c (Bin l a r z s)"
  note i = located(2) [OF d(2) loc refl]
  have sorted: "sorted_wrt (<) (map (key \<circ> fst) (drop_key key k (inorder t)))" using d(2) sorted_drop by (simp add: sorted_tree_def)
  have new: "inorder ?t = (before c @ inorder l) @ inorder s @ behind c" by (simp add: inorder_remove_at)
  have io: "inorder ?t = drop_key key k (inorder t)" unfolding new using i by metis
  have h: "holds (nodes T, roots T 0) c (Bin l a r z s)" using d(1) pl holds_plug [of _ c "Bin l a r z s"] by simp
  have at: "at_position c (Bin l a r z s) = set (addrs t)" using pl by (simp add: at_position_plug)
  have "0 = (0::nat) \<longrightarrow> INT_MIN < t_count T" using d(8) by (simp add: INT_MIN_def)
  from remove_any [OF h d(10) this] obtain N' root' b where
    n: "TreeRemoveNodeIndex (Some a) 0 T = Some (Inr (Some (fst z), sized 0 (- 1) (- snd z) (T\<lparr>nodes := N'(b := None), roots := (roots T)(0 := root')\<rparr>)))"
    "holds (N', root') [] ?t" "same_outside (set (addrs t)) (nodes T) N'" "set (addrs ?t) = set (addrs t) - {b}" using at by metis
  have a: "a \<in> set (addrs t)" using at by (auto simp: at_position_def)
  have "tree_map compare key (sized 0 (- 1) (- snd z) (T\<lparr>nodes := N'(b := None), roots := (roots T)(0 := root')\<rparr>)) ?t"
    by (rule tree_map_after [OF m n(2), where M = "{b}" and b = a, unfolded no_change])
      (use n(3,4) a d(7) new sorted [folded io] i total_parts(2) [of "before c @ inorder l" "inorder s @ behind c" z] in \<open>auto simp: sorted_tree_def insert_absorb\<close>)
  moreover have "red_black t \<Longrightarrow> red_black ?t" using remove_at_red_black [of c l a r z s] pl by simp
  ultimately show thesis using that n(1) io by blast
qed

end

section \<open>Walking\<close>

fun in_addrs :: "'c rbt \<Rightarrow> nat list" where
  "in_addrs Tip = []"
| "in_addrs (Bin l a r x s) = in_addrs l @ a # in_addrs s"

fun addrs_before :: "'c frame list \<Rightarrow> nat list" where
  "addrs_before [] = []"
| "addrs_before ((d, a, r, x, s) # c) = addrs_before c @ (if d then in_addrs s @ [a] else [])"

fun addrs_behind :: "'c frame list \<Rightarrow> nat list" where
  "addrs_behind [] = []"
| "addrs_behind ((d, a, r, x, s) # c) = (if d then [] else a # in_addrs s) @ addrs_behind c"

definition first :: "'a list \<Rightarrow> 'a option" where
  "first xs = (case xs of [] \<Rightarrow> None | x # _ \<Rightarrow> Some x)"

lemma first_simps [simp]: "first [] = None" "first (x # xs) = Some x"
  by (simp_all add: first_def)

lemma first_append: "first (xs @ ys) = (if xs = [] then first ys else first xs)"
  by (cases xs) simp_all

lemma in_addrs_plug: "in_addrs (plug c t) = addrs_before c @ in_addrs t @ addrs_behind c"
  by (induction c t rule: plug.induct) (auto simp: bin_def)

lemma set_in_addrs: "set (in_addrs t) = set (addrs t)"
  by (induction t) auto

lemma distinct_in_addrs: "distinct (addrs t) \<Longrightarrow> distinct (in_addrs t)"
  by (induction t) (auto simp: set_in_addrs)

lemma min_first: "t \<noteq> Tip \<Longrightarrow> root_of (snd (min_pos c t)) = first (in_addrs t)"
proof (induction c t rule: min_pos.induct)
  case (1 c l b q y u a r x s)
  then show ?case by (simp add: first_append)
qed auto

lemma climb_ok:
  "holds (N, root) c t \<Longrightarrow> t \<noteq> Tip \<Longrightarrow> climb N (root_of t) (parent_of c) = Some (Inr (first (addrs_behind c)))"
proof (induction c arbitrary: t)
  case Nil
  then show ?case by (subst climb.simps) simp
next
  case (Cons f c)
  obtain d a r x s where f: "f = (d, a, r, x, s)" by (cases f)
  have h: "holds (N, root) c (bin d t a r x s)" using Cons.prems(1) f by (simp add: holds_up)
  then have n: "N a = Some (node_for (parent_of c) (if d then root_of s else root_of t) (if d then root_of t else root_of s) r x)"
    by (cases d) (simp_all add: holds_def bin_def)
  obtain b where b: "root_of t = Some b" using root_cases [OF Cons.prems(2)] ..
  have "set (addrs t) \<inter> set (addrs s) = {}" using Cons.prems(1) f by (auto simp: holds_def)
  then have ne: "root_of t \<noteq> root_of s" using root_in [OF b] root_in [of s b] b by auto
  have "climb N (root_of t) (Some a) = (if d then climb N (Some a) (parent_of c) else Some (Inr (Some a)))"
    using n ne by (subst climb.simps) (auto simp: RIGHT_def)
  moreover have "climb N (Some a) (parent_of c) = Some (Inr (first (addrs_behind c)))" using Cons.IH [OF h bin_not_Tip(1)] by (cases d) (simp_all add: bin_def)
  ultimately show ?case using f by simp
qed

lemma successor_ok:
  assumes "holds (N, root) c (Bin l a r x s)"
  shows "TreeSuccessor (Some a) N = Some (Inr (first (in_addrs s @ addrs_behind c)))"
proof (cases "s = Tip")
  case True
  with node_of_Bin [OF assms] climb_ok [OF assms] show ?thesis by (simp add: TreeSuccessor_def RIGHT_def)
next
  case False
  from root_cases [OF False] obtain b where b: "root_of s = Some b" ..
  have "in_addrs s \<noteq> []" using False by (cases s) auto
  then have "first (in_addrs s @ addrs_behind c) = first (in_addrs s)" by (simp add: first_append)
  with b leftmost_ok [OF holds_children(2) [OF assms] False] min_first [OF False] node_of_Bin [OF assms]
  show ?thesis by (simp add: TreeSuccessor_def TreeMinimum_def RIGHT_def)
qed

lemma position_of: "a \<in> set (in_addrs t) \<Longrightarrow> \<exists>c' l r x s. plug c' (Bin l a r x s) = plug c t"
proof (induction t arbitrary: c)
  case (Bin l b r x s)
  from Bin.IH(1) [of "(False, b, r, x, s) # c"] Bin.IH(2) [of "(True, b, r, x, l) # c"] Bin.prems show ?case by (fastforce simp: bin_def)
qed simp

text \<open>The element after the first ones, and before the others.\<close>

lemma next_element_ok:
  assumes h: "holds (nodes T, roots T 0) [] t" and split: "in_addrs t = xs @ ys"
  shows "TreeNextElement (if xs = [] then None else Some (last xs)) T = Some (Inr (first ys))"
proof (cases "xs = []")
  case True
  then have ys: "ys = in_addrs t" using split by simp
  have root: "roots T 0 = root_of t" using h by (simp add: holds_def)
  show ?thesis
  proof (cases "t = Tip")
    case False
    then obtain a where "root_of t = Some a" using root_cases by blast
    with True ys root leftmost_ok [OF h False] min_first [OF False] show ?thesis by (simp add: TreeNextElement_def TreeNextElementIndex_def TreeMinimum_def)
  qed (use True ys root in \<open>simp add: TreeNextElement_def TreeNextElementIndex_def TreeMinimum_def\<close>)
next
  case False
  then obtain zs a where xs: "xs = zs @ [a]" by (cases xs rule: rev_cases) auto
  then have "a \<in> set (in_addrs t)" using split by simp
  from position_of [OF this, of "[]"] obtain c l r x s where p: "plug c (Bin l a r x s) = t" by auto
  have hp: "holds (nodes T, roots T 0) c (Bin l a r x s)" using h p holds_plug [of _ c "Bin l a r x s"] by simp
  have "(addrs_before c @ in_addrs l) @ a # in_addrs s @ addrs_behind c = zs @ a # ys" using in_addrs_plug [of c "Bin l a r x s"] p split xs by simp
  moreover have "distinct (zs @ a # ys)" using distinct_in_addrs [of t] h split xs by (simp add: holds_def)
  ultimately have "ys = in_addrs s @ addrs_behind c" by (metis append_Cons_eq_iff distinct.simps(2) distinct_append not_distinct_conv_prefix)
  with successor_ok [OF hp] xs show ?thesis by (simp add: TreeNextElement_def TreeNextElementIndex_def)
qed

lemma content_in_order: "shape N up t \<Longrightarrow> map (\<lambda>a. map_option (\<lambda>n. (n_content n, n_size n)) (N a)) (in_addrs t) = map (\<lambda>x. Some (Some (fst x), snd x)) (inorder t)"
  by (induction t arbitrary: up) auto

section \<open>Sequences of operations\<close>

datatype ('c, 'k) tree_op = Add 'c int | Remove 'c | Remove_Key 'k | Find 'k

definition content_at :: "nat option \<Rightarrow> 'c store \<Rightarrow> 'c option res" where
  "content_at p N = (if p = None then Inr None else bindR (node_at p N) (\<lambda>n. Inr (n_content n)))"

text \<open>\<open>new\<close> is the address at which the allocator puts the next node.\<close>

fun tree_step :: "('c store \<Rightarrow> nat) \<Rightarrow> ('c, 'k) tree_op \<Rightarrow> ('c, 'k) Tree \<Rightarrow> ('c option \<times> ('c, 'k) Tree) res option" where
  "tree_step new (Add c sz) T = TreeAdd (\<lambda>_. Some (new (nodes T))) c sz T"
| "tree_step new (Remove c) T = TreeRemove c T"
| "tree_step new (Remove_Key k) T = TreeRemoveKey k T"
| "tree_step new (Find k) T = map_option (\<lambda>r. bindR r (\<lambda>p. bindR (content_at p (nodes T)) (\<lambda>c. Inr (c, T)))) (TreeFind k T)"

fun tree_run :: "('c store \<Rightarrow> nat) \<Rightarrow> ('c, 'k) tree_op list \<Rightarrow> ('c, 'k) Tree \<Rightarrow> ('c option list \<times> ('c, 'k) Tree) res option" where
  "tree_run new [] T = Some (Inr ([], T))"
| "tree_run new (x # xs) T =
     (case tree_step new x T of
        None \<Rightarrow> None
      | Some (Inl f) \<Rightarrow> Some (Inl f)
      | Some (Inr (c, T1)) \<Rightarrow> map_option (\<lambda>r. bindR r (\<lambda>(cs, T2). Inr (c # cs, T2))) (tree_run new xs T1))"

fun map_step :: "('c \<Rightarrow> 'k :: linorder) \<Rightarrow> ('c, 'k) tree_op \<Rightarrow> ('c \<times> int) list \<Rightarrow> 'c option \<times> ('c \<times> int) list" where
  "map_step key (Add c sz) xs = (Some c, put_key key (c, sz) xs)"
| "map_step key (Remove c) xs = (find_key key (key c) xs, drop_key key (key c) xs)"
| "map_step key (Remove_Key k) xs = (find_key key k xs, drop_key key k xs)"
| "map_step key (Find k) xs = (find_key key k xs, xs)"

fun map_run :: "('c \<Rightarrow> 'k :: linorder) \<Rightarrow> ('c, 'k) tree_op list \<Rightarrow> ('c \<times> int) list \<Rightarrow> 'c option list \<times> ('c \<times> int) list" where
  "map_run key [] xs = ([], xs)"
| "map_run key (x # ops) xs = (let (c, ys) = map_step key x xs; (cs, zs) = map_run key ops ys in (c # cs, zs))"

text \<open>No operation adds a content whose key is there.\<close>

fun adds_new :: "('c \<Rightarrow> 'k :: linorder) \<Rightarrow> ('c, 'k) tree_op \<Rightarrow> ('c \<times> int) list \<Rightarrow> bool" where
  "adds_new key (Add c sz) xs \<longleftrightarrow> find_key key (key c) xs = None"
| "adds_new key _ xs \<longleftrightarrow> True"

fun all_new :: "('c \<Rightarrow> 'k :: linorder) \<Rightarrow> ('c, 'k) tree_op list \<Rightarrow> ('c \<times> int) list \<Rightarrow> bool" where
  "all_new key [] xs \<longleftrightarrow> True"
| "all_new key (x # ops) xs \<longleftrightarrow> adds_new key x xs \<and> all_new key ops (snd (map_step key x xs))"

lemma length_put: "length (put_key key x xs) \<le> Suc (length xs)"
  by (induction xs) auto

lemma length_map_step: "length (snd (map_step key x xs)) \<le> Suc (length xs)"
  by (cases x) (auto simp: length_put drop_key_def intro: le_SucI)

context ordered_by
begin

lemma find_content:
  assumes m: "tree_map compare key T t"
  shows "\<exists>p. TreeFind k T = Some (Inr p) \<and> content_at p (nodes T) = Inr (find_key key k (inorder t))"
proof -
  note d = tree_mapD [OF m]
  obtain c t1 where loc: "locate (\<lambda>x. compare x (Key k)) [] t = (c, t1)" by (cases "locate (\<lambda>x. compare x (Key k)) [] t")
  have f: "TreeFind k T = Some (Inr (root_of t1))" using find_root [OF m loc] by (simp add: TreeFind_def TreeFindIndex_def)
  have "content_at (root_of t1) (nodes T) = Inr (find_key key k (inorder t))"
  proof (cases t1)
    case Tip
    with located_none [OF d(2)] loc show ?thesis by (simp add: content_at_def)
  next
    case (Bin l a r z s)
    have "holds (nodes T, roots T 0) c (Bin l a r z s)" using d(1) locate_plug [OF loc] Bin holds_plug [of _ c t1] by simp
    from node_of_Bin [OF this] Bin conjunct1 [OF conjunct2 [OF conjunct2 [OF located(2) [OF d(2) loc Bin]]]] show ?thesis by (simp add: content_at_def)
  qed
  with f show ?thesis by blast
qed

lemma remove_at_key:
  assumes m: "tree_map compare key T t"
  obtains p T' t' where "TreeFindIndex1 (Key k) 0 T = Some (Inr p)"
    "(if p = None then Some (Inr (None, T)) else TreeRemoveNodeIndex p 0 T) = Some (Inr (find_key key k (inorder t), T'))"
    "tree_map compare key T' t'" "inorder t' = drop_key key k (inorder t)" "red_black t \<Longrightarrow> red_black t'"
    "p = None \<longleftrightarrow> find_key key k (inorder t) = None"
proof -
  note d = tree_mapD [OF m]
  obtain c t1 where loc: "locate (\<lambda>x. compare x (Key k)) [] t = (c, t1)" by (cases "locate (\<lambda>x. compare x (Key k)) [] t")
  note f = find_root [OF m loc]
  show thesis
  proof (cases t1)
    case Tip
    note i = located_none [OF d(2) loc [unfolded Tip]]
    show thesis by (rule that [OF f _ m]) (use i Tip in simp_all)
  next
    case (Bin l a r z s)
    note i = located(2) [OF d(2) loc Bin]
    from remove_keeps [OF m loc [unfolded Bin]] obtain T' t' where n: "TreeRemoveNodeIndex (Some a) 0 T = Some (Inr (Some (fst z), T'))" "tree_map compare key T' t'"
      "inorder t' = drop_key key k (inorder t)" "red_black t \<Longrightarrow> red_black t'" by blast
    have "find_key key k (inorder t) = Some (fst z)" using i by blast
    with n(1) Bin have "(if root_of t1 = None then Some (Inr (None, T)) else TreeRemoveNodeIndex (root_of t1) 0 T) = Some (Inr (find_key key k (inorder t), T'))" by simp
    from that [OF f this n(2,3,4)] \<open>find_key key k (inorder t) = Some (fst z)\<close> Bin show thesis by simp
  qed
qed

lemma find_by_content: "tree_map compare key T t \<Longrightarrow> TreeFindContentIndex c 0 T = TreeFindIndex1 (Key (key c)) 0 T"
  using find_root locate_content by (metis TreeFindContentIndex_def surj_pair)

lemma step_ok:
  assumes m: "tree_map compare key T t" and new: "nodes T (new (nodes T)) = None" "new (nodes T) \<noteq> TEMP" and cnt: "t_count T < INT_MAX"
  obtains T' t' where "tree_step new x T = Some (Inr (fst (map_step key x (inorder t)), T'))" "tree_map compare key T' t'"
    "inorder t' = snd (map_step key x (inorder t))" "adds_new key x (inorder t) \<Longrightarrow> red_black t \<Longrightarrow> red_black t'"
proof (cases x)
  case (Add c sz)
  from add_keeps [OF m refl new cnt, of c sz] obtain T' t' where n: "TreeAdd (\<lambda>_. Some (new (nodes T))) c sz T = Some (Inr (Some c, T'))" "tree_map compare key T' t'"
    "inorder t' = put_key key (c, sz) (inorder t)" "find_key key (key c) (inorder t) = None \<Longrightarrow> red_black t \<Longrightarrow> red_black t'" by blast
  show thesis by (rule that [of T' t']) (use n Add in simp_all)
next
  case (Remove c)
  from remove_at_key [OF m] obtain p T' t' where n: "TreeFindIndex1 (Key (key c)) 0 T = Some (Inr p)"
    "(if p = None then Some (Inr (None, T)) else TreeRemoveNodeIndex p 0 T) = Some (Inr (find_key key (key c) (inorder t), T'))"
    "tree_map compare key T' t'" "inorder t' = drop_key key (key c) (inorder t)" "red_black t \<Longrightarrow> red_black t'" by blast
  have "TreeRemove c T = Some (Inr (find_key key (key c) (inorder t), T'))"
    using n(1,2) find_by_content [OF m] tree_mapD(4) [OF m] by (simp add: TreeRemove_def TreeRemoveIndex_def)
  then show thesis by (intro that [of T' t']) (use n(3-5) Remove in simp_all)
next
  case (Remove_Key k)
  from remove_at_key [OF m] obtain p T' t' where n: "TreeFindIndex1 (Key k) 0 T = Some (Inr p)"
    "(if p = None then Some (Inr (None, T)) else TreeRemoveNodeIndex p 0 T) = Some (Inr (find_key key k (inorder t), T'))"
    "tree_map compare key T' t'" "inorder t' = drop_key key k (inorder t)" "red_black t \<Longrightarrow> red_black t'" by blast
  have "TreeRemoveKey k T = Some (Inr (find_key key k (inorder t), T'))"
    using n(1,2) tree_mapD(4) [OF n(3)] by (cases p) (simp_all add: TreeRemoveKey_def TreeRemoveKeyIndex_def TreeFindIndex_def)
  then show thesis by (intro that [of T' t']) (use n(3-5) Remove_Key in simp_all)
next
  case (Find k)
  from find_content [OF m, of k] obtain p where "TreeFind k T = Some (Inr p)" "content_at p (nodes T) = Inr (find_key key k (inorder t))" by blast
  then show thesis by (intro that [of T t]) (use m Find in simp_all)
qed

lemma run_ok:
  assumes new: "\<And>N. finite (dom N) \<Longrightarrow> N (new N) = None \<and> new N \<noteq> TEMP"
  shows "tree_map compare key T t \<Longrightarrow> int (length (inorder t) + length ops) \<le> INT_MAX \<Longrightarrow>
    \<exists>T' t'. tree_run new ops T = Some (Inr (fst (map_run key ops (inorder t)), T')) \<and> tree_map compare key T' t' \<and>
      inorder t' = snd (map_run key ops (inorder t)) \<and> (all_new key ops (inorder t) \<and> red_black t \<longrightarrow> red_black t')"
proof (induction ops arbitrary: T t)
  case (Cons x ops)
  note d = tree_mapD [OF Cons.prems(1)]
  have "finite (dom (nodes T))" using d(6) by simp
  from new [OF this] have free: "nodes T (new (nodes T)) = None" "new (nodes T) \<noteq> TEMP" by auto
  have "t_count T < INT_MAX" using d(8) Cons.prems(2) by simp
  from step_ok [where new = new and x = x, OF Cons.prems(1) free this] obtain T1 t1 where n: "tree_step new x T = Some (Inr (fst (map_step key x (inorder t)), T1))" "tree_map compare key T1 t1"
    "inorder t1 = snd (map_step key x (inorder t))" "adds_new key x (inorder t) \<Longrightarrow> red_black t \<Longrightarrow> red_black t1" by blast
  have "int (length (inorder t1) + length ops) \<le> INT_MAX" using length_map_step [of key x "inorder t"] n(3) Cons.prems(2) by simp
  from Cons.IH [OF n(2) this] obtain T' t' where r: "tree_run new ops T1 = Some (Inr (fst (map_run key ops (inorder t1)), T'))" "tree_map compare key T' t'"
    "inorder t' = snd (map_run key ops (inorder t1))" "all_new key ops (inorder t1) \<and> red_black t1 \<longrightarrow> red_black t'" by blast
  have "tree_run new (x # ops) T = Some (Inr (fst (map_run key (x # ops) (inorder t)), T'))" using n(1,3) r(1) by (simp add: split_beta Let_def)
  moreover have "inorder t' = snd (map_run key (x # ops) (inorder t))" using n(3) r(3) by (simp add: split_beta Let_def)
  ultimately show ?case using r(2,4) n(3,4) by (intro exI [of _ T'] exI [of _ t']) simp
qed auto

lemma empty_ok: "tree_map compare key (TreeInitializeNoMalloc compare) Tip"
  by (simp add: tree_map_def tree_in_def holds_def TreeInitializeNoMalloc_def sorted_tree_def total_size_def)

end

section \<open>Trees of integers and of pointers\<close>

definition compare_with :: "('c \<Rightarrow> 'c \<Rightarrow> int) \<Rightarrow> 'c \<Rightarrow> ('c, 'c) sought \<Rightarrow> int" where
  "compare_with f c q = (case q of Content x \<Rightarrow> f c x | Key k \<Rightarrow> f c k)"

interpretation int_order: ordered_by "compare_with TreeIntCompare" id
  by unfold_locales (auto simp: compare_with_def TreeIntCompare_def)

interpretation ptr_order: ordered_by "compare_with TreePtrCompare" id
  by unfold_locales (auto simp: compare_with_def TreePtrCompare_def)

text \<open>
  C33: with a comparison function that follows the order of a key, every sequence of \<^verbatim>\<open>TreeAdd\<close>, \<^verbatim>\<open>TreeRemove\<close>,
  \<^verbatim>\<open>TreeRemoveKey\<close> and \<^verbatim>\<open>TreeFind\<close> on a new tree ends, follows no null or freed pointer, and returns what the same
  operations on an ordered map return. The tree holds the contents of the map, in order, with their number and their
  total size. As long as no content is added whose key is there, the tree is balanced: its depth is at most twice the
  logarithm of the number of contents.\<close>
theorem tree_is_ordered_map:
  assumes "ordered_by compare key"
    and "\<And>N. finite (dom N) \<Longrightarrow> N (new N) = None \<and> new N \<noteq> TEMP"
    and "int (length ops) \<le> INT_MAX"
  shows "\<exists>T t. tree_run new ops (TreeInitializeNoMalloc compare) = Some (Inr (fst (map_run key ops []), T)) \<and>
    tree_in T 0 t \<and> inorder t = snd (map_run key ops []) \<and> sorted_tree key t \<and>
    t_count T = int (length (inorder t)) \<and> t_size T = total_size (inorder t) \<and>
    (all_new key ops [] \<longrightarrow> red_black t \<and> 2 ^ height t \<le> Suc (length (inorder t)) ^ 2)"
proof -
  have "int (length (inorder Tip) + length ops) \<le> INT_MAX" using assms(3) by simp
  from ordered_by.run_ok [OF assms(1,2) ordered_by.empty_ok [OF assms(1)] this, unfolded inorder.simps]
  obtain T t where r: "tree_run new ops (TreeInitializeNoMalloc compare) = Some (Inr (fst (map_run key ops []), T))" "tree_map compare key T t"
    "inorder t = snd (map_run key ops [])" "all_new key ops [] \<and> red_black (Tip :: 'a rbt) \<longrightarrow> red_black t" by blast
  have "red_black (Tip :: 'a rbt)" by (simp add: red_black_def)
  with r tree_mapD [OF r(2)] red_black_height show ?thesis unfolding tree_in_def by blast
qed

definition fresh_node :: "'c store \<Rightarrow> nat" where
  "fresh_node N = Suc (Max (insert 0 (dom N)))"

lemma fresh_node_free: "finite (dom N) \<Longrightarrow> N (fresh_node N) = None \<and> fresh_node N \<noteq> TEMP"
proof -
  assume f: "finite (dom N)"
  have "N (fresh_node N) = None"
  proof (rule ccontr)
    assume "N (fresh_node N) \<noteq> None"
    then have "fresh_node N \<le> Max (insert 0 (dom N))" using f by (intro Max_ge) auto
    then show False by (simp add: fresh_node_def)
  qed
  then show ?thesis by (simp add: fresh_node_def TEMP_def)
qed

theorem tree_is_ordered_map_witness:
  "\<exists>T t. tree_run fresh_node [Add 7 8, Add 3 8, Add 5 4, Find 3, Remove_Key 7, Find 7] (TreeInitializeNoMalloc (compare_with TreeIntCompare)) =
      Some (Inr ([Some 7, Some 3, Some 5, Some 3, Some 7, None], T)) \<and>
    tree_in T 0 t \<and> inorder t = [(3, 8), (5, 4)] \<and> t_count T = 2 \<and> red_black t"
  using tree_is_ordered_map [OF int_order.ordered_by_axioms fresh_node_free, of "[Add 7 8, Add 3 8, Add 5 4, Find 3, Remove_Key 7, Find 7]"]
  by (auto simp: find_key_def drop_key_def INT_MAX_def simp del: tree_run.simps)

text \<open>
  Replacing a content rebalances around its node as if it were a new red leaf. Here the keys 1 to 6 are added and 6 is
  removed; the node 3 is black, its parent red. After 3 has been added again the red node 2 has the black child 1 and no
  other: the paths to the leaves have different numbers of black nodes.
\<close>

definition least_free :: "int store \<Rightarrow> nat" where
  "least_free N = (case find (\<lambda>a. Option.is_none (N a)) [1..<8] of None \<Rightarrow> 8 | Some a \<Rightarrow> a)"

definition layout :: "(int option list \<times> (int, int) Tree) res option \<Rightarrow> (nat option \<times> (nat option \<times> nat option \<times> bool) option list) option" where
  "layout r =
     (case r of
        Some (Inr (_, T)) \<Rightarrow> Some (roots T 0, map (\<lambda>a. map_option (\<lambda>n. (n_left n, n_right n, n_red n)) (nodes T a)) [1..<7])
      | _ \<Rightarrow> None)"

lemma replacing_unbalances:
  "layout (tree_run least_free [Add 1 8, Add 2 8, Add 3 8, Add 4 8, Add 5 8, Add 6 8, Remove_Key 6] (TreeInitializeNoMalloc (compare_with TreeIntCompare))) =
     Some (Some 2, [Some (None, None, False), Some (Some 1, Some 4, False), Some (None, None, False), Some (Some 3, Some 5, True), Some (None, None, False), None])"
  "layout (tree_run least_free [Add 1 8, Add 2 8, Add 3 8, Add 4 8, Add 5 8, Add 6 8, Remove_Key 6, Add 3 8] (TreeInitializeNoMalloc (compare_with TreeIntCompare))) =
     Some (Some 3, [Some (None, None, False), Some (Some 1, None, True), Some (Some 2, Some 4, False), Some (None, Some 5, True), Some (None, None, False), None])"
  by code_simp+

end
