(* ===== verification/Heap_Tracking.thy ===== *)
theory Heap_Tracking
  imports Tree_Map Persistence
begin

text \<open>
  The tracking of allocations in \<^verbatim>\<open>Heap.c\<close>: every block lies between two eyecatchers and has a record in a tree that is
  ordered by address. Blocks are lists of bytes at their addresses, which are unbounded and not null; the records are
  contents of the tree. Which of the allocations succeed, and the addresses of blocks and tree nodes, are inputs.
  Messages of the level \<^verbatim>\<open>LOG_ERROR\<close> are kept, traces are not; the mutex is left out. \<^verbatim>\<open>HEAP_STACK\<close> is not defined.
\<close>

section \<open>State\<close>

record storageElement =
  s_file :: string
  s_line :: int
  s_ptr :: nat
  s_size :: nat

datatype heap_note =
    Memory_error
  | Remove_failed string int
  | Realloc_failed string int
  | Bad_start string int
  | Bad_end string int
  | Free_null string int
  | Possible_leak
  | Scan_start int
  | Scan_element int int string nat "nat list"
  | Scan_end

record heap_state =
  h_tree :: "(storageElement, nat) Tree"
  h_blocks :: "nat \<rightharpoonup> nat list"
  current_size :: nat
  max_size :: nat
  h_log :: "heap_note list"

text \<open>The bytes of the \<^verbatim>\<open>double\<close> that \<^verbatim>\<open>0x8888888888888888\<close> is converted to.\<close>

definition eyecatcher :: "nat list" where
  "eyecatcher = [0x11, 0x11, 0x11, 0x11, 0x11, 0x11, 0xE1, 0x43]"

lemma length_eyecatcher [simp]: "length eyecatcher = 8"
  by (simp add: eyecatcher_def)

definition wrap_size :: "nat \<Rightarrow> nat" where
  "wrap_size n = nat (int n mod 2 ^ 64)"

definition minus_size :: "nat \<Rightarrow> nat \<Rightarrow> nat" where
  "minus_size n m = nat ((int n - int m) mod 2 ^ 64)"

text \<open>The address of the eyecatcher before a block. Below the address 8 the subtraction wraps around.\<close>

definition frame_start :: "nat \<Rightarrow> nat" where
  "frame_start p = (if p < 8 then p + 18446744073709551608 else p - 8)"

text \<open>The conversion of a \<^verbatim>\<open>size_t\<close> to \<^verbatim>\<open>int\<close>.\<close>

definition as_int :: "nat \<Rightarrow> int" where
  "as_int n = (let m = int n mod 4294967296 in if m < 2147483648 then m else m - 4294967296)"

lemma as_int_small: "n < 2147483648 \<Longrightarrow> as_int n = int n"
  by (simp add: as_int_def)

definition log_note :: "heap_note \<Rightarrow> heap_state \<Rightarrow> heap_state" where
  "log_note m H = H\<lparr>h_log := h_log H @ [m]\<rparr>"

lemma log_note_simps [simp]: "h_tree (log_note m H) = h_tree H" "h_blocks (log_note m H) = h_blocks H" "current_size (log_note m H) = current_size H" "max_size (log_note m H) = max_size H"
  by (simp_all add: log_note_def)

definition ptrCompare :: "storageElement \<Rightarrow> (storageElement, nat) sought \<Rightarrow> int" where
  "ptrCompare a q = (let b = (case q of Content x \<Rightarrow> s_ptr x | Key k \<Rightarrow> k) in if b < s_ptr a then - 1 else if s_ptr a = b then 0 else 1)"

interpretation heap_order: ordered_by ptrCompare s_ptr
  by unfold_locales (auto simp: ptrCompare_def Let_def)

definition Heap_initialize :: heap_state where
  "Heap_initialize = \<lparr>h_tree = TreeInitializeNoMalloc ptrCompare, h_blocks = Map.empty, current_size = 0, max_size = 0, h_log = []\<rparr>"

section \<open>Allocating and freeing\<close>

definition grow :: "nat \<Rightarrow> heap_state \<Rightarrow> heap_state" where
  "grow n H = (let cur = wrap_size (current_size H + n) in H\<lparr>current_size := cur, max_size := (if max_size H < cur then cur else max_size H)\<rparr>)"

text \<open>
  \<open>el\<close> and \<open>fl\<close>: the record and the copy of the file name can be allocated. \<open>block\<close> and \<open>node\<close>: what the allocator
  returns for the block of a sz, and for the node of the tree. The clearing of the file name clears the sz of a
  \<^verbatim>\<open>size_t\<close>.
\<close>

definition mymalloc ::
  "bool \<Rightarrow> bool \<Rightarrow> (nat \<Rightarrow> nat option) \<Rightarrow> (storageElement store \<Rightarrow> nat option) \<Rightarrow> string \<Rightarrow> int \<Rightarrow> nat \<Rightarrow> heap_state \<Rightarrow> (nat option \<times> heap_state) res option" where
  "mymalloc el fl block node file line sz0 H =
     (let sz = wrap_size (Heap_roundup sz0); filenamelen = length file + 1 in
      if \<not> el then Some (Inr (None, log_note Memory_error H))
      else if \<not> fl then Some (Inr (None, log_note Memory_error H))
      else if filenamelen < 8 then Some (Inl OverWrite)
      else
        (case block (wrap_size (sz + 16)) of
           None \<Rightarrow> Some (Inr (None, log_note Memory_error H))
         | Some a \<Rightarrow>
             if wrap_size (sz + 16) \<noteq> sz + 16 then Some (Inl OverWrite)
             else
               map_option (\<lambda>r. bindR r (\<lambda>(_, T).
                   Inr (Some (a + 8), grow sz (H\<lparr>h_tree := T, h_blocks := (h_blocks H)(a \<mapsto> eyecatcher @ replicate sz 0 @ eyecatcher)\<rparr>))))
                 (TreeAdd (\<lambda>_. node (nodes (h_tree H))) \<lparr>s_file = file, s_line = line, s_ptr = a, s_size = sz\<rparr> (int (wrap_size (32 + filenamelen + sz + 16))) (h_tree H))))"

definition checkEyecatchers :: "string \<Rightarrow> int \<Rightarrow> nat \<Rightarrow> nat \<Rightarrow> heap_state \<Rightarrow> heap_state res" where
  "checkEyecatchers file line p n H =
     (case h_blocks H (frame_start p) of
        None \<Rightarrow> Inl UseAfterFree
      | Some bs \<Rightarrow>
          guardR OverRead (n + 16 \<le> length bs)
            (let H1 = (if take 8 bs \<noteq> eyecatcher then log_note (Bad_start file line) H else H) in
             Inr (if take 8 (drop (8 + n) bs) \<noteq> eyecatcher then log_note (Bad_end file line) H1 else H1)))"

definition shrink :: "nat \<Rightarrow> heap_state \<Rightarrow> heap_state" where
  "shrink n H = H\<lparr>current_size := minus_size (current_size H) n\<rparr>"

definition element_at :: "nat option \<Rightarrow> heap_state \<Rightarrow> storageElement res" where
  "element_at p H = bindR (content_at p (nodes (h_tree H))) (\<lambda>c. case c of None \<Rightarrow> Inl NullDeref | Some s \<Rightarrow> Inr s)"

definition Internal_heap_unlink :: "string \<Rightarrow> int \<Rightarrow> nat \<Rightarrow> heap_state \<Rightarrow> (bool \<times> heap_state) res option" where
  "Internal_heap_unlink file line p H =
     (case TreeFind (frame_start p) (h_tree H) of
        None \<Rightarrow> None
      | Some (Inl f) \<Rightarrow> Some (Inl f)
      | Some (Inr None) \<Rightarrow> Some (Inr (False, log_note (Remove_failed file line) H))
      | Some (Inr e) \<Rightarrow>
          (case bindR (element_at e H) (\<lambda>s. bindR (checkEyecatchers file line p (s_size s) H) (\<lambda>H1. Inr (shrink (s_size s) H1))) of
             Inl f \<Rightarrow> Some (Inl f)
           | Inr H1 \<Rightarrow> map_option (\<lambda>r. bindR r (\<lambda>(_, T). Inr (True, H1\<lparr>h_tree := T\<rparr>))) (TreeRemoveNodeIndex e 0 (h_tree H1))))"

definition free_block :: "nat \<Rightarrow> heap_state \<Rightarrow> heap_state res" where
  "free_block a H = guardR UseAfterFree (h_blocks H a \<noteq> None) (Inr (H\<lparr>h_blocks := (h_blocks H)(a := None)\<rparr>))"

definition myfree :: "string \<Rightarrow> int \<Rightarrow> nat option \<Rightarrow> heap_state \<Rightarrow> heap_state res option" where
  "myfree file line q H =
     (case q of
        None \<Rightarrow> Some (Inr (log_note (Free_null file line) H))
      | Some p \<Rightarrow> map_option (\<lambda>r. bindR r (\<lambda>(rc, H1). if rc then free_block (frame_start p) H1 else Inr H1)) (Internal_heap_unlink file line p H))"

definition Heap_unlink :: "string \<Rightarrow> int \<Rightarrow> nat \<Rightarrow> heap_state \<Rightarrow> heap_state res option" where
  "Heap_unlink file line p H = map_option (\<lambda>r. bindR r (\<lambda>(_, H1). Inr H1)) (Internal_heap_unlink file line p H)"

text \<open>\<^verbatim>\<open>realloc\<close> keeps the first bytes of a block; the others are whatever \<open>junk\<close> is.\<close>

definition resized :: "(nat \<Rightarrow> nat) \<Rightarrow> nat \<Rightarrow> nat list \<Rightarrow> nat list" where
  "resized junk n bs = take n bs @ map junk [length bs..<n]"

lemma length_resized [simp]: "length (resized junk n bs) = n"
  by (simp add: resized_def)

text \<open>The second half, when the block has been moved to \<open>a\<close>.\<close>

definition realloc_tree :: "(storageElement store \<Rightarrow> nat option) \<Rightarrow> string \<Rightarrow> int \<Rightarrow> nat \<Rightarrow> nat \<Rightarrow> storageElement \<Rightarrow> heap_state \<Rightarrow> (nat option \<times> heap_state) res option" where
  "realloc_tree node file line a sz s H =
     (let space = wrap_size (minus_size (wrap_size (32 + minus_size (sz + 16) (s_size s))) (length (s_file s)) + (length file + 1)) in
      map_option (\<lambda>r. bindR r (\<lambda>(_, T). Inr (Some (a + 8), H\<lparr>h_tree := T\<rparr>)))
        (TreeAdd (\<lambda>_. node (nodes (h_tree H))) \<lparr>s_file = file, s_line = line, s_ptr = a, s_size = sz\<rparr> (int space) (h_tree H)))"

definition realloc_block :: "bool \<Rightarrow> (nat \<Rightarrow> nat option) \<Rightarrow> (nat \<Rightarrow> nat) \<Rightarrow> (storageElement store \<Rightarrow> nat option) \<Rightarrow> string \<Rightarrow> int \<Rightarrow> nat \<Rightarrow> storageElement \<Rightarrow> heap_state \<Rightarrow> (nat option \<times> heap_state) res option" where
  "realloc_block fl block junk node file line sz s H =
     (case (block (wrap_size (sz + 16)), h_blocks H (s_ptr s)) of
        (None, _) \<Rightarrow> Some (Inr (None, log_note Memory_error H))
      | (_, None) \<Rightarrow> Some (Inl UseAfterFree)
      | (Some a, Some bs) \<Rightarrow>
          if wrap_size (sz + 16) \<noteq> sz + 16 then Some (Inl OverWrite)
          else if \<not> fl then Some (Inl NullDeref)
          else
            realloc_tree node file line a sz s
              (H\<lparr>h_blocks := (h_blocks H)(s_ptr s := None, a \<mapsto> eyecatcher @ take sz (drop 8 (resized junk (sz + 16) bs)) @ eyecatcher)\<rparr>))"

definition myrealloc ::
  "bool \<Rightarrow> (nat \<Rightarrow> nat option) \<Rightarrow> (nat \<Rightarrow> nat) \<Rightarrow> (storageElement store \<Rightarrow> nat option) \<Rightarrow> string \<Rightarrow> int \<Rightarrow> nat \<Rightarrow> nat \<Rightarrow> heap_state \<Rightarrow> (nat option \<times> heap_state) res option" where
  "myrealloc fl block junk node file line p sz0 H =
     (case TreeRemoveKey (frame_start p) (h_tree H) of
        None \<Rightarrow> None
      | Some (Inl f) \<Rightarrow> Some (Inl f)
      | Some (Inr (None, T)) \<Rightarrow> Some (Inr (None, log_note (Realloc_failed file line) (H\<lparr>h_tree := T\<rparr>)))
      | Some (Inr (Some s, T)) \<Rightarrow>
          (case checkEyecatchers file line p (s_size s) (H\<lparr>h_tree := T\<rparr>) of
             Inl f \<Rightarrow> Some (Inl f)
           | Inr H1 \<Rightarrow>
               let sz = wrap_size (Heap_roundup sz0) in
               realloc_block fl block junk node file line sz s (grow (minus_size sz (s_size s)) H1)))"

definition Heap_findItem :: "nat \<Rightarrow> heap_state \<Rightarrow> storageElement option res option" where
  "Heap_findItem p H = map_option (\<lambda>r. bindR r (\<lambda>e. content_at e (nodes (h_tree H)))) (TreeFind (frame_start p) (h_tree H))"

section \<open>Scanning and dumping\<close>

text \<open>What \<^verbatim>\<open>%.*s\<close> prints: at most as many bytes as the precision says, up to a null byte; a negative precision counts as none.\<close>

definition printed :: "int \<Rightarrow> nat list \<Rightarrow> nat list res" where
  "printed precision bs =
     (if precision < 0 then guardR OverRead (0 \<in> set bs) (Inr (takeWhile (\<lambda>b. b \<noteq> 0) bs))
      else
        let n = nat precision in
        guardR OverRead (0 \<in> set (take n bs) \<or> n \<le> length bs) (Inr (takeWhile (\<lambda>b. b \<noteq> 0) (take n bs))))"

text \<open>The precision is the size of the block when the size recorded with the node is below ten, otherwise ten.\<close>

definition scan_note :: "heap_state \<Rightarrow> storageElement \<Rightarrow> int \<Rightarrow> heap_note res" where
  "scan_note H s space =
     (case h_blocks H (s_ptr s) of
        None \<Rightarrow> Inl UseAfterFree
      | Some bs \<Rightarrow>
          bindR (printed (if space < 10 then as_int (s_size s) else 10) (drop 8 bs))
            (\<lambda>c. Inr (Scan_element (as_int (s_size s)) (s_line s) (s_file s) (s_ptr s) c)))"

definition current_element :: "nat \<Rightarrow> heap_state \<Rightarrow> (storageElement \<times> int) res" where
  "current_element a H = bindR (node_at (Some a) (nodes (h_tree H))) (\<lambda>n. case n_content n of None \<Rightarrow> Inl NullDeref | Some s \<Rightarrow> Inr (s, n_size n))"

partial_function (option) scan_from :: "nat option \<Rightarrow> heap_state \<Rightarrow> heap_state res option" where
  "scan_from current H =
     (case TreeNextElement current (h_tree H) of
        None \<Rightarrow> None
      | Some (Inl f) \<Rightarrow> Some (Inl f)
      | Some (Inr None) \<Rightarrow> Some (Inr H)
      | Some (Inr (Some a)) \<Rightarrow>
          (case bindR (current_element a H) (\<lambda>(s, space). scan_note H s space) of
             Inl f \<Rightarrow> Some (Inl f)
           | Inr m \<Rightarrow> scan_from (Some a) (log_note m H)))"

definition HeapScan :: "heap_state \<Rightarrow> heap_state res option" where
  "HeapScan H = map_option (\<lambda>r. bindR r (\<lambda>H1. Inr (log_note Scan_end H1))) (scan_from None (log_note (Scan_start (as_int (current_size H))) H))"

definition Heap_terminate :: "heap_state \<Rightarrow> heap_state res option" where
  "Heap_terminate H = (if 20 < current_size H then HeapScan (log_note Possible_leak H) else Some (Inr H))"

definition Heap_get_info :: "heap_state \<Rightarrow> nat \<times> nat" where
  "Heap_get_info H = (current_size H, max_size H)"

text \<open>\<open>fwrite\<close> appends to the file; \<open>ok\<close> says whether the n-th call does.\<close>

definition le_bytes :: "nat \<Rightarrow> nat \<Rightarrow> nat list" where
  "le_bytes w n = map (\<lambda>i. nat (int n div 256 ^ i mod 256)) [0..<w]"

fun write_all :: "(nat \<Rightarrow> bool) \<Rightarrow> nat list list \<Rightarrow> nat \<times> nat list \<Rightarrow> int \<times> nat \<times> nat list" where
  "write_all ok [] out = (0, out)"
| "write_all ok (x # xs) (n, out) = (if ok n then write_all ok xs (Suc n, out @ x) else (- 1, Suc n, out))"

text \<open>\<open>str\<close> is the address of the string and the string. The length is a \<^verbatim>\<open>size_t\<close> of which four bytes are written.\<close>

definition HeapDumpString :: "(nat \<Rightarrow> bool) \<Rightarrow> (nat \<times> nat list) option \<Rightarrow> nat \<times> nat list \<Rightarrow> int \<times> nat \<times> nat list" where
  "HeapDumpString ok str out =
     (let (address, text) = (case str of None \<Rightarrow> (0, []) | Some (a, s) \<Rightarrow> (a, s @ [0])); len = length text in
      write_all ok ([le_bytes 8 address, le_bytes 4 len] @ (if 0 < len then [text] else [])) out)"

definition dump_element :: "(nat \<Rightarrow> bool) \<Rightarrow> storageElement \<Rightarrow> nat \<Rightarrow> heap_state \<Rightarrow> nat \<times> nat list \<Rightarrow> (int \<times> nat \<times> nat list) res" where
  "dump_element ok s space H out =
     (let (rc, out1) = write_all ok [le_bytes 8 (s_ptr s), le_bytes 8 space] out in
      if rc \<noteq> 0 then Inr (rc, out1)
      else
        (case h_blocks H (s_ptr s) of
           None \<Rightarrow> Inl UseAfterFree
         | Some bs \<Rightarrow> guardR OverRead (space \<le> length bs) (Inr (write_all ok [take space bs] out1))))"

partial_function (option) dump_from :: "(nat \<Rightarrow> bool) \<Rightarrow> nat option \<Rightarrow> heap_state \<Rightarrow> nat \<times> nat list \<Rightarrow> (int \<times> nat \<times> nat list) res option" where
  "dump_from ok current H out =
     (case TreeNextElement current (h_tree H) of
        None \<Rightarrow> None
      | Some (Inl f) \<Rightarrow> Some (Inl f)
      | Some (Inr None) \<Rightarrow> Some (Inr (0, out))
      | Some (Inr (Some a)) \<Rightarrow>
          (case bindR (current_element a H) (\<lambda>(s, space). dump_element ok s (nat space) H out) of
             Inl f \<Rightarrow> Some (Inl f)
           | Inr (rc, out1) \<Rightarrow> if rc = 0 then dump_from ok (Some a) H out1 else Some (Inr (rc, out1))))"

definition HeapDump :: "(nat \<Rightarrow> bool) \<Rightarrow> heap_state \<Rightarrow> nat \<times> nat list \<Rightarrow> (int \<times> nat \<times> nat list) res option" where
  "HeapDump ok H out = dump_from ok None H out"

lemmas heap_loops [code] = scan_from.simps dump_from.simps

section \<open>What is tracked\<close>

definition sizes :: "(storageElement \<times> int) list \<Rightarrow> nat" where
  "sizes xs = sum_list (map (s_size \<circ> fst) xs)"

definition addresses :: "(storageElement \<times> int) list \<Rightarrow> nat set" where
  "addresses xs = s_ptr ` fst ` set xs"

lemma sizes_put: "find_key s_ptr (s_ptr (fst x)) xs = None \<Longrightarrow> sizes (put_key s_ptr x xs) = s_size (fst x) + sizes xs"
  by (induction xs) (auto simp: sizes_def find_key_def split: if_split_asm)

lemma set_put: "find_key key (key (fst x)) xs = None \<Longrightarrow> set (put_key key x xs) = insert x (set xs)"
  by (induction xs) (auto simp: find_key_def split: if_split_asm)

lemma sizes_drop: "sorted_wrt (<) (map (s_ptr \<circ> fst) xs) \<Longrightarrow> find_key s_ptr k xs = Some c \<Longrightarrow> sizes xs = s_size c + sizes (drop_key s_ptr k xs)"
proof (induction xs)
  case (Cons y ys)
  show ?case
  proof (cases "s_ptr (fst y) = k")
    case True
    then have "k \<notin> s_ptr ` fst ` set ys" using Cons.prems(1) by auto
    then have "drop_key s_ptr k ys = ys" by (rule keys_out(2))
    with True Cons.prems(2) show ?thesis by (simp add: sizes_def find_key_def drop_key_def)
  next
    case False
    with Cons show ?thesis by (simp add: sizes_def find_key_def drop_key_def)
  qed
qed (simp add: find_key_def)

lemma find_key_member: "find_key key k xs = Some c \<Longrightarrow> \<exists>n. (c, n) \<in> set xs \<and> key c = k"
  by (induction xs) (auto simp: find_key_def split: if_split_asm)

lemma addresses_drop: "addresses (drop_key s_ptr k xs) = addresses xs - {k}"
  by (auto simp: addresses_def drop_key_def)

text \<open>The tree has a record for each block, of its size, and the sizes add up to what is reported.\<close>

definition blocks_ok :: "(nat \<rightharpoonup> nat list) \<Rightarrow> (storageElement \<times> int) list \<Rightarrow> bool" where
  "blocks_ok B xs \<longleftrightarrow> addresses xs = dom B \<and>
     (\<forall>x \<in> set xs. s_size (fst x) < 2 ^ 64 \<and> map_option length (B (s_ptr (fst x))) = Some (s_size (fst x) + 16))"

definition tracked_ok :: "heap_state \<Rightarrow> storageElement rbt \<Rightarrow> bool" where
  "tracked_ok H t \<longleftrightarrow>
     tree_map ptrCompare s_ptr (h_tree H) t \<and> red_black t \<and> blocks_ok (h_blocks H) (inorder t) \<and> current_size H = wrap_size (sizes (inorder t))"

lemma tracked_okD:
  assumes "tracked_ok H t"
  shows "tree_map ptrCompare s_ptr (h_tree H) t" "red_black t" "blocks_ok (h_blocks H) (inorder t)" "current_size H = wrap_size (sizes (inorder t))"
  using assms by (auto simp: tracked_ok_def)

lemma tracked_ok_note [simp]: "tracked_ok (log_note m H) t = tracked_ok H t"
  by (simp add: tracked_ok_def)

lemma blocks_ok_add:
  assumes "blocks_ok B xs" "B (s_ptr s) = None" "set ys = insert (s, sp) (set xs)" "length bs = s_size s + 16" "s_size s < 2 ^ 64"
  shows "blocks_ok (B(s_ptr s \<mapsto> bs)) ys"
proof -
  have "s_ptr (fst x) \<noteq> s_ptr s" if "x \<in> set xs" for x using assms(1,2) that by (auto simp: blocks_ok_def addresses_def domIff)
  with assms show ?thesis by (auto simp: blocks_ok_def addresses_def)
qed

lemma blocks_ok_drop: "blocks_ok B xs \<Longrightarrow> blocks_ok (B(k := None)) (drop_key s_ptr k xs)"
  by (auto simp: blocks_ok_def addresses_drop) (auto simp: drop_key_def)

lemma blocks_ok_found:
  assumes "blocks_ok B xs" "find_key s_ptr k xs = Some s"
  shows "s_ptr s = k \<and> s_size s < 2 ^ 64 \<and> (\<exists>bs. B k = Some bs \<and> length bs = s_size s + 16)"
  using find_key_member [OF assms(2)] assms(1) by (fastforce simp: blocks_ok_def)

lemma blocks_ok_none: "blocks_ok B xs \<Longrightarrow> find_key s_ptr k xs = None \<longleftrightarrow> B k = None"
  by (auto simp: blocks_ok_def addresses_def keys_out(1))

lemma track_add:
  assumes m: "tree_map ptrCompare s_ptr T t" "red_black t" and a: "find_key s_ptr (s_ptr s) (inorder t) = None"
    and new: "nodes T (new (nodes T)) = None" "new (nodes T) \<noteq> TEMP" "int (length (inorder t)) < INT_MAX"
  obtains T' t' where "TreeAdd (\<lambda>_. Some (new (nodes T))) s sp T = Some (Inr (Some s, T'))" "tree_map ptrCompare s_ptr T' t'" "red_black t'"
    "set (inorder t') = insert (s, sp) (set (inorder t))" "sizes (inorder t') = s_size s + sizes (inorder t)" "length (inorder t') \<le> Suc (length (inorder t))"
proof -
  have "t_count T < INT_MAX" using tree_mapD(8) [OF m(1)] new(3) by simp
  from heap_order.add_keeps [where new = "\<lambda>_. Some (new (nodes T))" and content = s and sz = sp, OF m(1) refl new(1,2) this]
  obtain T' t' where n: "TreeAdd (\<lambda>_. Some (new (nodes T))) s sp T = Some (Inr (Some s, T'))"
    "tree_map ptrCompare s_ptr T' t'" "inorder t' = put_key s_ptr (s, sp) (inorder t)" "find_key s_ptr (s_ptr s) (inorder t) = None \<Longrightarrow> red_black t \<Longrightarrow> red_black t'" by blast
  show thesis
    by (rule that [OF n(1,2)]) (use n(3,4) a m(2) set_put [of s_ptr "(s, sp)"] sizes_put [of "(s, sp)"] length_put [of s_ptr "(s, sp)"] in simp_all)
qed

lemma wrap_size_mod: "wrap_size n = n mod 2 ^ 64"
  by (simp add: wrap_size_def nat_mod_distrib)

lemma int_wrap: "int (wrap_size n) = int n mod 2 ^ 64" "int (minus_size n m) = (int n - int m) mod 2 ^ 64"
  by (simp_all add: wrap_size_def minus_size_def)

lemma wrap_add: "wrap_size (wrap_size m + n) = wrap_size (m + n)"
  unfolding wrap_size_mod by (rule mod_add_left_eq)

lemma wrap_sub: "minus_size (wrap_size (n + m)) n = wrap_size m" "wrap_size (wrap_size (n + m) + minus_size k n) = wrap_size (m + k)"
proof -
  have "int (minus_size (wrap_size (n + m)) n) = int (wrap_size m)" unfolding int_wrap by (simp add: mod_diff_left_eq)
  then show "minus_size (wrap_size (n + m)) n = wrap_size m" by simp
  have "int (wrap_size (wrap_size (n + m) + minus_size k n)) = int (wrap_size (m + k))" unfolding int_wrap of_nat_add mod_add_eq by (simp add: algebra_simps)
  then show "wrap_size (wrap_size (n + m) + minus_size k n) = wrap_size (m + k)" by simp
qed

lemma wrap_small: "n < 2 ^ 64 \<Longrightarrow> wrap_size n = n"
  by (simp add: wrap_size_mod)

lemma check_ok:
  assumes "h_blocks H (frame_start p) = Some bs" "n + 16 \<le> length bs"
  obtains H1 where "checkEyecatchers file line p n H = Inr H1" "h_tree H1 = h_tree H" "h_blocks H1 = h_blocks H" "current_size H1 = current_size H" "max_size H1 = max_size H"
  using assms that by (simp add: checkEyecatchers_def Let_def)

section \<open>Each operation\<close>

lemma mymalloc_ok:
  assumes ok: "tracked_ok H t" and a: "block (Heap_roundup n + 16) = Some a" "h_blocks H a = None" and len: "7 \<le> length file" "Heap_roundup n + 16 < 2 ^ 64"
    and new: "nodes (h_tree H) (new (nodes (h_tree H))) = None" "new (nodes (h_tree H)) \<noteq> TEMP" "int (length (inorder t)) < INT_MAX"
  obtains H' t' where "mymalloc True True block (\<lambda>N. Some (new N)) file line n H = Some (Inr (Some (a + 8), H'))" "tracked_ok H' t'"
    "h_blocks H' = (h_blocks H)(a \<mapsto> eyecatcher @ replicate (Heap_roundup n) 0 @ eyecatcher)" "length (inorder t') \<le> Suc (length (inorder t))"
proof -
  let ?n = "Heap_roundup n" and ?bs = "eyecatcher @ replicate (Heap_roundup n) 0 @ eyecatcher"
  let ?s = "\<lparr>s_file = file, s_line = line, s_ptr = a, s_size = ?n\<rparr>"
  note d = tracked_okD [OF ok]
  have sz: "wrap_size ?n = ?n" "wrap_size (?n + 16) = ?n + 16" using len(2) by (simp_all add: wrap_small)
  have "find_key s_ptr (s_ptr ?s) (inorder t) = None" using blocks_ok_none [OF d(3)] a(2) by simp
  from track_add [where new = new and s = ?s and sp = "int (wrap_size (32 + (length file + 1) + ?n + 16))", OF d(1,2) this new]
  obtain T' t' where n: "TreeAdd (\<lambda>_. Some (new (nodes (h_tree H)))) ?s (int (wrap_size (32 + (length file + 1) + ?n + 16))) (h_tree H) = Some (Inr (Some ?s, T'))"
    "tree_map ptrCompare s_ptr T' t'" "red_black t'" "set (inorder t') = insert (?s, int (wrap_size (32 + (length file + 1) + ?n + 16))) (set (inorder t))"
    "sizes (inorder t') = s_size ?s + sizes (inorder t)" "length (inorder t') \<le> Suc (length (inorder t))" by blast
  let ?H = "grow ?n (H\<lparr>h_tree := T', h_blocks := (h_blocks H)(a \<mapsto> ?bs)\<rparr>)"
  have "mymalloc True True block (\<lambda>N. Some (new N)) file line n H = Some (Inr (Some (a + 8), ?H))"
    using n(1) a(1) len by (simp add: mymalloc_def Let_def sz)
  moreover have "blocks_ok ((h_blocks H)(a \<mapsto> ?bs)) (inorder t')" using blocks_ok_add [OF d(3) _ n(4), of ?bs] a(2) len(2) by simp
  then have "tracked_ok ?H t'" using n(2,3,5) d(4) wrap_add by (simp add: tracked_ok_def grow_def Let_def add.commute)
  moreover have "h_blocks ?H = (h_blocks H)(a \<mapsto> ?bs)" by (simp add: grow_def Let_def)
  ultimately show thesis using n(6) by (rule that)
qed

lemma unlink_missing:
  assumes "tracked_ok H t" "h_blocks H (frame_start p) = None"
  shows "Internal_heap_unlink file line p H = Some (Inr (False, log_note (Remove_failed file line) H))"
proof -
  note d = tracked_okD [OF assms(1)]
  have none: "find_key s_ptr (frame_start p) (inorder t) = None" using blocks_ok_none [OF d(3)] assms(2) by simp
  from heap_order.remove_at_key [OF d(1)] obtain q where "TreeFindIndex1 (Key (frame_start p)) 0 (h_tree H) = Some (Inr q)" "q = None \<longleftrightarrow> find_key s_ptr (frame_start p) (inorder t) = None" by metis
  with none show ?thesis by (simp add: Internal_heap_unlink_def TreeFind_def TreeFindIndex_def)
qed

lemma unlink_found:
  assumes "tracked_ok H t" "h_blocks H (frame_start p) = Some bs"
  obtains H' t' where "Internal_heap_unlink file line p H = Some (Inr (True, H'))" "tree_map ptrCompare s_ptr (h_tree H') t'" "red_black t'"
    "inorder t' = drop_key s_ptr (frame_start p) (inorder t)" "h_blocks H' = h_blocks H" "current_size H' = wrap_size (sizes (inorder t'))"
proof -
  note d = tracked_okD [OF assms(1)]
  from assms(2) blocks_ok_none [OF d(3)] obtain s where s: "find_key s_ptr (frame_start p) (inorder t) = Some s" by fastforce
  from blocks_ok_found [OF d(3) s] assms(2) have k: "s_ptr s = frame_start p" "s_size s < 2 ^ 64" "length bs = s_size s + 16" by auto
  from heap_order.remove_at_key [OF d(1)] obtain q T' t' where n: "TreeFindIndex1 (Key (frame_start p)) 0 (h_tree H) = Some (Inr q)"
    "(if q = None then Some (Inr (None, h_tree H)) else TreeRemoveNodeIndex q 0 (h_tree H)) = Some (Inr (find_key s_ptr (frame_start p) (inorder t), T'))"
    "tree_map ptrCompare s_ptr T' t'" "inorder t' = drop_key s_ptr (frame_start p) (inorder t)" "red_black t \<Longrightarrow> red_black t'"
    "q = None \<longleftrightarrow> find_key s_ptr (frame_start p) (inorder t) = None" by metis
  from n(6) s obtain e where e: "q = Some e" by auto
  from heap_order.find_content [OF d(1), of "frame_start p"] n(1) have "content_at q (nodes (h_tree H)) = Inr (Some s)" using s by (auto simp: TreeFind_def TreeFindIndex_def)
  then have el: "element_at (Some e) H = Inr s" using e by (simp add: element_at_def)
  obtain H1 where c: "checkEyecatchers file line p (s_size s) H = Inr H1" "h_tree H1 = h_tree H" "h_blocks H1 = h_blocks H" "current_size H1 = current_size H"
    using check_ok [OF assms(2), of "s_size s"] k(3) by (metis order_refl)
  let ?H = "shrink (s_size s) H1\<lparr>h_tree := T'\<rparr>"
  have run: "Internal_heap_unlink file line p H = Some (Inr (True, ?H))"
    using n(1,2) e el c by (simp add: Internal_heap_unlink_def TreeFind_def TreeFindIndex_def shrink_def)
  have sum: "sizes (inorder t) = s_size s + sizes (inorder t')" using sizes_drop [OF _ s] tree_mapD(2) [OF d(1)] n(4) by (simp add: sorted_tree_def)
  have "current_size ?H = minus_size (current_size H1) (s_size s)" by (simp add: shrink_def)
  also have "\<dots> = wrap_size (sizes (inorder t'))" unfolding c(4) d(4) sum by (rule wrap_sub)
  finally show thesis using that [OF run] n(3-5) d(2) c(3) by (simp add: shrink_def)
qed

lemma myfree_ok:
  assumes ok: "tracked_ok H t"
  obtains H' t' where "myfree file line q H = Some (Inr H')" "tracked_ok H' t'" "length (inorder t') \<le> length (inorder t)"
    "h_blocks H' = (case q of None \<Rightarrow> h_blocks H | Some p \<Rightarrow> (h_blocks H)(frame_start p := None))"
proof (cases q)
  case None
  with ok that [of "log_note (Free_null file line) H" t] show thesis by (simp add: myfree_def)
next
  case (Some p)
  show thesis
  proof (cases "h_blocks H (frame_start p)")
    case None
    with Some ok unlink_missing [OF ok None] that [of "log_note (Remove_failed file line) H" t] show thesis by (simp add: myfree_def fun_upd_idem)
  next
    case b: (Some bs)
    from unlink_found [OF ok b] obtain H1 t' where n: "Internal_heap_unlink file line p H = Some (Inr (True, H1))" "tree_map ptrCompare s_ptr (h_tree H1) t'" "red_black t'"
      "inorder t' = drop_key s_ptr (frame_start p) (inorder t)" "h_blocks H1 = h_blocks H" "current_size H1 = wrap_size (sizes (inorder t'))" by blast
    let ?H = "H1\<lparr>h_blocks := (h_blocks H1)(frame_start p := None)\<rparr>"
    have "myfree file line q H = Some (Inr ?H)" using n(1,5) b Some by (simp add: myfree_def free_block_def)
    moreover have "tracked_ok ?H t'" using n(2,3,5,6) blocks_ok_drop [OF tracked_okD(3) [OF ok]] n(4) by (simp add: tracked_ok_def)
    ultimately show thesis using that [of ?H t'] n(4,5) Some by (simp add: drop_key_def)
  qed
qed

lemma myrealloc_missing:
  assumes ok: "tracked_ok H t" "h_blocks H (frame_start p) = None"
    and new: "nodes (h_tree H) (new (nodes (h_tree H))) = None" "new (nodes (h_tree H)) \<noteq> TEMP" "int (length (inorder t)) < INT_MAX"
  obtains H' t' where "myrealloc fl block junk node file line p n H = Some (Inr (None, H'))" "tracked_ok H' t'" "h_blocks H' = h_blocks H" "inorder t' = inorder t"
proof -
  note d = tracked_okD [OF ok(1)]
  have none: "find_key s_ptr (frame_start p) (inorder t) = None" using blocks_ok_none [OF d(3)] ok(2) by simp
  then have drop: "drop_key s_ptr (frame_start p) (inorder t) = inorder t" by (simp add: keys_out)
  have "t_count (h_tree H) < INT_MAX" using tree_mapD(8) [OF d(1)] new(3) by simp
  from heap_order.step_ok [where new = new and x = "Remove_Key (frame_start p)", OF d(1) new(1,2) this]
  obtain T' t' where n: "TreeRemoveKey (frame_start p) (h_tree H) = Some (Inr (None, T'))" "tree_map ptrCompare s_ptr T' t'"
    "inorder t' = inorder t" "red_black t'" using none drop d(2) by auto
  let ?H = "log_note (Realloc_failed file line) (H\<lparr>h_tree := T'\<rparr>)"
  have "tracked_ok ?H t'" using n(2-4) d by (simp add: tracked_ok_def)
  then show thesis using that [of ?H t'] n(1,3) by (simp add: myrealloc_def)
qed

text \<open>A law of the allocator for the nodes: their addresses are not in use.\<close>

definition fresh_nodes :: "('c store \<Rightarrow> nat) \<Rightarrow> bool" where
  "fresh_nodes new \<longleftrightarrow> (\<forall>N. finite (dom N) \<longrightarrow> N (new N) = None \<and> new N \<noteq> TEMP)"

lemma fresh_nodes_at: "fresh_nodes new \<Longrightarrow> tree_map compare key T t \<Longrightarrow> nodes T (new (nodes T)) = None \<and> new (nodes T) \<noteq> TEMP"
  using tree_mapD(6) [of compare key T t] by (simp add: fresh_nodes_def)

definition moved :: "(nat \<Rightarrow> nat) \<Rightarrow> nat \<Rightarrow> nat list \<Rightarrow> nat list" where
  "moved junk n bs = eyecatcher @ take n (drop 8 (resized junk (n + 16) bs)) @ eyecatcher"

lemma length_moved [simp]: "length (moved junk n bs) = n + 16"
  by (simp add: moved_def)

lemma realloc_tree_ok:
  assumes t: "tree_map ptrCompare s_ptr (h_tree H) t" "red_black t" "blocks_ok B (inorder t)" "B a = None" "h_blocks H = B(a \<mapsto> bs)" "length bs = n + 16" "n < 2 ^ 64"
    and cur: "current_size H = wrap_size (sizes (inorder t) + n)" and new: "fresh_nodes new" "int (length (inorder t)) < INT_MAX"
  obtains H' t' where "realloc_tree (\<lambda>N. Some (new N)) file line a n s H = Some (Inr (Some (a + 8), H'))" "tracked_ok H' t'" "h_blocks H' = h_blocks H"
    "length (inorder t') \<le> Suc (length (inorder t))"
proof -
  let ?s = "\<lparr>s_file = file, s_line = line, s_ptr = a, s_size = n\<rparr>"
  let ?sp = "int (wrap_size (minus_size (wrap_size (32 + minus_size (n + 16) (s_size s))) (length (s_file s)) + (length file + 1)))"
  note free = fresh_nodes_at [OF new(1) t(1)]
  have "find_key s_ptr (s_ptr ?s) (inorder t) = None" using blocks_ok_none [OF t(3)] t(4) by simp
  from track_add [where new = new and s = ?s and sp = ?sp, OF t(1,2) this conjunct1 [OF free] conjunct2 [OF free] new(2)]
  obtain T' t' where m: "TreeAdd (\<lambda>_. Some (new (nodes (h_tree H)))) ?s ?sp (h_tree H) = Some (Inr (Some ?s, T'))"
    "tree_map ptrCompare s_ptr T' t'" "red_black t'" "set (inorder t') = insert (?s, ?sp) (set (inorder t))"
    "sizes (inorder t') = s_size ?s + sizes (inorder t)" "length (inorder t') \<le> Suc (length (inorder t))" by blast
  have "realloc_tree (\<lambda>N. Some (new N)) file line a n s H = Some (Inr (Some (a + 8), H\<lparr>h_tree := T'\<rparr>))" unfolding realloc_tree_def Let_def m(1) by simp
  moreover have "blocks_ok (B(a \<mapsto> bs)) (inorder t')" using blocks_ok_add [OF t(3) _ m(4), of bs] t(4,6,7) by simp
  then have "tracked_ok (H\<lparr>h_tree := T'\<rparr>) t'" using m(2,3,5) t(5) cur by (simp add: tracked_ok_def add.commute)
  ultimately show thesis using that [of "H\<lparr>h_tree := T'\<rparr>" t'] m(6) by simp
qed

lemma myrealloc_found:
  assumes ok: "tracked_ok H t" "h_blocks H (frame_start p) = Some bs"
    and a: "block (Heap_roundup n + 16) = Some a" "((h_blocks H)(frame_start p := None)) a = None" "Heap_roundup n + 16 < 2 ^ 64"
    and new: "fresh_nodes new" "int (length (inorder t)) < INT_MAX"
  obtains H' t' where "myrealloc True block junk (\<lambda>N. Some (new N)) file line p n H = Some (Inr (Some (a + 8), H'))" "tracked_ok H' t'"
    "h_blocks H' = (h_blocks H)(frame_start p := None, a \<mapsto> moved junk (Heap_roundup n) bs)" "length (inorder t') \<le> Suc (length (inorder t))"
proof -
  note d = tracked_okD [OF ok(1)]
  let ?k = "frame_start p" and ?n = "Heap_roundup n"
  have sz: "wrap_size ?n = ?n" "wrap_size (?n + 16) = ?n + 16" using a(3) by (simp_all add: wrap_small)
  from ok(2) blocks_ok_none [OF d(3)] obtain s where s: "find_key s_ptr ?k (inorder t) = Some s" by fastforce
  from blocks_ok_found [OF d(3) s] ok(2) have k: "s_ptr s = ?k" "s_size s < 2 ^ 64" "length bs = s_size s + 16" by auto
  have "t_count (h_tree H) < INT_MAX" using tree_mapD(8) [OF d(1)] new(2) by simp
  from heap_order.step_ok [where new = new and x = "Remove_Key ?k", OF d(1) _ _ this] fresh_nodes_at [OF new(1) d(1)]
  obtain T1 t1 where n: "TreeRemoveKey ?k (h_tree H) = Some (Inr (Some s, T1))" "tree_map ptrCompare s_ptr T1 t1"
    "inorder t1 = drop_key s_ptr ?k (inorder t)" "red_black t1" using s d(2) by auto
  have "h_blocks (H\<lparr>h_tree := T1\<rparr>) ?k = Some bs" "s_size s + 16 \<le> length bs" using ok(2) k(3) by simp_all
  from check_ok [OF this] obtain H1 where c: "checkEyecatchers file line p (s_size s) (H\<lparr>h_tree := T1\<rparr>) = Inr H1" "h_tree H1 = T1" "h_blocks H1 = h_blocks H" "current_size H1 = current_size H"
    by (metis heap_state.select_convs(1,2,3) heap_state.simps(6,7,8) heap_state.surjective heap_state.update_convs(1))
  have sum: "sizes (inorder t) = s_size s + sizes (inorder t1)" using sizes_drop [OF _ s] tree_mapD(2) [OF d(1)] n(3) by (simp add: sorted_tree_def)
  let ?B = "(h_blocks H)(?k := None)"
  let ?H = "(grow (minus_size ?n (s_size s)) H1)\<lparr>h_blocks := ?B(a \<mapsto> moved junk ?n bs)\<rparr>"
  have "current_size ?H = wrap_size (current_size H1 + minus_size ?n (s_size s))" by (simp add: grow_def Let_def)
  also have "\<dots> = wrap_size (sizes (inorder t1) + ?n)" unfolding c(4) d(4) sum by (rule wrap_sub)
  finally have cur: "current_size ?H = wrap_size (sizes (inorder t1) + ?n)" .
  have short: "length (inorder t1) \<le> length (inorder t)" using n(3) by (simp add: drop_key_def)
  then have pre: "tree_map ptrCompare s_ptr (h_tree ?H) t1" "blocks_ok ?B (inorder t1)" "int (length (inorder t1)) < INT_MAX"
    using n(2,3) c(2) blocks_ok_drop [OF d(3)] new(2) by (simp_all add: grow_def Let_def)
  have lens: "h_blocks ?H = ?B(a \<mapsto> moved junk ?n bs)" "length (moved junk ?n bs) = ?n + 16" "?n < 2 ^ 64" using a(3) by simp_all
  from realloc_tree_ok [OF pre(1) n(4) pre(2) a(2) lens cur new(1) pre(3)]
  obtain H' t' where r: "realloc_tree (\<lambda>N. Some (new N)) file line a ?n s ?H = Some (Inr (Some (a + 8), H'))" "tracked_ok H' t'" "h_blocks H' = h_blocks ?H"
    "length (inorder t') \<le> Suc (length (inorder t1))" by blast
  have "realloc_block True block junk (\<lambda>N. Some (new N)) file line ?n s (grow (minus_size ?n (s_size s)) H1) = Some (Inr (Some (a + 8), H'))"
    using r(1) a(1,3) c(3) k(1) ok(2) sz(2) by (simp add: realloc_block_def moved_def grow_def Let_def)
  then have "myrealloc True block junk (\<lambda>N. Some (new N)) file line p n H = Some (Inr (Some (a + 8), H'))"
    using n(1) c(1) sz(1) by (simp add: myrealloc_def Let_def)
  moreover have "length (inorder t') \<le> Suc (length (inorder t))" using r(4) short by simp
  ultimately show thesis using that [of H' t'] r(2,3) by simp
qed

section \<open>Programs that use the heap\<close>

text \<open>
  The calls of a program. \<open>Malloc\<close> has the results of the three allocations that may fail. In \<^verbatim>\<open>myrealloc\<close> the
  allocations succeed. \<open>Store\<close> is the program writing a byte into its block.
\<close>

datatype heap_op = Malloc string int nat bool bool bool | Free string int "nat option" | Realloc string int nat nat | Store nat nat nat

definition store_byte :: "nat \<Rightarrow> nat \<Rightarrow> nat \<Rightarrow> (nat \<rightharpoonup> nat list) \<Rightarrow> (nat \<rightharpoonup> nat list)" where
  "store_byte p i v B =
     (if p < 8 then B
      else case B (p - 8) of None \<Rightarrow> B | Some bs \<Rightarrow> if i + 16 < length bs then B(p - 8 \<mapsto> bs[i + 8 := v]) else B)"

text \<open>\<open>place\<close> is the address the allocator chooses for a block, given those in use.\<close>

fun heap_step ::
  "((nat \<rightharpoonup> nat list) \<Rightarrow> nat \<Rightarrow> nat) \<Rightarrow> (storageElement store \<Rightarrow> nat) \<Rightarrow> (nat \<Rightarrow> nat) \<Rightarrow> heap_op \<Rightarrow> heap_state \<Rightarrow> (nat option \<times> heap_state) res option" where
  "heap_step place new junk (Malloc f l n el fl bl) H =
     mymalloc el fl (\<lambda>k. if bl then Some (place (h_blocks H) k) else None) (\<lambda>N. Some (new N)) f l n H"
| "heap_step place new junk (Free f l q) H = map_option (\<lambda>r. bindR r (\<lambda>H1. Inr (None, H1))) (myfree f l q H)"
| "heap_step place new junk (Realloc f l p n) H =
     myrealloc True (\<lambda>k. Some (place ((h_blocks H)(frame_start p := None)) k)) junk (\<lambda>N. Some (new N)) f l p n H"
| "heap_step place new junk (Store p i v) H = Some (Inr (None, H\<lparr>h_blocks := store_byte p i v (h_blocks H)\<rparr>))"

fun heap_run ::
  "((nat \<rightharpoonup> nat list) \<Rightarrow> nat \<Rightarrow> nat) \<Rightarrow> (storageElement store \<Rightarrow> nat) \<Rightarrow> (nat \<Rightarrow> nat) \<Rightarrow> heap_op list \<Rightarrow> heap_state \<Rightarrow> (nat option list \<times> heap_state) res option" where
  "heap_run place new junk [] H = Some (Inr ([], H))"
| "heap_run place new junk (x # xs) H =
     (case heap_step place new junk x H of
        None \<Rightarrow> None
      | Some (Inl f) \<Rightarrow> Some (Inl f)
      | Some (Inr (p, H1)) \<Rightarrow> map_option (\<lambda>r. bindR r (\<lambda>(ps, H2). Inr (p # ps, H2))) (heap_run place new junk xs H1))"

text \<open>The results and the framed blocks of these calls, without the tree.\<close>

fun framed_step :: "((nat \<rightharpoonup> nat list) \<Rightarrow> nat \<Rightarrow> nat) \<Rightarrow> (nat \<Rightarrow> nat) \<Rightarrow> heap_op \<Rightarrow> (nat \<rightharpoonup> nat list) \<Rightarrow> nat option \<times> (nat \<rightharpoonup> nat list)" where
  "framed_step place junk (Malloc f l n el fl bl) B =
     (if el \<and> fl \<and> bl then
        let a = place B (Heap_roundup n + 16) in (Some (a + 8), B(a \<mapsto> eyecatcher @ replicate (Heap_roundup n) 0 @ eyecatcher))
      else (None, B))"
| "framed_step place junk (Free f l q) B = (None, case q of None \<Rightarrow> B | Some p \<Rightarrow> B(frame_start p := None))"
| "framed_step place junk (Realloc f l p n) B =
     (case B (frame_start p) of
        None \<Rightarrow> (None, B)
      | Some bs \<Rightarrow>
          let B1 = B(frame_start p := None); a = place B1 (Heap_roundup n + 16) in (Some (a + 8), B1(a \<mapsto> moved junk (Heap_roundup n) bs)))"
| "framed_step place junk (Store p i v) B = (None, store_byte p i v B)"

fun framed_run :: "((nat \<rightharpoonup> nat list) \<Rightarrow> nat \<Rightarrow> nat) \<Rightarrow> (nat \<Rightarrow> nat) \<Rightarrow> heap_op list \<Rightarrow> (nat \<rightharpoonup> nat list) \<Rightarrow> nat option list \<times> (nat \<rightharpoonup> nat list)" where
  "framed_run place junk [] B = ([], B)"
| "framed_run place junk (x # xs) B = (let (p, B1) = framed_step place junk x B; (ps, B2) = framed_run place junk xs B1 in (p # ps, B2))"

text \<open>Names of source files have seven characters or more, and no size comes near the end of the address space.\<close>

fun op_ok :: "heap_op \<Rightarrow> bool" where
  "op_ok (Malloc f l n el fl bl) \<longleftrightarrow> 7 \<le> length f \<and> n + 31 < 2 ^ 64"
| "op_ok (Free f l q) \<longleftrightarrow> True"
| "op_ok (Realloc f l p n) \<longleftrightarrow> n + 31 < 2 ^ 64"
| "op_ok (Store p i v) \<longleftrightarrow> True"

lemma roundup_bounds: "n \<le> Heap_roundup n" "Heap_roundup n \<le> n + 15"
proof -
  have "n mod 16 < 16" by simp
  then show "n \<le> Heap_roundup n" "Heap_roundup n \<le> n + 15" unfolding Heap_roundup_def by (auto simp del: mod_less_divisor)
qed

lemma roundup_fits: "n + 31 < 2 ^ 64 \<Longrightarrow> Heap_roundup n + 16 < 2 ^ 64"
  using roundup_bounds(2) [of n] by linarith

text \<open>No block begins in the last eight bytes of the 64-bit address space, which would not hold it.\<close>

definition block_start :: "nat \<Rightarrow> bool" where
  "block_start a \<longleftrightarrow> a < 18446744073709551608 \<or> 18446744073709551616 \<le> a"

definition fresh_blocks :: "((nat \<rightharpoonup> nat list) \<Rightarrow> nat \<Rightarrow> nat) \<Rightarrow> bool" where
  "fresh_blocks place \<longleftrightarrow> (\<forall>B n. finite (dom B) \<longrightarrow> B (place B n) = None \<and> block_start (place B n))"

lemma tracked_ok_finite: "tracked_ok H t \<Longrightarrow> finite (dom (h_blocks H))"
  by (metis List.finite_set addresses_def blocks_ok_def finite_imageI tracked_okD(3))

lemma malloc_step:
  assumes ok: "tracked_ok H t" and op: "op_ok (Malloc f l n el fl bl)" and laws: "fresh_blocks place" "fresh_nodes new" and few: "int (length (inorder t)) < INT_MAX"
  shows "\<exists>H' t'. heap_step place new junk (Malloc f l n el fl bl) H = Some (Inr (fst (framed_step place junk (Malloc f l n el fl bl) (h_blocks H)), H')) \<and> tracked_ok H' t' \<and>
    h_blocks H' = snd (framed_step place junk (Malloc f l n el fl bl) (h_blocks H)) \<and> length (inorder t') \<le> Suc (length (inorder t))"
proof (cases "el \<and> fl \<and> bl")
  case True
  have a: "h_blocks H (place (h_blocks H) (Heap_roundup n + 16)) = None" using laws(1) tracked_ok_finite [OF ok] by (simp add: fresh_blocks_def)
  note free = fresh_nodes_at [OF laws(2) tracked_okD(1) [OF ok]]
  from mymalloc_ok [where new = new and block = "\<lambda>k. Some (place (h_blocks H) k)", OF ok refl a _ _ conjunct1 [OF free] conjunct2 [OF free] few] op roundup_fits
  obtain H' t' where "mymalloc True True (\<lambda>k. Some (place (h_blocks H) k)) (\<lambda>N. Some (new N)) f l n H = Some (Inr (Some (place (h_blocks H) (Heap_roundup n + 16) + 8), H'))" "tracked_ok H' t'"
    "h_blocks H' = (h_blocks H)(place (h_blocks H) (Heap_roundup n + 16) \<mapsto> eyecatcher @ replicate (Heap_roundup n) 0 @ eyecatcher)" "length (inorder t') \<le> Suc (length (inorder t))"
    by (metis op_ok.simps(1))
  with True show ?thesis by (auto simp: Let_def)
next
  case False
  with op ok show ?thesis by (intro exI [of _ "log_note Memory_error H"] exI [of _ t]) (auto simp: mymalloc_def Let_def)
qed

lemma free_step:
  assumes ok: "tracked_ok H t"
  shows "\<exists>H' t'. heap_step place new junk (Free f l q) H = Some (Inr (fst (framed_step place junk (Free f l q) (h_blocks H)), H')) \<and> tracked_ok H' t' \<and>
    h_blocks H' = snd (framed_step place junk (Free f l q) (h_blocks H)) \<and> length (inorder t') \<le> Suc (length (inorder t))"
proof -
  from myfree_ok [OF ok] obtain H' t' where "myfree f l q H = Some (Inr H')" "tracked_ok H' t'" "length (inorder t') \<le> length (inorder t)"
    "h_blocks H' = (case q of None \<Rightarrow> h_blocks H | Some p \<Rightarrow> (h_blocks H)(frame_start p := None))" by blast
  then show ?thesis by (intro exI [of _ H'] exI [of _ t']) simp
qed

lemma realloc_step:
  assumes ok: "tracked_ok H t" and op: "op_ok (Realloc f l p n)" and laws: "fresh_blocks place" "fresh_nodes new" and few: "int (length (inorder t)) < INT_MAX"
  shows "\<exists>H' t'. heap_step place new junk (Realloc f l p n) H = Some (Inr (fst (framed_step place junk (Realloc f l p n) (h_blocks H)), H')) \<and> tracked_ok H' t' \<and>
    h_blocks H' = snd (framed_step place junk (Realloc f l p n) (h_blocks H)) \<and> length (inorder t') \<le> Suc (length (inorder t))"
proof (cases "h_blocks H (frame_start p)")
  case None
  note free = fresh_nodes_at [OF laws(2) tracked_okD(1) [OF ok]]
  let ?block = "\<lambda>k. Some (place ((h_blocks H)(frame_start p := None)) k)"
  from myrealloc_missing [where new = new, OF ok None conjunct1 [OF free] conjunct2 [OF free] few]
  obtain H' t' where "myrealloc True ?block junk (\<lambda>N. Some (new N)) f l p n H = Some (Inr (None, H'))" "tracked_ok H' t'" "h_blocks H' = h_blocks H" "inorder t' = inorder t" by blast
  with None show ?thesis by (intro exI [of _ H'] exI [of _ t']) simp
next
  case (Some bs)
  let ?B = "(h_blocks H)(frame_start p := None)"
  let ?a = "place ?B (Heap_roundup n + 16)"
  have "finite (dom ?B)" using tracked_ok_finite [OF ok] by simp
  then have a: "?B ?a = None" using laws(1) unfolding fresh_blocks_def by blast
  from myrealloc_found [where block = "\<lambda>k. Some (place ?B k)" and new = new, OF ok Some refl a _ laws(2) few] op roundup_fits
  obtain H' t' where "myrealloc True (\<lambda>k. Some (place ?B k)) junk (\<lambda>N. Some (new N)) f l p n H = Some (Inr (Some (?a + 8), H'))" "tracked_ok H' t'"
    "h_blocks H' = ?B(?a \<mapsto> moved junk (Heap_roundup n) bs)" "length (inorder t') \<le> Suc (length (inorder t))" by (metis op_ok.simps(3))
  with Some show ?thesis by (intro exI [of _ H'] exI [of _ t']) (simp add: Let_def)
qed

lemma blocks_ok_store:
  assumes "blocks_ok B xs"
  shows "blocks_ok (store_byte p i v B) xs"
  using assms by (auto simp: store_byte_def blocks_ok_def domIff split: option.splits)

lemma heap_step_ok:
  assumes "tracked_ok H t" "op_ok x" "fresh_blocks place" "fresh_nodes new" "int (length (inorder t)) < INT_MAX"
  shows "\<exists>H' t'. heap_step place new junk x H = Some (Inr (fst (framed_step place junk x (h_blocks H)), H')) \<and> tracked_ok H' t' \<and>
    h_blocks H' = snd (framed_step place junk x (h_blocks H)) \<and> length (inorder t') \<le> Suc (length (inorder t))"
proof (cases x)
  case (Malloc f l n el fl bl)
  show ?thesis unfolding Malloc by (rule malloc_step [OF assms(1) assms(2) [unfolded Malloc] assms(3-5)])
next
  case (Free f l q)
  show ?thesis unfolding Free by (rule free_step [OF assms(1)])
next
  case (Realloc f l p n)
  show ?thesis unfolding Realloc by (rule realloc_step [OF assms(1) assms(2) [unfolded Realloc] assms(3-5)])
next
  case (Store p i v)
  with assms(1) blocks_ok_store show ?thesis
    by (intro exI [of _ "H\<lparr>h_blocks := store_byte p i v (h_blocks H)\<rparr>"] exI [of _ t]) (simp add: tracked_ok_def)
qed

lemma heap_run_ok:
  assumes laws: "fresh_blocks place" "fresh_nodes new"
  shows "tracked_ok H t \<Longrightarrow> list_all op_ok ops \<Longrightarrow> int (length (inorder t) + length ops) \<le> INT_MAX \<Longrightarrow>
    \<exists>H' t'. heap_run place new junk ops H = Some (Inr (fst (framed_run place junk ops (h_blocks H)), H')) \<and> tracked_ok H' t' \<and>
      h_blocks H' = snd (framed_run place junk ops (h_blocks H))"
proof (induction ops arbitrary: H t)
  case (Cons x ops)
  have "op_ok x" "int (length (inorder t)) < INT_MAX" using Cons.prems(2,3) by simp_all
  from heap_step_ok [OF Cons.prems(1) this(1) laws this(2)] obtain H1 t1 where n: "heap_step place new junk x H = Some (Inr (fst (framed_step place junk x (h_blocks H)), H1))"
    "tracked_ok H1 t1" "h_blocks H1 = snd (framed_step place junk x (h_blocks H))" "length (inorder t1) \<le> Suc (length (inorder t))" by blast
  have "list_all op_ok ops" "int (length (inorder t1) + length ops) \<le> INT_MAX" using Cons.prems(2,3) n(4) by simp_all
  from Cons.IH [OF n(2) this] n(1,3) show ?case by (auto simp: split_beta Let_def)
qed auto

lemma heap_start_ok: "tracked_ok Heap_initialize Tip"
  using heap_order.empty_ok by (simp add: tracked_ok_def Heap_initialize_def red_black_def blocks_ok_def addresses_def sizes_def wrap_size_def)

section \<open>What the program sees\<close>

text \<open>
  The contract of \<^verbatim>\<open>malloc\<close>, \<^verbatim>\<open>free\<close> and \<^verbatim>\<open>realloc\<close>, over the blocks at the pointers that were given out: a new block is at
  least as large as was asked for, and a block that was reallocated begins with what the old one began with. A pointer that
  was not given out, or was freed, is ignored.
\<close>

inductive client :: "heap_op \<Rightarrow> nat option \<Rightarrow> (nat \<rightharpoonup> nat list) \<Rightarrow> (nat \<rightharpoonup> nat list) \<Rightarrow> bool" where
  new_block: "M p = None \<Longrightarrow> 0 < p \<Longrightarrow> n \<le> length bs \<Longrightarrow> client (Malloc f l n True True True) (Some p) M (M(p \<mapsto> bs))"
| no_memory: "\<not> (el \<and> fl \<and> bl) \<Longrightarrow> client (Malloc f l n el fl bl) None M M"
| free_null: "client (Free f l None) None M M"
| free_pointer: "client (Free f l (Some p)) None M (M(p := None))"
| resize: "M p = Some bs \<Longrightarrow> (M(p := None)) q = None \<Longrightarrow> 0 < q \<Longrightarrow> n \<le> length bs' \<Longrightarrow> take (min n (length bs)) bs' = take n bs \<Longrightarrow>
    client (Realloc f l p n) (Some q) M (M(p := None, q \<mapsto> bs'))"
| resize_unknown: "M p = None \<Longrightarrow> client (Realloc f l p n) None M M"
| store: "M p = Some bs \<Longrightarrow> i < length bs \<Longrightarrow> client (Store p i v) None M (M(p \<mapsto> bs[i := v]))"
| store_outside: "\<not> (\<exists>bs. M p = Some bs \<and> i < length bs) \<Longrightarrow> client (Store p i v) None M M"

inductive client_run :: "heap_op list \<Rightarrow> nat option list \<Rightarrow> (nat \<rightharpoonup> nat list) \<Rightarrow> (nat \<rightharpoonup> nat list) \<Rightarrow> bool" where
  done_all: "client_run [] [] M M"
| do_next: "client x p M M1 \<Longrightarrow> client_run xs ps M1 M2 \<Longrightarrow> client_run (x # xs) (p # ps) M M2"

inductive_cases client_run_NilE: "client_run [] ps M M'"
inductive_cases client_run_ConsE: "client_run (x # xs) ps M M'"
inductive_cases client_MallocE: "client (Malloc f l n el fl bl) p M M'"
inductive_cases client_FreeE: "client (Free f l q) p M M'"
inductive_cases client_StoreE: "client (Store p i v) q M M'"
inductive_cases client_ReallocE: "client (Realloc f l p n) q M M'"

text \<open>What lies between the eyecatchers, at the pointer behind the first of them.\<close>

definition between :: "nat list \<Rightarrow> nat list" where
  "between bs = take (length bs - 16) (drop 8 bs)"

definition contents :: "(nat \<rightharpoonup> nat list) \<Rightarrow> (nat \<rightharpoonup> nat list)" where
  "contents B p = (if p < 8 then None else map_option between (B (p - 8)))"

definition intact :: "nat list \<Rightarrow> bool" where
  "intact bs \<longleftrightarrow> 16 \<le> length bs \<and> take 8 bs = eyecatcher \<and> drop (length bs - 8) bs = eyecatcher"

definition frames_ok :: "(nat \<rightharpoonup> nat list) \<Rightarrow> bool" where
  "frames_ok B \<longleftrightarrow> finite (dom B) \<and> (\<forall>a bs. B a = Some bs \<longrightarrow> block_start a \<and> intact bs)"

lemma intact_eyes: "intact (eyecatcher @ bs @ eyecatcher)" "between (eyecatcher @ bs @ eyecatcher) = bs"
  by (simp_all add: intact_def between_def)

lemma length_between: "length (between bs) = length bs - 16"
  by (auto simp: between_def)

lemma frames_ok_none: "frames_ok B \<Longrightarrow> p < 8 \<Longrightarrow> B (frame_start p) = None"
  by (cases "B (frame_start p)") (fastforce simp: frames_ok_def frame_start_def block_start_def)+

lemma contents_block:
  assumes "frames_ok B"
  shows "contents B p = map_option between (B (frame_start p))"
proof (cases "p < 8")
  case True
  then have "B (frame_start p) = None" using assms by (simp add: frames_ok_none)
  with True show ?thesis by (simp add: contents_def)
qed (simp add: contents_def frame_start_def)

lemma contents_put: "contents (B(a \<mapsto> bs)) = (contents B)(a + 8 \<mapsto> between bs)"
  by (auto simp: contents_def fun_eq_iff)

lemma contents_drop:
  assumes "frames_ok B"
  shows "contents (B(frame_start p := None)) = (contents B)(p := None)"
proof (cases "p < 8")
  case True
  then have "B (frame_start p) = None" using assms by (simp add: frames_ok_none)
  with True show ?thesis by (auto simp: contents_def fun_eq_iff)
next
  case False
  then have "frame_start p = p - 8" by (simp add: frame_start_def)
  with False show ?thesis by (auto simp: contents_def fun_eq_iff)
qed

lemma frames_ok_put: "frames_ok B \<Longrightarrow> block_start a \<Longrightarrow> intact bs \<Longrightarrow> frames_ok (B(a \<mapsto> bs))"
  by (auto simp: frames_ok_def)

lemma frames_ok_drop: "frames_ok B \<Longrightarrow> frames_ok (B(a := None))"
  by (auto simp: frames_ok_def)

lemma placed:
  assumes "fresh_blocks place" "frames_ok B"
  shows "B (place B n) = None" "block_start (place B n)" "contents B (place B n + 8) = None"
  using assms by (auto simp: fresh_blocks_def frames_ok_def contents_def)

lemma between_moved:
  assumes "n \<le> m" "16 \<le> length bs"
  shows "intact (moved junk m bs)" "length (between (moved junk m bs)) = m"
    "take (min n (length (between bs))) (between (moved junk m bs)) = take n (between bs)"
proof -
  show "intact (moved junk m bs)" "length (between (moved junk m bs)) = m"
    by (simp_all add: moved_def intact_eyes)
  have "between (moved junk m bs) = take m (drop 8 (resized junk (m + 16) bs))" by (simp add: moved_def intact_eyes)
  moreover have "take k (drop 8 (resized junk (m + 16) bs)) = take k (drop 8 bs)" if "k \<le> m" "k + 16 \<le> length bs" for k
    using that by (simp add: resized_def take_drop)
  ultimately show "take (min n (length (between bs))) (between (moved junk m bs)) = take n (between bs)"
    using assms by (simp add: length_between between_def min_def)
qed

lemma store_step:
  assumes "frames_ok B"
  shows "client (Store p i v) None (contents B) (contents (store_byte p i v B)) \<and> frames_ok (store_byte p i v B)"
proof (cases "\<exists>bs. contents B p = Some bs \<and> i < length bs")
  case True
  then obtain bs where b: "\<not> p < 8" "B (p - 8) = Some bs" "i + 16 < length bs"
    by (auto simp: contents_def length_between split: if_splits)
  have fr: "intact bs" "block_start (p - 8)" using assms b(2) by (auto simp: frames_ok_def)
  have "between (bs[i + 8 := v]) = (between bs)[i := v]"
    using b(3) by (auto simp: between_def drop_update_swap take_update_swap)
  moreover have "intact (bs[i + 8 := v])" using fr(1) b(3) by (simp add: intact_def drop_update_cancel)
  moreover have "store_byte p i v B = B(p - 8 \<mapsto> bs[i + 8 := v])" using b by (simp add: store_byte_def)
  moreover have "contents B p = Some (between bs)" using b by (simp add: contents_def)
  ultimately show ?thesis
    using store [of "contents B" p "between bs" i v] b frames_ok_put [OF assms fr(2)]
    by (simp add: contents_put length_between)
next
  case False
  then have "store_byte p i v B = B"
    by (auto simp: store_byte_def contents_def length_between split: option.splits if_splits)
  with assms store_outside [where M = "contents B", OF False] show ?thesis by simp
qed

lemma framed_step_client:
  assumes "fresh_blocks place" "frames_ok B" "framed_step place junk x B = (p, B')"
  shows "client x p (contents B) (contents B') \<and> frames_ok B'"
proof (cases x)
  case (Malloc f l n el fl bl)
  note a = placed [OF assms(1,2), of "Heap_roundup n + 16"]
  from Malloc assms(2,3) show ?thesis
    using new_block [of "contents B", OF a(3)] frames_ok_put [OF assms(2) a(2)] roundup_bounds(1) [of n]
    by (auto simp: Let_def contents_put intact_eyes no_memory split: if_splits)
next
  case (Free f l q)
  with assms(2,3) show ?thesis
    by (auto simp: contents_drop free_null free_pointer frames_ok_drop split: option.splits)
next
  case (Realloc f l r n)
  show ?thesis
  proof (cases "B (frame_start r)")
    case None
    with Realloc assms(2,3) show ?thesis by (auto simp: contents_block intro: resize_unknown)
  next
    case (Some bs)
    let ?B = "B(frame_start r := None)" and ?m = "Heap_roundup n"
    note a = placed [OF assms(1) frames_ok_drop [OF assms(2)], of "frame_start r" "?m + 16"]
    have old: "contents B r = Some (between bs)" "16 \<le> length bs"
      using Some assms(2) by (auto simp: contents_block frames_ok_def intact_def)
    note m = between_moved [OF roundup_bounds(1) old(2), where junk = junk]
    have "p = Some (place ?B (?m + 16) + 8)" "B' = ?B(place ?B (?m + 16) \<mapsto> moved junk ?m bs)"
      using Realloc Some assms(3) by (auto simp: Let_def)
    with resize [of "contents B" r "between bs" "place ?B (?m + 16) + 8" n "between (moved junk ?m bs)" f l] old m a
      frames_ok_put [OF frames_ok_drop [OF assms(2)] a(2) m(1)] roundup_bounds(1) [of n] Realloc show ?thesis
      by (simp add: contents_put contents_drop [OF assms(2)])
  qed
next
  case (Store q i v)
  with store_step [OF assms(2), of q i v] assms(3) show ?thesis by auto
qed

lemma framed_run_client:
  assumes "fresh_blocks place"
  shows "frames_ok B \<Longrightarrow> framed_run place junk ops B = (ps, B') \<Longrightarrow> client_run ops ps (contents B) (contents B') \<and> frames_ok B'"
proof (induction ops arbitrary: B ps)
  case (Cons x ops)
  obtain p B1 where s: "framed_step place junk x B = (p, B1)" by fastforce
  with Cons.prems(2) obtain qs where "framed_run place junk ops B1 = (qs, B')" "ps = p # qs"
    by (auto simp: Let_def split: prod.splits)
  with framed_step_client [OF assms Cons.prems(1) s] Cons.IH show ?case by (auto intro: do_next)
qed (auto intro: done_all)

section \<open>The report of what is left\<close>

fun reported :: "heap_note \<Rightarrow> (int \<times> int \<times> string \<times> nat) option" where
  "reported (Scan_element n l f p _) = Some (n, l, f, p)"
| "reported _ = None"

lemma scan_note_log [simp]: "scan_note (H\<lparr>h_log := ms\<rparr>) s sp = scan_note H s sp"
  by (simp add: scan_note_def)

lemma scan_note_ok:
  assumes "blocks_ok (h_blocks H) xs" "x \<in> set xs" "2 \<le> s_size (fst x)" "s_size (fst x) < 2147483648"
  shows "\<exists>m. scan_note H (fst x) (snd x) = Inr m \<and> reported m = Some (int (s_size (fst x)), s_line (fst x), s_file (fst x), s_ptr (fst x))"
proof -
  obtain bs where bs: "h_blocks H (s_ptr (fst x)) = Some bs" "length bs = s_size (fst x) + 16" using assms(1,2) by (fastforce simp: blocks_ok_def)
  with assms(3,4) show ?thesis by (simp add: scan_note_def printed_def as_int_small Let_def)
qed

lemma element_in_order:
  assumes "tree_in T 0 t" "in_addrs t = xs @ a # ys" "h_tree H = T"
  shows "current_element a H = Inr (inorder t ! length xs)"
proof -
  let ?f = "\<lambda>a. map_option (\<lambda>n. (n_content n, n_size n)) (nodes T a)" and ?g = "\<lambda>x. Some (Some (fst x), snd x)"
  have eq: "map ?f (in_addrs t) = map ?g (inorder t)" using assms(1) content_in_order [of "nodes T" None t] by (simp add: tree_in_def Tree_Refine.holds_def)
  have "length (in_addrs t) = length (inorder t)" using arg_cong [OF eq, of length] by simp
  then have "length xs < length (inorder t)" using assms(2) by simp
  then have "map ?g (inorder t) ! length xs = ?g (inorder t ! length xs)" by simp
  moreover have "map ?f (in_addrs t) ! length xs = ?f a" using assms(2) by (simp add: nth_append)
  ultimately have "?f a = ?g (inorder t ! length xs)" using eq by simp
  with assms(3) show ?thesis by (auto simp: current_element_def)
qed

lemma scan_from_ok:
  assumes "tree_in T 0 t" "\<And>x. x \<in> set (inorder t) \<Longrightarrow> scan_note H (fst x) (snd x) = Inr (f x)" "h_tree H = T"
  shows "in_addrs t = xs @ ys \<Longrightarrow>
    scan_from (if xs = [] then None else Some (last xs)) (H\<lparr>h_log := ms\<rparr>) = Some (Inr (H\<lparr>h_log := ms @ map f (drop (length xs) (inorder t))\<rparr>))"
proof (induction ys arbitrary: xs ms)
  case Nil
  have "length (in_addrs t) = length (inorder t)" by (induction t) auto
  then have "length (inorder t) = length xs" using Nil by simp
  with next_element_ok [OF assms(1) [unfolded tree_in_def] Nil] assms(3) show ?case by (subst scan_from.simps) simp
next
  case (Cons a ys)
  let ?x = "inorder t ! length xs" and ?H = "H\<lparr>h_log := ms\<rparr>"
  have "length (in_addrs t) = length (inorder t)" by (induction t) auto
  then have len: "length xs < length (inorder t)" using Cons.prems by simp
  then have x: "scan_note H (fst ?x) (snd ?x) = Inr (f ?x)" using assms(2) by simp
  have "current_element a ?H = Inr ?x" using element_in_order [OF assms(1) Cons.prems] assms(3) by simp
  then have body: "bindR (current_element a ?H) (\<lambda>(s, space). scan_note ?H s space) = Inr (f ?x)" using x by (simp add: split_beta)
  have "scan_from (if xs = [] then None else Some (last xs)) ?H = scan_from (Some a) (H\<lparr>h_log := ms @ [f ?x]\<rparr>)"
    using next_element_ok [OF assms(1) [unfolded tree_in_def] Cons.prems] assms(3) body by (subst scan_from.simps) (simp add: log_note_def del: scan_note_log)
  also have "\<dots> = Some (Inr (H\<lparr>h_log := (ms @ [f ?x]) @ map f (drop (Suc (length xs)) (inorder t))\<rparr>))"
    using Cons.IH [of "xs @ [a]" "ms @ [f ?x]"] Cons.prems by simp
  finally show ?case using Cons_nth_drop_Suc [OF len, symmetric] by simp
qed

section \<open>Correctness\<close>

text \<open>
  C34: the tracked heap is a replacement of the plain one. Any sequence of \<^verbatim>\<open>mymalloc\<close>, \<^verbatim>\<open>myfree\<close> and \<^verbatim>\<open>myrealloc\<close> on a new
  heap, with writes of the program into its blocks in between, ends without a fault, and what the program sees at the
  pointers it is given is what \<^verbatim>\<open>malloc\<close>, \<^verbatim>\<open>free\<close> and \<^verbatim>\<open>realloc\<close> promise: a new block of at least the size asked for, the old
  contents after a reallocation, nothing after freeing. Freeing a pointer that was not given out, or twice, changes nothing
  but the log. All eyecatchers are intact. The tree has exactly one record for each block, with its size, and the size that
  is reported is the sum of these sizes. Any of the three allocations in \<^verbatim>\<open>mymalloc\<close> may fail; those of the tree nodes and of
  \<^verbatim>\<open>myrealloc\<close> succeed.\<close>
theorem tracking_transparent:
  assumes "fresh_blocks place" "fresh_nodes new" "list_all op_ok ops" "int (length ops) \<le> INT_MAX"
  shows "\<exists>ps H t. heap_run place new junk ops Heap_initialize = Some (Inr (ps, H)) \<and>
    client_run ops ps Map.empty (contents (h_blocks H)) \<and>
    (\<forall>a bs. h_blocks H a = Some bs \<longrightarrow> take 8 bs = eyecatcher \<and> drop (length bs - 8) bs = eyecatcher) \<and>
    tree_in (h_tree H) 0 t \<and> red_black t \<and> sorted_tree s_ptr t \<and>
    s_ptr ` fst ` set (inorder t) = dom (h_blocks H) \<and>
    (\<forall>x \<in> set (inorder t). map_option length (h_blocks H (s_ptr (fst x))) = Some (s_size (fst x) + 16)) \<and>
    current_size H = wrap_size (sizes (inorder t))"
proof -
  have "int (length (inorder (Tip :: storageElement rbt)) + length ops) \<le> INT_MAX" using assms(4) by simp
  from heap_run_ok [OF assms(1,2) heap_start_ok assms(3) this, of junk] obtain H t where
    r: "heap_run place new junk ops Heap_initialize = Some (Inr (fst (framed_run place junk ops Map.empty), H))" "tracked_ok H t"
    "h_blocks H = snd (framed_run place junk ops Map.empty)" by (auto simp: Heap_initialize_def)
  have "frames_ok Map.empty" "contents Map.empty = Map.empty" by (auto simp: frames_ok_def contents_def)
  then have c: "client_run ops (fst (framed_run place junk ops Map.empty)) Map.empty (contents (h_blocks H))" "frames_ok (h_blocks H)"
    using framed_run_client [OF assms(1), of Map.empty junk ops] r(3) by (metis prod.collapse)+
  note d = tracked_okD [OF r(2)]
  show ?thesis
    by (rule exI [of _ "fst (framed_run place junk ops Map.empty)"], rule exI [of _ H], rule exI [of _ t])
      (use r(1) c d tree_mapD [OF d(1)] in \<open>auto simp: tree_in_def blocks_ok_def addresses_def frames_ok_def intact_def\<close>)
qed

definition next_place :: "(nat \<rightharpoonup> nat list) \<Rightarrow> nat \<Rightarrow> nat" where
  "next_place B n = (let a = Suc (Max (insert 0 (dom B))) in if block_start a then a else a + 8)"

lemma next_place_fresh: "fresh_blocks next_place"
  unfolding fresh_blocks_def
proof (intro allI impI conjI)
  fix B :: "nat \<rightharpoonup> nat list" and n
  assume f: "finite (dom B)"
  show "B (next_place B n) = None"
  proof (rule ccontr)
    assume "B (next_place B n) \<noteq> None"
    then have "next_place B n \<le> Max (insert 0 (dom B))" using f by (intro Max_ge) auto
    then show False by (simp add: next_place_def Let_def split: if_splits)
  qed
  show "block_start (next_place B n)" by (auto simp: next_place_def Let_def block_start_def)
qed

lemma fresh_node_nodes: "fresh_nodes fresh_node"
  using fresh_node_free by (auto simp: fresh_nodes_def)

theorem tracking_transparent_witness:
  "\<exists>p bs H. heap_run next_place fresh_node (\<lambda>_. 0)
       [Malloc ''Clients.c'' 40 5 True True True, Malloc ''Clients.c'' 41 7 True False True, Free ''Clients.c'' 50 None] Heap_initialize =
     Some (Inr ([Some p, None, None], H)) \<and> contents (h_blocks H) = [p \<mapsto> bs] \<and> 5 \<le> length bs"
proof -
  let ?ops = "[Malloc ''Clients.c'' 40 5 True True True, Malloc ''Clients.c'' 41 7 True False True, Free ''Clients.c'' 50 None]"
  have "list_all op_ok ?ops" "int (length ?ops) \<le> INT_MAX" by (simp_all add: INT_MAX_def)
  from tracking_transparent [OF next_place_fresh fresh_node_nodes this, of "\<lambda>_. 0"] obtain ps H where
    r: "heap_run next_place fresh_node (\<lambda>_. 0) ?ops Heap_initialize = Some (Inr (ps, H))" "client_run ?ops ps Map.empty (contents (h_blocks H))" by auto
  from r(2) obtain p bs where "ps = [Some p, None, None]" "contents (h_blocks H) = [p \<mapsto> bs]" "5 \<le> length bs"
    by (auto elim!: client_run_ConsE client_run_NilE client_MallocE client_FreeE)
  with r(1) show ?thesis by blast
qed

text \<open>
  C35: at shutdown every block that is still allocated is reported once, in the order of the addresses, with its size and
  the place of its allocation, and the total is reported, provided that more than 20 bytes and less than 2 GB are left and
  no block is empty. (The sizes are converted to \<^verbatim>\<open>int\<close> for the message.)\<close>
theorem leaks_reported:
  assumes "tracked_ok H t" "20 < sizes (inorder t)" "sizes (inorder t) < 2147483648" "\<forall>x \<in> set (inorder t). 2 \<le> s_size (fst x)"
  shows "\<exists>ms. Heap_terminate H = Some (Inr (H\<lparr>h_log := h_log H @ [Possible_leak, Scan_start (int (sizes (inorder t)))] @ ms @ [Scan_end]\<rparr>)) \<and>
    map reported ms = map (\<lambda>x. Some (int (s_size (fst x)), s_line (fst x), s_file (fst x), s_ptr (fst x))) (inorder t)"
proof -
  note d = tracked_okD [OF assms(1)]
  have "s_size (fst x) < 2147483648" if "x \<in> set (inorder t)" for x
    using member_le_sum_list [of "s_size (fst x)" "map (s_size \<circ> fst) (inorder t)"] that assms(3) by (auto simp: sizes_def)
  then have "\<forall>x \<in> set (inorder t). \<exists>m. scan_note H (fst x) (snd x) = Inr m \<and> reported m = Some (int (s_size (fst x)), s_line (fst x), s_file (fst x), s_ptr (fst x))"
    using scan_note_ok [OF d(3)] assms(4) by blast
  then obtain f where f: "\<And>x. x \<in> set (inorder t) \<Longrightarrow> scan_note H (fst x) (snd x) = Inr (f x) \<and> reported (f x) = Some (int (s_size (fst x)), s_line (fst x), s_file (fst x), s_ptr (fst x))" by metis
  have tree: "tree_in (h_tree H) 0 t" using tree_mapD(1) [OF d(1)] by (simp add: tree_in_def)
  have cur: "current_size H = sizes (inorder t)" "as_int (current_size H) = int (sizes (inorder t))"
    using d(4) assms(3) by (simp_all add: wrap_small as_int_small)
  have "Heap_terminate H = Some (Inr (H\<lparr>h_log := h_log H @ [Possible_leak, Scan_start (int (sizes (inorder t)))] @ map f (inorder t) @ [Scan_end]\<rparr>))"
    using scan_from_ok [where xs = "[]" and f = f and H = H, OF tree _ refl] f assms(2) cur by (simp add: Heap_terminate_def HeapScan_def log_note_def)
  moreover have "map reported (map f (inorder t)) = map (\<lambda>x. Some (int (s_size (fst x)), s_line (fst x), s_file (fst x), s_ptr (fst x))) (inorder t)" using f by simp
  ultimately show ?thesis by blast
qed

lemma one_block:
  "\<exists>H t x. tracked_ok H t \<and> inorder t = [x] \<and> s_size (fst x) = 32 \<and> s_ptr (fst x) = 1"
proof -
  let ?ops = "[Malloc ''Clients.c'' 40 30 True True True]"
  have plain: "snd (framed_run next_place (\<lambda>_. 0) ?ops Map.empty) = [1 \<mapsto> eyecatcher @ replicate 32 0 @ eyecatcher]"
    by (simp add: next_place_def Let_def Heap_roundup_def block_start_def)
  have "list_all op_ok ?ops" "int (length (inorder (Tip :: storageElement rbt)) + length ?ops) \<le> INT_MAX" by (simp_all add: INT_MAX_def)
  from heap_run_ok [OF next_place_fresh fresh_node_nodes heap_start_ok this, of "\<lambda>_. 0"] plain
  obtain H t where h: "tracked_ok H t" "h_blocks H = [1 \<mapsto> eyecatcher @ replicate 32 0 @ eyecatcher]" by (auto simp: Heap_initialize_def)
  note d = tracked_okD [OF h(1)]
  have adr: "s_ptr ` fst ` set (inorder t) = {1}" using d(3) h(2) by (simp add: blocks_ok_def addresses_def)
  then obtain x ys where x: "inorder t = x # ys" by (cases "inorder t") auto
  have "s_ptr (fst y) = 1" if "y \<in> set (x # ys)" for y using adr x that by auto
  moreover have "sorted_wrt (<) (map (s_ptr \<circ> fst) (x # ys))" using tree_mapD(2) [OF d(1)] x by (simp add: sorted_tree_def)
  ultimately have "ys = []" "s_ptr (fst x) = 1" by (cases ys; simp)+
  moreover have "s_size (fst x) = 32" using d(3) h(2) x \<open>s_ptr (fst x) = 1\<close> by (simp add: blocks_ok_def)
  ultimately show ?thesis using h(1) x by blast
qed

theorem leaks_reported_witness:
  "\<exists>H m l f. Heap_terminate H = Some (Inr (H\<lparr>h_log := h_log H @ [Possible_leak, Scan_start 32, m, Scan_end]\<rparr>)) \<and> reported m = Some (32, l, f, 1)"
proof -
  obtain H t x where h: "tracked_ok H t" "inorder t = [x]" "s_size (fst x) = 32" "s_ptr (fst x) = 1" using one_block by blast
  have "sizes (inorder t) = 32" using h(2,3) by (simp add: sizes_def)
  with leaks_reported [OF h(1)] h(2,3) obtain ms where
    m: "Heap_terminate H = Some (Inr (H\<lparr>h_log := h_log H @ [Possible_leak, Scan_start 32] @ ms @ [Scan_end]\<rparr>))"
    "map reported ms = [Some (32, s_line (fst x), s_file (fst x), 1)]" using h(4) by force
  from m(2) obtain y where "ms = [y]" "reported y = Some (32, s_line (fst x), s_file (fst x), 1)" by auto
  with m(1) show ?thesis by auto
qed

section \<open>Defects\<close>

definition after :: "'a res option \<Rightarrow> ('a \<Rightarrow> 'b res option) \<Rightarrow> 'b res option" where
  "after m f = (case m of None \<Rightarrow> None | Some (Inl e) \<Rightarrow> Some (Inl e) | Some (Inr x) \<Rightarrow> f x)"

text \<open>A dump writes as many bytes of a block as are recorded with its node, which counts the record and the file name too.\<close>

lemma dump_overreads:
  "after (mymalloc True True (\<lambda>_. Some 64) (\<lambda>_. Some 1) ''Clients.c'' 40 5 Heap_initialize) (\<lambda>(p, H). HeapDump (\<lambda>_. True) H (0, [])) = Some (Inl OverRead)"
  by code_simp

text \<open>Ten bytes of an empty block are printed: its eyecatcher has eight.\<close>

lemma scan_overreads:
  "after (mymalloc True True (\<lambda>_. Some 64) (\<lambda>_. Some 1) ''Clients.c'' 40 0 Heap_initialize) (\<lambda>(p, H).
     after (mymalloc True True (\<lambda>_. Some 128) (\<lambda>_. Some 2) ''Clients.c'' 41 30 H) (\<lambda>(q, H1). after (Heap_terminate H1) (\<lambda>H2. Some (Inr (h_log H2))))) = Some (Inl OverRead)"
  by code_simp

text \<open>When the node cannot be allocated the caller gets a block that is not in the tree and can never be freed.\<close>

lemma untracked_never_freed:
  "after (mymalloc True True (\<lambda>_. Some 64) (\<lambda>_. None) ''Clients.c'' 40 5 Heap_initialize) (\<lambda>(p, H).
     after (myfree ''Clients.c'' 50 p H) (\<lambda>H1. Some (Inr (p, map_option length (h_blocks H1 64), current_size H1, h_log H1)))) =
   Some (Inr (Some 72, Some 32, 16, [Remove_failed ''Clients.c'' 50]))"
  by code_simp

text \<open>
  When a block cannot be enlarged its record is gone: the old block, still valid, can never be freed, and the size it
  should have had is counted.
\<close>

lemma failed_realloc_forgets:
  "after (mymalloc True True (\<lambda>_. Some 64) (\<lambda>_. Some 1) ''Clients.c'' 40 5 Heap_initialize) (\<lambda>(p, H).
     after (myrealloc True (\<lambda>_. None) (\<lambda>_. 0) (\<lambda>_. Some 2) ''Clients.c'' 45 72 100 H) (\<lambda>(q, H1).
     after (myfree ''Clients.c'' 50 p H1) (\<lambda>H2. Some (Inr (q, map_option length (h_blocks H2 64), current_size H2, h_log H2))))) =
   Some (Inr (None, Some 32, 112, [Memory_error, Remove_failed ''Clients.c'' 50]))"
  by code_simp

text \<open>The clearing of a short file name runs past its end.\<close>

lemma short_name_overwrites: "mymalloc True True block node ''a.c'' line n H = Some (Inl OverWrite)"
  by (simp add: mymalloc_def Let_def)

text \<open>Of a block of 2 GB the size is reported as a negative number.\<close>

lemma large_size_reported:
  "h_blocks H (s_ptr s) = Some bs \<Longrightarrow> s_size s = 2147483648 \<Longrightarrow> 18 \<le> length bs \<Longrightarrow>
   \<exists>c. scan_note H s 2147483705 = Inr (Scan_element (- 2147483648) (s_line s) (s_file s) (s_ptr s) c)"
  by (auto simp: scan_note_def printed_def as_int_def Let_def guardR_def)

end
