(* ===== verification/Sha1_Hash.thy ===== *)
theory Sha1_Hash
  imports Mqtt_Prelude
begin

unbundle bit_operations_syntax

text \<open>
  \<^verbatim>\<open>SHA1.c\<close>, the portable implementation, on a little-endian machine: sixteen words of the message schedule in the
  buffer of the context, a block at a time. Shown: for messages below half a gigabyte, in whatever pieces they are
  given, the digest is that of FIPS 180-4, which is written out as the reference.
\<close>

section \<open>Words and bytes\<close>

type_synonym regs = "32 word \<times> 32 word \<times> 32 word \<times> 32 word \<times> 32 word"

fun be32 :: "byte list \<Rightarrow> 32 word list" where
  "be32 (a # b # c # d # bs) = (push_bit 24 (ucast a) OR push_bit 16 (ucast b) OR push_bit 8 (ucast c) OR ucast d) # be32 bs"
| "be32 _ = []"

definition be_bytes4 :: "32 word \<Rightarrow> byte list" where
  "be_bytes4 w = [ucast (drop_bit 24 w), ucast (drop_bit 16 w), ucast (drop_bit 8 w), ucast w]"

definition ROTATE_LEFT32 :: "nat \<Rightarrow> 32 word \<Rightarrow> 32 word" where
  "ROTATE_LEFT32 n a = push_bit n a OR drop_bit (32 - n) a"

section \<open>The code\<close>

record SHA_CTX =
  c_h :: regs
  c_buffer :: "byte list"
  c_size :: nat
  c_total :: "32 word"

definition pad :: "byte list" where
  "pad = 0x80 # replicate 63 0"

text \<open>\<open>garbage\<close> is what the buffer holds before.\<close>

definition SHA1_Init :: "byte list \<Rightarrow> SHA_CTX" where
  "SHA1_Init garbage = \<lparr>c_h = (0x67452301, 0xEFCDAB89, 0x98BADCFE, 0x10325476, 0xC3D2E1F0), c_buffer = garbage, c_size = 0, c_total = 0\<rparr>"

definition expand :: "nat \<Rightarrow> 32 word list \<Rightarrow> 32 word list" where
  "expand i w =
     (if 16 \<le> i then
        w[i mod 16 := ROTATE_LEFT32 1 (w ! ((i + 13) mod 16) XOR w ! ((i + 8) mod 16) XOR w ! ((i + 2) mod 16) XOR w ! (i mod 16))]
      else w)"

definition mix :: "nat \<Rightarrow> 32 word \<Rightarrow> regs \<Rightarrow> 32 word" where
  "mix i x = (\<lambda>(b0, b1, b2, b3, b4).
     if i < 20 then ROTATE_LEFT32 5 b0 + ((b1 AND b2) OR (NOT b1 AND b3)) + b4 + x + 0x5A827999
     else if i < 40 then ROTATE_LEFT32 5 b0 + (b1 XOR b2 XOR b3) + b4 + x + 0x6ED9EBA1
     else if i < 60 then ROTATE_LEFT32 5 b0 + ((b1 AND b2) OR (b1 AND b3) OR (b2 AND b3)) + b4 + x + 0x8F1BBCDC
     else ROTATE_LEFT32 5 b0 + (b1 XOR b2 XOR b3) + b4 + x + 0xCA62C1D6)"

definition turn :: "32 word \<Rightarrow> regs \<Rightarrow> regs" where
  "turn tmp = (\<lambda>(b0, b1, b2, b3, b4). (tmp, b0, ROTATE_LEFT32 30 b1, b2, b3))"

definition sha_round :: "nat \<Rightarrow> 32 word list \<times> regs \<Rightarrow> 32 word list \<times> regs" where
  "sha_round i = (\<lambda>(w, blks). let w1 = expand i w in (w1, turn (mix i (w1 ! (i mod 16)) blks) blks))"

definition add_regs :: "regs \<Rightarrow> regs \<Rightarrow> regs" where
  "add_regs = (\<lambda>(a, b, c, d, e) (a', b', c', d', e'). (a + a', b + b', c + c', d + d', e + e'))"

definition SHA1_ProcessBlock :: "SHA_CTX \<Rightarrow> SHA_CTX" where
  "SHA1_ProcessBlock ctx =
     (let (w, blks) = fold sha_round [0..<80] (be32 (c_buffer ctx), c_h ctx) in
      ctx\<lparr>c_h := add_regs (c_h ctx) blks, c_buffer := concat (map (rev \<circ> be_bytes4) w)\<rparr>)"

lemma process_size [simp]: "c_size (SHA1_ProcessBlock ctx) = c_size ctx" "c_total (SHA1_ProcessBlock ctx) = c_total ctx"
  by (simp_all add: SHA1_ProcessBlock_def split_beta Let_def)

text \<open>Each round of the loop takes as much as fits into the buffer.\<close>

function SHA1_Update :: "SHA_CTX \<Rightarrow> byte list \<Rightarrow> SHA_CTX res" where
  "SHA1_Update ctx data =
     (if data = [] then Inr ctx
      else if 64 < c_size ctx then Inl OverWrite
      else
        let n = min (64 - c_size ctx) (length data);
            ctx1 = ctx\<lparr>c_buffer := take (c_size ctx) (c_buffer ctx) @ take n data @ drop (c_size ctx + n) (c_buffer ctx),
                       c_size := c_size ctx + n, c_total := c_total ctx + of_nat n\<rparr> in
        SHA1_Update (if c_size ctx1 = 64 then (SHA1_ProcessBlock ctx1)\<lparr>c_size := 0\<rparr> else ctx1) (drop n data))"
  by pat_completeness auto
termination
  by (relation "measure (\<lambda>(ctx, data). 2 * length data + (if c_size ctx = 64 then 1 else 0))") auto

declare SHA1_Update.simps [simp del]

definition htobe32 :: "32 word \<Rightarrow> 32 word" where
  "htobe32 w = hd (be32 (rev (be_bytes4 w)))"

definition swap_regs :: "regs \<Rightarrow> regs" where
  "swap_regs = (\<lambda>(a, b, c, d, e). (htobe32 a, htobe32 b, htobe32 c, htobe32 d, htobe32 e))"

text \<open>The number of bits is computed in the 32 bits of \<^verbatim>\<open>total\<close> before it is widened.\<close>

definition SHA1_Final :: "SHA_CTX \<Rightarrow> (byte list \<times> SHA_CTX) res" where
  "SHA1_Final ctx =
     (let total = (ucast (c_total ctx * 8) :: 64 word);
          pad_amount = (if c_size ctx < 56 then 56 - c_size ctx else 64 + 56 - c_size ctx) in
      bindR (SHA1_Update ctx (take pad_amount pad)) (\<lambda>ctx1.
      let ctx2 = SHA1_ProcessBlock (ctx1\<lparr>c_buffer := take 56 (c_buffer ctx1) @ be_bytes4 (ucast (drop_bit 32 total)) @ be_bytes4 (ucast total)\<rparr>) in
      Inr (case c_h ctx2 of (a, b, c, d, e) \<Rightarrow> (concat (map be_bytes4 [a, b, c, d, e]), ctx2\<lparr>c_h := swap_regs (c_h ctx2)\<rparr>))))"

fun update_all :: "SHA_CTX \<Rightarrow> byte list list \<Rightarrow> SHA_CTX res" where
  "update_all ctx [] = Inr ctx"
| "update_all ctx (d # ds) = bindR (SHA1_Update ctx d) (\<lambda>ctx1. update_all ctx1 ds)"

section \<open>The standard\<close>

text \<open>FIPS 180-4: the functions and constants of 4.1.1 and 4.2.1, the padding of 5.1.1, the computation of 6.1.2.\<close>

fun schedule :: "32 word list \<Rightarrow> nat \<Rightarrow> 32 word" where
  "schedule m t =
     (if t < 16 then m ! t
      else ROTATE_LEFT32 1 (schedule m (t - 3) XOR schedule m (t - 8) XOR schedule m (t - 14) XOR schedule m (t - 16)))"

declare schedule.simps [simp del]

definition Ch :: "32 word \<Rightarrow> 32 word \<Rightarrow> 32 word \<Rightarrow> 32 word" where
  "Ch x y z = (x AND y) XOR (NOT x AND z)"

definition Parity :: "32 word \<Rightarrow> 32 word \<Rightarrow> 32 word \<Rightarrow> 32 word" where
  "Parity x y z = x XOR y XOR z"

definition Maj :: "32 word \<Rightarrow> 32 word \<Rightarrow> 32 word \<Rightarrow> 32 word" where
  "Maj x y z = (x AND y) XOR (x AND z) XOR (y AND z)"

definition f_fun :: "nat \<Rightarrow> 32 word \<Rightarrow> 32 word \<Rightarrow> 32 word \<Rightarrow> 32 word" where
  "f_fun t = (if t < 20 then Ch else if t < 40 then Parity else if t < 60 then Maj else Parity)"

definition K_const :: "nat \<Rightarrow> 32 word" where
  "K_const t = (if t < 20 then 0x5A827999 else if t < 40 then 0x6ED9EBA1 else if t < 60 then 0x8F1BBCDC else 0xCA62C1D6)"

definition std_round :: "32 word list \<Rightarrow> nat \<Rightarrow> regs \<Rightarrow> regs" where
  "std_round m t = (\<lambda>(a, b, c, d, e).
     (ROTATE_LEFT32 5 a + f_fun t b c d + e + K_const t + schedule m t, a, ROTATE_LEFT32 30 b, c, d))"

definition compress :: "byte list \<Rightarrow> regs \<Rightarrow> regs" where
  "compress block H = add_regs (fold (std_round (be32 block)) [0..<80] H) H"

function blocks :: "byte list \<Rightarrow> byte list list" where
  "blocks bs = (if length bs < 64 then [] else take 64 bs # blocks (drop 64 bs))"
  by pat_completeness auto
termination by (relation "measure length") auto

declare blocks.simps [simp del]

definition padded :: "byte list \<Rightarrow> byte list" where
  "padded m = m @ 0x80 # replicate ((119 - length m mod 64) mod 64) 0 @
     be_bytes4 (of_nat (8 * length m div 2 ^ 32)) @ be_bytes4 (of_nat (8 * length m))"

definition sha1 :: "byte list \<Rightarrow> byte list" where
  "sha1 m =
     (case fold compress (blocks (padded m)) (0x67452301, 0xEFCDAB89, 0x98BADCFE, 0x10325476, 0xC3D2E1F0) of
        (a, b, c, d, e) \<Rightarrow> concat (map be_bytes4 [a, b, c, d, e]))"

section \<open>One block\<close>

lemma Ch_or: "(x AND y) OR (NOT x AND z) = Ch x y z"
  by (rule bit_eqI) (auto simp: Ch_def bit_simps)

lemma Maj_or: "(x AND y) OR (x AND z) OR (y AND z) = Maj x y z"
  by (rule bit_eqI) (auto simp: Maj_def bit_simps)

lemma mix_std: "turn (mix t (schedule m t) R) R = std_round m t R"
  by (cases R) (simp add: turn_def mix_def std_round_def f_fun_def K_const_def Ch_or Maj_or Parity_def)

text \<open>The last sixteen words of the schedule are in the buffer.\<close>

definition window :: "32 word list \<Rightarrow> nat \<Rightarrow> 32 word list \<Rightarrow> bool" where
  "window m i w \<longleftrightarrow> length w = 16 \<and> (\<forall>t. t < max i 16 \<and> max i 16 \<le> t + 16 \<longrightarrow> w ! (t mod 16) = schedule m t)"

lemma window_start: "length m = 16 \<Longrightarrow> window m 0 m"
  by (auto simp: window_def schedule.simps)

lemma window_at: "window m i w \<Longrightarrow> t < max i 16 \<Longrightarrow> max i 16 \<le> t + 16 \<Longrightarrow> w ! (t mod 16) = schedule m t"
  by (simp add: window_def)

lemma expand_window:
  assumes w: "window m i w"
  shows "window m (Suc i) (expand i w) \<and> expand i w ! (i mod 16) = schedule m i"
proof (cases "16 \<le> i")
  case False
  with w window_at [OF w, of i] show ?thesis by (auto simp: expand_def window_def max_def)
next
  case True
  have turned: "(i + (16 - k)) mod 16 = (i - k) mod 16" if "k \<le> 16" for k
  proof -
    have "i + (16 - k) = (i - k) + 16" using True that by simp
    then show ?thesis by simp
  qed
  have "(i + 13) mod 16 = (i - 3) mod 16" "(i + 8) mod 16 = (i - 8) mod 16" "(i + 2) mod 16 = (i - 14) mod 16" "i mod 16 = (i - 16) mod 16"
    using turned [of 3] turned [of 8] turned [of 14] turned [of 16] by simp_all
  moreover have "w ! ((i - k) mod 16) = schedule m (i - k)" if "0 < k" "k \<le> 16" for k using window_at [OF w, of "i - k"] True that by simp
  ultimately have new: "expand i w = w[i mod 16 := schedule m i]" using True by (simp add: expand_def schedule.simps [of m i])
  have len: "length w = 16" using w by (simp add: window_def)
  have "w[i mod 16 := schedule m i] ! (t mod 16) = schedule m t" if "t < Suc i" "Suc i \<le> t + 16" for t
  proof (cases "t = i")
    case False
    with that have d: "0 < i - t" "i - t < 16" by simp_all
    have "t mod 16 \<noteq> i mod 16"
    proof
      assume "t mod 16 = i mod 16"
      then have "16 dvd i - t" using that(1) by (metis less_Suc_eq_le mod_eq_dvd_iff_nat)
      with d show False by (auto dest: dvd_imp_le)
    qed
    with window_at [OF w, of t] that False True show ?thesis by simp
  qed (use len in simp)
  with True len new show ?thesis by (simp add: window_def)
qed

lemma rounds_std:
  assumes "length m = 16"
  shows "window m n (fst (fold sha_round [0..<n] (m, R))) \<and> snd (fold sha_round [0..<n] (m, R)) = fold (std_round m) [0..<n] R"
proof (induction n)
  case (Suc n)
  obtain w blks where f: "fold sha_round [0..<n] (m, R) = (w, blks)" by (cases "fold sha_round [0..<n] (m, R)")
  have up: "fold sha_round [0..<Suc n] (m, R) = (expand n w, turn (mix n (expand n w ! (n mod 16)) blks) blks)"
    using f by (simp only: upt_Suc_append le0 fold_append comp_apply fold.simps id_apply) (simp add: sha_round_def Let_def)
  have w: "window m n w" and b: "blks = fold (std_round m) [0..<n] R" using Suc f by simp_all
  from expand_window [OF w] show ?case unfolding up b [symmetric] using b by (simp add: mix_std)
qed (simp add: window_start assms)

lemma length_be_bytes4 [simp]: "length (be_bytes4 w) = 4"
  by (simp add: be_bytes4_def)

lemma length_be32: "length (be32 bs) = length bs div 4"
  by (induction bs rule: be32.induct) auto

lemma process_block:
  assumes "length (c_buffer ctx) = 64"
  shows "c_h (SHA1_ProcessBlock ctx) = compress (c_buffer ctx) (c_h ctx)" "length (c_buffer (SHA1_ProcessBlock ctx)) = 64"
proof -
  have len: "length (be32 (c_buffer ctx)) = 16" using assms by (simp add: length_be32)
  note r = rounds_std [OF len, of 80 "c_h ctx"]
  have comm: "add_regs R S = add_regs S R" for R S by (cases R; cases S) (simp add: add_regs_def add.commute)
  show "c_h (SHA1_ProcessBlock ctx) = compress (c_buffer ctx) (c_h ctx)" using r comm by (simp add: SHA1_ProcessBlock_def compress_def split_beta Let_def)
  have "length (concat (map (rev \<circ> be_bytes4) ws)) = 4 * length ws" for ws by (induction ws) auto
  with r show "length (c_buffer (SHA1_ProcessBlock ctx)) = 64" by (simp add: SHA1_ProcessBlock_def window_def split_beta Let_def)
qed

section \<open>Any pieces\<close>

abbreviation H0 :: regs where
  "H0 \<equiv> (0x67452301, 0xEFCDAB89, 0x98BADCFE, 0x10325476, 0xC3D2E1F0)"

lemma blocks_one: "length b = 64 \<Longrightarrow> blocks (b @ bs) = b # blocks bs"
  by (simp add: blocks.simps [of "b @ bs"])

lemma blocks_append: "64 dvd length xs \<Longrightarrow> blocks (xs @ ys) = blocks xs @ blocks ys"
proof (induction xs rule: blocks.induct)
  case (1 xs)
  show ?case
  proof (cases "length xs < 64")
    case True
    with 1(2) have "xs = []" by (auto dest: dvd_imp_le)
    then show ?thesis by (simp add: blocks.simps [of "[]"])
  next
    case False
    with 1(2) have "64 dvd length (drop 64 xs)" by (simp add: dvd_minus_self)
    with 1(1) False blocks_one [of "take 64 xs" "drop 64 xs @ ys"] blocks_one [of "take 64 xs" "drop 64 xs"] show ?thesis by (simp flip: append_assoc)
  qed
qed

text \<open>The context after the message \<open>m\<close>: the full blocks are in the hash, the rest is in the buffer.\<close>

definition absorbed :: "SHA_CTX \<Rightarrow> byte list \<Rightarrow> bool" where
  "absorbed ctx m \<longleftrightarrow> (\<exists>full rest. m = full @ rest \<and> 64 dvd length full \<and> length rest < 64 \<and> c_h ctx = fold compress (blocks full) H0 \<and>
     c_size ctx = length rest \<and> take (length rest) (c_buffer ctx) = rest \<and> length (c_buffer ctx) = 64 \<and> c_total ctx = of_nat (length m))"

lemma absorbed_init: "length garbage = 64 \<Longrightarrow> absorbed (SHA1_Init garbage) []"
  by (simp add: absorbed_def SHA1_Init_def blocks.simps [of "[]"])

lemma update_absorbs: "absorbed ctx m \<Longrightarrow> \<exists>ctx'. SHA1_Update ctx data = Inr ctx' \<and> absorbed ctx' (m @ data)"
proof (induction "length data" arbitrary: ctx m data rule: less_induct)
  case less
  show ?case
  proof (cases "data = []")
    case True
    with less.prems show ?thesis by (simp add: SHA1_Update.simps)
  next
    case False
    from less.prems obtain full rest where a: "m = full @ rest" "64 dvd length full" "length rest < 64" "c_h ctx = fold compress (blocks full) H0"
      "c_size ctx = length rest" "take (length rest) (c_buffer ctx) = rest" "length (c_buffer ctx) = 64" "c_total ctx = of_nat (length m)" by (auto simp: absorbed_def)
    define n where "n = min (64 - length rest) (length data)"
    define ctx1 where "ctx1 = ctx\<lparr>c_buffer := take (c_size ctx) (c_buffer ctx) @ take n data @ drop (c_size ctx + n) (c_buffer ctx),
      c_size := c_size ctx + n, c_total := c_total ctx + of_nat n\<rparr>"
    define ctx2 where "ctx2 = (if c_size ctx1 = 64 then (SHA1_ProcessBlock ctx1)\<lparr>c_size := 0\<rparr> else ctx1)"
    have n: "0 < n" "n \<le> length data" "length rest + n \<le> 64" using False a(3) by (auto simp: n_def)
    have run: "SHA1_Update ctx data = SHA1_Update ctx2 (drop n data)"
      unfolding ctx2_def ctx1_def using False a(3,5) by (subst SHA1_Update.simps) (simp add: n_def Let_def)
    have c1: "c_buffer ctx1 = (rest @ take n data) @ drop (length rest + n) (c_buffer ctx)" "c_size ctx1 = length rest + n" "c_h ctx1 = c_h ctx"
      "c_total ctx1 = of_nat (length (m @ take n data))" using a n by (simp_all add: ctx1_def)
    have len: "length (c_buffer ctx1) = 64" using c1(1) a(7) n by simp
    have "absorbed ctx2 (m @ take n data)"
    proof (cases "length rest + n = 64")
      case True
      then have b: "c_buffer ctx1 = rest @ take n data" using c1(1) a(7) by simp
      have "blocks (full @ rest @ take n data) = blocks full @ [rest @ take n data]"
        using blocks_append [OF a(2), of "rest @ take n data"] blocks_one [of "rest @ take n data" "[]"] True n by (simp add: blocks.simps [of "[]"])
      then have "c_h ctx2 = fold compress (blocks (full @ rest @ take n data)) H0" using process_block(1) [OF len] True c1 b a(4) by (simp add: ctx2_def)
      moreover have "64 dvd length (full @ rest @ take n data)" using a(2) True n by simp
      ultimately show ?thesis unfolding absorbed_def using process_block(2) [OF len] True c1 a(1)
        by (intro exI [of _ "full @ rest @ take n data"] exI [of _ "[]"]) (simp add: ctx2_def)
    next
      case False
      with n have "length rest + n < 64" by simp
      with False show ?thesis unfolding absorbed_def using c1 a len n
        by (intro exI [of _ full] exI [of _ "rest @ take n data"]) (simp add: ctx2_def)
    qed
    from less.hyps [OF _ this, of "drop n data"] n run show ?thesis by simp
  qed
qed

lemma update_all_absorbs: "absorbed ctx m \<Longrightarrow> \<exists>ctx'. update_all ctx ds = Inr ctx' \<and> absorbed ctx' (m @ concat ds)"
proof (induction ds arbitrary: ctx m)
  case (Cons d ds)
  from update_absorbs [OF Cons.prems, of d] obtain ctx1 where "SHA1_Update ctx d = Inr ctx1" "absorbed ctx1 (m @ d)" by blast
  with Cons.IH [of ctx1 "m @ d"] show ?case by simp
qed simp

lemma widened: "x < 2 ^ 32 \<Longrightarrow> ucast (of_nat x :: 32 word) = (of_nat x :: 64 word)"
  by (simp add: unsigned_of_nat take_bit_nat_eq_self)

lemma narrowed: "x < 2 ^ 32 \<Longrightarrow> ucast (of_nat x :: 64 word) = (of_nat x :: 32 word)"
  by (simp add: unsigned_of_nat take_bit_nat_eq_self)

lemma high_word: "x < 2 ^ 32 \<Longrightarrow> drop_bit 32 (of_nat x :: 64 word) = 0"
proof -
  assume x: "x < 2 ^ 32"
  have "unat (of_nat x :: 64 word) = x" using x by (simp add: unat_of_nat)
  then have "unat (drop_bit 32 (of_nat x :: 64 word)) = drop_bit 32 x" by (simp only: unat_drop_bit_eq)
  also have "\<dots> = x div 2 ^ 32" by (rule drop_bit_eq_div)
  finally have "unat (drop_bit 32 (of_nat x :: 64 word)) = x div 2 ^ 32" .
  then have "unat (drop_bit 32 (of_nat x :: 64 word)) = 0" using x by simp
  then show ?thesis by (simp add: unsigned_eq_0_iff)
qed

lemma final_sha1:
  assumes "absorbed ctx m" "length m < 2 ^ 29"
  shows "\<exists>ctx'. SHA1_Final ctx = Inr (sha1 m, ctx')"
proof -
  from assms(1) obtain full rest where a: "m = full @ rest" "64 dvd length full" "length rest < 64" "c_size ctx = length rest" "c_total ctx = of_nat (length m)" by (auto simp: absorbed_def)
  have md: "length m mod 64 = length rest" using a(1-3) by (auto simp: mod_add_left_eq [symmetric, of "length full"])
  define k where "k = (if length rest < 56 then 56 - length rest else 64 + 56 - length rest)"
  have short: "length rest < 56 \<Longrightarrow> (119 - length rest) mod 64 = 55 - length rest"
  proof -
    assume "length rest < 56"
    then have "119 - length rest = (55 - length rest) + 64" by simp
    then have "(119 - length rest) mod 64 = ((55 - length rest) + 64) mod 64" by (rule arg_cong)
    also have "\<dots> = (55 - length rest) mod 64" by (rule mod_add_self2)
    also have "\<dots> = 55 - length rest" by (rule mod_less) simp
    finally show ?thesis .
  qed
  have k: "0 < k" "k \<le> 64" using a(3) unfolding k_def by (cases "length rest < 56"; simp)+
  have k3: "(119 - length m mod 64) mod 64 = k - 1" unfolding md using a(3) short by (cases "length rest < 56") (simp_all add: k_def)
  obtain q where q: "length m = 64 * q + length rest" using a(1,2) by (auto elim: dvdE)
  have "length m + k = 56 + 64 * q \<or> length m + k = 56 + 64 * Suc q" using q a(3) by (simp add: k_def)
  then have k4: "(length m + k) mod 64 = 56" by (metis mod_mult_self2 mod_less numeral_less_iff semiring_norm(76,78,81))
  have p: "take k pad = 0x80 # replicate (k - 1) 0" using k(1,2) by (cases k) (simp_all add: pad_def min_def)
  from update_absorbs [OF assms(1), of "take k pad"] obtain ctx1 where u: "SHA1_Update ctx (take k pad) = Inr ctx1" "absorbed ctx1 (m @ take k pad)" by blast
  from u(2) obtain full1 rest1 where b: "m @ take k pad = full1 @ rest1" "64 dvd length full1" "length rest1 < 64" "c_h ctx1 = fold compress (blocks full1) H0"
    "take (length rest1) (c_buffer ctx1) = rest1" "length (c_buffer ctx1) = 64" by (auto simp: absorbed_def)
  have lp: "length (take k pad) = k" using k(2) by (simp add: pad_def)
  have "length rest1 = (length m + k) mod 64" using arg_cong [OF b(1), of length] lp b(2,3) by (auto simp: mod_add_left_eq [symmetric, of "length full1"])
  then have r1: "length rest1 = 56" using k4 by simp
  have small: "8 * length m < 2 ^ 32" using assms(2) by simp
  have bits: "c_total ctx * 8 = of_nat (8 * length m)" using a(5) by simp
  have hi: "ucast (drop_bit 32 (ucast (c_total ctx * 8) :: 64 word)) = (of_nat (8 * length m div 2 ^ 32) :: 32 word)"
    unfolding bits widened [OF small] high_word [OF small] using small by simp
  have lo: "ucast (ucast (c_total ctx * 8) :: 64 word) = (of_nat (8 * length m) :: 32 word)"
    unfolding bits widened [OF small] by (rule narrowed [OF small])
  let ?tail = "be_bytes4 (of_nat (8 * length m div 2 ^ 32)) @ be_bytes4 (of_nat (8 * length m))"
  let ?ctx = "ctx1\<lparr>c_buffer := rest1 @ ?tail\<rparr>"
  have pm: "padded m = full1 @ rest1 @ ?tail" using b(1) p k3 by (simp add: padded_def)
  have "blocks (padded m) = blocks full1 @ [rest1 @ ?tail]"
    unfolding pm using blocks_append [OF b(2)] blocks_one [of "rest1 @ ?tail" "[]"] r1 by (simp add: blocks.simps [of "[]"])
  then have hash: "c_h (SHA1_ProcessBlock ?ctx) = fold compress (blocks (padded m)) H0" using process_block(1) [of ?ctx] r1 b(4) by simp
  have buf: "take 56 (c_buffer ctx1) = rest1" using b(5) r1 by simp
  have "SHA1_Final ctx = Inr (case c_h (SHA1_ProcessBlock ?ctx) of (a, b, c, d, e) \<Rightarrow> (concat (map be_bytes4 [a, b, c, d, e]), (SHA1_ProcessBlock ?ctx)\<lparr>c_h := swap_regs (c_h (SHA1_ProcessBlock ?ctx))\<rparr>))"
    unfolding SHA1_Final_def Let_def hi lo a(4) k_def [symmetric] u(1) bindR_simps buf ..
  then show ?thesis unfolding hash sha1_def by (cases "fold compress (blocks (padded m)) H0") auto
qed

section \<open>Correctness\<close>

text \<open>
  C32: the digest that \<^verbatim>\<open>SHA1_Init\<close>, any number of calls of \<^verbatim>\<open>SHA1_Update\<close> and \<^verbatim>\<open>SHA1_Final\<close> compute is the SHA-1 digest of
  FIPS 180-4 of the concatenated data, however the data is divided among the calls, if it is shorter than 512 MB. No
  access leaves the buffer.\<close>
theorem SHA1_is_standard:
  assumes "length garbage = 64" "length (concat ds) < 2 ^ 29"
  shows "\<exists>ctx. bindR (update_all (SHA1_Init garbage) ds) SHA1_Final = Inr (sha1 (concat ds), ctx)"
proof -
  from update_all_absorbs [OF absorbed_init [OF assms(1)], of ds] obtain ctx where "update_all (SHA1_Init garbage) ds = Inr ctx" "absorbed ctx (concat ds)" by auto
  with final_sha1 [OF _ assms(2)] show ?thesis by simp
qed

theorem SHA1_is_standard_witness:
  "\<exists>ctx. bindR (update_all (SHA1_Init (replicate 64 7)) [[97], [98, 99]]) SHA1_Final = Inr (sha1 [97, 98, 99], ctx)"
  using SHA1_is_standard [of "replicate 64 7" "[[97], [98, 99]]"] by simp

end
