(* ===== verification/Spec2Isabelle.thy ===== *)
theory Spec2Isabelle
  imports Topic_Dispatch Cmd_Table Settings Mysql_Sdk Server Protocol_Exchange Linked_List Utf8_Check
    WebSocket_Stream Base64_Codec Async_Process Command_Restore Property_Types Connect_Setup Async_Reports Heap_Tracking Sha1_Hash
begin

text \<open>
  Verification of the cmqtt server and of the MQTT client library it is built on.

  \<^bold>\<open>The program.\<close> The server (\<^verbatim>\<open>src/\<close>, \<^verbatim>\<open>core/\<close>, \<^verbatim>\<open>lib/\<close>) takes a lock so that one instance runs, reads
  its settings from an INI file, connects to an MQTT broker, loads the table of topics it serves,
  subscribes to them, and from then on dispatches each message that arrives to the handler of its
  topic, which may use a MySQL connection; two threads keep the time and a heartbeat. It links the
  Eclipse Paho client (\<^verbatim>\<open>paho.mqtt.c/src\<close>): sockets and WebSocket frames that carry bytes, a packet layer
  that writes and parses MQTT packets and MQTT 5 properties, a protocol engine that keeps the messages
  in flight for each client, and above it the asynchronous interface, whose calls put commands into a
  queue that a thread executes.

  \<^bold>\<open>Conventions.\<close> A C function that can fault returns a sum: \<open>Inl f\<close> is the undefined behaviour,
  \<^verbatim>\<open>exit\<close> or failed \<^verbatim>\<open>assert\<close> it runs into, \<open>Inr x\<close> its result (\<open>Mqtt_Prelude\<close>). Buffers are byte
  lists with a cursor, and every read and write outside of them is a fault. Integers are words or
  integers with their range written out. The allocator is a predicate on request sizes. Code
  outside the repository, such as the MySQL client, the operating system and the transport, is an
  argument: a record of the results its calls give.

  \<^bold>\<open>Theories, in the order of the program.\<close>
  \<^item> \<open>Mqtt_Prelude\<close>: results and faults, C strings, \<^verbatim>\<open>malloc\<close>, linear search, and the locale
    \<open>cached_search\<close> for a search that tries a remembered position first.
  \<^item> \<open>Config_File\<close>: \<^verbatim>\<open>lib/init.c\<close>, \<open>GetInitKey\<close> character by character. Shown: in a file of headers, entries,
    comments, empty lines and other text it finds the trimmed value of a key in its section; a line of 1024
    characters overruns the buffer for lines, and a section name of more than 1021 the one for results.
  \<^item> \<open>Topic_Dispatch\<close>: \<^verbatim>\<open>core/regfunc.c\<close>, \<^verbatim>\<open>core/handle.c\<close>, the topic table, its loading, subscription,
    dispatch and statistics. Shown: which topics are kept, that dispatch with the remembered entry
    (an interpretation of \<open>cached_search\<close>) refines a registry, and that the counters are right.
  \<^item> \<open>Cmd_Table\<close>: \<^verbatim>\<open>lib/cmd.init.c\<close>, the table of command handlers.
  \<^item> \<open>Settings\<close>: \<^verbatim>\<open>lib/globle.c\<close> and how \<open>main\<close> and \<open>initMysqlAccount\<close> fill the global settings.
  \<^item> \<open>Mysql_Sdk\<close>: \<^verbatim>\<open>lib/mysql.sdk.c\<close>, executing a statement and reconnecting. Shown: a statement is
    executed at most once with success.
  \<^item> \<open>Server\<close>: \<^verbatim>\<open>core/mqtta.c\<close>, \<^verbatim>\<open>core/core.c\<close>, \<^verbatim>\<open>lib/decode.c\<close>, \<^verbatim>\<open>src/main.c\<close>: connection, reconnection
    (bounded by 100 attempts), subscription, receipt, the heartbeat loop over the clock values it
    reads, and the start of the process with its lock, over a kernel with descriptors, record locks and files that all
    processes share. Shown: whichever processes start and end, one at a time runs for each lock file.
  \<^item> \<open>Packet_Codec\<close>: the fields of packets in \<^verbatim>\<open>MQTTPacket.c\<close>. The locale \<open>byte_codec\<close> states that a
    reader inverts a writer anywhere in a buffer and gives round trips and injectivity for
    sequences; it is interpreted for two and four byte integers and for variable byte integers.
  \<^item> \<open>Mqtt_Properties\<close>: \<^verbatim>\<open>MQTTProperties.c\<close>. \<open>holds props ps\<close> relates the C structure, with its growing
    array, to a list of properties; every operation is specified through it, and \<open>byte_codec\<close> is
    interpreted for whole properties.
  \<^item> \<open>Packet_In\<close> and \<open>Packet_Out\<close>: constructors and writers of all packets in \<^verbatim>\<open>MQTTPacket.c\<close> and
    \<^verbatim>\<open>MQTTPacketOut.c\<close>. Shown: writers fill exactly the buffer they allocate, and what is sent is
    what is received.
  \<^item> \<open>Message_Ids\<close>: the search for a free message id, shared by the engine and the asynchronous interface, with
    the ids it finds and when it does not end.
  \<^item> \<open>Protocol_Client\<close>: \<^verbatim>\<open>MQTTProtocolClient.c\<close> on an explicit store of publications, with
    \<open>Protocol_processPublication\<close> of \<^verbatim>\<open>MQTTAsync.c\<close>: message ids, publishing, the handlers of
    \<^verbatim>\<open>PUBLISH\<close>, \<^verbatim>\<open>PUBACK\<close>, \<^verbatim>\<open>PUBREC\<close>, \<^verbatim>\<open>PUBREL\<close>, \<^verbatim>\<open>PUBCOMP\<close>, keep alive, retries, release.
  \<^item> \<open>Protocol_Session\<close>: message ids; the invariant that each stored publication has exactly one owner;
    the abstract receiver, and that the handlers of \<^verbatim>\<open>PUBLISH\<close> and \<^verbatim>\<open>PUBREL\<close> refine it.
  \<^item> \<open>Protocol_Exchange\<close>: the abstract sender; sessions as sequences of packets and publications.
    Shown: every such sequence is processed without a fault and refines the abstract session, a
    QoS 2 message reaches the application exactly once, an outbound message is kept until it is
    acknowledged.
  \<^item> \<open>Linked_List\<close>: \<^verbatim>\<open>LinkedList.c\<close> on a heap of elements. Shown: which list a heap represents after adding,
    removing and emptying, and what is released.
  \<^item> \<open>Utf8_Check\<close>: \<^verbatim>\<open>utf-8.c\<close>; the table of valid ranges accepts exactly the encodings of Unicode.
  \<^item> \<open>Base64_Codec\<close>: \<^verbatim>\<open>Base64.c\<close>; decoding inverts encoding.
  \<^item> \<open>Sha1_Hash\<close>: \<^verbatim>\<open>SHA1.c\<close>; the digest is that of FIPS 180-4, in whatever pieces the message is given.
  \<^item> \<open>Socket_Buffer\<close> and \<open>Socket_Io\<close>: \<^verbatim>\<open>SocketBuffer.c\<close> and \<^verbatim>\<open>Socket.c\<close>, the data of interrupted reads and writes and
    the calls that read, write and continue, over the results of the system calls.
  \<^item> \<open>Packet_Stream\<close>: the reading of a packet in \<^verbatim>\<open>MQTTPacket.c\<close> over a transport. The locale \<open>resumable\<close> is the
    contract of a transport that may have no more bytes and is then read again from the start of the packet.
  \<^item> \<open>Socket_Stream\<close> interprets \<open>resumable\<close> on the sockets: packets are read in order and once, however their
    bytes arrive, and all of them in the end. \<open>Socket_Write\<close>: a packet written in parts is written whole, and
    the buffers the socket layer took over are released exactly once, when the write is finished.
  \<^item> \<open>WebSocket_Frame\<close> and \<open>WebSocket_Stream\<close>: the frames of \<^verbatim>\<open>WebSocket.c\<close>, sent and received. Shown: what is sent is
    one frame, masked with the key drawn, that a reader following RFC 6455 decodes to the packet; what is received from
    a server that sends final, unmasked data frames only are their payloads in order, however the bytes arrive.
  \<^item> \<open>Async_Queue\<close>: the command queue of \<^verbatim>\<open>MQTTAsync.c\<close> and the calls that add to it; how the next command is chosen
    and what adding and taking do to the commands of each client.
  \<^item> \<open>Async_Runs\<close>: runs of the queue as a step relation. Shown: requests are executed in their order, the count of
    buffered messages is right and bounded, a command that can be executed is not starved.
  \<^item> \<open>Async_Calls\<close>: the remaining calls, and the locale \<open>queueing_call\<close> interpreted for each call that queues a
    command, so that the results on runs apply to the calls; what is pending and waiting for it.
  \<^item> \<open>Async_Retry\<close>: the intervals of automatic reconnection. \<open>Async_Process\<close>: \<open>MQTTAsync_processCommand\<close> as a whole,
    with the closing of sessions and the loop of the sending thread. Each report to the application is recorded with the
    request it belongs to, each connection that is started with its address and version. Shown: no request is lost, and
    a connection that is refused is attempted with every server and version in order and then given up.
  \<^item> \<open>Async_Receive\<close>: the receiving side of \<^verbatim>\<open>MQTTAsync.c\<close>: the cycle that reads a packet, the matching of answers with
    pending commands, connecting in steps, timeouts, retries and reconnection. \<open>Async_Reports\<close>: the steps of the
    sending and of the receiving side together. Shown: a request is reported at most once. Addresses of commands are
    not modelled: the stale pointer that a failed write leaves behind may match any waiting command (\<open>pending_at\<close>).
  \<^item> \<open>Property_Types\<close>: the properties a received packet can have, each with the type of its identifier.
  \<^item> \<open>Protocol_Out\<close> and \<open>Connect_Setup\<close>: \<^verbatim>\<open>MQTTProtocolOut.c\<close>, parsing an address, connecting directly or through a
    proxy, and the authentication of proxies; the escapes of a password end.
  \<^item> \<open>File_Store\<close>: \<^verbatim>\<open>MQTTPersistenceDefault.c\<close> over a file system whose calls may fail; \<^verbatim>\<open>fwrite\<close> is buffered, and
    \<^verbatim>\<open>fclose\<close>, whose result is ignored, may lose what it did not write. Shown: a key holds what was last written without
    an error, if its \<^verbatim>\<open>fclose\<close> loses nothing. This is a hypothesis (\<open>flushes\<close>) of the theorems on restarts. \<open>Persistence\<close>, \<open>Packet_Restore\<close>: the records of \<^verbatim>\<open>MQTTPersistence.c\<close> and their restoring;
    messages in flight survive a restart in their order. \<open>Queue_Persist\<close>: queued messages for the application.
    \<open>Command_Store\<close>, \<open>Command_Restore\<close>: the commands of \<^verbatim>\<open>MQTTAsync.c\<close>, written and read back.
  \<^item> \<open>Tree_Code\<close>: \<^verbatim>\<open>Tree.c\<close>, red-black trees with parent pointers on a store of nodes. \<open>Red_Black\<close>: the same trees as a
    data type with positions, and the balancing as functions; order, colours and depth. \<open>Tree_Refine\<close> and \<open>Tree_Ops\<close>:
    the pointer code implements these functions. \<open>Tree_Map\<close>: the locale \<open>ordered_by\<close> is the contract of a comparison
    function. Shown under it: a tree is an ordered map, balanced as long as nothing is replaced.
  \<^item> \<open>Heap_Tracking\<close>: \<^verbatim>\<open>Heap.c\<close> over these trees, with \<open>ordered_by\<close> interpreted for the addresses of blocks. Shown: a
    client that uses the blocks it has sees an allocator: new blocks at least as large as requested, which keep
    their contents until they are freed; the tree records exactly these, and the report at the end names
    the ones that are left.

  \<^bold>\<open>Bounds and termination.\<close> Loops are total functions, except for these. The loop of \<open>Hall\<close> runs over a finite
  list of clock readings, a prefix of its endless run, and \<open>MQTTAsync_waitForCompletion\<close> over a list of
  observations, which is long enough once the timeout is in it; the loop of the sending thread (\<open>send_commands\<close>) runs over
  the inputs of its rounds, one for each attempt to connect. Option-valued partial functions are the search for a
  message id (\<open>search_id\<close>), the receiving of a WebSocket message (\<open>receive_loop\<close>, \<open>getdata_loop\<close>), the drawing of a
  random number (\<open>draw_below\<close>), the escaping of a password
  (\<open>special_loop\<close>), and the loops over lists (\<open>find_loop\<close>, \<open>empty_loop\<close>) and trees (\<open>add_search\<close>, \<open>add_loop\<close>,
  \<open>find_node\<close>, \<open>leftmost\<close>, \<open>climb\<close>, \<open>remove_loop\<close>, \<open>scan_from\<close>, \<open>dump_from\<close>); the theorems state when they return. Bytes arrive on a socket in any finite number of portions. The theorems about packets assume
  bodies below 256 MB, the limit of the protocol, and those about sessions and the command queue that memory is
  available: without it the code uses freed messages (\<open>MQTTProtocol_createMessage\<close>), which the model reports as a
  fault. The clients of the command queue have no persistence, because storing a queued message overruns its key.

  \<^bold>\<open>Not modelled.\<close> Of \<^verbatim>\<open>MQTTAsync.c\<close>: creating and destroying a client and the options of \<open>MQTTAsync_connect\<close>; the
  alternative \<^verbatim>\<open>MQTTClient.c\<close>, a second front end of the same engine which the server does not use; the creation of
  sockets and the HTTP handshake of WebSocket; TLS, which is OpenSSL; threads and mutexes, which are
  the operating system's; logging.
\<close>

end
